(* ===== verification/Prelude.thy ===== *)
theory Prelude
  imports Main "HOL-Library.Word" "HOL-Library.List_Lexorder" "HOL-Library.Char_ord"
begin

text \<open>
  Shared vocabulary of the development: the machine integers of the Rust source, the saturating
  operations of its standard library and the result type of fallible functions. Strings, sorted maps
  and JSON values are in \<open>Json\<close>.

  Integers keep their width. The release profile of \<^verbatim>\<open>rust/Cargo.toml\<close> leaves overflow checks
  off, so \<open>+\<close> and \<open>-\<close> on \<open>u64\<close> and \<open>u32\<close> wrap, exactly as they do on words.
\<close>

section \<open>Collections of facts\<close>

named_theorems data_simps \<open>projections and small operations of the model's data types\<close>
named_theorems op_defs \<open>definitions of operations, for proofs that go through the code branch by branch\<close>

section \<open>Machine integers\<close>

type_synonym u8 = "8 word"
type_synonym u16 = "16 word"
type_synonym u32 = "32 word"
type_synonym u64 = "64 word"

text \<open>\<open>saturating_sub\<close> and \<open>abs_diff\<close> of the standard library.\<close>

definition sat_sub :: "'a::len word \<Rightarrow> 'a word \<Rightarrow> 'a word" where
  "sat_sub a b = (if b \<le> a then a - b else 0)"

definition abs_diff :: "'a::len word \<Rightarrow> 'a word \<Rightarrow> 'a word" where
  "abs_diff a b = (if a \<le> b then b - a else a - b)"

lemma unat_sat_sub [data_simps]: "unat (sat_sub a b) = unat a - unat b"
  by (auto simp: sat_sub_def unat_sub word_le_nat_alt)

lemma sat_sub_0 [simp]: "sat_sub a 0 = a"
  by (simp add: sat_sub_def)

lemma sat_sub_self [simp]: "sat_sub a a = 0"
  by (simp add: sat_sub_def)

lemma sat_sub_less_iff: "sat_sub a b < d \<longleftrightarrow> unat a - unat b < unat d"
  by (simp add: word_less_nat_alt unat_sat_sub)

lemma sat_sub_ge_iff: "d \<le> sat_sub a b \<longleftrightarrow> unat d \<le> unat a - unat b"
  by (simp add: word_le_nat_alt unat_sat_sub)

lemma abs_diff_self [simp]: "abs_diff a a = 0"
  by (simp add: abs_diff_def)

lemma abs_diff_commute: "abs_diff a b = abs_diff b a"
  by (auto simp: abs_diff_def)

lemma word_plus_1_neq [simp]: "(x :: 'a::len word) + 1 \<noteq> x" "x \<noteq> x + 1"
  by simp_all

text \<open>Durations and instants are nanoseconds.\<close>

definition of_secs :: "nat \<Rightarrow> nat" where "of_secs n = n * 1000000000"

section \<open>Results\<close>

text \<open>\<open>Result<T, E>\<close>: \<open>Inl\<close> is \<open>Err\<close>, \<open>Inr\<close> is \<open>Ok\<close>.\<close>

abbreviation Err :: "'e \<Rightarrow> 'e + 'a" where "Err \<equiv> Inl"
abbreviation Ok :: "'a \<Rightarrow> 'e + 'a" where "Ok \<equiv> Inr"

definition is_ok :: "'e + 'a \<Rightarrow> bool" where
  "is_ok r = (case r of Err _ \<Rightarrow> False | Ok _ \<Rightarrow> True)"

lemma is_ok_simps [simp]: "is_ok (Ok a)" "\<not> is_ok (Err e)"
  by (simp_all add: is_ok_def)

lemma map_sum_Ok: "map_sum id f x = Ok y \<longleftrightarrow> (\<exists>z. x = Ok z \<and> y = f z)"
  by (cases x) auto

text \<open>\<open>Option::is_some_and\<close> and \<open>Option::is_none_or\<close>.\<close>

definition is_some_and :: "'a option \<Rightarrow> ('a \<Rightarrow> bool) \<Rightarrow> bool" where
  "is_some_and o' P = (case o' of None \<Rightarrow> False | Some x \<Rightarrow> P x)"

definition is_none_or :: "'a option \<Rightarrow> ('a \<Rightarrow> bool) \<Rightarrow> bool" where
  "is_none_or o' P = (case o' of None \<Rightarrow> True | Some x \<Rightarrow> P x)"

lemma is_some_and_simps [simp]: "\<not> is_some_and None P" "is_some_and (Some x) P = P x"
  by (simp_all add: is_some_and_def)

lemma is_none_or_simps [simp]: "is_none_or None P" "is_none_or (Some x) P = P x"
  by (simp_all add: is_none_or_def)

lemma is_some_and_conv: "is_some_and o' P \<longleftrightarrow> (\<exists>x. o' = Some x \<and> P x)"
  by (cases o') auto

end
