(* ===== verification/Json.thy ===== *)
theory Json
  imports Prelude
begin

text \<open>
  What the source uses of the standard library's strings and maps and of \<open>serde_json\<close> values.
  A Rust \<open>String\<close> is its UTF-8 bytes, so it is a \<open>string\<close> (a list of bytes) here; ordering,
  \<open>len\<close>, \<open>contains\<close>, \<open>starts_with\<close> and the ASCII case conversions all work on bytes. A
  \<open>serde_json::Map\<close> is a \<open>BTreeMap\<close>: an association list kept strictly sorted by key.
\<close>

section \<open>Sorted maps\<close>

fun map_insert :: "'k::linorder \<Rightarrow> 'v \<Rightarrow> ('k \<times> 'v) list \<Rightarrow> ('k \<times> 'v) list" where
  "map_insert k v [] = [(k, v)]"
| "map_insert k v ((a, b) # m) =
     (if k < a then (k, v) # (a, b) # m
      else if k = a then (k, v) # m
      else (a, b) # map_insert k v m)"

definition map_remove :: "'k \<Rightarrow> ('k \<times> 'v) list \<Rightarrow> ('k \<times> 'v) list" where
  "map_remove k m = filter (\<lambda>(a, _). a \<noteq> k) m"

definition map_from :: "('k::linorder \<times> 'v) list \<Rightarrow> ('k \<times> 'v) list" where
  "map_from kvs = fold (\<lambda>(k, v) m. map_insert k v m) kvs []"

abbreviation keys_sorted :: "('k::linorder \<times> 'v) list \<Rightarrow> bool" where
  "keys_sorted m \<equiv> sorted_wrt (<) (map fst m)"

lemma map_of_map_insert [simp]: "map_of (map_insert k v m) = (map_of m)(k \<mapsto> v)"
  by (induction k v m rule: map_insert.induct) (auto simp: fun_eq_iff)

lemma keys_map_insert [simp]: "fst ` set (map_insert k v m) = insert k (fst ` set m)"
  by (induction k v m rule: map_insert.induct) auto

lemma map_insert_sorted: "keys_sorted m \<Longrightarrow> keys_sorted (map_insert k v m)"
  by (induction k v m rule: map_insert.induct) (force simp: keys_map_insert)+

lemma map_insert_last:
  "(\<And>a. a \<in> fst ` set m \<Longrightarrow> a < k) \<Longrightarrow> map_insert k v m = m @ [(k, v)]"
  by (induction k v m rule: map_insert.induct) force+

lemma map_of_map_remove [simp]: "map_of (map_remove k m) = (map_of m)(k := None)"
  by (induction m) (auto simp: map_remove_def fun_eq_iff)

lemma map_remove_sorted: "keys_sorted m \<Longrightarrow> keys_sorted (map_remove k m)"
  by (induction m) (auto simp: map_remove_def)

lemma fold_insert_append:
  "keys_sorted (xs @ ys) \<Longrightarrow> fold (\<lambda>(k, v) m. map_insert k v m) ys xs = xs @ ys"
proof (induction ys arbitrary: xs)
  case Nil
  then show ?case by simp
next
  case (Cons y ys)
  obtain k v where y: "y = (k, v)" by fastforce
  have "map_insert k v xs = xs @ [(k, v)]"
    using Cons.prems by (intro map_insert_last) (auto simp: y sorted_wrt_append)
  moreover have "keys_sorted ((xs @ [(k, v)]) @ ys)" using Cons.prems by (simp add: y)
  ultimately show ?case using Cons.IH [of "xs @ [(k, v)]"] by (simp add: y)
qed

lemma map_from_sorted_id [simp]: "keys_sorted m \<Longrightarrow> map_from m = m"
  using fold_insert_append [of "[]" m] by (simp add: map_from_def)

lemma map_from_sorted: "keys_sorted (map_from kvs)"
proof -
  have "keys_sorted m \<Longrightarrow> keys_sorted (fold (\<lambda>(k, v) m. map_insert k v m) kvs m)" for m
    by (induction kvs arbitrary: m) (auto simp: map_insert_sorted)
  then show ?thesis by (simp add: map_from_def)
qed

section \<open>Values\<close>

text \<open>
  \<open>serde_json::Number\<close>: \<open>PosInt\<close> holds a \<open>u64\<close>, \<open>NegInt\<close> a negative \<open>i64\<close>, \<open>Float\<close> the bits of
  a finite \<open>f64\<close>.
\<close>

datatype number = PosInt u64 | NegInt u64 | Float u64

datatype json = JNull | JBool bool | JNumber number | JString string
  | JArray "json list" | JObject "(string \<times> json) list"

definition jobj :: "(string \<times> json) list \<Rightarrow> json" where
  "jobj kvs = JObject (map_from kvs)"

definition jget :: "string \<Rightarrow> json \<Rightarrow> json option" where
  "jget k v = (case v of JObject m \<Rightarrow> map_of m k | _ \<Rightarrow> None)"

definition as_str :: "json \<Rightarrow> string option" where
  "as_str v = (case v of JString s \<Rightarrow> Some s | _ \<Rightarrow> None)"

definition as_bool :: "json \<Rightarrow> bool option" where
  "as_bool v = (case v of JBool b \<Rightarrow> Some b | _ \<Rightarrow> None)"

definition as_u64 :: "json \<Rightarrow> u64 option" where
  "as_u64 v = (case v of JNumber (PosInt n) \<Rightarrow> Some n | _ \<Rightarrow> None)"

definition as_i64 :: "json \<Rightarrow> u64 option" where
  "as_i64 v = (case v of
     JNumber (PosInt n) \<Rightarrow> if n < 2 ^ 63 then Some n else None
   | JNumber (NegInt n) \<Rightarrow> Some n
   | _ \<Rightarrow> None)"

definition as_array :: "json \<Rightarrow> json list option" where
  "as_array v = (case v of JArray a \<Rightarrow> Some a | _ \<Rightarrow> None)"

definition is_object :: "json \<Rightarrow> bool" where
  "is_object v = (case v of JObject _ \<Rightarrow> True | _ \<Rightarrow> False)"

definition jopt :: "('a \<Rightarrow> json) \<Rightarrow> 'a option \<Rightarrow> json" where
  "jopt f x = (case x of None \<Rightarrow> JNull | Some y \<Rightarrow> f y)"

lemmas json_access = jget_def as_str_def as_bool_def as_u64_def as_i64_def as_array_def is_object_def

lemma jget_jobj: "jget k (jobj kvs) = map_of (map_from kvs) k"
  by (simp add: jget_def jobj_def)

lemma map_of_map_from: "map_of (map_from kvs) = map_of (rev kvs)"
proof -
  have "map_of (fold (\<lambda>(k, v) m. map_insert k v m) kvs m) = map_of m ++ map_of (rev kvs)" for m
    by (induction kvs arbitrary: m) (auto simp: fun_eq_iff map_add_def split: option.split)
  from this [of "[]"] show ?thesis by (simp add: map_from_def)
qed

text \<open>A value every object of which is a proper \<open>BTreeMap\<close>.\<close>

fun json_wf :: "json \<Rightarrow> bool" where
  "json_wf (JArray a) = list_all json_wf a"
| "json_wf (JObject m) = (keys_sorted m \<and> list_all (\<lambda>(_, v). json_wf v) m)"
| "json_wf _ = True"

section \<open>Strings\<close>

definition ascii_lower :: "char \<Rightarrow> char" where
  "ascii_lower c = (let n = of_char c :: nat in if 65 \<le> n \<and> n \<le> 90 then char_of (n + 32) else c)"

definition ascii_upper :: "char \<Rightarrow> char" where
  "ascii_upper c = (let n = of_char c :: nat in if 97 \<le> n \<and> n \<le> 122 then char_of (n - 32) else c)"

definition to_ascii_lowercase :: "string \<Rightarrow> string" where
  "to_ascii_lowercase s = map ascii_lower s"

definition to_ascii_uppercase :: "string \<Rightarrow> string" where
  "to_ascii_uppercase s = map ascii_upper s"

fun starts_with :: "string \<Rightarrow> string \<Rightarrow> bool" where
  "starts_with s [] = True"
| "starts_with [] (p # ps) = False"
| "starts_with (c # s) (p # ps) = (c = p \<and> starts_with s ps)"

definition ends_with :: "string \<Rightarrow> string \<Rightarrow> bool" where
  "ends_with s p = starts_with (rev s) (rev p)"

fun str_contains :: "string \<Rightarrow> string \<Rightarrow> bool" where
  "str_contains [] p = starts_with [] p"
| "str_contains (c # s) p = (starts_with (c # s) p \<or> str_contains s p)"

text \<open>\<open>split(c)\<close>: always at least one piece.\<close>

fun split_char :: "char \<Rightarrow> string \<Rightarrow> string list" where
  "split_char c [] = [[]]"
| "split_char c (x # xs) =
     (if x = c then [] # split_char c xs
      else case split_char c xs of [] \<Rightarrow> [[x]] | p # ps \<Rightarrow> (x # p) # ps)"

lemma starts_with_iff: "starts_with s p \<longleftrightarrow> (\<exists>r. s = p @ r)"
  by (induction s p rule: starts_with.induct) auto

lemma ends_with_iff: "ends_with s p \<longleftrightarrow> (\<exists>r. s = r @ p)"
  by (auto simp: ends_with_def starts_with_iff) (metis rev_append rev_rev_ident)

lemma str_contains_iff: "str_contains s p \<longleftrightarrow> (\<exists>a b. s = a @ p @ b)"
proof (induction s)
  case Nil
  then show ?case by (auto simp: starts_with_iff)
next
  case (Cons c s)
  then show ?case by (auto simp: starts_with_iff Cons_eq_append_conv)
qed

fun nat_digits :: "nat \<Rightarrow> string" where
  "nat_digits n = (if n < 10 then [char_of (48 + n)] else nat_digits (n div 10) @ [char_of (48 + n mod 10)])"

declare nat_digits.simps [simp del]

text \<open>\<open>str::parse::<u64>\<close>: an optional plus sign, then decimal digits, within the type's range.\<close>

definition is_digit :: "char \<Rightarrow> bool" where
  "is_digit c \<longleftrightarrow> 48 \<le> (of_char c :: nat) \<and> (of_char c :: nat) \<le> 57"

definition digits_val :: "string \<Rightarrow> nat" where
  "digits_val s = foldl (\<lambda>n c. n * 10 + (of_char c - 48)) 0 s"

definition parse_nat :: "string \<Rightarrow> nat option" where
  "parse_nat s =
     (let ds = (case s of c # cs \<Rightarrow> if c = CHR ''+'' then cs else s | [] \<Rightarrow> [])
      in if ds = [] \<or> \<not> list_all is_digit ds then None else Some (digits_val ds))"

definition parse_u64 :: "string \<Rightarrow> u64 option" where
  "parse_u64 s = (case parse_nat s of Some n \<Rightarrow> if n < 2 ^ 64 then Some (of_nat n) else None | None \<Rightarrow> None)"

section \<open>White space\<close>

definition ws_char :: "char \<Rightarrow> bool" where
  "ws_char c \<longleftrightarrow> c = CHR '' '' \<or> (9 \<le> (of_char c :: nat) \<and> (of_char c :: nat) \<le> 13)"

text \<open>\<open>trim\<close>, for the ASCII white space that occurs in the fields the program reads.\<close>

definition trim :: "string \<Rightarrow> string" where
  "trim s = rev (dropWhile ws_char (rev (dropWhile ws_char s)))"

end
