(* ===== verification/Blob.thy ===== *)
theory Blob
  imports Json
begin

unbundle bit_operations_syntax

text \<open>
  The blob and blobmsg codec and the ubus frames, \<^verbatim>\<open>rust/src/ubus/blob.rs\<close>. Bytes are \<open>u8\<close> words,
  buffers are lists of bytes. The Rust encoders append to an output buffer; what they append does
  not depend on the buffer, so the encoders here return it, as an option whose \<open>None\<close> is the panic of
  the \<open>assert!\<close> in \<open>put_attr\<close>. Decoders return a sum whose left side is the \<open>BlobError\<close>. Slices that
  the source takes after a length check are \<open>take\<close> and \<open>drop\<close>.
\<close>

section \<open>Bytes\<close>

text \<open>\<open>to_be_bytes\<close> and \<open>from_be_bytes\<close> of the standard library, for \<open>n\<close> bytes.\<close>

fun to_be :: "nat \<Rightarrow> nat \<Rightarrow> u8 list" where
  "to_be 0 v = []"
| "to_be (Suc n) v = to_be n (v div 256) @ [of_nat v]"

definition from_be :: "u8 list \<Rightarrow> nat" where
  "from_be bs = foldl (\<lambda>acc b. acc * 256 + unat b) 0 bs"

lemma length_to_be [simp]: "length (to_be n v) = n"
  by (induction n arbitrary: v) simp_all

lemma from_be_snoc [simp]: "from_be (bs @ [b]) = from_be bs * 256 + unat b"
  by (simp add: from_be_def)

lemma from_be_Nil [simp]: "from_be [] = 0"
  by (simp add: from_be_def)

lemma from_be_to_be: "v < 256 ^ n \<Longrightarrow> from_be (to_be n v) = v"
proof (induction n arbitrary: v)
  case 0
  then show ?case by simp
next
  case (Suc n)
  have "v div 256 < 256 ^ n" using Suc.prems by (simp add: less_mult_imp_div_less mult.commute)
  then have "from_be (to_be n (v div 256)) = v div 256" by (rule Suc.IH)
  then show ?case by (simp add: unat_of_nat)
qed

text \<open>A string and its bytes.\<close>

definition byte :: "char \<Rightarrow> u8" where "byte c = of_nat (of_char c)"
definition str_bytes :: "string \<Rightarrow> u8 list" where "str_bytes s = map byte s"
definition bytes_str :: "u8 list \<Rightarrow> string" where "bytes_str bs = map (\<lambda>b. char_of (unat b)) bs"

lemma length_str_bytes [simp]: "length (str_bytes s) = length s"
  by (simp add: str_bytes_def)

lemma byte_inverse [simp]: "char_of (unat (byte c)) = c"
proof -
  have "of_char c < (256 :: nat)" by (rule nat_of_char_less_256)
  then have "unat (byte c) = of_char c" by (simp add: byte_def unat_of_nat)
  then show ?thesis by simp
qed

lemma bytes_str_str_bytes [simp]: "bytes_str (str_bytes s) = s"
  by (simp add: bytes_str_def str_bytes_def o_def)

text \<open>
  \<open>String::from_utf8_lossy\<close>: every maximal ill-formed prefix of a sequence becomes one U+FFFD.
  \<open>utf8_len\<close> classifies the start of a non-empty buffer: a well-formed sequence or an ill-formed
  prefix, and its length.
\<close>

definition byte_at :: "u8 list \<Rightarrow> nat \<Rightarrow> u8" where
  "byte_at bs i = (if i < length bs then bs ! i else 0)"

definition cont_byte :: "u8 \<Rightarrow> bool" where
  "cont_byte b \<longleftrightarrow> 0x80 \<le> b \<and> b \<le> 0xBF"

definition second_ok :: "u8 \<Rightarrow> u8 \<Rightarrow> bool" where
  "second_ok b c \<longleftrightarrow>
     (if b = 0xE0 then 0xA0 \<le> c \<and> c \<le> 0xBF
      else if b = 0xED then 0x80 \<le> c \<and> c \<le> 0x9F
      else if b = 0xF0 then 0x90 \<le> c \<and> c \<le> 0xBF
      else if b = 0xF4 then 0x80 \<le> c \<and> c \<le> 0x8F
      else cont_byte c)"

definition utf8_len :: "u8 list \<Rightarrow> bool \<times> nat" where
  "utf8_len bs =
     (let b = byte_at bs 0; c = byte_at bs 1; d = byte_at bs 2; e = byte_at bs 3
      in if b < 0x80 then (True, 1)
         else if 0xC2 \<le> b \<and> b \<le> 0xDF then if cont_byte c then (True, 2) else (False, 1)
         else if 0xE0 \<le> b \<and> b \<le> 0xEF then
           if \<not> second_ok b c then (False, 1) else if cont_byte d then (True, 3) else (False, 2)
         else if 0xF0 \<le> b \<and> b \<le> 0xF4 then
           if \<not> second_ok b c then (False, 1) else if \<not> cont_byte d then (False, 2)
           else if cont_byte e then (True, 4) else (False, 3)
         else (False, 1))"

lemma utf8_len_pos: "0 < snd (utf8_len bs)"
  by (auto simp: utf8_len_def Let_def)

lemma utf8_drop_less: "bs \<noteq> [] \<Longrightarrow> (ok, n) = utf8_len bs \<Longrightarrow> length (drop n bs) < length bs"
  using utf8_len_pos [of bs] by (cases "utf8_len bs") simp

function utf8_lossy :: "u8 list \<Rightarrow> u8 list" where
  "utf8_lossy bs =
     (if bs = [] then []
      else let (ok, n) = utf8_len bs
           in (if ok then take n bs else [0xEF, 0xBF, 0xBD]) @ utf8_lossy (drop n bs))"
  by pat_completeness auto
termination
proof (relation "measure length")
  fix bs :: "u8 list" and x ok n
  assume "bs \<noteq> []" "x = utf8_len bs" "(ok, n) = x"
  then show "(drop n bs, bs) \<in> measure length"
    using utf8_drop_less [of bs ok n] by simp
qed simp

function utf8_valid :: "u8 list \<Rightarrow> bool" where
  "utf8_valid bs =
     (if bs = [] then True
      else let (ok, n) = utf8_len bs in ok \<and> utf8_valid (drop n bs))"
  by pat_completeness auto
termination
proof (relation "measure length")
  fix bs :: "u8 list" and x ok n
  assume "bs \<noteq> []" "x = utf8_len bs" "(ok, n) = x"
  then show "(drop n bs, bs) \<in> measure length"
    using utf8_drop_less [of bs ok n] by simp
qed simp

declare utf8_lossy.simps [simp del] utf8_valid.simps [simp del]

lemma utf8_lossy_valid: "utf8_valid bs \<Longrightarrow> utf8_lossy bs = bs"
proof (induction bs rule: utf8_lossy.induct)
  case (1 bs)
  show ?case
  proof (cases "bs = []")
    case True
    then show ?thesis by (simp add: utf8_lossy.simps)
  next
    case False
    obtain ok n where l: "utf8_len bs = (ok, n)" by fastforce
    with "1.prems" False have "ok" "utf8_valid (drop n bs)"
      by (simp_all add: utf8_valid.simps [of bs])
    with "1.IH" [OF False] l False show ?thesis by (simp add: utf8_lossy.simps [of bs])
  qed
qed

definition from_utf8_lossy :: "u8 list \<Rightarrow> string" where
  "from_utf8_lossy bs = bytes_str (utf8_lossy bs)"

definition str_ok :: "string \<Rightarrow> bool" where
  "str_ok s = utf8_valid (str_bytes s)"

lemma from_utf8_lossy_str: "str_ok s \<Longrightarrow> from_utf8_lossy (str_bytes s) = s"
  by (simp add: from_utf8_lossy_def str_ok_def utf8_lossy_valid)

section \<open>Attributes\<close>

definition blob_attr_id_mask :: u32 where "blob_attr_id_mask = 0x7f000000"
definition blob_attr_len_mask :: u32 where "blob_attr_len_mask = 0x00ffffff"
definition blob_attr_extended :: u32 where "blob_attr_extended = 0x80000000"
definition ubus_max_msglen :: nat where "ubus_max_msglen = 1048576"

definition ty_unspec :: u8 where "ty_unspec = 0"
definition ty_array :: u8 where "ty_array = 1"
definition ty_table :: u8 where "ty_table = 2"
definition ty_string :: u8 where "ty_string = 3"
definition ty_int64 :: u8 where "ty_int64 = 4"
definition ty_int32 :: u8 where "ty_int32 = 5"
definition ty_int16 :: u8 where "ty_int16 = 6"
definition ty_int8 :: u8 where "ty_int8 = 7"
definition ty_double :: u8 where "ty_double = 8"

lemmas ty_defs = ty_unspec_def ty_array_def ty_table_def ty_string_def ty_int64_def ty_int32_def
  ty_int16_def ty_int8_def ty_double_def

datatype blob_error = TruncatedAttrHeader | AttrShorterThanHeader | AttrLongerThanContainer
  | Int32WrongLength | NotExtended | TruncatedMsgHeader | NameTooLong
  | WrongLength u8 nat | TooDeep | UnknownType u8
  | MsgShorterThanHeader | MsgTooLarge nat | TruncatedMsgHead | TruncatedMsgBody

record attr =
  a_id :: u8
  a_extended :: bool
  a_data :: "u8 list"

text \<open>\<open>align\<close>: round up to a multiple of four (\<open>(n + 3) & !3\<close>).\<close>

definition align :: "nat \<Rightarrow> nat" where "align n = (n + 3) div 4 * 4"

lemma align_ge: "n \<le> align n" and align_mod: "align n mod 4 = 0" and align_less: "align n < n + 4"
  unfolding align_def by presburger+

lemma align_mult [simp]: "n mod 4 = 0 \<Longrightarrow> align n = n"
  unfolding align_def by presburger

definition from_be32 :: "u8 list \<Rightarrow> u32" where "from_be32 bs = of_nat (from_be bs)"

function parse_attrs :: "u8 list \<Rightarrow> blob_error + attr list" where
  "parse_attrs rest =
     (if rest = [] then Ok []
      else if length rest < 4 then Err TruncatedAttrHeader
      else
        let id_len = from_be32 (take 4 rest);
            raw_len = unat (id_len AND blob_attr_len_mask)
        in if raw_len < 4 then Err AttrShorterThanHeader
           else if raw_len > length rest then Err AttrLongerThanContainer
           else
             let a = \<lparr>a_id = ucast (drop_bit 24 (id_len AND blob_attr_id_mask)),
                      a_extended = (id_len AND blob_attr_extended \<noteq> 0),
                      a_data = take (raw_len - 4) (drop 4 rest)\<rparr>
             in case parse_attrs (drop (min (align raw_len) (length rest)) rest) of
                  Err e \<Rightarrow> Err e
                | Ok as \<Rightarrow> Ok (a # as))"
  by pat_completeness auto
termination
proof (relation "measure length")
  fix rest :: "u8 list" and id_len :: u32 and raw_len :: nat and a :: attr
  assume "rest \<noteq> []" "\<not> raw_len < 4"
  then show "(drop (min (align raw_len) (length rest)) rest, rest) \<in> measure length"
    using align_ge [of raw_len] by (cases rest) auto
qed simp

declare parse_attrs.simps [simp del]

definition put_attr :: "u8 \<Rightarrow> bool \<Rightarrow> u8 list \<Rightarrow> u8 list option" where
  "put_attr ty ext payload =
     (let raw_len = 4 + length payload
      in if (of_nat raw_len :: u32) \<le> blob_attr_len_mask \<and> ty \<le> 0x7f then
           let id_len = push_bit 24 (ucast ty :: u32) OR of_nat raw_len;
               id_len = (if ext then id_len OR blob_attr_extended else id_len)
           in Some (to_be 4 (unat id_len) @ payload @ replicate (align raw_len - raw_len) 0)
         else None)"

lemma attr_masks:
  "blob_attr_len_mask = mask 24" "blob_attr_id_mask = push_bit 24 (mask 7)"
  "blob_attr_extended = push_bit 31 1"
  by (simp_all add: blob_attr_len_mask_def blob_attr_id_mask_def blob_attr_extended_def mask_eq_exp_minus_1)

lemma extended_bit: "bit blob_attr_extended n \<longleftrightarrow> n = 31"
proof -
  have "bit (push_bit 31 1 :: u32) n \<longleftrightarrow> n = 31"
    unfolding bit_push_bit_iff bit_1_iff by auto
  then show ?thesis unfolding attr_masks(3) .
qed

lemma small_bits:
  fixes x :: "'a::len word"
  assumes "uint x < 2 ^ k" "bit x n"
  shows "n < k"
proof -
  have "x AND mask k = x" using assms(1) by (simp add: mask_eq_iff)
  with assms(2) show ?thesis by (metis bit_and_iff bit_mask_iff)
qed

definition attr_word :: "u8 \<Rightarrow> bool \<Rightarrow> u32 \<Rightarrow> u32" where
  "attr_word ty ext len =
     (let w = push_bit 24 (ucast ty) OR len in if ext then w OR blob_attr_extended else w)"

lemma attr_word_bits:
  assumes "len \<le> blob_attr_len_mask" "ty \<le> 0x7f" "n < 32"
  shows "bit (attr_word ty ext len) n \<longleftrightarrow>
     (if n < 24 then bit len n else if n < 31 then bit ty (n - 24) else ext)"
proof -
  have "uint len < 2 ^ 24" using assms(1) by (simp add: blob_attr_len_mask_def word_le_def)
  then have l: "bit len m \<Longrightarrow> m < 24" for m by (rule small_bits)
  have "uint ty < 2 ^ 7" using assms(2) by (simp add: word_le_def)
  then have t: "bit ty m \<Longrightarrow> m < 7" for m by (rule small_bits)
  show ?thesis using assms(3) l [of n] t [of "n - 24"]
    by (auto simp: attr_word_def extended_bit Let_def bit_or_iff bit_push_bit_iff bit_ucast_iff bit_1_iff)
qed

lemma attr_word_len:
  assumes "len \<le> blob_attr_len_mask" "ty \<le> 0x7f"
  shows "attr_word ty ext len AND blob_attr_len_mask = len"
proof (rule bit_word_eqI)
  fix n assume n: "n < LENGTH(32)"
  have "uint len < 2 ^ 24" using assms(1) by (simp add: blob_attr_len_mask_def word_le_def)
  then have "bit len n \<Longrightarrow> n < 24" by (rule small_bits)
  with n assms show "bit (attr_word ty ext len AND blob_attr_len_mask) n = bit len n"
    by (auto simp: attr_masks(1) bit_and_iff bit_mask_iff attr_word_bits)
qed

lemma attr_word_id:
  assumes "len \<le> blob_attr_len_mask" "ty \<le> 0x7f"
  shows "ucast (drop_bit 24 (attr_word ty ext len AND blob_attr_id_mask)) = ty"
proof (rule bit_word_eqI)
  fix n assume n: "n < LENGTH(8)"
  have "uint ty < 2 ^ 7" using assms(2) by (simp add: word_le_def)
  then have t: "bit ty n \<Longrightarrow> n < 7" by (rule small_bits)
  show "bit (ucast (drop_bit 24 (attr_word ty ext len AND blob_attr_id_mask)) :: u8) n = bit ty n"
  proof (cases "n < 7")
    case True
    with assms show ?thesis
      by (simp add: attr_masks(2) bit_ucast_iff bit_drop_bit_eq bit_and_iff bit_push_bit_iff bit_mask_iff attr_word_bits)
  next
    case False
    with t show ?thesis
      by (auto simp: attr_masks(2) bit_ucast_iff bit_drop_bit_eq bit_and_iff bit_push_bit_iff bit_mask_iff)
  qed
qed

lemma attr_word_ext:
  assumes "len \<le> blob_attr_len_mask" "ty \<le> 0x7f"
  shows "(attr_word ty ext len AND blob_attr_extended \<noteq> 0) = ext"
proof -
  have "attr_word ty ext len AND blob_attr_extended = (if ext then blob_attr_extended else 0)"
  proof (rule bit_word_eqI)
    fix n assume "n < LENGTH(32)"
    with assms show "bit (attr_word ty ext len AND blob_attr_extended) n
        = bit (if ext then blob_attr_extended else 0) n"
      by (auto simp: extended_bit bit_and_iff attr_word_bits)
  qed
  then show ?thesis by (simp add: blob_attr_extended_def)
qed

lemma put_attr_Some:
  assumes "put_attr ty ext payload = Some bs"
  shows "bs = to_be 4 (unat (attr_word ty ext (of_nat (4 + length payload)))) @ payload
              @ replicate (align (4 + length payload) - (4 + length payload)) 0"
    and "(of_nat (4 + length payload) :: u32) \<le> blob_attr_len_mask" "ty \<le> 0x7f"
  using assms by (auto simp: put_attr_def attr_word_def Let_def split: if_splits)

lemma put_attr_length: "put_attr ty ext payload = Some bs \<Longrightarrow> length bs = align (4 + length payload)"
  using align_ge [of "4 + length payload"] by (auto dest: put_attr_Some(1))

lemma from_be32_to_be: "from_be32 (to_be 4 (unat (w :: u32))) = w"
proof -
  have "unat w < 256 ^ 4" using unsigned_less [of w] by simp
  then show ?thesis by (simp add: from_be32_def from_be_to_be)
qed

lemma parse_attrs_put_attr:
  assumes put: "put_attr ty ext payload = Some bs" and small: "length bs < 2 ^ 24"
  shows "parse_attrs (bs @ rest) =
     (case parse_attrs rest of Err e \<Rightarrow> Err e
      | Ok as \<Rightarrow> Ok (\<lparr>a_id = ty, a_extended = ext, a_data = payload\<rparr> # as))"
proof -
  let ?n = "4 + length payload"
  let ?w = "attr_word ty ext (of_nat ?n)"
  have len: "length bs = align ?n" using put by (rule put_attr_length)
  have le: "(of_nat ?n :: u32) \<le> blob_attr_len_mask" and ty: "ty \<le> 0x7f"
    using put_attr_Some(2,3) [OF put] by simp_all
  have nlt: "?n < 2 ^ 32" using small len align_ge [of ?n] by simp
  have w: "unat (?w AND blob_attr_len_mask) = ?n"
    unfolding attr_word_len [OF le ty] using nlt by (simp only: unat_of_nat) simp
  have hd4: "take 4 (bs @ rest) = to_be 4 (unat ?w)" and tl4: "take (?n - 4) (drop 4 (bs @ rest)) = payload"
    unfolding put_attr_Some(1) [OF put] by simp_all
  have dr: "drop (min (align ?n) (length (bs @ rest))) (bs @ rest) = rest"
    using len by simp
  have ne: "bs @ rest \<noteq> []" "\<not> length (bs @ rest) < 4" "\<not> ?n > length (bs @ rest)"
    using len align_ge [of ?n] by auto
  show ?thesis
    unfolding parse_attrs.simps [of "bs @ rest"] hd4 from_be32_to_be Let_def w dr tl4
      attr_word_id [OF le ty] attr_word_ext [OF le ty]
    by (simp only: ne if_False) simp
qed

section \<open>Blob accessors\<close>

definition put_u32 :: "u8 \<Rightarrow> u32 \<Rightarrow> u8 list option" where
  "put_u32 ty v = put_attr ty False (to_be 4 (unat v))"

definition put_string :: "u8 \<Rightarrow> string \<Rightarrow> u8 list option" where
  "put_string ty s = put_attr ty False (str_bytes s @ [0])"

definition get_u32 :: "attr \<Rightarrow> blob_error + u32" where
  "get_u32 a = (if length (a_data a) = 4 then Ok (from_be32 (a_data a)) else Err Int32WrongLength)"

definition until_nul :: "u8 list \<Rightarrow> u8 list" where
  "until_nul bs = takeWhile (\<lambda>b. b \<noteq> 0) bs"

definition get_string :: "attr \<Rightarrow> string" where
  "get_string a = from_utf8_lossy (until_nul (a_data a))"

definition attr_max :: nat where "attr_max = 14"

text \<open>\<open>msg_attrs\<close>: attributes by id; the last one wins, ids out of range are ignored.\<close>

definition msg_attrs :: "u8 list \<Rightarrow> blob_error + attr option list" where
  "msg_attrs children =
     (case parse_attrs children of
        Err e \<Rightarrow> Err e
      | Ok as \<Rightarrow> Ok (foldl (\<lambda>out a. if unat (a_id a) < length out then out[unat (a_id a) := Some a] else out)
                         (replicate attr_max None) as))"

section \<open>blobmsg\<close>

definition blobmsg_payload :: "string \<Rightarrow> u8 list \<Rightarrow> u8 list" where
  "blobmsg_payload name data =
     (let hdrlen = align (2 + length name + 1)
      in to_be 2 (unat (of_nat (length name) :: u16)) @ str_bytes name
         @ replicate (hdrlen - (2 + length name)) 0 @ data)"

definition blobmsg_put_raw :: "u8 \<Rightarrow> string \<Rightarrow> u8 list \<Rightarrow> u8 list option" where
  "blobmsg_put_raw ty name data = put_attr ty True (blobmsg_payload name data)"

text \<open>
  \<open>as_f64\<close> of an integer above \<open>i64::MAX\<close>: the nearest double, ties to even. The 64-bit value has
  its top bit set, so the double has exponent 63 and keeps the top 53 bits.
\<close>

definition f64_of_big :: "u64 \<Rightarrow> u64" where
  "f64_of_big n =
     (let k = unat n; m = k div 2048; r = k mod 2048;
          m = (if r > 1024 \<or> (r = 1024 \<and> odd m) then m + 1 else m)
      in of_nat (1086 * 2 ^ 52 + (m - 2 ^ 52)))"

definition number_bytes :: "number \<Rightarrow> u8 \<times> u8 list" where
  "number_bytes n =
     (case as_i64 (JNumber n) of
        Some i \<Rightarrow>
          if - (2 ^ 31) \<le> sint i \<and> sint i < 2 ^ 31
          then (ty_int32, to_be 4 (unat (ucast i :: u32)))
          else (ty_int64, to_be 8 (unat i))
      | None \<Rightarrow>
          (ty_double, to_be 8 (unat (case n of Float b \<Rightarrow> b | PosInt k \<Rightarrow> f64_of_big k | NegInt k \<Rightarrow> 0))))"

fun concat_opt :: "'a list option list \<Rightarrow> 'a list option" where
  "concat_opt [] = Some []"
| "concat_opt (x # xs) =
     (case x of None \<Rightarrow> None
      | Some y \<Rightarrow> (case concat_opt xs of None \<Rightarrow> None | Some ys \<Rightarrow> Some (y @ ys)))"

fun blobmsg_put_json :: "string \<Rightarrow> json \<Rightarrow> u8 list option" where
  "blobmsg_put_json name JNull = blobmsg_put_raw ty_unspec name []"
| "blobmsg_put_json name (JBool b) = blobmsg_put_raw ty_int8 name [if b then 1 else 0]"
| "blobmsg_put_json name (JNumber n) =
     blobmsg_put_raw (fst (number_bytes n)) name (snd (number_bytes n))"
| "blobmsg_put_json name (JString s) = blobmsg_put_raw ty_string name (str_bytes s @ [0])"
| "blobmsg_put_json name (JArray items) =
     (case concat_opt (map (\<lambda>v. blobmsg_put_json [] v) items) of
        None \<Rightarrow> None | Some inner \<Rightarrow> blobmsg_put_raw ty_array name inner)"
| "blobmsg_put_json name (JObject m) =
     (case concat_opt (map (\<lambda>(k, v). blobmsg_put_json k v) m) of
        None \<Rightarrow> None | Some inner \<Rightarrow> blobmsg_put_raw ty_table name inner)"

definition blobmsg_table :: "(string \<times> json) list \<Rightarrow> u8 list option" where
  "blobmsg_table m = concat_opt (map (\<lambda>(k, v). blobmsg_put_json k v) m)"

definition max_depth :: nat where "max_depth = 32"

fun traverse :: "('a \<Rightarrow> 'e + 'b) \<Rightarrow> 'a list \<Rightarrow> 'e + 'b list" where
  "traverse f [] = Ok []"
| "traverse f (x # xs) =
     (case f x of Err e \<Rightarrow> Err e
      | Ok y \<Rightarrow> (case traverse f xs of Err e \<Rightarrow> Err e | Ok ys \<Rightarrow> Ok (y # ys)))"

lemma traverse_cong [fundef_cong]:
  "xs = ys \<Longrightarrow> (\<And>x. x \<in> set ys \<Longrightarrow> f x = g x) \<Longrightarrow> traverse f xs = traverse g ys"
  by (induction xs arbitrary: ys) (auto split: sum.splits)

definition json_i64 :: "u64 \<Rightarrow> json" where
  "json_i64 i = JNumber (if 0 \<le> sint i then PosInt i else NegInt i)"

definition json_f64 :: "u64 \<Rightarrow> json" where
  "json_f64 b = (if take_bit 11 (drop_bit 52 b) = mask 11 then JNull else JNumber (Float b))"

definition decode_scalar :: "u8 \<Rightarrow> u8 list \<Rightarrow> blob_error + json" where
  "decode_scalar ty d =
     (if ty = ty_string then Ok (JString (from_utf8_lossy (until_nul d)))
      else if ty = ty_int64 then
        if length d = 8 then Ok (json_i64 (of_nat (from_be d))) else Err (WrongLength ty (length d))
      else if ty = ty_int32 then
        if length d = 4 then Ok (json_i64 (scast (of_nat (from_be d) :: u32))) else Err (WrongLength ty (length d))
      else if ty = ty_int16 then
        if length d = 2 then Ok (json_i64 (scast (of_nat (from_be d) :: u16))) else Err (WrongLength ty (length d))
      else if ty = ty_int8 then
        if length d = 1 then Ok (JBool (d \<noteq> [0])) else Err (WrongLength ty (length d))
      else if ty = ty_double then
        if length d = 8 then Ok (json_f64 (of_nat (from_be d))) else Err (WrongLength ty (length d))
      else Err (UnknownType ty))"

function decode_at :: "attr \<Rightarrow> nat \<Rightarrow> blob_error + string \<times> json" where
  "decode_at a depth =
     (if \<not> a_extended a then Err NotExtended
      else if length (a_data a) < 3 then Err TruncatedMsgHeader
      else
        let p = a_data a; namelen = from_be (take 2 p); hdrlen = align (2 + namelen + 1)
        in if hdrlen > length p then Err NameTooLong
           else
             let name = from_utf8_lossy (take namelen (drop 2 p)); d = drop hdrlen p
             in if a_id a = ty_unspec then Ok (name, JNull)
                else if a_id a = ty_array \<or> a_id a = ty_table then
                  if depth \<ge> max_depth then Err TooDeep
                  else
                    (case parse_attrs d of
                       Err e \<Rightarrow> Err e
                     | Ok as \<Rightarrow>
                         (case traverse (\<lambda>b. decode_at b (Suc depth)) as of
                            Err e \<Rightarrow> Err e
                          | Ok vs \<Rightarrow>
                              Ok (name, if a_id a = ty_array then JArray (map snd vs)
                                        else JObject (map_from vs))))
                else
                  (case decode_scalar (a_id a) d of Err e \<Rightarrow> Err e | Ok v \<Rightarrow> Ok (name, v)))"
  by pat_completeness auto
termination by (relation "measure (\<lambda>(a, depth). max_depth - depth)") auto

declare decode_at.simps [simp del]

definition object_at :: "u8 list \<Rightarrow> nat \<Rightarrow> blob_error + (string \<times> json) list" where
  "object_at buf depth =
     (case parse_attrs buf of
        Err e \<Rightarrow> Err e
      | Ok as \<Rightarrow> (case traverse (\<lambda>a. decode_at a depth) as of
                    Err e \<Rightarrow> Err e | Ok vs \<Rightarrow> Ok (map_from vs)))"

definition array_at :: "u8 list \<Rightarrow> nat \<Rightarrow> blob_error + json list" where
  "array_at buf depth =
     (case parse_attrs buf of
        Err e \<Rightarrow> Err e
      | Ok as \<Rightarrow> (case traverse (\<lambda>a. decode_at a depth) as of
                    Err e \<Rightarrow> Err e | Ok vs \<Rightarrow> Ok (map snd vs)))"

definition blobmsg_object :: "u8 list \<Rightarrow> blob_error + (string \<times> json) list" where
  "blobmsg_object buf = object_at buf 0"

lemma decode_at_array:
  assumes "a_extended a" "\<not> length (a_data a) < 3"
    and "hdrlen = align (2 + from_be (take 2 (a_data a)) + 1)" "hdrlen \<le> length (a_data a)"
    and "a_id a = ty_array" "depth < max_depth"
  shows "decode_at a depth = (case array_at (drop hdrlen (a_data a)) (Suc depth) of
      Err e \<Rightarrow> Err e
    | Ok vs \<Rightarrow> Ok (from_utf8_lossy (take (from_be (take 2 (a_data a))) (drop 2 (a_data a))), JArray vs))"
  using assms
  by (simp add: decode_at.simps [of a] Let_def array_at_def ty_defs split: sum.split)

lemma decode_at_table:
  assumes "a_extended a" "\<not> length (a_data a) < 3"
    and "hdrlen = align (2 + from_be (take 2 (a_data a)) + 1)" "hdrlen \<le> length (a_data a)"
    and "a_id a = ty_table" "depth < max_depth"
  shows "decode_at a depth = (case object_at (drop hdrlen (a_data a)) (Suc depth) of
      Err e \<Rightarrow> Err e
    | Ok m \<Rightarrow> Ok (from_utf8_lossy (take (from_be (take 2 (a_data a))) (drop 2 (a_data a))), JObject m))"
  using assms
  by (simp add: decode_at.simps [of a] Let_def object_at_def ty_defs split: sum.split)

section \<open>The JSON to blobmsg round trip\<close>

text \<open>
  The values the encoding keeps: integers of the \<open>i64\<close> range, finite doubles, strings and names in
  UTF-8, strings without NUL, names whose length fits the 16-bit field, objects sorted by key.
\<close>

definition number_ok :: "number \<Rightarrow> bool" where
  "number_ok n = (case n of PosInt k \<Rightarrow> k < 2 ^ 63 | NegInt k \<Rightarrow> sint k < 0
     | Float b \<Rightarrow> take_bit 11 (drop_bit 52 b) \<noteq> mask 11)"

definition name_ok :: "string \<Rightarrow> bool" where
  "name_ok k \<longleftrightarrow> str_ok k \<and> length k < 65536"

fun blob_ok :: "json \<Rightarrow> bool" where
  "blob_ok JNull = True"
| "blob_ok (JBool _) = True"
| "blob_ok (JNumber n) = number_ok n"
| "blob_ok (JString s) = (str_ok s \<and> CHR 0x00 \<notin> set s)"
| "blob_ok (JArray a) = list_all blob_ok a"
| "blob_ok (JObject m) = (keys_sorted m \<and> list_all (\<lambda>(k, v). name_ok k \<and> blob_ok v) m)"

fun json_depth :: "json \<Rightarrow> nat" where
  "json_depth (JArray a) = Suc (foldr max (map json_depth a) 0)"
| "json_depth (JObject m) = Suc (foldr max (map (\<lambda>(_, v). json_depth v) m) 0)"
| "json_depth _ = 0"

lemma foldr_max_ge: "x \<in> set xs \<Longrightarrow> x \<le> foldr max xs (0 :: nat)"
  by (induction xs) auto

lemma name_ok_Nil [simp]: "name_ok []"
  by (simp add: name_ok_def str_ok_def str_bytes_def utf8_valid.simps)

definition field_attr :: "u8 \<Rightarrow> string \<Rightarrow> u8 list \<Rightarrow> attr" where
  "field_attr ty name d = \<lparr>a_id = ty, a_extended = True, a_data = blobmsg_payload name d\<rparr>"

lemma field_attr_sel [simp]:
  "a_id (field_attr ty name d) = ty" "a_extended (field_attr ty name d)"
  "a_data (field_attr ty name d) = blobmsg_payload name d"
  by (simp_all add: field_attr_def)

lemma blobmsg_payload_parts:
  fixes name :: string and d :: "u8 list"
  assumes "name_ok name"
  defines "p \<equiv> blobmsg_payload name d" and "h \<equiv> align (2 + length name + 1)"
  shows "from_be (take 2 p) = length name" "\<not> length p < 3" "h \<le> length p" "drop h p = d"
    "take (length name) (drop 2 p) = str_bytes name" "length d \<le> length p"
proof -
  have n: "length name < 256 ^ 2" using assms(1) by (simp add: name_ok_def)
  then have u: "unat (of_nat (length name) :: u16) = length name" by (simp add: unat_of_nat)
  have h: "2 + length name + 1 \<le> h" using align_ge [of "2 + length name + 1"] by (simp add: h_def)
  have p: "p = to_be 2 (length name) @ str_bytes name @ replicate (h - (2 + length name)) 0 @ d"
    by (simp add: p_def blobmsg_payload_def Let_def u h_def)
  have lp: "length p = h + length d" using h by (simp add: p)
  show "from_be (take 2 p) = length name" using from_be_to_be [OF n] by (simp add: p)
  show "\<not> length p < 3" "h \<le> length p" "length d \<le> length p" using h lp by simp_all
  show "drop h p = d" using h by (simp add: p)
  show "take (length name) (drop 2 p) = str_bytes name" by (simp add: p)
qed

lemma decode_field_scalar:
  assumes "name_ok name" "ty \<noteq> ty_unspec" "ty \<noteq> ty_array" "ty \<noteq> ty_table"
  shows "decode_at (field_attr ty name d) depth
           = (case decode_scalar ty d of Err e \<Rightarrow> Err e | Ok v \<Rightarrow> Ok (name, v))"
  using assms blobmsg_payload_parts [OF assms(1), of d]
  by (simp add: decode_at.simps [of "field_attr ty name d"] Let_def name_ok_def from_utf8_lossy_str
      del: One_nat_def)

lemma decode_field_unspec:
  assumes "name_ok name"
  shows "decode_at (field_attr ty_unspec name d) depth = Ok (name, JNull)"
  using assms blobmsg_payload_parts [OF assms(1), of d]
  by (simp add: decode_at.simps [of "field_attr ty_unspec name d"] Let_def name_ok_def from_utf8_lossy_str
      del: One_nat_def)

lemma decode_field_array:
  assumes "name_ok name" "depth < max_depth"
  shows "decode_at (field_attr ty_array name d) depth
           = (case array_at d (Suc depth) of Err e \<Rightarrow> Err e | Ok vs \<Rightarrow> Ok (name, JArray vs))"
  using assms blobmsg_payload_parts [OF assms(1), of d]
  by (simp add: decode_at_array name_ok_def from_utf8_lossy_str del: One_nat_def split: sum.split)

lemma decode_field_table:
  assumes "name_ok name" "depth < max_depth"
  shows "decode_at (field_attr ty_table name d) depth
           = (case object_at d (Suc depth) of Err e \<Rightarrow> Err e | Ok m \<Rightarrow> Ok (name, JObject m))"
  using assms blobmsg_payload_parts [OF assms(1), of d]
  by (simp add: decode_at_table name_ok_def from_utf8_lossy_str del: One_nat_def split: sum.split)

lemma decode_number:
  assumes "number_ok n"
  shows "decode_scalar (fst (number_bytes n)) (snd (number_bytes n)) = Ok (JNumber n)"
    "fst (number_bytes n) \<notin> {ty_unspec, ty_array, ty_table}"
proof -
  have be8: "of_nat (from_be (to_be 8 (unat i))) = i" for i :: u64
  proof -
    have "unat i < 256 ^ 8" using unsigned_less [of i] by simp
    then show ?thesis by (simp add: from_be_to_be)
  qed
  have be4: "of_nat (from_be (to_be 4 (unat i))) = i" for i :: u32
  proof -
    have "unat i < 256 ^ 4" using unsigned_less [of i] by simp
    then show ?thesis by (simp add: from_be_to_be)
  qed
  have pos: "0 \<le> sint k" if "k < 2 ^ 63" for k :: u64
  proof -
    have "uint k < 2 ^ 63" using that by (simp add: word_less_def)
    moreover have "- (2 ^ 63) \<le> uint k" by (rule order_trans [OF _ uint_ge_0]) simp
    ultimately have "signed_take_bit 63 (uint k) = uint k" by (simp only: signed_take_bit_int_eq_self)
    then show ?thesis by (simp add: sint_uint)
  qed
  have sc: "scast (ucast i :: u32) = i" if "- (2 ^ 31) \<le> sint i" "sint i < 2 ^ 31" for i :: u64
  proof -
    have "sint (ucast i :: u32) = signed_take_bit 31 (sint i)"
      by (simp add: sint_uint uint_up_ucast unsigned_ucast_eq) (simp add: signed_take_bit_take_bit)
    also have "\<dots> = sint i" using that by (simp only: signed_take_bit_int_eq_self)
    finally show ?thesis by (simp add: scast_eq)
  qed
  show "decode_scalar (fst (number_bytes n)) (snd (number_bytes n)) = Ok (JNumber n)"
  proof (cases n)
    case (PosInt k)
    with assms have "k < 2 ^ 63" by (simp add: number_ok_def)
    with PosInt pos [of k] sc [of k] show ?thesis
      by (auto simp: number_bytes_def as_i64_def decode_scalar_def ty_defs be8 be4 json_i64_def)
  next
    case (NegInt k)
    with assms have "sint k < 0" by (simp add: number_ok_def)
    with NegInt sc [of k] show ?thesis
      by (auto simp: number_bytes_def as_i64_def decode_scalar_def ty_defs be8 be4 json_i64_def)
  next
    case (Float b)
    with assms show ?thesis
      by (simp add: number_bytes_def as_i64_def decode_scalar_def ty_defs be8 json_f64_def number_ok_def)
  qed
  show "fst (number_bytes n) \<notin> {ty_unspec, ty_array, ty_table}"
    by (auto simp: number_bytes_def ty_defs split: option.splits if_splits)
qed

lemma decode_string:
  assumes "str_ok s" "CHR 0x00 \<notin> set s"
  shows "decode_scalar ty_string (str_bytes s @ [0]) = Ok (JString s)"
proof -
  have "b \<noteq> 0" if "b \<in> set (str_bytes s)" for b
  proof
    assume "b = 0"
    with that obtain c where c: "c \<in> set s" "byte c = 0" by (auto simp: str_bytes_def)
    from c(2) have "c = char_of (0 :: nat)" by (metis byte_inverse unsigned_0)
    moreover have "char_of (0 :: nat) = CHR 0x00" by code_simp
    ultimately show False using c(1) assms(2) by simp
  qed
  then have "until_nul (str_bytes s @ [0]) = str_bytes s"
    by (simp add: until_nul_def takeWhile_append2)
  with assms(1) show ?thesis by (simp add: decode_scalar_def from_utf8_lossy_str)
qed

text \<open>
  One encoded field, placed before any further bytes, is parsed as one attribute that decodes to the
  name and the value.
\<close>

definition field_parses :: "string \<Rightarrow> json \<Rightarrow> u8 list \<Rightarrow> nat \<Rightarrow> bool" where
  "field_parses name v bs depth \<longleftrightarrow>
     (\<exists>a. decode_at a depth = Ok (name, v) \<and>
          (\<forall>rest. parse_attrs (bs @ rest) =
             (case parse_attrs rest of Err e \<Rightarrow> Err e | Ok as \<Rightarrow> Ok (a # as))))"

lemma field_parses_put_raw:
  assumes "blobmsg_put_raw ty name d = Some bs" "length bs < 2 ^ 24"
    and "decode_at (field_attr ty name d) depth = Ok (name, v)"
  shows "field_parses name v bs depth"
  using assms parse_attrs_put_attr [of ty True "blobmsg_payload name d" bs]
  unfolding field_parses_def blobmsg_put_raw_def field_attr_def by metis

lemma put_raw_length:
  assumes "blobmsg_put_raw ty name d = Some bs"
  shows "length d \<le> length bs"
proof -
  have "length bs = align (4 + length (blobmsg_payload name d))"
    using assms by (auto simp: blobmsg_put_raw_def dest: put_attr_length)
  moreover have "length d \<le> length (blobmsg_payload name d)" by (simp add: blobmsg_payload_def Let_def)
  ultimately show ?thesis using align_ge [of "4 + length (blobmsg_payload name d)"] by linarith
qed

lemma parse_attrs_Nil [simp]: "parse_attrs [] = Ok []"
  by (simp add: parse_attrs.simps)

lemma fields_parse:
  assumes "concat_opt (map (\<lambda>(k, v). blobmsg_put_json k v) kvs) = Some inner" "length inner < 2 ^ 24"
    and "\<And>k v bs. (k, v) \<in> set kvs \<Longrightarrow> blobmsg_put_json k v = Some bs \<Longrightarrow> length bs < 2 ^ 24
           \<Longrightarrow> field_parses k v bs depth"
  shows "\<exists>as. parse_attrs inner = Ok as \<and> traverse (\<lambda>a. decode_at a depth) as = Ok kvs"
  using assms
proof (induction kvs arbitrary: inner)
  case Nil
  then show ?case by auto
next
  case (Cons kv kvs)
  obtain k v where kv: "kv = (k, v)" by fastforce
  from Cons.prems(1) obtain b i where put: "blobmsg_put_json k v = Some b"
    and rest: "concat_opt (map (\<lambda>(k, v). blobmsg_put_json k v) kvs) = Some i" and inner: "inner = b @ i"
    by (auto simp: kv split: option.splits)
  from Cons.prems(2) have "length b < 2 ^ 24" "length i < 2 ^ 24" by (simp_all add: inner)
  with Cons.IH [OF rest] Cons.prems(3) obtain as where as: "parse_attrs i = Ok as"
      "traverse (\<lambda>a. decode_at a depth) as = Ok kvs" by auto
  from Cons.prems(3) [OF _ put \<open>length b < 2 ^ 24\<close>] have "field_parses k v b depth" by (simp add: kv)
  then obtain a where "decode_at a depth = Ok (k, v)" "parse_attrs (b @ i) = Ok (a # as)"
    unfolding field_parses_def using as(1) by fastforce
  with as show ?case by (simp add: inner kv)
qed

lemma concat_opt_nameless:
  "map (\<lambda>v. blobmsg_put_json [] v) items = map (\<lambda>(k, v). blobmsg_put_json k v) (map (Pair []) items)"
  by simp

lemma put_json_parses:
  "blobmsg_put_json name v = Some bs \<Longrightarrow> length bs < 2 ^ 24 \<Longrightarrow> name_ok name \<Longrightarrow> blob_ok v
     \<Longrightarrow> depth + json_depth v \<le> max_depth \<Longrightarrow> field_parses name v bs depth"
proof (induction name v arbitrary: bs depth rule: blobmsg_put_json.induct)
  case (1 name)
  then show ?case by (auto intro!: field_parses_put_raw simp: decode_field_unspec)
next
  case (2 name b)
  then show ?case
    by (auto intro!: field_parses_put_raw simp: decode_field_scalar decode_scalar_def ty_defs)
next
  case (3 name n)
  then have "number_ok n" by simp
  from decode_number [OF this] 3 show ?case
    by (auto intro!: field_parses_put_raw simp: decode_field_scalar)
next
  case (4 name s)
  then have "decode_at (field_attr ty_string name (str_bytes s @ [0])) depth = Ok (name, JString s)"
    using decode_field_scalar [of name ty_string "str_bytes s @ [0]" depth] decode_string [of s]
    by (simp add: ty_defs)
  with 4 show ?case by (auto intro!: field_parses_put_raw)
next
  case (5 name items)
  from "5.prems"(1) obtain inner where inner: "concat_opt (map (\<lambda>v. blobmsg_put_json [] v) items) = Some inner"
    and raw: "blobmsg_put_raw ty_array name inner = Some bs" by (auto split: option.splits)
  have d: "depth < max_depth" using "5.prems"(5) by simp
  have each: "field_parses k v b (Suc depth)"
    if "(k, v) \<in> set (map (Pair []) items)" "blobmsg_put_json k v = Some b" "length b < 2 ^ 24" for k v b
  proof -
    from that have v: "k = []" "v \<in> set items" by auto
    then have "json_depth v \<le> foldr max (map json_depth items) 0" by (auto intro: foldr_max_ge)
    with v that "5.prems" "5.IH" [of v b "Suc depth"] show ?thesis by (auto simp: list_all_iff)
  qed
  have "length inner < 2 ^ 24" using put_raw_length [OF raw] "5.prems"(2) by simp
  from fields_parse [OF inner [unfolded concat_opt_nameless] this each]
  obtain as where "parse_attrs inner = Ok as"
    "traverse (\<lambda>a. decode_at a (Suc depth)) as = Ok (map (Pair []) items)" by blast
  then have "array_at inner (Suc depth) = Ok items" by (simp add: array_at_def o_def)
  with raw "5.prems" d show ?case
    by (auto intro!: field_parses_put_raw simp: decode_field_array)
next
  case (6 name m)
  from "6.prems"(1) obtain inner where inner: "concat_opt (map (\<lambda>(k, v). blobmsg_put_json k v) m) = Some inner"
    and raw: "blobmsg_put_raw ty_table name inner = Some bs" by (auto split: option.splits)
  have d: "depth < max_depth" using "6.prems"(5) by simp
  have each: "field_parses k v b (Suc depth)"
    if kv: "(k, v) \<in> set m" "blobmsg_put_json k v = Some b" "length b < 2 ^ 24" for k v b
  proof -
    from kv have "json_depth v \<le> foldr max (map (\<lambda>(_, v). json_depth v) m) 0"
      by (force intro: foldr_max_ge)
    moreover from kv "6.prems"(4) have "name_ok k" "blob_ok v" by (auto simp: list_all_iff)
    ultimately show ?thesis using kv "6.prems"(5) "6.IH" [of "(k, v)" k v b "Suc depth"] by simp
  qed
  have "length inner < 2 ^ 24" using put_raw_length [OF raw] "6.prems"(2) by simp
  from fields_parse [OF inner this each]
  obtain as where "parse_attrs inner = Ok as"
    "traverse (\<lambda>a. decode_at a (Suc depth)) as = Ok m" by blast
  then have "object_at inner (Suc depth) = Ok m" using "6.prems"(4) by (simp add: object_at_def)
  with raw "6.prems" d show ?case
    by (auto intro!: field_parses_put_raw simp: decode_field_table)
qed

lemma blobmsg_object_table:
  assumes "blobmsg_table m = Some bs" "length bs < 2 ^ 24"
    and "blob_ok (JObject m)" "json_depth (JObject m) \<le> Suc max_depth"
  shows "blobmsg_object bs = Ok m"
proof -
  have each: "field_parses k v b 0"
    if kv: "(k, v) \<in> set m" "blobmsg_put_json k v = Some b" "length b < 2 ^ 24" for k v b
  proof -
    from kv have "json_depth v \<le> foldr max (map (\<lambda>(_, v). json_depth v) m) 0"
      by (force intro: foldr_max_ge)
    with kv assms show ?thesis by (intro put_json_parses) (auto simp: list_all_iff)
  qed
  from fields_parse [OF assms(1) [unfolded blobmsg_table_def] assms(2) each] assms(3)
  show ?thesis by (auto simp: blobmsg_object_def object_at_def)
qed

section \<open>Size of an encoding\<close>

text \<open>
  The length of an encoded field, computed from the value. Below the 24-bit limit of the length
  field the encoder never reaches its \<open>assert!\<close>.
\<close>

definition field_size :: "nat \<Rightarrow> nat \<Rightarrow> nat" where
  "field_size n d = align (4 + align (2 + n + 1) + d)"

fun data_size :: "json \<Rightarrow> nat" where
  "data_size JNull = 0"
| "data_size (JBool _) = 1"
| "data_size (JNumber n) = length (snd (number_bytes n))"
| "data_size (JString s) = length s + 1"
| "data_size (JArray a) = sum_list (map (\<lambda>v. field_size 0 (data_size v)) a)"
| "data_size (JObject m) = sum_list (map (\<lambda>(k, v). field_size (length k) (data_size v)) m)"

lemma put_raw_total:
  assumes "field_size (length name) (length d) < 2 ^ 24" "ty \<le> 0x7f"
  shows "\<exists>bs. blobmsg_put_raw ty name d = Some bs \<and> length bs = field_size (length name) (length d)"
proof -
  let ?p = "blobmsg_payload name d"
  have l: "4 + length ?p = 4 + align (2 + length name + 1) + length d"
    using align_ge [of "2 + length name + 1"] by (simp add: blobmsg_payload_def Let_def)
  then have fs: "align (4 + length ?p) = field_size (length name) (length d)"
    unfolding field_size_def by (simp only:)
  then have lt: "4 + length ?p < 2 ^ 24" using assms(1) align_ge [of "4 + length ?p"] by simp
  have "unat (of_nat (4 + length ?p) :: u32) = 4 + length ?p"
    using lt by (simp only: unat_of_nat) simp
  then have "(of_nat (4 + length ?p) :: u32) \<le> blob_attr_len_mask"
    using lt by (simp add: word_le_nat_alt blob_attr_len_mask_def)
  then obtain bs where "put_attr ty True ?p = Some bs"
    using assms(2) by (simp add: put_attr_def Let_def)
  with put_attr_length [OF this] fs show ?thesis by (auto simp: blobmsg_put_raw_def)
qed

lemma field_size_mono: "d \<le> field_size n d"
  using align_ge [of "4 + align (2 + n + 1) + d"] by (simp add: field_size_def)

lemma concat_opt_total:
  assumes "\<And>x. x \<in> set xs \<Longrightarrow> \<exists>bs. f x = Some bs \<and> length bs = g x"
  shows "\<exists>bs. concat_opt (map f xs) = Some bs \<and> length bs = sum_list (map g xs)"
  using assms
proof (induction xs)
  case (Cons x xs)
  then obtain b c where "f x = Some b" "length b = g x" "concat_opt (map f xs) = Some c"
    "length c = sum_list (map g xs)" by fastforce
  then show ?case by simp
qed simp

lemma data_size_member:
  "v \<in> set items \<Longrightarrow> field_size 0 (data_size v) \<le> data_size (JArray items)"
  "(k, v) \<in> set m \<Longrightarrow> field_size (length k) (data_size v) \<le> data_size (JObject m)"
  by (force intro!: member_le_sum_list)+

lemma put_json_total:
  "field_size (length name) (data_size v) < 2 ^ 24
     \<Longrightarrow> \<exists>bs. blobmsg_put_json name v = Some bs \<and> length bs = field_size (length name) (data_size v)"
proof (induction name v rule: blobmsg_put_json.induct)
  case (1 name)
  then show ?case using put_raw_total [of name "[]" ty_unspec] by (simp add: ty_defs)
next
  case (2 name b)
  then show ?case using put_raw_total [of name "[if b then 1 else 0]" ty_int8] by (simp add: ty_defs)
next
  case (3 name n)
  have "fst (number_bytes n) \<le> 0x7f"
    by (auto simp: number_bytes_def ty_defs split: option.splits)
  with 3 show ?case using put_raw_total [of name "snd (number_bytes n)"] by simp
next
  case (4 name s)
  then show ?case using put_raw_total [of name "str_bytes s @ [0]" ty_string] by (simp add: ty_defs)
next
  case (5 name items)
  have small: "sum_list (map (\<lambda>v. field_size 0 (data_size v)) items) < 2 ^ 24"
    using "5.prems" field_size_mono [of "data_size (JArray items)" "length name"] by simp
  have "\<exists>bs. blobmsg_put_json [] v = Some bs \<and> length bs = field_size 0 (data_size v)"
    if "v \<in> set items" for v
    using that small data_size_member(1) [OF that] "5.IH" [OF that] by simp
  then obtain bs where
    "concat_opt (map (blobmsg_put_json []) items) = Some bs" "length bs = data_size (JArray items)"
    using concat_opt_total [of items "blobmsg_put_json []" "\<lambda>v. field_size 0 (data_size v)"] by auto
  then show ?case using "5.prems" put_raw_total [of name bs ty_array] by (simp add: ty_defs)
next
  case (6 name m)
  let ?f = "\<lambda>(k, v). field_size (length k) (data_size v)"
  have small: "sum_list (map ?f m) < 2 ^ 24"
    using "6.prems" field_size_mono [of "data_size (JObject m)" "length name"] by simp
  have "\<exists>bs. (\<lambda>(k, v). blobmsg_put_json k v) kv = Some bs \<and> length bs = ?f kv"
    if "kv \<in> set m" for kv
  proof (cases kv)
    case (Pair k v)
    with that data_size_member(2) [of k v m] "6.IH" [OF that] small show ?thesis by simp
  qed
  from concat_opt_total [of m "\<lambda>(k, v). blobmsg_put_json k v" ?f, OF this] obtain bs where
    "concat_opt (map (\<lambda>(k, v). blobmsg_put_json k v) m) = Some bs" "length bs = data_size (JObject m)" by auto
  then show ?case using "6.prems" put_raw_total [of name bs ty_table] by (simp add: ty_defs)
qed

lemma blobmsg_table_total:
  assumes "data_size (JObject m) < 2 ^ 24"
  shows "\<exists>bs. blobmsg_table m = Some bs \<and> length bs = data_size (JObject m)"
proof -
  let ?f = "\<lambda>(k, v). field_size (length k) (data_size v)"
  have "\<exists>bs. (\<lambda>(k, v). blobmsg_put_json k v) kv = Some bs \<and> length bs = ?f kv"
    if "kv \<in> set m" for kv
  proof (cases kv)
    case (Pair k v)
    with that data_size_member(2) [of k v m] put_json_total [of k v] assms show ?thesis by simp
  qed
  from concat_opt_total [of m "\<lambda>(k, v). blobmsg_put_json k v" ?f, OF this]
  show ?thesis by (simp add: blobmsg_table_def)
qed

section \<open>What any input decodes to\<close>

lemma traverse_set: "traverse f xs = Ok ys \<Longrightarrow> y \<in> set ys \<Longrightarrow> \<exists>x\<in>set xs. f x = Ok y"
  by (induction xs arbitrary: ys) (auto split: sum.splits)

lemma map_from_values: "snd ` set (map_from kvs) \<subseteq> snd ` set kvs"
proof
  fix v assume "v \<in> snd ` set (map_from kvs)"
  then obtain k where k: "(k, v) \<in> set (map_from kvs)" by auto
  have "distinct (map fst (map_from kvs))"
    using map_from_sorted [of kvs] by (metis strict_sorted_iff)
  with k have "map_of (map_from kvs) k = Some v" by simp
  then have "map_of (rev kvs) k = Some v" by (simp add: map_of_map_from)
  then show "v \<in> snd ` set kvs" by (force dest: map_of_SomeD)
qed

lemma foldr_max_le: "(\<And>x. x \<in> set xs \<Longrightarrow> x \<le> n) \<Longrightarrow> foldr max xs (0 :: nat) \<le> n"
  by (induction xs) auto

lemma decode_scalar_flat:
  "decode_scalar ty d = Ok v \<Longrightarrow> json_depth v = 0 \<and> json_wf v"
  by (auto simp: decode_scalar_def json_i64_def json_f64_def split: if_splits)

lemma decode_at_bounded:
  "decode_at a depth = Ok (name, v) \<Longrightarrow> depth \<le> max_depth
     \<Longrightarrow> depth + json_depth v \<le> max_depth \<and> json_wf v"
proof (induction a depth arbitrary: name v rule: decode_at.induct)
  case (1 a depth)
  let ?p = "a_data a"
  let ?d = "drop (align (2 + from_be (take 2 ?p) + 1)) ?p"
  from "1.prems" have guards: "a_extended a" "\<not> length ?p < 3" "\<not> align (2 + from_be (take 2 ?p) + 1) > length ?p"
    by (auto simp: decode_at.simps [of a] Let_def split: if_splits)
  show ?case
  proof (cases "a_id a = ty_array \<or> a_id a = ty_table")
    case False
    with "1.prems" guards show ?thesis
      by (auto simp: decode_at.simps [of a] Let_def split: if_splits sum.splits dest: decode_scalar_flat)
  next
    case True
    then have nu: "a_id a \<noteq> ty_unspec" by (auto simp: ty_defs)
    with "1.prems" guards True have d: "depth < max_depth"
      by (auto simp: decode_at.simps [of a] Let_def split: if_splits)
    from "1.prems"(1) guards True nu d obtain as vs where as: "parse_attrs ?d = Ok as"
      and vs: "traverse (\<lambda>b. decode_at b (Suc depth)) as = Ok vs"
      and v: "v = (if a_id a = ty_array then JArray (map snd vs) else JObject (map_from vs))"
      by (auto simp: decode_at.simps [of a] Let_def split: sum.splits)
    have each: "Suc depth + json_depth w \<le> max_depth \<and> json_wf w" if "(k, w) \<in> set vs" for k w
    proof -
      from traverse_set [OF vs that] obtain b where b: "b \<in> set as" "decode_at b (Suc depth) = Ok (k, w)"
        by blast
      show ?thesis using "1.IH" [OF _ _ refl refl refl _ refl refl nu True _ as b(1) b(2)] guards d by simp
    qed
    show ?thesis
    proof (cases "a_id a = ty_array")
      case True
      have "foldr max (map json_depth (map snd vs)) 0 \<le> max_depth - Suc depth"
        by (rule foldr_max_le) (use each d in force)
      with v d each True show ?thesis by (auto simp: list_all_iff)
    next
      case False
      have kv: "Suc depth + json_depth w \<le> max_depth \<and> json_wf w" if "(k, w) \<in> set (map_from vs)" for k w
        using that map_from_values [of vs] each by force
      have "foldr max (map (\<lambda>(_, v). json_depth v) (map_from vs)) 0 \<le> max_depth - Suc depth"
        by (rule foldr_max_le) (use kv d in force)
      with v d kv False map_from_sorted [of vs] show ?thesis by (auto simp: list_all_iff)
    qed
  qed
qed

lemma blobmsg_object_bounded:
  assumes "blobmsg_object buf = Ok m"
  shows "json_wf (JObject m) \<and> json_depth (JObject m) \<le> Suc max_depth"
proof -
  from assms obtain as vs where as: "parse_attrs buf = Ok as"
    and vs: "traverse (\<lambda>a. decode_at a 0) as = Ok vs" and m: "m = map_from vs"
    by (auto simp: blobmsg_object_def object_at_def split: sum.splits)
  have each: "json_depth w \<le> max_depth \<and> json_wf w" if "(k, w) \<in> set m" for k w
  proof -
    from that map_from_values [of vs] obtain k' where "(k', w) \<in> set vs" by (auto simp: m)
    from traverse_set [OF vs this] obtain b where "decode_at b 0 = Ok (k', w)" by blast
    from decode_at_bounded [OF this] show ?thesis by simp
  qed
  have "foldr max (map (\<lambda>(_, v). json_depth v) m) 0 \<le> max_depth"
    by (rule foldr_max_le) (use each in force)
  with each map_from_sorted [of vs] show ?thesis by (auto simp: m list_all_iff)
qed

section \<open>Interface: messages on a byte stream\<close>

text \<open>
  What a reader of a byte stream needs of a message format: an encoded message, followed by anything,
  decodes to the message and leaves what follows. Messages then follow each other on one connection
  without any other separator, and the encoding is prefix free.
\<close>

fun decode_many :: "('b list \<Rightarrow> 'e + 'm \<times> 'b list) \<Rightarrow> nat \<Rightarrow> 'b list \<Rightarrow> 'e + 'm list \<times> 'b list" where
  "decode_many dec 0 bs = Ok ([], bs)"
| "decode_many dec (Suc n) bs =
     (case dec bs of
        Err e \<Rightarrow> Err e
      | Ok (m, rest) \<Rightarrow> (case decode_many dec n rest of Err e \<Rightarrow> Err e | Ok (ms, r) \<Rightarrow> Ok (m # ms, r)))"

locale stream_codec =
  fixes enc :: "'m \<Rightarrow> 'b list option" and dec :: "'b list \<Rightarrow> 'e + 'm \<times> 'b list" and ok :: "'m \<Rightarrow> bool"
  assumes enc_total: "ok m \<Longrightarrow> \<exists>b. enc m = Some b"
    and dec_enc: "ok m \<Longrightarrow> enc m = Some b \<Longrightarrow> dec (b @ rest) = Ok (m, rest)"
begin

lemma prefix_free:
  assumes "ok m" "ok m'" "enc m = Some b" "enc m' = Some b'" "b @ r = b' @ r'"
  shows "m = m' \<and> b = b' \<and> r = r'"
  using dec_enc [OF assms(1,3), of r] dec_enc [OF assms(2,4), of r'] assms by auto

lemma stream:
  "list_all ok ms \<Longrightarrow> concat_opt (map enc ms) = Some bs \<Longrightarrow> decode_many dec (length ms) (bs @ rest) = Ok (ms, rest)"
proof (induction ms arbitrary: bs)
  case (Cons m ms)
  then obtain b c where bc: "enc m = Some b" "concat_opt (map enc ms) = Some c" "bs = b @ c"
    by (auto split: option.splits)
  with Cons.prems Cons.IH [OF _ bc(2)] dec_enc [OF _ bc(1), of "c @ rest"] show ?case by simp
qed simp

lemma stream_total:
  "list_all ok ms \<Longrightarrow> \<exists>bs. concat_opt (map enc ms) = Some bs \<and> decode_many dec (length ms) bs = Ok (ms, [])"
proof -
  assume ok: "list_all ok ms"
  then have "\<exists>bs. concat_opt (map enc ms) = Some bs"
    by (induction ms) (use enc_total in force)+
  with stream [OF ok, of _ "[]"] show ?thesis by auto
qed

end

section \<open>Frames\<close>

record msg_hdr =
  version :: u8
  msg_type :: u8
  seq :: u16
  peer :: u32

definition msg_hdr_new :: "u8 \<Rightarrow> u16 \<Rightarrow> u32 \<Rightarrow> msg_hdr" where
  "msg_hdr_new ty s p = \<lparr>version = 0, msg_type = ty, seq = s, peer = p\<rparr>"

record frame =
  hdr :: msg_hdr
  body :: "u8 list"

definition encode_frame :: "frame \<Rightarrow> u8 list option" where
  "encode_frame f =
     (case put_attr 0 False (body f) of
        None \<Rightarrow> None
      | Some b \<Rightarrow> Some ([version (hdr f), msg_type (hdr f)] @ to_be 2 (unat (seq (hdr f)))
                         @ to_be 4 (unat (peer (hdr f))) @ b))"

text \<open>\<open>decode_head\<close> takes the first twelve bytes.\<close>

definition decode_head :: "u8 list \<Rightarrow> blob_error + msg_hdr \<times> nat" where
  "decode_head head =
     (let h = \<lparr>version = head ! 0, msg_type = head ! 1,
               seq = of_nat (from_be (take 2 (drop 2 head))),
               peer = from_be32 (take 4 (drop 4 head))\<rparr>;
          id_len = from_be32 (take 4 (drop 8 head));
          raw_len = unat (id_len AND blob_attr_len_mask)
      in if raw_len < 4 then Err MsgShorterThanHeader
         else if raw_len > ubus_max_msglen then Err (MsgTooLarge raw_len)
         else Ok (h, raw_len))"

datatype read_error = Io | Protocol blob_error

text \<open>
  \<open>read_frame\<close> on the bytes that the stream delivers before it ends: \<open>read_exact\<close> fails with an I/O
  error when fewer bytes than asked for are left. The bytes after the frame stay in the stream.
\<close>

definition read_frame :: "u8 list \<Rightarrow> read_error + frame \<times> u8 list" where
  "read_frame s =
     (if length s < 12 then Err Io
      else
        (case decode_head (take 12 s) of
           Err e \<Rightarrow> Err (Protocol e)
         | Ok (h, raw_len) \<Rightarrow>
             let r = drop 12 s; n = raw_len - 4
             in if length r < n then Err Io
                else Ok (\<lparr>hdr = h, body = take n r\<rparr>, drop n r)))"

text \<open>
  The frames the client writes: the body is a sequence of attributes, each padded to four bytes, and
  is within the message limit.
\<close>

definition frame_ok :: "frame \<Rightarrow> bool" where
  "frame_ok f \<longleftrightarrow> length (body f) mod 4 = 0 \<and> 4 + length (body f) \<le> ubus_max_msglen"

lemma frame_ok_put:
  assumes "frame_ok f"
  shows "put_attr 0 False (body f)
           = Some (to_be 4 (unat (attr_word 0 False (of_nat (4 + length (body f))))) @ body f)"
    and "(of_nat (4 + length (body f)) :: u32) \<le> blob_attr_len_mask"
    and "unat (of_nat (4 + length (body f)) :: u32) = 4 + length (body f)"
proof -
  let ?n = "4 + length (body f)"
  have n: "?n \<le> 1048576" using assms by (simp add: frame_ok_def ubus_max_msglen_def)
  show u: "unat (of_nat ?n :: u32) = ?n" using n by (simp only: unat_of_nat) simp
  show le: "(of_nat ?n :: u32) \<le> blob_attr_len_mask"
    unfolding word_le_nat_alt u using n by (simp add: blob_attr_len_mask_def)
  have "align ?n = ?n" using assms by (intro align_mult) (auto simp: frame_ok_def)
  with le show "put_attr 0 False (body f) = Some (to_be 4 (unat (attr_word 0 False (of_nat ?n))) @ body f)"
    by (simp add: put_attr_def Let_def attr_word_def)
qed

lemma decode_head_frame:
  assumes "frame_ok f"
  shows "decode_head ([version (hdr f), msg_type (hdr f)] @ to_be 2 (unat (seq (hdr f)))
           @ to_be 4 (unat (peer (hdr f)))
           @ to_be 4 (unat (attr_word 0 False (of_nat (4 + length (body f))))))
         = Ok (hdr f, 4 + length (body f))"
proof -
  have s: "of_nat (from_be (to_be 2 (unat (seq (hdr f))))) = seq (hdr f)"
  proof -
    have "unat (seq (hdr f)) < 256 ^ 2" using unsigned_less [of "seq (hdr f)"] by simp
    then show ?thesis by (simp add: from_be_to_be)
  qed
  have "unat (attr_word 0 False (of_nat (4 + length (body f))) AND blob_attr_len_mask) = 4 + length (body f)"
    using attr_word_len [OF frame_ok_put(2) [OF assms], of 0 False] frame_ok_put(3) [OF assms] by simp
  moreover have "4 + length (body f) \<le> ubus_max_msglen" using assms by (simp add: frame_ok_def)
  ultimately show ?thesis by (simp add: decode_head_def Let_def s from_be32_to_be)
qed

interpretation frames: stream_codec encode_frame read_frame frame_ok
proof
  fix f :: frame
  assume ok: "frame_ok f"
  show "\<exists>b. encode_frame f = Some b" by (simp add: encode_frame_def frame_ok_put(1) [OF ok])
  fix b rest
  assume enc: "encode_frame f = Some b"
  let ?h = "[version (hdr f), msg_type (hdr f)] @ to_be 2 (unat (seq (hdr f)))
     @ to_be 4 (unat (peer (hdr f))) @ to_be 4 (unat (attr_word 0 False (of_nat (4 + length (body f)))))"
  have b: "b = ?h @ body f" using enc by (simp add: encode_frame_def frame_ok_put(1) [OF ok])
  have "take 12 (b @ rest) = ?h" "drop 12 (b @ rest) = body f @ rest" "\<not> length (b @ rest) < 12"
    by (simp_all add: b)
  with decode_head_frame [OF ok] show "read_frame (b @ rest) = Ok (f, rest)"
    by (simp add: read_frame_def)
qed

section \<open>Status names\<close>

definition status_name :: "int \<Rightarrow> string" where
  "status_name code =
     (if code = 0 then ''Success'' else if code = 1 then ''Invalid command''
      else if code = 2 then ''Invalid argument'' else if code = 3 then ''Method not found''
      else if code = 4 then ''Not found'' else if code = 5 then ''No response''
      else if code = 6 then ''Permission denied'' else if code = 7 then ''Request timed out''
      else if code = 8 then ''Operation not supported'' else if code = 9 then ''Unknown error''
      else if code = 10 then ''Connection failed'' else if code = 11 then ''Out of memory''
      else if code = 12 then ''Parsing message data failed'' else if code = 13 then ''System error''
      else ''Unknown error'')"

section \<open>Properties\<close>

lemma parse_attrs_sound:
  "parse_attrs bs = Ok as \<Longrightarrow> sum_list (map (\<lambda>a. 4 + length (a_data a)) as) \<le> length bs"
proof (induction bs arbitrary: as rule: parse_attrs.induct)
  case (1 bs)
  show ?case
  proof (cases "bs = []")
    case True
    with 1 show ?thesis by simp
  next
    case False
    let ?w = "from_be32 (take 4 bs)"
    let ?n = "unat (?w AND blob_attr_len_mask)"
    from "1.prems" False have n: "\<not> length bs < 4" "\<not> ?n < 4" "\<not> ?n > length bs"
      by (auto simp: parse_attrs.simps [of bs] Let_def split: if_splits)
    let ?rest = "drop (min (align ?n) (length bs)) bs"
    from "1.prems" False n obtain as' a where as': "parse_attrs ?rest = Ok as'"
      and as: "as = a # as'" and a: "length (a_data a) = ?n - 4"
      by (fastforce simp: parse_attrs.simps [of bs] Let_def split: sum.splits)
    from "1.IH" [OF False n(1) refl refl n(2,3) refl as']
    have "sum_list (map (\<lambda>a. 4 + length (a_data a)) as') \<le> length bs - min (align ?n) (length bs)" by simp
    with n a as align_ge [of ?n] show ?thesis by simp
  qed
qed

text \<open>
  Property C28. A JSON object whose strings are UTF-8 without NUL, whose names fit the 16-bit length,
  whose integers are in the \<open>i64\<close> range, whose doubles are finite and whose nesting is at most
  \<open>MAX_DEPTH\<close> below the top level, and whose encoding stays below the 24-bit length field, is encoded by
  \<open>blobmsg_table\<close> without a panic and decoded by \<open>blobmsg_object\<close> to the same object.
\<close>

theorem blobmsg_roundtrip:
  assumes "blob_ok (JObject m)" "json_depth (JObject m) \<le> Suc max_depth" "data_size (JObject m) < 2 ^ 24"
  shows "\<exists>bs. blobmsg_table m = Some bs \<and> blobmsg_object bs = Ok m"
proof -
  from blobmsg_table_total [OF assms(3)] obtain bs where
    "blobmsg_table m = Some bs" "length bs = data_size (JObject m)" by blast
  with blobmsg_object_table assms show ?thesis by force
qed

lemma str_ok_examples: "str_ok ''on''" "str_ok ''sim''" "str_ok ''list''"
  by code_simp+

theorem blobmsg_roundtrip_witness:
  "\<exists>bs. blobmsg_table [(''list'', JArray [JNumber (PosInt 7), JNull]), (''on'', JBool True), (''sim'', JString ''on'')]
      = Some bs \<and>
    blobmsg_object bs
      = Ok [(''list'', JArray [JNumber (PosInt 7), JNull]), (''on'', JBool True), (''sim'', JString ''on'')]"
  by (rule blobmsg_roundtrip)
    (simp_all add: name_ok_def str_ok_examples number_ok_def max_depth_def number_bytes_def as_i64_def
      field_size_def align_def)

text \<open>
  Whatever bytes arrive, a successful \<open>blobmsg_object\<close> yields a proper sorted map whose
  values are nested at most \<open>MAX_DEPTH\<close> deep: a malicious frame cannot drive the recursion further.
\<close>

theorem blobmsg_object_depth:
  "blobmsg_object buf = Ok m \<Longrightarrow> json_wf (JObject m) \<and> json_depth (JObject m) \<le> Suc max_depth"
  by (rule blobmsg_object_bounded)

theorem blobmsg_object_depth_witness:
  "\<exists>bs. blobmsg_object bs = Ok [(''on'', JBool True)] \<and>
     json_wf (JObject [(''on'', JBool True)]) \<and> json_depth (JObject [(''on'', JBool True)]) \<le> Suc max_depth"
proof -
  let ?m = "[(''on'', JBool True)]"
  have "blob_ok (JObject ?m)" "data_size (JObject ?m) < 2 ^ 24" "json_depth (JObject ?m) \<le> Suc max_depth"
    by (simp_all add: name_ok_def str_ok_examples field_size_def align_def)
  with blobmsg_table_total [of ?m] blobmsg_object_table [of ?m] obtain bs
    where "blobmsg_object bs = Ok ?m" by auto
  with blobmsg_object_depth [of bs ?m] show ?thesis by blast
qed

text \<open>
  Frames written one after another on the connection are read back by \<open>read_frame\<close> as the
  same frames in the same order, and nothing is left over: the frame layout needs no other separator
  as long as bodies are whole attributes and within \<open>UBUS_MAX_MSGLEN\<close>.
\<close>

theorem frames_roundtrip:
  "list_all frame_ok fs \<Longrightarrow>
     \<exists>bs. concat_opt (map encode_frame fs) = Some bs \<and> decode_many read_frame (length fs) bs = Ok (fs, [])"
  by (rule frames.stream_total)

theorem frames_roundtrip_witness:
  "\<exists>bs. concat_opt (map encode_frame
        [\<lparr>hdr = msg_hdr_new 4 1 0, body = [2, 0, 0, 6, 0x61, 0, 0, 0]\<rparr>, \<lparr>hdr = msg_hdr_new 5 2 9, body = []\<rparr>])
      = Some bs \<and>
    decode_many read_frame (length [\<lparr>hdr = msg_hdr_new 4 1 0, body = [2, 0, 0, 6, 0x61, 0, 0, 0 :: u8]\<rparr>,
        \<lparr>hdr = msg_hdr_new 5 2 9, body = []\<rparr>]) bs
      = Ok ([\<lparr>hdr = msg_hdr_new 4 1 0, body = [2, 0, 0, 6, 0x61, 0, 0, 0]\<rparr>, \<lparr>hdr = msg_hdr_new 5 2 9, body = []\<rparr>], [])"
  by (rule frames_roundtrip) (simp add: frame_ok_def ubus_max_msglen_def)

text \<open>
  A frame head that announces less than the blob header or more than \<open>UBUS_MAX_MSGLEN\<close> is
  refused before any body is read, and an accepted frame never takes more than the announced length:
  the buffer the reader allocates is bounded.
\<close>

theorem read_frame_bounded:
  assumes "read_frame s = Ok (f, rest)"
  shows "length (body f) + 4 \<le> ubus_max_msglen \<and> length s = 12 + length (body f) + length rest"
proof -
  from assms obtain h n where h: "decode_head (take 12 s) = Ok (h, n)" and l: "\<not> length s < 12"
    and n: "\<not> length (drop 12 s) < n - 4" and f: "f = \<lparr>hdr = h, body = take (n - 4) (drop 12 s)\<rparr>"
    and r: "rest = drop (n - 4) (drop 12 s)"
    by (auto simp: read_frame_def Let_def split: if_splits sum.splits)
  from h have "4 \<le> n" "n \<le> ubus_max_msglen"
    by (auto simp: decode_head_def Let_def split: if_splits)
  with l n show ?thesis by (simp add: f r)
qed

theorem read_frame_bounded_witness:
  "\<exists>s. read_frame s = Ok (\<lparr>hdr = msg_hdr_new 1 7 0, body = [1, 2, 3, 4]\<rparr>, [9]) \<and>
     length (body \<lparr>hdr = msg_hdr_new 1 7 0, body = [1, 2, 3, 4 :: u8]\<rparr>) + 4 \<le> ubus_max_msglen \<and>
     length s = 12 + length (body \<lparr>hdr = msg_hdr_new 1 7 0, body = [1, 2, 3, 4 :: u8]\<rparr>) + length [9 :: u8]"
proof -
  let ?f = "\<lparr>hdr = msg_hdr_new 1 7 0, body = [1, 2, 3, 4]\<rparr>"
  have ok: "frame_ok ?f" by (simp add: frame_ok_def ubus_max_msglen_def)
  with frames.enc_total obtain b where "encode_frame ?f = Some b" by blast
  from frames.dec_enc [OF ok this, of "[9]"] have "read_frame (b @ [9]) = Ok (?f, [9])" .
  with read_frame_bounded [OF this] show ?thesis by blast
qed

end
