(* ===== verification/Ubus_Client.thy ===== *)
theory Ubus_Client
  imports Blob
begin

text \<open>
  The ubus client, \<^verbatim>\<open>rust/src/ubus/client.rs\<close>: connection, sequence numbers, the cache of object ids,
  LOOKUP and INVOKE, and the two retries of \<open>call\<close>. The socket and the clock are the environment: what
  each connect, write and read gives before the deadline is a script, one list per operation, and an
  empty list means that the deadline passes first. The frames written, with the outcome of the write, and
  the frames read go to \<open>c_log\<close>, which the code does not have and no definition reads.

  \<open>UPanic\<close> stands for a failed assertion of the encoder; the process aborts there.
\<close>

section \<open>Constants\<close>

definition mt_hello :: u8 where "mt_hello = 0"
definition mt_status :: u8 where "mt_status = 1"
definition mt_data :: u8 where "mt_data = 2"
definition mt_lookup :: u8 where "mt_lookup = 4"
definition mt_invoke :: u8 where "mt_invoke = 5"

lemmas mt_defs = mt_hello_def mt_status_def mt_data_def mt_lookup_def mt_invoke_def

definition at_status :: u8 where "at_status = 1"
definition at_objpath :: u8 where "at_objpath = 2"
definition at_objid :: u8 where "at_objid = 3"
definition at_method :: u8 where "at_method = 4"
definition at_data :: u8 where "at_data = 7"

lemmas at_defs = at_status_def at_objpath_def at_objid_def at_method_def at_data_def

definition st_ok :: int where "st_ok = 0"
definition st_method_not_found :: int where "st_method_not_found = 3"
definition st_not_found :: int where "st_not_found = 4"

lemmas st_defs = st_ok_def st_method_not_found_def st_not_found_def

section \<open>Data\<close>

datatype protocol_reason = PBlob blob_error | PNotHello u8 | PNoStatus

datatype ubus_error =
  UInvalid string
| UTimeout string string
| USkipped string
| UNotFound string
| UStatus string string int
| UNoData string string
| UIo string
| UProtocol protocol_reason
| UPanic

definition is_timeout :: "ubus_error \<Rightarrow> bool" where
  "is_timeout e = (case e of UTimeout _ _ \<Rightarrow> True | USkipped _ \<Rightarrow> True | _ \<Rightarrow> False)"

text \<open>\<open>validate_name\<close> of \<^verbatim>\<open>ubus/mod.rs\<close>.\<close>

definition name_char :: "char \<Rightarrow> bool" where
  "name_char c \<longleftrightarrow> is_digit c \<or> (CHR ''a'' \<le> c \<and> c \<le> CHR ''z'') \<or> (CHR ''A'' \<le> c \<and> c \<le> CHR ''Z'')
     \<or> c \<in> set ''._-''"

definition validate_name :: "string \<Rightarrow> bool" where
  "validate_name v \<longleftrightarrow> v \<noteq> [] \<and> length v \<le> 128 \<and> list_all name_char v"

text \<open>\<open>RoundSkips\<close>: the objects that timed out in this round.\<close>

type_synonym round_skips = "string list"

definition is_skipped :: "string \<Rightarrow> round_skips \<Rightarrow> bool" where
  "is_skipped obj sk \<longleftrightarrow> obj \<in> set sk"

definition skips_record :: "ubus_error \<Rightarrow> round_skips \<Rightarrow> round_skips" where
  "skips_record e sk = (case e of UTimeout obj _ \<Rightarrow> List.insert obj sk | _ \<Rightarrow> sk)"

record client_stats =
  connects :: u64
  dropped_frames :: u64
  timeouts :: u64
  lookups :: u64
  invokes :: u64

record reply =
  rp_data :: "u8 list list"
  rp_status :: int

subsection \<open>The environment\<close>

datatype conn_answer = ConnTimeout | ConnErr string | ConnDone
datatype write_answer = WrTimeout | WrErr string | WrDone
datatype read_answer = RdTimeout | RdIo string | RdProtocol blob_error | RdFrame frame

datatype wire = Wrote frame write_answer | Got frame

record client =
  c_path :: string
  c_timeout_ms :: nat
  c_conn :: bool
  c_seq :: u16
  c_ids :: "(string \<times> u32) list"
  c_stats :: client_stats
  c_stale_write :: bool
  c_invoke_maybe_sent :: bool
  c_connects :: "conn_answer list"
  c_writes :: "write_answer list"
  c_reads :: "read_answer list"
  c_log :: "wire list"

definition client_new :: "string \<Rightarrow> nat \<Rightarrow> conn_answer list \<Rightarrow> write_answer list \<Rightarrow> read_answer list \<Rightarrow> client" where
  "client_new path ms cs ws rs = \<lparr>c_path = path, c_timeout_ms = ms, c_conn = False, c_seq = 0, c_ids = [],
     c_stats = \<lparr>connects = 0, dropped_frames = 0, timeouts = 0, lookups = 0, invokes = 0\<rparr>,
     c_stale_write = False, c_invoke_maybe_sent = False,
     c_connects = cs, c_writes = ws, c_reads = rs, c_log = []\<rparr>"

definition next_connect :: "client \<Rightarrow> conn_answer \<times> client" where
  "next_connect c = (case c_connects c of [] \<Rightarrow> (ConnTimeout, c) | a # as \<Rightarrow> (a, c\<lparr>c_connects := as\<rparr>))"

definition next_write :: "frame \<Rightarrow> client \<Rightarrow> write_answer \<times> client" where
  "next_write f c =
     (let a = (case c_writes c of [] \<Rightarrow> WrTimeout | a # _ \<Rightarrow> a)
      in (a, c\<lparr>c_writes := tl (c_writes c), c_log := c_log c @ [Wrote f a]\<rparr>))"

definition next_read :: "client \<Rightarrow> read_answer \<times> client" where
  "next_read c =
     (case c_reads c of
        [] \<Rightarrow> (RdTimeout, c)
      | a # as \<Rightarrow> (a, c\<lparr>c_reads := as, c_log := c_log c @ (case a of RdFrame f \<Rightarrow> [Got f] | _ \<Rightarrow> [])\<rparr>))"

section \<open>Small operations\<close>

definition last_call_not_sent :: "client \<Rightarrow> bool" where
  "last_call_not_sent c \<longleftrightarrow> \<not> c_invoke_maybe_sent c"

definition ids_get :: "string \<Rightarrow> client \<Rightarrow> u32 option" where
  "ids_get obj c = map_of (c_ids c) obj"

definition ids_remove :: "string \<Rightarrow> client \<Rightarrow> client" where
  "ids_remove obj c = c\<lparr>c_ids := map_remove obj (c_ids c)\<rparr>"

definition protocol :: "protocol_reason \<Rightarrow> client \<Rightarrow> (ubus_error + 'a) \<times> client" where
  "protocol why c = (Err (UProtocol why), c\<lparr>c_conn := False\<rparr>)"

definition lost_connection :: "client \<Rightarrow> client" where
  "lost_connection c = c\<lparr>c_conn := False, c_ids := []\<rparr>"

definition next_seq :: "client \<Rightarrow> u16 \<times> client" where
  "next_seq c = (let s = c_seq c + 1; s = (if s = 0 then 1 else s) in (s, c\<lparr>c_seq := s\<rparr>))"

definition timed_out :: "string \<Rightarrow> client \<Rightarrow> (ubus_error + 'a) \<times> client" where
  "timed_out obj c =
     (Err (UTimeout obj (''ubus '' @ obj @ '' timed out after '' @ nat_digits (c_timeout_ms c) @ '' ms'')),
      (ids_remove obj c)\<lparr>c_conn := False, c_stats := (c_stats c)\<lparr>timeouts := timeouts (c_stats c) + 1\<rparr>\<rparr>)"

section \<open>Connecting and requesting\<close>

definition connect :: "string \<Rightarrow> client \<Rightarrow> (ubus_error + unit) \<times> client" where
  "connect obj c =
     (case next_connect c of
        (ConnTimeout, c) \<Rightarrow> timed_out obj c
      | (ConnErr e, c) \<Rightarrow> (Err (UIo (''connect '' @ c_path c @ '': '' @ e)), c)
      | (ConnDone, c) \<Rightarrow>
          (case next_read c of
             (RdTimeout, c) \<Rightarrow> timed_out obj c
           | (RdIo e, c) \<Rightarrow> (Err (UIo (''ubus hello: '' @ e)), c)
           | (RdProtocol e, c) \<Rightarrow> (Err (UProtocol (PBlob e)), c)
           | (RdFrame f, c) \<Rightarrow>
               if msg_type (hdr f) \<noteq> mt_hello then (Err (UProtocol (PNotHello (msg_type (hdr f)))), c)
               else (Ok (), c\<lparr>c_conn := True, c_stats := (c_stats c)\<lparr>connects := connects (c_stats c) + 1\<rparr>\<rparr>)))"

definition drop_frame :: "client \<Rightarrow> client" where
  "drop_frame c = c\<lparr>c_stats := (c_stats c)\<lparr>dropped_frames := dropped_frames (c_stats c) + 1\<rparr>\<rparr>"

text \<open>The code in a STATUS frame.\<close>

definition status_of :: "frame \<Rightarrow> protocol_reason + int" where
  "status_of f =
     (case msg_attrs (body f) of
        Err e \<Rightarrow> Err (PBlob e)
      | Ok a \<Rightarrow>
          (case a ! unat at_status of
             None \<Rightarrow> Err PNoStatus
           | Some s \<Rightarrow> (case get_u32 s of Err e \<Rightarrow> Err (PBlob e) | Ok w \<Rightarrow> Ok (sint w))))"

text \<open>
  The reading loop of \<open>request\<close>, on the answers the socket gives until the deadline. Frames of other
  requests are dropped.
\<close>

fun read_reply :: "string \<Rightarrow> u16 \<Rightarrow> u32 \<Rightarrow> u8 list list \<Rightarrow> read_answer list \<Rightarrow> client
    \<Rightarrow> (ubus_error + reply) \<times> client" where
  "read_reply obj s p dat [] c = timed_out obj (c\<lparr>c_reads := []\<rparr>)"
| "read_reply obj s p dat (RdTimeout # rs) c = timed_out obj (c\<lparr>c_reads := rs\<rparr>)"
| "read_reply obj s p dat (RdIo e # rs) c = (Err (UIo (''ubus read: '' @ e)), lost_connection (c\<lparr>c_reads := rs\<rparr>))"
| "read_reply obj s p dat (RdProtocol e # rs) c = protocol (PBlob e) (c\<lparr>c_reads := rs\<rparr>)"
| "read_reply obj s p dat (RdFrame f # rs) c =
     (let c = c\<lparr>c_reads := rs, c_log := c_log c @ [Got f]\<rparr>
      in if seq (hdr f) \<noteq> s \<or> peer (hdr f) \<noteq> p then read_reply obj s p dat rs (drop_frame c)
         else if msg_type (hdr f) = mt_data then read_reply obj s p (dat @ [body f]) rs c
         else if msg_type (hdr f) = mt_status then
           (case status_of f of
              Err e \<Rightarrow> protocol e c
            | Ok code \<Rightarrow> (Ok \<lparr>rp_data = dat, rp_status = code\<rparr>, c))
         else read_reply obj s p dat rs (drop_frame c))"

text \<open>A write that failed did not reach the daemon; one that was done or timed out may have.\<close>

definition maybe_reached :: "write_answer \<Rightarrow> bool" where
  "maybe_reached a = (case a of WrErr _ \<Rightarrow> False | _ \<Rightarrow> True)"

definition send_request :: "string \<Rightarrow> u8 \<Rightarrow> u16 \<Rightarrow> u32 \<Rightarrow> frame \<Rightarrow> bool \<Rightarrow> client \<Rightarrow> (ubus_error + reply) \<times> client" where
  "send_request obj ty s p f fresh c =
     (let (a, c) = next_write f c;
          c = (if ty = mt_invoke \<and> maybe_reached a then c\<lparr>c_invoke_maybe_sent := True\<rparr> else c)
      in case a of
           WrDone \<Rightarrow> read_reply obj s p [] (c_reads c) c
         | WrErr e \<Rightarrow> (Err (UIo (''ubus write: '' @ e)), lost_connection (c\<lparr>c_stale_write := \<not> fresh\<rparr>))
         | WrTimeout \<Rightarrow> timed_out obj c)"

definition request :: "string \<Rightarrow> u8 \<Rightarrow> u32 \<Rightarrow> u8 list \<Rightarrow> client \<Rightarrow> (ubus_error + reply) \<times> client" where
  "request obj ty p bod c =
     (let (s, c) = next_seq c; f = \<lparr>hdr = msg_hdr_new ty s p, body = bod\<rparr>
      in case encode_frame f of
           None \<Rightarrow> (Err UPanic, c)
         | Some _ \<Rightarrow>
             if c_conn c then send_request obj ty s p f False c
             else
               (case connect obj c of
                  (Err e, c) \<Rightarrow> (Err e, c)
                | (Ok _, c) \<Rightarrow> send_request obj ty s p f True c))"

section \<open>LOOKUP and INVOKE\<close>

fun find_object :: "string \<Rightarrow> u8 list list \<Rightarrow> protocol_reason + u32 option" where
  "find_object obj [] = Ok None"
| "find_object obj (d # ds) =
     (case msg_attrs d of
        Err e \<Rightarrow> Err (PBlob e)
      | Ok a \<Rightarrow>
          (case (a ! unat at_objpath, a ! unat at_objid) of
             (Some path, Some i) \<Rightarrow>
               if get_string path = obj
               then (case get_u32 i of Err e \<Rightarrow> Err (PBlob e) | Ok w \<Rightarrow> Ok (Some w))
               else find_object obj ds
           | _ \<Rightarrow> find_object obj ds))"

definition lookup :: "string \<Rightarrow> client \<Rightarrow> (ubus_error + u32) \<times> client" where
  "lookup obj c =
     (let c = c\<lparr>c_stats := (c_stats c)\<lparr>lookups := lookups (c_stats c) + 1\<rparr>\<rparr>
      in case put_string at_objpath obj of
           None \<Rightarrow> (Err UPanic, c)
         | Some bod \<Rightarrow>
             (case request obj mt_lookup 0 bod c of
                (Err e, c) \<Rightarrow> (Err e, c)
              | (Ok r, c) \<Rightarrow>
                  if rp_status r = st_not_found then (Err (UNotFound obj), c)
                  else if rp_status r \<noteq> st_ok then (Err (UStatus obj ''lookup'' (rp_status r)), c)
                  else
                    (case find_object obj (rp_data r) of
                       Err e \<Rightarrow> protocol e c
                     | Ok None \<Rightarrow> (Err (UNotFound obj), c)
                     | Ok (Some i) \<Rightarrow> (Ok i, c\<lparr>c_ids := map_insert obj i (c_ids c)\<rparr>))))"

fun first_data :: "u8 list list \<Rightarrow> protocol_reason + json option" where
  "first_data [] = Ok None"
| "first_data (d # ds) =
     (case msg_attrs d of
        Err e \<Rightarrow> Err (PBlob e)
      | Ok a \<Rightarrow>
          (case a ! unat at_data of
             None \<Rightarrow> first_data ds
           | Some payload \<Rightarrow>
               (case blobmsg_object (a_data payload) of
                  Err e \<Rightarrow> Err (PBlob e)
                | Ok m \<Rightarrow> Ok (Some (JObject m)))))"

definition invoke_body :: "u32 \<Rightarrow> string \<Rightarrow> u8 list \<Rightarrow> u8 list option" where
  "invoke_body i meth dat =
     concat_opt [put_u32 at_objid i, put_string at_method meth, put_attr at_data False dat]"

definition invoke :: "string \<Rightarrow> u32 \<Rightarrow> string \<Rightarrow> u8 list \<Rightarrow> client \<Rightarrow> (ubus_error + json option) \<times> client" where
  "invoke obj i meth dat c =
     (let c = c\<lparr>c_stats := (c_stats c)\<lparr>invokes := invokes (c_stats c) + 1\<rparr>\<rparr>
      in case invoke_body i meth dat of
           None \<Rightarrow> (Err UPanic, c)
         | Some bod \<Rightarrow>
             (case request obj mt_invoke i bod c of
                (Err e, c) \<Rightarrow> (Err e, c)
              | (Ok r, c) \<Rightarrow>
                  if rp_status r \<noteq> st_ok then (Err (UStatus obj meth (rp_status r)), c)
                  else
                    (case first_data (rp_data r) of
                       Err e \<Rightarrow> protocol e c
                     | Ok v \<Rightarrow> (Ok v, c))))"

section \<open>Calls\<close>

text \<open>The id of the object: cached, or looked up.\<close>

definition object_id :: "string \<Rightarrow> client \<Rightarrow> (ubus_error + u32) \<times> client" where
  "object_id obj c = (case ids_get obj c of Some i \<Rightarrow> (Ok i, c) | None \<Rightarrow> lookup obj c)"

text \<open>\<open>call_once\<close>: the loop runs at most twice, the flag is \<open>retried\<close>.\<close>

function call_once :: "string \<Rightarrow> string \<Rightarrow> u8 list \<Rightarrow> bool \<Rightarrow> client \<Rightarrow> (ubus_error + json option) \<times> client" where
  "call_once obj meth dat retried c =
     (case object_id obj c of
        (Err e, c) \<Rightarrow> (Err e, c)
      | (Ok i, c) \<Rightarrow>
          (case invoke obj i meth dat c of
             (Err (UStatus ob me code), c) \<Rightarrow>
               if code = st_not_found \<and> \<not> retried then
                 (case lookup obj (ids_remove obj c) of
                    (Err e, c) \<Rightarrow> (Err e, c)
                  | (Ok j, c) \<Rightarrow>
                      if j = i then (Err (UStatus ob me code), c) else call_once obj meth dat True c)
               else
                 (Err (UStatus ob me code),
                  if code = st_not_found \<or> code = st_method_not_found then ids_remove obj c else c)
           | r \<Rightarrow> r))"
  by pat_completeness auto
termination by (relation "measure (\<lambda>(_, _, _, retried, _). if retried then 0 else 1)") auto

declare call_once.simps [simp del]

text \<open>The loop of \<open>call\<close>: once more when the write on an old connection failed.\<close>

function call_loop :: "string \<Rightarrow> string \<Rightarrow> u8 list \<Rightarrow> bool \<Rightarrow> client \<Rightarrow> (ubus_error + json option) \<times> client" where
  "call_loop obj meth dat resent c =
     (case call_once obj meth dat False (c\<lparr>c_stale_write := False\<rparr>) of
        (Err e, c) \<Rightarrow> if c_stale_write c \<and> \<not> resent then call_loop obj meth dat True c else (Err e, c)
      | r \<Rightarrow> r)"
  by pat_completeness auto
termination by (relation "measure (\<lambda>(_, _, _, resent, _). if resent then 0 else 1)") auto

declare call_loop.simps [simp del]

definition call :: "string \<Rightarrow> string \<Rightarrow> json \<Rightarrow> client \<Rightarrow> (ubus_error + json option) \<times> client" where
  "call obj meth args c =
     (let c = c\<lparr>c_invoke_maybe_sent := False\<rparr>
      in if \<not> validate_name obj \<or> \<not> validate_name meth then (Err (UInvalid ''invalid ubus name''), c)
         else
           (case args of
              JObject m \<Rightarrow>
                (case blobmsg_table m of
                   None \<Rightarrow> (Err UPanic, c)
                 | Some dat \<Rightarrow>
                     if length dat + 256 > ubus_max_msglen then (Err (UInvalid ''ubus args too large''), c)
                     else call_loop obj meth dat False c)
            | _ \<Rightarrow> (Err (UInvalid ''args must be an object''), c)))"

section \<open>What reaches the daemon\<close>

text \<open>The INVOKE frames of a log that may have reached the daemon.\<close>

definition reached :: "wire \<Rightarrow> frame option" where
  "reached w = (case w of
     Wrote f a \<Rightarrow> if msg_type (hdr f) = mt_invoke \<and> maybe_reached a then Some f else None
   | Got _ \<Rightarrow> None)"

definition delivered :: "wire list \<Rightarrow> frame list" where
  "delivered l = List.map_filter reached l"

definition answers_not_found :: "frame \<Rightarrow> frame \<Rightarrow> bool" where
  "answers_not_found f g \<longleftrightarrow> seq (hdr g) = seq (hdr f) \<and> peer (hdr g) = peer (hdr f) \<and> msg_type (hdr g) = mt_status
     \<and> status_of g = Ok st_not_found"

text \<open>
  The rule for a retry, as an automaton over the log. Its state is the INVOKE that may have reached the
  daemon and has not been answered NOT_FOUND; a further INVOKE in that state is a violation (\<open>None\<close>).
\<close>

definition monitor_step :: "frame option \<Rightarrow> wire \<Rightarrow> frame option option" where
  "monitor_step p w =
     (case w of
        Wrote f a \<Rightarrow> if reached w = None then Some p else if p = None then Some (Some f) else None
      | Got g \<Rightarrow> Some (if is_some_and p (\<lambda>f. answers_not_found f g) then None else p))"

fun monitor :: "frame option \<Rightarrow> wire list \<Rightarrow> frame option option" where
  "monitor p [] = Some p"
| "monitor p (w # l) = (case monitor_step p w of None \<Rightarrow> None | Some q \<Rightarrow> monitor q l)"

lemma delivered_simps [simp]:
  "delivered [] = []" "delivered (w # l) = (case reached w of Some f \<Rightarrow> f # delivered l | None \<Rightarrow> delivered l)"
  "delivered (k @ l) = delivered k @ delivered l"
  by (simp_all add: delivered_def List.map_filter_def split: option.split)

lemma monitor_append: "monitor p (k @ l) = (case monitor p k of None \<Rightarrow> None | Some q \<Rightarrow> monitor q l)"
  by (induction k arbitrary: p) (auto split: option.split)

lemma reached_Got [simp]: "reached (Got g) = None"
  by (simp add: reached_def)

lemma monitor_quiet: "delivered l = [] \<Longrightarrow> monitor p l = Some p \<or> monitor p l = Some None"
  by (induction l arbitrary: p) (auto simp: monitor_step_def split: option.splits wire.splits)

lemma monitor_None_quiet: "delivered l = [] \<Longrightarrow> monitor None l = Some None"
  using monitor_quiet [of l None] by auto

subsection \<open>Steps that deliver nothing\<close>

definition quiet :: "client \<Rightarrow> client \<Rightarrow> bool" where
  "quiet c c' \<longleftrightarrow> c_invoke_maybe_sent c' = c_invoke_maybe_sent c
     \<and> (\<exists>l. c_log c' = c_log c @ l \<and> delivered l = [])"

text \<open>From the state \<open>p\<close> of the automaton, a step that leads to \<open>q\<close>; the flag is right.\<close>

definition fair :: "frame option \<Rightarrow> client \<Rightarrow> client \<Rightarrow> frame option \<Rightarrow> bool" where
  "fair p c c' q \<longleftrightarrow> (\<exists>l. c_log c' = c_log c @ l \<and> monitor p l = Some q
     \<and> c_invoke_maybe_sent c' = (c_invoke_maybe_sent c \<or> delivered l \<noteq> []))"

lemma quiet_refl [simp]: "quiet c c" by (simp add: quiet_def)

lemma quiet_same: "c_invoke_maybe_sent c' = c_invoke_maybe_sent c \<Longrightarrow> c_log c' = c_log c \<Longrightarrow> quiet c c'"
  by (simp add: quiet_def)

lemma quiet_trans: "quiet c c' \<Longrightarrow> quiet c' c'' \<Longrightarrow> quiet c c''"
  by (fastforce simp: quiet_def)

lemma quiet_fair: "quiet c c' \<Longrightarrow> fair None c c' None"
  unfolding quiet_def fair_def by (metis monitor_None_quiet)

lemma fair_trans: "fair p c c' q \<Longrightarrow> fair q c' c'' r \<Longrightarrow> fair p c c'' r"
  unfolding fair_def by (elim exE conjE, rule_tac x = "l @ la" in exI) (simp add: monitor_append)

lemma fair_quiet_before: "quiet c c' \<Longrightarrow> fair None c' c'' q \<Longrightarrow> fair None c c'' q"
  by (rule fair_trans [OF quiet_fair])

lemma fair_quiet_after: "fair p c c' None \<Longrightarrow> quiet c' c'' \<Longrightarrow> fair p c c'' None"
  by (rule fair_trans [OF _ quiet_fair])

lemma quiet_log: "quiet c (c\<lparr>c_log := c_log c @ [Got g]\<rparr>)"
  by (simp add: quiet_def)

subsection \<open>The operations\<close>

lemma quiet_updates [simp]:
  "quiet c (c'\<lparr>c_stats := st\<rparr>) = quiet c c'" "quiet c (c'\<lparr>c_conn := b\<rparr>) = quiet c c'"
  "quiet c (c'\<lparr>c_ids := m\<rparr>) = quiet c c'" "quiet c (c'\<lparr>c_reads := rs\<rparr>) = quiet c c'"
  "quiet c (c'\<lparr>c_stale_write := b\<rparr>) = quiet c c'" "quiet c (lost_connection c') = quiet c c'"
  "quiet c (ids_remove obj c') = quiet c c'" "quiet c (drop_frame c') = quiet c c'"
  "quiet c (snd (timed_out obj c')) = quiet c c'" "quiet c (snd (protocol e c')) = quiet c c'"
  "quiet c (snd (next_seq c')) = quiet c c'"
  by (simp_all add: quiet_def lost_connection_def ids_remove_def drop_frame_def timed_out_def protocol_def next_seq_def Let_def)

lemma quiet_updates_left [simp]:
  "quiet (c'\<lparr>c_stats := st\<rparr>) c = quiet c' c" "quiet (drop_frame c') c = quiet c' c"
  "quiet (ids_remove obj c') c = quiet c' c" "quiet (snd (next_seq c')) c = quiet c' c"
  by (simp_all add: quiet_def drop_frame_def ids_remove_def next_seq_def Let_def)

lemma stale_updates [simp]:
  "c_stale_write (lost_connection c) = c_stale_write c" "c_stale_write (ids_remove obj c) = c_stale_write c"
  "c_stale_write (drop_frame c) = c_stale_write c" "c_stale_write (snd (timed_out obj c)) = c_stale_write c"
  "c_stale_write (snd (protocol e c)) = c_stale_write c" "c_stale_write (snd (next_seq c)) = c_stale_write c"
  by (simp_all add: lost_connection_def ids_remove_def drop_frame_def timed_out_def protocol_def next_seq_def Let_def)

lemma fst_errors [simp]: "fst (timed_out obj c) \<noteq> Ok x" "fst (protocol e c) \<noteq> Ok x"
  by (simp_all add: timed_out_def protocol_def)

lemma quiet_next_read: "quiet c (snd (next_read c))"
  by (auto simp: next_read_def quiet_def split: list.split read_answer.split)

lemma stale_next_read: "c_stale_write (snd (next_read c)) = c_stale_write c"
  by (auto simp: next_read_def split: list.split)

lemma quiet_next_connect: "quiet c (snd (next_connect c))"
  by (auto simp: next_connect_def quiet_def split: list.split)

lemma stale_next_connect: "c_stale_write (snd (next_connect c)) = c_stale_write c"
  by (auto simp: next_connect_def split: list.split)

lemma quiet_stale_connect: "quiet c (snd (connect obj c)) \<and> c_stale_write (snd (connect obj c)) = c_stale_write c"
proof -
  obtain a c1 where a: "next_connect c = (a, c1)" by fastforce
  obtain b c2 where b: "next_read c1 = (b, c2)" by fastforce
  have q: "quiet c c1" "quiet c1 c2" "c_stale_write c1 = c_stale_write c" "c_stale_write c2 = c_stale_write c1"
    using quiet_next_connect [of c] quiet_next_read [of c1] stale_next_connect [of c] stale_next_read [of c1] a b by simp_all
  then have q2: "quiet c c2" by (blast intro: quiet_trans)
  show ?thesis
    using q q2 by (cases a; cases b) (auto simp: connect_def a b)
qed

lemma read_reply_quiet:
  "quiet c (snd (read_reply obj s p dat rs c)) \<and> c_stale_write (snd (read_reply obj s p dat rs c)) = c_stale_write c"
proof (induction obj s p dat rs c rule: read_reply.induct)
  case (5 obj s p dat f rs c)
  let ?c = "c\<lparr>c_reads := rs, c_log := c_log c @ [Got f]\<rparr>"
  have q: "quiet c ?c" by (simp add: quiet_def)
  have step: "quiet c x" if "quiet ?c x" for x by (rule quiet_trans [OF q that])
  show ?case
  proof (cases "seq (hdr f) \<noteq> s \<or> peer (hdr f) \<noteq> p")
    case True
    with 5(1) [OF refl True] show ?thesis by (auto simp: Let_def intro: step)
  next
    case mine: False
    show ?thesis
    proof (cases "msg_type (hdr f) = mt_data")
      case True
      with mine 5(2) [OF refl mine True] show ?thesis by (auto simp: Let_def intro: step)
    next
      case False
      with mine 5(3) [OF refl mine False] q show ?thesis
        by (cases "msg_type (hdr f) = mt_status") (auto simp: Let_def intro: step split: sum.split)
    qed
  qed
qed simp_all


lemma read_reply_status:
  "read_reply obj s p dat rs c = (Ok r, c') \<Longrightarrow>
     \<exists>l g. c_log c' = c_log c @ l \<and> Got g \<in> set l \<and> seq (hdr g) = s \<and> peer (hdr g) = p \<and> msg_type (hdr g) = mt_status
        \<and> status_of g = Ok (rp_status r) \<and> delivered l = []"
proof (induction obj s p dat rs c rule: read_reply.induct)
  case (5 obj s p dat f rs c)
  show ?case
  proof (cases "seq (hdr f) = s \<and> peer (hdr f) = p \<and> msg_type (hdr f) = mt_status")
    case True
    with 5(4) show ?thesis
      by (intro exI [of _ "[Got f]"] exI [of _ f]) (auto simp: Let_def mt_defs protocol_def split: sum.splits)
  next
    case False
    then obtain dat' c1 where "read_reply obj s p dat' rs c1 = (Ok r, c')" "c_log c1 = c_log c @ [Got f]"
      "\<exists>l g. c_log c' = c_log c1 @ l \<and> Got g \<in> set l \<and> seq (hdr g) = s \<and> peer (hdr g) = p \<and> msg_type (hdr g) = mt_status
        \<and> status_of g = Ok (rp_status r) \<and> delivered l = []"
      using 5 by (auto simp: Let_def drop_frame_def split: if_splits)
    then obtain l g where "c_log c' = c_log c @ (Got f # l)" "Got g \<in> set l" "seq (hdr g) = s" "peer (hdr g) = p"
      "msg_type (hdr g) = mt_status" "status_of g = Ok (rp_status r)" "delivered (Got f # l) = []" by auto
    then show ?thesis by (metis list.set_intros(2))
  qed
qed (auto simp: timed_out_def protocol_def)

lemma monitor_answered:
  "Got g \<in> set l \<Longrightarrow> answers_not_found f g \<Longrightarrow> delivered l = [] \<Longrightarrow> monitor (Some f) l = Some None"
proof (induction l)
  case (Cons w l)
  then show ?case
    by (cases w) (auto simp: monitor_step_def monitor_None_quiet split: option.splits)
qed simp

text \<open>A LOOKUP delivers nothing; an INVOKE delivers at most the one frame.\<close>

lemma send_request_quiet:
  assumes "ty \<noteq> mt_invoke" "msg_type (hdr f) = ty"
  shows "quiet c (snd (send_request obj ty s p f fresh c))"
proof -
  obtain a c1 where w: "next_write f c = (a, c1)" by fastforce
  have "quiet c c1" using w assms by (auto simp: next_write_def Let_def quiet_def reached_def)
  then show ?thesis
    using assms(1) by (cases a) (auto simp: send_request_def w intro: quiet_trans read_reply_quiet [THEN conjunct1])
qed

lemma send_request_fair:
  assumes f: "f = \<lparr>hdr = msg_hdr_new mt_invoke s p, body = bod\<rparr>"
    and r: "send_request obj mt_invoke s p f fresh c = (r, c')"
  shows "\<exists>q. fair None c c' q \<and> ((\<exists>x. r = Ok x \<and> rp_status x = st_not_found) \<or> (c_stale_write c' \<and> \<not> c_stale_write c) \<longrightarrow> q = None)"
proof -
  obtain a c1 where w: "next_write f c = (a, c1)" by fastforce
  have c1: "c_log c1 = c_log c @ [Wrote f a]" "c_stale_write c1 = c_stale_write c" "c_invoke_maybe_sent c1 = c_invoke_maybe_sent c"
    using w by (auto simp: next_write_def Let_def)
  have ty: "msg_type (hdr f) = mt_invoke" "seq (hdr f) = s" "peer (hdr f) = p" by (simp_all add: f msg_hdr_new_def)
  show ?thesis
  proof (cases "maybe_reached a")
    case False
    then obtain e where a: "a = WrErr e" by (cases a) (auto simp: maybe_reached_def)
    have "quiet c c1" using c1 by (simp add: quiet_def reached_def a maybe_reached_def)
    then have "quiet c c'" using r by (auto simp: send_request_def w a maybe_reached_def)
    then show ?thesis using quiet_fair by blast
  next
    case True
    define c2 where "c2 = c1\<lparr>c_invoke_maybe_sent := True\<rparr>"
    have fair2: "fair None c c2 (Some f)"
      unfolding fair_def using c1 True ty
      by (intro exI [of _ "[Wrote f a]"]) (simp add: c2_def monitor_step_def reached_def)
    have rc: "a = WrDone \<and> read_reply obj s p [] (c_reads c2) c2 = (r, c') \<or> timed_out obj c2 = (r, c')"
      using r True by (cases a) (auto simp: send_request_def w c2_def maybe_reached_def)
    then have "c' = snd (read_reply obj s p [] (c_reads c2) c2)
        \<or> c' = snd (timed_out obj c2 :: (ubus_error + reply) \<times> client)" by (metis snd_conv)
    then have quiet2: "quiet c2 c' \<and> c_stale_write c' = c_stale_write c2"
      using read_reply_quiet [of c2 obj s p "[]" "c_reads c2"] by auto
    then obtain l where l: "c_log c' = c_log c2 @ l" "delivered l = []" by (auto simp: quiet_def)
    have stale: "c_stale_write c' = c_stale_write c" using quiet2 c1(2) by (simp add: c2_def)
    have flag: "c_invoke_maybe_sent c' = c_invoke_maybe_sent c2" using quiet2 by (simp add: quiet_def)
    show ?thesis
    proof (cases "\<exists>x. r = Ok x \<and> rp_status x = st_not_found")
      case True
      then obtain x where x: "r = Ok x" "rp_status x = st_not_found" by blast
      have "read_reply obj s p [] (c_reads c2) c2 = (Ok x, c')"
        using rc x(1) by (auto simp: timed_out_def)
      from read_reply_status [OF this] obtain l g where lg: "c_log c' = c_log c2 @ l" "Got g \<in> set l"
        "answers_not_found f g" "delivered l = []"
        by (auto simp: answers_not_found_def ty x(2))
      have "fair (Some f) c2 c' None"
        unfolding fair_def using lg monitor_answered [OF lg(2,3,4)] flag by auto
      then show ?thesis using fair_trans [OF fair2] by blast
    next
      case False
      obtain q where "monitor (Some f) l = Some q" using monitor_quiet [OF l(2)] by blast
      then have "fair (Some f) c2 c' q" unfolding fair_def using l flag by auto
      then have "fair None c c' q" by (rule fair_trans [OF fair2])
      then show ?thesis using False stale by blast
    qed
  qed
qed

lemma fair_seq_left: "fair p (snd (next_seq c)) c' q = fair p c c' q"
  by (simp add: fair_def next_seq_def Let_def)

definition no_status :: "(ubus_error + 'a) \<Rightarrow> bool" where
  "no_status r \<longleftrightarrow> (\<forall>ob me code. r \<noteq> Err (UStatus ob me code))"

lemma read_reply_no_status: "no_status (fst (read_reply obj s p dat rs c))"
  by (induction obj s p dat rs c rule: read_reply.induct)
     (auto simp: no_status_def timed_out_def protocol_def Let_def split: sum.split)

lemma connect_no_status: "no_status (fst (connect obj c))"
  by (auto simp: connect_def no_status_def timed_out_def split: prod.split conn_answer.split read_answer.split)

lemma send_request_no_status: "no_status (fst (send_request obj ty s p f fresh c))"
  using read_reply_no_status
  by (auto simp: send_request_def Let_def no_status_def timed_out_def split: prod.split write_answer.split)

lemma request_no_status: "fst (request obj ty p bod c) \<noteq> Err (UStatus ob me code)"
proof -
  obtain s c1 where n: "next_seq c = (s, c1)" by fastforce
  obtain x c2 where cn: "connect obj c1 = (x, c2)" by fastforce
  have "no_status x" using connect_no_status [of obj c1] cn by simp
  then show ?thesis
    using send_request_no_status [unfolded no_status_def]
    by (cases x) (auto simp: request_def n cn Let_def no_status_def split: option.split)
qed

lemma request_quiet:
  assumes "ty \<noteq> mt_invoke"
  shows "quiet c (snd (request obj ty p bod c))"
proof -
  obtain s c1 where n: "next_seq c = (s, c1)" by fastforce
  have q: "quiet c c1" using n quiet_updates(11) [of c c] by simp
  let ?f = "\<lparr>hdr = msg_hdr_new ty s p, body = bod\<rparr>"
  have ty: "msg_type (hdr ?f) = ty" by (simp add: msg_hdr_new_def)
  obtain r c2 where cn: "connect obj c1 = (r, c2)" by fastforce
  have q2: "quiet c c2" using quiet_stale_connect [of c1 obj] cn q by (auto intro: quiet_trans)
  show ?thesis
    using q q2 quiet_trans [OF q send_request_quiet [OF assms ty]] quiet_trans [OF q2 send_request_quiet [OF assms ty]]
    by (cases r) (auto simp: request_def n cn Let_def split: option.split)
qed

lemma request_fair:
  assumes r: "request obj mt_invoke p bod c = (r, c')"
  shows "\<exists>q. fair None c c' q \<and> ((\<exists>x. r = Ok x \<and> rp_status x = st_not_found) \<or> (c_stale_write c' \<and> \<not> c_stale_write c) \<longrightarrow> q = None)"
proof -
  obtain s c1 where n: "next_seq c = (s, c1)" by fastforce
  have q: "quiet c c1" "c_stale_write c1 = c_stale_write c" using n quiet_updates(11) [of c c] stale_updates(6) [of c] by simp_all
  let ?f = "\<lparr>hdr = msg_hdr_new mt_invoke s p, body = bod\<rparr>"
  obtain x c2 where cn: "connect obj c1 = (x, c2)" by fastforce
  have q2: "quiet c c2" "c_stale_write c2 = c_stale_write c"
    using quiet_stale_connect [of c1 obj] cn q by (auto intro: quiet_trans)
  have "c' = c1 \<and> r = Err UPanic \<or> send_request obj mt_invoke s p ?f False c1 = (r, c')
      \<or> (\<exists>e. c' = c2 \<and> r = Err e) \<or> send_request obj mt_invoke s p ?f True c2 = (r, c')"
    using r by (cases "encode_frame ?f"; cases "c_conn c1"; cases x)
      (simp_all add: request_def n cn Let_def, blast)
  then consider "c' = c1 \<and> r = Err UPanic" | "send_request obj mt_invoke s p ?f False c1 = (r, c')"
    | "\<exists>e. c' = c2 \<and> r = Err e" | "send_request obj mt_invoke s p ?f True c2 = (r, c')" by blast
  then show ?thesis
  proof cases
    case 1
    then show ?thesis using quiet_fair [OF q(1)] by blast
  next
    case 2
    from send_request_fair [OF refl this] show ?thesis
      using fair_quiet_before [OF q(1)] q(2) by metis
  next
    case 3
    then show ?thesis using quiet_fair [OF q2(1)] by blast
  next
    case 4
    from send_request_fair [OF refl this] show ?thesis
      using fair_quiet_before [OF q2(1)] q2(2) by metis
  qed
qed

lemma lookup_quiet: "quiet c (snd (lookup obj c))"
proof -
  let ?c = "c\<lparr>c_stats := (c_stats c)\<lparr>lookups := lookups (c_stats c) + 1\<rparr>\<rparr>"
  have "quiet c (snd (request obj mt_lookup 0 b ?c))" for b
    using request_quiet [of mt_lookup ?c obj 0 b] by (simp add: mt_defs)
  then have "quiet c c2" if "request obj mt_lookup 0 b ?c = (r, c2)" for b r c2
    using that by (metis snd_conv)
  then show ?thesis
    by (auto simp: lookup_def Let_def split: option.split prod.split sum.split)
qed

lemma object_id_quiet: "quiet c (snd (object_id obj c))"
  by (simp add: object_id_def lookup_quiet split: option.split)

lemma invoke_fair:
  assumes r: "invoke obj i meth dat c = (r, c')"
  shows "\<exists>q. fair None c c' q \<and> ((\<exists>ob me. r = Err (UStatus ob me st_not_found)) \<or> (c_stale_write c' \<and> \<not> c_stale_write c) \<longrightarrow> q = None)"
proof -
  let ?c = "c\<lparr>c_stats := (c_stats c)\<lparr>invokes := invokes (c_stats c) + 1\<rparr>\<rparr>"
  have q: "quiet c ?c" by simp
  show ?thesis
  proof (cases "invoke_body i meth dat")
    case None
    with r have "c' = ?c" "r = Err UPanic" by (auto simp: invoke_def Let_def)
    then show ?thesis using quiet_fair [OF q] by auto
  next
    case (Some b)
    obtain r1 c1 where rq: "request obj mt_invoke i b ?c = (r1, c1)" by fastforce
    from request_fair [OF rq] obtain q where
      fq: "fair None c c1 q" "(\<exists>x. r1 = Ok x \<and> rp_status x = st_not_found) \<or> (c_stale_write c1 \<and> \<not> c_stale_write c) \<longrightarrow> q = None"
      using fair_quiet_before [OF \<open>quiet c ?c\<close>] by auto
    have no: "r1 \<noteq> Err (UStatus ob me code)" for ob me code
      using request_no_status [of obj mt_invoke i b ?c] rq by (metis fst_conv)
    have "fair None c c' q = fair None c c1 q" "c_stale_write c' = c_stale_write c1"
      "(\<exists>ob me. r = Err (UStatus ob me st_not_found)) \<longrightarrow> (\<exists>x. r1 = Ok x \<and> rp_status x = st_not_found)"
      using r no by (auto simp: invoke_def Let_def Some rq st_defs protocol_def fair_def split: sum.splits if_splits option.splits)
    with fq show ?thesis by blast
  qed
qed


text \<open>A request that was answered had no failed write.\<close>

lemma send_request_ok_stale: "send_request obj ty s p f fresh c = (Ok r, c') \<Longrightarrow> c_stale_write c' = c_stale_write c"
proof -
  assume r: "send_request obj ty s p f fresh c = (Ok r, c')"
  obtain a c1 where w: "next_write f c = (a, c1)" by fastforce
  have c1: "c_stale_write c1 = c_stale_write c" using w by (auto simp: next_write_def Let_def)
  define c2 where "c2 = (if ty = mt_invoke \<and> maybe_reached a then c1\<lparr>c_invoke_maybe_sent := True\<rparr> else c1)"
  have "read_reply obj s p [] (c_reads c2) c2 = (Ok r, c')"
    using r by (cases a) (simp_all add: send_request_def w Let_def c2_def timed_out_def)
  then have "c_stale_write c' = c_stale_write c2"
    using read_reply_quiet [of c2 obj s p "[]" "c_reads c2"] by (metis snd_conv)
  then show ?thesis by (simp add: c2_def c1)
qed

lemma request_ok_stale: "request obj ty p bod c = (Ok r, c') \<Longrightarrow> c_stale_write c' = c_stale_write c"
proof -
  assume r: "request obj ty p bod c = (Ok r, c')"
  obtain s c1 where n: "next_seq c = (s, c1)" by fastforce
  have q: "c_stale_write c1 = c_stale_write c" using n stale_updates(6) [of c] by simp
  let ?f = "\<lparr>hdr = msg_hdr_new ty s p, body = bod\<rparr>"
  obtain x c2 where cn: "connect obj c1 = (x, c2)" by fastforce
  have q2: "c_stale_write c2 = c_stale_write c" using quiet_stale_connect [of c1 obj] cn q by simp
  have "send_request obj ty s p ?f False c1 = (Ok r, c') \<or> send_request obj ty s p ?f True c2 = (Ok r, c')"
    using r by (cases "encode_frame ?f"; cases "c_conn c1"; cases x) (simp_all add: request_def n cn Let_def)
  then show ?thesis using send_request_ok_stale q q2 by metis
qed

lemma lookup_ok_stale:
  assumes "lookup obj c = (Ok i, c')"
  shows "c_stale_write c' = c_stale_write c"
proof -
  let ?c = "c\<lparr>c_stats := (c_stats c)\<lparr>lookups := lookups (c_stats c) + 1\<rparr>\<rparr>"
  obtain b where b: "put_string at_objpath obj = Some b"
    using assms by (auto simp: lookup_def Let_def split: option.splits)
  obtain x c1 where r: "request obj mt_lookup 0 b ?c = (x, c1)" by fastforce
  obtain r' where x: "x = Ok r'" using assms by (cases x) (simp_all add: lookup_def Let_def b r)
  have "c_stale_write c' = c_stale_write c1"
    using assms by (auto simp: lookup_def Let_def b r x protocol_def split: if_splits sum.splits option.splits)
  with request_ok_stale [OF r [unfolded x]] show ?thesis by simp
qed

lemma object_id_ok_stale: "object_id obj c = (Ok i, c') \<Longrightarrow> c_stale_write c' = c_stale_write c"
  by (auto simp: object_id_def lookup_ok_stale split: option.splits)

lemma invoke_status_stale:
  assumes "invoke obj i meth dat c = (Err (UStatus ob me code), c')"
  shows "c_stale_write c' = c_stale_write c"
proof -
  let ?c = "c\<lparr>c_stats := (c_stats c)\<lparr>invokes := invokes (c_stats c) + 1\<rparr>\<rparr>"
  obtain b where b: "invoke_body i meth dat = Some b"
    using assms by (auto simp: invoke_def Let_def split: option.splits)
  obtain x c1 where r: "request obj mt_invoke i b ?c = (x, c1)" by fastforce
  have "x \<noteq> Err (UStatus ob me code)" using request_no_status [of obj mt_invoke i b ?c] r by (metis fst_conv)
  then obtain r' where x: "x = Ok r'" using assms by (cases x) (simp_all add: invoke_def Let_def b r)
  have "c' = c1"
    using assms by (auto simp: invoke_def Let_def b r x protocol_def split: if_splits sum.splits)
  with request_ok_stale [OF r [unfolded x]] show ?thesis by simp
qed

lemma call_once_fair:
  "call_once obj meth dat retried c = (r, c') \<Longrightarrow> \<not> c_stale_write c \<Longrightarrow> \<exists>q. fair None c c' q \<and> (c_stale_write c' \<longrightarrow> q = None)"
proof (induction obj meth dat retried c arbitrary: r c' rule: call_once.induct)
  case (1 obj meth dat retried c)
  obtain x c1 where x: "object_id obj c = (x, c1)" by fastforce
  have q1: "quiet c c1" using object_id_quiet [of c obj] x by simp
  show ?case
  proof (cases x)
    case (Inl e)
    with 1 x have "c' = c1" by (simp add: call_once.simps)
    then show ?thesis using quiet_fair [OF q1] by blast
  next
    case (Inr i)
    have s1: "\<not> c_stale_write c1" using object_id_ok_stale [OF x [unfolded Inr]] 1(3) by simp
    obtain y c2 where y: "invoke obj i meth dat c1 = (y, c2)" by fastforce
    from invoke_fair [OF y] obtain q where q: "fair None c c2 q"
      "(\<exists>ob me. y = Err (UStatus ob me st_not_found)) \<or> c_stale_write c2 \<longrightarrow> q = None"
      using fair_quiet_before [OF q1] s1 by blast
    show ?thesis
    proof (cases "\<exists>ob me. y = Err (UStatus ob me st_not_found) \<and> \<not> retried")
      case False
      have "c_log c' = c_log c2" "c_invoke_maybe_sent c' = c_invoke_maybe_sent c2" "c_stale_write c' = c_stale_write c2"
        using 1(2) False
        by (auto simp: call_once.simps [of obj meth dat _ c] x Inr y ids_remove_def split: sum.splits ubus_error.splits if_splits)
      then have "fair None c c' q" using q(1) by (simp add: fair_def)
      then show ?thesis using q(2) \<open>c_stale_write c' = c_stale_write c2\<close> by blast
    next
      case True
      then obtain ob me where yy: "y = Err (UStatus ob me st_not_found)" "\<not> retried" by blast
      have fair2: "fair None c c2 None" using q yy by blast
      obtain z c3 where z: "lookup obj (ids_remove obj c2) = (z, c3)" by fastforce
      have fair3: "fair None c c3 None"
        using fair_quiet_after [OF fair2] lookup_quiet [of "ids_remove obj c2" obj] z by simp
      show ?thesis
      proof (cases "\<exists>j. z = Ok j \<and> j \<noteq> i")
        case False
        then have "c' = c3"
          using 1(2) by (cases z) (auto simp: call_once.simps [of obj meth dat _ c] x Inr y yy z)
        then show ?thesis using fair3 by blast
      next
        case True
        then obtain j where j: "z = Ok j" "j \<noteq> i" by blast
        then have again: "call_once obj meth dat True c3 = (r, c')"
          using 1(2) by (simp add: call_once.simps [of obj meth dat _ c] x Inr y yy z)
        have "\<not> c_stale_write c3"
          using lookup_ok_stale [OF z [unfolded j(1)]] invoke_status_stale [OF y [unfolded yy(1)]] s1 by simp
        then have "\<exists>q. fair None c3 c' q \<and> (c_stale_write c' \<longrightarrow> q = None)"
          using 1(1) [OF x [symmetric] Inr y [symmetric] yy(1) refl _ z [symmetric] j(1)] j(2) yy(2) again by blast
        then show ?thesis using fair_trans [OF fair3] by blast
      qed
    qed
  qed
qed


lemma call_loop_fair:
  "call_loop obj meth dat resent c = (r, c') \<Longrightarrow> \<exists>q. fair None c c' q"
proof (induction obj meth dat resent c arbitrary: r c' rule: call_loop.induct)
  case (1 obj meth dat resent c)
  let ?c = "c\<lparr>c_stale_write := False\<rparr>"
  obtain x c1 where x: "call_once obj meth dat False ?c = (x, c1)" by fastforce
  have "\<exists>q. fair None ?c c1 q \<and> (c_stale_write c1 \<longrightarrow> q = None)" by (rule call_once_fair [OF x]) simp
  then obtain q where q: "fair None c c1 q" "c_stale_write c1 \<longrightarrow> q = None"
    by (auto simp: fair_def)
  show ?case
  proof (cases "(\<exists>e. x = Err e) \<and> c_stale_write c1 \<and> \<not> resent")
    case True
    then obtain e where e: "x = Err e" by blast
    have again: "call_loop obj meth dat True c1 = (r, c')"
      using 1(2) True x e by (simp add: call_loop.simps [of obj meth dat _ c])
    have "\<exists>q. fair None c1 c' q"
      using 1(1) [OF x [symmetric] e _ again] True by blast
    then show ?thesis using q True fair_trans by blast
  next
    case False
    then have "c' = c1" using 1(2) x by (cases x) (auto simp: call_loop.simps [of obj meth dat _ c])
    then show ?thesis using q by blast
  qed
qed

lemma call_sent_once:
  "\<exists>l q. c_log (snd (call obj meth args c)) = c_log c @ l \<and> monitor None l = Some q
     \<and> (last_call_not_sent (snd (call obj meth args c)) \<longleftrightarrow> delivered l = [])"
proof -
  let ?c = "c\<lparr>c_invoke_maybe_sent := False\<rparr>"
  obtain r c' where r: "call obj meth args c = (r, c')" by fastforce
  have "c' = ?c \<or> (\<exists>dat. call_loop obj meth dat False ?c = (r, c'))"
    using r by (auto simp: call_def Let_def split: if_splits json.splits option.splits)
  then have "\<exists>q. fair None ?c c' q"
    using call_loop_fair quiet_fair [OF quiet_refl] by blast
  then show ?thesis by (auto simp: fair_def r last_call_not_sent_def)
qed

text \<open>
  Property C32. What the client sends in one \<open>call\<close>, whatever the socket does: between two INVOKE frames that
  may have reached the daemon there is always a STATUS frame, with the sequence number and the object id of the first,
  that says NOT_FOUND. So a request that may have been executed is repeated only after the answer that the
  object was not found; after a timeout, a lost connection or a damaged reply it is never sent
  again. And \<open>last_call_not_sent\<close> is exact: it holds after the call if and only if no INVOKE of this
  call can have reached the daemon.
\<close>

theorem invoke_repeated_only_after_not_found:
  "\<exists>l q. c_log (snd (call obj meth args c)) = c_log c @ l \<and> monitor None l = Some q
     \<and> (last_call_not_sent (snd (call obj meth args c)) \<longleftrightarrow> delivered l = [])"
  by (rule call_sent_once)

section \<open>A retry with the same object id\<close>

text \<open>
  A concrete run. The daemon knows one object, \<open>o\<close>, with id 7. The first INVOKE is answered NOT_FOUND, the
  LOOKUP that follows cannot be written on that connection, and after the reconnection the object has
  its id 7 again.
\<close>

definition ex_frame :: "u8 \<Rightarrow> u16 \<Rightarrow> u32 \<Rightarrow> u8 list \<Rightarrow> read_answer" where
  "ex_frame ty s p b = RdFrame \<lparr>hdr = msg_hdr_new ty s p, body = b\<rparr>"

definition ex_status :: "u8 \<Rightarrow> u8 list" where
  "ex_status code = [1, 0, 0, 8, 0, 0, 0, code]"

definition ex_object :: "u8 list" where
  "ex_object = [2, 0, 0, 6, 111, 0, 0, 0, 3, 0, 0, 8, 0, 0, 0, 7]"

definition ex_client :: client where
  "ex_client = client_new ''/var/run/ubus/ubus.sock'' 2000 [ConnDone, ConnDone]
     [WrDone, WrDone, WrErr ''broken pipe'', WrDone, WrDone]
     [ex_frame 0 0 1 [], ex_frame 2 1 0 ex_object, ex_frame 1 1 0 (ex_status 0), ex_frame 1 2 7 (ex_status 4),
      ex_frame 0 0 2 [], ex_frame 2 4 0 ex_object, ex_frame 1 4 0 (ex_status 0), ex_frame 1 5 7 (ex_status 0)]"

lemmas attr_eval_simps = parse_attrs.simps from_be32_def from_be_def blob_attr_len_mask_def blob_attr_id_mask_def
  blob_attr_extended_def msg_attrs_def attr_max_def align_def Let_def at_defs get_u32_def

lemma ex_status_of:
  "status_of \<lparr>hdr = h, body = ex_status 4\<rparr> = Ok 4" "status_of \<lparr>hdr = h, body = ex_status 0\<rparr> = Ok 0"
  by (simp_all add: status_of_def ex_status_def attr_eval_simps)

lemma ex_find_object: "find_object ''o'' [ex_object] = Ok (Some 7)"
proof -
  have s: "from_utf8_lossy [111] = ''o''"
    using from_utf8_lossy_str [of "''o''"] by (simp add: str_bytes_def byte_def str_ok_def utf8_valid.simps utf8_len_def byte_at_def)
  show ?thesis by (simp add: ex_object_def attr_eval_simps get_string_def until_nul_def s)
qed

lemma put_attr_total:
  assumes "4 + length payload < 2 ^ 24" "ty \<le> 0x7f"
  shows "\<exists>b. put_attr ty ext payload = Some b \<and> length b = align (4 + length payload)"
proof -
  have "unat (of_nat (4 + length payload) :: u32) = 4 + length payload"
    using assms(1) by (simp only: unat_of_nat) simp
  with assms have "(of_nat (4 + length payload) :: u32) \<le> blob_attr_len_mask"
    unfolding word_le_nat_alt by (simp add: blob_attr_len_mask_def)
  then have "\<exists>b. put_attr ty ext payload = Some b" using assms(2) by (simp add: put_attr_def Let_def)
  then show ?thesis using put_attr_length by blast
qed

lemma encode_frame_total: "4 + length (body f) < 2 ^ 24 \<Longrightarrow> \<exists>bs. encode_frame f = Some bs"
  using put_attr_total [of "body f" 0 False] by (auto simp: encode_frame_def)

lemma request_no_panic: "4 + length bod < 2 ^ 24 \<Longrightarrow> fst (request obj ty p bod c) \<noteq> Err UPanic"
proof -
  assume small: "4 + length bod < 2 ^ 24"
  obtain s c1 where n: "next_seq c = (s, c1)" by fastforce
  obtain x c2 where cn: "connect obj c1 = (x, c2)" by fastforce
  have rd: "fst (read_reply obj s p dat rs c) \<noteq> Err UPanic" for dat rs c
    by (induction obj s p dat rs c rule: read_reply.induct) (auto simp: timed_out_def protocol_def Let_def split: sum.split)
  have "fst (connect obj c1) \<noteq> Err UPanic"
    by (auto simp: connect_def timed_out_def split: prod.split conn_answer.split read_answer.split)
  with cn have x: "x \<noteq> Err UPanic" by simp
  have sd: "fst (send_request obj ty s p f fresh c) \<noteq> Err UPanic" for f fresh c
    using rd by (auto simp: send_request_def Let_def timed_out_def split: prod.split write_answer.split)
  obtain bs where "encode_frame \<lparr>hdr = msg_hdr_new ty s p, body = bod\<rparr> = Some bs"
    using encode_frame_total [of "\<lparr>hdr = msg_hdr_new ty s p, body = bod\<rparr>"] small by auto
  then show ?thesis using x sd by (cases x) (auto simp: request_def n cn Let_def)
qed

lemma put_string_total:
  assumes "length s \<le> 128" "ty \<le> 0x7f"
  shows "\<exists>b. put_string ty s = Some b \<and> length b \<le> 136"
  using put_attr_total [of "str_bytes s @ [0]" ty False] assms align_less [of "5 + length s"]
  by (fastforce simp: put_string_def)

lemma invoke_body_total:
  assumes "length meth \<le> 128" "length dat + 256 \<le> ubus_max_msglen"
  shows "\<exists>b. invoke_body i meth dat = Some b \<and> 4 + length b < 2 ^ 24"
proof -
  obtain b1 where b1: "put_u32 at_objid i = Some b1" "length b1 = 8"
    using put_attr_total [of "to_be 4 (unat i)" at_objid False] by (auto simp: put_u32_def at_defs align_def)
  obtain b2 where b2: "put_string at_method meth = Some b2" "length b2 \<le> 136"
    using put_string_total [OF assms(1), of at_method] by (auto simp: at_defs)
  obtain b3 where b3: "put_attr at_data False dat = Some b3" "length b3 = align (4 + length dat)"
    using put_attr_total [of dat at_data False] assms(2) by (auto simp: at_defs ubus_max_msglen_def)
  show ?thesis
    using b1 b2 b3 assms(2) align_less [of "4 + length dat"] by (simp add: invoke_body_def ubus_max_msglen_def)
qed

lemma lookup_no_panic: "length obj \<le> 128 \<Longrightarrow> fst (lookup obj c) \<noteq> Err UPanic"
proof -
  assume o: "length obj \<le> 128"
  obtain b where b: "put_string at_objpath obj = Some b" "length b \<le> 136"
    using put_string_total [OF o, of at_objpath] by (auto simp: at_defs)
  let ?c = "c\<lparr>c_stats := (c_stats c)\<lparr>lookups := lookups (c_stats c) + 1\<rparr>\<rparr>"
  obtain x c1 where r: "request obj mt_lookup 0 b ?c = (x, c1)" by fastforce
  have "x \<noteq> Err UPanic" using request_no_panic [of b obj mt_lookup 0 ?c] b(2) r by simp
  then show ?thesis by (cases x) (auto simp: lookup_def Let_def b r protocol_def split: sum.split option.split)
qed

lemma invoke_no_panic:
  assumes "length meth \<le> 128" "length dat + 256 \<le> ubus_max_msglen"
  shows "fst (invoke obj i meth dat c) \<noteq> Err UPanic"
proof -
  obtain b where b: "invoke_body i meth dat = Some b" "4 + length b < 2 ^ 24"
    using invoke_body_total [OF assms] by blast
  let ?c = "c\<lparr>c_stats := (c_stats c)\<lparr>invokes := invokes (c_stats c) + 1\<rparr>\<rparr>"
  obtain x c1 where r: "request obj mt_invoke i b ?c = (x, c1)" by fastforce
  have "x \<noteq> Err UPanic" using request_no_panic [OF b(2), of obj mt_invoke i ?c] r by simp
  then show ?thesis by (cases x) (auto simp: invoke_def Let_def b r protocol_def split: sum.split)
qed

lemma call_once_no_panic:
  assumes "length obj \<le> 128" "length meth \<le> 128" "length dat + 256 \<le> ubus_max_msglen"
  shows "fst (call_once obj meth dat retried c) \<noteq> Err UPanic"
  using assms
proof (induction obj meth dat retried c rule: call_once.induct)
  case (1 obj meth dat retried c)
  obtain x c1 where x: "object_id obj c = (x, c1)" by fastforce
  have xp: "x \<noteq> Err UPanic"
    using x lookup_no_panic [OF 1(2), of c] by (auto simp: object_id_def split: option.splits)
  show ?case
  proof (cases x)
    case (Inl e)
    with xp show ?thesis by (simp add: call_once.simps x)
  next
    case (Inr i)
    obtain y c2 where y: "invoke obj i meth dat c1 = (y, c2)" by fastforce
    have yp: "y \<noteq> Err UPanic" using invoke_no_panic [OF 1(3,4), of obj i c1] y by simp
    obtain z c3 where z: "lookup obj (ids_remove obj c2) = (z, c3)" by fastforce
    have zp: "z \<noteq> Err UPanic" using lookup_no_panic [OF 1(2), of "ids_remove obj c2"] z by simp
    have again: "fst (call_once obj meth dat True c3) \<noteq> Err UPanic"
      if "y = Err (UStatus ob me st_not_found)" "\<not> retried" "z = Ok j" "j \<noteq> i" for ob me j
      using 1(1) [OF x [symmetric] Inr y [symmetric] that(1) refl _ z [symmetric] that(3)] that 1(2-4) by blast
    show ?thesis
      using yp zp again
      by (auto simp: call_once.simps [of obj meth dat _ c] x Inr y z split: sum.splits ubus_error.splits)
  qed
qed

lemma call_loop_no_panic:
  assumes "length obj \<le> 128" "length meth \<le> 128" "length dat + 256 \<le> ubus_max_msglen"
  shows "fst (call_loop obj meth dat resent c) \<noteq> Err UPanic"
  using assms
proof (induction obj meth dat resent c rule: call_loop.induct)
  case (1 obj meth dat resent c)
  obtain x c1 where x: "call_once obj meth dat False (c\<lparr>c_stale_write := False\<rparr>) = (x, c1)" by fastforce
  have "x \<noteq> Err UPanic" using call_once_no_panic [OF 1(2-4), of False "c\<lparr>c_stale_write := False\<rparr>"] x by simp
  then show ?case
    using 1 x by (cases x) (auto simp: call_loop.simps [of obj meth dat _ c])
qed



lemmas client_eval_simps = object_id_def ids_get_def lookup_def invoke_def request_def send_request_def connect_def
  next_seq_def next_connect_def next_read_def next_write_def ex_frame_def msg_hdr_new_def mt_defs st_defs
  maybe_reached_def ids_remove_def map_remove_def lost_connection_def ex_status_of

text \<open>
  The comment on the retry says that an unchanged id means the request was executed and must not be sent
  again. The second retry, for a write that failed, does not compare the ids: here the request goes out
  twice to the same id although the first one was answered.
\<close>

theorem resend_with_same_id:
  "\<exists>ib. delivered (c_log (snd (call ''o'' ''m'' (JObject []) ex_client)))
     = [\<lparr>hdr = msg_hdr_new mt_invoke 2 7, body = ib\<rparr>, \<lparr>hdr = msg_hdr_new mt_invoke 5 7, body = ib\<rparr>]"
proof -
  obtain lb where lb: "put_string at_objpath ''o'' = Some lb" "length lb \<le> 136"
    using put_string_total [of "''o''" at_objpath] by (auto simp: at_defs)
  obtain ib where ib: "invoke_body 7 ''m'' [] = Some ib" "4 + length ib < 2 ^ 24"
    using invoke_body_total [of "''m''" "[]" 7] by (auto simp: ubus_max_msglen_def)
  have enc: "\<exists>bs. encode_frame \<lparr>hdr = h, body = lb\<rparr> = Some bs" "\<exists>bs. encode_frame \<lparr>hdr = h, body = ib\<rparr> = Some bs" for h
    using encode_frame_total [of "\<lparr>hdr = h, body = lb\<rparr>"] encode_frame_total [of "\<lparr>hdr = h, body = ib\<rparr>"] lb(2) ib(2) by simp_all
  define el where "el h = the (encode_frame \<lparr>hdr = h, body = lb\<rparr>)" for h
  define ei where "ei h = the (encode_frame \<lparr>hdr = h, body = ib\<rparr>)" for h
  have enc': "encode_frame \<lparr>hdr = h, body = lb\<rparr> = Some (el h)" "encode_frame \<lparr>hdr = h, body = ib\<rparr> = Some (ei h)" for h
    using enc(1) [of h] enc(2) [of h] by (auto simp: el_def ei_def)
  have names: "validate_name ''o''" "validate_name ''m''" by code_simp+
  have "delivered (c_log (snd (call ''o'' ''m'' (JObject []) ex_client)))
      = [\<lparr>hdr = msg_hdr_new mt_invoke 2 7, body = ib\<rparr>, \<lparr>hdr = msg_hdr_new mt_invoke 5 7, body = ib\<rparr>]"
    using lb(1) ib(1) ex_find_object
    by (simp add: call_def names blobmsg_table_def ubus_max_msglen_def call_loop.simps call_once.simps ex_client_def client_new_def
        client_eval_simps enc' Let_def reached_def)
  then show ?thesis by blast
qed


end
