(* ===== verification/Ubus_Backend.thy ===== *)
theory Ubus_Backend
  imports Ubus_Client
begin

text \<open>
  The backends, \<^verbatim>\<open>rust/src/ubus/backend.rs\<close>: the command line program, the socket client, and the
  automatic choice that falls back from the socket to the program. Starting a process and the texts
  that \<open>serde_json\<close> reads and prints are parameters: \<open>run bin args ms\<close> is what the child
  process gives within its timeout. Times are nanoseconds. \<open>b_cli_runs\<close> keeps the calls that were handed
  to a child process; the code has no such field.
\<close>

section \<open>Choosing a backend\<close>

definition cli_timeout :: nat where "cli_timeout = of_secs 8"
definition control_timeout :: nat where "control_timeout = of_secs 8"
definition fallback_retry :: nat where "fallback_retry = of_secs 30"
definition fallback_min :: nat where "fallback_min = 500000000"

datatype backend_kind = BkCli | BkSocket | BkAuto

text \<open>The flag is the warning for a value that is not understood.\<close>

definition backend_parse :: "string option \<Rightarrow> backend_kind \<times> bool" where
  "backend_parse v =
     (case map_option trim v of
        None \<Rightarrow> (BkCli, False)
      | Some s \<Rightarrow>
          if s = [] \<or> s = ''cli'' then (BkCli, False)
          else if s = ''socket'' then (BkSocket, False)
          else if s = ''auto'' then (BkAuto, False)
          else (BkCli, True))"

section \<open>The command line program\<close>

datatype cli_outcome = CliElapsed string | CliFailed string | CliOutput string

record cli_backend =
  cli_bin :: string
  cli_limit :: nat

record outside =
  run_cli :: "string \<Rightarrow> string list \<Rightarrow> nat \<Rightarrow> cli_outcome"
  json_parse :: "string \<Rightarrow> string + json"
  json_print :: "json \<Rightarrow> string"

definition ascii_space :: "char \<Rightarrow> bool" where
  "ascii_space c \<longleftrightarrow> c = CHR '' '' \<or> c = CHR 0x09 \<or> c = CHR 0x0A \<or> c = CHR 0x0C \<or> c = CHR 0x0D"

definition cli_result :: "outside \<Rightarrow> string \<Rightarrow> cli_outcome \<Rightarrow> ubus_error + json" where
  "cli_result x obj r =
     (case r of
        CliElapsed e \<Rightarrow> Err (UTimeout obj e)
      | CliFailed e \<Rightarrow> Err (UIo e)
      | CliOutput raw \<Rightarrow>
          (case json_parse x raw of
             Ok v \<Rightarrow> Ok v
           | Err e \<Rightarrow>
               let detail = ''invalid ubus JSON: '' @ e
               in if list_all ascii_space raw then Err (UNoData obj detail) else Err (UIo detail)))"

definition cli_checks :: "string \<Rightarrow> string \<Rightarrow> json \<Rightarrow> ubus_error option" where
  "cli_checks obj meth args =
     (if \<not> validate_name obj \<or> \<not> validate_name meth then Some (UInvalid ''invalid ubus name'')
      else if \<not> is_object args then Some (UInvalid ''args must be an object'')
      else None)"

text \<open>\<open>call\<close> of the command line backend; the second part is the call handed to a child process, if any.\<close>

definition cli_call :: "outside \<Rightarrow> string \<Rightarrow> string \<Rightarrow> json \<Rightarrow> cli_backend
    \<Rightarrow> (ubus_error + json) \<times> (string \<times> string \<times> json) list" where
  "cli_call x obj meth args b =
     (case cli_checks obj meth args of
        Some e \<Rightarrow> (Err e, [])
      | None \<Rightarrow>
          (cli_result x obj (run_cli x (cli_bin b) [''call'', obj, meth, json_print x args] (cli_limit b)),
           [(obj, meth, args)]))"

section \<open>The socket\<close>

record socket_backend =
  sb_client :: client
  sb_round_timeout :: nat
  sb_control_timeout :: nat

definition socket_new :: "client \<Rightarrow> socket_backend" where
  "socket_new c = \<lparr>sb_client = c, sb_round_timeout = c_timeout_ms c * 1000000,
     sb_control_timeout = max control_timeout (c_timeout_ms c * 1000000)\<rparr>"

definition socket_set_round :: "bool \<Rightarrow> socket_backend \<Rightarrow> socket_backend" where
  "socket_set_round round b =
     b\<lparr>sb_client := (sb_client b)\<lparr>c_timeout_ms := (if round then sb_round_timeout b else sb_control_timeout b) div 1000000\<rparr>\<rparr>"

definition empty_output_error :: "outside \<Rightarrow> string" where
  "empty_output_error x = (case json_parse x [] of Err e \<Rightarrow> ''invalid ubus JSON: '' @ e | Ok _ \<Rightarrow> ''invalid ubus JSON'')"

definition socket_call :: "outside \<Rightarrow> string \<Rightarrow> string \<Rightarrow> json \<Rightarrow> socket_backend \<Rightarrow> (ubus_error + json) \<times> socket_backend" where
  "socket_call x obj meth args b =
     (case call obj meth args (sb_client b) of
        (Err e, c) \<Rightarrow> (Err e, b\<lparr>sb_client := c\<rparr>)
      | (Ok None, c) \<Rightarrow> (Err (UNoData obj (empty_output_error x)), b\<lparr>sb_client := c\<rparr>)
      | (Ok (Some v), c) \<Rightarrow> (Ok v, b\<lparr>sb_client := c\<rparr>))"

section \<open>The automatic choice\<close>

record auto_backend =
  ab_socket :: socket_backend
  ab_cli :: cli_backend
  ab_retry :: nat
  ab_cli_until :: "nat option"
  ab_fallbacks :: u64
  b_cli_runs :: "(string \<times> string \<times> json) list"

definition auto_new :: "socket_backend \<Rightarrow> cli_backend \<Rightarrow> nat \<Rightarrow> auto_backend" where
  "auto_new s c retry = \<lparr>ab_socket = s, ab_cli = c, ab_retry = retry, ab_cli_until = None, ab_fallbacks = 0, b_cli_runs = []\<rparr>"

definition on_cli :: "nat \<Rightarrow> auto_backend \<Rightarrow> bool" where
  "on_cli now b \<longleftrightarrow> is_some_and (ab_cli_until b) (\<lambda>t. now < t)"

text \<open>The errors for which a call that was not sent is done again by the program.\<close>

definition falls_back :: "ubus_error \<Rightarrow> bool" where
  "falls_back e = (case e of UIo _ \<Rightarrow> True | UTimeout _ _ \<Rightarrow> True | UProtocol _ \<Rightarrow> True | _ \<Rightarrow> False)"

text \<open>
  \<open>now\<close> is the time at the start, \<open>later\<close> the time when the socket has failed. The timeout of the program is
  shortened for the one call and set back.
\<close>

definition auto_call :: "outside \<Rightarrow> nat \<Rightarrow> nat \<Rightarrow> string \<Rightarrow> string \<Rightarrow> json \<Rightarrow> auto_backend
    \<Rightarrow> (ubus_error + json) \<times> auto_backend" where
  "auto_call x now later obj meth args b =
     (if on_cli now b then
        let (r, runs) = cli_call x obj meth args (ab_cli b) in (r, b\<lparr>b_cli_runs := b_cli_runs b @ runs\<rparr>)
      else
        let b = b\<lparr>ab_cli_until := None\<rparr>;
            (r, s) = socket_call x obj meth args (ab_socket b);
            b = b\<lparr>ab_socket := s\<rparr>
        in case r of
             Err e \<Rightarrow>
               if falls_back e \<and> last_call_not_sent (sb_client s) then
                 let b = b\<lparr>ab_fallbacks := ab_fallbacks b + 1, ab_cli_until := Some (later + ab_retry b)\<rparr>;
                     limit = max (cli_limit (ab_cli b) - (later - now)) fallback_min;
                     (r, runs) = cli_call x obj meth args ((ab_cli b)\<lparr>cli_limit := limit\<rparr>)
                 in (r, b\<lparr>b_cli_runs := b_cli_runs b @ runs\<rparr>)
               else (Err e, b)
           | Ok v \<Rightarrow> (Ok v, b))"

datatype backend = BCli cli_backend | BSocket socket_backend | BAuto auto_backend

definition backend_call :: "outside \<Rightarrow> nat \<Rightarrow> nat \<Rightarrow> string \<Rightarrow> string \<Rightarrow> json \<Rightarrow> backend \<Rightarrow> (ubus_error + json) \<times> backend" where
  "backend_call x now later obj meth args b =
     (case b of
        BCli c \<Rightarrow> (fst (cli_call x obj meth args c), b)
      | BSocket s \<Rightarrow> (let (r, s') = socket_call x obj meth args s in (r, BSocket s'))
      | BAuto a \<Rightarrow> (let (r, a') = auto_call x now later obj meth args a in (r, BAuto a')))"

definition backend_set_round :: "bool \<Rightarrow> backend \<Rightarrow> backend" where
  "backend_set_round round b =
     (case b of
        BCli c \<Rightarrow> BCli c
      | BSocket s \<Rightarrow> BSocket (socket_set_round round s)
      | BAuto a \<Rightarrow> BAuto (a\<lparr>ab_socket := socket_set_round round (ab_socket a)\<rparr>))"

section \<open>A request is executed at most once\<close>

lemma socket_call_client: "sb_client (snd (socket_call x obj meth args b)) = snd (call obj meth args (sb_client b))"
  by (simp add: socket_call_def split: prod.split sum.split option.split)

lemma cli_call_runs: "snd (cli_call x obj meth args b) = [] \<or> snd (cli_call x obj meth args b) = [(obj, meth, args)]"
  by (simp add: cli_call_def split: option.split)

lemma auto_call_cases:
  "(\<exists>runs. snd (auto_call x now later obj meth args b) = b\<lparr>b_cli_runs := b_cli_runs b @ runs\<rparr> \<and> length runs \<le> 1)
   \<or> sb_client (ab_socket (snd (auto_call x now later obj meth args b))) = snd (call obj meth args (sb_client (ab_socket b)))
     \<and> (\<exists>runs. b_cli_runs (snd (auto_call x now later obj meth args b)) = b_cli_runs b @ runs \<and> length runs \<le> 1
          \<and> (runs = [] \<or> last_call_not_sent (snd (call obj meth args (sb_client (ab_socket b))))))"
proof (cases "on_cli now b")
  case True
  obtain r runs where c: "cli_call x obj meth args (ab_cli b) = (r, runs)" by fastforce
  have "length runs \<le> 1" using cli_call_runs [of x obj meth args "ab_cli b"] c by auto
  then show ?thesis by (auto simp: auto_call_def True c)
next
  case False
  obtain r s where s: "socket_call x obj meth args (ab_socket b) = (r, s)" by fastforce
  have cl: "sb_client s = snd (call obj meth args (sb_client (ab_socket b)))"
    using socket_call_client [of x obj meth args "ab_socket b"] s by simp
  define lim where "lim = (ab_cli b)\<lparr>cli_limit := max (cli_limit (ab_cli b) - (later - now)) fallback_min\<rparr>"
  obtain r' runs where c: "cli_call x obj meth args lim = (r', runs)" by fastforce
  have one: "length runs \<le> 1" using cli_call_runs [of x obj meth args lim] c by auto
  show ?thesis
    using one by (cases r) (auto simp: auto_call_def False s Let_def lim_def [symmetric] c cl)
qed

text \<open>
  Property C33. The automatic backend executes a request at most once, except that the socket client repeats one after the
  answer NOT_FOUND: a call hands at most one request to a child process, and it does so only when no
  INVOKE of this call can have reached the daemon.
\<close>

theorem auto_call_executes_once:
  "\<exists>l q runs. c_log (sb_client (ab_socket (snd (auto_call x now later obj meth args b)))) = c_log (sb_client (ab_socket b)) @ l
     \<and> b_cli_runs (snd (auto_call x now later obj meth args b)) = b_cli_runs b @ runs \<and> length runs \<le> 1
     \<and> monitor None l = Some q \<and> (runs = [] \<or> delivered l = [])"
  using auto_call_cases [of x now later obj meth args b]
proof
  assume "\<exists>runs. snd (auto_call x now later obj meth args b) = b\<lparr>b_cli_runs := b_cli_runs b @ runs\<rparr> \<and> length runs \<le> 1"
  then obtain runs where "snd (auto_call x now later obj meth args b) = b\<lparr>b_cli_runs := b_cli_runs b @ runs\<rparr>" "length runs \<le> 1"
    by blast
  then show ?thesis by (intro exI [of _ "[]"] exI [of _ None] exI [of _ runs]) simp
next
  let ?c = "snd (call obj meth args (sb_client (ab_socket b)))"
  assume "sb_client (ab_socket (snd (auto_call x now later obj meth args b))) = ?c
     \<and> (\<exists>runs. b_cli_runs (snd (auto_call x now later obj meth args b)) = b_cli_runs b @ runs \<and> length runs \<le> 1
          \<and> (runs = [] \<or> last_call_not_sent ?c))"
  then show ?thesis using call_sent_once [of obj meth args "sb_client (ab_socket b)"] by metis
qed

end
