(* ===== verification/Uci.thy ===== *)
theory Uci
  imports Json
begin

text \<open>
  The UCI configuration parser (\<^verbatim>\<open>rust/src/uci.rs\<close>). The lexer works in place on a line buffer that a
  multi-line value extends: quotes, backslashes, comments and separators are rewritten in the buffer
  itself. Bytes are characters. Every loop is a total function; its termination proof is the
  argument that the loop ends: each round reads another line of the input or moves the position on
  in the buffer.
\<close>

section \<open>The model\<close>

datatype uci_value = Str string | List "string list"

record uci_section =
  u_name :: "string option"
  u_stype :: string
  u_options :: "(string \<times> uci_value) list"

type_synonym uci_package = "uci_section list"

record parse_error =
  pe_line :: nat
  pe_reason :: string

abbreviation NUL :: char where "NUL \<equiv> CHR 0x00"
abbreviation NL :: char where "NL \<equiv> CHR 0x0A"
abbreviation SQ :: char where "SQ \<equiv> CHR 0x27"
abbreviation DQ :: char where "DQ \<equiv> CHR 0x22"
abbreviation BS :: char where "BS \<equiv> CHR 0x5C"

definition is_space :: "char \<Rightarrow> bool" where
  "is_space c = (c \<in> {CHR 0x20, CHR 0x09, CHR 0x0A, CHR 0x0B, CHR 0x0C, CHR 0x0D})"

definition is_ascii_alphanumeric :: "char \<Rightarrow> bool" where
  "is_ascii_alphanumeric c =
     (let n = of_char c :: nat in (48 \<le> n \<and> n \<le> 57) \<or> (65 \<le> n \<and> n \<le> 90) \<or> (97 \<le> n \<and> n \<le> 122))"

definition validate_str :: "string \<Rightarrow> bool \<Rightarrow> bool \<Rightarrow> bool" where
  "validate_str s name package =
     (s \<noteq> [] \<and> list_all (\<lambda>c. is_ascii_alphanumeric c \<or> c = CHR ''_'' \<or> (c = CHR ''-'' \<and> package)
        \<or> (\<not> name \<and> 33 \<le> (of_char c :: nat) \<and> (of_char c :: nat) \<le> 126)) s)"

subsection \<open>The lexer\<close>

record lexer =
  l_input :: string
  l_ipos :: nat
  l_buf :: string
  l_pos :: nat
  l_filled :: nat
  l_line :: nat

definition ch :: "lexer \<Rightarrow> nat \<Rightarrow> char" where
  "ch lx i = (if i < length (l_buf lx) then l_buf lx ! i else NUL)"

definition cur :: "lexer \<Rightarrow> char" where
  "cur lx = ch lx (l_pos lx)"

definition set_at :: "nat \<Rightarrow> char \<Rightarrow> lexer \<Rightarrow> lexer" where
  "set_at i c lx = (if i < length (l_buf lx) then lx\<lparr>l_buf := (l_buf lx)[i := c]\<rparr> else lx)"

definition lx_err :: "lexer \<Rightarrow> string \<Rightarrow> parse_error" where
  "lx_err lx reason = \<lparr>pe_line = l_line lx, pe_reason = reason\<rparr>"

text \<open>\<open>position(== NL).map_or(len, |i| i + 1)\<close> bytes of the rest: one line with its newline.\<close>

fun first_line :: "string \<Rightarrow> string" where
  "first_line [] = []"
| "first_line (c # s) = (if c = NL then [c] else c # first_line s)"

definition getln :: "nat \<Rightarrow> lexer \<Rightarrow> lexer" where
  "getln offset lx =
     (let lx = lx\<lparr>l_buf := take offset (l_buf lx)\<rparr> in
      if length (l_input lx) \<le> l_ipos lx then lx
      else
        let rest = drop (l_ipos lx) (l_input lx);
            got = first_line rest;
            lx = lx\<lparr>l_buf := l_buf lx @ got, l_ipos := l_ipos lx + length got\<rparr>;
            lx = lx\<lparr>l_filled := length (l_buf lx)\<rparr>
        in if l_buf lx \<noteq> [] \<and> last (l_buf lx) = NL then lx\<lparr>l_line := l_line lx + 1\<rparr> else lx)"

definition inc_pos :: "nat \<Rightarrow> lexer \<Rightarrow> lexer" where
  "inc_pos n lx = lx\<lparr>l_pos := l_pos lx + n\<rparr>"

lemma set_at_fields [simp]:
  "length (l_buf (set_at i c lx)) = length (l_buf lx)" "l_pos (set_at i c lx) = l_pos lx"
  "l_ipos (set_at i c lx) = l_ipos lx" "l_input (set_at i c lx) = l_input lx"
  "l_filled (set_at i c lx) = l_filled lx" "l_line (set_at i c lx) = l_line lx"
  "l_buf (set_at i c lx) = (l_buf lx)[i := c]"
  by (simp_all add: set_at_def list_update_beyond)

lemma inc_pos_fields [simp]:
  "l_buf (inc_pos n lx) = l_buf lx" "l_pos (inc_pos n lx) = l_pos lx + n"
  "l_ipos (inc_pos n lx) = l_ipos lx" "l_input (inc_pos n lx) = l_input lx"
  "l_filled (inc_pos n lx) = l_filled lx" "l_line (inc_pos n lx) = l_line lx"
  by (simp_all add: inc_pos_def)

lemma cur_nonzero: "cur lx \<noteq> NUL \<Longrightarrow> l_pos lx < length (l_buf lx)"
  by (auto simp: cur_def ch_def split: if_splits)

text \<open>
  The order in which every loop descends: more of the input has been read, or as much of it and the
  position is further on in the buffer.
\<close>

definition lx_order :: "(lexer \<times> lexer) set" where
  "lx_order = measures [\<lambda>lx. length (l_input lx) - l_ipos lx, \<lambda>lx. length (l_buf lx) - l_pos lx]"

lemma wf_lx_order [simp]: "wf lx_order"
  by (simp add: lx_order_def)

lemma first_line_nonempty [simp]: "s \<noteq> [] \<Longrightarrow> first_line s \<noteq> []"
  by (cases s) auto

lemma getln_fields [simp]:
  "l_pos (getln n lx) = l_pos lx" "l_input (getln n lx) = l_input lx"
  by (simp_all add: getln_def Let_def)

lemma getln_ipos_mono: "l_ipos lx \<le> l_ipos (getln n lx)"
  by (simp add: getln_def Let_def)

lemma getln_ipos: "l_ipos lx < length (l_input lx) \<Longrightarrow> l_ipos lx < l_ipos (getln n lx)"
  by (simp add: getln_def Let_def)

lemma getln_end: "length (l_input lx) \<le> l_ipos lx \<Longrightarrow> getln n lx = lx\<lparr>l_buf := take n (l_buf lx)\<rparr>"
  by (simp add: getln_def Let_def)

lemma getln_cur_order:
  assumes "cur (getln (l_pos lx) lx) \<noteq> NUL"
  shows "(getln (l_pos lx) lx, lx) \<in> lx_order"
proof (cases "l_ipos lx < length (l_input lx)")
  case True
  then show ?thesis using getln_ipos [OF True, of "l_pos lx"]
    by (simp add: lx_order_def in_measures, linarith)
next
  case False
  then have "cur (getln (l_pos lx) lx) = NUL" by (simp add: getln_end cur_def ch_def)
  with assms show ?thesis by simp
qed

function skip_whitespace :: "lexer \<Rightarrow> lexer" where
  "skip_whitespace lx =
     (if cur lx \<noteq> NUL \<and> is_space (cur lx) then skip_whitespace (inc_pos 1 lx) else lx)"
  by pat_completeness auto
termination
  by (relation lx_order) (auto simp: lx_order_def in_measures dest: cur_nonzero)

definition addc :: "lexer \<times> nat \<Rightarrow> lexer \<times> nat" where
  "addc s = (case s of (lx, dest) \<Rightarrow> (inc_pos 1 (set_at dest (cur lx) lx), dest + 1))"

definition backslash :: "lexer \<Rightarrow> bool \<times> lexer" where
  "backslash lx =
     (let lx = inc_pos 1 lx; c = cur lx in
      if c = NUL \<or> c = NL \<or> (c = CHR 0x0D \<and> ch lx (l_pos lx + 1) = NL \<and> ch lx (l_pos lx + 2) = NUL)
      then (False, getln (l_pos lx) lx) else (True, lx))"

text \<open>\<open>if self.backslash() { self.addc(dest) }\<close>, as both quoting loops have it.\<close>

definition escaped :: "lexer \<times> nat \<Rightarrow> lexer \<times> nat" where
  "escaped s = (case s of (lx, dest) \<Rightarrow> case backslash lx of (True, lx) \<Rightarrow> addc (lx, dest) | (False, lx) \<Rightarrow> (lx, dest))"

lemma backslash_order: "cur lx \<noteq> NUL \<Longrightarrow> (snd (backslash lx), lx) \<in> lx_order"
  using cur_nonzero [of lx] getln_ipos [of "inc_pos 1 lx" "l_pos lx + 1"] getln_end [of "inc_pos 1 lx" "l_pos lx + 1"]
  by (cases "l_ipos lx < length (l_input lx)")
    (auto simp: backslash_def Let_def lx_order_def in_measures)

lemma addc_order: "cur (fst s) \<noteq> NUL \<Longrightarrow> (fst (addc s), fst s) \<in> lx_order"
  by (cases s) (auto simp: addc_def lx_order_def in_measures dest: cur_nonzero)

lemma escaped_order: "cur (fst s) \<noteq> NUL \<Longrightarrow> (fst (escaped s), fst s) \<in> lx_order"
  using backslash_order [of "fst s"]
  by (cases s) (auto simp: escaped_def addc_def lx_order_def in_measures split: prod.splits bool.splits)

function double_quote_loop :: "lexer \<times> nat \<Rightarrow> parse_error + lexer \<times> nat" where
  "double_quote_loop s =
     (let lx = fst s in
      if cur lx = DQ then Ok (inc_pos 1 lx, snd s)
      else if cur lx = NUL then
        (let lx = getln (l_pos lx) lx in
         if cur lx = NUL then Err (lx_err lx ''EOF with unterminated \"'')
         else double_quote_loop (lx, snd s))
      else if cur lx = BS then double_quote_loop (escaped s)
      else double_quote_loop (addc s))"
  by pat_completeness auto
termination
  by (relation "inv_image lx_order fst")
    (auto simp: escaped_order addc_order getln_cur_order)

definition double_quote :: "lexer \<times> nat \<Rightarrow> parse_error + lexer \<times> nat" where
  "double_quote s = double_quote_loop (inc_pos 1 (fst s), snd s)"

function single_quote_loop :: "lexer \<times> nat \<Rightarrow> parse_error + lexer \<times> nat" where
  "single_quote_loop s =
     (let lx = fst s in
      if cur lx = SQ then Ok (inc_pos 1 lx, snd s)
      else if cur lx = NUL then
        (let lx = getln (l_pos lx) lx in
         if cur lx = NUL then Err (lx_err lx (''EOF with unterminated '' @ [SQ]))
         else single_quote_loop (lx, snd s))
      else single_quote_loop (addc s))"
  by pat_completeness auto
termination
  by (relation "inv_image lx_order fst")
    (auto simp: addc_order getln_cur_order)

definition single_quote :: "lexer \<times> nat \<Rightarrow> parse_error + lexer \<times> nat" where
  "single_quote s = single_quote_loop (inc_pos 1 (fst s), snd s)"

declare skip_whitespace.simps [simp del] double_quote_loop.simps [simp del] single_quote_loop.simps [simp del]

lemma lx_order_trans: "(a, b) \<in> lx_order \<Longrightarrow> (b, c) \<in> lx_order \<Longrightarrow> (a, c) \<in> lx_order"
  by (auto simp: lx_order_def in_measures)

lemma single_quote_loop_order:
  "single_quote_loop s = Ok s' \<Longrightarrow> (fst s', fst s) \<in> lx_order"
proof (induction s rule: single_quote_loop.induct)
  case (1 s)
  show ?case
  proof (cases "cur (fst s) = SQ")
    case True
    then show ?thesis using 1(3) cur_nonzero [of "fst s"]
      by (auto simp: single_quote_loop.simps [of s] lx_order_def in_measures)
  next
    case sq: False
    show ?thesis
    proof (cases "cur (fst s) = NUL")
      case True
      with 1(3) sq show ?thesis using 1(1) getln_cur_order [of "fst s"]
        by (force simp: single_quote_loop.simps [of s] Let_def split: if_splits intro: lx_order_trans)
    next
      case False
      with 1(3) sq show ?thesis using 1(2) addc_order [of s]
        by (force simp: single_quote_loop.simps [of s] Let_def split: if_splits intro: lx_order_trans)
    qed
  qed
qed

lemma double_quote_loop_order:
  "double_quote_loop s = Ok s' \<Longrightarrow> (fst s', fst s) \<in> lx_order"
proof (induction s rule: double_quote_loop.induct)
  case (1 s)
  show ?case
  proof (cases "cur (fst s) = DQ")
    case True
    then show ?thesis using 1(4) cur_nonzero [of "fst s"]
      by (auto simp: double_quote_loop.simps [of s] lx_order_def in_measures)
  next
    case dq: False
    consider "cur (fst s) = NUL" | "cur (fst s) = BS" | "cur (fst s) \<noteq> NUL" "cur (fst s) \<noteq> BS" by blast
    then show ?thesis
    proof cases
      case 1
      with "1.prems" dq show ?thesis using "1.IH"(1) getln_cur_order [of "fst s"]
        by (force simp: double_quote_loop.simps [of s] Let_def split: if_splits intro: lx_order_trans)
    next
      case 2
      with "1.prems" dq show ?thesis using "1.IH"(2) escaped_order [of s]
        by (force simp: double_quote_loop.simps [of s] Let_def split: if_splits intro: lx_order_trans)
    next
      case 3
      with "1.prems" dq show ?thesis using "1.IH"(3) addc_order [of s]
        by (force simp: double_quote_loop.simps [of s] Let_def split: if_splits intro: lx_order_trans)
    qed
  qed
qed

lemma inc_pos_order: "cur lx \<noteq> NUL \<Longrightarrow> (inc_pos 1 lx, lx) \<in> lx_order"
  by (auto simp: lx_order_def in_measures dest: cur_nonzero)

lemma single_quote_order:
  "single_quote s = Ok s' \<Longrightarrow> cur (fst s) = SQ \<Longrightarrow> (fst s', fst s) \<in> lx_order"
  using single_quote_loop_order [of "(inc_pos 1 (fst s), snd s)" s'] inc_pos_order [of "fst s"]
  by (simp add: single_quote_def) (blast intro: lx_order_trans)

lemma double_quote_order:
  "double_quote s = Ok s' \<Longrightarrow> cur (fst s) = DQ \<Longrightarrow> (fst s', fst s) \<in> lx_order"
  using double_quote_loop_order [of "(inc_pos 1 (fst s), snd s)" s'] inc_pos_order [of "fst s"]
  by (simp add: double_quote_def) (blast intro: lx_order_trans)

text \<open>
  The loop of \<open>parse_str\<close>; its result says whether the loop left through \<open>;\<close> (\<open>next = false\<close>). One
  round (the \<open>match\<close>) either leaves the loop or goes on to the check for white space.
\<close>

datatype round = Leave bool lexer | Round "lexer \<times> nat"

definition parse_str_round :: "lexer \<times> nat \<Rightarrow> parse_error + round" where
  "parse_str_round s =
     (let lx = fst s in
      if cur lx = SQ then map_sum id Round (single_quote s)
      else if cur lx = DQ then map_sum id Round (double_quote s)
      else if cur lx = CHR ''#'' then Ok (Leave True (set_at (l_pos lx) NUL lx))
      else if cur lx = NUL then Ok (Leave True lx)
      else if cur lx = CHR '';'' then Ok (Leave False lx)
      else if cur lx = BS then Ok (Round (escaped s))
      else Ok (Round (addc s)))"

lemma parse_str_round_order: "parse_str_round s = Ok (Round s') \<Longrightarrow> (fst s', fst s) \<in> lx_order"
  using single_quote_order [of s s'] double_quote_order [of s s'] escaped_order [of s] addc_order [of s]
  by (cases "single_quote s"; cases "double_quote s")
    (simp_all add: parse_str_round_def Let_def split: if_splits)

function parse_str_loop :: "lexer \<times> nat \<Rightarrow> parse_error + bool \<times> lexer \<times> nat" where
  "parse_str_loop s =
     (case parse_str_round s of
        Err e \<Rightarrow> Err e
      | Ok (Leave nxt lx) \<Rightarrow> Ok (nxt, lx, snd s)
      | Ok (Round s') \<Rightarrow>
          if cur (fst s') = NUL \<or> is_space (cur (fst s')) then Ok (True, s') else parse_str_loop s')"
  by pat_completeness auto
termination
  by (relation "inv_image lx_order fst") (auto simp: parse_str_round_order)

declare parse_str_loop.simps [simp del]

definition parse_str :: "lexer \<times> nat \<Rightarrow> parse_error + lexer \<times> nat" where
  "parse_str s =
     (case parse_str_loop s of
        Err e \<Rightarrow> Err e
      | Ok (nxt, lx, dest) \<Rightarrow>
          (let lx = (if cur lx \<noteq> NUL \<and> nxt then inc_pos 1 lx else lx)
           in Ok (set_at dest NUL lx, dest)))"

definition str_at :: "lexer \<Rightarrow> nat \<Rightarrow> string" where
  "str_at lx i = takeWhile (\<lambda>c. c \<noteq> NUL) (drop i (l_buf lx))"

definition next_arg :: "bool \<Rightarrow> bool \<Rightarrow> bool \<Rightarrow> lexer \<Rightarrow> parse_error + string \<times> lexer" where
  "next_arg required name package lx =
     (let lx = skip_whitespace lx; val = l_pos lx in
      case (if cur lx = CHR '';'' then Ok (inc_pos 1 (set_at (l_pos lx) NUL lx))
            else map_sum id fst (parse_str (lx, val))) of
        Err e \<Rightarrow> Err e
      | Ok lx \<Rightarrow>
          (let s = str_at lx val in
           if s = [] then
             (if required then Err (lx_err lx ''insufficient arguments'') else Ok (s, lx))
           else if name \<and> \<not> validate_str s name package then
             Err (lx_err lx ''invalid character in name field'')
           else Ok (s, lx)))"

definition assert_eol :: "lexer \<Rightarrow> parse_error + lexer" where
  "assert_eol lx =
     (case next_arg False False False (skip_whitespace lx) of
        Err e \<Rightarrow> Err e
      | Ok (s, lx) \<Rightarrow> if s \<noteq> [] then Err (lx_err lx ''too many arguments'') else Ok lx)"

definition skip_keyword :: "string \<Rightarrow> lexer \<Rightarrow> parse_error + lexer" where
  "skip_keyword reason lx =
     (let n = length (str_at lx (l_pos lx)) in
      if l_filled lx < l_pos lx + n + 1 then Err (lx_err lx reason) else Ok (inc_pos (n + 1) lx))"

text \<open>The two scans of \<open>strtok\<close>: over blanks, then over the word.\<close>

function skip_blanks :: "lexer \<Rightarrow> nat \<Rightarrow> nat" where
  "skip_blanks lx i = (if ch lx i \<in> {CHR '' '', CHR 0x09} then skip_blanks lx (i + 1) else i)"
  by pat_completeness auto
termination
  by (relation "measure (\<lambda>(lx, i). length (l_buf lx) - i)") (auto simp: ch_def split: if_splits)

function skip_word :: "lexer \<Rightarrow> nat \<Rightarrow> nat" where
  "skip_word lx i = (if ch lx i \<notin> {NUL, CHR '' '', CHR 0x09} then skip_word lx (i + 1) else i)"
  by pat_completeness auto
termination
  by (relation "measure (\<lambda>(lx, i). length (l_buf lx) - i)") (auto simp: ch_def split: if_splits)

declare skip_blanks.simps [simp del] skip_word.simps [simp del]

definition strtok :: "lexer \<Rightarrow> string \<times> lexer" where
  "strtok lx =
     (let start = skip_blanks lx (l_pos lx); i = skip_word lx start;
          word = drop start (take i (l_buf lx))
      in (word, if word \<noteq> [] then set_at i NUL lx else lx))"

text \<open>No operation gives back input or buffer.\<close>

definition lx_le :: "lexer \<Rightarrow> lexer \<Rightarrow> bool" where
  "lx_le a b = ((a, b) \<in> lx_order \<or>
     (length (l_input a) - l_ipos a = length (l_input b) - l_ipos b \<and>
      length (l_buf a) - l_pos a \<le> length (l_buf b) - l_pos b))"

lemma lx_le_order: "(a, b) \<in> lx_order \<Longrightarrow> lx_le a b"
  by (simp add: lx_le_def)

lemma lx_le_refl [simp]: "lx_le a a"
  by (simp add: lx_le_def)

lemma lx_le_trans [trans]: "lx_le a b \<Longrightarrow> lx_le b c \<Longrightarrow> lx_le a c"
  by (auto simp: lx_le_def lx_order_def in_measures)

lemma lx_le_less_trans [trans]: "lx_le a b \<Longrightarrow> (b, c) \<in> lx_order \<Longrightarrow> (a, c) \<in> lx_order"
  by (auto simp: lx_le_def lx_order_def in_measures)

lemma lx_le_steps [simp]:
  "lx_le a b \<Longrightarrow> lx_le (inc_pos n a) b"
  "lx_le (set_at i c a) b = lx_le a b" "lx_le a (set_at i c b) = lx_le a b"
  by (auto simp: lx_le_def lx_order_def in_measures)

lemma skip_whitespace_le: "lx_le (skip_whitespace lx) lx"
proof (induction lx rule: skip_whitespace.induct)
  case (1 lx)
  then show ?case using lx_le_trans [OF _ lx_le_steps(1) [of lx lx 1]]
    by (simp add: skip_whitespace.simps [of lx])
qed

lemma parse_str_loop_le: "parse_str_loop s = Ok (nxt, s') \<Longrightarrow> lx_le (fst s') (fst s)"
proof (induction s rule: parse_str_loop.induct)
  case (1 s)
  show ?case
  proof (cases "parse_str_round s")
    case (Inr r)
    show ?thesis
    proof (cases r)
      case (Leave b lx)
      then show ?thesis using Inr 1(2)
        by (auto simp: parse_str_loop.simps [of s] parse_str_round_def Let_def map_sum_Ok split: if_splits)
    next
      case (Round s1)
      have "lx_le (fst s1) (fst s)" using parse_str_round_order Inr Round lx_le_order by blast
      then show ?thesis using Inr Round 1 lx_le_trans [of "fst s'" "fst s1" "fst s"]
        by (auto simp: parse_str_loop.simps [of s] split: if_splits)
    qed
  qed (use 1(2) in \<open>simp add: parse_str_loop.simps [of s]\<close>)
qed

lemma parse_str_le: "parse_str s = Ok s' \<Longrightarrow> lx_le (fst s') (fst s)"
  using parse_str_loop_le [of s]
  by (auto simp: parse_str_def Let_def split: sum.splits if_splits)

lemma next_arg_le: "next_arg r n p lx = Ok (v, lx') \<Longrightarrow> lx_le lx' lx"
proof -
  assume ok: "next_arg r n p lx = Ok (v, lx')"
  let ?w = "skip_whitespace lx"
  have "lx_le lx' ?w"
    using ok parse_str_le [of "(?w, l_pos ?w)"]
    by (cases "parse_str (?w, l_pos ?w)") (auto simp: next_arg_def Let_def split: if_splits)
  then show ?thesis using skip_whitespace_le lx_le_trans by blast
qed

lemma assert_eol_le: "assert_eol lx = Ok lx' \<Longrightarrow> lx_le lx' lx"
  using next_arg_le skip_whitespace_le lx_le_trans
  by (auto simp: assert_eol_def split: sum.splits if_splits) blast

lemma skip_keyword_order:
  "skip_keyword r lx = Ok lx' \<Longrightarrow> l_pos lx < length (l_buf lx) \<Longrightarrow> (lx', lx) \<in> lx_order"
  by (auto simp: skip_keyword_def Let_def lx_order_def in_measures split: if_splits)

lemma skip_blanks_ge: "i \<le> skip_blanks lx i"
proof (induction lx i rule: skip_blanks.induct)
  case (1 lx i)
  then show ?case by (auto simp: skip_blanks.simps [of lx i])
qed

lemma strtok_word: "strtok lx = (w, lx') \<Longrightarrow> w \<noteq> [] \<Longrightarrow> l_pos lx < length (l_buf lx)"
  using skip_blanks_ge [of "l_pos lx" lx] by (auto simp: strtok_def Let_def)

lemma strtok_le: "strtok lx = (w, lx') \<Longrightarrow> lx_le lx' lx \<and> l_pos lx' = l_pos lx \<and> length (l_buf lx') = length (l_buf lx)"
  by (auto simp: strtok_def Let_def)

lemma less_le_trans_order: "(a, b) \<in> lx_order \<Longrightarrow> lx_le b c \<Longrightarrow> (a, c) \<in> lx_order"
  by (auto simp: lx_le_def lx_order_def in_measures)

subsection \<open>The parser\<close>

record parser =
  p_pkg :: uci_package
  p_current :: "nat option"

definition new_section :: "string option \<Rightarrow> string \<Rightarrow> uci_section" where
  "new_section name stype = \<lparr>u_name = name, u_stype = stype, u_options = []\<rparr>"

definition find_pos :: "('a \<Rightarrow> bool) \<Rightarrow> 'a list \<Rightarrow> nat option" where
  "find_pos P xs = (let n = length (takeWhile (\<lambda>x. \<not> P x) xs) in if n < length xs then Some n else None)"

definition push_section :: "uci_section \<Rightarrow> parser \<Rightarrow> parser" where
  "push_section s p = p\<lparr>p_pkg := p_pkg p @ [s], p_current := Some (length (p_pkg p))\<rparr>"

definition cfg_config :: "parser \<Rightarrow> lexer \<Rightarrow> parse_error + parser \<times> lexer" where
  "cfg_config p lx =
     (case skip_keyword ''config without name'' lx of Err e \<Rightarrow> Err e | Ok lx \<Rightarrow>
      case next_arg True False False lx of Err e \<Rightarrow> Err e | Ok (stype, lx) \<Rightarrow>
      if \<not> validate_str stype False False then Err (lx_err lx ''invalid character in type field'')
      else case next_arg False True False lx of Err e \<Rightarrow> Err e | Ok (name, lx) \<Rightarrow>
      case assert_eol lx of Err e \<Rightarrow> Err e | Ok lx \<Rightarrow>
      if name = [] then Ok (push_section (new_section None stype) p, lx)
      else case find_pos (\<lambda>s. u_name s = Some name) (p_pkg p) of
        Some i \<Rightarrow>
          if u_stype (p_pkg p ! i) \<noteq> stype
          then Err (lx_err lx ''section of different type overwrites prior section with same name'')
          else Ok (p\<lparr>p_current := Some i\<rparr>, lx)
      | None \<Rightarrow> Ok (push_section (new_section (Some name) stype) p, lx))"

text \<open>What \<open>option\<close> does with a value once the line is read.\<close>

definition add_list :: "string \<Rightarrow> string \<Rightarrow> (string \<times> uci_value) list \<Rightarrow> (string \<times> uci_value) list" where
  "add_list name v opts =
     (case find_pos (\<lambda>(n, _). n = name) opts of
        None \<Rightarrow> opts @ [(name, List [v])]
      | Some i \<Rightarrow> opts[i := (fst (opts ! i),
          case snd (opts ! i) of List items \<Rightarrow> List (items @ [v]) | Str s \<Rightarrow> List [s, v])])"

definition set_value :: "string \<Rightarrow> string \<Rightarrow> (string \<times> uci_value) list \<Rightarrow> (string \<times> uci_value) list" where
  "set_value name v opts =
     (if v = [] then opts
      else case find_pos (\<lambda>(n, _). n = name) opts of
        None \<Rightarrow> opts @ [(name, Str v)]
      | Some i \<Rightarrow> opts[i := (fst (opts ! i), Str v)])"

definition cfg_option :: "parser \<Rightarrow> lexer \<Rightarrow> bool \<Rightarrow> parse_error + parser \<times> lexer" where
  "cfg_option p lx list =
     (case p_current p of
        None \<Rightarrow> Err (lx_err lx ''option/list command found before the first section'')
      | Some c \<Rightarrow>
      case skip_keyword ''option without name'' lx of Err e \<Rightarrow> Err e | Ok lx \<Rightarrow>
      case next_arg True True False lx of Err e \<Rightarrow> Err e | Ok (name, lx) \<Rightarrow>
      case next_arg False False False lx of Err e \<Rightarrow> Err e | Ok (v, lx) \<Rightarrow>
      case assert_eol lx of Err e \<Rightarrow> Err e | Ok lx \<Rightarrow>
        (let s = p_pkg p ! c;
             opts = (if list then add_list else set_value) name v (u_options s)
         in Ok (p\<lparr>p_pkg := (p_pkg p)[c := s\<lparr>u_options := opts\<rparr>]\<rparr>, lx)))"

definition cfg_package :: "lexer \<Rightarrow> parse_error + lexer" where
  "cfg_package lx =
     (case skip_keyword ''package without name'' lx of Err e \<Rightarrow> Err e | Ok lx \<Rightarrow>
      case next_arg True True True lx of Err e \<Rightarrow> Err e | Ok (_, lx) \<Rightarrow> assert_eol lx)"

text \<open>One command of \<open>uci_parse_line\<close>, after \<open>strtok\<close> found the word.\<close>

definition keyword :: "string \<Rightarrow> string \<Rightarrow> bool" where
  "keyword w full = (hd w = hd full \<and> (tl w = [] \<or> tl w = tl full))"

definition run_command :: "string \<Rightarrow> parser \<Rightarrow> lexer \<Rightarrow> parse_error + parser \<times> lexer" where
  "run_command word p lx =
     (if keyword word ''package'' then map_sum id (Pair p) (cfg_package lx)
      else if keyword word ''config'' then cfg_config p lx
      else if keyword word ''option'' then cfg_option p lx False
      else if keyword word ''list'' then cfg_option p lx True
      else Err (lx_err lx ''invalid command''))"

lemma run_command_order:
  assumes ok: "run_command w p lx = Ok (p', lx')" and pos: "l_pos lx < length (l_buf lx)"
  shows "(lx', lx) \<in> lx_order"
proof -
  have pk: "cfg_package lx = Ok lx' \<Longrightarrow> ?thesis" 
    using skip_keyword_order [OF _ pos]
    by (auto simp: cfg_package_def split: sum.splits dest!: next_arg_le assert_eol_le)
      (meson lx_le_less_trans)+
  have cf: "cfg_config p lx = Ok (p', lx') \<Longrightarrow> ?thesis" 
    using skip_keyword_order [OF _ pos]
    by (auto simp: cfg_config_def split: sum.splits if_splits option.splits dest!: next_arg_le assert_eol_le)
      (meson lx_le_less_trans)+
  have op: "cfg_option p lx b = Ok (p', lx') \<Longrightarrow> ?thesis" for b
    using skip_keyword_order [OF _ pos]
    by (auto simp: cfg_option_def Let_def split: sum.splits option.splits dest!: next_arg_le assert_eol_le)
      (meson lx_le_less_trans)+
  show ?thesis using ok pk cf op
    by (cases "cfg_package lx") (auto simp: run_command_def split: if_splits)
qed

function line_loop :: "parser \<Rightarrow> lexer \<Rightarrow> parse_error + parser \<times> lexer" where
  "line_loop p lx =
     (case strtok lx of (word, lx1) \<Rightarrow>
      if word = [] \<or> hd word = CHR ''#'' then Ok (p, lx1)
      else case run_command word p lx1 of
        Err e \<Rightarrow> Err e
      | Ok (p, lx) \<Rightarrow> line_loop p lx)"
  by pat_completeness auto
termination
proof (relation "inv_image lx_order snd", goal_cases)
  case (2 p lx word lx1 r p' lx')
  then have tok: "strtok lx = (word, lx1)" and run: "run_command word p lx1 = Ok (p', lx')" and "word \<noteq> []"
    by auto
  then have "(lx', lx1) \<in> lx_order"
    using run_command_order [OF run] strtok_word [OF tok] strtok_le [OF tok] by simp
  then show ?case using less_le_trans_order strtok_le [OF tok] by (simp add: in_inv_image)
qed simp

declare line_loop.simps [simp del]

definition line :: "parser \<Rightarrow> lexer \<Rightarrow> parse_error + parser \<times> lexer" where
  "line p lx = line_loop p (skip_whitespace lx)"

lemma line_loop_le: "line_loop p lx = Ok (p', lx') \<Longrightarrow> lx_le lx' lx"
proof (induction p lx rule: line_loop.induct)
  case (1 p lx)
  obtain word lx1 where tok: "strtok lx = (word, lx1)" by fastforce
  note le = strtok_le [OF tok]
  show ?case
  proof (cases "word = [] \<or> hd word = CHR ''#''")
    case True
    then show ?thesis using 1(2) le by (auto simp: line_loop.simps [of p lx] tok)
  next
    case False
    then obtain p2 lx2 where run: "run_command word p lx1 = Ok (p2, lx2)" and rec: "line_loop p2 lx2 = Ok (p', lx')"
      using 1(2) by (auto simp: line_loop.simps [of p lx] tok split: sum.splits)
    have "lx_le lx' lx2" using 1(1) [OF tok [symmetric] False run refl rec] .
    moreover have "(lx2, lx1) \<in> lx_order"
      using run_command_order [OF run] strtok_word [OF tok] le False by simp
    ultimately show ?thesis using le lx_le_order lx_le_trans by blast
  qed
qed

function parse_loop :: "parser \<Rightarrow> lexer \<Rightarrow> parse_error + parser" where
  "parse_loop p lx =
     (if l_ipos lx < length (l_input lx) then
        let lx1 = getln 0 (lx\<lparr>l_pos := 0\<rparr>) in
        if ch lx1 0 \<noteq> NUL then
          (case line p lx1 of Err e \<Rightarrow> Err e | Ok (p, lx) \<Rightarrow> parse_loop p lx)
        else parse_loop p lx1
      else Ok p)"
  by pat_completeness auto
termination
proof (relation "measure (\<lambda>(p, lx). length (l_input lx) - l_ipos lx)", goal_cases)
  case (2 p lx lx1 r p' lx')
  then show ?case
    using getln_ipos [of "lx\<lparr>l_pos := 0\<rparr>" 0] line_loop_le [of p "skip_whitespace lx1" p' lx'] skip_whitespace_le [of lx1]
    by (auto simp: line_def lx_le_def lx_order_def in_measures)
next
  case (3 p lx lx1)
  then show ?case using getln_ipos [of "lx\<lparr>l_pos := 0\<rparr>" 0] by simp
qed simp

declare parse_loop.simps [simp del]

definition parse :: "string \<Rightarrow> parse_error + uci_package" where
  "parse inp =
     (if NUL \<in> set inp then Err \<lparr>pe_line = 0, pe_reason = ''NUL byte in file''\<rparr>
      else map_sum id p_pkg
        (parse_loop \<lparr>p_pkg = [], p_current = None\<rparr>
           \<lparr>l_input = inp, l_ipos = 0, l_buf = [], l_pos = 0, l_filled = 0, l_line = 0\<rparr>))"

subsection \<open>Printing and reading\<close>

definition quote :: "string \<Rightarrow> string \<Rightarrow> string" where
  "quote out v = out @ [SQ] @ concat (map (\<lambda>c. if c = SQ then [SQ, BS, SQ, SQ] else [c]) v) @ [SQ]"

fun bump :: "string \<Rightarrow> (string \<times> nat) list \<Rightarrow> nat \<times> (string \<times> nat) list" where
  "bump t [] = (0, [(t, 1)])"
| "bump t ((u, n) # counts) =
     (if u = t then (n, (u, n + 1) # counts)
      else case bump t counts of (i, counts) \<Rightarrow> (i, (u, n) # counts))"

fun type_refs_from :: "(string \<times> nat) list \<Rightarrow> uci_package \<Rightarrow> string list" where
  "type_refs_from counts [] = []"
| "type_refs_from counts (s # ss) =
     (case bump (u_stype s) counts of (idx, counts) \<Rightarrow>
        (''@'' @ u_stype s @ ''['' @ nat_digits idx @ '']'') # type_refs_from counts ss)"

definition type_refs :: "uci_package \<Rightarrow> string list" where
  "type_refs pkg = type_refs_from [] pkg"

definition section_refs :: "uci_package \<Rightarrow> string list" where
  "section_refs pkg =
     map (\<lambda>(s, r). case u_name s of Some n \<Rightarrow> n | None \<Rightarrow> r) (zip pkg (type_refs pkg))"

fun quote_items :: "bool \<Rightarrow> string \<Rightarrow> string list \<Rightarrow> string" where
  "quote_items first out [] = out"
| "quote_items first out (v # vs) = quote_items False (quote (if first then out else out @ '' '') v) vs"

definition render_option :: "string \<Rightarrow> string \<times> uci_value \<Rightarrow> string \<Rightarrow> string" where
  "render_option prefix opt out =
     (case opt of (name, v) \<Rightarrow>
        let out = out @ prefix @ ''.'' @ name @ ''='' in
        (case v of Str v \<Rightarrow> quote out v | List items \<Rightarrow> quote_items True out items) @ [NL])"

definition render_show :: "string \<Rightarrow> uci_package \<Rightarrow> string" where
  "render_show package pkg =
     fold (\<lambda>(s, r) out.
        let prefix = package @ ''.'' @ r;
            out = out @ prefix @ ''='' @ u_stype s @ [NL]
        in fold (render_option prefix) (u_options s) out)
       (zip pkg (section_refs pkg)) []"

fun get_items :: "bool \<Rightarrow> string \<Rightarrow> string list \<Rightarrow> string" where
  "get_items first out [] = out"
| "get_items first out (v # vs) =
     (let out = (if first then out else out @ '' '') in
      get_items False
        (if \<exists>c \<in> set v. c \<in> {CHR '' '', CHR 0x09, CHR 0x0D, CHR 0x0A} then quote out v else out @ v) vs)"

definition uci_get :: "uci_package \<Rightarrow> string \<Rightarrow> string \<Rightarrow> string option" where
  "uci_get pkg sec opt =
     (case (case find_pos (\<lambda>s. u_name s = Some sec) pkg of
              Some i \<Rightarrow> Some i | None \<Rightarrow> find_pos (\<lambda>r. r = sec) (type_refs pkg)) of
        None \<Rightarrow> None
      | Some i \<Rightarrow>
          (case find (\<lambda>(n, _). n = opt) (u_options (pkg ! i)) of
             None \<Rightarrow> None
           | Some (_, Str v) \<Rightarrow> Some v
           | Some (_, List items) \<Rightarrow> Some (get_items True [] items)))"

text \<open>
  The two directories of \<open>choose\<close> map a file name to its contents; a file that cannot be read is
  absent.
\<close>

datatype uci_source = Parse string | Show

definition uci_choose :: "string \<Rightarrow> (string \<rightharpoonup> string) \<Rightarrow> (string \<rightharpoonup> string) \<Rightarrow> uci_source" where
  "uci_choose package confdir savedir =
     (if is_some_and (savedir package) (\<lambda>data. 0 < length data) then Show
      else case confdir package of Some data \<Rightarrow> Parse data | None \<Rightarrow> Show)"

definition uci_load :: "string \<Rightarrow> (string \<rightharpoonup> string) \<Rightarrow> (string \<rightharpoonup> string) \<Rightarrow> uci_package option" where
  "uci_load package confdir savedir =
     (case uci_choose package confdir savedir of
        Parse data \<Rightarrow> (case parse data of Ok pkg \<Rightarrow> Some pkg | Err _ \<Rightarrow> None)
      | Show \<Rightarrow> None)"

section \<open>Parsed packages are well formed\<close>

text \<open>
  What a consumer of a parsed package relies on: names and types carry only the characters UCI
  allows, a section name and an option name occur once, a plain value is not empty, a list has an
  item, and no string holds a NUL byte.
\<close>

fun value_wf :: "uci_value \<Rightarrow> bool" where
  "value_wf (Str v) = (v \<noteq> [] \<and> NUL \<notin> set v)"
| "value_wf (List items) = (items \<noteq> [] \<and> (\<forall>v \<in> set items. NUL \<notin> set v))"

definition section_wf :: "uci_section \<Rightarrow> bool" where
  "section_wf s =
     (validate_str (u_stype s) False False \<and>
      (case u_name s of None \<Rightarrow> True | Some n \<Rightarrow> validate_str n True False) \<and>
      distinct (map fst (u_options s)) \<and>
      (\<forall>(n, v) \<in> set (u_options s). validate_str n True False \<and> value_wf v))"

definition names_of :: "uci_package \<Rightarrow> string list" where
  "names_of pkg = List.map_filter u_name pkg"

definition package_wf :: "uci_package \<Rightarrow> bool" where
  "package_wf pkg = (list_all section_wf pkg \<and> distinct (names_of pkg))"

definition parser_wf :: "parser \<Rightarrow> bool" where
  "parser_wf p = (package_wf (p_pkg p) \<and> (case p_current p of None \<Rightarrow> True | Some c \<Rightarrow> c < length (p_pkg p)))"

lemma names_of_simps [simp]: "names_of [] = []"
  "names_of (s # ss) = (case u_name s of None \<Rightarrow> names_of ss | Some n \<Rightarrow> n # names_of ss)"
  by (simp_all add: names_of_def List.map_filter_simps split: option.split)

lemma names_of_append: "names_of (xs @ ys) = names_of xs @ names_of ys"
  by (induction xs) (auto split: option.split)

lemma names_of_cong: "map u_name xs = map u_name ys \<Longrightarrow> names_of xs = names_of ys"
proof (induction xs arbitrary: ys)
  case (Cons x xs)
  then obtain y ys' where "ys = y # ys'" "u_name y = u_name x" "map u_name xs = map u_name ys'"
    by (auto simp: map_eq_Cons_conv)
  with Cons.IH [of ys'] show ?case by (simp split: option.split)
qed simp

lemma set_names_of: "n \<in> set (names_of xs) \<longleftrightarrow> (\<exists>s \<in> set xs. u_name s = Some n)"
  by (induction xs) (auto split: option.split)

lemma find_pos_Some: "find_pos P xs = Some i \<Longrightarrow> i < length xs \<and> P (xs ! i) \<and> (\<forall>j < i. \<not> P (xs ! j))"
proof -
  assume "find_pos P xs = Some i"
  then have i: "i = length (takeWhile (\<lambda>x. \<not> P x) xs)" "i < length xs"
    by (auto simp: find_pos_def Let_def split: if_splits)
  then show ?thesis using nth_length_takeWhile [of "\<lambda>x. \<not> P x" xs] nth_mem
      takeWhile_nth [of _ "\<lambda>x. \<not> P x" xs] set_takeWhileD
    by (metis (no_types, lifting))
qed

lemma find_pos_None: "find_pos P xs = None \<longleftrightarrow> (\<forall>x \<in> set xs. \<not> P x)"
proof -
  have "length (takeWhile (\<lambda>x. \<not> P x) xs) = length xs \<longleftrightarrow> (\<forall>x \<in> set xs. \<not> P x)"
    by (metis takeWhile_eq_all_conv length_takeWhile_le le_neq_implies_less nth_length_takeWhile nth_mem takeWhile_eq_take take_all_iff order_refl)
  then show ?thesis using length_takeWhile_le [of "\<lambda>x. \<not> P x" xs]
    by (auto simp: find_pos_def Let_def)
qed

lemma next_arg_result:
  assumes "next_arg r n pk lx = Ok (s, lx')"
  shows "NUL \<notin> set s" "r \<Longrightarrow> s \<noteq> []" "n \<Longrightarrow> s \<noteq> [] \<Longrightarrow> validate_str s n pk"
  using assms set_takeWhileD
  by (force simp: next_arg_def Let_def str_at_def split: sum.splits if_splits)+

lemma add_list_wf:
  assumes "distinct (map fst opts)" "\<forall>(n, v) \<in> set opts. validate_str n True False \<and> value_wf v"
    and "validate_str name True False" "NUL \<notin> set w"
  shows "distinct (map fst (add_list name w opts)) \<and>
    (\<forall>(n, v) \<in> set (add_list name w opts). validate_str n True False \<and> value_wf v)"
proof (cases "find_pos (\<lambda>(n, _). n = name) opts")
  case None
  moreover from None have "name \<notin> fst ` set opts" by (auto simp: find_pos_None)
  ultimately show ?thesis using assms by (auto simp: add_list_def)
next
  case (Some i)
  then have i: "i < length opts" using find_pos_Some by blast
  let ?v = "case snd (opts ! i) of List items \<Rightarrow> List (items @ [w]) | Str s \<Rightarrow> List [s, w]"
  have "opts ! i \<in> set opts" using i by simp
  then have ok: "validate_str (fst (opts ! i)) True False" "value_wf (snd (opts ! i))"
    using assms(2) by (auto simp: split_def)
  have "value_wf ?v" using ok(2) assms(4) by (cases "snd (opts ! i)") auto
  moreover have "map fst (opts[i := (fst (opts ! i), ?v)]) = map fst opts"
    using i by (simp add: map_update list_update_same_conv)
  ultimately show ?thesis using assms(1,2) ok(1) Some
    by (auto simp: add_list_def dest!: set_update_subset_insert [THEN subsetD])
qed

lemma set_value_wf:
  assumes "distinct (map fst opts)" "\<forall>(n, v) \<in> set opts. validate_str n True False \<and> value_wf v"
    and "validate_str name True False" "NUL \<notin> set w"
  shows "distinct (map fst (set_value name w opts)) \<and>
    (\<forall>(n, v) \<in> set (set_value name w opts). validate_str n True False \<and> value_wf v)"
proof (cases "find_pos (\<lambda>(n, _). n = name) opts")
  case None
  moreover from None have "name \<notin> fst ` set opts" by (auto simp: find_pos_None)
  ultimately show ?thesis using assms by (auto simp: set_value_def)
next
  case (Some i)
  then have i: "i < length opts" using find_pos_Some by blast
  have "opts ! i \<in> set opts" using i by simp
  then have ok: "validate_str (fst (opts ! i)) True False"
    using assms(2) by (auto simp: split_def)
  have "map fst (opts[i := (fst (opts ! i), Str w)]) = map fst opts"
    using i by (simp add: map_update list_update_same_conv)
  then show ?thesis using assms ok Some
    by (auto simp: set_value_def dest!: set_update_subset_insert [THEN subsetD])
qed

lemma push_section_wf:
  assumes "parser_wf p" "section_wf s" "\<And>n. u_name s = Some n \<Longrightarrow> \<forall>s \<in> set (p_pkg p). u_name s \<noteq> Some n"
  shows "parser_wf (push_section s p)"
  using assms by (auto simp: parser_wf_def push_section_def package_wf_def names_of_append set_names_of split: option.split)

lemma new_section_wf: "validate_str t False False \<Longrightarrow> (\<And>n. nm = Some n \<Longrightarrow> validate_str n True False) \<Longrightarrow> section_wf (new_section nm t)"
  by (auto simp: section_wf_def new_section_def split: option.split)

lemma new_section_name [simp]: "u_name (new_section nm t) = nm"
  by (simp add: new_section_def)

lemma cfg_config_wf: "parser_wf p \<Longrightarrow> cfg_config p lx = Ok (p', lx') \<Longrightarrow> parser_wf p'"
  by (auto simp: cfg_config_def find_pos_None split: sum.splits if_splits option.splits
      intro!: push_section_wf new_section_wf dest: next_arg_result)
    (auto simp: parser_wf_def dest: find_pos_Some next_arg_result(3) split: option.splits)

lemma cfg_option_wf:
  assumes "parser_wf p" "cfg_option p lx b = Ok (p', lx')"
  shows "parser_wf p'"
proof -
  obtain c name v lx1 lx2 lx3 where c: "p_current p = Some c"
    and nm: "next_arg True True False lx1 = Ok (name, lx2)"
    and v: "next_arg False False False lx2 = Ok (v, lx3)"
    and p': "p' = p\<lparr>p_pkg := (p_pkg p)[c := (p_pkg p ! c)\<lparr>u_options :=
        (if b then add_list else set_value) name v (u_options (p_pkg p ! c))\<rparr>]\<rparr>"
    using assms(2) by (auto simp: cfg_option_def Let_def split: sum.splits option.splits)
  let ?s = "p_pkg p ! c"
  have cl: "c < length (p_pkg p)" and pw: "package_wf (p_pkg p)"
    using assms(1) c by (auto simp: parser_wf_def)
  then have "section_wf ?s" by (simp add: package_wf_def list_all_length)
  then have sw: "section_wf (?s\<lparr>u_options := (if b then add_list else set_value) name v (u_options ?s)\<rparr>)"
    using next_arg_result [OF nm] next_arg_result [OF v] add_list_wf [of "u_options ?s" name v] set_value_wf [of "u_options ?s" name v]
    by (auto simp: section_wf_def)
  have "map u_name (p_pkg p') = map u_name (p_pkg p)"
    using cl by (simp add: p' map_update list_update_same_conv)
  then have "names_of (p_pkg p') = names_of (p_pkg p)" by (rule names_of_cong)
  then show ?thesis using pw sw cl c
    by (auto simp: p' parser_wf_def package_wf_def list_all_length nth_list_update)
qed

lemma run_command_wf: "parser_wf p \<Longrightarrow> run_command w p lx = Ok (p', lx') \<Longrightarrow> parser_wf p'"
  by (auto simp: run_command_def map_sum_Ok split: if_splits intro: cfg_config_wf cfg_option_wf)

lemma line_loop_wf: "line_loop p lx = Ok (p', lx') \<Longrightarrow> parser_wf p \<Longrightarrow> parser_wf p'"
proof (induction p lx rule: line_loop.induct)
  case (1 p lx)
  obtain word lx1 where tok: "strtok lx = (word, lx1)" by fastforce
  show ?case
  proof (cases "word = [] \<or> hd word = CHR ''#''")
    case True
    then show ?thesis using 1(2,3) by (auto simp: line_loop.simps [of p lx] tok)
  next
    case False
    then obtain p2 lx2 where run: "run_command word p lx1 = Ok (p2, lx2)" and rec: "line_loop p2 lx2 = Ok (p', lx')"
      using 1(2) by (auto simp: line_loop.simps [of p lx] tok split: sum.splits)
    show ?thesis
      using 1(1) [OF tok [symmetric] False run refl rec run_command_wf [OF 1(3) run]] .
  qed
qed

lemma parse_loop_wf: "parse_loop p lx = Ok p' \<Longrightarrow> parser_wf p \<Longrightarrow> parser_wf p'"
proof (induction p lx rule: parse_loop.induct)
  case (1 p lx)
  show ?case
  proof (cases "l_ipos lx < length (l_input lx)")
    case True
    let ?lx1 = "getln 0 (lx\<lparr>l_pos := 0\<rparr>)"
    show ?thesis
    proof (cases "ch ?lx1 0 = NUL")
      case nul: True
      then show ?thesis using 1(2) [OF True refl] 1(3,4) True
        by (simp add: parse_loop.simps [of p lx])
    next
      case False
      then obtain p2 lx2 where ln: "line p ?lx1 = Ok (p2, lx2)" and rec: "parse_loop p2 lx2 = Ok p'"
        using 1(3) True by (auto simp: parse_loop.simps [of p lx] split: sum.splits)
      then show ?thesis using 1(1) [OF True refl _ ln refl rec] False 1(4) line_loop_wf
        by (auto simp: line_def)
    qed
  next
    case False
    then show ?thesis using 1(3,4) by (simp add: parse_loop.simps [of p lx])
  qed
qed

text \<open>
  Property C27. Every package the parser accepts is well formed: section types and the names of
  sections and options carry only allowed characters, no section name and no option name of a
  section occurs twice (repeated lines are merged into the first), a plain option is never empty, a
  list has at least one item, and no value holds a NUL byte.
\<close>

theorem parse_well_formed: "parse inp = Ok pkg \<Longrightarrow> package_wf pkg"
  using parse_loop_wf
  by (fastforce simp: parse_def map_sum_Ok parser_wf_def package_wf_def split: if_splits)


section \<open>Reading back what was printed\<close>

text \<open>
  The text a lexer still has in front of it: the rest of the current line in the buffer, then the
  input not yet read. \<open>on_line\<close>: the buffer holds exactly the next line of that text; \<open>at_end\<close>: the
  buffer is used up.
\<close>

definition on_line :: "lexer \<Rightarrow> string \<Rightarrow> bool" where
  "on_line lx T \<longleftrightarrow> l_pos lx \<le> length (l_buf lx) \<and> l_filled lx = length (l_buf lx) \<and>
     drop (l_pos lx) (l_buf lx) = first_line T \<and> first_line T @ drop (l_ipos lx) (l_input lx) = T"

definition at_end :: "lexer \<Rightarrow> string \<Rightarrow> bool" where
  "at_end lx T \<longleftrightarrow> l_pos lx = length (l_buf lx) \<and> l_filled lx = length (l_buf lx) \<and>
     drop (l_ipos lx) (l_input lx) = T"

lemma cur_drop: "cur lx = (case drop (l_pos lx) (l_buf lx) of [] \<Rightarrow> NUL | c # _ \<Rightarrow> c)"
  by (auto simp: cur_def ch_def drop_Cons' Cons_nth_drop_Suc [symmetric] split: list.split)

lemma cur_on_line [simp]: "on_line lx (c # T) \<Longrightarrow> cur lx = c"
  by (auto simp: on_line_def cur_drop split: if_splits)

lemma cur_at_end [simp]: "at_end lx T \<Longrightarrow> cur lx = NUL"
  by (simp add: at_end_def cur_def ch_def)

lemma drop_Suc_Cons: "drop n xs = c # ys \<Longrightarrow> drop (Suc n) xs = ys \<and> n < length xs"
  by (metis drop_Suc drop_tl list.sel(3) drop_all list.distinct(1) not_less)

lemma inc_on_line: "on_line lx (c # T) \<Longrightarrow> c \<noteq> NL \<Longrightarrow> on_line (inc_pos 1 lx) T"
  by (auto simp: on_line_def dest: drop_Suc_Cons)

lemma inc_newline: "on_line lx (NL # T) \<Longrightarrow> at_end (inc_pos 1 lx) T"
  by (auto simp: on_line_def at_end_def dest!: drop_Suc_Cons)

lemma on_line_set: "i < l_pos lx \<Longrightarrow> on_line (set_at i c lx) T = on_line lx T"
  by (simp add: on_line_def drop_update_cancel)

lemma at_end_set: "at_end (set_at i c lx) T = at_end lx T"
  by (simp add: at_end_def)

lemma first_line_rest: "first_line s @ drop (length (first_line s)) s = s"
  by (induction s) auto

lemma getln_at_end:
  assumes "at_end lx T" "T \<noteq> []"
  shows "on_line (getln (l_pos lx) lx) T" "l_buf (getln (l_pos lx) lx) = l_buf lx @ first_line T"
  using assms first_line_rest [of T]
  by (auto simp: on_line_def at_end_def getln_def Let_def drop_drop add.commute)

text \<open>\<open>got lx dest acc\<close>: the bytes collected so far, written back at the front of the buffer.\<close>

definition got :: "lexer \<Rightarrow> nat \<Rightarrow> string \<Rightarrow> bool" where
  "got lx dest acc \<longleftrightarrow> dest \<le> l_pos lx \<and> l_pos lx \<le> length (l_buf lx) \<and> take dest (l_buf lx) = acc"

lemma got_length: "got lx dest acc \<Longrightarrow> length acc = dest"
  by (auto simp: got_def)

lemma addc_reads:
  assumes on: "on_line lx (c # T)" and g: "got lx dest acc" and a: "addc (lx, dest) = (lx', dest')"
  shows "got lx' dest' (acc @ [c])" "dest' = dest + 1" "if c = NL then at_end lx' T else on_line lx' T"
proof -
  have c: "cur lx = c" using on by simp
  have len: "l_pos lx < length (l_buf lx)" using on by (auto simp: on_line_def dest!: drop_Suc_Cons split: if_splits)
  have eq: "lx' = inc_pos 1 (set_at dest c lx)" "dest' = dest + 1" using a c by (auto simp: addc_def)
  have swap: "on_line (set_at dest c lx) (c # T)"
  proof (cases "dest = l_pos lx")
    case True
    then have "(l_buf lx)[dest := c] = l_buf lx" using c len by (simp add: cur_def ch_def list_update_same_conv)
    then show ?thesis using on by (simp add: on_line_def)
  qed (use g on on_line_set in \<open>auto simp: got_def\<close>)
  show "dest' = dest + 1" by (fact eq)
  show "if c = NL then at_end lx' T else on_line lx' T"
    using inc_on_line [OF swap] inc_newline [of "set_at dest c lx" T] swap by (auto simp: eq)
  show "got lx' dest' (acc @ [c])" using g len
    by (auto simp: got_def eq take_Suc_conv_app_nth)
qed

lemma single_quote_loop_reads:
  assumes "on_line lx (v @ SQ # T) \<or> at_end lx (v @ SQ # T)" "got lx dest acc" "NUL \<notin> set v" "SQ \<notin> set v"
  shows "\<exists>lx'. single_quote_loop (lx, dest) = Ok (lx', dest + length v) \<and> on_line lx' T \<and>
    got lx' (dest + length v) (acc @ v)"
  using assms
proof (induction v arbitrary: lx dest acc)
  case Nil
  have start: "\<exists>lx'. single_quote_loop (lx, dest) = Ok (lx', dest) \<and> on_line lx' T \<and> got lx' dest acc"
    if on: "on_line lx (SQ # T)" and g: "got lx dest acc" for lx
  proof -
    have "single_quote_loop (lx, dest) = Ok (inc_pos 1 lx, dest)"
      using on by (simp add: single_quote_loop.simps [of "(lx, dest)"])
    moreover have "l_pos lx < length (l_buf lx)" using on by (auto simp: on_line_def dest!: drop_Suc_Cons)
    ultimately show ?thesis using inc_on_line [OF on] g by (auto simp: got_def)
  qed
  show ?case
  proof (cases "on_line lx (SQ # T)")
    case False
    then have e: "at_end lx (SQ # T)" using Nil by simp
    note n = getln_at_end [OF e]
    have "got (getln (l_pos lx) lx) dest acc" using Nil(2) n(2) by (auto simp: got_def)
    then show ?thesis using start [of "getln (l_pos lx) lx"] n e
      by (simp add: single_quote_loop.simps [of "(lx, dest)"])
  qed (use start Nil in simp)
next
  case (Cons c v)
  then have c: "c \<noteq> NUL" "c \<noteq> SQ" by auto
  have start: "\<exists>lx'. single_quote_loop (lx, dest) = Ok (lx', dest + length (c # v)) \<and> on_line lx' T \<and> got lx' (dest + length (c # v)) (acc @ c # v)"
    if on: "on_line lx (c # v @ SQ # T)" and g: "got lx dest acc" for lx
  proof -
    obtain lx1 d1 where a: "addc (lx, dest) = (lx1, d1)" by fastforce
    note r = addc_reads [OF on g a]
    have "single_quote_loop (lx, dest) = single_quote_loop (lx1, d1)"
      using on c a by (simp add: single_quote_loop.simps [of "(lx, dest)"])
    then show ?thesis using Cons.IH [of lx1 d1 "acc @ [c]"] r Cons.prems by (auto split: if_splits)
  qed
  show ?case
  proof (cases "on_line lx (c # v @ SQ # T)")
    case False
    then have e: "at_end lx (c # v @ SQ # T)" using Cons by simp
    note n = getln_at_end [OF e]
    have "got (getln (l_pos lx) lx) dest acc" using Cons.prems(2) n(2) by (auto simp: got_def)
    then show ?thesis using start [of "getln (l_pos lx) lx"] n e c
      by (simp add: single_quote_loop.simps [of "(lx, dest)"])
  qed (use start Cons in simp)
qed


definition esc :: "string \<Rightarrow> string" where
  "esc v = concat (map (\<lambda>c. if c = SQ then [SQ, BS, SQ, SQ] else [c]) v)"

lemma quote_esc: "quote out v = out @ SQ # esc v @ [SQ]"
  by (simp add: quote_def esc_def)

lemma esc_simps [simp]: "esc [] = []" "esc (c # v) = (if c = SQ then [SQ, BS, SQ, SQ] else [c]) @ esc v"
  "esc (v @ w) = esc v @ esc w"
  by (simp_all add: esc_def)

lemma esc_plain: "SQ \<notin> set v \<Longrightarrow> esc v = v"
  by (induction v) auto

lemma single_quote_reads:
  assumes "on_line lx (SQ # v @ SQ # T)" "got lx dest acc" "NUL \<notin> set v" "SQ \<notin> set v"
  shows "\<exists>lx'. single_quote (lx, dest) = Ok (lx', dest + length v) \<and> on_line lx' T \<and>
    got lx' (dest + length v) (acc @ v)"
proof -
  have "got (inc_pos 1 lx) dest acc"
    using assms(1,2) by (auto simp: got_def on_line_def dest!: drop_Suc_Cons)
  then show ?thesis
    using single_quote_loop_reads [of "inc_pos 1 lx" v T dest acc] inc_on_line [OF assms(1)] assms(3,4)
    by (simp add: single_quote_def)
qed

lemma escaped_reads:
  assumes on: "on_line lx (BS # c # T)" and g: "got lx dest acc" and c: "c \<noteq> NUL" "c \<noteq> NL" "c \<noteq> CHR 0x0D"
  shows "\<exists>lx'. escaped (lx, dest) = (lx', dest + 1) \<and> on_line lx' T \<and> got lx' (dest + 1) (acc @ [c])"
proof -
  have on1: "on_line (inc_pos 1 lx) (c # T)" using inc_on_line [OF on] by simp
  have g1: "got (inc_pos 1 lx) dest acc" using on g by (auto simp: got_def on_line_def dest!: drop_Suc_Cons)
  have "backslash lx = (True, inc_pos 1 lx)" using on1 c by (simp add: backslash_def)
  then show ?thesis using addc_reads [OF on1 g1] c
    by (cases "addc (inc_pos 1 lx, dest)") (simp add: escaped_def)
qed

lemma parse_str_loop_quoted:
  assumes "on_line lx (SQ # esc v @ SQ # c # T)" "got lx dest acc" "NUL \<notin> set v" "is_space c"
  shows "\<exists>lx'. parse_str_loop (lx, dest) = Ok (True, lx', dest + length v) \<and> on_line lx' (c # T) \<and>
    got lx' (dest + length v) (acc @ v)"
  using assms
proof (induction "length v" arbitrary: v lx dest acc rule: less_induct)
  case less
  have q: "cur lx = SQ" using less.prems(1) by simp
  show ?case
  proof (cases "SQ \<in> set v")
    case False
    then obtain lx' where s: "single_quote (lx, dest) = Ok (lx', dest + length v)" "on_line lx' (c # T)" "got lx' (dest + length v) (acc @ v)"
      using single_quote_reads [of lx v "c # T" dest acc] less.prems esc_plain [OF False] by auto
    then show ?thesis using q less.prems(4)
      by (simp add: parse_str_loop.simps [of "(lx, dest)"] parse_str_round_def)
  next
    case True
    then obtain a w where v: "v = a @ SQ # w" and "SQ \<notin> set a" by (metis split_list_first)
    then have a: "SQ \<notin> set a" "NUL \<notin> set a" using less.prems(3) by auto
    have on: "on_line lx (SQ # a @ SQ # BS # SQ # SQ # esc w @ SQ # c # T)"
      using less.prems(1) a by (simp add: v esc_plain)
    obtain lx1 where s1: "single_quote (lx, dest) = Ok (lx1, dest + length a)"
        "on_line lx1 (BS # SQ # SQ # esc w @ SQ # c # T)" "got lx1 (dest + length a) (acc @ a)"
      using single_quote_reads [OF on less.prems(2) a(2,1)] by blast
    obtain lx2 where s2: "escaped (lx1, dest + length a) = (lx2, dest + length a + 1)"
        "on_line lx2 (SQ # esc w @ SQ # c # T)" "got lx2 (dest + length a + 1) (acc @ a @ [SQ])"
      using escaped_reads [OF s1(2,3)] by auto
    obtain lx' where s3: "parse_str_loop (lx2, dest + length a + 1) = Ok (True, lx', dest + length a + 1 + length w)"
        "on_line lx' (c # T)" "got lx' (dest + length a + 1 + length w) ((acc @ a @ [SQ]) @ w)"
      using less.hyps [OF _ s2(2,3)] less.prems(3,4) by (auto simp: v)
    have "parse_str_loop (lx, dest) = parse_str_loop (lx1, dest + length a)"
      using q s1 by (simp add: parse_str_loop.simps [of "(lx, dest)"] parse_str_round_def is_space_def)
    also have "\<dots> = parse_str_loop (lx2, dest + length a + 1)"
      using s1(2) s2 by (simp add: parse_str_loop.simps [of "(lx1, dest + length a)"] parse_str_round_def is_space_def)
    finally show ?thesis using s3 by (auto simp: v add.assoc)
  qed
qed

definition plain_char :: "char \<Rightarrow> bool" where
  "plain_char c = (c \<notin> {NUL, SQ, DQ, BS, CHR ''#'', CHR '';''} \<and> \<not> is_space c)"

lemma parse_str_loop_plain:
  assumes "on_line lx (w @ c # T)" "got lx dest acc" "list_all plain_char w" "w \<noteq> []" "is_space c"
  shows "\<exists>lx'. parse_str_loop (lx, dest) = Ok (True, lx', dest + length w) \<and> on_line lx' (c # T) \<and>
    got lx' (dest + length w) (acc @ w)"
  using assms
proof (induction w arbitrary: lx dest acc)
  case (Cons d w)
  obtain lx1 d1 where a: "addc (lx, dest) = (lx1, d1)" by fastforce
  have on: "on_line lx (d # w @ c # T)" using Cons.prems(1) by simp
  have d: "plain_char d" "d \<noteq> NL" using Cons.prems(3) by (auto simp: plain_char_def is_space_def)
  note r = addc_reads [OF on Cons.prems(2) a]
  have round: "parse_str_round (lx, dest) = Ok (Round (lx1, d1))"
    using on d a by (simp add: parse_str_round_def plain_char_def)
  show ?case
  proof (cases w)
    case Nil
    then show ?thesis using r d Cons.prems(5) round
      by (simp add: parse_str_loop.simps [of "(lx, dest)"])
  next
    case (Cons e w')
    then have "plain_char e" using Cons.prems(3) by simp
    then have "cur lx1 \<noteq> NUL \<and> \<not> is_space (cur lx1)" using r(3) d Cons by (auto simp: plain_char_def)
    then have "parse_str_loop (lx, dest) = parse_str_loop (lx1, d1)"
      using round by (simp add: parse_str_loop.simps [of "(lx, dest)"])
    then show ?thesis using Cons.IH [of lx1 d1 "acc @ [d]"] r d Cons Cons.prems by auto
  qed
qed simp

text \<open>From the loop to the argument: the separator is consumed and the argument ends in the buffer.\<close>

lemma next_arg_reads:
  assumes loop: "parse_str_loop (lx, l_pos lx) = Ok (True, lx1, l_pos lx + length v)"
    and on: "on_line lx1 (c # T)" and g: "got lx1 (l_pos lx + length v) (take (l_pos lx) (l_buf lx) @ v)"
    and v: "NUL \<notin> set v" "r \<longrightarrow> v \<noteq> []" "n \<longrightarrow> v \<noteq> [] \<longrightarrow> validate_str v n pk"
    and c: "is_space c"
    and start: "cur lx \<noteq> CHR '';''" "\<not> is_space (cur lx)" "l_pos lx \<le> length (l_buf lx)"
  shows "\<exists>lx'. next_arg r n pk lx = Ok (v, lx') \<and> (if c = NL then at_end lx' T else on_line lx' T)"
proof -
  let ?d = "l_pos lx + length v"
  let ?lx' = "set_at ?d NUL (inc_pos 1 lx1)"
  have ws: "skip_whitespace lx = lx" using start by (simp add: skip_whitespace.simps [of lx])
  have "c \<noteq> NUL" using c by (auto simp: is_space_def)
  then have ps: "parse_str (lx, l_pos lx) = Ok (?lx', ?d)" using loop on by (simp add: parse_str_def)
  have len: "?d < length (l_buf lx1)" using g on by (auto simp: got_def on_line_def dest!: drop_Suc_Cons split: if_splits)
  have "take ?d (l_buf lx1) = take (l_pos lx) (l_buf lx) @ v" using g by (simp add: got_def)
  then have "l_buf ?lx' = take (l_pos lx) (l_buf lx) @ v @ NUL # drop (Suc ?d) (l_buf lx1)"
    using len by (simp add: upd_conv_take_nth_drop)
  then have "drop (l_pos lx) (l_buf ?lx') = v @ NUL # drop (Suc ?d) (l_buf lx1)"
    using start(3) by (simp del: set_at_fields inc_pos_fields)
  then have s: "str_at ?lx' (l_pos lx) = v"
    using v(1) by (auto simp: str_at_def takeWhile_append)
  have "if c = NL then at_end ?lx' T else on_line ?lx' T"
    using inc_on_line [OF on] inc_newline [of lx1 T] on g
    by (auto simp: at_end_set on_line_set got_def)
  then show ?thesis using ps s ws v start(1) by (auto simp: next_arg_def Let_def)
qed


lemma on_line_got: "on_line lx T \<Longrightarrow> got lx (l_pos lx) (take (l_pos lx) (l_buf lx))"
  by (simp add: on_line_def got_def)

lemma next_arg_quoted:
  assumes "on_line lx (quote [] v @ c # T)" "NUL \<notin> set v" "is_space c"
    "r \<longrightarrow> v \<noteq> []" "n \<longrightarrow> v \<noteq> [] \<longrightarrow> validate_str v n pk"
  shows "\<exists>lx'. next_arg r n pk lx = Ok (v, lx') \<and> (if c = NL then at_end lx' T else on_line lx' T)"
proof -
  have on: "on_line lx (SQ # esc v @ SQ # c # T)" using assms(1) by (simp add: quote_esc)
  obtain lx1 where "parse_str_loop (lx, l_pos lx) = Ok (True, lx1, l_pos lx + length v)" "on_line lx1 (c # T)"
      "got lx1 (l_pos lx + length v) (take (l_pos lx) (l_buf lx) @ v)"
    using parse_str_loop_quoted [OF on on_line_got [OF on] assms(2,3)] by blast
  moreover have "cur lx = SQ" "\<not> is_space SQ" using on by (simp_all add: is_space_def)
  moreover have "l_pos lx \<le> length (l_buf lx)" using on by (simp add: on_line_def)
  ultimately show ?thesis using next_arg_reads [of lx lx1 v c T r n pk] assms(2-) by simp
qed

lemma next_arg_word:
  assumes "on_line lx (w @ c # T)" "list_all plain_char w" "w \<noteq> []" "is_space c" "n \<longrightarrow> validate_str w n pk"
  shows "\<exists>lx'. next_arg r n pk lx = Ok (w, lx') \<and> (if c = NL then at_end lx' T else on_line lx' T)"
proof -
  obtain d w' where w: "w = d # w'" using assms(3) by (cases w) auto
  have "plain_char d" "cur lx = d" "NUL \<notin> set w" using assms(1,2) by (auto simp: w plain_char_def list_all_iff)
  moreover obtain lx1 where "parse_str_loop (lx, l_pos lx) = Ok (True, lx1, l_pos lx + length w)" "on_line lx1 (c # T)"
      "got lx1 (l_pos lx + length w) (take (l_pos lx) (l_buf lx) @ w)"
    using parse_str_loop_plain [OF assms(1) on_line_got [OF assms(1)] assms(2-4)] by blast
  ultimately show ?thesis using next_arg_reads [of lx lx1 w c T r n pk] assms
    by (simp add: plain_char_def on_line_def [of lx])
qed

lemma next_arg_end: "at_end lx T \<Longrightarrow> next_arg False n pk lx = Ok ([], lx)"
proof -
  assume e: "at_end lx T"
  then have "skip_whitespace lx = lx" by (simp add: skip_whitespace.simps [of lx])
  moreover have "parse_str (lx, l_pos lx) = Ok (set_at (l_pos lx) NUL lx, l_pos lx)"
    using e by (simp add: parse_str_def parse_str_loop.simps [of "(lx, l_pos lx)"] parse_str_round_def)
  moreover have "set_at (l_pos lx) NUL lx = lx" using e by (simp add: set_at_def at_end_def)
  moreover have "str_at lx (l_pos lx) = []" using e by (simp add: str_at_def at_end_def)
  ultimately show ?thesis using e by (simp add: next_arg_def)
qed

lemma assert_eol_end: "at_end lx T \<Longrightarrow> assert_eol lx = Ok lx"
  by (simp add: assert_eol_def next_arg_end skip_whitespace.simps [of lx])

lemma line_loop_end: "at_end lx T \<Longrightarrow> line_loop p lx = Ok (p, lx)"
proof -
  assume e: "at_end lx T"
  then have "ch lx (l_pos lx) = NUL" by (simp add: at_end_def ch_def)
  then have "skip_blanks lx (l_pos lx) = l_pos lx" by (simp add: skip_blanks.simps [of lx "l_pos lx"])
  then show ?thesis using e by (simp add: line_loop.simps [of p lx] strtok_def at_end_def)
qed

text \<open>A keyword followed by a blank: \<open>strtok\<close> finds it and \<open>skip_keyword\<close> steps over it.\<close>

lemma skip_word_over:
  assumes "drop i (l_buf lx) = w @ CHR '' '' # T" "list_all plain_char w"
  shows "skip_word lx i = i + length w"
  using assms
proof (induction w arbitrary: i)
  case Nil
  then show ?case by (simp add: skip_word.simps [of lx i] ch_def drop_Suc_Cons nth_via_drop)
next
  case (Cons d w)
  have "ch lx i = d" using Cons.prems(1) by (auto simp: ch_def nth_via_drop dest!: drop_Suc_Cons)
  moreover have "drop (Suc i) (l_buf lx) = w @ CHR '' '' # T" using Cons.prems(1) drop_Suc_Cons [of i "l_buf lx" d] by simp
  ultimately show ?case using Cons.IH [of "Suc i"] Cons.prems(2)
    by (auto simp: skip_word.simps [of lx i] plain_char_def is_space_def)
qed

lemma first_line_append: "NL \<notin> set w \<Longrightarrow> first_line (w @ T) = w @ first_line T"
  by (induction w) auto

lemma keyword_reads:
  assumes on: "on_line lx (w @ CHR '' '' # T)" and w: "list_all plain_char w" "w \<noteq> []"
  shows "\<exists>lx1. strtok lx = (w, lx1) \<and> (\<forall>r. \<exists>lx2. skip_keyword r lx1 = Ok lx2 \<and> on_line lx2 T)"
proof -
  let ?i = "l_pos lx + length w"
  let ?lx1 = "set_at ?i NUL lx"
  have nl: "NL \<notin> set w" "NUL \<notin> set w" using w(1) by (auto simp: plain_char_def is_space_def list_all_iff)
  have d: "drop (l_pos lx) (l_buf lx) = w @ CHR '' '' # first_line T"
    using on nl(1) by (simp add: on_line_def first_line_append)
  have "plain_char (hd w)" "ch lx (l_pos lx) = hd w"
    using w d by (cases w; auto simp: ch_def nth_via_drop dest!: drop_Suc_Cons)+
  then have sb: "skip_blanks lx (l_pos lx) = l_pos lx"
    by (simp add: skip_blanks.simps [of lx "l_pos lx"] plain_char_def is_space_def)
  have wd: "drop (l_pos lx) (take ?i (l_buf lx)) = w" using d by (simp add: drop_take)
  have tok: "strtok lx = (w, ?lx1)"
    unfolding strtok_def Let_def sb skip_word_over [OF d w(1)] wd using w(2) by simp
  have buf: "l_buf lx = take (l_pos lx) (l_buf lx) @ w @ CHR '' '' # first_line T" by (metis append_take_drop_id d)
  have pos: "l_pos lx \<le> length (l_buf lx)" using on by (simp add: on_line_def)
  have len: "?i < length (l_buf lx)" by (subst buf) (use pos in simp)
  have b1: "l_buf ?lx1 = take (l_pos lx) (l_buf lx) @ w @ NUL # first_line T"
    by (simp, subst buf) (use pos in \<open>simp add: list_update_append\<close>)
  have s: "str_at ?lx1 (l_pos lx) = w"
    unfolding str_at_def b1 using pos nl(2) by (auto simp: takeWhile_append)
  have "drop (Suc ?i) (l_buf lx) = first_line T" by (subst buf) (use pos in simp)
  moreover have "w @ CHR '' '' # first_line T @ drop (l_ipos lx) (l_input lx) = w @ CHR '' '' # T"
    using on nl(1) by (simp add: on_line_def first_line_append)
  ultimately have "on_line (inc_pos (length w + 1) ?lx1) T"
    using len on by (simp add: on_line_def)
  moreover have "skip_keyword r ?lx1 = Ok (inc_pos (length w + 1) ?lx1)" for r
    using s len on by (simp add: skip_keyword_def on_line_def Let_def)
  ultimately show ?thesis using tok by blast
qed

text \<open>
  The file form in which UCI stores a package: one \<open>config\<close> line per section, then its options and
  list items, each value in single quotes.
\<close>

definition print_line :: "string \<Rightarrow> string \<Rightarrow> string \<Rightarrow> string" where
  "print_line kw name v = CHR 0x09 # kw @ '' '' @ name @ '' '' @ quote [] v @ [NL]"

fun print_option :: "string \<times> uci_value \<Rightarrow> string" where
  "print_option (n, Str v) = print_line ''option'' n v"
| "print_option (n, List items) = concat (map (print_line ''list'' n) items)"

definition print_head :: "uci_section \<Rightarrow> string" where
  "print_head s = ''config '' @ u_stype s @
     (case u_name s of None \<Rightarrow> [] | Some n \<Rightarrow> '' '' @ quote [] n) @ [NL]"

definition print_section :: "uci_section \<Rightarrow> string" where
  "print_section s = print_head s @ concat (map print_option (u_options s)) @ [NL]"

definition print_package :: "uci_package \<Rightarrow> string" where
  "print_package pkg = concat (map print_section pkg)"

text \<open>A section type that needs no quoting.\<close>

definition plain_type :: "uci_section \<Rightarrow> bool" where
  "plain_type s = list_all plain_char (u_stype s)"

lemma name_char_plain:
  assumes "is_ascii_alphanumeric c \<or> c = CHR ''_''"
  shows "plain_char c"
proof (rule ccontr)
  assume "\<not> plain_char c"
  then have "c \<in> {NUL, SQ, DQ, BS, CHR ''#'', CHR '';'', CHR 0x20, CHR 0x09, CHR 0x0A, CHR 0x0B, CHR 0x0C, CHR 0x0D}"
    by (auto simp: plain_char_def is_space_def)
  then show False using assms by (auto simp: is_ascii_alphanumeric_def)
qed

lemma validated_name: "validate_str s True False \<Longrightarrow> list_all plain_char s \<and> s \<noteq> [] \<and> NUL \<notin> set s"
proof -
  assume "validate_str s True False"
  then have s: "s \<noteq> []" "\<forall>c \<in> set s. plain_char c" using name_char_plain by (simp_all add: validate_str_def list_all_iff)
  then show ?thesis unfolding list_all_iff plain_char_def by blast
qed

text \<open>One pass of the loop over the file, when the line runs to its end.\<close>

lemma parse_loop_line:
  assumes rest: "drop (l_ipos lx) (l_input lx) = c # T" and c: "c \<noteq> NUL"
    and step: "\<And>lx1. on_line lx1 (c # T) \<Longrightarrow> \<exists>lx2. line p lx1 = Ok (p', lx2) \<and> at_end lx2 U"
  shows "\<exists>lx'. parse_loop p lx = parse_loop p' lx' \<and> drop (l_ipos lx') (l_input lx') = U"
proof -
  let ?lx0 = "lx\<lparr>l_buf := [], l_pos := 0, l_filled := 0\<rparr>"
  let ?lx1 = "getln 0 (lx\<lparr>l_pos := 0\<rparr>)"
  have "at_end ?lx0 (c # T)" using rest by (simp add: at_end_def)
  then have "on_line (getln 0 ?lx0) (c # T)" using getln_at_end(1) by fastforce
  moreover have lt: "l_ipos lx < length (l_input lx)" using rest by (metis drop_all list.distinct(1) not_less)
  moreover have "?lx1 = getln 0 ?lx0" using lt by (simp add: getln_def Let_def)
  ultimately have on: "on_line ?lx1 (c # T)" by simp
  then have "ch ?lx1 0 = c" using cur_on_line [OF on] by (simp add: cur_def)
  then obtain lx2 where "line p ?lx1 = Ok (p', lx2)" "at_end lx2 U" "ch ?lx1 0 \<noteq> NUL" using step [OF on] c by auto
  then show ?thesis using lt by (auto simp: parse_loop.simps [of p lx] at_end_def)
qed

lemma line_start: "on_line lx (CHR 0x09 # c # T) \<Longrightarrow> plain_char c \<Longrightarrow> \<exists>lx'. skip_whitespace lx = lx' \<and> on_line lx' (c # T)"
proof -
  assume on: "on_line lx (CHR 0x09 # c # T)" and c: "plain_char c"
  then have "on_line (inc_pos 1 lx) (c # T)" using inc_on_line [OF on] by simp
  moreover from this have "skip_whitespace (inc_pos 1 lx) = inc_pos 1 lx"
    using c by (simp add: skip_whitespace.simps [of "inc_pos (Suc 0) lx"] plain_char_def)
  ultimately show ?thesis using on by (simp add: skip_whitespace.simps [of lx] is_space_def)
qed

lemma blank_line: "on_line lx (NL # T) \<Longrightarrow> \<exists>lx'. line p lx = Ok (p, lx') \<and> at_end lx' T"
proof -
  assume on: "on_line lx (NL # T)"
  note e = inc_newline [OF on]
  then have "skip_whitespace lx = inc_pos 1 lx"
    using on by (simp add: skip_whitespace.simps [of lx] skip_whitespace.simps [of "inc_pos (Suc 0) lx"] is_space_def)
  then show ?thesis using e line_loop_end [OF e] by (auto simp: line_def)
qed

definition put_option :: "bool \<Rightarrow> string \<Rightarrow> string \<Rightarrow> parser \<Rightarrow> parser" where
  "put_option list name v p =
     (let c = the (p_current p); s = p_pkg p ! c in
      p\<lparr>p_pkg := (p_pkg p)[c := s\<lparr>u_options := (if list then add_list else set_value) name v (u_options s)\<rparr>]\<rparr>)"

lemma option_line:
  assumes on: "on_line lx (print_line kw n v @ T)" and kw: "kw = (if list then ''list'' else ''option'')"
    and n: "validate_str n True False" and v: "NUL \<notin> set v" and c: "p_current p = Some c"
  shows "\<exists>lx'. line p lx = Ok (put_option list n v p, lx') \<and> at_end lx' T"
proof -
  have pk: "list_all plain_char kw" "kw \<noteq> []" by (auto simp: kw plain_char_def is_space_def)
  then obtain k ks where k: "kw = k # ks" "plain_char k" by (cases kw) auto
  have "on_line lx (CHR 0x09 # k # ks @ CHR '' '' # n @ CHR '' '' # quote [] v @ NL # T)"
    using on by (simp add: print_line_def k(1))
  then obtain lx0 where l0: "skip_whitespace lx = lx0" "on_line lx0 (kw @ CHR '' '' # n @ CHR '' '' # quote [] v @ NL # T)"
    using line_start k by force
  obtain lx1 lx2 where l1: "strtok lx0 = (kw, lx1)" and l2: "skip_keyword ''option without name'' lx1 = Ok lx2" "on_line lx2 (n @ CHR '' '' # quote [] v @ NL # T)"
    using keyword_reads [OF l0(2) pk] by blast
  obtain lx3 where l3: "next_arg True True False lx2 = Ok (n, lx3)" "on_line lx3 (quote [] v @ NL # T)"
    using next_arg_word [OF l2(2), of True False True] validated_name [OF n] n by (auto simp: is_space_def split: if_splits)
  obtain lx4 where l4: "next_arg False False False lx3 = Ok (v, lx4)" "at_end lx4 T"
    using next_arg_quoted [OF l3(2) v, of False False False] by (auto simp: is_space_def)
  have "cfg_option p lx1 list = Ok (put_option list n v p, lx4)"
    using c l2 l3 l4 assert_eol_end [OF l4(2)] by (simp add: cfg_option_def put_option_def Let_def)
  then have "run_command kw p lx1 = Ok (put_option list n v p, lx4)"
    by (cases list) (simp_all add: run_command_def keyword_def kw)
  then have "line p lx = line_loop (put_option list n v p) lx4"
    using l0 l1 pk k by (simp add: line_def line_loop.simps [of p lx0] plain_char_def)
  then show ?thesis using line_loop_end [OF l4(2)] l4(2) by auto
qed


text \<open>The parser with the options of its current section replaced.\<close>

definition with_options :: "parser \<Rightarrow> (string \<times> uci_value) list \<Rightarrow> parser" where
  "with_options p opts =
     p\<lparr>p_pkg := (p_pkg p)[the (p_current p) := (p_pkg p ! the (p_current p))\<lparr>u_options := opts\<rparr>]\<rparr>"

definition options_of :: "parser \<Rightarrow> (string \<times> uci_value) list" where
  "options_of p = u_options (p_pkg p ! the (p_current p))"

definition in_section :: "parser \<Rightarrow> bool" where
  "in_section p \<longleftrightarrow> (\<exists>c. p_current p = Some c \<and> c < length (p_pkg p))"

lemma with_options_simps [simp]:
  "p_current (with_options p o1) = p_current p" "in_section (with_options p o1) = in_section p"
  "in_section p \<Longrightarrow> options_of (with_options p o1) = o1"
  "in_section p \<Longrightarrow> with_options (with_options p o1) o2 = with_options p o2"
  by (auto simp: with_options_def in_section_def options_of_def)

lemma put_option_alt:
  "put_option list n v p = with_options p ((if list then add_list else set_value) n v (options_of p))"
  by (simp add: put_option_def with_options_def options_of_def Let_def)

lemma find_pos_append_new: "(\<forall>x \<in> set xs. \<not> P x) \<Longrightarrow> P y \<Longrightarrow> find_pos P (xs @ y # zs) = Some (length xs)"
  by (simp add: find_pos_def takeWhile_append2 Let_def)

lemma value_new:
  assumes "n \<notin> fst ` set opts"
  shows "v \<noteq> [] \<Longrightarrow> set_value n v opts = opts @ [(n, Str v)]" "add_list n v opts = opts @ [(n, List [v])]"
    "add_list n v (opts @ [(n, List items)]) = opts @ [(n, List (items @ [v]))]"
proof -
  have "find_pos (\<lambda>(m, _). m = n) opts = None" using assms by (force simp: find_pos_None)
  then show "v \<noteq> [] \<Longrightarrow> set_value n v opts = opts @ [(n, Str v)]" "add_list n v opts = opts @ [(n, List [v])]"
    by (simp_all add: set_value_def add_list_def)
  have "find_pos (\<lambda>(m, _). m = n) (opts @ [(n, List items)]) = Some (length opts)"
    using assms by (intro find_pos_append_new) force+
  then show "add_list n v (opts @ [(n, List items)]) = opts @ [(n, List (items @ [v]))]"
    by (simp add: add_list_def list_update_append)
qed

text \<open>\<open>reads s p p'\<close>: wherever the text \<open>s\<close> comes next, reading it takes the parser from \<open>p\<close> to \<open>p'\<close>.\<close>

definition reads :: "string \<Rightarrow> parser \<Rightarrow> parser \<Rightarrow> bool" where
  "reads s p p' \<longleftrightarrow> (\<forall>lx T. drop (l_ipos lx) (l_input lx) = s @ T \<longrightarrow>
     (\<exists>lx'. parse_loop p lx = parse_loop p' lx' \<and> drop (l_ipos lx') (l_input lx') = T))"

lemma reads_Nil [simp]: "reads [] p p"
  by (auto simp: reads_def)

lemma reads_append: "reads s p p1 \<Longrightarrow> reads t p1 p' \<Longrightarrow> reads (s @ t) p p'"
  unfolding reads_def by (metis append_assoc)

lemma reads_line:
  assumes "s \<noteq> []" "hd s \<noteq> NUL" "\<And>lx T. on_line lx (s @ T) \<Longrightarrow> \<exists>lx'. line p lx = Ok (p', lx') \<and> at_end lx' T"
  shows "reads s p p'"
  unfolding reads_def
proof (intro allI impI)
  fix lx :: lexer and T assume r: "drop (l_ipos lx) (l_input lx) = s @ T"
  obtain c s' where s: "s = c # s'" using assms(1) by (cases s) auto
  show "\<exists>lx'. parse_loop p lx = parse_loop p' lx' \<and> drop (l_ipos lx') (l_input lx') = T"
    using parse_loop_line [of lx c "s' @ T" p p' T] r assms(2,3) by (simp add: s)
qed

lemma reads_option_line:
  assumes "kw = (if list then ''list'' else ''option'')" "validate_str n True False" "NUL \<notin> set v" "in_section p"
  shows "reads (print_line kw n v) p (put_option list n v p)"
proof (rule reads_line)
  show "print_line kw n v \<noteq> []" "hd (print_line kw n v) \<noteq> NUL" by (simp_all add: print_line_def)
  show "\<exists>lx'. line p lx = Ok (put_option list n v p, lx') \<and> at_end lx' T" if "on_line lx (print_line kw n v @ T)" for lx T
    using option_line [OF that assms(1-3)] assms(4) by (auto simp: in_section_def)
qed

lemma reads_list_items:
  assumes "validate_str n True False" "\<forall>v \<in> set items. NUL \<notin> set v" "in_section p"
    "options_of p = opts @ [(n, List had)]" "n \<notin> fst ` set opts"
  shows "reads (concat (map (print_line ''list'' n) items)) p (with_options p (opts @ [(n, List (had @ items))]))"
  using assms(2-)
proof (induction items arbitrary: p had)
  case Nil
  then have "with_options p (opts @ [(n, List had)]) = p"
    by (auto simp: with_options_def options_of_def in_section_def list_update_same_conv intro!: parser.equality)
  then show ?case by simp
next
  case (Cons v items)
  let ?p1 = "put_option True n v p"
  have p1: "?p1 = with_options p (opts @ [(n, List (had @ [v]))])"
    using Cons.prems value_new [OF Cons.prems(4)] by (simp add: put_option_alt)
  have "reads (print_line ''list'' n v) p ?p1"
    using reads_option_line [of "''list''" True n v p] assms(1) Cons.prems by simp
  moreover have "reads (concat (map (print_line ''list'' n) items)) ?p1 (with_options ?p1 (opts @ [(n, List ((had @ [v]) @ items))]))"
    using Cons.IH [of ?p1 "had @ [v]"] Cons.prems by (simp add: p1)
  ultimately show ?case using Cons.prems by (simp add: p1 reads_append)
qed

lemma reads_option:
  assumes "validate_str n True False" "value_wf v" "in_section p" "n \<notin> fst ` set (options_of p)"
  shows "reads (print_option (n, v)) p (with_options p (options_of p @ [(n, v)]))"
proof (cases v)
  case (Str s)
  then show ?thesis using reads_option_line [of "''option''" False n s p] assms value_new [OF assms(4)]
    by (simp add: put_option_alt)
next
  case (List items)
  then obtain w ws where w: "items = w # ws" using assms(2) by (cases items) auto
  let ?p1 = "put_option True n w p"
  have p1: "?p1 = with_options p (options_of p @ [(n, List [w])])"
    using value_new [OF assms(4)] by (simp add: put_option_alt)
  have "reads (print_line ''list'' n w) p ?p1"
    using reads_option_line [of "''list''" True n w p] assms List w by simp
  moreover have "reads (concat (map (print_line ''list'' n) ws)) ?p1 (with_options ?p1 (options_of p @ [(n, List ([w] @ ws))]))"
    using assms List w by (intro reads_list_items) (auto simp: p1)
  ultimately show ?thesis using assms(3) by (simp add: p1 List w reads_append)
qed

lemma reads_options:
  assumes "\<forall>(n, v) \<in> set opts. validate_str n True False \<and> value_wf v" "in_section p"
    "distinct (map fst (options_of p @ opts))"
  shows "reads (concat (map print_option opts)) p (with_options p (options_of p @ opts))"
  using assms
proof (induction opts arbitrary: p)
  case Nil
  then have "with_options p (options_of p) = p"
    by (auto simp: with_options_def options_of_def in_section_def list_update_same_conv intro!: parser.equality)
  then show ?case by simp
next
  case (Cons nv opts)
  obtain n v where nv: "nv = (n, v)" by fastforce
  let ?p1 = "with_options p (options_of p @ [nv])"
  have "reads (print_option nv) p ?p1" using reads_option Cons.prems by (auto simp: nv)
  moreover have "reads (concat (map print_option opts)) ?p1 (with_options ?p1 (options_of ?p1 @ opts))"
    using Cons.prems by (intro Cons.IH) auto
  ultimately show ?case using Cons.prems(2) by (simp add: reads_append)
qed

lemma print_head_line:
  assumes on: "on_line lx (print_head s @ T)" and t: "validate_str (u_stype s) False False" "plain_type s"
    and nm: "\<And>n. u_name s = Some n \<Longrightarrow> validate_str n True False"
    and new: "\<And>n. u_name s = Some n \<Longrightarrow> \<forall>s' \<in> set (p_pkg p). u_name s' \<noteq> Some n"
  shows "\<exists>lx'. line p lx = Ok (push_section (new_section (u_name s) (u_stype s)) p, lx') \<and> at_end lx' T"
proof -
  let ?p' = "push_section (new_section (u_name s) (u_stype s)) p"
  let ?c = "case u_name s of None \<Rightarrow> NL | Some n \<Rightarrow> CHR '' ''"
  let ?R = "case u_name s of None \<Rightarrow> T | Some n \<Rightarrow> quote [] n @ NL # T"
  have kw: "list_all plain_char ''config''" by (simp add: plain_char_def is_space_def)
  have on': "on_line lx (''config'' @ CHR '' '' # u_stype s @ ?c # ?R)"
    using on by (simp add: print_head_def split: option.splits)
  have ty: "list_all plain_char (u_stype s)" "u_stype s \<noteq> []" using t by (auto simp: plain_type_def validate_str_def)
  have sp: "is_space ?c" by (simp add: is_space_def split: option.split)
  have l0: "skip_whitespace lx = lx" using on' by (simp add: skip_whitespace.simps [of lx] is_space_def)
  obtain lx1 lx2 where l1: "strtok lx = (''config'', lx1)" and l2: "skip_keyword ''config without name'' lx1 = Ok lx2" "on_line lx2 (u_stype s @ ?c # ?R)"
    using keyword_reads [OF on' kw] by blast
  obtain lx3 where l3: "next_arg True False False lx2 = Ok (u_stype s, lx3)" "if ?c = NL then at_end lx3 ?R else on_line lx3 ?R"
    using next_arg_word [OF l2(2) ty sp, of False False True] by blast
  obtain lx4 where l4: "next_arg False True False lx3 = Ok ((case u_name s of None \<Rightarrow> [] | Some n \<Rightarrow> n), lx4)" "at_end lx4 T"
  proof (cases "u_name s")
    case None
    then show ?thesis using that [of lx3] l3(2) next_arg_end [of lx3 T] by simp
  next
    case (Some n)
    then have "on_line lx3 (quote [] n @ NL # T)" using l3(2) by simp
    then show ?thesis
      using that next_arg_quoted [of lx3 n NL T False True False] validated_name [OF nm [OF Some]] nm [OF Some] Some
      by (auto simp: is_space_def)
  qed
  have "cfg_config p lx1 = Ok (?p', lx4)"
  proof (cases "u_name s")
    case None
    then show ?thesis using t(1) l2 l3 l4 assert_eol_end [OF l4(2)] by (simp add: cfg_config_def)
  next
    case (Some n)
    have "find_pos (\<lambda>s. u_name s = Some n) (p_pkg p) = None" using new [OF Some] by (simp add: find_pos_None)
    moreover have "n \<noteq> []" using nm [OF Some] by (simp add: validate_str_def)
    ultimately show ?thesis using Some t(1) l2 l3 l4 assert_eol_end [OF l4(2)] by (simp add: cfg_config_def)
  qed
  then have "run_command ''config'' p lx1 = Ok (?p', lx4)" by (simp add: run_command_def keyword_def)
  then have "line p lx = line_loop ?p' lx4" using l0 l1 by (simp add: line_def line_loop.simps [of p lx])
  then show ?thesis using line_loop_end [OF l4(2)] l4(2) by auto
qed

lemma reads_section:
  assumes s: "section_wf s" "plain_type s" and new: "\<And>n. u_name s = Some n \<Longrightarrow> n \<notin> set (names_of (p_pkg p))"
  shows "reads (print_section s) p \<lparr>p_pkg = p_pkg p @ [s], p_current = Some (length (p_pkg p))\<rparr>"
proof -
  let ?p1 = "push_section (new_section (u_name s) (u_stype s)) p"
  have wf: "validate_str (u_stype s) False False" "\<And>n. u_name s = Some n \<Longrightarrow> validate_str n True False"
      "distinct (map fst (u_options s))" "\<forall>(n, v) \<in> set (u_options s). validate_str n True False \<and> value_wf v"
    using s(1) by (auto simp: section_wf_def)
  have "reads (print_head s) p ?p1"
  proof (rule reads_line)
    show "print_head s \<noteq> []" "hd (print_head s) \<noteq> NUL" by (simp_all add: print_head_def)
    show "\<exists>lx'. line p lx = Ok (?p1, lx') \<and> at_end lx' T" if "on_line lx (print_head s @ T)" for lx T
      using print_head_line [OF that wf(1) s(2) wf(2)] new by (auto simp: set_names_of)
  qed
  moreover have sec: "in_section ?p1" "options_of ?p1 = []"
    by (simp_all add: in_section_def options_of_def push_section_def new_section_def)
  then have "reads (concat (map print_option (u_options s))) ?p1 (with_options ?p1 (u_options s))"
    using reads_options [of "u_options s" ?p1] wf(3,4) by simp
  moreover have "with_options ?p1 (u_options s) = \<lparr>p_pkg = p_pkg p @ [s], p_current = Some (length (p_pkg p))\<rparr>"
    by (simp add: with_options_def push_section_def new_section_def)
  moreover have "reads [NL] q q" for q using blank_line by (intro reads_line) simp_all
  ultimately show ?thesis unfolding print_section_def by (metis reads_append)
qed

lemma reads_package:
  assumes "list_all section_wf pkg" "list_all plain_type pkg" "distinct (names_of (p_pkg p @ pkg))"
  shows "\<exists>p'. reads (print_package pkg) p p' \<and> p_pkg p' = p_pkg p @ pkg"
  using assms
proof (induction pkg arbitrary: p)
  case Nil
  then show ?case by (intro exI [of _ p]) (simp add: print_package_def)
next
  case (Cons s pkg)
  let ?p1 = "\<lparr>p_pkg = p_pkg p @ [s], p_current = Some (length (p_pkg p))\<rparr>"
  have "reads (print_section s) p ?p1"
    using Cons.prems by (intro reads_section) (auto simp: names_of_append)
  moreover obtain p' where "reads (print_package pkg) ?p1 p'" "p_pkg p' = p_pkg ?p1 @ pkg"
    using Cons.IH [of ?p1] Cons.prems by auto
  ultimately show ?case by (auto simp: print_package_def intro: reads_append)
qed

lemma quote_nul: "NUL \<notin> set v \<Longrightarrow> NUL \<notin> set (quote [] v)"
  by (auto simp: quote_def)

lemma print_package_nul:
  assumes "list_all section_wf pkg" "list_all plain_type pkg"
  shows "NUL \<notin> set (print_package pkg)"
proof -
  have ln: "NUL \<notin> set (print_line kw n v)" if "NUL \<notin> set kw" "validate_str n True False" "NUL \<notin> set v" for kw n v
    using that validated_name [of n] quote_nul [of v] by (auto simp: print_line_def)
  have op: "NUL \<notin> set (print_option (n, v))" if "validate_str n True False" "value_wf v" for n v
    using that ln by (cases v) auto
  have "NUL \<notin> set (print_section s)" if s: "section_wf s" "plain_type s" for s
  proof -
    have "NUL \<notin> set (u_stype s)" using s(2) by (auto simp: plain_type_def list_all_iff plain_char_def)
    then have "NUL \<notin> set (print_head s)"
      using s(1) quote_nul validated_name by (auto simp: print_head_def section_wf_def split: option.splits)
    then show ?thesis using s(1) op by (auto simp: print_section_def section_wf_def)
  qed
  then show ?thesis using assms by (auto simp: print_package_def list_all_iff)
qed

text \<open>
  Property C26. Parsing is the inverse of the stored file form: for every well-formed package whose
  section types need no quoting, reading the text with one \<open>config\<close> line per section and every
  value in single quotes (an apostrophe written as the shell does) gives back exactly that package,
  whatever bytes but NUL its values hold: quotes, backslashes, comment signs, separators, newlines.
\<close>

theorem parse_print_roundtrip:
  assumes "package_wf pkg" "list_all plain_type pkg"
  shows "parse (print_package pkg) = Ok pkg"
proof -
  let ?p0 = "\<lparr>p_pkg = [], p_current = None\<rparr>"
  let ?lx0 = "\<lparr>l_input = print_package pkg, l_ipos = 0, l_buf = [], l_pos = 0, l_filled = 0, l_line = 0\<rparr>"
  have wf: "list_all section_wf pkg" "distinct (names_of pkg)" using assms(1) by (auto simp: package_wf_def)
  then obtain p' where r: "reads (print_package pkg) ?p0 p'" "p_pkg p' = pkg"
    using reads_package [of pkg ?p0] assms(2) by auto
  then obtain lx' where "parse_loop ?p0 ?lx0 = parse_loop p' lx'" "drop (l_ipos lx') (l_input lx') = []"
    unfolding reads_def by (metis append_Nil2 drop0 lexer.select_convs(1,2))
  then have "parse_loop ?p0 ?lx0 = Ok p'" by (simp add: parse_loop.simps [of p' lx'])
  then show ?thesis using print_package_nul [OF wf(1) assms(2)] r(2) by (simp add: parse_def)
qed

theorem parse_well_formed_witness:
  "parse (''config t n'' @ [NL] @ ''option a 1; option b 2'' @ [NL] @ ''list a 3'') =
     Ok [\<lparr>u_name = Some ''n'', u_stype = ''t'', u_options = [(''a'', List [''1'', ''3''])]\<rparr>] \<and>
   package_wf [\<lparr>u_name = Some ''n'', u_stype = ''t'', u_options = [(''a'', List [''1'', ''3''])]\<rparr>]"
proof -
  have "parse (''config t n'' @ [NL] @ ''option a 1; option b 2'' @ [NL] @ ''list a 3'') =
     Ok [\<lparr>u_name = Some ''n'', u_stype = ''t'', u_options = [(''a'', List [''1'', ''3''])]\<rparr>]"
    by code_simp
  then show ?thesis using parse_well_formed by simp
qed

theorem parse_print_roundtrip_witness:
  "parse (print_package [\<lparr>u_name = None, u_stype = ''wifi-iface'',
       u_options = [(''ssid'', Str [CHR ''a'', SQ, NL, CHR ''#'', BS])]\<rparr>]) =
   Ok [\<lparr>u_name = None, u_stype = ''wifi-iface'', u_options = [(''ssid'', Str [CHR ''a'', SQ, NL, CHR ''#'', BS])]\<rparr>]"
  by (rule parse_print_roundtrip) code_simp+

section \<open>References to sections\<close>

text \<open>The number in \<open>@type[N]\<close> counts the earlier sections of the type, named ones included.\<close>

lemma bump_keys: "bump t counts = (i, counts') \<Longrightarrow> fst ` set counts' = insert t (fst ` set counts)"
  by (induction counts arbitrary: i counts') (force split: prod.splits if_splits)+

lemma bump_spec:
  "distinct (map fst counts) \<Longrightarrow> bump t counts = (i, counts') \<Longrightarrow>
     i = (case map_of counts t of None \<Rightarrow> 0 | Some n \<Rightarrow> n) \<and> map_of counts' = (map_of counts)(t \<mapsto> i + 1) \<and>
     distinct (map fst counts')"
proof (induction counts arbitrary: i counts')
  case (Cons c counts)
  obtain u n where c: "c = (u, n)" by fastforce
  obtain j cs where b: "bump t counts = (j, cs)" by fastforce
  show ?case using Cons.prems Cons.IH [OF _ b] b bump_keys [OF b] by (auto simp: c split: if_splits option.splits)
qed auto

definition earlier :: "string \<Rightarrow> uci_package \<Rightarrow> nat" where
  "earlier t pkg = length (filter (\<lambda>s. u_stype s = t) pkg)"

lemma type_refs_from_spec:
  assumes "distinct (map fst counts)" "\<And>t. (case map_of counts t of None \<Rightarrow> 0 | Some n \<Rightarrow> n) = earlier t before"
  shows "type_refs_from counts pkg =
    map (\<lambda>i. ''@'' @ u_stype (pkg ! i) @ ''['' @ nat_digits (earlier (u_stype (pkg ! i)) (before @ take i pkg)) @ '']'') [0..<length pkg]"
  using assms
proof (induction pkg arbitrary: counts before)
  case (Cons s pkg)
  obtain i cs where b: "bump (u_stype s) counts = (i, cs)" by fastforce
  note sp = bump_spec [OF Cons.prems(1) b]
  have "(case map_of cs t of None \<Rightarrow> 0 | Some n \<Rightarrow> n) = earlier t (before @ [s])" for t
    using sp Cons.prems(2) [of t] by (auto simp: earlier_def split: option.splits)
  then show ?case
    using Cons.IH [of cs "before @ [s]"] sp Cons.prems(2)
    by (simp add: b upt_conv_Cons map_Suc_upt [symmetric] comp_def del: upt_Suc)
qed simp

theorem type_refs_spec:
  "type_refs pkg =
    map (\<lambda>i. ''@'' @ u_stype (pkg ! i) @ ''['' @ nat_digits (earlier (u_stype (pkg ! i)) (take i pkg)) @ '']'') [0..<length pkg]"
  using type_refs_from_spec [of "[]" "[]"] by (simp add: type_refs_def earlier_def)

end
