(* ===== verification/Txn.thy ===== *)
theory Txn
  imports Prelude
begin

text \<open>
  The transaction state machine of the write layer, \<^verbatim>\<open>rust/src/ops/txn.rs\<close>. The source file is pure
  logic: it reads no clock, touches no device and writes no file. Every method takes the
  transaction by mutable reference; here it takes the transaction and returns the updated one,
  paired with the method's result where there is one. Times are \<open>u64\<close> milliseconds of BOOTTIME,
  counters are \<open>u32\<close> and \<open>u64\<close> words.
\<close>

section \<open>Data\<close>

datatype source = Screen | Web | Legacy | Guard | Scenario | Scheduler | Auto

definition source_as_str :: "source \<Rightarrow> string" where
  "source_as_str s = (case s of
     Screen \<Rightarrow> ''screen'' | Web \<Rightarrow> ''web'' | Legacy \<Rightarrow> ''legacy'' | Guard \<Rightarrow> ''guard''
   | Scenario \<Rightarrow> ''scenario'' | Scheduler \<Rightarrow> ''scheduler'' | Auto \<Rightarrow> ''auto'')"

definition source_parse :: "string \<Rightarrow> source option" where
  "source_parse s =
     (if s = ''screen'' then Some Screen
      else if s = ''web'' then Some Web
      else if s = ''legacy'' then Some Legacy
      else if s = ''guard'' then Some Guard
      else if s = ''scenario'' then Some Scenario
      else if s = ''scheduler'' then Some Scheduler
      else if s = ''auto'' then Some Auto
      else None)"

definition is_user :: "source \<Rightarrow> bool" where
  "is_user s = (case s of Screen \<Rightarrow> True | Web \<Rightarrow> True | Legacy \<Rightarrow> True | _ \<Rightarrow> False)"

definition may_override :: "source \<Rightarrow> bool" where
  "may_override s \<longleftrightarrow> is_user s \<or> s = Guard"

datatype phase = Accepted | Applying | Verifying | RollingBack
  | Confirmed | Unverified | RolledBack | NotApplied | RollbackFailed | Cancelled

definition is_final :: "phase \<Rightarrow> bool" where
  "is_final p = (\<not> (case p of Accepted \<Rightarrow> True | Applying \<Rightarrow> True | Verifying \<Rightarrow> True
                     | RollingBack \<Rightarrow> True | _ \<Rightarrow> False))"

datatype reason = Verified | UserKeep | NoRollback | Timeout | UserRevert | RebootLoop | Ignored
  | RollbackTimeout | Superseded | Preempted | ManualChange | Takeover | SimChanged | ApnNoData
  | OtherChange | NoVerify

datatype confirm = Registered | Apn

record conn =
  ipv4 :: string
  ipv6 :: string
  up_since_ms :: "u64 option"

definition conn_jitter_ms :: u64 where "conn_jitter_ms = 2000"

definition addr :: "conn \<Rightarrow> string" where
  "addr c = (if ipv4 c = [] then ipv6 c else ipv4 c)"

definition v6_only :: "conn \<Rightarrow> bool" where
  "v6_only c \<longleftrightarrow> ipv4 c = [] \<and> ipv6 c \<noteq> []"

definition conn_same :: "conn \<Rightarrow> conn \<Rightarrow> bool" where
  "conn_same a b \<longleftrightarrow> addr a = addr b \<and>
     (case (up_since_ms a, up_since_ms b) of
        (Some x, Some y) \<Rightarrow> abs_diff x y \<le> conn_jitter_ms
      | _ \<Rightarrow> True)"

record data_path =
  d_expected :: "bool option"
  d_connected :: bool
  d_conn :: conn
  d_iface :: string
  d_dns :: "string list"

record probe_target =
  pt_iface :: string
  pt_dns :: "string list"
  pt_v6 :: bool

definition probe_tries :: u32 where "probe_tries = 3"
definition probe_gap_ms :: u64 where "probe_gap_ms = 5000"
definition probe_round_gap_ms :: u64 where "probe_round_gap_ms = 30000"

record sim_id =
  iccid :: string
  slot :: int \<comment> \<open>an \<open>i64\<close> that is only compared and printed\<close>

definition sim_blank :: "sim_id \<Rightarrow> bool" where
  "sim_blank s \<longleftrightarrow> iccid s = [] \<or> slot s = 0"

datatype sim_verdict = SimSame | SimDiffers | SimUnknown

definition sim_check :: "sim_id \<Rightarrow> sim_id \<Rightarrow> sim_verdict" where
  "sim_check captured now =
     (case (sim_blank captured, sim_blank now) of
        (True, True) \<Rightarrow> SimSame
      | (False, True) \<Rightarrow> SimUnknown
      | _ \<Rightarrow> if captured = now then SimSame else SimDiffers)"

record reading =
  r_value :: "string option"
  r_registered :: bool
  r_sim :: sim_id
  r_data :: "data_path option"
  r_probe :: "bool option"

datatype data_judgement = DataOk | DataApnNoData | DataNotYet

datatype intent = IApply | IRollback

datatype applied = ADone | AFailed | AUnknown

datatype next_step = NWait | NDone | NRollback string

record new_txn =
  n_op_id :: string
  n_action :: string
  n_item :: string
  n_source :: source
  n_undo :: bool
  n_target :: string
  n_old :: string
  n_rollback_to :: string
  n_sim :: sim_id
  n_conn :: "conn option"
  n_confirm :: confirm
  n_rollback_enabled :: bool
  n_deadline_ms :: u64
  n_boot_id :: string

record txn =
  op_id :: string
  action :: string
  item :: string
  source :: source
  undo :: bool
  target :: string
  old :: string
  rollback_to :: string
  phase :: phase
  reason :: "reason option"
  rollback_reason :: "reason option"
  ever_matched :: bool
  read_ok :: bool
  readback :: "string option"
  apply_failed :: bool
  intent :: "intent option"
  sim :: sim_id
  confirm :: confirm
  ref_conn :: "conn option"
  ref_ms :: u64
  last_conn :: "conn option"
  probe_conn :: "conn option"
  probe_fails :: u32
  probe_last_ms :: "u64 option"
  data_ok :: bool
  registered :: bool
  rollback_enabled :: bool
  deadline_ms :: u64
  boot_id :: string
  boots :: u32
  elapsed_prev_ms :: u64
  wait_start_ms :: u64
  seen_ms :: u64
  created_ms :: u64
  took_ms :: "u64 option"
  generation :: u64

section \<open>Operations\<close>

definition txn_new :: "new_txn \<Rightarrow> u64 \<Rightarrow> txn" where
  "txn_new n now = \<lparr>
     op_id = n_op_id n, action = n_action n, item = n_item n, source = n_source n,
     undo = n_undo n, target = n_target n, old = n_old n, rollback_to = n_rollback_to n,
     phase = Accepted, reason = None, rollback_reason = None, ever_matched = False,
     read_ok = False, readback = None, apply_failed = False, intent = None,
     sim = n_sim n, confirm = n_confirm n, ref_conn = n_conn n, ref_ms = now,
     last_conn = n_conn n, probe_conn = None, probe_fails = 0, probe_last_ms = None,
     data_ok = False, registered = False, rollback_enabled = n_rollback_enabled n,
     deadline_ms = n_deadline_ms n, boot_id = n_boot_id n, boots = 0, elapsed_prev_ms = 0,
     wait_start_ms = now, seen_ms = now, created_ms = now, took_ms = None, generation = 0 \<rparr>"

definition txn_step :: "phase \<Rightarrow> txn \<Rightarrow> txn" where
  "txn_step p t = t\<lparr>phase := p, generation := generation t + 1\<rparr>"

definition txn_finish :: "phase \<Rightarrow> reason \<Rightarrow> txn \<Rightarrow> next_step \<times> txn" where
  "txn_finish p why t = (NDone, (txn_step p t)\<lparr>reason := Some why, intent := None\<rparr>)"

definition waiting :: "txn \<Rightarrow> bool" where
  "waiting t \<longleftrightarrow> phase t = Verifying \<or> phase t = RollingBack"

definition begin_apply :: "txn \<Rightarrow> txn" where
  "begin_apply t = (txn_step Applying t)\<lparr>intent := Some IApply\<rparr>"

definition txn_applied :: "applied \<Rightarrow> u64 \<Rightarrow> txn \<Rightarrow> txn" where
  "txn_applied outcome now t =
     (if phase t \<noteq> Applying then t
      else txn_step Verifying
             (t\<lparr>intent := None, apply_failed := (outcome = AFailed),
                wait_start_ms := now, seen_ms := now\<rparr>))"

definition start_rollback :: "reason \<Rightarrow> txn \<Rightarrow> next_step \<times> txn" where
  "start_rollback why t =
     (NRollback (rollback_to t),
      (txn_step RollingBack t)\<lparr>rollback_reason := Some why, intent := Some IRollback\<rparr>)"

definition reset_probe :: "txn \<Rightarrow> txn" where
  "reset_probe t = t\<lparr>probe_conn := None, probe_fails := 0, probe_last_ms := None, data_ok := False\<rparr>"

definition txn_rollback_sent :: "u64 \<Rightarrow> txn \<Rightarrow> txn" where
  "txn_rollback_sent now t =
     (if phase t \<noteq> RollingBack then t
      else
        let t1 = t\<lparr>intent := None, wait_start_ms := now, seen_ms := now,
                   ref_conn := last_conn t, ref_ms := now\<rparr>;
            t2 = reset_probe t1
        in t2\<lparr>generation := generation t2 + 1\<rparr>)"

definition new_conn :: "txn \<Rightarrow> conn \<Rightarrow> bool" where
  "new_conn t c =
     (if ref_ms t = 0 then True
      else if (case ref_conn t of Some r \<Rightarrow> addr r \<noteq> addr c | None \<Rightarrow> False) then True
      else is_some_and (up_since_ms c) (\<lambda>s. s > ref_ms t))"

definition goal :: "txn \<Rightarrow> string" where
  "goal t = (if phase t = RollingBack then rollback_to t else target t)"

definition data_gate :: "txn \<Rightarrow> reading \<Rightarrow> probe_target option + data_judgement" where
  "data_gate t r =
     (case r_data r of
        None \<Rightarrow> Err None
      | Some d \<Rightarrow>
          (case d_expected d of
             None \<Rightarrow> Err None
           | Some False \<Rightarrow>
               Ok (if confirm t = Apn \<and> phase t = Verifying then DataApnNoData else DataOk)
           | Some True \<Rightarrow>
               if \<not> d_connected d \<or> addr (d_conn d) = [] then Err None
               else if confirm t = Apn \<and> \<not> new_conn t (d_conn d) then Err None
               else Err (Some \<lparr>pt_iface = d_iface d, pt_dns = d_dns d, pt_v6 = v6_only (d_conn d)\<rparr>)))"

definition wants_probe :: "txn \<Rightarrow> reading \<Rightarrow> u64 \<Rightarrow> probe_target option" where
  "wants_probe t r now =
     (if \<not> waiting t \<or> intent t \<noteq> None \<or> \<not> r_registered r then None
      else if r_value r \<noteq> Some (goal t) then None
      else if sim_check (sim t) (r_sim r) \<noteq> SimSame then None
      else
        (case data_gate t r of
           Err (Some tgt) \<Rightarrow>
             (case r_data r of
                None \<Rightarrow> None
              | Some d \<Rightarrow>
                  let round_over = is_some_and (probe_conn t) (\<lambda>c. conn_same c (d_conn d))
                                   \<and> probe_fails t \<ge> probe_tries;
                      gap = (if round_over then probe_round_gap_ms else probe_gap_ms)
                  in if is_some_and (probe_last_ms t) (\<lambda>s. sat_sub now s < gap) then None
                     else Some tgt)
         | _ \<Rightarrow> None))"

definition note_probe :: "reading \<Rightarrow> u64 \<Rightarrow> txn \<Rightarrow> txn" where
  "note_probe r now t =
     (case (r_probe r, r_data r) of
        (Some ok, Some d) \<Rightarrow>
          let t1 = (if \<not> is_some_and (probe_conn t) (\<lambda>c. conn_same c (d_conn d))
                       \<or> probe_fails t \<ge> probe_tries
                    then t\<lparr>probe_conn := Some (d_conn d), probe_fails := 0\<rparr> else t);
              t2 = t1\<lparr>probe_last_ms := Some now\<rparr>
          in if \<not> ok then t2\<lparr>probe_fails := probe_fails t2 + 1\<rparr> else t2
      | _ \<Rightarrow> t)"

definition data_judge :: "reading \<Rightarrow> txn \<Rightarrow> data_judgement \<times> txn" where
  "data_judge r t =
     (let j = (case data_gate t r of
                 Ok j \<Rightarrow> j
               | Err (Some _) \<Rightarrow> if r_probe r = Some True then DataOk else DataNotYet
               | Err None \<Rightarrow> DataNotYet)
      in (j, t\<lparr>data_ok := (j \<noteq> DataNotYet)\<rparr>))"

definition expire :: "reason \<Rightarrow> txn \<Rightarrow> next_step \<times> txn" where
  "expire why t = (if rollback_enabled t then start_rollback why t
                   else txn_finish Unverified NoRollback t)"

definition on_tick :: "u64 \<Rightarrow> txn \<Rightarrow> next_step \<times> txn" where
  "on_tick now t =
     (if is_final (phase t) then (NDone, t)
      else if \<not> waiting t \<or> intent t \<noteq> None then (NWait, t)
      else
        let t = t\<lparr>seen_ms := max (seen_ms t) now\<rparr>
        in if sat_sub now (wait_start_ms t) < deadline_ms t then (NWait, t)
           else if phase t = RollingBack then txn_finish RollbackFailed RollbackTimeout t
           else if read_ok t \<and> \<not> ever_matched t then txn_finish NotApplied Ignored t
           else expire Timeout t)"

text \<open>
  \<open>on_reading\<close> is one method in the source; its two branches on a readable value (confirming the
  target, confirming the rollback) are definitions of their own here.
\<close>

definition verify_value :: "string \<Rightarrow> reading \<Rightarrow> u64 \<Rightarrow> txn \<Rightarrow> next_step \<times> txn" where
  "verify_value v r now t =
     (if v = target t then
        let t = t\<lparr>ever_matched := True\<rparr>
        in if r_registered r then
             (case data_judge r t of
                (DataOk, t) \<Rightarrow>
                  txn_finish Confirmed Verified
                    (t\<lparr>took_ms := Some (elapsed_prev_ms t + sat_sub now (wait_start_ms t))\<rparr>)
              | (DataApnNoData, t) \<Rightarrow> txn_finish Unverified ApnNoData t
              | (DataNotYet, t) \<Rightarrow> on_tick now t)
           else on_tick now t
      else if v = old t then
        if ever_matched t then txn_finish Cancelled ManualChange t
        else if apply_failed t then txn_finish NotApplied Ignored t
        else on_tick now t
      else if v \<noteq> [] then txn_finish Cancelled ManualChange t
      else on_tick now t)"

definition rollback_value :: "string \<Rightarrow> reading \<Rightarrow> u64 \<Rightarrow> txn \<Rightarrow> next_step \<times> txn" where
  "rollback_value v r now t =
     (if v = rollback_to t then
        if r_registered r then
          (case data_judge r t of
             (j, t) \<Rightarrow>
               if j \<noteq> DataNotYet
               then txn_finish RolledBack
                      (case rollback_reason t of Some why \<Rightarrow> why | None \<Rightarrow> Timeout) t
               else on_tick now t)
        else on_tick now t
      else if v \<noteq> target t \<and> v \<noteq> [] then txn_finish Cancelled ManualChange t
      else on_tick now t)"

definition note_last_conn :: "reading \<Rightarrow> txn \<Rightarrow> txn" where
  "note_last_conn r t =
     (case r_data r of
        Some d \<Rightarrow> if addr (d_conn d) \<noteq> [] then t\<lparr>last_conn := Some (d_conn d)\<rparr> else t
      | None \<Rightarrow> t)"

definition on_reading :: "reading \<Rightarrow> u64 \<Rightarrow> txn \<Rightarrow> next_step \<times> txn" where
  "on_reading r now t =
     (if is_final (phase t) then (NDone, t)
      else if \<not> waiting t \<or> intent t \<noteq> None then (NWait, t)
      else
        let t = note_last_conn r (t\<lparr>seen_ms := now\<rparr>)
        in case sim_check (sim t) (r_sim r) of
             SimDiffers \<Rightarrow> txn_finish Cancelled SimChanged t
           | SimUnknown \<Rightarrow> on_tick now t
           | SimSame \<Rightarrow>
               let t = note_probe r now (t\<lparr>registered := r_registered r\<rparr>)
               in case r_value r of
                    None \<Rightarrow> on_tick now t
                  | Some v \<Rightarrow>
                      let t = t\<lparr>read_ok := True, readback := Some v\<rparr>
                      in if phase t = Verifying then verify_value v r now t
                         else rollback_value v r now t)"

datatype txn_error = AlreadyRollingBack | AlreadyFinished | StillApplying

definition txn_revert :: "txn \<Rightarrow> txn_error + next_step \<times> txn" where
  "txn_revert t =
     (if phase t = Verifying \<and> intent t = None then Ok (start_rollback UserRevert t)
      else if phase t = RollingBack then Err AlreadyRollingBack
      else if is_final (phase t) then Err AlreadyFinished
      else Err StillApplying)"

definition txn_keep :: "txn \<Rightarrow> txn_error + txn" where
  "txn_keep t =
     (if phase t = Verifying \<and> intent t = None then Ok (snd (txn_finish Confirmed UserKeep t))
      else if phase t = RollingBack then Err AlreadyRollingBack
      else if is_final (phase t) then Err AlreadyFinished
      else Err StillApplying)"

definition txn_cancel :: "reason \<Rightarrow> txn \<Rightarrow> txn" where
  "txn_cancel why t = (if \<not> is_final (phase t) then snd (txn_finish Cancelled why t) else t)"

definition note_reboot :: "string \<Rightarrow> txn \<Rightarrow> txn" where
  "note_reboot bid t =
     (let t = (if waiting t \<and> intent t = None
               then t\<lparr>elapsed_prev_ms := elapsed_prev_ms t + sat_sub (seen_ms t) (wait_start_ms t)\<rparr>
               else t)
      in reset_probe (t\<lparr>boots := boots t + 1, boot_id := bid, ref_ms := 0\<rparr>))"

definition resume_wait :: "bool \<Rightarrow> u64 \<Rightarrow> txn \<Rightarrow> txn" where
  "resume_wait rebooted now t =
     (let t = (if phase t = Applying \<or> (phase t = Verifying \<and> intent t = Some IApply)
               then t\<lparr>intent := None, phase := Verifying, wait_start_ms := now\<rparr>
               else if phase t = RollingBack \<and> intent t \<noteq> None
               then t\<lparr>intent := None, wait_start_ms := now\<rparr>
               else if rebooted then t\<lparr>wait_start_ms := now\<rparr>
               else t)
      in t\<lparr>seen_ms := now, generation := generation t + 1\<rparr>)"

definition txn_resume :: "string \<Rightarrow> u64 \<Rightarrow> txn \<Rightarrow> next_step \<times> txn" where
  "txn_resume bid now t =
     (if is_final (phase t) then (NDone, t)
      else
        let rebooted = (bid \<noteq> boot_id t);
            t = (if rebooted then note_reboot bid t else t)
        in if phase t = Accepted then txn_finish NotApplied Ignored t
           else
             let t = resume_wait rebooted now t
             in if rebooted \<and> phase t = Verifying
                   \<and> (boots t \<ge> 2 \<or> elapsed_prev_ms t \<ge> deadline_ms t)
                then expire RebootLoop t
                else (NWait, t))"

definition counting :: "txn \<Rightarrow> bool" where
  "counting t \<longleftrightarrow> waiting t \<and> intent t = None"

definition remaining_ms :: "u64 \<Rightarrow> txn \<Rightarrow> u64 option" where
  "remaining_ms now t =
     (if waiting t then Some (sat_sub (deadline_ms t) (sat_sub now (wait_start_ms t))) else None)"

section \<open>Events and runs\<close>

text \<open>
  The calls the engine makes on a transaction, as one type of events. Each event is one method
  of the source; the engine calls \<open>begin_apply\<close> right after \<open>Txn::new\<close> and never again, so a run
  starts there. The reasons given to \<open>cancel\<close> are the ones of its callers in \<^verbatim>\<open>engine.rs\<close>.
\<close>

datatype txn_event =
    EvApplied applied u64
  | EvReading reading u64
  | EvTick u64
  | EvRevert
  | EvKeep
  | EvCancel reason
  | EvRollbackSent u64
  | EvResume string u64

definition txn_exec :: "txn_event \<Rightarrow> txn \<Rightarrow> next_step \<times> txn" where
  "txn_exec e t = (case e of
     EvApplied a now \<Rightarrow> (NWait, txn_applied a now t)
   | EvReading r now \<Rightarrow> on_reading r now t
   | EvTick now \<Rightarrow> on_tick now t
   | EvRevert \<Rightarrow> (case txn_revert t of Ok x \<Rightarrow> x | Err _ \<Rightarrow> (NWait, t))
   | EvKeep \<Rightarrow> (case txn_keep t of Ok t' \<Rightarrow> (NDone, t') | Err _ \<Rightarrow> (NWait, t))
   | EvCancel why \<Rightarrow> (NDone, txn_cancel why t)
   | EvRollbackSent now \<Rightarrow> (NWait, txn_rollback_sent now t)
   | EvResume bid now \<Rightarrow> txn_resume bid now t)"

definition cancel_reasons :: "reason list" where
  "cancel_reasons = [Superseded, Preempted, Takeover, SimChanged, OtherChange]"

definition event_ok :: "txn_event \<Rightarrow> bool" where
  "event_ok e = (case e of EvCancel why \<Rightarrow> why \<in> set cancel_reasons | _ \<Rightarrow> True)"

fun txn_run :: "txn_event list \<Rightarrow> txn \<Rightarrow> next_step list \<times> txn" where
  "txn_run [] t = ([], t)"
| "txn_run (e # es) t =
     (let (n, t') = txn_exec e t; (ns, t'') = txn_run es t' in (n # ns, t''))"

inductive txn_reach :: "txn \<Rightarrow> bool" where
  reach_start: "txn_reach (begin_apply (txn_new n now))"
| reach_exec: "txn_reach t \<Longrightarrow> event_ok e \<Longrightarrow> txn_reach (snd (txn_exec e t))"

section \<open>Elementary facts\<close>

lemmas txn_step_defs [op_defs] =
  txn_step_def txn_finish_def start_rollback_def expire_def begin_apply_def txn_applied_def
  reset_probe_def txn_rollback_sent_def txn_cancel_def note_reboot_def resume_wait_def txn_resume_def
  txn_revert_def txn_keep_def

lemmas txn_reading_defs [op_defs] =
  on_reading_def on_tick_def verify_value_def rollback_value_def note_last_conn_def
  note_probe_def data_judge_def

lemma is_final_simps [simp]:
  "\<not> is_final Accepted" "\<not> is_final Applying" "\<not> is_final Verifying" "\<not> is_final RollingBack"
  "is_final Confirmed" "is_final Unverified" "is_final RolledBack" "is_final NotApplied"
  "is_final RollbackFailed" "is_final Cancelled"
  by (simp_all add: is_final_def)

lemma not_final_iff: "\<not> is_final p \<longleftrightarrow> p = Accepted \<or> p = Applying \<or> p = Verifying \<or> p = RollingBack"
  by (cases p) auto

text \<open>What a transaction is about never changes: its identity.\<close>

definition txn_ident :: "txn \<Rightarrow> string \<times> string \<times> string \<times> source \<times> bool \<times> string \<times> string \<times> string
    \<times> sim_id \<times> confirm \<times> bool \<times> u64 \<times> u64" where
  "txn_ident t = (op_id t, action t, item t, source t, undo t, target t, old t, rollback_to t,
     sim t, confirm t, rollback_enabled t, deadline_ms t, created_ms t)"

text \<open>A frame rule for \<open>txn_ident\<close>: no update of another field changes it.\<close>

lemma txn_ident_update [simp]:
  "txn_ident (t\<lparr>phase := x1\<rparr>) = txn_ident t"
  "txn_ident (t\<lparr>reason := x2\<rparr>) = txn_ident t"
  "txn_ident (t\<lparr>rollback_reason := x3\<rparr>) = txn_ident t"
  "txn_ident (t\<lparr>ever_matched := x4\<rparr>) = txn_ident t"
  "txn_ident (t\<lparr>read_ok := x5\<rparr>) = txn_ident t"
  "txn_ident (t\<lparr>readback := x6\<rparr>) = txn_ident t"
  "txn_ident (t\<lparr>apply_failed := x7\<rparr>) = txn_ident t"
  "txn_ident (t\<lparr>intent := x8\<rparr>) = txn_ident t"
  "txn_ident (t\<lparr>ref_conn := x9\<rparr>) = txn_ident t"
  "txn_ident (t\<lparr>ref_ms := x10\<rparr>) = txn_ident t"
  "txn_ident (t\<lparr>last_conn := x11\<rparr>) = txn_ident t"
  "txn_ident (t\<lparr>probe_conn := x12\<rparr>) = txn_ident t"
  "txn_ident (t\<lparr>probe_fails := x13\<rparr>) = txn_ident t"
  "txn_ident (t\<lparr>probe_last_ms := x14\<rparr>) = txn_ident t"
  "txn_ident (t\<lparr>data_ok := x15\<rparr>) = txn_ident t"
  "txn_ident (t\<lparr>registered := x16\<rparr>) = txn_ident t"
  "txn_ident (t\<lparr>boot_id := x17\<rparr>) = txn_ident t"
  "txn_ident (t\<lparr>boots := x18\<rparr>) = txn_ident t"
  "txn_ident (t\<lparr>elapsed_prev_ms := x19\<rparr>) = txn_ident t"
  "txn_ident (t\<lparr>wait_start_ms := x20\<rparr>) = txn_ident t"
  "txn_ident (t\<lparr>seen_ms := x21\<rparr>) = txn_ident t"
  "txn_ident (t\<lparr>took_ms := x22\<rparr>) = txn_ident t"
  "txn_ident (t\<lparr>generation := x23\<rparr>) = txn_ident t"
  by (simp_all add: txn_ident_def)

lemma txn_step_ident [simp]: "txn_ident (txn_step p t) = txn_ident t"
  by (simp add: txn_step_def)

lemma txn_finish_ident [simp]: "txn_ident (snd (txn_finish p why t)) = txn_ident t"
  by (simp add: txn_finish_def)

lemma start_rollback_ident [simp]: "txn_ident (snd (start_rollback why t)) = txn_ident t"
  by (simp add: start_rollback_def)

lemma expire_ident [simp]: "txn_ident (snd (expire why t)) = txn_ident t"
  by (simp add: expire_def)

lemma on_tick_ident [simp]: "txn_ident (snd (on_tick now t)) = txn_ident t"
  by (simp add: on_tick_def Let_def)

lemma note_probe_ident [simp]: "txn_ident (note_probe r now t) = txn_ident t"
  by (simp add: note_probe_def Let_def split: option.split)

lemma note_last_conn_ident [simp]: "txn_ident (note_last_conn r t) = txn_ident t"
  by (simp add: note_last_conn_def split: option.split)

lemma verify_value_ident [simp]: "txn_ident (snd (verify_value v r now t)) = txn_ident t"
  by (simp add: verify_value_def data_judge_def Let_def split: data_judgement.split)

lemma rollback_value_ident [simp]: "txn_ident (snd (rollback_value v r now t)) = txn_ident t"
  by (simp add: rollback_value_def data_judge_def Let_def)

lemma on_reading_ident [simp]: "txn_ident (snd (on_reading r now t)) = txn_ident t"
  by (simp add: on_reading_def Let_def split: sim_verdict.split option.split)

lemma txn_resume_ident [simp]: "txn_ident (snd (txn_resume bid now t)) = txn_ident t"
  by (simp add: txn_resume_def resume_wait_def note_reboot_def reset_probe_def Let_def)

lemma txn_exec_ident: "txn_ident (snd (txn_exec e t)) = txn_ident t"
  by (cases e)
     (simp_all add: txn_exec_def txn_applied_def txn_revert_def txn_keep_def txn_cancel_def
        txn_rollback_sent_def reset_probe_def Let_def)

section \<open>The invariant\<close>

text \<open>The table of final states at the top of \<^verbatim>\<open>txn.rs\<close>: which reasons a final phase may carry.\<close>

definition reason_fits :: "phase \<Rightarrow> reason \<Rightarrow> bool" where
  "reason_fits p why \<longleftrightarrow> (case p of
     Confirmed \<Rightarrow> why \<in> {Verified, UserKeep}
   | Unverified \<Rightarrow> why \<in> {NoRollback, ApnNoData}
   | RolledBack \<Rightarrow> why \<in> {Timeout, UserRevert, RebootLoop}
   | NotApplied \<Rightarrow> why = Ignored
   | RollbackFailed \<Rightarrow> why = RollbackTimeout
   | Cancelled \<Rightarrow> why \<in> {Superseded, Preempted, ManualChange, Takeover, SimChanged, OtherChange}
   | _ \<Rightarrow> False)"

definition reason_ok :: "phase \<Rightarrow> reason option \<Rightarrow> bool" where
  "reason_ok p w = (case w of None \<Rightarrow> \<not> is_final p | Some why \<Rightarrow> reason_fits p why)"

definition rollback_phase :: "phase \<Rightarrow> bool" where
  "rollback_phase p \<longleftrightarrow> p = RollingBack \<or> p = RolledBack \<or> p = RollbackFailed"

definition txn_wf :: "txn \<Rightarrow> bool" where
  "txn_wf t \<longleftrightarrow>
     reason_ok (phase t) (reason t)
   \<and> (intent t = Some IApply \<longleftrightarrow> phase t = Applying)
   \<and> (intent t = Some IRollback \<longrightarrow> phase t = RollingBack)
   \<and> (rollback_phase (phase t) \<longrightarrow>
        rollback_reason t \<in> {Some Timeout, Some UserRevert, Some RebootLoop})
   \<and> (phase t = Confirmed \<and> reason t = Some Verified \<longrightarrow> took_ms t \<noteq> None \<and> ever_matched t)
   \<and> (phase t = NotApplied \<longrightarrow> \<not> ever_matched t)
   \<and> (ever_matched t \<longrightarrow> read_ok t)
   \<and> (phase t = Applying \<or> phase t = Accepted \<longrightarrow> \<not> ever_matched t)"

lemma txn_wf_frame [simp]:
  "txn_wf (t\<lparr>seen_ms := x\<rparr>) = txn_wf t"
  "txn_wf (t\<lparr>registered := b\<rparr>) = txn_wf t"
  "txn_wf (t\<lparr>data_ok := b\<rparr>) = txn_wf t"
  "txn_wf (t\<lparr>last_conn := c\<rparr>) = txn_wf t"
  "txn_wf (t\<lparr>probe_conn := c\<rparr>) = txn_wf t"
  "txn_wf (t\<lparr>probe_fails := k\<rparr>) = txn_wf t"
  "txn_wf (t\<lparr>probe_last_ms := m\<rparr>) = txn_wf t"
  "txn_wf (t\<lparr>readback := v\<rparr>) = txn_wf t"
  "txn_wf (t\<lparr>ref_conn := c\<rparr>) = txn_wf t"
  "txn_wf (t\<lparr>ref_ms := x\<rparr>) = txn_wf t"
  "txn_wf (t\<lparr>wait_start_ms := x\<rparr>) = txn_wf t"
  "txn_wf (t\<lparr>elapsed_prev_ms := x\<rparr>) = txn_wf t"
  "txn_wf (t\<lparr>boots := k\<rparr>) = txn_wf t"
  "txn_wf (t\<lparr>boot_id := i\<rparr>) = txn_wf t"
  "txn_wf (t\<lparr>generation := x\<rparr>) = txn_wf t"
  "txn_wf (t\<lparr>apply_failed := b\<rparr>) = txn_wf t"
  by (simp_all add: txn_wf_def)

lemma txn_wf_read_ok [simp]: "txn_wf t \<Longrightarrow> txn_wf (t\<lparr>read_ok := True\<rparr>)"
  by (simp add: txn_wf_def)

lemma txn_wf_took [simp]: "phase t = Verifying \<Longrightarrow> txn_wf (t\<lparr>took_ms := x\<rparr>) = txn_wf t"
  by (simp add: txn_wf_def)

lemma txn_wf_matched [simp]:
  "phase t = Verifying \<Longrightarrow> read_ok t \<Longrightarrow> txn_wf t \<Longrightarrow> txn_wf (t\<lparr>ever_matched := True\<rparr>)"
  by (simp add: txn_wf_def)

text \<open>Finishing keeps the invariant when the reason fits the final phase.\<close>

lemma txn_finish_wf:
  assumes "txn_wf t" "reason_fits p why"
    and "rollback_phase p \<longrightarrow> rollback_phase (phase t)"
    and "p = Confirmed \<and> why = Verified \<longrightarrow> took_ms t \<noteq> None \<and> ever_matched t"
    and "p = NotApplied \<longrightarrow> \<not> ever_matched t"
  shows "txn_wf (snd (txn_finish p why t))"
  using assms by (cases p) (auto simp: txn_wf_def txn_finish_def txn_step_def reason_ok_def reason_fits_def rollback_phase_def)

lemma start_rollback_wf:
  "txn_wf t \<Longrightarrow> phase t = Verifying \<Longrightarrow> why \<in> {Timeout, UserRevert, RebootLoop} \<Longrightarrow>
   txn_wf (snd (start_rollback why t))"
  by (auto simp: txn_wf_def start_rollback_def txn_step_def rollback_phase_def reason_ok_def
        reason_fits_def split: option.splits)

lemma expire_wf:
  "txn_wf t \<Longrightarrow> phase t = Verifying \<Longrightarrow> why \<in> {Timeout, RebootLoop} \<Longrightarrow> txn_wf (snd (expire why t))"
  by (auto simp: expire_def start_rollback_wf reason_fits_def rollback_phase_def intro!: txn_finish_wf)

lemma on_tick_wf [simp]: "txn_wf t \<Longrightarrow> txn_wf (snd (on_tick now t))"
  by (auto simp: on_tick_def Let_def waiting_def reason_fits_def rollback_phase_def
      intro!: txn_finish_wf expire_wf)


lemma note_probe_wf [simp]: "txn_wf (note_probe r now t) = txn_wf t"
  by (simp add: note_probe_def Let_def split: option.split)

lemma note_last_conn_wf [simp]: "txn_wf (note_last_conn r t) = txn_wf t"
  by (simp add: note_last_conn_def split: option.split)

lemma note_probe_keeps [simp]:
  "phase (note_probe r now t) = phase t" "intent (note_probe r now t) = intent t"
  "read_ok (note_probe r now t) = read_ok t" "ever_matched (note_probe r now t) = ever_matched t"
  "wait_start_ms (note_probe r now t) = wait_start_ms t"
  "rollback_reason (note_probe r now t) = rollback_reason t"
  "generation (note_probe r now t) = generation t"
  "apply_failed (note_probe r now t) = apply_failed t"
  by (simp_all add: note_probe_def Let_def split: option.split)

lemma note_last_conn_keeps [simp]:
  "phase (note_last_conn r t) = phase t" "intent (note_last_conn r t) = intent t"
  "read_ok (note_last_conn r t) = read_ok t" "ever_matched (note_last_conn r t) = ever_matched t"
  "wait_start_ms (note_last_conn r t) = wait_start_ms t"
  "rollback_reason (note_last_conn r t) = rollback_reason t"
  "generation (note_last_conn r t) = generation t"
  "apply_failed (note_last_conn r t) = apply_failed t"
  by (simp_all add: note_last_conn_def split: option.split)

lemma data_judge_eq:
  obtains j where "data_judge r t = (j, t\<lparr>data_ok := (j \<noteq> DataNotYet)\<rparr>)"
  by (simp add: data_judge_def Let_def)

lemma verify_value_wf:
  assumes wf: "txn_wf t" and ph: "phase t = Verifying" and rd: "read_ok t"
  shows "txn_wf (snd (verify_value v r now t))"
proof (cases "v = target t \<and> r_registered r")
  case True
  let ?t = "t\<lparr>ever_matched := True\<rparr>"
  have w: "txn_wf ?t" using assms by simp
  obtain j where j: "data_judge r ?t = (j, ?t\<lparr>data_ok := (j \<noteq> DataNotYet)\<rparr>)"
    by (rule data_judge_eq)
  from True w ph show ?thesis
    by (cases j) (simp_all add: verify_value_def j txn_finish_wf reason_fits_def rollback_phase_def)
next
  case False
  with assms show ?thesis
    by (simp add: verify_value_def txn_finish_wf reason_fits_def rollback_phase_def)
qed

lemma rollback_value_wf:
  assumes "txn_wf t" "phase t = RollingBack"
  shows "txn_wf (snd (rollback_value v r now t))"
proof -
  have "reason_fits RolledBack (case rollback_reason t of None \<Rightarrow> Timeout | Some why \<Rightarrow> why)"
    using assms by (auto simp: txn_wf_def rollback_phase_def reason_fits_def)
  with assms show ?thesis
    by (auto simp: rollback_value_def data_judge_def Let_def reason_fits_def [of Cancelled] rollback_phase_def
        intro!: txn_finish_wf)
qed

lemma on_reading_wf: "txn_wf t \<Longrightarrow> txn_wf (snd (on_reading r now t))"
  by (simp add: on_reading_def Let_def waiting_def txn_finish_wf reason_fits_def rollback_phase_def
      verify_value_wf rollback_value_wf split: sim_verdict.split option.split)

lemma note_reboot_keeps [simp]:
  "txn_wf (note_reboot bid t) = txn_wf t"
  "phase (note_reboot bid t) = phase t" "intent (note_reboot bid t) = intent t"
  "ever_matched (note_reboot bid t) = ever_matched t"
  "generation (note_reboot bid t) = generation t"
  "boots (note_reboot bid t) = boots t + 1"
  by (simp_all add: note_reboot_def reset_probe_def Let_def)

lemma reason_fits_final: "reason_fits p why \<Longrightarrow> is_final p"
  by (cases p) (simp_all add: reason_fits_def)

lemma txn_wf_verifying:
  assumes "txn_wf t" "\<not> is_final (phase t)"
    and "phase u = Verifying" "intent u = None"
    and "reason u = reason t" "ever_matched u = ever_matched t" "read_ok u = read_ok t"
  shows "txn_wf u"
proof -
  have "reason_ok (phase t) (reason t)" using assms(1) by (simp add: txn_wf_def)
  with assms(2) have "reason t = None"
    by (auto simp: reason_ok_def dest: reason_fits_final split: option.splits)
  with assms show ?thesis by (simp add: txn_wf_def rollback_phase_def reason_ok_def)
qed

lemma txn_wf_reapply:
  "txn_wf t \<Longrightarrow> phase t = Applying \<Longrightarrow> txn_wf (t\<lparr>intent := None, phase := Verifying\<rparr>)"
  by (rule txn_wf_verifying [of t]) simp_all

lemma txn_wf_sent:
  "txn_wf t \<Longrightarrow> phase t = RollingBack \<Longrightarrow> txn_wf (t\<lparr>intent := None\<rparr>)"
  by (simp add: txn_wf_def)

lemma txn_wf_intent: "txn_wf t \<Longrightarrow> phase t = Verifying \<Longrightarrow> intent t = None"
  by (cases "intent t") (auto simp: txn_wf_def intro: intent.exhaust)

lemma resume_wait_wf: "txn_wf t \<Longrightarrow> txn_wf (resume_wait b now t)"
  using txn_wf_intent [of t] by (auto simp: resume_wait_def Let_def txn_wf_reapply txn_wf_sent)

lemma txn_resume_wf:
  assumes "txn_wf t"
  shows "txn_wf (snd (txn_resume bid now t))"
proof -
  define u where "u = (if bid \<noteq> boot_id t then note_reboot bid t else t)"
  have "txn_wf u" using assms by (simp add: u_def)
  moreover have "phase u = Accepted \<Longrightarrow> \<not> ever_matched u"
    using \<open>txn_wf u\<close> by (simp add: txn_wf_def)
  ultimately show ?thesis using assms
    by (auto simp: txn_resume_def u_def [symmetric] Let_def reason_fits_def rollback_phase_def
        intro!: txn_finish_wf expire_wf resume_wait_wf)
qed

lemma begin_apply_new_wf: "txn_wf (begin_apply (txn_new n now))"
  by (simp add: txn_wf_def begin_apply_def txn_new_def txn_step_def rollback_phase_def reason_ok_def)


lemma txn_applied_wf: "txn_wf t \<Longrightarrow> txn_wf (txn_applied a now t)"
  by (cases "phase t = Applying")
     (simp_all add: txn_applied_def txn_step_def txn_wf_verifying [of t])

lemma txn_rollback_sent_wf: "txn_wf t \<Longrightarrow> txn_wf (txn_rollback_sent now t)"
  by (simp add: txn_rollback_sent_def reset_probe_def Let_def txn_wf_sent)

lemma txn_cancel_wf: "txn_wf t \<Longrightarrow> why \<in> set cancel_reasons \<Longrightarrow> txn_wf (txn_cancel why t)"
  by (auto simp: txn_cancel_def cancel_reasons_def reason_fits_def rollback_phase_def intro!: txn_finish_wf)

lemma txn_exec_wf: "txn_wf t \<Longrightarrow> event_ok e \<Longrightarrow> txn_wf (snd (txn_exec e t))"
  by (cases e)
     (simp_all add: txn_exec_def event_ok_def txn_applied_wf on_reading_wf txn_cancel_wf
        txn_rollback_sent_wf txn_resume_wf txn_revert_def txn_keep_def start_rollback_wf
        txn_finish_wf reason_fits_def rollback_phase_def)

lemma txn_reach_wf: "txn_reach t \<Longrightarrow> txn_wf t"
  by (induction rule: txn_reach.induct) (auto intro: begin_apply_new_wf txn_exec_wf)

section \<open>What each step can do\<close>

text \<open>
  \<open>data_proven\<close> says when a reading passes the data gate, as a predicate on the reading alone:
  either no data is expected (and the change is not an APN waiting for its proof), or there is a
  connected data path with an address, new since the write for an APN, and the probe succeeded.
\<close>

definition data_proven :: "txn \<Rightarrow> reading \<Rightarrow> bool" where
  "data_proven t r \<longleftrightarrow> (case r_data r of
     None \<Rightarrow> False
   | Some d \<Rightarrow>
       (case d_expected d of
          None \<Rightarrow> False
        | Some False \<Rightarrow> \<not> (confirm t = Apn \<and> phase t = Verifying)
        | Some True \<Rightarrow> d_connected d \<and> addr (d_conn d) \<noteq> []
                      \<and> (confirm t = Apn \<longrightarrow> new_conn t (d_conn d)) \<and> r_probe r = Some True))"

lemma data_judge_Ok_iff: "fst (data_judge r t) = DataOk \<longleftrightarrow> data_proven t r"
  by (auto simp: data_judge_def data_gate_def data_proven_def Let_def split: option.splits bool.splits)

lemma data_proven_cong:
  "confirm t = confirm u \<Longrightarrow> phase t = phase u \<Longrightarrow> new_conn t = new_conn u \<Longrightarrow>
   data_proven t r = data_proven u r"
  by (simp add: data_proven_def split: option.split bool.split)

lemma new_conn_frame [simp]:
  "new_conn (note_probe r now t) = new_conn t"
  "new_conn (note_last_conn r t) = new_conn t"
  "new_conn (t\<lparr>ever_matched := b\<rparr>) = new_conn t" "new_conn (t\<lparr>read_ok := b\<rparr>) = new_conn t"
  "new_conn (t\<lparr>readback := v\<rparr>) = new_conn t" "new_conn (t\<lparr>registered := b\<rparr>) = new_conn t"
  "new_conn (t\<lparr>seen_ms := x\<rparr>) = new_conn t"
  by (auto simp: new_conn_def note_probe_def note_last_conn_def Let_def fun_eq_iff split: option.split)

lemma ident_fields:
  "txn_ident t = txn_ident u \<Longrightarrow> target t = target u"
  "txn_ident t = txn_ident u \<Longrightarrow> old t = old u"
  "txn_ident t = txn_ident u \<Longrightarrow> rollback_to t = rollback_to u"
  "txn_ident t = txn_ident u \<Longrightarrow> sim t = sim u"
  "txn_ident t = txn_ident u \<Longrightarrow> confirm t = confirm u"
  "txn_ident t = txn_ident u \<Longrightarrow> rollback_enabled t = rollback_enabled u"
  "txn_ident t = txn_ident u \<Longrightarrow> deadline_ms t = deadline_ms u"
  "txn_ident t = txn_ident u \<Longrightarrow> op_id t = op_id u"
  "txn_ident t = txn_ident u \<Longrightarrow> item t = item u"
  "txn_ident t = txn_ident u \<Longrightarrow> action t = action u"
  by (simp_all add: txn_ident_def)

lemmas note_probe_fields [simp] = ident_fields [OF note_probe_ident]
lemmas note_last_conn_fields [simp] = ident_fields [OF note_last_conn_ident]
lemmas txn_exec_fields [simp] = ident_fields [OF txn_exec_ident]

text \<open>The phases \<open>on_tick\<close> and \<open>start_rollback\<close> lead to.\<close>

lemma txn_finish_result [simp]:
  "fst (txn_finish p why t) = NDone" "phase (snd (txn_finish p why t)) = p"
  "reason (snd (txn_finish p why t)) = Some why" "intent (snd (txn_finish p why t)) = None"
  "generation (snd (txn_finish p why t)) = generation t + 1"
  by (simp_all add: txn_finish_def txn_step_def)

lemma start_rollback_result [simp]:
  "fst (start_rollback why t) = NRollback (rollback_to t)"
  "phase (snd (start_rollback why t)) = RollingBack"
  "intent (snd (start_rollback why t)) = Some IRollback"
  "rollback_reason (snd (start_rollback why t)) = Some why"
  "generation (snd (start_rollback why t)) = generation t + 1"
  by (simp_all add: start_rollback_def txn_step_def)

lemma on_tick_not_confirmed: "phase t \<noteq> Confirmed \<Longrightarrow> phase (snd (on_tick now t)) \<noteq> Confirmed"
  by (simp add: on_tick_def Let_def expire_def)

lemma on_tick_Confirmed_iff [simp]:
  "phase (snd (on_tick now t)) = Confirmed \<longleftrightarrow> phase t = Confirmed"
  by (cases "phase t = Confirmed") (simp add: on_tick_def, simp add: on_tick_not_confirmed)

lemma verify_value_Confirmed_iff:
  assumes "phase t = Verifying"
  shows "phase (snd (verify_value v r now t)) = Confirmed
           \<longleftrightarrow> v = target t \<and> r_registered r \<and> data_proven t r"
proof (cases "v = target t \<and> r_registered r")
  case True
  let ?t = "t\<lparr>ever_matched := True\<rparr>"
  obtain j where j: "data_judge r ?t = (j, ?t\<lparr>data_ok := (j \<noteq> DataNotYet)\<rparr>)"
    by (rule data_judge_eq)
  have "j = DataOk \<longleftrightarrow> data_proven t r"
    using data_judge_Ok_iff [of r ?t] j by (simp add: data_proven_cong [of ?t t])
  with True assms show ?thesis
    by (cases j) (simp_all add: verify_value_def j on_tick_not_confirmed)
next
  case False
  with assms show ?thesis
    by (simp add: verify_value_def on_tick_not_confirmed)
qed

lemma rollback_value_not_Confirmed:
  "phase t = RollingBack \<Longrightarrow> phase (snd (rollback_value v r now t)) \<noteq> Confirmed"
  by (simp add: rollback_value_def data_judge_def Let_def on_tick_not_confirmed)

lemma on_reading_Confirmed_iff:
  assumes "\<not> is_final (phase t)"
  shows "phase (snd (on_reading r now t)) = Confirmed \<longleftrightarrow>
     phase t = Verifying \<and> intent t = None \<and> sim_check (sim t) (r_sim r) = SimSame
     \<and> r_value r = Some (target t) \<and> r_registered r \<and> data_proven t r"
proof (cases "waiting t \<and> intent t = None \<and> sim_check (sim t) (r_sim r) = SimSame")
  case True
  let ?n = "note_probe r now ((note_last_conn r (t\<lparr>seen_ms := now\<rparr>))\<lparr>registered := r_registered r\<rparr>)"
  from True assms have eq: "on_reading r now t =
     (case r_value r of None \<Rightarrow> on_tick now ?n
      | Some v \<Rightarrow> let t = ?n\<lparr>read_ok := True, readback := Some v\<rparr>
                  in if phase t = Verifying then verify_value v r now t else rollback_value v r now t)"
    by (simp add: on_reading_def Let_def)
  show ?thesis
  proof (cases "r_value r")
    case None
    with True assms show ?thesis
      by (auto simp: eq waiting_def)
  next
    case (Some v)
    have "data_proven (?n\<lparr>read_ok := True, readback := Some v\<rparr>) r = data_proven t r"
      by (rule data_proven_cong) simp_all
    with True Some show ?thesis
      by (auto simp: eq Let_def waiting_def verify_value_Confirmed_iff rollback_value_not_Confirmed)
  qed
next
  case False
  with assms show ?thesis
    by (auto simp: on_reading_def Let_def waiting_def on_tick_not_confirmed split: sim_verdict.split)
qed

section \<open>Rollbacks, deadlines and final states\<close>

lemma on_tick_final [simp]: "is_final (phase t) \<Longrightarrow> on_tick now t = (NDone, t)"
  by (simp add: on_tick_def)

lemma on_reading_final [simp]: "is_final (phase t) \<Longrightarrow> on_reading r now t = (NDone, t)"
  by (simp add: on_reading_def)

lemma txn_exec_final: "is_final (phase t) \<Longrightarrow> snd (txn_exec e t) = t"
  by (cases e) (auto simp: txn_exec_def txn_applied_def txn_revert_def txn_keep_def txn_cancel_def
      txn_rollback_sent_def txn_resume_def)

text \<open>What a rollback step looks like, whichever event caused it.\<close>

definition starts_rollback :: "next_step \<Rightarrow> bool" where
  "starts_rollback n = (case n of NRollback _ \<Rightarrow> True | _ \<Rightarrow> False)"

lemma starts_rollback_simps [simp]:
  "\<not> starts_rollback NWait" "\<not> starts_rollback NDone" "starts_rollback (NRollback v)"
  by (simp_all add: starts_rollback_def)

definition before_rollback :: "phase \<Rightarrow> bool" where
  "before_rollback p \<longleftrightarrow> p = Accepted \<or> p = Applying \<or> p = Verifying"

definition rollback_started :: "reason \<Rightarrow> txn \<Rightarrow> next_step \<times> txn \<Rightarrow> bool" where
  "rollback_started why t res \<longleftrightarrow>
     before_rollback (phase t) \<and> fst res = NRollback (rollback_to t) \<and> phase (snd res) = RollingBack
     \<and> intent (snd res) = Some IRollback \<and> rollback_reason (snd res) = Some why"

lemma on_tick_rollback:
  "starts_rollback (fst (on_tick now t)) \<Longrightarrow>
   rollback_enabled t \<and> counting t \<and> rollback_started Timeout t (on_tick now t)"
  by (auto simp: on_tick_def Let_def expire_def rollback_started_def before_rollback_def waiting_def
      counting_def split: if_splits)

text \<open>
  A reading in a waiting phase does one of two things: it finishes the transaction, or it only
  updates what is remembered of readings and leaves the decision to the clock. \<open>txn_same\<close> lists
  what such an update keeps.
\<close>

definition txn_same :: "txn \<Rightarrow> txn \<Rightarrow> bool" where
  "txn_same u t \<longleftrightarrow> txn_ident u = txn_ident t \<and> phase u = phase t \<and> intent u = intent t
     \<and> wait_start_ms u = wait_start_ms t \<and> generation u = generation t
     \<and> rollback_reason u = rollback_reason t"

definition settles :: "u64 \<Rightarrow> txn \<Rightarrow> next_step \<times> txn \<Rightarrow> bool" where
  "settles now t res \<longleftrightarrow>
     (\<exists>p why u. res = txn_finish p why u \<and> is_final p \<and> txn_same u t)
   \<or> (\<exists>u. res = on_tick now u \<and> txn_same u t)"

lemma settlesI:
  "is_final p \<Longrightarrow> txn_same u t \<Longrightarrow> settles now t (txn_finish p why u)"
  "txn_same u t \<Longrightarrow> settles now t (on_tick now u)"
  by (auto simp: settles_def)

lemma txn_same_refl [simp]: "txn_same t t"
  by (simp add: txn_same_def)

lemma txn_same_update [simp]:
  "txn_same (u\<lparr>ever_matched := b\<rparr>) t = txn_same u t"
  "txn_same (u\<lparr>data_ok := b\<rparr>) t = txn_same u t"
  "txn_same (u\<lparr>took_ms := m\<rparr>) t = txn_same u t"
  "txn_same (u\<lparr>read_ok := b\<rparr>) t = txn_same u t"
  "txn_same (u\<lparr>readback := v\<rparr>) t = txn_same u t"
  "txn_same (u\<lparr>registered := b\<rparr>) t = txn_same u t"
  "txn_same (u\<lparr>seen_ms := x\<rparr>) t = txn_same u t"
  "txn_same (note_probe r now u) t = txn_same u t"
  "txn_same (note_last_conn r u) t = txn_same u t"
  by (simp_all add: txn_same_def)

lemma verify_value_settles:
  assumes "txn_same u t"
  shows "settles now t (verify_value v r now u)"
proof -
  obtain j where j: "data_judge r (u\<lparr>ever_matched := True\<rparr>) =
      (j, u\<lparr>ever_matched := True, data_ok := (j \<noteq> DataNotYet)\<rparr>)"
    by (rule data_judge_eq)
  from assms show ?thesis
    by (cases j) (simp_all add: verify_value_def Let_def j settlesI)
qed

lemma rollback_value_settles: "txn_same u t \<Longrightarrow> settles now t (rollback_value v r now u)"
  by (simp add: rollback_value_def data_judge_def Let_def settlesI)

lemma on_reading_settles: "counting t \<Longrightarrow> settles now t (on_reading r now t)"
  by (auto simp: on_reading_def counting_def waiting_def Let_def settlesI verify_value_settles
      rollback_value_settles split: sim_verdict.split option.split)

lemma on_reading_idle: "\<not> counting t \<Longrightarrow> on_reading r now t = (if is_final (phase t) then NDone else NWait, t)"
  by (auto simp: on_reading_def counting_def)

lemma on_tick_idle: "\<not> counting t \<Longrightarrow> on_tick now t = (if is_final (phase t) then NDone else NWait, t)"
  by (auto simp: on_tick_def counting_def)

lemma on_reading_rollback:
  assumes "starts_rollback (fst (on_reading r now t))"
  shows "rollback_enabled t \<and> counting t \<and> rollback_started Timeout t (on_reading r now t)"
proof (cases "counting t")
  case True
  from on_reading_settles [OF True, of now r] assms
  obtain u where u: "on_reading r now t = on_tick now u" "txn_same u t"
    by (auto simp: settles_def)
  with assms on_tick_rollback [of now u] have "rollback_enabled u \<and> rollback_started Timeout u (on_tick now u)"
    by simp
  with u True show ?thesis
    by (auto simp: rollback_started_def txn_same_def dest: ident_fields)
next
  case False
  with assms show ?thesis by (simp add: on_reading_idle split: if_splits)
qed

lemma note_reboot_ident [simp]: "txn_ident (note_reboot bid t) = txn_ident t"
  by (simp add: note_reboot_def reset_probe_def Let_def)

lemma resume_wait_ident [simp]: "txn_ident (resume_wait b now t) = txn_ident t"
  by (simp add: resume_wait_def Let_def)

lemma resume_wait_phase [simp]:
  "phase (resume_wait b now t) = (if phase t = Applying then Verifying else phase t)"
  by (simp add: resume_wait_def Let_def)

lemmas resume_fields [simp] =
  ident_fields [OF note_reboot_ident] ident_fields [OF resume_wait_ident]

lemma expire_rollback:
  "starts_rollback (fst (expire why t)) \<Longrightarrow> before_rollback (phase t) \<Longrightarrow>
   rollback_enabled t \<and> rollback_started why t (expire why t)"
  by (simp add: expire_def rollback_started_def split: if_splits)

lemma txn_resume_rollback:
  assumes "starts_rollback (fst (txn_resume bid now t))"
  shows "rollback_enabled t \<and> bid \<noteq> boot_id t \<and> rollback_started RebootLoop t (txn_resume bid now t)"
proof -
  let ?u = "resume_wait True now (note_reboot bid t)"
  have ph: "bid \<noteq> boot_id t" "phase t = Applying \<or> phase t = Verifying"
    and eq: "txn_resume bid now t = expire RebootLoop ?u"
    using assms by (auto simp: txn_resume_def Let_def split: if_splits)
  have "before_rollback (phase ?u)" "before_rollback (phase t)"
    using ph by (auto simp: before_rollback_def)
  with expire_rollback [of RebootLoop ?u] assms ph show ?thesis
    by (simp add: eq rollback_started_def)
qed

text \<open>Every rollback of the state machine, with its cause.\<close>

lemma txn_exec_rollback:
  assumes "starts_rollback (fst (txn_exec e t))"
  shows "\<exists>why. rollback_started why t (txn_exec e t) \<and> (rollback_enabled t \<or> e = EvRevert)"
proof (cases e)
  case EvRevert
  with assms show ?thesis
    by (auto simp: txn_exec_def txn_revert_def rollback_started_def before_rollback_def split: if_splits)
next
  case (EvReading r now)
  with assms on_reading_rollback [of r now t] show ?thesis by (auto simp: txn_exec_def)
next
  case (EvTick now)
  with assms on_tick_rollback [of now t] show ?thesis by (auto simp: txn_exec_def)
next
  case (EvResume bid now)
  with assms txn_resume_rollback [of bid now t] show ?thesis by (auto simp: txn_exec_def)
qed (use assms in \<open>auto simp: txn_exec_def split: sum.splits\<close>)

lemma on_reading_cases:
  assumes "counting t"
  obtains (finish) p why u where "on_reading r now t = txn_finish p why u" "is_final p" "txn_same u t"
    | (tick) u where "on_reading r now t = on_tick now u" "txn_same u t"
  using on_reading_settles [OF assms, of now r] by (auto simp: settles_def)

lemma txn_run_Cons:
  "fst (txn_run (e # es) t) = fst (txn_exec e t) # fst (txn_run es (snd (txn_exec e t)))"
  "snd (txn_run (e # es) t) = snd (txn_run es (snd (txn_exec e t)))"
  by (simp_all add: Let_def split: prod.split)

declare txn_run.simps(2) [simp del]

text \<open>No event takes a transaction back before its rollback.\<close>

lemma final_not_before: "is_final p \<Longrightarrow> \<not> before_rollback p"
  by (auto simp: before_rollback_def)

lemma on_tick_before: "before_rollback (phase (snd (on_tick now t))) \<Longrightarrow> before_rollback (phase t)"
  by (auto simp: on_tick_def Let_def expire_def before_rollback_def waiting_def split: if_splits)

lemma on_reading_before:
  assumes b: "before_rollback (phase (snd (on_reading r now t)))"
  shows "before_rollback (phase t)"
proof (cases "counting t")
  case True
  then show ?thesis
  proof (cases rule: on_reading_cases [of t r now])
    case (finish p why u)
    with b show ?thesis by (simp add: final_not_before)
  next
    case (tick u)
    with b have "before_rollback (phase u)" by (auto intro: on_tick_before)
    with tick show ?thesis by (simp add: txn_same_def)
  qed
next
  case False
  with b show ?thesis by (simp add: on_reading_idle)
qed

lemma txn_resume_rolling: "phase t = RollingBack \<Longrightarrow> phase (snd (txn_resume bid now t)) = RollingBack"
  by (simp add: txn_resume_def Let_def)

lemma txn_resume_before:
  assumes "before_rollback (phase (snd (txn_resume bid now t)))"
  shows "before_rollback (phase t)"
proof (cases "phase t")
  case RollingBack
  with assms show ?thesis by (simp add: txn_resume_rolling before_rollback_def)
qed (use assms in \<open>simp_all add: before_rollback_def txn_resume_def\<close>)

lemma txn_exec_before:
  assumes "before_rollback (phase (snd (txn_exec e t)))"
  shows "before_rollback (phase t)"
proof (cases e)
  case (EvReading r now)
  with assms show ?thesis using on_reading_before [of r now t] by (simp add: txn_exec_def)
next
  case (EvTick now)
  with assms show ?thesis using on_tick_before [of now t] by (simp add: txn_exec_def)
next
  case (EvResume bid now)
  with assms show ?thesis using txn_resume_before [of bid now t] by (simp add: txn_exec_def)
qed (use assms in \<open>auto simp: txn_exec_def txn_applied_def txn_revert_def txn_keep_def txn_cancel_def
       txn_rollback_sent_def reset_probe_def Let_def before_rollback_def split: if_splits\<close>)

lemma txn_run_rollbacks:
  "length (filter starts_rollback (fst (txn_run es t))) \<le> (if before_rollback (phase t) then 1 else 0)"
proof (induction es arbitrary: t)
  case Nil
  then show ?case by simp
next
  case (Cons e es)
  let ?t = "snd (txn_exec e t)"
  have IH: "length (filter starts_rollback (fst (txn_run es ?t)))
              \<le> (if before_rollback (phase ?t) then 1 else 0)"
    by (rule Cons.IH)
  show ?case
  proof (cases "starts_rollback (fst (txn_exec e t))")
    case True
    with txn_exec_rollback [OF True] IH show ?thesis
      by (auto simp: txn_run_Cons rollback_started_def before_rollback_def)
  next
    case False
    with IH txn_exec_before [of e t] show ?thesis by (auto simp: txn_run_Cons split: if_splits)
  qed
qed

lemma txn_run_final: "is_final (phase t) \<Longrightarrow> snd (txn_run es t) = t"
proof (induction es arbitrary: t)
  case (Cons e es)
  then have "snd (txn_exec e t) = t" by (simp add: txn_exec_final)
  with Cons show ?case by (simp add: txn_run_Cons)
qed simp

text \<open>Past the deadline nothing keeps waiting.\<close>

definition past_deadline :: "u64 \<Rightarrow> txn \<Rightarrow> bool" where
  "past_deadline now t \<longleftrightarrow> deadline_ms t \<le> sat_sub now (wait_start_ms t)"

lemma on_tick_deadline:
  assumes "counting t" "past_deadline now t"
  shows "is_final (phase (snd (on_tick now t)))
       \<or> (phase t = Verifying \<and> rollback_enabled t \<and> fst (on_tick now t) = NRollback (rollback_to t)
          \<and> phase (snd (on_tick now t)) = RollingBack)"
  using assms by (auto simp: on_tick_def counting_def waiting_def past_deadline_def Let_def expire_def)

lemma past_deadline_same: "txn_same u t \<Longrightarrow> past_deadline now u = past_deadline now t"
  by (auto simp: past_deadline_def txn_same_def dest: ident_fields)

lemma counting_same: "txn_same u t \<Longrightarrow> counting u = counting t"
  by (auto simp: counting_def waiting_def txn_same_def)

lemma on_reading_deadline:
  assumes c: "counting t" and d: "past_deadline now t"
  shows "is_final (phase (snd (on_reading r now t)))
       \<or> (phase t = Verifying \<and> rollback_enabled t \<and> fst (on_reading r now t) = NRollback (rollback_to t)
          \<and> phase (snd (on_reading r now t)) = RollingBack)"
  using c
proof (cases rule: on_reading_cases [of t r now])
  case (tick u)
  then have "counting u" "past_deadline now u"
    using c d by (simp_all add: counting_same past_deadline_same)
  with on_tick_deadline [of u now] tick show ?thesis
    by (auto simp: txn_same_def dest: ident_fields)
qed simp

text \<open>A change of phase always changes the generation the driver compares.\<close>

lemma on_tick_generation:
  "phase (snd (on_tick now t)) \<noteq> phase t \<Longrightarrow> generation (snd (on_tick now t)) = generation t + 1"
  by (auto simp: on_tick_def Let_def expire_def split: if_splits)

lemma on_reading_generation:
  assumes g: "phase (snd (on_reading r now t)) \<noteq> phase t"
  shows "generation (snd (on_reading r now t)) = generation t + 1"
proof (cases "counting t")
  case True
  then show ?thesis
  proof (cases rule: on_reading_cases [of t r now])
    case (tick u)
    with g on_tick_generation [of now u] show ?thesis by (simp add: txn_same_def)
  qed (simp add: txn_same_def)
next
  case False
  with g show ?thesis by (simp add: on_reading_idle)
qed

lemma resume_wait_generation [simp]: "generation (resume_wait b now t) = generation t + 1"
  by (simp add: resume_wait_def Let_def)

lemma txn_resume_generation:
  "\<not> is_final (phase t) \<Longrightarrow> generation (snd (txn_resume bid now t)) - generation t \<in> {1, 2}"
  by (simp add: txn_resume_def Let_def expire_def)

lemma txn_exec_generation:
  assumes "phase (snd (txn_exec e t)) \<noteq> phase t"
  shows "generation (snd (txn_exec e t)) - generation t \<in> {1, 2}"
proof (cases e)
  case (EvReading r now)
  with assms show ?thesis using on_reading_generation [of r now t] by (simp add: txn_exec_def)
next
  case (EvTick now)
  with assms show ?thesis using on_tick_generation [of now t] by (simp add: txn_exec_def)
next
  case (EvResume bid now)
  moreover have "\<not> is_final (phase t)"
    using assms txn_exec_final [of t e] by auto
  ultimately show ?thesis using txn_resume_generation [of t bid now] by (simp add: txn_exec_def)
qed (use assms in \<open>auto simp: txn_exec_def txn_applied_def txn_revert_def txn_keep_def txn_cancel_def
       txn_rollback_sent_def reset_probe_def Let_def txn_step_def split: if_splits\<close>)

section \<open>Probing\<close>

text \<open>
  One beat of the driver loop in \<^verbatim>\<open>engine.rs\<close>, on the transaction alone: a fresh reading, a DNS
  probe if \<open>wants_probe\<close> asks for one at \<open>now1\<close>, and the reading fed in at \<open>now2\<close>. \<open>beats\<close> runs
  several of them and collects the probes that were sent.
\<close>

definition beat :: "(probe_target \<Rightarrow> bool) \<Rightarrow> reading \<Rightarrow> u64 \<Rightarrow> u64 \<Rightarrow> txn \<Rightarrow> bool \<times> txn" where
  "beat net r now1 now2 t =
     (case wants_probe t r now1 of
        Some tgt \<Rightarrow> (True, snd (on_reading (r\<lparr>r_probe := Some (net tgt)\<rparr>) now2 t))
      | None \<Rightarrow> (False, snd (on_reading (r\<lparr>r_probe := None\<rparr>) now2 t)))"

fun beats :: "(probe_target \<Rightarrow> bool) \<Rightarrow> (reading \<times> u64 \<times> u64) list \<Rightarrow> txn \<Rightarrow> (u64 \<times> u64) list" where
  "beats net [] t = []"
| "beats net ((r, now1, now2) # bs) t =
     (let (sent, t') = beat net r now1 now2 t
      in if sent then (now1, now2) # beats net bs t' else beats net bs t')"

lemma on_tick_probe_last [simp]: "probe_last_ms (snd (on_tick now t)) = probe_last_ms t"
  by (simp add: on_tick_def Let_def expire_def txn_finish_def start_rollback_def txn_step_def)

lemma txn_finish_probe_last [simp]: "probe_last_ms (snd (txn_finish p why t)) = probe_last_ms t"
  by (simp add: txn_finish_def txn_step_def)

lemma verify_value_probe_last [simp]: "probe_last_ms (snd (verify_value v r now t)) = probe_last_ms t"
proof -
  obtain j where j: "data_judge r (t\<lparr>ever_matched := True\<rparr>) =
      (j, t\<lparr>ever_matched := True, data_ok := (j \<noteq> DataNotYet)\<rparr>)"
    by (rule data_judge_eq)
  show ?thesis by (cases j) (simp_all add: verify_value_def Let_def j)
qed

lemma rollback_value_probe_last [simp]: "probe_last_ms (snd (rollback_value v r now t)) = probe_last_ms t"
  by (simp add: rollback_value_def data_judge_def Let_def)

lemma note_last_conn_probe_last [simp]: "probe_last_ms (note_last_conn r t) = probe_last_ms t"
  by (simp add: note_last_conn_def split: option.split)

lemma on_reading_probe_last:
  "probe_last_ms (snd (on_reading r now t)) =
     (if counting t \<and> sim_check (sim t) (r_sim r) = SimSame \<and> r_probe r \<noteq> None \<and> r_data r \<noteq> None
      then Some now else probe_last_ms t)"
  by (auto simp: on_reading_def counting_def waiting_def Let_def note_probe_def
      split: sim_verdict.split option.split)

lemma probe_gap_le_round: "\<not> x < probe_round_gap_ms \<Longrightarrow> probe_gap_ms \<le> x"
  by (rule order_trans [of probe_gap_ms probe_round_gap_ms])
     (simp_all add: probe_gap_ms_def probe_round_gap_ms_def)

lemma wants_probe_SomeD:
  "wants_probe t r now = Some tgt \<Longrightarrow>
   counting t \<and> r_registered r \<and> r_value r = Some (goal t) \<and> sim_check (sim t) (r_sim r) = SimSame
   \<and> r_data r \<noteq> None \<and> data_gate t r = Err (Some tgt)
   \<and> (\<forall>s. probe_last_ms t = Some s \<longrightarrow> probe_gap_ms \<le> sat_sub now s)"
  by (auto simp: wants_probe_def counting_def Let_def not_less probe_gap_le_round
      split: if_splits option.splits sum.splits)

lemma beat_probe_last:
  "beat net r now1 now2 t = (sent, t') \<Longrightarrow>
   probe_last_ms t' = (if sent then Some now2 else probe_last_ms t)
   \<and> (sent \<longrightarrow> (\<forall>s. probe_last_ms t = Some s \<longrightarrow> 5000 \<le> unat now1 - unat s))"
  by (auto simp: beat_def on_reading_probe_last probe_gap_ms_def sat_sub_ge_iff
      split: option.splits dest!: wants_probe_SomeD)

definition gap_ok :: "u64 \<times> u64 \<Rightarrow> u64 \<times> u64 \<Rightarrow> bool" where
  "gap_ok a b \<longleftrightarrow> 5000 \<le> unat (fst b) - unat (snd a)"

lemma beats_gap:
  "(\<forall>s. probe_last_ms t = Some s \<longrightarrow> successively gap_ok ((x, s) # beats net bs t))
   \<and> successively gap_ok (beats net bs t)"
proof (induction bs arbitrary: t x)
  case Nil
  then show ?case by simp
next
  case (Cons b bs)
  obtain r now1 now2 where b: "b = (r, now1, now2)" by (cases b)
  obtain sent t' where bt: "beat net r now1 now2 t = (sent, t')" by fastforce
  from beat_probe_last [OF bt] Cons.IH [of t'] show ?case
    by (auto simp: b bt gap_ok_def)
qed

section \<open>Properties of the state machine\<close>

lemma txn_wf_no_intent:
  assumes "txn_wf t" "is_final (phase t)"
  shows "intent t = None"
proof (cases "intent t")
  case (Some i)
  with assms show ?thesis by (cases i) (simp_all add: txn_wf_def)
qed

text \<open>A change of the network mode from \<open>WL_AND_5G\<close> to \<open>Only_LTE\<close>, and readings of it, for the witnesses.\<close>

definition ex_sim :: sim_id where "ex_sim = \<lparr>iccid = ''8986'', slot = 1\<rparr>"

definition ex_conn :: conn where
  "ex_conn = \<lparr>ipv4 = ''10.1.2.3'', ipv6 = [], up_since_ms = Some 70000\<rparr>"

definition ex_data :: data_path where
  "ex_data = \<lparr>d_expected = Some True, d_connected = True, d_conn = ex_conn,
              d_iface = ''rmnet_data0'', d_dns = [''192.0.2.53'']\<rparr>"

definition ex_new :: new_txn where
  "ex_new = \<lparr>n_op_id = ''op1'', n_action = ''network.set_mode'', n_item = ''network.mode'',
     n_source = Screen, n_undo = False, n_target = ''Only_LTE'', n_old = ''WL_AND_5G'',
     n_rollback_to = ''WL_AND_5G'', n_sim = ex_sim, n_conn = None, n_confirm = Registered,
     n_rollback_enabled = True, n_deadline_ms = 120000, n_boot_id = ''b1''\<rparr>"

definition ex_reading :: "string \<Rightarrow> bool option \<Rightarrow> reading" where
  "ex_reading v p = \<lparr>r_value = Some v, r_registered = True, r_sim = ex_sim,
     r_data = Some ex_data, r_probe = p\<rparr>"

definition ex_txn :: txn where
  "ex_txn = txn_applied ADone 1000 (begin_apply (txn_new ex_new 900))"

lemmas ex_defs = ex_sim_def ex_conn_def ex_data_def ex_new_def ex_reading_def

lemma ex_txn_eq: "phase ex_txn = Verifying" "intent ex_txn = None" "wait_start_ms ex_txn = 1000"
  "deadline_ms ex_txn = 120000" "sim ex_txn = ex_sim" "target ex_txn = ''Only_LTE''"
  "rollback_to ex_txn = ''WL_AND_5G''" "rollback_enabled ex_txn" "confirm ex_txn = Registered"
  "boot_id ex_txn = ''b1''" "boots ex_txn = 0" "generation ex_txn = 2"
  "probe_last_ms ex_txn = None" "elapsed_prev_ms ex_txn = 0" "read_ok ex_txn = False"
  "ever_matched ex_txn = False" "seen_ms ex_txn = 1000"
  by (simp_all add: ex_txn_def txn_applied_def begin_apply_def txn_new_def txn_step_def ex_new_def)

lemma ex_txn_reach: "txn_reach ex_txn"
  using reach_exec [OF reach_start [of ex_new 900], of "EvApplied ADone 1000"]
  by (simp add: ex_txn_def txn_exec_def event_ok_def)

lemma ex_sim_same: "sim_check ex_sim ex_sim = SimSame"
  by (simp add: sim_check_def sim_blank_def ex_sim_def)

lemma ex_proven: "data_proven ex_txn (ex_reading v (Some True))"
  by (simp add: data_proven_def ex_defs ex_txn_eq addr_def)

text \<open>
  Property C3. A reading confirms a waiting transaction exactly when everything is proven: no write
  is in flight, the SIM is the one captured before the write, the configuration reads back as the
  target, the modem is registered, and the data path is proven (either no data is expected and the
  change is not an APN, or the connection is up with an address, new for an APN, and the DNS probe
  over it succeeded).
\<close>

theorem reading_confirms_iff:
  assumes "\<not> is_final (phase t)"
  shows "phase (snd (on_reading r now t)) = Confirmed \<longleftrightarrow>
     phase t = Verifying \<and> intent t = None \<and> sim_check (sim t) (r_sim r) = SimSame
     \<and> r_value r = Some (target t) \<and> r_registered r \<and> data_proven t r"
  using assms by (rule on_reading_Confirmed_iff)

theorem reading_confirms_iff_witness:
  "\<not> is_final (phase ex_txn) \<and>
   phase (snd (on_reading (ex_reading ''Only_LTE'' (Some True)) 9000 ex_txn)) = Confirmed"
proof -
  have nf: "\<not> is_final (phase ex_txn)" by (simp add: ex_txn_eq)
  show ?thesis
    using nf reading_confirms_iff [OF nf, of "ex_reading ''Only_LTE'' (Some True)" 9000]
      ex_proven [of "''Only_LTE''"] ex_sim_same
    by (simp add: ex_txn_eq ex_reading_def)
qed

text \<open>
  However long a transaction lives and whatever events it sees (readings, ticks,
  restarts of the daemon or of the device, user decisions, interruptions), its rollback is started
  at most once.
\<close>

theorem rollback_at_most_once:
  "length (filter starts_rollback (fst (txn_run es (begin_apply (txn_new n now))))) \<le> 1"
proof -
  have "before_rollback (phase (begin_apply (txn_new n now)))"
    by (simp add: begin_apply_def txn_new_def txn_step_def before_rollback_def)
  with txn_run_rollbacks [of es "begin_apply (txn_new n now)"] show ?thesis by simp
qed

text \<open>
  A rollback writes the rollback target of the transaction and nothing else, starts
  only before any earlier rollback, records its intent for the persistent store, and happens
  without the user only when automatic rollback is enabled.
\<close>

theorem rollback_cause:
  assumes "starts_rollback (fst (txn_exec e t))"
  shows "fst (txn_exec e t) = NRollback (rollback_to t) \<and> before_rollback (phase t)
     \<and> intent (snd (txn_exec e t)) = Some IRollback \<and> (rollback_enabled t \<or> e = EvRevert)"
  using txn_exec_rollback [OF assms] by (auto simp: rollback_started_def)

theorem rollback_cause_witness:
  "fst (txn_exec EvRevert ex_txn) = NRollback (rollback_to ex_txn)"
proof -
  have "starts_rollback (fst (txn_exec EvRevert ex_txn))"
    by (simp add: txn_exec_def txn_revert_def ex_txn_eq)
  from rollback_cause [OF this] show ?thesis by simp
qed

text \<open>
  Property C21. Every reachable transaction satisfies the table of final states: a final phase
  carries one of the reasons the table lists for it and no write is in flight; \<open>not_applied\<close> means
  the target was never read back, \<open>confirmed\<close> as verified means it was and the time taken is known.
\<close>

theorem final_states_table:
  assumes "txn_reach t" "is_final (phase t)"
  shows "\<exists>why. reason t = Some why \<and> reason_fits (phase t) why \<and> intent t = None
     \<and> (phase t = NotApplied \<longrightarrow> \<not> ever_matched t)
     \<and> (why = Verified \<longrightarrow> ever_matched t \<and> took_ms t \<noteq> None)"
proof -
  have wf: "txn_wf t" using assms(1) by (rule txn_reach_wf)
  then obtain why where w: "reason t = Some why" "reason_fits (phase t) why"
    using assms(2) by (auto simp: txn_wf_def reason_ok_def split: option.splits)
  have "intent t = None"
    using wf assms(2) by (rule txn_wf_no_intent)
  moreover have "why = Verified \<longrightarrow> phase t = Confirmed"
    using w(2) by (cases "phase t") (auto simp: reason_fits_def)
  ultimately show ?thesis using wf w by (auto simp: txn_wf_def)
qed

theorem final_states_table_witness:
  "\<exists>why. reason (txn_cancel Preempted ex_txn) = Some why
     \<and> reason_fits (phase (txn_cancel Preempted ex_txn)) why"
proof -
  have "txn_reach (txn_cancel Preempted ex_txn)"
    using reach_exec [OF ex_txn_reach, of "EvCancel Preempted"]
    by (simp add: txn_exec_def event_ok_def cancel_reasons_def)
  moreover have "is_final (phase (txn_cancel Preempted ex_txn))"
    by (simp add: txn_cancel_def ex_txn_eq)
  ultimately show ?thesis using final_states_table by blast
qed


text \<open>
  Final phases are absorbing: no later event, in any number, changes anything of a
  finished transaction.
\<close>

theorem final_is_absorbing:
  assumes "is_final (phase t)"
  shows "snd (txn_run es t) = t"
  using assms by (rule txn_run_final)

theorem final_is_absorbing_witness:
  "snd (txn_run [EvTick 5, EvRevert, EvResume ''b9'' 7] (txn_cancel Preempted ex_txn))
     = txn_cancel Preempted ex_txn"
proof -
  have "is_final (phase (txn_cancel Preempted ex_txn))"
    by (simp add: txn_cancel_def ex_txn_eq)
  from final_is_absorbing [OF this] show ?thesis .
qed

text \<open>
  The deadline is enforced: a transaction that counts down and is past its deadline
  never goes on waiting, neither on a tick without a reading nor on any reading. It is finished, or
  it was confirming with automatic rollback on and now rolls back.
\<close>

theorem deadline_enforced:
  assumes "counting t" "past_deadline now t"
    and "res = on_tick now t \<or> res = on_reading r now t"
  shows "is_final (phase (snd res))
     \<or> (phase t = Verifying \<and> rollback_enabled t \<and> fst res = NRollback (rollback_to t)
        \<and> phase (snd res) = RollingBack)"
  using assms(3) on_tick_deadline [OF assms(1,2)] on_reading_deadline [OF assms(1,2), of r]
  by blast

theorem deadline_enforced_witness:
  "phase (snd (on_tick 121000 ex_txn)) = RollingBack
   \<or> is_final (phase (snd (on_tick 121000 ex_txn)))"
proof -
  have "counting ex_txn" "past_deadline 121000 ex_txn"
    by (simp_all add: counting_def waiting_def past_deadline_def sat_sub_def ex_txn_eq)
  from deadline_enforced [OF this, of "on_tick 121000 ex_txn"] show ?thesis by auto
qed

text \<open>
  Property C22. A transaction ends. Once it is past its deadline, then has its rollback (if one was
  started) sent, and the deadline passes once more, it is in a final phase.
\<close>

theorem transaction_ends:
  assumes "counting t" "past_deadline n1 t"
    and "t1 = snd (on_tick n1 t)" "t2 = txn_rollback_sent n2 t1"
    and "deadline_ms t \<le> sat_sub n3 n2"
  shows "is_final (phase (snd (on_tick n3 t2)))"
proof (cases "is_final (phase t1)")
  case True
  then show ?thesis using assms(4) by (auto simp: txn_rollback_sent_def)
next
  case False
  then have "phase t1 = RollingBack" using on_tick_deadline [OF assms(1,2)] assms(3) by auto
  then have "phase t2 = RollingBack" "intent t2 = None" "wait_start_ms t2 = n2"
    "deadline_ms t2 = deadline_ms t"
    using assms(4) ident_fields(7) [OF on_tick_ident, of n1 t] assms(3)
    by (simp_all add: txn_rollback_sent_def reset_probe_def Let_def)
  then have "counting t2" "past_deadline n3 t2"
    using assms(5) by (simp_all add: counting_def waiting_def past_deadline_def)
  from on_tick_deadline [OF this] \<open>phase t2 = RollingBack\<close> show ?thesis by simp
qed

theorem transaction_ends_witness:
  "is_final (phase (snd (on_tick 300000 (txn_rollback_sent 150000 (snd (on_tick 121000 ex_txn))))))"
proof -
  have "counting ex_txn" "past_deadline 121000 ex_txn" "deadline_ms ex_txn \<le> sat_sub 300000 150000"
    by (simp_all add: counting_def waiting_def past_deadline_def sat_sub_def ex_txn_eq)
  from transaction_ends [OF this(1,2) refl refl this(3)] show ?thesis .
qed

text \<open>
  A change of phase always changes the generation counter (by one, or by two when a
  resume goes on to expire), which is what the driver compares to drop readings taken before it.
\<close>

theorem phase_change_bumps_generation:
  assumes "phase (snd (txn_exec e t)) \<noteq> phase t"
  shows "generation (snd (txn_exec e t)) \<noteq> generation t"
  using txn_exec_generation [OF assms] by auto

theorem phase_change_bumps_generation_witness:
  "generation (snd (txn_exec EvKeep ex_txn)) \<noteq> generation ex_txn"
proof -
  have "phase (snd (txn_exec EvKeep ex_txn)) \<noteq> phase ex_txn"
    by (simp add: txn_exec_def txn_keep_def ex_txn_eq)
  then show ?thesis by (rule phase_change_bumps_generation)
qed

text \<open>
  A different SIM card ends the transaction at once: no rollback is started and
  nothing of the old card is written to the new one.
\<close>

theorem sim_change_cancels:
  assumes "counting t" "sim_check (sim t) (r_sim r) = SimDiffers"
  shows "fst (on_reading r now t) = NDone \<and> phase (snd (on_reading r now t)) = Cancelled
     \<and> reason (snd (on_reading r now t)) = Some SimChanged"
  using assms by (auto simp: on_reading_def counting_def waiting_def Let_def)

theorem sim_change_cancels_witness:
  "phase (snd (on_reading ((ex_reading ''Only_LTE'' None)\<lparr>r_sim := \<lparr>iccid = ''8985'', slot = 1\<rparr>\<rparr>) 9000 ex_txn))
     = Cancelled"
proof -
  let ?r = "(ex_reading ''Only_LTE'' None)\<lparr>r_sim := \<lparr>iccid = ''8985'', slot = 1\<rparr>\<rparr>"
  have "counting ex_txn" "sim_check (sim ex_txn) (r_sim ?r) = SimDiffers"
    by (simp_all add: counting_def waiting_def ex_txn_eq sim_check_def sim_blank_def ex_sim_def)
  from sim_change_cancels [OF this] show ?thesis by simp
qed

text \<open>
  Two DNS probes of one wait are at least five seconds apart, whatever the readings,
  the connection and the outcome of the probes: the second is asked for no earlier than 5000 ms
  after the first was recorded.
\<close>

theorem probes_are_spaced: "successively gap_ok (beats net bs t)"
  using beats_gap by blast

text \<open>
  Restart safety: resuming a persisted transaction never re-applies the write. A
  rollback that was in flight is taken as sent and never started again; any rollback a resume
  starts is the reboot-loop one, on a new boot, with automatic rollback enabled.
\<close>

theorem resume_never_rewrites:
  assumes "txn_reach t"
  shows "intent (snd (txn_resume bid now t)) \<noteq> Some IApply
     \<and> phase (snd (txn_resume bid now t)) \<noteq> Applying
     \<and> (phase t = RollingBack \<longrightarrow> fst (txn_resume bid now t) = NWait
            \<and> intent (snd (txn_resume bid now t)) = None)
     \<and> (starts_rollback (fst (txn_resume bid now t)) \<longrightarrow> rollback_enabled t \<and> bid \<noteq> boot_id t)"
proof -
  have "txn_wf (snd (txn_resume bid now t))"
    using txn_reach_wf [OF assms] by (rule txn_resume_wf)
  then have "intent (snd (txn_resume bid now t)) = Some IApply \<longleftrightarrow>
      phase (snd (txn_resume bid now t)) = Applying"
    by (simp add: txn_wf_def)
  moreover have "phase (snd (txn_resume bid now t)) \<noteq> Applying"
    by (auto simp: txn_resume_def Let_def expire_def split: if_splits)
  moreover have "phase t = RollingBack \<Longrightarrow> fst (txn_resume bid now t) = NWait
      \<and> intent (snd (txn_resume bid now t)) = None"
    by (auto simp: txn_resume_def Let_def resume_wait_def)
  ultimately show ?thesis using txn_resume_rollback [of bid now t] by blast
qed

theorem resume_never_rewrites_witness:
  "fst (txn_resume ''b2'' 50 (snd (txn_exec EvRevert ex_txn))) = NWait"
proof -
  have "txn_reach (snd (txn_exec EvRevert ex_txn))"
    using ex_txn_reach by (rule reach_exec) (simp add: event_ok_def)
  moreover have "phase (snd (txn_exec EvRevert ex_txn)) = RollingBack"
    by (simp add: txn_exec_def txn_revert_def ex_txn_eq)
  ultimately show ?thesis using resume_never_rewrites by blast
qed

end
