(* ===== verification/Action_Spec.thy ===== *)
theory Action_Spec
  imports Txn Json
begin

text \<open>
  The action table of the write layer, \<^verbatim>\<open>rust/src/ops/spec.rs\<close>: which \<open>/control\<close> actions run as
  transactions, which writes count as safety writes and which affect the network connection. The
  lists of session actions stand in \<^verbatim>\<open>rust/src/ops/engine.rs\<close>, the parameter readers \<open>string\<close> and
  \<open>boolean\<close> in \<^verbatim>\<open>rust/src/control.rs\<close>. Error texts are values of a datatype; \<open>ParamsPanic\<close> stands for
  the panic of \<open>object\<close> on parameters that are not an object, which the server rules out beforehand.
\<close>

section \<open>Reading parameters\<close>

datatype param_error = MissingParameter string | MustBeString string | MustBeInteger string
  | MustBeBoolean string | ParamsPanic

definition object :: "json \<Rightarrow> (string \<times> json) list option" where
  "object v = (case v of JObject m \<Rightarrow> Some m | _ \<Rightarrow> None)"

definition param_string :: "json \<Rightarrow> string \<Rightarrow> bool \<Rightarrow> param_error + string option" where
  "param_string params name required =
     (case object params of
        None \<Rightarrow> Err ParamsPanic
      | Some m \<Rightarrow>
          (case map_of m name of
             Some v \<Rightarrow>
               (case v of JString s \<Rightarrow> if length s \<le> 8192 then Ok (Some s) else Err (MustBeString name)
                | _ \<Rightarrow> Err (MustBeString name))
           | None \<Rightarrow> if required then Err (MissingParameter name) else Ok None))"

definition param_integer :: "json \<Rightarrow> string \<Rightarrow> bool \<Rightarrow> param_error + u64 option" where
  "param_integer params name required =
     (case object params of
        None \<Rightarrow> Err ParamsPanic
      | Some m \<Rightarrow>
          (case map_of m name of
             Some v \<Rightarrow>
               (case v of JNumber n \<Rightarrow>
                  (case as_i64 (JNumber n) of Some i \<Rightarrow> Ok (Some i) | None \<Rightarrow> Err (MustBeInteger name))
                | _ \<Rightarrow> Err (MustBeInteger name))
           | None \<Rightarrow> if required then Err (MissingParameter name) else Ok None))"

definition bool_of_json :: "json \<Rightarrow> bool option" where
  "bool_of_json v = (case v of
     JBool b \<Rightarrow> Some b
   | JNumber n \<Rightarrow>
       if as_u64 (JNumber n) = Some 0 then Some False
       else if as_u64 (JNumber n) = Some 1 then Some True else None
   | _ \<Rightarrow> None)"

definition param_boolean :: "json \<Rightarrow> string \<Rightarrow> param_error + bool" where
  "param_boolean params name =
     (case object params of
        None \<Rightarrow> Err ParamsPanic
      | Some m \<Rightarrow>
          (case map_of m name of
             None \<Rightarrow> Err (MustBeBoolean name)
           | Some v \<Rightarrow> (case bool_of_json v of Some b \<Rightarrow> Ok b | None \<Rightarrow> Err (MustBeBoolean name))))"

section \<open>The table\<close>

record spec =
  s_action :: string
  s_item :: string
  s_param :: string
  s_deadline_ms :: u64
  s_deadline_env :: string
  s_confirm :: confirm

definition network_mode :: string where "network_mode = ''network.mode''"

definition specs :: "spec list" where
  "specs = [\<lparr>s_action = ''network.set_mode'', s_item = network_mode, s_param = ''mode'',
     s_deadline_ms = 120000, s_deadline_env = ''ZWRT_DATAD_DEADLINE_NETWORK_MODE_MS'',
     s_confirm = Registered\<rparr>]"

definition spec_find :: "string \<Rightarrow> spec option" where
  "spec_find a = List.find (\<lambda>s. s_action s = a) specs"

text \<open>\<open>Spec::deadline_ms\<close>; the process environment is an argument.\<close>

definition spec_deadline_ms :: "(string \<Rightarrow> string option) \<Rightarrow> spec \<Rightarrow> u64" where
  "spec_deadline_ms env s =
     (case env (s_deadline_env s) of
        None \<Rightarrow> s_deadline_ms s
      | Some v \<Rightarrow> (case parse_u64 v of
                     Some n \<Rightarrow> if n > 0 then n else s_deadline_ms s
                   | None \<Rightarrow> s_deadline_ms s))"

definition spec_target :: "spec \<Rightarrow> json \<Rightarrow> param_error + string" where
  "spec_target s params =
     (case param_string params (s_param s) True of
        Err e \<Rightarrow> Err e
      | Ok v \<Rightarrow> Ok (case v of Some t \<Rightarrow> t | None \<Rightarrow> []))"

definition is_safety :: "string \<Rightarrow> json \<Rightarrow> bool" where
  "is_safety a params =
     (if a \<noteq> ''cellular.set'' then False
      else case params of
        JObject m \<Rightarrow>
          m \<noteq> [] \<and> list_all (\<lambda>(k, _). k = ''enabled'' \<or> k = ''roaming'') m
          \<and> list_all (\<lambda>(k, _). param_boolean params k = Ok False) m
      | _ \<Rightarrow> False)"

definition session_steps :: "string list" where
  "session_steps = [''netselect.scan'', ''netselect.register'']"

definition session_optional :: "string list" where
  "session_optional = [''netselect.auto'', ''cellular.redial'']"

definition session_blocks :: "string list" where
  "session_blocks = [''cellular.set'', ''network.set_mode'', ''band.set_lte'', ''band.set_nr_sa'',
     ''band.set_nr_nsa'', ''band.reset'', ''cell.lock_lte'', ''cell.lock_nr'', ''apn.set_mode'',
     ''apn.enable'', ''apn.add'', ''apn.modify'', ''apn.delete'', ''modem.online'', ''apn.set_pdp_type'']"

definition network_vendor_calls :: "(string \<times> string) list" where
  "network_vendor_calls = [
     (''zte_nwinfo_api'', ''nwinfo_set_stc_white_list_par''),
     (''zte_nwinfo_api'', ''nwinfo_stc_cell_lock_enable''),
     (''zte_nwinfo_api'', ''nwinfo_stc_cell_lock_disable''),
     (''zte_nwinfo_api'', ''nwinfo_stc_cell_lock_reset''),
     (''zwrt_zte_mdm.api'', ''sim_verify_pin_puk''),
     (''zwrt_zte_mdm.api'', ''sim_change_pin''),
     (''zwrt_zte_mdm.api'', ''sim_change_pin_mode''),
     (''zwrt_zte_mdm.api'', ''set_simlock_nck'')]"

definition jstr :: "json \<Rightarrow> string \<Rightarrow> string option" where
  "jstr v k = (case jget k v of Some x \<Rightarrow> as_str x | None \<Rightarrow> None)"

definition affects_network :: "string \<Rightarrow> json \<Rightarrow> bool" where
  "affects_network a params =
     (if spec_find a \<noteq> None then False
      else if a \<in> set session_blocks \<or> a \<in> set session_optional then True
      else a = ''vendor.call'' \<and>
        list_ex (\<lambda>(obj, meth). jstr params ''object'' = Some obj \<and> jstr params ''method'' = Some meth)
          network_vendor_calls)"

section \<open>Facts\<close>

lemma spec_find_Some:
  assumes "spec_find a = Some s"
  shows "s \<in> set specs" "s_action s = a"
  using assms by (auto simp: spec_find_def find_Some_iff)

text \<open>What a parameter map turns on: some parameter reads as true.\<close>

definition turns_on :: "json \<Rightarrow> string \<Rightarrow> bool" where
  "turns_on params k \<longleftrightarrow> param_boolean params k = Ok True"

lemma is_safety_off:
  assumes "is_safety a params"
  obtains m where "a = ''cellular.set''" "params = JObject m"
    "\<And>k. \<not> turns_on params k"
    "\<And>k v. (k, v) \<in> set m \<Longrightarrow> k \<in> {''enabled'', ''roaming''} \<and> param_boolean params k = Ok False"
proof -
  from assms obtain m where m: "params = JObject m" "a = ''cellular.set''"
    "list_all (\<lambda>(k, _). k = ''enabled'' \<or> k = ''roaming'') m"
    "list_all (\<lambda>(k, _). param_boolean params k = Ok False) m"
    by (auto simp: is_safety_def simp del: list.inject split: if_splits json.splits)
  have off: "k \<in> {''enabled'', ''roaming''} \<and> param_boolean params k = Ok False" if "(k, v) \<in> set m" for k v
    using that m(3,4) by (auto simp: list_all_iff)
  have "\<not> turns_on params k" for k
  proof (cases "map_of m k")
    case None
    then show ?thesis by (simp add: turns_on_def param_boolean_def object_def m(1))
  next
    case (Some v)
    with off [of k v] show ?thesis by (auto simp: turns_on_def dest: map_of_SomeD)
  qed
  with m off that show thesis by blast
qed

text \<open>
  A write that is treated as a safety write, and so may cancel a transaction at once, is
  \<open>cellular.set\<close> with nothing but switches that read as off: it never turns anything on and never
  carries another parameter.
\<close>

theorem safety_only_switches_off:
  assumes "is_safety a params"
  shows "a = ''cellular.set'' \<and> spec_find a = None \<and> (\<forall>k. \<not> turns_on params k) \<and>
    (\<exists>m. params = JObject m \<and>
      (\<forall>(k, v) \<in> set m. k \<in> {''enabled'', ''roaming''} \<and> param_boolean params k = Ok False))"
  using assms
proof (cases rule: is_safety_off)
  case (1 m)
  have "spec_find ''cellular.set'' = None" by (simp add: spec_find_def specs_def)
  with 1 show ?thesis by blast
qed

theorem safety_only_switches_off_witness:
  "spec_find ''cellular.set'' = None \<and> \<not> turns_on (JObject [(''enabled'', JNumber (PosInt 0))]) ''roaming''"
proof -
  have "is_safety ''cellular.set'' (JObject [(''enabled'', JNumber (PosInt 0))])"
    by (simp add: is_safety_def param_boolean_def object_def bool_of_json_def as_u64_def)
  from safety_only_switches_off [OF this] show ?thesis by blast
qed

end
