(* ===== verification/Device.thy ===== *)
theory Device
  imports Ubus_Client "HOL-Library.State_Monad"
begin

text \<open>
  What the control actions do to the device, as a state monad: ubus calls
  (\<^verbatim>\<open>executor::call\<close>, \<^verbatim>\<open>state::ubus\<close>), child processes (\<^verbatim>\<open>command::run\<close>), \<^verbatim>\<open>uci\<close> mutations
  (\<^verbatim>\<open>state::uci_write\<close>), AT commands and file operations. Every one of them is recorded, with its
  answer, in the log of the device; the answer is that of an arbitrary environment, a function of the
  log so far. \<open>wp m Q\<close> is the weakest precondition of \<open>m\<close> for a relation \<open>Q\<close> between its result and the
  events it adds.
\<close>

section \<open>The device\<close>

datatype at_cmd = CopsAuto | CfunOnline

datatype file_op = CreateDirAll string | WriteFile string string | SetMode string nat
  | Rename string string | RemoveFile string

text \<open>
  What the program looks at in the answer of an HTTP endpoint; no answer at all is \<open>None\<close>, a body that
  breaks off is \<open>h_body = None\<close>.
\<close>

record http_reply =
  h_success :: bool
  h_content_length :: "nat option"
  h_body :: "string option"

datatype dev_event =
  Ubus string string json "ubus_error + json"
| Run string "string list" nat "string + string"
| At at_cmd "string + string"
| Fs file_op "string + unit"
| Http string string "http_reply option"
| Rand nat string
| Sleep nat

record env =
  e_ubus :: "dev_event list \<Rightarrow> string \<Rightarrow> string \<Rightarrow> json \<Rightarrow> ubus_error + json"
  e_run :: "dev_event list \<Rightarrow> string \<Rightarrow> string list \<Rightarrow> string + string"
  e_at :: "dev_event list \<Rightarrow> at_cmd \<Rightarrow> string + string"
  e_fs :: "dev_event list \<Rightarrow> file_op \<Rightarrow> string + unit"
  e_http :: "dev_event list \<Rightarrow> string \<Rightarrow> string \<Rightarrow> http_reply option"
  e_rand :: "dev_event list \<Rightarrow> nat \<Rightarrow> string"
  e_var :: "string \<Rightarrow> string option"
  e_text :: "ubus_error \<Rightarrow> string"
  e_json_text :: "json \<Rightarrow> string"
  e_json_parse :: "string \<Rightarrow> json option"

text \<open>
  The memory the control actions keep: \<open>RADIO_SECTIONS\<close> of \<^verbatim>\<open>wifi.rs\<close> and \<open>SESSION_KEY\<close> of \<^verbatim>\<open>sms.rs\<close>.
\<close>

record device =
  w_log :: "dev_event list"
  w_radio :: "nat \<Rightarrow> string option"
  w_key :: "string option"

type_synonym 'a io = "(device, 'a) state"

abbreviation ret :: "'a \<Rightarrow> 'a io" where "ret \<equiv> State_Monad.return"

definition log_event :: "(dev_event list \<Rightarrow> 'r) \<Rightarrow> ('r \<Rightarrow> dev_event) \<Rightarrow> 'r io" where
  "log_event answer ev =
     State (\<lambda>w. let r = answer (w_log w) in (r, w\<lparr>w_log := w_log w @ [ev r]\<rparr>))"

definition executor_call :: "env \<Rightarrow> string \<Rightarrow> string \<Rightarrow> json \<Rightarrow> (ubus_error + json) io" where
  "executor_call E obj m args = log_event (\<lambda>l. e_ubus E l obj m args) (Ubus obj m args)"

definition ubus :: "env \<Rightarrow> string \<Rightarrow> string \<Rightarrow> json \<Rightarrow> (string + json) io" where
  "ubus E obj m args = do {
     r \<leftarrow> executor_call E obj m args;
     ret (map_sum (e_text E) id r)
   }"

definition command_run :: "env \<Rightarrow> string \<Rightarrow> string list \<Rightarrow> nat \<Rightarrow> (string + string) io" where
  "command_run E prog args deadline = log_event (\<lambda>l. e_run E l prog args) (Run prog args deadline)"

definition at_send :: "env \<Rightarrow> at_cmd \<Rightarrow> (string + string) io" where
  "at_send E c = log_event (\<lambda>l. e_at E l c) (At c)"

definition fs_do :: "env \<Rightarrow> file_op \<Rightarrow> (string + unit) io" where
  "fs_do E f = log_event (\<lambda>l. e_fs E l f) (Fs f)"

definition http_post :: "env \<Rightarrow> string \<Rightarrow> string \<Rightarrow> http_reply option io" where
  "http_post E url form = log_event (\<lambda>l. e_http E l url form) (Http url form)"

definition fill_bytes :: "env \<Rightarrow> nat \<Rightarrow> string io" where
  "fill_bytes E n = log_event (\<lambda>l. e_rand E l n) (Rand n)"

definition sleep_ms :: "nat \<Rightarrow> unit io" where
  "sleep_ms n = log_event (\<lambda>l. ()) (\<lambda>_. Sleep n)"

definition env_or :: "env \<Rightarrow> string \<Rightarrow> string \<Rightarrow> string" where
  "env_or E name dflt = (case e_var E name of Some v \<Rightarrow> v | None \<Rightarrow> dflt)"

subsection \<open>UCI mutations\<close>

definition uci_bin :: "env \<Rightarrow> string" where
  "uci_bin E = env_or E ''ZWRT_DATAD_UCI_BIN'' ''/sbin/uci''"

definition alnum :: "char \<Rightarrow> bool" where
  "alnum c \<longleftrightarrow> is_digit c \<or> (CHR ''a'' \<le> c \<and> c \<le> CHR ''z'') \<or> (CHR ''A'' \<le> c \<and> c \<le> CHR ''Z'')"

definition bad_text :: "string \<Rightarrow> bool" where
  "bad_text v \<longleftrightarrow> list_ex (\<lambda>c. c = CHR 0x00 \<or> c = CHR 0x0D \<or> c = CHR 0x0A) v"

definition uci_path_ok :: "string \<Rightarrow> bool" where
  "uci_path_ok path \<longleftrightarrow> path \<noteq> [] \<and> length path \<le> 256 \<and> list_all (\<lambda>c. alnum c \<or> c \<in> set ''._-@[]'') path"

definition uci_write :: "env \<Rightarrow> string \<Rightarrow> string \<Rightarrow> string option \<Rightarrow> (string + unit) io" where
  "uci_write E operation path val =
     (if operation \<notin> set [''set'', ''add_list'', ''del_list'', ''delete'', ''commit'', ''revert''] \<or>
         \<not> uci_path_ok path \<or> is_some_and val (\<lambda>v. 8192 < length v \<or> bad_text v)
      then ret (Err ''invalid UCI mutation'')
      else if operation \<in> set [''set'', ''add_list'', ''del_list''] then
        (case val of
           None \<Rightarrow> ret (Err ''missing UCI value'')
         | Some v \<Rightarrow> do {
             r \<leftarrow> command_run E (uci_bin E) [operation, path @ ''='' @ v] (of_secs 5);
             ret (map_sum id (\<lambda>_. ()) r)
           })
      else do {
        r \<leftarrow> command_run E (uci_bin E) [operation, path] (of_secs 5);
        ret (map_sum id (\<lambda>_. ()) r)
      })"

subsection \<open>The radio sections\<close>

definition radio_name_ok :: "string \<Rightarrow> bool" where
  "radio_name_ok v \<longleftrightarrow> v \<noteq> [] \<and> length v \<le> 32 \<and> list_all (\<lambda>c. alnum c \<or> c = CHR ''_'') v"

definition radio_name :: "json option \<Rightarrow> string option" where
  "radio_name reply =
     (case reply of None \<Rightarrow> None | Some j \<Rightarrow>
      case jget ''value'' j of None \<Rightarrow> None | Some v \<Rightarrow>
      case as_str v of None \<Rightarrow> None | Some s \<Rightarrow>
        (let t = trim s in if radio_name_ok t then Some t else None))"

definition band_index :: "string \<Rightarrow> nat" where
  "band_index band = (if band \<noteq> ''2g'' then 1 else 0)"

definition radio_fallback :: "string list" where
  "radio_fallback = [''wifi0'', ''wifi1'']"

definition ok_opt :: "'e + 'a \<Rightarrow> 'a option" where
  "ok_opt r = (case r of Ok v \<Rightarrow> Some v | Err _ \<Rightarrow> None)"

text \<open>
  \<open>OnceLock::get_or_init\<close> keeps the value another caller stored in the meantime; the actions run one
  after another on the executor, so the slot found empty before the call is still empty.
\<close>

definition radio_section :: "env \<Rightarrow> string \<Rightarrow> string io" where
  "radio_section E band = do {
     let i = band_index band;
     w \<leftarrow> State_Monad.get;
     case w_radio w i of
       Some name \<Rightarrow> ret name
     | None \<Rightarrow> do {
         let ap = (if i = 0 then ''main_2g'' else ''main_5g'');
         reply \<leftarrow> ubus E ''uci'' ''get''
           (jobj [(''config'', JString ''wireless''), (''section'', JString ap), (''option'', JString ''device'')]);
         case radio_name (ok_opt reply) of
           Some name \<Rightarrow> do {
             State_Monad.update (\<lambda>w. w\<lparr>w_radio := (w_radio w)(i \<mapsto> name)\<rparr>);
             ret name
           }
         | None \<Rightarrow> ret (radio_fallback ! i)
       }
   }"

definition radio_sections :: "env \<Rightarrow> (string list) io" where
  "radio_sections E = do {
     a \<leftarrow> radio_section E ''2g'';
     b \<leftarrow> radio_section E ''5g'';
     ret [a, b]
   }"

subsection \<open>Numbers in texts\<close>

text \<open>\<open>str::parse::<i64>\<close>, as the 64 bits of the result.\<close>

definition parse_i64 :: "string \<Rightarrow> u64 option" where
  "parse_i64 s =
     (case s of
        c # cs \<Rightarrow>
          if c = CHR ''-'' then
            (if cs = [] \<or> \<not> list_all is_digit cs \<or> 2 ^ 63 < digits_val cs then None
             else Some (- of_nat (digits_val cs)))
          else (case parse_nat s of Some n \<Rightarrow> if n < 2 ^ 63 then Some (of_nat n) else None | None \<Rightarrow> None)
      | [] \<Rightarrow> None)"

section \<open>Weakest preconditions\<close>

text \<open>The names remembered for the radios are usable section names.\<close>

definition device_ok :: "device \<Rightarrow> bool" where
  "device_ok w \<longleftrightarrow> (\<forall>i name. w_radio w i = Some name \<longrightarrow> radio_name_ok name)"

definition wp :: "'a io \<Rightarrow> ('a \<Rightarrow> dev_event list \<Rightarrow> bool) \<Rightarrow> bool" where
  "wp m Q \<longleftrightarrow> (\<forall>w. device_ok w \<longrightarrow> device_ok (snd (run_state m w)) \<and>
     (\<exists>es. w_log (snd (run_state m w)) = w_log w @ es \<and> Q (fst (run_state m w)) es))"

lemma wpD:
  assumes "wp m Q" "device_ok w"
  obtains r w' es where "run_state m w = (r, w')" "device_ok w'" "w_log w' = w_log w @ es" "Q r es"
  using assms unfolding wp_def by (metis prod.collapse)

lemma wp_mono: "wp m Q \<Longrightarrow> (\<And>r es. Q r es \<Longrightarrow> R r es) \<Longrightarrow> wp m R"
  unfolding wp_def by blast

lemma wp_return: "Q x [] \<Longrightarrow> wp (ret x) Q"
  by (simp add: wp_def)

lemma wp_bind:
  assumes "wp m (\<lambda>x es. wp (f x) (\<lambda>y es'. Q y (es @ es')))"
  shows "wp (m \<bind> f) Q"
  unfolding wp_def
proof (intro allI impI)
  fix w assume w: "device_ok w"
  obtain r w1 es where 1: "run_state m w = (r, w1)" "device_ok w1" "w_log w1 = w_log w @ es"
      "wp (f r) (\<lambda>y es'. Q y (es @ es'))"
    using wpD [OF assms w] by metis
  obtain r' w2 es' where 2: "run_state (f r) w1 = (r', w2)" "device_ok w2" "w_log w2 = w_log w1 @ es'" "Q r' (es @ es')"
    using wpD [OF 1(4,2)] by metis
  show "device_ok (snd (run_state (m \<bind> f) w)) \<and>
      (\<exists>es. w_log (snd (run_state (m \<bind> f) w)) = w_log w @ es \<and> Q (fst (run_state (m \<bind> f) w)) es)"
    using 1 2 by simp
qed

lemma wp_log_event: "(\<And>r. Q r [ev r]) \<Longrightarrow> wp (log_event answer ev) Q"
  by (simp add: wp_def log_event_def Let_def device_ok_def)

lemma wp_conj: "wp m Q \<Longrightarrow> wp m R \<Longrightarrow> wp m (\<lambda>r es. Q r es \<and> R r es)"
  unfolding wp_def by (metis same_append_eq)

lemma wp_ubus: "(\<And>r. Q (map_sum (e_text E) id r) [Ubus obj m args r]) \<Longrightarrow> wp (ubus E obj m args) Q"
  unfolding ubus_def executor_call_def by (intro wp_bind wp_log_event wp_return) simp

lemma wp_executor_call: "(\<And>r. Q r [Ubus obj m args r]) \<Longrightarrow> wp (executor_call E obj m args) Q"
  unfolding executor_call_def by (rule wp_log_event)

lemma wp_command_run: "(\<And>r. Q r [Run prog args d r]) \<Longrightarrow> wp (command_run E prog args d) Q"
  unfolding command_run_def by (rule wp_log_event)

lemma wp_at_send: "(\<And>r. Q r [At c r]) \<Longrightarrow> wp (at_send E c) Q"
  unfolding at_send_def by (rule wp_log_event)

lemma wp_fs_do: "(\<And>r. Q r [Fs f r]) \<Longrightarrow> wp (fs_do E f) Q"
  unfolding fs_do_def by (rule wp_log_event)

lemma wp_http_post: "(\<And>r. Q r [Http url form r]) \<Longrightarrow> wp (http_post E url form) Q"
  unfolding http_post_def by (rule wp_log_event)

lemma wp_fill_bytes: "(\<And>r. Q r [Rand n r]) \<Longrightarrow> wp (fill_bytes E n) Q"
  unfolding fill_bytes_def by (rule wp_log_event)

lemma wp_sleep_ms: "Q () [Sleep n] \<Longrightarrow> wp (sleep_ms n) Q"
  unfolding sleep_ms_def by (rule wp_log_event) simp

lemma wp_get: "(\<And>w. wp (f w) Q) \<Longrightarrow> wp (State_Monad.get \<bind> f) Q"
  by (simp add: wp_def)

lemma wp_set_key: "Q () [] \<Longrightarrow> wp (State_Monad.update (\<lambda>w. w\<lparr>w_key := k\<rparr>)) Q"
  by (simp add: wp_def State_Monad.update_def device_ok_def)

lemmas wp_rules = wp_bind wp_return wp_ubus wp_executor_call wp_command_run wp_at_send wp_fs_do
  wp_http_post wp_fill_bytes wp_sleep_ms wp_set_key

text \<open>A program all of whose events satisfy a predicate.\<close>

definition emits :: "(dev_event \<Rightarrow> bool) \<Rightarrow> 'a io \<Rightarrow> bool" where
  "emits P m \<longleftrightarrow> wp m (\<lambda>_. list_all P)"

lemma emits_return [simp]: "emits P (ret x)"
  by (simp add: emits_def wp_return)

lemma emits_bind: "emits P m \<Longrightarrow> (\<And>x. emits P (f x)) \<Longrightarrow> emits P (m \<bind> f)"
  unfolding emits_def by (rule wp_bind) (erule wp_mono, rule wp_mono, auto)

lemma radio_name_result: "radio_name r = Some n \<Longrightarrow> radio_name_ok n"
  by (auto simp: radio_name_def Let_def split: option.splits if_splits)

lemma radio_fallback_ok: "radio_name_ok (radio_fallback ! 0)" "radio_name_ok (radio_fallback ! band_index b)"
proof -
  have "radio_name_ok ''wifi0''" "radio_name_ok ''wifi1''" by code_simp+
  then show "radio_name_ok (radio_fallback ! 0)" "radio_name_ok (radio_fallback ! band_index b)"
    by (simp_all add: band_index_def radio_fallback_def)
qed

text \<open>The request \<open>radio_section\<close> sends.\<close>

definition radio_read :: "string \<Rightarrow> dev_event \<Rightarrow> bool" where
  "radio_read band e \<longleftrightarrow> (\<exists>r. e = Ubus ''uci'' ''get''
     (jobj [(''config'', JString ''wireless''),
       (''section'', JString (if band_index band = 0 then ''main_2g'' else ''main_5g'')), (''option'', JString ''device'')]) r)"

lemma wp_radio_section:
  "wp (radio_section E band) (\<lambda>n es. radio_name_ok n \<and> list_all (radio_read band) es)"
  unfolding wp_def
proof (intro allI impI)
  fix w assume w: "device_ok w"
  let ?i = "band_index band"
  show "device_ok (snd (run_state (radio_section E band) w)) \<and>
    (\<exists>es. w_log (snd (run_state (radio_section E band) w)) = w_log w @ es \<and>
      radio_name_ok (fst (run_state (radio_section E band) w)) \<and> list_all (radio_read band) es)"
  proof (cases "w_radio w ?i")
    case None
    then show ?thesis using w radio_name_result radio_fallback_ok(1) radio_fallback_ok(2) [of band]
      by (auto simp: radio_section_def ubus_def executor_call_def log_event_def Let_def device_ok_def
          State_Monad.update_def radio_read_def split: option.split)
  next
    case (Some n)
    then show ?thesis using w by (simp add: radio_section_def device_ok_def Let_def)
  qed
qed

lemma wp_radio_sections:
  "wp (radio_sections E) (\<lambda>ns es. list_all radio_name_ok ns \<and>
     list_all (\<lambda>e. radio_read ''2g'' e \<or> radio_read ''5g'' e) es)"
  unfolding radio_sections_def
  by (rule wp_bind, rule wp_mono [OF wp_radio_section], rule wp_bind, rule wp_mono [OF wp_radio_section],
      rule wp_return) (auto simp: list_all_iff)

end
