(* ===== verification/Sms.thy ===== *)
theory Sms
  imports Device "HOL-Library.Multiset"
begin

text \<open>
  Sending and listing short messages (\<^verbatim>\<open>rust/src/sms.rs\<close>). The cryptographic libraries are the
  record \<open>crypto\<close>: RSA key parsing and wrapping, AES-GCM sealing and opening, base64. Random bytes are
  events. \<open>list_after_with\<close> is the paging algorithm behind \<open>sms.list_after\<close>; the page reader is its
  argument, as in the source.
\<close>

section \<open>Libraries\<close>

text \<open>
  \<open>c_rsa_wrap\<close> is \<open>None\<close> for a text that is no public key in either encoding; the wrapping takes the
  random padding. \<open>c_open\<close> gives the decrypted bytes as text.
\<close>

record crypto =
  c_rsa_wrap :: "string \<Rightarrow> (string \<Rightarrow> string \<Rightarrow> string option) option"
  c_seal :: "string \<Rightarrow> string \<Rightarrow> string \<Rightarrow> string option"
  c_open :: "string \<Rightarrow> string \<Rightarrow> string \<Rightarrow> string option"
  c_b64 :: "string \<Rightarrow> string"
  c_unb64 :: "string \<Rightarrow> string option"

section \<open>Parameters of a message\<close>

definition is_hexdigit :: "char \<Rightarrow> bool" where
  "is_hexdigit c \<longleftrightarrow> is_digit c \<or> (CHR ''a'' \<le> c \<and> c \<le> CHR ''f'') \<or> (CHR ''A'' \<le> c \<and> c \<le> CHR ''F'')"

definition valid_number :: "string \<Rightarrow> bool" where
  "valid_number number =
     (number \<noteq> [] \<and> length number \<le> 32 \<and>
      list_all (\<lambda>(i, c). is_digit c \<or> (i = 0 \<and> c = CHR ''+'')) (enumerate 0 number))"

definition valid :: "string \<Rightarrow> string \<Rightarrow> string \<Rightarrow> bool" where
  "valid number message sms_time =
     (valid_number number \<and>
      message \<noteq> [] \<and> length message \<le> 4096 \<and> even (length message) \<and> list_all is_hexdigit message \<and>
      sms_time \<noteq> [] \<and> length sms_time \<le> 64 \<and>
      list_all (\<lambda>c. is_digit c \<or> c \<in> set '';+-'') sms_time)"

section \<open>The vendor's envelope\<close>

definition hex_digit :: "nat \<Rightarrow> char" where
  "hex_digit n = (if n < 10 then char_of (48 + n) else char_of (87 + n))"

definition hex_byte :: "char \<Rightarrow> string" where
  "hex_byte c = (let n = of_char c :: nat in [hex_digit (n div 16), hex_digit (n mod 16)])"

definition ensure_crypto_session :: "env \<Rightarrow> crypto \<Rightarrow> (string + string) io" where
  "ensure_crypto_session E C = do {
     w \<leftarrow> State_Monad.get;
     case w_key w of
       Some key \<Rightarrow> ret (Ok key)
     | None \<Rightarrow> do {
         reply \<leftarrow> ubus E ''zwrt_web'' ''web_crt_get'' (jobj []);
         case reply of Err e \<Rightarrow> ret (Err e) | Ok reply \<Rightarrow>
         case Option.bind (jget ''result'' reply) as_str of
           None \<Rightarrow> ret (Err ''vendor RSA certificate unavailable'')
         | Some pem \<Rightarrow>
         case c_rsa_wrap C pem of
           None \<Rightarrow> ret (Err ''invalid vendor RSA public key'')
         | Some wrap \<Rightarrow> do {
             key \<leftarrow> fill_bytes E 32;
             padding \<leftarrow> fill_bytes E 0;
             case wrap padding (concat (map hex_byte key)) of
               None \<Rightarrow> ret (Err ''vendor RSA key registration failed'')
             | Some wrapped \<Rightarrow> do {
                 r \<leftarrow> ubus E ''zwrt_web'' ''web_http_enstr_set'' (jobj [(''web_enstr'', JString (c_b64 C wrapped))]);
                 case r of
                   Err e \<Rightarrow> ret (Err e)
                 | Ok _ \<Rightarrow> do {
                     State_Monad.update (\<lambda>w. w\<lparr>w_key := Some key\<rparr>);
                     ret (Ok key)
                   }
               }
           }
       }
   }"

definition encrypt :: "env \<Rightarrow> crypto \<Rightarrow> string \<Rightarrow> string \<Rightarrow> (string + string) io" where
  "encrypt E C key plaintext = do {
     nonce \<leftarrow> fill_bytes E 12;
     ret (case c_seal C key nonce plaintext of
            None \<Rightarrow> Err ''SMS envelope encryption failed''
          | Some enc \<Rightarrow>
              if length enc < 16 then Err ''SMS envelope encryption failed''
              else
                (let n = length enc - 16; tag = drop n enc; enc = take n enc
                 in Ok (c_b64 C (nonce @ tag @ enc))))
   }"

definition open_envelope :: "crypto \<Rightarrow> string option \<Rightarrow> string \<Rightarrow> string + string option" where
  "open_envelope C key v =
     (if length v < 40 \<or> even (length v) \<and> list_all is_hexdigit v then Ok None
      else case c_unb64 C v of
        None \<Rightarrow> Ok None
      | Some raw \<Rightarrow>
          if length raw \<le> 28 then Ok None
          else case key of
            None \<Rightarrow> Err ''vendor SMS crypto session unavailable''
          | Some key \<Rightarrow>
              (case c_open C key (take 12 raw) (drop 28 raw @ take 16 (drop 12 raw)) of
                 Some plain \<Rightarrow> Ok (Some plain)
               | None \<Rightarrow> Err ''SMS envelope authentication failed''))"

section \<open>Listing messages\<close>

definition list_page :: nat where "list_page = 50"
definition list_limit_max :: u64 where "list_limit_max = 50"
definition list_max_pages :: nat where "list_max_pages = 20"

definition item_id :: "json \<Rightarrow> u64 option" where
  "item_id it =
     (case jget ''id'' it of None \<Rightarrow> None | Some v \<Rightarrow>
      case as_u64 v of Some n \<Rightarrow> Some n | None \<Rightarrow>
      case as_str v of None \<Rightarrow> None | Some s \<Rightarrow> parse_u64 (trim s))"

definition or_else :: "'a option \<Rightarrow> 'a option \<Rightarrow> 'a option" where
  "or_else a b = (case a of Some x \<Rightarrow> Some x | None \<Rightarrow> b)"

definition page_items :: "json \<Rightarrow> json list" where
  "page_items reply =
     (case Option.bind (or_else (jget ''messages'' reply) (jget ''list'' reply)) as_array of
        Some a \<Rightarrow> a | None \<Rightarrow> [])"

definition jnat :: "nat \<Rightarrow> json" where
  "jnat n = JNumber (PosInt (of_nat n))"

definition list_page_args :: "nat \<Rightarrow> nat \<Rightarrow> json" where
  "list_page_args mem_store page =
     jobj [(''page'', jnat page), (''data_per_page'', jnat list_page), (''mem_store'', jnat mem_store),
       (''tags'', jnat 10), (''order_by'', JString ''order by id desc'')]"

text \<open>The loop over the items of one page: whether \<open>after_id\<close> was reached, whether an id was new.\<close>

fun scan_items :: "u64 \<Rightarrow> json list \<Rightarrow> bool \<times> bool \<times> (u64 \<times> json) list \<Rightarrow> bool \<times> bool \<times> (u64 \<times> json) list" where
  "scan_items after_id [] s = s"
| "scan_items after_id (it # items) (hit, fresh, found) =
     scan_items after_id items
       (case item_id it of
          None \<Rightarrow> (hit, fresh, found)
        | Some i \<Rightarrow>
            if i \<le> after_id then (True, fresh, found)
            else if map_of found i = None then (hit, True, map_insert i it found)
            else (hit, fresh, found))"

definition store_text :: "nat \<Rightarrow> string" where
  "store_text store = ''mem_store '' @ nat_digits store @ '': ''"

text \<open>
  The pages of one store; \<open>n\<close> pages may still be read (\<open>page + n\<close> is \<open>LIST_MAX_PAGES\<close>).
\<close>

fun list_store :: "(nat \<Rightarrow> nat \<Rightarrow> (string + json) io) \<Rightarrow> u64 \<Rightarrow> nat \<Rightarrow> nat \<Rightarrow> nat \<Rightarrow> u64 set option \<Rightarrow>
    (u64 \<times> json) list \<Rightarrow> (string + (u64 \<times> json) list) io" where
  "list_store fetch after_id store 0 page prev found =
     ret (Err (store_text store @ ''more than '' @ nat_digits (list_max_pages * list_page) @
       '' SMS above id '' @ nat_digits (unat after_id)))"
| "list_store fetch after_id store (Suc n) page prev found = do {
     r \<leftarrow> fetch store page;
     case r of
       Err e \<Rightarrow> ret (Err (store_text store @ e))
     | Ok reply \<Rightarrow>
         let items = page_items reply;
             ids = set (List.map_filter item_id items)
         in
         if list_page \<le> length items \<and> prev = Some ids then
           ret (Err (store_text store @ ''page '' @ nat_digits page @ '' repeats page '' @ nat_digits (page - 1) @
             '' (firmware ignored page)''))
         else
           case scan_items after_id items (False, False, found) of
             (hit, fresh, found) \<Rightarrow>
               if hit \<or> \<not> fresh \<or> length items < list_page then ret (Ok found)
               else list_store fetch after_id store n (page + 1) (Some ids) found
   }"

fun list_stores :: "(nat \<Rightarrow> nat \<Rightarrow> (string + json) io) \<Rightarrow> u64 \<Rightarrow> nat list \<Rightarrow> (u64 \<times> json) list \<Rightarrow>
    (string + (u64 \<times> json) list) io" where
  "list_stores fetch after_id [] found = ret (Ok found)"
| "list_stores fetch after_id (store # stores) found = do {
     r \<leftarrow> list_store fetch after_id store list_max_pages 0 None found;
     case r of Err e \<Rightarrow> ret (Err e) | Ok found \<Rightarrow> list_stores fetch after_id stores found
   }"

definition list_after_with :: "u64 \<Rightarrow> u64 \<Rightarrow> (nat \<Rightarrow> nat \<Rightarrow> (string + json) io) \<Rightarrow> (string + json list \<times> bool) io" where
  "list_after_with after_id limit fetch = do {
     r \<leftarrow> list_stores fetch after_id [1, 0] [];
     ret (case r of
            Err e \<Rightarrow> Err e
          | Ok found \<Rightarrow> Ok (take (unat limit) (map snd found), unat limit < length found))
   }"

definition plain_item :: "crypto \<Rightarrow> string option \<Rightarrow> json \<Rightarrow> json" where
  "plain_item C key it =
     (let text = (\<lambda>name. Option.bind (jget name it) as_str);
          plain = (\<lambda>name alt.
            let raw = (case or_else (text name) (text alt) of Some s \<Rightarrow> s | None \<Rightarrow> [])
            in (name, JString (case open_envelope C key raw of Ok (Some p) \<Rightarrow> p | _ \<Rightarrow> raw)));
          copied = List.map_filter (\<lambda>name. map_option (Pair name) (jget name it)) [''date'', ''tag'', ''mem_store'']
      in jobj ([(''id'', JNumber (PosInt (case item_id it of Some i \<Rightarrow> i | None \<Rightarrow> 0))),
           plain ''number'' ''num'', plain ''content'' ''text''] @ copied))"

text \<open>The first component of an error says whether the parameters were at fault.\<close>

definition list_number :: "(string \<times> json) list \<Rightarrow> string \<Rightarrow> u64 \<Rightarrow> (bool \<times> string) + u64" where
  "list_number m name dflt =
     (case map_of m name of
        None \<Rightarrow> Ok dflt
      | Some v \<Rightarrow> (case as_u64 v of Some n \<Rightarrow> Ok n
                   | None \<Rightarrow> Err (True, name @ '' must be a non-negative integer'')))"

definition list_after :: "env \<Rightarrow> crypto \<Rightarrow> (string \<times> json) list \<Rightarrow> ((bool \<times> string) + json) io" where
  "list_after E C m =
     (case list_number m ''after_id'' 0 of Err e \<Rightarrow> ret (Err e) | Ok after_id \<Rightarrow>
      case list_number m ''limit'' list_limit_max of Err e \<Rightarrow> ret (Err e) | Ok limit \<Rightarrow>
      if limit = 0 \<or> list_limit_max < limit then ret (Err (True, ''limit must be 1..=50''))
      else do {
        r \<leftarrow> list_after_with after_id limit
          (\<lambda>store page. ubus E ''zwrt_wms'' ''zte_libwms_get_sms_data'' (list_page_args store page));
        case r of
          Err e \<Rightarrow> ret (Err (False, e))
        | Ok (items, has_more) \<Rightarrow> do {
            w \<leftarrow> State_Monad.get;
            ret (Ok (jobj [(''items'', JArray (map (plain_item C (w_key w)) items)), (''has_more'', JBool has_more)]))
          }
      })"

section \<open>Sending\<close>

definition encode_plus :: "string \<Rightarrow> string" where
  "encode_plus s = concat (map (\<lambda>c. if c = CHR ''+'' then ''%2B'' else [c]) s)"

definition send_external :: "env \<Rightarrow> string \<Rightarrow> string \<Rightarrow> string \<Rightarrow> string \<Rightarrow> (string + json) io" where
  "send_external E sender number message sms_time =
     (let dflt = (if sender = ''v3e1'' then ''http://192.168.56.1/goform/goform_set_cmd_process''
                  else ''http://192.168.57.1/goform/goform_set_cmd_process'');
          variable = (if sender = ''v3e1'' then ''ZWRT_DATAD_SMS_V3E1_URL'' else ''ZWRT_DATAD_SMS_V3E2_URL'');
          url = env_or E variable dflt;
          form = ''goformId=SEND_SMS&Number='' @ encode_plus number @ ''&MessageBody='' @ message @
            ''&ID=-1&encode_type=UNICODE&sms_time='' @ encode_plus sms_time;
          failed = Err (sender @ '' SMS send failed'')
      in do {
        r \<leftarrow> http_post E url form;
        ret (case r of
               None \<Rightarrow> Err (sender @ '' SMS endpoint unavailable'')
             | Some rep \<Rightarrow>
                 if \<not> h_success rep \<or> is_some_and (h_content_length rep) (\<lambda>n. 4096 < n) then failed
                 else case h_body rep of
                   None \<Rightarrow> failed
                 | Some bytes \<Rightarrow>
                     if 4096 < length bytes \<or>
                        Option.bind (Option.bind (e_json_parse E bytes) (jget ''result'')) as_str \<noteq> Some ''success''
                     then failed
                     else Ok (jobj [(''sender'', JString sender), (''status'', jnat 3)]))
      })"

definition current_slot :: "env \<Rightarrow> u64 io" where
  "current_slot E = do {
     r \<leftarrow> ubus E ''zwrt_zte_mdm.api'' ''get_sim_info'' (jobj []);
     ret (case Option.bind (Option.bind (ok_opt r) (\<lambda>v. or_else (jget ''current_sim_slot'' v) (jget ''sim_slot'' v))) as_i64 of
            Some n \<Rightarrow> n | None \<Rightarrow> 0)
   }"

definition provision :: "env \<Rightarrow> nat \<Rightarrow> nat \<Rightarrow> (string + json) io" where
  "provision E slot flag =
     ubus E ''zwrt_zte_mdm.api'' ''zwrt_mdm_change_provision_session''
       (jobj [(''active_slot'', jnat slot), (''active_flag'', jnat flag)])"

fun wait_slot :: "env \<Rightarrow> nat \<Rightarrow> nat \<Rightarrow> (string + unit) io" where
  "wait_slot E slot 0 = ret (Err (''SIM slot '' @ nat_digits slot @ '' did not become active''))"
| "wait_slot E slot (Suc n) = do {
     s \<leftarrow> current_slot E;
     if s = of_nat slot then ret (Ok ())
     else do {
       sleep_ms 500;
       wait_slot E slot n
     }
   }"

definition select_slot :: "env \<Rightarrow> nat \<Rightarrow> (string + unit) io" where
  "select_slot E slot = do {
     let other = (if slot = 2 then 1 else 2);
     _ \<leftarrow> provision E other 0;
     r \<leftarrow> provision E slot 1;
     case r of Err e \<Rightarrow> ret (Err e) | Ok _ \<Rightarrow> wait_slot E slot 30
   }"

fun wait_sent :: "env \<Rightarrow> nat \<Rightarrow> (string + json) io" where
  "wait_sent E 0 = ret (Err ''zwrt_wms SMS command timed out'')"
| "wait_sent E (Suc n) = do {
     sleep_ms 500;
     r \<leftarrow> ubus E ''zwrt_wms'' ''zwrt_wms_get_cmd_status'' (jobj [(''sms_cmd'', jnat 4)]);
     case r of
       Err _ \<Rightarrow> wait_sent E n
     | Ok reply \<Rightarrow>
         let st = Option.bind (jget ''sms_cmd_status_result'' reply) as_i64 in
         if st = Some 3 then ret (Ok (jobj [(''sender'', JString ''host''), (''status'', jnat 3)]))
         else if st = Some 2 then ret (Err ''zwrt_wms SMS command failed'')
         else wait_sent E n
   }"

definition send_host :: "env \<Rightarrow> crypto \<Rightarrow> string \<Rightarrow> string \<Rightarrow> string \<Rightarrow> (string + json) io" where
  "send_host E C number message sms_time = do {
     k \<leftarrow> ensure_crypto_session E C;
     case k of Err e \<Rightarrow> ret (Err e) | Ok key \<Rightarrow> do {
     en \<leftarrow> encrypt E C key number;
     case en of Err e \<Rightarrow> ret (Err e) | Ok encrypted_number \<Rightarrow> do {
     em \<leftarrow> encrypt E C key message;
     case em of Err e \<Rightarrow> ret (Err e) | Ok encrypted_message \<Rightarrow> do {
     r \<leftarrow> ubus E ''zwrt_wms'' ''zte_libwms_send_sms''
       (jobj [(''number'', JString encrypted_number), (''message_body'', JString encrypted_message),
          (''sms_time'', JString sms_time), (''encode_type'', JString ''UNICODE''), (''id'', JString ''-1'')]);
     case r of Err e \<Rightarrow> ret (Err e) | Ok _ \<Rightarrow> wait_sent E 20
     }}}
   }"

definition send :: "env \<Rightarrow> crypto \<Rightarrow> (string \<times> json) list \<Rightarrow> ((bool \<times> string) + json) io" where
  "send E C m =
     (let text = (\<lambda>name. Option.bind (map_of m name) as_str);
          sender = (case text ''sender'' of Some s \<Rightarrow> s | None \<Rightarrow> ''host'');
          lift = (\<lambda>r. ret (map_sum (Pair False) id r))
      in case (text ''number'', text ''message_hex'', text ''sms_time'') of
           (Some number, Some message, Some sms_time) \<Rightarrow>
             if \<not> valid number message sms_time then ret (Err (True, ''invalid SMS parameters''))
             else if sender = ''v3e1'' \<or> sender = ''v3e2'' then send_external E sender number message sms_time \<bind> lift
             else if sender = ''host'' \<or> sender = ''x75'' then send_host E C number message sms_time \<bind> lift
             else if sender = ''sim1'' \<or> sender = ''sim2'' then do {
               let slot = (if sender = ''sim1'' then 1 else 2 :: nat);
               s \<leftarrow> current_slot E;
               r \<leftarrow> (if s \<noteq> of_nat slot then select_slot E slot else ret (Ok ()));
               case r of
                 Err e \<Rightarrow> ret (Err (False, e))
               | Ok _ \<Rightarrow> send_host E C number message sms_time \<bind> lift
             }
             else ret (Err (True, ''invalid SMS sender''))
         | _ \<Rightarrow> ret (Err (True, ''missing SMS parameters'')))"

section \<open>The short message block\<close>

text \<open>\<open>as_i64\<close>, or a decimal text; \<open>i64\<close> sums wrap.\<close>

definition num_or_text :: "json \<Rightarrow> u64 option" where
  "num_or_text v = or_else (as_i64 v) (Option.bind (as_str v) (\<lambda>s. parse_i64 (trim s)))"

definition jint :: "u64 \<Rightarrow> json" where
  "jint n = JNumber (if n < 2 ^ 63 then PosInt n else NegInt n)"

definition block_data :: "json \<Rightarrow> json \<Rightarrow> json \<Rightarrow> json" where
  "block_data capacity nv si =
     (let num = (\<lambda>name. case Option.bind (jget name capacity) num_or_text of Some n \<Rightarrow> n | None \<Rightarrow> 0);
          max_id = fold max (List.map_filter item_id (page_items nv @ page_items si)) 0;
          total = sum_list (map num (concat (map (\<lambda>store. map (\<lambda>kind. ''sms_'' @ store @ ''_'' @ kind @ ''_total'')
            [''rev'', ''send'', ''draftbox'']) [''nv'', ''sim''])))
      in jobj [(''unread'', jint (num ''sms_dev_unread_num'' + num ''sms_sim_unread_num'')),
           (''max_id'', JNumber (PosInt max_id)), (''count'', jint total)])"

section \<open>Paging finds exactly the newer messages\<close>

text \<open>
  A store as the firmware lists it: every item has an id and the ids fall strictly. \<open>serves\<close>: the page
  reader answers from the given stores, fifty items a page.
\<close>

definition id_of :: "json \<Rightarrow> u64" where
  "id_of x = the (item_id x)"

definition listing :: "json list \<Rightarrow> bool" where
  "listing xs \<longleftrightarrow> (\<forall>x \<in> set xs. item_id x \<noteq> None) \<and> sorted_wrt (\<lambda>x y. id_of y < id_of x) xs"

definition serves :: "(nat \<Rightarrow> nat \<Rightarrow> (string + json) io) \<Rightarrow> (nat \<Rightarrow> json list) \<Rightarrow> bool" where
  "serves fetch stores \<longleftrightarrow> (\<forall>store page w. \<exists>reply. fst (run_state (fetch store page) w) = Ok reply \<and>
     page_items reply = take list_page (drop (list_page * page) (stores store)))"

definition newer :: "u64 \<Rightarrow> json list \<Rightarrow> json list" where
  "newer after_id xs = filter (\<lambda>x. after_id < id_of x) xs"

definition add_all :: "json list \<Rightarrow> (u64 \<times> json) list \<Rightarrow> (u64 \<times> json) list" where
  "add_all xs found = fold (\<lambda>x. map_insert (id_of x) x) xs found"

lemma newer_append [simp]: "newer a (xs @ ys) = newer a xs @ newer a ys"
  by (simp add: newer_def)

lemma add_all_simps [simp]: "add_all [] m = m" "add_all (x # xs) m = add_all xs (map_insert (id_of x) x m)"
  "add_all (xs @ ys) m = add_all ys (add_all xs m)"
  by (simp_all add: add_all_def)

lemma keys_add_all: "fst ` set (add_all xs m) = id_of ` set xs \<union> fst ` set m"
  by (induction xs arbitrary: m) auto

lemma map_of_None: "map_of m k = None \<longleftrightarrow> k \<notin> fst ` set m"
  by (simp add: map_of_eq_None_iff)

lemma scan_items_spec:
  assumes "\<forall>x \<in> set xs. item_id x \<noteq> None" "distinct (map id_of xs)" "id_of ` set (newer a xs) \<inter> fst ` set found = {}"
  shows "scan_items a xs (hit, fresh, found) =
    (hit \<or> newer a xs \<noteq> xs, fresh \<or> newer a xs \<noteq> [], add_all (newer a xs) found)"
  using assms
proof (induction xs arbitrary: hit fresh found)
  case (Cons x xs)
  then have x: "item_id x = Some (id_of x)" by (auto simp: id_of_def)
  have len: "newer a xs \<noteq> x # xs" unfolding newer_def by (metis impossible_Cons length_filter_le)
  show ?case
  proof (cases "a < id_of x")
    case True
    then have n: "newer a (x # xs) = x # newer a xs" by (simp add: newer_def)
    have "id_of x \<notin> fst ` set found" using Cons.prems(3) by (auto simp: n)
    moreover have "id_of ` set (newer a xs) \<inter> fst ` set (map_insert (id_of x) x found) = {}"
    proof -
      have "id_of ` set (newer a xs) \<inter> fst ` set found = {}" using Cons.prems(3) by (auto simp: n)
      moreover have "id_of x \<notin> id_of ` set (newer a xs)" using Cons.prems(2) by (auto simp: newer_def)
      ultimately show ?thesis by (simp add: Int_insert_right)
    qed
    moreover have "\<not> id_of x \<le> a" using True by simp
    ultimately show ?thesis using Cons.IH [of "map_insert (id_of x) x found"] Cons.prems(1,2) x
      by (simp add: n map_of_None)
  next
    case False
    then have n: "newer a (x # xs) = newer a xs" by (simp add: newer_def)
    have "newer a xs \<noteq> x # xs" by (fact len)
    then show ?thesis using Cons.IH [of found True] Cons.prems False x by (simp add: n not_less)
  qed
qed (simp add: newer_def)

lemma set_map_filter: "set (List.map_filter f xs) = {y. \<exists>x \<in> set xs. f x = Some y}"
  by (force simp: List.map_filter_def)

lemma listing_take_drop: "listing xs \<Longrightarrow> listing (take n (drop k xs))"
  by (auto simp: listing_def sorted_wrt_drop sorted_wrt_take dest: in_set_takeD in_set_dropD)

lemma listing_distinct: "listing xs \<Longrightarrow> distinct (map id_of xs)"
proof -
  assume "listing xs"
  then have "sorted_wrt (\<lambda>a b. b < a) (map id_of xs)" by (simp add: listing_def sorted_wrt_map)
  then show ?thesis by (metis sorted_wrt_rev strict_sorted_iff distinct_rev)
qed

text \<open>Once a page holds an older message, no later page holds a newer one.\<close>

lemma newer_stops:
  assumes "listing (xs @ ys)" "newer a xs \<noteq> xs"
  shows "newer a ys = []"
proof -
  obtain x where "x \<in> set xs" "\<not> a < id_of x" using assms(2) by (auto simp: newer_def filter_id_conv)
  then show ?thesis using assms(1) by (force simp: listing_def sorted_wrt_append newer_def filter_empty_conv)
qed

lemma list_store_finds:
  assumes fetch: "serves fetch stores" and xs: "listing xs" "stores store = xs"
    and few: "length (newer a xs) < list_page * list_max_pages"
    and disj: "id_of ` set (newer a xs) \<inter> fst ` set found0 = {}"
    and n: "page + n = list_max_pages"
    and sofar: "newer a (take (list_page * page) xs) = take (list_page * page) xs" "list_page * page \<le> length xs"
      "found = add_all (take (list_page * page) xs) found0"
      "prev = (if page = 0 then None else Some (set (List.map_filter item_id (take list_page (drop (list_page * (page - 1)) xs)))))"
  shows "fst (run_state (list_store fetch a store n page prev found) w) = Ok (add_all (newer a xs) found0)"
  using n sofar
proof (induction n arbitrary: page prev found w)
  case 0
  then have "length (newer a xs) \<ge> list_page * list_max_pages"
    using few by (metis add.right_neutral append_take_drop_id le_add1 length_append length_take min_absorb2 newer_append)
  with few show ?case by simp
next
  case (Suc n)
  let ?k = "list_page * page"
  let ?items = "take list_page (drop ?k xs)"
  let ?rest = "drop list_page (drop ?k xs)"
  have split: "xs = take ?k xs @ ?items @ ?rest" by (metis append_take_drop_id)
  obtain reply w1 where f: "run_state (fetch store page) w = (Ok reply, w1)" "page_items reply = ?items"
    using fetch xs(2) unfolding serves_def by (metis prod.collapse)
  have li: "listing ?items" "listing (?items @ ?rest)"
    using listing_take_drop [OF xs(1), of list_page ?k] listing_take_drop [OF xs(1), of "length xs" ?k]
    by (simp_all only: append_take_drop_id) simp
  have new: "newer a xs = take ?k xs @ newer a ?items @ newer a ?rest"
    using Suc.prems(2) by (subst split) (simp only: newer_append)
  have idd: "distinct (map id_of (take ?k xs @ ?items @ ?rest))" using listing_distinct [OF xs(1)] split by simp
  have dis: "id_of ` set (newer a ?items) \<inter> fst ` set found = {}"
  proof -
    have "id_of ` set (newer a ?items) \<inter> id_of ` set (take ?k xs) = {}" using idd by (auto simp: newer_def)
    moreover have "id_of ` set (newer a ?items) \<subseteq> id_of ` set (newer a xs)" by (auto simp: new)
    ultimately show ?thesis using disj unfolding Suc.prems(4) keys_add_all by blast
  qed
  have scan: "scan_items a ?items (False, False, found) =
      (newer a ?items \<noteq> ?items, newer a ?items \<noteq> [], add_all (newer a ?items) found)"
    using scan_items_spec [OF _ listing_distinct [OF li(1)] dis] li(1) by (simp add: listing_def)
  have norep: "\<not> (list_page \<le> length ?items \<and> prev = Some (set (List.map_filter item_id ?items)))"
  proof
    assume r: "list_page \<le> length ?items \<and> prev = Some (set (List.map_filter item_id ?items))"
    let ?before = "take list_page (drop (list_page * (page - 1)) xs)"
    have p: "page \<noteq> 0" "set (List.map_filter item_id ?items) = set (List.map_filter item_id ?before)"
      using r Suc.prems(5) by (auto split: if_splits)
    obtain x where x: "x \<in> set ?items" using r by (cases ?items) (auto simp: list_page_def)
    then have "id_of x \<in> set (List.map_filter item_id ?items)" using li(1) by (auto simp: set_map_filter listing_def id_of_def)
    then have "id_of x \<in> set (List.map_filter item_id ?before)" unfolding p(2) .
    then obtain y where y: "y \<in> set ?before" "item_id y = Some (id_of x)" unfolding set_map_filter by blast
    then have "id_of y = id_of x" by (simp add: id_of_def)
    have "?before = drop (list_page * (page - 1)) (take ?k xs)"
      using p(1) by (cases page) (simp_all add: take_drop)
    then have "y \<in> set (take ?k xs)" using y(1) in_set_dropD by metis
    then show False using idd x \<open>id_of y = id_of x\<close> by force
  qed
  show ?case
  proof (cases "newer a ?items \<noteq> ?items \<or> newer a ?items = [] \<or> length ?items < list_page")
    case True
    have "newer a ?rest = []"
    proof (cases "newer a ?items = ?items")
      case same: True
      then have "length ?items < list_page" using True by (auto simp: list_page_def)
      then have "?rest = []" by simp
      then show ?thesis by (simp add: newer_def)
    qed (use newer_stops [OF li(2)] in blast)
    then have "add_all (newer a xs) found0 = add_all (newer a ?items) found"
      by (simp add: new Suc.prems(4))
    moreover have "(newer a ?items \<noteq> ?items \<or> \<not> newer a ?items \<noteq> [] \<or> length (page_items reply) < list_page)"
      using True f(2) by simp
    ultimately show ?thesis using norep unfolding list_store.simps run_state_bind f(1) prod.case sum.case Let_def f(2) scan
      by simp
  next
    case False
    then have full: "length ?items = list_page" "newer a ?items = ?items" by auto
    have tk: "take (list_page * (page + 1)) xs = take ?k xs @ ?items"
      using take_add [of ?k list_page xs] by (simp add: add.commute)
    have "fst (run_state (list_store fetch a store n (page + 1) (Some (set (List.map_filter item_id ?items))) (add_all ?items found)) w1)
        = Ok (add_all (newer a xs) found0)"
    proof (rule Suc.IH)
      show "newer a (take (list_page * (page + 1)) xs) = take (list_page * (page + 1)) xs"
        unfolding tk newer_append Suc.prems(2) full(2) ..
      show "list_page * (page + 1) \<le> length xs" using full(1) Suc.prems(3) by (simp add: list_page_def)
      show "add_all ?items found = add_all (take (list_page * (page + 1)) xs) found0"
        unfolding tk by (simp add: Suc.prems(4))
    qed (use Suc.prems(1) in auto)
    moreover have "\<not> (newer a ?items \<noteq> ?items \<or> \<not> newer a ?items \<noteq> [] \<or> length ?items < list_page)" using False by simp
    ultimately show ?thesis using norep unfolding list_store.simps run_state_bind f(1) prod.case sum.case Let_def f(2) scan full(2)
      by simp
  qed
qed

lemma add_all_sorted: "keys_sorted m \<Longrightarrow> keys_sorted (add_all xs m)"
  by (induction xs arbitrary: m) (auto simp: map_insert_sorted)

lemma mset_map_insert: "k \<notin> fst ` set m \<Longrightarrow> mset (map_insert k v m) = add_mset (k, v) (mset m)"
  by (induction k v m rule: map_insert.induct) auto

lemma mset_add_all:
  "distinct (map id_of xs) \<Longrightarrow> id_of ` set xs \<inter> fst ` set m = {} \<Longrightarrow>
     mset (add_all xs m) = mset (map (\<lambda>x. (id_of x, x)) xs) + mset m"
proof (induction xs arbitrary: m)
  case (Cons x xs)
  then have "id_of ` set xs \<inter> fst ` set (map_insert (id_of x) x m) = {}" by (simp add: Int_insert_right)
  then show ?case using Cons by (simp add: mset_map_insert)
qed simp

text \<open>A map filled with messages under their ids lists them in the order of their ids.\<close>

lemma add_all_is_sort:
  assumes "distinct (map id_of xs)"
  shows "map snd (add_all xs []) = sort_key id_of xs"
proof (rule sym, rule sort_key_inj_key_eq)
  have m: "mset (add_all xs []) = mset (map (\<lambda>x. (id_of x, x)) xs)" using mset_add_all [of xs "[]"] assms by simp
  then have s: "set (add_all xs []) = (\<lambda>x. (id_of x, x)) ` set xs" using mset_eq_setD [OF m] by simp
  have "mset (map snd (add_all xs [])) = image_mset snd (mset (map (\<lambda>x. (id_of x, x)) xs))" using m by simp
  also have "\<dots> = mset xs" by (simp add: multiset.map_comp comp_def)
  finally show "mset xs = mset (map snd (add_all xs []))" by simp
  show "inj_on id_of (set xs)" using assms by (simp add: distinct_map)
  have "map id_of (map snd (add_all xs [])) = map fst (add_all xs [])" using s by auto
  moreover have "keys_sorted (add_all xs [])" by (rule add_all_sorted) simp
  ultimately show "sorted (map id_of (map snd (add_all xs [])))" by (simp only: strict_sorted_iff)
qed

text \<open>
  Property C24. When the firmware lists its two stores page by page, newest first, with fewer than a
  thousand messages newer than \<open>after_id\<close> in each and no id in both, \<open>sms.list_after\<close> returns the
  oldest \<open>limit\<close> of all messages newer than \<open>after_id\<close>, in the order of their ids, none missing and
  none twice, and \<open>has_more\<close> tells exactly whether there are more.
\<close>

theorem list_after_complete:
  assumes fetch: "serves fetch stores" and l: "listing (stores 0)" "listing (stores 1)"
    and few: "length (newer a (stores 0)) < 1000" "length (newer a (stores 1)) < 1000"
    and disj: "id_of ` set (stores 0) \<inter> id_of ` set (stores 1) = {}"
  shows "fst (run_state (list_after_with a limit fetch) w) =
    (let all = sort_key id_of (newer a (stores 0 @ stores 1))
     in Ok (take (unat limit) all, unat limit < length all))"
proof -
  let ?f1 = "add_all (newer a (stores 1)) []"
  let ?f0 = "add_all (newer a (stores 0)) ?f1"
  have s1: "fst (run_state (list_store fetch a 1 list_max_pages 0 None []) w) = Ok ?f1" for w
    using list_store_finds [OF fetch l(2) refl, of a "[]" 0 list_max_pages "[]" None w] few(2)
    by (simp add: list_page_def list_max_pages_def newer_def)
  have "id_of ` set (newer a (stores 0)) \<inter> fst ` set ?f1 = {}"
    using disj by (auto simp: keys_add_all newer_def)
  then have s0: "fst (run_state (list_store fetch a 0 list_max_pages 0 None ?f1) w) = Ok ?f0" for w
    using list_store_finds [OF fetch l(1) refl, of a ?f1 0 list_max_pages ?f1 None w] few(1)
    by (simp add: list_page_def list_max_pages_def newer_def)
  have d: "distinct (map id_of (newer a (stores 1 @ stores 0)))"
    using listing_distinct l disj by (auto simp: newer_def distinct_map inj_on_def)
  have perm: "sort_key id_of (newer a (stores 0 @ stores 1)) = map snd ?f0"
  proof -
    have "map snd ?f0 = sort_key id_of (newer a (stores 1 @ stores 0))"
      using add_all_is_sort [OF d] by simp
    also have "\<dots> = sort_key id_of (newer a (stores 0 @ stores 1))"
      using d by (intro sort_key_inj_key_eq) (auto simp: distinct_map inj_on_Un)
    finally show ?thesis by simp
  qed
  show ?thesis using s1 s0 unfolding list_after_with_def perm Let_def
    by (simp add: split_def)
qed

definition sample_store :: "nat \<Rightarrow> json list" where
  "sample_store store =
     (if store = 0 then [jobj [(''id'', jnat 9)], jobj [(''id'', jnat 3)]] else [jobj [(''id'', jnat 7)]])"

definition sample_fetch :: "nat \<Rightarrow> nat \<Rightarrow> (string + json) io" where
  "sample_fetch store page =
     ret (Ok (jobj [(''messages'', JArray (take list_page (drop (list_page * page) (sample_store store))))]))"

lemma sample_serves: "serves sample_fetch sample_store"
  by (simp add: serves_def sample_fetch_def page_items_def jget_jobj map_from_def or_else_def as_array_def)

theorem list_after_complete_witness:
  "listing (sample_store 0) \<and> listing (sample_store 1) \<and>
   fst (run_state (list_after_with 4 5 sample_fetch) \<lparr>w_log = [], w_radio = \<lambda>_. None, w_key = None\<rparr>) =
    (let all = sort_key id_of (newer 4 (sample_store 0 @ sample_store 1))
     in Ok (take (unat (5::u64)) all, unat (5::u64) < length all))"
proof -
  have id: "item_id (jobj [(''id'', jnat 9)]) = Some 9" "item_id (jobj [(''id'', jnat 3)]) = Some 3"
      "item_id (jobj [(''id'', jnat 7)]) = Some 7"
    by (simp_all add: item_id_def jget_jobj map_from_def jnat_def as_u64_def)
  then have l: "listing (sample_store 0)" "listing (sample_store 1)"
    by (simp_all add: listing_def sample_store_def id_of_def)
  have "id_of ` set (sample_store 0) \<inter> id_of ` set (sample_store 1) = {}"
    by (simp add: sample_store_def id_of_def id)
  moreover have "length (newer 4 (sample_store 0)) < 1000" "length (newer 4 (sample_store 1)) < 1000"
    by (simp_all add: newer_def sample_store_def)
  ultimately show ?thesis using l list_after_complete [OF sample_serves] by blast
qed

section \<open>A message is sent at most once\<close>

definition is_sending :: "dev_event \<Rightarrow> bool" where
  "is_sending e = (case e of
     Ubus obj m _ _ \<Rightarrow> obj = ''zwrt_wms'' \<and> m = ''zte_libwms_send_sms''
   | Http _ _ _ \<Rightarrow> True
   | _ \<Rightarrow> False)"

abbreviation sends :: "dev_event list \<Rightarrow> nat" where
  "sends es \<equiv> length (filter is_sending es)"

lemma is_sending_simps [simp]:
  "is_sending (Ubus obj m args r) \<longleftrightarrow> obj = ''zwrt_wms'' \<and> m = ''zte_libwms_send_sms''"
  "is_sending (Http u f h)" "\<not> is_sending (Rand n b)" "\<not> is_sending (Sleep n)"
  by (simp_all add: is_sending_def)

lemma wp_wait_sent: "wp (wait_sent E n) (\<lambda>_ es. sends es = 0)"
  by (induction n) (auto simp: Let_def split: sum.split intro!: wp_rules elim!: wp_mono)

lemma wp_current_slot: "wp (current_slot E) (\<lambda>_ es. sends es = 0)"
  by (auto simp: current_slot_def intro!: wp_rules)

lemma wp_wait_slot: "wp (wait_slot E sl n) (\<lambda>_ es. sends es = 0)"
proof (induction n)
  case (Suc n)
  show ?case unfolding wait_slot.simps
    by (rule wp_bind, rule wp_mono [OF wp_current_slot]) (auto intro!: wp_rules wp_mono [OF Suc])
qed (auto intro!: wp_rules)

lemma wp_select_slot: "wp (select_slot E sl) (\<lambda>_ es. sends es = 0)"
  unfolding select_slot_def provision_def Let_def
  by (auto split: sum.split intro!: wp_rules wp_mono [OF wp_wait_slot])

lemma wp_ensure: "wp (ensure_crypto_session E C) (\<lambda>_ es. sends es = 0)"
  unfolding ensure_crypto_session_def
  by (rule wp_get) (auto split: sum.split option.split intro!: wp_rules)

lemma wp_encrypt: "wp (encrypt E C k p) (\<lambda>_ es. sends es = 0)"
  unfolding encrypt_def by (auto intro!: wp_rules)

lemma wp_send_host:
  "wp (send_host E C number txt sms_time) (\<lambda>r es. sends es \<le> 1 \<and> (is_ok r \<longrightarrow> sends es = 1))"
  unfolding send_host_def
  by (rule wp_bind, rule wp_mono [OF wp_ensure])
    (auto split: sum.split intro!: wp_rules wp_mono [OF wp_encrypt] wp_mono [OF wp_wait_sent])

lemma wp_send_external:
  "wp (send_external E s number txt sms_time) (\<lambda>r es. sends es = 1)"
  unfolding send_external_def Let_def by (auto intro!: wp_rules)

text \<open>What \<open>send\<close> promises of its result and its events.\<close>

definition sent_once :: "((bool \<times> string) + json) \<Rightarrow> dev_event list \<Rightarrow> bool" where
  "sent_once r es \<longleftrightarrow> sends es \<le> 1 \<and> (is_ok r \<longrightarrow> sends es = 1) \<and> (\<forall>why. r = Err (True, why) \<longrightarrow> es = [])"

lemma sent_once_Err: "sends es \<le> 1 \<Longrightarrow> sent_once (Err (False, e)) es" "sent_once (Err (b, e)) []"
  by (simp_all add: sent_once_def)

lemma wp_lifted:
  fixes m :: "(string + json) io"
  assumes m: "wp m (\<lambda>r es. sends es \<le> 1 \<and> (is_ok r \<longrightarrow> sends es = 1))" and fs: "sends fs = 0"
  shows "wp (m \<bind> (\<lambda>r. ret (map_sum (Pair False) id r))) (\<lambda>r es. sent_once r (fs @ es))"
proof (rule wp_bind, rule wp_mono [OF m], rule wp_return)
  fix r :: "string + json" and es assume "sends es \<le> 1 \<and> (is_ok r \<longrightarrow> sends es = 1)"
  then show "sent_once (map_sum (Pair False) id r) (fs @ es @ [])"
    using fs by (cases r) (simp_all add: sent_once_def)
qed

lemma wp_send_via_host:
  "sends fs = 0 \<Longrightarrow> wp (send_host E C n t s \<bind> (\<lambda>r. ret (map_sum (Pair False) id r))) (\<lambda>r es. sent_once r (fs @ es))"
  by (rule wp_lifted [OF wp_send_host])

lemma wp_send_via_external:
  "wp (send_external E sn n t s \<bind> (\<lambda>r. ret (map_sum (Pair False) id r))) sent_once"
  using wp_lifted [of "send_external E sn n t s" "[]"] wp_mono [OF wp_send_external [of E sn n t s]] by simp

lemma wp_send_via_sim:
  "wp (do {
      sl \<leftarrow> current_slot E;
      r \<leftarrow> (if sl \<noteq> k then select_slot E slot else ret (Ok ()));
      case r of Err e \<Rightarrow> ret (Err (False, e))
      | Ok _ \<Rightarrow> send_host E C n t s \<bind> (\<lambda>r. ret (map_sum (Pair False) id r))
    }) sent_once"
proof (rule wp_bind, rule wp_mono [OF wp_current_slot], rule wp_bind)
  fix sl es assume es: "sends es = 0"
  have "wp (if sl \<noteq> k then select_slot E slot else ret (Ok ())) (\<lambda>_ es. sends es = 0)"
    using wp_select_slot by (auto intro: wp_return)
  then show "wp (if sl \<noteq> k then select_slot E slot else ret (Ok ()))
      (\<lambda>x es'. wp (case x of Err e \<Rightarrow> ret (Err (False, e))
          | Ok _ \<Rightarrow> send_host E C n t s \<bind> (\<lambda>r. ret (map_sum (Pair False) id r)))
        (\<lambda>y es''. sent_once y (es @ es' @ es'')))"
  proof (rule wp_mono)
    fix x :: "string + unit" and es' assume es': "sends es' = 0"
    have "wp (send_host E C n t s \<bind> (\<lambda>r. ret (map_sum (Pair False) id r))) (\<lambda>y es''. sent_once y (es @ es' @ es''))"
      using wp_send_via_host [of "es @ es'" E C n t s] es es' by simp
    then show "wp (case x of Err e \<Rightarrow> ret (Err (False, e))
          | Ok _ \<Rightarrow> send_host E C n t s \<bind> (\<lambda>r. ret (map_sum (Pair False) id r)))
        (\<lambda>y es''. sent_once y (es @ es' @ es''))"
      using es es' by (cases x) (auto intro!: wp_return sent_once_Err)
  qed
qed

lemma wp_send: "wp (send E C m) sent_once"
  unfolding send_def Let_def
  using wp_send_via_host [of "[]"] wp_send_via_external wp_send_via_sim
  by (simp del: bind_assoc split: option.split add: wp_return sent_once_Err)

text \<open>
  Property C25. Sending hands the device or the external module at most one message, whatever they
  answer: exactly one when the action reports success, and none, with no other effect either, when it
  refuses the parameters.
\<close>

theorem send_at_most_once:
  assumes "device_ok w" "run_state (send E C m) w = (r, w')"
  shows "\<exists>es. w_log w' = w_log w @ es \<and> sends es \<le> 1 \<and> (is_ok r \<longrightarrow> sends es = 1) \<and>
    (\<forall>why. r = Err (True, why) \<longrightarrow> es = [])"
  using wpD [OF wp_send [of E C m] assms(1)] assms(2) unfolding sent_once_def by (metis prod.inject)

definition sample_env :: env where
  "sample_env = \<lparr>e_ubus = \<lambda>_ _ _ _. Err (UIo []), e_run = \<lambda>_ _ _. Err [], e_at = \<lambda>_ _. Err [], e_fs = \<lambda>_ _. Ok (),
     e_http = \<lambda>_ _ _. Some \<lparr>h_success = True, h_content_length = None, h_body = Some ''{}''\<rparr>,
     e_rand = \<lambda>_ _. [], e_var = \<lambda>_. None, e_text = \<lambda>_. [], e_json_text = \<lambda>_. [],
     e_json_parse = \<lambda>_. Some (jobj [(''result'', JString ''success'')])\<rparr>"

definition sample_crypto :: crypto where
  "sample_crypto = \<lparr>c_rsa_wrap = \<lambda>_. None, c_seal = \<lambda>_ _ _. None, c_open = \<lambda>_ _ _. None, c_b64 = id, c_unb64 = Some\<rparr>"

definition sample_world :: device where
  "sample_world = \<lparr>w_log = [], w_radio = \<lambda>_. None, w_key = None\<rparr>"

theorem send_at_most_once_witness:
  "\<exists>r w' es. run_state (send sample_env sample_crypto [(''sender'', JString ''v3e1''), (''number'', JString ''10086''),
      (''message_hex'', JString ''6D4B''), (''sms_time'', JString ''26'')]) sample_world = (r, w') \<and> is_ok r \<and>
    w_log w' = w_log sample_world @ es \<and> sends es = 1"
proof -
  let ?m = "[(''sender'', JString ''v3e1''), (''number'', JString ''10086''),
      (''message_hex'', JString ''6D4B''), (''sms_time'', JString ''26'')]"
  obtain r w' where run: "run_state (send sample_env sample_crypto ?m) sample_world = (r, w')" by fastforce
  have "valid ''10086'' ''6D4B'' ''26''" by code_simp
  then have "is_ok r" using run
    by (auto simp: send_def Let_def as_str_def send_external_def http_post_def log_event_def sample_env_def
        jget_jobj map_from_def)
  moreover have "device_ok sample_world" by (simp add: device_ok_def sample_world_def)
  ultimately show ?thesis using send_at_most_once [OF _ run] run by blast
qed

end
