(* ===== verification/Control.thy ===== *)
theory Control
  imports Action_Spec Sms
begin

text \<open>
  The control actions (\<^verbatim>\<open>rust/src/control.rs\<close>): one definition per handler, the table of actions, and
  what holds for all of them. The parameters are the JSON value of the request; \<open>Panicked\<close> is the
  panic of \<open>object\<close> on parameters that are no object, which the server rules out beforehand.
\<close>

section \<open>Outcomes and parameters\<close>

datatype outcome = NotHandled | Invalid string | Failed string | Done json | Panicked

definition param_text :: "param_error \<Rightarrow> string" where
  "param_text e = (case e of
     MissingParameter n \<Rightarrow> ''missing parameter: '' @ n
   | MustBeString n \<Rightarrow> n @ '' must be a string''
   | MustBeInteger n \<Rightarrow> n @ '' must be an integer''
   | MustBeBoolean n \<Rightarrow> n @ '' must be boolean''
   | ParamsPanic \<Rightarrow> [])"

definition invalid :: "param_error \<Rightarrow> outcome" where
  "invalid e = (case e of ParamsPanic \<Rightarrow> Panicked | _ \<Rightarrow> Invalid (param_text e))"

type_synonym field = "string \<times> string \<times> bool \<times> bool"

fun mapped_from :: "json \<Rightarrow> field list \<Rightarrow> (string \<times> json) list \<Rightarrow> param_error + (string \<times> json) list" where
  "mapped_from params [] args = Ok args"
| "mapped_from params ((inp, out, required, is_int) # fs) args =
     (if is_int then
        (case param_integer params inp required of
           Err e \<Rightarrow> Err e
         | Ok (Some v) \<Rightarrow> mapped_from params fs (map_insert out (jint v) args)
         | Ok None \<Rightarrow> mapped_from params fs args)
      else
        (case param_string params inp required of
           Err e \<Rightarrow> Err e
         | Ok (Some v) \<Rightarrow> mapped_from params fs (map_insert out (JString v) args)
         | Ok None \<Rightarrow> mapped_from params fs args))"

definition mapped :: "json \<Rightarrow> field list \<Rightarrow> param_error + (string \<times> json) list" where
  "mapped params fs = mapped_from params fs []"

definition write_reply :: "ubus_error + json \<Rightarrow> ubus_error + json" where
  "write_reply r = (case r of Err (UNoData _ _) \<Rightarrow> Ok (jobj []) | _ \<Rightarrow> r)"

definition write_outcome :: "env \<Rightarrow> ubus_error + json \<Rightarrow> outcome" where
  "write_outcome E r = (case write_reply r of Ok v \<Rightarrow> Done v | Err e \<Rightarrow> Failed (e_text E e))"

definition ctl_call :: "env \<Rightarrow> string \<Rightarrow> string \<Rightarrow> json \<Rightarrow> outcome io" where
  "ctl_call E obj m args = do {
     r \<leftarrow> executor_call E obj m args;
     ret (write_outcome E r)
   }"

definition mapped_call :: "env \<Rightarrow> json \<Rightarrow> string \<Rightarrow> string \<Rightarrow> field list \<Rightarrow> bool \<Rightarrow> outcome io" where
  "mapped_call E params obj m fs require_any =
     (case mapped params fs of
        Err e \<Rightarrow> ret (invalid e)
      | Ok args \<Rightarrow>
          if require_any \<and> args = [] then ret (Invalid ''no fields supplied'')
          else ctl_call E obj m (JObject args))"

definition at_outcome :: "string + string \<Rightarrow> outcome" where
  "at_outcome r = (case r of Ok a \<Rightarrow> Done (jobj [(''answer'', JString (trim a))]) | Err e \<Rightarrow> Failed e)"

section \<open>Handlers\<close>

subsection \<open>Mobile network\<close>

definition cellular_args :: "(string \<times> json) list \<Rightarrow> (string \<times> json) list \<Rightarrow> json" where
  "cellular_args current overrides =
     (let m = fold (\<lambda>(k, v). map_insert k v) overrides (map_remove ''enable'' current)
      in JObject (map_insert ''cid'' (jnat 1) (map_insert ''source_module'' (JString ''WEBUI'') m)))"

definition cellular_set :: "env \<Rightarrow> json \<Rightarrow> outcome io" where
  "cellular_set E params =
     (case mapped params [(''enabled'', ''enable'', False, True), (''roaming'', ''roam_enable'', False, True),
             (''connect_mode'', ''connect_mode'', False, False)] of
        Err e \<Rightarrow> ret (invalid e)
      | Ok overrides \<Rightarrow>
          if overrides = [] then ret (Invalid ''no cellular fields supplied'')
          else do {
            r \<leftarrow> ubus E ''zwrt_data'' ''get_wwaniface''
              (jobj [(''source_module'', JString ''web''), (''cid'', jnat 1), (''connect_status'', JString [])]);
            case r of
              Err e \<Rightarrow> ret (Failed e)
            | Ok (JObject current) \<Rightarrow> ctl_call E ''zwrt_data'' ''set_wwaniface'' (cellular_args current overrides)
            | Ok _ \<Rightarrow> ret (Failed ''invalid get_wwaniface response'')
          })"

definition netselect_register :: "env \<Rightarrow> json \<Rightarrow> outcome io" where
  "netselect_register E params =
     (case param_string params ''mcc_mnc'' True of
        Err e \<Rightarrow> ret (invalid e)
      | Ok None \<Rightarrow> ret (Invalid ''mcc_mnc must be 5-6 digits'')
      | Ok (Some plmn) \<Rightarrow>
          if \<not> (5 \<le> length plmn \<and> length plmn \<le> 6 \<and> list_all is_digit plmn)
          then ret (Invalid ''mcc_mnc must be 5-6 digits'')
          else case param_string params ''rat'' False of
            Err e \<Rightarrow> ret (invalid e)
          | Ok v \<Rightarrow>
              (let rat = (case v of Some s \<Rightarrow> s | None \<Rightarrow> []) in
               if 8 < length rat \<or> \<not> list_all alnum rat then ret (Invalid ''rat must be a short code'')
               else ctl_call E ''zte_nwinfo_api'' ''nwinfo_manual_register''
                 (jobj [(''m_mcc_mnc'', JString plmn), (''m_rat'', JString rat)])))"

definition qcli_args :: "json \<Rightarrow> nat \<Rightarrow> json" where
  "qcli_args t enable = jobj [(''source_module'', JString ''zte_topsw_data''), (''type'', t),
     (''enable'', jnat enable), (''sub_id'', jnat 1)]"

fun redial_types :: "env \<Rightarrow> u64 list \<Rightarrow> json \<Rightarrow> outcome io" where
  "redial_types E [] latest = ret (Done latest)"
| "redial_types E (t # ts) latest = do {
     r \<leftarrow> ubus E ''zwrt_qcmap_cli'' ''set_qcliiface'' (qcli_args (jint t) 1);
     case r of Ok v \<Rightarrow> redial_types E ts v | Err e \<Rightarrow> ret (Failed e)
   }"

definition redial :: "env \<Rightarrow> json \<Rightarrow> outcome io" where
  "redial E params =
     (case param_integer params ''type'' False of
        Err e \<Rightarrow> ret (invalid e)
      | Ok None \<Rightarrow> redial_types E [1, 2] JNull
      | Ok (Some t) \<Rightarrow>
          if t = 1 \<or> t = 2 then redial_types E [t] JNull else ret (Invalid ''type must be 1 or 2''))"

definition apn_pdp_type :: "env \<Rightarrow> json \<Rightarrow> outcome io" where
  "apn_pdp_type E params =
     (case param_boolean params ''ipv6'' of
        Err e \<Rightarrow> ret (invalid e)
      | Ok enabled \<Rightarrow> do {
          r \<leftarrow> ubus E ''zwrt_apn_object'' ''get_apn_at_cid'' (jobj [(''cid'', jnat 1)]);
          case r of
            Err e \<Rightarrow> ret (Failed (''read APN failed: '' @ e))
          | Ok apn \<Rightarrow> do {
              let pdp = (if enabled then 3 else 1);
              let s = (\<lambda>k. JString (case Option.bind (jget k apn) as_str of Some v \<Rightarrow> v | None \<Rightarrow> []));
              let n = (\<lambda>k d. jint (case Option.bind (jget k apn) as_i64 of Some v \<Rightarrow> v | None \<Rightarrow> d));
              w \<leftarrow> ubus E ''zwrt_apn_object'' ''set_apn_at_cid''
                (jobj [(''profilename'', s ''profilename''), (''wanapn'', s ''wanapn''), (''username'', s ''username''),
                   (''password'', s ''password''), (''pdpType'', jnat pdp), (''pppAuthMode'', n ''pppAuthMode'' 0),
                   (''profileId'', s ''profileId''), (''isEnable'', JBool True), (''cid'', jnat 1),
                   (''isValid'', n ''isValid'' 1), (''extraInt1'', n ''extraInt1'' 0), (''roamingPdpType'', jnat pdp)]);
              case w of
                Err e \<Rightarrow> ret (Failed (''set APN failed: '' @ e))
              | Ok _ \<Rightarrow> do {
                  _ \<leftarrow> ubus E ''zwrt_qcmap_cli'' ''set_qcliiface'' (qcli_args (jnat 2) (if enabled then 1 else 0));
                  ret (Done (jobj [(''ipv6_enabled'', JBool enabled), (''pdp_type'', jnat pdp)]))
                }
            }
        })"

definition band :: "env \<Rightarrow> json \<Rightarrow> bool \<Rightarrow> bool \<Rightarrow> outcome io" where
  "band E params lte nsa =
     (case param_string params ''bands'' False of
        Err e \<Rightarrow> ret (invalid e)
      | Ok v \<Rightarrow>
          (let bands = (case v of Some s \<Rightarrow> s | None \<Rightarrow> []) in
           if \<not> list_all (\<lambda>c. is_digit c \<or> c = CHR '','') bands
           then ret (Invalid ''bands must contain only numbers and commas'')
           else if lte then ctl_call E ''zte_nwinfo_api'' ''nwinfo_set_lte_ext_band'' (jobj [(''lte_band'', JString bands)])
           else ctl_call E ''zte_nwinfo_api'' ''nwinfo_set_nrbandlock''
             (jobj [(''nr5g_type'', JString (if nsa then ''1'' else ''0'')), (''nr5g_band'', JString bands)])))"

definition apn :: "env \<Rightarrow> json \<Rightarrow> string \<Rightarrow> bool \<Rightarrow> outcome io" where
  "apn E params m profile_required =
     mapped_call E params ''zwrt_apn_object'' m
       [(''profile_id'', ''profileId'', profile_required, False), (''name'', ''profilename'', True, False),
        (''apn'', ''wanapn'', True, False), (''username'', ''username'', False, False),
        (''password'', ''password'', False, False), (''auth_mode'', ''pppAuthMode'', False, True),
        (''pdp_type'', ''pdpType'', False, True), (''roaming_pdp_type'', ''roamingPdpType'', False, True)] False"

subsection \<open>Power and USB\<close>

definition direct_supply_enabled :: "json \<Rightarrow> param_error + bool" where
  "direct_supply_enabled params =
     (case object params of None \<Rightarrow> Err ParamsPanic | Some m \<Rightarrow>
      case map_of m ''enabled'' of
        Some (JString v) \<Rightarrow>
          if v = ''1'' \<or> v = ''true'' then Ok True
          else if v = ''0'' \<or> v = ''false'' then Ok False
          else param_boolean params ''enabled''
      | _ \<Rightarrow> param_boolean params ''enabled'')"

definition direct_supply_write_failed :: "ubus_error + json \<Rightarrow> bool" where
  "direct_supply_write_failed reply = (case reply of
     Err (UNoData _ _) \<Rightarrow> False
   | Err _ \<Rightarrow> True
   | Ok (JObject m) \<Rightarrow>
       (let result = (case map_of m ''result'' of None \<Rightarrow> 0
          | Some v \<Rightarrow> (case num_or_text v of Some n \<Rightarrow> n | None \<Rightarrow> 0))
        in map_of m ''error'' \<noteq> None \<or> result \<noteq> 0)
   | Ok _ \<Rightarrow> True)"

definition supply_mode :: "json \<Rightarrow> string option" where
  "supply_mode v = Option.bind (jget ''direct_power_supply_mode'' v) as_str"

definition on_off :: "bool \<Rightarrow> string" where
  "on_off b = (if b then ''enable'' else ''disable'')"

fun supply_confirm :: "env \<Rightarrow> string \<Rightarrow> nat \<Rightarrow> bool \<Rightarrow> bool io" where
  "supply_confirm E expected 0 first = ret False"
| "supply_confirm E expected (Suc n) first = do {
     _ \<leftarrow> (if first then ret () else sleep_ms 100);
     r \<leftarrow> ubus E ''zwrt_bsp.charger'' ''list'' (jobj []);
     if Option.bind (ok_opt r) supply_mode = Some expected then ret True else supply_confirm E expected n False
   }"

definition supply_done :: "bool \<Rightarrow> bool \<Rightarrow> outcome" where
  "supply_done wanted changed =
     Done (jobj [(''supported'', JBool True), (''enabled'', JBool wanted), (''mode'', JString (on_off wanted)),
       (''changed'', JBool changed), (''verified'', JBool True)])"

text \<open>The block under \<open>if changed\<close>.\<close>

definition supply_write :: "env \<Rightarrow> bool \<Rightarrow> outcome io" where
  "supply_write E wanted = do {
     reply \<leftarrow> executor_call E ''zwrt_bsp.charger'' ''set'' (jobj [(''direct_power_supply_mode'', JString (on_off wanted))]);
     if direct_supply_write_failed reply
     then ret (Failed (case reply of Err e \<Rightarrow> e_text E e | Ok _ \<Rightarrow> ''direct supply write failed''))
     else do {
       verified \<leftarrow> supply_confirm E (on_off wanted) 5 True;
       ret (if verified then supply_done wanted True
            else Failed ''direct supply readback did not confirm the requested mode'')
     }
   }"

definition direct_supply :: "env \<Rightarrow> json \<Rightarrow> outcome io" where
  "direct_supply E params =
     (case direct_supply_enabled params of
        Err e \<Rightarrow> ret (invalid e)
      | Ok wanted \<Rightarrow> do {
          r \<leftarrow> ubus E ''zwrt_bsp.charger'' ''list'' (jobj []);
          case r of
            Err e \<Rightarrow> ret (Failed e)
          | Ok before \<Rightarrow>
              if supply_mode before \<noteq> Some ''enable'' \<and> supply_mode before \<noteq> Some ''disable''
              then ret (Failed ''direct supply is not supported or state is unknown'')
              else if (supply_mode before = Some ''enable'') = wanted then ret (supply_done wanted False)
              else supply_write E wanted
        })"

definition usb_modes :: "string list" where
  "usb_modes = [''share'', ''fast_charge'', ''accessory'']"

definition int_field :: "json \<Rightarrow> string \<Rightarrow> u64 option" where
  "int_field v name = Option.bind (jget name v) num_or_text"

fun poll_from :: "env \<Rightarrow> string \<Rightarrow> string \<Rightarrow> json \<Rightarrow> nat \<Rightarrow> bool \<Rightarrow> (json \<Rightarrow> bool) \<Rightarrow> bool io" where
  "poll_from E obj m args 0 first ok = ret False"
| "poll_from E obj m args (Suc n) first ok = do {
     _ \<leftarrow> (if first then ret () else sleep_ms 200);
     r \<leftarrow> ubus E obj m args;
     if is_some_and (ok_opt r) ok then ret True else poll_from E obj m args n False ok
   }"

definition poll_until :: "env \<Rightarrow> string \<Rightarrow> string \<Rightarrow> json \<Rightarrow> nat \<Rightarrow> (json \<Rightarrow> bool) \<Rightarrow> bool io" where
  "poll_until E obj m args tries ok = poll_from E obj m args tries True ok"

definition is_device :: "json \<Rightarrow> bool" where
  "is_device v \<longleftrightarrow> Option.bind (jget ''data_role'' v) as_str = Some ''device''"

definition bank_on :: "json \<Rightarrow> bool" where
  "bank_on v \<longleftrightarrow> int_field v ''state'' = Some 1"

definition usb_done :: "string \<Rightarrow> bool \<Rightarrow> outcome" where
  "usb_done mode changed =
     Done (jobj [(''mode'', JString mode), (''changed'', JBool changed), (''verified'', JBool True)])"

definition usb_source_module :: string where "usb_source_module = ''zte_topsw_devui''"

definition usb_share :: "env \<Rightarrow> json \<Rightarrow> bool \<Rightarrow> outcome io" where
  "usb_share E typec remembered =
     (if is_device typec then ret (usb_done ''share'' False)
      else do {
        stop \<leftarrow> (if remembered then do {
            u \<leftarrow> ubus E ''zwrt_bsp.usb'' ''list'' (jobj []);
            ret (case u of
                   Err e \<Rightarrow> Some (Failed e)
                 | Ok usb \<Rightarrow> if int_field usb ''usb2rj45'' = Some 1
                     then Some (Failed ''a USB network adapter is attached; left in host mode'') else None)
          } else ret None);
        case stop of
          Some out \<Rightarrow> ret out
        | None \<Rightarrow> do {
            c \<leftarrow> ctl_call E ''zwrt_bsp.typec'' ''set''
              (jobj [(''source_module'', JString usb_source_module), (''DR_Swap'', JString ''device'')]);
            case c of
              Failed e \<Rightarrow> ret (Failed e)
            | _ \<Rightarrow> do {
                ok \<leftarrow> poll_until E ''zwrt_bsp.typec'' ''list'' (jobj []) 15 is_device;
                ret (if ok then usb_done ''share'' True
                     else Failed ''USB role readback did not show data_role device'')
              }
          }
      })"

definition usb_fast_charge :: "env \<Rightarrow> outcome io" where
  "usb_fast_charge E = do {
     let get = jobj [(''property'', JString ''state'')];
     r \<leftarrow> ubus E ''zwrt_bsp.powerbank'' ''get'' get;
     case r of
       Err e \<Rightarrow> ret (Failed e)
     | Ok v \<Rightarrow>
         if bank_on v then ret (usb_done ''fast_charge'' False)
         else do {
           c \<leftarrow> ctl_call E ''zwrt_bsp.powerbank'' ''set''
             (jobj [(''source_module'', JString usb_source_module), (''state'', jnat 1)]);
           case c of
             Failed e \<Rightarrow> ret (Failed e)
           | _ \<Rightarrow> do {
               ok \<leftarrow> poll_until E ''zwrt_bsp.powerbank'' ''get'' get 10 bank_on;
               ret (if ok then usb_done ''fast_charge'' True else Failed ''power bank readback did not show state 1'')
             }
         }
   }"

definition usb_attach_mode :: "env \<Rightarrow> json \<Rightarrow> outcome io" where
  "usb_attach_mode E params =
     (case param_string params ''mode'' True of
        Err e \<Rightarrow> ret (invalid e)
      | Ok None \<Rightarrow> ret (Invalid ''mode must be share, fast_charge or accessory'')
      | Ok (Some mode) \<Rightarrow>
          if mode \<notin> set usb_modes then ret (Invalid ''mode must be share, fast_charge or accessory'')
          else case (if is_some_and (object params) (\<lambda>m. map_of m ''remembered'' = None) then Ok False
                     else param_boolean params ''remembered'') of
            Err e \<Rightarrow> ret (invalid e)
          | Ok remembered \<Rightarrow> do {
              r \<leftarrow> ubus E ''zwrt_bsp.typec'' ''list'' (jobj []);
              case r of
                Err e \<Rightarrow> ret (Failed e)
              | Ok typec \<Rightarrow>
                  if int_field typec ''cc_attch_state'' \<noteq> Some 1
                  then ret (Failed ''nothing is plugged into the USB-C port'')
                  else if mode = ''accessory'' then ret (usb_done mode False)
                  else if mode = ''share'' then usb_share E typec remembered
                  else usb_fast_charge E
            })"

definition nfc :: "env \<Rightarrow> json \<Rightarrow> outcome io" where
  "nfc E params =
     (case mapped params [(''enabled'', ''switch'', True, True), (''flag'', ''flag'', False, True)] of
        Err e \<Rightarrow> ret (invalid e)
      | Ok args \<Rightarrow> do {
          r \<leftarrow> ubus E ''zwrt_nfc'' ''zwrt_nfc_wifi_set'' (JObject args);
          case r of
            Err e \<Rightarrow> ret (Failed e)
          | Ok v \<Rightarrow> do {
              _ \<leftarrow> ubus E ''zwrt_nfc'' ''zwrt_nfc_wifi_change'' (jobj []);
              ret (Done v)
            }
        })"

subsection \<open>Wi-Fi\<close>

definition wifi_module_args :: "bool \<Rightarrow> string option \<Rightarrow> json" where
  "wifi_module_args enabled lbd =
     (let mbb = [(''wifi_onoff'', JString (if enabled then ''1'' else ''0''))];
          mbb = (if enabled \<and> (lbd = Some ''0'' \<or> lbd = Some ''1'') then mbb @ [(''lbd'', JString (the lbd))] else mbb)
      in jobj [(''zte_mbb'', jobj mbb)])"

definition wifi_module :: "env \<Rightarrow> json \<Rightarrow> outcome io" where
  "wifi_module E params =
     (case param_integer params ''enabled'' True of
        Err e \<Rightarrow> ret (invalid e)
      | Ok None \<Rightarrow> ret (Invalid ''enabled must be 0 or 1'')
      | Ok (Some v) \<Rightarrow>
          if v \<noteq> 0 \<and> v \<noteq> 1 then ret (Invalid ''enabled must be 0 or 1'')
          else do {
            let enabled = (v = 1);
            lbd \<leftarrow> (if enabled then do {
                r \<leftarrow> ubus E ''uci'' ''get''
                  (jobj [(''config'', JString ''wireless''), (''section'', JString ''zte_mbb''), (''option'', JString ''lbd'')]);
                ret (Option.bind (Option.bind (ok_opt r) (jget ''value'')) as_str)
              } else ret None);
            ctl_call E ''zwrt_wlan'' ''set'' (wifi_module_args enabled lbd)
          })"

definition wifi_apply_ap_sections :: "string list" where
  "wifi_apply_ap_sections = [''main_2g'', ''main_5g'', ''guest_2g'', ''guest_5g'']"

definition wifi_apply_ap_options :: "string list" where
  "wifi_apply_ap_options = [''ssid'', ''key'', ''encryption'', ''hidden'', ''isolate'', ''disabled'', ''guest_active_time'']"

definition wifi_apply_radio_options :: "string list" where
  "wifi_apply_radio_options = [''country'', ''channel'', ''txpowerpercent'', ''htmode'', ''disabled'']"

definition wifi_apply_dead_keys :: "string list" where
  "wifi_apply_dead_keys = [''zte_mbb.wifi.wifi_onoff'', ''zte_mbb.wifi.wifi6_switch'']"

text \<open>\<open>splitn(3, '.')\<close>, with all three pieces present.\<close>

fun split_once :: "char \<Rightarrow> string \<Rightarrow> (string \<times> string) option" where
  "split_once c [] = None"
| "split_once c (x # xs) =
     (if x = c then Some ([], xs) else map_option (\<lambda>(a, b). (x # a, b)) (split_once c xs))"

definition split3 :: "string \<Rightarrow> (string \<times> string \<times> string) option" where
  "split3 path =
     (case split_once (CHR ''.'') path of None \<Rightarrow> None | Some (a, r) \<Rightarrow>
        map_option (Pair a) (split_once (CHR ''.'') r))"

definition wifi_apply_key_ok :: "string \<Rightarrow> string list \<Rightarrow> bool" where
  "wifi_apply_key_ok path radios \<longleftrightarrow>
     path \<in> set wifi_apply_dead_keys \<or>
     (case split3 path of
        None \<Rightarrow> False
      | Some (pkg, sec, opt) \<Rightarrow> pkg = ''wireless'' \<and>
          ((sec \<in> set wifi_apply_ap_sections \<and> opt \<in> set wifi_apply_ap_options) \<or>
           ((sec = ''wifi0'' \<or> sec = ''wifi1'' \<or> sec \<in> set radios) \<and> opt \<in> set wifi_apply_radio_options)))"

text \<open>The first loop: every option is checked before anything is written.\<close>

fun wifi_updates :: "env \<Rightarrow> string list \<Rightarrow> (string \<times> json) list \<Rightarrow>
    string + (string \<times> string) list \<times> string list" where
  "wifi_updates E radios [] = Ok ([], [])"
| "wifi_updates E radios ((path, v) # rest) =
     (if \<not> wifi_apply_key_ok path radios then Err (''not a Wi-Fi option this action sets: '' @ path)
      else case (case v of
             JString s \<Rightarrow> Some s
           | JNumber n \<Rightarrow> Some (e_json_text E (JNumber n))
           | JBool b \<Rightarrow> Some (if b then ''1'' else ''0'')
           | _ \<Rightarrow> None) of
        None \<Rightarrow> Err (path @ '': value must be a string, number or boolean'')
      | Some text \<Rightarrow>
          if 128 < length text \<or> bad_text text then Err (path @ '': invalid value'')
          else case wifi_updates E radios rest of
            Err e \<Rightarrow> Err e
          | Ok (updates, skipped) \<Rightarrow>
              if path \<in> set wifi_apply_dead_keys then Ok (updates, path # skipped)
              else Ok ((path, text) # updates, skipped))"

text \<open>The second loop: the packages to commit and the options skipped, or the failure after a revert.\<close>

fun wifi_write :: "env \<Rightarrow> bool \<Rightarrow> (string \<times> string) list \<Rightarrow> string list \<Rightarrow> string list \<Rightarrow>
    (string + string list \<times> string list) io" where
  "wifi_write E best_effort [] packages skipped = ret (Ok (packages, skipped))"
| "wifi_write E best_effort ((path, v) # rest) packages skipped = do {
     r \<leftarrow> uci_write E ''set'' path (Some v);
     case r of
       Err e \<Rightarrow>
         if best_effort then wifi_write E best_effort rest packages (skipped @ [path])
         else do {
           _ \<leftarrow> uci_write E ''revert'' ''wireless'' None;
           ret (Err (path @ '': '' @ e))
         }
     | Ok _ \<Rightarrow> wifi_write E best_effort rest (if packages = [] then [''wireless''] else packages) skipped
   }"

fun wifi_commit :: "env \<Rightarrow> string list \<Rightarrow> (string + unit) io" where
  "wifi_commit E [] = ret (Ok ())"
| "wifi_commit E (p # ps) = do {
     r \<leftarrow> uci_write E ''commit'' p None;
     case r of Err e \<Rightarrow> ret (Err (''commit '' @ p @ '': '' @ e)) | Ok _ \<Rightarrow> wifi_commit E ps
   }"

text \<open>The commit, the reload and the report.\<close>

definition wifi_finish :: "env \<Rightarrow> bool \<Rightarrow> string list \<Rightarrow> string list \<Rightarrow> outcome io" where
  "wifi_finish E reload packages skipped = do {
     c \<leftarrow> wifi_commit E packages;
     case c of
       Err e \<Rightarrow> ret (Failed e)
     | Ok _ \<Rightarrow> do {
         err \<leftarrow> (if reload \<and> packages \<noteq> [] then do {
             r \<leftarrow> ubus E ''zwrt_wlan'' ''reload'' (jobj []);
             ret (case r of Err e \<Rightarrow> JString e | Ok _ \<Rightarrow> JNull)
           } else ret JNull);
         ret (Done (jobj [(''committed'', JArray (map JString packages)), (''skipped'', JArray (map JString skipped)),
           (''reloaded'', JBool (reload \<and> packages \<noteq> [] \<and> err = JNull)), (''reload_error'', err)]))
       }
   }"

definition wifi_apply_set :: "env \<Rightarrow> (string \<times> json) list \<Rightarrow> bool \<Rightarrow> bool \<Rightarrow> outcome io" where
  "wifi_apply_set E st reload best_effort = do {
     radios \<leftarrow> radio_sections E;
     case wifi_updates E radios st of
       Err e \<Rightarrow> ret (Invalid e)
     | Ok (updates, skipped) \<Rightarrow> do {
         w \<leftarrow> wifi_write E best_effort updates [] skipped;
         case w of
           Err e \<Rightarrow> ret (Failed e)
         | Ok (packages, skipped) \<Rightarrow> wifi_finish E reload packages skipped
       }
   }"

definition wifi_apply :: "env \<Rightarrow> json \<Rightarrow> outcome io" where
  "wifi_apply E params =
     (case object params of None \<Rightarrow> ret Panicked | Some m \<Rightarrow>
      case map_of m ''set'' of
        Some (JObject st) \<Rightarrow>
          if st = [] \<or> 32 < length st then ret (Invalid ''set must have 1-32 options'')
          else
            (let best_effort = (case Option.bind (map_of m ''best_effort'') as_bool of Some b \<Rightarrow> b | None \<Rightarrow> False) in
             case map_of m ''reload'' of
               None \<Rightarrow> wifi_apply_set E st True best_effort
             | Some (JBool b) \<Rightarrow> wifi_apply_set E st b best_effort
             | Some _ \<Rightarrow> ret (Invalid ''reload must be boolean''))
      | _ \<Rightarrow> ret (Invalid ''missing parameter: set''))"

definition psm_ifaces :: "string list" where
  "psm_ifaces = [''wlan0'', ''wlan1'', ''wlan2'', ''wlan3'']"

definition psm_mode :: "bool \<Rightarrow> string" where
  "psm_mode enabled = (if enabled then ''on'' else ''off'')"

definition psm_script :: "bool \<Rightarrow> string" where
  "psm_script enabled =
     ''#!/bin/sh'' @ [CHR 0x0A] @ ''# written by zwrt-datad (wifi.power_save)'' @ [CHR 0x0A] @
     ''[ '' @ [CHR 0x22] @ ''$ACTION'' @ [CHR 0x22] @ '' = ifup ] && {'' @ [CHR 0x0A] @
     concat (map (\<lambda>w. ''  iw dev '' @ w @ '' set power_save '' @ psm_mode enabled @ '' 2>/dev/null'' @ [CHR 0x0A]) psm_ifaces) @
     ''}'' @ [CHR 0x0A]"

definition path_join :: "string \<Rightarrow> string \<Rightarrow> string" where
  "path_join dir f = (if dir = [] \<or> last dir = CHR ''/'' then dir @ f else dir @ ''/'' @ f)"

fun psm_set :: "env \<Rightarrow> string \<Rightarrow> string \<Rightarrow> string list \<Rightarrow> unit io" where
  "psm_set E iw m [] = ret ()"
| "psm_set E iw m (w # ws) = do {
     _ \<leftarrow> command_run E iw [''dev'', w, ''set'', ''power_save'', m] (of_secs 3);
     psm_set E iw m ws
   }"

fun psm_live :: "env \<Rightarrow> string \<Rightarrow> string list \<Rightarrow> bool option io" where
  "psm_live E iw [] = ret None"
| "psm_live E iw (w # ws) = do {
     r \<leftarrow> command_run E iw [''dev'', w, ''get'', ''power_save''] (of_secs 3);
     case r of
       Ok out \<Rightarrow>
         if str_contains out ''Power save: on'' then ret (Some True)
         else if str_contains out ''Power save: off'' then ret (Some False)
         else psm_live E iw ws
     | Err _ \<Rightarrow> psm_live E iw ws
   }"

fun fs_chain :: "env \<Rightarrow> file_op list \<Rightarrow> (string + unit) io" where
  "fs_chain E [] = ret (Ok ())"
| "fs_chain E (f # fs) = do {
     r \<leftarrow> fs_do E f;
     case r of Err e \<Rightarrow> ret (Err e) | Ok _ \<Rightarrow> fs_chain E fs
   }"

definition power_save_apply :: "env \<Rightarrow> string \<Rightarrow> string \<Rightarrow> bool \<Rightarrow> outcome io" where
  "power_save_apply E dir iw enabled = do {
     let file = path_join dir ''99-disable-powersave'';
     let tmp = path_join dir ''.99-disable-powersave.tmp'';
     saved \<leftarrow> fs_chain E [CreateDirAll dir, WriteFile tmp (psm_script enabled), SetMode tmp 493, Rename tmp file];
     case saved of
       Err e \<Rightarrow> do {
         _ \<leftarrow> fs_do E (RemoveFile tmp);
         ret (Failed (''could not save Wi-Fi power save: '' @ e))
       }
     | Ok _ \<Rightarrow> do {
         _ \<leftarrow> fs_do E (RemoveFile (path_join dir ''psm''));
         psm_set E iw (psm_mode enabled) psm_ifaces;
         live \<leftarrow> psm_live E iw [''wlan0'', ''wlan2''];
         ret (if is_some_and live (\<lambda>v. v \<noteq> enabled) then Failed (''Wi-Fi power save still '' @ psm_mode (the live))
              else Done (jobj [(''enabled'', JBool enabled), (''saved'', JBool True), (''live'', jopt JBool live)]))
       }
   }"

definition wifi_power_save :: "env \<Rightarrow> json \<Rightarrow> outcome io" where
  "wifi_power_save E params =
     (case param_boolean params ''enabled'' of
        Err e \<Rightarrow> ret (invalid e)
      | Ok enabled \<Rightarrow> power_save_apply E (env_or E ''ZWRT_DATAD_HOTPLUG_DIR'' ''/etc/hotplug.d/iface'')
          (env_or E ''ZWRT_DATAD_IW_BIN'' ''/usr/sbin/iw'') enabled)"

subsection \<open>Vendor calls, DNS, the message database\<close>

definition vendor_calls :: "(string \<times> string) list" where
  "vendor_calls = map (Pair ''zwrt_router.api'')
       [''router_set_lan_para'', ''router_set_wan_dns'', ''router_set_firewall_switch'', ''router_set_firewall_level'',
        ''router_set_nat_switch'', ''router_set_dmz'', ''router_set_upnp_switch'', ''router_set_portforward'',
        ''router_set_portforward_switch'', ''router_set_alg_switch'', ''router_set_qos_switch'', ''router_set_domain_filter''] @
     map (Pair ''zwrt_zte_mdm.api'') [''sim_verify_pin_puk'', ''sim_change_pin'', ''sim_change_pin_mode'', ''set_simlock_nck''] @
     map (Pair ''zte_nwinfo_api'')
       [''nwinfo_set_stc_white_list_par'', ''nwinfo_stc_cell_lock_enable'', ''nwinfo_stc_cell_lock_disable'',
        ''nwinfo_stc_cell_lock_reset'', ''nwinfo_start_detect_signal_quality'', ''nwinfo_end_detect_signal_quality''] @
     [(''zwrt_mc.device.manager'', ''set_device_info''), (''zwrt_mc.device.manager'', ''device_reset''),
      (''system'', ''reboot''), (''zwrt_bsp.powerbank'', ''set''), (''zwrt_zte_sleep_faw.wakelock'', ''enableAutoSleep''),
      (''zwrt_wms'', ''zte_libwms_send_sms'')]"

definition vendor_call :: "env \<Rightarrow> json \<Rightarrow> outcome io" where
  "vendor_call E params =
     (case param_string params ''object'' True of
        Err e \<Rightarrow> ret (invalid e)
      | Ok obj \<Rightarrow>
      case param_string params ''method'' True of
        Err e \<Rightarrow> ret (invalid e)
      | Ok m \<Rightarrow>
      case (obj, m) of
        (Some obj, Some m) \<Rightarrow>
          if (obj, m) \<notin> set vendor_calls then ret (Invalid (''not a vendor call datad makes: '' @ obj @ '' '' @ m))
          else
            (case Option.bind (object params) (\<lambda>p. map_of p ''args'') of
               None \<Rightarrow> ctl_call E obj m (jobj [])
             | Some JNull \<Rightarrow> ctl_call E obj m (jobj [])
             | Some (JObject a) \<Rightarrow>
                 if length (e_json_text E (JObject a)) \<le> 8192 then ctl_call E obj m (JObject a)
                 else ret (Invalid ''args must be an object (at most 8 KB)'')
             | Some _ \<Rightarrow> ret (Invalid ''args must be an object (at most 8 KB)''))
      | _ \<Rightarrow> ret (Invalid ''missing object or method''))"

definition doh_script :: "bool \<Rightarrow> string" where
  "doh_script enabled =
     (if enabled then ''printf '' @ [CHR 0x27] @ ''server=127.0.0.1#5353'' @ [CHR 0x5C] @ ''nno-resolv'' @ [CHR 0x5C] @ ''n'' @
        [CHR 0x27] @ '' > /tmp/dnsmasq.d/doh.conf; /etc/init.d/dnsmasq restart''
      else ''rm -f /tmp/dnsmasq.d/doh.conf; uci delete dhcp.lan_dns.server 2>/dev/null; uci delete dhcp.lan_dns.noresolv 2>/dev/null; uci commit dhcp; /etc/init.d/dnsmasq restart'')"

definition dns_doh :: "env \<Rightarrow> json \<Rightarrow> outcome io" where
  "dns_doh E params =
     (case param_boolean params ''enabled'' of
        Err e \<Rightarrow> ret (invalid e)
      | Ok enabled \<Rightarrow> do {
          r \<leftarrow> command_run E ''sh'' [''-c'', doh_script enabled] (of_secs 8);
          ret (case r of Ok _ \<Rightarrow> Done (jobj [(''enabled'', JBool enabled)]) | Err e \<Rightarrow> Failed (''dnsmasq: '' @ e))
        })"

fun join_comma :: "string list \<Rightarrow> string" where
  "join_comma [] = []"
| "join_comma [s] = s"
| "join_comma (s # ss) = s @ '','' @ join_comma ss"

definition sms_ids_ok :: "string list \<Rightarrow> bool" where
  "sms_ids_ok ids \<longleftrightarrow> ids \<noteq> [] \<and> length ids \<le> 500 \<and> list_all (\<lambda>s. length s \<le> 12 \<and> list_all is_digit s) ids"

definition delete_sql :: "string list \<Rightarrow> string" where
  "delete_sql ids = ''DELETE FROM sms WHERE id IN ('' @ join_comma ids @ '');''"

definition sms_db_delete :: "env \<Rightarrow> json \<Rightarrow> outcome io" where
  "sms_db_delete E params =
     (case param_string params ''ids'' True of
        Err e \<Rightarrow> ret (invalid e)
      | Ok None \<Rightarrow> ret (Invalid ''missing parameter: ids'')
      | Ok (Some ids) \<Rightarrow>
          (let xs = filter (\<lambda>s. s \<noteq> []) (split_char (CHR '';'') ids) in
           if \<not> sms_ids_ok xs then ret (Invalid (''ids must be numbers separated by '' @ [CHR 0x27] @ '';'' @ [CHR 0x27]))
           else do {
             r \<leftarrow> command_run E (env_or E ''ZWRT_DATAD_SQLITE_BIN'' ''/usr/bin/sqlite3'')
               [''-cmd'', ''.timeout 2000'', env_or E ''ZWRT_DATAD_SMS_DB'' ''/etc_rw/ztembb/ztesms/sms_db/sms.db'', delete_sql xs] (of_secs 5);
             ret (case r of Ok _ \<Rightarrow> Done (jobj [(''deleted'', jnat (length xs))]) | Err e \<Rightarrow> Failed (''sqlite3: '' @ e))
           }))"

section \<open>The table of actions\<close>

text \<open>The results of \<open>sms.rs\<close> as outcomes: the flag says whether the parameters were at fault.\<close>

definition sms_outcome :: "((bool \<times> string) + json) \<Rightarrow> outcome" where
  "sms_outcome r = (case r of Ok v \<Rightarrow> Done v | Err (True, e) \<Rightarrow> Invalid e | Err (False, e) \<Rightarrow> Failed e)"

definition sms_action :: "json \<Rightarrow> ((string \<times> json) list \<Rightarrow> ((bool \<times> string) + json) io) \<Rightarrow> outcome io" where
  "sms_action params f =
     (case object params of None \<Rightarrow> ret Panicked | Some m \<Rightarrow> do { r \<leftarrow> f m; ret (sms_outcome r) })"

text \<open>
  The \<open>match\<close> of \<open>execute\<close>, arm by arm, as a table; the parameters are the environment, the
  libraries and the request's parameters.
\<close>

definition arms :: "env \<Rightarrow> crypto \<Rightarrow> json \<Rightarrow> (string \<times> outcome io) list" where
  "arms E C params =
    [(''device.reboot'', ctl_call E ''zwrt_mc.device.manager'' ''device_reboot'' (jobj [(''moduleName'', JString ''web'')])),
     (''device.poweroff'', ctl_call E ''zwrt_mc.device.manager'' ''device_poweroff'' (jobj [(''moduleName'', JString ''web'')])),
     (''cellular.set'', cellular_set E params),
     (''network.set_mode'', mapped_call E params ''zte_nwinfo_api'' ''nwinfo_set_netselect'' [(''mode'', ''net_select'', True, False)] False),
     (''band.set_lte'', band E params True False),
     (''band.set_nr_sa'', band E params False False),
     (''band.set_nr_nsa'', band E params False True),
     (''cell.lock_lte'', mapped_call E params ''zte_nwinfo_api'' ''nwinfo_lock_lte_cell''
        [(''pci'', ''lock_lte_pci'', True, False), (''earfcn'', ''lock_lte_earfcn'', True, False)] False),
     (''cell.lock_nr'', mapped_call E params ''zte_nwinfo_api'' ''nwinfo_lock_nr_cell''
        [(''pci'', ''lock_nr_pci'', True, False), (''arfcn'', ''lock_nr_earfcn'', True, False),
         (''band'', ''lock_nr_cell_band'', True, False)] False),
     (''netselect.scan'', ctl_call E ''zte_nwinfo_api'' ''nwinfo_manual_scan'' (jobj [])),
     (''netselect.register'', netselect_register E params),
     (''netselect.auto'', do { r \<leftarrow> at_send E CopsAuto; ret (at_outcome r) }),
     (''cellular.redial'', redial E params),
     (''modem.online'', do { r \<leftarrow> at_send E CfunOnline; ret (at_outcome r) }),
     (''apn.set_pdp_type'', apn_pdp_type E params),
     (''wifi.apply'', wifi_apply E params),
     (''wifi.reload'', ctl_call E ''zwrt_wlan'' ''reload'' (jobj [])),
     (''vendor.call'', vendor_call E params),
     (''dns.doh'', dns_doh E params),
     (''sms.db_delete'', sms_db_delete E params),
     (''wifi.power_save'', wifi_power_save E params),
     (''band.reset'', ctl_call E ''zte_nwinfo_api'' ''nwinfo_reset_band_cell_setting'' (jobj [])),
     (''wifi.set_module'', wifi_module E params),
     (''lan.set'', mapped_call E params ''zwrt_router.api'' ''router_set_lan_para''
        [(''ip'', ''ipaddr'', False, False), (''netmask'', ''netmask'', False, False), (''dhcp_disabled'', ''ignore'', False, True),
         (''dhcp_start'', ''zte_start'', False, False), (''dhcp_end'', ''zte_end'', False, False),
         (''lease_seconds'', ''leasetime'', False, False)] True),
     (''power.direct_supply.set'', direct_supply E params),
     (''usb.set'', mapped_call E params ''zwrt_bsp.usb'' ''set''
        [(''mode'', ''mode'', False, False), (''port_switch'', ''usb_port_switch'', False, False),
         (''network_protocol'', ''usb_network_protocal'', False, False)] True),
     (''usb.attach_mode'', usb_attach_mode E params),
     (''nfc.set'', nfc E params),
     (''apn.set_mode'', mapped_call E params ''zwrt_apn_object'' ''set_apn_mode'' [(''mode'', ''apn_mode'', True, True)] False),
     (''apn.add'', apn E params ''add_manu_apn'' False),
     (''apn.modify'', apn E params ''modify_manu_apn'' True),
     (''apn.delete'', mapped_call E params ''zwrt_apn_object'' ''delete_manu_apn'' [(''profile_id'', ''profileId'', True, False)] False),
     (''apn.enable'', mapped_call E params ''zwrt_apn_object'' ''enable_manu_apn_id'' [(''profile_id'', ''profileId'', True, False)] False),
     (''sms.delete'', mapped_call E params ''zwrt_wms'' ''zwrt_wms_delete_sms'' [(''ids'', ''id'', True, False)] False),
     (''sms.mark_read'', mapped_call E params ''zwrt_wms'' ''zwrt_wms_modify_tag''
        [(''ids'', ''id'', True, False), (''tag'', ''tag'', False, True)] False),
     (''sms.send_raw'', sms_action params (send E C)),
     (''sms.list_after'', sms_action params (list_after E C))]"

definition ctl_execute :: "env \<Rightarrow> crypto \<Rightarrow> string \<Rightarrow> json \<Rightarrow> outcome io" where
  "ctl_execute E C act params =
     (case map_of (arms E C params) act of Some h \<Rightarrow> h | None \<Rightarrow> ret NotHandled)"

definition control_actions :: "string list" where
  "control_actions = [''device.reboot'', ''device.poweroff'', ''cellular.set'', ''network.set_mode'', ''band.set_lte'',
     ''band.set_nr_sa'', ''band.set_nr_nsa'', ''cell.lock_lte'', ''cell.lock_nr'', ''band.reset'', ''wifi.set_module'',
     ''lan.set'', ''power.direct_supply.set'', ''usb.set'', ''usb.attach_mode'', ''nfc.set'', ''apn.set_mode'', ''apn.add'',
     ''apn.modify'', ''apn.delete'', ''apn.enable'', ''sms.delete'', ''sms.mark_read'', ''sms.send_raw'', ''sms.list_after'']"

definition e4_actions :: "string list" where
  "e4_actions = [''netselect.scan'', ''netselect.register'', ''netselect.auto'', ''cellular.redial'', ''modem.online'',
     ''apn.set_pdp_type'', ''wifi.apply'', ''wifi.reload'', ''vendor.call'', ''dns.doh'', ''sms.db_delete'', ''wifi.power_save'']"

section \<open>What the actions may do to the device\<close>

text \<open>
  The calls, commands, files and messages the service is meant to produce. Strings of a client occur
  in an argument object of a listed call, as the value of a listed Wi-Fi option, as the digits of a
  message id, and nowhere else: no client string reaches a shell or the text of an SQL statement.
\<close>

definition device_calls :: "(string \<times> string) list" where
  "device_calls = vendor_calls @
    [(''zwrt_mc.device.manager'', ''device_reboot''), (''zwrt_mc.device.manager'', ''device_poweroff''),
     (''zwrt_data'', ''get_wwaniface''), (''zwrt_data'', ''set_wwaniface''),
     (''zte_nwinfo_api'', ''nwinfo_set_netselect''), (''zte_nwinfo_api'', ''nwinfo_lock_lte_cell''),
     (''zte_nwinfo_api'', ''nwinfo_lock_nr_cell''), (''zte_nwinfo_api'', ''nwinfo_manual_scan''),
     (''zte_nwinfo_api'', ''nwinfo_manual_register''), (''zte_nwinfo_api'', ''nwinfo_set_lte_ext_band''),
     (''zte_nwinfo_api'', ''nwinfo_set_nrbandlock''), (''zte_nwinfo_api'', ''nwinfo_reset_band_cell_setting''),
     (''zwrt_qcmap_cli'', ''set_qcliiface''),
     (''zwrt_apn_object'', ''get_apn_at_cid''), (''zwrt_apn_object'', ''set_apn_at_cid''),
     (''zwrt_apn_object'', ''set_apn_mode''), (''zwrt_apn_object'', ''add_manu_apn''),
     (''zwrt_apn_object'', ''modify_manu_apn''), (''zwrt_apn_object'', ''delete_manu_apn''),
     (''zwrt_apn_object'', ''enable_manu_apn_id''),
     (''zwrt_wlan'', ''set''), (''zwrt_wlan'', ''reload''), (''uci'', ''get''),
     (''zwrt_bsp.charger'', ''list''), (''zwrt_bsp.charger'', ''set''), (''zwrt_bsp.usb'', ''list''), (''zwrt_bsp.usb'', ''set''),
     (''zwrt_bsp.typec'', ''list''), (''zwrt_bsp.typec'', ''set''), (''zwrt_bsp.powerbank'', ''get''),
     (''zwrt_nfc'', ''zwrt_nfc_wifi_set''), (''zwrt_nfc'', ''zwrt_nfc_wifi_change''),
     (''zwrt_wms'', ''zwrt_wms_delete_sms''), (''zwrt_wms'', ''zwrt_wms_modify_tag''),
     (''zwrt_wms'', ''zte_libwms_get_sms_data''), (''zwrt_wms'', ''zwrt_wms_get_cmd_status''),
     (''zwrt_web'', ''web_crt_get''), (''zwrt_web'', ''web_http_enstr_set''),
     (''zwrt_zte_mdm.api'', ''get_sim_info''), (''zwrt_zte_mdm.api'', ''zwrt_mdm_change_provision_session'')]"

definition wifi_path :: "string \<Rightarrow> bool" where
  "wifi_path path \<longleftrightarrow> (\<exists>sec opt. path = ''wireless.'' @ sec @ ''.'' @ opt \<and>
     ((sec \<in> set wifi_apply_ap_sections \<and> opt \<in> set wifi_apply_ap_options) \<or>
      (radio_name_ok sec \<and> opt \<in> set wifi_apply_radio_options)))"

definition uci_args_ok :: "string list \<Rightarrow> bool" where
  "uci_args_ok args \<longleftrightarrow> args = [''commit'', ''wireless''] \<or> args = [''revert'', ''wireless''] \<or>
     (\<exists>path v. args = [''set'', path @ ''='' @ v] \<and> wifi_path path \<and> length v \<le> 128 \<and> \<not> bad_text v)"

definition iw_args_ok :: "string list \<Rightarrow> bool" where
  "iw_args_ok args \<longleftrightarrow> (\<exists>w \<in> set psm_ifaces. args = [''dev'', w, ''get'', ''power_save''] \<or>
     (\<exists>b. args = [''dev'', w, ''set'', ''power_save'', psm_mode b]))"

definition command_ok :: "env \<Rightarrow> string \<Rightarrow> string list \<Rightarrow> bool" where
  "command_ok E prog args \<longleftrightarrow>
     (prog = ''sh'' \<and> (\<exists>b. args = [''-c'', doh_script b])) \<or>
     (prog = uci_bin E \<and> uci_args_ok args) \<or>
     (prog = env_or E ''ZWRT_DATAD_IW_BIN'' ''/usr/sbin/iw'' \<and> iw_args_ok args) \<or>
     (prog = env_or E ''ZWRT_DATAD_SQLITE_BIN'' ''/usr/bin/sqlite3'' \<and>
      (\<exists>ids. sms_ids_ok ids \<and> args = [''-cmd'', ''.timeout 2000'',
         env_or E ''ZWRT_DATAD_SMS_DB'' ''/etc_rw/ztembb/ztesms/sms_db/sms.db'', delete_sql ids]))"

definition hotplug_ops :: "env \<Rightarrow> file_op list" where
  "hotplug_ops E =
     (let dir = env_or E ''ZWRT_DATAD_HOTPLUG_DIR'' ''/etc/hotplug.d/iface'';
          file = path_join dir ''99-disable-powersave'';
          tmp = path_join dir ''.99-disable-powersave.tmp''
      in [CreateDirAll dir, WriteFile tmp (psm_script True), WriteFile tmp (psm_script False), SetMode tmp 493,
          Rename tmp file, RemoveFile tmp, RemoveFile (path_join dir ''psm'')])"

definition sms_urls :: "env \<Rightarrow> string list" where
  "sms_urls E = [env_or E ''ZWRT_DATAD_SMS_V3E1_URL'' ''http://192.168.56.1/goform/goform_set_cmd_process'',
     env_or E ''ZWRT_DATAD_SMS_V3E2_URL'' ''http://192.168.57.1/goform/goform_set_cmd_process'']"

definition allowed :: "env \<Rightarrow> dev_event \<Rightarrow> bool" where
  "allowed E e = (case e of
     Ubus obj m _ _ \<Rightarrow> (obj, m) \<in> set device_calls
   | Run prog args _ _ \<Rightarrow> command_ok E prog args
   | At _ _ \<Rightarrow> True
   | Fs f _ \<Rightarrow> f \<in> set (hotplug_ops E)
   | Http url _ _ \<Rightarrow> url \<in> set (sms_urls E)
   | Rand _ _ \<Rightarrow> True
   | Sleep _ \<Rightarrow> True)"

definition radio_lookup :: "dev_event \<Rightarrow> bool" where
  "radio_lookup e \<longleftrightarrow> radio_read ''2g'' e \<or> radio_read ''5g'' e"

definition refused :: "outcome \<Rightarrow> bool" where
  "refused r \<longleftrightarrow> r = NotHandled \<or> r = Panicked \<or> (\<exists>why. r = Invalid why)"

text \<open>Allowed effects only; and before a refusal nothing but the look-up of the radio sections.\<close>

definition tame :: "env \<Rightarrow> outcome \<Rightarrow> dev_event list \<Rightarrow> bool" where
  "tame E r es \<longleftrightarrow> list_all (allowed E) es \<and> (refused r \<longrightarrow> list_all radio_lookup es)"

lemma allowed_simps [simp]:
  "allowed E (Ubus obj m a r) \<longleftrightarrow> (obj, m) \<in> set device_calls" "allowed E (Run p as d s) = command_ok E p as"
  "allowed E (At c x)" "allowed E (Fs f y) \<longleftrightarrow> f \<in> set (hotplug_ops E)" "allowed E (Http u b h) \<longleftrightarrow> u \<in> set (sms_urls E)"
  "allowed E (Rand n b')" "allowed E (Sleep n)"
  by (simp_all add: allowed_def)

lemma refused_simps [simp]: "refused NotHandled" "refused Panicked" "refused (Invalid t)" "\<not> refused (Failed t)"
  "\<not> refused (Done v)" "refused (invalid e)"
  by (auto simp: refused_def invalid_def split: param_error.split)

lemma refused_if [simp]: "refused (if b then x else y) \<longleftrightarrow> b \<and> refused x \<or> \<not> b \<and> refused y"
  by simp

lemma tame_Nil [simp]: "tame E r []"
  by (simp add: tame_def)

lemma tame_not_refused: "\<not> refused r \<Longrightarrow> tame E r es \<longleftrightarrow> list_all (allowed E) es"
  by (simp add: tame_def)

lemma write_outcome_not_refused [simp]: "\<not> refused (write_outcome E r)"
  by (simp add: write_outcome_def split: sum.split)

lemma device_call_mem [simp]:
  "(''zwrt_mc.device.manager'', ''device_reboot'') \<in> set device_calls"
  "(''zwrt_mc.device.manager'', ''device_poweroff'') \<in> set device_calls"
  "(''zwrt_data'', ''get_wwaniface'') \<in> set device_calls"
  "(''zwrt_data'', ''set_wwaniface'') \<in> set device_calls"
  "(''zte_nwinfo_api'', ''nwinfo_set_netselect'') \<in> set device_calls"
  "(''zte_nwinfo_api'', ''nwinfo_lock_lte_cell'') \<in> set device_calls"
  "(''zte_nwinfo_api'', ''nwinfo_lock_nr_cell'') \<in> set device_calls"
  "(''zte_nwinfo_api'', ''nwinfo_manual_scan'') \<in> set device_calls"
  "(''zte_nwinfo_api'', ''nwinfo_manual_register'') \<in> set device_calls"
  "(''zte_nwinfo_api'', ''nwinfo_set_lte_ext_band'') \<in> set device_calls"
  "(''zte_nwinfo_api'', ''nwinfo_set_nrbandlock'') \<in> set device_calls"
  "(''zte_nwinfo_api'', ''nwinfo_reset_band_cell_setting'') \<in> set device_calls"
  "(''zwrt_qcmap_cli'', ''set_qcliiface'') \<in> set device_calls"
  "(''zwrt_apn_object'', ''get_apn_at_cid'') \<in> set device_calls"
  "(''zwrt_apn_object'', ''set_apn_at_cid'') \<in> set device_calls"
  "(''zwrt_apn_object'', ''set_apn_mode'') \<in> set device_calls"
  "(''zwrt_apn_object'', ''add_manu_apn'') \<in> set device_calls"
  "(''zwrt_apn_object'', ''modify_manu_apn'') \<in> set device_calls"
  "(''zwrt_apn_object'', ''delete_manu_apn'') \<in> set device_calls"
  "(''zwrt_apn_object'', ''enable_manu_apn_id'') \<in> set device_calls"
  "(''zwrt_wlan'', ''set'') \<in> set device_calls"
  "(''zwrt_wlan'', ''reload'') \<in> set device_calls"
  "(''uci'', ''get'') \<in> set device_calls"
  "(''zwrt_bsp.charger'', ''list'') \<in> set device_calls"
  "(''zwrt_bsp.charger'', ''set'') \<in> set device_calls"
  "(''zwrt_bsp.usb'', ''list'') \<in> set device_calls"
  "(''zwrt_bsp.usb'', ''set'') \<in> set device_calls"
  "(''zwrt_bsp.typec'', ''list'') \<in> set device_calls"
  "(''zwrt_bsp.typec'', ''set'') \<in> set device_calls"
  "(''zwrt_bsp.powerbank'', ''get'') \<in> set device_calls"
  "(''zwrt_nfc'', ''zwrt_nfc_wifi_set'') \<in> set device_calls"
  "(''zwrt_nfc'', ''zwrt_nfc_wifi_change'') \<in> set device_calls"
  "(''zwrt_wms'', ''zwrt_wms_delete_sms'') \<in> set device_calls"
  "(''zwrt_wms'', ''zwrt_wms_modify_tag'') \<in> set device_calls"
  "(''zwrt_wms'', ''zte_libwms_get_sms_data'') \<in> set device_calls"
  "(''zwrt_wms'', ''zwrt_wms_get_cmd_status'') \<in> set device_calls"
  "(''zwrt_web'', ''web_crt_get'') \<in> set device_calls"
  "(''zwrt_web'', ''web_http_enstr_set'') \<in> set device_calls"
  "(''zwrt_zte_mdm.api'', ''get_sim_info'') \<in> set device_calls"
  "(''zwrt_zte_mdm.api'', ''zwrt_mdm_change_provision_session'') \<in> set device_calls"
  by (simp_all add: device_calls_def)

lemma vendor_call_mem: "c \<in> set vendor_calls \<Longrightarrow> c \<in> set device_calls"
  by (simp add: device_calls_def)

lemma send_call_mem [simp]: "(''zwrt_wms'', ''zte_libwms_send_sms'') \<in> set device_calls"
  "(''zwrt_bsp.powerbank'', ''set'') \<in> set device_calls" "(''zwrt_router.api'', ''router_set_lan_para'') \<in> set device_calls"
  by (simp_all add: device_calls_def vendor_calls_def)

lemma tame_ctl_call: "(obj, m) \<in> set device_calls \<Longrightarrow> wp (ctl_call E obj m a) (tame E)"
  unfolding ctl_call_def by (auto intro!: wp_rules simp: tame_not_refused)

lemma tame_mapped_call: "(obj, m) \<in> set device_calls \<Longrightarrow> wp (mapped_call E p obj m fs b) (tame E)"
  unfolding mapped_call_def by (auto split: sum.split intro!: wp_rules tame_ctl_call)

lemma emits_wp: "emits P m \<Longrightarrow> (\<And>r es. list_all P es \<Longrightarrow> Q r es) \<Longrightarrow> wp m Q"
  unfolding emits_def by (rule wp_mono)

lemma wp_ctl_call: "(obj, m) \<in> set device_calls \<Longrightarrow> wp (ctl_call E obj m x) (\<lambda>r es. \<not> refused r \<and> list_all (allowed E) es)"
  unfolding ctl_call_def by (auto intro!: wp_rules)

lemma tame_cellular_set: "wp (cellular_set E p) (tame E)"
  unfolding cellular_set_def
  by (auto split: sum.split json.split intro!: wp_rules wp_mono [OF wp_ctl_call] simp: tame_def)

lemma tame_register: "wp (netselect_register E p) (tame E)"
  unfolding netselect_register_def Let_def by (auto split: sum.split option.split intro!: wp_rules tame_ctl_call)

lemma wp_redial_types: "wp (redial_types E ts v) (\<lambda>r es. \<not> refused r \<and> list_all (allowed E) es)"
  by (induction ts arbitrary: v) (auto split: sum.split intro!: wp_rules elim!: wp_mono)

lemma tame_redial: "wp (redial E p) (tame E)"
  unfolding redial_def
  by (auto split: sum.split option.split intro!: wp_return wp_mono [OF wp_redial_types] simp: tame_def simp del: redial_types.simps)

lemma tame_pdp: "wp (apn_pdp_type E p) (tame E)"
  unfolding apn_pdp_type_def Let_def by (auto split: sum.split intro!: wp_rules simp: tame_def)

lemma tame_band: "wp (band E p l n) (tame E)"
  unfolding band_def Let_def by (auto split: sum.split intro!: wp_rules tame_ctl_call)

lemma tame_apn: "(''zwrt_apn_object'', m) \<in> set device_calls \<Longrightarrow> wp (apn E p m b) (tame E)"
  unfolding apn_def by (rule tame_mapped_call)

lemma wp_supply_confirm: "wp (supply_confirm E x n b) (\<lambda>_. list_all (allowed E))"
  by (induction n arbitrary: b) (auto split: sum.split intro!: wp_rules elim!: wp_mono)

lemma tame_direct_supply: "wp (direct_supply E p) (tame E)"
  unfolding direct_supply_def supply_write_def
  by (auto split: sum.split if_splits intro!: wp_rules wp_mono [OF wp_supply_confirm] simp: tame_def supply_done_def
      simp del: supply_confirm.simps)

lemma wp_poll: "(obj, m) \<in> set device_calls \<Longrightarrow> wp (poll_from E obj m a n b ok) (\<lambda>_. list_all (allowed E))"
  by (induction n arbitrary: b) (auto split: sum.split intro!: wp_rules elim!: wp_mono)

lemma tame_nfc: "wp (nfc E p) (tame E)"
  unfolding nfc_def by (auto split: sum.split intro!: wp_rules simp: tame_def)

lemma wp_usb_share: "wp (usb_share E v b) (\<lambda>r es. \<not> refused r \<and> list_all (allowed E) es)"
  unfolding usb_share_def poll_until_def
  by (auto split: sum.split option.split outcome.split intro!: wp_rules wp_mono [OF wp_ctl_call] wp_mono [OF wp_poll]
      simp: usb_done_def simp del: poll_from.simps)

lemma wp_usb_fast: "wp (usb_fast_charge E) (\<lambda>r es. \<not> refused r \<and> list_all (allowed E) es)"
  unfolding usb_fast_charge_def poll_until_def Let_def
  by (auto split: sum.split option.split outcome.split intro!: wp_rules wp_mono [OF wp_ctl_call] wp_mono [OF wp_poll]
      simp: usb_done_def simp del: poll_from.simps)

lemma tame_usb: "wp (usb_attach_mode E p) (tame E)"
  unfolding usb_attach_mode_def
  by (auto split: sum.split option.split intro!: wp_rules wp_mono [OF wp_usb_share] wp_mono [OF wp_usb_fast]
      simp: tame_def usb_done_def)

lemma tame_wifi_module: "wp (wifi_module E p) (tame E)"
  unfolding wifi_module_def Let_def
  by (auto split: sum.split option.split intro!: wp_rules wp_mono [OF wp_ctl_call] simp: tame_def)

lemma tame_vendor: "wp (vendor_call E p) (tame E)"
  unfolding vendor_call_def
  by (auto split: sum.split option.split json.split intro!: wp_return tame_ctl_call vendor_call_mem)

lemma tame_doh: "wp (dns_doh E p) (tame E)"
  unfolding dns_doh_def
  by (auto split: sum.split intro!: wp_rules simp: tame_def command_ok_def)

lemma tame_db_delete: "wp (sms_db_delete E p) (tame E)"
  unfolding sms_db_delete_def Let_def
  by (auto split: sum.split option.split intro!: wp_rules simp: tame_def command_ok_def)

lemma wp_psm_set:
  assumes "set ws \<subseteq> set psm_ifaces"
  shows "wp (psm_set E (env_or E ''ZWRT_DATAD_IW_BIN'' ''/usr/sbin/iw'') (psm_mode b) ws) (\<lambda>_. list_all (allowed E))"
  using assms
  by (induction ws) (auto intro!: wp_rules elim!: wp_mono simp: command_ok_def iw_args_ok_def)

lemma wp_psm_live:
  assumes "set ws \<subseteq> set psm_ifaces"
  shows "wp (psm_live E (env_or E ''ZWRT_DATAD_IW_BIN'' ''/usr/sbin/iw'') ws) (\<lambda>_. list_all (allowed E))"
  using assms
  by (induction ws) (auto split: sum.split intro!: wp_rules elim!: wp_mono simp: command_ok_def iw_args_ok_def)

lemma wp_fs_chain: "set fs \<subseteq> set (hotplug_ops E) \<Longrightarrow> wp (fs_chain E fs) (\<lambda>_. list_all (allowed E))"
  by (induction fs) (auto split: sum.split intro!: wp_rules elim!: wp_mono)

lemma wp_power_save:
  "wp (power_save_apply E (env_or E ''ZWRT_DATAD_HOTPLUG_DIR'' ''/etc/hotplug.d/iface'') (env_or E ''ZWRT_DATAD_IW_BIN'' ''/usr/sbin/iw'') b)
     (\<lambda>r es. \<not> refused r \<and> list_all (allowed E) es)"
  unfolding power_save_apply_def Let_def
  by (cases b) (auto split: sum.split intro!: wp_rules wp_mono [OF wp_fs_chain] wp_mono [OF wp_psm_set] wp_mono [OF wp_psm_live]
      simp: hotplug_ops_def Let_def psm_ifaces_def simp del: fs_chain.simps psm_set.simps psm_live.simps)

lemma tame_power_save: "wp (wifi_power_save E p) (tame E)"
  unfolding wifi_power_save_def
  by (auto split: sum.split intro!: wp_return wp_mono [OF wp_power_save] simp: tame_def)

lemma split_once_Some: "split_once c s = Some (a, b) \<Longrightarrow> s = a @ c # b"
  by (induction s arbitrary: a) (auto split: if_splits)

lemma wifi_key_path:
  assumes "wifi_apply_key_ok path radios" "path \<notin> set wifi_apply_dead_keys" "list_all radio_name_ok radios"
  shows "wifi_path path"
proof -
  have ok: "radio_name_ok ''wifi0''" "radio_name_ok ''wifi1''" by code_simp+
  obtain sec opt where sp: "split3 path = Some (''wireless'', sec, opt)"
    and key: "(sec \<in> set wifi_apply_ap_sections \<and> opt \<in> set wifi_apply_ap_options) \<or>
      ((sec = ''wifi0'' \<or> sec = ''wifi1'' \<or> sec \<in> set radios) \<and> opt \<in> set wifi_apply_radio_options)"
    using assms(1,2) by (auto simp: wifi_apply_key_ok_def split: option.splits)
  have "path = ''wireless'' @ CHR ''.'' # sec @ CHR ''.'' # opt"
    using sp by (auto simp: split3_def split: option.splits dest!: split_once_Some)
  then show ?thesis using key ok assms(3) by (auto simp: wifi_path_def list_all_iff)
qed

definition update_ok :: "string \<times> string \<Rightarrow> bool" where
  "update_ok u \<longleftrightarrow> wifi_path (fst u) \<and> length (snd u) \<le> 128 \<and> \<not> bad_text (snd u)"

lemma wifi_updates_ok:
  "list_all radio_name_ok radios \<Longrightarrow> wifi_updates E radios st = Ok (us, sk) \<Longrightarrow> list_all update_ok us"
proof (induction st arbitrary: us sk)
  case (Cons kv st)
  obtain path v where kv: "kv = (path, v)" by fastforce
  show ?case using Cons wifi_key_path [of path radios]
    by (auto simp: kv update_ok_def split: if_splits sum.splits option.splits)
qed simp

lemma wp_uci_set: "uci_args_ok [''set'', path @ ''='' @ v] \<Longrightarrow> wp (uci_write E ''set'' path (Some v)) (\<lambda>_. list_all (allowed E))"
  unfolding uci_write_def by (simp add: wp_return) (intro impI wp_bind wp_command_run wp_return, simp add: command_ok_def)

lemma wp_uci_plain: "op = ''commit'' \<or> op = ''revert'' \<Longrightarrow> wp (uci_write E op ''wireless'' None) (\<lambda>_. list_all (allowed E))"
  unfolding uci_write_def
  by (elim disjE; simp add: wp_return; intro impI wp_bind wp_command_run wp_return; simp add: command_ok_def uci_args_ok_def)

definition only_wireless :: "string list \<Rightarrow> bool" where
  "only_wireless ps \<longleftrightarrow> list_all (\<lambda>p. p = ''wireless'') ps"

lemma wp_wifi_write:
  "list_all update_ok us \<Longrightarrow> only_wireless ps \<Longrightarrow> wp (wifi_write E b us ps sk)
     (\<lambda>r es. list_all (allowed E) es \<and> (case r of Ok (ps', _) \<Rightarrow> only_wireless ps' | Err _ \<Rightarrow> True))"
proof (induction us arbitrary: ps sk)
  case (Cons u us)
  obtain path v where u: "u = (path, v)" by fastforce
  have args: "uci_args_ok [''set'', path @ ''='' @ v]"
    using Cons.prems(1) by (auto simp: u update_ok_def uci_args_ok_def)
  have ps: "only_wireless (if ps = [] then [''wireless''] else ps)" using Cons.prems(2) by (simp add: only_wireless_def)
  have us: "list_all update_ok us" using Cons.prems(1) by simp
  show ?case unfolding u wifi_write.simps
  proof (rule wp_bind, rule wp_mono [OF wp_uci_set [OF args]])
    fix r :: "string + unit" and es assume es: "list_all (allowed E) es"
    have "wp (wifi_write E b us ps (sk @ [path])) (\<lambda>y es'. list_all (allowed E) (es @ es') \<and>
        (case y of Ok (ps', _) \<Rightarrow> only_wireless ps' | Err _ \<Rightarrow> True))"
      by (rule wp_mono [OF Cons.IH [OF us Cons.prems(2)]]) (use es in simp)
    moreover have "wp (wifi_write E b us (if ps = [] then [''wireless''] else ps) sk) (\<lambda>y es'. list_all (allowed E) (es @ es') \<and>
        (case y of Ok (ps', _) \<Rightarrow> only_wireless ps' | Err _ \<Rightarrow> True))"
      by (rule wp_mono [OF Cons.IH [OF us ps]]) (use es in simp)
    moreover have "wp (uci_write E ''revert'' ''wireless'' None \<bind> (\<lambda>_. ret (Err (path @ '': '' @ e))))
        (\<lambda>y es'. list_all (allowed E) (es @ es') \<and> (case y of Ok (ps', _) \<Rightarrow> only_wireless ps' | Err _ \<Rightarrow> True))" for e
      by (rule wp_bind, rule wp_mono [OF wp_uci_plain], simp, rule wp_return) (use es in simp)
    ultimately show "wp (case r of Err e \<Rightarrow>
            if b then wifi_write E b us ps (sk @ [path])
            else uci_write E ''revert'' ''wireless'' None \<bind> (\<lambda>_. ret (Err (path @ '': '' @ e)))
        | Ok _ \<Rightarrow> wifi_write E b us (if ps = [] then [''wireless''] else ps) sk)
      (\<lambda>y es'. list_all (allowed E) (es @ es') \<and> (case y of Ok (ps', _) \<Rightarrow> only_wireless ps' | Err _ \<Rightarrow> True))"
      by (cases r; cases b) simp_all
  qed
qed (auto intro!: wp_return)

lemma wp_wifi_commit: "only_wireless ps \<Longrightarrow> wp (wifi_commit E ps) (\<lambda>_. list_all (allowed E))"
proof (induction ps)
  case (Cons p ps)
  then have p: "p = ''wireless''" and ps: "only_wireless ps" by (simp_all add: only_wireless_def)
  show ?case unfolding p wifi_commit.simps
    by (rule wp_bind, rule wp_mono [OF wp_uci_plain], simp)
      (auto split: sum.split intro!: wp_return wp_mono [OF Cons.IH [OF ps]])
qed (auto intro!: wp_return)

lemma radio_lookup_allowed: "radio_lookup e \<Longrightarrow> allowed E e"
  by (auto simp: radio_lookup_def radio_read_def)

lemma wp_wifi_finish:
  "only_wireless ps \<Longrightarrow> wp (wifi_finish E b ps sk) (\<lambda>r es. \<not> refused r \<and> list_all (allowed E) es)"
  unfolding wifi_finish_def
  by (auto split: sum.split intro!: wp_bind [of "wifi_commit E ps"] wp_mono [OF wp_wifi_commit] wp_bind [of "ubus E _ _ _"]
      wp_ubus wp_return)

lemma wp_wifi_set:
  assumes us: "list_all update_ok us"
  shows "wp (wifi_write E be us [] sk \<bind> (\<lambda>w. case w of Err e \<Rightarrow> ret (Failed e)
       | Ok (packages, skipped) \<Rightarrow> wifi_finish E b packages skipped)) (\<lambda>r es. \<not> refused r \<and> list_all (allowed E) es)"
  by (rule wp_bind, rule wp_mono [OF wp_wifi_write [OF us]], simp add: only_wireless_def)
    (auto split: sum.splits intro!: wp_return wp_mono [OF wp_wifi_finish])

lemma tame_wifi_set: "wp (wifi_apply_set E st b be) (tame E)"
  unfolding wifi_apply_set_def
proof (rule wp_bind, rule wp_mono [OF wp_radio_sections], clarify)
  fix radios es
  assume r: "list_all radio_name_ok radios" and es: "list_all (\<lambda>e. radio_read ''2g'' e \<or> radio_read ''5g'' e) es"
  then have "list_all radio_lookup es" "list_all (allowed E) es"
    using radio_lookup_allowed by (auto simp: radio_lookup_def list_all_iff)
  then show "wp (case wifi_updates E radios st of Err e \<Rightarrow> ret (Invalid e)
      | Ok (updates, skipped) \<Rightarrow> wifi_write E be updates [] skipped \<bind> (\<lambda>w. case w of Err e \<Rightarrow> ret (Failed e)
         | Ok (packages, skipped) \<Rightarrow> wifi_finish E b packages skipped)) (\<lambda>y es'. tame E y (es @ es'))"
    using wifi_updates_ok [OF r, of E st]
    by (auto split: sum.split intro!: wp_return wp_mono [OF wp_wifi_set] simp: tame_def)
qed

lemma tame_wifi_apply: "wp (wifi_apply E p) (tame E)"
  unfolding wifi_apply_def Let_def
  by (auto split: option.split json.split intro!: wp_return tame_wifi_set)

text \<open>Short messages.\<close>

lemma wp_sms_allowed:
  "wp (wait_sent E n) (\<lambda>_. list_all (allowed E))" "wp (current_slot E) (\<lambda>_. list_all (allowed E))"
  "wp (encrypt E C key t) (\<lambda>_. list_all (allowed E))"
  by (induction n) (auto simp: Let_def current_slot_def encrypt_def split: sum.split intro!: wp_rules elim!: wp_mono)

lemma wp_wait_slot_allowed: "wp (wait_slot E k n) (\<lambda>_. list_all (allowed E))"
proof (induction n)
  case (Suc n)
  show ?case unfolding wait_slot.simps
    by (rule wp_bind, rule wp_mono [OF wp_sms_allowed(2)]) (auto intro!: wp_rules wp_mono [OF Suc])
qed (auto intro!: wp_rules)

lemma wp_select_allowed: "wp (select_slot E k) (\<lambda>_. list_all (allowed E))"
  unfolding select_slot_def provision_def Let_def
  by (auto split: sum.split intro!: wp_rules wp_mono [OF wp_wait_slot_allowed] simp del: wait_slot.simps)

lemma wp_ensure_allowed: "wp (ensure_crypto_session E C) (\<lambda>_. list_all (allowed E))"
  unfolding ensure_crypto_session_def
  by (rule wp_get) (auto split: sum.split option.split intro!: wp_rules)

lemma wp_host_allowed: "wp (send_host E C number t sms_time) (\<lambda>_. list_all (allowed E))"
  unfolding send_host_def
  by (rule wp_bind, rule wp_mono [OF wp_ensure_allowed])
    (auto split: sum.split intro!: wp_rules wp_mono [OF wp_sms_allowed(3)] wp_mono [OF wp_sms_allowed(1)]
      simp del: wait_sent.simps)

lemma wp_external_allowed: "wp (send_external E sender number t sms_time) (\<lambda>_. list_all (allowed E))"
  unfolding send_external_def Let_def by (auto intro!: wp_rules simp: sms_urls_def)

lemma emits_if: "emits P a \<Longrightarrow> emits P b \<Longrightarrow> emits P (if c then a else b)"
  by simp

lemma wp_send_allowed: "emits (allowed E) (send E C m)"
proof -
  have h: "emits (allowed E) (send_host E C n t s)" "emits (allowed E) (send_external E sn n t s)"
      "emits (allowed E) (current_slot E)" "emits (allowed E) (select_slot E k)" for sn n t s k
    unfolding emits_def by (fact wp_host_allowed wp_external_allowed wp_sms_allowed(2) wp_select_allowed)+
  have v: "emits (allowed E) (send_host E C n t s \<bind> (\<lambda>r. ret (f r)))" "emits (allowed E) (send_external E sn n t s \<bind> (\<lambda>r. ret (f r)))"
    for sn n t s and f :: "string + json \<Rightarrow> (bool \<times> string) + json"
    by (rule emits_bind; simp add: h)+
  have sl: "emits (allowed E) (do {
      sl \<leftarrow> current_slot E;
      r \<leftarrow> (if sl \<noteq> k then select_slot E slot else ret (Ok ()));
      case r of Err e \<Rightarrow> ret (Err (False, e)) | Ok _ \<Rightarrow> send_host E C n t s \<bind> (\<lambda>r. ret (f r)) })"
    for slot n t s k and f :: "string + json \<Rightarrow> (bool \<times> string) + json"
    by (rule emits_bind [OF h(3)], rule emits_bind) (simp_all add: h v split: sum.split)
  show ?thesis unfolding send_def Let_def using v sl by (simp del: bind_assoc split: option.split)
qed

lemma wp_list_store_allowed:
  assumes "\<And>store page. emits P (fetch store page)"
  shows "emits P (list_store fetch a store n page prev found)"
proof (induction n arbitrary: page prev found)
  case (Suc n)
  show ?case unfolding list_store.simps Let_def
    by (rule emits_bind [OF assms]) (auto split: sum.split prod.split intro!: Suc)
qed simp

lemma emits_list_after_with:
  assumes "\<And>store page. emits P (fetch store page)"
  shows "emits P (list_after_with a limit fetch)"
proof -
  have "emits P (list_stores fetch a ss found)" for ss found
    by (induction ss arbitrary: found)
      (auto split: sum.split intro!: emits_bind wp_list_store_allowed [OF assms])
  then show ?thesis unfolding list_after_with_def by (auto intro!: emits_bind simp del: list_stores.simps)
qed

lemma wp_list_after: "wp (list_after E C m) (\<lambda>r es. list_all (allowed E) es \<and> (\<forall>why. r = Err (True, why) \<longrightarrow> es = []))"
proof -
  let ?fetch = "\<lambda>store page. ubus E ''zwrt_wms'' ''zte_libwms_get_sms_data'' (list_page_args store page)"
  have "emits (allowed E) (?fetch store page)" for store page
    unfolding emits_def by (auto intro!: wp_rules)
  then have l: "wp (list_after_with a n ?fetch) (\<lambda>_. list_all (allowed E))" for a n
    using emits_list_after_with [of "allowed E" ?fetch a n] unfolding emits_def by blast
  have num: "list_number m k d = Err e \<Longrightarrow> fst e" for k d e
    by (auto simp: list_number_def split: option.splits)
  show ?thesis unfolding list_after_def
    by (auto split: sum.split prod.split intro!: wp_return wp_bind [of "list_after_with _ _ _"] wp_mono [OF l] wp_get)
qed

lemma tame_sms_action:
  assumes "\<And>m. wp (f m) (\<lambda>r es. list_all (allowed E) es \<and> (\<forall>why. r = Err (True, why) \<longrightarrow> es = []))"
  shows "wp (sms_action p f) (tame E)"
  unfolding sms_action_def
  by (auto split: option.split intro!: wp_bind wp_return wp_mono [OF assms]
      simp: tame_def sms_outcome_def split: sum.splits prod.splits bool.splits)

lemma wp_send_refused: "wp (send E C m) (\<lambda>r es. list_all (allowed E) es \<and> (\<forall>why. r = Err (True, why) \<longrightarrow> es = []))"
  using wp_conj [OF wp_send_allowed [unfolded emits_def] wp_send [of E C m]]
  by (rule wp_mono) (simp add: sent_once_def)

lemmas tame_rules = tame_ctl_call tame_mapped_call tame_cellular_set tame_register tame_redial tame_pdp tame_band tame_apn
  tame_direct_supply tame_nfc tame_usb tame_wifi_module tame_vendor tame_doh tame_db_delete tame_power_save tame_wifi_apply
  tame_sms_action [OF wp_send_refused] tame_sms_action [OF wp_list_after]

lemma tame_at: "wp (do { r \<leftarrow> at_send E c; ret (at_outcome r) }) (tame E)"
  by (auto intro!: wp_rules simp: tame_def at_outcome_def split: sum.splits)

lemma tame_arms: "list_all (\<lambda>(_, h). wp h (tame E)) (arms E C p)"
  unfolding arms_def by (simp add: tame_rules tame_at)

lemma tame_execute: "wp (ctl_execute E C act p) (tame E)"
proof (cases "map_of (arms E C p) act")
  case (Some h)
  then have "(act, h) \<in> set (arms E C p)" by (rule map_of_SomeD)
  then show ?thesis using tame_arms [of E C p] Some by (auto simp: ctl_execute_def list_all_iff)
qed (simp add: ctl_execute_def wp_return)

text \<open>
  Property C18. Whatever the action, its parameters and the device's answers, the control layer only
  makes the calls, runs the commands, touches the files and posts to the addresses it is meant to: the
  vendor methods of its tables, \<open>uci\<close> on listed Wi-Fi options with clean values, two fixed shell scripts,
  \<open>iw\<close> on the listed interfaces, an SQL statement made of digits and commas. A request it refuses as
  invalid or unknown has written nothing; at most the names of the radio sections were read.
\<close>

theorem execute_tame:
  assumes "device_ok w" "run_state (ctl_execute E C act params) w = (r, w')"
  shows "\<exists>es. w_log w' = w_log w @ es \<and> list_all (allowed E) es \<and> (refused r \<longrightarrow> list_all radio_lookup es)"
  using wpD [OF tame_execute [of E C act params] assms(1)] assms(2) unfolding tame_def by (metis prod.inject)

theorem execute_tame_witness:
  "\<exists>r w' es. run_state (ctl_execute sample_env sample_crypto ''band.set_lte'' (jobj [(''bands'', JString ''1,3;reboot'')])) sample_world = (r, w') \<and>
     r = Invalid ''bands must contain only numbers and commas'' \<and>
     w_log w' = w_log sample_world @ es \<and> list_all (allowed sample_env) es \<and> list_all radio_lookup es"
proof -
  let ?p = "jobj [(''bands'', JString ''1,3;reboot'')]"
  obtain r w' where run: "run_state (ctl_execute sample_env sample_crypto ''band.set_lte'' ?p) sample_world = (r, w')" by fastforce
  have "param_string ?p ''bands'' False = Ok (Some ''1,3;reboot'')"
    by (simp add: param_string_def object_def jobj_def map_from_def)
  moreover have "\<not> list_all (\<lambda>c. is_digit c \<or> c = CHR '','') ''1,3;reboot''" by code_simp
  ultimately have r: "r = Invalid ''bands must contain only numbers and commas''"
    using run by (auto simp: ctl_execute_def arms_def band_def)
  have "device_ok sample_world" by (simp add: device_ok_def sample_world_def)
  then show ?thesis using execute_tame [OF _ run] run r by auto
qed

section \<open>Success means the device shows it\<close>

text \<open>The reading that shows the state an action was asked for.\<close>

inductive confirms :: "string \<Rightarrow> json \<Rightarrow> dev_event \<Rightarrow> bool" where
  supply_shown: "direct_supply_enabled params = Ok wanted \<Longrightarrow> supply_mode reply = Some (on_off wanted) \<Longrightarrow>
     confirms ''power.direct_supply.set'' params (Ubus ''zwrt_bsp.charger'' ''list'' (jobj []) (Ok reply))"
| share_shown: "param_string params ''mode'' True = Ok (Some ''share'') \<Longrightarrow> is_device reply \<Longrightarrow>
     confirms ''usb.attach_mode'' params (Ubus ''zwrt_bsp.typec'' ''list'' (jobj []) (Ok reply))"
| charge_shown: "param_string params ''mode'' True = Ok (Some ''fast_charge'') \<Longrightarrow> bank_on reply \<Longrightarrow>
     confirms ''usb.attach_mode'' params
       (Ubus ''zwrt_bsp.powerbank'' ''get'' (jobj [(''property'', JString ''state'')]) (Ok reply))"

definition ends_with_reading :: "(dev_event \<Rightarrow> bool) \<Rightarrow> dev_event list \<Rightarrow> bool" where
  "ends_with_reading P es \<longleftrightarrow> es \<noteq> [] \<and> P (last es)"

lemma ends_append: "ends_with_reading P es' \<Longrightarrow> ends_with_reading P (es @ es')"
  "ends_with_reading P es' \<Longrightarrow> ends_with_reading P (e # es')"
  by (simp_all add: ends_with_reading_def)

lemma map_sum_e_text: "map_sum f id r = Ok x \<longleftrightarrow> r = Ok x"
  by (cases r) auto

lemma ok_opt_Some: "ok_opt r = Some x \<longleftrightarrow> r = Ok x"
  by (cases r) (auto simp: ok_opt_def)

lemma wp_supply_confirm_reads:
  "wp (supply_confirm E x n b) (\<lambda>ok es. ok \<longrightarrow> ends_with_reading
     (\<lambda>e. \<exists>reply. e = Ubus ''zwrt_bsp.charger'' ''list'' (jobj []) (Ok reply) \<and> supply_mode reply = Some x) es)"
proof (induction n arbitrary: b)
  case (Suc n)
  show ?case unfolding supply_confirm.simps
    by (rule wp_bind, cases b)
      (auto intro!: wp_rules wp_mono [OF Suc] simp: ends_append map_sum_e_text ends_with_reading_def bind_eq_Some_conv ok_opt_Some)
qed (simp add: wp_return)

lemma wp_poll_reads:
  "wp (poll_from E obj m a n b P) (\<lambda>ok es. ok \<longrightarrow> ends_with_reading (\<lambda>e. \<exists>reply. e = Ubus obj m a (Ok reply) \<and> P reply) es)"
proof (induction n arbitrary: b)
  case (Suc n)
  show ?case unfolding poll_from.simps
    by (rule wp_bind, cases b)
      (auto intro!: wp_rules wp_mono [OF Suc] simp: ends_append map_sum_e_text ends_with_reading_def is_some_and_conv ok_opt_Some)
qed (simp add: wp_return)

lemma wp_ends_imp:
  "wp m (\<lambda>ok es. ok \<longrightarrow> ends_with_reading P es) \<Longrightarrow> (\<And>e. P e \<Longrightarrow> R e) \<Longrightarrow>
     wp m (\<lambda>ok es. ok \<longrightarrow> ends_with_reading R es)"
  by (erule wp_mono) (auto simp: ends_with_reading_def)

lemma wp_supply_write_reads:
  assumes "direct_supply_enabled p = Ok wanted"
  shows "wp (supply_write E wanted) (\<lambda>r es. (\<exists>v. r = Done v) \<longrightarrow> ends_with_reading (confirms ''power.direct_supply.set'' p) es)"
proof -
  have conf: "wp (supply_confirm E (on_off wanted) 5 True) (\<lambda>ok es. ok \<longrightarrow>
      ends_with_reading (confirms ''power.direct_supply.set'' p) es)"
    by (rule wp_ends_imp [OF wp_supply_confirm_reads]) (auto intro: supply_shown [OF assms])
  show ?thesis unfolding supply_write_def
    by (auto intro!: wp_bind [of "executor_call E _ _ _"] wp_executor_call wp_return wp_bind [of "supply_confirm E _ _ _"]
        wp_mono [OF conf] simp: ends_append simp del: supply_confirm.simps)
qed

lemma wp_direct_supply_reads:
  "wp (direct_supply E p) (\<lambda>r es. (\<exists>v. r = Done v) \<longrightarrow> ends_with_reading (confirms ''power.direct_supply.set'' p) es)"
proof (cases "direct_supply_enabled p")
  case (Inl e)
  then show ?thesis by (auto simp: direct_supply_def invalid_def split: param_error.split intro!: wp_return)
next
  case (Inr wanted)
  have now: "ends_with_reading (confirms ''power.direct_supply.set'' p) [Ubus ''zwrt_bsp.charger'' ''list'' (jobj []) r]"
    if "map_sum (e_text E) id r = Ok before" "supply_mode before = Some (on_off wanted)" for r before
    using that supply_shown [OF Inr] by (auto simp: ends_with_reading_def map_sum_e_text)
  have tail: "wp (supply_write E wanted) (\<lambda>y es'. (\<exists>v. y = Done v) \<longrightarrow> ends_with_reading (confirms ''power.direct_supply.set'' p) (e # es'))" for e
    by (rule wp_mono [OF wp_supply_write_reads [OF Inr]]) (simp add: ends_append)
  show ?thesis unfolding direct_supply_def Inr sum.case
    by (rule wp_bind, rule wp_ubus) (use now tail in \<open>auto split: sum.split intro!: wp_return simp: on_off_def\<close>)
qed

lemma wp_usb_share_reads:
  assumes p: "param_string p ''mode'' True = Ok (Some ''share'')"
    and now: "is_device typec \<Longrightarrow> ends_with_reading (confirms ''usb.attach_mode'' p) [e]"
  shows "wp (usb_share E typec b) (\<lambda>r es. (\<exists>v. r = Done v) \<longrightarrow> ends_with_reading (confirms ''usb.attach_mode'' p) (e # es))"
proof -
  have poll: "wp (poll_from E ''zwrt_bsp.typec'' ''list'' (jobj []) 15 True is_device)
      (\<lambda>ok es. ok \<longrightarrow> ends_with_reading (confirms ''usb.attach_mode'' p) es)"
    by (rule wp_ends_imp [OF wp_poll_reads]) (auto intro: share_shown [OF p])
  have after: "wp (ctl_call E ''zwrt_bsp.typec'' ''set'' x \<bind> (\<lambda>c. case c of Failed e \<Rightarrow> ret (Failed e)
      | _ \<Rightarrow> do { ok \<leftarrow> poll_from E ''zwrt_bsp.typec'' ''list'' (jobj []) 15 True is_device;
             ret (if ok then usb_done ''share'' True else Failed m) }))
      (\<lambda>r es. (\<exists>v. r = Done v) \<longrightarrow> ends_with_reading (confirms ''usb.attach_mode'' p) es)" for x m
    unfolding ctl_call_def
    by (auto split: outcome.split intro!: wp_bind [of "executor_call E _ _ _"] wp_executor_call wp_return
        wp_bind [of "poll_from E _ _ _ _ _ _"] wp_mono [OF poll] simp: ends_append simp del: poll_from.simps)
  show ?thesis unfolding usb_share_def poll_until_def
    by (auto split: sum.split option.split if_splits intro!: wp_bind [of "ubus E _ _ _"] wp_ubus wp_return wp_mono [OF after]
        simp: ends_append now simp del: poll_from.simps)
qed

lemma wp_usb_charge_reads:
  assumes p: "param_string p ''mode'' True = Ok (Some ''fast_charge'')"
  shows "wp (usb_fast_charge E) (\<lambda>r es. (\<exists>v. r = Done v) \<longrightarrow> ends_with_reading (confirms ''usb.attach_mode'' p) es)"
proof -
  let ?get = "jobj [(''property'', JString ''state'')]"
  have poll: "wp (poll_from E ''zwrt_bsp.powerbank'' ''get'' ?get 10 True bank_on)
      (\<lambda>ok es. ok \<longrightarrow> ends_with_reading (confirms ''usb.attach_mode'' p) es)"
    by (rule wp_ends_imp [OF wp_poll_reads]) (auto intro: charge_shown [OF p])
  show ?thesis unfolding usb_fast_charge_def poll_until_def ctl_call_def Let_def
    by (auto split: sum.split outcome.split intro!: wp_bind [of "ubus E _ _ _"] wp_ubus wp_return wp_bind [of "executor_call E _ _ _"] wp_executor_call
        wp_bind [of "poll_from E _ _ _ _ _ _"] wp_mono [OF poll] simp: ends_append map_sum_e_text ends_with_reading_def [of _ "[_]"]
        charge_shown [OF p] simp del: poll_from.simps)
qed

lemma wp_usb_reads:
  assumes "param_string p ''mode'' True \<noteq> Ok (Some ''accessory'')"
  shows "wp (usb_attach_mode E p) (\<lambda>r es. (\<exists>v. r = Done v) \<longrightarrow> ends_with_reading (confirms ''usb.attach_mode'' p) es)"
proof (cases "param_string p ''mode'' True = Ok (Some ''share'')")
  case True
  have now: "ends_with_reading (confirms ''usb.attach_mode'' p) [Ubus ''zwrt_bsp.typec'' ''list'' (jobj []) (Ok v)]"
    if "is_device v" for v
    using that share_shown [OF True] by (simp add: ends_with_reading_def)
  show ?thesis using True now
    by (auto simp: usb_attach_mode_def invalid_def map_sum_e_text split: sum.split param_error.split
        intro!: wp_return wp_bind [of "ubus E _ _ _"] wp_ubus wp_usb_share_reads [OF True])
next
  case ns: False
  show ?thesis
  proof (cases "param_string p ''mode'' True = Ok (Some ''fast_charge'')")
    case True
    have "wp (usb_fast_charge E) (\<lambda>r es. (\<exists>v. r = Done v) \<longrightarrow> ends_with_reading (confirms ''usb.attach_mode'' p) (e # es))" for e
      by (rule wp_mono [OF wp_usb_charge_reads [OF True]]) (simp add: ends_append)
    then show ?thesis using True
      by (auto simp: usb_attach_mode_def invalid_def usb_modes_def split: sum.split param_error.split
          intro!: wp_return wp_bind [of "ubus E _ _ _"] wp_ubus)
  next
    case False
    then show ?thesis using ns assms
      by (auto simp: usb_attach_mode_def invalid_def usb_modes_def split: sum.split option.split param_error.split intro!: wp_return)
  qed
qed

text \<open>
  When switching the direct power supply or the USB use of an attached device (charging
  and sharing, or fast charging) reports success, the last thing the service did was to read the
  device's state, and that reading showed the requested state; an acknowledged write alone is never
  reported as success.
\<close>

theorem success_is_read_back:
  assumes "device_ok w" "run_state (ctl_execute E C act params) w = (Done v, w')"
    and "act = ''power.direct_supply.set'' \<or>
      act = ''usb.attach_mode'' \<and> param_string params ''mode'' True \<noteq> Ok (Some ''accessory'')"
  shows "\<exists>es e. w_log w' = w_log w @ es @ [e] \<and> confirms act params e"
proof -
  have "wp (ctl_execute E C act params) (\<lambda>r es. (\<exists>v. r = Done v) \<longrightarrow> ends_with_reading (confirms act params) es)"
  proof -
    have d: "ctl_execute E C ''power.direct_supply.set'' params = direct_supply E params"
      and u: "ctl_execute E C ''usb.attach_mode'' params = usb_attach_mode E params"
      by (simp_all add: ctl_execute_def arms_def)
    from assms(3) show ?thesis
    proof (elim disjE conjE)
      assume a: "act = ''power.direct_supply.set''"
      show ?thesis unfolding a d by (rule wp_direct_supply_reads)
    next
      assume a: "act = ''usb.attach_mode''" and m: "param_string params ''mode'' True \<noteq> Ok (Some ''accessory'')"
      show ?thesis unfolding a u using m by (rule wp_usb_reads)
    qed
  qed
  from wpD [OF this assms(1)] obtain r1 w1 es where "run_state (ctl_execute E C act params) w = (r1, w1)"
      "w_log w1 = w_log w @ es" "(\<exists>v. r1 = Done v) \<longrightarrow> ends_with_reading (confirms act params) es" .
  then have "w_log w' = w_log w @ es" "ends_with_reading (confirms act params) es" using assms(2) by auto
  then show ?thesis unfolding ends_with_reading_def by (metis append_butlast_last_id)
qed

definition charger_env :: env where
  "charger_env = sample_env\<lparr>e_ubus := \<lambda>l obj m args.
     Ok (jobj (if m = ''list'' then [(''direct_power_supply_mode'', JString (if length l < 2 then ''disable'' else ''enable''))] else []))\<rparr>"

theorem success_is_read_back_witness:
  "\<exists>v w' es e. run_state (ctl_execute charger_env sample_crypto ''power.direct_supply.set'' (jobj [(''enabled'', JBool True)])) sample_world
      = (Done v, w') \<and> w_log w' = w_log sample_world @ es @ [e] \<and>
     confirms ''power.direct_supply.set'' (jobj [(''enabled'', JBool True)]) e"
proof -
  let ?p = "jobj [(''enabled'', JBool True)]"
  have "direct_supply_enabled ?p = Ok True"
    by (simp add: direct_supply_enabled_def object_def jobj_def map_from_def param_boolean_def bool_of_json_def)
  moreover have call: "run_state (executor_call charger_env obj m a) w = (let r = Ok (jobj (if m = ''list'' then
        [(''direct_power_supply_mode'', JString (if length (w_log w) < 2 then ''disable'' else ''enable''))] else []))
      in (r, w\<lparr>w_log := w_log w @ [Ubus obj m a r]\<rparr>))" for obj m a w
    by (simp add: executor_call_def log_event_def charger_env_def)
  moreover have mode: "supply_mode (jobj [(''direct_power_supply_mode'', JString s)]) = Some s" for s
    by (simp add: supply_mode_def jget_jobj map_from_def as_str_def)
  moreover have "\<not> direct_supply_write_failed (Ok (jobj []))"
    by (simp add: direct_supply_write_failed_def jobj_def map_from_def)
  ultimately obtain v w' where run: "run_state (ctl_execute charger_env sample_crypto ''power.direct_supply.set'' ?p) sample_world = (Done v, w')"
    by (simp add: ctl_execute_def arms_def direct_supply_def supply_write_def ubus_def Let_def sample_world_def on_off_def
        numeral_eq_Suc ok_opt_def supply_done_def del: bind_assoc)
  have "device_ok sample_world" by (simp add: device_ok_def sample_world_def)
  then show ?thesis using success_is_read_back [OF _ run] run by blast
qed

section \<open>The list of actions\<close>

text \<open>The advertised actions and the later ones are exactly the actions with a handler.\<close>

lemma handled_actions: "set (map fst (arms E C params)) = set (control_actions @ e4_actions)"
  by (auto simp: arms_def control_actions_def e4_actions_def)

section \<open>Wi-Fi options are applied together\<close>

definition is_uci :: "string \<Rightarrow> dev_event \<Rightarrow> bool" where
  "is_uci op e = (case e of Run _ args _ _ \<Rightarrow> args \<noteq> [] \<and> hd args = op | _ \<Rightarrow> False)"

definition ran_ok :: "dev_event \<Rightarrow> bool" where
  "ran_ok e = (case e of Run _ _ _ r \<Rightarrow> is_ok r | _ \<Rightarrow> True)"

lemma is_uci_simps [simp]: "is_uci op (Run p as d r) \<longleftrightarrow> as \<noteq> [] \<and> hd as = op" "\<not> is_uci op (Ubus a b c q)"
  by (simp_all add: is_uci_def)

lemma ran_ok_simps [simp]: "ran_ok (Run p as d r) = is_ok r"
  by (simp add: ran_ok_def)

text \<open>All options so far were set; or one was not, and the last dev_event takes them back.\<close>

definition all_set :: "dev_event list \<Rightarrow> bool" where
  "all_set es \<longleftrightarrow> (\<forall>e \<in> set es. is_uci ''set'' e \<longrightarrow> ran_ok e)"

definition no_commit :: "dev_event list \<Rightarrow> bool" where
  "no_commit es \<longleftrightarrow> (\<forall>e \<in> set es. \<not> is_uci ''commit'' e)"

definition taken_back :: "dev_event list \<Rightarrow> bool" where
  "taken_back es \<longleftrightarrow> es \<noteq> [] \<and> is_uci ''revert'' (last es)"

lemma all_set_simps [simp]: "all_set []" "all_set (e # es) \<longleftrightarrow> (is_uci ''set'' e \<longrightarrow> ran_ok e) \<and> all_set es"
  "all_set (xs @ ys) \<longleftrightarrow> all_set xs \<and> all_set ys"
  by (auto simp: all_set_def)

lemma no_commit_simps [simp]: "no_commit []" "no_commit (e # es) \<longleftrightarrow> \<not> is_uci ''commit'' e \<and> no_commit es"
  "no_commit (xs @ ys) \<longleftrightarrow> no_commit xs \<and> no_commit ys"
  by (auto simp: no_commit_def)

lemma taken_back_append: "taken_back ys \<Longrightarrow> taken_back (xs @ ys)"
  by (auto simp: taken_back_def)

lemma is_ok_map_sum [simp]: "is_ok (map_sum id f r) = is_ok r"
  by (cases r) auto

lemma wp_uci_set_exact:
  "wp (uci_write E ''set'' path (Some v)) (\<lambda>r es. no_commit es \<and> (is_ok r \<longrightarrow> all_set es))"
  unfolding uci_write_def by (simp add: wp_return) (intro impI wp_bind wp_command_run wp_return, simp)

lemma uci_path_wireless: "uci_path_ok ''wireless''"
  by code_simp

lemma wp_uci_revert: "wp (uci_write E ''revert'' ''wireless'' None) (\<lambda>r es. no_commit es \<and> taken_back es)"
  unfolding uci_write_def
  by (simp add: uci_path_wireless) (intro wp_bind wp_command_run wp_return, simp add: taken_back_def)

lemma wp_uci_commit: "wp (uci_write E ''commit'' p None) (\<lambda>r es. all_set es)"
  unfolding uci_write_def by (simp add: wp_return) (intro impI wp_bind wp_command_run wp_return, simp)

definition together :: "bool \<Rightarrow> dev_event list \<Rightarrow> bool" where
  "together ok es \<longleftrightarrow> no_commit es \<and> (if ok then all_set es else taken_back es)"

lemma wp_wifi_write_together: "wp (wifi_write E False us ps sk) (\<lambda>r. together (is_ok r))"
proof (induction us arbitrary: ps sk)
  case (Cons u us)
  obtain path v where u: "u = (path, v)" by fastforce
  show ?case unfolding u wifi_write.simps
  proof (rule wp_bind, rule wp_mono [OF wp_uci_set_exact])
    fix r :: "string + unit" and es assume es: "no_commit es \<and> (is_ok r \<longrightarrow> all_set es)"
    have "wp (uci_write E ''revert'' ''wireless'' None \<bind> (\<lambda>_. ret (Err x))) (\<lambda>y es'. together (is_ok y) (es @ es'))"
        for x :: string
      by (rule wp_bind, rule wp_mono [OF wp_uci_revert], rule wp_return)
        (use es in \<open>simp add: together_def taken_back_append\<close>)
    moreover have "wp (wifi_write E False us qs sk) (\<lambda>y es'. together (is_ok y) (es @ es'))" if "is_ok r" for qs
      by (rule wp_mono [OF Cons.IH]) (use es that in \<open>auto simp: together_def taken_back_append split: if_splits\<close>)
    ultimately show "wp (case r of Err e \<Rightarrow>
            if False then wifi_write E False us ps (sk @ [path])
            else uci_write E ''revert'' ''wireless'' None \<bind> (\<lambda>_. ret (Err (path @ '': '' @ e)))
        | Ok _ \<Rightarrow> wifi_write E False us (if ps = [] then [''wireless''] else ps) sk)
      (\<lambda>y es'. together (is_ok y) (es @ es'))"
      by (cases r) simp_all
  qed
qed (auto intro!: wp_return simp: together_def)

lemma wp_wifi_commit_sets: "wp (wifi_commit E ps) (\<lambda>_. all_set)"
proof (induction ps)
  case (Cons p ps)
  show ?case unfolding wifi_commit.simps
    by (rule wp_bind, rule wp_mono [OF wp_uci_commit]) (auto split: sum.split intro!: wp_return wp_mono [OF Cons])
qed (simp add: wp_return)

lemma wp_wifi_finish_sets: "wp (wifi_finish E b ps sk) (\<lambda>_. all_set)"
  unfolding wifi_finish_def
  by (auto split: sum.split intro!: wp_bind [of "wifi_commit E ps"] wp_mono [OF wp_wifi_commit_sets] wp_bind [of "ubus E _ _ _"]
      wp_ubus wp_return)

definition applied_together :: "dev_event list \<Rightarrow> bool" where
  "applied_together es \<longleftrightarrow> (all_set es \<or> no_commit es \<and> taken_back es)"

lemma radio_reads_sets: "list_all (\<lambda>e. radio_read ''2g'' e \<or> radio_read ''5g'' e) es \<Longrightarrow> all_set es \<and> no_commit es"
  by (induction es) (auto simp: radio_read_def)

lemma wp_wifi_set_together: "wp (wifi_apply_set E st b False) (\<lambda>_. applied_together)"
  unfolding wifi_apply_set_def
proof (rule wp_bind, rule wp_mono [OF wp_radio_sections], clarify)
  fix radios es
  assume "list_all (\<lambda>e. radio_read ''2g'' e \<or> radio_read ''5g'' e) es"
  then have es: "all_set es" "no_commit es" using radio_reads_sets by auto
  have "wp (wifi_write E False us [] sk \<bind> (\<lambda>w. case w of Err e \<Rightarrow> ret (Failed e)
         | Ok (packages, skipped) \<Rightarrow> wifi_finish E b packages skipped)) (\<lambda>y es'. applied_together (es @ es'))" for us sk
    by (rule wp_bind, rule wp_mono [OF wp_wifi_write_together])
      (use es in \<open>auto split: sum.splits intro!: wp_return wp_mono [OF wp_wifi_finish_sets]
        simp: applied_together_def together_def taken_back_append\<close>)
  then show "wp (case wifi_updates E radios st of Err e \<Rightarrow> ret (Invalid e)
      | Ok (updates, skipped) \<Rightarrow> wifi_write E False updates [] skipped \<bind> (\<lambda>w. case w of Err e \<Rightarrow> ret (Failed e)
         | Ok (packages, skipped) \<Rightarrow> wifi_finish E b packages skipped)) (\<lambda>y es'. applied_together (es @ es'))"
    using es by (auto split: sum.split intro!: wp_return simp: applied_together_def)
qed

text \<open>
  Unless the caller asked for best effort, \<open>wifi.apply\<close> applies its options together: either
  every option that was written was accepted, or nothing was committed and the last thing done was to
  take the uncommitted options back.
\<close>

theorem wifi_apply_together:
  assumes "device_ok w" "object params = Some m" "Option.bind (map_of m ''best_effort'') as_bool \<noteq> Some True"
    and "run_state (wifi_apply E params) w = (r, w')"
  shows "\<exists>es. w_log w' = w_log w @ es \<and> applied_together es"
proof -
  have "wp (wifi_apply E params) (\<lambda>_. applied_together)"
    using assms(2,3) wp_wifi_set_together
    by (auto simp: wifi_apply_def Let_def applied_together_def split: option.split json.split intro!: wp_return)
  from wpD [OF this assms(1)] show ?thesis using assms(4) by (metis prod.inject)
qed

theorem wifi_apply_together_witness:
  "\<exists>r w' es. run_state (wifi_apply sample_env (jobj [(''set'', jobj [(''wireless.main_2g.ssid'', JString ''home'')])])) sample_world = (r, w') \<and>
     w_log w' = w_log sample_world @ es \<and> applied_together es"
proof -
  let ?p = "jobj [(''set'', jobj [(''wireless.main_2g.ssid'', JString ''home'')])]"
  obtain r w' where run: "run_state (wifi_apply sample_env ?p) sample_world = (r, w')" by fastforce
  have "object ?p = Some [(''set'', jobj [(''wireless.main_2g.ssid'', JString ''home'')])]"
    by (simp add: object_def jobj_def map_from_def)
  moreover have "device_ok sample_world" by (simp add: device_ok_def sample_world_def)
  ultimately show ?thesis using wifi_apply_together [OF _ _ _ run] run by simp
qed

end
