(* ===== verification/Auth.thy ===== *)
theory Auth
  imports Sms
begin

unbundle bit_operations_syntax

text \<open>
  Sessions and the check of credentials (\<^verbatim>\<open>rust/src/auth.rs\<close>). The clock and the random bytes of a new
  token are arguments; SHA-256 is the argument \<open>sha\<close> (upper-case hexadecimal of the digest).
\<close>

section \<open>The model\<close>

definition session_ttl :: u64 where "session_ttl = 12 * 60 * 60"
definition session_limit :: nat where "session_limit = 16"

record session =
  s_token :: string
  s_expires_at :: u64

definition byte_of :: "char \<Rightarrow> u8" where
  "byte_of c = of_nat (of_char c)"

definition secure_eq :: "string \<Rightarrow> string \<Rightarrow> bool" where
  "secure_eq a b \<longleftrightarrow> length a = length b \<and>
     fold (\<lambda>(x, y) diff. diff OR (byte_of x XOR byte_of y)) (zip a b) 0 = 0"

text \<open>The first session with the token gets a new end; \<open>None\<close> when there is none.\<close>

fun renew :: "u64 \<Rightarrow> string \<Rightarrow> session list \<Rightarrow> session list option" where
  "renew now token [] = None"
| "renew now token (s # ss) =
     (if secure_eq (s_token s) token then Some (s\<lparr>s_expires_at := now + session_ttl\<rparr> # ss)
      else map_option (Cons s) (renew now token ss))"

definition validate :: "u64 \<Rightarrow> string \<Rightarrow> session list \<Rightarrow> bool \<times> session list" where
  "validate now token ss =
     (let live = filter (\<lambda>s. now < s_expires_at s) ss in
      case renew now token live of Some ss' \<Rightarrow> (True, ss') | None \<Rightarrow> (False, live))"

text \<open>\<open>enumerate().min_by_key()\<close>: the position of the first session that ends earliest.\<close>

fun oldest_from :: "nat \<Rightarrow> session list \<Rightarrow> (nat \<times> session) option" where
  "oldest_from i [] = None"
| "oldest_from i (s # ss) =
     (case oldest_from (i + 1) ss of
        None \<Rightarrow> Some (i, s)
      | Some (j, t) \<Rightarrow> if s_expires_at s \<le> s_expires_at t then Some (i, s) else Some (j, t))"

definition oldest :: "session list \<Rightarrow> nat" where
  "oldest ss = (case oldest_from 0 ss of Some (i, _) \<Rightarrow> i | None \<Rightarrow> 0)"

definition remove_at :: "nat \<Rightarrow> 'a list \<Rightarrow> 'a list" where
  "remove_at i xs = take i xs @ drop (i + 1) xs"

definition token_of :: "string \<Rightarrow> string" where
  "token_of bytes = concat (map hex_byte bytes)"

text \<open>
  \<open>bytes\<close>: the 24 random bytes, \<open>None\<close> when they cannot be read. The clock is read once for the end of the
  session and again for each session looked at.
\<close>

definition issue :: "string option \<Rightarrow> u64 \<Rightarrow> (session \<Rightarrow> u64) \<Rightarrow> session list \<Rightarrow> (string \<times> u64) option \<times> session list" where
  "issue bytes now later ss =
     (case bytes of
        None \<Rightarrow> (None, ss)
      | Some bytes \<Rightarrow>
          (let token = token_of bytes;
               expires_at = now + session_ttl;
               ss = filter (\<lambda>s. later s < s_expires_at s) ss;
               ss = (if session_limit \<le> length ss then remove_at (oldest ss) ss else ss)
           in (Some (token, expires_at), ss @ [\<lparr>s_token = token, s_expires_at = expires_at\<rparr>])))"

subsection \<open>Credentials\<close>

definition success_text :: "string \<Rightarrow> bool" where
  "success_text v \<longleftrightarrow> to_ascii_lowercase v \<in>
     set [''success'', ''ok'', ''true'', ''pass'', ''passed'', ''logged'', ''logined'', ''done'']"

definition truthy :: "json \<Rightarrow> bool" where
  "truthy v \<longleftrightarrow> as_bool v = Some True \<or> as_i64 v = Some 1 \<or> is_some_and (as_str v) (\<lambda>s. s = ''1'' \<or> success_text s)"

text \<open>The third loop: the first key that holds a number or a text decides.\<close>

fun result_code :: "json \<Rightarrow> string list \<Rightarrow> bool option" where
  "result_code v [] = None"
| "result_code v (k # ks) =
     (case jget k v of
        None \<Rightarrow> result_code v ks
      | Some x \<Rightarrow>
          (case as_i64 x of
             Some n \<Rightarrow> Some (n = 0)
           | None \<Rightarrow>
               (case as_str x of
                  Some t \<Rightarrow> (case parse_i64 t of Some n \<Rightarrow> Some (n = 0) | None \<Rightarrow> Some (success_text t))
                | None \<Rightarrow> result_code v ks)))"

fun first_flag :: "json \<Rightarrow> string list \<Rightarrow> bool option" where
  "first_flag v [] = None"
| "first_flag v (k # ks) = (case jget k v of Some x \<Rightarrow> Some (truthy x) | None \<Rightarrow> first_flag v ks)"

definition text_field :: "json \<Rightarrow> string \<Rightarrow> string option" where
  "text_field v k = Option.bind (jget k v) as_str"

definition indicates_success :: "json \<Rightarrow> bool" where
  "indicates_success v =
     (if list_ex (\<lambda>k. is_some_and (text_field v k) (\<lambda>s. s \<noteq> [])) [''webtoken'', ''token'', ''auth_token'', ''secondary_auth_token'']
      then True
      else case first_flag v [''success'', ''ok'', ''web_login_flag'', ''login_flag''] of
        Some b \<Rightarrow> b
      | None \<Rightarrow>
          (case result_code v [''code'', ''errno'', ''ret'', ''result''] of
             Some b \<Rightarrow> b
           | None \<Rightarrow>
               list_ex (\<lambda>k. is_some_and (text_field v k) success_text) [''status'', ''state'', ''msg'', ''message''] \<or>
               list_ex (\<lambda>k. is_some_and (text_field v k) (\<lambda>s. s \<noteq> [])) [''username'', ''user'']))"

definition verify_password :: "env \<Rightarrow> (string \<Rightarrow> string) \<Rightarrow> string \<Rightarrow> string \<Rightarrow> bool io" where
  "verify_password E sha username password =
     (if username = [] \<or> 256 < length username \<or> 256 < length password then ret False
      else do {
        r \<leftarrow> ubus E ''zwrt_web'' ''web_login_info'' (jobj []);
        case Option.bind (ok_opt r) (\<lambda>info. text_field info ''zte_web_sault'') of
          None \<Rightarrow> ret False
        | Some salt \<Rightarrow>
            if salt = [] \<or> 256 < length salt then ret False
            else do {
              reply \<leftarrow> ubus E ''zwrt_web'' ''web_login''
                (jobj [(''username'', JString username), (''password'', JString (sha (sha password @ salt)))]);
              ret (is_some_and (ok_opt reply) indicates_success)
            }
      })"

fun token_checks :: "env \<Rightarrow> json \<Rightarrow> string list \<Rightarrow> bool io" where
  "token_checks E args [] = ret False"
| "token_checks E args (m # ms) = do {
     r \<leftarrow> ubus E ''zwrt_web'' m args;
     if is_some_and (ok_opt r) indicates_success then ret True else token_checks E args ms
   }"

definition verify_webtoken :: "env \<Rightarrow> string \<Rightarrow> u64 \<Rightarrow> string \<Rightarrow> string \<Rightarrow> bool io" where
  "verify_webtoken E token mode remote tag =
     (if token = [] \<or> 4096 < length token \<or> tag = [] \<or> 256 < length tag then ret False
      else token_checks E (jobj [(''webtoken'', JString token), (''zmode'', jint mode), (''web_remote_addr'', JString remote),
          (''z-tag'', JString tag)]) [''webtoken_check'', ''web_security_check''])"

section \<open>Comparing tokens\<close>

text \<open>The comparison in constant time is equality.\<close>

lemma byte_of_inj: "byte_of x = byte_of y \<Longrightarrow> x = y"
proof -
  assume "byte_of x = byte_of y"
  then have "unat (byte_of x) = unat (byte_of y)" by simp
  moreover have "of_char c < (256 :: nat)" for c :: char using nat_of_char_less_256 [of c] by simp
  ultimately have "(of_char x :: nat) = of_char y" by (simp add: byte_of_def unat_of_nat take_bit_nat_eq_self)
  then show ?thesis by simp
qed

lemma diff_zero: "fold (\<lambda>(x, y) diff. diff OR (byte_of x XOR byte_of y)) ps d = 0 \<longleftrightarrow>
    d = 0 \<and> list_all (\<lambda>(x, y). x = y) ps"
proof (induction ps arbitrary: d)
  case (Cons p ps)
  obtain x y where p: "p = (x, y)" by fastforce
  have "byte_of x XOR byte_of y = 0 \<longleftrightarrow> x = y"
    using byte_of_inj by (metis xor_self_eq xor.assoc xor.left_neutral xor.right_neutral)
  then show ?case using Cons.IH by (simp add: p or_eq_0_iff)
qed simp

lemma secure_eq_iff: "secure_eq a b \<longleftrightarrow> a = b"
proof
  assume "secure_eq a b"
  then have "length a = length b" "list_all (\<lambda>(x, y). x = y) (zip a b)" by (simp_all add: secure_eq_def diff_zero)
  then show "a = b" by (induction a b rule: list_induct2) auto
next
  assume "a = b"
  then show "secure_eq a b" by (auto simp: secure_eq_def diff_zero list_all_iff set_zip)
qed

section \<open>What a session is worth\<close>

text \<open>
  A run of the session table. \<open>a_grants\<close> notes every time a token was issued or successfully used;
  \<open>a_issued\<close> the tokens issued.
\<close>

datatype auth_op = Issue string u64 "session \<Rightarrow> u64" | Validate u64 string

record auth =
  a_sessions :: "session list"
  a_grants :: "(string \<times> u64) set"
  a_issued :: "string set"

definition auth_init :: auth where
  "auth_init = \<lparr>a_sessions = [], a_grants = {}, a_issued = {}\<rparr>"

fun auth_step :: "auth_op \<Rightarrow> auth \<Rightarrow> auth" where
  "auth_step (Issue bytes now later) a =
     a\<lparr>a_sessions := snd (issue (Some bytes) now later (a_sessions a)),
       a_grants := insert (token_of bytes, now) (a_grants a), a_issued := insert (token_of bytes) (a_issued a)\<rparr>"
| "auth_step (Validate now token) a =
     a\<lparr>a_sessions := snd (validate now token (a_sessions a)),
       a_grants := (if fst (validate now token (a_sessions a)) then insert (token, now) (a_grants a) else a_grants a)\<rparr>"

definition auth_ok :: "auth \<Rightarrow> bool" where
  "auth_ok a \<longleftrightarrow> length (a_sessions a) \<le> session_limit \<and> fst ` a_grants a \<subseteq> a_issued a \<and>
     (\<forall>s \<in> set (a_sessions a). \<exists>t. (s_token s, t) \<in> a_grants a \<and> s_expires_at s = t + session_ttl)"

lemma renew_Some:
  "renew now token ss = Some ss' \<Longrightarrow> length ss' = length ss \<and> (\<exists>s \<in> set ss. s_token s = token) \<and>
     (\<forall>s' \<in> set ss'. s' \<in> set ss \<or> s_token s' = token \<and> s_expires_at s' = now + session_ttl)"
  by (induction ss arbitrary: ss') (auto simp: secure_eq_iff split: if_splits)

lemma oldest_from_less: "oldest_from i ss = Some (j, s) \<Longrightarrow> i \<le> j \<and> j < i + length ss"
  by (induction ss arbitrary: i j s) (fastforce split: option.splits if_splits)+

lemma oldest_less: "ss \<noteq> [] \<Longrightarrow> oldest ss < length ss"
  using oldest_from_less [of 0 ss] by (auto simp: oldest_def split: option.splits)

lemma remove_at_facts: "i < length xs \<Longrightarrow> length (remove_at i xs) = length xs - 1" "set (remove_at i xs) \<subseteq> set xs"
  by (auto simp: remove_at_def dest: in_set_takeD in_set_dropD)

lemma issue_facts:
  assumes "issue (Some bytes) now later ss = (r, ss')" "length ss \<le> session_limit"
  shows "length ss' \<le> session_limit" "r = Some (token_of bytes, now + session_ttl)"
    "\<forall>s \<in> set ss'. s \<in> set ss \<or> s_token s = token_of bytes \<and> s_expires_at s = now + session_ttl"
proof -
  let ?live = "filter (\<lambda>s. later s < s_expires_at s) ss"
  let ?cut = "if session_limit \<le> length ?live then remove_at (oldest ?live) ?live else ?live"
  have ss': "ss' = ?cut @ [\<lparr>s_token = token_of bytes, s_expires_at = now + session_ttl\<rparr>]"
      "r = Some (token_of bytes, now + session_ttl)"
    using assms(1) by (auto simp: issue_def Let_def)
  have le: "length ?live \<le> session_limit" using assms(2) length_filter_le le_trans by blast
  have "length ?cut < session_limit"
  proof (cases "session_limit \<le> length ?live")
    case True
    then have "?live \<noteq> []" by (auto simp: session_limit_def)
    then show ?thesis using True le remove_at_facts(1) [OF oldest_less [of ?live]] by (simp add: session_limit_def)
  qed simp
  moreover have "set ?cut \<subseteq> set ss" using remove_at_facts(2) [of "oldest ?live" ?live] by auto
  ultimately show "length ss' \<le> session_limit" "r = Some (token_of bytes, now + session_ttl)"
      "\<forall>s \<in> set ss'. s \<in> set ss \<or> s_token s = token_of bytes \<and> s_expires_at s = now + session_ttl"
    unfolding ss' by auto
qed

lemma validate_facts:
  assumes "validate now token ss = (ok, ss')"
  shows "length ss' \<le> length ss" "ok \<Longrightarrow> \<exists>s \<in> set ss. s_token s = token \<and> now < s_expires_at s"
    "\<forall>s \<in> set ss'. s \<in> set ss \<or> ok \<and> s_token s = token \<and> s_expires_at s = now + session_ttl"
  using assms renew_Some [of now token "filter (\<lambda>s. now < s_expires_at s) ss"] length_filter_le [of "\<lambda>s. now < s_expires_at s" ss]
  by (auto simp: validate_def Let_def split: option.splits)

lemma auth_step_ok: "auth_ok a \<Longrightarrow> auth_ok (auth_step op a)"
proof (cases op)
  case (Issue bytes now later)
  assume ok: "auth_ok a"
  obtain r ss' where i: "issue (Some bytes) now later (a_sessions a) = (r, ss')" by fastforce
  have len: "length (a_sessions a) \<le> session_limit" using ok by (simp add: auth_ok_def)
  show ?thesis using issue_facts [OF i len] ok by (fastforce simp: Issue i auth_ok_def)
next
  case (Validate now token)
  assume ok: "auth_ok a"
  obtain b ss' where v: "validate now token (a_sessions a) = (b, ss')" by fastforce
  have "b \<Longrightarrow> token \<in> a_issued a" using validate_facts(2) [OF v] ok by (force simp: auth_ok_def)
  then show ?thesis using validate_facts(1,3) [OF v] ok by (fastforce simp: Validate v auth_ok_def)
qed

lemma auth_run_ok: "auth_ok (fold auth_step ops auth_init)"
proof -
  have "auth_ok a \<Longrightarrow> auth_ok (fold auth_step ops a)" for a
    by (induction ops arbitrary: a) (auto simp: auth_step_ok)
  then show ?thesis by (simp add: auth_ok_def auth_init_def)
qed

text \<open>
  After any sequence of issued and checked tokens there are at most sixteen sessions, and
  a token is accepted only if it was issued and was issued or accepted less than twelve hours ago.
\<close>

theorem session_sound:
  assumes "fst (validate now token (a_sessions (fold auth_step ops auth_init)))"
  shows "length (a_sessions (fold auth_step ops auth_init)) \<le> 16 \<and>
    token \<in> a_issued (fold auth_step ops auth_init) \<and>
    (\<exists>t. (token, t) \<in> a_grants (fold auth_step ops auth_init) \<and> now < t + 43200)"
proof -
  let ?a = "fold auth_step ops auth_init"
  obtain ss' where v: "validate now token (a_sessions ?a) = (True, ss')" using assms by (metis (full_types) prod.collapse)
  obtain s where s: "s \<in> set (a_sessions ?a)" "s_token s = token" "now < s_expires_at s"
    using validate_facts(2) [OF v] by blast
  then obtain t where "(token, t) \<in> a_grants ?a" "s_expires_at s = t + session_ttl"
    using auth_run_ok [of ops] by (auto simp: auth_ok_def)
  then show ?thesis using s(3) auth_run_ok [of ops] by (force simp: auth_ok_def session_limit_def session_ttl_def)
qed

theorem session_sound_witness:
  "fst (validate 43300 (token_of ''a'') (a_sessions (fold auth_step [Issue ''a'' 100 (\<lambda>_. 100), Validate 200 (token_of ''a'')] auth_init))) \<and>
   (\<exists>t. (token_of ''a'', t) \<in> a_grants (fold auth_step [Issue ''a'' 100 (\<lambda>_. 100), Validate 200 (token_of ''a'')] auth_init) \<and> 43300 < t + 43200)"
proof -
  have "fst (validate 43300 (token_of ''a'') (a_sessions (fold auth_step [Issue ''a'' 100 (\<lambda>_. 100), Validate 200 (token_of ''a'')] auth_init)))"
    by (simp add: auth_init_def issue_def validate_def Let_def secure_eq_iff session_ttl_def session_limit_def)
  then show ?thesis using session_sound by blast
qed

end
