(* ===== verification/Cell_Window.thy ===== *)
theory Cell_Window
  imports Json
begin

text \<open>
  The packet window of the cellular interface (\<^verbatim>\<open>rust/src/cell_window.rs\<close>): a ring of counter readings
  from which the screen judges whether packets go out and none come back.
\<close>

section \<open>The model\<close>

definition span_ms :: u64 where "span_ms = 30000"
definition gap_ms :: u64 where "gap_ms = 60000"

record sample =
  sm_rx :: u64
  sm_tx :: u64
  sm_at :: u64

record cell_window =
  cw_tx_packets :: u64
  cw_rx_packets :: u64
  cw_span_ms :: u64

type_synonym ring = "sample list"

text \<open>The loop that drops samples while the second one is old enough to be the baseline.\<close>

fun trim_front :: "u64 \<Rightarrow> ring \<Rightarrow> ring" where
  "trim_front lim (a # b # r) = (if sm_at b \<le> lim then trim_front lim (b # r) else a # b # r)"
| "trim_front lim r = r"

definition goes_back :: "sample \<Rightarrow> sample \<Rightarrow> bool" where
  "goes_back s prev \<longleftrightarrow> sm_rx s < sm_rx prev \<or> sm_tx s < sm_tx prev \<or> sm_at s < sm_at prev"

definition ring_push :: "sample \<Rightarrow> ring \<Rightarrow> ring" where
  "ring_push s r =
     (let r = (if r \<noteq> [] \<and> goes_back s (last r) then [] else r);
          r = r @ [s]
      in trim_front (sat_sub (sm_at s) span_ms) r)"

definition ring_lose :: "ring \<Rightarrow> ring" where
  "ring_lose r = []"

definition gap_free :: "ring \<Rightarrow> bool" where
  "gap_free r \<longleftrightarrow> \<not> list_ex (\<lambda>(a, b). gap_ms < sm_at b - sm_at a) (zip r (tl r))"

definition ring_window :: "ring \<Rightarrow> cell_window option" where
  "ring_window r =
     (if r = [] then None
      else
        (let first = hd r; newest = last r; span = sm_at newest - sm_at first in
         if span < span_ms then None
         else if \<not> gap_free r then None
         else Some \<lparr>cw_tx_packets = sm_tx newest - sm_tx first, cw_rx_packets = sm_rx newest - sm_rx first, cw_span_ms = span\<rparr>))"

definition count_of :: "json \<Rightarrow> string \<Rightarrow> u64 option" where
  "count_of traffic k =
     (case jget k traffic of
        Some (JNumber n) \<Rightarrow> as_u64 (JNumber n)
      | Some (JString s) \<Rightarrow> parse_u64 (trim s)
      | _ \<Rightarrow> None)"

definition counts :: "json \<Rightarrow> (u64 \<times> u64) option" where
  "counts traffic =
     (case count_of traffic ''real_rx_packets'' of None \<Rightarrow> None | Some rx \<Rightarrow>
        map_option (Pair rx) (count_of traffic ''real_tx_packets''))"

definition ring_sample :: "u64 \<Rightarrow> (u64 \<times> u64) option \<Rightarrow> ring \<Rightarrow> ring" where
  "ring_sample now_ms c r =
     (case c of Some (rx, tx) \<Rightarrow> ring_push \<lparr>sm_rx = rx, sm_tx = tx, sm_at = now_ms\<rparr> r | None \<Rightarrow> ring_lose r)"

section \<open>What the window says\<close>

text \<open>
  The readings of a run, oldest first; a round without a reading is \<open>None\<close>. \<open>stretch\<close> is the longest
  tail of the readings in which no round is missing and no counter and not the clock goes back.
\<close>

fun stretch :: "sample option list \<Rightarrow> ring \<Rightarrow> ring" where
  "stretch [] r = r"
| "stretch (None # hs) r = stretch hs []"
| "stretch (Some s # hs) r = stretch hs (if r \<noteq> [] \<and> goes_back s (last r) then [s] else r @ [s])"

definition ring_of :: "sample option list \<Rightarrow> ring" where
  "ring_of hs = fold (\<lambda>h r. case h of Some s \<Rightarrow> ring_push s r | None \<Rightarrow> ring_lose r) hs []"

definition rises :: "ring \<Rightarrow> bool" where
  "rises r \<longleftrightarrow> sorted_wrt (\<lambda>a b. sm_rx a \<le> sm_rx b \<and> sm_tx a \<le> sm_tx b \<and> sm_at a \<le> sm_at b) r"

text \<open>The part of a stretch the ring keeps: from the newest sample that is thirty seconds old.\<close>

definition kept :: "ring \<Rightarrow> ring" where
  "kept r = (if r = [] then [] else trim_front (sat_sub (sm_at (last r)) span_ms) r)"

lemma trim_front_suffix: "\<exists>d. r = d @ trim_front c r"
proof (induction c r rule: trim_front.induct)
  case (1 lim a b r)
  then show ?case by (auto simp del: append_Cons) (metis append_Cons)
qed auto

lemma trim_front_nonempty: "r \<noteq> [] \<Longrightarrow> trim_front c r \<noteq> []" "r \<noteq> [] \<Longrightarrow> last (trim_front c r) = last r"
  by (induction c r rule: trim_front.induct) auto

text \<open>Dropping in two rounds is dropping in one, because the bound only rises.\<close>

lemma trim_front_more:
  assumes "c \<le> c'"
  shows "trim_front c' (trim_front c r @ t) = trim_front c' (r @ t)"
  using assms
proof (induction c r rule: trim_front.induct)
  case (1 lim a b r)
  show ?case
  proof (cases "sm_at b \<le> lim")
    case True
    then have "sm_at b \<le> c'" using 1(2) by (rule order_trans)
    then show ?thesis using 1 True by simp
  qed simp
qed auto

lemma sat_sub_mono: "(a :: u64) \<le> b \<Longrightarrow> sat_sub a c \<le> sat_sub b c"
  by (simp add: word_le_nat_alt unat_sat_sub diff_le_mono)

text \<open>The ring is the kept part of the current stretch.\<close>

lemma ring_push_kept:
  "ring_push s (kept r) = kept (if r \<noteq> [] \<and> goes_back s (last r) then [s] else r @ [s])"
proof (cases "r = []")
  case True
  then show ?thesis by (simp add: ring_push_def kept_def)
next
  case False
  then have l: "kept r \<noteq> []" "last (kept r) = last r" using trim_front_nonempty by (auto simp: kept_def)
  show ?thesis
  proof (cases "goes_back s (last r)")
    case True
    then show ?thesis using l False by (simp add: ring_push_def kept_def)
  next
    case ok: False
    then have "sm_at (last r) \<le> sm_at s" by (auto simp: goes_back_def)
    then show ?thesis using l ok False trim_front_more [OF sat_sub_mono, of "sm_at (last r)" "sm_at s" span_ms r "[s]"]
      by (simp add: ring_push_def kept_def)
  qed
qed

lemma ring_of_stretch: "ring_of hs = kept (stretch hs [])"
proof -
  have "fold (\<lambda>h r. case h of Some s \<Rightarrow> ring_push s r | None \<Rightarrow> ring_lose r) hs (kept r) = kept (stretch hs r)" for r
    by (induction hs r rule: stretch.induct) (auto simp: ring_push_kept ring_lose_def kept_def [of "[]"])
  from this [of "[]"] show ?thesis by (simp add: ring_of_def kept_def)
qed

lemma rises_stretch: "rises r \<Longrightarrow> rises (stretch hs r)"
proof (induction hs r rule: stretch.induct)
  case (3 s hs r)
  have "rises (if r \<noteq> [] \<and> goes_back s (last r) then [s] else r @ [s])"
  proof (cases "r \<noteq> [] \<and> \<not> goes_back s (last r)")
    case True
    have "sm_rx x \<le> sm_rx s \<and> sm_tx x \<le> sm_tx s \<and> sm_at x \<le> sm_at s" if "x \<in> set r" for x
    proof -
      have "x = last r \<or> x \<in> set (butlast r)" using that True by (metis append_butlast_last_id in_set_conv_decomp set_ConsD rotate1.simps(2) set_rotate1)
      moreover have "rises (butlast r @ [last r])" using 3(2) True by simp
      ultimately have "sm_rx x \<le> sm_rx (last r) \<and> sm_tx x \<le> sm_tx (last r) \<and> sm_at x \<le> sm_at (last r)"
        by (auto simp: rises_def sorted_wrt_append)
      then show ?thesis using True by (auto simp: goes_back_def not_less)
    qed
    then show ?thesis using True 3(2) by (auto simp: rises_def sorted_wrt_append)
  qed (auto simp: rises_def)
  then show ?case using 3(1) by simp
qed (auto simp: rises_def)

lemma trim_front_second: "trim_front lim r = a # b # t \<Longrightarrow> lim < sm_at b"
  by (induction lim r rule: trim_front.induct) (auto split: if_splits)

text \<open>
  Whatever readings the rounds made, a window describes real readings: the ring is the
  tail of the current stretch without a lost round or a counter that went back, from its newest sample
  that is thirty seconds old; the packet numbers and the span are the exact differences of its first
  and last reading; the span is at least thirty seconds and no later sample would do as a baseline.
\<close>

theorem window_exact:
  assumes "ring_window (ring_of hs) = Some w"
  shows "\<exists>d a m b. stretch hs [] = d @ a # m @ [b] \<and> 30000 \<le> unat (sm_at b) - unat (sm_at a) \<and>
    unat (cw_span_ms w) = unat (sm_at b) - unat (sm_at a) \<and>
    sm_tx a \<le> sm_tx b \<and> unat (cw_tx_packets w) = unat (sm_tx b) - unat (sm_tx a) \<and>
    sm_rx a \<le> sm_rx b \<and> unat (cw_rx_packets w) = unat (sm_rx b) - unat (sm_rx a) \<and>
    list_all (\<lambda>x. unat (sm_at b) - unat (sm_at x) < 30000) (m @ [b])"
proof -
  let ?r = "stretch hs []"
  let ?k = "ring_of hs"
  have k: "?k = kept ?r" by (rule ring_of_stretch)
  have span: "?k \<noteq> []" "span_ms \<le> sm_at (last ?k) - sm_at (hd ?k)"
    and w: "w = \<lparr>cw_tx_packets = sm_tx (last ?k) - sm_tx (hd ?k), cw_rx_packets = sm_rx (last ?k) - sm_rx (hd ?k),
      cw_span_ms = sm_at (last ?k) - sm_at (hd ?k)\<rparr>"
    using assms by (auto simp: ring_window_def Let_def not_less split: if_splits)
  then have ne: "?r \<noteq> []" by (auto simp: k kept_def)
  have "length ?k \<noteq> 1" using span by (auto simp: length_Suc_conv span_ms_def)
  then obtain a c t where act: "?k = a # c # t" using span(1) by (metis One_nat_def length_Cons list.exhaust list.size(3))
  obtain m b where mb: "c # t = m @ [b]" by (metis append_butlast_last_id list.distinct(1))
  obtain d where d: "?r = d @ ?k" using trim_front_suffix [of ?r] ne by (auto simp: k kept_def)
  have "rises ?r" by (rule rises_stretch) (simp add: rises_def)
  then have ris: "rises ?k" by (subst (asm) d) (simp add: rises_def sorted_wrt_append)
  then have ab: "sm_rx a \<le> sm_rx b" "sm_tx a \<le> sm_tx b" "sm_at a \<le> sm_at b"
    unfolding act mb by (auto simp: rises_def)
  have ends: "hd ?k = a" "last ?k = b" using mb by (auto simp: act)
  have lb: "last ?r = b" using d span(1) ends by (metis last_appendR)
  have "sat_sub (sm_at b) span_ms < sm_at c"
    using trim_front_second [of _ ?r a c t] act ne by (simp add: k kept_def lb)
  then have c: "unat (sm_at b) - 30000 < unat (sm_at c)"
    by (simp add: word_less_nat_alt unat_sat_sub span_ms_def)
  have "sm_at c \<le> sm_at x" if "x \<in> set (c # t)" for x using ris that by (auto simp: act rises_def)
  then have young: "list_all (\<lambda>x. unat (sm_at b) - unat (sm_at x) < 30000) (m @ [b])"
    using c unfolding mb [symmetric] list_all_iff by (fastforce simp: word_le_nat_alt)
  have diff: "unat (x - y) = unat x - unat y" if "y \<le> x" for x y :: u64 using that by (simp add: unat_sub)
  have "30000 \<le> unat (sm_at b) - unat (sm_at a)"
    using span(2) diff [OF ab(3)] by (simp add: ends span_ms_def word_le_nat_alt)
  moreover have "?r = d @ a # m @ [b]" using d act mb by simp
  moreover have "unat (cw_tx_packets w) = unat (sm_tx b) - unat (sm_tx a)" "unat (cw_rx_packets w) = unat (sm_rx b) - unat (sm_rx a)"
      "unat (cw_span_ms w) = unat (sm_at b) - unat (sm_at a)"
    using w diff ab unfolding ends by simp_all
  ultimately show ?thesis using young ab by blast
qed

theorem window_exact_witness:
  "ring_window (ring_of [Some \<lparr>sm_rx = 5, sm_tx = 1, sm_at = 1000\<rparr>, Some \<lparr>sm_rx = 5, sm_tx = 30, sm_at = 31000\<rparr>]) =
     Some \<lparr>cw_tx_packets = 29, cw_rx_packets = 0, cw_span_ms = 30000\<rparr> \<and>
   (\<exists>d a m b. stretch [Some \<lparr>sm_rx = 5, sm_tx = 1, sm_at = 1000\<rparr>, Some \<lparr>sm_rx = 5, sm_tx = 30, sm_at = 31000\<rparr>] [] = d @ a # m @ [b] \<and>
     30000 \<le> unat (sm_at b) - unat (sm_at a))"
proof -
  have "ring_window (ring_of [Some \<lparr>sm_rx = 5, sm_tx = 1, sm_at = 1000\<rparr>, Some \<lparr>sm_rx = 5, sm_tx = 30, sm_at = 31000\<rparr>]) =
     Some \<lparr>cw_tx_packets = 29, cw_rx_packets = 0, cw_span_ms = 30000\<rparr>"
    by (simp add: ring_of_def ring_push_def goes_back_def ring_window_def sat_sub_def span_ms_def gap_ms_def gap_free_def Let_def)
  then show ?thesis using window_exact by blast
qed

end
