(* ===== verification/At_Port.thy ===== *)
theory At_Port
  imports Device
begin

text \<open>
  The AT commands (\<^verbatim>\<open>rust/src/at.rs\<close>) and the two cross-process locks (there and in
  \<^verbatim>\<open>rust/src/ops/write_lock.rs\<close>). Loops that wait for something outside are \<open>option\<close>-valued: \<open>None\<close> is a
  loop that never ends. What the lock file, the port and the clock do is the environment of each loop.
  Texts are the bytes of the port. The number of a spawned thread identifies its command.
\<close>

section \<open>Polling a lock\<close>

text \<open>
  Both cross-process locks are polled: try, give up once the limit has passed, sleep, try again. The
  environment says which try succeeds and how much time has passed at each of them; \<open>None\<close> would be a
  loop that never ends.
\<close>

partial_function (option) poll_lock :: "nat \<Rightarrow> (nat \<Rightarrow> bool) \<Rightarrow> (nat \<Rightarrow> nat) \<Rightarrow> nat \<Rightarrow> bool option" where
  "poll_lock limit free elapsed i =
     (if free i then Some True
      else if limit \<le> elapsed i then Some False
      else poll_lock limit free elapsed (Suc i))"

definition poll_step :: nat where "poll_step = 50000000"
definition write_lock_wait :: nat where "write_lock_wait = of_secs 15"
definition at_lock_wait :: nat where "at_lock_wait = of_secs 10"

subsection \<open>The write lock\<close>

text \<open>What one attempt at a lock file meets: whether it opens, which tries succeed, the clock.\<close>

record lock_io =
  lo_open :: "string + unit"
  lo_free :: "nat \<Rightarrow> bool"
  lo_elapsed :: "nat \<Rightarrow> nat"

datatype write_lock = LockHeld | LockMissing

definition write_lock_path :: "env \<Rightarrow> string option" where
  "write_lock_path E = (case e_var E ''ZWRT_DATAD_WRITE_LOCK'' of
     Some v \<Rightarrow> if v = [] then None else Some v | None \<Rightarrow> Some ''/var/run/u60-write.lock'')"

definition wait_for_lock :: "lock_io \<Rightarrow> string option \<Rightarrow> write_lock option" where
  "wait_for_lock io path =
     (case path of
        None \<Rightarrow> Some LockMissing
      | Some _ \<Rightarrow>
          (case lo_open io of
             Err _ \<Rightarrow> Some LockMissing
           | Ok _ \<Rightarrow> map_option (\<lambda>got. if got then LockHeld else LockMissing)
                      (poll_lock write_lock_wait (lo_free io) (lo_elapsed io) 0)))"

section \<open>The AT port\<close>

definition at_ports :: "string list" where
  "at_ports = [''/dev/at_mdm0'', ''/dev/at_mdm1'', ''/dev/at_usb0'', ''/dev/smd7'', ''/dev/smd11'']"

definition answer_wait :: nat where "answer_wait = of_secs 6"
definition port_probe_wait :: nat where "port_probe_wait = of_secs 1"
definition port_write_wait :: nat where "port_write_wait = of_secs 1"

fun at_text :: "at_cmd \<Rightarrow> string" where
  "at_text CopsAuto = ''AT+COPS=0''"
| "at_text CfunOnline = ''AT+CFUN=1''"

definition at_lock_path :: "env \<Rightarrow> string option" where
  "at_lock_path E = (case e_var E ''ZWRT_DATAD_AT_LOCK'' of
     Some v \<Rightarrow> if v = [] then None else Some v | None \<Rightarrow> Some ''/var/run/u60-at.lock'')"

definition at_port_var :: "env \<Rightarrow> string option" where
  "at_port_var E = (case e_var E ''ZWRT_DATAD_AT_PORT'' of
     Some v \<Rightarrow> if v = [] then None else Some v | None \<Rightarrow> None)"

subsection \<open>The exchange\<close>

text \<open>
  The port as one exchange sees it, call by call: what opening gives, what is read while the left-over
  bytes are drained, how many bytes each write takes (or that it would block, or its error), what each
  read gives, and the time since the loop began at each turn. Reads that give nothing and reads that would
  block are one case: the code sleeps after both.
\<close>

datatype write_ev = WrBytes nat | WrBlock | WrError string
datatype read_ev = RdBytes string | RdNothing | RdError string

record port_io =
  po_open :: "string + unit"
  po_junk :: "nat \<Rightarrow> bool"
  po_write :: "nat \<Rightarrow> write_ev"
  po_wtime :: "nat \<Rightarrow> nat"
  po_read :: "nat \<Rightarrow> read_ev"
  po_rtime :: "nat \<Rightarrow> nat"

partial_function (option) drain_port :: "port_io \<Rightarrow> nat \<Rightarrow> unit option" where
  "drain_port io i = (if po_junk io i then drain_port io (Suc i) else Some ())"

text \<open>The result is the error, or \<open>Ok\<close> when the whole line went out.\<close>

partial_function (option) write_line_port :: "port_io \<Rightarrow> nat \<Rightarrow> nat \<Rightarrow> nat \<Rightarrow> (string + unit) option" where
  "write_line_port io len i sent =
     (if sent < len then
        (case po_write io i of
           WrBytes n \<Rightarrow> write_line_port io len (Suc i) (sent + n)
         | WrBlock \<Rightarrow> if po_wtime io i < port_write_wait then write_line_port io len (Suc i) sent
                     else Some (Err ''would block'')
         | WrError e \<Rightarrow> Some (Err e))
      else Some (Ok ()))"

definition ends_answer :: "string \<Rightarrow> bool" where
  "ends_answer s \<longleftrightarrow> str_contains s (CHR 0x0A # ''OK'') \<or> starts_with s ''OK'' \<or> str_contains s ''ERROR''"

datatype read_end = Answer string | PortError string | Silence string

partial_function (option) read_answer :: "port_io \<Rightarrow> nat \<Rightarrow> nat \<Rightarrow> string \<Rightarrow> read_end option" where
  "read_answer io wait i answer =
     (if po_rtime io i < wait then
        (case po_read io i of
           RdBytes bs \<Rightarrow>
             (if ends_answer (answer @ bs) then Some (Answer (answer @ bs))
              else read_answer io wait (Suc i) (answer @ bs))
         | RdNothing \<Rightarrow> read_answer io wait (Suc i) answer
         | RdError e \<Rightarrow> Some (PortError e))
      else Some (Silence answer))"

definition exchange :: "port_io \<Rightarrow> string \<Rightarrow> string \<Rightarrow> nat \<Rightarrow> (string + string) option" where
  "exchange io port text wait =
     (case po_open io of
        Err e \<Rightarrow> Some (Err (''open '' @ port @ '': '' @ e))
      | Ok _ \<Rightarrow>
          Option.bind (drain_port io 0) (\<lambda>_.
          Option.bind (write_line_port io (length (text @ [CHR 0x0D])) 0 0) (\<lambda>r.
            case r of
              Err e \<Rightarrow> Some (Err (''write '' @ port @ '': '' @ e))
            | Ok _ \<Rightarrow> Option.bind (read_answer io wait 0 []) (\<lambda>a. Some (case a of
                  Answer s \<Rightarrow> Ok s
                | PortError e \<Rightarrow> Err (''read '' @ port @ '': '' @ e)
                | Silence s \<Rightarrow>
                    (let s = trim s in Err (if s = [] then text @ '': no answer'' else text @ '': '' @ s)))))))"

text \<open>
  The ports by name: which of them exist and how an exchange goes there. \<open>find_port\<close> tries them in order.
\<close>

fun find_port_in :: "(string \<Rightarrow> port_io option) \<Rightarrow> string list \<Rightarrow> (string + string) option" where
  "find_port_in io [] = Some (Err ''no AT port found'')"
| "find_port_in io (p # ps) =
     (case io p of
        None \<Rightarrow> find_port_in io ps
      | Some port \<Rightarrow>
          Option.bind (exchange port p ''AT'' port_probe_wait) (\<lambda>r.
            case r of
              Ok a \<Rightarrow> if str_contains a ''OK'' then Some (Ok p) else find_port_in io ps
            | Err _ \<Rightarrow> find_port_in io ps))"

definition find_port :: "(string \<Rightarrow> port_io option) \<Rightarrow> (string + string) option" where
  "find_port io = find_port_in io at_ports"

definition take_lock :: "lock_io \<Rightarrow> string option \<Rightarrow> (string + unit) option" where
  "take_lock lo path =
     (case path of
        None \<Rightarrow> Some (Ok ())
      | Some p \<Rightarrow>
          (case lo_open lo of
             Err e \<Rightarrow> Some (Err (''AT lock '' @ p @ '': '' @ e))
           | Ok _ \<Rightarrow> map_option (\<lambda>got. if got then Ok () else Err ''AT port busy (another command is running)'')
                      (poll_lock at_lock_wait (lo_free lo) (lo_elapsed lo) 0)))"

text \<open>\<open>probe\<close> is the port at the probing exchange, \<open>cmd_io\<close> at the exchange of the command itself.\<close>

definition send_blocking :: "lock_io \<Rightarrow> (string \<Rightarrow> port_io option) \<Rightarrow> (string \<Rightarrow> port_io) \<Rightarrow> at_cmd \<Rightarrow> string option
    \<Rightarrow> string option \<Rightarrow> (string + string) option" where
  "send_blocking lo probe cmd_io c lock port =
     Option.bind (take_lock lo lock) (\<lambda>r.
       case r of
         Err e \<Rightarrow> Some (Err e)
       | Ok _ \<Rightarrow>
           Option.bind (case port of Some p \<Rightarrow> Some (Ok p) | None \<Rightarrow> find_port probe) (\<lambda>r.
             case r of
               Err e \<Rightarrow> Some (Err e)
             | Ok p \<Rightarrow>
                 Option.bind (exchange (cmd_io p) p (at_text c) answer_wait) (\<lambda>a.
                   Some (case a of
                     Err e \<Rightarrow> Err e
                   | Ok s \<Rightarrow> if str_contains s ''OK'' then Ok s else Err (at_text c @ '': '' @ trim s)))))"

section \<open>Every loop ends\<close>

text \<open>Sleeping between two tries takes at least the time asked for.\<close>

definition clock_steps :: "lock_io \<Rightarrow> bool" where
  "clock_steps lo \<longleftrightarrow> (\<forall>i. lo_elapsed lo i + poll_step \<le> lo_elapsed lo (Suc i))"

text \<open>
  A port that gives the loops a chance: the left-over bytes end, a write that is accepted takes at least one
  byte, a blocked write is followed by the sleep of 20 ms, and time goes on.
\<close>

definition port_live :: "port_io \<Rightarrow> bool" where
  "port_live io \<longleftrightarrow> (\<exists>i. \<not> po_junk io i) \<and> (\<forall>i. po_write io i \<noteq> WrBytes 0) \<and>
     (\<forall>i. po_wtime io i \<le> po_wtime io (Suc i)) \<and>
     (\<forall>i. po_write io i = WrBlock \<longrightarrow> po_wtime io i + 20000000 \<le> po_wtime io (Suc i)) \<and>
     (\<forall>T. \<exists>i. T \<le> po_rtime io i)"

lemma poll_lock_ends:
  assumes "\<forall>i. elapsed i + poll_step \<le> elapsed (Suc i)"
  shows "\<exists>r. poll_lock limit free elapsed i = Some r"
proof (induction "limit - elapsed i" arbitrary: i rule: less_induct)
  case less
  show ?case
  proof (cases "free i \<or> limit \<le> elapsed i")
    case True
    then show ?thesis by (subst poll_lock.simps) auto
  next
    case False
    then have "limit - elapsed (Suc i) < limit - elapsed i"
      using assms [rule_format, of i] unfolding poll_step_def by linarith
    from less [OF this] False show ?thesis by (subst poll_lock.simps) simp
  qed
qed

lemma drain_port_ends:
  assumes "\<not> po_junk io n" "i \<le> n"
  shows "drain_port io i = Some ()"
  using assms(2)
proof (induction "n - i" arbitrary: i)
  case 0
  then show ?case using assms(1) by (subst drain_port.simps) simp
next
  case (Suc k)
  then have "drain_port io (Suc i) = Some ()" by simp
  then show ?case by (subst drain_port.simps) simp
qed

lemma write_line_port_ends:
  assumes "port_live io"
  shows "\<exists>r. write_line_port io len i sent = Some r"
proof (induction "(len - sent) + (port_write_wait - po_wtime io i)" arbitrary: i sent rule: less_induct)
  case less
  have mono: "po_wtime io i \<le> po_wtime io (Suc i)" using assms by (simp add: port_live_def)
  show ?case
  proof (cases "sent < len")
    case True
    show ?thesis
    proof (cases "po_write io i")
      case (WrBytes n)
      then have "n \<noteq> 0" using assms unfolding port_live_def by metis
      then have "(len - (sent + n)) + (port_write_wait - po_wtime io (Suc i)) < (len - sent) + (port_write_wait - po_wtime io i)"
        using True mono by linarith
      from less [OF this] show ?thesis using True WrBytes by (subst write_line_port.simps) simp
    next
      case WrBlock
      show ?thesis
      proof (cases "po_wtime io i < port_write_wait")
        case early: True
        have "po_wtime io i + 20000000 \<le> po_wtime io (Suc i)" using assms WrBlock by (auto simp: port_live_def)
        then have "(len - sent) + (port_write_wait - po_wtime io (Suc i)) < (len - sent) + (port_write_wait - po_wtime io i)"
          using early by linarith
        from less [OF this] show ?thesis using True WrBlock early by (subst write_line_port.simps) simp
      next
        case False
        then show ?thesis using True WrBlock by (subst write_line_port.simps) simp
      qed
    next
      case (WrError e)
      then show ?thesis using True by (subst write_line_port.simps) simp
    qed
  next
    case False
    then show ?thesis by (subst write_line_port.simps) simp
  qed
qed

lemma read_answer_ends:
  assumes "wait \<le> po_rtime io n" "i \<le> n"
  shows "\<exists>r. read_answer io wait i answer = Some r"
  using assms(2)
proof (induction "n - i" arbitrary: i answer)
  case 0
  then show ?case using assms(1) by (subst read_answer.simps) simp
next
  case (Suc k)
  then have "\<exists>r. read_answer io wait (Suc i) a = Some r" for a by simp
  then show ?case by (subst read_answer.simps) (auto split: read_ev.split)
qed

lemma exchange_ends:
  assumes "port_live io"
  shows "\<exists>r. exchange io port text wait = Some r"
proof -
  obtain n where "\<not> po_junk io n" using assms by (auto simp: port_live_def)
  then have d: "drain_port io 0 = Some ()" using drain_port_ends by blast
  obtain m where "wait \<le> po_rtime io m" using assms unfolding port_live_def by blast
  then obtain a where a: "read_answer io wait 0 [] = Some a" using read_answer_ends by blast
  obtain r where r: "write_line_port io (length (text @ [CHR 0x0D])) 0 0 = Some r"
    using write_line_port_ends [OF assms] by blast
  show ?thesis unfolding exchange_def by (simp add: d r [simplified] a split: sum.split)
qed

lemma find_port_in_ends:
  assumes "\<And>p io. ports p = Some io \<Longrightarrow> port_live io"
  shows "\<exists>r. find_port_in ports ps = Some r"
proof (induction ps)
  case (Cons p ps)
  show ?case
  proof (cases "ports p")
    case (Some io)
    then obtain r where "exchange io p ''AT'' port_probe_wait = Some r" using exchange_ends assms by blast
    then show ?thesis using Cons Some by (auto split: sum.split)
  qed (use Cons in simp)
qed simp


definition sample_lock :: lock_io where
  "sample_lock = \<lparr>lo_open = Ok (), lo_free = (\<lambda>i. i = 2), lo_elapsed = (\<lambda>i. i * poll_step)\<rparr>"

definition sample_port :: port_io where
  "sample_port = \<lparr>po_open = Ok (), po_junk = (\<lambda>i. i < 1), po_write = (\<lambda>i. if i = 0 then WrBlock else WrBytes 20),
     po_wtime = (\<lambda>i. i * 20000000), po_read = (\<lambda>i. if i = 1 then RdBytes [CHR 0x0A, CHR ''O'', CHR ''K''] else RdNothing),
     po_rtime = (\<lambda>i. i * 50000000)\<rparr>"

lemma sample_port_live: "port_live sample_port"
proof -
  have "\<exists>i. T \<le> i * 50000000" for T :: nat by (rule exI [of _ T]) simp
  then show ?thesis by (auto simp: port_live_def sample_port_def)
qed


section \<open>Commands that are left behind\<close>

text \<open>
  \<open>send_within\<close>, section by section. Commands run one after another on the executor, so there is at most
  one caller. A command runs on a thread of its own; \<open>at_threads\<close> are the threads still inside the blocking
  part, with the key (lock and port) of their command. \<open>at_done\<close> are the threads whose flag is set.
\<close>

record at_state =
  at_stuck :: "string list"
  at_caller :: "(nat \<times> string) option"
  at_threads :: "nat \<rightharpoonup> string"
  at_done :: "nat set"
  at_next :: nat

definition at_init :: at_state where
  "at_init = \<lparr>at_stuck = [], at_caller = None, at_threads = Map.empty, at_done = {}, at_next = 0\<rparr>"

text \<open>The entry: refused while the key is stuck, otherwise the thread is spawned. The flag tells which.\<close>

definition at_begin :: "string \<Rightarrow> at_state \<Rightarrow> bool \<times> at_state" where
  "at_begin key s =
     (if key \<in> set (at_stuck s) then (False, s)
      else (True, s\<lparr>at_caller := Some (at_next s, key), at_threads := (at_threads s)(at_next s \<mapsto> key),
                    at_next := at_next s + 1\<rparr>))"

text \<open>The thread comes back: under the mutex it sets its flag and removes its key.\<close>

definition at_return :: "nat \<Rightarrow> string \<Rightarrow> at_state \<Rightarrow> at_state" where
  "at_return n key s = s\<lparr>at_done := insert n (at_done s), at_stuck := filter (\<lambda>k. k \<noteq> key) (at_stuck s),
     at_threads := (at_threads s)(n := None)\<rparr>"

text \<open>The caller gets the answer, or the whole-command limit passes and it leaves the thread behind.\<close>

definition at_answer :: "at_state \<Rightarrow> at_state" where
  "at_answer s = s\<lparr>at_caller := None\<rparr>"

definition at_give_up :: "nat \<Rightarrow> string \<Rightarrow> at_state \<Rightarrow> at_state" where
  "at_give_up n key s = s\<lparr>at_caller := None,
     at_stuck := (if n \<in> at_done s then at_stuck s else at_stuck s @ [key])\<rparr>"

inductive at_step :: "at_state \<Rightarrow> at_state \<Rightarrow> bool" where
  called: "at_caller s = None \<Longrightarrow> at_step s (snd (at_begin key s))"
| returned: "at_threads s n = Some key \<Longrightarrow> at_step s (at_return n key s)"
| answered: "at_caller s = Some (n, key) \<Longrightarrow> n \<in> at_done s \<Longrightarrow> at_step s (at_answer s)"
| left_behind: "at_caller s = Some (n, key) \<Longrightarrow> at_step s (at_give_up n key s)"

inductive at_reach :: "at_state \<Rightarrow> bool" where
  init: "at_reach at_init"
| step: "at_reach s \<Longrightarrow> at_step s s' \<Longrightarrow> at_reach s'"

text \<open>
  The invariant: threads have numbers of their own and one key each; a thread that runs is not done, and its
  key is stuck unless the caller waits for it; a stuck key is that of a running thread.
\<close>

definition at_inv :: "at_state \<Rightarrow> bool" where
  "at_inv s \<longleftrightarrow>
     (\<forall>n k. at_threads s n = Some k \<longrightarrow> n < at_next s \<and> n \<notin> at_done s \<and>
        (if at_caller s = Some (n, k) then k \<notin> set (at_stuck s) else k \<in> set (at_stuck s))) \<and>
     (\<forall>n m k. at_threads s n = Some k \<longrightarrow> at_threads s m = Some k \<longrightarrow> n = m) \<and>
     (\<forall>n \<in> at_done s. n < at_next s) \<and>
     (\<forall>k \<in> set (at_stuck s). \<exists>n. at_threads s n = Some k) \<and>
     (\<forall>n k. at_caller s = Some (n, k) \<longrightarrow> at_threads s n = Some k \<or> at_threads s n = None \<and> n \<in> at_done s)"

lemma at_step_inv:
  assumes "at_step s s'" "at_inv s"
  shows "at_inv s'"
  using assms
proof (cases rule: at_step.cases)
  case (called key)
  show ?thesis
  proof (cases "key \<in> set (at_stuck s)")
    case False
    have "\<forall>n. at_threads s n \<noteq> Some key"
      using assms(2) called False unfolding at_inv_def by (metis option.distinct(1))
    moreover have "at_threads s (at_next s) = None"
      using assms(2) unfolding at_inv_def by (metis less_irrefl not_None_eq)
    moreover have "\<forall>n k. at_threads s n = Some k \<longrightarrow> n < at_next s \<and> n \<notin> at_done s \<and> k \<in> set (at_stuck s)"
      using assms(2) called unfolding at_inv_def by simp
    ultimately show ?thesis using assms(2) called False unfolding at_inv_def at_begin_def
      by (auto simp: less_Suc_eq) (metis option.distinct(1))
  qed (use assms(2) called in \<open>simp add: at_begin_def\<close>)
next
  case (returned n key)
  have uniq: "\<And>m k. at_threads s m = Some k \<Longrightarrow> m \<noteq> n \<Longrightarrow> k \<noteq> key"
    using assms(2) returned(2) unfolding at_inv_def by blast
  have run: "\<And>m k. at_threads s m = Some k \<Longrightarrow> m < at_next s \<and> m \<notin> at_done s \<and>
      (if at_caller s = Some (m, k) then k \<notin> set (at_stuck s) else k \<in> set (at_stuck s))"
    using assms(2) unfolding at_inv_def by blast
  have stuck: "\<exists>m. m \<noteq> n \<and> at_threads s m = Some k" if "k \<in> set (at_stuck s)" "k \<noteq> key" for k
    using that assms(2) returned(2) unfolding at_inv_def by (metis option.inject)
  show ?thesis
    using assms(2) returned uniq run stuck unfolding at_inv_def at_return_def
    by (intro conjI; simp split: if_splits) (blast | fastforce)+
next
  case (answered n key)
  then show ?thesis using assms(2) unfolding at_inv_def at_answer_def by (auto split: if_splits) 
next
  case (left_behind n key)
  then show ?thesis using assms(2) unfolding at_inv_def at_give_up_def by (auto split: if_splits)
qed

lemma at_init_inv: "at_inv at_init"
  by (simp add: at_inv_def at_init_def)

lemma at_reach_inv: "at_reach s \<Longrightarrow> at_inv s"
  by (induction rule: at_reach.induct) (use at_init_inv at_step_inv in blast)+

text \<open>
  Property C13. Commands that hang do not pile up threads, and a port is not lost for good: in every state the
  service can get into, at most one thread runs for a lock and port; when nobody waits, a new command is
  refused exactly while a thread of an earlier command for the same lock and port is still blocked, and it
  is accepted again as soon as that thread has returned.
\<close>

theorem hung_commands_do_not_pile_up:
  assumes "at_reach s"
  shows "(at_threads s n = Some key \<longrightarrow> at_threads s m = Some key \<longrightarrow> n = m) \<and>
    (at_caller s = None \<longrightarrow> (fst (at_begin key s) \<longleftrightarrow> (\<forall>i. at_threads s i \<noteq> Some key))) \<and>
    (at_caller s = None \<and> at_threads s n = Some key \<longrightarrow> fst (at_begin key (at_return n key s)))"
proof -
  have inv: "at_inv s" by (rule at_reach_inv [OF assms])
  have "at_caller s = None \<Longrightarrow> key \<in> set (at_stuck s) \<longleftrightarrow> (\<exists>i. at_threads s i = Some key)"
    using inv unfolding at_inv_def by (metis option.distinct(1))
  then show ?thesis
    using inv unfolding at_inv_def by (auto simp: at_begin_def at_return_def)
qed

definition sample_at :: at_state where
  "sample_at = at_give_up 0 ''p'' (snd (at_begin ''p'' at_init))"

lemma sample_at_reach: "at_reach sample_at"
proof -
  have "at_reach (snd (at_begin ''p'' at_init))"
    by (rule at_reach.step [OF at_reach.init at_step.called]) (simp add: at_init_def)
  then show ?thesis
    unfolding sample_at_def by (rule at_reach.step [OF _ at_step.left_behind]) (simp add: at_begin_def at_init_def)
qed

theorem hung_commands_do_not_pile_up_witness:
  "at_reach sample_at \<and> at_caller sample_at = None \<and> at_threads sample_at 0 = Some ''p'' \<and>
   \<not> fst (at_begin ''p'' sample_at) \<and> fst (at_begin ''p'' (at_return 0 ''p'' sample_at))"
proof -
  have "at_caller sample_at = None" "at_threads sample_at 0 = Some ''p''"
    by (simp_all add: sample_at_def at_give_up_def at_begin_def at_init_def)
  then show ?thesis
    using sample_at_reach hung_commands_do_not_pile_up [OF sample_at_reach, of 0 "''p''" 0] by auto
qed

end
