(* ===== verification/Disk.thy ===== *)
theory Disk
  imports Prelude
begin

text \<open>
  The file operations of \<open>write_atomic\<close>, \<open>sync_dir\<close> and the store in \<^verbatim>\<open>rust/src/ops/pending.rs\<close>, on a
  small model of a file system: directory entries name inodes, an inode has its contents and a flag
  that says whether they reached the flash. A power loss keeps the directory as it is in memory or as
  it was when last synced, and destroys the contents of every inode that was not synced. File contents
  are of an arbitrary type \<open>'b\<close>.
\<close>

section \<open>The file system\<close>

record 'b disk =
  cur :: "string \<Rightarrow> nat option"
  dur :: "string \<Rightarrow> nat option"
  inodes :: "nat \<Rightarrow> 'b \<times> bool"
  next_ino :: nat

datatype 'b fs_op = FCreate string 'b | FWrite string 'b | FSync string | FRename string string
  | FRemove string | FSyncDir

text \<open>The second argument of \<open>FCreate\<close> is the contents of an empty file.\<close>

definition fs_exec :: "'b fs_op \<Rightarrow> 'b disk \<Rightarrow> 'b disk" where
  "fs_exec op d = (case op of
     FCreate n e \<Rightarrow>
       (case cur d n of
          Some i \<Rightarrow> d\<lparr>inodes := (inodes d)(i := (e, False))\<rparr>
        | None \<Rightarrow> d\<lparr>cur := (cur d)(n \<mapsto> next_ino d), inodes := (inodes d)(next_ino d := (e, False)),
                    next_ino := next_ino d + 1\<rparr>)
   | FWrite n b \<Rightarrow>
       (case cur d n of Some i \<Rightarrow> d\<lparr>inodes := (inodes d)(i := (b, False))\<rparr> | None \<Rightarrow> d)
   | FSync n \<Rightarrow>
       (case cur d n of Some i \<Rightarrow> d\<lparr>inodes := (inodes d)(i := (fst (inodes d i), True))\<rparr> | None \<Rightarrow> d)
   | FRename a b \<Rightarrow> d\<lparr>cur := (cur d)(b := cur d a, a := None)\<rparr>
   | FRemove n \<Rightarrow> d\<lparr>cur := (cur d)(n := None)\<rparr>
   | FSyncDir \<Rightarrow> d\<lparr>dur := cur d\<rparr>)"

definition fs_run :: "'b fs_op list \<Rightarrow> 'b disk \<Rightarrow> 'b disk" where
  "fs_run ops d = fold fs_exec ops d"

definition read_file :: "'b disk \<Rightarrow> string \<Rightarrow> 'b option" where
  "read_file d n = map_option (\<lambda>i. fst (inodes d i)) (cur d n)"

inductive power_loss :: "'b disk \<Rightarrow> 'b disk \<Rightarrow> bool" where
  "dir = cur d \<or> dir = dur d \<Longrightarrow> (\<And>i. snd (inodes d i) \<Longrightarrow> data i = inodes d i) \<Longrightarrow> (\<And>i. snd (data i))
     \<Longrightarrow> power_loss d \<lparr>cur = dir, dur = dir, inodes = data, next_ino = next_ino d\<rparr>"

inductive_cases power_lossE: "power_loss d d'"

section \<open>Atomic replacement\<close>

definition tmp_name :: "string \<Rightarrow> string" where
  "tmp_name n = ''.'' @ n @ ''.tmp''"

text \<open>\<open>write_atomic\<close>: create, write and sync a temporary file, rename it, sync the directory.\<close>

definition write_atomic :: "string \<Rightarrow> 'b \<Rightarrow> 'b \<Rightarrow> 'b fs_op list" where
  "write_atomic n e b =
     [FCreate (tmp_name n) e, FWrite (tmp_name n) b, FSync (tmp_name n), FRename (tmp_name n) n, FSyncDir]"

definition remove_file :: "string \<Rightarrow> 'b fs_op list" where
  "remove_file n = [FRemove n, FSyncDir]"

text \<open>
  A disk at rest: the directory is synced, entries name distinct allocated inodes and every named
  file except a leftover temporary has reached the flash.
\<close>

definition at_rest :: "'b disk \<Rightarrow> bool" where
  "at_rest d \<longleftrightarrow> cur d = dur d
     \<and> (\<forall>n i. cur d n = Some i \<longrightarrow> i < next_ino d \<and> snd (inodes d i))
     \<and> (\<forall>m n i. cur d m = Some i \<and> cur d n = Some i \<longrightarrow> m = n)"

definition blank_disk :: "'b \<Rightarrow> 'b disk" where
  "blank_disk e = \<lparr>cur = Map.empty, dur = Map.empty, inodes = (\<lambda>_. (e, True)), next_ino = 0\<rparr>"

lemma tmp_name_neq [simp]: "tmp_name n \<noteq> n" "n \<noteq> tmp_name n"
proof -
  have "length (tmp_name n) = length n + 5" by (simp add: tmp_name_def)
  then show "tmp_name n \<noteq> n" "n \<noteq> tmp_name n" by (metis add_cancel_right_right zero_neq_numeral)+
qed

lemma blank_at_rest [simp]: "at_rest (blank_disk e)"
  by (simp add: at_rest_def blank_disk_def)

lemma fs_run_simps [simp]: "fs_run [] d = d" "fs_run (op # ops) d = fs_run ops (fs_exec op d)"
  by (simp_all add: fs_run_def)

text \<open>The inode of the temporary file: a leftover one is reused, else a new one is allocated.\<close>

definition tmp_ino :: "string \<Rightarrow> 'b disk \<Rightarrow> nat" where
  "tmp_ino n d = (case cur d (tmp_name n) of Some i \<Rightarrow> i | None \<Rightarrow> next_ino d)"

lemma tmp_ino_fresh:
  assumes "at_rest d" "cur d m = Some i" "m \<noteq> tmp_name n"
  shows "i \<noteq> tmp_ino n d"
proof (cases "cur d (tmp_name n)")
  case None
  have "i < next_ino d" using assms(1,2) by (simp add: at_rest_def)
  with None show ?thesis by (simp add: tmp_ino_def)
next
  case (Some j)
  with assms show ?thesis unfolding at_rest_def tmp_ino_def by force
qed

text \<open>The disk after the temporary file was created, with contents \<open>c\<close> that were synced or not.\<close>

definition with_tmp :: "string \<Rightarrow> 'b \<times> bool \<Rightarrow> 'b disk \<Rightarrow> 'b disk" where
  "with_tmp n c d = d\<lparr>cur := (cur d)(tmp_name n \<mapsto> tmp_ino n d), inodes := (inodes d)(tmp_ino n d := c),
     next_ino := (case cur d (tmp_name n) of Some _ \<Rightarrow> next_ino d | None \<Rightarrow> next_ino d + 1)\<rparr>"

lemma exec_create: "fs_exec (FCreate (tmp_name n) e) d = with_tmp n (e, False) d"
  by (cases "cur d (tmp_name n)") (auto simp: fs_exec_def with_tmp_def tmp_ino_def fun_upd_idem)

lemma exec_write: "fs_exec (FWrite (tmp_name n) b) (with_tmp n c d) = with_tmp n (b, False) d"
  by (simp add: fs_exec_def with_tmp_def)

lemma exec_sync: "fs_exec (FSync (tmp_name n)) (with_tmp n (b, s) d) = with_tmp n (b, True) d"
  by (simp add: fs_exec_def with_tmp_def)

definition renamed :: "string \<Rightarrow> 'b \<Rightarrow> 'b disk \<Rightarrow> 'b disk" where
  "renamed n b d = (with_tmp n (b, True) d)\<lparr>cur := (cur d)(tmp_name n := None, n \<mapsto> tmp_ino n d)\<rparr>"

lemma exec_rename: "fs_exec (FRename (tmp_name n) n) (with_tmp n (b, True) d) = renamed n b d"
  by (auto simp: fs_exec_def with_tmp_def renamed_def fun_upd_twist)

lemmas exec_atomic = exec_create exec_write exec_sync exec_rename

text \<open>What a prefix of the operations leaves: the temporary file, or the renamed file.\<close>

lemma write_atomic_prefix:
  "fs_run (take k (write_atomic n e b)) d \<in>
     {d, with_tmp n (e, False) d, with_tmp n (b, False) d, with_tmp n (b, True) d, renamed n b d,
      (renamed n b d)\<lparr>dur := cur (renamed n b d)\<rparr>}"
proof -
  consider "k = 0" | "k = 1" | "k = 2" | "k = 3" | "k = 4" | "k \<ge> 5" by linarith
  then show ?thesis
    by cases (simp_all add: write_atomic_def exec_atomic numeral_eq_Suc, simp add: fs_exec_def)
qed

lemma write_atomic_run:
  "fs_run (write_atomic n e b) d = (renamed n b d)\<lparr>dur := cur (renamed n b d)\<rparr>"
  by (simp add: write_atomic_def exec_atomic) (simp add: fs_exec_def)

lemma write_atomic_rest:
  assumes "at_rest d"
  shows "at_rest (fs_run (write_atomic n e b) d)"
proof -
  have lt: "i < next_ino d" if "cur d m = Some i" for m i using assms that by (auto simp: at_rest_def)
  have "tmp_ino n d < next_ino (renamed n b d)"
    using lt by (auto simp: renamed_def with_tmp_def tmp_ino_def split: option.split)
  moreover have "next_ino d \<le> next_ino (renamed n b d)"
    by (auto simp: renamed_def with_tmp_def split: option.split)
  ultimately show ?thesis
    using assms tmp_ino_fresh [OF assms, of _ _ n] lt
    unfolding write_atomic_run at_rest_def
    by (auto simp: renamed_def with_tmp_def dest: order.strict_trans1 split: if_splits)
      (metis order_less_le_trans)+
qed

lemma read_write_atomic:
  assumes "at_rest d"
  shows "read_file (fs_run (write_atomic n e b) d) m =
     (if m = n then Some b else if m = tmp_name n then None else read_file d m)"
  using tmp_ino_fresh [OF assms, of m _ n]
  by (cases "cur d m") (auto simp: write_atomic_run read_file_def renamed_def with_tmp_def)

lemma remove_file_rest: "at_rest d \<Longrightarrow> at_rest (fs_run (remove_file n) d)"
  by (auto simp: remove_file_def fs_exec_def at_rest_def)

lemma read_remove_file: "read_file (fs_run (remove_file n) d) m = (if m = n then None else read_file d m)"
  by (simp add: remove_file_def fs_exec_def read_file_def)

lemma power_loss_rest: "at_rest d \<Longrightarrow> power_loss d d' \<Longrightarrow> at_rest d' \<and> (\<forall>m. read_file d' m = read_file d m)"
  by (auto elim!: power_lossE simp: at_rest_def read_file_def map_option_case split: option.split)

section \<open>Power loss during a replacement\<close>

lemma power_loss_with_tmp:
  assumes rest: "at_rest d" and loss: "power_loss (with_tmp n c d) d'" and m: "m \<noteq> tmp_name n"
  shows "read_file d' m = read_file d m"
proof -
  from loss obtain dir data where d': "d' = \<lparr>cur = dir, dur = dir, inodes = data, next_ino = next_ino (with_tmp n c d)\<rparr>"
    and dir: "dir = cur (with_tmp n c d) \<or> dir = dur (with_tmp n c d)"
    and data: "\<And>i. snd (inodes (with_tmp n c d) i) \<Longrightarrow> data i = inodes (with_tmp n c d) i"
    by (auto elim: power_lossE)
  have entry: "dir m = cur d m" using dir m rest by (auto simp: with_tmp_def at_rest_def)
  show ?thesis
  proof (cases "cur d m")
    case None
    then show ?thesis by (simp add: d' entry read_file_def)
  next
    case (Some i)
    have ne: "i \<noteq> tmp_ino n d" using tmp_ino_fresh [OF rest Some m] .
    have "snd (inodes d i)" using rest Some by (auto simp: at_rest_def)
    with ne data [of i] have "data i = inodes d i" by (simp add: with_tmp_def)
    with Some show ?thesis by (simp add: d' entry read_file_def)
  qed
qed

lemma power_loss_renamed:
  assumes rest: "at_rest d" and loss: "power_loss (renamed n b d) d'"
  shows "read_file d' n \<in> {read_file d n, Some b}" "m \<noteq> n \<Longrightarrow> m \<noteq> tmp_name n \<Longrightarrow> read_file d' m = read_file d m"
proof -
  from loss obtain dir data where d': "d' = \<lparr>cur = dir, dur = dir, inodes = data, next_ino = next_ino (renamed n b d)\<rparr>"
    and dir: "dir = cur (renamed n b d) \<or> dir = dur (renamed n b d)"
    and data: "\<And>i. snd (inodes (renamed n b d) i) \<Longrightarrow> data i = inodes (renamed n b d) i"
    by (auto elim: power_lossE)
  have new: "data (tmp_ino n d) = (b, True)" using data [of "tmp_ino n d"] by (simp add: renamed_def with_tmp_def)
  have old: "data i = inodes d i" if "cur d k = Some i" "k \<noteq> tmp_name n" for k i
  proof -
    have "i \<noteq> tmp_ino n d" using tmp_ino_fresh [OF rest that] .
    moreover have "snd (inodes d i)" using rest that by (auto simp: at_rest_def)
    ultimately show ?thesis using data [of i] by (simp add: renamed_def with_tmp_def)
  qed
  have dur: "dur (renamed n b d) = cur d" using rest by (simp add: renamed_def with_tmp_def at_rest_def)
  show "read_file d' n \<in> {read_file d n, Some b}"
    using dir
  proof
    assume "dir = cur (renamed n b d)"
    then show ?thesis by (simp add: d' read_file_def renamed_def new)
  next
    assume "dir = dur (renamed n b d)"
    then show ?thesis using old [of n] by (cases "cur d n") (simp_all add: d' read_file_def dur)
  qed
  assume m: "m \<noteq> n" "m \<noteq> tmp_name n"
  then have "dir m = cur d m" using dir by (auto simp: dur) (simp add: renamed_def)
  then show "read_file d' m = read_file d m"
    using old [of m] m by (cases "cur d m") (simp_all add: d' read_file_def)
qed

lemma write_atomic_crash:
  assumes rest: "at_rest d" and loss: "power_loss (fs_run (take k (write_atomic n e b)) d) d'"
  shows "read_file d' n \<in> {read_file d n, Some b}"
    "m \<noteq> n \<Longrightarrow> m \<noteq> tmp_name n \<Longrightarrow> read_file d' m = read_file d m"
proof -
  from write_atomic_prefix [of k n e b d] consider
      (same) "fs_run (take k (write_atomic n e b)) d = d"
    | (tmp) c where "fs_run (take k (write_atomic n e b)) d = with_tmp n c d"
    | (ren) "fs_run (take k (write_atomic n e b)) d = renamed n b d"
    | (all) "fs_run (take k (write_atomic n e b)) d = fs_run (write_atomic n e b) d"
    unfolding write_atomic_run by blast
  then have "read_file d' n \<in> {read_file d n, Some b} \<and>
    (m \<noteq> n \<longrightarrow> m \<noteq> tmp_name n \<longrightarrow> read_file d' m = read_file d m)"
  proof cases
    case same
    then show ?thesis using power_loss_rest [OF rest] loss by simp
  next
    case tmp
    then show ?thesis using power_loss_with_tmp [OF rest] loss by auto
  next
    case ren
    then show ?thesis using power_loss_renamed [OF rest] loss by auto
  next
    case all
    then show ?thesis
      using power_loss_rest [OF write_atomic_rest [OF rest]] loss read_write_atomic [OF rest] by auto
  qed
  then show "read_file d' n \<in> {read_file d n, Some b}"
    "m \<noteq> n \<Longrightarrow> m \<noteq> tmp_name n \<Longrightarrow> read_file d' m = read_file d m" by blast+
qed

text \<open>
  A power loss at any point of \<open>write_atomic\<close> leaves the file with its old contents or with
  the whole new contents, and no other file changed; once \<open>write_atomic\<close> has returned, a power loss
  leaves the new contents.
\<close>

theorem write_atomic_crash_safe:
  assumes "at_rest d" and "power_loss (fs_run (take k (write_atomic n e b)) d) d'"
  shows "read_file d' n \<in> {read_file d n, Some b}
    \<and> (\<forall>m. m \<noteq> n \<and> m \<noteq> tmp_name n \<longrightarrow> read_file d' m = read_file d m)
    \<and> (5 \<le> k \<longrightarrow> read_file d' n = Some b)"
proof -
  have "read_file d' n = Some b" if "5 \<le> k"
  proof -
    have "take k (write_atomic n e b) = write_atomic n e b" using that by (simp add: write_atomic_def)
    with assms power_loss_rest [OF write_atomic_rest [OF assms(1)]] read_write_atomic [OF assms(1)]
    show ?thesis by simp
  qed
  with write_atomic_crash [OF assms] show ?thesis by blast
qed

text \<open>The store's file on a blank disk, the power fails before the rename reached the flash.\<close>

definition ex_lost :: "nat disk" where
  "ex_lost = \<lparr>cur = Map.empty, dur = Map.empty, inodes = (\<lambda>_. (0, True))(0 := (7, True)), next_ino = 1\<rparr>"

lemma ex_lost_loss:
  "power_loss (fs_run (take 4 (write_atomic ''pending.json'' 0 (7 :: nat))) (blank_disk 0)) ex_lost"
proof -
  have r: "fs_run (take 4 (write_atomic ''pending.json'' 0 (7 :: nat))) (blank_disk 0) = renamed ''pending.json'' (7 :: nat) (blank_disk 0)"
    by (simp add: write_atomic_def exec_atomic numeral_eq_Suc)
  have "power_loss (renamed ''pending.json'' (7 :: nat) (blank_disk 0))
     \<lparr>cur = Map.empty, dur = Map.empty, inodes = (\<lambda>_. (0, True))(0 := (7, True)),
      next_ino = next_ino (renamed ''pending.json'' (7 :: nat) (blank_disk 0))\<rparr>"
    by (rule power_loss.intros) (auto simp: renamed_def with_tmp_def blank_disk_def tmp_ino_def)
  then show ?thesis unfolding r ex_lost_def by (simp add: renamed_def with_tmp_def blank_disk_def)
qed

theorem write_atomic_crash_safe_witness:
  "read_file ex_lost ''pending.json'' \<in> {read_file (blank_disk 0) ''pending.json'', Some 7}
    \<and> read_file ex_lost ''last.json'' = read_file (blank_disk 0) ''last.json''"
  using write_atomic_crash_safe [OF blank_at_rest ex_lost_loss] by (simp add: tmp_name_def)

end
