(* ===== verification/Pending.thy ===== *)
theory Pending
  imports Txn Disk
begin

text \<open>
  The store of the transaction in progress, \<^verbatim>\<open>rust/src/ops/pending.rs\<close>: \<open>pending.json\<close>, \<open>last.json\<close>,
  \<open>notice.json\<close> and the \<open>takeover\<close> marker in one directory. The serialisation is \<open>serde_json\<close>'s, with
  derived instances: it is a parameter (\<open>serde\<close>), and what the store relies on, that reading back what
  was written gives the value, is the predicate \<open>serde_ok\<close>. A directory that cannot be used is
  \<open>usable = False\<close>; a disk that refuses writes is \<open>writable = False\<close> (the source logs the error and
  goes on).
\<close>

record last =
  l_txn :: txn
  l_acked :: bool

record 'b serde =
  c_empty :: 'b
  ser_txn :: "txn \<Rightarrow> 'b"
  de_txn :: "'b \<Rightarrow> txn option"
  ser_last :: "last \<Rightarrow> 'b"
  de_last :: "'b \<Rightarrow> last option"
  ser_notices :: "string list \<Rightarrow> 'b"
  de_notices :: "'b \<Rightarrow> string list option"

definition serde_ok :: "'b serde \<Rightarrow> bool" where
  "serde_ok c \<longleftrightarrow> (\<forall>t. de_txn c (ser_txn c t) = Some t) \<and> (\<forall>l. de_last c (ser_last c l) = Some l)
     \<and> (\<forall>n. de_notices c (ser_notices c n) = Some n)"

record 'b store =
  usable :: bool
  writable :: bool
  disk :: "'b disk"
  codec :: "'b serde"

definition pending_name :: string where "pending_name = ''pending.json''"
definition last_name :: string where "last_name = ''last.json''"
definition takeover_name :: string where "takeover_name = ''takeover''"
definition notice_name :: string where "notice_name = ''notice.json''"
definition bad_name :: string where "bad_name = ''pending.json.bad''"

lemmas file_names = pending_name_def last_name_def takeover_name_def notice_name_def bad_name_def tmp_name_def

text \<open>A write of a whole file, and a removal: nothing happens without a usable directory.\<close>

definition put_file :: "string \<Rightarrow> 'b \<Rightarrow> 'b store \<Rightarrow> 'b store" where
  "put_file n b s =
     (if usable s \<and> writable s then s\<lparr>disk := fs_run (write_atomic n (c_empty (codec s)) b) (disk s)\<rparr> else s)"

definition get_file :: "string \<Rightarrow> 'b store \<Rightarrow> 'b option" where
  "get_file n s = (if usable s then read_file (disk s) n else None)"

definition save :: "txn \<Rightarrow> 'b store \<Rightarrow> 'b store" where
  "save t s = put_file pending_name (ser_txn (codec s) t) s"

definition clear :: "'b store \<Rightarrow> 'b store" where
  "clear s =
     (if usable s \<and> writable s \<and> cur (disk s) pending_name \<noteq> None
      then s\<lparr>disk := fs_run (remove_file pending_name) (disk s)\<rparr> else s)"

text \<open>\<open>load\<close> sets an unreadable file aside.\<close>

definition load :: "'b store \<Rightarrow> txn option \<times> 'b store" where
  "load s =
     (case get_file pending_name s of
        None \<Rightarrow> (None, s)
      | Some b \<Rightarrow>
          (case de_txn (codec s) b of
             Some t \<Rightarrow> (Some t, s)
           | None \<Rightarrow> (None, if writable s then s\<lparr>disk := fs_exec (FRename pending_name bad_name) (disk s)\<rparr> else s)))"

definition save_last :: "last \<Rightarrow> 'b store \<Rightarrow> 'b store" where
  "save_last l s = put_file last_name (ser_last (codec s) l) s"

definition load_last :: "'b store \<Rightarrow> last option" where
  "load_last s = Option.bind (get_file last_name s) (de_last (codec s))"

definition load_notices :: "'b store \<Rightarrow> string list" where
  "load_notices s =
     (case Option.bind (get_file notice_name s) (de_notices (codec s)) of Some n \<Rightarrow> n | None \<Rightarrow> [])"

definition notice_acked :: "string \<Rightarrow> 'b store \<Rightarrow> bool" where
  "notice_acked n s \<longleftrightarrow> n \<in> set (load_notices s)"

definition save_notice_ack :: "string \<Rightarrow> 'b store \<Rightarrow> 'b store" where
  "save_notice_ack n s =
     (let acked = load_notices s; acked = (if n \<in> set acked then acked else acked @ [n])
      in put_file notice_name (ser_notices (codec s) acked) s)"

definition take_takeover :: "'b store \<Rightarrow> bool \<times> 'b store" where
  "take_takeover s =
     (if usable s \<and> writable s \<and> cur (disk s) takeover_name \<noteq> None
      then (True, s\<lparr>disk := fs_run (remove_file takeover_name) (disk s)\<rparr>) else (False, s))"

section \<open>Interface of the store\<close>

text \<open>
  What the engine relies on: of the pending file, the last save or clear counts; the other writes
  leave it alone. \<open>good\<close> is kept by every operation.
\<close>

locale pending_store =
  fixes save :: "'t \<Rightarrow> 's \<Rightarrow> 's" and clear :: "'s \<Rightarrow> 's" and save_other :: "'o \<Rightarrow> 's \<Rightarrow> 's"
    and pending :: "'s \<Rightarrow> 't option" and good :: "'s \<Rightarrow> bool"
  assumes good_save [simp]: "good s \<Longrightarrow> good (save t s)"
    and good_clear [simp]: "good s \<Longrightarrow> good (clear s)"
    and good_other [simp]: "good s \<Longrightarrow> good (save_other x s)"
    and pending_save [simp]: "good s \<Longrightarrow> pending (save t s) = Some t"
    and pending_clear [simp]: "good s \<Longrightarrow> pending (clear s) = None"
    and pending_other [simp]: "good s \<Longrightarrow> pending (save_other x s) = pending s"
begin

text \<open>A run of writes: only the last command on the pending file counts.\<close>

lemma run_commands:
  assumes "good s"
  shows "good (fold (\<lambda>c. case c of Inl x \<Rightarrow> save_other x | Inr None \<Rightarrow> clear | Inr (Some t) \<Rightarrow> save t) cs s) \<and>
    pending (fold (\<lambda>c. case c of Inl x \<Rightarrow> save_other x | Inr None \<Rightarrow> clear | Inr (Some t) \<Rightarrow> save t) cs s) =
      fold (\<lambda>c p. case c of Inl _ \<Rightarrow> p | Inr t \<Rightarrow> t) cs (pending s)"
  using assms
proof (induction cs arbitrary: s)
  case (Cons c cs)
  show ?case
  proof (cases c)
    case (Inl x)
    with Cons.IH [of "save_other x s"] Cons.prems show ?thesis by simp
  next
    case (Inr o')
    with Cons.IH [of "clear s"] Cons.IH [of "save t s" for t] Cons.prems show ?thesis by (cases o') simp_all
  qed
qed simp

end

section \<open>The store keeps the interface\<close>

definition store_good :: "'b store \<Rightarrow> bool" where
  "store_good s \<longleftrightarrow> usable s \<and> writable s \<and> at_rest (disk s) \<and> serde_ok (codec s)"

definition pending_txn :: "'b store \<Rightarrow> txn option" where
  "pending_txn s = Option.bind (get_file pending_name s) (de_txn (codec s))"

definition save_aside :: "last + string \<Rightarrow> 'b store \<Rightarrow> 'b store" where
  "save_aside x s = (case x of Inl l \<Rightarrow> save_last l s | Inr n \<Rightarrow> save_notice_ack n s)"

lemma put_file_good [simp]: "store_good s \<Longrightarrow> store_good (put_file n b s)"
  by (simp add: store_good_def put_file_def write_atomic_rest)

lemma put_file_codec [simp]: "codec (put_file n b s) = codec s"
  by (simp add: put_file_def)

lemma get_put_file:
  "store_good s \<Longrightarrow> get_file m (put_file n b s)
     = (if m = n then Some b else if m = tmp_name n then None else get_file m s)"
  by (simp add: store_good_def put_file_def get_file_def read_write_atomic)

lemma get_clear: "store_good s \<Longrightarrow> get_file m (clear s) = (if m = pending_name then None else get_file m s)"
  by (auto simp: store_good_def clear_def get_file_def read_remove_file) (simp add: read_file_def)

lemma clear_good [simp]: "store_good s \<Longrightarrow> store_good (clear s)"
  by (simp add: store_good_def clear_def remove_file_rest)

lemma clear_codec [simp]: "codec (clear s) = codec s"
  by (simp add: clear_def)

interpretation pstore: pending_store save clear save_aside pending_txn store_good
proof
  fix s :: "'b store" and t x
  assume g: "store_good s"
  then have c: "serde_ok (codec s)" by (simp add: store_good_def)
  show "store_good (save t s)" using g by (simp add: save_def)
  show "store_good (clear s)" using g by simp
  show "store_good (save_aside x s)"
    using g by (cases x) (simp_all add: save_aside_def save_last_def save_notice_ack_def Let_def)
  show "pending_txn (save t s) = Some t"
    using c by (simp add: pending_txn_def save_def get_put_file [OF g] serde_ok_def)
  show "pending_txn (clear s) = None" by (simp add: pending_txn_def get_clear [OF g])
  show "pending_txn (save_aside x s) = pending_txn s"
    by (cases x) (simp_all add: save_aside_def pending_txn_def save_last_def save_notice_ack_def Let_def
        get_put_file [OF g] file_names)
qed

lemma load_fst: "fst (load s) = pending_txn s"
  by (simp add: load_def pending_txn_def split: option.split)

lemma load_snd: "pending_txn s \<noteq> None \<or> get_file pending_name s = None \<Longrightarrow> snd (load s) = s"
  by (auto simp: load_def pending_txn_def split: option.split)

lemma load_last_save_last: "store_good s \<Longrightarrow> load_last (save_last l s) = Some l"
  by (simp add: load_last_def save_last_def get_put_file) (simp add: store_good_def serde_ok_def)

lemma load_last_frame [simp]:
  "store_good s \<Longrightarrow> load_last (save t s) = load_last s" "store_good s \<Longrightarrow> load_last (clear s) = load_last s"
  by (simp_all add: load_last_def save_def get_put_file get_clear) (simp_all add: file_names)

lemma notice_acked_save: "store_good s \<Longrightarrow> notice_acked m (save_notice_ack n s) \<longleftrightarrow> m = n \<or> notice_acked m s"
  by (auto simp: notice_acked_def load_notices_def save_notice_ack_def Let_def get_put_file
      store_good_def serde_ok_def)

lemma takeover_good:
  "store_good s \<Longrightarrow> store_good (snd (take_takeover s))"
  "store_good s \<Longrightarrow> pending_txn (snd (take_takeover s)) = pending_txn s"
  by (auto simp: take_takeover_def store_good_def remove_file_rest pending_txn_def get_file_def read_remove_file file_names)

section \<open>Restart after a power loss\<close>

definition store_loss :: "'b store \<Rightarrow> 'b store \<Rightarrow> bool" where
  "store_loss s s' \<longleftrightarrow> power_loss (disk s) (disk s') \<and> usable s' = usable s \<and> writable s' = writable s \<and> codec s' = codec s"

lemma store_loss_good: "store_good s \<Longrightarrow> store_loss s s' \<Longrightarrow> store_good s' \<and> pending_txn s' = pending_txn s"
  using power_loss_rest [of "disk s" "disk s'"]
  by (simp add: store_good_def store_loss_def pending_txn_def get_file_def)

text \<open>The store after the first \<open>k\<close> file operations of a save.\<close>

definition save_prefix :: "nat \<Rightarrow> txn \<Rightarrow> 'b store \<Rightarrow> 'b store" where
  "save_prefix k t s = s\<lparr>disk := fs_run (take k (write_atomic pending_name (c_empty (codec s)) (ser_txn (codec s) t))) (disk s)\<rparr>"

text \<open>
  Property C23. If the device loses power at any moment of saving a transaction, the next start loads
  either the transaction that was saved before or the new one, never a torn file; what another file
  of the store held is unchanged.
\<close>

theorem save_crash_safe:
  assumes "store_good s" and "store_loss (save_prefix k t s) s'"
  shows "fst (load s') \<in> {fst (load s), Some t} \<and> (5 \<le> k \<longrightarrow> fst (load s') = Some t) \<and> load_last s' = load_last s"
proof -
  let ?b = "ser_txn (codec s) t"
  have rest: "at_rest (disk s)" and c: "serde_ok (codec s)" using assms(1) by (simp_all add: store_good_def)
  have loss: "power_loss (fs_run (take k (write_atomic pending_name (c_empty (codec s)) ?b)) (disk s)) (disk s')"
    and same: "codec s' = codec s" "usable s' = usable s"
    using assms(2) by (simp_all add: store_loss_def save_prefix_def)
  have "read_file (disk s') pending_name \<in> {read_file (disk s) pending_name, Some ?b}"
    by (rule write_atomic_crash(1) [OF rest loss])
  moreover have "read_file (disk s') last_name = read_file (disk s) last_name"
    by (rule write_atomic_crash(2) [OF rest loss]) (simp_all add: file_names)
  moreover have "read_file (disk s') pending_name = Some ?b" if "5 \<le> k"
  proof -
    have "take k (write_atomic pending_name (c_empty (codec s)) ?b) = write_atomic pending_name (c_empty (codec s)) ?b"
      using that by (simp add: write_atomic_def)
    with loss power_loss_rest [OF write_atomic_rest [OF rest]] read_write_atomic [OF rest] show ?thesis by simp
  qed
  ultimately show ?thesis
    using c assms(1) same
    by (auto simp: load_fst pending_txn_def get_file_def load_last_def serde_ok_def store_good_def)
qed

text \<open>A concrete codec: the value itself, tagged.\<close>

type_synonym plain = "txn + last + string list"

definition plain_codec :: "plain serde" where
  "plain_codec = \<lparr>c_empty = Inr (Inr []),
     ser_txn = Inl, de_txn = (\<lambda>b. case b of Inl t \<Rightarrow> Some t | _ \<Rightarrow> None),
     ser_last = Inr \<circ> Inl, de_last = (\<lambda>b. case b of Inr (Inl l) \<Rightarrow> Some l | _ \<Rightarrow> None),
     ser_notices = Inr \<circ> Inr, de_notices = (\<lambda>b. case b of Inr (Inr n) \<Rightarrow> Some n | _ \<Rightarrow> None)\<rparr>"

definition ex_store :: "plain store" where
  "ex_store = \<lparr>usable = True, writable = True, disk = blank_disk (Inr (Inr [])), codec = plain_codec\<rparr>"

lemma plain_codec_ok [simp]: "serde_ok plain_codec"
  by (simp add: serde_ok_def plain_codec_def)

lemma ex_store_good [simp]: "store_good ex_store"
  by (simp add: store_good_def ex_store_def)

lemma all_synced_loss:
  assumes "\<And>i. snd (inodes d i)" "cur d = dur d"
  shows "power_loss d d"
proof -
  have "power_loss d \<lparr>cur = cur d, dur = cur d, inodes = inodes d, next_ino = next_ino d\<rparr>"
    using assms by (intro power_loss.intros) auto
  moreover have "\<lparr>cur = cur d, dur = cur d, inodes = inodes d, next_ino = next_ino d\<rparr> = d"
    using assms(2) by (intro disk.equality) simp_all
  ultimately show ?thesis by simp
qed

lemma ex_store_loss: "store_loss (save_prefix 5 ex_txn ex_store) (save ex_txn ex_store)"
proof -
  have "save_prefix 5 ex_txn ex_store = save ex_txn ex_store"
    by (simp add: save_prefix_def save_def put_file_def ex_store_def write_atomic_def)
  moreover have "power_loss (disk (save ex_txn ex_store)) (disk (save ex_txn ex_store))"
    by (rule all_synced_loss)
      (simp_all add: save_def put_file_def ex_store_def write_atomic_run renamed_def with_tmp_def blank_disk_def)
  ultimately show ?thesis by (simp add: store_loss_def)
qed

theorem save_crash_safe_witness:
  "fst (load (save ex_txn ex_store)) = Some ex_txn \<and> load_last (save ex_txn ex_store) = load_last ex_store"
  using save_crash_safe [OF ex_store_good ex_store_loss] by simp

end
