(* ===== verification/Op_Ui.thy ===== *)
theory Op_Ui
  imports Txn Action_Spec
begin

text \<open>
  The decisions of \<^verbatim>\<open>rust/src/ops/ui.rs\<close>: how long a result stays on the screen, which buttons are
  offered, whether a change can be undone and why not, the three progress lines. The Chinese and
  English wordings are not modelled; where the source picks a wording, the model has a constructor.
\<close>

datatype stay = StLive | StAlert | StNone | StBrief | StSticky

definition ui_stay :: "txn \<Rightarrow> stay" where
  "ui_stay t =
     (if \<not> is_final (phase t) then StLive
      else case (phase t, reason t) of
        (RollbackFailed, _) \<Rightarrow> StAlert
      | (Cancelled, Some Superseded) \<Rightarrow> StNone
      | (Confirmed, Some Verified) \<Rightarrow> StBrief
      | (Confirmed, Some NoVerify) \<Rightarrow> StBrief
      | (RolledBack, Some UserRevert) \<Rightarrow> StBrief
      | _ \<Rightarrow> StSticky)"

definition sticky :: "txn \<Rightarrow> bool" where
  "sticky t \<longleftrightarrow> ui_stay t = StSticky \<or> ui_stay t = StAlert"

datatype undo_reason = ChangedSince | NothingToUndo | RetryRevert | SimWasChanged | CannotUndo

definition undo_why :: "phase option \<Rightarrow> reason option \<Rightarrow> bool \<Rightarrow> undo_reason option" where
  "undo_why p why target_still =
     (case p of
        Some Confirmed \<Rightarrow> None
      | Some Unverified \<Rightarrow> None
      | Some RolledBack \<Rightarrow> Some NothingToUndo
      | Some NotApplied \<Rightarrow> Some NothingToUndo
      | Some RollbackFailed \<Rightarrow> Some RetryRevert
      | Some Cancelled \<Rightarrow>
          (case why of
             Some SimChanged \<Rightarrow> Some SimWasChanged
           | Some Superseded \<Rightarrow> Some ChangedSince
           | _ \<Rightarrow> if target_still then None else Some ChangedSince)
      | _ \<Rightarrow> Some CannotUndo)"

definition undo_denied :: "txn \<Rightarrow> bool \<Rightarrow> undo_reason option" where
  "undo_denied t later_change =
     (if later_change then Some ChangedSince
      else undo_why (Some (phase t)) (reason t) (readback t = Some (target t)))"

definition ui_goal :: "txn \<Rightarrow> string" where
  "ui_goal t = (case phase t of RollingBack \<Rightarrow> rollback_to t | RolledBack \<Rightarrow> rollback_to t
     | RollbackFailed \<Rightarrow> rollback_to t | _ \<Rightarrow> target t)"

datatype next_line = NextRollback | NextNoRollback | NextReverting

text \<open>\<open>view\<close>: the flags of the transaction view. \<open>w_undo\<close> is \<open>None\<close> while the transaction is live.\<close>

record op_view =
  w_txn :: txn
  w_age_ms :: u64
  w_remaining_ms :: "u64 option"
  w_stay :: stay
  w_next :: "next_line option"
  w_note :: bool
  w_applied :: bool
  w_registered :: bool
  w_data :: bool
  w_can_revert :: bool
  w_can_keep :: bool
  w_undo :: "undo_reason option option"
  w_redo :: bool

definition ui_view :: "txn \<Rightarrow> u64 \<Rightarrow> bool \<Rightarrow> op_view" where
  "ui_view t now later_change =
     (let live = \<not> is_final (phase t);
          can = (phase t = Verifying \<and> counting t)
      in \<lparr>w_txn = t, w_age_ms = sat_sub now (created_ms t), w_remaining_ms = remaining_ms now t,
          w_stay = ui_stay t,
          w_next = (if \<not> counting t then None
                    else if phase t = Verifying \<and> rollback_enabled t then Some NextRollback
                    else if phase t = Verifying then Some NextNoRollback
                    else Some NextReverting),
          w_note = (live \<and> boots t > 0),
          w_applied = (readback t = Some (ui_goal t)),
          w_registered = registered t, w_data = data_ok t,
          w_can_revert = can, w_can_keep = can,
          w_undo = (if live then None else Some (undo_denied t later_change)),
          w_redo = undo t\<rparr>)"

datatype screen_kind = SkLive | SkAlert | SkSticky

text \<open>\<open>screen_op\<close>: what the home page shows, without its words.\<close>

definition screen_op :: "txn option \<Rightarrow> (txn \<times> bool) option \<Rightarrow> screen_kind option" where
  "screen_op active lst =
     (case active of
        Some t \<Rightarrow> Some SkLive
      | None \<Rightarrow>
          (case lst of
             None \<Rightarrow> None
           | Some (t, acked) \<Rightarrow>
               if acked \<or> \<not> sticky t then None
               else if phase t = RollbackFailed then Some SkAlert else Some SkSticky))"

definition div_ceil :: "u64 \<Rightarrow> u64 \<Rightarrow> u64" where
  "div_ceil a b = (if a mod b = 0 then a div b else a div b + 1)"

definition clock :: "u64 \<Rightarrow> string" where
  "clock ms =
     (let s = unat (div_ceil ms 1000); m = s mod 60
      in nat_digits (s div 60) @ '':'' @ (if m < 10 then ''0'' else []) @ nat_digits m)"

section \<open>Properties\<close>

lemma undo_allowed_iff:
  "undo_denied t later = None \<longleftrightarrow>
     \<not> later \<and> (phase t = Confirmed \<or> phase t = Unverified \<or>
       (phase t = Cancelled \<and> reason t \<notin> {Some SimChanged, Some Superseded} \<and> readback t = Some (target t)))"
  by (auto simp: undo_denied_def undo_why_def split: phase.splits option.splits reason.splits)

text \<open>
  The view offers the buttons \<open>revert\<close> and \<open>keep\<close> exactly when the transaction accepts
  them, and offers \<open>undo\<close> only for a finished transaction whose value can still be in force: it was
  kept or confirmed, or it was cancelled and the device still reads back the target, and nothing has
  changed the item since.
\<close>

theorem view_buttons_sound:
  "w_can_revert (ui_view t now later) = is_ok (txn_revert t)
   \<and> w_can_keep (ui_view t now later) = is_ok (txn_keep t)
   \<and> (w_undo (ui_view t now later) = Some None \<longleftrightarrow>
        \<not> later \<and> (phase t = Confirmed \<or> phase t = Unverified \<or>
          (phase t = Cancelled \<and> reason t \<notin> {Some SimChanged, Some Superseded} \<and> readback t = Some (target t))))"
proof -
  have "w_can_revert (ui_view t now later) = is_ok (txn_revert t)"
    "w_can_keep (ui_view t now later) = is_ok (txn_keep t)"
    by (simp_all add: ui_view_def Let_def txn_revert_def txn_keep_def counting_def waiting_def)
  moreover have "w_undo (ui_view t now later) = Some None \<longleftrightarrow> is_final (phase t) \<and> undo_denied t later = None"
    by (simp add: ui_view_def Let_def)
  ultimately show ?thesis by (auto simp: undo_allowed_iff)
qed

end
