(* ===== verification/Journal.thy ===== *)
theory Journal
  imports Txn Json
begin

text \<open>
  The journal and the table of owners, \<^verbatim>\<open>rust/src/ops/record.rs\<close>. Callers put lines into a bounded
  channel under one lock; a writer thread takes them out, appends them to \<open>journal.jsonl\<close> and rolls the
  file. \<open>serde_json::to_vec\<close> is a parameter \<open>ser\<close>; the wall clock is the argument \<open>secs\<close>. Byte strings
  are \<open>string\<close>s.
\<close>

section \<open>Names on the wire\<close>

text \<open>\<open>serde(rename_all = "snake_case")\<close> of the enums of \<^verbatim>\<open>txn.rs\<close>.\<close>

definition phase_str :: "phase \<Rightarrow> string" where
  "phase_str p = (case p of Accepted \<Rightarrow> ''accepted'' | Applying \<Rightarrow> ''applying'' | Verifying \<Rightarrow> ''verifying''
     | RollingBack \<Rightarrow> ''rolling_back'' | Confirmed \<Rightarrow> ''confirmed'' | Unverified \<Rightarrow> ''unverified''
     | RolledBack \<Rightarrow> ''rolled_back'' | NotApplied \<Rightarrow> ''not_applied'' | RollbackFailed \<Rightarrow> ''rollback_failed''
     | Cancelled \<Rightarrow> ''cancelled'')"

definition reason_str :: "reason \<Rightarrow> string" where
  "reason_str r = (case r of Verified \<Rightarrow> ''verified'' | UserKeep \<Rightarrow> ''user_keep'' | NoRollback \<Rightarrow> ''no_rollback''
     | Timeout \<Rightarrow> ''timeout'' | UserRevert \<Rightarrow> ''user_revert'' | RebootLoop \<Rightarrow> ''reboot_loop''
     | Ignored \<Rightarrow> ''ignored'' | RollbackTimeout \<Rightarrow> ''rollback_timeout'' | Superseded \<Rightarrow> ''superseded''
     | Preempted \<Rightarrow> ''preempted'' | ManualChange \<Rightarrow> ''manual_change'' | Takeover \<Rightarrow> ''takeover''
     | SimChanged \<Rightarrow> ''sim_changed'' | ApnNoData \<Rightarrow> ''apn_no_data'' | OtherChange \<Rightarrow> ''other_change''
     | NoVerify \<Rightarrow> ''no_verify'')"

definition json_source :: "source \<Rightarrow> json" where "json_source s = JString (source_as_str s)"
definition json_u64 :: "u64 \<Rightarrow> json" where "json_u64 n = JNumber (PosInt n)"

section \<open>Characters and numbers\<close>

text \<open>The characters of a UTF-8 string: a new one starts at every byte that is not a continuation byte.\<close>

definition cont_char :: "char \<Rightarrow> bool" where
  "cont_char c \<longleftrightarrow> 128 \<le> (of_char c :: nat) \<and> (of_char c :: nat) < 192"

fun chars :: "string \<Rightarrow> string list" where
  "chars [] = []"
| "chars (c # cs) =
     (case chars cs of
        [] \<Rightarrow> [[c]]
      | p # ps \<Rightarrow> if p \<noteq> [] \<and> cont_char (hd p) then (c # p) # ps else [c] # p # ps)"

definition tail4 :: "string \<Rightarrow> string" where
  "tail4 s = concat (drop (length (chars s) - 4) (chars s))"

definition int_digits :: "int \<Rightarrow> string" where
  "int_digits i = (if i < 0 then CHR ''-'' # nat_digits (nat (- i)) else nat_digits (nat i))"

definition pad :: "nat \<Rightarrow> nat \<Rightarrow> string" where
  "pad w n = (let s = nat_digits n in replicate (w - length s) CHR ''0'' @ s)"

section \<open>The civil date\<close>

text \<open>\<open>civil\<close>: Howard Hinnant's \<open>civil_from_days\<close>; all quantities are non-negative here.\<close>

definition civil_from_days :: "nat \<Rightarrow> nat \<times> nat \<times> nat" where
  "civil_from_days days =
     (let z = days + 719468;
          era = z div 146097;
          doe = z - era * 146097;
          yoe = (doe - doe div 1460 + doe div 36524 - doe div 146096) div 365;
          doy = doe - (365 * yoe + yoe div 4 - yoe div 100);
          mp = (5 * doy + 2) div 153;
          d = doy - (153 * mp + 2) div 5 + 1;
          m = (if mp < 10 then mp + 3 else mp - 9);
          y = yoe + era * 400 + (if m \<le> 2 then 1 else 0)
      in (y, m, d))"

definition civil :: "u64 \<Rightarrow> string" where
  "civil secs =
     (let days = unat secs div 86400; rem = unat secs mod 86400; (y, m, d) = civil_from_days days
      in pad 4 y @ ''-'' @ pad 2 m @ ''-'' @ pad 2 d @ '' '' @ pad 2 (rem div 3600) @ '':''
         @ pad 2 (rem mod 3600 div 60) @ '':'' @ pad 2 (rem mod 60))"

section \<open>Redaction\<close>

definition redacted :: string where "redacted = ''(changed)''"

definition secret :: "string \<Rightarrow> bool" where
  "secret key =
     (let k = to_ascii_lowercase key
      in k \<in> set [''pin'', ''code'', ''activation_code'', ''confirm_code'', ''confirmation_code'', ''matching_id'']
         \<or> list_ex (str_contains k) [''pass'', ''psk'', ''secret'', ''token'', ''user'', ''key'', ''puk'', ''cred'']
         \<or> ''nck'' \<in> set (split_char (CHR ''_'') k)
         \<or> (''pin'' \<in> set (split_char (CHR ''_'') k) \<and> \<not> ends_with k ''_mode'' \<and> \<not> ends_with k ''_flag''))"

definition sim_id_key :: "string \<Rightarrow> bool" where
  "sim_id_key key =
     (let k = to_ascii_lowercase key
      in list_ex (\<lambda>w. k = w \<or> ends_with k (''_'' @ w) \<or> starts_with k (w @ ''_''))
           [''iccid'', ''eid'', ''imsi'', ''msisdn''])"

text \<open>\<open>Value::to_string\<close> of a value that is not a string is \<open>serde_json\<close>'s: the parameter \<open>ser\<close>.\<close>

fun redact_value :: "(json \<Rightarrow> string) \<Rightarrow> json \<Rightarrow> json" where
  "redact_value ser (JObject m) = JObject (map (\<lambda>(k, v).
     (k, if secret k \<and> v \<noteq> JNull then JString redacted
         else if sim_id_key k \<and> v \<noteq> JNull then
           JString (tail4 (case v of JString s \<Rightarrow> s | other \<Rightarrow> ser other))
         else redact_value ser v)) m)"
| "redact_value ser (JArray a) = JArray (map (redact_value ser) a)"
| "redact_value ser v = v"

definition redact :: "(json \<Rightarrow> string) \<Rightarrow> string \<Rightarrow> json \<Rightarrow> json" where
  "redact ser act params =
     (if starts_with act ''sms.''
         \<or> (act = ''vendor.call'' \<and>
             is_some_and (Option.bind (jget ''method'' params) as_str) (\<lambda>m. str_contains m ''sms''))
      then JNull else redact_value ser params)"

definition txn_line :: "txn \<Rightarrow> json" where
  "txn_line t = jobj [
     (''op_id'', JString (op_id t)), (''action'', JString (action t)), (''item'', JString (item t)),
     (''source'', json_source (source t)), (''undo'', JBool (undo t)),
     (''sim'', JString (tail4 (iccid (sim t)) @ ''/'' @ int_digits (slot (sim t)))),
     (''old'', JString (old t)), (''new'', JString (target t)),
     (''rollback_to'', JString (rollback_to t)), (''readback'', jopt JString (readback t)),
     (''result'', JString (phase_str (phase t))),
     (''reason'', jopt (\<lambda>r. JString (reason_str r)) (reason t)),
     (''rollback_reason'', jopt (\<lambda>r. JString (reason_str r)) (rollback_reason t)),
     (''took_ms'', jopt json_u64 (took_ms t))]"

section \<open>Clipping and encoding\<close>

definition max_line :: nat where "max_line = 2048"
definition max_string :: nat where "max_string = 256"

definition is_char_boundary :: "string \<Rightarrow> nat \<Rightarrow> bool" where
  "is_char_boundary s i \<longleftrightarrow> i = 0 \<or> i = length s \<or> (i < length s \<and> \<not> cont_char (s ! i))"

fun floor_boundary :: "string \<Rightarrow> nat \<Rightarrow> nat" where
  "floor_boundary s 0 = 0"
| "floor_boundary s (Suc i) = (if is_char_boundary s (Suc i) then Suc i else floor_boundary s i)"

definition ellipsis :: string where "ellipsis = [char_of (226 :: nat), char_of (128 :: nat), char_of (166 :: nat)]"

definition clip :: "string \<Rightarrow> string" where
  "clip s = (if length s \<le> max_string then s else take (floor_boundary s max_string) s @ ellipsis)"

fun clip_value :: "json \<Rightarrow> json" where
  "clip_value (JString s) = JString (clip s)"
| "clip_value (JArray a) = JArray (map clip_value a)"
| "clip_value (JObject m) = JObject (map (\<lambda>(k, v). (k, clip_value v)) m)"
| "clip_value v = v"

definition or_insert :: "string \<Rightarrow> json \<Rightarrow> (string \<times> json) list \<Rightarrow> (string \<times> json) list" where
  "or_insert k v m = (if map_of m k = None then map_insert k v m else m)"

definition skeleton_keys :: "string list" where
  "skeleton_keys = [''ts'', ''t'', ''op_id'', ''source'', ''action'', ''item'', ''result'', ''reason'']"

definition skeleton :: "json \<Rightarrow> json" where
  "skeleton line = JObject (map_insert ''truncated'' (JBool True)
     (fold (\<lambda>k m. case jget k line of Some v \<Rightarrow> map_insert k v m | None \<Rightarrow> m) skeleton_keys []))"

definition stamp :: "u64 \<Rightarrow> json \<Rightarrow> json" where
  "stamp secs line = (case line of
     JObject m \<Rightarrow> JObject (or_insert ''t'' (JString (civil secs)) (or_insert ''ts'' (json_u64 secs) m))
   | other \<Rightarrow> other)"

definition encode :: "(json \<Rightarrow> string) \<Rightarrow> u64 \<Rightarrow> json \<Rightarrow> string" where
  "encode ser secs line =
     (let line = stamp secs (clip_value line); bytes = ser line
      in if length bytes > max_line then ser (skeleton line) else bytes)"

section \<open>State and operations\<close>

datatype msg = MLine string | MOwners string | MFlush

definition queue_cap :: nat where "queue_cap = 256"

record rec_st =
  skips :: "string \<times> string \<Rightarrow> (string \<times> u64) option"
  owners :: "(string \<times> json) list"
  dropped :: u64
  chan :: "msg list"

definition try_send :: "msg \<Rightarrow> rec_st \<Rightarrow> bool \<times> rec_st" where
  "try_send m st = (if length (chan st) < queue_cap then (True, st\<lparr>chan := chan st @ [m]\<rparr>) else (False, st))"

definition key :: "json \<Rightarrow> (string \<times> string) option" where
  "key line =
     (case Option.bind (jget ''source'' line) as_str of
        None \<Rightarrow> None
      | Some s \<Rightarrow>
          (case Option.bind (jget ''item'' line) as_str of
             Some i \<Rightarrow> Some (s, i)
           | None \<Rightarrow> (case Option.bind (jget ''action'' line) as_str of Some a \<Rightarrow> Some (s, a) | None \<Rightarrow> None)))"

definition skip_line :: "string \<times> string \<Rightarrow> string \<Rightarrow> string \<Rightarrow> u64 \<Rightarrow> json" where
  "skip_line k why which count = jobj [(''source'', JString (fst k)), (''item'', JString (snd k)),
     (''result'', JString ''skipped''), (''reason'', JString why), (''skip'', JString which),
     (''count'', json_u64 count)]"

definition emit :: "(json \<Rightarrow> string) \<Rightarrow> u64 \<Rightarrow> json \<Rightarrow> rec_st \<Rightarrow> rec_st" where
  "emit ser secs line st =
     (let st = (if dropped st > 0 then
                  (case try_send (MLine (encode ser secs
                       (jobj [(''result'', JString ''dropped''), (''count'', json_u64 (dropped st))]))) st of
                     (True, st') \<Rightarrow> st'\<lparr>dropped := 0\<rparr>
                   | (False, st') \<Rightarrow> st')
                else st)
      in case try_send (MLine (encode ser secs line)) st of
           (True, st') \<Rightarrow> st'
         | (False, st') \<Rightarrow> st'\<lparr>dropped := dropped st' + 1\<rparr>)"

text \<open>
  \<open>append\<close> and \<open>skip\<close> first decide which lines to write and how the merging state changes, then emit
  the lines; the decision is a function of its own here.
\<close>

type_synonym skip_table = "string \<times> string \<Rightarrow> (string \<times> u64) option"

definition append_lines :: "json \<Rightarrow> skip_table \<Rightarrow> json list \<times> skip_table" where
  "append_lines line sk =
     (case key line of
        None \<Rightarrow> ([line], sk)
      | Some k \<Rightarrow>
          (case sk k of
             None \<Rightarrow> ([line], sk)
           | Some (why, n) \<Rightarrow> ([skip_line k why ''end'' n, line], sk(k := None))))"

definition skip_lines :: "string \<times> string \<Rightarrow> string \<Rightarrow> skip_table \<Rightarrow> json list \<times> skip_table" where
  "skip_lines k why sk =
     (case sk k of
        Some (r, n) \<Rightarrow>
          if r = why then ([], sk(k \<mapsto> (r, n + 1)))
          else ([skip_line k r ''end'' n, skip_line k why ''start'' 1], sk(k \<mapsto> (why, 1)))
      | None \<Rightarrow> ([skip_line k why ''start'' 1], sk(k \<mapsto> (why, 1))))"

definition rec_append :: "(json \<Rightarrow> string) \<Rightarrow> u64 \<Rightarrow> json \<Rightarrow> rec_st \<Rightarrow> rec_st" where
  "rec_append ser secs line st =
     (let (ls, sk) = append_lines line (skips st) in fold (emit ser secs) ls (st\<lparr>skips := sk\<rparr>))"

definition rec_skip :: "(json \<Rightarrow> string) \<Rightarrow> u64 \<Rightarrow> string \<Rightarrow> string \<Rightarrow> string \<Rightarrow> rec_st \<Rightarrow> rec_st" where
  "rec_skip ser secs src itm why st =
     (let (ls, sk) = skip_lines (src, itm) why (skips st) in fold (emit ser secs) ls (st\<lparr>skips := sk\<rparr>))"

definition set_owner :: "(json \<Rightarrow> string) \<Rightarrow> u64 \<Rightarrow> string \<Rightarrow> source \<Rightarrow> bool \<Rightarrow> string \<Rightarrow> string option
    \<Rightarrow> rec_st \<Rightarrow> rec_st" where
  "set_owner ser secs itm src und val opid st =
     (let o' = map_insert itm (jobj [(''source'', json_source src), (''user'', JBool (is_user src)),
                 (''undo'', JBool und), (''value'', JString (clip val)), (''op_id'', jopt JString opid),
                 (''ts'', json_u64 secs), (''t'', JString (civil secs))]) (owners st);
          st = st\<lparr>owners := o'\<rparr>
      in case try_send (MOwners (ser (JObject o'))) st of
           (True, st') \<Rightarrow> st'
         | (False, st') \<Rightarrow> st'\<lparr>dropped := dropped st' + 1\<rparr>)"

section \<open>The writer\<close>

text \<open>
  The writer thread. What the file system answers to one message is the argument \<open>io\<close>; a failed
  write may leave part of the line in the file.
\<close>

record writer_io =
  open_ok :: bool
  write_ok :: bool
  written :: nat
  rename_ok :: bool

record journal_files =
  journal :: string
  journal_old :: "string option"
  owners_file :: "string option"
  w_size :: u64
  w_open :: bool

definition write_line :: "u64 \<Rightarrow> writer_io \<Rightarrow> string \<Rightarrow> journal_files \<Rightarrow> journal_files" where
  "write_line mx io b j =
     (let j = (if \<not> w_open j then j\<lparr>w_open := open_ok io\<rparr> else j)
      in if \<not> w_open j then j
         else
           let b = b @ [CHR 0x0A]
           in if \<not> write_ok io then j\<lparr>journal := journal j @ take (written io) b, w_open := False\<rparr>
              else
                let j = j\<lparr>journal := journal j @ b, w_size := w_size j + of_nat (length b)\<rparr>
                in if w_size j \<ge> mx then
                     (if rename_ok io then j\<lparr>journal_old := Some (journal j), journal := []\<rparr> else j)
                       \<lparr>w_open := False, w_size := 0\<rparr>
                   else j)"

definition writer_step :: "u64 \<Rightarrow> writer_io \<Rightarrow> msg \<Rightarrow> journal_files \<Rightarrow> journal_files" where
  "writer_step mx io m j = (case m of
     MLine b \<Rightarrow> write_line mx io b j
   | MOwners b \<Rightarrow> if write_ok io then j\<lparr>owners_file := Some b\<rparr> else j
   | MFlush \<Rightarrow> j)"

text \<open>\<open>open_with\<close>: the writer starts with the size of the journal it finds.\<close>

definition writer_open :: "string \<Rightarrow> string option \<Rightarrow> string option \<Rightarrow> journal_files" where
  "writer_open jr jr_old own = \<lparr>journal = jr, journal_old = jr_old, owners_file = own,
     w_size = of_nat (length jr), w_open = False\<rparr>"

section \<open>Facts about redaction\<close>

lemma concat_chars [simp]: "concat (chars s) = s"
  by (induction s) (auto split: list.splits)

lemma chars_Nil_iff [simp]: "chars s = [] \<longleftrightarrow> s = []"
  by (cases s) (auto split: list.splits)

lemma chars_drop: "chars (concat (drop n (chars s))) = drop n (chars s)"
proof (induction s arbitrary: n)
  case (Cons c s)
  show ?case
  proof (cases n)
    case (Suc k)
    show ?thesis
    proof (cases "chars s")
      case (Cons p ps)
      with Cons.IH [of n] Cons.IH [of k] Suc show ?thesis by simp
    qed (simp add: Suc)
  qed (use concat_chars [of "c # s"] in \<open>simp del: concat_chars\<close>)
qed simp

lemma tail4_short: "length (chars (tail4 s)) \<le> 4"
  by (simp add: tail4_def chars_drop)

text \<open>A value in which every secret is replaced and every SIM identity is cut to four characters.\<close>

fun redacted_ok :: "json \<Rightarrow> bool" where
  "redacted_ok (JObject m) = list_all (\<lambda>(k, v).
     if v = JNull then True
     else if secret k then v = JString redacted
     else if sim_id_key k then (case v of JString s \<Rightarrow> length (chars s) \<le> 4 | _ \<Rightarrow> False)
     else redacted_ok v) m"
| "redacted_ok (JArray a) = list_all redacted_ok a"
| "redacted_ok _ = True"

lemma redact_value_ok: "redacted_ok (redact_value ser v)"
proof (induction ser v rule: redact_value.induct)
  case (1 ser m)
  have "redacted_ok (redact_value ser v)" if "(k, v) \<in> set m" "\<not> (secret k \<and> v \<noteq> JNull)" "\<not> (sim_id_key k \<and> v \<noteq> JNull)" for k v
    using 1 [OF that(1) refl that(2,3)] .
  then show ?case by (auto simp: list_all_iff tail4_short)
qed (simp_all add: list_all_iff)

section \<open>Facts about merged skips\<close>

definition skip_count :: "string \<Rightarrow> string \<times> string \<Rightarrow> json \<Rightarrow> u64" where
  "skip_count which k l =
     (if key l = Some k \<and> jget ''skip'' l = Some (JString which)
      then (case jget ''count'' l of Some (JNumber (PosInt n)) \<Rightarrow> n | _ \<Rightarrow> 0) else 0)"

lemma skip_line_fields [simp]:
  "key (skip_line k why which n) = Some k"
  "jget ''skip'' (skip_line k why which n) = Some (JString which)"
  "jget ''count'' (skip_line k why which n) = Some (json_u64 n)"
  by (simp_all add: skip_line_def key_def jget_jobj map_of_map_from as_str_def)

lemma skip_count_line [simp]:
  "skip_count w k (skip_line k' why which n) = (if k = k' \<and> w = which then n else 0)"
  by (auto simp: skip_count_def json_u64_def)

lemma skip_count_plain [simp]: "jget ''skip'' l = None \<Longrightarrow> skip_count which k l = 0"
  by (simp add: skip_count_def)

datatype rec_op = RAppend json | RSkip "string \<times> string" string

definition op_lines :: "rec_op \<Rightarrow> skip_table \<Rightarrow> json list \<times> skip_table" where
  "op_lines c sk = (case c of RAppend l \<Rightarrow> append_lines l sk | RSkip k why \<Rightarrow> skip_lines k why sk)"

fun run_lines :: "rec_op list \<Rightarrow> skip_table \<Rightarrow> json list \<times> skip_table" where
  "run_lines [] sk = ([], sk)"
| "run_lines (c # cs) sk =
     (let (ls, sk') = op_lines c sk; (ls', sk'') = run_lines cs sk' in (ls @ ls', sk''))"

definition open_skips :: "string \<times> string \<Rightarrow> skip_table \<Rightarrow> u64" where
  "open_skips k sk = (case sk k of Some (_, n) \<Rightarrow> n | None \<Rightarrow> 0)"

definition is_skip :: "string \<times> string \<Rightarrow> rec_op \<Rightarrow> bool" where
  "is_skip k c = (case c of RSkip k' _ \<Rightarrow> k' = k | _ \<Rightarrow> False)"

definition plain_op :: "rec_op \<Rightarrow> bool" where
  "plain_op c = (case c of RAppend l \<Rightarrow> jget ''skip'' l = None | _ \<Rightarrow> True)"

lemma op_lines_count:
  assumes "plain_op c" "op_lines c sk = (ls, sk')"
  shows "sum_list (map (skip_count ''end'' k) ls) + open_skips k sk'
           = open_skips k sk + (if is_skip k c then 1 else 0)"
  using assms
  by (auto simp: op_lines_def plain_op_def append_lines_def skip_lines_def open_skips_def is_skip_def
      split: rec_op.splits option.splits if_splits)

lemma run_lines_count:
  "list_all plain_op cs \<Longrightarrow> run_lines cs sk = (ls, sk') \<Longrightarrow>
     sum_list (map (skip_count ''end'' k) ls) + open_skips k sk'
       = open_skips k sk + of_nat (length (filter (is_skip k) cs))"
proof (induction cs arbitrary: sk ls)
  case (Cons c cs)
  obtain l1 sk1 where 1: "op_lines c sk = (l1, sk1)" by fastforce
  obtain l2 sk2 where 2: "run_lines cs sk1 = (l2, sk2)" by fastforce
  from Cons.prems 1 2 have ls: "ls = l1 @ l2" "sk' = sk2" by simp_all
  let ?s = "\<lambda>xs. sum_list (map (skip_count ''end'' k) xs)"
  let ?i = "(if is_skip k c then 1 else 0) :: u64"
  let ?n = "of_nat (length (filter (is_skip k) cs)) :: u64"
  have e1: "?s l1 + open_skips k sk1 = open_skips k sk + ?i"
    using op_lines_count [OF _ 1, of k] Cons.prems(1) by simp
  have e2: "?s l2 + open_skips k sk' = open_skips k sk1 + ?n"
    using Cons.IH [OF _ 2 [folded ls(2)]] Cons.prems(1) by simp
  have "?s ls + open_skips k sk' = ?s l1 + (?s l2 + open_skips k sk')" by (simp add: ls add.assoc)
  also have "\<dots> = (?s l1 + open_skips k sk1) + ?n" by (simp only: e2 add.assoc)
  also have "\<dots> = open_skips k sk + (?i + ?n)" by (simp only: e1 add.assoc)
  also have "?i + ?n = of_nat (length (filter (is_skip k) (c # cs)))" by simp
  finally show ?case .
qed simp

section \<open>Facts about the files\<close>

definition good_io :: "writer_io \<Rightarrow> bool" where
  "good_io io \<longleftrightarrow> open_ok io \<and> write_ok io \<and> rename_ok io"

text \<open>
  The size the writer counts is the size of the file, and the file is below the limit; the rolled file
  holds at most one line more.
\<close>

definition files_ok :: "u64 \<Rightarrow> nat \<Rightarrow> journal_files \<Rightarrow> bool" where
  "files_ok mx bound j \<longleftrightarrow> length (journal j) < unat mx \<and> unat (w_size j) = length (journal j)
     \<and> (case journal_old j of None \<Rightarrow> True | Some o' \<Rightarrow> length o' < unat mx + bound)"

lemma write_line_files:
  assumes "files_ok mx bound j" "good_io io" "length b < bound" "unat mx + bound < 2 ^ 64"
  shows "files_ok mx bound (write_line mx io b j)"
proof -
  let ?b = "b @ [CHR 0x0A]"
  have sz: "unat (w_size j) = length (journal j)" "length (journal j) < unat mx"
    using assms(1) by (simp_all add: files_ok_def)
  have u: "unat (w_size j + of_nat (length ?b)) = length (journal j @ ?b)"
    using sz assms(3,4) by (simp add: unat_word_ariths unat_of_nat)
  have io: "open_ok io" "write_ok io" "rename_ok io" using assms(2) by (simp_all add: good_io_def)
  show ?thesis
  proof (cases "w_size j + of_nat (length ?b) \<ge> mx")
    case True
    with io assms(3) sz show ?thesis
      by (simp add: write_line_def Let_def files_ok_def)
  next
    case False
    then have "length (journal j @ ?b) < unat mx" by (simp only: not_le word_less_nat_alt u)
    with False io u assms(1) show ?thesis by (simp add: write_line_def Let_def files_ok_def)
  qed
qed

lemma writer_step_files:
  assumes "files_ok mx bound j" "good_io io" "\<And>b. m = MLine b \<Longrightarrow> length b < bound" "unat mx + bound < 2 ^ 64"
  shows "files_ok mx bound (writer_step mx io m j)"
proof (cases m)
  case (MLine b)
  with assms write_line_files [of mx bound j io b] show ?thesis by (simp add: writer_step_def)
next
  case (MOwners b)
  with assms show ?thesis by (simp add: writer_step_def files_ok_def)
next
  case MFlush
  with assms show ?thesis by (simp add: writer_step_def)
qed

definition writer_run :: "u64 \<Rightarrow> (writer_io \<times> msg) list \<Rightarrow> journal_files \<Rightarrow> journal_files" where
  "writer_run mx ms j = fold (\<lambda>(io, m). writer_step mx io m) ms j"

lemma writer_run_files:
  assumes "files_ok mx bound j" "unat mx + bound < 2 ^ 64"
    and "\<And>io m. (io, m) \<in> set ms \<Longrightarrow> good_io io \<and> (\<forall>b. m = MLine b \<longrightarrow> length b < bound)"
  shows "files_ok mx bound (fold (\<lambda>(io, m). writer_step mx io m) ms j)"
  using assms
proof (induction ms arbitrary: j)
  case (Cons x ms)
  obtain io m where x: "x = (io, m)" by fastforce
  have "files_ok mx bound (writer_step mx io m j)"
    using Cons.prems x by (intro writer_step_files) auto
  then have "files_ok mx bound (fold (\<lambda>(io, m). writer_step mx io m) ms (writer_step mx io m j))"
    using Cons.prems by (intro Cons.IH) auto
  with x show ?case by simp
qed simp

section \<open>Facts about the channel\<close>

lemma emit_bounds: "length (chan st) \<le> queue_cap \<Longrightarrow> length (chan (emit ser secs l st)) \<le> queue_cap"
  by (auto simp: emit_def try_send_def Let_def split: if_splits)

lemma floor_boundary_le: "floor_boundary s n \<le> n"
  by (induction s n rule: floor_boundary.induct) auto

lemma floor_boundary_ok: "is_char_boundary s (floor_boundary s n)"
  by (induction s n rule: floor_boundary.induct) (auto simp: is_char_boundary_def)

lemma clip_length: "length (clip s) \<le> max_string + 3"
  using floor_boundary_le [of s max_string] by (auto simp: clip_def ellipsis_def min_def)

lemma skeleton_get:
  assumes "k \<in> set skeleton_keys"
  shows "jget k (skeleton line) = jget k line"
proof -
  have f: "map_of (fold (\<lambda>k m. case jget k line of Some v \<Rightarrow> map_insert k v m | None \<Rightarrow> m) ks m) k
      = (if k \<in> set ks \<and> jget k line \<noteq> None then jget k line else map_of m k)" for ks m
    by (induction ks arbitrary: m) (auto split: option.splits)
  have "k \<noteq> ''truncated''" using assms by (auto simp: skeleton_keys_def)
  with assms show ?thesis by (auto simp: skeleton_def jget_def [of k "JObject m" for m] f)
qed

lemma clip_value_get: "jget k (clip_value (JObject m)) = map_option clip_value (map_of m k)"
  by (simp add: jget_def map_of_map)

lemma stamp_get:
  "map_of m k \<noteq> None \<Longrightarrow> jget k (stamp secs (JObject m)) = map_of m k"
  by (auto simp: stamp_def jget_def or_insert_def)

section \<open>Properties\<close>

text \<open>
  Merged skips (D27): over any sequence of journal entries and skips, the counts on the
  \<open>skip: end\<close> lines of one source and item, together with the count still open, add up to the number
  of skips that were reported; no skip is lost and none is counted twice. (Counts are \<open>u64\<close>.)
\<close>

theorem skips_add_up:
  assumes "list_all plain_op cs" and "run_lines cs (\<lambda>_. None) = (ls, sk)"
  shows "sum_list (map (skip_count ''end'' k) ls) + open_skips k sk
           = of_nat (length (filter (is_skip k) cs))"
  using run_lines_count [OF assms, of k] by (simp add: open_skips_def)

definition ex_ops :: "rec_op list" where
  "ex_ops = [RSkip (''auto'', ''network.mode'') ''busy'', RSkip (''auto'', ''network.mode'') ''busy'',
     RSkip (''auto'', ''network.mode'') ''roaming'']"

theorem skips_add_up_witness:
  "sum_list (map (skip_count ''end'' (''auto'', ''network.mode'')) (fst (run_lines ex_ops (\<lambda>_. None))))
     + open_skips (''auto'', ''network.mode'') (snd (run_lines ex_ops (\<lambda>_. None)))
   = of_nat (length (filter (is_skip (''auto'', ''network.mode'')) ex_ops))"
  by (rule skips_add_up [OF _ prod.collapse [symmetric]]) (simp add: ex_ops_def plain_op_def)



text \<open>
  The journal on flash is bounded: as long as the file system accepts the operations, after
  any messages the current file is below the limit and the rolled file exceeds it by less than a line.
\<close>

theorem journal_bounded:
  assumes "length jr < unat mx" "unat mx + bound < 2 ^ 64"
    and "\<forall>(io, m) \<in> set ms. good_io io \<and> (\<forall>b. m = MLine b \<longrightarrow> length b < bound)"
  shows "length (journal (writer_run mx ms (writer_open jr None own))) < unat mx
    \<and> (case journal_old (writer_run mx ms (writer_open jr None own)) of None \<Rightarrow> True | Some o' \<Rightarrow> length o' < unat mx + bound)"
proof -
  have "unat (of_nat (length jr) :: u64) = length jr" using assms(1,2) by (simp add: unat_of_nat)
  then have "files_ok mx bound (writer_open jr None own)"
    using assms(1) by (simp add: files_ok_def writer_open_def)
  then have "files_ok mx bound (writer_run mx ms (writer_open jr None own))"
    unfolding writer_run_def using assms(2,3) by (intro writer_run_files) auto
  then show ?thesis by (simp add: files_ok_def)
qed

definition ex_io :: writer_io where
  "ex_io = \<lparr>open_ok = True, write_ok = True, written = 0, rename_ok = True\<rparr>"

theorem journal_bounded_witness:
  "length (journal (writer_run 4 [(ex_io, MLine ''ab''), (ex_io, MLine ''c'')] (writer_open [] None None)))
     < unat (4 :: u64)
   \<and> (case journal_old (writer_run 4 [(ex_io, MLine ''ab''), (ex_io, MLine ''c'')] (writer_open [] None None)) of
        None \<Rightarrow> True | Some o' \<Rightarrow> length o' < unat (4 :: u64) + 3)"
  by (rule journal_bounded) (simp_all add: ex_io_def good_io_def)

text \<open>
  The limit of one line is not enforced by the skeleton: a line that is too long keeps
  \<open>reason\<close> (and the other skeleton fields) whole, arrays included, so for a serialisation that writes
  every element of an array the encoded line can be arbitrarily long.
\<close>

theorem skeleton_unbounded:
  assumes "\<And>m a. map_of m ''reason'' = Some (JArray a) \<Longrightarrow> length a \<le> length (ser (JObject m))"
  shows "\<exists>line. n < length (encode ser secs line)"
proof -
  let ?a = "replicate (Suc (n + max_line)) JNull"
  let ?l = "stamp secs (clip_value (JObject [(''reason'', JArray ?a)]))"
  have r: "jget ''reason'' ?l = Some (JArray ?a)"
    by (simp add: stamp_def jget_def or_insert_def map_replicate del: replicate.simps)
  obtain m where m: "?l = JObject m" by (simp add: stamp_def)
  obtain m' where m': "skeleton ?l = JObject m'" by (simp add: skeleton_def)
  have "Suc (n + max_line) \<le> length (ser ?l)"
    using assms [of m ?a] r unfolding m by (simp add: jget_def del: replicate.simps)
  moreover have "Suc (n + max_line) \<le> length (ser (skeleton ?l))"
    using assms [of m' ?a] skeleton_get [of "''reason''" ?l] r unfolding m'
    by (simp add: jget_def [of _ "JObject m'"] skeleton_keys_def del: replicate.simps)
  ultimately have "n < length (encode ser secs (JObject [(''reason'', JArray ?a)]))"
    unfolding encode_def Let_def by auto
  then show ?thesis by blast
qed

theorem skeleton_unbounded_witness:
  "\<exists>line. 5000 < length (encode (\<lambda>v. case v of
       JObject m \<Rightarrow> (case map_of m ''reason'' of Some (JArray a) \<Rightarrow> replicate (length a) CHR ''0'' | _ \<Rightarrow> [])
     | _ \<Rightarrow> []) 0 line)"
  by (rule skeleton_unbounded) simp

end
