(* ===== verification/Engine.thy ===== *)
theory Engine
  imports Pending Op_Ui Journal
begin

text \<open>
  The transaction engine, \<^verbatim>\<open>rust/src/ops/engine.rs\<close>. One mutex guards the state; every section of the
  code that holds it is one definition here, a function from the engine and the inputs of that moment
  (the time, what the device answered) to the new engine and the section's result. The code between
  two sections of one request (device calls, sleeping) is not atomic: requests, drivers and sessions
  interleave section by section (theory \<open>Engine_Run\<close>).

  The store is part of the engine. Calls to the journal and to the observer of the \<open>op\<close> block have no
  influence on the engine; they are kept in order in \<open>e_outs\<close>. Replies are values of datatypes; the
  JSON of a view is the record \<open>op_view\<close>.
\<close>

section \<open>State\<close>

record session =
  ss_id :: string
  ss_source :: source
  ss_opened_ms :: u64
  ss_renewed_ms :: u64

record legacy_req =
  lr_item :: string
  lr_action :: string
  lr_params :: json
  lr_at_ms :: u64

record op_block =
  b_rollback_enabled :: bool
  b_active :: "op_view option"
  b_last :: "(op_view \<times> bool \<times> bool) option"
  b_notice :: bool

datatype out = OLine json | OOwner string source bool string string | OPublish op_block

record 'b engine =
  cfg_rollback :: bool
  cfg_legacy_ttl_ms :: u64
  e_observed :: bool
  e_active :: "txn option"
  e_session :: "session option"
  e_recent :: "txn list"
  e_legacy :: "legacy_req list"
  e_saved_seen_ms :: u64
  e_last :: "last option"
  e_notice_acked :: bool
  e_store :: "'b store"
  e_outs :: "out list"

record request =
  q_spec :: spec
  q_target :: string
  q_source :: source
  q_undo :: bool

definition recent_cap :: nat where "recent_cap = 16"
definition seen_save_ms :: u64 where "seen_save_ms = 10000"
definition session_max_ms :: u64 where "session_max_ms = 7 * 60000"
definition session_lease_ms :: u64 where "session_lease_ms = 60000"
definition notice_rollback_on :: string where "notice_rollback_on = ''rollback_on''"

definition op_id_char :: "char \<Rightarrow> bool" where
  "op_id_char c = (let n = of_char c :: nat
     in (48 \<le> n \<and> n \<le> 57) \<or> (65 \<le> n \<and> n \<le> 90) \<or> (97 \<le> n \<and> n \<le> 122)
        \<or> c = CHR ''.'' \<or> c = CHR ''_'' \<or> c = CHR ''-'')"

definition valid_op_id :: "string \<Rightarrow> bool" where
  "valid_op_id s \<longleftrightarrow> s \<noteq> [] \<and> length s \<le> 64 \<and> list_all op_id_char s"

definition overridable :: "txn \<Rightarrow> request \<Rightarrow> bool" where
  "overridable t req \<longleftrightarrow> item t = s_item (q_spec req) \<and> may_override (q_source req)
     \<and> (phase t = Verifying \<or> phase t = RollingBack) \<and> intent t = None"

section \<open>Looking at the state\<close>

definition e_live :: "string \<Rightarrow> 'b engine \<Rightarrow> txn option" where
  "e_live opid e = (case e_active e of Some t \<Rightarrow> if op_id t = opid then Some t else None | None \<Rightarrow> None)"

text \<open>\<open>ctx\<close>: a later change of the same item, still active or already finished.\<close>

definition later_change :: "'b engine \<Rightarrow> txn \<Rightarrow> bool" where
  "later_change e t \<longleftrightarrow>
     is_some_and (e_active e) (\<lambda>a. op_id a \<noteq> op_id t \<and> item a = item t)
     \<or> list_ex (\<lambda>r. item r = item t) (drop 1 (dropWhile (\<lambda>r. op_id r \<noteq> op_id t) (e_recent e)))"

definition e_view :: "'b engine \<Rightarrow> txn \<Rightarrow> u64 \<Rightarrow> op_view" where
  "e_view e t now = ui_view t now (later_change e t)"

definition find_recent :: "string \<Rightarrow> 'b engine \<Rightarrow> txn option" where
  "find_recent opid e = List.find (\<lambda>t. op_id t = opid) (rev (e_recent e))"

definition e_find :: "string \<Rightarrow> u64 \<Rightarrow> 'b engine \<Rightarrow> op_view option" where
  "e_find opid now e =
     (case e_live opid e of
        Some t \<Rightarrow> Some (e_view e t now)
      | None \<Rightarrow> map_option (\<lambda>t. e_view e t now) (find_recent opid e))"

definition e_block :: "u64 \<Rightarrow> 'b engine \<Rightarrow> op_block" where
  "e_block now e = \<lparr>
     b_rollback_enabled = cfg_rollback e,
     b_active = map_option (\<lambda>t. e_view e t now) (e_active e),
     b_last = map_option (\<lambda>l. (e_view e (l_txn l) now, l_acked l, \<not> l_acked l \<and> sticky (l_txn l))) (e_last e),
     b_notice = (cfg_rollback e \<and> \<not> e_notice_acked e)\<rparr>"

section \<open>Small steps under the lock\<close>

definition e_out :: "out \<Rightarrow> 'b engine \<Rightarrow> 'b engine" where
  "e_out x e = e\<lparr>e_outs := e_outs e @ [x]\<rparr>"

definition e_publish :: "u64 \<Rightarrow> 'b engine \<Rightarrow> 'b engine" where
  "e_publish now e = (if e_observed e then e_out (OPublish (e_block now e)) e else e)"

definition remember :: "txn \<Rightarrow> txn list \<Rightarrow> txn list" where
  "remember t rs = (if length rs \<ge> recent_cap then tl rs else rs) @ [t]"

definition e_retire :: "'b engine \<Rightarrow> 'b engine" where
  "e_retire e =
     (case e_active e of
        None \<Rightarrow> e
      | Some t \<Rightarrow>
          let l = \<lparr>l_txn = t, l_acked = False\<rparr>
          in (e_out (OLine (txn_line t)) e)\<lparr>e_active := None, e_store := save_last l (e_store e), e_last := Some l,
                e_recent := remember t (e_recent e)\<rparr>)"

definition e_persist :: "u64 \<Rightarrow> bool \<Rightarrow> 'b engine \<Rightarrow> 'b engine" where
  "e_persist now force e =
     (case e_active e of
        None \<Rightarrow> e_publish now e
      | Some t \<Rightarrow>
          if is_final (phase t) then e\<lparr>e_store := clear (e_store e)\<rparr>
          else
            let e = e_publish now e
            in if force \<or> sat_sub (seen_ms t) (e_saved_seen_ms e) \<ge> seen_save_ms
               then e\<lparr>e_store := save t (e_store e), e_saved_seen_ms := seen_ms t\<rparr>
               else e)"

definition e_finish :: "u64 \<Rightarrow> 'b engine \<Rightarrow> 'b engine" where
  "e_finish now e =
     (if is_some_and (e_active e) (\<lambda>t. is_final (phase t)) then
        let e = e_retire e in e_publish now (e\<lparr>e_store := clear (e_store e)\<rparr>)
      else e)"

text \<open>Cancel the active transaction and finish it: the tail shared by the sections that interrupt it.\<close>

definition e_cancel :: "u64 \<Rightarrow> reason \<Rightarrow> 'b engine \<Rightarrow> 'b engine" where
  "e_cancel now why e = e_finish now (e\<lparr>e_active := map_option (txn_cancel why) (e_active e)\<rparr>)"

section \<open>Starting up\<close>

definition e_new :: "bool \<Rightarrow> u64 \<Rightarrow> 'b store \<Rightarrow> 'b engine" where
  "e_new rb ttl s = \<lparr>cfg_rollback = rb, cfg_legacy_ttl_ms = ttl, e_observed = False, e_active = None,
     e_session = None, e_recent = [], e_legacy = [], e_saved_seen_ms = 0, e_last = load_last s,
     e_notice_acked = notice_acked notice_rollback_on s, e_store = s, e_outs = []\<rparr>"

definition set_observer :: "u64 \<Rightarrow> 'b engine \<Rightarrow> 'b engine" where
  "set_observer now e = e_publish now (e\<lparr>e_observed := True\<rparr>)"

text \<open>\<open>start\<close>: resume what was saved. The result says for which transaction a driver is started.\<close>

definition e_start :: "string \<Rightarrow> u64 \<Rightarrow> 'b engine \<Rightarrow> string option \<times> 'b engine" where
  "e_start bid now e =
     (let (takeover, s1) = take_takeover (e_store e); (loaded, s2) = load s1; e = e\<lparr>e_store := s2\<rparr>
      in case loaded of
           None \<Rightarrow> (None, e)
         | Some t \<Rightarrow>
             let t = (if takeover then txn_cancel Takeover t else snd (txn_resume bid now t));
                 e = e_finish now (e_persist now True (e\<lparr>e_active := Some t\<rparr>))
             in (if e_active e \<noteq> None then Some (op_id t) else None, e))"

section \<open>Acknowledgements\<close>

definition e_ack :: "string \<Rightarrow> source \<Rightarrow> u64 \<Rightarrow> 'b engine \<Rightarrow> bool \<times> 'b engine" where
  "e_ack opid src now e =
     (case e_last e of
        None \<Rightarrow> (False, e)
      | Some l \<Rightarrow>
          if op_id (l_txn l) \<noteq> opid then (False, e)
          else
            let e = (if \<not> l_acked l then
                       let l = l\<lparr>l_acked := True\<rparr>
                       in e_out (OLine (jobj [(''source'', json_source src), (''action'', JString ''op.ack''),
                            (''op_id'', JString opid), (''item'', JString (item (l_txn l))),
                            (''result'', JString ''ok'')]))
                          (e\<lparr>e_last := Some l, e_store := save_last l (e_store e)\<rparr>)
                     else e)
            in (True, e_publish now e))"

definition e_notice_ack :: "source \<Rightarrow> u64 \<Rightarrow> 'b engine \<Rightarrow> 'b engine" where
  "e_notice_ack src now e =
     (let e = (if \<not> e_notice_acked e then
                 e_out (OLine (jobj [(''source'', json_source src), (''action'', JString ''op.notice_ack''),
                   (''notice'', JString notice_rollback_on), (''result'', JString ''ok'')]))
                 (e\<lparr>e_notice_acked := True, e_store := save_notice_ack notice_rollback_on (e_store e)\<rparr>)
               else e)
      in e_publish now e)"

section \<open>Interruptions\<close>

text \<open>\<open>other_write\<close>: \<open>None\<close> means go ahead, \<open>Some\<close> the transaction that is in the way.\<close>

definition e_other_write :: "source \<Rightarrow> u64 \<Rightarrow> 'b engine \<Rightarrow> txn option \<times> 'b engine" where
  "e_other_write src now e =
     (case e_active e of
        None \<Rightarrow> (None, e)
      | Some t \<Rightarrow> if \<not> is_user src then (Some t, e) else (None, e_cancel now OtherChange e))"

definition e_interrupt :: "source \<Rightarrow> string \<Rightarrow> u64 \<Rightarrow> 'b engine \<Rightarrow> string option \<times> 'b engine" where
  "e_interrupt src what now e =
     (case e_active e of
        None \<Rightarrow> (None, e)
      | Some t \<Rightarrow>
          (Some (op_id t),
           e_out (OLine (jobj [(''source'', json_source src), (''action'', JString ''op.interrupt''),
             (''op_id'', JString (op_id t)), (''item'', JString (item t)), (''what'', JString what),
             (''result'', JString ''ok'')]))
           (e_cancel now OtherChange e)))"

section \<open>The legacy queue\<close>

definition legacy_line :: "(json \<Rightarrow> string) \<Rightarrow> legacy_req \<Rightarrow> string \<Rightarrow> string option \<Rightarrow> json" where
  "legacy_line ser r result why = jobj [(''source'', json_source Legacy), (''action'', JString (lr_action r)),
     (''item'', JString (lr_item r)), (''params'', redact ser (lr_action r) (lr_params r)),
     (''result'', JString result), (''reason'', jopt JString why)]"

definition e_drop_legacy :: "(json \<Rightarrow> string) \<Rightarrow> string \<Rightarrow> 'b engine \<Rightarrow> 'b engine" where
  "e_drop_legacy ser why e =
     e\<lparr>e_legacy := [], e_outs := e_outs e @ map (\<lambda>r. OLine (legacy_line ser r ''dropped'' (Some why))) (e_legacy e)\<rparr>"

definition e_preempt :: "(json \<Rightarrow> string) \<Rightarrow> u64 \<Rightarrow> 'b engine \<Rightarrow> 'b engine" where
  "e_preempt ser now e =
     e_drop_legacy ser ''a safety write'' (if e_active e \<noteq> None then e_cancel now Preempted e else e)"

datatype legacy_gate = GatePass | GateQueue

definition e_legacy_gate :: "(json \<Rightarrow> string) \<Rightarrow> string option \<Rightarrow> bool \<Rightarrow> u64 \<Rightarrow> 'b engine \<Rightarrow> legacy_gate \<times> 'b engine" where
  "e_legacy_gate ser itm safety now e =
     (if safety then (GatePass, e_preempt ser now e)
      else case itm of
        None \<Rightarrow> (GatePass, e)
      | Some i \<Rightarrow>
          if e_session e \<noteq> None then (GateQueue, e)
          else
            (case e_active e of
               None \<Rightarrow> (GatePass, e)
             | Some t \<Rightarrow>
                 if item t = i \<and> (phase t = Verifying \<or> phase t = RollingBack) \<and> intent t = None
                 then (GatePass, e_cancel now Superseded e)
                 else (GateQueue, e)))"

definition e_enqueue_legacy :: "(json \<Rightarrow> string) \<Rightarrow> string \<Rightarrow> string \<Rightarrow> json \<Rightarrow> u64 \<Rightarrow> 'b engine \<Rightarrow> 'b engine" where
  "e_enqueue_legacy ser itm act params now e =
     (let r = \<lparr>lr_item = itm, lr_action = act, lr_params = params, lr_at_ms = now\<rparr>
      in e\<lparr>e_legacy := filter (\<lambda>x. lr_item x \<noteq> itm) (e_legacy e) @ [r],
           e_outs := e_outs e
             @ map (\<lambda>x. OLine (legacy_line ser x ''replaced'' None)) (filter (\<lambda>x. lr_item x = itm) (e_legacy e))
             @ [OLine (legacy_line ser r ''queued'' None)]\<rparr>)"

text \<open>One turn of the loop of \<open>kick_legacy\<close>: expired requests go, the oldest fresh one is taken.\<close>

definition e_take_legacy :: "(json \<Rightarrow> string) \<Rightarrow> u64 \<Rightarrow> 'b engine \<Rightarrow> legacy_req option \<times> 'b engine" where
  "e_take_legacy ser now e =
     (if e_active e \<noteq> None \<or> e_session e \<noteq> None then (None, e)
      else
        let fresh = (\<lambda>r. sat_sub now (lr_at_ms r) < cfg_legacy_ttl_ms e);
            kept = filter fresh (e_legacy e);
            e = e\<lparr>e_outs := e_outs e
                  @ map (\<lambda>r. OLine (legacy_line ser r ''dropped'' (Some ''expired''))) (filter (\<lambda>r. \<not> fresh r) (e_legacy e))\<rparr>
        in case kept of [] \<Rightarrow> (None, e\<lparr>e_legacy := []\<rparr>) | r # rs \<Rightarrow> (Some r, e\<lparr>e_legacy := rs\<rparr>))"

text \<open>The executor was full: the request goes back to the front unless a newer one of its item came.\<close>

definition e_put_back :: "legacy_req \<Rightarrow> 'b engine \<Rightarrow> 'b engine" where
  "e_put_back r e =
     (if \<not> list_ex (\<lambda>x. lr_item x = lr_item r) (e_legacy e) then e\<lparr>e_legacy := r # e_legacy e\<rparr> else e)"

section \<open>Submitting a write\<close>

datatype busy = BusyTxn txn | BusySession session

datatype submit_check = SubmitExisting op_view | SubmitBusy busy | SubmitGo

text \<open>The first section of \<open>submit\<close>, and the test the second one repeats.\<close>

definition e_submit_check :: "request \<Rightarrow> string \<Rightarrow> u64 \<Rightarrow> 'b engine \<Rightarrow> submit_check" where
  "e_submit_check req opid now e =
     (case e_find opid now e of
        Some v \<Rightarrow> SubmitExisting v
      | None \<Rightarrow>
          (case e_session e of
             Some s \<Rightarrow> SubmitBusy (BusySession s)
           | None \<Rightarrow>
               (case e_active e of
                  Some t \<Rightarrow> if \<not> overridable t req then SubmitBusy (BusyTxn t) else SubmitGo
                | None \<Rightarrow> SubmitGo)))"

text \<open>What the read before the write captures: the old value, the SIM and the connection.\<close>

record capture =
  c_old :: string
  c_sim :: sim_id
  c_conn :: "conn option"

definition e_capture :: "(string + reading) \<Rightarrow> string + capture" where
  "e_capture r = (case r of
     Err e \<Rightarrow> Err (''cannot read current value: '' @ e)
   | Ok rd \<Rightarrow>
       (case r_value rd of
          None \<Rightarrow> Err ''cannot read current value: not reported''
        | Some v \<Rightarrow> Ok \<lparr>c_old = v, c_sim = r_sim rd,
            c_conn = (case r_data rd of
               Some d \<Rightarrow> if addr (d_conn d) \<noteq> [] then Some (d_conn d) else None | None \<Rightarrow> None)\<rparr>))"

text \<open>The new transaction; \<open>inherit\<close> is the rollback target of the one it replaces.\<close>

definition e_new_txn :: "(string \<Rightarrow> string option) \<Rightarrow> string \<Rightarrow> request \<Rightarrow> string \<Rightarrow> capture \<Rightarrow> string option
    \<Rightarrow> bool \<Rightarrow> u64 \<Rightarrow> txn" where
  "e_new_txn env bid req opid c inherit rb now = begin_apply (txn_new \<lparr>
     n_op_id = opid, n_action = s_action (q_spec req), n_item = s_item (q_spec req),
     n_source = q_source req, n_undo = q_undo req, n_target = q_target req, n_old = c_old c,
     n_rollback_to = (case inherit of Some v \<Rightarrow> v | None \<Rightarrow> c_old c), n_sim = c_sim c, n_conn = c_conn c,
     n_confirm = s_confirm (q_spec req), n_rollback_enabled = (rb \<and> q_source req \<noteq> Legacy),
     n_deadline_ms = spec_deadline_ms env (q_spec req), n_boot_id = bid\<rparr> now)"

definition e_submit_begin :: "(string \<Rightarrow> string option) \<Rightarrow> string \<Rightarrow> request \<Rightarrow> string \<Rightarrow> capture \<Rightarrow> u64
    \<Rightarrow> 'b engine \<Rightarrow> submit_check \<times> 'b engine" where
  "e_submit_begin env bid req opid c now e =
     (case e_submit_check req opid now e of
        SubmitGo \<Rightarrow>
          let inherit = map_option rollback_to (e_active e);
              e = (if e_active e \<noteq> None
                   then e_retire (e\<lparr>e_active := map_option (txn_cancel Superseded) (e_active e)\<rparr>) else e);
              t = e_new_txn env bid req opid c inherit (cfg_rollback e) now
          in (SubmitGo, e_persist now True (e\<lparr>e_active := Some t\<rparr>))
      | r \<Rightarrow> (r, e))"

text \<open>
  The write call is over. \<open>set_owner\<close> comes first, without the engine's lock; then the last section.
  The result says whether a driver is started.
\<close>

datatype write_result = WriteOk | WriteFailed | WriteTimedOut

definition applied_of :: "write_result \<Rightarrow> applied" where
  "applied_of w = (case w of WriteOk \<Rightarrow> ADone | WriteTimedOut \<Rightarrow> AUnknown | WriteFailed \<Rightarrow> AFailed)"

definition e_note_owner :: "request \<Rightarrow> string \<Rightarrow> write_result \<Rightarrow> 'b engine \<Rightarrow> 'b engine" where
  "e_note_owner req opid w e =
     (if w \<noteq> WriteFailed
      then e_out (OOwner (s_item (q_spec req)) (q_source req) (q_undo req) (q_target req) opid) e else e)"

definition e_submit_applied :: "string \<Rightarrow> write_result \<Rightarrow> u64 \<Rightarrow> 'b engine \<Rightarrow> bool \<times> 'b engine" where
  "e_submit_applied opid w now e =
     (case e_live opid e of
        Some t \<Rightarrow> (True, e_persist now True (e\<lparr>e_active := Some (txn_applied (applied_of w) now t)\<rparr>))
      | None \<Rightarrow> (False, e_persist now True e))"

section \<open>The driver\<close>

text \<open>The top of the loop of \<open>drive\<close>: \<open>None\<close> when the transaction is gone.\<close>

definition e_drive_top :: "string \<Rightarrow> 'b engine \<Rightarrow> (u64 \<times> spec option \<times> string option) option" where
  "e_drive_top opid e =
     (case e_live opid e of
        None \<Rightarrow> None
      | Some t \<Rightarrow> Some (generation t, spec_find (action t),
          if phase t = RollingBack \<and> intent t = Some IRollback then Some (rollback_to t) else None))"

definition e_drive_probe :: "string \<Rightarrow> reading \<Rightarrow> u64 \<Rightarrow> 'b engine \<Rightarrow> probe_target option option" where
  "e_drive_probe opid r now e = map_option (\<lambda>t. wants_probe t r now) (e_live opid e)"

text \<open>
  The end of a beat: the reading, or the tick when there is none, goes to the state machine unless the
  phase changed meanwhile. \<open>False\<close> when the transaction is gone and the driver ends.
\<close>

definition e_drive_feed :: "string \<Rightarrow> u64 \<Rightarrow> reading option \<Rightarrow> u64 \<Rightarrow> 'b engine \<Rightarrow> bool \<times> 'b engine" where
  "e_drive_feed opid g r now e =
     (case e_live opid e of
        None \<Rightarrow> (False, e)
      | Some t \<Rightarrow>
          if generation t \<noteq> g then (True, e)
          else
            let t' = snd (case r of Some rd \<Rightarrow> on_reading rd now t | None \<Rightarrow> on_tick now t);
                changed = (generation t' \<noteq> g)
            in (True, e_finish now (e_persist now changed (e\<lparr>e_active := Some t'\<rparr>))))"

section \<open>Sending a rollback\<close>

definition e_rollback_save :: "string \<Rightarrow> u64 \<Rightarrow> 'b engine \<Rightarrow> bool \<times> 'b engine" where
  "e_rollback_save opid now e =
     (if e_live opid e = None then (False, e) else (True, e_persist now True e))"

datatype rollback_go = RbGone | RbWrite | RbRetry

definition e_rollback_check :: "string \<Rightarrow> (string + reading) \<Rightarrow> u64 \<Rightarrow> 'b engine \<Rightarrow> rollback_go \<times> 'b engine" where
  "e_rollback_check opid r now e =
     (case e_live opid e of
        None \<Rightarrow> (RbGone, e)
      | Some t \<Rightarrow>
          (case (case r of Ok rd \<Rightarrow> sim_check (sim t) (r_sim rd) | Err _ \<Rightarrow> SimUnknown) of
             SimSame \<Rightarrow> (RbWrite, e)
           | SimDiffers \<Rightarrow> (RbGone, e_cancel now SimChanged e)
           | SimUnknown \<Rightarrow> (RbRetry, e)))"

definition e_rollback_sent :: "string \<Rightarrow> u64 \<Rightarrow> 'b engine \<Rightarrow> 'b engine" where
  "e_rollback_sent opid now e =
     (case e_live opid e of
        None \<Rightarrow> e
      | Some t \<Rightarrow> e_persist now True (e\<lparr>e_active := Some (txn_rollback_sent now t)\<rparr>))"

section \<open>Requests about the current transaction\<close>

definition e_status :: "string option \<Rightarrow> u64 \<Rightarrow> 'b engine \<Rightarrow> (op_view + txn) option" where
  "e_status opid now e = (case opid of
     Some i \<Rightarrow> map_option Inl (e_find i now e)
   | None \<Rightarrow> (case e_active e of
        Some t \<Rightarrow> Some (Inr t)
      | None \<Rightarrow> if e_recent e = [] then None else Some (Inr (List.last (e_recent e)))))"

datatype op_error = NoSuchChange | Refused txn_error

definition e_revert :: "string \<Rightarrow> u64 \<Rightarrow> 'b engine \<Rightarrow> (op_error + txn) \<times> 'b engine" where
  "e_revert opid now e =
     (case e_live opid e of
        None \<Rightarrow> (Err NoSuchChange, e)
      | Some t \<Rightarrow>
          (case txn_revert t of
             Err x \<Rightarrow> (Err (Refused x), e)
           | Ok (_, t') \<Rightarrow> (Ok t', e_persist now True (e\<lparr>e_active := Some t'\<rparr>))))"

definition e_keep :: "string \<Rightarrow> u64 \<Rightarrow> 'b engine \<Rightarrow> (op_error + op_view option) \<times> 'b engine" where
  "e_keep opid now e =
     (case e_live opid e of
        None \<Rightarrow> (Err NoSuchChange, e)
      | Some t \<Rightarrow>
          (case txn_keep t of
             Err x \<Rightarrow> (Err (Refused x), e)
           | Ok t' \<Rightarrow>
               let e' = e_finish now (e\<lparr>e_active := Some t'\<rparr>) in (Ok (e_find opid now e'), e')))"

section \<open>Sessions\<close>

definition session_line :: "session \<Rightarrow> string \<Rightarrow> string option \<Rightarrow> u64 \<Rightarrow> json" where
  "session_line s result why now = jobj [(''source'', json_source (ss_source s)),
     (''item'', JString ''netselect.session''), (''op_id'', JString (ss_id s)),
     (''result'', JString result), (''reason'', jopt JString why),
     (''age_ms'', json_u64 (sat_sub now (ss_opened_ms s)))]"

definition session_over :: "u64 \<Rightarrow> session \<Rightarrow> string option" where
  "session_over now s =
     (if sat_sub now (ss_opened_ms s) \<ge> session_max_ms then Some ''expired''
      else if sat_sub now (ss_renewed_ms s) \<ge> session_lease_ms then Some ''agent_gone''
      else None)"

definition e_reap_session :: "u64 \<Rightarrow> 'b engine \<Rightarrow> 'b engine" where
  "e_reap_session now e =
     (case e_session e of
        None \<Rightarrow> e
      | Some s \<Rightarrow>
          (case session_over now s of
             None \<Rightarrow> e
           | Some why \<Rightarrow> e_out (OLine (session_line s ''ended'' (Some why) now)) (e\<lparr>e_session := None\<rparr>)))"

definition e_session_open :: "string \<Rightarrow> source \<Rightarrow> u64 \<Rightarrow> 'b engine \<Rightarrow> (busy + session) \<times> 'b engine" where
  "e_session_open sid src now e =
     (let e = e_reap_session now e
      in case e_session e of
           Some s \<Rightarrow> (Err (BusySession s), e)
         | None \<Rightarrow>
             (case e_active e of
                Some t \<Rightarrow> (Err (BusyTxn t), e)
              | None \<Rightarrow>
                  let s = \<lparr>ss_id = sid, ss_source = src, ss_opened_ms = now, ss_renewed_ms = now\<rparr>
                  in (Ok s, e_out (OLine (session_line s ''opened'' None now)) (e\<lparr>e_session := Some s\<rparr>))))"

text \<open>\<open>session_renew\<close>: the milliseconds left, or \<open>None\<close> when the session is gone.\<close>

definition e_session_renew :: "string \<Rightarrow> u64 \<Rightarrow> 'b engine \<Rightarrow> u64 option \<times> 'b engine" where
  "e_session_renew sid now e =
     (let e = e_reap_session now e
      in case e_session e of
           Some s \<Rightarrow>
             if ss_id s = sid
             then (Some (sat_sub session_max_ms (sat_sub now (ss_opened_ms s))), e\<lparr>e_session := Some (s\<lparr>ss_renewed_ms := now\<rparr>)\<rparr>)
             else (None, e)
         | None \<Rightarrow> (None, e))"

definition e_session_close :: "string \<Rightarrow> string option \<Rightarrow> u64 \<Rightarrow> 'b engine \<Rightarrow> bool \<times> 'b engine" where
  "e_session_close sid result now e =
     (let e = e_reap_session now e
      in case e_session e of
           Some s \<Rightarrow>
             if ss_id s = sid
             then (True, e_out (OLine (session_line s ''closed'' result now)) (e\<lparr>e_session := None\<rparr>))
             else (False, e)
         | None \<Rightarrow> (False, e))"

datatype session_answer = SgOk | SgBusy session | SgGone

definition e_session_gate :: "string \<Rightarrow> string option \<Rightarrow> u64 \<Rightarrow> 'b engine \<Rightarrow> session_answer \<times> 'b engine" where
  "e_session_gate act sid now e =
     (let e = e_reap_session now e;
          step = act \<in> set session_steps; optional = act \<in> set session_optional
      in case e_session e of
           Some s \<Rightarrow>
             if sid = Some (ss_id s) \<and> (step \<or> optional)
             then (SgOk, e\<lparr>e_session := Some (s\<lparr>ss_renewed_ms := now\<rparr>)\<rparr>)
             else if step \<or> optional \<or> act \<in> set session_blocks then (SgBusy s, e)
             else (SgOk, e)
         | None \<Rightarrow> if step then (SgGone, e) else (SgOk, e))"

end
