(* ===== verification/Op_Words.thy ===== *)
theory Op_Words
  imports Engine
begin

text \<open>
  The words and the JSON of the write layer: \<open>Txn::status\<close>, the view with its texts in Chinese and English,
  the reply that says what is in progress, the \<open>op\<close> block and the line for the home page
  (\<^verbatim>\<open>rust/src/ops/ui.rs\<close>, and the small functions of \<^verbatim>\<open>engine.rs\<close>, \<^verbatim>\<open>txn.rs\<close> and \<^verbatim>\<open>screen.rs\<close> they
  use). A text with characters outside ASCII is written as its code points; \<open>utf8\<close> gives its bytes.
\<close>

section \<open>Texts\<close>

definition utf8_char :: "nat \<Rightarrow> string" where
  "utf8_char c =
     (if c < 0x80 then [char_of c]
      else if c < 0x800 then [char_of (0xC0 + c div 64), char_of (0x80 + c mod 64)]
      else if c < 0x10000 then [char_of (0xE0 + c div 4096), char_of (0x80 + c div 64 mod 64), char_of (0x80 + c mod 64)]
      else [char_of (0xF0 + c div 262144), char_of (0x80 + c div 4096 mod 64), char_of (0x80 + c div 64 mod 64),
            char_of (0x80 + c mod 64)])"

definition utf8 :: "nat list \<Rightarrow> string" where
  "utf8 cs = concat (map utf8_char cs)"

type_synonym words = "string \<times> string"

text \<open>\<open>cat\<close>: no space between two characters outside ASCII. A character is outside ASCII when its bytes are.\<close>

definition wide :: "char \<Rightarrow> bool" where
  "wide c \<longleftrightarrow> 128 \<le> (of_char c :: nat)"

definition cat :: "string \<Rightarrow> string \<Rightarrow> string" where
  "cat a b =
     (if a = [] \<or> b = [] \<or> (wide (List.last a) \<and> wide (hd b)) then a @ b else a @ '' '' @ b)"

fun str_replace :: "string \<Rightarrow> string \<Rightarrow> nat \<Rightarrow> string \<Rightarrow> string" where
  "str_replace p r 0 (c # s) = (if starts_with (c # s) p then r @ str_replace p r (length p - 1) s else c # str_replace p r 0 s)"
| "str_replace p r (Suc n) (c # s) = str_replace p r n s"
| "str_replace p r n [] = []"

section \<open>Names\<close>

definition source_words :: "source \<Rightarrow> words" where
  "source_words s = (case s of
     Screen \<Rightarrow> ((utf8 [0x89E6, 0x5C4F]), ''Screen'') | Legacy \<Rightarrow> ((utf8 [0x89E6, 0x5C4F]), ''Screen'')
   | Web \<Rightarrow> ((utf8 [0x7F51, 0x9875]), ''Web'')
   | Scenario \<Rightarrow> ((utf8 [0x60C5, 0x666F]), ''Scene'')
   | Scheduler \<Rightarrow> ((utf8 [0x5B9A, 0x65F6, 0x4EFB, 0x52A1]), ''Schedule'')
   | Auto \<Rightarrow> ((utf8 [0x81EA, 0x52A8]), ''Auto'')
   | Guard \<Rightarrow> ((utf8 [0x81EA, 0x52A8, 0x6062, 0x590D]), ''Auto-recovery''))"

definition item_words :: "string \<Rightarrow> string \<times> string \<times> string" where
  "item_words itm =
     (if itm = network_mode then ((utf8 [0x6B63, 0x5728, 0x6362, 0x5236, 0x5F0F]), (utf8 [0x5236, 0x5F0F]), ''Network mode'')
      else if itm = ''netselect.session'' then ((utf8 [0x6B63, 0x5728, 0x641C, 0x7F51]), (utf8 [0x641C, 0x7F51]), ''Network search'')
      else ((utf8 [0x6B63, 0x5728, 0x6539, 0x8BBE, 0x7F6E]), (utf8 [0x8BBE, 0x7F6E]), ''Setting''))"

definition net_select_table :: "(string \<times> words) list" where
  "net_select_table = [
     (''WL_AND_5G'', (utf8 [0x81EA, 0x52A8]), ''Auto''), (''TCHGWL_5G'', (utf8 [0x81EA, 0x52A8]), ''Auto''), (''NETWORK_auto'', (utf8 [0x81EA, 0x52A8]), ''Auto''),
     (''Only_5G'', (utf8 [0x53EA, 0x7528] @ '' 5G SA''), ''5G SA only''), (''LTE_AND_5G'', (utf8 [0x53EA, 0x7528] @ '' 5G NSA''), ''5G NSA only''),
     (''4G_AND_5G'', ''4G + 5G'', ''4G + 5G''), (''WL_AND_NSA'', ''5G NSA + 4G + 3G'', ''5G NSA + 4G + 3G''),
     (''Only_LTE'', (utf8 [0x53EA, 0x7528] @ '' 4G''), ''4G only''), (''WCDMA_AND_LTE'', ''4G + 3G'', ''4G + 3G''),
     (''GSM_AND_LTE'', ''4G + 2G'', ''4G + 2G''), (''TDSCDMA_AND_LTE'', ''4G + TD-SCDMA'', ''4G + TD-SCDMA''),
     (''Only_WCDMA'', (utf8 [0x53EA, 0x7528] @ '' 3G''), ''3G only''), (''Only_GSM_WCDMA'', (utf8 [0x53EA, 0x7528] @ '' 3G '' @ utf8 [0x548C] @ '' 2G''), ''3G & 2G only''),
     (''Only_TDSCDMA'', (utf8 [0x53EA, 0x7528] @ '' TD-SCDMA''), ''TD-SCDMA only''), (''Only_GSM'', (utf8 [0x53EA, 0x7528] @ '' 2G''), ''2G only'')]"

definition net_select_word :: "string \<Rightarrow> words" where
  "net_select_word sel =
     (if sel = [] then (''-'', ''-'')
      else case map_of net_select_table sel of Some w \<Rightarrow> w | None \<Rightarrow> (sel, sel))"

definition value_words :: "string \<Rightarrow> string \<Rightarrow> words" where
  "value_words itm v =
     (if itm = network_mode then net_select_word v else if v = [] then (''-'', ''-'') else (v, v))"

section \<open>The line of a finished transaction\<close>

definition final_line :: "phase \<Rightarrow> reason option \<Rightarrow> words \<Rightarrow> words \<Rightarrow> words \<Rightarrow> string \<times> words" where
  "final_line p r x y before = (case p of
     Confirmed \<Rightarrow>
       (if r = Some UserKeep then (''warn'', cat (utf8 [0x4FDD, 0x7559]) (fst y) @ (utf8 [0x20, 0xB7, 0x20, 0x6CA1, 0x786E, 0x8BA4, 0x901A]), ''Kept '' @ snd y @ (utf8 [0x20, 0xB7] @ '' unconfirmed''))
        else if r = Some NoVerify then (''ok'', (utf8 [0x5DF2, 0x6539, 0x20, 0xB7, 0x20, 0x6CA1, 0x6709, 0x53EF, 0x786E, 0x8BA4, 0x7684, 0x8BFB, 0x6570]), (''Saved '' @ utf8 [0xB7] @ '' not checked''))
        else (''ok'', cat (utf8 [0x5DF2, 0x5207, 0x5230]) (fst y), ''Now '' @ snd y))
   | Unverified \<Rightarrow>
       (if r = Some ApnNoData then (''warn'', (''APN '' @ utf8 [0x5DF2, 0x5B58, 0x20, 0xB7, 0x20, 0x6570, 0x636E, 0x5173, 0x7740, 0x6CA1, 0x6CD5, 0x8BD5]), (''APN saved '' @ utf8 [0xB7] @ '' untested''))
        else (''bad'', (utf8 [0x6CA1, 0x901A, 0x20, 0xB7, 0x20]) @ cat (utf8 [0x8FD8, 0x662F]) (fst y), (''No data '' @ utf8 [0xB7] @ '' still '') @ snd y))
   | RolledBack \<Rightarrow>
       (if r = Some UserRevert then (''ok'', cat (utf8 [0x5DF2, 0x9000, 0x56DE]) (fst x), ''Back to '' @ snd x)
        else if r = Some RebootLoop then (''warn'', (utf8 [0x91CD, 0x542F, 0x4E86, 0x4E24, 0x6B21, 0x20, 0xB7, 0x20]) @ cat (utf8 [0x5DF2, 0x9000, 0x56DE]) (fst x), (''2 reboots '' @ utf8 [0xB7] @ '' back to '') @ snd x)
        else (''warn'', (utf8 [0x6CA1, 0x901A, 0x20, 0xB7, 0x20]) @ cat (utf8 [0x5DF2, 0x9000, 0x56DE]) (fst x), (''No data '' @ utf8 [0xB7] @ '' back to '') @ snd x))
   | NotApplied \<Rightarrow> (''warn'', (utf8 [0x6CA1, 0x5207, 0x6210, 0x20, 0xB7, 0x20]) @ cat (utf8 [0x8FD8, 0x662F]) (fst before), (''Didn'' @ utf8 [0x27] @ ''t apply '' @ utf8 [0xB7] @ '' still '') @ snd before)
   | RollbackFailed \<Rightarrow> (''bad'', (utf8 [0x9000, 0x56DE, 0x4E5F, 0x6CA1, 0x901A]), ''Revert failed'')
   | Cancelled \<Rightarrow>
       (if r = Some Superseded then (''ok'', (utf8 [0x88AB, 0x65B0, 0x7684, 0x6539, 0x52A8, 0x63A5, 0x66FF]), ''Replaced by a newer change'')
        else if r = Some Preempted then (''warn'', (utf8 [0x5DF2, 0x5173, 0x6570, 0x636E, 0x20, 0xB7, 0x20, 0x4E0D, 0x518D, 0x81EA, 0x52A8, 0x9000, 0x56DE]), (''Data off '' @ utf8 [0xB7] @ '' no auto revert''))
        else if r = Some Takeover then (''warn'', (utf8 [0x624B, 0x52A8, 0x63A5, 0x7BA1, 0x20, 0xB7, 0x20, 0x4E0D, 0x518D, 0x81EA, 0x52A8, 0x9000, 0x56DE]), ''Manual override'')
        else if r = Some SimChanged then (''warn'', (utf8 [0x6362, 0x8FC7, 0x5361, 0x20, 0xB7, 0x20, 0x4E0D, 0x518D, 0x81EA, 0x52A8, 0x9000, 0x56DE]), ''SIM changed'')
        else if r = Some OtherChange then (''warn'', (utf8 [0x6539, 0x4E86, 0x522B, 0x7684, 0x8BBE, 0x7F6E, 0xFF0C, 0x4E0D, 0x518D, 0x81EA, 0x52A8, 0x9000, 0x56DE]), ''Other change; no auto revert'')
        else (''warn'', (utf8 [0x522B, 0x5904, 0x6539, 0x8FC7, 0x20, 0xB7, 0x20, 0x4E0D, 0x518D, 0x81EA, 0x52A8, 0x9000, 0x56DE]), ''Changed elsewhere''))
   | _ \<Rightarrow> (''warn'', (utf8 [0x5DF2, 0x7ED3, 0x675F]), ''Ended''))"

definition undo_words :: "undo_reason \<Rightarrow> words" where
  "undo_words u = (case u of
     ChangedSince \<Rightarrow> ((utf8 [0x4E4B, 0x540E, 0x53C8, 0x6539, 0x8FC7]), ''Changed since'')
   | NothingToUndo \<Rightarrow> ((utf8 [0x8BBE, 0x7F6E, 0x6CA1, 0x53D8, 0x20, 0xB7, 0x20, 0x4E0D, 0x7528, 0x64A4, 0x9500]), ''Nothing to undo'')
   | RetryRevert \<Rightarrow> ((utf8 [0x5148, 0x518D, 0x8BD5, 0x4E00, 0x6B21, 0x9000, 0x56DE]), ''Retry the revert instead'')
   | SimWasChanged \<Rightarrow> ((utf8 [0x6362, 0x8FC7, 0x5361]), ''SIM changed'')
   | CannotUndo \<Rightarrow> ((utf8 [0x8FD9, 0x7C7B, 0x64CD, 0x4F5C, 0x4E0D, 0x80FD, 0x64A4, 0x9500]), (''Can'' @ utf8 [0x27] @ ''t be undone'')))"

section \<open>The view as JSON\<close>

definition json_reason :: "reason option \<Rightarrow> json" where
  "json_reason r = jopt (\<lambda>x. JString (reason_str x)) r"

definition status_fields :: "txn \<Rightarrow> u64 \<Rightarrow> (string \<times> json) list" where
  "status_fields t now = [
     (''op_id'', JString (op_id t)), (''action'', JString (action t)), (''item'', JString (item t)),
     (''source'', json_source (source t)), (''undo'', JBool (undo t)), (''phase'', JString (phase_str (phase t))),
     (''reason'', json_reason (reason t)), (''rollback_reason'', json_reason (rollback_reason t)),
     (''target'', JString (target t)), (''old'', JString (old t)), (''rollback_to'', JString (rollback_to t)),
     (''rollback_enabled'', JBool (rollback_enabled t)), (''ever_matched'', JBool (ever_matched t)),
     (''data_ok'', JBool (data_ok t)), (''age_ms'', json_u64 (sat_sub now (created_ms t))),
     (''remaining_ms'', jopt json_u64 (remaining_ms now t))]"

definition txn_status :: "txn \<Rightarrow> u64 \<Rightarrow> json" where
  "txn_status t now = jobj (status_fields t now)"

definition stay_str :: "stay \<Rightarrow> string" where
  "stay_str s = (case s of StLive \<Rightarrow> ''live'' | StAlert \<Rightarrow> ''alert'' | StNone \<Rightarrow> ''none''
     | StBrief \<Rightarrow> ''brief'' | StSticky \<Rightarrow> ''sticky'')"

definition say_line :: "txn \<Rightarrow> string option \<times> words" where
  "say_line t =
     (let itm = item t
      in case phase t of
           Accepted \<Rightarrow> (None, fst (item_words itm), ''Switching'')
         | Applying \<Rightarrow> (None, fst (item_words itm), ''Switching'')
         | Verifying \<Rightarrow> (None, (utf8 [0x6B63, 0x5728, 0x786E, 0x8BA4]), ''Checking'')
         | RollingBack \<Rightarrow> (None, (utf8 [0x6B63, 0x5728, 0x9000, 0x56DE]), ''Reverting'')
         | p \<Rightarrow> (let (m, w) = final_line p (reason t) (value_words itm (rollback_to t)) (value_words itm (target t))
                        (value_words itm (old t))
                in (Some m, w)))"

definition next_words :: "txn \<Rightarrow> words option" where
  "next_words t =
     (let x = value_words (item t) (rollback_to t)
      in if \<not> counting t then None
         else if phase t = Verifying \<and> rollback_enabled t
         then Some (cat (''{t} '' @ utf8 [0x540E, 0x6CA1, 0x901A, 0x5C31, 0x9000, 0x56DE, 0x5230]) (fst x), ''Back to '' @ snd x @ '' in {t} if no data'')
         else if phase t = Verifying then Some ((utf8 [0x8FD8, 0x5269] @ '' {t} '' @ utf8 [0xB7, 0x20, 0x81EA, 0x52A8, 0x9000, 0x56DE, 0x6CA1, 0x5F00]), (''{t} left '' @ utf8 [0xB7] @ '' auto revert off''))
         else Some (cat (utf8 [0x9000, 0x56DE, 0x5230]) (fst x) @ (utf8 [0x20, 0xB7, 0x20, 0x8FD8, 0x5269] @ '' {t}''), ''To '' @ snd x @ (utf8 [0x20, 0xB7] @ '' {t} left'')))"

definition note_words :: "txn \<Rightarrow> words option" where
  "note_words t = (if \<not> is_final (phase t) \<and> boots t > 0
     then Some ((utf8 [0x91CD, 0x542F, 0x8FC7, 0x20, 0xB7, 0x20, 0x91CD, 0x65B0, 0x786E, 0x8BA4]), (''Rebooted '' @ utf8 [0xB7] @ '' checking again'')) else None)"

definition step_json :: "string \<Rightarrow> words \<Rightarrow> bool \<Rightarrow> json" where
  "step_json k w b = jobj [(''key'', JString k), (''zh'', JString (fst w)), (''en'', JString (snd w)), (''done'', JBool b)]"

definition steps_json :: "txn \<Rightarrow> json" where
  "steps_json t = JArray [
     step_json ''applied'' ((utf8 [0x8BBE, 0x7F6E, 0x5DF2, 0x751F, 0x6548]), ''Setting applied'') (readback t = Some (ui_goal t)),
     step_json ''registered'' ((utf8 [0x5DF2, 0x6CE8, 0x518C]), ''Registered'') (registered t),
     step_json ''data'' ((utf8 [0x6570, 0x636E]), ''Data'') (data_ok t)]"

definition jtext :: "string option \<Rightarrow> json" where
  "jtext x = jopt JString x"

definition undo_json :: "txn \<Rightarrow> bool \<Rightarrow> json" where
  "undo_json t later =
     (if \<not> is_final (phase t) then JNull
      else
        let label = (if undo t then ((utf8 [0x91CD, 0x505A]), ''Redo'') else ((utf8 [0x64A4, 0x9500]), ''Undo''));
            why = map_option undo_words (undo_denied t later)
        in jobj [(''ok'', JBool (why = None)), (''label_zh'', JString (fst label)), (''label_en'', JString (snd label)),
             (''why_zh'', jtext (map_option fst why)), (''why_en'', jtext (map_option snd why)), (''value'', JString (old t))])"

definition view_puts :: "txn \<Rightarrow> bool \<Rightarrow> (string \<times> json) list" where
  "view_puts t later =
     (let itm = item t; (_, what_zh, what_en) = item_words itm; (src_zh, src_en) = source_words (source t);
          x = value_words itm (rollback_to t); y = value_words itm (target t); o_w = value_words itm (old t);
          rb = map_option (value_words itm) (readback t); (mark, say) = say_line t;
          nxt = next_words t; note = note_words t; can = (phase t = Verifying \<and> counting t)
      in [(''source_zh'', JString src_zh), (''source_en'', JString src_en),
          (''what_zh'', JString what_zh), (''what_en'', JString what_en),
          (''old_zh'', JString (fst o_w)), (''old_en'', JString (snd o_w)),
          (''target_zh'', JString (fst y)), (''target_en'', JString (snd y)),
          (''rollback_to_zh'', JString (fst x)), (''rollback_to_en'', JString (snd x)),
          (''readback_zh'', jtext (map_option fst rb)), (''readback_en'', jtext (map_option snd rb)),
          (''say_zh'', JString (fst say)), (''say_en'', JString (snd say)), (''mark'', jtext mark),
          (''stay'', JString (stay_str (ui_stay t))),
          (''next_zh'', jtext (map_option fst nxt)), (''next_en'', jtext (map_option snd nxt)),
          (''note_zh'', jtext (map_option fst note)), (''note_en'', jtext (map_option snd note)),
          (''steps'', steps_json t),
          (''revert_label_zh'', JString (cat (utf8 [0x9000, 0x56DE]) (fst x))), (''revert_label_en'', JString (''Revert to '' @ snd x)),
          (''keep_label_zh'', JString (cat (utf8 [0x4FDD, 0x7559]) (fst y))), (''keep_label_en'', JString (''Keep '' @ snd y)),
          (''can_revert'', JBool can), (''can_keep'', JBool can), (''undo'', undo_json t later)])"

definition view_json :: "txn \<Rightarrow> u64 \<Rightarrow> bool \<Rightarrow> json" where
  "view_json t now later = jobj (status_fields t now @ view_puts t later)"

section \<open>Replies of the engine\<close>

definition busy_op :: "txn \<Rightarrow> json" where
  "busy_op t = jobj [(''op_id'', JString (op_id t)), (''item'', JString (item t)), (''phase'', JString (phase_str (phase t)))]"

definition busy_words :: "string \<Rightarrow> source \<Rightarrow> u64 \<Rightarrow> words" where
  "busy_words itm src age =
     (let (doing, _, what_en) = item_words itm; (src_zh, src_en) = source_words src
      in (doing @ (utf8 [0xFF08]) @ src_zh @ (utf8 [0x53D1, 0x8D77, 0xFF0C]) @ nat_digits (unat (age div 1000)) @ (utf8 [0x20, 0x79D2, 0xFF09, 0xFF0C, 0x7A0D, 0x7B49]),
          ''Busy: '' @ to_ascii_lowercase what_en @ '' ('' @ src_en @ '')''))"

definition doing_session :: "session \<Rightarrow> u64 \<Rightarrow> json" where
  "doing_session s now =
     (let age = sat_sub now (ss_opened_ms s); (zh, en) = busy_words ''netselect.session'' (ss_source s) age
      in jobj [(''op_id'', JString (ss_id s)), (''action'', JString ''netselect.session''),
           (''source'', json_source (ss_source s)), (''phase'', JString ''session''), (''age_ms'', json_u64 age),
           (''say_zh'', JString zh), (''say_en'', JString en)])"

definition doing_txn :: "txn \<Rightarrow> u64 \<Rightarrow> json" where
  "doing_txn t now =
     (let age = sat_sub now (created_ms t); (zh, en) = busy_words (item t) (source t) age
      in jobj [(''op_id'', JString (op_id t)), (''action'', JString (action t)), (''source'', json_source (source t)),
           (''phase'', JString (phase_str (phase t))), (''age_ms'', json_u64 age),
           (''say_zh'', JString zh), (''say_en'', JString en)])"

definition doing_json :: "busy \<Rightarrow> u64 \<Rightarrow> json" where
  "doing_json b now = (case b of BusyTxn t \<Rightarrow> doing_txn t now | BusySession s \<Rightarrow> doing_session s now)"

definition block_view_json :: "u64 \<Rightarrow> 'b engine \<Rightarrow> txn \<Rightarrow> (string \<times> json) list" where
  "block_view_json now e t = map_remove ''age_ms'' (map_from (status_fields t now @ view_puts t (later_change e t)))"

definition block_json :: "u64 \<Rightarrow> 'b engine \<Rightarrow> json" where
  "block_json now e =
     jobj ([(''rollback_enabled'', JBool (cfg_rollback e)),
       (''active'', jopt (\<lambda>t. JObject (block_view_json now e t)) (e_active e)),
       (''last'', jopt (\<lambda>l. JObject (map_insert ''needs_ack'' (JBool (\<not> l_acked l \<and> sticky (l_txn l)))
          (map_insert ''acked'' (JBool (l_acked l)) (block_view_json now e (l_txn l))))) (e_last e))]
       @ (if cfg_rollback e \<and> \<not> e_notice_acked e then [(''notice'', JString notice_rollback_on)] else []))"

section \<open>The line for the home page\<close>

record screen_line =
  sl_kind :: screen_kind
  sl_head :: words
  sl_hint :: words

definition with_note :: "string option \<Rightarrow> string \<Rightarrow> string" where
  "with_note note hint = (case note of None \<Rightarrow> hint | Some n \<Rightarrow> if hint = [] then n else n @ (utf8 [0x20, 0xB7, 0x20]) @ hint)"

definition live_line :: "txn \<Rightarrow> u64 \<Rightarrow> screen_line" where
  "live_line t now =
     (let left = clock (case remaining_ms now t of Some r \<Rightarrow> r | None \<Rightarrow> 0);
          fill = (\<lambda>w. str_replace ''{t}'' left 0 (case w of Some s \<Rightarrow> s | None \<Rightarrow> []));
          nxt = next_words t; note = note_words t
      in \<lparr>sl_kind = SkLive, sl_head = snd (say_line t),
          sl_hint = (with_note (map_option fst note) (fill (map_option fst nxt)),
                     with_note (map_option snd note) (fill (map_option snd nxt)))\<rparr>)"

definition alert_line :: "txn \<Rightarrow> screen_line" where
  "alert_line t =
     (let x = value_words (item t) (rollback_to t);
          (now_zh, now_en) = (case readback t of
             Some r \<Rightarrow> (let w = value_words (item t) r in (cat (utf8 [0x73B0, 0x5728, 0x662F]) (fst w), ''Now '' @ snd w))
           | None \<Rightarrow> ((utf8 [0x5F53, 0x524D, 0x8BBE, 0x7F6E, 0x672A, 0x77E5]), ''Current setting unknown''))
      in \<lparr>sl_kind = SkAlert, sl_head = ((utf8 [0x9000, 0x56DE, 0x4E5F, 0x6CA1, 0x901A]), ''Failed''),
          sl_hint = (now_zh @ (utf8 [0x20, 0xB7, 0x20]) @ cat (utf8 [0x4E0A, 0x6B21, 0x786E, 0x8BA4, 0x662F]) (fst x) @ (utf8 [0x20, 0xB7, 0x20, 0x518D, 0x8BD5, 0x4E00, 0x6B21, 0x9000, 0x56DE, 0x6216, 0x91CD, 0x542F, 0x8BBE, 0x5907]),
                     now_en @ (utf8 [0x20, 0xB7] @ '' last good '') @ snd x @ (utf8 [0x20, 0xB7] @ '' retry revert or restart''))\<rparr>)"

definition screen_line_of :: "txn option \<Rightarrow> (txn \<times> bool) option \<Rightarrow> u64 \<Rightarrow> screen_line option" where
  "screen_line_of active lst now =
     (case active of
        Some t \<Rightarrow> Some (live_line t now)
      | None \<Rightarrow>
          (case lst of
             None \<Rightarrow> None
           | Some (t, acked) \<Rightarrow>
               if acked \<or> \<not> sticky t then None
               else if phase t = RollbackFailed then Some (alert_line t)
               else Some \<lparr>sl_kind = SkSticky, sl_head = ([], []),
                 sl_hint = snd (final_line (phase t) (reason t) (value_words (item t) (rollback_to t))
                   (value_words (item t) (target t)) (value_words (item t) (old t)))\<rparr>))"

section \<open>The JSON against the view of the engine\<close>

lemma screen_line_kind: "map_option sl_kind (screen_line_of a l now) = screen_op a l"
  by (auto simp: screen_line_of_def screen_op_def live_line_def alert_line_def Let_def split: option.split prod.split)

lemma jget_view: "jget k (view_json t now later) =
   (case map_of (rev (view_puts t later)) k of Some v \<Rightarrow> Some v | None \<Rightarrow> map_of (rev (status_fields t now)) k)"
  by (simp add: view_json_def jget_jobj map_of_map_from map_add_def)

lemma view_json_fields:
  "jget ''can_revert'' (view_json t now later) = Some (JBool (phase t = Verifying \<and> counting t))"
  "jget ''can_keep'' (view_json t now later) = Some (JBool (phase t = Verifying \<and> counting t))"
  "jget ''undo'' (view_json t now later) = Some (undo_json t later)"
  "jget ''stay'' (view_json t now later) = Some (JString (stay_str (ui_stay t)))"
  "jget ''mark'' (view_json t now later) = Some (jtext (fst (say_line t)))"
  "jget ''steps'' (view_json t now later) = Some (steps_json t)"
  "jget ''op_id'' (view_json t now later) = Some (JString (op_id t))"
  "jget ''phase'' (view_json t now later) = Some (JString (phase_str (phase t)))"
  "jget ''old'' (view_json t now later) = Some (JString (old t))"
  by (simp_all add: jget_view view_puts_def status_fields_def Let_def split: prod.split)

lemma say_mark: "fst (say_line t) = None \<longleftrightarrow> \<not> is_final (phase t)"
  by (simp add: say_line_def Let_def is_final_def split: phase.split prod.split)

lemma undo_json_ok:
  "jget ''ok'' (undo_json t later) = Some (JBool True) \<longleftrightarrow> is_final (phase t) \<and> undo_denied t later = None"
proof -
  have "jget ''ok'' JNull = None" by (simp add: jget_def)
  then show ?thesis by (simp add: undo_json_def Let_def jget_jobj map_of_map_from)
qed

text \<open>
  Property C39. What the client is shown is what the state machine will do. The JSON of a transaction offers the
  buttons \<open>revert\<close> and \<open>keep\<close> exactly when the transaction accepts them, marks a result exactly when it is
  final, and offers to undo it only when the value can still be in force: it was kept or confirmed, or it was
  cancelled and the device still reads back the target, and nothing has changed the item since.
\<close>

theorem view_json_sound:
  "jget ''can_revert'' (view_json t now later) = Some (JBool (is_ok (txn_revert t))) \<and>
   jget ''can_keep'' (view_json t now later) = Some (JBool (is_ok (txn_keep t))) \<and>
   (jget ''mark'' (view_json t now later) = Some JNull \<longleftrightarrow> \<not> is_final (phase t)) \<and>
   (Option.bind (jget ''undo'' (view_json t now later)) (jget ''ok'') = Some (JBool True) \<longleftrightarrow>
      \<not> later \<and> (phase t = Confirmed \<or> phase t = Unverified \<or>
        (phase t = Cancelled \<and> reason t \<notin> {Some SimChanged, Some Superseded} \<and> readback t = Some (target t))))"
proof -
  have t: "jtext x = JNull \<longleftrightarrow> x = None" for x by (simp add: jtext_def jopt_def split: option.split)
  have r: "(phase t = Verifying \<and> counting t) = is_ok (txn_revert t)"
    and k: "(phase t = Verifying \<and> counting t) = is_ok (txn_keep t)"
    by (simp_all add: txn_revert_def txn_keep_def counting_def waiting_def)
  have u: "is_final (phase t) \<and> undo_denied t later = None \<longleftrightarrow> \<not> later \<and> (phase t = Confirmed \<or> phase t = Unverified \<or>
        (phase t = Cancelled \<and> reason t \<notin> {Some SimChanged, Some Superseded} \<and> readback t = Some (target t)))"
    unfolding undo_allowed_iff by (auto simp: is_final_def)
  show ?thesis
    unfolding view_json_fields option.inject json.inject Option.bind.bind_lunit t say_mark undo_json_ok u
    using r k by simp
qed

end
