(* ===== verification/Journal_View.thy ===== *)
theory Journal_View
  imports Op_Words
begin

text \<open>
  The display fields of \<open>journal.list\<close> (\<^verbatim>\<open>rust/src/ops/journal_view.rs\<close>). The lines come newest first; every
  line keeps its fields and gets the texts, a mark, whether it is shown, and what an undo would send.
  A line that is not an object is the panic of \<open>expect\<close>: \<open>None\<close>.
\<close>

section \<open>Words\<close>

definition str_of :: "json \<Rightarrow> string \<Rightarrow> string" where
  "str_of v k = (case Option.bind (jget k v) as_str of Some s \<Rightarrow> s | None \<Rightarrow> [])"

definition name_table :: "(string \<times> words) list" where
  "name_table = [
     (''network.set_mode'', (utf8 [0x5236, 0x5F0F]), ''Network mode''),
     (''network.mode'', (utf8 [0x5236, 0x5F0F]), ''Network mode''),
     (''cellular.set'', (utf8 [0x79FB, 0x52A8, 0x6570, 0x636E]), ''Mobile data''),
     (''cellular.connect'', (utf8 [0x8FDE, 0x63A5, 0x6570, 0x636E]), ''Connect data''),
     (''cellular.disconnect'', (utf8 [0x65AD, 0x5F00, 0x6570, 0x636E]), ''Disconnect data''),
     (''cellular.redial'', (utf8 [0x91CD, 0x65B0, 0x62E8, 0x53F7]), ''Redial''),
     (''band.set_lte'', (utf8 [0x9501, 0x9891] @ '' 4G''), ''4G band lock''),
     (''band.set_nr_sa'', (utf8 [0x9501, 0x9891] @ '' 5G SA''), ''5G SA band lock''),
     (''band.set_nr_nsa'', (utf8 [0x9501, 0x9891] @ '' 5G NSA''), ''5G NSA band lock''),
     (''band.reset'', (utf8 [0x9501, 0x9891, 0x6062, 0x590D, 0x9ED8, 0x8BA4]), ''Band lock reset''),
     (''cell.lock_lte'', (utf8 [0x9501, 0x5C0F, 0x533A]), ''Cell lock''),
     (''cell.lock_nr'', (utf8 [0x9501, 0x5C0F, 0x533A]), ''Cell lock''),
     (''cell.unlock_all'', (utf8 [0x89E3, 0x9501, 0x5C0F, 0x533A]), ''Cell unlock''),
     (''sim.set_slot'', (utf8 [0x5361, 0x69FD]), ''SIM slot''),
     (''apn.set_mode'', ''APN'', ''APN''),
     (''apn.add'', ''APN'', ''APN''),
     (''apn.modify'', ''APN'', ''APN''),
     (''apn.delete'', ''APN'', ''APN''),
     (''apn.enable'', ''APN'', ''APN''),
     (''apn.set_pdp_type'', ''APN'', ''APN''),
     (''modem.airplane'', (utf8 [0x98DE, 0x884C, 0x6A21, 0x5F0F]), ''Airplane mode''),
     (''modem.online'', (utf8 [0x6253, 0x5F00, 0x79FB, 0x52A8, 0x7F51, 0x7EDC]), ''Radio on''),
     (''netselect.scan'', (utf8 [0x641C, 0x7F51]), ''Network scan''),
     (''netselect.register'', (utf8 [0x624B, 0x52A8, 0x6CE8, 0x518C]), ''Manual network''),
     (''netselect.auto'', (utf8 [0x81EA, 0x52A8, 0x9009, 0x7F51]), ''Automatic network''),
     (''netselect.session'', (utf8 [0x641C, 0x7F51]), ''Network search''),
     (''wifi.apply'', ''Wi-Fi'', ''Wi-Fi''),
     (''wifi.configure'', ''Wi-Fi'', ''Wi-Fi''),
     (''wifi.reload'', ''Wi-Fi'', ''Wi-Fi''),
     (''wifi.set_dual_band'', ''Wi-Fi'', ''Wi-Fi''),
     (''wifi.set_module'', ''Wi-Fi'', ''Wi-Fi''),
     (''wifi.set_chip'', ''Wi-Fi'', ''Wi-Fi''),
     (''wifi.psm.set'', (''Wi-Fi '' @ utf8 [0x7701, 0x7535]), ''Wi-Fi power save''),
     (''wifi.power_save'', (''Wi-Fi '' @ utf8 [0x8282, 0x80FD]), ''Wi-Fi power save''),
     (''nfc.set'', (utf8 [0x78B0, 0x4E00, 0x78B0]), ''NFC''),
     (''power.direct_supply.set'', (utf8 [0x76F4, 0x4F9B, 0x7535]), ''Direct power''),
     (''usb.set'', ''USB'', ''USB''),
     (''usb.attach_mode'', (utf8 [0x63D2, 0x7EBF, 0x7528, 0x6CD5]), ''USB use''),
     (''sleep.set'', (utf8 [0x81EA, 0x52A8, 0x4F11, 0x7720]), ''Auto sleep''),
     (''device.reboot'', (utf8 [0x91CD, 0x542F]), ''Restart''),
     (''device.poweroff'', (utf8 [0x5173, 0x673A]), ''Power off''),
     (''lan.set'', (utf8 [0x5C40, 0x57DF, 0x7F51]), ''LAN''),
     (''lan.set_mtu'', (utf8 [0x5C40, 0x57DF, 0x7F51]), ''LAN''),
     (''dns.set'', ''DNS'', ''DNS''),
     (''dns.doh'', ''DNS'', ''DNS''),
     (''sms.delete'', (utf8 [0x77ED, 0x4FE1]), ''SMS''),
     (''sms.db_delete'', (utf8 [0x77ED, 0x4FE1]), ''SMS''),
     (''sms.send_raw'', (utf8 [0x77ED, 0x4FE1]), ''SMS''),
     (''client.kick'', (utf8 [0x5DF2, 0x8FDE, 0x8BBE, 0x5907]), ''Clients''),
     (''client.rename'', (utf8 [0x5DF2, 0x8FDE, 0x8BBE, 0x5907]), ''Clients''),
     (''client.block'', (utf8 [0x5DF2, 0x8FDE, 0x8BBE, 0x5907]), ''Clients''),
     (''client.unblock'', (utf8 [0x5DF2, 0x8FDE, 0x8BBE, 0x5907]), ''Clients''),
     (''traffic.set_limit'', (utf8 [0x6D41, 0x91CF]), ''Data usage''),
     (''traffic.set_clear_day'', (utf8 [0x6D41, 0x91CF]), ''Data usage''),
     (''traffic.calibrate'', (utf8 [0x6D41, 0x91CF]), ''Data usage''),
     (''vendor.call'', (utf8 [0x539F, 0x5382, 0x8BBE, 0x7F6E]), ''Vendor setting''),
     (''esim'', ''eSIM'', ''eSIM''),
     (''chill'', ''CHILL'', ''CHILL'')]"

definition line_name :: "string \<Rightarrow> words" where
  "line_name kw =
     (case map_of name_table kw of
        Some w \<Rightarrow> w
      | None \<Rightarrow>
          if starts_with kw ''esim.'' then (''eSIM'', ''eSIM'')
          else if starts_with kw ''chill'' then (''CHILL'', ''CHILL'')
          else (kw, kw))"

definition onoff :: "json \<Rightarrow> bool option" where
  "onoff v = (case v of
     JBool b \<Rightarrow> Some b
   | JNumber n \<Rightarrow> map_option (\<lambda>i. i \<noteq> 0) (as_i64 (JNumber n))
   | JString s \<Rightarrow>
       (if s \<in> set [''1'', ''true'', ''on'', ''enable''] then Some True
        else if s \<in> set [''0'', ''false'', ''off'', ''disable''] then Some False else None)
   | _ \<Rightarrow> None)"

definition on_words :: "words \<Rightarrow> words \<Rightarrow> json option \<Rightarrow> words option" where
  "on_words w_on w_off v = map_option (\<lambda>b. if b then w_on else w_off) (Option.bind v onoff)"

fun join :: "string \<Rightarrow> string list \<Rightarrow> string" where
  "join sep [] = []"
| "join sep [x] = x"
| "join sep (x # y # xs) = x @ sep @ join sep (y # xs)"

definition attach_words :: "string \<Rightarrow> words option" where
  "attach_words m =
     (if m = ''share'' then Some ((utf8 [0x5145, 0x7535] @ '' + '' @ utf8 [0x4E0A, 0x7F51]), ''charge + internet'')
      else if m = ''fast_charge'' then Some ((utf8 [0x5FEB, 0x901F, 0x5145, 0x7535, 0x5B9D]), ''fast charging'')
      else if m = ''accessory'' then Some ((utf8 [0x7F51, 0x53E3, 0x914D, 0x4EF6]), ''Ethernet adapter'')
      else None)"

definition some_words :: "words list \<Rightarrow> words option" where
  "some_words parts = (if parts = [] then None else Some (join (utf8 [0x3001]) (map fst parts), join '', '' (map snd parts)))"

definition cellular_change :: "json \<Rightarrow> words option" where
  "cellular_change params = some_words (List.map_filter id [
     on_words ((utf8 [0x6253, 0x5F00, 0x6570, 0x636E]), ''data on'') ((utf8 [0x5173, 0x6389, 0x6570, 0x636E]), ''data off'') (jget ''enabled'' params),
     on_words ((utf8 [0x6253, 0x5F00, 0x6F2B, 0x6E38]), ''roaming on'') ((utf8 [0x5173, 0x6389, 0x6F2B, 0x6E38]), ''roaming off'') (jget ''roaming'' params)])"

definition wifi_change :: "json \<Rightarrow> words option" where
  "wifi_change params =
     (case jget ''set'' params of
        Some (JObject m) \<Rightarrow>
          (let ap = List.map_filter (\<lambda>k. Option.bind (map_of m k) onoff)
                 [''wireless.main_2g.disabled'', ''wireless.main_5g.disabled'']
           in if ap \<noteq> [] \<and> length m = length ap
              then Some (if list_all id ap then ((utf8 [0x5173, 0x6389]), ''off'') else ((utf8 [0x6253, 0x5F00]), ''on'')) else None)
      | _ \<Rightarrow> None)"

definition change_of :: "string \<Rightarrow> json \<Rightarrow> words" where
  "change_of act params =
     (case
        (if act = ''cellular.set'' then cellular_change params
         else if act = ''network.set_mode'' then
           map_option (\<lambda>m. let w = value_words network_mode m in ((utf8 [0x6539, 0x6210]) @ fst w, ''to '' @ snd w))
             (Option.bind (jget ''mode'' params) as_str)
         else if act \<in> set [''band.set_lte'', ''band.set_nr_sa'', ''band.set_nr_nsa''] then
           map_option (\<lambda>b. (b, b)) (Option.bind (jget ''bands'' params) as_str)
         else if act \<in> set [''nfc.set'', ''power.direct_supply.set'', ''usb.set'', ''sleep.set'', ''wifi.psm.set'', ''wifi.power_save'']
         then on_words ((utf8 [0x6253, 0x5F00]), ''on'') ((utf8 [0x5173, 0x6389]), ''off'') (jget ''enabled'' params)
         else if act = ''usb.attach_mode'' then Option.bind (Option.bind (jget ''mode'' params) as_str) attach_words
         else if act = ''wifi.apply'' then wifi_change params
         else None)
      of Some w \<Rightarrow> w | None \<Rightarrow> ([], []))"

definition plain_table :: "(string \<times> string \<times> string \<times> string) list" where
  "plain_table = [
     (''ok'', (utf8 [0x5DF2, 0x6539]), ''Done'', ''ok''), (''failed'', (utf8 [0x6CA1, 0x6539, 0x6210]), ''Failed'', ''bad''),
     (''requested'', (utf8 [0x5DF2, 0x53D1, 0x51FA]), ''Sent'', ''ok''), (''queued'', (utf8 [0x6392, 0x961F, 0x4E2D]), ''Queued'', ''warn''),
     (''replaced'', (utf8 [0x88AB, 0x65B0, 0x7684, 0x66FF, 0x6362]), ''Replaced'', ''warn''), (''dropped'', (utf8 [0x6CA1, 0x6267, 0x884C]), ''Dropped'', ''warn''),
     (''opened'', (utf8 [0x5F00, 0x59CB]), ''Started'', ''ok''), (''closed'', (utf8 [0x7ED3, 0x675F]), ''Ended'', ''ok''),
     (''expired'', (utf8 [0x5230, 0x70B9, 0x6536, 0x56DE]), ''Timed out'', ''warn''), (''agent_gone'', (utf8 [0x6CA1, 0x7EED, 0x7EA6, 0x6536, 0x56DE]), ''Lease lost'', ''warn'')]"

definition plain_result :: "string \<Rightarrow> string \<times> string \<times> string" where
  "plain_result result = (case map_of plain_table result of Some w \<Rightarrow> w | None \<Rightarrow> ([], [], ''warn''))"

definition skip_why :: "string \<Rightarrow> words" where
  "skip_why why =
     (if why = ''user_hold'' then ((utf8 [0x4F60, 0x624B, 0x52A8, 0x6539, 0x8FC7]), ''you changed it'')
      else if why = ''busy'' then ((utf8 [0x8BBE, 0x5907, 0x6B63, 0x5FD9]), ''busy'')
      else (why, why))"

section \<open>A transaction's line\<close>

text \<open>\<open>parse_enum\<close>: the snake case names of the derived \<open>Deserialize\<close>.\<close>

definition all_phases :: "phase list" where
  "all_phases = [Accepted, Applying, Verifying, RollingBack, Confirmed, Unverified, RolledBack, NotApplied,
     RollbackFailed, Cancelled]"

definition all_reasons :: "reason list" where
  "all_reasons = [Verified, UserKeep, NoRollback, Timeout, UserRevert, RebootLoop, Ignored, RollbackTimeout,
     Superseded, Preempted, Takeover, SimChanged, ManualChange, NoVerify, ApnNoData, OtherChange]"

definition parse_phase :: "string \<Rightarrow> phase option" where
  "parse_phase s = List.find (\<lambda>p. phase_str p = s) all_phases"

definition parse_reason :: "string \<Rightarrow> reason option" where
  "parse_reason s = List.find (\<lambda>r. reason_str r = s) all_reasons"

record line_view =
  lv_change :: words
  lv_result :: words
  lv_mark :: string
  lv_undo :: json

definition txn_entry :: "json \<Rightarrow> bool \<Rightarrow> line_view" where
  "txn_entry line later =
     (let itm = str_of line ''item'';
          o_w = value_words itm (str_of line ''old''); n_w = value_words itm (str_of line ''new'');
          x = value_words itm (str_of line ''rollback_to'');
          ph = parse_phase (str_of line ''result''); rs = parse_reason (str_of line ''reason'');
          (mark, say) = (case ph of
             Some p \<Rightarrow> final_line p rs x n_w o_w
           | None \<Rightarrow> (''warn'', str_of line ''result'', str_of line ''result''));
          rb = Option.bind (jget ''readback'' line) as_str;
          why = map_option undo_words
            (if later then Some ChangedSince else undo_why ph rs (rb = Some (str_of line ''new'')));
          redo = (case Option.bind (jget ''undo'' line) as_bool of Some b \<Rightarrow> b | None \<Rightarrow> False);
          label = (if redo then ((utf8 [0x91CD, 0x505A]), ''Redo'') else ((utf8 [0x64A4, 0x9500]), ''Undo''));
          act = str_of line ''action'';
          req = map_option (\<lambda>sp. jobj [(''action'', JString act), (''undo'', JBool True),
            (''params'', jobj [(s_param sp, JString (str_of line ''old''))])]) (spec_find act)
      in \<lparr>lv_change = (fst o_w @ (utf8 [0x20, 0x2192, 0x20]) @ fst n_w, snd o_w @ (utf8 [0x20, 0x2192, 0x20]) @ snd n_w), lv_result = say, lv_mark = mark,
          lv_undo = jobj [(''ok'', JBool (why = None \<and> req \<noteq> None)),
            (''label_zh'', JString (fst label)), (''label_en'', JString (snd label)),
            (''why_zh'', jtext (map_option fst why)), (''why_en'', jtext (map_option snd why)),
            (''request'', jopt id req)]\<rparr>)"

section \<open>All lines\<close>

definition is_txn_line :: "json \<Rightarrow> bool" where
  "is_txn_line line \<longleftrightarrow> jget ''op_id'' line \<noteq> None \<and> jget ''new'' line \<noteq> None"

definition key_name :: "json \<Rightarrow> string" where
  "key_name line = (if str_of line ''item'' \<noteq> [] then str_of line ''item'' else str_of line ''action'')"

definition line_words :: "json \<Rightarrow> words" where
  "line_words line = (case source_parse (str_of line ''source'') of Some s \<Rightarrow> source_words s | None \<Rightarrow> ([], []))"

definition skip_view :: "json \<Rightarrow> line_view" where
  "skip_view line =
     (let (src_zh, src_en) = line_words line; why = skip_why (str_of line ''reason'');
          n = nat_digits (unat (case Option.bind (jget ''count'' line) as_u64 of Some n \<Rightarrow> n | None \<Rightarrow> 1))
      in \<lparr>lv_change = ([], []),
          lv_result = (if str_of line ''skip'' = ''end''
             then (src_zh @ (utf8 [0x8DF3, 0x8FC7, 0x20, 0xD7]) @ n @ (utf8 [0xFF08]) @ fst why @ (utf8 [0xFF09]), src_en @ ('' skipped '' @ utf8 [0xD7]) @ n @ '' ('' @ snd why @ '')'')
             else (src_zh @ (utf8 [0x8DF3, 0x8FC7, 0x4E2D, 0xFF08]) @ fst why @ (utf8 [0xFF09]), src_en @ '' skipping ('' @ snd why @ '')'')),
          lv_mark = ''warn'', lv_undo = JNull\<rparr>)"

definition plain_view :: "json \<Rightarrow> line_view" where
  "plain_view line =
     (let result = str_of line ''result''; (zh, en, mark) = plain_result result;
          change = (case jget ''params'' line of Some p \<Rightarrow> change_of (str_of line ''action'') p | None \<Rightarrow> ([], []));
          o_s = str_of line ''old''; n_s = str_of line ''new'';
          change = (if jget ''journal_append'' line \<noteq> None \<and> n_s \<noteq> []
                    then (if o_s = [] then (n_s, n_s) else (o_s @ (utf8 [0x20, 0x2192, 0x20]) @ n_s, o_s @ (utf8 [0x20, 0x2192, 0x20]) @ n_s)) else change)
      in \<lparr>lv_change = change, lv_result = (if zh = [] then (result, result) else (zh, en)), lv_mark = mark, lv_undo = JNull\<rparr>)"

text \<open>
  The state of the loop: the items that changed later, and the ends of skipped stretches whose beginning has
  not been seen yet.
\<close>

record deco =
  dc_changed :: "string list"
  dc_ends :: "(string \<times> string) list"

definition ui_only :: "string list" where
  "ui_only = [''op.ack'', ''op.notice_ack'', ''op.interrupt'']"

definition is_skip_line :: "json \<Rightarrow> bool" where
  "is_skip_line line \<longleftrightarrow> \<not> is_txn_line line \<and> str_of line ''result'' = ''skipped''"

definition line_hidden :: "deco \<Rightarrow> json \<Rightarrow> bool" where
  "line_hidden d line =
     (if is_skip_line line \<and> str_of line ''skip'' \<noteq> ''end''
      then (str_of line ''source'', key_name line) \<in> set (dc_ends d)
      else str_of line ''action'' \<in> set ui_only)"

definition line_view_of :: "deco \<Rightarrow> json \<Rightarrow> line_view" where
  "line_view_of d line =
     (if is_txn_line line then txn_entry line (str_of line ''item'' \<in> set (dc_changed d))
      else if str_of line ''result'' = ''skipped'' then skip_view line
      else plain_view line)"

definition deco_next :: "deco \<Rightarrow> json \<Rightarrow> deco" where
  "deco_next d line =
     (let k = (str_of line ''source'', key_name line); itm = str_of line ''item''
      in \<lparr>dc_changed = (if itm \<noteq> [] \<and> \<not> line_hidden d line \<and> (is_txn_line line \<or> str_of line ''result'' = ''ok'')
                        then List.insert itm (dc_changed d) else dc_changed d),
          dc_ends = (if \<not> is_skip_line line then dc_ends d
                     else if str_of line ''skip'' = ''end'' then List.insert k (dc_ends d)
                     else removeAll k (dc_ends d))\<rparr>)"

definition line_puts :: "deco \<Rightarrow> json \<Rightarrow> (string \<times> json) list" where
  "line_puts d line =
     (let v = line_view_of d line; result = str_of line ''result''; act = str_of line ''action'';
          what = line_name (if act = [] then str_of line ''item'' else act);
          res = (if fst (lv_result v) = [] then (result, result) else lv_result v); src = line_words line
      in [(''what_zh'', JString (fst what)), (''what_en'', JString (snd what)),
          (''change_zh'', JString (fst (lv_change v))), (''change_en'', JString (snd (lv_change v))),
          (''result_zh'', JString (fst res)), (''result_en'', JString (snd res)), (''mark'', JString (lv_mark v)),
          (''source_zh'', JString (fst src)), (''source_en'', JString (snd src)),
          (''hide'', JBool (line_hidden d line)), (''undo_view'', lv_undo v)])"

fun decorate_from :: "deco \<Rightarrow> json list \<Rightarrow> json list option" where
  "decorate_from d [] = Some []"
| "decorate_from d (line # rest) =
     (case line of
        JObject m \<Rightarrow>
          map_option ((#) (JObject (fold (\<lambda>(k, v) m. map_insert k v m) (line_puts d line) m)))
            (decorate_from (deco_next d line) rest)
      | _ \<Rightarrow> None)"

definition decorate :: "json list \<Rightarrow> json list option" where
  "decorate entries = decorate_from \<lparr>dc_changed = [], dc_ends = []\<rparr> entries"

section \<open>What decorating does\<close>

lemma line_puts_keys:
  "map fst (line_puts d line) = [''what_zh'', ''what_en'', ''change_zh'', ''change_en'', ''result_zh'', ''result_en'',
     ''mark'', ''source_zh'', ''source_en'', ''hide'', ''undo_view'']"
  by (simp add: line_puts_def Let_def)

definition display_keys :: "string list" where
  "display_keys = [''what_zh'', ''what_en'', ''change_zh'', ''change_en'', ''result_zh'', ''result_en'',
     ''mark'', ''source_zh'', ''source_en'', ''hide'', ''undo_view'']"

lemma map_of_fold_insert:
  "map_of (fold (\<lambda>(k, v) m. map_insert k v m) kvs m) = map_of m ++ map_of (rev kvs)"
  by (induction kvs arbitrary: m) (auto simp: fun_eq_iff map_add_def split: option.split)

text \<open>The state of the loop when it reaches line \<open>i\<close>.\<close>

definition deco_at :: "deco \<Rightarrow> json list \<Rightarrow> nat \<Rightarrow> deco" where
  "deco_at d es i = fold (\<lambda>line d. deco_next d line) (take i es) d"

lemma decorate_from_nth:
  assumes "decorate_from d es = Some out"
  shows "length out = length es \<and> (\<forall>i < length es. \<exists>m. es ! i = JObject m \<and>
    out ! i = JObject (fold (\<lambda>(k, v) m. map_insert k v m) (line_puts (deco_at d es i) (es ! i)) m))"
  using assms
proof (induction d es arbitrary: out rule: decorate_from.induct)
  case (2 d line rest)
  then obtain m out' where line: "line = JObject m" and rest: "decorate_from (deco_next d line) rest = Some out'"
    and out: "out = JObject (fold (\<lambda>(k, v) m. map_insert k v m) (line_puts d line) m) # out'"
    by (auto split: json.splits)
  note IH = "2.IH" [OF line rest]
  show ?case
  proof (intro conjI allI impI)
    show "length out = length (line # rest)" using IH out by simp
    fix i assume "i < length (line # rest)"
    then show "\<exists>m. (line # rest) ! i = JObject m \<and>
      out ! i = JObject (fold (\<lambda>(k, v) m. map_insert k v m) (line_puts (deco_at d (line # rest) i) ((line # rest) ! i)) m)"
      using IH out line by (cases i) (simp_all add: deco_at_def)
  qed
qed simp

lemma deco_changed_mono:
  "x \<in> set (dc_changed d) \<Longrightarrow> x \<in> set (dc_changed (fold (\<lambda>line d. deco_next d line) es d))"
  by (induction es arbitrary: d) (auto simp: deco_next_def Let_def)

lemma deco_at_later:
  assumes "i < j" "j \<le> length es" "str_of (es ! i) ''item'' = itm" "itm \<noteq> []"
    "is_txn_line (es ! i) \<or> str_of (es ! i) ''result'' = ''ok''" "\<not> line_hidden (deco_at d es i) (es ! i)"
  shows "itm \<in> set (dc_changed (deco_at d es j))"
proof -
  have t: "take j es = take i es @ es ! i # take (j - Suc i) (drop (Suc i) es)"
    using assms(1,2) by (metis append_take_drop_id Cons_nth_drop_Suc Suc_leI add_diff_inverse_nat less_le_trans
        linorder_not_le take_Suc_Cons take_add take_drop drop_Suc_Cons le_add_diff_inverse less_imp_le_nat
        Suc_diff_Suc)
  have "itm \<in> set (dc_changed (deco_next (deco_at d es i) (es ! i)))"
    using assms by (simp add: deco_next_def Let_def)
  then show ?thesis
    unfolding deco_at_def t by (simp add: deco_changed_mono deco_at_def)
qed

lemma decorated_field:
  assumes "decorate es = Some out" "i < length es"
  shows "jget k (out ! i) =
    (case map_of (line_puts (deco_at \<lparr>dc_changed = [], dc_ends = []\<rparr> es i) (es ! i)) k of
       Some v \<Rightarrow> Some v | None \<Rightarrow> jget k (es ! i))"
proof -
  let ?d = "deco_at \<lparr>dc_changed = [], dc_ends = []\<rparr> es i"
  have dist: "map_of (rev (line_puts d line)) = map_of (line_puts d line)" for d line
    by (rule map_of_inject_set [THEN iffD2]) (simp_all add: line_puts_keys flip: rev_map)
  obtain m where "es ! i = JObject m"
    "out ! i = JObject (fold (\<lambda>(k, v) m. map_insert k v m) (line_puts ?d (es ! i)) m)"
    using decorate_from_nth [OF assms(1) [unfolded decorate_def]] assms(2) by blast
  then show ?thesis
    by (simp add: jget_def map_of_fold_insert map_add_def dist split: option.split)
qed

lemma txn_entry_later: "jget ''ok'' (lv_undo (txn_entry line True)) = Some (JBool False)"
  by (simp add: txn_entry_def Let_def jget_jobj map_of_map_from split: prod.split)

lemma txn_entry_ok:
  assumes "jget ''ok'' (lv_undo (txn_entry line later)) = Some (JBool True)"
  shows "\<exists>sp. spec_find (str_of line ''action'') = Some sp \<and>
    jget ''request'' (lv_undo (txn_entry line later)) = Some (jobj [(''action'', JString (str_of line ''action'')),
      (''undo'', JBool True), (''params'', jobj [(s_param sp, JString (str_of line ''old''))])])"
  using assms
  by (auto simp: txn_entry_def Let_def jget_jobj map_of_map_from jopt_def split: prod.splits option.splits)

text \<open>
  Decorating the journal answers every line in its order, keeps every field of it but the display
  fields, and offers an undo only where one makes sense: when a shown line changed an item, or a transaction on
  it is among them, no older transaction on that item can be undone any more; and where an undo is offered, the
  request of the button is a described action with the value from before as its parameter.
\<close>
theorem undo_only_the_latest:
  assumes "decorate es = Some out"
  shows "length out = length es \<and>
    (\<forall>i k. i < length es \<and> k \<notin> set display_keys \<longrightarrow> jget k (out ! i) = jget k (es ! i)) \<and>
    (\<forall>i j. i < j \<and> j < length es \<and> is_txn_line (es ! j) \<and>
       (is_txn_line (es ! i) \<or> str_of (es ! i) ''result'' = ''ok'') \<and> jget ''hide'' (out ! i) = Some (JBool False) \<and>
       str_of (es ! i) ''item'' \<noteq> [] \<and> str_of (es ! i) ''item'' = str_of (es ! j) ''item'' \<longrightarrow>
       Option.bind (jget ''undo_view'' (out ! j)) (jget ''ok'') = Some (JBool False)) \<and>
    (\<forall>i. i < length es \<and> Option.bind (jget ''undo_view'' (out ! i)) (jget ''ok'') = Some (JBool True) \<longrightarrow>
       is_txn_line (es ! i) \<and> (\<exists>sp. spec_find (str_of (es ! i) ''action'') = Some sp \<and>
         Option.bind (jget ''undo_view'' (out ! i)) (jget ''request'') =
           Some (jobj [(''action'', JString (str_of (es ! i) ''action'')), (''undo'', JBool True),
             (''params'', jobj [(s_param sp, JString (str_of (es ! i) ''old''))])])))"
proof (intro conjI allI impI)
  note field = decorated_field [OF assms]
  let ?d = "deco_at \<lparr>dc_changed = [], dc_ends = []\<rparr> es"
  have undo: "jget ''undo_view'' (out ! i) = Some (lv_undo (line_view_of (?d i) (es ! i)))" if "i < length es" for i
    using field [OF that] by (simp add: line_puts_def Let_def)
  have hide: "jget ''hide'' (out ! i) = Some (JBool (line_hidden (?d i) (es ! i)))" if "i < length es" for i
    using field [OF that] by (simp add: line_puts_def Let_def)
  show "length out = length es"
    using decorate_from_nth [OF assms [unfolded decorate_def]] by blast
  show "jget k (out ! i) = jget k (es ! i)" if "i < length es \<and> k \<notin> set display_keys" for i k
  proof -
    have "map_of (line_puts (?d i) (es ! i)) k = None"
      using that by (simp add: map_of_eq_None_iff flip: set_map) (simp add: line_puts_keys display_keys_def)
    then show ?thesis using field that by simp
  qed
  show "Option.bind (jget ''undo_view'' (out ! j)) (jget ''ok'') = Some (JBool False)"
    if a: "i < j \<and> j < length es \<and> is_txn_line (es ! j) \<and>
      (is_txn_line (es ! i) \<or> str_of (es ! i) ''result'' = ''ok'') \<and> jget ''hide'' (out ! i) = Some (JBool False) \<and>
      str_of (es ! i) ''item'' \<noteq> [] \<and> str_of (es ! i) ''item'' = str_of (es ! j) ''item''" for i j
  proof -
    have h: "\<not> line_hidden (?d i) (es ! i)" using hide [of i] a by simp
    have "str_of (es ! j) ''item'' \<in> set (dc_changed (?d j))"
      by (rule deco_at_later [of i j]) (use a h in auto)
    then show ?thesis using a undo [of j] by (simp add: line_view_of_def txn_entry_later)
  qed
  fix i assume a: "i < length es \<and> Option.bind (jget ''undo_view'' (out ! i)) (jget ''ok'') = Some (JBool True)"
  then have ok: "jget ''ok'' (lv_undo (line_view_of (?d i) (es ! i))) = Some (JBool True)" using undo [of i] by simp
  then show t: "is_txn_line (es ! i)"
    by (auto simp: line_view_of_def skip_view_def plain_view_def jget_def Let_def split: prod.splits if_splits)
  show "\<exists>sp. spec_find (str_of (es ! i) ''action'') = Some sp \<and>
    Option.bind (jget ''undo_view'' (out ! i)) (jget ''request'') =
      Some (jobj [(''action'', JString (str_of (es ! i) ''action'')), (''undo'', JBool True),
        (''params'', jobj [(s_param sp, JString (str_of (es ! i) ''old''))])])"
    using txn_entry_ok [OF ok [unfolded line_view_of_def if_P [OF t]]] a undo [of i] t
    by (simp add: line_view_of_def)
qed

definition sample_lines :: "json list" where
  "sample_lines = map (\<lambda>v. jobj [(''op_id'', JString ''a''), (''item'', JString ''network.mode''), (''action'', JString ''network.set_mode''),
     (''source'', JString ''screen''), (''old'', JString ''LTE''), (''new'', JString v), (''readback'', JString v),
     (''result'', JString ''confirmed''), (''reason'', JString ''verified'')]) [''WL_AND_5G'', ''LTE'']"

theorem undo_only_the_latest_witness:
  "Option.bind (jget ''undo_view'' (the (decorate sample_lines) ! 1)) (jget ''ok'') = Some (JBool False) \<and>
   jget ''new'' (the (decorate sample_lines) ! 1) = Some (JString ''LTE'')"
proof -
  obtain out where out: "decorate sample_lines = Some out"
    by (simp add: decorate_def sample_lines_def jobj_def map_from_def)
  note u = undo_only_the_latest [OF out]
  have len: "length sample_lines = 2" by (simp add: sample_lines_def)
  have strs: "str_of (sample_lines ! 0) ''item'' = ''network.mode'' \<and> str_of (sample_lines ! 1) ''item'' = ''network.mode'' \<and>
      is_txn_line (sample_lines ! 0) \<and> is_txn_line (sample_lines ! 1) \<and> str_of (sample_lines ! 0) ''action'' = ''network.set_mode''"
    by (simp add: sample_lines_def str_of_def is_txn_line_def jget_jobj map_of_map_from as_str_def)
  have h: "jget ''hide'' (out ! 0) = Some (JBool False)"
    using decorated_field [OF out, of 0 "''hide''"] len strs
    by (simp add: line_puts_def Let_def deco_at_def line_hidden_def is_skip_line_def ui_only_def)
  have one: "Option.bind (jget ''undo_view'' (out ! 1)) (jget ''ok'') = Some (JBool False)"
    by (rule mp [OF spec [OF spec [OF conjunct1 [OF conjunct2 [OF conjunct2 [OF u]]], of 0], of 1]])
      (use len strs h in simp)
  have "jget ''new'' (out ! 1) = jget ''new'' (sample_lines ! 1)"
    using u len by (simp add: display_keys_def)
  then show ?thesis
    using one out by (simp add: sample_lines_def jget_jobj map_of_map_from)
qed

end
