(* ===== verification/Probe.thy ===== *)
theory Probe
  imports Txn Blob
begin

unbundle bit_operations_syntax

text \<open>
  The DNS probe that confirms a change (\<^verbatim>\<open>rust/src/ops/probe.rs\<close>): an A or AAAA query over a socket
  bound to the cellular interface. The parsing of addresses is the standard library's; an address is
  its octets or groups. What the system calls give, and which packets arrive in time, is the
  argument \<open>io\<close>. Error texts are values of a datatype.
\<close>

section \<open>Addresses\<close>

datatype ip = V4 "u8 list" | V6 "u16 list"

definition is_ipv6 :: "ip \<Rightarrow> bool" where
  "is_ipv6 a = (case a of V4 _ \<Rightarrow> False | V6 _ \<Rightarrow> True)"

definition hex_val :: "char \<Rightarrow> nat option" where
  "hex_val c = (let n = of_char c :: nat in
     if 48 \<le> n \<and> n \<le> 57 then Some (n - 48)
     else if 97 \<le> n \<and> n \<le> 102 then Some (n - 87)
     else if 65 \<le> n \<and> n \<le> 70 then Some (n - 55) else None)"

definition radix_val :: "nat \<Rightarrow> char \<Rightarrow> nat option" where
  "radix_val r c = (case hex_val c of Some d \<Rightarrow> if d < r then Some d else None | None \<Rightarrow> None)"

text \<open>
  \<open>Parser::read_number\<close> of the standard library: at least one and at most \<open>k\<close> digits (one more is an
  error), no leading zero unless allowed, and below the bound of the type.
\<close>

definition read_number :: "nat \<Rightarrow> nat \<Rightarrow> bool \<Rightarrow> nat \<Rightarrow> string \<Rightarrow> (nat \<times> string) option" where
  "read_number r k zero_prefix bound s =
     (let ds = takeWhile (\<lambda>c. radix_val r c \<noteq> None) s;
          v = foldl (\<lambda>n c. n * r + (case radix_val r c of Some d \<Rightarrow> d | None \<Rightarrow> 0)) 0 ds
      in if ds = [] \<or> k < length ds \<or> bound \<le> v then None
         else if \<not> zero_prefix \<and> hd ds = CHR ''0'' \<and> 1 < length ds then None
         else Some (v, drop (length ds) s))"

definition read_char :: "char \<Rightarrow> string \<Rightarrow> string option" where
  "read_char c s = (case s of x # xs \<Rightarrow> if x = c then Some xs else None | [] \<Rightarrow> None)"

fun read_octets :: "nat \<Rightarrow> bool \<Rightarrow> string \<Rightarrow> (u8 list \<times> string) option" where
  "read_octets 0 first s = Some ([], s)"
| "read_octets (Suc n) first s =
     (case (if first then Some s else read_char (CHR ''.'') s) of
        None \<Rightarrow> None
      | Some s \<Rightarrow>
          (case read_number 10 3 False 256 s of
             None \<Rightarrow> None
           | Some (v, s) \<Rightarrow> map_option (\<lambda>(vs, r). (of_nat v # vs, r)) (read_octets n False s)))"

definition read_ipv4 :: "string \<Rightarrow> (u8 list \<times> string) option" where
  "read_ipv4 s = read_octets 4 True s"

text \<open>
  \<open>read_groups\<close>: up to \<open>limit\<close> groups of four hexadecimal digits; an IPv4 address may stand in the place
  of two of them, and ends the list. The flag says whether it did.
\<close>

definition v4_groups :: "u8 list \<Rightarrow> u16 list" where
  "v4_groups o4 = [ucast (o4 ! 0) * 256 + ucast (o4 ! 1), ucast (o4 ! 2) * 256 + ucast (o4 ! 3)]"

fun read_groups :: "nat \<Rightarrow> bool \<Rightarrow> string \<Rightarrow> u16 list \<times> bool \<times> string" where
  "read_groups 0 first s = ([], False, s)"
| "read_groups (Suc n) first s =
     (case (if first then Some s else read_char (CHR '':'') s) of
        None \<Rightarrow> ([], False, s)
      | Some s' \<Rightarrow>
          (case (if 1 \<le> n then read_ipv4 s' else None) of
             Some (o4, r) \<Rightarrow> (v4_groups o4, True, r)
           | None \<Rightarrow>
               (case read_number 16 4 True 65536 s' of
                  None \<Rightarrow> ([], False, s)
                | Some (v, r) \<Rightarrow>
                    (let (gs, v4, r') = read_groups n False r in (of_nat v # gs, v4, r')))))"

definition read_ipv6 :: "string \<Rightarrow> (u16 list \<times> string) option" where
  "read_ipv6 s =
     (let (head, head_v4, s1) = read_groups 8 True s
      in if length head = 8 then Some (head, s1)
         else if head_v4 then None
         else case Option.bind (read_char (CHR '':'') s1) (read_char (CHR '':'')) of
           None \<Rightarrow> None
         | Some s2 \<Rightarrow>
             (let (tail, _, s3) = read_groups (7 - length head) True s2
              in Some (head @ replicate (8 - length head - length tail) 0 @ tail, s3)))"

definition parse_ip :: "string \<Rightarrow> ip option" where
  "parse_ip s =
     (case read_ipv4 s of
        Some (o4, []) \<Rightarrow> Some (V4 o4)
      | Some _ \<Rightarrow> None
      | None \<Rightarrow> (case read_ipv6 s of Some (g, []) \<Rightarrow> Some (V6 g) | _ \<Rightarrow> None))"

section \<open>One query\<close>

definition probe_name :: string where "probe_name = ''www.qq.com''"
definition qtype_a :: u16 where "qtype_a = 1"
definition qtype_aaaa :: u16 where "qtype_aaaa = 28"
definition ifnamsiz :: nat where "ifnamsiz = 16"

definition packet :: "u16 \<Rightarrow> string \<Rightarrow> u16 \<Rightarrow> u8 list" where
  "packet qid name qtype =
     to_be 2 (unat qid) @ [1, 0, 0, 1, 0, 0, 0, 0, 0, 0]
     @ concat (map (\<lambda>label. of_nat (length label) # str_bytes label) (split_char (CHR ''.'') name))
     @ [0] @ to_be 2 (unat qtype) @ [0, 1]"

text \<open>
  What the system gives one query: the results of the calls on the socket, the random id, and the
  packets that arrive before the timeout, in order (or an error of \<open>recv_from\<close>).
\<close>

record sock =
  so_open :: "string + unit"
  so_device :: "string + unit"
  so_ready :: "string + unit"
  so_id :: u16
  so_send :: "string + unit"
  so_recv :: "(string + (ip \<times> nat) \<times> u8 list) list"

text \<open>A query that was handed to a socket, with the interface the socket is bound to.\<close>

record sent_query =
  sq_iface :: string
  sq_to :: "ip \<times> nat"
  sq_bytes :: "u8 list"

definition bind_device :: "sock \<Rightarrow> string \<Rightarrow> string + unit" where
  "bind_device io iface =
     (if iface = [] \<or> ifnamsiz \<le> length iface \<or> CHR 0x00 \<in> set iface then Err ''bad interface name''
      else so_device io)"

definition is_answer :: "u16 \<Rightarrow> ip \<times> nat \<Rightarrow> ip \<times> nat \<Rightarrow> u8 list \<Rightarrow> bool" where
  "is_answer qid srv sender bytes =
     (let buf = take 512 bytes
      in sender = srv \<and> 12 \<le> length buf \<and> take 2 buf = to_be 2 (unat qid) \<and> (buf ! 2) AND 0x80 \<noteq> 0)"

fun wait_answer :: "u16 \<Rightarrow> ip \<times> nat \<Rightarrow> (string + (ip \<times> nat) \<times> u8 list) list \<Rightarrow> string + unit" where
  "wait_answer qid srv [] = Err ''no answer''"
| "wait_answer qid srv (Err e # rs) = Err e"
| "wait_answer qid srv (Ok (sender, bytes) # rs) =
     (if is_answer qid srv sender bytes then Ok () else wait_answer qid srv rs)"

definition query :: "sock \<Rightarrow> string \<Rightarrow> ip \<times> nat \<Rightarrow> (string + unit) \<times> sent_query list" where
  "query io iface srv =
     (let qtype = (if is_ipv6 (fst srv) then qtype_aaaa else qtype_a);
          q = packet (so_id io) probe_name qtype
      in case so_open io of
           Err e \<Rightarrow> (Err e, [])
         | Ok _ \<Rightarrow>
             (case bind_device io iface of
                Err e \<Rightarrow> (Err e, [])
              | Ok _ \<Rightarrow>
                  (case so_ready io of
                     Err e \<Rightarrow> (Err e, [])
                   | Ok _ \<Rightarrow>
                       (let sent = [\<lparr>sq_iface = iface, sq_to = srv, sq_bytes = q\<rparr>]
                        in case so_send io of
                             Err e \<Rightarrow> (Err e, sent)
                           | Ok _ \<Rightarrow> (wait_answer (so_id io) srv (so_recv io), sent)))))"

section \<open>The probe\<close>

datatype probe_error = NoInterface | NoServer bool | QueryFailed "ip \<times> nat" string

definition probe_servers :: "probe_target \<Rightarrow> (ip \<times> nat) list" where
  "probe_servers t = map (\<lambda>a. (a, 53))
     (take 2 (filter (\<lambda>a. is_ipv6 a = pt_v6 t) (List.map_filter (parse_ip \<circ> trim) (pt_dns t))))"

fun ask :: "(nat \<Rightarrow> sock) \<Rightarrow> nat \<Rightarrow> string \<Rightarrow> probe_error \<Rightarrow> (ip \<times> nat) list
    \<Rightarrow> (probe_error + unit) \<times> sent_query list" where
  "ask io n iface err [] = (Err err, [])"
| "ask io n iface err (a # as) =
     (case query (io n) iface a of
        (Ok _, sent) \<Rightarrow> (Ok (), sent)
      | (Err e, sent) \<Rightarrow> (let (r, more_sent) = ask io (Suc n) iface (QueryFailed a e) as in (r, sent @ more_sent)))"

definition dns_probe :: "(nat \<Rightarrow> sock) \<Rightarrow> probe_target \<Rightarrow> (probe_error + unit) \<times> sent_query list" where
  "dns_probe io t =
     (if pt_iface t = [] then (Err NoInterface, [])
      else
        let servers = probe_servers t
        in if servers = [] then (Err (NoServer (pt_v6 t)), [])
           else ask io 0 (pt_iface t) (NoServer (pt_v6 t)) servers)"

section \<open>What a probe does\<close>

lemma length_probe_servers: "length (probe_servers t) \<le> 2"
  by (simp add: probe_servers_def)

lemma probe_servers_family: "(a, p) \<in> set (probe_servers t) \<Longrightarrow> is_ipv6 a = pt_v6 t \<and> p = 53"
  by (auto simp: probe_servers_def dest!: in_set_takeD)

lemma query_sent:
  "query io iface a = (r, sent) \<Longrightarrow>
   sent = [] \<or> (iface \<noteq> [] \<and> length iface < ifnamsiz \<and>
      sent = [\<lparr>sq_iface = iface, sq_to = a,
         sq_bytes = packet (so_id io) probe_name (if is_ipv6 (fst a) then qtype_aaaa else qtype_a)\<rparr>])"
  by (auto simp: query_def bind_device_def Let_def split: sum.splits if_splits)

lemma wait_answer_Ok:
  "wait_answer qid a rs = Ok () \<Longrightarrow> \<exists>sender bytes. Ok (sender, bytes) \<in> set rs \<and> is_answer qid a sender bytes"
  by (induction qid a rs rule: wait_answer.induct) (auto split: if_splits)

lemma query_Ok:
  "fst (query io iface a) = Ok () \<Longrightarrow>
   \<exists>bytes. Ok (a, bytes) \<in> set (so_recv io) \<and> is_answer (so_id io) a a bytes"
  by (auto simp: query_def Let_def is_answer_def dest!: wait_answer_Ok split: sum.splits)

lemma ask_sent:
  assumes "ask io n iface err as = (r, sent)"
  shows "length sent \<le> length as \<and>
    (\<forall>q \<in> set sent. sq_iface q = iface \<and> iface \<noteq> [] \<and> length iface < ifnamsiz \<and> sq_to q \<in> set as \<and>
       (\<exists>k. sq_bytes q = packet k probe_name (if is_ipv6 (fst (sq_to q)) then qtype_aaaa else qtype_a)))"
  using assms
proof (induction io n iface err as arbitrary: r sent rule: ask.induct)
  case (2 io n iface err a as)
  obtain r1 s1 where q: "query (io n) iface a = (r1, s1)" by fastforce
  show ?case
  proof (cases r1)
    case (Inr u)
    then show ?thesis using 2 q query_sent [OF q] by auto
  next
    case (Inl e)
    obtain r2 s2 where rest: "ask io (Suc n) iface (QueryFailed a e) as = (r2, s2)" by fastforce
    have "sent = s1 @ s2" using 2 q rest Inl by simp
    moreover note "2.IH" [OF q [symmetric] _ rest] query_sent [OF q]
    ultimately show ?thesis using Inl by fastforce
  qed
qed simp

lemma ask_Ok:
  assumes "ask io n iface err as = (Ok (), sent)"
  shows "\<exists>k. k < length as \<and> fst (query (io (n + k)) iface (as ! k)) = Ok ()"
  using assms
proof (induction io n iface err as arbitrary: sent rule: ask.induct)
  case (2 io n iface err a as)
  obtain r1 s1 where q: "query (io n) iface a = (r1, s1)" by fastforce
  show ?case
  proof (cases r1)
    case (Inr u)
    then show ?thesis using q by (intro exI [of _ 0]) simp
  next
    case (Inl e)
    obtain r2 s2 where rest: "ask io (Suc n) iface (QueryFailed a e) as = (r2, s2)" by fastforce
    have r2: "r2 = Ok ()" using 2 q rest Inl by simp
    obtain k where "k < length as" "fst (query (io (Suc n + k)) iface (as ! k)) = Ok ()"
      using "2.IH" [OF q [symmetric] Inl] rest r2 by blast
    then show ?thesis by (intro exI [of _ "Suc k"]) simp
  qed
qed simp


definition sample_target :: probe_target where
  "sample_target = \<lparr>pt_iface = ''rmnet_data0'', pt_dns = ['' 8.8.4.4''], pt_v6 = False\<rparr>"

definition sample_server :: "ip \<times> nat" where
  "sample_server = (V4 [8, 8, 4, 4], 53)"

definition sample_sock :: sock where
  "sample_sock = \<lparr>so_open = Ok (), so_device = Ok (), so_ready = Ok (), so_id = 0x1234, so_send = Ok (),
     so_recv = [Ok (sample_server, [0x12, 0x34, 0x81, 0x83, 0, 1, 0, 0, 0, 0, 0, 0])]\<rparr>"

lemmas ip_defs = parse_ip_def read_ipv4_def read_ipv6_def read_number_def read_char_def radix_val_def hex_val_def
  trim_def ws_char_def

lemma sample_parse: "parse_ip ''8.8.4.4'' = Some (V4 [8, 8, 4, 4])"
  by (simp add: ip_defs numeral_nat)

lemma sample_trim: "trim '' 8.8.4.4'' = ''8.8.4.4''"
  by (simp add: trim_def ws_char_def)

lemma sample_servers: "probe_servers sample_target = [sample_server]"
  by (simp add: probe_servers_def sample_target_def sample_server_def sample_parse sample_trim
      is_ipv6_def List.map_filter_def)

lemma sample_id: "to_be 2 (unat (0x1234 :: u16)) = [0x12, 0x34]"
proof -
  have "unat (0x1234 :: u16) = 4660" by simp
  moreover have "to_be (Suc (Suc 0)) 4660 = [0x12, 0x34]" by simp
  ultimately show ?thesis by (simp only: numeral_2_eq_2)
qed

lemma sample_answer: "is_answer 0x1234 sample_server sample_server [0x12, 0x34, 0x81, 0x83, 0, 1, 0, 0, 0, 0, 0, 0]"
proof -
  have "(0x81 :: u8) AND 0x80 \<noteq> 0" by simp
  then show ?thesis unfolding is_answer_def Let_def sample_id by simp
qed

lemma sample_sock_fields: "so_open sample_sock = Ok ()" "bind_device sample_sock ''rmnet_data0'' = Ok ()"
  "so_ready sample_sock = Ok ()" "so_send sample_sock = Ok ()" "so_id sample_sock = 0x1234"
  "so_recv sample_sock = [Ok (sample_server, [0x12, 0x34, 0x81, 0x83, 0, 1, 0, 0, 0, 0, 0, 0])]"
  by (simp_all add: sample_sock_def bind_device_def ifnamsiz_def)

lemma sample_probe: "\<exists>q. dns_probe (\<lambda>_. sample_sock) sample_target = (Ok (), [q])"
proof -
  have "pt_iface sample_target = ''rmnet_data0''" by (simp add: sample_target_def)
  moreover have "\<exists>q. query sample_sock ''rmnet_data0'' sample_server = (Ok (), [q])"
    by (simp add: query_def sample_sock_fields sample_answer Let_def)
  ultimately show ?thesis by (auto simp: dns_probe_def sample_servers)
qed


end
