(* ===== verification/Ubus_Device.thy ===== *)
theory Ubus_Device
  imports Control Probe
begin

text \<open>
  How the engine reads and writes the device (\<^verbatim>\<open>rust/src/ops/mod.rs\<close>): the reading of the network mode,
  the SIM and the data path, and the write of the mode. The calls are events of the device's log (theory
  \<open>Device\<close>). The clock (\<open>/proc/uptime\<close>) is the argument \<open>now\<close>; the text of a JSON number is that of
  \<open>serde_json\<close>.
\<close>

section \<open>Words of the modem\<close>

definition dev_text :: "env \<Rightarrow> json \<Rightarrow> string \<Rightarrow> string" where
  "dev_text E v key = (case jget key v of
     Some (JString s) \<Rightarrow> s
   | Some (JNumber n) \<Rightarrow> e_json_text E (JNumber n)
   | _ \<Rightarrow> [])"

definition registered_word :: "string \<Rightarrow> bool" where
  "registered_word network_type =
     (let u = to_ascii_uppercase (trim network_type)
      in u \<noteq> [] \<and> \<not> list_ex (str_contains u)
           [''LIMIT'', ''EMERGENCY'', ''NO_SERVICE'', ''NOSERVICE'', ''NO SERVICE''])"

definition dev_roaming :: "env \<Rightarrow> json \<Rightarrow> bool option" where
  "dev_roaming E net =
     (let r = dev_text E net ''simcard_roam''
      in if r = [] then None else Some (r \<noteq> ''Home'' \<and> r \<noteq> ''home'' \<and> r \<noteq> ''0''))"

definition connected_word :: "string \<Rightarrow> bool" where
  "connected_word status \<longleftrightarrow> ends_with status ''connected'' \<and> \<not> str_contains status ''disconnect''"

definition dev_flag :: "env \<Rightarrow> json \<Rightarrow> string \<Rightarrow> bool option" where
  "dev_flag E v key =
     (case Option.bind (jget key v) as_bool of
        Some b \<Rightarrow> Some b
      | None \<Rightarrow>
          (let s = dev_text E v key
           in if s = ''1'' \<or> s = ''true'' then Some True
              else if s = ''0'' \<or> s = ''false'' then Some False else None))"

definition data_switch :: "env \<Rightarrow> json \<Rightarrow> bool option" where
  "data_switch E wwan =
     (case dev_flag E wwan ''enable'' of
        None \<Rightarrow> None
      | Some True \<Rightarrow> Some True
      | Some False \<Rightarrow>
          (let status = dev_text E wwan ''connect_status''
           in if status = [] then None else Some (connected_word status \<or> status = ''connecting'')))"

definition dev_strings :: "json \<Rightarrow> string \<Rightarrow> string list" where
  "dev_strings v key = (case Option.bind (jget key v) as_array of
     Some a \<Rightarrow> List.map_filter as_str a | None \<Rightarrow> [])"

definition first_address :: "env \<Rightarrow> json \<Rightarrow> string \<Rightarrow> string" where
  "first_address E v key = (case Option.bind (jget key v) as_array of
     Some (a # _) \<Rightarrow> dev_text E a ''address'' | _ \<Rightarrow> [])"

section \<open>The data path\<close>

definition data_expected :: "env \<Rightarrow> json \<Rightarrow> json \<Rightarrow> bool option" where
  "data_expected E net wwan =
     (case (data_switch E wwan, dev_flag E wwan ''roam_enable'', dev_roaming E net) of
        (Some False, _, _) \<Rightarrow> Some False
      | (Some True, _, Some False) \<Rightarrow> Some True
      | (Some True, Some roam_on, Some True) \<Rightarrow> Some roam_on
      | _ \<Rightarrow> None)"

text \<open>\<open>secs * 1000\<close> wraps, as the release build does.\<close>

definition up_since :: "json \<Rightarrow> u64 \<Rightarrow> u64 option" where
  "up_since v now = map_option (\<lambda>secs. sat_sub now (secs * 1000)) (Option.bind (jget ''uptime'' v) as_u64)"

text \<open>\<open>split(|c| c == '\'' || c.is_whitespace())\<close>, then the empty pieces are dropped.\<close>

fun split_on :: "(char \<Rightarrow> bool) \<Rightarrow> string \<Rightarrow> string list" where
  "split_on p [] = [[]]"
| "split_on p (x # xs) =
     (if p x then [] # split_on p xs
      else case split_on p xs of [] \<Rightarrow> [[x]] | w # ws \<Rightarrow> (x # w) # ws)"

definition uci_dns_list :: "string option \<Rightarrow> string list" where
  "uci_dns_list v = filter (\<lambda>s. s \<noteq> [])
     (split_on (\<lambda>c. c = CHR 0x27 \<or> ws_char c) (case v of Some s \<Rightarrow> s | None \<Rightarrow> []))"

definition data_path_v6 :: "env \<Rightarrow> json \<Rightarrow> json \<Rightarrow> json \<Rightarrow> string \<Rightarrow> u64 \<Rightarrow> data_path" where
  "data_path_v6 E net wwan wan6 ipv6_addr now =
     (let iface = dev_text E wwan ''ipv6_dev_name'';
          iface = (if iface = [] then dev_text E wan6 ''l3_device'' else iface);
          dns = dev_strings wan6 ''dns-server'';
          dns = (if dns = [] then filter (\<lambda>s. s \<noteq> []) (map (dev_text E wwan) [''ipv6_dns_prefer'', ''ipv6_dns_standby''])
                 else dns)
      in \<lparr>d_expected = data_expected E net wwan, d_connected = connected_word (dev_text E wwan ''connect_status''),
          d_conn = \<lparr>ipv4 = [], ipv6 = ipv6_addr, up_since_ms = up_since wan6 now\<rparr>,
          d_iface = iface, d_dns = dns\<rparr>)"

definition data_path_v4 :: "env \<Rightarrow> json \<Rightarrow> json \<Rightarrow> json \<Rightarrow> string option \<Rightarrow> u64 \<Rightarrow> data_path" where
  "data_path_v4 E net wwan wan uci_dns now =
     (let iface = dev_text E wwan ''ipv4_dev_name'';
          iface = (if iface = [] then dev_text E wan ''l3_device'' else iface);
          dns = dev_strings wan ''dns-server'';
          dns = (if dns = [] then uci_dns_list uci_dns else dns)
      in \<lparr>d_expected = data_expected E net wwan, d_connected = connected_word (dev_text E wwan ''connect_status''),
          d_conn = \<lparr>ipv4 = first_address E wan ''ipv4-address'', ipv6 = [], up_since_ms = up_since wan now\<rparr>,
          d_iface = iface, d_dns = dns\<rparr>)"

definition data_path_of :: "env \<Rightarrow> json \<Rightarrow> json \<Rightarrow> json \<Rightarrow> json option \<Rightarrow> string option \<Rightarrow> u64 \<Rightarrow> data_path" where
  "data_path_of E net wwan wan wan6 uci_dns now =
     (case wan6 of
        Some w6 \<Rightarrow>
          if first_address E wan ''ipv4-address'' = [] \<and> first_address E w6 ''ipv6-address'' \<noteq> []
          then data_path_v6 E net wwan w6 (first_address E w6 ''ipv6-address'') now
          else data_path_v4 E net wwan wan uci_dns now
      | None \<Rightarrow> data_path_v4 E net wwan wan uci_dns now)"

definition sim_id_of :: "env \<Rightarrow> json \<Rightarrow> sim_id" where
  "sim_id_of E v = \<lparr>iccid = dev_text E v ''sim_iccid'',
     slot = (case parse_i64 (dev_text E v ''current_sim_slot'') of Some n \<Rightarrow> sint n | None \<Rightarrow> 0)\<rparr>"

section \<open>Reading the device\<close>

definition uci_read :: "env \<Rightarrow> string \<Rightarrow> string io" where
  "uci_read E path =
     (if \<not> uci_path_ok path then ret []
      else do {
        r \<leftarrow> command_run E (uci_bin E) [''-q'', ''get'', path] (of_secs 5);
        ret (case r of Ok raw \<Rightarrow> trim raw | Err _ \<Rightarrow> [])
      })"

definition wwaniface_args :: json where
  "wwaniface_args = jobj [(''source_module'', JString ''web''), (''cid'', jint 1), (''connect_status'', JString [])]"

definition dev_wan6 :: "env \<Rightarrow> json option \<Rightarrow> json option io" where
  "dev_wan6 E wan =
     (if is_some_and wan (\<lambda>w. first_address E w ''ipv4-address'' \<noteq> []) then ret None
      else do {
        r \<leftarrow> ubus E ''network.interface.zte_wan6'' ''status'' (jobj []);
        ret (case r of Ok w \<Rightarrow> if first_address E w ''ipv6-address'' \<noteq> [] then Some w else None | Err _ \<Rightarrow> None)
      })"

definition dev_wan_dns :: "env \<Rightarrow> json \<Rightarrow> string option io" where
  "dev_wan_dns E wan =
     (if is_none_or (Option.bind (jget ''dns-server'' wan) as_array) (\<lambda>a. a = [])
      then do { v \<leftarrow> uci_read E ''network.zte_wan.dns''; ret (Some v) }
      else ret None)"

definition dev_data :: "env \<Rightarrow> u64 \<Rightarrow> json \<Rightarrow> data_path option io" where
  "dev_data E now net = do {
     r \<leftarrow> ubus E ''zwrt_data'' ''get_wwaniface'' wwaniface_args;
     case r of
       Err _ \<Rightarrow> ret None
     | Ok wwan \<Rightarrow> do {
         r \<leftarrow> ubus E ''network.interface.zte_wan'' ''status'' (jobj []);
         let wan = ok_opt r;
         wan6 \<leftarrow> dev_wan6 E wan;
         if wan6 \<noteq> None
         then ret (Some (data_path_of E net wwan (case wan of Some w \<Rightarrow> w | None \<Rightarrow> jobj []) wan6 None now))
         else case wan of
           None \<Rightarrow> ret None
         | Some w \<Rightarrow> do {
             dns \<leftarrow> dev_wan_dns E w;
             ret (Some (data_path_of E net wwan w None dns now))
           }
       }
   }"

definition reading_of :: "env \<Rightarrow> json \<Rightarrow> json \<Rightarrow> data_path option \<Rightarrow> reading" where
  "reading_of E net sim_info d =
     (let v = dev_text E net ''net_select''
      in \<lparr>r_value = (if v = [] then None else Some v), r_registered = registered_word (dev_text E net ''network_type''),
          r_sim = sim_id_of E sim_info, r_data = d, r_probe = None\<rparr>)"

definition dev_read :: "env \<Rightarrow> u64 \<Rightarrow> spec \<Rightarrow> (string + reading) io" where
  "dev_read E now sp =
     (if s_item sp = network_mode then do {
        r \<leftarrow> ubus E ''zte_nwinfo_api'' ''nwinfo_get_netinfo'' (jobj []);
        case r of
          Err e \<Rightarrow> ret (Err e)
        | Ok net \<Rightarrow> do {
            r \<leftarrow> ubus E ''zwrt_zte_mdm.api'' ''get_sim_info'' (jobj []);
            case r of
              Err e \<Rightarrow> ret (Err e)
            | Ok sim_info \<Rightarrow> do {
                d \<leftarrow> dev_data E now net;
                ret (Ok (reading_of E net sim_info d))
              }
          }
      }
      else ret (Err (''no reader for '' @ s_item sp)))"

section \<open>Writing it\<close>

record write_error =
  we_message :: string
  we_timed_out :: bool

definition write_error_of :: "env \<Rightarrow> ubus_error \<Rightarrow> write_error" where
  "write_error_of E e = \<lparr>we_message = e_text E e,
     we_timed_out = (case e of UTimeout _ _ \<Rightarrow> True | _ \<Rightarrow> False)\<rparr>"

definition dev_write_call :: "env \<Rightarrow> spec \<Rightarrow> string \<Rightarrow> (write_error + json) io" where
  "dev_write_call E sp val =
     (if s_item sp = network_mode then do {
        r \<leftarrow> executor_call E ''zte_nwinfo_api'' ''nwinfo_set_netselect'' (jobj [(''net_select'', JString val)]);
        ret (map_sum (write_error_of E) id (write_reply r))
      }
      else ret (Err \<lparr>we_message = ''no writer for '' @ s_item sp, we_timed_out = False\<rparr>))"

definition ops_dir :: "env \<Rightarrow> string option" where
  "ops_dir E = (case e_var E ''ZWRT_DATAD_OPS_DIR'' of
     Some v \<Rightarrow> if v = [] then None else Some v | None \<Rightarrow> Some ''/data/u60-ops'')"

definition boot_id_of :: "(string \<Rightarrow> string option) \<Rightarrow> env \<Rightarrow> string" where
  "boot_id_of read_file E =
     (case read_file (env_or E ''ZWRT_DATAD_BOOT_ID_PATH'' ''/proc/sys/kernel/random/boot_id'') of
        Some s \<Rightarrow> trim s | None \<Rightarrow> [])"

section \<open>A reading is what the device answered\<close>

text \<open>The questions a reading consists of; none of them changes anything.\<close>

definition reading_calls :: "(string \<times> string) list" where
  "reading_calls = [(''zte_nwinfo_api'', ''nwinfo_get_netinfo''), (''zwrt_zte_mdm.api'', ''get_sim_info''),
     (''zwrt_data'', ''get_wwaniface''), (''network.interface.zte_wan'', ''status''),
     (''network.interface.zte_wan6'', ''status'')]"

fun asks_only :: "env \<Rightarrow> dev_event \<Rightarrow> bool" where
  "asks_only E (Ubus obj m args r) = ((obj, m) \<in> set reading_calls)"
| "asks_only E (Run prog args d r) = (prog = uci_bin E \<and> args = [''-q'', ''get'', ''network.zte_wan.dns''])"
| "asks_only E _ = False"

definition answered :: "string \<Rightarrow> string \<Rightarrow> json \<Rightarrow> dev_event list \<Rightarrow> bool" where
  "answered obj m v es \<longleftrightarrow> (\<exists>args. Ubus obj m args (Ok v) \<in> set es)"

text \<open>The data path of a reading, against the answers it was made from.\<close>

definition data_from :: "env \<Rightarrow> json \<Rightarrow> data_path \<Rightarrow> dev_event list \<Rightarrow> bool" where
  "data_from E net d es \<longleftrightarrow> (\<exists>wwan. answered ''zwrt_data'' ''get_wwaniface'' wwan es \<and>
     d_expected d = data_expected E net wwan \<and>
     d_connected d = connected_word (dev_text E wwan ''connect_status'') \<and>
     (ipv4 (d_conn d) \<noteq> [] \<longrightarrow> ipv6 (d_conn d) = [] \<and>
        (\<exists>wan. answered ''network.interface.zte_wan'' ''status'' wan es \<and>
           ipv4 (d_conn d) = first_address E wan ''ipv4-address'')) \<and>
     (ipv6 (d_conn d) \<noteq> [] \<longrightarrow> ipv4 (d_conn d) = [] \<and>
        (\<exists>wan6. answered ''network.interface.zte_wan6'' ''status'' wan6 es \<and>
           ipv6 (d_conn d) = first_address E wan6 ''ipv6-address'') \<and>
        (\<forall>wan. answered ''network.interface.zte_wan'' ''status'' wan es \<longrightarrow>
           first_address E wan ''ipv4-address'' = [])))"

lemma data_path_v4_fields [simp]:
  "d_expected (data_path_v4 E net wwan wan dns now) = data_expected E net wwan"
  "d_connected (data_path_v4 E net wwan wan dns now) = connected_word (dev_text E wwan ''connect_status'')"
  "ipv4 (d_conn (data_path_v4 E net wwan wan dns now)) = first_address E wan ''ipv4-address''"
  "ipv6 (d_conn (data_path_v4 E net wwan wan dns now)) = []"
  by (simp_all add: data_path_v4_def Let_def)

lemma data_path_v6_fields [simp]:
  "d_expected (data_path_v6 E net wwan wan6 a now) = data_expected E net wwan"
  "d_connected (data_path_v6 E net wwan wan6 a now) = connected_word (dev_text E wwan ''connect_status'')"
  "ipv4 (d_conn (data_path_v6 E net wwan wan6 a now)) = []"
  "ipv6 (d_conn (data_path_v6 E net wwan wan6 a now)) = a"
  by (simp_all add: data_path_v6_def Let_def)

text \<open>What \<open>dev_wan6\<close> asks and when it has an answer.\<close>

lemma wp_dev_wan6:
  "wp (dev_wan6 E wan) (\<lambda>r es.
     (es = [] \<or> (\<exists>a. es = [Ubus ''network.interface.zte_wan6'' ''status'' (jobj []) a])) \<and>
     (case r of None \<Rightarrow> True
      | Some w6 \<Rightarrow> answered ''network.interface.zte_wan6'' ''status'' w6 es \<and>
          first_address E w6 ''ipv6-address'' \<noteq> [] \<and> is_none_or wan (\<lambda>w. first_address E w ''ipv4-address'' = [])))"
  unfolding dev_wan6_def answered_def
  by (auto intro!: wp_rules simp: is_some_and_def is_none_or_def map_sum_def split: sum.splits option.splits if_splits)

lemma wp_dev_wan_dns:
  "wp (dev_wan_dns E wan) (\<lambda>r es. list_all (asks_only E) es \<and> (\<forall>obj m v. \<not> answered obj m v es))"
proof -
  have "uci_path_ok ''network.zte_wan.dns''" by code_simp
  then show ?thesis
    unfolding dev_wan_dns_def uci_read_def answered_def by (auto intro!: wp_rules)
qed

lemma answered_simps [simp]:
  "answered obj m v (es @ es') \<longleftrightarrow> answered obj m v es \<or> answered obj m v es'"
  "answered obj m v (Ubus obj' m' args r # es) \<longleftrightarrow> (obj' = obj \<and> m' = m \<and> r = Ok v) \<or> answered obj m v es"
  "\<not> answered obj m v []"
  by (auto simp: answered_def)

lemma asks_simps [simp]:
  "asks_only E (Ubus ''zte_nwinfo_api'' ''nwinfo_get_netinfo'' a r)"
  "asks_only E (Ubus ''zwrt_zte_mdm.api'' ''get_sim_info'' a r)"
  "asks_only E (Ubus ''zwrt_data'' ''get_wwaniface'' a r)"
  "asks_only E (Ubus ''network.interface.zte_wan'' ''status'' a r)"
  "asks_only E (Ubus ''network.interface.zte_wan6'' ''status'' a r)"
  by (simp_all add: reading_calls_def)

declare asks_only.simps(1) [simp del]

lemma wp_dev_data:
  "wp (dev_data E now net) (\<lambda>r es. list_all (asks_only E) es \<and> (\<forall>d. r = Some d \<longrightarrow> data_from E net d es))"
proof -
  have v6: "data_from E net (data_path_of E net wwan (case wan of Some w \<Rightarrow> w | None \<Rightarrow> jobj []) (Some w6) None now)
      (Ubus ''zwrt_data'' ''get_wwaniface'' a1 (Ok wwan) # Ubus ''network.interface.zte_wan'' ''status'' a2 r # es)"
    if "answered ''network.interface.zte_wan6'' ''status'' w6 es" "first_address E w6 ''ipv6-address'' \<noteq> []"
      "is_none_or wan (\<lambda>w. first_address E w ''ipv4-address'' = [])" "wan = ok_opt (map_sum (e_text E) id r)"
      "\<forall>v. \<not> answered ''network.interface.zte_wan'' ''status'' v es"
    for wwan wan w6 a1 a2 r es
  proof -
    have "first_address E (case wan of Some w \<Rightarrow> w | None \<Rightarrow> jobj []) ''ipv4-address'' = []"
      using that(3) by (cases wan) (simp_all add: is_none_or_def first_address_def jget_jobj map_from_def)
    then show ?thesis
      using that by (cases r) (auto simp: data_from_def data_path_of_def ok_opt_def is_none_or_def)
  qed
  have v4: "data_from E net (data_path_of E net wwan wan None dns now)
      (Ubus ''zwrt_data'' ''get_wwaniface'' a1 (Ok wwan) # Ubus ''network.interface.zte_wan'' ''status'' a2 r # es)"
    if "Some wan = ok_opt (map_sum (e_text E) id r)" for wwan wan dns a1 a2 r es
    using that by (cases r) (auto simp: data_from_def data_path_of_def ok_opt_def)
  show ?thesis
    unfolding dev_data_def wwaniface_args_def
    apply (intro wp_bind wp_ubus)
    subgoal for r1
      apply (cases r1)
       apply (simp add: wp_return)
      apply (simp add: Let_def)
      apply (intro wp_bind wp_ubus)
      subgoal for wwan r2
        apply (rule wp_mono [OF wp_dev_wan6])
        subgoal for w6 es
          apply (cases w6)
           apply (cases "ok_opt (map_sum (e_text E) id r2)")
            apply (auto simp: wp_return)[1]
           apply (auto intro!: wp_rules wp_mono [OF wp_dev_wan_dns] v4 [unfolded append.simps])[1]
          apply (auto intro!: wp_return v6)[1]
          done
        done
      done
    done
qed

text \<open>Reading and probe of one turn of the loop of \<open>drive\<close>.\<close>

definition beat_reading :: "(nat \<Rightarrow> sock) \<Rightarrow> u64 \<Rightarrow> txn \<Rightarrow> reading \<Rightarrow> reading \<times> sent_query list" where
  "beat_reading io now t r =
     (case wants_probe t r now of
        None \<Rightarrow> (r, [])
      | Some tgt \<Rightarrow> (let (result, sent) = dns_probe io tgt in (r\<lparr>r_probe := Some (is_ok result)\<rparr>, sent)))"

definition reading_from :: "env \<Rightarrow> json \<Rightarrow> json \<Rightarrow> reading \<Rightarrow> dev_event list \<Rightarrow> bool" where
  "reading_from E net si r es \<longleftrightarrow>
     answered ''zte_nwinfo_api'' ''nwinfo_get_netinfo'' net es \<and> answered ''zwrt_zte_mdm.api'' ''get_sim_info'' si es \<and>
     r_value r = (if dev_text E net ''net_select'' = [] then None else Some (dev_text E net ''net_select'')) \<and>
     r_registered r = registered_word (dev_text E net ''network_type'') \<and>
     r_sim r = sim_id_of E si \<and> r_probe r = None \<and> (\<forall>d. r_data r = Some d \<longrightarrow> data_from E net d es)"

lemma wp_dev_read:
  "wp (dev_read E now sp) (\<lambda>res es. list_all (asks_only E) es \<and>
     (\<forall>r. res = Ok r \<longrightarrow> (\<exists>net si. reading_from E net si r es)))"
proof -
  have built: "\<exists>n s. reading_from E n s (reading_of E net si d)
      (Ubus ''zte_nwinfo_api'' ''nwinfo_get_netinfo'' a (Ok net) # Ubus ''zwrt_zte_mdm.api'' ''get_sim_info'' a' (Ok si) # es)"
    if "\<forall>x. d = Some x \<longrightarrow> data_from E net x es" for net si d a a' es
    using that by (intro exI [of _ net] exI [of _ si]) (auto simp: reading_from_def data_from_def reading_of_def Let_def)
  show ?thesis
    unfolding dev_read_def
    by (auto intro!: wp_rules wp_mono [OF wp_dev_data] built simp: map_sum_def split: sum.splits)
qed

lemma beat_reading_fields:
  assumes "beat_reading io now t r = (r', sent)"
  shows "r_value r' = r_value r" "r_registered r' = r_registered r" "r_sim r' = r_sim r" "r_data r' = r_data r"
  using assms by (auto simp: beat_reading_def split: option.splits prod.splits)

text \<open>A probe that counts was answered over the connection the reading describes.\<close>

lemma beat_reading_probed:
  assumes "beat_reading io now t r = (r', sent)" "r_probe r = None" "r_probe r' = Some True" "r_data r = Some d"
  shows "\<exists>n srv bytes. is_ipv6 (fst srv) = v6_only (d_conn d) \<and> Ok (srv, bytes) \<in> set (so_recv (io n)) \<and>
      is_answer (so_id (io n)) srv srv bytes"
proof -
  obtain tgt where tgt: "wants_probe t r now = Some tgt" and ok: "fst (dns_probe io tgt) = Ok ()"
    using assms by (auto simp: beat_reading_def is_ok_def split: option.splits prod.splits sum.splits)
  have v6: "pt_v6 tgt = v6_only (d_conn d)"
    using wants_probe_SomeD [OF tgt] assms(4) by (auto simp: data_gate_def split: option.splits bool.splits if_splits)
  obtain s where run: "dns_probe io tgt = (Ok (), s)" using ok by (metis prod.collapse)
  have a: "ask io 0 (pt_iface tgt) (NoServer (pt_v6 tgt)) (probe_servers tgt) = (Ok (), s)"
    using run by (auto simp: dns_probe_def Let_def split: if_splits)
  obtain k where k: "k < length (probe_servers tgt)" "fst (query (io k) (pt_iface tgt) (probe_servers tgt ! k)) = Ok ()"
    using ask_Ok [OF a] by auto
  have "probe_servers tgt ! k \<in> set (probe_servers tgt)" using k(1) by simp
  then have "is_ipv6 (fst (probe_servers tgt ! k)) = v6_only (d_conn d)"
    using probe_servers_family [of "fst (probe_servers tgt ! k)" "snd (probe_servers tgt ! k)" tgt] v6 by simp
  then show ?thesis using query_Ok [OF k(2)] by blast
qed

text \<open>
  Property C10. A change counts as confirmed only on the device's own word. If a turn of the driver (read
  the device, probe when the state machine wants it, feed the reading) ends with the transaction
  confirmed, then the turn asked the device and changed nothing, the modem reported the written mode
  and a registered network, and the data path comes from the answers of that very turn: either no data
  is expected, or the call is connected with an address and a DNS server of the address's family
  answered our query.
\<close>

theorem confirmed_on_the_devices_word:
  assumes "device_ok w" "run_state (dev_read E nr sp) w = (Ok r, w')"
    and "beat_reading io np t0 r = (r', sent)"
    and "\<not> is_final (phase t)" "phase (snd (on_reading r' now t)) = Confirmed"
  shows "\<exists>es net d. w_log w' = w_log w @ es \<and> list_all (asks_only E) es \<and>
    answered ''zte_nwinfo_api'' ''nwinfo_get_netinfo'' net es \<and>
    dev_text E net ''net_select'' = target t \<and> registered_word (dev_text E net ''network_type'') \<and>
    r_data r = Some d \<and> data_from E net d es \<and>
    (d_expected d = Some False \<or>
     d_expected d = Some True \<and> d_connected d \<and> addr (d_conn d) \<noteq> [] \<and>
     (\<exists>n srv bytes. is_ipv6 (fst srv) = v6_only (d_conn d) \<and> Ok (srv, bytes) \<in> set (so_recv (io n)) \<and>
        is_answer (so_id (io n)) srv srv bytes))"
proof -
  obtain res w1 es where run: "run_state (dev_read E nr sp) w = (res, w1)" and es1: "w_log w1 = w_log w @ es"
    and asks: "list_all (asks_only E) es" and rd: "\<forall>r. res = Ok r \<longrightarrow> (\<exists>net si. reading_from E net si r es)"
    by (rule wpD [OF wp_dev_read [of E nr sp] assms(1)]) blast
  have es: "w_log w' = w_log w @ es" and "res = Ok r" using run es1 assms(2) by simp_all
  then obtain net si where net: "reading_from E net si r es" using rd by blast
  note conf = on_reading_Confirmed_iff [OF assms(4), THEN iffD1, OF assms(5)]
  note same = beat_reading_fields [OF assms(3)]
  obtain d where d: "r_data r = Some d" "d_expected d \<noteq> None"
    using conf same by (auto simp: data_proven_def split: option.splits)
  have val: "dev_text E net ''net_select'' = target t" "registered_word (dev_text E net ''network_type'')"
    using conf same net by (auto simp: reading_from_def split: if_splits)
  have "d_expected d = Some False \<or> d_expected d = Some True \<and> d_connected d \<and> addr (d_conn d) \<noteq> [] \<and> r_probe r' = Some True"
    using conf same d by (auto simp: data_proven_def split: bool.splits)
  then show ?thesis
    using es asks net val d beat_reading_probed [OF assms(3) _ _ d(1)] unfolding reading_from_def by blast
qed

definition sample_net :: json where
  "sample_net = JObject [(''net_select'', JString ''Only_LTE''), (''network_type'', JString ''LTE''),
     (''simcard_roam'', JString ''Home'')]"

definition sample_wwan :: json where
  "sample_wwan = JObject [(''connect_status'', JString ''ipv4_connected''), (''enable'', JBool True),
     (''ipv4_dev_name'', JString ''rmnet_data0'')]"

definition sample_wan :: json where
  "sample_wan = JObject [(''dns-server'', JArray [JString '' 8.8.4.4'']),
     (''ipv4-address'', JArray [JObject [(''address'', JString ''10.1.2.3'')]])]"

definition sample_sim :: json where
  "sample_sim = JObject [(''current_sim_slot'', JString ''1''), (''sim_iccid'', JString ''8986'')]"

definition sample_device_env :: env where
  "sample_device_env = sample_env\<lparr>e_ubus := \<lambda>_ obj m _.
     if m = ''nwinfo_get_netinfo'' then Ok sample_net
     else if m = ''get_sim_info'' then Ok sample_sim
     else if m = ''get_wwaniface'' then Ok sample_wwan
     else if m = ''status'' then Ok sample_wan else Err (UIo [])\<rparr>"

definition sample_conn :: conn where
  "sample_conn = \<lparr>ipv4 = ''10.1.2.3'', ipv6 = [], up_since_ms = None\<rparr>"

definition sample_reading :: reading where
  "sample_reading = \<lparr>r_value = Some ''Only_LTE'', r_registered = True, r_sim = ex_sim,
     r_data = Some \<lparr>d_expected = Some True, d_connected = True, d_conn = sample_conn,
       d_iface = ''rmnet_data0'', d_dns = ['' 8.8.4.4'']\<rparr>, r_probe = None\<rparr>"

lemmas sample_json = sample_net_def sample_wwan_def sample_wan_def sample_sim_def dev_text_def json_access

lemma sample_parts:
  "reading_of E sample_net sample_sim d = sample_reading\<lparr>r_data := d\<rparr>"
  "first_address E sample_wan ''ipv4-address'' = ''10.1.2.3''"
  "data_path_of E sample_net sample_wwan sample_wan None None now = the (r_data sample_reading)"
  "is_none_or (Option.bind (jget ''dns-server'' sample_wan) as_array) (\<lambda>a. a = []) = False"
proof -
  have w: "registered_word ''LTE''" "connected_word ''ipv4_connected''" by code_simp+
  have i: "parse_i64 ''1'' = Some 1" by (simp add: parse_i64_def parse_nat_def digits_val_def is_digit_def)
  show "reading_of E sample_net sample_sim d = sample_reading\<lparr>r_data := d\<rparr>"
    by (simp add: reading_of_def sample_json sim_id_of_def ex_sim_def sample_reading_def w i)
  show "first_address E sample_wan ''ipv4-address'' = ''10.1.2.3''"
    by (simp add: first_address_def sample_json)
  show "data_path_of E sample_net sample_wwan sample_wan None None now = the (r_data sample_reading)"
    by (simp add: data_path_of_def data_path_v4_def data_expected_def data_switch_def dev_flag_def dev_roaming_def
        dev_strings_def up_since_def first_address_def sample_json sample_reading_def sample_conn_def w List.map_filter_def)
  show "is_none_or (Option.bind (jget ''dns-server'' sample_wan) as_array) (\<lambda>a. a = []) = False"
    by (simp add: sample_json is_none_or_def)
qed

lemma sample_run:
  "\<exists>w'. run_state (dev_read sample_device_env 5 (hd specs)) sample_world = (Ok sample_reading, w')"
  by (simp add: dev_read_def dev_data_def dev_wan6_def dev_wan_dns_def ubus_def executor_call_def log_event_def
      sample_device_env_def sample_parts specs_def Let_def ok_opt_def is_some_and_def)
     (simp add: sample_reading_def)

lemma sample_beat:
  "\<exists>sent. beat_reading (\<lambda>_. sample_sock) 9000 ex_txn sample_reading = (sample_reading\<lparr>r_probe := Some True\<rparr>, sent)"
proof -
  have "wants_probe ex_txn sample_reading 9000 = Some sample_target"
    by (simp add: wants_probe_def waiting_def ex_txn_eq goal_def sample_reading_def data_gate_def sample_conn_def
        addr_def v6_only_def sample_target_def ex_sim_same is_some_and_def)
  moreover obtain q where "dns_probe (\<lambda>_. sample_sock) sample_target = (Ok (), [q])" using sample_probe by blast
  ultimately show ?thesis by (simp add: beat_reading_def is_ok_def)
qed

theorem confirmed_on_the_devices_word_witness:
  "\<exists>w' sent es net. run_state (dev_read sample_device_env 5 (hd specs)) sample_world = (Ok sample_reading, w') \<and>
     beat_reading (\<lambda>_. sample_sock) 9000 ex_txn sample_reading = (sample_reading\<lparr>r_probe := Some True\<rparr>, sent) \<and>
     phase (snd (on_reading (sample_reading\<lparr>r_probe := Some True\<rparr>) 9000 ex_txn)) = Confirmed \<and>
     w_log w' = w_log sample_world @ es \<and> answered ''zte_nwinfo_api'' ''nwinfo_get_netinfo'' net es \<and>
     dev_text sample_device_env net ''net_select'' = ''Only_LTE''"
proof -
  have nf: "\<not> is_final (phase ex_txn)" by (simp add: ex_txn_eq)
  have conf: "phase (snd (on_reading (sample_reading\<lparr>r_probe := Some True\<rparr>) 9000 ex_txn)) = Confirmed"
    unfolding on_reading_Confirmed_iff [OF nf]
    by (simp add: ex_txn_eq sample_reading_def data_proven_def sample_conn_def addr_def ex_sim_same)
  obtain w' where run: "run_state (dev_read sample_device_env 5 (hd specs)) sample_world = (Ok sample_reading, w')"
    using sample_run by blast
  obtain sent where beat: "beat_reading (\<lambda>_. sample_sock) 9000 ex_txn sample_reading = (sample_reading\<lparr>r_probe := Some True\<rparr>, sent)"
    using sample_beat by blast
  have "device_ok sample_world" by (simp add: device_ok_def sample_world_def)
  from confirmed_on_the_devices_word [OF this run beat nf conf] show ?thesis
    using run beat conf by (auto simp: ex_txn_eq)
qed

end
