(* ===== verification/Write_Route.thy ===== *)
theory Write_Route
  imports Journal_View Ubus_Device
begin

text \<open>
  The routing of write requests (\<^verbatim>\<open>rust/src/server/write.rs\<close>) and \<open>Engine::submit\<close> as a whole. A request is a
  program over the engine, the device and the trace of what it does besides. Wherever the code waits, the
  other tasks of the process may do anything to the engine and the device: \<open>await\<close>. What the process outside
  the request decides (whether the executor is full, the clock, fresh ids, the journal read back) is the
  record \<open>outside\<close>, mostly as functions of the trace so far.
\<close>

section \<open>The setting\<close>

datatype route_event =
    RAwait
  | RClock u64
  | RLine json
  | RSkip string string string
  | ROwner string source bool string "string option"
  | RFlush
  | RLock
  | RUnlock
  | RForget
  | RMark "string list option"
  | RInterval u64
  | RExecute string json
  | RWrite spec string
  | RSpawn string
  | RWatch string
  | RKick
  | RWake

record 'b ctx =
  k_eng :: "'b engine"
  k_dev :: device
  k_trace :: "route_event list"

record 'b outside =
  o_env :: env
  o_crypto :: crypto
  o_ser :: "json \<Rightarrow> string"
  o_ready :: bool
  o_full :: "route_event list \<Rightarrow> bool"
  o_now :: "route_event list \<Rightarrow> u64"
  o_id :: "route_event list \<Rightarrow> string"
  o_boot :: string
  o_eng :: "route_event list \<Rightarrow> 'b engine \<Rightarrow> 'b engine"
  o_dev :: "route_event list \<Rightarrow> device \<Rightarrow> device"
  o_list :: "route_event list \<Rightarrow> nat \<Rightarrow> json list"
  o_owners :: "route_event list \<Rightarrow> json"

type_synonym ('b, 'a) route = "('b ctx, 'a) state"

definition trace_ev :: "route_event \<Rightarrow> ('b, unit) route" where
  "trace_ev ev = State (\<lambda>k. ((), k\<lparr>k_trace := k_trace k @ [ev]\<rparr>))"

definition await :: "'b outside \<Rightarrow> ('b, unit) route" where
  "await W = State (\<lambda>k. ((), k\<lparr>k_eng := o_eng W (k_trace k) (k_eng k), k_dev := o_dev W (k_trace k) (k_dev k),
     k_trace := k_trace k @ [RAwait]\<rparr>))"

text \<open>Reading the clock; every reading is one event, so that two readings may differ.\<close>

definition read_clock :: "'b outside \<Rightarrow> ('b, u64) route" where
  "read_clock W = State (\<lambda>k. let t = o_now W (k_trace k) in (t, k\<lparr>k_trace := k_trace k @ [RClock t]\<rparr>))"

definition peek :: "(route_event list \<Rightarrow> 'a) \<Rightarrow> ('b, 'a) route" where
  "peek f = State (\<lambda>k. (f (k_trace k), k))"

text \<open>A section under the engine's mutex, at the time just read.\<close>

definition locked :: "'b outside \<Rightarrow> (u64 \<Rightarrow> 'b engine \<Rightarrow> 'a \<times> 'b engine) \<Rightarrow> ('b, 'a) route" where
  "locked W f = do {
     now \<leftarrow> read_clock W;
     State (\<lambda>k. let (a, e) = f now (k_eng k) in (a, k\<lparr>k_eng := e\<rparr>))
   }"

text \<open>A program of the device layer; other tasks run before and after every call.\<close>

definition on_device :: "'b outside \<Rightarrow> 'a io \<Rightarrow> ('b, 'a) route" where
  "on_device W m = do {
     await W;
     a \<leftarrow> State (\<lambda>k. let (a, w) = run_state m (k_dev k) in (a, k\<lparr>k_dev := w\<rparr>));
     await W;
     State_Monad.return a
   }"

section \<open>Answers\<close>

text \<open>An answer with its status; \<open>Abort\<close> is a panic, which ends the process.\<close>

datatype response = Reply nat json | Abort

definition is_success :: "response \<Rightarrow> bool" where
  "is_success r = (case r of Reply s _ \<Rightarrow> 200 \<le> s \<and> s < 300 | Abort \<Rightarrow> False)"

definition error_json :: "string \<Rightarrow> string \<Rightarrow> (string \<times> json) list \<Rightarrow> (string \<times> json) list \<Rightarrow> string \<Rightarrow> json" where
  "error_json code message inner outer act = jobj ([(''ok'', JBool False), (''action'', JString act),
     (''error'', jobj ([(''code'', JString code), (''message'', JString message)] @ inner))] @ outer)"

definition control_ok :: "string \<Rightarrow> json \<Rightarrow> response" where
  "control_ok act v = Reply 200 (jobj [(''ok'', JBool True), (''action'', JString act), (''result'', v)])"

definition control_failed :: "string \<Rightarrow> string \<Rightarrow> response" where
  "control_failed act e = Reply 502 (error_json ''device_call_failed'' e [] [] act)"

definition invalid_parameter :: "string \<Rightarrow> string \<Rightarrow> response" where
  "invalid_parameter act m = Reply 400 (error_json ''invalid_parameter'' m [] [] act)"

definition control_busy :: "string \<Rightarrow> response" where
  "control_busy act = Reply 503 (error_json ''busy'' ''control queue full'' [] [] act)"

definition legacy_queued :: "string \<Rightarrow> response" where
  "legacy_queued act = control_ok act (jobj [(''result'', JString ''success'')])"

definition op_busy :: "string \<Rightarrow> json \<Rightarrow> response" where
  "op_busy act op = Reply 409 (error_json ''op_busy'' ''a change is being confirmed; try again after it ends'' [(''op'', op)] [] act)"

definition route_error :: "string \<Rightarrow> nat \<Rightarrow> string \<Rightarrow> string \<Rightarrow> (string \<times> json) option \<Rightarrow> response" where
  "route_error act status code message extra =
     Reply status (error_json code message [] (case extra of None \<Rightarrow> [] | Some kv \<Rightarrow> [kv]) act)"

section \<open>Tests on a request\<close>

definition body_params :: "json \<Rightarrow> json" where
  "body_params b = (case jget ''params'' b of Some p \<Rightarrow> p | None \<Rightarrow> jobj [])"

definition body_source :: "json \<Rightarrow> Txn.source option" where
  "body_source b = Option.bind (Option.bind (jget ''source'' b) as_str) source_parse"

definition writer_source :: "json \<Rightarrow> Txn.source" where
  "writer_source b = (case body_source b of Some s \<Rightarrow> s | None \<Rightarrow> Legacy)"

definition screen_or_web :: "json \<Rightarrow> Txn.source option" where
  "screen_or_web b = (case body_source b of Some s \<Rightarrow> if s = Screen \<or> s = Web then Some s else None | None \<Rightarrow> None)"

definition ends_device :: "string \<Rightarrow> json \<Rightarrow> bool" where
  "ends_device act b \<longleftrightarrow> act = ''device.reboot'' \<or> act = ''device.poweroff'' \<or>
     (act = ''vendor.call'' \<and>
       (let p = (case jget ''params'' b of Some p \<Rightarrow> p | None \<Rightarrow> JNull);
            f = (\<lambda>k. Option.bind (jget k p) as_str)
        in (f ''object'', f ''method'') \<in> set [(Some ''zwrt_mc.device.manager'', Some ''device_reset''), (Some ''system'', Some ''reboot'')]))"

definition read_only :: "string \<Rightarrow> bool" where
  "read_only act \<longleftrightarrow> act = ''sms.list_after''"

definition blocks_for_action :: "string \<Rightarrow> string list option" where
  "blocks_for_action act =
     (if act = ''power.direct_supply.set'' then Some [''charger'']
      else if act = ''usb.attach_mode'' then Some [''typec'', ''powerbank'', ''charger'']
      else if act = ''sms.list_after'' then Some []
      else None)"

definition action_writes :: "string \<Rightarrow> bool" where
  "action_writes act \<longleftrightarrow> (act \<in> set control_actions \<or> act \<in> set e4_actions) \<and> \<not> read_only act"

section \<open>The journal of writes outside transactions\<close>

record journal_write =
  jw_action :: string
  jw_source :: Txn.source
  jw_params :: json
  jw_item :: "(string \<times> string) option"

definition journal_write_new :: "(json \<Rightarrow> string) \<Rightarrow> string \<Rightarrow> json \<Rightarrow> journal_write option" where
  "journal_write_new ser act b =
     (if act = ''sms.mark_read'' then None
      else Some \<lparr>jw_action = act, jw_source = writer_source b, jw_params = redact ser act (body_params b),
        jw_item = (case spec_find act of
           None \<Rightarrow> None
         | Some sp \<Rightarrow> (case spec_target sp (body_params b) of Ok v \<Rightarrow> Some (s_item sp, v) | Err _ \<Rightarrow> None))\<rparr>)"

definition jw_line :: "journal_write \<Rightarrow> string \<Rightarrow> nat option \<Rightarrow> json" where
  "jw_line j result status = jobj [(''action'', JString (jw_action j)), (''item'', jopt (\<lambda>i. JString (fst i)) (jw_item j)),
     (''source'', json_source (jw_source j)), (''params'', jw_params j), (''result'', JString result),
     (''status'', jopt jnat status)]"

definition jw_owner :: "journal_write \<Rightarrow> ('b, unit) route" where
  "jw_owner j = (case jw_item j of
     None \<Rightarrow> State_Monad.return ()
   | Some (itm, v) \<Rightarrow> trace_ev (ROwner itm (jw_source j) False v None))"


section \<open>Running a control action\<close>

definition forget_cache :: "('b, unit) route" where "forget_cache = trace_ev RForget"

definition interval_param :: "json \<Rightarrow> u64 option" where
  "interval_param b = (case Option.bind (Option.bind (jget ''params'' b) (jget ''milliseconds'')) as_u64 of
     Some n \<Rightarrow> if 500 \<le> n \<and> n \<le> 5000 then Some n else None | None \<Rightarrow> None)"

definition control_task :: "'b outside \<Rightarrow> string \<Rightarrow> json \<Rightarrow> ('b, response) route" where
  "control_task W act b = do {
     (if read_only act then State_Monad.return () else forget_cache);
     trace_ev (RExecute act (body_params b));
     r \<leftarrow> on_device W (ctl_execute (o_env W) (o_crypto W) act (body_params b));
     case r of
       Done v \<Rightarrow> State_Monad.return (control_ok act v)
     | Invalid e \<Rightarrow> State_Monad.return (invalid_parameter act e)
     | Failed e \<Rightarrow> State_Monad.return (control_failed act e)
     | Panicked \<Rightarrow> State_Monad.return Abort
     | NotHandled \<Rightarrow>
         (if act = ''state.set_interval'' then
            (case interval_param b of
               None \<Rightarrow> State_Monad.return (invalid_parameter act ''milliseconds must be between 500 and 5000'')
             | Some n \<Rightarrow> do {
                 trace_ev (RInterval n);
                 State_Monad.return (control_ok act (jobj [(''sample_interval_ms'', json_u64 n)]))
               })
          else State_Monad.return (Reply 404 (error_json ''unknown_action'' ''unsupported control action'' [] [] act)))
   }"

text \<open>
  \<open>other_write_gate\<close>. \<open>other_write\<close> kicks the queue of old requests after it has cancelled a transaction.
\<close>

definition other_write_gate :: "'b outside \<Rightarrow> string \<Rightarrow> json \<Rightarrow> ('b, response option) route" where
  "other_write_gate W act b =
     (if is_safety act (body_params b) \<or> \<not> affects_network act (body_params b) then State_Monad.return None
      else do {
        (busy, cancelled) \<leftarrow> locked W (\<lambda>now e. let (r, e') = e_other_write (writer_source b) now e
           in ((r, e_active e \<noteq> None \<and> r = None), e'));
        (if cancelled then trace_ev RKick else State_Monad.return ());
        State_Monad.return (map_option (\<lambda>t. op_busy act (busy_op t)) busy)
      })"

text \<open>The journal around the action: a line before it when the device goes away, otherwise one after it.\<close>

definition journal_before :: "'b outside \<Rightarrow> journal_write option \<Rightarrow> bool \<Rightarrow> ('b, unit) route" where
  "journal_before W j ends =
     (case j of
        Some w \<Rightarrow> if ends then do { trace_ev (RLine (jw_line w ''requested'' None)); await W; trace_ev RFlush }
                   else State_Monad.return ()
      | None \<Rightarrow> State_Monad.return ())"

definition reply_status :: "response \<Rightarrow> nat" where
  "reply_status r = (case r of Reply s _ \<Rightarrow> s | Abort \<Rightarrow> 0)"

definition journal_after :: "journal_write option \<Rightarrow> bool \<Rightarrow> response \<Rightarrow> ('b, unit) route" where
  "journal_after j ends r =
     (case j of
        Some w \<Rightarrow>
          if ends then State_Monad.return ()
          else do {
            trace_ev (RLine (jw_line w (if is_success r then ''ok'' else ''failed'')
              (if is_success r then None else Some (reply_status r))));
            (if is_success r then jw_owner w else State_Monad.return ())
          }
      | None \<Rightarrow> State_Monad.return ())"

definition mark_after :: "string \<Rightarrow> response \<Rightarrow> ('b, unit) route" where
  "mark_after act r =
     (if is_success r \<and> \<not> read_only act
      then do { forget_cache; trace_ev (RMark (blocks_for_action act)) } else State_Monad.return ())"

definition control_end :: "string \<Rightarrow> journal_write option \<Rightarrow> bool \<Rightarrow> response \<Rightarrow> ('b, response) route" where
  "control_end act j ends r =
     (if r = Abort then State_Monad.return Abort
      else do {
        journal_after j ends r;
        mark_after act r;
        (if action_writes act then trace_ev RUnlock else State_Monad.return ());
        State_Monad.return r
      })"

definition control_work :: "'b outside \<Rightarrow> string \<Rightarrow> json \<Rightarrow> ('b, response) route" where
  "control_work W act b =
     (let j = (if action_writes act then journal_write_new (o_ser W) act b else None); ends = ends_device act b
      in do {
        (if action_writes act then do { await W; trace_ev RLock } else State_Monad.return ());
        journal_before W j ends;
        r \<leftarrow> control_task W act b;
        control_end act j ends r
      })"

definition control_job :: "'b outside \<Rightarrow> string \<Rightarrow> json \<Rightarrow> ('b, response) route" where
  "control_job W act b = do {
     g \<leftarrow> (if action_writes act then other_write_gate W act b else State_Monad.return None);
     case g of Some r \<Rightarrow> State_Monad.return r | None \<Rightarrow> control_work W act b
   }"

text \<open>\<open>run_control\<close>: \<open>None\<close> when the executor's queue is full; an accepted job runs when it is its turn.\<close>

definition run_control :: "'b outside \<Rightarrow> string \<Rightarrow> json \<Rightarrow> ('b, response option) route" where
  "run_control W act b = do {
     full \<leftarrow> peek (o_full W);
     if full then State_Monad.return None
     else do { await W; r \<leftarrow> control_job W act b; State_Monad.return (Some r) }
   }"

section \<open>Requests to the journal\<close>

text \<open>\<open>line[k] = v\<close>: null becomes an object; anything else that is not an object panics.\<close>

definition json_set :: "string \<Rightarrow> json \<Rightarrow> json \<Rightarrow> json option" where
  "json_set k v j = (case j of
     JNull \<Rightarrow> Some (JObject [(k, v)]) | JObject m \<Rightarrow> Some (JObject (map_insert k v m)) | _ \<Rightarrow> None)"

definition text_param :: "string \<Rightarrow> json \<Rightarrow> string option" where
  "text_param k p = (case Option.bind (jget k p) as_str of Some s \<Rightarrow> if s = [] then None else Some s | None \<Rightarrow> None)"

definition append_what :: "json \<Rightarrow> string option" where
  "append_what p = (case jget ''item'' p of Some _ \<Rightarrow> text_param ''item'' p | None \<Rightarrow> text_param ''action'' p)"

definition journal_append :: "'b outside \<Rightarrow> string \<Rightarrow> json \<Rightarrow> ('b, response) route" where
  "journal_append W act b =
     (let p = body_params b
      in case body_source b of
           None \<Rightarrow> State_Monad.return (invalid_parameter act ''journal.append needs a known top-level source'')
         | Some src \<Rightarrow>
             (case text_param ''result'' p of
                None \<Rightarrow> State_Monad.return (invalid_parameter act ''missing parameter: result'')
              | Some result \<Rightarrow>
                  (case append_what p of
                     None \<Rightarrow> State_Monad.return (invalid_parameter act ''missing parameter: item or action'')
                   | Some what \<Rightarrow>
                       if result = ''skipped'' then do {
                         trace_ev (RSkip (source_as_str src) what
                           (case Option.bind (jget ''reason'' p) as_str of Some s \<Rightarrow> s | None \<Rightarrow> []));
                         State_Monad.return (control_ok act (jobj [(''recorded'', JBool True)]))
                       }
                       else
                         (case Option.bind (json_set ''source'' (json_source src) (redact (o_ser W) what p))
                                 (json_set ''journal_append'' (JBool True)) of
                            None \<Rightarrow> State_Monad.return Abort
                          | Some l \<Rightarrow> do {
                              trace_ev (RLine l);
                              State_Monad.return (control_ok act (jobj [(''recorded'', JBool True)]))
                            }))))"

definition list_limit :: "json \<Rightarrow> nat" where
  "list_limit p = unat (max 1 (min 500 (case Option.bind (jget ''limit'' p) as_u64 of Some n \<Rightarrow> n | None \<Rightarrow> 50)))"

definition journal_list :: "'b outside \<Rightarrow> string \<Rightarrow> json \<Rightarrow> ('b, response) route" where
  "journal_list W act b = do {
     await W;
     trace_ev RFlush;
     lines \<leftarrow> peek (\<lambda>tr. o_list W tr (list_limit (body_params b)));
     owners \<leftarrow> peek (o_owners W);
     State_Monad.return (case decorate lines of
       None \<Rightarrow> Abort
     | Some ls \<Rightarrow> control_ok act (jobj [(''entries'', JArray ls), (''owners'', owners)]))
   }"


section \<open>A transaction\<close>

definition find_json :: "string \<Rightarrow> u64 \<Rightarrow> 'b engine \<Rightarrow> json option" where
  "find_json opid now e =
     (case e_live opid e of
        Some t \<Rightarrow> Some (view_json t now (later_change e t))
      | None \<Rightarrow> map_option (\<lambda>t. view_json t now (later_change e t)) (find_recent opid e))"

datatype submit_reply = SrExisting json | SrBusy json | SrNoCapture string | SrApplied "string + json" json

definition check_reply :: "string \<Rightarrow> u64 \<Rightarrow> 'b engine \<Rightarrow> submit_check \<Rightarrow> submit_reply option" where
  "check_reply opid now e c = (case c of
     SubmitExisting _ \<Rightarrow> Some (SrExisting (jopt id (find_json opid now e)))
   | SubmitBusy b \<Rightarrow> Some (SrBusy (doing_json b now))
   | SubmitGo \<Rightarrow> None)"

text \<open>\<open>UbusDevice::write\<close>: the call under the cross-process lock; afterwards the cache is void.\<close>

definition dev_write :: "'b outside \<Rightarrow> spec \<Rightarrow> string \<Rightarrow> ('b, write_error + json) route" where
  "dev_write W sp val =
     (if s_item sp \<noteq> network_mode
      then State_Monad.return (Err \<lparr>we_message = ''no writer for '' @ s_item sp, we_timed_out = False\<rparr>)
      else do {
        await W;
        trace_ev RLock;
        trace_ev (RWrite sp val);
        r \<leftarrow> on_device W (dev_write_call (o_env W) sp val);
        trace_ev RUnlock;
        forget_cache;
        (case r of Ok _ \<Rightarrow> trace_ev (RMark None) | Err _ \<Rightarrow> State_Monad.return ());
        State_Monad.return r
      })"

definition write_result_of :: "write_error + json \<Rightarrow> write_result" where
  "write_result_of r = (case r of Ok _ \<Rightarrow> WriteOk | Err e \<Rightarrow> if we_timed_out e then WriteTimedOut else WriteFailed)"

definition on_engine :: "('b engine \<Rightarrow> 'b engine) \<Rightarrow> ('b, unit) route" where
  "on_engine f = State (\<lambda>k. ((), k\<lparr>k_eng := f (k_eng k)\<rparr>))"

text \<open>The second half of \<open>submit\<close>: the intent is on flash, the write goes out.\<close>

definition submit_write :: "'b outside \<Rightarrow> request \<Rightarrow> string \<Rightarrow> ('b, submit_reply) route" where
  "submit_write W req opid = do {
     r \<leftarrow> dev_write W (q_spec req) (q_target req);
     on_engine (e_note_owner req opid (write_result_of r));
     (live, op) \<leftarrow> locked W (\<lambda>now e. let (live, e') = e_submit_applied opid (write_result_of r) now e
        in ((live, jopt id (find_json opid now e')), e'));
     trace_ev (if live then RSpawn opid else RKick);
     State_Monad.return (SrApplied (map_sum we_message id r) op)
   }"

definition submit :: "'b outside \<Rightarrow> request \<Rightarrow> string option \<Rightarrow> ('b, submit_reply) route" where
  "submit W req given = do {
     opid \<leftarrow> (case given of Some i \<Rightarrow> State_Monad.return i | None \<Rightarrow> peek (o_id W));
     c \<leftarrow> locked W (\<lambda>now e. (check_reply opid now e (e_submit_check req opid now e), e));
     case c of
       Some r \<Rightarrow> State_Monad.return r
     | None \<Rightarrow> do {
         now \<leftarrow> read_clock W;
         rd \<leftarrow> on_device W (dev_read (o_env W) now (q_spec req));
         case e_capture rd of
           Err e \<Rightarrow> State_Monad.return (SrNoCapture e)
         | Ok cap \<Rightarrow> do {
             c \<leftarrow> locked W (\<lambda>now e. let (c, e') = e_submit_begin (e_var (o_env W)) (o_boot W) req opid cap now e
                in (check_reply opid now e c, e'));
             case c of Some r \<Rightarrow> State_Monad.return r | None \<Rightarrow> submit_write W req opid
           }
       }
   }"

section \<open>Requests of the write layer\<close>

definition error_text :: "op_error \<Rightarrow> string" where
  "error_text e = (case e of
     NoSuchChange \<Rightarrow> ''no such change in progress''
   | Refused AlreadyRollingBack \<Rightarrow> ''already rolling back''
   | Refused AlreadyFinished \<Rightarrow> ''change already finished''
   | Refused StillApplying \<Rightarrow> ''change is still being applied'')"

definition invalid_state :: "string \<Rightarrow> string \<Rightarrow> response" where
  "invalid_state act m = route_error act 409 ''invalid_state'' m None"

definition in_progress :: "string \<Rightarrow> json \<Rightarrow> response" where
  "in_progress act doing = route_error act 409 ''busy'' ''another change is in progress'' (Some (''doing'', doing))"

definition no_session :: "string \<Rightarrow> response" where
  "no_session act = invalid_state act ''no such session (ended or expired)''"

definition status_json :: "string option \<Rightarrow> u64 \<Rightarrow> 'b engine \<Rightarrow> json" where
  "status_json opid now e = (case opid of
     Some i \<Rightarrow> jopt id (find_json i now e)
   | None \<Rightarrow> (case e_active e of
        Some t \<Rightarrow> txn_status t now
      | None \<Rightarrow> if e_recent e = [] then JNull else txn_status (List.last (e_recent e)) now))"

definition op_ack :: "'b outside \<Rightarrow> string \<Rightarrow> json \<Rightarrow> string option \<Rightarrow> ('b, response) route" where
  "op_ack W act b opid = (case opid of
     None \<Rightarrow> State_Monad.return (invalid_parameter act ''missing parameter: op_id'')
   | Some i \<Rightarrow>
       (case screen_or_web b of
          None \<Rightarrow> State_Monad.return (invalid_parameter act ''op.ack needs source screen or web'')
        | Some src \<Rightarrow> do {
            ok \<leftarrow> locked W (\<lambda>now e. e_ack i src now e);
            State_Monad.return (if ok then control_ok act (jobj [(''op_id'', JString i), (''acked'', JBool True)])
              else invalid_state act ''not the latest finished change'')
          }))"

definition op_interrupt :: "'b outside \<Rightarrow> string \<Rightarrow> Txn.source \<Rightarrow> string \<Rightarrow> ('b, response) route" where
  "op_interrupt W act src what = do {
     r \<leftarrow> locked W (\<lambda>now e. e_interrupt src what now e);
     case r of
       None \<Rightarrow> State_Monad.return (control_ok act (jobj [(''interrupted'', JBool False)]))
     | Some i \<Rightarrow> do {
         trace_ev RKick;
         State_Monad.return (control_ok act (jobj [(''interrupted'', JBool True), (''op_id'', JString i)]))
       }
   }"

definition op_interrupt_or_notice :: "'b outside \<Rightarrow> string \<Rightarrow> json \<Rightarrow> ('b, response) route" where
  "op_interrupt_or_notice W act b =
     (let what = text_param ''what'' (body_params b)
      in if act = ''op.interrupt'' \<and> what = None
         then State_Monad.return (invalid_parameter act ''missing parameter: what'')
         else
           (case screen_or_web b of
              None \<Rightarrow> State_Monad.return (invalid_parameter act (act @ '' needs source screen or web''))
            | Some src \<Rightarrow>
                (case what of
                   Some w \<Rightarrow> if act = ''op.interrupt'' then op_interrupt W act src w else do {
                     locked W (\<lambda>now e. ((), e_notice_ack src now e));
                     State_Monad.return (control_ok act (jobj [(''notice'', JString notice_rollback_on), (''acked'', JBool True)]))
                   }
                 | None \<Rightarrow> do {
                     locked W (\<lambda>now e. ((), e_notice_ack src now e));
                     State_Monad.return (control_ok act (jobj [(''notice'', JString notice_rollback_on), (''acked'', JBool True)]))
                   })))"

definition op_revert :: "'b outside \<Rightarrow> string \<Rightarrow> string \<Rightarrow> ('b, response) route" where
  "op_revert W act i = do {
     r \<leftarrow> locked W (\<lambda>now e. let (r, e') = e_revert i now e in (map_sum id (\<lambda>t. txn_status t now) r, e'));
     case r of
       Err x \<Rightarrow> State_Monad.return (invalid_state act (error_text x))
     | Ok v \<Rightarrow> do { trace_ev RWake; State_Monad.return (control_ok act v) }
   }"

definition op_keep :: "'b outside \<Rightarrow> string \<Rightarrow> string \<Rightarrow> ('b, response) route" where
  "op_keep W act i = do {
     r \<leftarrow> locked W (\<lambda>now e. let (r, e') = e_keep i now e in (map_sum id (\<lambda>_. jopt id (find_json i now e')) r, e'));
     case r of
       Err x \<Rightarrow> State_Monad.return (invalid_state act (error_text x))
     | Ok v \<Rightarrow> do { trace_ev RKick; State_Monad.return (control_ok act v) }
   }"

definition op_revert_or_keep :: "'b outside \<Rightarrow> string \<Rightarrow> string option \<Rightarrow> ('b, response) route" where
  "op_revert_or_keep W act opid = (case opid of
     None \<Rightarrow> State_Monad.return (invalid_parameter act ''missing parameter: op_id'')
   | Some i \<Rightarrow> if act = ''op.revert'' then op_revert W act i else op_keep W act i)"

text \<open>The first \<open>match\<close> of \<open>ops_route\<close>: requests that need no device.\<close>

definition op_requests :: "string list" where
  "op_requests = [''op.status'', ''journal.append'', ''journal.list'', ''op.ack'', ''op.interrupt'', ''op.notice_ack'',
     ''op.revert'', ''op.keep'']"

definition op_request :: "'b outside \<Rightarrow> string \<Rightarrow> json \<Rightarrow> ('b, response) route" where
  "op_request W act b =
     (let opid = Option.bind (jget ''op_id'' (body_params b)) as_str
      in if act = ''op.status'' then do {
           v \<leftarrow> locked W (\<lambda>now e. (status_json opid now e, e));
           State_Monad.return (control_ok act v)
         }
         else if act = ''journal.append'' then journal_append W act b
         else if act = ''journal.list'' then journal_list W act b
         else if act = ''op.ack'' then op_ack W act b opid
         else if act = ''op.interrupt'' \<or> act = ''op.notice_ack'' then op_interrupt_or_notice W act b
         else op_revert_or_keep W act opid)"

section \<open>Sessions\<close>

definition session_open_route :: "'b outside \<Rightarrow> string \<Rightarrow> Txn.source \<Rightarrow> ('b, response) route" where
  "session_open_route W act src = do {
     sid \<leftarrow> peek (o_id W);
     r \<leftarrow> locked W (\<lambda>now e. let (r, e') = e_session_open sid src now e in (map_sum (\<lambda>b. doing_json b now) id r, e'));
     case r of
       Err doing \<Rightarrow> State_Monad.return (in_progress act doing)
     | Ok s \<Rightarrow> do {
         trace_ev (RWatch (ss_id s));
         State_Monad.return (control_ok act (jobj [(''session'', JString (ss_id s)), (''max_ms'', json_u64 session_max_ms),
           (''lease_ms'', json_u64 session_lease_ms)]))
       }
   }"

definition session_renew_route :: "'b outside \<Rightarrow> string \<Rightarrow> string \<Rightarrow> ('b, response) route" where
  "session_renew_route W act i = do {
     r \<leftarrow> locked W (\<lambda>now e. e_session_renew i now e);
     State_Monad.return (case r of
       None \<Rightarrow> no_session act
     | Some left \<Rightarrow> control_ok act (jobj [(''session'', JString i), (''left_ms'', json_u64 left)]))
   }"

definition session_close_route :: "'b outside \<Rightarrow> string \<Rightarrow> string \<Rightarrow> string option \<Rightarrow> ('b, response) route" where
  "session_close_route W act i result = do {
     ok \<leftarrow> locked W (\<lambda>now e. e_session_close i result now e);
     if ok then do { trace_ev RKick; State_Monad.return (control_ok act (jobj [(''session'', JString i)])) }
     else State_Monad.return (no_session act)
   }"

definition session_request :: "'b outside \<Rightarrow> string \<Rightarrow> json \<Rightarrow> Txn.source \<Rightarrow> ('b, response) route" where
  "session_request W act b src =
     (if act = ''netselect.session.open'' then session_open_route W act src
      else case Option.bind (jget ''session'' (body_params b)) as_str of
        None \<Rightarrow> State_Monad.return (invalid_parameter act ''missing parameter: session'')
      | Some i \<Rightarrow>
          if act = ''netselect.session.renew'' then session_renew_route W act i
          else session_close_route W act i (Option.bind (jget ''result'' (body_params b)) as_str))"

definition session_requests :: "string list" where
  "session_requests = [''netselect.session.open'', ''netselect.session.renew'', ''netselect.session.close'']"

definition session_refusal :: "'b outside \<Rightarrow> string \<Rightarrow> json \<Rightarrow> ('b, response option) route" where
  "session_refusal W act b =
     (if is_safety act (body_params b) then State_Monad.return None
      else locked W (\<lambda>now e. let (g, e') = e_session_gate act (Option.bind (jget ''session'' b) as_str) now e
        in (case g of SgOk \<Rightarrow> None | SgBusy s \<Rightarrow> Some (in_progress act (doing_session s now)) | SgGone \<Rightarrow> Some (no_session act), e')))"

section \<open>A described write as a transaction\<close>

definition submit_answer :: "string \<Rightarrow> submit_reply \<Rightarrow> response" where
  "submit_answer act s = (case s of
     SrExisting op \<Rightarrow> Reply 200 (jobj [(''ok'', JBool True), (''action'', JString act), (''op'', op)])
   | SrBusy doing \<Rightarrow> in_progress act doing
   | SrNoCapture e \<Rightarrow> control_failed act e
   | SrApplied (Ok v) op \<Rightarrow> Reply 200 (jobj [(''ok'', JBool True), (''action'', JString act), (''result'', v), (''op'', op)])
   | SrApplied (Err e) op \<Rightarrow> route_error act 502 ''device_call_failed'' e (Some (''op'', op)))"

text \<open>The \<open>op_id\<close> of the request: absent, valid, or refused.\<close>

definition given_op_id :: "json \<Rightarrow> string option option" where
  "given_op_id b = (case jget ''op_id'' b of
     None \<Rightarrow> Some None
   | Some (JString s) \<Rightarrow> if valid_op_id s then Some (Some s) else None
   | Some _ \<Rightarrow> None)"

definition described_write :: "'b outside \<Rightarrow> string \<Rightarrow> json \<Rightarrow> Txn.source \<Rightarrow> spec \<Rightarrow> ('b, response) route" where
  "described_write W act b src sp =
     (case spec_target sp (body_params b) of
        Err e \<Rightarrow> State_Monad.return (invalid_parameter act (param_text e))
      | Ok tgt \<Rightarrow>
          (case given_op_id b of
             None \<Rightarrow> State_Monad.return (route_error act 400 ''invalid_request''
               (''op_id must be 1-64 letters, digits, '' @ utf8 [0x27, 0x2E, 0x27, 0x2C, 0x20, 0x27, 0x5F, 0x27] @ '' or '' @ utf8 [0x27, 0x2D, 0x27]) None)
           | Some given \<Rightarrow> do {
               s \<leftarrow> submit W \<lparr>q_spec = sp, q_target = tgt, q_source = src,
                 q_undo = (case Option.bind (jget ''undo'' b) as_bool of Some u \<Rightarrow> u | None \<Rightarrow> False)\<rparr> given;
               State_Monad.return (submit_answer act s)
             }))"

definition ops_route :: "'b outside \<Rightarrow> string \<Rightarrow> json \<Rightarrow> ('b, response option) route" where
  "ops_route W act b =
     (if act \<in> set op_requests then do { r \<leftarrow> op_request W act b; State_Monad.return (Some r) }
      else if (starts_with act ''netselect.'' \<or> act \<in> set session_optional) \<and> jget ''source'' b = None
      then State_Monad.return (Some (route_error act 400 ''invalid_request'' ''source required'' None))
      else if jget ''source'' b = None then State_Monad.return None
      else case body_source b of
        None \<Rightarrow> State_Monad.return (Some (route_error act 400 ''invalid_request'' ''unknown source'' None))
      | Some src \<Rightarrow>
          if act \<in> set session_requests then do { r \<leftarrow> session_request W act b src; State_Monad.return (Some r) }
          else do {
            g \<leftarrow> session_refusal W act b;
            case g of
              Some r \<Rightarrow> State_Monad.return (Some r)
            | None \<Rightarrow>
                (case spec_find act of
                   None \<Rightarrow> State_Monad.return None
                 | Some sp \<Rightarrow> do { r \<leftarrow> described_write W act b src sp; State_Monad.return (Some r) })
          })"

section \<open>A request\<close>

definition legacy_item :: "string \<Rightarrow> json \<Rightarrow> string option" where
  "legacy_item act b =
     (if jget ''source'' b \<noteq> None then None
      else case spec_find act of
        None \<Rightarrow> None
      | Some sp \<Rightarrow> if is_ok (spec_target sp (body_params b)) then Some (s_item sp) else None)"

definition enqueue :: "'b outside \<Rightarrow> string \<Rightarrow> string \<Rightarrow> json \<Rightarrow> ('b, response) route" where
  "enqueue W itm act b = do {
     locked W (\<lambda>now e. ((), e_enqueue_legacy (o_ser W) itm act (body_params b) now e));
     trace_ev RKick;
     State_Monad.return (legacy_queued act)
   }"

definition write_gate :: "'b outside \<Rightarrow> string \<Rightarrow> json \<Rightarrow> ('b, legacy_gate) route" where
  "write_gate W act b =
     (if jget ''source'' b \<noteq> None then
        (if is_safety act (body_params b)
         then locked W (\<lambda>now e. (GatePass, e_preempt (o_ser W) now e)) else State_Monad.return GatePass)
      else locked W (\<lambda>now e. e_legacy_gate (o_ser W) (legacy_item act b) (is_safety act (body_params b)) now e))"

definition run_write :: "'b outside \<Rightarrow> string \<Rightarrow> json \<Rightarrow> ('b, response) route" where
  "run_write W act b = do {
     (if act = ''device.reboot'' \<or> act = ''device.poweroff''
      then on_engine (e_drop_legacy (o_ser W) act) else State_Monad.return ());
     r \<leftarrow> run_control W act b;
     case r of
       Some resp \<Rightarrow> State_Monad.return resp
     | None \<Rightarrow>
         (if is_safety act (body_params b) then do { await W; control_job W act b }
          else case legacy_item act b of
            Some itm \<Rightarrow> enqueue W itm act b
          | None \<Rightarrow> State_Monad.return (control_busy act))
   }"

definition handle :: "'b outside \<Rightarrow> string \<Rightarrow> json \<Rightarrow> ('b, response) route" where
  "handle W act b = do {
     await W;
     if \<not> o_ready W then State_Monad.return (control_busy act)
     else do {
       r \<leftarrow> ops_route W act b;
       case r of
         Some resp \<Rightarrow> State_Monad.return resp
       | None \<Rightarrow> do {
           g \<leftarrow> write_gate W act b;
           case g of
             GateQueue \<Rightarrow>
               (case legacy_item act b of
                  None \<Rightarrow> State_Monad.return Abort
                | Some itm \<Rightarrow> enqueue W itm act b)
           | GatePass \<Rightarrow> run_write W act b
         }
     }
   }"

end
