(* ===== verification/Engine_Run.thy ===== *)
theory Engine_Run
  imports Engine
begin

text \<open>
  What the engine keeps, section by section, and over whole runs with restarts. \<open>engine_inv\<close> is the
  invariant; \<open>engine_event\<close> lists every section that the requests, the drivers and the background tasks
  run, with the inputs they get from outside; a run is any sequence of them, with restarts in between.
  Since every section may come at any moment with any input, this covers every interleaving of the
  tasks.
\<close>

section \<open>Readings that change nothing\<close>

lemma txn_same_trans: "txn_same u t \<Longrightarrow> txn_same t v \<Longrightarrow> txn_same u v"
  by (simp add: txn_same_def)

lemma txn_same_sym: "txn_same u t \<Longrightarrow> txn_same t u"
  by (simp add: txn_same_def)

lemma on_tick_same: "generation (snd (on_tick now t)) = generation t \<Longrightarrow> txn_same (snd (on_tick now t)) t"
  by (auto simp: on_tick_def Let_def expire_def txn_finish_def start_rollback_def txn_step_def split: if_splits)

lemma on_reading_same:
  assumes g: "generation (snd (on_reading r now t)) = generation t"
  shows "txn_same (snd (on_reading r now t)) t"
proof (cases "counting t")
  case True
  then show ?thesis
  proof (cases rule: on_reading_cases [of t r now])
    case (finish p why u)
    with g show ?thesis by (simp add: txn_finish_def txn_step_def txn_same_def)
  next
    case (tick u)
    with g have "generation (snd (on_tick now u)) = generation u" by (simp add: txn_same_def)
    from txn_same_trans [OF on_tick_same [OF this] tick(2)] tick(1) show ?thesis by simp
  qed
qed (simp add: on_reading_idle)

definition feed :: "reading option \<Rightarrow> u64 \<Rightarrow> txn \<Rightarrow> txn" where
  "feed r now t = snd (case r of Some rd \<Rightarrow> on_reading rd now t | None \<Rightarrow> on_tick now t)"

lemma feed_same: "generation (feed r now t) = generation t \<Longrightarrow> txn_same (feed r now t) t"
  by (cases r) (simp_all add: feed_def on_tick_same on_reading_same)

lemma feed_wf: "txn_wf t \<Longrightarrow> txn_wf (feed r now t)"
  by (cases r) (simp_all add: feed_def on_reading_wf)

lemma feed_ident [simp]: "txn_ident (feed r now t) = txn_ident t"
  by (cases r) (simp_all add: feed_def)

section \<open>Frame rules\<close>

lemma e_out_frame [simp]:
  "e_active (e_out x e) = e_active e" "e_session (e_out x e) = e_session e" "e_recent (e_out x e) = e_recent e"
  "e_legacy (e_out x e) = e_legacy e" "e_saved_seen_ms (e_out x e) = e_saved_seen_ms e" "e_last (e_out x e) = e_last e"
  "e_store (e_out x e) = e_store e" "cfg_rollback (e_out x e) = cfg_rollback e"
  "cfg_legacy_ttl_ms (e_out x e) = cfg_legacy_ttl_ms e" "e_notice_acked (e_out x e) = e_notice_acked e"
  by (simp_all add: e_out_def)

lemma e_publish_frame [simp]:
  "e_active (e_publish now e) = e_active e" "e_session (e_publish now e) = e_session e"
  "e_recent (e_publish now e) = e_recent e" "e_legacy (e_publish now e) = e_legacy e"
  "e_saved_seen_ms (e_publish now e) = e_saved_seen_ms e" "e_last (e_publish now e) = e_last e"
  "e_store (e_publish now e) = e_store e" "cfg_rollback (e_publish now e) = cfg_rollback e"
  "e_notice_acked (e_publish now e) = e_notice_acked e"
  by (simp_all add: e_publish_def)

lemma e_retire_Some:
  assumes "e_active e = Some t"
  shows "e_active (e_retire e) = None" "e_recent (e_retire e) = remember t (e_recent e)"
    "e_store (e_retire e) = save_last \<lparr>l_txn = t, l_acked = False\<rparr> (e_store e)"
    "e_last (e_retire e) = Some \<lparr>l_txn = t, l_acked = False\<rparr>"
    "e_session (e_retire e) = e_session e" "e_legacy (e_retire e) = e_legacy e"
    "cfg_rollback (e_retire e) = cfg_rollback e"
  using assms by (simp_all add: e_retire_def Let_def)

section \<open>The invariant\<close>

text \<open>
  \<open>shelf_ok\<close>: what does not concern the active transaction. \<open>synced\<close>: the pending file holds the active
  transaction as of its last change of phase (it may lag behind in what was merely observed since), and
  there is no pending file when no transaction is active.
\<close>

definition shelf_ok :: "'b engine \<Rightarrow> bool" where
  "shelf_ok e \<longleftrightarrow> store_good (e_store e) \<and> load_last (e_store e) = e_last e
     \<and> length (e_recent e) \<le> recent_cap \<and> (\<forall>t \<in> set (e_recent e). is_final (phase t))
     \<and> distinct (map lr_item (e_legacy e))"

definition synced :: "'b engine \<Rightarrow> bool" where
  "synced e \<longleftrightarrow> (e_active e = None \<longrightarrow> get_file pending_name (e_store e) = None)
     \<and> (\<forall>t. e_active e = Some t \<longrightarrow> (\<exists>t'. pending_txn (e_store e) = Some t' \<and> txn_same t' t \<and> txn_wf t'))"

definition active_ok :: "'b engine \<Rightarrow> bool" where
  "active_ok e \<longleftrightarrow> (\<forall>t. e_active e = Some t \<longrightarrow> txn_wf t \<and> \<not> is_final (phase t) \<and> e_session e = None)"

definition engine_inv :: "'b engine \<Rightarrow> bool" where
  "engine_inv e \<longleftrightarrow> shelf_ok e \<and> active_ok e \<and> synced e"

lemma shelf_ok_frame [simp]:
  "shelf_ok (e_publish now e) = shelf_ok e" "shelf_ok (e_out x e) = shelf_ok e"
  "shelf_ok (e\<lparr>e_active := a\<rparr>) = shelf_ok e" "shelf_ok (e\<lparr>e_session := s\<rparr>) = shelf_ok e"
  "shelf_ok (e\<lparr>e_saved_seen_ms := m\<rparr>) = shelf_ok e" "shelf_ok (e\<lparr>e_outs := os\<rparr>) = shelf_ok e"
  "shelf_ok (e\<lparr>e_notice_acked := b\<rparr>) = shelf_ok e" "shelf_ok (e\<lparr>e_observed := b\<rparr>) = shelf_ok e"
  by (simp_all add: shelf_ok_def)

lemma engine_inv_frame [simp]:
  "engine_inv (e_publish now e) = engine_inv e" "engine_inv (e_out x e) = engine_inv e"
  "engine_inv (e\<lparr>e_outs := os\<rparr>) = engine_inv e" "engine_inv (e\<lparr>e_notice_acked := b\<rparr>) = engine_inv e"
  "engine_inv (e\<lparr>e_observed := b\<rparr>) = engine_inv e"
  by (simp_all add: engine_inv_def active_ok_def synced_def)

lemma save_last_frame [simp]:
  "store_good s \<Longrightarrow> store_good (save_last l s)"
  "store_good s \<Longrightarrow> pending_txn (save_last l s) = pending_txn s"
  "store_good s \<Longrightarrow> get_file pending_name (save_last l s) = get_file pending_name s"
  using pstore.good_other [of s "Inl l"] pstore.pending_other [of s "Inl l"]
  by (simp_all add: save_aside_def) (simp add: save_last_def get_put_file file_names)

lemma names_distinct:
  "pending_name \<noteq> notice_name" "pending_name \<noteq> tmp_name notice_name"
  "last_name \<noteq> notice_name" "last_name \<noteq> tmp_name notice_name"
  "pending_name \<noteq> last_name" "pending_name \<noteq> tmp_name last_name"
  by (simp_all add: file_names)

lemma save_notice_frame [simp]:
  "store_good s \<Longrightarrow> store_good (save_notice_ack n s)"
  "store_good s \<Longrightarrow> pending_txn (save_notice_ack n s) = pending_txn s"
  "store_good s \<Longrightarrow> get_file pending_name (save_notice_ack n s) = get_file pending_name s"
  "store_good s \<Longrightarrow> load_last (save_notice_ack n s) = load_last s"
proof -
  assume g: "store_good s"
  show "store_good (save_notice_ack n s)" "pending_txn (save_notice_ack n s) = pending_txn s"
    using pstore.good_other [OF g, of "Inr n"] pstore.pending_other [OF g, of "Inr n"] by (simp_all add: save_aside_def)
  show "get_file pending_name (save_notice_ack n s) = get_file pending_name s"
    "load_last (save_notice_ack n s) = load_last s"
    using g names_distinct by (simp_all add: save_notice_ack_def Let_def load_last_def get_put_file)
qed

lemma remember_ok:
  "length rs \<le> recent_cap \<Longrightarrow> length (remember t rs) \<le> recent_cap"
  "set (remember t rs) \<subseteq> insert t (set rs)"
  by (simp add: remember_def recent_cap_def)
    (cases rs, auto simp: remember_def split: if_splits)

lemma shelf_ok_retire:
  assumes "shelf_ok e" "e_active e = Some t" "is_final (phase t)"
  shows "shelf_ok (e_retire e)"
proof -
  have "store_good (e_store e)" using assms(1) by (simp add: shelf_ok_def)
  with assms remember_ok [where t = t and rs = "e_recent e"] show ?thesis
    by (auto simp: shelf_ok_def e_retire_Some [OF assms(2)] load_last_save_last)
qed

lemma shelf_ok_store:
  assumes "shelf_ok e"
  shows "shelf_ok (e\<lparr>e_store := save t (e_store e)\<rparr>)" "shelf_ok (e\<lparr>e_store := clear (e_store e)\<rparr>)"
  using assms by (simp_all add: shelf_ok_def)

lemma store_update_active [simp]:
  "active_ok (e\<lparr>e_store := s\<rparr>) = active_ok e" "active_ok (e\<lparr>e_saved_seen_ms := m\<rparr>) = active_ok e"
  "active_ok (e_publish now e) = active_ok e"
  by (simp_all add: active_ok_def)

text \<open>Finishing: a final transaction leaves, the pending file goes with it.\<close>

lemma finish_inv:
  assumes "shelf_ok e" "e_active e = Some t" "txn_wf t" "e_session e = None" "is_final (phase t) \<or> synced e"
  shows "engine_inv (e_finish now e)"
proof (cases "is_final (phase t)")
  case True
  let ?r = "e_retire e"
  have sh: "shelf_ok ?r" using shelf_ok_retire [OF assms(1,2) True] .
  then have "store_good (e_store ?r)" by (simp add: shelf_ok_def)
  then have "engine_inv (?r\<lparr>e_store := clear (e_store ?r)\<rparr>)"
    using shelf_ok_store(2) [OF sh] by (simp add: engine_inv_def active_ok_def synced_def e_retire_Some(1) [OF assms(2)] get_clear)
  with True assms(2) show ?thesis by (simp add: e_finish_def Let_def)
next
  case False
  with assms show ?thesis by (simp add: e_finish_def engine_inv_def active_ok_def)
qed

lemma persist_force_inv:
  assumes "shelf_ok e" "e_active e = Some t" "txn_wf t" "\<not> is_final (phase t)" "e_session e = None"
  shows "engine_inv (e_persist now True e)"
proof -
  have g: "store_good (e_store e)" using assms(1) by (simp add: shelf_ok_def)
  have "shelf_ok (e\<lparr>e_store := save t (e_store e)\<rparr>)" by (rule shelf_ok_store [OF assms(1)])
  then have "shelf_ok (e_persist now True e)"
    using assms(2,4) g by (simp add: e_persist_def Let_def shelf_ok_def)
  with assms g show ?thesis
    by (simp add: engine_inv_def active_ok_def synced_def e_persist_def Let_def)
qed

lemma engine_invD:
  assumes "engine_inv e"
  shows "shelf_ok e" "synced e" "store_good (e_store e)"
    "e_active e = Some t \<Longrightarrow> txn_wf t" "e_active e = Some t \<Longrightarrow> \<not> is_final (phase t)"
    "e_active e = Some t \<Longrightarrow> e_session e = None"
  using assms by (auto simp: engine_inv_def active_ok_def shelf_ok_def)

lemma e_live_SomeD: "e_live opid e = Some t \<Longrightarrow> e_active e = Some t \<and> op_id t = opid"
  by (auto simp: e_live_def split: option.splits if_splits)

text \<open>Giving the active transaction a new form, saved at once.\<close>

lemma update_active_inv:
  assumes "engine_inv e" "e_active e = Some t" "txn_wf t'" "\<not> is_final (phase t')"
  shows "engine_inv (e_persist now True (e\<lparr>e_active := Some t'\<rparr>))"
  using assms engine_invD [OF assms(1)] by (intro persist_force_inv [of _ t']) simp_all

lemma persist_inv:
  assumes "engine_inv e"
  shows "engine_inv (e_persist now True e)"
proof (cases "e_active e")
  case None
  with assms show ?thesis by (simp add: e_persist_def)
next
  case (Some t)
  with assms show ?thesis by (intro persist_force_inv [of _ t]) (simp_all add: engine_invD)
qed

lemma cancel_inv:
  assumes "engine_inv e" "why \<in> set cancel_reasons"
  shows "engine_inv (e_cancel now why e)"
proof (cases "e_active e")
  case None
  with assms show ?thesis by (simp add: e_cancel_def e_finish_def engine_inv_def active_ok_def synced_def)
next
  case (Some t)
  note D = engine_invD [OF assms(1)]
  have "is_final (phase (txn_cancel why t))" using D(5) [OF Some] by (simp add: txn_cancel_def)
  moreover have "txn_wf (txn_cancel why t)" using D(4) [OF Some] assms(2) by (rule txn_cancel_wf)
  ultimately show ?thesis unfolding e_cancel_def
    using Some D by (intro finish_inv [of _ "txn_cancel why t"]) simp_all
qed

lemma drop_legacy_inv: "engine_inv e \<Longrightarrow> engine_inv (e_drop_legacy ser why e)"
  by (simp add: e_drop_legacy_def engine_inv_def shelf_ok_def active_ok_def synced_def)

lemma preempt_inv: "engine_inv e \<Longrightarrow> engine_inv (e_preempt ser now e)"
  by (simp add: e_preempt_def drop_legacy_inv cancel_inv cancel_reasons_def)

lemma legacy_gate_inv: "engine_inv e \<Longrightarrow> engine_inv (snd (e_legacy_gate ser itm safety now e))"
  by (simp add: e_legacy_gate_def preempt_inv cancel_inv cancel_reasons_def split: option.split)

lemma legacy_inv:
  "engine_inv e \<Longrightarrow> distinct (map lr_item rs) \<Longrightarrow> engine_inv (e\<lparr>e_legacy := rs\<rparr>)"
  by (simp add: engine_inv_def shelf_ok_def active_ok_def synced_def)

lemma engine_inv_legacy: "engine_inv e \<Longrightarrow> distinct (map lr_item (e_legacy e))"
  by (simp add: engine_inv_def shelf_ok_def)

lemma enqueue_inv:
  assumes "engine_inv e"
  shows "engine_inv (e_enqueue_legacy ser itm act params now e)"
proof -
  have "distinct (map lr_item (filter (\<lambda>x. lr_item x \<noteq> itm) (e_legacy e)))"
    using engine_inv_legacy [OF assms] by (simp add: distinct_map_filter)
  then have "engine_inv (e\<lparr>e_legacy := filter (\<lambda>x. lr_item x \<noteq> itm) (e_legacy e)
      @ [\<lparr>lr_item = itm, lr_action = act, lr_params = params, lr_at_ms = now\<rparr>]\<rparr>)"
    by (intro legacy_inv [OF assms]) auto
  then show ?thesis by (simp add: e_enqueue_legacy_def Let_def)
qed

lemma take_legacy_inv:
  assumes "engine_inv e"
  shows "engine_inv (snd (e_take_legacy ser now e))"
proof -
  let ?f = "filter (\<lambda>r. sat_sub now (lr_at_ms r) < cfg_legacy_ttl_ms e) (e_legacy e)"
  have d: "distinct (map lr_item ?f)"
    using engine_inv_legacy [OF assms] by (simp add: distinct_map_filter)
  show ?thesis
  proof (cases ?f)
    case Nil
    with legacy_inv [of "e\<lparr>e_outs := os\<rparr>" "[]" for os] assms show ?thesis by (simp add: e_take_legacy_def Let_def)
  next
    case (Cons r rs)
    with d have "distinct (map lr_item rs)" by simp
    with legacy_inv [of "e\<lparr>e_outs := os\<rparr>" rs for os] Cons assms show ?thesis by (simp add: e_take_legacy_def Let_def)
  qed
qed

lemma put_back_inv:
  assumes "engine_inv e"
  shows "engine_inv (e_put_back r e)"
proof (cases "list_ex (\<lambda>x. lr_item x = lr_item r) (e_legacy e)")
  case False
  then have "distinct (map lr_item (r # e_legacy e))"
    using engine_inv_legacy [OF assms] by (auto simp: list_ex_iff)
  with False legacy_inv [OF assms] show ?thesis by (simp add: e_put_back_def)
qed (simp add: e_put_back_def assms)

lemma submit_begin_inv:
  assumes inv: "engine_inv e"
  shows "engine_inv (snd (e_submit_begin env bid req opid c now e))"
proof (cases "e_submit_check req opid now e")
  case SubmitGo
  then have ses: "e_session e = None" by (auto simp: e_submit_check_def split: option.splits)
  let ?t = "e_new_txn env bid req opid c (map_option rollback_to (e_active e)) (cfg_rollback e) now"
  have t: "txn_wf ?t" "\<not> is_final (phase ?t)"
    by (simp_all add: e_new_txn_def begin_apply_new_wf) (simp add: begin_apply_def txn_step_def)
  show ?thesis
  proof (cases "e_active e")
    case None
    with SubmitGo ses t engine_invD [OF inv] show ?thesis
      by (simp add: e_submit_begin_def Let_def persist_force_inv)
  next
    case (Some a)
    let ?e = "e\<lparr>e_active := Some (txn_cancel Superseded a)\<rparr>"
    have fin: "is_final (phase (txn_cancel Superseded a))"
      using engine_invD(5) [OF inv Some] by (simp add: txn_cancel_def)
    have sh: "shelf_ok (e_retire ?e)"
      by (rule shelf_ok_retire [where t = "txn_cancel Superseded a"]) (simp_all add: fin engine_invD(1) [OF inv])
    have "engine_inv (e_persist now True ((e_retire ?e)\<lparr>e_active := Some ?t\<rparr>))"
      by (rule persist_force_inv [where t = ?t]) (use sh t ses in \<open>simp_all add: e_retire_Some\<close>)
    then show ?thesis using SubmitGo Some
      by (simp add: e_submit_begin_def Let_def e_retire_Some)
  qed
qed (simp_all add: e_submit_begin_def inv)

lemma submit_applied_inv:
  assumes "engine_inv e"
  shows "engine_inv (snd (e_submit_applied opid w now e))"
proof (cases "e_live opid e")
  case None
  with assms show ?thesis by (simp add: e_submit_applied_def persist_inv)
next
  case (Some t)
  then have a: "e_active e = Some t" by (simp add: e_live_SomeD)
  note D = engine_invD [OF assms]
  have "\<not> is_final (phase (txn_applied (applied_of w) now t))"
    using D(5) [OF a] by (simp add: txn_applied_def txn_step_def)
  with Some update_active_inv [OF assms a txn_applied_wf [OF D(4) [OF a]]] show ?thesis
    by (simp add: e_submit_applied_def)
qed

lemma drive_feed_inv:
  assumes inv: "engine_inv e"
  shows "engine_inv (snd (e_drive_feed opid g r now e))"
proof (cases "\<exists>t. e_live opid e = Some t \<and> generation t = g")
  case False
  with inv show ?thesis by (auto simp: e_drive_feed_def split: option.split)
next
  case True
  then obtain t where t: "e_live opid e = Some t" "generation t = g" by blast
  then have a: "e_active e = Some t" by (simp add: e_live_SomeD)
  note D = engine_invD [OF inv]
  let ?t = "feed r now t"
  let ?e = "e\<lparr>e_active := Some ?t\<rparr>"
  let ?p = "e_persist now (generation ?t \<noteq> g) ?e"
  have wf: "txn_wf ?t" by (rule feed_wf [OF D(4) [OF a]])
  have eq: "snd (e_drive_feed opid g r now e) = e_finish now ?p"
    using t by (simp add: e_drive_feed_def Let_def feed_def)
  have frame: "e_active ?p = Some ?t" "e_session ?p = None"
    using D(6) [OF a] by (simp_all add: e_persist_def Let_def)
  have shelf: "shelf_ok ?p"
    using D(1) by (simp add: e_persist_def Let_def shelf_ok_def)
  have "synced ?p" if nf: "\<not> is_final (phase ?t)"
  proof (cases "generation ?t = g")
    case False
    with persist_force_inv [of ?e ?t now] wf nf D a show ?thesis by (simp add: engine_inv_def)
  next
    case True
    then have same: "txn_same ?t t" using feed_same [of r now t] t(2) by simp
    from D(2) a obtain t' where t': "pending_txn (e_store e) = Some t'" "txn_same t' t" "txn_wf t'"
      by (auto simp: synced_def)
    from t'(2) same have "txn_same t' ?t" by (metis txn_same_sym txn_same_trans)
    with t' nf wf True D(3) show ?thesis by (auto simp: synced_def e_persist_def Let_def)
  qed
  with shelf frame wf show ?thesis unfolding eq by (intro finish_inv [where t = ?t]) auto
qed

lemma rollback_check_inv: "engine_inv e \<Longrightarrow> engine_inv (snd (e_rollback_check opid r now e))"
  by (simp add: e_rollback_check_def cancel_inv cancel_reasons_def split: option.split sim_verdict.split)

lemma rollback_sent_inv:
  assumes "engine_inv e"
  shows "engine_inv (e_rollback_sent opid now e)"
proof (cases "e_live opid e")
  case (Some t)
  then have a: "e_active e = Some t" by (simp add: e_live_SomeD)
  note D = engine_invD [OF assms]
  have "\<not> is_final (phase (txn_rollback_sent now t))"
    using D(5) [OF a] by (simp add: txn_rollback_sent_def reset_probe_def Let_def)
  with Some update_active_inv [OF assms a txn_rollback_sent_wf [OF D(4) [OF a]]] show ?thesis
    by (simp add: e_rollback_sent_def)
qed (simp add: e_rollback_sent_def assms)

lemma revert_inv:
  assumes "engine_inv e"
  shows "engine_inv (snd (e_revert opid now e))"
proof (cases "\<exists>t n t'. e_live opid e = Some t \<and> txn_revert t = Ok (n, t')")
  case False
  with assms show ?thesis by (auto simp: e_revert_def split: option.split sum.split)
next
  case True
  then obtain t n t' where t: "e_live opid e = Some t" "txn_revert t = Ok (n, t')" by blast
  then have a: "e_active e = Some t" by (simp add: e_live_SomeD)
  have "t' = snd (start_rollback UserRevert t)" "phase t = Verifying"
    using t(2) by (auto simp: txn_revert_def split: if_splits)
  with engine_invD(4) [OF assms a] have "txn_wf t'" "\<not> is_final (phase t')"
    by (simp_all add: start_rollback_wf)
  with t update_active_inv [OF assms a] show ?thesis by (simp add: e_revert_def)
qed

lemma keep_inv:
  assumes "engine_inv e"
  shows "engine_inv (snd (e_keep opid now e))"
proof (cases "\<exists>t t'. e_live opid e = Some t \<and> txn_keep t = Ok t'")
  case False
  with assms show ?thesis by (auto simp: e_keep_def split: option.split sum.split)
next
  case True
  then obtain t t' where t: "e_live opid e = Some t" "txn_keep t = Ok t'" by blast
  then have a: "e_active e = Some t" by (simp add: e_live_SomeD)
  note D = engine_invD [OF assms]
  have "snd (txn_exec EvKeep t) = t'" by (simp add: txn_exec_def t(2))
  with txn_exec_wf [of t EvKeep] D(4) [OF a] have wf: "txn_wf t'" by (simp add: event_ok_def)
  have "is_final (phase t')" using t(2) by (auto simp: txn_keep_def split: if_splits)
  with wf D a have "engine_inv (e_finish now (e\<lparr>e_active := Some t'\<rparr>))"
    by (intro finish_inv [where t = t']) auto
  with t show ?thesis by (simp add: e_keep_def Let_def)
qed

lemma session_inv: "engine_inv e \<Longrightarrow> e_active e = None \<or> s = None \<Longrightarrow> engine_inv (e\<lparr>e_session := s\<rparr>)"
  by (auto simp: engine_inv_def active_ok_def synced_def)

lemma session_active: "engine_inv e \<Longrightarrow> e_session e \<noteq> None \<Longrightarrow> e_active e = None"
  by (auto simp: engine_inv_def active_ok_def)

lemma reap_inv: "engine_inv e \<Longrightarrow> engine_inv (e_reap_session now e)"
  by (simp add: e_reap_session_def session_inv split: option.split)

lemma session_open_inv:
  assumes "engine_inv e"
  shows "engine_inv (snd (e_session_open sid src now e))"
proof -
  have r: "engine_inv (e_reap_session now e)" by (rule reap_inv [OF assms])
  then show ?thesis
    using session_inv [OF r] by (simp add: e_session_open_def Let_def split: option.split)
qed

lemma session_set_inv:
  assumes "engine_inv e" "e_session e = Some s"
  shows "engine_inv (e\<lparr>e_session := s'\<rparr>)"
  using session_inv [OF assms(1)] session_active [OF assms(1)] assms(2) by simp

lemma session_renew_inv: "engine_inv e \<Longrightarrow> engine_inv (snd (e_session_renew sid now e))"
  using reap_inv [of e now] by (auto simp: e_session_renew_def Let_def session_set_inv split: option.split)

lemma session_close_inv: "engine_inv e \<Longrightarrow> engine_inv (snd (e_session_close sid res now e))"
  using reap_inv [of e now] by (auto simp: e_session_close_def Let_def session_set_inv split: option.split)

lemma session_gate_inv: "engine_inv e \<Longrightarrow> engine_inv (snd (e_session_gate act sid now e))"
  using reap_inv [of e now] by (auto simp: e_session_gate_def Let_def session_set_inv split: option.split)

lemma last_inv:
  assumes "engine_inv e"
  shows "engine_inv (e\<lparr>e_last := Some l, e_store := save_last l (e_store e)\<rparr>)"
  using assms engine_invD(3) [OF assms]
  by (simp add: engine_inv_def shelf_ok_def active_ok_def synced_def load_last_save_last)

lemma ack_inv: "engine_inv e \<Longrightarrow> engine_inv (snd (e_ack opid src now e))"
  by (simp add: e_ack_def Let_def last_inv split: option.split)

lemma notice_ack_inv:
  assumes "engine_inv e"
  shows "engine_inv (e_notice_ack src now e)"
proof -
  have "engine_inv (e\<lparr>e_notice_acked := True, e_store := save_notice_ack notice_rollback_on (e_store e)\<rparr>)"
    using assms engine_invD(3) [OF assms]
    by (simp add: engine_inv_def shelf_ok_def active_ok_def synced_def)
  with assms show ?thesis by (simp add: e_notice_ack_def Let_def)
qed

lemma other_write_inv: "engine_inv e \<Longrightarrow> engine_inv (snd (e_other_write src now e))"
  by (simp add: e_other_write_def cancel_inv cancel_reasons_def split: option.split)

lemma interrupt_inv: "engine_inv e \<Longrightarrow> engine_inv (snd (e_interrupt src what now e))"
  by (simp add: e_interrupt_def cancel_inv cancel_reasons_def split: option.split)

section \<open>Restart\<close>

text \<open>A store the engine can start from: in order, and with no unreadable pending file.\<close>

definition startable :: "'b store \<Rightarrow> bool" where
  "startable s \<longleftrightarrow> store_good s \<and> (get_file pending_name s = None \<or>
     (\<exists>t. pending_txn s = Some t \<and> txn_wf t))"

lemma takeover_files:
  assumes "store_good s"
  shows "get_file pending_name (snd (take_takeover s)) = get_file pending_name s"
    "load_last (snd (take_takeover s)) = load_last s"
  using assms by (auto simp: take_takeover_def store_good_def get_file_def load_last_def read_remove_file file_names)

lemma adopt_inv:
  assumes sh: "shelf_ok e" and ses: "e_session e = None" and wf: "txn_wf t"
  shows "engine_inv (e_finish now (e_persist now True (e\<lparr>e_active := Some t\<rparr>)))"
proof -
  let ?p = "e_persist now True (e\<lparr>e_active := Some t\<rparr>)"
  have act: "e_active ?p = Some t" by (simp add: e_persist_def Let_def)
  show ?thesis
  proof (cases "is_final (phase t)")
    case True
    then have "shelf_ok ?p" "e_session ?p = None"
      using sh ses by (simp_all add: e_persist_def shelf_ok_def)
    with True wf act show ?thesis by (intro finish_inv [where t = t]) auto
  next
    case False
    have "engine_inv ?p"
      by (rule persist_force_inv [where t = t]) (use sh ses wf False in simp_all)
    with False act show ?thesis by (simp add: e_finish_def)
  qed
qed

lemma start_inv:
  assumes s: "startable s"
  shows "engine_inv (snd (e_start bid now (e_new rb ttl s)))"
proof -
  obtain tk s1 where tk: "take_takeover s = (tk, s1)" by fastforce
  then have s1: "snd (take_takeover s) = s1" by simp
  have g: "store_good s" using s by (simp add: startable_def)
  have g1: "store_good s1" "pending_txn s1 = pending_txn s" "get_file pending_name s1 = get_file pending_name s"
    "load_last s1 = load_last s"
    using takeover_good [OF g] takeover_files [OF g] by (simp_all add: s1)
  have "pending_txn s1 \<noteq> None \<or> get_file pending_name s1 = None"
    using s g1 by (auto simp: startable_def)
  then have l: "load s1 = (pending_txn s, s1)"
    using load_snd [of s1] load_fst [of s1] g1(2) by (metis prod.collapse)
  let ?e = "(e_new rb ttl s)\<lparr>e_store := s1\<rparr>"
  have sh: "shelf_ok ?e" using g1 by (simp add: shelf_ok_def e_new_def recent_cap_def)
  show ?thesis
  proof (cases "pending_txn s")
    case None
    with s have "get_file pending_name s1 = None" by (simp add: startable_def g1)
    with sh have "engine_inv ?e" by (simp add: engine_inv_def active_ok_def synced_def e_new_def)
    with None tk l show ?thesis by (simp add: e_start_def Let_def e_new_def)
  next
    case (Some t)
    have twf: "txn_wf t" using s Some by (auto simp: startable_def pending_txn_def)
    let ?t = "if tk then txn_cancel Takeover t else snd (txn_resume bid now t)"
    have wf: "txn_wf ?t"
      using twf txn_cancel_wf [of t Takeover] txn_exec_wf [of t "EvResume bid now"]
      by (simp add: cancel_reasons_def event_ok_def txn_exec_def)
    have "engine_inv (e_finish now (e_persist now True (?e\<lparr>e_active := Some ?t\<rparr>)))"
      by (rule adopt_inv [OF sh _ wf]) (simp add: e_new_def)
    with Some tk l show ?thesis by (simp add: e_start_def Let_def e_new_def)
  qed
qed

lemma engine_inv_startable:
  assumes "engine_inv e" "store_good s" "pending_txn s = pending_txn (e_store e)"
    "get_file pending_name s = get_file pending_name (e_store e)"
  shows "startable s"
  using assms by (cases "e_active e") (auto simp: engine_inv_def synced_def startable_def)

section \<open>Runs\<close>

datatype engine_event =
    XSubmit "string \<Rightarrow> string option" string request string capture u64
  | XOwner request string write_result
  | XApplied string write_result u64
  | XFeed string u64 "reading option" u64
  | XRollbackSave string u64
  | XRollbackCheck string "string + reading" u64
  | XRollbackSent string u64
  | XRevert string u64
  | XKeep string u64
  | XPreempt u64
  | XClearLegacy string
  | XLegacyGate "string option" bool u64
  | XEnqueue string string json u64
  | XTakeLegacy u64
  | XPutBack legacy_req
  | XAck string source u64
  | XNoticeAck source u64
  | XOtherWrite source u64
  | XInterrupt source string u64
  | XSessionOpen string source u64
  | XSessionRenew string u64
  | XSessionClose string "string option" u64
  | XSessionGate string "string option" u64
  | XReap u64
  | XPublish u64
  | XObserve u64

definition e_exec :: "(json \<Rightarrow> string) \<Rightarrow> engine_event \<Rightarrow> 'b engine \<Rightarrow> 'b engine" where
  "e_exec ser ev e = (case ev of
     XSubmit env bid req opid c now \<Rightarrow> snd (e_submit_begin env bid req opid c now e)
   | XOwner req opid w \<Rightarrow> e_note_owner req opid w e
   | XApplied opid w now \<Rightarrow> snd (e_submit_applied opid w now e)
   | XFeed opid g r now \<Rightarrow> snd (e_drive_feed opid g r now e)
   | XRollbackSave opid now \<Rightarrow> snd (e_rollback_save opid now e)
   | XRollbackCheck opid r now \<Rightarrow> snd (e_rollback_check opid r now e)
   | XRollbackSent opid now \<Rightarrow> e_rollback_sent opid now e
   | XRevert opid now \<Rightarrow> snd (e_revert opid now e)
   | XKeep opid now \<Rightarrow> snd (e_keep opid now e)
   | XPreempt now \<Rightarrow> e_preempt ser now e
   | XClearLegacy why \<Rightarrow> e_drop_legacy ser why e
   | XLegacyGate itm safety now \<Rightarrow> snd (e_legacy_gate ser itm safety now e)
   | XEnqueue itm act params now \<Rightarrow> e_enqueue_legacy ser itm act params now e
   | XTakeLegacy now \<Rightarrow> snd (e_take_legacy ser now e)
   | XPutBack r \<Rightarrow> e_put_back r e
   | XAck opid src now \<Rightarrow> snd (e_ack opid src now e)
   | XNoticeAck src now \<Rightarrow> e_notice_ack src now e
   | XOtherWrite src now \<Rightarrow> snd (e_other_write src now e)
   | XInterrupt src what now \<Rightarrow> snd (e_interrupt src what now e)
   | XSessionOpen sid src now \<Rightarrow> snd (e_session_open sid src now e)
   | XSessionRenew sid now \<Rightarrow> snd (e_session_renew sid now e)
   | XSessionClose sid res now \<Rightarrow> snd (e_session_close sid res now e)
   | XSessionGate act sid now \<Rightarrow> snd (e_session_gate act sid now e)
   | XReap now \<Rightarrow> e_reap_session now e
   | XPublish now \<Rightarrow> e_publish now e
   | XObserve now \<Rightarrow> set_observer now e)"

lemma e_exec_inv:
  assumes "engine_inv e"
  shows "engine_inv (e_exec ser ev e)"
proof (cases ev)
  case (XRollbackSave opid now)
  with assms show ?thesis by (simp add: e_exec_def e_rollback_save_def persist_inv)
qed (use assms in \<open>simp_all add: e_exec_def submit_begin_inv submit_applied_inv drive_feed_inv
       rollback_check_inv rollback_sent_inv revert_inv keep_inv preempt_inv drop_legacy_inv
       legacy_gate_inv enqueue_inv take_legacy_inv put_back_inv ack_inv notice_ack_inv other_write_inv
       interrupt_inv session_open_inv session_renew_inv session_close_inv session_gate_inv reap_inv
       set_observer_def e_note_owner_def\<close>)

text \<open>
  A run: start from a store, any events, and restarts. At a restart the memory is lost; the store is as
  it was, except that other programs may have left the takeover marker.
\<close>

definition same_files :: "'b store \<Rightarrow> 'b store \<Rightarrow> bool" where
  "same_files s s' \<longleftrightarrow> store_good s' \<and> codec s' = codec s
     \<and> get_file pending_name s' = get_file pending_name s \<and> get_file last_name s' = get_file last_name s"

inductive engine_reach :: "(json \<Rightarrow> string) \<Rightarrow> 'b engine \<Rightarrow> bool" for ser where
  boot: "startable s \<Longrightarrow> engine_reach ser (snd (e_start bid now (e_new rb ttl s)))"
| event: "engine_reach ser e \<Longrightarrow> engine_reach ser (e_exec ser ev e)"
| restart: "engine_reach ser e \<Longrightarrow> same_files (e_store e) s \<Longrightarrow>
    engine_reach ser (snd (e_start bid now (e_new rb ttl s)))"

lemma engine_reach_inv: "engine_reach ser e \<Longrightarrow> engine_inv e"
proof (induction rule: engine_reach.induct)
  case (restart e s bid now rb ttl)
  then have "startable s"
    by (intro engine_inv_startable [of e]) (simp_all add: same_files_def pending_txn_def)
  then show ?case by (rule start_inv)
qed (simp_all add: start_inv e_exec_inv)

lemma store_loss_same_files: "store_good s \<Longrightarrow> store_loss s s' \<Longrightarrow> same_files s s'"
  using power_loss_rest [of "disk s" "disk s'"]
  by (simp add: same_files_def store_good_def store_loss_def get_file_def)

section \<open>What happens to the active transaction\<close>

text \<open>
  A transaction that was active is still known to the engine after any section: it is still active, or
  it is the newest entry of the recent list.
\<close>

definition known :: "string \<Rightarrow> 'b engine \<Rightarrow> bool" where
  "known opid e \<longleftrightarrow> e_live opid e \<noteq> None \<or> find_recent opid e \<noteq> None"

lemma known_iff_find: "known opid e \<longleftrightarrow> e_find opid now e \<noteq> None"
  by (auto simp: known_def e_find_def split: option.splits)

lemma known_remember: "op_id t = opid \<Longrightarrow> e_recent e = remember t rs \<Longrightarrow> known opid e"
  by (auto simp: known_def find_recent_def remember_def)

lemma known_frame [simp]:
  "known opid (e_publish now e) = known opid e" "known opid (e_out x e) = known opid e"
  "known opid (e\<lparr>e_store := s\<rparr>) = known opid e" "known opid (e\<lparr>e_outs := os\<rparr>) = known opid e"
  "known opid (e\<lparr>e_legacy := ls\<rparr>) = known opid e" "known opid (e\<lparr>e_session := ss\<rparr>) = known opid e"
  "known opid (e\<lparr>e_last := l\<rparr>) = known opid e" "known opid (e\<lparr>e_notice_acked := b\<rparr>) = known opid e"
  "known opid (e\<lparr>e_saved_seen_ms := m\<rparr>) = known opid e" "known opid (e\<lparr>e_observed := b\<rparr>) = known opid e"
  by (simp_all add: known_def e_live_def find_recent_def)

lemma known_persist [simp]: "known opid (e_persist now f e) = known opid e"
  by (simp add: e_persist_def Let_def split: option.split)

lemma known_retire: "e_active e = Some t \<Longrightarrow> op_id t = opid \<Longrightarrow> known opid (e_retire e)"
  by (rule known_remember [where t = t and rs = "e_recent e"]) (simp_all add: e_retire_Some)

lemma known_active: "e_active e = Some t \<Longrightarrow> op_id t = opid \<Longrightarrow> known opid e"
  by (simp add: known_def e_live_def)

lemma known_finish: "e_active e = Some t \<Longrightarrow> op_id t = opid \<Longrightarrow> known opid (e_finish now e)"
  by (auto simp: e_finish_def Let_def intro: known_retire known_active)

lemma op_id_ident: "txn_ident u = txn_ident t \<Longrightarrow> op_id u = op_id t"
  by (simp add: txn_ident_def)

lemma cancel_op_id [simp]: "op_id (txn_cancel why t) = op_id t"
  by (rule op_id_ident) (simp add: txn_cancel_def)

lemma known_cancel: "e_active e = Some t \<Longrightarrow> op_id t = opid \<Longrightarrow> known opid (e_cancel now why e)"
  unfolding e_cancel_def by (rule known_finish [where t = "txn_cancel why t"]) simp_all

lemma known_submit:
  assumes a: "e_active e = Some t"
  shows "known (op_id t) (snd (e_submit_begin env bid req opid c now e))"
proof (cases "e_submit_check req opid now e")
  case SubmitGo
  let ?r = "e_retire (e\<lparr>e_active := Some (txn_cancel Superseded t)\<rparr>)"
  let ?n = "e_new_txn env bid req opid c (map_option rollback_to (e_active e)) (cfg_rollback e) now"
  have "e_recent (?r\<lparr>e_active := Some ?n\<rparr>) = remember (txn_cancel Superseded t) (e_recent e)"
    by (simp add: e_retire_Some)
  then have "known (op_id t) (?r\<lparr>e_active := Some ?n\<rparr>)"
    by (rule known_remember [rotated]) simp
  with SubmitGo a show ?thesis by (simp add: e_submit_begin_def Let_def e_retire_Some)
qed (use a known_active [OF a refl] in \<open>simp_all add: e_submit_begin_def\<close>)

lemma known_live_update:
  assumes "e_live opid e = Some t" "txn_ident u = txn_ident t" "e_active e = Some a"
  shows "known (op_id a) (e\<lparr>e_active := Some u\<rparr>)" "known (op_id a) (e_finish now (e_persist now f (e\<lparr>e_active := Some u\<rparr>)))"
    "known (op_id a) (e_finish now (e\<lparr>e_active := Some u\<rparr>))"
proof -
  have u: "op_id u = op_id a" using assms by (auto simp: e_live_SomeD dest: op_id_ident)
  then show "known (op_id a) (e\<lparr>e_active := Some u\<rparr>)" by (intro known_active [where t = u]) simp_all
  show "known (op_id a) (e_finish now (e_persist now f (e\<lparr>e_active := Some u\<rparr>)))"
    by (rule known_finish [where t = u]) (simp_all add: u e_persist_def Let_def)
  show "known (op_id a) (e_finish now (e\<lparr>e_active := Some u\<rparr>))"
    by (rule known_finish [where t = u]) (simp_all add: u)
qed

lemma section_idents [simp]:
  "txn_ident (txn_applied x now t) = txn_ident t"
  "txn_ident (txn_rollback_sent now t) = txn_ident t"
  "txn_revert t = Ok (n, u) \<Longrightarrow> txn_ident u = txn_ident t"
  "txn_keep t = Ok u \<Longrightarrow> txn_ident u = txn_ident t"
proof -
  show "txn_ident (txn_applied x now t) = txn_ident t" "txn_ident (txn_rollback_sent now t) = txn_ident t"
    by (simp_all add: txn_applied_def txn_rollback_sent_def reset_probe_def Let_def)
  show "txn_revert t = Ok (n, u) \<Longrightarrow> txn_ident u = txn_ident t"
    using txn_exec_ident [of EvRevert t] by (simp add: txn_exec_def)
  show "txn_keep t = Ok u \<Longrightarrow> txn_ident u = txn_ident t"
    using txn_exec_ident [of EvKeep t] by (simp add: txn_exec_def)
qed

lemma known_step:
  assumes a: "e_active e = Some t"
  shows "known (op_id t) (e_exec ser ev e)"
proof -
  note k = known_active [OF a refl]
  note c = known_cancel [OF a refl]
  have reap: "known (op_id t) (e_reap_session now e)" for now
    using k by (simp add: e_reap_session_def split: option.split)
  have feedk: "known (op_id t) (snd (e_drive_feed opid g r now e))" for opid g r now
  proof (cases "e_live opid e")
    case (Some u)
    then have "u = t" using a by (auto simp: e_live_SomeD dest: e_live_SomeD)
    with Some k known_live_update(2) [OF Some feed_ident a] show ?thesis
      by (simp add: e_drive_feed_def Let_def feed_def)
  qed (simp add: e_drive_feed_def k)
  have app: "known (op_id t) (snd (e_submit_applied opid w now e))" for opid w now
    using k known_live_update(1) [OF _ section_idents(1) a]
    by (cases "e_live opid e") (simp_all add: e_submit_applied_def)
  have sent: "known (op_id t) (e_rollback_sent opid now e)" for opid now
    using k known_live_update(1) [OF _ section_idents(2) a]
    by (cases "e_live opid e") (simp_all add: e_rollback_sent_def)
  have rev: "known (op_id t) (snd (e_revert opid now e))" for opid now
    using k known_live_update(1) [OF _ section_idents(3) a]
    by (auto simp: e_revert_def split: option.split sum.split)
  have keep: "known (op_id t) (snd (e_keep opid now e))" for opid now
    using k known_live_update(3) [OF _ section_idents(4) a]
    by (auto simp: e_keep_def Let_def split: option.split sum.split)
  show ?thesis
    by (cases ev)
      (use k c reap feedk app sent rev keep known_submit [OF a] a in
        \<open>auto simp: e_exec_def e_note_owner_def e_rollback_save_def e_rollback_check_def e_preempt_def
          e_drop_legacy_def e_legacy_gate_def e_enqueue_legacy_def e_take_legacy_def e_put_back_def e_ack_def
          e_notice_ack_def e_other_write_def e_interrupt_def e_session_open_def e_session_renew_def
          e_session_close_def e_session_gate_def set_observer_def Let_def
          split: option.split sim_verdict.split list.split\<close>)
qed

section \<open>Facts about single sections\<close>

lemma finish_final:
  assumes "e_active e = Some t" "is_final (phase t)" "store_good (e_store e)"
  shows "e_active (e_finish now e) = None" "e_last (e_finish now e) = Some \<lparr>l_txn = t, l_acked = False\<rparr>"
    "pending_txn (e_store (e_finish now e)) = None" "e_recent (e_finish now e) = remember t (e_recent e)"
    "e_legacy (e_finish now e) = e_legacy e"
  using assms by (simp_all add: e_finish_def Let_def e_retire_Some)

lemma cancel_result:
  assumes "engine_inv e" "e_active e = Some t"
  shows "e_active (e_cancel now why e) = None"
    "e_last (e_cancel now why e) = Some \<lparr>l_txn = txn_cancel why t, l_acked = False\<rparr>"
    "pending_txn (e_store (e_cancel now why e)) = None"
    "phase (txn_cancel why t) = Cancelled" "reason (txn_cancel why t) = Some why"
proof -
  have nf: "\<not> is_final (phase t)" by (rule engine_invD(5) [OF assms])
  then show ph: "phase (txn_cancel why t) = Cancelled" "reason (txn_cancel why t) = Some why"
    by (simp_all add: txn_cancel_def)
  let ?e = "e\<lparr>e_active := Some (txn_cancel why t)\<rparr>"
  have "e_cancel now why e = e_finish now ?e" by (simp add: e_cancel_def assms(2))
  moreover have "store_good (e_store ?e)" using engine_invD(3) [OF assms(1)] by simp
  ultimately show "e_active (e_cancel now why e) = None"
    "e_last (e_cancel now why e) = Some \<lparr>l_txn = txn_cancel why t, l_acked = False\<rparr>"
    "pending_txn (e_store (e_cancel now why e)) = None"
    using finish_final [of ?e "txn_cancel why t" now] ph(1) by simp_all
qed

lemma submit_go:
  assumes inv: "engine_inv e" and go: "e_submit_begin env bid req opid c now e = (SubmitGo, e')"
  defines "t \<equiv> e_new_txn env bid req opid c (map_option rollback_to (e_active e)) (cfg_rollback e) now"
  shows "e_active e' = Some t" "pending_txn (e_store e') = Some t"
    "\<And>a. e_active e = Some a \<Longrightarrow> overridable a req \<and> e_recent e' = remember (txn_cancel Superseded a) (e_recent e)"
proof -
  have chk: "e_submit_check req opid now e = SubmitGo"
    using go by (simp add: e_submit_begin_def split: submit_check.splits)
  define e1 where "e1 = (if e_active e \<noteq> None
      then e_retire (e\<lparr>e_active := map_option (txn_cancel Superseded) (e_active e)\<rparr>) else e)"
  have cfg: "cfg_rollback e1 = cfg_rollback e"
    by (cases "e_active e") (simp_all add: e1_def e_retire_Some)
  have e': "e' = e_persist now True (e1\<lparr>e_active := Some t\<rparr>)"
    using go chk cfg by (simp add: e_submit_begin_def Let_def e1_def t_def)
  have nf: "\<not> is_final (phase t)" by (simp add: t_def e_new_txn_def begin_apply_def txn_step_def)
  have "store_good (e_store e1)"
    using engine_invD(3) [OF inv] by (cases "e_active e") (simp_all add: e1_def e_retire_Some)
  then show "e_active e' = Some t" "pending_txn (e_store e') = Some t"
    using nf by (simp_all add: e' e_persist_def Let_def)
  fix a assume a: "e_active e = Some a"
  have "overridable a req"
    using chk a by (auto simp: e_submit_check_def split: option.splits if_splits)
  moreover have "e_recent e' = remember (txn_cancel Superseded a) (e_recent e)"
    using nf a by (simp add: e' e_persist_def Let_def e1_def e_retire_Some)
  ultimately show "overridable a req \<and> e_recent e' = remember (txn_cancel Superseded a) (e_recent e)" by simp
qed

lemma new_txn_fields [simp]:
  "op_id (e_new_txn env bid req opid c inh rb now) = opid"
  "target (e_new_txn env bid req opid c inh rb now) = q_target req"
  "rollback_to (e_new_txn env bid req opid c inh rb now) = (case inh of Some v \<Rightarrow> v | None \<Rightarrow> c_old c)"
  "phase (e_new_txn env bid req opid c inh rb now) = Applying"
  "intent (e_new_txn env bid req opid c inh rb now) = Some IApply"
  "rollback_enabled (e_new_txn env bid req opid c inh rb now) = (rb \<and> q_source req \<noteq> Legacy)"
  by (simp_all add: e_new_txn_def begin_apply_def txn_step_def txn_new_def)

lemma reap_session: "e_session (e_reap_session now e) = Some s \<Longrightarrow> session_over now s = None"
  by (auto simp: e_reap_session_def split: option.splits)

lemma session_over_None:
  "session_over now s = None \<longleftrightarrow>
     unat now - unat (ss_opened_ms s) < 420000 \<and> unat now - unat (ss_renewed_ms s) < 60000"
  by (auto simp: session_over_def sat_sub_ge_iff session_max_ms_def session_lease_ms_def)

lemma resume_ident: "txn_ident (if tk then txn_cancel Takeover t else snd (txn_resume bid now t)) = txn_ident t"
  by (simp add: txn_cancel_def)

lemma adopt_result:
  fixes e :: "'b engine" and t :: txn and now :: u64
  assumes "store_good (e_store e)" and e': "e' = e_finish now (e_persist now True (e\<lparr>e_active := Some t\<rparr>))"
  shows "if is_final (phase t) then e_active e' = None \<and> e_last e' = Some \<lparr>l_txn = t, l_acked = False\<rparr>
         else e_active e' = Some t"
proof (cases "is_final (phase t)")
  case True
  let ?p = "e_persist now True (e\<lparr>e_active := Some t\<rparr>)"
  have "e_active ?p = Some t" "store_good (e_store ?p)" using True assms(1) by (simp_all add: e_persist_def)
  with True finish_final [of ?p t now] show ?thesis by (simp add: e')
qed (simp add: e' e_finish_def e_persist_def Let_def)

lemma start_result:
  assumes "startable s" "pending_txn s = Some t"
  obtains t' where "txn_ident t' = txn_ident t" "cur (disk s) takeover_name \<noteq> None \<Longrightarrow> t' = txn_cancel Takeover t"
    "cur (disk s) takeover_name = None \<Longrightarrow> t' = snd (txn_resume bid now t)"
    "if is_final (phase t')
     then e_active (snd (e_start bid now (e_new rb ttl s))) = None
        \<and> e_last (snd (e_start bid now (e_new rb ttl s))) = Some \<lparr>l_txn = t', l_acked = False\<rparr>
     else e_active (snd (e_start bid now (e_new rb ttl s))) = Some t'"
proof -
  obtain tk s1 where tk: "take_takeover s = (tk, s1)" by fastforce
  have g: "store_good s" using assms(1) by (simp add: startable_def)
  have g1: "store_good s1" "pending_txn s1 = Some t" using takeover_good [OF g] assms(2) by (simp_all add: tk)
  then have l: "load s1 = (Some t, s1)"
    using load_snd [of s1] load_fst [of s1] by (metis option.distinct(1) prod.collapse)
  let ?t = "if tk then txn_cancel Takeover t else snd (txn_resume bid now t)"
  let ?e = "(e_new rb ttl s)\<lparr>e_store := s1\<rparr>"
  have eq: "snd (e_start bid now (e_new rb ttl s)) = e_finish now (e_persist now True (?e\<lparr>e_active := Some ?t\<rparr>))"
    by (simp add: e_start_def Let_def tk l e_new_def)
  have tkv: "tk \<longleftrightarrow> cur (disk s) takeover_name \<noteq> None"
    using tk g by (auto simp: take_takeover_def store_good_def split: if_splits)
  show thesis
  proof (rule that)
    show "txn_ident ?t = txn_ident t" by (rule resume_ident)
    show "if is_final (phase ?t)
     then e_active (snd (e_start bid now (e_new rb ttl s))) = None
        \<and> e_last (snd (e_start bid now (e_new rb ttl s))) = Some \<lparr>l_txn = ?t, l_acked = False\<rparr>
     else e_active (snd (e_start bid now (e_new rb ttl s))) = Some ?t"
      by (rule adopt_result [OF _ eq]) (simp add: g1)
  qed (simp_all add: tkv)
qed

section \<open>Properties\<close>

text \<open>A concrete run for the witnesses: an engine on an empty store, and one write submitted to it.\<close>

definition ex_engine :: "plain engine" where
  "ex_engine = snd (e_start ''boot-1'' 0 (e_new True 120000 ex_store))"

definition ex_spec :: spec where
  "ex_spec = \<lparr>s_action = ''network.set_mode'', s_item = network_mode, s_param = ''mode'',
     s_deadline_ms = 120000, s_deadline_env = [], s_confirm = Registered\<rparr>"

definition ex_req :: request where
  "ex_req = \<lparr>q_spec = ex_spec, q_target = ''Only_LTE'', q_source = Web, q_undo = False\<rparr>"

definition ex_capture :: capture where
  "ex_capture = \<lparr>c_old = ''WL_AND_5G'', c_sim = ex_sim, c_conn = None\<rparr>"

definition ex_busy :: "plain engine" where
  "ex_busy = e_exec (\<lambda>_. []) (XSubmit (\<lambda>_. None) ''boot-1'' ex_req ''op1'' ex_capture 1000) ex_engine"

definition ex_active :: txn where
  "ex_active = e_new_txn (\<lambda>_. None) ''boot-1'' ex_req ''op1'' ex_capture None True 1000"

lemma ex_store_empty: "cur (disk ex_store) n = None" "get_file n ex_store = None"
  by (simp_all add: ex_store_def blank_disk_def get_file_def read_file_def)

lemma ex_engine_eq: "ex_engine = e_new True 120000 ex_store"
  by (simp add: ex_engine_def e_start_def take_takeover_def ex_store_empty load_def e_new_def)

lemma ex_engine_reach: "engine_reach ser ex_engine"
  unfolding ex_engine_def by (rule engine_reach.boot) (simp add: startable_def ex_store_empty)

lemma ex_busy_reach: "engine_reach (\<lambda>_. []) ex_busy"
  unfolding ex_busy_def by (rule engine_reach.event [OF ex_engine_reach])

lemma ex_engine_go:
  "e_submit_begin (\<lambda>_. None) ''boot-1'' ex_req ''op1'' ex_capture 1000 ex_engine = (SubmitGo, ex_busy)"
proof -
  have "fst (e_submit_begin (\<lambda>_. None) ''boot-1'' ex_req ''op1'' ex_capture 1000 ex_engine) = SubmitGo"
    by (simp add: e_submit_begin_def e_submit_check_def e_find_def e_live_def find_recent_def ex_engine_eq
        e_new_def Let_def)
  then show ?thesis by (simp add: ex_busy_def e_exec_def prod_eq_iff)
qed

lemma ex_busy_active: "e_active ex_busy = Some ex_active"
  using submit_go(1) [OF engine_reach_inv [OF ex_engine_reach] ex_engine_go]
  by (simp add: ex_active_def ex_engine_eq e_new_def)

text \<open>
  Property C1. One change at a time, and it survives a crash: in every state of a run, with any
  interleaving of requests, drivers and restarts, the active transaction is well formed and not final,
  excludes a search session, and is what the next start would load from \<open>pending.json\<close> (up to what was
  only observed since its last change); with no active transaction there is nothing to load. The recent
  list holds at most 16 finished transactions and the queue of old-style requests at most one per item.
\<close>

theorem engine_invariant:
  assumes "engine_reach ser e"
  shows "(case e_active e of
      Some t \<Rightarrow> txn_wf t \<and> \<not> is_final (phase t) \<and> e_session e = None
        \<and> (\<exists>t'. fst (load (e_store e)) = Some t' \<and> txn_same t' t)
    | None \<Rightarrow> fst (load (e_store e)) = None)
    \<and> length (e_recent e) \<le> recent_cap \<and> list_all (\<lambda>t. is_final (phase t)) (e_recent e)
    \<and> distinct (map lr_item (e_legacy e)) \<and> load_last (e_store e) = e_last e"
proof -
  have inv: "engine_inv e" by (rule engine_reach_inv [OF assms])
  then have "case e_active e of
      Some t \<Rightarrow> txn_wf t \<and> \<not> is_final (phase t) \<and> e_session e = None
        \<and> (\<exists>t'. fst (load (e_store e)) = Some t' \<and> txn_same t' t)
    | None \<Rightarrow> fst (load (e_store e)) = None"
    by (auto simp: engine_inv_def active_ok_def synced_def load_fst pending_txn_def split: option.split)
  with inv show ?thesis by (simp add: engine_inv_def shelf_ok_def list_all_iff)
qed

theorem engine_invariant_witness:
  "\<exists>t'. fst (load (e_store ex_busy)) = Some t' \<and> txn_same t' ex_active"
  using engine_invariant [OF ex_busy_reach] by (simp add: ex_busy_active)

text \<open>
  Before \<open>submit\<close> writes to the device, the intent to write is on flash: when the second
  section lets the write go ahead, \<open>pending.json\<close> holds the new transaction, in phase \<open>Applying\<close> with the
  apply intent, the requested target, and as rollback target the value captured or, when it replaces a
  transaction, that one's rollback target. The replaced transaction was of the same item, from a source
  that may override it, with no write in flight, and is recorded as superseded.
\<close>

theorem submit_intent_on_flash:
  assumes "engine_reach ser e" and "e_submit_begin env bid req opid c now e = (SubmitGo, e')"
  shows "\<exists>t. fst (load (e_store e')) = Some t \<and> e_active e' = Some t \<and> op_id t = opid \<and> phase t = Applying
    \<and> intent t = Some IApply \<and> target t = q_target req
    \<and> rollback_to t = (case e_active e of Some a \<Rightarrow> rollback_to a | None \<Rightarrow> c_old c)
    \<and> (case e_active e of None \<Rightarrow> True
       | Some a \<Rightarrow> item a = s_item (q_spec req) \<and> may_override (q_source req) \<and> intent a = None
           \<and> (\<exists>r \<in> set (e_recent e'). op_id r = op_id a \<and> phase r = Cancelled \<and> reason r = Some Superseded))"
proof -
  note inv = engine_reach_inv [OF assms(1)]
  note go = submit_go [OF inv assms(2)]
  have "\<exists>r \<in> set (e_recent e'). op_id r = op_id a \<and> phase r = Cancelled \<and> reason r = Some Superseded"
    if a: "e_active e = Some a" for a
    using go(3) [OF a] cancel_result(4,5) [OF inv a]
    by (intro bexI [of _ "txn_cancel Superseded a"]) (simp_all add: remember_def)
  with go show ?thesis by (auto simp: load_fst overridable_def split: option.split)
qed

theorem submit_intent_on_flash_witness:
  "\<exists>t. fst (load (e_store ex_busy)) = Some t \<and> op_id t = ''op1'' \<and> phase t = Applying
    \<and> target t = ''Only_LTE'' \<and> rollback_to t = ''WL_AND_5G''"
  using submit_intent_on_flash [OF ex_engine_reach ex_engine_go]
  by (auto simp: ex_engine_eq e_new_def ex_req_def ex_capture_def)



text \<open>
  Requests are idempotent: once a transaction is active, whatever section runs next, a
  submission with the same \<open>op_id\<close> only reports the existing transaction and changes nothing.
\<close>

theorem submit_idempotent:
  assumes "e_active e = Some t"
  shows "\<exists>v. e_submit_begin env bid req (op_id t) c now (e_exec ser ev e) = (SubmitExisting v, e_exec ser ev e)"
proof -
  have "known (op_id t) (e_exec ser ev e)" by (rule known_step [OF assms])
  then obtain v where "e_find (op_id t) now (e_exec ser ev e) = Some v"
    using known_iff_find [of "op_id t" "e_exec ser ev e" now] by blast
  then show ?thesis by (simp add: e_submit_begin_def e_submit_check_def)
qed

theorem submit_idempotent_witness:
  "\<exists>v. e_submit_begin (\<lambda>_. None) ''boot-1'' ex_req (op_id ex_active) ex_capture 3000 (e_exec (\<lambda>_. []) (XPreempt 2000) ex_busy)
     = (SubmitExisting v, e_exec (\<lambda>_. []) (XPreempt 2000) ex_busy)"
  by (rule submit_idempotent [OF ex_busy_active])

text \<open>
  Property C14. A restart, power loss included, loses no change: the engine that starts on the store
  holds the transaction that was active, still active or finished as the latest result, with the same
  identity; if the takeover marker was left meanwhile, it ends cancelled with reason \<open>Takeover\<close>.
\<close>

theorem restart_resumes:
  assumes "engine_reach ser e" "e_active e = Some t" "same_files (e_store e) s"
  shows "\<exists>t'. txn_ident t' = txn_ident t
    \<and> (e_active (snd (e_start bid now (e_new rb ttl s))) = Some t'
       \<or> e_last (snd (e_start bid now (e_new rb ttl s))) = Some \<lparr>l_txn = t', l_acked = False\<rparr> \<and> is_final (phase t'))
    \<and> (cur (disk s) takeover_name = None \<or> phase t' = Cancelled \<and> reason t' = Some Takeover)"
proof -
  have inv: "engine_inv e" by (rule engine_reach_inv [OF assms(1)])
  have pend: "pending_txn s = pending_txn (e_store e)" using assms(3) by (simp add: same_files_def pending_txn_def)
  obtain u where u: "pending_txn s = Some u" "txn_same u t"
    using inv assms(2) by (auto simp: engine_inv_def synced_def pend)
  have nf: "\<not> is_final (phase u)" using u(2) engine_invD(5) [OF inv assms(2)] by (simp add: txn_same_def)
  have "startable s" using engine_inv_startable [OF inv] assms(3) pend by (simp add: same_files_def)
  from start_result [OF this u(1), of bid now rb ttl] obtain t' where t': "txn_ident t' = txn_ident u"
    "cur (disk s) takeover_name \<noteq> None \<Longrightarrow> t' = txn_cancel Takeover u"
    "if is_final (phase t')
     then e_active (snd (e_start bid now (e_new rb ttl s))) = None
        \<and> e_last (snd (e_start bid now (e_new rb ttl s))) = Some \<lparr>l_txn = t', l_acked = False\<rparr>
     else e_active (snd (e_start bid now (e_new rb ttl s))) = Some t'" by metis
  have "txn_ident t' = txn_ident t" using t'(1) u(2) by (simp add: txn_same_def)
  moreover have "cur (disk s) takeover_name = None \<or> phase t' = Cancelled \<and> reason t' = Some Takeover"
    using t'(2) nf by (auto simp: txn_cancel_def)
  ultimately show ?thesis using t'(3) by (intro exI [of _ t']) (auto split: if_splits)
qed

theorem restart_resumes_witness:
  "\<exists>t'. txn_ident t' = txn_ident ex_active
    \<and> (e_active (snd (e_start ''boot-2'' 50 (e_new True 120000 (e_store ex_busy)))) = Some t'
       \<or> e_last (snd (e_start ''boot-2'' 50 (e_new True 120000 (e_store ex_busy)))) = Some \<lparr>l_txn = t', l_acked = False\<rparr>
         \<and> is_final (phase t'))
    \<and> (cur (disk (e_store ex_busy)) takeover_name = None \<or> phase t' = Cancelled \<and> reason t' = Some Takeover)"
  by (rule restart_resumes [OF ex_busy_reach ex_busy_active])
    (simp add: same_files_def engine_invD(3) [OF engine_reach_inv [OF ex_busy_reach]])

text \<open>
  Search sessions (D17): when a write passes the session gate while a session stays open,
  it is not one of the blocked writes, and it is a session step or an optional step only with the
  session's own id; and the session was opened less than seven minutes ago. Without a session no
  session step passes.
\<close>

theorem session_gate_sound:
  assumes "e_session_gate act sid now e = (SgOk, e')"
  shows "(case e_session e' of
     Some s \<Rightarrow> (act \<in> set session_steps \<or> act \<in> set session_optional \<or> act \<in> set session_blocks \<longrightarrow>
                 sid = Some (ss_id s) \<and> act \<notin> set session_blocks) \<and> unat now - unat (ss_opened_ms s) < 420000
   | None \<Rightarrow> act \<notin> set session_steps)"
proof (cases "e_session (e_reap_session now e)")
  case None
  with assms show ?thesis by (auto simp: e_session_gate_def Let_def split: if_splits)
next
  case (Some s)
  then have o': "unat now - unat (ss_opened_ms s) < 420000"
    using reap_session session_over_None by blast
  have disj: "act \<in> set session_steps \<or> act \<in> set session_optional \<Longrightarrow> act \<notin> set session_blocks"
    by (auto simp: session_steps_def session_optional_def session_blocks_def)
  show ?thesis
  proof (cases "sid = Some (ss_id s) \<and> (act \<in> set session_steps \<or> act \<in> set session_optional)")
    case True
    with assms Some have "e' = (e_reap_session now e)\<lparr>e_session := Some (s\<lparr>ss_renewed_ms := now\<rparr>)\<rparr>"
      by (auto simp: e_session_gate_def Let_def)
    with True o' disj show ?thesis by simp
  next
    case False
    with assms Some have "e' = e_reap_session now e"
      and "\<not> (act \<in> set session_steps \<or> act \<in> set session_optional \<or> act \<in> set session_blocks)"
      by (auto simp: e_session_gate_def Let_def split: if_splits)
    with Some o' show ?thesis by simp
  qed
qed

theorem session_gate_sound_witness:
  "''sms.delete'' \<notin> set session_steps"
proof -
  have "e_session_gate ''sms.delete'' None 5 ex_engine = (SgOk, ex_engine)"
    by (simp add: e_session_gate_def e_reap_session_def ex_engine_eq e_new_def session_steps_def)
  from session_gate_sound [OF this] show ?thesis by (simp add: ex_engine_eq e_new_def)
qed

text \<open>
  A safety write takes effect at once: after \<open>preempt\<close> there is no active transaction, no
  pending file and no queued request; a transaction that was active is reported as cancelled with
  reason \<open>Preempted\<close>, so it will never be rolled back automatically.
\<close>

theorem preempt_clears:
  assumes "engine_reach ser e"
  shows "e_active (e_preempt ser now e) = None \<and> e_legacy (e_preempt ser now e) = []
    \<and> fst (load (e_store (e_preempt ser now e))) = None
    \<and> (case e_active e of
         Some t \<Rightarrow> \<exists>t'. e_last (e_preempt ser now e) = Some \<lparr>l_txn = t', l_acked = False\<rparr>
           \<and> txn_ident t' = txn_ident t \<and> phase t' = Cancelled \<and> reason t' = Some Preempted
       | None \<Rightarrow> e_last (e_preempt ser now e) = e_last e)"
proof (cases "e_active e")
  case None
  with engine_reach_inv [OF assms] show ?thesis
    by (simp add: e_preempt_def e_drop_legacy_def load_fst engine_inv_def synced_def pending_txn_def)
next
  case (Some t)
  have "txn_ident (txn_cancel Preempted t) = txn_ident t" by (simp add: txn_cancel_def)
  with Some cancel_result(1-3) [OF engine_reach_inv [OF assms] Some, where now = now and why = Preempted]
    cancel_result(4,5) [OF engine_reach_inv [OF assms] Some, where why = Preempted] show ?thesis
    by (simp add: e_preempt_def e_drop_legacy_def load_fst)
qed

theorem preempt_clears_witness:
  "e_active (e_preempt (\<lambda>_. []) 2000 ex_busy) = None \<and> fst (load (e_store (e_preempt (\<lambda>_. []) 2000 ex_busy))) = None
   \<and> (\<exists>t'. e_last (e_preempt (\<lambda>_. []) 2000 ex_busy) = Some \<lparr>l_txn = t', l_acked = False\<rparr>
        \<and> reason t' = Some Preempted)"
  using preempt_clears [OF ex_busy_reach, of 2000] by (auto simp: ex_busy_active)

end
