(* ===== verification/Write_Requests.thy ===== *)
theory Write_Requests
  imports Write_Route Engine_Run
begin

text \<open>
  What holds for every write request, over the model of theory \<open>Write_Route\<close>: its one effect on the device, the
  order of its journal line, its locks and its marks, and how it treats a transaction that is under way. The
  calculus \<open>does\<close> walks through a request program and collects what it appends to the trace.
\<close>

section \<open>What a request does\<close>

text \<open>
  \<open>does m k Q\<close>: from \<open>k\<close>, the program \<open>m\<close> only appends to the trace, and \<open>Q\<close> holds of its result, of what it
  appended and of the state it ends in.
\<close>

definition does :: "('b, 'a) route \<Rightarrow> 'b ctx \<Rightarrow> ('a \<Rightarrow> route_event list \<Rightarrow> 'b ctx \<Rightarrow> bool) \<Rightarrow> bool" where
  "does m k Q \<longleftrightarrow> (\<exists>es. k_trace (snd (run_state m k)) = k_trace k @ es \<and> Q (fst (run_state m k)) es (snd (run_state m k)))"

lemma does_mono: "does m k Q \<Longrightarrow> (\<And>a es k'. Q a es k' \<Longrightarrow> R a es k') \<Longrightarrow> does m k R"
  by (auto simp: does_def)

lemma doesD:
  assumes "does m k Q" "run_state m k = (a, k')"
  obtains es where "k_trace k' = k_trace k @ es" "Q a es k'"
  using assms by (auto simp: does_def)

lemma does_conj: "does m k Q \<Longrightarrow> does m k R \<Longrightarrow> does m k (\<lambda>a es k'. Q a es k' \<and> R a es k')"
  by (auto simp: does_def)

lemma does_return: "Q a [] k \<Longrightarrow> does (State_Monad.return a) k Q"
  by (simp add: does_def State_Monad.return_def)

lemma does_bind:
  assumes "does m k (\<lambda>a es k'. does (f a) k' (\<lambda>b es' k''. Q b (es @ es') k''))"
  shows "does (m \<bind> f) k Q"
proof -
  obtain a k' where m: "run_state m k = (a, k')" by fastforce
  obtain b k'' where f: "run_state (f a) k' = (b, k'')" by fastforce
  show ?thesis using assms by (auto simp: does_def m f State_Monad.bind_def)
qed

lemma does_trace_ev: "Q () [ev] (k\<lparr>k_trace := k_trace k @ [ev]\<rparr>) \<Longrightarrow> does (trace_ev ev) k Q"
  by (simp add: does_def trace_ev_def)

lemma does_await:
  "Q () [RAwait] (k\<lparr>k_eng := o_eng W (k_trace k) (k_eng k), k_dev := o_dev W (k_trace k) (k_dev k), k_trace := k_trace k @ [RAwait]\<rparr>)
    \<Longrightarrow> does (await W) k Q"
  by (simp add: does_def await_def)

lemma does_read_clock:
  "Q (o_now W (k_trace k)) [RClock (o_now W (k_trace k))] (k\<lparr>k_trace := k_trace k @ [RClock (o_now W (k_trace k))]\<rparr>)
    \<Longrightarrow> does (read_clock W) k Q"
  by (simp add: does_def read_clock_def Let_def)

lemma does_peek: "Q (f (k_trace k)) [] k \<Longrightarrow> does (peek f) k Q"
  by (simp add: does_def peek_def)

lemma does_on_engine: "Q () [] (k\<lparr>k_eng := f (k_eng k)\<rparr>) \<Longrightarrow> does (on_engine f) k Q"
  by (simp add: does_def on_engine_def)

lemma does_locked:
  assumes "\<And>now a e. now = o_now W (k_trace k) \<Longrightarrow> f now (k_eng k) = (a, e) \<Longrightarrow>
    Q a [RClock now] (k\<lparr>k_eng := e, k_trace := k_trace k @ [RClock now]\<rparr>)"
  shows "does (locked W f) k Q"
proof -
  define now where "now = o_now W (k_trace k)"
  obtain a e where f: "f now (k_eng k) = (a, e)" by fastforce
  have "run_state (locked W f) k = (a, k\<lparr>k_eng := e, k_trace := k_trace k @ [RClock now]\<rparr>)"
    by (simp add: locked_def read_clock_def State_Monad.bind_def Let_def f now_def [symmetric])
  then show ?thesis using assms [OF now_def f] by (simp add: does_def)
qed

lemma does_on_device:
  assumes "\<And>a k'. a = fst (run_state m (o_dev W (k_trace k) (k_dev k))) \<Longrightarrow> k_trace k' = k_trace k @ [RAwait, RAwait] \<Longrightarrow>
    Q a [RAwait, RAwait] k'"
  shows "does (on_device W m) k Q"
proof -
  obtain a w where m: "run_state m (o_dev W (k_trace k) (k_dev k)) = (a, w)" by fastforce
  have "fst (run_state (on_device W m) k) = a \<and> k_trace (snd (run_state (on_device W m) k)) = k_trace k @ [RAwait, RAwait]"
    by (simp add: on_device_def await_def State_Monad.bind_def State_Monad.return_def Let_def m)
  then show ?thesis using assms [of a "snd (run_state (on_device W m) k)"] by (simp add: does_def m)
qed

lemmas does_rules = does_bind does_return does_trace_ev does_await does_read_clock does_peek does_on_engine does_locked does_on_device

text \<open>Programs that never run a control action and never write to the device.\<close>

definition quiet_event :: "route_event \<Rightarrow> bool" where
  "quiet_event ev = (case ev of RExecute _ _ \<Rightarrow> False | RWrite _ _ \<Rightarrow> False | _ \<Rightarrow> True)"

lemma quiet_event_simps [simp]:
  "quiet_event RAwait" "quiet_event (RClock t)" "quiet_event (RLine l)" "quiet_event (RSkip a b c)"
  "quiet_event (ROwner i s u v w)" "quiet_event RFlush" "quiet_event RLock" "quiet_event RUnlock" "quiet_event RForget"
  "quiet_event (RMark m)" "quiet_event (RInterval n)" "\<not> quiet_event (RExecute act p)" "\<not> quiet_event (RWrite sp v)"
  "quiet_event (RSpawn i)" "quiet_event (RWatch i)" "quiet_event RKick" "quiet_event RWake"
  by (simp_all add: quiet_event_def)

abbreviation quietly :: "('b, 'a) route \<Rightarrow> 'b ctx \<Rightarrow> bool" where
  "quietly m k \<equiv> does m k (\<lambda>_ es _. list_all quiet_event es)"

lemma quiet_bind: "(\<And>k. quietly m k) \<Longrightarrow> (\<And>a k. quietly (f a) k) \<Longrightarrow> quietly (m \<bind> f) k"
  by (rule does_bind, rule does_mono, assumption, rule does_mono, assumption) simp

lemma quiet_return: "quietly (State_Monad.return a) k" by (rule does_return) simp
lemma quiet_trace_ev: "quiet_event ev \<Longrightarrow> quietly (trace_ev ev) k" by (rule does_trace_ev) simp
lemma quiet_await: "quietly (await W) k" by (rule does_await) simp
lemma quiet_clock: "quietly (read_clock W) k" by (rule does_read_clock) simp
lemma quiet_peek: "quietly (peek f) k" by (rule does_peek) simp
lemma quiet_on_engine: "quietly (on_engine f) k" by (rule does_on_engine) simp
lemma quiet_locked: "quietly (locked W f) k" by (rule does_locked) simp
lemma quiet_on_device: "quietly (on_device W m) k" by (rule does_on_device) simp

lemmas quiet_rules = quiet_bind quiet_return quiet_trace_ev quiet_await quiet_clock quiet_peek quiet_on_engine
  quiet_locked quiet_on_device

lemma quiet_journal_append: "quietly (journal_append W act b) k"
  by (simp add: journal_append_def Let_def split: option.split) (intro allI conjI impI quiet_rules; simp)

lemma quiet_journal_list: "quietly (journal_list W act b) k"
  unfolding journal_list_def by (intro quiet_rules) simp

lemma quiet_op_ack: "quietly (op_ack W act b i) k"
  by (simp add: op_ack_def split: option.split) (intro allI conjI impI quiet_rules)

lemma quiet_op_interrupt: "quietly (op_interrupt W act src what) k"
  unfolding op_interrupt_def by (rule quiet_bind) (auto intro!: quiet_rules split: option.split)

lemma quiet_op_interrupt_or_notice: "quietly (op_interrupt_or_notice W act b) k"
  by (simp add: op_interrupt_or_notice_def Let_def split: option.split)
    (intro allI conjI impI quiet_rules quiet_op_interrupt)

lemma quiet_op_revert: "quietly (op_revert W act i) k"
  unfolding op_revert_def by (rule quiet_bind) (auto intro!: quiet_rules split: sum.split)

lemma quiet_op_keep: "quietly (op_keep W act i) k"
  unfolding op_keep_def by (rule quiet_bind) (auto intro!: quiet_rules split: sum.split)

lemma quiet_op_request: "quietly (op_request W act b) k"
  by (simp add: op_request_def Let_def op_revert_or_keep_def split: option.split)
    (intro allI conjI impI quiet_rules quiet_journal_append quiet_journal_list quiet_op_ack
      quiet_op_interrupt_or_notice quiet_op_revert quiet_op_keep)

lemma quiet_session_open: "quietly (session_open_route W act src) k"
  unfolding session_open_route_def by (rule quiet_bind, rule quiet_peek, rule quiet_bind) (auto intro!: quiet_rules split: sum.split)

lemma quiet_session_close: "quietly (session_close_route W act i r) k"
  unfolding session_close_route_def by (rule quiet_bind) (auto intro!: quiet_rules)

lemma quiet_session_request: "quietly (session_request W act b src) k"
  by (simp add: session_request_def session_renew_route_def split: option.split)
    (intro allI conjI impI quiet_rules quiet_session_open quiet_session_close)

lemma quiet_session_refusal: "quietly (session_refusal W act b) k"
  by (simp add: session_refusal_def quiet_rules)

section \<open>The one effect of a request\<close>

definition effects :: "route_event list \<Rightarrow> route_event list" where
  "effects es = filter (\<lambda>ev. \<not> quiet_event ev) es"

lemma effects_simps [simp]:
  "effects [] = []" "effects (ev # es) = (if quiet_event ev then effects es else ev # effects es)"
  "effects (es @ es') = effects es @ effects es'"
  by (simp_all add: effects_def)

lemma quiet_effects: "list_all quiet_event es \<Longrightarrow> effects es = []"
  by (induction es) auto

lemma quietly_effects: "quietly m k \<Longrightarrow> (\<And>a es k'. effects es = [] \<Longrightarrow> Q a es k') \<Longrightarrow> does m k Q"
  by (erule does_mono) (simp add: quiet_effects)

lemma effects_dev_write:
  "does (dev_write W sp v) k (\<lambda>r es _. effects es = (if s_item sp = network_mode then [RWrite sp v] else []))"
  by (auto simp: dev_write_def forget_cache_def intro!: does_rules split: sum.split)

lemma effects_submit_write:
  "does (submit_write W req opid) k (\<lambda>r es _. (\<exists>x op. r = SrApplied x op) \<and>
     effects es = (if s_item (q_spec req) = network_mode then [RWrite (q_spec req) (q_target req)] else []))"
  unfolding submit_write_def
  by (rule does_bind, rule does_mono [OF effects_dev_write]) (auto intro!: does_rules split: prod.splits)

lemma effects_submit:
  "does (submit W req given) k (\<lambda>r es _.
     (effects es = [] \<or> effects es = [RWrite (q_spec req) (q_target req)]) \<and>
     ((\<nexists>x op. r = SrApplied x op) \<longrightarrow> effects es = []))"
  unfolding submit_def
  apply (rule does_bind, rule quietly_effects)
   apply (auto intro!: quiet_rules split: option.split)[1]
  apply (rule does_bind, rule quietly_effects, rule quiet_locked)
  subgoal for opid es1 k1 c es2 k2
    apply (cases c)
     prefer 2 apply (simp add: does_return)
    apply simp
    apply (rule does_bind, rule quietly_effects, rule quiet_clock)
    apply (rule does_bind, rule quietly_effects, rule quiet_on_device)
    subgoal for now es3 k3 rd es4 k4
      apply (cases "e_capture rd")
       apply (simp add: does_return)
      apply simp
      apply (rule does_bind, rule quietly_effects, rule quiet_locked)
      subgoal for cap c' es5 k5
        apply (cases c')
         apply simp
         apply (rule does_mono [OF effects_submit_write])
         apply (auto split: if_splits)[1]
        apply (simp add: does_return)
        done
      done
    done
  done

lemma status_simps [simp]:
  "control_ok act v \<noteq> Abort" "reply_status (control_ok act v) = 200" "is_success (control_ok act v)"
  "reply_status (control_failed act m) = 502" "reply_status (invalid_parameter act m) = 400"
  "reply_status (control_busy act) = 503" "reply_status (legacy_queued act) = 200" "reply_status (op_busy act j) = 409"
  "reply_status (route_error act n c m x) = n" "reply_status Abort = 0" "reply_status (Reply n j) = n"
  by (simp_all add: reply_status_def control_ok_def control_failed_def invalid_parameter_def control_busy_def
      legacy_queued_def op_busy_def route_error_def is_success_def)

lemma effects_described_write:
  "does (described_write W act b src sp) k (\<lambda>r es _.
     (effects es = [] \<or> (\<exists>tgt. spec_target sp (body_params b) = Ok tgt \<and> effects es = [RWrite sp tgt])) \<and>
     (reply_status r = 409 \<or> reply_status r = 503 \<longrightarrow> effects es = []))"
  unfolding described_write_def
  apply (cases "spec_target sp (body_params b)")
   apply (simp add: does_return)
  apply (cases "given_op_id b")
   apply (simp add: does_return)
  apply simp
  apply (rule does_bind, rule does_mono [OF effects_submit], rule does_return)
  apply (auto simp: submit_answer_def in_progress_def split: submit_reply.splits sum.splits)
  done

lemma effects_ops_route:
  "does (ops_route W act b) k (\<lambda>r es _.
     (effects es = [] \<or> (\<exists>sp tgt. body_source b \<noteq> None \<and> spec_find act = Some sp \<and> spec_target sp (body_params b) = Ok tgt \<and>
        effects es = [RWrite sp tgt])) \<and>
     (r = None \<longrightarrow> effects es = [] \<and> act \<notin> set op_requests \<and> act \<notin> set session_requests \<and>
        (jget ''source'' b = None \<or> spec_find act = None)) \<and>
     (\<forall>x. r = Some x \<longrightarrow> reply_status x = 409 \<or> reply_status x = 503 \<longrightarrow> effects es = []))"
proof (cases "act \<in> set op_requests")
  case True
  then show ?thesis
    by (auto simp: ops_route_def intro!: does_bind quietly_effects [OF quiet_op_request] does_return)
next
  case False
  note no_op = False
  show ?thesis
  proof (cases "jget ''source'' b = None")
    case True
    with no_op show ?thesis
      by (auto simp: ops_route_def session_requests_def intro!: does_return)
  next
    case False
    show ?thesis
    proof (cases "body_source b")
      case None
      with no_op False show ?thesis by (auto simp: ops_route_def intro!: does_return)
    next
      case (Some src)
      have gate: "does (session_refusal W act b \<bind> (\<lambda>g. case g of
            Some r \<Rightarrow> State_Monad.return (Some r)
          | None \<Rightarrow> (case spec_find act of
               None \<Rightarrow> State_Monad.return None
             | Some sp \<Rightarrow> do { r \<leftarrow> described_write W act b src sp; State_Monad.return (Some r) }))) k
         (\<lambda>r es _. (effects es = [] \<or> (\<exists>sp tgt. spec_find act = Some sp \<and> spec_target sp (body_params b) = Ok tgt \<and>
              effects es = [RWrite sp tgt])) \<and>
            (r = None \<longrightarrow> effects es = [] \<and> spec_find act = None) \<and>
            (\<forall>x. r = Some x \<longrightarrow> reply_status x = 409 \<or> reply_status x = 503 \<longrightarrow> effects es = []))"
        apply (rule does_bind, rule quietly_effects, rule quiet_session_refusal)
        subgoal for g es k'
          apply (cases g)
           apply (cases "spec_find act")
            apply (simp add: does_return)
           apply simp
           apply (rule does_bind, rule does_mono [OF effects_described_write], rule does_return)
           apply auto[1]
          apply (simp add: does_return)
          done
        done
      show ?thesis
      proof (cases "act \<in> set session_requests")
        case True
        with no_op Some False show ?thesis
          by (auto simp: ops_route_def intro!: does_bind quietly_effects [OF quiet_session_request] does_return)
      next
        case False
        obtain sv where "jget ''source'' b = Some sv" using \<open>jget ''source'' b \<noteq> None\<close> by auto
        with no_op Some False have "ops_route W act b = (session_refusal W act b \<bind> (\<lambda>g. case g of
            Some r \<Rightarrow> State_Monad.return (Some r)
          | None \<Rightarrow> (case spec_find act of
               None \<Rightarrow> State_Monad.return None
             | Some sp \<Rightarrow> do { r \<leftarrow> described_write W act b src sp; State_Monad.return (Some r) })))"
          unfolding ops_route_def by simp
        with no_op Some False show ?thesis by (auto intro: does_mono [OF gate])
      qed
    qed
  qed
qed

lemma effects_control_task:
  "does (control_task W act b) k (\<lambda>r es _. effects es = [RExecute act (body_params b)] \<and>
     reply_status r \<noteq> 409 \<and> reply_status r \<noteq> 503)"
  by (auto simp: control_task_def forget_cache_def intro!: does_rules split: outcome.split option.split)


lemma effects_journal_before: "quietly (journal_before W j ends) k"
  by (auto simp: journal_before_def intro!: quiet_rules split: option.split)

lemma effects_journal_after: "quietly (journal_after j ends r) k"
  by (auto simp: journal_after_def jw_owner_def intro!: quiet_rules split: option.split prod.split)

lemma effects_mark_after: "quietly (mark_after act r) k"
  by (auto simp: mark_after_def forget_cache_def intro!: quiet_rules)

lemma effects_control_end: "does (control_end act j ends r) k (\<lambda>r' es _. r' = r \<and> effects es = [])"
proof (cases "r = Abort")
  case False
  show ?thesis
    unfolding control_end_def if_not_P [OF False]
    apply (rule does_bind, rule quietly_effects, rule effects_journal_after)
    apply (rule does_bind, rule quietly_effects, rule effects_mark_after)
    apply (rule does_bind, rule quietly_effects)
     apply (auto intro!: quiet_rules)[1]
    apply (rule does_return)
    apply simp
    done
qed (simp add: control_end_def does_return)

lemma effects_control_work:
  "does (control_work W act b) k (\<lambda>r es _. effects es = [RExecute act (body_params b)] \<and>
     reply_status r \<noteq> 409 \<and> reply_status r \<noteq> 503)"
  unfolding control_work_def Let_def
  apply (rule does_bind, rule quietly_effects)
   apply (auto intro!: quiet_rules)[1]
  apply (rule does_bind, rule quietly_effects, rule effects_journal_before)
  apply (rule does_bind, rule does_mono [OF effects_control_task])
  apply (rule does_mono [OF effects_control_end])
  apply simp
  done

lemma quiet_other_write_gate: "quietly (other_write_gate W act b) k"
  by (auto simp: other_write_gate_def intro!: quiet_rules split: prod.split)

text \<open>
  \<open>other_write_gate\<close> refuses only automatic sources, with 409, and only while a transaction is active.
\<close>

lemma other_write_gate_refuses:
  "does (other_write_gate W act b) k (\<lambda>g _ _. \<forall>r. g = Some r \<longrightarrow> reply_status r = 409 \<and> r \<noteq> Abort \<and>
     \<not> is_user (writer_source b) \<and> \<not> is_safety act (body_params b))"
  by (auto simp: other_write_gate_def e_other_write_def intro!: does_rules split: prod.splits option.splits if_splits)
    (auto simp: op_busy_def)

lemma effects_control_job:
  "does (control_job W act b) k (\<lambda>r es _.
     (effects es = [RExecute act (body_params b)] \<and> reply_status r \<noteq> 409 \<and> reply_status r \<noteq> 503) \<or>
     (effects es = [] \<and> reply_status r = 409 \<and> \<not> is_user (writer_source b) \<and> \<not> is_safety act (body_params b)))"
proof (cases "action_writes act")
  case True
  show ?thesis
    unfolding control_job_def if_P [OF True]
    apply (rule does_bind, rule does_mono [OF does_conj [OF quiet_other_write_gate other_write_gate_refuses]])
    subgoal for g es k'
      apply (cases g)
       apply simp
       apply (rule does_mono [OF effects_control_work])
       apply (auto simp: quiet_effects)[1]
      apply (auto simp: quiet_effects intro!: does_return)
      done
    done
next
  case False
  show ?thesis
    unfolding control_job_def if_not_P [OF False]
    by (rule does_bind, rule does_return) (auto intro: does_mono [OF effects_control_work])
qed

section \<open>Requests as a whole\<close>

lemma effects_run_control:
  "does (run_control W act b) k (\<lambda>r es _. (r = None \<longrightarrow> effects es = []) \<and>
     (\<forall>x. r = Some x \<longrightarrow>
        (effects es = [RExecute act (body_params b)] \<and> reply_status x \<noteq> 409 \<and> reply_status x \<noteq> 503) \<or>
        (effects es = [] \<and> reply_status x = 409 \<and> \<not> is_user (writer_source b) \<and> \<not> is_safety act (body_params b))))"
  unfolding run_control_def
  apply (rule does_bind, rule quietly_effects, rule quiet_peek)
  subgoal for full es k'
    apply (cases full)
     apply (simp add: does_return)
    apply simp
    apply (rule does_bind, rule quietly_effects, rule quiet_await)
    apply (rule does_bind, rule does_mono [OF effects_control_job], rule does_return)
    apply simp
    done
  done

lemma quiet_enqueue: "quietly (enqueue W itm act b) k"
  unfolding enqueue_def by (intro quiet_rules) simp

text \<open>An old request that is queued is the newest of its item in the queue when it is answered.\<close>

lemma enqueue_queued:
  "does (enqueue W itm act b) k (\<lambda>r es k'. effects es = [] \<and> r = legacy_queued act \<and>
     (\<exists>q \<in> set (e_legacy (k_eng k')). lr_item q = itm \<and> lr_action q = act \<and> lr_params q = body_params b))"
  unfolding enqueue_def
  by (rule does_bind, rule does_locked) (auto simp: e_enqueue_legacy_def Let_def intro!: does_rules)

lemma effects_run_write:
  "does (run_write W act b) k (\<lambda>r es k'.
     (effects es = [RExecute act (body_params b)] \<and> reply_status r \<noteq> 409 \<and> reply_status r \<noteq> 503) \<or>
     (effects es = [] \<and> \<not> is_safety act (body_params b) \<and>
       ((reply_status r = 409 \<and> \<not> is_user (writer_source b)) \<or>
        (r = control_busy act \<and> legacy_item act b = None) \<or>
        (r = legacy_queued act \<and> (\<exists>itm. legacy_item act b = Some itm \<and>
           (\<exists>q \<in> set (e_legacy (k_eng k')). lr_item q = itm \<and> lr_action q = act \<and> lr_params q = body_params b))))))"
  unfolding run_write_def
  apply (rule does_bind, rule quietly_effects)
   apply (auto intro!: quiet_rules)[1]
  apply (rule does_bind, rule does_mono [OF effects_run_control])
  subgoal for u es k' r es' k''
    apply (cases r)
     prefer 2 apply (auto intro!: does_return)[1]
    apply (cases "is_safety act (body_params b)")
     apply simp
     apply (rule does_bind, rule quietly_effects, rule quiet_await)
     apply (rule does_mono [OF effects_control_job])
     apply simp
    apply (cases "legacy_item act b")
     apply (simp add: does_return)
    apply simp
    apply (rule does_mono [OF enqueue_queued])
    apply simp
    done
  done

lemma quiet_write_gate: "quietly (write_gate W act b) k"
  by (auto simp: write_gate_def intro!: quiet_rules)

text \<open>Only a described action without a source is queued by the gate; a safety write always passes.\<close>

lemma write_gate_queue:
  "does (write_gate W act b) k (\<lambda>g es _. list_all quiet_event es \<and>
     (g = GateQueue \<longrightarrow> legacy_item act b \<noteq> None \<and> \<not> is_safety act (body_params b)))"
  by (auto simp: write_gate_def e_legacy_gate_def intro!: does_rules split: if_splits option.splits)

text \<open>What a whole request may do, once the service is ready.\<close>

definition request_effect :: "string \<Rightarrow> json \<Rightarrow> response \<Rightarrow> route_event list \<Rightarrow> bool" where
  "request_effect act b r fx \<longleftrightarrow>
     (fx = [] \<or>
      (fx = [RExecute act (body_params b)] \<and> act \<notin> set op_requests \<and> act \<notin> set session_requests \<and>
        (jget ''source'' b = None \<or> spec_find act = None)) \<or>
      (\<exists>sp tgt. fx = [RWrite sp tgt] \<and> body_source b \<noteq> None \<and> spec_find act = Some sp \<and>
        spec_target sp (body_params b) = Ok tgt)) \<and>
     (reply_status r = 409 \<or> reply_status r = 503 \<longrightarrow> fx = [])"

text \<open>The part of \<open>handle\<close> after \<open>ops_route\<close>.\<close>

lemma handle_rest:
  "does (do { g \<leftarrow> write_gate W act b;
      case g of
        GateQueue \<Rightarrow> (case legacy_item act b of None \<Rightarrow> State_Monad.return Abort | Some itm \<Rightarrow> enqueue W itm act b)
      | GatePass \<Rightarrow> run_write W act b }) k (\<lambda>r es k'.
     (effects es = [RExecute act (body_params b)] \<and> reply_status r \<noteq> 409 \<and> reply_status r \<noteq> 503) \<or>
     (effects es = [] \<and> \<not> is_safety act (body_params b) \<and>
       ((reply_status r = 409 \<and> \<not> is_user (writer_source b)) \<or>
        (r = control_busy act \<and> legacy_item act b = None) \<or>
        (r = legacy_queued act \<and> (\<exists>itm. legacy_item act b = Some itm \<and>
           (\<exists>q \<in> set (e_legacy (k_eng k')). lr_item q = itm \<and> lr_action q = act \<and> lr_params q = body_params b))))))"
  apply (rule does_bind, rule does_mono [OF write_gate_queue])
  subgoal for g es k'
    apply (cases g)
     apply (simp add: quiet_effects)
     apply (rule does_mono [OF effects_run_write])
     apply simp
    apply (clarsimp simp: quiet_effects)
    apply (rule does_mono [OF enqueue_queued])
    apply simp
    done
  done




section \<open>A write beside a transaction\<close>

lemma cancelled_is_final: "is_final (phase (txn_cancel why t))"
  by (simp add: txn_cancel_def txn_finish_def txn_step_def is_final_def)

lemma cancel_clears: "e_active e = Some t \<Longrightarrow>
  e_active (e_cancel now why e) = None \<and> e_last (e_cancel now why e) = Some \<lparr>l_txn = txn_cancel why t, l_acked = False\<rparr>"
  by (simp add: e_cancel_def e_finish_def e_retire_def e_publish_def e_out_def cancelled_is_final Let_def)

text \<open>
  Property C7. While a change is being confirmed or taken back, a write that affects the connection is handled by
  its source: one of an automatic source is answered 409 with the change in the way, and nothing at all is done
  or recorded; one of the user goes ahead, after the change has been ended as \<open>other_change\<close>, so that no automatic
  rollback can undo what the user now sets.
\<close>
theorem other_write_rule:
  assumes "action_writes act" "affects_network act (body_params b)" "\<not> is_safety act (body_params b)"
    "e_active (k_eng k) = Some t"
  shows "let now = o_now W (k_trace k); e' = e_cancel now OtherChange (k_eng k) in
    run_state (control_job W act b) k =
      (if is_user (writer_source b)
       then run_state (control_work W act b) (k\<lparr>k_eng := e', k_trace := k_trace k @ [RClock now, RKick]\<rparr>)
       else (op_busy act (busy_op t), k\<lparr>k_trace := k_trace k @ [RClock now]\<rparr>)) \<and>
    e_active e' = None \<and> e_last e' = Some \<lparr>l_txn = txn_cancel OtherChange t, l_acked = False\<rparr>"
proof -
  have "run_state (other_write_gate W act b) k =
      (if is_user (writer_source b)
       then (None, k\<lparr>k_eng := e_cancel (o_now W (k_trace k)) OtherChange (k_eng k),
              k_trace := k_trace k @ [RClock (o_now W (k_trace k)), RKick]\<rparr>)
       else (Some (op_busy act (busy_op t)), k\<lparr>k_trace := k_trace k @ [RClock (o_now W (k_trace k))]\<rparr>))"
    using assms(2-4)
    by (simp add: other_write_gate_def locked_def read_clock_def e_other_write_def trace_ev_def State_Monad.bind_def
        State_Monad.return_def Let_def)
  then show ?thesis
    using assms(1) cancel_clears [OF assms(4)]
    by (simp add: control_job_def State_Monad.bind_def State_Monad.return_def Let_def)
qed

section \<open>The trace of a control action\<close>

definition owner_events :: "journal_write \<Rightarrow> route_event list" where
  "owner_events w = (case jw_item w of None \<Rightarrow> [] | Some (itm, v) \<Rightarrow> [ROwner itm (jw_source w) False v None])"

lemma does_jw_owner: "does (jw_owner w) k (\<lambda>_ es _. es = owner_events w)"
  by (auto simp: jw_owner_def owner_events_def intro!: does_rules split: option.split prod.split)

lemma does_mark_after: "does (mark_after act r) k (\<lambda>_ es _.
  es = (if is_success r \<and> \<not> read_only act then [RForget, RMark (blocks_for_action act)] else []))"
  by (auto simp: mark_after_def forget_cache_def intro!: does_rules)

lemma does_control_task_writes:
  assumes "action_writes act"
  shows "does (control_task W act b) k (\<lambda>r es _. es = [RForget, RExecute act (body_params b), RAwait, RAwait])"
proof -
  have "\<not> read_only act" "act \<noteq> ''state.set_interval''"
    using assms by (auto simp: action_writes_def control_actions_def e4_actions_def)
  then show ?thesis
    by (auto simp: control_task_def forget_cache_def intro!: does_rules split: outcome.split)
qed

definition journal_after_events :: "journal_write \<Rightarrow> response \<Rightarrow> route_event list" where
  "journal_after_events w r =
     (if is_success r then RLine (jw_line w ''ok'' None) # owner_events w
      else [RLine (jw_line w ''failed'' (Some (reply_status r)))])"

lemma does_journal_after: "does (journal_after (Some w) ends r) k (\<lambda>_ es _.
  es = (if ends then [] else journal_after_events w r))"
  by (auto simp: journal_after_def journal_after_events_def intro!: does_rules does_mono [OF does_jw_owner])


section \<open>A transaction from the request to the write\<close>

lemma run_bind: "run_state m k = (a, k') \<Longrightarrow> run_state (m \<bind> f) k = run_state (f a) k'"
  by (simp add: State_Monad.bind_def)

lemma run_locked: "f (o_now W (k_trace k)) (k_eng k) = (a, e) \<Longrightarrow>
  run_state (locked W f) k = (a, k\<lparr>k_eng := e, k_trace := k_trace k @ [RClock (o_now W (k_trace k))]\<rparr>)"
  by (simp add: locked_def read_clock_def State_Monad.bind_def Let_def)

lemma run_on_device: "run_state m (o_dev W (k_trace k) (k_dev k)) = (a, w) \<Longrightarrow>
  run_state (on_device W m) k = (a, k\<lparr>k_eng := o_eng W (k_trace k @ [RAwait]) (o_eng W (k_trace k) (k_eng k)),
    k_dev := o_dev W (k_trace k @ [RAwait]) w, k_trace := k_trace k @ [RAwait, RAwait]\<rparr>)"
  by (simp add: on_device_def await_def State_Monad.bind_def State_Monad.return_def Let_def)

lemma check_reply_not_applied: "check_reply opid now e c \<noteq> Some (SrApplied x op)"
  by (simp add: check_reply_def split: submit_check.split)

lemma check_reply_None: "check_reply opid now e c = None \<longleftrightarrow> c = SubmitGo"
  by (simp add: check_reply_def split: submit_check.split)

lemma submit_applied_run:
  assumes run: "run_state (submit W req given) k = (SrApplied x op, k')"
  defines "opid \<equiv> (case given of Some i \<Rightarrow> i | None \<Rightarrow> o_id W (k_trace k))"
  defines "n1 \<equiv> o_now W (k_trace k)"
  defines "n2 \<equiv> o_now W (k_trace k @ [RClock n1])"
  defines "tr \<equiv> k_trace k @ [RClock n1, RClock n2]"
  obtains rd w cap e now e' where
    "run_state (dev_read (o_env W) n2 (q_spec req)) (o_dev W tr (k_dev k)) = (rd, w)" "e_capture rd = Ok cap"
    "e = o_eng W (tr @ [RAwait]) (o_eng W tr (k_eng k))" "now = o_now W (tr @ [RAwait, RAwait])"
    "e_submit_begin (e_var (o_env W)) (o_boot W) req opid cap now e = (SubmitGo, e')"
    "run_state (submit_write W req opid) (k\<lparr>k_dev := o_dev W (tr @ [RAwait]) w, k_eng := e',
       k_trace := tr @ [RAwait, RAwait, RClock now]\<rparr>) = (SrApplied x op, k')"
proof -
  obtain c where c: "check_reply opid n1 (k_eng k) (e_submit_check req opid n1 (k_eng k)) = c" by simp
  obtain rd w where rd: "run_state (dev_read (o_env W) n2 (q_spec req)) (o_dev W tr (k_dev k)) = (rd, w)" by fastforce
  have given: "run_state (case given of Some i \<Rightarrow> State_Monad.return i | None \<Rightarrow> peek (o_id W)) k = (opid, k)"
    by (cases given) (simp_all add: opid_def peek_def State_Monad.return_def)
  have first: "run_state (locked W (\<lambda>now e. (check_reply opid now e (e_submit_check req opid now e), e))) k
      = (c, k\<lparr>k_trace := k_trace k @ [RClock n1]\<rparr>)"
    by (simp add: locked_def read_clock_def State_Monad.bind_def Let_def c [symmetric] n1_def)
  have clock: "run_state (read_clock W) (k\<lparr>k_trace := k_trace k @ [RClock n1]\<rparr>) = (n2, k\<lparr>k_trace := tr\<rparr>)"
    by (simp add: read_clock_def Let_def n2_def tr_def)
  define k2 where "k2 = k\<lparr>k_eng := o_eng W (tr @ [RAwait]) (o_eng W tr (k_eng k)), k_dev := o_dev W (tr @ [RAwait]) w,
    k_trace := tr @ [RAwait, RAwait]\<rparr>"
  have dev: "run_state (on_device W (dev_read (o_env W) n2 (q_spec req))) (k\<lparr>k_trace := tr\<rparr>) = (rd, k2)"
    by (subst run_on_device [of _ W "k\<lparr>k_trace := tr\<rparr>" rd w]) (use rd in \<open>simp_all add: k2_def\<close>)
  have c0: "c = None"
    using run unfolding submit_def run_bind [OF given] run_bind [OF first]
    by (cases c) (auto simp: State_Monad.return_def c [symmetric] check_reply_not_applied)
  have *: "run_state (case e_capture rd of
      Err e \<Rightarrow> State_Monad.return (SrNoCapture e)
    | Ok cap \<Rightarrow> do {
        c \<leftarrow> locked W (\<lambda>now e. let (c, e') = e_submit_begin (e_var (o_env W)) (o_boot W) req opid cap now e
           in (check_reply opid now e c, e'));
        case c of Some r \<Rightarrow> State_Monad.return r | None \<Rightarrow> submit_write W req opid
      }) k2 = (SrApplied x op, k')"
    using run unfolding submit_def run_bind [OF given] run_bind [OF first] c0 option.case run_bind [OF clock] run_bind [OF dev] .
  then obtain cap where cap: "e_capture rd = Ok cap" by (cases "e_capture rd") (auto simp: State_Monad.return_def)
  define now where "now = o_now W (tr @ [RAwait, RAwait])"
  obtain c2 e' where beg: "e_submit_begin (e_var (o_env W)) (o_boot W) req opid cap now (k_eng k2) = (c2, e')" by fastforce
  have second: "run_state (locked W (\<lambda>now e. let (c, e') = e_submit_begin (e_var (o_env W)) (o_boot W) req opid cap now e
           in (check_reply opid now e c, e'))) k2
      = (check_reply opid now (k_eng k2) c2, k2\<lparr>k_eng := e', k_trace := k_trace k2 @ [RClock now]\<rparr>)"
    using beg by (subst run_locked) (simp_all add: k2_def now_def)
  have go: "check_reply opid now (k_eng k2) c2 = None"
    using * unfolding cap sum.case run_bind [OF second]
    by (cases "check_reply opid now (k_eng k2) c2") (auto simp: State_Monad.return_def check_reply_not_applied)
  then have "c2 = SubmitGo" by (simp add: check_reply_None)
  moreover have "run_state (submit_write W req opid) (k2\<lparr>k_eng := e', k_trace := k_trace k2 @ [RClock now]\<rparr>) = (SrApplied x op, k')"
    using * unfolding cap sum.case run_bind [OF second] by (simp add: go)
  ultimately show thesis
    using that [OF rd cap refl now_def] beg by (simp add: k2_def)
qed


section \<open>Concrete requests\<close>

definition sample_outside :: "plain outside" where
  "sample_outside = \<lparr>o_env = sample_device_env, o_crypto = sample_crypto, o_ser = \<lambda>_. [], o_ready = True,
     o_full = \<lambda>_. True, o_now = \<lambda>_. 5, o_id = \<lambda>_. ''op7'', o_boot = ''boot-1'', o_eng = \<lambda>_ e. e, o_dev = \<lambda>_ w. w,
     o_list = \<lambda>_ _. [], o_owners = \<lambda>_. jobj []\<rparr>"

definition sample_ctx :: "plain engine \<Rightarrow> plain ctx" where
  "sample_ctx e = \<lparr>k_eng = e, k_dev = sample_world, k_trace = []\<rparr>"

definition sample_off :: json where
  "sample_off = JObject [(''params'', JObject [(''enabled'', JNumber (PosInt 0))]), (''source'', JString ''web'')]"


definition sample_mode :: json where
  "sample_mode = JObject [(''params'', JObject [(''mode'', JString ''Only_LTE'')])]"

lemma sample_mode_params: "body_params sample_mode = JObject [(''mode'', JString ''Only_LTE'')]"
  by (simp add: body_params_def sample_mode_def jget_def)


theorem other_write_rule_witness:
  "fst (run_state (control_job sample_outside ''band.reset'' (JObject [(''source'', JString ''auto'')])) (sample_ctx ex_busy)) =
     op_busy ''band.reset'' (busy_op ex_active) \<and>
   e_active (e_cancel 5 OtherChange ex_busy) = None"
proof -
  let ?b = "JObject [(''source'', JString ''auto'')]"
  have "action_writes ''band.reset''" "affects_network ''band.reset'' (body_params ?b)" "\<not> is_safety ''band.reset'' (body_params ?b)"
    by (simp_all add: action_writes_def control_actions_def read_only_def affects_network_def session_blocks_def is_safety_def
        spec_find_def specs_def)
  moreover have "e_active (k_eng (sample_ctx ex_busy)) = Some ex_active" by (simp add: sample_ctx_def ex_busy_active)
  moreover have "\<not> is_user (writer_source ?b)"
    by (simp add: writer_source_def body_source_def jget_def as_str_def source_parse_def is_user_def)
  ultimately show ?thesis
    using other_write_rule [of "''band.reset''" ?b "sample_ctx ex_busy" ex_active sample_outside]
    by (simp add: Let_def sample_ctx_def sample_outside_def)
qed


definition sample_submit :: request where
  "sample_submit = \<lparr>q_spec = hd specs, q_target = ''Only_5G'', q_source = Web, q_undo = False\<rparr>"

lemma sample_go: "e_submit_check sample_submit ''op7'' 5 ex_engine = SubmitGo"
  by (simp add: e_submit_check_def e_find_def e_live_def find_recent_def ex_engine_eq e_new_def)

lemma sample_submit_applied:
  "does (submit sample_outside sample_submit None) (sample_ctx ex_engine) (\<lambda>r _ _. \<exists>x op. r = SrApplied x op)"
proof -
  obtain w where rd: "run_state (dev_read sample_device_env 5 (hd specs)) sample_world = (Ok sample_reading, w)"
    using sample_run by blast
  have "fst (e_submit_begin (e_var sample_device_env) ''boot-1'' sample_submit ''op7'' cap 5 ex_engine) = SubmitGo" for cap
    by (simp add: e_submit_begin_def sample_go Let_def)
  then have beg: "\<exists>e'. e_submit_begin (e_var sample_device_env) ''boot-1'' sample_submit ''op7'' cap 5 ex_engine = (SubmitGo, e')" for cap
    by (metis prod.collapse)
  obtain c where c: "e_capture (Ok sample_reading) = Ok c" by (simp add: e_capture_def sample_reading_def)
  obtain e' where e': "e_submit_begin (e_var sample_device_env) ''boot-1'' sample_submit ''op7'' c 5 ex_engine = (SubmitGo, e')"
    using beg by blast
  have out: "o_env sample_outside = sample_device_env" "o_now sample_outside tr = 5" "o_id sample_outside tr = ''op7''"
    "o_boot sample_outside = ''boot-1''" "o_eng sample_outside tr e = e" "o_dev sample_outside tr d = d" for tr e d
    by (simp_all add: sample_outside_def)
  have read: "does (on_device sample_outside (dev_read sample_device_env 5 (q_spec sample_submit))) k
      (\<lambda>a _ k'. a = Ok sample_reading \<and> k_eng k' = k_eng k)" if "k_dev k = sample_world" for k
    using that rd
    by (simp add: sample_submit_def does_def on_device_def await_def State_Monad.bind_def State_Monad.return_def Let_def out)
  show ?thesis
    unfolding submit_def option.case
    apply (rule does_bind, rule does_peek, simp only: out)
    apply (rule does_bind, rule does_locked)
    apply (simp add: out sample_ctx_def sample_go check_reply_def)
    apply (rule does_bind, rule does_read_clock)
    apply (simp add: out)
    apply (rule does_bind, rule does_mono [OF read])
     apply simp
    apply (clarsimp simp: c)
    apply (rule does_bind, rule does_locked)
    apply (clarsimp simp: out check_reply_def e')
    apply (rule does_mono [OF effects_submit_write])
    apply blast
    done
qed


end
