(* ===== verification/Block_Hub.thy ===== *)
theory Block_Hub
  imports Json
begin

text \<open>
  The block model and the hub, \<^verbatim>\<open>rust/src/block.rs\<close>: revision, staleness and schedule of every block
  and the point where events get their \<open>seq\<close>. Everything happens under one lock, so each public method
  is one function on the hub. Instants and durations are nanoseconds (\<open>nat\<close>; \<open>saturating_duration_since\<close>
  is the truncating subtraction). Events go to the sink in order; the hub keeps them in \<open>h_events\<close>. The
  publish policy of a block is the trait object of the source: two functions. A shape function is a
  function pointer, here a field.

  Floating point appears only in the thresholds of the signal block; the operations on \<open>f64\<close> that
  \<open>signal_crosses\<close> uses (parsing, converting, printing, comparing, a difference of at least 1.0) are a
  parameter, as is the text \<open>serde_json\<close> prints for a value.
\<close>

section \<open>Durations\<close>

definition min_max_age :: nat where "min_max_age = of_secs 15"
definition failure_retry :: nat where "failure_retry = of_secs 5"
definition signal_force :: nat where "signal_force = of_secs 30"

section \<open>Policies\<close>

datatype publish = PubNo | PubIfChanged

record policy_input =
  p_published :: "json option"
  p_current :: "json option"
  p_since_publish :: "nat option"

record policy =
  on_read :: "policy_input \<Rightarrow> publish"
  on_round_end :: "policy_input \<Rightarrow> publish"

definition OnChange :: policy where
  "OnChange = \<lparr>on_read = (\<lambda>_. PubIfChanged), on_round_end = (\<lambda>_. PubNo)\<rparr>"

definition LivePolicy :: policy where
  "LivePolicy = \<lparr>on_read = (\<lambda>_. PubNo), on_round_end = (\<lambda>_. PubIfChanged)\<rparr>"

subsection \<open>The signal block\<close>

record 'f float_ops =
  f_parse :: "string \<Rightarrow> 'f option"
  f_of_number :: "number \<Rightarrow> 'f option"
  f_print :: "'f \<Rightarrow> string"
  f_apart :: "'f \<Rightarrow> 'f \<Rightarrow> bool" \<comment> \<open>\<open>(a - b).abs() >= 1.0\<close>\<close>

record 'f signal_key =
  k_ident :: "string list"
  k_db :: "'f option list"

definition signal_db_fields :: "string list" where
  "signal_db_fields = [''nr_rsrp'', ''nr_rsrq'', ''nr_snr'', ''lte_rsrp'', ''lte_rsrq'', ''lte_snr'']"

definition signal_quiet_fields :: "string list" where
  "signal_quiet_fields = [''bars'', ''rssi'', ''nr_rssi'', ''lte_rssi'']"

definition signal_ca_fields :: "string list" where
  "signal_ca_fields = [''nrca'', ''lteca'', ''ltecasig'']"

definition db_value :: "'f float_ops \<Rightarrow> json \<Rightarrow> 'f option" where
  "db_value fl v = (case v of JNumber n \<Rightarrow> f_of_number fl n | JString s \<Rightarrow> f_parse fl (trim s) | _ \<Rightarrow> None)"

fun ca_nums :: "'f float_ops \<Rightarrow> string \<Rightarrow> nat \<Rightarrow> nat \<Rightarrow> nat \<Rightarrow> nat \<Rightarrow> 'f list \<Rightarrow> 'f signal_key \<Rightarrow> 'f signal_key" where
  "ca_nums fl field n lo hi i [] key = key"
| "ca_nums fl field n lo hi i (x # xs) key =
     ca_nums fl field n lo hi (i + 1) xs
       (if lo \<le> i \<and> i < hi then key\<lparr>k_db := k_db key @ [Some x]\<rparr>
        else if i < n - 1 then key\<lparr>k_ident := k_ident key @ [field @ '':'' @ nat_digits i @ ''='' @ f_print fl x]\<rparr>
        else key)"

definition ca_key :: "'f float_ops \<Rightarrow> string \<Rightarrow> string \<Rightarrow> 'f signal_key \<Rightarrow> 'f signal_key" where
  "ca_key fl field s key =
     (let (n, lo, hi) = (if field = ''ltecasig'' then (4, 0, 3) else (11, 7, 10));
          records = filter (\<lambda>r. trim r \<noteq> []) (split_char (CHR '';'') s);
          key = key\<lparr>k_ident := k_ident key @ [field @ ''#'' @ nat_digits (length records)]\<rparr>
      in fold (\<lambda>r key.
           let nums = List.map_filter (\<lambda>x. f_parse fl (trim x)) (split_char (CHR '','') r)
           in if length nums \<noteq> n \<or> length (split_char (CHR '','') r) \<noteq> n
              then key\<lparr>k_ident := k_ident key @ [field @ '':'' @ r]\<rparr>
              else ca_nums fl field n lo hi 0 nums key) records key)"

definition signal_key_of :: "'f float_ops \<Rightarrow> (json \<Rightarrow> string) \<Rightarrow> json \<Rightarrow> 'f signal_key" where
  "signal_key_of fl ser net =
     (case net of
        JObject m \<Rightarrow>
          fold (\<lambda>(k, v) key.
            if k \<in> set signal_db_fields then key\<lparr>k_db := k_db key @ [db_value fl v]\<rparr>
            else if k \<in> set signal_quiet_fields then key
            else if k \<in> set signal_ca_fields then ca_key fl k (case as_str v of Some s \<Rightarrow> s | None \<Rightarrow> []) key
            else key\<lparr>k_ident := k_ident key @ [k @ ''='' @ ser v]\<rparr>) m \<lparr>k_ident = [], k_db = []\<rparr>
      | other \<Rightarrow> \<lparr>k_ident = [ser other], k_db = []\<rparr>)"

definition signal_crosses :: "'f float_ops \<Rightarrow> (json \<Rightarrow> string) \<Rightarrow> json \<Rightarrow> json \<Rightarrow> bool" where
  "signal_crosses fl ser published current =
     (let p = signal_key_of fl ser published; c = signal_key_of fl ser current
      in if k_ident p \<noteq> k_ident c \<or> length (k_db p) \<noteq> length (k_db c) then True
         else list_ex (\<lambda>(a, b). case (a, b) of
                (Some x, Some y) \<Rightarrow> f_apart fl x y
              | (a, b) \<Rightarrow> (a = None) \<noteq> (b = None)) (zip (k_db p) (k_db c)))"

definition SignalPolicy :: "'f float_ops \<Rightarrow> (json \<Rightarrow> string) \<Rightarrow> policy" where
  "SignalPolicy fl ser = \<lparr>
     on_read = (\<lambda>i. case (p_published i, p_current i) of
        (Some p, Some c) \<Rightarrow>
          if signal_crosses fl ser p c \<or> is_none_or (p_since_publish i) (\<lambda>d. d \<ge> signal_force)
          then PubIfChanged else PubNo
      | _ \<Rightarrow> PubIfChanged),
     on_round_end = (\<lambda>_. PubNo)\<rparr>"

section \<open>Blocks\<close>

record block_spec =
  bs_name :: string
  bs_object :: string
  bs_method :: string
  bs_args :: json
  bs_interval :: nat
  bs_policy :: policy
  bs_derived :: bool
  bs_shape :: "(json \<Rightarrow> (string \<Rightarrow> json option) \<Rightarrow> json) option"
  bs_deps :: "string list"

definition spec_new :: "string \<Rightarrow> string \<Rightarrow> string \<Rightarrow> nat \<Rightarrow> block_spec" where
  "spec_new n obj meth ival = \<lparr>bs_name = n, bs_object = obj, bs_method = meth, bs_args = JObject [],
     bs_interval = ival, bs_policy = OnChange, bs_derived = False, bs_shape = None, bs_deps = []\<rparr>"

definition spec_derived :: "string \<Rightarrow> policy \<Rightarrow> block_spec" where
  "spec_derived n pol = (spec_new n [] [] 0)\<lparr>bs_policy := pol, bs_derived := True\<rparr>"

definition with_args :: "json \<Rightarrow> block_spec \<Rightarrow> block_spec" where
  "with_args a s = s\<lparr>bs_args := a\<rparr>"

definition with_shape :: "(json \<Rightarrow> (string \<Rightarrow> json option) \<Rightarrow> json) \<Rightarrow> string list \<Rightarrow> block_spec \<Rightarrow> block_spec" where
  "with_shape f deps s = s\<lparr>bs_shape := Some f, bs_deps := deps\<rparr>"

text \<open>\<open>phase1_blocks\<close>; the two shape functions of \<^verbatim>\<open>state.rs\<close> are arguments.\<close>

definition phase1_blocks :: "'f float_ops \<Rightarrow> (json \<Rightarrow> string) \<Rightarrow> (json \<Rightarrow> (string \<Rightarrow> json option) \<Rightarrow> json)
    \<Rightarrow> (json \<Rightarrow> (string \<Rightarrow> json option) \<Rightarrow> json) \<Rightarrow> block_spec list" where
  "phase1_blocks fl ser battery_v2 charger_v2 = [
     with_shape battery_v2 [''charger''] (spec_new ''battery'' ''zwrt_bsp.battery'' ''list'' (of_secs 5)),
     with_shape charger_v2 [] (spec_new ''charger'' ''zwrt_bsp.charger'' ''list'' (of_secs 5)),
     spec_new ''typec'' ''zwrt_bsp.typec'' ''list'' (of_secs 60),
     with_args (JObject [(''property'', JString ''state'')])
       (spec_new ''powerbank'' ''zwrt_bsp.powerbank'' ''get'' (of_secs 60)),
     spec_derived ''signal'' (SignalPolicy fl ser),
     spec_derived ''live'' LivePolicy,
     spec_derived ''sms'' OnChange,
     spec_derived ''sim'' OnChange,
     spec_derived ''op'' OnChange,
     spec_derived ''qos'' OnChange,
     spec_derived ''clients'' OnChange,
     spec_derived ''wlan'' OnChange,
     spec_derived ''nfc'' OnChange,
     spec_derived ''dhcp'' OnChange,
     spec_derived ''interfaces'' OnChange,
     spec_derived ''uci_device_info'' OnChange,
     spec_derived ''sms_list'' OnChange]"

record block =
  bk_spec :: block_spec
  bk_revision :: u64
  bk_observed_at :: u64
  bk_stale :: bool
  bk_raw :: "json option"
  bk_data :: "json option"
  bk_published :: "json option"
  bk_published_at :: "nat option"
  bk_last_attempt :: "nat option"
  bk_last_success :: "nat option"
  bk_last_failed :: bool
  bk_immediate :: bool

definition block_new :: "block_spec \<Rightarrow> block" where
  "block_new s = \<lparr>bk_spec = s, bk_revision = 0, bk_observed_at = 0, bk_stale = True, bk_raw = None,
     bk_data = None, bk_published = None, bk_published_at = None, bk_last_attempt = None,
     bk_last_success = None, bk_last_failed = False, bk_immediate = False\<rparr>"

abbreviation bk_name :: "block \<Rightarrow> string" where "bk_name b \<equiv> bs_name (bk_spec b)"

record block_view =
  v_name :: string
  v_revision :: u64
  v_observed_at :: u64
  v_stale :: bool
  v_data :: json

definition block_view :: "block \<Rightarrow> block_view" where
  "block_view b = \<lparr>v_name = bk_name b, v_revision = bk_revision b, v_observed_at = bk_observed_at b,
     v_stale = bk_stale b, v_data = (case bk_published b of Some d \<Rightarrow> d | None \<Rightarrow> JNull)\<rparr>"

definition max_age :: "nat \<Rightarrow> block \<Rightarrow> nat" where
  "max_age sample b =
     (let base = (if bs_interval (bk_spec b) = 0 then sample else bs_interval (bk_spec b))
      in max (base * 3) min_max_age)"

section \<open>The hub\<close>

record heartbeat =
  hb_seq :: u64
  hb_blocks :: "(string \<times> u64) list"
  hb_exec_age_ms :: u64

datatype event = EBlock u64 block_view | EHeartbeat heartbeat

record hub =
  h_seq :: u64
  h_blocks :: "block list"
  h_last_heartbeat :: "nat option"
  h_events :: "event list"

record schedule =
  cache :: bool
  sample_interval :: nat

definition hub_new :: "block_spec list \<Rightarrow> hub" where
  "hub_new ss = \<lparr>h_seq = 0, h_blocks = map block_new ss, h_last_heartbeat = None, h_events = []\<rparr>"

definition hub_request :: "nat \<Rightarrow> hub \<Rightarrow> string \<times> string \<times> json" where
  "hub_request i h = (let s = bk_spec (h_blocks h ! i) in (bs_object s, bs_method s, bs_args s))"

definition hub_due :: "nat \<Rightarrow> nat \<Rightarrow> schedule \<Rightarrow> hub \<Rightarrow> bool" where
  "hub_due i now sched h =
     (let b = h_blocks h ! i
      in if bs_derived (bk_spec b) then False
         else case bk_last_attempt b of
           None \<Rightarrow> True
         | Some la \<Rightarrow>
             if bk_immediate b \<or> \<not> cache sched \<or> bs_interval (bk_spec b) = 0 then True
             else
               let elapsed = now - la
               in if bk_last_failed b
                  then elapsed \<ge> min (failure_retry - sample_interval sched) (bs_interval (bk_spec b))
                  else elapsed \<ge> bs_interval (bk_spec b))"

definition mark_immediate :: "string list option \<Rightarrow> hub \<Rightarrow> hub" where
  "mark_immediate names h =
     h\<lparr>h_blocks := map (\<lambda>b. if is_none_or names (\<lambda>n. bk_name b \<in> set n) then b\<lparr>bk_immediate := True\<rparr> else b)
                    (h_blocks h)\<rparr>"

text \<open>
  \<open>publish\<close> on block \<open>i\<close>, which the caller has already updated to \<open>b\<close>. It stores the block and, when
  something goes out, counts the revision and the \<open>seq\<close> and emits the event.
\<close>

definition hub_publish :: "nat \<Rightarrow> block \<Rightarrow> publish \<Rightarrow> bool \<Rightarrow> nat \<Rightarrow> hub \<Rightarrow> hub" where
  "hub_publish i b decision flipped now h =
     (let data_changed = (bk_published b \<noteq> bk_data b);
          data_goes_out = (case decision of
             PubIfChanged \<Rightarrow> data_changed
           | PubNo \<Rightarrow> flipped \<and> \<not> bk_stale b \<and> data_changed)
      in if \<not> flipped \<and> \<not> data_goes_out then h\<lparr>h_blocks := (h_blocks h)[i := b]\<rparr>
         else
           let b = (if data_goes_out then b\<lparr>bk_published := bk_data b\<rparr> else b);
               b = b\<lparr>bk_published_at := Some now, bk_revision := bk_revision b + 1\<rparr>;
               s = h_seq h + 1
           in h\<lparr>h_seq := s, h_blocks := (h_blocks h)[i := b], h_events := h_events h @ [EBlock s (block_view b)]\<rparr>)"

definition policy_input_of :: "nat \<Rightarrow> block \<Rightarrow> policy_input" where
  "policy_input_of now b = \<lparr>p_published = bk_published b, p_current = bk_data b,
     p_since_publish = map_option (\<lambda>t. now - t) (bk_published_at b)\<rparr>"

definition raw_of :: "block list \<Rightarrow> string \<Rightarrow> json option" where
  "raw_of bs n = Option.bind (List.find (\<lambda>b. bk_name b = n) bs) bk_raw"

definition hub_shape :: "block list \<Rightarrow> nat \<Rightarrow> json \<Rightarrow> json" where
  "hub_shape bs i raw = (case bs_shape (bk_spec (bs ! i)) of Some f \<Rightarrow> f raw (raw_of bs) | None \<Rightarrow> raw)"

definition reshape_one :: "nat \<Rightarrow> nat \<Rightarrow> nat \<Rightarrow> hub \<Rightarrow> hub" where
  "reshape_one i now j h =
     (let b = h_blocks h ! j
      in if j = i \<or> bk_stale b \<or> bk_name (h_blocks h ! i) \<notin> set (bs_deps (bk_spec b)) then h
         else case bk_raw b of
           None \<Rightarrow> h
         | Some raw \<Rightarrow>
             let shaped = hub_shape (h_blocks h) j raw
             in if bk_data b = Some shaped then h
                else
                  let b = b\<lparr>bk_data := Some shaped\<rparr>;
                      decision = on_read (bs_policy (bk_spec b)) (policy_input_of now b)
                  in hub_publish j b decision False now h)"

definition reshape_dependents :: "nat \<Rightarrow> nat \<Rightarrow> hub \<Rightarrow> hub" where
  "reshape_dependents i now h = fold (reshape_one i now) [0..<length (h_blocks h)] h"

text \<open>
  \<open>record_read\<close>: \<open>wall\<close> is the wall clock in seconds. The source panics on an index out of range; its
  callers pass the index of a block, and the model leaves the hub as it is.
\<close>

definition record_read :: "nat \<Rightarrow> string + json \<Rightarrow> nat \<Rightarrow> u64 \<Rightarrow> hub \<Rightarrow> hub" where
  "record_read i result now wall h =
     (if i \<ge> length (h_blocks h) then h
      else
        let b = (h_blocks h ! i)\<lparr>bk_last_attempt := Some now, bk_immediate := False\<rparr>
        in case (case result of Ok v \<Rightarrow> if is_object v then Some v else None | Err _ \<Rightarrow> None) of
             Some v \<Rightarrow>
               let shaped = hub_shape (h_blocks h) i v;
                   raw_changed = (bk_raw b \<noteq> Some v);
                   was_stale = bk_stale b;
                   b = b\<lparr>bk_last_failed := False, bk_last_success := Some now, bk_observed_at := wall,
                         bk_raw := Some v, bk_data := Some shaped, bk_stale := False\<rparr>;
                   decision = on_read (bs_policy (bk_spec b)) (policy_input_of now b);
                   h = hub_publish i b decision was_stale now h
               in if raw_changed then reshape_dependents i now h else h
           | None \<Rightarrow>
               let b = b\<lparr>bk_last_failed := True\<rparr>
               in if \<not> bk_stale b then hub_publish i (b\<lparr>bk_stale := True\<rparr>) PubNo True now h
                  else h\<lparr>h_blocks := (h_blocks h)[i := b]\<rparr>)"

text \<open>\<open>record\<close>: by name; a name that is not a block is ignored.\<close>

fun position :: "('a \<Rightarrow> bool) \<Rightarrow> 'a list \<Rightarrow> nat option" where
  "position P [] = None"
| "position P (x # xs) = (if P x then Some 0 else map_option Suc (position P xs))"

definition hub_record :: "string \<Rightarrow> string + json \<Rightarrow> nat \<Rightarrow> u64 \<Rightarrow> hub \<Rightarrow> hub" where
  "hub_record n result now wall h =
     (case position (\<lambda>b. bk_name b = n) (h_blocks h) of
        Some i \<Rightarrow> record_read i result now wall h
      | None \<Rightarrow> h)"

definition expire_one :: "nat \<Rightarrow> nat \<Rightarrow> nat \<Rightarrow> hub \<Rightarrow> hub" where
  "expire_one now sample j h =
     (let b = h_blocks h ! j
      in if \<not> bk_stale b \<and> is_some_and (bk_last_success b) (\<lambda>t. now - t > max_age sample b)
         then hub_publish j (b\<lparr>bk_stale := True\<rparr>) PubNo True now h
         else h)"

definition hub_expire :: "nat \<Rightarrow> nat \<Rightarrow> hub \<Rightarrow> hub" where
  "hub_expire now sample h = fold (expire_one now sample) [0..<length (h_blocks h)] h"

definition round_end_one :: "nat \<Rightarrow> nat \<Rightarrow> hub \<Rightarrow> hub" where
  "round_end_one now j h =
     (let b = h_blocks h ! j
      in if bk_stale b then h
         else
           let decision = on_round_end (bs_policy (bk_spec b)) (policy_input_of now b)
           in if decision \<noteq> PubNo then hub_publish j b decision False now h else h)"

definition emit_heartbeat :: "nat \<Rightarrow> u64 \<Rightarrow> hub \<Rightarrow> heartbeat \<times> hub" where
  "emit_heartbeat now age h =
     (let s = h_seq h + 1;
          hb = \<lparr>hb_seq = s, hb_blocks = map (\<lambda>b. (bk_name b, bk_observed_at b)) (h_blocks h), hb_exec_age_ms = age\<rparr>
      in (hb, h\<lparr>h_seq := s, h_last_heartbeat := Some now, h_events := h_events h @ [EHeartbeat hb]\<rparr>))"

definition round_end :: "nat \<Rightarrow> nat \<Rightarrow> hub \<Rightarrow> heartbeat \<times> hub" where
  "round_end now sample h =
     (let h = hub_expire now sample h;
          h = fold (round_end_one now) [0..<length (h_blocks h)] h
      in emit_heartbeat now 0 h)"

definition heartbeat_if_quiet :: "nat \<Rightarrow> u64 \<Rightarrow> nat \<Rightarrow> hub \<Rightarrow> heartbeat option \<times> hub" where
  "heartbeat_if_quiet now age quiet h =
     (if is_some_and (h_last_heartbeat h) (\<lambda>t. now - t < quiet) then (None, h)
      else let (hb, h') = emit_heartbeat now age h in (Some hb, h'))"

definition snapshot :: "hub \<Rightarrow> u64 \<times> block_view list" where
  "snapshot h = (h_seq h, map block_view (h_blocks h))"

datatype legacy_error = NoData | BlockStale string | NoBlock string

definition legacy :: "string \<Rightarrow> hub \<Rightarrow> legacy_error + json" where
  "legacy n h =
     (case List.find (\<lambda>b. bk_name b = n) (h_blocks h) of
        None \<Rightarrow> Err (NoBlock n)
      | Some b \<Rightarrow>
          if \<not> bk_stale b then (case bk_raw b of Some v \<Rightarrow> Ok v | None \<Rightarrow> Err NoData)
          else Err (BlockStale n))"

section \<open>Small steps of the hub\<close>

text \<open>What a subscriber can see of a block: its view without the time of observation.\<close>

definition core :: "block \<Rightarrow> block_view" where
  "core b = (block_view b)\<lparr>v_observed_at := 0\<rparr>"

lemma core_eq_iff:
  "core a = core b \<longleftrightarrow> bk_name a = bk_name b \<and> bk_revision a = bk_revision b \<and> bk_stale a = bk_stale b
     \<and> v_data (block_view a) = v_data (block_view b)"
  by (auto simp: core_def block_view_def)

lemma core_cong_simps [simp]:
  "core (b\<lparr>bk_last_attempt := x1\<rparr>) = core b" "core (b\<lparr>bk_immediate := x2\<rparr>) = core b"
  "core (b\<lparr>bk_last_failed := x3\<rparr>) = core b" "core (b\<lparr>bk_last_success := x4\<rparr>) = core b"
  "core (b\<lparr>bk_observed_at := x5\<rparr>) = core b" "core (b\<lparr>bk_raw := x6\<rparr>) = core b"
  "core (b\<lparr>bk_data := x7\<rparr>) = core b"
  by (simp_all add: core_def block_view_def)

text \<open>
  Every operation of the hub is a sequence of three kinds of small steps: nothing visible happens, one
  block changes and its event goes out, or a heartbeat goes out.
\<close>

inductive hub_small :: "hub \<Rightarrow> hub \<Rightarrow> bool" where
  silent: "hub_small h h'"
    if "h_seq h' = h_seq h" "h_events h' = h_events h" "map core (h_blocks h') = map core (h_blocks h)"
| emit: "hub_small h h'"
    if "i < length (h_blocks h)" "h_seq h' = h_seq h + 1"
       "h_events h' = h_events h @ [EBlock (h_seq h + 1) (block_view b)]"
       "map core (h_blocks h') = (map core (h_blocks h))[i := core b]"
       "bk_name b = bk_name (h_blocks h ! i)" "bk_revision b = bk_revision (h_blocks h ! i) + 1"
| beat: "hub_small h h'"
    if "h_seq h' = h_seq h + 1" "h_events h' = h_events h @ [EHeartbeat hb]" "hb_seq hb = h_seq h + 1"
       "hb_blocks hb = map (\<lambda>b. (bk_name b, bk_observed_at b)) (h_blocks h)"
       "h_blocks h' = h_blocks h"

abbreviation hub_steps :: "hub \<Rightarrow> hub \<Rightarrow> bool" where "hub_steps \<equiv> hub_small\<^sup>*\<^sup>*"

lemma map_core_lengthD: "map core xs = map core ys \<Longrightarrow> length xs = length ys"
  by (rule map_eq_imp_length_eq)

lemma hub_small_length: "hub_small h h' \<Longrightarrow> length (h_blocks h') = length (h_blocks h)"
  by (induction rule: hub_small.induct) (auto dest: arg_cong [where f = length])

lemma hub_steps_length: "hub_steps h h' \<Longrightarrow> length (h_blocks h') = length (h_blocks h)"
  by (induction rule: rtranclp_induct) (auto dest: hub_small_length)

lemma hub_steps_fold:
  assumes "\<And>x g. x \<in> set xs \<Longrightarrow> length (h_blocks g) = length (h_blocks h) \<Longrightarrow> hub_steps g (f x g)"
  shows "hub_steps h (fold f xs h)"
  using assms
proof (induction xs arbitrary: h)
  case (Cons x xs)
  have one: "hub_steps h (f x h)" by (rule Cons.prems) simp_all
  have "hub_steps (f x h) (fold f xs (f x h))"
    by (rule Cons.IH) (simp add: Cons.prems hub_steps_length [OF one])
  with one show ?case by simp
qed simp

subsection \<open>Publishing\<close>

definition goes_out :: "block \<Rightarrow> publish \<Rightarrow> bool \<Rightarrow> bool" where
  "goes_out b decision flipped =
     (case decision of PubIfChanged \<Rightarrow> bk_published b \<noteq> bk_data b
      | PubNo \<Rightarrow> flipped \<and> \<not> bk_stale b \<and> bk_published b \<noteq> bk_data b)"

definition publish_block :: "block \<Rightarrow> publish \<Rightarrow> bool \<Rightarrow> nat \<Rightarrow> block" where
  "publish_block b decision flipped now =
     (if \<not> flipped \<and> \<not> goes_out b decision flipped then b
      else (if goes_out b decision flipped then b\<lparr>bk_published := bk_data b\<rparr> else b)
             \<lparr>bk_published_at := Some now, bk_revision := bk_revision b + 1\<rparr>)"

lemma publish_block_frame [simp]:
  "bk_spec (publish_block b d f now) = bk_spec b"
  "bk_stale (publish_block b d f now) = bk_stale b" "bk_raw (publish_block b d f now) = bk_raw b"
  "bk_data (publish_block b d f now) = bk_data b" "bk_last_success (publish_block b d f now) = bk_last_success b"
  "bk_observed_at (publish_block b d f now) = bk_observed_at b"
  by (simp_all add: publish_block_def)

lemma hub_publish_blocks [simp]:
  "h_blocks (hub_publish i b d f now h) = (h_blocks h)[i := publish_block b d f now]"
  by (simp add: hub_publish_def publish_block_def goes_out_def Let_def split: publish.splits)

lemma hub_publish_events:
  "h_events (hub_publish i b d f now h) = h_events h @
     (if \<not> f \<and> \<not> goes_out b d f then [] else [EBlock (h_seq h + 1) (block_view (publish_block b d f now))])"
  by (simp add: hub_publish_def publish_block_def goes_out_def Let_def split: publish.splits)

lemma hub_publish_seq:
  "h_seq (hub_publish i b d f now h) = (if \<not> f \<and> \<not> goes_out b d f then h_seq h else h_seq h + 1)"
  by (simp add: hub_publish_def goes_out_def Let_def split: publish.splits)

lemma hub_publish_small:
  assumes i: "i < length (h_blocks h)"
    and n: "bk_name b = bk_name (h_blocks h ! i)" "bk_revision b = bk_revision (h_blocks h ! i)"
    and c: "f \<or> core b = core (h_blocks h ! i)"
  shows "hub_small h (hub_publish i b d f now h)"
proof (cases "\<not> f \<and> \<not> goes_out b d f")
  case True
  with c have "map core ((h_blocks h)[i := b]) = map core (h_blocks h)"
    using i by (simp add: map_update list_update_same_conv)
  with True show ?thesis
    by (intro hub_small.silent) (auto simp: hub_publish_events hub_publish_seq publish_block_def)
next
  case False
  then show ?thesis
    by (intro hub_small.emit [OF i, where b = "publish_block b d f now"])
       (auto simp: hub_publish_events hub_publish_seq map_update n publish_block_def)
qed

lemma silent_update:
  assumes "core b = core (h_blocks h ! i)"
  shows "hub_small h (h\<lparr>h_blocks := (h_blocks h)[i := b]\<rparr>)"
  using assms by (cases "i < length (h_blocks h)")
    (intro hub_small.silent; simp add: map_update list_update_same_conv list_update_beyond)+


subsection \<open>Every operation is a sequence of small steps\<close>

lemma reshape_one_steps: "j < length (h_blocks h) \<Longrightarrow> hub_steps h (reshape_one i now j h)"
  by (auto simp: reshape_one_def Let_def split: option.splits intro!: hub_publish_small r_into_rtranclp)

lemma reshape_dependents_steps: "hub_steps h (reshape_dependents i now h)"
  unfolding reshape_dependents_def by (rule hub_steps_fold) (simp add: reshape_one_steps)

lemma record_read_steps: "hub_steps h (record_read i result now wall h)"
proof -
  let ?b = "(h_blocks h ! i)\<lparr>bk_last_attempt := Some now, bk_immediate := False\<rparr>"
  show ?thesis
  proof (cases "i < length (h_blocks h)")
    case i: True
    show ?thesis
    proof (cases "\<exists>v. result = Ok v \<and> is_object v")
      case True
      then obtain v where v: "result = Ok v" "is_object v" by blast
      let ?b' = "?b\<lparr>bk_last_failed := False, bk_last_success := Some now, bk_observed_at := wall,
                     bk_raw := Some v, bk_data := Some (hub_shape (h_blocks h) i v), bk_stale := False\<rparr>"
      define g where "g = hub_publish i ?b' (on_read (bs_policy (bk_spec ?b')) (policy_input_of now ?b'))
        (bk_stale (h_blocks h ! i)) now h"
      have core: "bk_stale (h_blocks h ! i) \<or> core ?b' = core (h_blocks h ! i)"
        by (simp add: core_def block_view_def)
      have small: "hub_small h g"
        unfolding g_def by (rule hub_publish_small [OF i _ _ core]) simp_all
      have "record_read i result now wall h = (if bk_raw (h_blocks h ! i) \<noteq> Some v then reshape_dependents i now g else g)"
        using i v by (simp add: record_read_def g_def Let_def)
      then show ?thesis
        using small reshape_dependents_steps [of g i now]
        by (cases "bk_raw (h_blocks h ! i) \<noteq> Some v") (simp_all add: r_into_rtranclp converse_rtranclp_into_rtranclp)
    next
      case False
      then have "(case result of Ok v \<Rightarrow> if is_object v then Some v else None | Err _ \<Rightarrow> None) = None"
        by (auto split: sum.splits)
      with i show ?thesis
        by (auto simp: record_read_def Let_def intro!: r_into_rtranclp hub_publish_small silent_update)
    qed
  qed (simp add: record_read_def)
qed

lemma hub_record_steps: "hub_steps h (hub_record n result now wall h)"
  by (simp add: hub_record_def record_read_steps split: option.split)

lemma mark_immediate_steps: "hub_steps h (mark_immediate names h)"
  by (rule r_into_rtranclp, rule hub_small.silent) (simp_all add: mark_immediate_def)

lemma hub_expire_steps: "hub_steps h (hub_expire now sample h)"
  unfolding hub_expire_def
  by (rule hub_steps_fold) (auto simp: expire_one_def Let_def intro!: r_into_rtranclp hub_publish_small)

lemma emit_heartbeat_small: "hub_small h (snd (emit_heartbeat now age h))"
  by (rule hub_small.beat [where hb = "fst (emit_heartbeat now age h)"]) (simp_all add: emit_heartbeat_def Let_def)

lemma round_end_heartbeat:
  obtains g where "hub_steps h g" "snd (round_end now sample h) = snd (emit_heartbeat now 0 g)"
proof -
  let ?h = "hub_expire now sample h"
  let ?g = "fold (round_end_one now) [0..<length (h_blocks ?h)] ?h"
  have "hub_steps ?h ?g"
    by (rule hub_steps_fold) (auto simp: round_end_one_def Let_def intro!: r_into_rtranclp hub_publish_small)
  then have "hub_steps h ?g" by (rule rtranclp_trans [OF hub_expire_steps])
  then show thesis by (rule that) (simp add: round_end_def Let_def)
qed


lemma round_end_steps: "hub_steps h (snd (round_end now sample h))"
proof -
  obtain g where g: "hub_steps h g" "snd (round_end now sample h) = snd (emit_heartbeat now 0 g)"
    by (rule round_end_heartbeat)
  show ?thesis unfolding g(2) by (rule rtranclp.rtrancl_into_rtrancl [OF g(1) emit_heartbeat_small])
qed

lemma heartbeat_if_quiet_steps: "hub_steps h (snd (heartbeat_if_quiet now age quiet h))"
  using emit_heartbeat_small [of h now age]
  by (auto simp: heartbeat_if_quiet_def split: prod.splits)

section \<open>A subscriber that starts from a snapshot\<close>

text \<open>
  The client of the hub sees a snapshot and then the events. \<open>event_sourced\<close> is the contract it relies
  on: each command appends events, and applying exactly those to the earlier view gives the later one.
\<close>

locale event_sourced =
  fixes step :: "'c \<Rightarrow> 's \<Rightarrow> 's"
    and events :: "'s \<Rightarrow> 'e list"
    and view :: "'s \<Rightarrow> 'v"
    and app :: "'e \<Rightarrow> 'v \<Rightarrow> 'v"
    and ok :: "'s \<Rightarrow> bool"
  assumes ok_step: "ok s \<Longrightarrow> ok (step c s)"
    and step_events: "ok s \<Longrightarrow> \<exists>es. events (step c s) = events s @ es \<and> view (step c s) = fold app es (view s)"
begin

lemma ok_run: "ok s \<Longrightarrow> ok (fold step cs s)"
  by (induction cs arbitrary: s) (auto simp: ok_step)

lemma run_events:
  "ok s \<Longrightarrow> \<exists>es. events (fold step cs s) = events s @ es \<and> view (fold step cs s) = fold app es (view s)"
proof (induction cs arbitrary: s)
  case (Cons c cs)
  obtain es where es: "events (step c s) = events s @ es" "view (step c s) = fold app es (view s)"
    using step_events [OF Cons.prems] by blast
  obtain es' where es': "events (fold step cs (step c s)) = events (step c s) @ es'"
    "view (fold step cs (step c s)) = fold app es' (view (step c s))"
    using Cons.IH [OF ok_step [OF Cons.prems]] by blast
  show ?case by (rule exI [of _ "es @ es'"]) (simp add: es es')
qed simp

text \<open>No event is lost and none is applied twice: the cut point of the snapshot is the number of events.\<close>

lemma catch_up:
  assumes "ok s"
  shows "take (length (events s)) (events (fold step cs s)) = events s"
    and "fold app (drop (length (events s)) (events (fold step cs s))) (view s) = view (fold step cs s)"
  using run_events [OF assms, of cs] by auto

end

subsection \<open>The commands of the hub\<close>

datatype hub_cmd =
  CRead nat "string + json" nat u64
| CRecord string "string + json" nat u64
| CMark "string list option"
| CExpire nat nat
| CRoundEnd nat nat
| CQuiet nat u64 nat

fun hub_exec :: "hub_cmd \<Rightarrow> hub \<Rightarrow> hub" where
  "hub_exec (CRead i r now wall) h = record_read i r now wall h"
| "hub_exec (CRecord n r now wall) h = hub_record n r now wall h"
| "hub_exec (CMark names) h = mark_immediate names h"
| "hub_exec (CExpire now sample) h = hub_expire now sample h"
| "hub_exec (CRoundEnd now sample) h = snd (round_end now sample h)"
| "hub_exec (CQuiet now age quiet) h = snd (heartbeat_if_quiet now age quiet h)"

lemma hub_exec_steps: "hub_steps h (hub_exec c h)"
  by (cases c) (simp_all add: record_read_steps hub_record_steps mark_immediate_steps hub_expire_steps
      round_end_steps heartbeat_if_quiet_steps)

lemma hub_run_steps: "hub_steps h (fold hub_exec cs h)"
  by (rule hub_steps_fold) (rule hub_exec_steps)

subsection \<open>What a subscriber does with an event\<close>

text \<open>
  A subscriber keeps the \<open>seq\<close> and the views of the snapshot. A block event replaces the view of that
  block; a heartbeat refreshes the times of observation. \<open>strip\<close> forgets those times, because a
  read that changes nothing else moves them without an event.
\<close>

definition client_apply :: "event \<Rightarrow> u64 \<times> block_view list \<Rightarrow> u64 \<times> block_view list" where
  "client_apply e c =
     (case e of
        EBlock s v \<Rightarrow> (s, map (\<lambda>w. if v_name w = v_name v then v else w) (snd c))
      | EHeartbeat hb \<Rightarrow> (hb_seq hb,
          map (\<lambda>w. w\<lparr>v_observed_at := (case map_of (hb_blocks hb) (v_name w) of Some t \<Rightarrow> t | None \<Rightarrow> v_observed_at w)\<rparr>)
            (snd c)))"

definition strip :: "u64 \<times> block_view list \<Rightarrow> u64 \<times> block_view list" where
  "strip c = (fst c, map (\<lambda>w. w\<lparr>v_observed_at := 0\<rparr>) (snd c))"

definition hub_ok :: "hub \<Rightarrow> bool" where
  "hub_ok h \<longleftrightarrow> distinct (map bk_name (h_blocks h))"

lemma strip_strip [simp]: "strip (strip c) = strip c"
  by (simp add: strip_def)

lemma strip_client_apply: "strip (client_apply e (strip c)) = strip (client_apply e c)"
  by (auto simp: strip_def client_apply_def split: event.splits)

lemma strip_fold_client:
  "fold (\<lambda>e c. strip (client_apply e c)) es (strip c) = strip (fold client_apply es c)"
  by (induction es arbitrary: c) (simp_all add: strip_client_apply)

lemma strip_snapshot: "strip (snapshot h) = (h_seq h, map core (h_blocks h))"
  by (simp add: strip_def snapshot_def core_def)

lemma names_of_core: "map bk_name bs = map v_name (map core bs)"
  by (simp add: core_def block_view_def)

lemma replace_by_name:
  assumes "distinct (map v_name ws)" "i < length ws" "v_name v = v_name (ws ! i)"
  shows "map (\<lambda>w. if v_name w = v_name v then v else w) ws = ws[i := v]"
  using assms by (auto intro!: nth_equalityI simp: nth_list_update distinct_conv_nth)

lemma hub_small_ok: "hub_small h h' \<Longrightarrow> hub_ok h \<Longrightarrow> hub_ok h'"
proof (induction rule: hub_small.induct)
  case (emit i h h' b)
  have "map v_name ((map core (h_blocks h))[i := core b]) = map v_name (map core (h_blocks h))"
    using emit(1,5) by (simp add: map_update list_update_same_conv core_def block_view_def)
  with emit show ?case by (simp add: hub_ok_def names_of_core del: map_map)
qed (simp_all add: hub_ok_def names_of_core del: map_map)

lemma snd_strip: "snd (strip (snapshot h)) = map core (h_blocks h)"
  by (simp add: strip_snapshot)

lemma strip_apply_block:
  "strip (client_apply (EBlock s v) (strip c))
     = (s, map (\<lambda>w. if v_name w = v_name v then v\<lparr>v_observed_at := 0\<rparr> else w) (snd (strip c)))"
  by (auto simp: strip_def client_apply_def)

lemma hub_small_view:
  assumes "hub_small h h'" "hub_ok h"
  shows "\<exists>es. h_events h' = h_events h @ es
           \<and> strip (snapshot h') = fold (\<lambda>e c. strip (client_apply e c)) es (strip (snapshot h))"
  using assms
proof (induction rule: hub_small.induct)
  case (silent h' h)
  then show ?case by (intro exI [of _ "[]"]) (simp add: strip_snapshot)
next
  case (emit i h h' b)
  have "map (\<lambda>w. if v_name w = v_name (block_view b) then core b else w) (map core (h_blocks h))
      = (map core (h_blocks h))[i := core b]"
    using emit(1,5) emit(7) [unfolded hub_ok_def names_of_core]
    by (subst replace_by_name [symmetric]) (simp_all add: core_def block_view_def)
  then have "strip (client_apply (EBlock (h_seq h + 1) (block_view b)) (strip (snapshot h)))
      = (h_seq h + 1, (map core (h_blocks h))[i := core b])"
    by (simp add: strip_apply_block snd_strip core_def [of b, symmetric] cong: if_cong del: map_map)
  with emit show ?case
    by (intro exI [of _ "[EBlock (h_seq h + 1) (block_view b)]"]) (simp add: strip_snapshot)
next
  case (beat h' h hb)
  then show ?case
    by (intro exI [of _ "[EHeartbeat hb]"]) (simp add: snapshot_def strip_def client_apply_def)
qed

lemma hub_steps_view:
  assumes "hub_steps h h'" "hub_ok h"
  shows "hub_ok h' \<and> (\<exists>es. h_events h' = h_events h @ es
           \<and> strip (snapshot h') = fold (\<lambda>e c. strip (client_apply e c)) es (strip (snapshot h)))"
  using assms
proof (induction rule: rtranclp_induct)
  case base
  then show ?case by (auto intro: exI [of _ "[]"])
next
  case (step g h')
  then obtain es where es: "hub_ok g" "h_events g = h_events h @ es"
    "strip (snapshot g) = fold (\<lambda>e c. strip (client_apply e c)) es (strip (snapshot h))" by blast
  obtain es' where es': "h_events h' = h_events g @ es'"
    "strip (snapshot h') = fold (\<lambda>e c. strip (client_apply e c)) es' (strip (snapshot g))"
    using hub_small_view [OF step.hyps(2) es(1)] by blast
  have "hub_ok h'" by (rule hub_small_ok [OF step.hyps(2) es(1)])
  moreover have "h_events h' = h_events h @ (es @ es')" by (simp add: es es')
  moreover have "strip (snapshot h') = fold (\<lambda>e c. strip (client_apply e c)) (es @ es') (strip (snapshot h))"
    by (simp add: es es')
  ultimately show ?case by blast
qed

interpretation hub: event_sourced hub_exec h_events "\<lambda>h. strip (snapshot h)" "\<lambda>e c. strip (client_apply e c)" hub_ok
  using hub_steps_view [OF hub_exec_steps] by unfold_locales blast+


subsection \<open>The snapshot contract\<close>

lemma hub_new_ok: "distinct (map bs_name ss) \<Longrightarrow> hub_ok (hub_new ss)"
  by (simp add: hub_ok_def hub_new_def block_new_def comp_def)

lemma apply_own_heartbeat:
  assumes ok: "hub_ok h" and c: "strip c = strip (snapshot h)"
    and hb: "hb_seq hb = h_seq h + 1" "hb_blocks hb = map (\<lambda>b. (bk_name b, bk_observed_at b)) (h_blocks h)"
  shows "client_apply (EHeartbeat hb) c = (h_seq h + 1, map block_view (h_blocks h))"
proof -
  let ?set = "\<lambda>w. w\<lparr>v_observed_at := (case map_of (hb_blocks hb) (v_name w) of Some t \<Rightarrow> t | None \<Rightarrow> v_observed_at w)\<rparr>"
  have look: "map_of (hb_blocks hb) (bk_name b) = Some (bk_observed_at b)" if "b \<in> set (h_blocks h)" for b
    using ok that by (auto intro!: map_of_is_SomeI simp: hub_ok_def hb comp_def)
  have eq: "map (\<lambda>w. w\<lparr>v_observed_at := 0\<rparr>) (snd c) = map core (h_blocks h)"
    using c by (auto simp: strip_def snapshot_def core_def)
  have len: "length (snd c) = length (h_blocks h)" using arg_cong [OF eq, of length] by simp
  have "map ?set (snd c) = map block_view (h_blocks h)"
  proof (rule nth_equalityI)
    fix i assume "i < length (map ?set (snd c))"
    then have i: "i < length (h_blocks h)" by (simp add: len)
    have "(snd c ! i)\<lparr>v_observed_at := 0\<rparr> = core (h_blocks h ! i)"
      using arg_cong [OF eq, of "\<lambda>xs. xs ! i"] i len by simp
    then show "map ?set (snd c) ! i = map block_view (h_blocks h) ! i"
      using i len look [of "h_blocks h ! i"]
      by (cases "snd c ! i") (auto simp: core_def block_view_def)
  qed (simp add: len)
  then show ?thesis by (simp add: client_apply_def hb)
qed

lemma resync_at_round_end:
  assumes ok: "hub_ok h"
  shows "fold client_apply (drop (length (h_events h)) (h_events (snd (round_end now sample (fold hub_exec cs h))))) (snapshot h)
       = snapshot (snd (round_end now sample (fold hub_exec cs h)))"
proof -
  obtain g where g: "hub_steps (fold hub_exec cs h) g"
    "snd (round_end now sample (fold hub_exec cs h)) = snd (emit_heartbeat now 0 g)"
    by (rule round_end_heartbeat)
  have "hub_steps h g" by (rule rtranclp_trans [OF hub_run_steps g(1)])
  from hub_steps_view [OF this ok] obtain es where es: "hub_ok g" "h_events g = h_events h @ es"
    "strip (snapshot g) = strip (fold client_apply es (snapshot h))"
    by (auto simp: strip_fold_client)
  let ?hb = "fst (emit_heartbeat now 0 g)"
  have "client_apply (EHeartbeat ?hb) (fold client_apply es (snapshot h)) = (h_seq g + 1, map block_view (h_blocks g))"
    by (rule apply_own_heartbeat [OF es(1)]) (simp_all add: es emit_heartbeat_def Let_def)
  then show ?thesis by (simp add: g es emit_heartbeat_def Let_def snapshot_def)
qed

text \<open>
  A subscriber takes the snapshot at any moment of any run (\<open>before\<close>) and then applies every
  later event, in order (\<open>after\<close>, any further operations of the executor, the timers and the control
  path). The events before the cut are unchanged, and the subscriber has for every block the revision,
  the staleness and the data of the hub, with the \<open>seq\<close> of the hub: it loses nothing and counts nothing
  twice. Right after the heartbeat of a round end it agrees with a fresh snapshot completely, the times of
  observation included.
\<close>

theorem snapshot_then_events:
  assumes "distinct (map bs_name ss)"
  shows "let h = fold hub_exec before (hub_new ss); h' = fold hub_exec after h; h'' = snd (round_end now sample h') in
      take (length (h_events h)) (h_events h') = h_events h
    \<and> strip (fold client_apply (drop (length (h_events h)) (h_events h')) (snapshot h)) = strip (snapshot h')
    \<and> fold client_apply (drop (length (h_events h)) (h_events h'')) (snapshot h) = snapshot h''"
proof -
  have ok: "hub_ok (fold hub_exec before (hub_new ss))"
    by (rule hub.ok_run) (rule hub_new_ok [OF assms])
  show ?thesis
    using hub.catch_up [OF ok, of after] resync_at_round_end [OF ok, of now sample after]
    by (simp add: Let_def strip_fold_client)
qed

section \<open>Numbering of events and revisions\<close>

fun event_seq :: "event \<Rightarrow> u64" where
  "event_seq (EBlock s v) = s"
| "event_seq (EHeartbeat hb) = hb_seq hb"

fun is_block_event :: "string \<Rightarrow> event \<Rightarrow> bool" where
  "is_block_event n (EBlock s v) \<longleftrightarrow> v_name v = n"
| "is_block_event n (EHeartbeat hb) \<longleftrightarrow> False"

definition numbered :: "hub \<Rightarrow> bool" where
  "numbered h \<longleftrightarrow> h_seq h = of_nat (length (h_events h))
     \<and> map event_seq (h_events h) = map of_nat [1..<Suc (length (h_events h))]
     \<and> (\<forall>w \<in> set (map core (h_blocks h)). v_revision w = of_nat (length (filter (is_block_event (v_name w)) (h_events h))))"

lemma core_name [simp]: "v_name (core b) = bk_name b" "v_revision (core b) = bk_revision b"
  "v_name (block_view b) = bk_name b"
  by (simp_all add: core_def block_view_def)

lemma hub_small_numbered: "hub_small h h' \<Longrightarrow> hub_ok h \<Longrightarrow> numbered h \<Longrightarrow> numbered h'"
proof (induction rule: hub_small.induct)
  case (emit i h h' b)
  let ?new = "h_events h @ [EBlock (h_seq h + 1) (block_view b)]"
  have d: "\<And>j. j < length (h_blocks h) \<Longrightarrow> j \<noteq> i \<Longrightarrow> bk_name (h_blocks h ! j) \<noteq> bk_name (h_blocks h ! i)"
    using emit(1,7) by (simp add: hub_ok_def distinct_conv_nth)
  have r: "\<And>j. j < length (h_blocks h) \<Longrightarrow> bk_revision (h_blocks h ! j)
      = of_nat (length (filter (is_block_event (bk_name (h_blocks h ! j))) (h_events h)))"
    using emit(8) by (simp add: numbered_def)
  have "v_revision w = of_nat (length (filter (is_block_event (v_name w)) ?new))"
    if w: "w \<in> set ((map core (h_blocks h))[i := core b])" for w
  proof -
    obtain j where j: "j < length (h_blocks h)" "w = (map core (h_blocks h))[i := core b] ! j"
      using w by (auto simp: in_set_conv_nth)
    show ?thesis
      using j emit(1,5,6) r [OF j(1)] r [OF emit(1)] d [OF j(1)]
      by (cases "j = i") (auto simp: add.commute)
  qed
  with emit show ?case by (simp add: numbered_def add.commute)
qed (simp_all add: numbered_def add.commute)

lemma hub_steps_numbered: "hub_steps h h' \<Longrightarrow> hub_ok h \<Longrightarrow> numbered h \<Longrightarrow> hub_ok h' \<and> numbered h'"
  by (induction rule: rtranclp_induct) (auto intro: hub_small_numbered hub_small_ok)

text \<open>
  Whatever the hub does, its events carry the numbers 1, 2, 3, \<dots> in the order they are emitted
  (heartbeats and block events share the counter), \<open>seq\<close> is the number of the last one, and the revision of
  a block is the number of block events it has had. Both counters are 64 bits wide and wrap.
\<close>

theorem events_numbered:
  assumes "distinct (map bs_name ss)"
  shows "let h = fold hub_exec cs (hub_new ss) in
      h_seq h = of_nat (length (h_events h))
    \<and> map event_seq (h_events h) = map of_nat [1..<Suc (length (h_events h))]
    \<and> map bk_revision (h_blocks h)
      = map (\<lambda>b. of_nat (length (filter (is_block_event (bk_name b)) (h_events h)))) (h_blocks h)"
proof -
  have "numbered (hub_new ss)" by (simp add: numbered_def hub_new_def block_new_def)
  from hub_steps_numbered [OF hub_run_steps [of "hub_new ss" cs] hub_new_ok [OF assms] this]
  show ?thesis by (auto simp: numbered_def Let_def)
qed

section \<open>Freshness\<close>

text \<open>
  \<open>keeps\<close>: what an operation leaves alone in a block it does not read. Only a read gives a block new raw
  data or clears its staleness.
\<close>

definition keeps :: "block \<Rightarrow> block \<Rightarrow> bool" where
  "keeps b b' \<longleftrightarrow> bk_spec b' = bk_spec b \<and> bk_raw b' = bk_raw b \<and> bk_last_success b' = bk_last_success b
     \<and> (bk_stale b \<longrightarrow> bk_stale b')"

lemma keeps_refl [simp]: "keeps b b" by (simp add: keeps_def)

lemma keeps_trans: "keeps a b \<Longrightarrow> keeps b c \<Longrightarrow> keeps a c" by (auto simp: keeps_def)

abbreviation all_keep :: "block list \<Rightarrow> block list \<Rightarrow> bool" where "all_keep \<equiv> list_all2 keeps"

lemma all_keep_refl [simp]: "all_keep bs bs" by (simp add: list_all2_refl)

lemma all_keep_trans: "all_keep as bs \<Longrightarrow> all_keep bs cs \<Longrightarrow> all_keep as cs"
  by (rule list_all2_trans [OF keeps_trans])

lemma all_keep_update: "keeps (bs ! i) b \<Longrightarrow> all_keep bs (bs[i := b])"
  by (cases "i < length bs") (auto simp: list_all2_conv_all_nth nth_list_update list_update_beyond)

lemma all_keep_fold:
  assumes "\<And>x g. all_keep (h_blocks g) (h_blocks (f x g))"
  shows "all_keep (h_blocks h) (h_blocks (fold f xs h))"
  by (induction xs arbitrary: h) (auto intro: all_keep_trans [OF assms])

lemma reshape_dependents_keep: "all_keep (h_blocks h) (h_blocks (reshape_dependents i now h))"
  unfolding reshape_dependents_def
  by (rule all_keep_fold)
     (auto simp: reshape_one_def Let_def keeps_def split: option.splits intro!: all_keep_update)

lemma hub_expire_keep: "all_keep (h_blocks h) (h_blocks (hub_expire now sample h))"
  unfolding hub_expire_def
  by (rule all_keep_fold) (auto simp: expire_one_def Let_def keeps_def intro!: all_keep_update)

lemma emit_heartbeat_blocks [simp]: "h_blocks (snd (emit_heartbeat now age h)) = h_blocks h"
  by (simp add: emit_heartbeat_def Let_def)

lemma round_end_keep: "all_keep (h_blocks h) (h_blocks (snd (round_end now sample h)))"
  unfolding round_end_def Let_def emit_heartbeat_blocks
  by (rule all_keep_trans [OF hub_expire_keep all_keep_fold])
     (auto simp: round_end_one_def Let_def keeps_def intro!: all_keep_update)

lemma heartbeat_if_quiet_blocks [simp]: "h_blocks (snd (heartbeat_if_quiet now age quiet h)) = h_blocks h"
  by (simp add: heartbeat_if_quiet_def emit_heartbeat_def Let_def)

lemma mark_immediate_keep: "all_keep (h_blocks h) (h_blocks (mark_immediate names h))"
  by (auto simp: mark_immediate_def keeps_def list_all2_conv_all_nth)

subsection \<open>The last read of a block\<close>

text \<open>\<open>last_read ss i\<close>: result and time of the most recent read of block \<open>i\<close> in a history, newest first.\<close>

definition read_of :: "block_spec list \<Rightarrow> hub_cmd \<Rightarrow> (nat \<times> (string + json) \<times> nat) option" where
  "read_of ss c =
     (case c of
        CRead i r now wall \<Rightarrow> if i < length ss then Some (i, r, now) else None
      | CRecord n r now wall \<Rightarrow> map_option (\<lambda>i. (i, r, now)) (position (\<lambda>s. bs_name s = n) ss)
      | _ \<Rightarrow> None)"

fun last_read :: "block_spec list \<Rightarrow> nat \<Rightarrow> hub_cmd list \<Rightarrow> ((string + json) \<times> nat) option" where
  "last_read ss i [] = None"
| "last_read ss i (c # cs) =
     (case read_of ss c of
        Some (j, r, t) \<Rightarrow> if j = i then Some (r, t) else last_read ss i cs
      | None \<Rightarrow> last_read ss i cs)"

definition read_ok :: "((string + json) \<times> nat) option \<Rightarrow> block \<Rightarrow> bool" where
  "read_ok r b \<longleftrightarrow> (\<not> bk_stale b \<longrightarrow>
     (\<exists>v t. r = Some (Ok v, t) \<and> is_object v \<and> bk_raw b = Some v \<and> bk_last_success b = Some t))"

lemma read_ok_keeps: "read_ok r b \<Longrightarrow> keeps b b' \<Longrightarrow> read_ok r b'"
  by (auto simp: read_ok_def keeps_def)

lemma record_read_other:
  assumes "i < length (h_blocks h)" "j < length (h_blocks h)" "j \<noteq> i"
  shows "keeps (h_blocks h ! j) (h_blocks (record_read i r now wall h) ! j)"
proof -
  have *: "keeps (h_blocks h ! j) (h_blocks (reshape_dependents i now g) ! j)"
    if "length (h_blocks g) = length (h_blocks h)" "h_blocks g ! j = h_blocks h ! j" for g
    using reshape_dependents_keep [of g i now] that assms(2) by (metis list_all2_nthD)
  show ?thesis
    using assms by (auto simp: record_read_def Let_def split: option.splits intro!: *)
qed

lemma record_read_self:
  assumes i: "i < length (h_blocks h)"
  shows "read_ok (Some (r, now)) (h_blocks (record_read i r now wall h) ! i)"
proof -
  have *: "read_ok (Some (r, now)) (h_blocks (reshape_dependents i now g) ! i)"
    if "read_ok (Some (r, now)) (h_blocks g ! i)" "length (h_blocks g) = length (h_blocks h)" for g
    using reshape_dependents_keep [of g i now] that i by (metis list_all2_nthD read_ok_keeps)
  show ?thesis
  proof (cases "\<exists>v. r = Ok v \<and> is_object v")
    case True
    then obtain v where v: "r = Ok v" "is_object v" by blast
    have ok: "read_ok (Some (Ok v, now)) b" if "bk_raw b = Some v" "bk_last_success b = Some now" for b
      using that v by (simp add: read_ok_def)
    show ?thesis
      using i v(2) unfolding v(1) by (simp add: record_read_def Let_def ok * [unfolded v(1)])
  next
    case False
    then have "(case r of Ok v \<Rightarrow> if is_object v then Some v else None | Err _ \<Rightarrow> None) = None"
      by (auto split: sum.splits)
    then show ?thesis using i by (simp add: record_read_def Let_def read_ok_def)
  qed
qed

lemma record_read_length [simp]: "length (h_blocks (record_read i r now wall h)) = length (h_blocks h)"
  by (rule hub_steps_length [OF record_read_steps])

lemma position_map: "position P (map f xs) = position (P \<circ> f) xs"
  by (induction xs) auto

lemma position_less: "position P xs = Some i \<Longrightarrow> i < length xs"
  by (induction xs arbitrary: i) (auto split: if_splits)

text \<open>The effect of one command on the blocks, by what it reads.\<close>

lemma hub_exec_effect:
  assumes ss: "map bk_spec (h_blocks h) = ss"
  shows "case read_of ss c of
      None \<Rightarrow> all_keep (h_blocks h) (h_blocks (hub_exec c h))
    | Some (i, r, t) \<Rightarrow> i < length (h_blocks h) \<and> read_ok (Some (r, t)) (h_blocks (hub_exec c h) ! i)
        \<and> (\<forall>j < length (h_blocks h). j \<noteq> i \<longrightarrow> keeps (h_blocks h ! j) (h_blocks (hub_exec c h) ! j))"
proof -
  have len: "length ss = length (h_blocks h)" using ss by auto
  have pos: "position (\<lambda>s. bs_name s = n) ss = position (\<lambda>b. bk_name b = n) (h_blocks h)" for n
    by (simp add: ss [symmetric] position_map comp_def)
  have read: "read_ok (Some (r, t)) (h_blocks (record_read i r t w h) ! i)
      \<and> (\<forall>j < length (h_blocks h). j \<noteq> i \<longrightarrow> keeps (h_blocks h ! j) (h_blocks (record_read i r t w h) ! j))"
    if "i < length (h_blocks h)" for i r t w
    using that by (simp add: record_read_self record_read_other)
  have out: "record_read i r t w h = h" if "\<not> i < length (h_blocks h)" for i r t w
    using that by (simp add: record_read_def)
  show ?thesis
    by (cases c) (auto simp: read_of_def len pos hub_record_def read position_less out
          mark_immediate_keep hub_expire_keep round_end_keep split: option.split)
qed


lemma all_keep_specs: "all_keep bs bs' \<Longrightarrow> map bk_spec bs' = map bk_spec bs"
  by (auto simp: list_all2_conv_all_nth keeps_def intro!: nth_equalityI)

lemma record_read_specs: "map bk_spec (h_blocks (record_read i r now wall h)) = map bk_spec (h_blocks h)"
proof -
  have "map bk_spec (h_blocks (reshape_dependents i now g)) = map bk_spec (h_blocks g)" for g
    by (rule all_keep_specs [OF reshape_dependents_keep])
  then show ?thesis
    by (simp add: record_read_def Let_def map_update list_update_same_conv split: option.split)
qed

lemma hub_exec_specs: "map bk_spec (h_blocks (hub_exec c h)) = map bk_spec (h_blocks h)"
  by (cases c) (auto simp: hub_record_def record_read_specs split: option.split
      intro: all_keep_specs mark_immediate_keep hub_expire_keep round_end_keep)

lemma hub_run_specs: "map bk_spec (h_blocks (fold hub_exec cs h)) = map bk_spec (h_blocks h)"
  by (induction cs arbitrary: h) (simp_all add: hub_exec_specs)

lemma hub_new_specs [simp]: "map bk_spec (h_blocks (hub_new ss)) = ss"
  by (simp add: hub_new_def block_new_def comp_def)

lemma read_ok_run:
  "i < length ss \<Longrightarrow> read_ok (last_read ss i (rev cs)) (h_blocks (fold hub_exec cs (hub_new ss)) ! i)"
proof (induction cs rule: rev_induct)
  case Nil
  then show ?case by (simp add: read_ok_def hub_new_def block_new_def)
next
  case (snoc c cs)
  let ?h = "fold hub_exec cs (hub_new ss)"
  have specs: "map bk_spec (h_blocks ?h) = ss" by (simp add: hub_run_specs)
  have i: "i < length (h_blocks ?h)" using snoc.prems specs by (metis length_map)
  have IH: "read_ok (last_read ss i (rev cs)) (h_blocks ?h ! i)" by (rule snoc.IH [OF snoc.prems])
  show ?case
    using hub_exec_effect [OF specs, of c] IH i
    by (auto simp: list_all2_conv_all_nth split: option.splits prod.splits intro: read_ok_keeps)
qed

subsection \<open>Ageing\<close>

definition expire_block :: "nat \<Rightarrow> nat \<Rightarrow> block \<Rightarrow> block" where
  "expire_block now sample b =
     (if \<not> bk_stale b \<and> is_some_and (bk_last_success b) (\<lambda>t. now - t > max_age sample b)
      then publish_block (b\<lparr>bk_stale := True\<rparr>) PubNo True now else b)"

lemma fold_blocks_local:
  assumes "\<And>j g. h_blocks (f j g) = (h_blocks g)[j := F (h_blocks g ! j)]"
  shows "n \<le> length (h_blocks h) \<Longrightarrow> h_blocks (fold f [0..<n] h) = map F (take n (h_blocks h)) @ drop n (h_blocks h)"
proof (induction n)
  case (Suc n)
  then have "h_blocks h = take n (h_blocks h) @ h_blocks h ! n # drop (Suc n) (h_blocks h)"
    by (simp add: id_take_nth_drop)
  with Suc show ?case
    by (simp add: assms nth_append list_update_append take_Suc_conv_app_nth Cons_nth_drop_Suc [symmetric])
qed simp

lemma expire_one_blocks:
  "h_blocks (expire_one now sample j g) = (h_blocks g)[j := expire_block now sample (h_blocks g ! j)]"
  by (simp add: expire_one_def expire_block_def Let_def)

lemma hub_expire_blocks: "h_blocks (hub_expire now sample h) = map (expire_block now sample) (h_blocks h)"
  unfolding hub_expire_def by (subst fold_blocks_local [OF expire_one_blocks]) simp_all

lemma expire_block_fresh:
  "\<not> bk_stale (expire_block now sample b) \<Longrightarrow> bk_last_success (expire_block now sample b) = Some t
     \<Longrightarrow> now - t \<le> max_age sample b \<and> \<not> bk_stale b"
  by (auto simp: expire_block_def split: if_splits)

lemma legacy_OkD:
  assumes "legacy n h = Ok v"
  obtains i where "i < length (h_blocks h)" "bk_name (h_blocks h ! i) = n" "\<not> bk_stale (h_blocks h ! i)"
    "bk_raw (h_blocks h ! i) = Some v"
proof -
  obtain b where b: "List.find (\<lambda>b. bk_name b = n) (h_blocks h) = Some b" "\<not> bk_stale b" "bk_raw b = Some v"
    using assms by (auto simp: legacy_def split: option.splits if_splits)
  then obtain i where "i < length (h_blocks h)" "h_blocks h ! i = b" "bk_name b = n"
    by (auto simp: find_Some_iff)
  with b that show thesis by blast
qed

text \<open>
  The old interfaces read blocks through \<open>legacy\<close>. After any history and the ageing check at
  \<open>now\<close> (the timer runs it every five seconds and every round ends with it), data that \<open>legacy\<close> hands out
  is the result of the most recent read of that block: that read succeeded with an object, no later read
  of the block failed, and it is no older than the maximal age of the block. Data kept from before a
  failure, or data that aged out, is never handed out.
\<close>

theorem legacy_fresh:
  assumes "legacy n (hub_expire now sample (fold hub_exec cs (hub_new ss))) = Ok v"
  shows "\<exists>i t. i < length ss \<and> bs_name (ss ! i) = n \<and> last_read ss i (rev cs) = Some (Ok v, t) \<and> is_object v
     \<and> now - t \<le> max_age sample (h_blocks (fold hub_exec cs (hub_new ss)) ! i)"
proof -
  let ?h = "fold hub_exec cs (hub_new ss)"
  obtain i where i: "i < length (h_blocks ?h)" and e: "bk_name (expire_block now sample (h_blocks ?h ! i)) = n"
    "\<not> bk_stale (expire_block now sample (h_blocks ?h ! i))" "bk_raw (expire_block now sample (h_blocks ?h ! i)) = Some v"
    using assms by (elim legacy_OkD) (auto simp: hub_expire_blocks)
  have same: "bk_spec (expire_block now sample b) = bk_spec b" "bk_raw (expire_block now sample b) = bk_raw b"
    "bk_last_success (expire_block now sample b) = bk_last_success b" for b
    by (simp_all add: expire_block_def)
  have specs: "map bk_spec (h_blocks ?h) = ss" by (simp add: hub_run_specs)
  then have "i < length ss" "bk_spec (h_blocks ?h ! i) = ss ! i"
    using i by (metis length_map, metis nth_map)
  moreover have "\<not> bk_stale (h_blocks ?h ! i)" "bk_raw (h_blocks ?h ! i) = Some v"
    using e by (auto simp: expire_block_def split: if_splits)
  with read_ok_run [OF calculation(1), of cs]
  obtain t where t: "last_read ss i (rev cs) = Some (Ok v, t)" "is_object v" "bk_last_success (h_blocks ?h ! i) = Some t"
    by (auto simp: read_ok_def)
  moreover have "now - t \<le> max_age sample (h_blocks ?h ! i)"
    using expire_block_fresh [OF e(2), of t] t(3) same by simp
  ultimately show ?thesis using e(1) same(1) by auto
qed

text \<open>
  A block whose last read failed and that is not yet due has failed less than five seconds ago even when
  one more sampling interval is added: if the next round comes within one sampling interval, the retry is
  not later than five seconds after the failure. (Derived blocks are never read by the executor.)
\<close>

theorem failed_block_retried_in_time:
  assumes "\<not> hub_due i now sched h" "\<not> bs_derived (bk_spec (h_blocks h ! i))" "bk_last_failed (h_blocks h ! i)"
  shows "\<exists>t. bk_last_attempt (h_blocks h ! i) = Some t \<and> (now - t) + sample_interval sched < failure_retry
    \<and> now - t < bs_interval (bk_spec (h_blocks h ! i))"
  using assms by (auto simp: hub_due_def Let_def split: option.splits if_splits)


section \<open>Nothing is withheld\<close>

text \<open>A block that publishes every change has published its data whenever it is not stale.\<close>

definition shown :: "block \<Rightarrow> bool" where
  "shown b \<longleftrightarrow> (bs_policy (bk_spec b) = OnChange \<longrightarrow> \<not> bk_stale b \<longrightarrow> bk_published b = bk_data b)"

abbreviation all_shown :: "hub \<Rightarrow> bool" where "all_shown h \<equiv> list_all shown (h_blocks h)"

lemma shown_publish:
  "shown b \<or> d = PubIfChanged \<or> bk_stale b \<or> bs_policy (bk_spec b) \<noteq> OnChange \<Longrightarrow> shown (publish_block b d f now)"
  by (auto simp: shown_def publish_block_def goes_out_def split: publish.splits)

lemma on_read_OnChange [simp]: "on_read OnChange i = PubIfChanged"
  by (simp add: OnChange_def)

lemma shown_publish_read:
  "shown (publish_block b (on_read (bs_policy (bk_spec b)) (policy_input_of now b)) f now)"
  by (rule shown_publish) auto

lemma all_shown_update: "all_shown h \<Longrightarrow> shown b \<Longrightarrow> list_all shown ((h_blocks h)[i := b])"
  by (auto simp: list_all_iff dest!: set_update_subset_insert [THEN subsetD])

lemma all_shown_nth: "all_shown h \<Longrightarrow> i < length (h_blocks h) \<Longrightarrow> shown (h_blocks h ! i)"
  by (simp add: list_all_length)

lemma all_shown_fold:
  assumes "\<And>x g. all_shown g \<Longrightarrow> all_shown (f x g)"
  shows "all_shown h \<Longrightarrow> all_shown (fold f xs h)"
  using assms by (induction xs arbitrary: h) auto

lemma reshape_one_shown: "all_shown h \<Longrightarrow> all_shown (reshape_one i now j h)"
proof -
  assume h: "all_shown h"
  have "list_all shown ((h_blocks h)[j := publish_block b (on_read (bs_policy (bk_spec b)) (policy_input_of now b)) False now])" for b
    by (rule all_shown_update [OF h shown_publish_read])
  from this [of "(h_blocks h ! j)\<lparr>bk_data := x\<rparr>" for x] h show ?thesis
    by (simp add: reshape_one_def Let_def split: option.split)
qed

lemma record_read_shown:
  assumes h: "all_shown h"
  shows "all_shown (record_read i r now wall h)"
proof -
  have pub: "list_all shown ((h_blocks h)[i := publish_block b (on_read (bs_policy (bk_spec b)) (policy_input_of now b)) f now])" for b f
    by (rule all_shown_update [OF h shown_publish_read])
  have stale: "list_all shown ((h_blocks h)[i := b])" if "bk_stale b" for b
    using that by (intro all_shown_update [OF h]) (simp add: shown_def)
  have dep: "all_shown (reshape_dependents i now g)" if "all_shown g" for g
    unfolding reshape_dependents_def using that by (intro all_shown_fold reshape_one_shown)
  let ?b = "\<lambda>v. (h_blocks h ! i)\<lparr>bk_last_attempt := Some now, bk_immediate := False, bk_last_failed := False,
      bk_last_success := Some now, bk_observed_at := wall, bk_raw := Some v,
      bk_data := Some (hub_shape (h_blocks h) i v), bk_stale := False\<rparr>"
  show ?thesis
    using h stale dep pub [of "?b v" for v]
    by (simp add: record_read_def Let_def split: option.split)
qed

lemma hub_exec_shown:
  assumes h: "all_shown h"
  shows "all_shown (hub_exec c h)"
proof -
  have expire: "all_shown (hub_expire now sample h)" for now sample
    using h by (auto simp: hub_expire_blocks list_all_iff expire_block_def intro!: shown_publish)
  have one: "all_shown (round_end_one now j g)" if "all_shown g" for now j g
  proof (cases "j < length (h_blocks g)")
    case True
    then have "shown (h_blocks g ! j)" by (rule all_shown_nth [OF that])
    with that show ?thesis
      by (auto simp: round_end_one_def Let_def intro!: all_shown_update shown_publish)
  qed (use that in \<open>simp add: round_end_one_def Let_def list_update_beyond\<close>)
  have "all_shown (snd (round_end now sample h))" for now sample
    unfolding round_end_def Let_def emit_heartbeat_blocks by (rule all_shown_fold [OF one expire])
  moreover have "all_shown (mark_immediate names h)" for names
    using h by (auto simp: mark_immediate_def list_all_iff shown_def)
  ultimately show ?thesis
    using h expire by (cases c) (simp_all add: hub_record_def record_read_shown split: option.split)
qed

definition round_block :: "nat \<Rightarrow> block \<Rightarrow> block" where
  "round_block now b =
     (if bk_stale b then b
      else let d = on_round_end (bs_policy (bk_spec b)) (policy_input_of now b)
           in if d \<noteq> PubNo then publish_block b d False now else b)"

lemma round_end_one_blocks:
  "h_blocks (round_end_one now j g) = (h_blocks g)[j := round_block now (h_blocks g ! j)]"
  by (simp add: round_end_one_def round_block_def Let_def)

lemma round_end_blocks:
  "h_blocks (snd (round_end now sample h)) = map (round_block now) (map (expire_block now sample) (h_blocks h))"
  unfolding round_end_def Let_def emit_heartbeat_blocks
  by (subst fold_blocks_local [OF round_end_one_blocks]) (simp_all add: hub_expire_blocks)

lemma round_block_frame [simp]:
  "bk_stale (round_block now b) = bk_stale b" "bk_spec (round_block now b) = bk_spec b"
  "bk_data (round_block now b) = bk_data b"
  by (simp_all add: round_block_def Let_def)

lemma round_block_shown:
  assumes "shown b" "\<not> bk_stale b" "bs_policy (bk_spec b) = OnChange \<or> bs_policy (bk_spec b) = LivePolicy"
  shows "bk_published (round_block now b) = bk_data b"
  using assms(3)
proof
  assume "bs_policy (bk_spec b) = OnChange"
  with assms(1,2) show ?thesis by (simp add: round_block_def shown_def OnChange_def)
next
  assume "bs_policy (bk_spec b) = LivePolicy"
  with assms(2) show ?thesis by (simp add: round_block_def LivePolicy_def publish_block_def goes_out_def)
qed

text \<open>
  At the end of every round of every history, each block that is not stale and that publishes
  on change or once per round (all blocks but the signal block) has its current data published: what the
  subscribers were sent is the shaped result of the latest read, nothing is held back.
\<close>

theorem round_end_publishes_current:
  assumes "b \<in> set (h_blocks (snd (round_end now sample (fold hub_exec cs (hub_new ss)))))"
    and "\<not> bk_stale b" and "bs_policy (bk_spec b) = OnChange \<or> bs_policy (bk_spec b) = LivePolicy"
  shows "bk_published b = bk_data b"
proof -
  let ?h = "fold hub_exec cs (hub_new ss)"
  have "all_shown (hub_new ss)" by (simp add: hub_new_def block_new_def shown_def list_all_iff)
  from all_shown_fold [OF hub_exec_shown this] have "all_shown ?h" .
  then have "list_all shown (map (expire_block now sample) (h_blocks ?h))"
    by (auto simp: list_all_iff expire_block_def intro!: shown_publish)
  then obtain c where c: "shown c" "b = round_block now c"
    using assms(1) unfolding round_end_blocks by (auto simp: list_all_iff)
  show ?thesis using round_block_shown [OF c(1), of now] assms(2,3) by (simp add: c(2))
qed

section \<open>A concrete hub\<close>

text \<open>Two blocks; the first is read, then the second is handed in, then the first fails.\<close>

definition ex_specs :: "block_spec list" where
  "ex_specs = [spec_new ''battery'' ''zwrt_bsp.battery'' ''list'' (of_secs 5), spec_derived ''live'' LivePolicy]"

definition ex_reads :: "hub_cmd list" where
  "ex_reads = [CRead 0 (Ok (JObject [(''level'', JString ''80'')])) 1 7, CRecord ''live'' (Ok (JObject [])) 2 7]"

definition ex_failure :: "hub_cmd list" where
  "ex_failure = [CRead 0 (Err ''timeout'') 4 8]"

lemmas ex_hub_simps = ex_specs_def ex_reads_def ex_failure_def spec_new_def spec_derived_def hub_new_def block_new_def
  OnChange_def LivePolicy_def

lemmas hub_eval_simps = ex_hub_simps record_read_def hub_record_def hub_shape_def policy_input_of_def hub_publish_def
  reshape_dependents_def reshape_one_def block_view_def upt_rec is_object_def

lemma ex_hub_run:
  "h_blocks (fold hub_exec ex_reads (hub_new ex_specs)) =
     [(block_new (ex_specs ! 0))\<lparr>bk_revision := 1, bk_observed_at := 7, bk_stale := False,
        bk_raw := Some (JObject [(''level'', JString ''80'')]), bk_data := Some (JObject [(''level'', JString ''80'')]),
        bk_published := Some (JObject [(''level'', JString ''80'')]), bk_published_at := Some 1,
        bk_last_attempt := Some 1, bk_last_success := Some 1\<rparr>,
      (block_new (ex_specs ! 1))\<lparr>bk_revision := 1, bk_observed_at := 7, bk_stale := False,
        bk_raw := Some (JObject []), bk_data := Some (JObject []), bk_published := Some (JObject []),
        bk_published_at := Some 2, bk_last_attempt := Some 2, bk_last_success := Some 2\<rparr>]"
  by (simp add: hub_eval_simps Let_def)


theorem snapshot_then_events_witness:
  "distinct (map bs_name ex_specs) \<and>
   (let h = fold hub_exec ex_reads (hub_new ex_specs); h' = fold hub_exec ex_failure h; h'' = snd (round_end 5 1 h') in
      length (h_events h) = 2 \<and> length (h_events h') = 3
    \<and> take 2 (h_events h') = h_events h
    \<and> strip (fold client_apply (drop 2 (h_events h')) (snapshot h)) = strip (snapshot h')
    \<and> fold client_apply (drop 2 (h_events h'')) (snapshot h) = snapshot h'')"
proof -
  have d: "distinct (map bs_name ex_specs)" by (simp add: ex_hub_simps)
  have l: "length (h_events (fold hub_exec ex_reads (hub_new ex_specs))) = 2"
    "length (h_events (fold hub_exec ex_failure (fold hub_exec ex_reads (hub_new ex_specs)))) = 3"
    by (simp_all add: hub_eval_simps Let_def)
  show ?thesis
    using snapshot_then_events [OF d, of ex_reads ex_failure 5 1] d l by (simp add: Let_def)
qed

theorem events_numbered_witness:
  "distinct (map bs_name ex_specs) \<and>
   (let h = fold hub_exec (ex_reads @ ex_failure) (hub_new ex_specs) in
      h_seq h = 3 \<and> map event_seq (h_events h) = [1, 2, 3] \<and> map bk_revision (h_blocks h) = [2, 1]
    \<and> map bk_revision (h_blocks h)
      = map (\<lambda>b. of_nat (length (filter (is_block_event (bk_name b)) (h_events h)))) (h_blocks h))"
proof -
  have d: "distinct (map bs_name ex_specs)" by (simp add: ex_hub_simps)
  have e: "h_seq (fold hub_exec (ex_reads @ ex_failure) (hub_new ex_specs)) = 3"
    "map event_seq (h_events (fold hub_exec (ex_reads @ ex_failure) (hub_new ex_specs))) = [1, 2, 3]"
    "map bk_revision (h_blocks (fold hub_exec (ex_reads @ ex_failure) (hub_new ex_specs))) = [2, 1]"
    by (simp_all add: hub_eval_simps Let_def)
  show ?thesis
    using events_numbered [OF d, of "ex_reads @ ex_failure"] d e by (simp add: Let_def)
qed

lemma ex_hub_expired:
  "h_blocks (hub_expire 3 1 (fold hub_exec ex_reads (hub_new ex_specs))) = h_blocks (fold hub_exec ex_reads (hub_new ex_specs))"
  unfolding hub_expire_blocks ex_hub_run
  by (simp add: expire_block_def max_age_def min_max_age_def of_secs_def Let_def
      block_new_def ex_specs_def spec_new_def spec_derived_def)

theorem legacy_fresh_witness:
  "legacy ''battery'' (hub_expire 3 1 (fold hub_exec ex_reads (hub_new ex_specs))) = Ok (JObject [(''level'', JString ''80'')])
   \<and> (\<exists>i t. i < length ex_specs \<and> bs_name (ex_specs ! i) = ''battery''
     \<and> last_read ex_specs i (rev ex_reads) = Some (Ok (JObject [(''level'', JString ''80'')]), t)
     \<and> is_object (JObject [(''level'', JString ''80'')])
     \<and> 3 - t \<le> max_age 1 (h_blocks (fold hub_exec ex_reads (hub_new ex_specs)) ! i))"
proof -
  have l: "legacy ''battery'' (hub_expire 3 1 (fold hub_exec ex_reads (hub_new ex_specs))) = Ok (JObject [(''level'', JString ''80'')])"
    unfolding legacy_def ex_hub_expired ex_hub_run by (simp add: block_new_def ex_specs_def spec_new_def spec_derived_def)
  show ?thesis using legacy_fresh [OF l] l by blast
qed

theorem failed_block_retried_in_time_witness:
  "\<exists>t. bk_last_attempt (h_blocks (fold hub_exec (ex_reads @ ex_failure) (hub_new ex_specs)) ! 0) = Some t
     \<and> (6 - t) + 1 < failure_retry
     \<and> 6 - t < bs_interval (bk_spec (h_blocks (fold hub_exec (ex_reads @ ex_failure) (hub_new ex_specs)) ! 0))"
proof -
  let ?h = "fold hub_exec (ex_reads @ ex_failure) (hub_new ex_specs)"
  have b: "\<not> bs_derived (bk_spec (h_blocks ?h ! 0))" "bk_last_failed (h_blocks ?h ! 0)"
    "bk_last_attempt (h_blocks ?h ! 0) = Some 4" "bs_interval (bk_spec (h_blocks ?h ! 0)) = of_secs 5"
    "\<not> bk_immediate (h_blocks ?h ! 0)"
    by (simp_all add: hub_eval_simps Let_def)
  have "\<not> hub_due 0 6 \<lparr>cache = True, sample_interval = 1\<rparr> ?h"
    using b by (simp add: hub_due_def Let_def failure_retry_def of_secs_def)
  from failed_block_retried_in_time [OF this b(1,2)] show ?thesis by simp
qed

theorem round_end_publishes_current_witness:
  "bk_published (h_blocks (snd (round_end 3 1 (fold hub_exec ex_reads (hub_new ex_specs)))) ! 1)
     = bk_data (h_blocks (snd (round_end 3 1 (fold hub_exec ex_reads (hub_new ex_specs)))) ! 1)"
proof (rule round_end_publishes_current)
  let ?bs = "h_blocks (snd (round_end 3 1 (fold hub_exec ex_reads (hub_new ex_specs))))"
  have len: "length ?bs = 2" by (simp add: round_end_blocks ex_hub_run)
  show "?bs ! 1 \<in> set ?bs" by (rule nth_mem) (use len in simp)
  have b: "?bs ! 1 = round_block 3 (h_blocks (fold hub_exec ex_reads (hub_new ex_specs)) ! 1)"
    unfolding round_end_blocks hub_expire_blocks [symmetric] ex_hub_expired by (simp add: ex_hub_run)
  show "\<not> bk_stale (?bs ! 1)" "bs_policy (bk_spec (?bs ! 1)) = OnChange \<or> bs_policy (bk_spec (?bs ! 1)) = LivePolicy"
    unfolding b ex_hub_run by (simp_all add: block_new_def ex_specs_def spec_derived_def)
qed

end
