(* ===== verification/Event_Stream.thy ===== *)
theory Event_Stream
  imports Block_Hub
begin

text \<open>
  The event stream of the new interface, \<^verbatim>\<open>rust/src/v2.rs\<close>, with its endpoints in
  \<^verbatim>\<open>rust/src/server.rs\<close> and the connections under it, \<^verbatim>\<open>rust/src/conn.rs\<close>.

  The hub hands every event to \<open>FeedSink\<close> under its lock, so the frames that were sent are the frames
  of \<open>h_events\<close>. The broadcast channel and the text of a JSON value belong to other packages: they are the
  parameters \<open>broadcast\<close> and \<open>to_json\<close>, and \<open>broadcast_ok\<close> states what the documentation
  of the channel promises. A message is a serde structure, so its members stand in the order of the declaration,
  whereas the blocks inside it are a \<open>BTreeMap\<close>.

  The service is a state with the hub, the stop flag and every client that ever connected; the hub's operations,
  connections, polls of a stream, hang-ups and the stop signal come in any order.
\<close>

section \<open>Messages\<close>

definition msg_num :: "u64 \<Rightarrow> json" where
  "msg_num n = JNumber (PosInt n)"

definition block_msg :: "string \<Rightarrow> u64 \<Rightarrow> block_view \<Rightarrow> json" where
  "block_msg epoch sq v = JObject
     [(''epoch'', JString epoch), (''seq'', msg_num sq), (''name'', JString (v_name v)), (''revision'', msg_num (v_revision v)),
      (''observed_at'', msg_num (v_observed_at v)), (''stale'', JBool (v_stale v)), (''data'', v_data v)]"

definition heartbeat_msg :: "string \<Rightarrow> heartbeat \<Rightarrow> json" where
  "heartbeat_msg epoch hb = JObject
     [(''epoch'', JString epoch), (''seq'', msg_num (hb_seq hb)),
      (''blocks'', jobj (map (\<lambda>(n, t). (n, msg_num t)) (hb_blocks hb))), (''exec_age_ms'', msg_num (hb_exec_age_ms hb))]"

definition block_body :: "block_view \<Rightarrow> json" where
  "block_body v = JObject
     [(''revision'', msg_num (v_revision v)), (''observed_at'', msg_num (v_observed_at v)), (''stale'', JBool (v_stale v)),
      (''data'', v_data v)]"

definition snapshot_msg :: "string \<Rightarrow> u64 \<Rightarrow> block_view list \<Rightarrow> json" where
  "snapshot_msg epoch cut_seq views = JObject
     [(''epoch'', JString epoch), (''seq'', msg_num cut_seq), (''blocks'', jobj (map (\<lambda>v. (v_name v, block_body v)) views))]"

definition sse :: "string \<Rightarrow> string \<Rightarrow> string" where
  "sse kind text = ''event: '' @ kind @ [CHR 0x0A] @ ''data: '' @ text @ [CHR 0x0A, CHR 0x0A]"

definition sse_frame :: "(json \<Rightarrow> string) \<Rightarrow> string \<Rightarrow> event \<Rightarrow> string" where
  "sse_frame to_json epoch e =
     (case e of
        EBlock sq v \<Rightarrow> sse ''block'' (to_json (block_msg epoch sq v))
      | EHeartbeat hb \<Rightarrow> sse ''heartbeat'' (to_json (heartbeat_msg epoch hb)))"

definition snapshot_json :: "(json \<Rightarrow> string) \<Rightarrow> string \<Rightarrow> hub \<Rightarrow> string" where
  "snapshot_json to_json epoch h = to_json (case snapshot h of (cut_seq, views) \<Rightarrow> snapshot_msg epoch cut_seq views)"

section \<open>The channel and a subscriber's stream\<close>

datatype received = RxGot string | RxLagged nat | RxClosed | RxWaiting

record 'r broadcast =
  bc_subscribe :: "string list \<Rightarrow> 'r"
  bc_recv :: "string list \<Rightarrow> 'r \<Rightarrow> received \<times> 'r"

definition stream_capacity :: nat where "stream_capacity = 64"

definition sse_slots :: nat where "sse_slots = 16"

text \<open>
  A receiver sees every value sent after it subscribed, in the order they were sent; it waits when there is none, it
  is told \<open>Lagged\<close> only when more values than the capacity are waiting for it, and the channel is closed only when
  its sender is gone, which the feed keeps for the life of the process. \<open>pos r\<close> is how many values were sent
  before the next one the receiver will see.
\<close>

definition recv_ok :: "nat \<Rightarrow> ('r \<Rightarrow> nat) \<Rightarrow> string list \<Rightarrow> 'r \<Rightarrow> received \<times> 'r \<Rightarrow> bool" where
  "recv_ok cap pos sent r a =
     (case fst a of
        RxGot v \<Rightarrow> pos r < length sent \<and> v = sent ! pos r \<and> pos (snd a) = Suc (pos r)
      | RxWaiting \<Rightarrow> pos r = length sent \<and> pos (snd a) = pos r
      | RxLagged n \<Rightarrow> cap < length sent - pos r
      | RxClosed \<Rightarrow> False)"

definition broadcast_ok :: "nat \<Rightarrow> ('r \<Rightarrow> nat) \<Rightarrow> 'r broadcast \<Rightarrow> bool" where
  "broadcast_ok cap pos bc \<longleftrightarrow> (\<forall>sent. pos (bc_subscribe bc sent) = length sent) \<and>
     (\<forall>sent r. pos r \<le> length sent \<longrightarrow> recv_ok cap pos sent r (bc_recv bc sent r))"

text \<open>\<open>stream\<close>: first the snapshot, then what the receiver gets until it gets an error.\<close>

datatype stream_state = Opening | Following | Finished

record 'r sse_client =
  sc_rx :: 'r
  sc_snapshot :: string
  sc_state :: stream_state
  sc_out :: "string list"
  sc_open :: bool
  sc_cut :: hub

record 'r live_feed =
  fd_hub :: hub
  fd_stop :: bool
  fd_clients :: "'r sse_client list"

definition frames :: "(json \<Rightarrow> string) \<Rightarrow> string \<Rightarrow> hub \<Rightarrow> string list" where
  "frames to_json epoch h = map (sse_frame to_json epoch) (h_events h)"

text \<open>
  \<open>subscribe\<close> takes the receiver and the snapshot under one lock. \<open>sc_cut\<close> only remembers that moment for the
  statements below.
\<close>

definition stream_open :: "(json \<Rightarrow> string) \<Rightarrow> string \<Rightarrow> 'r broadcast \<Rightarrow> hub \<Rightarrow> 'r sse_client" where
  "stream_open to_json epoch bc h =
     \<lparr>sc_rx = bc_subscribe bc (frames to_json epoch h), sc_snapshot = snapshot_json to_json epoch h, sc_state = Opening,
      sc_out = [], sc_open = True, sc_cut = h\<rparr>"

definition stream_next :: "'r broadcast \<Rightarrow> string list \<Rightarrow> 'r sse_client \<Rightarrow> 'r sse_client" where
  "stream_next bc sent c =
     (case sc_state c of
        Opening \<Rightarrow> c\<lparr>sc_state := Following, sc_out := sc_out c @ [sse ''snapshot'' (sc_snapshot c)]\<rparr>
      | Following \<Rightarrow>
          (case bc_recv bc sent (sc_rx c) of
             (RxGot v, r) \<Rightarrow> c\<lparr>sc_rx := r, sc_out := sc_out c @ [v]\<rparr>
           | (RxWaiting, r) \<Rightarrow> c\<lparr>sc_rx := r\<rparr>
           | (_, r) \<Rightarrow> c\<lparr>sc_rx := r, sc_state := Finished\<rparr>)
      | Finished \<Rightarrow> c)"

text \<open>\<open>v2_events\<close>: a slot or a refusal; the stream ends when the process is asked to stop (\<open>take_until\<close>).\<close>

definition slots_used :: "'r live_feed \<Rightarrow> nat" where
  "slots_used s = length (filter sc_open (fd_clients s))"

definition v2_events :: "(json \<Rightarrow> string) \<Rightarrow> string \<Rightarrow> 'r broadcast \<Rightarrow> 'r live_feed \<Rightarrow> nat option \<times> 'r live_feed" where
  "v2_events to_json epoch bc s =
     (if slots_used s < sse_slots
      then (None, s\<lparr>fd_clients := fd_clients s @ [stream_open to_json epoch bc (fd_hub s)]\<rparr>)
      else (Some 503, s))"

definition v2_state :: "(json \<Rightarrow> string) \<Rightarrow> string \<Rightarrow> 'r live_feed \<Rightarrow> string" where
  "v2_state to_json epoch s = snapshot_json to_json epoch (fd_hub s)"

definition client_poll :: "(json \<Rightarrow> string) \<Rightarrow> string \<Rightarrow> 'r broadcast \<Rightarrow> 'r live_feed \<Rightarrow> 'r sse_client \<Rightarrow> 'r sse_client" where
  "client_poll to_json epoch bc s c =
     (if \<not> sc_open c then c
      else if fd_stop s then c\<lparr>sc_state := Finished\<rparr>
      else stream_next bc (frames to_json epoch (fd_hub s)) c)"

datatype feed_step = HubDoes hub_cmd | Connect | PollClient nat | HangUp nat | StopSignal

definition on_client :: "nat \<Rightarrow> ('r sse_client \<Rightarrow> 'r sse_client) \<Rightarrow> 'r live_feed \<Rightarrow> 'r live_feed" where
  "on_client i f s = (if i < length (fd_clients s) then s\<lparr>fd_clients := (fd_clients s)[i := f (fd_clients s ! i)]\<rparr> else s)"

fun feed_exec :: "(json \<Rightarrow> string) \<Rightarrow> string \<Rightarrow> 'r broadcast \<Rightarrow> feed_step \<Rightarrow> 'r live_feed \<Rightarrow> 'r live_feed" where
  "feed_exec to_json epoch bc (HubDoes c) s = s\<lparr>fd_hub := hub_exec c (fd_hub s)\<rparr>"
| "feed_exec to_json epoch bc Connect s = snd (v2_events to_json epoch bc s)"
| "feed_exec to_json epoch bc (PollClient i) s = on_client i (client_poll to_json epoch bc s) s"
| "feed_exec to_json epoch bc (HangUp i) s = on_client i (\<lambda>c. c\<lparr>sc_open := False\<rparr>) s"
| "feed_exec to_json epoch bc StopSignal s = s\<lparr>fd_stop := True\<rparr>"

definition feed_init :: "block_spec list \<Rightarrow> 'r live_feed" where
  "feed_init ss = \<lparr>fd_hub = hub_new ss, fd_stop = False, fd_clients = []\<rparr>"

section \<open>What a subscriber receives\<close>

definition since :: "hub \<Rightarrow> hub \<Rightarrow> event list" where
  "since g h = drop (length (h_events g)) (h_events h)"

definition client_at :: "(json \<Rightarrow> string) \<Rightarrow> string \<Rightarrow> ('r \<Rightarrow> nat) \<Rightarrow> bool \<Rightarrow> hub \<Rightarrow> 'r sse_client \<Rightarrow> nat \<Rightarrow> bool" where
  "client_at to_json epoch pos stopped h c n \<longleftrightarrow>
     sc_snapshot c = snapshot_json to_json epoch (sc_cut c)
   \<and> n \<le> length (since (sc_cut c) h)
   \<and> (sc_state c \<noteq> Finished \<longrightarrow> pos (sc_rx c) = length (h_events (sc_cut c)) + n)
   \<and> (sc_state c = Opening \<longrightarrow> n = 0)
   \<and> (sc_state c = Finished \<longrightarrow> stopped \<or> stream_capacity < length (since (sc_cut c) h) - n)
   \<and> (sc_out c = [] \<and> sc_state c \<noteq> Following \<or> sc_state c \<noteq> Opening \<and>
        sc_out c = sse ''snapshot'' (sc_snapshot c) # map (sse_frame to_json epoch) (take n (since (sc_cut c) h)))"

definition client_ok :: "(json \<Rightarrow> string) \<Rightarrow> string \<Rightarrow> ('r \<Rightarrow> nat) \<Rightarrow> block_spec list \<Rightarrow> bool \<Rightarrow> hub \<Rightarrow> 'r sse_client \<Rightarrow> bool" where
  "client_ok to_json epoch pos ss stopped h c \<longleftrightarrow>
     (\<exists>before after. sc_cut c = fold hub_exec before (hub_new ss) \<and> h = fold hub_exec after (sc_cut c)) \<and>
     (\<exists>n. client_at to_json epoch pos stopped h c n)"

lemma since_run:
  assumes "hub_ok g" "h = fold hub_exec after g"
  shows "h_events h = h_events g @ since g h"
proof -
  have "h_events h = take (length (h_events g)) (h_events h) @ since g h" by (simp add: since_def)
  then show ?thesis using hub.catch_up(1) [OF assms(1), of after] assms(2) by simp
qed

lemma since_step:
  assumes "hub_ok h" "h_events h = h_events g @ since g h"
  shows "\<exists>es. since g (hub_exec c h) = since g h @ es"
proof -
  obtain es where "h_events (hub_exec c h) = h_events h @ es" using hub.step_events [OF assms(1)] by blast
  then have "h_events (hub_exec c h) = h_events g @ since g h @ es" using assms(2) by simp
  then show ?thesis by (simp add: since_def [of g "hub_exec c h"])
qed

lemma client_at_grows:
  assumes "client_at to_json epoch pos stopped h c n" "since (sc_cut c) h' = since (sc_cut c) h @ es"
  shows "client_at to_json epoch pos stopped h' c n"
  using assms unfolding client_at_def by auto

lemma client_at_stop: "client_at to_json epoch pos stopped h c n \<Longrightarrow> client_at to_json epoch pos True h c n"
  unfolding client_at_def by auto

lemma client_at_next:
  assumes bc: "broadcast_ok stream_capacity pos bc"
    and ev: "h_events h = h_events (sc_cut c) @ since (sc_cut c) h"
    and at: "client_at to_json epoch pos stopped h c n"
  shows "\<exists>n. client_at to_json epoch pos stopped h (stream_next bc (frames to_json epoch h) c) n"
proof (cases "sc_state c")
  case Opening
  then show ?thesis using at by (intro exI [of _ 0]) (auto simp: client_at_def stream_next_def)
next
  case Following
  let ?es = "since (sc_cut c) h" and ?sent = "frames to_json epoch h" and ?g = "length (h_events (sc_cut c))"
  obtain a r where ar: "bc_recv bc ?sent (sc_rx c) = (a, r)" by fastforce
  have n: "n \<le> length ?es" "pos (sc_rx c) = ?g + n" using at Following by (auto simp: client_at_def)
  have len: "length ?sent = ?g + length ?es" using arg_cong [OF ev, of length] by (simp add: frames_def)
  have ok: "recv_ok stream_capacity pos ?sent (sc_rx c) (a, r)"
    using bc [unfolded broadcast_ok_def, THEN conjunct2, rule_format, of "sc_rx c" ?sent] n len ar by simp
  have out: "sc_out c = sse ''snapshot'' (sc_snapshot c) # map (sse_frame to_json epoch) (take n ?es)"
    using at Following by (auto simp: client_at_def)
  show ?thesis
  proof (cases a)
    case (RxGot v)
    have lt: "n < length ?es" using ok RxGot n len by (simp add: recv_ok_def)
    have "v = ?sent ! (?g + n)" using ok RxGot n by (simp add: recv_ok_def)
    also have "\<dots> = map (sse_frame to_json epoch) (h_events (sc_cut c) @ ?es) ! (?g + n)" using ev by (simp add: frames_def)
    also have "\<dots> = sse_frame to_json epoch (?es ! n)" using lt by (simp add: nth_append)
    finally have v: "v = sse_frame to_json epoch (?es ! n)" .
    show ?thesis
      using at ok out lt RxGot Following n
      by (intro exI [of _ "Suc n"]) (auto simp: client_at_def stream_next_def ar recv_ok_def v take_Suc_conv_app_nth)
  next
    case RxWaiting
    then show ?thesis using at ok Following by (intro exI [of _ n]) (auto simp: client_at_def stream_next_def ar recv_ok_def)
  next
    case (RxLagged k)
    then show ?thesis
      using at ok Following n len by (intro exI [of _ n]) (auto simp: client_at_def stream_next_def ar recv_ok_def)
  qed (use ok in \<open>simp add: recv_ok_def\<close>)
qed (use at in \<open>auto simp: stream_next_def\<close>)


definition feed_inv :: "(json \<Rightarrow> string) \<Rightarrow> string \<Rightarrow> ('r \<Rightarrow> nat) \<Rightarrow> block_spec list \<Rightarrow> 'r live_feed \<Rightarrow> bool" where
  "feed_inv to_json epoch pos ss s \<longleftrightarrow>
     (\<exists>cs. fd_hub s = fold hub_exec cs (hub_new ss)) \<and> slots_used s \<le> sse_slots \<and>
     list_all (client_ok to_json epoch pos ss (fd_stop s) (fd_hub s)) (fd_clients s)"

lemma run_ok: "distinct (map bs_name ss) \<Longrightarrow> hub_ok (fold hub_exec cs (hub_new ss))"
  by (rule hub.ok_run) (rule hub_new_ok)

lemma client_ok_events:
  assumes "distinct (map bs_name ss)" "client_ok to_json epoch pos ss stopped h c"
  shows "h_events h = h_events (sc_cut c) @ since (sc_cut c) h"
  using assms(2) run_ok [OF assms(1)] unfolding client_ok_def by (metis since_run)

lemma client_ok_hub:
  assumes d: "distinct (map bs_name ss)" and h: "h = fold hub_exec cs (hub_new ss)"
    and ok: "client_ok to_json epoch pos ss stopped h c"
  shows "client_ok to_json epoch pos ss stopped (hub_exec k h) c"
proof -
  obtain bs as where r: "sc_cut c = fold hub_exec bs (hub_new ss)" "h = fold hub_exec as (sc_cut c)"
    using ok unfolding client_ok_def by blast
  obtain es where es: "since (sc_cut c) (hub_exec k h) = since (sc_cut c) h @ es"
    using since_step [OF _ client_ok_events [OF d ok]] run_ok [OF d] h by blast
  have "hub_exec k h = fold hub_exec (as @ [k]) (sc_cut c)" using r(2) by simp
  then show ?thesis using ok r(1) client_at_grows [OF _ es] unfolding client_ok_def by blast
qed

lemma client_ok_open:
  assumes "broadcast_ok stream_capacity pos bc" "h = fold hub_exec cs (hub_new ss)"
  shows "client_ok to_json epoch pos ss stopped h (stream_open to_json epoch bc h)"
proof -
  have "client_at to_json epoch pos stopped h (stream_open to_json epoch bc h) 0"
    using assms(1) by (simp add: client_at_def stream_open_def since_def broadcast_ok_def frames_def)
  moreover have "h = fold hub_exec [] (sc_cut (stream_open to_json epoch bc h))" by (simp add: stream_open_def)
  moreover have "sc_cut (stream_open to_json epoch bc h) = fold hub_exec cs (hub_new ss)"
    by (simp add: stream_open_def assms(2))
  ultimately show ?thesis unfolding client_ok_def by blast
qed

lemma stream_next_frame [simp]:
  "sc_cut (stream_next bc sent c) = sc_cut c" "sc_open (stream_next bc sent c) = sc_open c"
  by (auto simp: stream_next_def split: stream_state.splits received.splits prod.splits)

lemma client_poll_frame [simp]:
  "sc_cut (client_poll to_json epoch bc s c) = sc_cut c" "sc_open (client_poll to_json epoch bc s c) = sc_open c"
  by (simp_all add: client_poll_def)

lemma client_ok_poll:
  assumes bc: "broadcast_ok stream_capacity pos bc" and d: "distinct (map bs_name ss)"
    and ok: "client_ok to_json epoch pos ss (fd_stop s) (fd_hub s) c"
  shows "client_ok to_json epoch pos ss (fd_stop s) (fd_hub s) (client_poll to_json epoch bc s c)"
proof -
  obtain n where n: "client_at to_json epoch pos (fd_stop s) (fd_hub s) c n" using ok unfolding client_ok_def by blast
  have "\<exists>m. client_at to_json epoch pos (fd_stop s) (fd_hub s) (client_poll to_json epoch bc s c) m"
  proof (cases "sc_open c \<and> fd_stop s")
    case True
    then show ?thesis using n by (intro exI [of _ n]) (auto simp: client_at_def client_poll_def)
  next
    case False
    then show ?thesis
      using n client_at_next [OF bc client_ok_events [OF d ok] n] by (auto simp: client_poll_def)
  qed
  then show ?thesis using ok unfolding client_ok_def by simp
qed

lemma client_ok_hang_up: "client_ok to_json epoch pos ss stopped h c \<Longrightarrow> client_ok to_json epoch pos ss stopped h (c\<lparr>sc_open := False\<rparr>)"
  unfolding client_ok_def client_at_def by auto

lemma length_filter_update:
  "i < length xs \<Longrightarrow> (P y \<Longrightarrow> P (xs ! i)) \<Longrightarrow> length (filter P (xs[i := y])) \<le> length (filter P xs)"
proof (induction xs arbitrary: i)
  case (Cons x xs)
  then show ?case by (cases i) (auto simp: le_SucI)
qed simp

lemma feed_inv_client:
  assumes "feed_inv to_json epoch pos ss s"
    and "\<And>c. client_ok to_json epoch pos ss (fd_stop s) (fd_hub s) c \<Longrightarrow> client_ok to_json epoch pos ss (fd_stop s) (fd_hub s) (f c)"
    and "\<And>c. sc_open (f c) \<Longrightarrow> sc_open c"
  shows "feed_inv to_json epoch pos ss (on_client i f s)"
proof (cases "i < length (fd_clients s)")
  case True
  have "slots_used (on_client i f s) \<le> slots_used s"
    using True assms(3) by (auto simp: on_client_def slots_used_def intro!: length_filter_update)
  moreover have "list_all (client_ok to_json epoch pos ss (fd_stop s) (fd_hub s)) ((fd_clients s)[i := f (fd_clients s ! i)])"
    using assms(1,2) True unfolding feed_inv_def list_all_length by (simp add: nth_list_update)
  ultimately show ?thesis using assms(1) True by (simp add: feed_inv_def on_client_def)
qed (use assms(1) in \<open>simp add: on_client_def\<close>)

lemma feed_exec_inv:
  assumes bc: "broadcast_ok stream_capacity pos bc" and d: "distinct (map bs_name ss)"
    and inv: "feed_inv to_json epoch pos ss s"
  shows "feed_inv to_json epoch pos ss (feed_exec to_json epoch bc k s)"
proof -
  obtain cs where cs: "fd_hub s = fold hub_exec cs (hub_new ss)" using inv unfolding feed_inv_def by blast
  show ?thesis
  proof (cases k)
    case (HubDoes c)
    have "\<exists>cs. hub_exec c (fd_hub s) = fold hub_exec cs (hub_new ss)" using cs by (intro exI [of _ "cs @ [c]"]) simp
    moreover have "list_all (client_ok to_json epoch pos ss (fd_stop s) (hub_exec c (fd_hub s))) (fd_clients s)"
      using inv client_ok_hub [OF d cs] unfolding feed_inv_def list_all_iff by blast
    ultimately show ?thesis using inv HubDoes unfolding feed_inv_def slots_used_def by simp
  next
    case Connect
    then show ?thesis
      using inv client_ok_open [OF bc cs, of to_json epoch "fd_stop s"] cs
      by (auto simp: feed_inv_def v2_events_def slots_used_def stream_open_def [of _ _ _ "fd_hub s", THEN arg_cong [of _ _ sc_open]])
  next
    case (PollClient i)
    then show ?thesis
      using feed_inv_client [OF inv client_ok_poll [OF bc d, where s = s], where i = i] by simp
  next
    case (HangUp i)
    then show ?thesis using feed_inv_client [OF inv client_ok_hang_up, where i = i] by simp
  next
    case StopSignal
    have "client_ok to_json epoch pos ss True (fd_hub s) c" if "client_ok to_json epoch pos ss (fd_stop s) (fd_hub s) c" for c
      using that client_at_stop unfolding client_ok_def by blast
    then show ?thesis using inv StopSignal by (auto simp: feed_inv_def slots_used_def list_all_iff)
  qed
qed

lemma feed_run_inv:
  assumes "broadcast_ok stream_capacity pos bc" "distinct (map bs_name ss)"
  shows "feed_inv to_json epoch pos ss (fold (feed_exec to_json epoch bc) ks (feed_init ss))"
proof -
  have "feed_inv to_json epoch pos ss s \<Longrightarrow> feed_inv to_json epoch pos ss (fold (feed_exec to_json epoch bc) ks s)" for s
    by (induction ks arbitrary: s) (simp_all add: feed_exec_inv [OF assms])
  moreover have "feed_inv to_json epoch pos ss (feed_init ss)"
    unfolding feed_inv_def feed_init_def slots_used_def by (auto intro: exI [of _ "[]"])
  ultimately show ?thesis .
qed

lemma run_numbered: "distinct (map bs_name ss) \<Longrightarrow> numbered (fold hub_exec cs (hub_new ss))"
proof -
  assume d: "distinct (map bs_name ss)"
  have "numbered (hub_new ss)" by (simp add: numbered_def hub_new_def block_new_def)
  from hub_steps_numbered [OF hub_run_steps [of "hub_new ss" cs] hub_new_ok [OF d] this] show ?thesis by blast
qed

lemma since_numbered:
  assumes "numbered g" "numbered h" "h_events h = h_events g @ since g h" "n \<le> length (since g h)"
  shows "map event_seq (take n (since g h)) = map (\<lambda>i. h_seq g + of_nat i) [1..<Suc n]"
proof -
  let ?g = "length (h_events g)"
  have "map event_seq (since g h) = drop ?g (map of_nat [1..<Suc (length (h_events h))])"
    using assms(2) unfolding numbered_def since_def by (metis drop_map)
  then have "map event_seq (take n (since g h)) = take n (map of_nat [Suc ?g..<Suc (length (h_events h))])"
    by (simp add: take_map [symmetric] drop_map del: upt_Suc)
  also have "\<dots> = map of_nat [Suc ?g..<Suc (?g + n)]"
    using assms(3,4) arg_cong [OF assms(3), of length] by (simp add: take_map del: upt_Suc)
  also have "\<dots> = map (\<lambda>i. h_seq g + of_nat i) [1..<Suc n]"
    using assms(1) by (intro nth_equalityI) (simp_all add: numbered_def del: upt_Suc)
  finally show ?thesis .
qed

text \<open>
  Property C31. Whatever the hub does, and however connections, polls, hang-ups and the stop signal are mixed with it,
  every client's bytes are nothing yet, or the snapshot of the moment it subscribed followed by the frames of an
  unbroken run of the events after it: no event is lost between the snapshot and the first event, none is repeated or
  reordered, and their numbers count on from the \<open>seq\<close> of the snapshot. A client that has them all has the
  revision, staleness and data of every block as the hub has them. A stream ends early only when the process stops or
  when the client is more than the capacity behind, and at most sixteen streams are open.
\<close>

theorem stream_has_no_gap:
  assumes "broadcast_ok stream_capacity pos bc" "distinct (map bs_name ss)"
    and "s = fold (feed_exec to_json epoch bc) steps (feed_init ss)" "c \<in> set (fd_clients s)"
  shows "slots_used s \<le> sse_slots \<and> (\<exists>n. let g = sc_cut c; es = drop (length (h_events g)) (h_events (fd_hub s)) in
      n \<le> length es
    \<and> (sc_out c = [] \<or> sc_out c = sse ''snapshot'' (snapshot_json to_json epoch g) # map (sse_frame to_json epoch) (take n es))
    \<and> map event_seq (take n es) = map (\<lambda>i. h_seq g + of_nat i) [1..<Suc n]
    \<and> (n = length es \<longrightarrow> strip (fold client_apply (take n es) (snapshot g)) = strip (snapshot (fd_hub s)))
    \<and> (sc_state c = Finished \<longrightarrow> fd_stop s \<or> stream_capacity < length es - n))"
proof -
  have inv: "feed_inv to_json epoch pos ss s" using feed_run_inv [OF assms(1,2)] assms(3) by blast
  then obtain cs where cs: "fd_hub s = fold hub_exec cs (hub_new ss)" unfolding feed_inv_def by blast
  have ok: "client_ok to_json epoch pos ss (fd_stop s) (fd_hub s) c"
    using inv assms(4) unfolding feed_inv_def list_all_iff by blast
  obtain bs as n where r: "sc_cut c = fold hub_exec bs (hub_new ss)" "fd_hub s = fold hub_exec as (sc_cut c)"
    and n: "client_at to_json epoch pos (fd_stop s) (fd_hub s) c n"
    using ok unfolding client_ok_def by blast
  have nm: "numbered (sc_cut c)" "numbered (fd_hub s)" and g: "hub_ok (sc_cut c)"
    using run_numbered [OF assms(2)] run_ok [OF assms(2)] r(1) cs by simp_all
  have le: "n \<le> length (since (sc_cut c) (fd_hub s))" using n by (simp add: client_at_def)
  have up: "n = length (since (sc_cut c) (fd_hub s)) \<Longrightarrow>
      strip (fold client_apply (take n (since (sc_cut c) (fd_hub s))) (snapshot (sc_cut c))) = strip (snapshot (fd_hub s))"
    using hub.catch_up(2) [OF g, of as] by (simp add: r(2) since_def strip_fold_client)
  show ?thesis
    unfolding Let_def since_def [symmetric]
    using inv n le up since_numbered [OF nm client_ok_events [OF assms(2) ok] le]
    by (auto simp: feed_inv_def client_at_def intro!: exI [of _ n])
qed

section \<open>Write time-outs of a connection\<close>

text \<open>
  \<open>TimedIo\<close> wraps the socket: from the first \<open>Pending\<close> of a write a timer runs, any progress clears it, and a write
  that is polled when the timer has run out fails, so that the connection and with it the slot of a stream is given
  back. Times are nanoseconds; the answers of the socket come from outside.
\<close>

datatype poll_write = PwReady | PwPending | PwTimedOut

definition timed_check :: "nat \<Rightarrow> nat \<Rightarrow> nat option \<Rightarrow> poll_write \<Rightarrow> poll_write \<times> nat option" where
  "timed_check limit now stall r =
     (case r of
        PwPending \<Rightarrow>
          (let deadline = (case stall of Some d \<Rightarrow> d | None \<Rightarrow> now + limit)
           in if deadline \<le> now then (PwTimedOut, None) else (PwPending, Some deadline))
      | _ \<Rightarrow> (r, None))"

definition write_timeout :: "string option \<Rightarrow> nat" where
  "write_timeout env =
     (case Option.bind env (\<lambda>v. parse_u64 (trim v)) of
        Some ms \<Rightarrow> min (max (unat ms) 100) 600000 * 1000000
      | None \<Rightarrow> of_secs 30)"

fun timed_run :: "nat \<Rightarrow> nat option \<Rightarrow> (nat \<times> poll_write) list \<Rightarrow> poll_write list" where
  "timed_run limit stall [] = []"
| "timed_run limit stall ((now, r) # ps) =
     (case timed_check limit now stall r of (r', stall') \<Rightarrow> r' # timed_run limit stall' ps)"

definition stuck_from :: "(nat \<times> poll_write) list \<Rightarrow> nat \<Rightarrow> nat \<Rightarrow> bool" where
  "stuck_from ps j i \<longleftrightarrow> j \<le> i \<and> list_all (\<lambda>k. snd (ps ! k) = PwPending) [j..<Suc i]"

lemma length_timed_run [simp]: "length (timed_run limit stall ps) = length ps"
  by (induction limit stall ps rule: timed_run.induct) (auto split: prod.splits)

lemma stuck_from_Cons:
  "stuck_from (p # ps) (Suc j) (Suc i) \<longleftrightarrow> stuck_from ps j i"
  "stuck_from (p # ps) 0 (Suc i) \<longleftrightarrow> snd p = PwPending \<and> stuck_from ps 0 i"
  "stuck_from (p # ps) 0 0 \<longleftrightarrow> snd p = PwPending"
proof -
  have shift: "list_all (\<lambda>k. snd ((p # ps) ! k) = PwPending) [Suc a..<Suc b] \<longleftrightarrow> list_all (\<lambda>k. snd (ps ! k) = PwPending) [a..<b]"
    for a b by (simp add: list_all_length del: upt_Suc)
  show "stuck_from (p # ps) (Suc j) (Suc i) \<longleftrightarrow> stuck_from ps j i"
    unfolding stuck_from_def shift by simp
  show "stuck_from (p # ps) 0 (Suc i) \<longleftrightarrow> snd p = PwPending \<and> stuck_from ps 0 i"
    using shift [of 0 "Suc i"] unfolding stuck_from_def by (subst upt_rec) (simp del: upt_Suc)
qed (simp add: stuck_from_def)

lemma timed_run_early:
  assumes "i < length ps" "timed_run limit stall ps ! i = PwTimedOut" "\<forall>p\<in>set ps. snd p \<noteq> PwTimedOut"
  shows "(\<exists>j. stuck_from ps j i \<and> fst (ps ! j) + limit \<le> fst (ps ! i)) \<or>
         (\<exists>d. stall = Some d \<and> stuck_from ps 0 i \<and> d \<le> fst (ps ! i))"
  using assms
proof (induction limit stall ps arbitrary: i rule: timed_run.induct)
  case (2 limit stall now r ps)
  obtain r' st' where c: "timed_check limit now stall r = (r', st')" by fastforce
  show ?case
  proof (cases i)
    case 0
    then show ?thesis
      using 2(3,4) c by (cases stall) (auto simp: timed_check_def stuck_from_Cons Let_def split: poll_write.splits if_splits
          intro: exI [of _ 0])
  next
    case (Suc k)
    have "(\<exists>j. stuck_from ps j k \<and> fst (ps ! j) + limit \<le> fst (ps ! k)) \<or>
         (\<exists>d. st' = Some d \<and> stuck_from ps 0 k \<and> d \<le> fst (ps ! k))"
      using 2(1) [OF c [symmetric], of k] 2(2-4) c Suc by simp
    then show ?thesis
    proof
      assume "\<exists>j. stuck_from ps j k \<and> fst (ps ! j) + limit \<le> fst (ps ! k)"
      then obtain j where "stuck_from ps j k" "fst (ps ! j) + limit \<le> fst (ps ! k)" by blast
      then show ?thesis using Suc by (intro disjI1 exI [of _ "Suc j"]) (simp add: stuck_from_Cons)
    next
      assume "\<exists>d. st' = Some d \<and> stuck_from ps 0 k \<and> d \<le> fst (ps ! k)"
      then obtain d where d: "st' = Some d" "stuck_from ps 0 k" "d \<le> fst (ps ! k)" by blast
      then have "r = PwPending" "stall = Some d \<or> d = now + limit"
        using c by (auto simp: timed_check_def Let_def split: poll_write.splits option.splits if_splits)
      then show ?thesis using d Suc by (auto simp: stuck_from_Cons intro: exI [of _ 0])
    qed
  qed
qed simp

lemma timed_run_late:
  assumes "i < length ps" "stuck_from ps 0 i" "case stall of Some d \<Rightarrow> d \<le> fst (ps ! i) | None \<Rightarrow> fst (ps ! 0) + limit \<le> fst (ps ! i)"
  shows "\<exists>k\<le>i. timed_run limit stall ps ! k = PwTimedOut"
  using assms
proof (induction limit stall ps arbitrary: i rule: timed_run.induct)
  case (2 limit stall now r ps)
  have r: "r = PwPending" using 2(3) by (cases i) (simp_all add: stuck_from_Cons)
  define d where "d = (case stall of Some d \<Rightarrow> d | None \<Rightarrow> now + limit)"
  show ?case
  proof (cases "d \<le> now")
    case True
    then show ?thesis by (intro exI [of _ 0]) (simp add: timed_check_def r d_def [symmetric] Let_def)
  next
    case False
    have c: "timed_check limit now stall r = (PwPending, Some d)" using False by (simp add: timed_check_def r d_def [symmetric] Let_def)
    obtain k where k: "i = Suc k" using 2(4) False by (cases i) (auto simp: d_def split: option.splits)
    have "\<exists>l\<le>k. timed_run limit (Some d) ps ! l = PwTimedOut"
      using 2(1) [OF c [symmetric], of k] 2(2-4) k by (auto simp: stuck_from_Cons d_def split: option.splits)
    then obtain l where "l \<le> k" "timed_run limit (Some d) ps ! l = PwTimedOut" by blast
    then show ?thesis using k c by (intro exI [of _ "Suc l"]) simp
  qed
qed simp

text \<open>
  A connection is cut off only after one write has been stuck, at every poll, for the whole limit; and a write that is
  stuck that long from the start of a stall is cut off. A slow client that keeps reading is never cut off.
\<close>

theorem stuck_write_is_cut_off:
  assumes "i < length ps" "\<forall>p\<in>set ps. snd p \<noteq> PwTimedOut"
  shows "(timed_run limit None ps ! i = PwTimedOut \<longrightarrow> (\<exists>j. stuck_from ps j i \<and> fst (ps ! j) + limit \<le> fst (ps ! i)))
    \<and> (stuck_from ps 0 i \<and> fst (ps ! 0) + limit \<le> fst (ps ! i) \<longrightarrow> (\<exists>k\<le>i. timed_run limit None ps ! k = PwTimedOut))"
  using timed_run_early [OF assms(1), where stall = None] timed_run_late [OF assms(1), where stall = None] assms(2) by auto

section \<open>Concrete runs\<close>

text \<open>A receiver that only counts: what the documentation describes, without the ring it is stored in.\<close>

definition plain_broadcast :: "nat broadcast" where
  "plain_broadcast = \<lparr>bc_subscribe = length, bc_recv = (\<lambda>sent r.
     if stream_capacity < length sent - r then (RxLagged (length sent - r - stream_capacity), length sent - stream_capacity)
     else if r < length sent then (RxGot (sent ! r), Suc r) else (RxWaiting, r))\<rparr>"

definition sample_text :: "json \<Rightarrow> string" where
  "sample_text v = (if jget ''seq'' v = Some (msg_num 3) then ''third'' else ''other'')"

lemma plain_broadcast_ok: "broadcast_ok stream_capacity (\<lambda>r. r) plain_broadcast"
  by (auto simp: broadcast_ok_def recv_ok_def plain_broadcast_def)

definition sample_steps :: "feed_step list" where
  "sample_steps = map HubDoes ex_reads @ [Connect, PollClient 0] @ map HubDoes ex_failure @ [PollClient 0, PollClient 0]"

theorem stream_has_no_gap_witness:
  "\<exists>c :: nat sse_client. fd_clients (fold (feed_exec sample_text ''e'' plain_broadcast) sample_steps (feed_init ex_specs)) = [c]
    \<and> sc_out c = [sse ''snapshot'' ''other'', sse ''block'' ''third'']
    \<and> strip (fold client_apply (drop 2 (h_events (fd_hub (fold (feed_exec sample_text ''e'' plain_broadcast) sample_steps (feed_init ex_specs)))))
        (snapshot (sc_cut c)))
      = strip (snapshot (fd_hub (fold (feed_exec sample_text ''e'' plain_broadcast) sample_steps (feed_init ex_specs))))"
proof -
  let ?s = "fold (feed_exec sample_text ''e'' plain_broadcast) sample_steps (feed_init ex_specs) :: nat live_feed"
  have d: "distinct (map bs_name ex_specs)" by (simp add: ex_hub_simps)
  have run: "\<exists>c. fd_clients ?s = [c] \<and> sc_out c = [sse ''snapshot'' ''other'', sse ''block'' ''third''] \<and>
      length (h_events (sc_cut c)) = 2 \<and> length (h_events (fd_hub ?s)) = 3"
    by (simp add: sample_steps_def hub_eval_simps Let_def feed_init_def v2_events_def slots_used_def sse_slots_def
        on_client_def client_poll_def stream_open_def stream_next_def plain_broadcast_def frames_def snapshot_json_def
        snapshot_def snapshot_msg_def sample_text_def sse_frame_def block_msg_def stream_capacity_def msg_num_def jget_def)
  then obtain c where c: "fd_clients ?s = [c]" "sc_out c = [sse ''snapshot'' ''other'', sse ''block'' ''third'']"
    "length (h_events (sc_cut c)) = 2" "length (h_events (fd_hub ?s)) = 3" by blast
  then have "c \<in> set (fd_clients ?s)" by simp
  from stream_has_no_gap [OF plain_broadcast_ok d refl this] c
  show ?thesis by (auto simp: Let_def)
qed

end
