(* ===== verification/Server.thy ===== *)
theory Server
  imports Auth Write_Route
begin

unbundle bit_operations_syntax

text \<open>
  The HTTP server (\<^verbatim>\<open>rust/src/server.rs\<close>) and the listeners the entry point opens (\<^verbatim>\<open>rust/src/main.rs\<close>):
  which requests get through the layers to which handler, logging in, the health answer, and the checks on
  the body of \<open>/control\<close> before theory \<open>Write_Route\<close> takes over. Strings are bytes. The router of axum is the
  table of its routes: an unknown path is 404, a known path with another method 405, and the layers see every
  request. What is waited for (the stage of the start, the first round) is the argument \<open>stage\<close> reached in time.
\<close>

section \<open>Listeners\<close>

definition is_loopback :: "ip \<Rightarrow> bool" where
  "is_loopback a = (case a of V4 os \<Rightarrow> os \<noteq> [] \<and> hd os = 127 | V6 gs \<Rightarrow> gs = [0, 0, 0, 0, 0, 0, 0, 1])"

definition validate_listener_security :: "ip \<Rightarrow> bool \<Rightarrow> bool" where
  "validate_listener_security a require_auth \<longleftrightarrow> is_loopback a \<or> require_auth"

record listener =
  li_addr :: ip
  li_auth :: bool
  li_open :: bool

text \<open>
  The arguments that matter: the two parsed addresses and the contents of the token file. \<open>None\<close> of
  \<open>main_listeners\<close> is a refusal to start.
\<close>

record args =
  ar_bind :: ip
  ar_lan_bind :: "ip option"
  ar_token_file :: "string option"

definition token_of_file :: "args \<Rightarrow> string option" where
  "token_of_file a = (case ar_token_file a of
     Some v \<Rightarrow> (let t = trim v in if t = [] then None else Some t) | None \<Rightarrow> None)"

definition main_listeners :: "args \<Rightarrow> listener list option" where
  "main_listeners a =
     (let local_auth = (ar_lan_bind a = None \<and> token_of_file a \<noteq> None)
      in if \<not> validate_listener_security (ar_bind a) local_auth then None
         else case ar_lan_bind a of
           Some lan \<Rightarrow> Some [\<lparr>li_addr = ar_bind a, li_auth = False, li_open = False\<rparr>,
                             \<lparr>li_addr = lan, li_auth = True, li_open = True\<rparr>]
         | None \<Rightarrow> Some [\<lparr>li_addr = ar_bind a, li_auth = local_auth, li_open = False\<rparr>])"

section \<open>Requests\<close>

datatype http_method = Get | Post | OtherMethod

text \<open>Header names are lower case; the first value of a name counts.\<close>

record http_request =
  rq_method :: http_method
  rq_path :: string
  rq_query :: "string option"
  rq_headers :: "(string \<times> string) list"

definition visible :: "char \<Rightarrow> bool" where
  "visible c = (let n = of_char c :: nat in n = 9 \<or> (32 \<le> n \<and> n < 127))"

definition header :: "http_request \<Rightarrow> string \<Rightarrow> string option" where
  "header rq name = (case map_of (rq_headers rq) name of
     Some v \<Rightarrow> if list_all visible v then Some v else None | None \<Rightarrow> None)"

definition strip_prefix :: "string \<Rightarrow> string \<Rightarrow> string option" where
  "strip_prefix p s = (if take (length p) s = p then Some (drop (length p) s) else None)"

definition find_map :: "('a \<Rightarrow> 'b option) \<Rightarrow> 'a list \<Rightarrow> 'b option" where
  "find_map f xs = (case List.map_filter f xs of [] \<Rightarrow> None | y # _ \<Rightarrow> Some y)"

definition presented :: "http_request \<Rightarrow> string option" where
  "presented rq = find_map id
     [Option.bind (header rq ''authorization'') (strip_prefix ''Bearer ''), header rq ''x-auth-token'',
      Option.bind (rq_query rq) (\<lambda>q. find_map (strip_prefix ''access_token='') (split_on (\<lambda>c. c = CHR ''&'') q))]"

definition constant_time_eq :: "string \<Rightarrow> string \<Rightarrow> bool" where
  "constant_time_eq a b \<longleftrightarrow> length a = length b \<and>
     fold (\<lambda>(x, y) diff. diff OR (byte_of x XOR byte_of y)) (zip a b) (0 :: u8) = 0"

definition static_token_valid :: "string option \<Rightarrow> string option \<Rightarrow> bool" where
  "static_token_valid configured given =
     is_some_and configured (\<lambda>wanted. is_some_and given (\<lambda>v. constant_time_eq v wanted))"

definition public_paths :: "string list" where
  "public_paths = [''/'', ''/healthz'', ''/auth/login'', ''/auth/exchange'']"

text \<open>\<open>authenticate\<close>: whether the request goes on, and the sessions afterwards.\<close>

definition authenticate :: "string option \<Rightarrow> u64 \<Rightarrow> http_request \<Rightarrow> Auth.session list \<Rightarrow> bool \<times> Auth.session list" where
  "authenticate token now rq ss =
     (if rq_path rq \<in> set public_paths then (True, ss)
      else if static_token_valid token (presented rq) then (True, ss)
      else case presented rq of
        None \<Rightarrow> (False, ss)
      | Some v \<Rightarrow> validate now v ss)"

subsection \<open>The start\<close>

datatype stage = Starting | SnapshotReady | Ready

definition stage_rank :: "stage \<Rightarrow> nat" where
  "stage_rank s = (case s of Starting \<Rightarrow> 0 | SnapshotReady \<Rightarrow> 1 | Ready \<Rightarrow> 2)"

definition open_while_starting :: "string list" where
  "open_while_starting = [''/'', ''/healthz'', ''/version'', ''/capabilities'', ''/control'', ''/debug/legacy-hits'', ''/state'',
     ''/events'', ''/auth/login'', ''/auth/exchange'']"

definition starting_gate :: "stage \<Rightarrow> http_request \<Rightarrow> bool" where
  "starting_gate st rq \<longleftrightarrow> rq_path rq \<in> set open_while_starting \<or> stage_rank SnapshotReady \<le> stage_rank st"

definition health_stall_ms :: nat where "health_stall_ms = 20000"

definition health :: "stage \<Rightarrow> nat \<Rightarrow> response" where
  "health st age =
     (let status = (if stage_rank st < stage_rank SnapshotReady then ''starting''
                    else if health_stall_ms < age then ''stalled'' else ''ok'')
      in Reply (if status = ''ok'' then 200 else 503)
           (jobj [(''ok'', JBool (status = ''ok'')), (''status'', JString status), (''exec_age_ms'', jnat age)]))"

subsection \<open>Routes\<close>

datatype endpoint = EpIndex | EpHealth | EpVersion | EpGone | EpEvents | EpState | EpScreen | EpCapabilities
  | EpControl | EpHits | EpLogin | EpExchange | EpNotFound | EpBadMethod

definition routes :: "bool \<Rightarrow> (string \<times> http_method \<times> endpoint) list" where
  "routes open_auth = [(''/'', Get, EpIndex), (''/healthz'', Get, EpHealth), (''/version'', Get, EpVersion), (''/state'', Get, EpGone),
     (''/events'', Get, EpGone), (''/v2/events'', Get, EpEvents), (''/v2/state'', Get, EpState), (''/v2/screen'', Get, EpScreen),
     (''/capabilities'', Get, EpCapabilities), (''/control'', Post, EpControl), (''/debug/legacy-hits'', Get, EpHits)]
     @ (if open_auth then [(''/auth/login'', Post, EpLogin), (''/auth/exchange'', Post, EpExchange)] else [])"

definition dispatch :: "bool \<Rightarrow> http_request \<Rightarrow> endpoint" where
  "dispatch open_auth rq = (case map_of (routes open_auth) (rq_path rq) of
     None \<Rightarrow> EpNotFound | Some (m, ep) \<Rightarrow> if rq_method rq = m then ep else EpBadMethod)"

datatype admission = Unauthorized | StillStarting | Reaches endpoint

text \<open>The layers of \<open>serve\<close>, the outermost first.\<close>

definition admit :: "listener \<Rightarrow> string option \<Rightarrow> u64 \<Rightarrow> stage \<Rightarrow> http_request \<Rightarrow> Auth.session list \<Rightarrow> admission \<times> Auth.session list" where
  "admit l token now st rq ss =
     (let (ok, ss') = (if li_auth l then authenticate token now rq ss else (True, ss))
      in (if \<not> ok then Unauthorized else if \<not> starting_gate st rq then StillStarting
          else Reaches (dispatch (li_open l) rq), ss'))"

section \<open>Basic credentials\<close>

definition base64_digit :: "char \<Rightarrow> nat option" where
  "base64_digit c =
     (let n = of_char c :: nat
      in if 0x41 \<le> n \<and> n \<le> 0x5A then Some (n - 0x41)
         else if 0x61 \<le> n \<and> n \<le> 0x7A then Some (n - 0x61 + 26)
         else if 0x30 \<le> n \<and> n \<le> 0x39 then Some (n - 0x30 + 52)
         else if n = 0x2B then Some 62
         else if n = 0x2F then Some 63
         else None)"

text \<open>The loop of \<open>decode_base64\<close>. The accumulator is 32 bits wide; the number of its bits stays below 14.\<close>

fun decode_from :: "u32 \<Rightarrow> nat \<Rightarrow> string \<Rightarrow> string option" where
  "decode_from acc bits [] = Some []"
| "decode_from acc bits (c # cs) =
     (if c = CHR ''='' then Some []
      else case base64_digit c of
        None \<Rightarrow> None
      | Some d \<Rightarrow>
          (let acc = push_bit 6 acc OR of_nat d; bits = bits + 6
           in if 8 \<le> bits then
                (let bits = bits - 8; out = char_of (unat (drop_bit bits acc AND 0xFF));
                     acc = acc AND (if bits = 0 then 0 else push_bit bits 1 - 1)
                 in map_option (Cons out) (decode_from acc bits cs))
              else decode_from acc bits cs))"

definition ascii_space :: "char \<Rightarrow> bool" where
  "ascii_space c \<longleftrightarrow> c \<in> {CHR '' '', CHR 0x09, CHR 0x0A, CHR 0x0C, CHR 0x0D}"

definition decode_base64 :: "string \<Rightarrow> string option" where
  "decode_base64 v = decode_from 0 0 (filter (\<lambda>c. \<not> ascii_space c) v)"

definition basic_credentials :: "http_request \<Rightarrow> (string \<times> string) option" where
  "basic_credentials rq =
     (case Option.bind (header rq ''authorization'') (strip_prefix ''Basic '') of
        None \<Rightarrow> None
      | Some encoded \<Rightarrow>
          if 1024 < length encoded then None
          else case decode_base64 encoded of
            None \<Rightarrow> None
          | Some decoded \<Rightarrow>
              if 512 < length decoded \<or> CHR 0x00 \<in> set decoded then None
              else
                (let username = takeWhile (\<lambda>c. c \<noteq> CHR '':'') decoded; rest = dropWhile (\<lambda>c. c \<noteq> CHR '':'') decoded;
                     password = tl rest
                 in if rest = [] \<or> username = [] then None
                    else if \<not> str_ok username \<or> \<not> str_ok password then None
                    else if 257 \<le> length username \<or> 257 \<le> length password then None
                    else Some (username, password)))"

section \<open>Logging in\<close>

definition token_reply :: "string \<Rightarrow> u64 \<Rightarrow> json" where
  "token_reply token expires = jobj [(''ok'', JBool True), (''token_type'', JString ''Bearer''), (''access_token'', JString token),
     (''expires_in'', json_u64 session_ttl), (''expires_at'', json_u64 expires)]"

definition login_error :: "nat \<Rightarrow> string \<Rightarrow> response" where
  "login_error status e = Reply status (jobj [(''ok'', JBool False), (''error'', JString e)])"

text \<open>Issuing the token: the random bytes and the clock are given as in \<open>issue\<close>.\<close>

definition grant :: "string option \<Rightarrow> u64 \<Rightarrow> (Auth.session \<Rightarrow> u64) \<Rightarrow> Auth.session list \<Rightarrow> response \<times> Auth.session list" where
  "grant bytes now later ss = (case issue bytes now later ss of
     (Some (token, expires), ss') \<Rightarrow> (Reply 200 (token_reply token expires), ss')
   | (None, ss') \<Rightarrow> (login_error 500 ''token_issue_failed'', ss'))"

definition auth_login :: "env \<Rightarrow> (string \<Rightarrow> string) \<Rightarrow> string option \<Rightarrow> u64 \<Rightarrow> (Auth.session \<Rightarrow> u64) \<Rightarrow> http_request \<Rightarrow> Auth.session list
    \<Rightarrow> (response \<times> Auth.session list) io" where
  "auth_login E sha bytes now later rq ss =
     (case basic_credentials rq of
        None \<Rightarrow> ret (login_error 400 ''missing_credentials'', ss)
      | Some (username, password) \<Rightarrow> do {
          ok \<leftarrow> verify_password E sha username password;
          ret (if ok then grant bytes now later ss else (login_error 401 ''invalid_credentials'', ss))
        })"

definition exchange_token :: "http_request \<Rightarrow> string option" where
  "exchange_token rq =
     (case (case map_of (rq_headers rq) ''x-web-token'' of
              Some _ \<Rightarrow> header rq ''x-web-token'' | None \<Rightarrow> header rq ''x-zte-webtoken'') of
        Some v \<Rightarrow> if v = [] then None else Some v | None \<Rightarrow> None)"

definition auth_exchange :: "env \<Rightarrow> string \<Rightarrow> string option \<Rightarrow> u64 \<Rightarrow> (Auth.session \<Rightarrow> u64) \<Rightarrow> http_request \<Rightarrow> Auth.session list
    \<Rightarrow> (response \<times> Auth.session list) io" where
  "auth_exchange E remote bytes now later rq ss =
     (case exchange_token rq of
        None \<Rightarrow> ret (login_error 400 ''missing_webtoken'', ss)
      | Some token \<Rightarrow> do {
          ok \<leftarrow> verify_webtoken E token
            (case Option.bind (header rq ''x-z-mode'') parse_i64 of Some n \<Rightarrow> n | None \<Rightarrow> 0)
            remote (case header rq ''x-z-tag'' of Some t \<Rightarrow> t | None \<Rightarrow> ''zwrt-datad'');
          ret (if ok then grant bytes now later ss else (login_error 401 ''invalid_webtoken'', ss))
        })"

section \<open>The body of a control request\<close>

definition request_error :: "(string \<times> json) list \<Rightarrow> string \<Rightarrow> response" where
  "request_error act message = Reply 400 (jobj ([(''ok'', JBool False)] @ act @
     [(''error'', jobj [(''code'', JString ''invalid_request''), (''message'', JString message)])]))"

text \<open>\<open>control\<close>: the checks, then \<open>handle\<close>; \<open>None\<close> is a body that is not JSON. Counting the call is left out here.\<close>

definition control_checked :: "json option \<Rightarrow> response + string \<times> json" where
  "control_checked payload =
     (case payload of
        None \<Rightarrow> Err (request_error [] ''request body must be valid JSON'')
      | Some b \<Rightarrow>
          (let act = (case Option.bind (jget ''action'' b) as_str of Some s \<Rightarrow> s | None \<Rightarrow> [])
           in if act = [] then Err (request_error [] ''missing action'')
              else if is_some_and (jget ''params'' b) (\<lambda>p. \<not> is_object p)
              then Err (request_error [(''action'', JString act)] ''params must be a JSON object'')
              else Ok (act, b)))"

definition control_endpoint :: "'b outside \<Rightarrow> json option \<Rightarrow> ('b, response) route" where
  "control_endpoint W payload = (case control_checked payload of
     Err r \<Rightarrow> State_Monad.return r | Ok (act, b) \<Rightarrow> handle W act b)"

definition capability_controls :: "string list" where
  "capability_controls = ''state.set_interval'' # control_actions"

definition capabilities :: json where
  "capabilities = (let controls = JArray (map JString capability_controls) in jobj [(''schema_version'', jnat 1), (''protocol'', jnat 1),
     (''events'', JArray [JString ''snapshot'', JString ''block'']), (''transport'', JArray [JString ''http'', JString ''sse'']),
     (''control'', controls), (''controls'', controls), (''rewrite'', JString ''rust'')])"

section \<open>The encoding of credentials\<close>

text \<open>The standard encoding (RFC 4648), as the reference: three bytes to four digits, padded with \<open>=\<close>.\<close>

definition base64_char :: "nat \<Rightarrow> char" where
  "base64_char n =
     (if n < 26 then char_of (0x41 + n) else if n < 52 then char_of (0x61 + (n - 26))
      else if n < 62 then char_of (0x30 + (n - 52)) else if n = 62 then CHR ''+'' else CHR ''/'')"

fun base64 :: "string \<Rightarrow> string" where
  "base64 [] = []"
| "base64 [a] =
     (let x = of_char a :: nat
      in [base64_char (x div 4), base64_char (x mod 4 * 16), CHR ''='', CHR ''=''])"
| "base64 [a, b] =
     (let x = of_char a :: nat; y = of_char b
      in [base64_char (x div 4), base64_char (x mod 4 * 16 + y div 16), base64_char (y mod 16 * 4), CHR ''=''])"
| "base64 (a # b # c # rest) =
     (let x = of_char a :: nat; y = of_char b; z = of_char c
      in base64_char (x div 4) # base64_char (x mod 4 * 16 + y div 16) # base64_char (y mod 16 * 4 + z div 64)
         # base64_char (z mod 64) # base64 rest)"

text \<open>One digit, in numbers: the accumulator holds the bits that have not been put out yet.\<close>

lemma of_char_char_of: "n < 256 \<Longrightarrow> of_char (char_of n) = (n :: nat)"
  by simp

lemma base64_digit_char: "n < 64 \<Longrightarrow> base64_digit (base64_char n) = Some n"
  by (auto simp: base64_digit_def base64_char_def Let_def)

lemma base64_char_plain: "n < 64 \<Longrightarrow> base64_char n \<noteq> CHR ''='' \<and> \<not> ascii_space (base64_char n)"
  using base64_digit_char [of n] by (auto simp: ascii_space_def base64_digit_def)

lemma push_digit:
  fixes acc :: u32
  assumes "unat acc < 2 ^ 8" "n < 64"
  shows "unat (push_bit 6 acc OR of_nat n) = unat acc * 64 + n"
proof -
  have n: "(of_nat n :: u32) = take_bit 6 (of_nat n)"
    using assms(2) by (simp add: take_bit_of_nat take_bit_nat_eq_self)
  have "push_bit 6 acc AND of_nat n = 0"
    by (subst n) (auto intro!: bit_word_eqI simp: bit_simps)
  then have "push_bit 6 acc OR of_nat n = acc * 64 + of_nat n"
    by (simp add: disjunctive_add_eq_or [symmetric] push_bit_eq_mult)
  then show ?thesis using assms by (simp add: unat_word_ariths unat_of_nat)
qed

lemma keep_bits:
  fixes acc :: u32
  assumes "bits < 8"
  shows "unat (acc AND (if bits = 0 then 0 else push_bit bits 1 - 1)) = unat acc mod 2 ^ bits"
proof -
  have "acc AND (if bits = 0 then 0 else push_bit bits 1 - 1) = take_bit bits acc"
    by (simp add: take_bit_eq_mask mask_eq_exp_minus_1 push_bit_of_1)
  then show ?thesis by (simp only: unsigned_take_bit_eq) (simp add: take_bit_eq_mod)
qed

lemma out_byte: "unat (drop_bit bits acc AND 0xFF) = unat (acc :: u32) div 2 ^ bits mod 256"
proof -
  have "(0xFF :: u32) = mask 8" by (simp add: mask_eq_exp_minus_1)
  then have "drop_bit bits acc AND 0xFF = take_bit 8 (drop_bit bits acc)" by (simp add: take_bit_eq_mask)
  then show ?thesis by (simp only: unsigned_take_bit_eq unat_drop_bit_eq) (simp add: take_bit_eq_mod drop_bit_eq_div)
qed

lemma word_from_unat: "unat (w :: u32) = n \<Longrightarrow> w = of_nat n"
  by (metis of_nat_unat unsigned_ucast_eq ucast_id)

lemma decode_digit:
  assumes "m < 2 ^ bits" "bits < 8" "n < 64" "v = m * 64 + n"
  shows "decode_from (of_nat m) bits (base64_char n # cs) =
    (if 2 \<le> bits then map_option (Cons (char_of (v div 2 ^ (bits - 2) mod 256)))
       (decode_from (of_nat (v mod 2 ^ (bits - 2))) (bits - 2) cs)
     else decode_from (of_nat v) (bits + 6) cs)"
proof -
  let ?acc = "push_bit 6 (of_nat m) OR of_nat n :: u32"
  have "(2::nat) ^ bits \<le> 2 ^ 8" using assms(2) by (intro power_increasing) simp_all
  then have m: "m < 2 ^ 8" using assms(1) by simp
  then have "unat (of_nat m :: u32) = m" by (simp add: unat_of_nat)
  then have v: "unat ?acc = v" using push_digit [of "of_nat m" n] assms(3,4) m by simp
  show ?thesis
  proof (cases "2 \<le> bits")
    case True
    define b where "b = bits - 2"
    have b: "bits + 6 - 8 = b" "8 \<le> bits + 6" "b < 8" using True assms(2) by (simp_all add: b_def)
    have w: "?acc AND (if b = 0 then 0 else push_bit b 1 - 1) = of_nat (v mod 2 ^ b)"
      by (rule word_from_unat) (simp only: keep_bits [OF b(3)] v)
    have o: "unat (drop_bit b ?acc AND 0xFF) = v div 2 ^ b mod 256" by (simp only: out_byte v)
    show ?thesis
      using True base64_char_plain [OF assms(3)]
      unfolding decode_from.simps base64_digit_char [OF assms(3)] option.case Let_def b(1) w o if_P [OF b(2)] b_def [symmetric]
      by simp
  next
    case False
    moreover have "?acc = of_nat v" by (rule word_from_unat [OF v])
    ultimately show ?thesis
      using base64_char_plain [OF assms(3)] by (simp add: base64_digit_char [OF assms(3)] Let_def)
  qed
qed

lemma decode_pad: "decode_from acc bits (CHR ''='' # cs) = Some []"
  by simp

declare decode_from.simps(2) [simp del]

text \<open>The digits of one, two and three bytes.\<close>

lemma decode_first: "x < 256 \<Longrightarrow> decode_from 0 0 (base64_char (x div 4) # cs) = decode_from (of_nat (x div 4)) 6 cs"
  using decode_digit [of 0 0 "x div 4"] by simp

lemma decode_second:
  assumes "x < 256" "q < 16"
  shows "decode_from (of_nat (x div 4)) 6 (base64_char (x mod 4 * 16 + q) # cs) =
    map_option (Cons (char_of x)) (decode_from (of_nat q) 4 cs)"
proof -
  have v: "x div 4 * 64 + (x mod 4 * 16 + q) = 16 * x + q" using div_mult_mod_eq [of x 4] by linarith
  have "(16 * x + q) div 16 = x" "(16 * x + q) mod 16 = q" using assms(2) by simp_all
  then show ?thesis
    using decode_digit [of "x div 4" 6 "x mod 4 * 16 + q" "16 * x + q"] v assms by simp
qed

lemma decode_third:
  assumes "y < 256" "q < 4"
  shows "decode_from (of_nat (y div 16)) 4 (base64_char (y mod 16 * 4 + q) # cs) =
    map_option (Cons (char_of y)) (decode_from (of_nat q) 2 cs)"
proof -
  have v: "y div 16 * 64 + (y mod 16 * 4 + q) = 4 * y + q" using div_mult_mod_eq [of y 16] by linarith
  have "(4 * y + q) div 4 = y" "(4 * y + q) mod 4 = q" using assms(2) by simp_all
  then show ?thesis
    using decode_digit [of "y div 16" 4 "y mod 16 * 4 + q" "4 * y + q"] v assms by simp
qed

lemma decode_fourth:
  assumes "z < 256"
  shows "decode_from (of_nat (z div 64)) 2 (base64_char (z mod 64) # cs) = map_option (Cons (char_of z)) (decode_from 0 0 cs)"
  using decode_digit [of "z div 64" 2 "z mod 64" z] div_mult_mod_eq [of z 64] assms by simp

lemma decode_groups: "decode_from 0 0 (base64 s) = Some s"
proof (induction s rule: base64.induct)
  case (2 a)
  show ?case
    using decode_second [of "of_char a" 0 "''==''"] by (simp add: Let_def decode_first decode_pad)
next
  case (3 a b)
  have "of_char b div 16 < (16 :: nat)" using nat_of_char_less_256 [of b] by (intro less_mult_imp_div_less) simp
  then show ?case
    using decode_second [of "of_char a" "of_char b div 16"] decode_third [of "of_char b" 0 "''=''"] by (simp add: Let_def decode_first decode_pad)
next
  case (4 a b c rest)
  have "of_char b div 16 < (16 :: nat)" "of_char c div 64 < (4 :: nat)"
    using nat_of_char_less_256 [of b] nat_of_char_less_256 [of c] by (intro less_mult_imp_div_less; simp)+
  then show ?case
    using 4 decode_second [of "of_char a" "of_char b div 16"] decode_third [of "of_char b" "of_char c div 64"] decode_fourth [of "of_char c"]
    by (simp add: Let_def decode_first decode_pad)
qed simp

text \<open>
  A client that logs in with basic authentication is understood: for a user name that is not empty and
  has no colon, and a password, both UTF-8 without NUL and at most 256 bytes long, the header of the standard
  encoding, with white space anywhere inside the encoded part, gives back exactly the two.
\<close>
theorem basic_credentials_roundtrip:
  assumes "map_of (rq_headers rq) ''authorization'' = Some (''Basic '' @ text)" "list_all visible text"
    and "filter (\<lambda>c. \<not> ascii_space c) text = base64 (user @ '':'' @ pass)" "length text \<le> 1024"
    and "user \<noteq> []" "CHR '':'' \<notin> set user" "CHR 0x00 \<notin> set user" "CHR 0x00 \<notin> set pass"
    and "str_ok user" "str_ok pass" "length user \<le> 256" "length pass \<le> 256" "length user + length pass < 512"
  shows "basic_credentials rq = Some (user, pass)"
proof -
  have h: "header rq ''authorization'' = Some (''Basic '' @ text)"
    using assms(1,2) by (simp add: header_def visible_def)
  have d: "decode_base64 text = Some (user @ '':'' @ pass)"
    by (simp add: decode_base64_def assms(3) decode_groups)
  have w: "takeWhile (\<lambda>c. c \<noteq> CHR '':'') (user @ '':'' @ pass) = user" "dropWhile (\<lambda>c. c \<noteq> CHR '':'') (user @ '':'' @ pass) = '':'' @ pass"
    using assms(6) by (subst takeWhile_append2 dropWhile_append2; auto)+
  show ?thesis
    unfolding basic_credentials_def h Option.bind.bind_lunit strip_prefix_def
    using assms(4-13) by (simp add: d w Let_def del: append_Cons)
qed

theorem basic_credentials_roundtrip_witness:
  "basic_credentials \<lparr>rq_method = Post, rq_path = ''/auth/login'', rq_query = None,
     rq_headers = [(''authorization'', ''Basic YWRtaW4 6cHc='')]\<rparr> = Some (''admin'', ''pw'')"
proof -
  have ok: "str_ok ''admin''" "str_ok ''pw''" by code_simp+
  have enc: "filter (\<lambda>c. \<not> ascii_space c) ''YWRtaW4 6cHc='' = base64 (''admin'' @ '':'' @ ''pw'')" by code_simp
  have vis: "list_all visible ''YWRtaW4 6cHc=''" by code_simp
  show ?thesis
    by (rule basic_credentials_roundtrip [OF _ vis enc]) (simp_all add: ok)
qed

section \<open>Who gets through\<close>

lemma constant_time_eq_iff: "constant_time_eq a b \<longleftrightarrow> a = b"
  by (simp add: constant_time_eq_def flip: secure_eq_def) (simp add: secure_eq_iff)

text \<open>The endpoints anybody may ask: they show no data of the device and change nothing.\<close>

definition public_endpoints :: "endpoint list" where
  "public_endpoints = [EpIndex, EpHealth, EpLogin, EpExchange, EpNotFound, EpBadMethod]"

lemma public_path_endpoint: "rq_path rq \<in> set public_paths \<Longrightarrow> dispatch open_auth rq \<in> set public_endpoints"
  by (auto simp: public_paths_def dispatch_def routes_def public_endpoints_def)

text \<open>
  Property C38. Nobody gets at the device from outside without credentials: whatever the arguments of the program,
  if it starts at all, every request on an address that is not the loopback one reaches an endpoint with data or
  control only when it presents the token of the token file, or a token that was issued at a login and was issued
  or used less than twelve hours ago.
\<close>
theorem lan_requests_authenticated:
  assumes "main_listeners a = Some ls" "l \<in> set ls" "\<not> is_loopback (li_addr l)"
    and "admit l (token_of_file a) now st rq (a_sessions (fold auth_step ops auth_init)) = (Reaches ep, ss')"
    and "ep \<notin> set public_endpoints"
  shows "\<exists>v. presented rq = Some v \<and> (token_of_file a = Some v \<or>
    (v \<in> a_issued (fold auth_step ops auth_init) \<and>
     (\<exists>t. (v, t) \<in> a_grants (fold auth_step ops auth_init) \<and> now < t + 43200)))"
proof -
  let ?A = "fold auth_step ops auth_init"
  have auth: "li_auth l"
    using assms(1-3) by (auto simp: main_listeners_def validate_listener_security_def Let_def split: if_splits option.splits)
  obtain ss'' where ok: "authenticate (token_of_file a) now rq (a_sessions ?A) = (True, ss'')"
      and ep: "ep = dispatch (li_open l) rq"
    using assms(4) auth by (auto simp: admit_def Let_def split: prod.splits if_splits)
  have "rq_path rq \<notin> set public_paths" using public_path_endpoint assms(5) ep by blast
  then consider "static_token_valid (token_of_file a) (presented rq)"
    | v where "presented rq = Some v" "validate now v (a_sessions ?A) = (True, ss'')"
    using ok by (auto simp: authenticate_def split: if_splits option.splits)
  then show ?thesis
  proof cases
    case 1
    then show ?thesis by (auto simp: static_token_valid_def is_some_and_def constant_time_eq_iff split: option.splits)
  next
    case (2 v)
    obtain s where s: "s \<in> set (a_sessions ?A)" "s_token s = v" "now < s_expires_at s"
      using validate_facts(2) [OF 2(2)] by blast
    then obtain t where t: "(v, t) \<in> a_grants ?A" "s_expires_at s = t + session_ttl"
      using auth_run_ok [of ops] by (auto simp: auth_ok_def)
    moreover have "v \<in> a_issued ?A" using t(1) auth_run_ok [of ops] by (force simp: auth_ok_def)
    ultimately show ?thesis using 2(1) s(3) by (auto simp: session_ttl_def)
  qed
qed

definition sample_args :: args where
  "sample_args = \<lparr>ar_bind = V4 [127, 0, 0, 1], ar_lan_bind = Some (V4 [192, 168, 0, 1]), ar_token_file = Some ''secret''\<rparr>"

theorem lan_requests_authenticated_witness:
  "fst (admit \<lparr>li_addr = V4 [192, 168, 0, 1], li_auth = True, li_open = True\<rparr> (token_of_file sample_args) 5 Ready
     \<lparr>rq_method = Post, rq_path = ''/control'', rq_query = None, rq_headers = [(''x-auth-token'', ''secret'')]\<rparr>
     (a_sessions (fold auth_step [] auth_init))) = Reaches EpControl \<and>
   (\<exists>v. presented \<lparr>rq_method = Post, rq_path = ''/control'', rq_query = None, rq_headers = [(''x-auth-token'', ''secret'')]\<rparr> = Some v)"
proof -
  let ?l = "\<lparr>li_addr = V4 [192, 168, 0, 1], li_auth = True, li_open = True\<rparr>"
  let ?rq = "\<lparr>rq_method = Post, rq_path = ''/control'', rq_query = None, rq_headers = [(''x-auth-token'', ''secret'')]\<rparr>"
  obtain ls where ls: "main_listeners sample_args = Some ls" "?l \<in> set ls"
    by (simp add: main_listeners_def sample_args_def validate_listener_security_def is_loopback_def Let_def)
  have tok: "token_of_file sample_args = Some ''secret''"
    by (simp add: token_of_file_def sample_args_def) code_simp
  have p: "presented ?rq = Some ''secret''"
    by (simp add: presented_def header_def find_map_def visible_def List.map_filter_def)
  have ad: "admit ?l (token_of_file sample_args) 5 Ready ?rq (a_sessions (fold auth_step [] auth_init)) =
      (Reaches EpControl, a_sessions (fold auth_step [] auth_init))"
    by (simp add: admit_def authenticate_def public_paths_def tok p static_token_valid_def is_some_and_def constant_time_eq_iff
        starting_gate_def open_while_starting_def dispatch_def routes_def)
  have "\<not> is_loopback (li_addr ?l)" "EpControl \<notin> set public_endpoints" by (simp_all add: is_loopback_def public_endpoints_def)
  from lan_requests_authenticated [OF ls this(1) ad this(2)] show ?thesis using ad by auto
qed

section \<open>What a login checks\<close>

lemma wp_verify_password:
  "wp (verify_password E sha user pass) (\<lambda>ok es. ok \<longrightarrow> (\<exists>salt r. indicates_success r \<and> salt \<noteq> [] \<and>
     Ubus ''zwrt_web'' ''web_login'' (jobj [(''username'', JString user), (''password'', JString (sha (sha pass @ salt)))]) (Ok r) \<in> set es))"
  unfolding verify_password_def
  by (auto intro!: wp_rules simp: ok_opt_def is_some_and_def map_sum_def split: sum.splits option.splits)
    (intro exI conjI [rotated], rule refl, assumption)

text \<open>
  A token is handed out only when the router's own login accepted the password of the request: the
  salted hash of it was sent with the user name and the answer says success; whatever the answers, at most sixteen
  sessions remain.
\<close>
theorem login_asks_the_router:
  assumes "device_ok w" "run_state (auth_login E sha bytes now later rq ss) w = ((Reply 200 j, ss'), w')" "length ss \<le> 16"
  shows "length ss' \<le> 16 \<and> (\<exists>user pass es salt r. basic_credentials rq = Some (user, pass) \<and> w_log w' = w_log w @ es \<and>
    Ubus ''zwrt_web'' ''web_login'' (jobj [(''username'', JString user), (''password'', JString (sha (sha pass @ salt)))]) (Ok r) \<in> set es \<and>
    indicates_success r)"
proof -
  obtain user pass where c: "basic_credentials rq = Some (user, pass)"
    using assms(2) by (auto simp: auth_login_def login_error_def State_Monad.return_def split: option.splits)
  obtain ok w1 es where run: "run_state (verify_password E sha user pass) w = (ok, w1)" and es: "w_log w1 = w_log w @ es"
    and ev: "ok \<longrightarrow> (\<exists>salt r. indicates_success r \<and> salt \<noteq> [] \<and>
     Ubus ''zwrt_web'' ''web_login'' (jobj [(''username'', JString user), (''password'', JString (sha (sha pass @ salt)))]) (Ok r) \<in> set es)"
    by (rule wpD [OF wp_verify_password [of E sha user pass] assms(1)]) blast
  have res: "(if ok then grant bytes now later ss else (login_error 401 ''invalid_credentials'', ss)) = (Reply 200 j, ss')" "w1 = w'"
    using assms(2) by (simp_all add: auth_login_def c State_Monad.return_def run)
  then have ok: "ok" by (auto simp: login_error_def split: if_splits)
  obtain r ss1 b where i: "issue bytes now later ss = (r, ss1)" "bytes = Some b" "ss1 = ss'"
    using res(1) ok by (cases bytes) (auto simp: grant_def issue_def login_error_def Let_def split: prod.splits option.splits)
  have "length ss' \<le> 16"
    using issue_facts(1) [of b now later ss r ss'] i assms(3) by (simp add: session_limit_def)
  then show ?thesis using c es ev ok res(2) by blast
qed

end
