(* ===== verification/Qos.thy ===== *)
theory Qos
  imports Json "HOL-Library.Product_Lexorder"
begin

text \<open>
  Quality of service of the data connection, read from the modem's key log, \<^verbatim>\<open>rust/src/qos.rs\<close>: the log
  lines of the two files are scanned once into the bearers they describe, and one bearer is chosen for the network the
  device is registered on. The files and the reuse of a scan for thirty seconds are the state of \<open>logs\<close>.

  The arithmetic of \<open>f64\<close> and its text form are a parameter (\<open>rate_ops\<close>); the program uses them only for the
  rates. An \<open>i64\<close> of the source is an \<open>int\<close>, and parsing fails outside the range of the type.
\<close>

section \<open>Reading a line\<close>

text \<open>\<open>str::lines\<close>: pieces between line feeds, without a carriage return at the end and without a last empty piece.\<close>

definition strip_cr :: "string \<Rightarrow> string" where
  "strip_cr l = (if l \<noteq> [] \<and> last l = CHR 0x0D then butlast l else l)"

definition text_lines :: "string \<Rightarrow> string list" where
  "text_lines s = (let ps = split_char (CHR 0x0A) s; qs = (if last ps = [] then butlast ps else ps) in
     map strip_cr (butlast qs) @
     (if qs = [] then [] else [if last ps = [] then strip_cr (last qs) else last qs]))"

text \<open>\<open>s.find(tag)\<close> and the rest of the string after it.\<close>

fun after_tag :: "string \<Rightarrow> string \<Rightarrow> string option" where
  "after_tag [] tag = (if tag = [] then Some [] else None)"
| "after_tag (c # s) tag = (if starts_with (c # s) tag then Some (drop (length tag) (c # s)) else after_tag s tag)"

definition parse_digits :: "string \<Rightarrow> int option" where
  "parse_digits ds = (if ds = [] \<or> digits_val ds \<ge> 2 ^ 63 then None else Some (int (digits_val ds)))"

definition digits_after_ci :: "string \<Rightarrow> string \<Rightarrow> int option" where
  "digits_after_ci s tag = Option.bind (after_tag s tag) (\<lambda>r. parse_digits (take 6 (takeWhile is_digit r)))"

definition integer_after_ci :: "string \<Rightarrow> string \<Rightarrow> int option" where
  "integer_after_ci s tag =
     Option.bind (after_tag s tag) (\<lambda>r. parse_digits (takeWhile is_digit (dropWhile (\<lambda>c. \<not> is_digit c) r)))"

record 'f rate_ops =
  rt_parse :: "string \<Rightarrow> 'f option"
  rt_int :: "int \<Rightarrow> 'f"
  rt_add :: "'f \<Rightarrow> 'f \<Rightarrow> 'f"
  rt_sub :: "'f \<Rightarrow> 'f \<Rightarrow> 'f"
  rt_mul :: "'f \<Rightarrow> 'f \<Rightarrow> 'f"
  rt_div :: "'f \<Rightarrow> 'f \<Rightarrow> 'f"
  rt_less :: "'f \<Rightarrow> 'f \<Rightarrow> bool"
  rt_le :: "'f \<Rightarrow> 'f \<Rightarrow> bool"
  rt_round :: "'f \<Rightarrow> 'f"
  rt_near :: "'f \<Rightarrow> 'f \<Rightarrow> bool" \<comment> \<open>\<open>(a - b).abs() < 0.01\<close>\<close>
  rt_print :: "'f \<Rightarrow> string" \<comment> \<open>three decimals\<close>

definition number_char :: "char \<Rightarrow> bool" where
  "number_char c \<longleftrightarrow> is_digit c \<or> c = CHR ''.''"

definition number_after :: "'f rate_ops \<Rightarrow> string \<Rightarrow> string \<Rightarrow> 'f option" where
  "number_after fl s key_text = Option.bind (after_tag s key_text) (\<lambda>r. rt_parse fl (takeWhile number_char r))"

definition opt_or :: "'a option \<Rightarrow> 'a option \<Rightarrow> 'a option" where
  "opt_or a b = (if a = None then b else a)"

definition opt_get :: "'a \<Rightarrow> 'a option \<Rightarrow> 'a" where
  "opt_get d x = (case x of Some v \<Rightarrow> v | None \<Rightarrow> d)"

definition opt_filter :: "('a \<Rightarrow> bool) \<Rightarrow> 'a option \<Rightarrow> 'a option" where
  "opt_filter P x = (case x of Some v \<Rightarrow> if P v then Some v else None | None \<Rightarrow> None)"

definition apn_ambr :: "'f rate_ops \<Rightarrow> string \<Rightarrow> string \<Rightarrow> 'f option" where
  "apn_ambr fl s k =
     (let positive = (\<lambda>v. rt_less fl (rt_int fl 0) v);
          base = map_option (\<lambda>v. rt_div fl v (rt_int fl 1000)) (number_after fl s (k @ ''=''));
          ext = opt_filter positive (number_after fl s (k @ ''_ext=''));
          ext2 = opt_filter positive (number_after fl s (k @ ''_ext2=''));
          ext0 = opt_get (rt_int fl 0) ext
      in case ext2 of
           Some v \<Rightarrow>
             (case base of
                Some b \<Rightarrow>
                  if rt_less fl (rt_add fl b ext0) v
                  then let steps = rt_div fl (rt_sub fl (rt_sub fl v b) ext0) (rt_int fl 256);
                           whole = rt_round fl steps
                       in Some (if rt_le fl (rt_int fl 1) whole \<and> rt_near fl steps whole
                                then rt_add fl (opt_get b ext) (rt_mul fl whole (rt_int fl 256))
                                else rt_sub fl v b)
                  else Some v
              | None \<Rightarrow> Some v)
         | None \<Rightarrow> opt_or ext base)"

definition session_scale :: "'f rate_ops \<Rightarrow> string \<Rightarrow> 'f \<Rightarrow> 'f option" where
  "session_scale fl suffix scale =
     (if str_contains suffix ''gbps'' then Some (rt_mul fl scale (rt_int fl 1000))
      else if str_contains suffix ''mbps'' then Some scale
      else if str_contains suffix ''kbps'' then Some (rt_div fl scale (rt_int fl 1000))
      else if str_contains suffix ''bps'' then Some (rt_div fl scale (rt_int fl 1000000))
      else None)"

definition session_ambr :: "'f rate_ops \<Rightarrow> string \<Rightarrow> string \<Rightarrow> string \<Rightarrow> 'f option" where
  "session_ambr fl s value_key unit_key =
     Option.bind (number_after fl s value_key) (\<lambda>value.
     Option.bind (after_tag s unit_key) (\<lambda>unit_text.
     Option.bind (after_tag unit_text ''('') (\<lambda>r.
     Option.bind (rt_parse fl (takeWhile number_char r)) (\<lambda>scale.
     Option.bind (session_scale fl (to_ascii_lowercase (dropWhile number_char r)) scale) (\<lambda>scale.
       Some (rt_mul fl value scale))))))"

section \<open>Bearers\<close>

datatype bearer_core = CoreUnknown | CoreEps | CoreNr

fun bearer_name :: "bearer_core \<Rightarrow> string" where
  "bearer_name CoreUnknown = ''''"
| "bearer_name CoreEps = ''eps''"
| "bearer_name CoreNr = ''nr_pdu''"

definition line_core :: "string \<Rightarrow> bearer_core" where
  "line_core lower =
     (if str_contains lower ''pdu_session_id'' \<or> str_contains lower ''session_ambr'' \<or>
         str_contains lower ''dnn='' \<and> \<not> str_contains lower ''access_point=''
      then CoreNr else CoreEps)"

record qos_query =
  qq_serving :: "(int \<times> int) option"
  qq_home :: "(int \<times> int) option"
  qq_core :: bearer_core

record qos_values =
  qv_qci :: int
  qv_ambr_dl :: string
  qv_ambr_ul :: string
  qv_bearer :: string
  qv_stale :: bool

definition no_values :: qos_values where
  "no_values = \<lparr>qv_qci = 0, qv_ambr_dl = [], qv_ambr_ul = [], qv_bearer = [], qv_stale = False\<rparr>"

record 'f candidate =
  ca_current :: bool
  ca_core :: bearer_core
  ca_mcc :: "int option"
  ca_mnc :: "int option"
  ca_seq :: nat
  ca_qci :: "int option"
  ca_dl :: "'f option"
  ca_ul :: "'f option"

definition no_candidate :: "'f candidate" where
  "no_candidate = \<lparr>ca_current = False, ca_core = CoreUnknown, ca_mcc = None, ca_mnc = None, ca_seq = 0, ca_qci = None,
     ca_dl = None, ca_ul = None\<rparr>"

record 'f parsed_logs =
  pl_candidates :: "'f candidate list"
  pl_fallback_qci :: "int option"

section \<open>Scanning the logs\<close>

record 'f scan =
  sn_candidates :: "'f candidate list"
  sn_fallback :: "int option"
  sn_seq :: nat
  sn_context :: "nat option"
  sn_context_left :: nat
  sn_pending :: "int option"
  sn_pending_left :: nat

definition is_data_context :: "string \<Rightarrow> bool" where
  "is_data_context lower \<longleftrightarrow>
     \<not> list_ex (str_contains lower) [''dnn=ims'', ''dnn=sos'', ''dnn=emergency'', ''access_point=ims''] \<and>
     (str_contains lower ''dnn='' \<or> str_contains lower ''access_point='')"

fun find_index :: "('a \<Rightarrow> bool) \<Rightarrow> 'a list \<Rightarrow> nat option" where
  "find_index P [] = None"
| "find_index P (x # xs) = (if P x then Some 0 else map_option Suc (find_index P xs))"

definition scan_context :: "bool \<Rightarrow> string \<Rightarrow> 'f scan \<Rightarrow> nat \<times> 'f scan" where
  "scan_context current lower s =
     (let cmcc = digits_after_ci lower ''mcc''; cmnc = digits_after_ci lower ''mnc''; k = line_core lower;
          (idx, cs) = (case find_index (\<lambda>c. ca_core c = k \<and> ca_mcc c = cmcc \<and> ca_mnc c = cmnc) (sn_candidates s) of
             Some i \<Rightarrow> (i, sn_candidates s)
           | None \<Rightarrow> (length (sn_candidates s), sn_candidates s @
               [no_candidate\<lparr>ca_current := current, ca_core := k, ca_mcc := cmcc, ca_mnc := cmnc, ca_seq := sn_seq s\<rparr>]));
          c = cs ! idx;
          c = c\<lparr>ca_current := ca_current c \<or> current, ca_seq := sn_seq s, ca_qci := opt_or (sn_pending s) (ca_qci c)\<rparr>
      in (idx, s\<lparr>sn_candidates := cs[idx := c], sn_context := Some idx, sn_context_left := 4, sn_pending := None,
            sn_pending_left := 0\<rparr>))"

definition scan_qci :: "string \<Rightarrow> 'f scan \<Rightarrow> 'f scan" where
  "scan_qci lower s =
     (if str_contains lower ''qci'' then
        case integer_after_ci lower ''qci'' of
          None \<Rightarrow> s
        | Some q \<Rightarrow>
            (case opt_filter (\<lambda>_. 0 < sn_context_left s) (sn_context s) of
               Some idx \<Rightarrow> s\<lparr>sn_candidates := (sn_candidates s)[idx := (sn_candidates s ! idx)\<lparr>ca_qci := Some q\<rparr>]\<rparr>
             | None \<Rightarrow>
                 if str_contains lower ''default bearer qci''
                 then s\<lparr>sn_pending := Some q, sn_pending_left := 4, sn_fallback := opt_or (sn_fallback s) (Some q)\<rparr>
                 else s\<lparr>sn_fallback := opt_or (sn_fallback s) (Some q)\<rparr>)
      else s)"

definition scan_rates :: "'f rate_ops \<Rightarrow> string \<Rightarrow> nat \<Rightarrow> 'f scan \<Rightarrow> 'f scan" where
  "scan_rates fl lower idx s =
     (if str_contains lower ''session_ambr'' then
        s\<lparr>sn_candidates := (sn_candidates s)[idx := (sn_candidates s ! idx)\<lparr>
           ca_dl := session_ambr fl lower ''session_ambr_dl='' ''session_ambr_dl_unit='',
           ca_ul := session_ambr fl lower ''session_ambr_ul='' ''session_ambr_ul_unit=''\<rparr>]\<rparr>
      else if str_contains lower ''apn_ambr'' then
        s\<lparr>sn_candidates := (sn_candidates s)[idx := (sn_candidates s ! idx)\<lparr>
           ca_dl := apn_ambr fl lower ''apn_ambr_dl'', ca_ul := apn_ambr fl lower ''apn_ambr_ul''\<rparr>]\<rparr>
      else s)"

definition scan_fade :: "'f scan \<Rightarrow> 'f scan" where
  "scan_fade s =
     s\<lparr>sn_context_left := sn_context_left s - 1, sn_context := (if sn_context_left s - 1 = 0 then None else sn_context s),
       sn_pending_left := sn_pending_left s - 1, sn_pending := (if sn_pending_left s - 1 = 0 then None else sn_pending s)\<rparr>"

definition scan_line :: "'f rate_ops \<Rightarrow> bool \<Rightarrow> string \<Rightarrow> 'f scan \<Rightarrow> 'f scan" where
  "scan_line fl current line s =
     (let s = s\<lparr>sn_seq := sn_seq s + 1\<rparr>; lower = to_ascii_lowercase line
      in scan_fade
          (if is_data_context lower
           then (case scan_context current lower s of (idx, s) \<Rightarrow> scan_rates fl lower idx (scan_qci lower s))
           else scan_qci lower s))"

definition data_lines :: "string \<Rightarrow> string list" where
  "data_lines text = filter (\<lambda>l. str_contains l ''[DATA]'') (text_lines text)"

definition scan_text :: "'f rate_ops \<Rightarrow> string \<times> bool \<Rightarrow> 'f scan \<Rightarrow> 'f scan" where
  "scan_text fl t s =
     fold (scan_line fl (snd t)) (data_lines (fst t))
       (s\<lparr>sn_context := None, sn_context_left := 0, sn_pending := None, sn_pending_left := 0\<rparr>)"

definition scan_start :: "'f scan" where
  "scan_start = \<lparr>sn_candidates = [], sn_fallback = None, sn_seq = 0, sn_context = None, sn_context_left = 0,
     sn_pending = None, sn_pending_left = 0\<rparr>"

definition collect_logs :: "'f rate_ops \<Rightarrow> (string \<times> bool) list \<Rightarrow> 'f parsed_logs" where
  "collect_logs fl texts =
     (let s = fold (scan_text fl) texts scan_start
      in \<lparr>pl_candidates = sn_candidates s, pl_fallback_qci = sn_fallback s\<rparr>)"

section \<open>Choosing a bearer\<close>

definition is_foreign :: "qos_query \<Rightarrow> 'f candidate \<Rightarrow> bool" where
  "is_foreign q c =
     (case (qq_serving q, ca_mcc c, ca_mnc c) of
        (Some serving, Some m, Some n) \<Rightarrow> (m, n) \<noteq> serving \<and> Some (m, n) \<noteq> qq_home q
      | _ \<Rightarrow> False)"

definition qos_score :: "qos_query \<Rightarrow> 'f candidate \<Rightarrow> nat" where
  "qos_score q c = (if ca_current c then 1000 else 0) + (if is_foreign q c then 0 else 100)"

definition fill_missing :: "'f candidate \<Rightarrow> 'f candidate \<Rightarrow> 'f candidate" where
  "fill_missing c sel = sel\<lparr>ca_qci := opt_or (ca_qci sel) (ca_qci c), ca_dl := opt_or (ca_dl sel) (ca_dl c),
     ca_ul := opt_or (ca_ul sel) (ca_ul c)\<rparr>"

definition select_bearer :: "'f rate_ops \<Rightarrow> 'f parsed_logs \<Rightarrow> qos_query \<Rightarrow> qos_values" where
  "select_bearer fl p q =
     (let cs = sort_key (\<lambda>c. (qos_score q c, ca_seq c)) (pl_candidates p);
          first = (if cs = [] then no_candidate else last cs);
          sel = fold fill_missing (filter (\<lambda>c. ca_core c = ca_core first) (rev cs)) first;
          found = (cs \<noteq> []);
          fallback = opt_filter (\<lambda>_. \<not> found \<or> ca_core sel = CoreEps) (pl_fallback_qci p)
      in \<lparr>qv_qci = opt_get 0 (opt_or (ca_qci sel) fallback),
          qv_ambr_dl = (case ca_dl sel of Some v \<Rightarrow> rt_print fl v | None \<Rightarrow> []),
          qv_ambr_ul = (case ca_ul sel of Some v \<Rightarrow> rt_print fl v | None \<Rightarrow> []),
          qv_bearer = (if found then bearer_name (ca_core sel) else []),
          qv_stale = (found \<and> qq_core q \<noteq> CoreUnknown \<and> ca_core sel \<noteq> CoreUnknown \<and> ca_core sel \<noteq> qq_core q)\<rparr>)"

section \<open>The external program's line\<close>

definition external_line :: "'f rate_ops \<Rightarrow> string \<Rightarrow> qos_values option \<Rightarrow> qos_values option option" where
  "external_line fl line sel =
     (let lower = to_ascii_lowercase line
      in if \<not> str_contains line ''[DATA]'' \<or> \<not> str_contains lower ''cid1'' then Some sel
         else Option.bind (integer_after_ci lower ''qci='') (\<lambda>qci.
              Option.bind (integer_after_ci lower ''dl_ambr='') (\<lambda>dl.
              Option.bind (integer_after_ci lower ''ul_ambr='') (\<lambda>ul.
                Some (if \<not> (1 \<le> qci \<and> qci \<le> 255) \<or> dl < 0 \<or> ul < 0 then sel
                      else Some (no_values\<lparr>qv_qci := qci,
                        qv_ambr_dl := rt_print fl (rt_div fl (rt_int fl dl) (rt_int fl 1000)),
                        qv_ambr_ul := rt_print fl (rt_div fl (rt_int fl ul) (rt_int fl 1000))\<rparr>))))))"

fun external_lines :: "'f rate_ops \<Rightarrow> string list \<Rightarrow> qos_values option \<Rightarrow> qos_values option" where
  "external_lines fl [] sel = sel"
| "external_lines fl (l # ls) sel = (case external_line fl l sel of None \<Rightarrow> None | Some sel' \<Rightarrow> external_lines fl ls sel')"

definition parse_external :: "'f rate_ops \<Rightarrow> string \<Rightarrow> qos_values option" where
  "parse_external fl text = external_lines fl (text_lines text) None"

section \<open>The files\<close>

text \<open>
  \<open>read_tail\<close>: the last two megabytes, from the next line on. A file is its bytes, \<open>None\<close> when it cannot be read;
  \<open>decode\<close> is \<open>from_utf8_lossy\<close>.
\<close>

definition max_log_bytes :: nat where "max_log_bytes = 2 * 1024 * 1024"

definition read_tail :: "(string \<Rightarrow> string) \<Rightarrow> string option \<Rightarrow> string option" where
  "read_tail decode file =
     map_option (\<lambda>bytes.
       let start = length bytes - max_log_bytes; rest = take max_log_bytes (drop start bytes)
       in decode (if 0 < start \<and> CHR 0x0A \<in> set rest then drop 1 (dropWhile (\<lambda>c. c \<noteq> CHR 0x0A) rest) else rest)) file"

definition read_logs :: "'f rate_ops \<Rightarrow> (string \<Rightarrow> string) \<Rightarrow> string option \<Rightarrow> string option \<Rightarrow> 'f parsed_logs" where
  "read_logs fl decode rotated current =
     collect_logs fl (List.map_filter (\<lambda>(file, cur). map_option (\<lambda>t. (t, cur)) (read_tail decode file))
       [(rotated, False), (current, True)])"

definition reuse_for :: nat where "reuse_for = of_secs 30"

definition logs_at :: "'f rate_ops \<Rightarrow> (string \<Rightarrow> string) \<Rightarrow> bool \<Rightarrow> nat \<Rightarrow> string option \<Rightarrow> string option \<Rightarrow>
    (nat \<times> 'f parsed_logs) option \<Rightarrow> 'f parsed_logs \<times> (nat \<times> 'f parsed_logs) option" where
  "logs_at fl decode caching now rotated current kept_logs =
     (case opt_filter (\<lambda>(at, p). caching \<and> now - at < reuse_for) kept_logs of
        Some (at, p) \<Rightarrow> (p, kept_logs)
      | None \<Rightarrow>
          let p = read_logs fl decode rotated current
          in (p, if caching then Some (now, p) else kept_logs))"

definition invalidate_logs :: "(nat \<times> 'f parsed_logs) option \<Rightarrow> (nat \<times> 'f parsed_logs) option" where
  "invalidate_logs kept_logs = None"

definition read_qos :: "'f rate_ops \<Rightarrow> (string \<Rightarrow> string) \<Rightarrow> bool \<Rightarrow> nat \<Rightarrow> string option \<Rightarrow> string option \<Rightarrow>
    (nat \<times> 'f parsed_logs) option \<Rightarrow> qos_query \<Rightarrow> qos_values \<times> (nat \<times> 'f parsed_logs) option" where
  "read_qos fl decode caching now rotated current kept_logs q =
     (case logs_at fl decode caching now rotated current kept_logs of (p, k) \<Rightarrow> (select_bearer fl p q, k))"


section \<open>What the scan finds\<close>

definition rates_of :: "'f rate_ops \<Rightarrow> string \<Rightarrow> 'f option \<times> 'f option" where
  "rates_of fl lower =
     (if str_contains lower ''session_ambr''
      then (session_ambr fl lower ''session_ambr_dl='' ''session_ambr_dl_unit='',
            session_ambr fl lower ''session_ambr_ul='' ''session_ambr_ul_unit='')
      else (apn_ambr fl lower ''apn_ambr_dl'', apn_ambr fl lower ''apn_ambr_ul''))"

text \<open>\<open>bearer_line L k l\<close>: a line of the log that describes a data bearer of the core \<open>k\<close>.\<close>

definition bearer_line :: "string list \<Rightarrow> bearer_core \<Rightarrow> string \<Rightarrow> bool" where
  "bearer_line L k l \<longleftrightarrow> l \<in> set L \<and> is_data_context (to_ascii_lowercase l) \<and> line_core (to_ascii_lowercase l) = k"

definition candidate_ok :: "'f rate_ops \<Rightarrow> string list \<Rightarrow> 'f candidate \<Rightarrow> bool" where
  "candidate_ok fl L c \<longleftrightarrow> ca_core c \<noteq> CoreUnknown \<and> ca_seq c \<le> length L
   \<and> (\<exists>l. bearer_line L (ca_core c) l)
   \<and> (\<forall>v. ca_dl c = Some v \<longrightarrow> (\<exists>l. bearer_line L (ca_core c) l \<and> fst (rates_of fl (to_ascii_lowercase l)) = Some v))
   \<and> (\<forall>v. ca_ul c = Some v \<longrightarrow> (\<exists>l. bearer_line L (ca_core c) l \<and> snd (rates_of fl (to_ascii_lowercase l)) = Some v))"

definition bearer_key :: "'f candidate \<Rightarrow> bearer_core \<times> int option \<times> int option" where
  "bearer_key c = (ca_core c, ca_mcc c, ca_mnc c)"

definition scan_ok :: "'f rate_ops \<Rightarrow> string list \<Rightarrow> 'f scan \<Rightarrow> bool" where
  "scan_ok fl L s \<longleftrightarrow> list_all (candidate_ok fl L) (sn_candidates s) \<and> sn_seq s = length L
   \<and> distinct (map bearer_key (sn_candidates s)) \<and> distinct (map ca_seq (sn_candidates s))
   \<and> (\<forall>i. sn_context s = Some i \<longrightarrow> i < length (sn_candidates s))"

lemma find_index_Some: "find_index P xs = Some i \<Longrightarrow> i < length xs \<and> P (xs ! i)"
  by (induction xs arbitrary: i) (auto split: if_splits)

lemma find_index_None: "find_index P xs = None \<longleftrightarrow> (\<forall>x\<in>set xs. \<not> P x)"
  by (induction xs) auto

lemma candidate_ok_mono: "candidate_ok fl L c \<Longrightarrow> set L \<subseteq> set L' \<Longrightarrow> length L \<le> length L' \<Longrightarrow> candidate_ok fl L' c"
  unfolding candidate_ok_def bearer_line_def by (meson le_trans subsetD)

lemma distinct_map_update:
  "i < length xs \<Longrightarrow> f x = f (xs ! i) \<Longrightarrow> map f (xs[i := x]) = map f xs"
  by (simp add: map_update list_update_same_conv)

lemma distinct_fresh_update:
  assumes "distinct (map f xs)" "i < length xs" "\<forall>y\<in>set xs. f y \<noteq> f x"
  shows "distinct (map f (xs[i := x]))"
  using assms by (simp add: map_update) (rule distinct_list_update, auto)

lemma scan_qci_ok: "scan_ok fl L s \<Longrightarrow> scan_ok fl L (scan_qci lower s)"
proof -
  assume ok: "scan_ok fl L s"
  have upd: "scan_ok fl L (s\<lparr>sn_candidates := (sn_candidates s)[i := (sn_candidates s ! i)\<lparr>ca_qci := Some q\<rparr>]\<rparr>)"
    if i: "i < length (sn_candidates s)" for i q
    using ok i unfolding scan_ok_def
    by (auto simp: distinct_map_update bearer_key_def list_all_length candidate_ok_def nth_list_update)
  show ?thesis
    using ok upd by (auto simp: scan_qci_def opt_filter_def scan_ok_def split: option.splits if_splits)
qed

lemma scan_fade_ok: "scan_ok fl L s \<Longrightarrow> scan_ok fl L (scan_fade s)"
  by (simp add: scan_ok_def scan_fade_def)

lemma scan_rates_ok:
  assumes "scan_ok fl L s" "idx < length (sn_candidates s)" "bearer_line L (ca_core (sn_candidates s ! idx)) l"
  shows "scan_ok fl L (scan_rates fl (to_ascii_lowercase l) idx s)"
proof -
  have upd: "scan_ok fl L (s\<lparr>sn_candidates := (sn_candidates s)[idx := (sn_candidates s ! idx)\<lparr>ca_dl := dl, ca_ul := ul\<rparr>]\<rparr>)"
    if r: "rates_of fl (to_ascii_lowercase l) = (dl, ul)" for dl ul
    using assms r unfolding scan_ok_def
    by (auto simp: distinct_map_update bearer_key_def list_all_length candidate_ok_def nth_list_update intro!: exI [of _ l])
  show ?thesis using assms(1) upd by (auto simp: scan_rates_def rates_of_def)
qed

lemma scan_context_ok:
  assumes ok: "scan_ok fl L s" and l: "is_data_context (to_ascii_lowercase l)"
    and r: "scan_context current (to_ascii_lowercase l) (s\<lparr>sn_seq := sn_seq s + 1\<rparr>) = (idx, s')"
  shows "scan_ok fl (L @ [l]) s'" and "idx < length (sn_candidates s')"
    and "bearer_line (L @ [l]) (ca_core (sn_candidates s' ! idx)) l"
proof -
  let ?lower = "to_ascii_lowercase l"
  let ?k = "line_core ?lower" and ?m = "digits_after_ci ?lower ''mcc''" and ?n = "digits_after_ci ?lower ''mnc''"
  let ?P = "\<lambda>c :: 'a candidate. ca_core c = ?k \<and> ca_mcc c = ?m \<and> ca_mnc c = ?n"
  define cs where "cs = (case find_index ?P (sn_candidates s) of Some i \<Rightarrow> sn_candidates s
    | None \<Rightarrow> sn_candidates s @ [no_candidate\<lparr>ca_current := current, ca_core := ?k, ca_mcc := ?m, ca_mnc := ?n, ca_seq := sn_seq s + 1\<rparr>])"
  have bl: "bearer_line (L @ [l]) ?k l" using l by (simp add: bearer_line_def)
  have k: "?k \<noteq> CoreUnknown" by (simp add: line_core_def)
  have idx: "idx < length cs" "?P (cs ! idx)"
    and s': "s' = s\<lparr>sn_seq := sn_seq s + 1, sn_candidates := cs[idx := (cs ! idx)\<lparr>ca_current := ca_current (cs ! idx) \<or> current,
        ca_seq := sn_seq s + 1, ca_qci := opt_or (sn_pending s) (ca_qci (cs ! idx))\<rparr>], sn_context := Some idx,
        sn_context_left := 4, sn_pending := None, sn_pending_left := 0\<rparr>"
    using r by (auto simp: scan_context_def cs_def Let_def nth_append split: option.splits dest!: find_index_Some)
  have okc: "list_all (candidate_ok fl (L @ [l])) cs"
  proof -
    have old_ok: "list_all (candidate_ok fl (L @ [l])) (sn_candidates s)"
      using ok unfolding scan_ok_def list_all_iff by (auto intro: candidate_ok_mono [of fl L _ "L @ [l]"])
    moreover have "candidate_ok fl (L @ [l]) (no_candidate\<lparr>ca_current := current, ca_core := ?k, ca_mcc := ?m, ca_mnc := ?n,
        ca_seq := sn_seq s + 1\<rparr>)"
      using bl k ok by (auto simp: candidate_ok_def no_candidate_def scan_ok_def)
    ultimately show ?thesis by (simp add: cs_def split: option.splits)
  qed
  have keys: "distinct (map bearer_key cs)"
    using ok by (auto simp: cs_def scan_ok_def bearer_key_def find_index_None split: option.splits)
  have seqs: "distinct (map ca_seq (cs[idx := x]))" if x: "ca_seq x = sn_seq s + 1" for x
  proof (cases "find_index ?P (sn_candidates s)")
    case None
    then obtain c where "cs = sn_candidates s @ [c]" "idx = length (sn_candidates s)"
      using r by (auto simp: scan_context_def cs_def Let_def)
    moreover have "\<forall>c\<in>set (sn_candidates s). ca_seq c \<le> length L" "distinct (map ca_seq (sn_candidates s))"
      using ok by (auto simp: scan_ok_def list_all_iff candidate_ok_def)
    ultimately show ?thesis using x ok by (auto simp: scan_ok_def)
  next
    case (Some i)
    then have "cs = sn_candidates s" by (simp add: cs_def)
    moreover have "\<forall>c\<in>set (sn_candidates s). ca_seq c \<noteq> ca_seq x"
      using ok x by (auto simp: scan_ok_def list_all_iff candidate_ok_def)
    ultimately show ?thesis using ok idx(1) by (auto simp: scan_ok_def intro: distinct_fresh_update)
  qed
  show "idx < length (sn_candidates s')" using idx s' by simp
  show "bearer_line (L @ [l]) (ca_core (sn_candidates s' ! idx)) l" using idx s' bl by simp
  show "scan_ok fl (L @ [l]) s'"
    using idx okc keys seqs ok unfolding s' scan_ok_def
    by (auto simp: distinct_map_update bearer_key_def list_all_length candidate_ok_def nth_list_update)
qed

lemma scan_line_ok: "scan_ok fl L s \<Longrightarrow> scan_ok fl (L @ [l]) (scan_line fl current l s)"
proof (cases "is_data_context (to_ascii_lowercase l)")
  case True
  assume ok: "scan_ok fl L s"
  obtain idx s' where r: "scan_context current (to_ascii_lowercase l) (s\<lparr>sn_seq := sn_seq s + 1\<rparr>) = (idx, s')" by fastforce
  note c = scan_context_ok [OF ok True r]
  let ?q = "scan_qci (to_ascii_lowercase l) s'"
  have frame: "length (sn_candidates ?q) = length (sn_candidates s')" "ca_core (sn_candidates ?q ! idx) = ca_core (sn_candidates s' ! idx)"
    using c(1,2) by (auto simp: scan_qci_def opt_filter_def nth_list_update scan_ok_def split: option.splits if_splits)
  have "scan_ok fl (L @ [l]) (scan_rates fl (to_ascii_lowercase l) idx ?q)"
    by (rule scan_rates_ok) (use scan_qci_ok [OF c(1)] c(2,3) frame in simp_all)
  then show ?thesis using True r by (simp add: scan_line_def scan_fade_ok Let_def)
next
  case False
  assume ok: "scan_ok fl L s"
  then have "scan_ok fl (L @ [l]) (s\<lparr>sn_seq := sn_seq s + 1\<rparr>)"
    by (auto simp: scan_ok_def list_all_iff intro: candidate_ok_mono [of fl L _ "L @ [l]"])
  then show ?thesis using False by (simp add: scan_line_def scan_fade_ok scan_qci_ok Let_def)
qed

lemma scan_lines_ok: "scan_ok fl L s \<Longrightarrow> scan_ok fl (L @ ls) (fold (scan_line fl current) ls s)"
proof (induction ls arbitrary: L s)
  case (Cons l ls)
  then show ?case using Cons.IH [OF scan_line_ok [OF Cons.prems]] by simp
qed simp

definition all_data_lines :: "(string \<times> bool) list \<Rightarrow> string list" where
  "all_data_lines texts = concat (map (\<lambda>t. data_lines (fst t)) texts)"

lemma collect_scan_ok: "scan_ok fl (all_data_lines texts) (fold (scan_text fl) texts scan_start)"
proof -
  have "scan_ok fl L s \<Longrightarrow> scan_ok fl (L @ all_data_lines texts) (fold (scan_text fl) texts s)" for L s
  proof (induction texts arbitrary: L s)
    case (Cons t texts)
    have "scan_ok fl (L @ data_lines (fst t)) (scan_text fl t s)"
      unfolding scan_text_def by (rule scan_lines_ok) (use Cons.prems in \<open>simp add: scan_ok_def\<close>)
    from Cons.IH [OF this] show ?case by (simp add: all_data_lines_def)
  qed (simp add: all_data_lines_def)
  from this [of "[]" scan_start] show ?thesis by (simp add: scan_ok_def scan_start_def)
qed

lemma fill_missing_frame [simp]: "ca_core (fold fill_missing cs c) = ca_core c"
  by (induction cs arbitrary: c) (simp_all add: fill_missing_def)

lemma fill_missing_fields:
  "ca_qci (fill_missing d c) = opt_or (ca_qci c) (ca_qci d)" "ca_dl (fill_missing d c) = opt_or (ca_dl c) (ca_dl d)"
  "ca_ul (fill_missing d c) = opt_or (ca_ul c) (ca_ul d)"
  by (simp_all add: fill_missing_def)

lemma fold_first_some:
  assumes "\<And>d c. g (fill_missing d c) = opt_or (g c) (g d)"
  shows "g (fold fill_missing cs c) = Some x \<Longrightarrow> \<exists>d\<in>insert c (set cs). g d = Some x"
proof (induction cs arbitrary: c)
  case (Cons d cs)
  then obtain e where "e \<in> insert (fill_missing d c) (set cs)" "g e = Some x" by auto
  then show ?case by (cases "g c") (auto simp: assms opt_or_def)
qed auto

lemmas fill_missing_from = fill_missing_fields [THEN fold_first_some]


lemma last_sort_key_max: "x \<in> set xs \<Longrightarrow> f x \<le> f (last (sort_key f xs))"
proof -
  assume "x \<in> set xs"
  then have "x \<in> set (sort_key f xs)" by simp
  moreover from this have "sort_key f xs \<noteq> []" by (metis empty_iff list.set(1))
  ultimately obtain i where "i < length xs" "sort_key f xs ! i = x" "sort_key f xs \<noteq> []" by (metis in_set_conv_nth length_sort)
  then show ?thesis
    using sorted_nth_mono [of "map f (sort_key f xs)" i "length xs - 1"]
      last_conv_nth [of "sort_key f xs"] by auto
qed

text \<open>The choice of \<open>select_bearer\<close>, and the bearers its values are taken from.\<close>

definition best_bearer :: "qos_query \<Rightarrow> 'f parsed_logs \<Rightarrow> 'f candidate" where
  "best_bearer q p = last (sort_key (\<lambda>c. (qos_score q c, ca_seq c)) (pl_candidates p))"

definition filled_bearer :: "qos_query \<Rightarrow> 'f parsed_logs \<Rightarrow> 'f candidate" where
  "filled_bearer q p = fold fill_missing (filter (\<lambda>d. ca_core d = ca_core (best_bearer q p))
     (rev (sort_key (\<lambda>c. (qos_score q c, ca_seq c)) (pl_candidates p)))) (best_bearer q p)"

lemma select_bearer_eq:
  assumes "pl_candidates p \<noteq> []"
  shows "select_bearer fl p q = \<lparr>qv_qci = opt_get 0 (opt_or (ca_qci (filled_bearer q p))
        (opt_filter (\<lambda>_. ca_core (best_bearer q p) = CoreEps) (pl_fallback_qci p))),
      qv_ambr_dl = (case ca_dl (filled_bearer q p) of Some v \<Rightarrow> rt_print fl v | None \<Rightarrow> []),
      qv_ambr_ul = (case ca_ul (filled_bearer q p) of Some v \<Rightarrow> rt_print fl v | None \<Rightarrow> []),
      qv_bearer = bearer_name (ca_core (best_bearer q p)),
      qv_stale = (qq_core q \<noteq> CoreUnknown \<and> ca_core (best_bearer q p) \<noteq> CoreUnknown \<and> ca_core (best_bearer q p) \<noteq> qq_core q)\<rparr>"
proof -
  have "sort_key (\<lambda>c. (qos_score q c, ca_seq c)) (pl_candidates p) \<noteq> []"
    using assms by (metis length_0_conv length_sort)
  then show ?thesis
    by (simp add: select_bearer_def Let_def best_bearer_def [symmetric] filled_bearer_def)
qed

lemma best_bearer_in: "pl_candidates p \<noteq> [] \<Longrightarrow> best_bearer q p \<in> set (pl_candidates p)"
  unfolding best_bearer_def by (metis last_in_set length_0_conv length_sort set_sort)

lemma filled_from:
  assumes "pl_candidates p \<noteq> []" "\<And>d c. g (fill_missing d c) = opt_or (g c) (g d)" "g (filled_bearer q p) = Some x"
  shows "\<exists>d\<in>set (pl_candidates p). ca_core d = ca_core (best_bearer q p) \<and> g d = Some x"
  using fold_first_some [of g, OF assms(2)] assms(3) best_bearer_in [OF assms(1)] unfolding filled_bearer_def by fastforce

lemma best_bearer_first:
  assumes "d \<in> set (pl_candidates (collect_logs fl texts))" "d \<noteq> best_bearer q (collect_logs fl texts)"
  shows "(qos_score q d, ca_seq d) < (qos_score q (best_bearer q (collect_logs fl texts)), ca_seq (best_bearer q (collect_logs fl texts)))"
proof -
  let ?p = "collect_logs fl texts"
  have "best_bearer q ?p \<in> set (pl_candidates ?p)" using assms(1) by (intro best_bearer_in) auto
  moreover have "distinct (map ca_seq (pl_candidates ?p))"
    using collect_scan_ok [of fl texts] by (simp add: scan_ok_def collect_logs_def Let_def)
  ultimately have "ca_seq d \<noteq> ca_seq (best_bearer q ?p)" using assms by (metis distinct_map inj_onD)
  then show ?thesis
    using last_sort_key_max [OF assms(1), of "\<lambda>c. (qos_score q c, ca_seq c)"] by (simp add: best_bearer_def le_less)
qed

text \<open>
  The limits that are shown for the connection come from the log lines of one kind of bearer: the bearer of the newest
  entry of the best source (the current log before the rotated one, the serving or home network before a foreign one) is
  chosen, the values are marked stale exactly when the device is on the other core, and every rate was read from a
  line of that same core. A QCI of the old core never stands in for the 5QI of a 5G session.
\<close>

theorem limits_of_one_core:
  assumes "p = collect_logs fl texts" "v = select_bearer fl p q" "qv_bearer v = bearer_name k" "k \<noteq> CoreUnknown"
  shows "\<exists>c\<in>set (pl_candidates p). ca_core c = k
    \<and> (\<forall>d\<in>set (pl_candidates p). d \<noteq> c \<longrightarrow> (qos_score q d, ca_seq d) < (qos_score q c, ca_seq c))
    \<and> (qv_stale v \<longleftrightarrow> qq_core q \<noteq> CoreUnknown \<and> qq_core q \<noteq> k)
    \<and> (qv_ambr_dl v = [] \<or> (\<exists>l r. bearer_line (all_data_lines texts) k l
          \<and> fst (rates_of fl (to_ascii_lowercase l)) = Some r \<and> qv_ambr_dl v = rt_print fl r))
    \<and> (qv_ambr_ul v = [] \<or> (\<exists>l r. bearer_line (all_data_lines texts) k l
          \<and> snd (rates_of fl (to_ascii_lowercase l)) = Some r \<and> qv_ambr_ul v = rt_print fl r))
    \<and> (k = CoreNr \<longrightarrow> qv_qci v = 0 \<or> (\<exists>d\<in>set (pl_candidates p). ca_core d = CoreNr \<and> ca_qci d = Some (qv_qci v)))"
proof -
  let ?c = "best_bearer q p" and ?s = "filled_bearer q p"
  have ne: "pl_candidates p \<noteq> []" using assms by (cases k) (auto simp: select_bearer_def Let_def)
  note v = assms(2) [unfolded select_bearer_eq [OF ne]]
  have k: "ca_core ?c = k" using assms(3,4) v by (cases k; cases "ca_core ?c") auto
  have ok: "candidate_ok fl (all_data_lines texts) d" if "d \<in> set (pl_candidates p)" for d
    using collect_scan_ok [of fl texts] that assms(1) by (simp add: scan_ok_def collect_logs_def Let_def list_all_iff)
  have dl: "qv_ambr_dl v = [] \<or> (\<exists>l r. bearer_line (all_data_lines texts) k l
          \<and> fst (rates_of fl (to_ascii_lowercase l)) = Some r \<and> qv_ambr_dl v = rt_print fl r)"
  proof (cases "ca_dl ?s")
    case (Some r)
    then show ?thesis using filled_from [where g = ca_dl, OF ne fill_missing_fields(2) Some] ok k v by (fastforce simp: candidate_ok_def)
  qed (simp add: v)
  have ul: "qv_ambr_ul v = [] \<or> (\<exists>l r. bearer_line (all_data_lines texts) k l
          \<and> snd (rates_of fl (to_ascii_lowercase l)) = Some r \<and> qv_ambr_ul v = rt_print fl r)"
  proof (cases "ca_ul ?s")
    case (Some r)
    then show ?thesis using filled_from [where g = ca_ul, OF ne fill_missing_fields(3) Some] ok k v by (fastforce simp: candidate_ok_def)
  qed (simp add: v)
  have qci: "qv_qci v = 0 \<or> (\<exists>d\<in>set (pl_candidates p). ca_core d = CoreNr \<and> ca_qci d = Some (qv_qci v))" if nr: "k = CoreNr"
  proof (cases "ca_qci ?s")
    case (Some x)
    then show ?thesis using filled_from [where g = ca_qci, OF ne fill_missing_fields(1) Some] nr k v by (auto simp: opt_or_def opt_get_def)
  next
    case None
    then show ?thesis using nr k v by (simp add: opt_or_def opt_get_def opt_filter_def split: option.splits)
  qed
  have "qv_stale v \<longleftrightarrow> qq_core q \<noteq> CoreUnknown \<and> qq_core q \<noteq> k" using v k assms(4) by auto
  moreover have "\<forall>d\<in>set (pl_candidates p). d \<noteq> ?c \<longrightarrow> (qos_score q d, ca_seq d) < (qos_score q ?c, ca_seq ?c)"
    using best_bearer_first [of _ fl texts q] assms(1) by blast
  ultimately show ?thesis using best_bearer_in [OF ne] k dl ul qci by (intro bexI [of _ ?c]) blast+
qed

section \<open>A concrete log\<close>

definition plain_rates :: "int rate_ops" where
  "plain_rates = \<lparr>rt_parse = (\<lambda>s. map_option int (parse_nat s)), rt_int = (\<lambda>n. n), rt_add = (+), rt_sub = (-), rt_mul = (*),
     rt_div = (div), rt_less = (<), rt_le = (\<le>), rt_round = (\<lambda>n. n), rt_near = (\<lambda>a b. a = b),
     rt_print = (\<lambda>n. nat_digits (nat n))\<rparr>"

definition sample_log :: string where
  "sample_log = ''[DATA]dnn= session_ambr_dl=2 session_ambr_dl_unit=(1Mbps)''"

definition sample_query :: qos_query where
  "sample_query = \<lparr>qq_serving = Some (460, 1), qq_home = Some (460, 1), qq_core = CoreEps\<rparr>"

lemma sample_selected:
  "select_bearer plain_rates (collect_logs plain_rates [(sample_log, True)]) sample_query =
     \<lparr>qv_qci = 0, qv_ambr_dl = ''2'', qv_ambr_ul = [], qv_bearer = ''nr_pdu'', qv_stale = True\<rparr>"
  by code_simp

theorem limits_of_one_core_witness:
  "\<exists>l r. bearer_line (all_data_lines [(sample_log, True)]) CoreNr l
     \<and> fst (rates_of plain_rates (to_ascii_lowercase l)) = Some r \<and> ''2'' = rt_print plain_rates r"
  using limits_of_one_core [OF refl refl, of plain_rates "[(sample_log, True)]" sample_query CoreNr]
  by (simp add: sample_selected) blast

end
