(* ===== verification/Legacy_Hits.thy ===== *)
theory Legacy_Hits
  imports Server Qos
begin

text \<open>
  Counting who still calls the old interfaces, \<^verbatim>\<open>rust/src/legacy_hits.rs\<close>. The book is one mutex, so each locked
  section is one function; the calls of the tasks are a sequence of such sections. Looking a caller up reads
  \<^verbatim>\<open>/proc\<close>, which is the record \<open>proc_fs\<close>; the text of an address is the parameter \<open>show_ip\<close>.
\<close>

section \<open>The book\<close>

definition max_keys :: nat where "max_keys = 256"
definition max_callers :: nat where "max_callers = 4"
definition resolve_every :: nat where "resolve_every = of_secs 5"
definition save_every :: nat where "save_every = of_secs 60"

record hit =
  ht_count :: u64
  ht_first :: u64
  ht_last :: u64
  ht_callers :: "string list"

definition no_hit :: hit where
  "no_hit = \<lparr>ht_count = 0, ht_first = 0, ht_last = 0, ht_callers = []\<rparr>"

record saved =
  sv_since :: u64
  sv_hits :: "(string \<times> hit) list"

record hit_book =
  bo_saved :: saved
  bo_dirty :: bool
  bo_last_save :: "nat option"
  bo_last_resolve :: "(string \<times> nat) list"

text \<open>\<open>book\<close>: the file is read once; an unreadable file or one without a start time begins a new count.\<close>

definition book_open :: "u64 \<Rightarrow> saved option \<Rightarrow> hit_book" where
  "book_open wall file =
     (let loaded = (case file of Some v \<Rightarrow> if 0 <s sv_since v then Some v else None | None \<Rightarrow> None)
      in \<lparr>bo_saved = (case loaded of Some v \<Rightarrow> v | None \<Rightarrow> \<lparr>sv_since = wall, sv_hits = []\<rparr>), bo_dirty = (loaded = None),
          bo_last_save = None, bo_last_resolve = []\<rparr>)"

definition control_key :: "string \<Rightarrow> bool \<Rightarrow> string" where
  "control_key act has_source = ''control:'' @ act @ (if has_source then ''+source'' else [])"

definition hit_key :: "string \<Rightarrow> hit_book \<Rightarrow> string" where
  "hit_key k b =
     (if map_of (sv_hits (bo_saved b)) k \<noteq> None \<or> length (sv_hits (bo_saved b)) < max_keys then k else ''control:(other)'')"

text \<open>\<open>hit\<close>, the first section: count, and decide whether the caller is looked up and whether to write at once.\<close>

definition hit_count :: "nat \<Rightarrow> u64 \<Rightarrow> string \<Rightarrow> bool \<Rightarrow> hit_book \<Rightarrow> (string \<times> bool \<times> bool) \<times> hit_book" where
  "hit_count now wall k has_peer b =
     (let k = hit_key k b;
          found = map_of (sv_hits (bo_saved b)) k;
          e = (case found of Some e \<Rightarrow> e | None \<Rightarrow> no_hit);
          e = (if ht_count e = 0 then e\<lparr>ht_first := wall\<rparr> else e);
          e = e\<lparr>ht_count := ht_count e + 1, ht_last := wall\<rparr>;
          due = (has_peer \<and> is_none_or (map_of (bo_last_resolve b) k) (\<lambda>at. now - at \<ge> resolve_every))
      in ((k, found = None, due),
          b\<lparr>bo_saved := (bo_saved b)\<lparr>sv_hits := map_insert k e (sv_hits (bo_saved b))\<rparr>, bo_dirty := True,
            bo_last_resolve := (if due then map_insert k now (bo_last_resolve b) else bo_last_resolve b)\<rparr>))"

text \<open>The second section, once the caller is known.\<close>

definition hit_caller :: "string \<Rightarrow> string \<Rightarrow> hit_book \<Rightarrow> hit_book" where
  "hit_caller k who b =
     (case map_of (sv_hits (bo_saved b)) k of
        None \<Rightarrow> b
      | Some e \<Rightarrow> b\<lparr>bo_saved := (bo_saved b)\<lparr>sv_hits := map_insert k
          (e\<lparr>ht_callers := take max_callers (who # filter (\<lambda>c. c \<noteq> who) (ht_callers e))\<rparr>) (sv_hits (bo_saved b))\<rparr>\<rparr>)"

text \<open>\<open>flush\<close>: what is stored, if anything, and the section after a failed write.\<close>

definition flush_begin :: "nat \<Rightarrow> bool \<Rightarrow> hit_book \<Rightarrow> saved option \<times> hit_book" where
  "flush_begin now force b =
     (if \<not> bo_dirty b then (None, b)
      else if \<not> force \<and> is_some_and (bo_last_save b) (\<lambda>at. now - at < save_every) then (None, b)
      else (Some (bo_saved b), b\<lparr>bo_dirty := False, bo_last_save := Some now\<rparr>))"

definition flush_failed :: "hit_book \<Rightarrow> hit_book" where
  "flush_failed b = b\<lparr>bo_dirty := True\<rparr>"

definition hit_json :: "hit \<Rightarrow> json" where
  "hit_json h = jobj [(''count'', JNumber (PosInt (ht_count h))), (''first'', JNumber (PosInt (ht_first h))),
     (''last'', JNumber (PosInt (ht_last h))), (''callers'', JArray (map JString (ht_callers h)))]"

definition hits_report :: "u64 \<Rightarrow> hit_book \<Rightarrow> json" where
  "hits_report wall b = jobj [(''ok'', JBool True), (''since'', JNumber (PosInt (sv_since (bo_saved b)))),
     (''now'', JNumber (PosInt wall)), (''hits'', jobj (map (\<lambda>(k, h). (k, hit_json h)) (sv_hits (bo_saved b))))]"

section \<open>Who the caller is\<close>

record proc_fs =
  pf_tables :: "string option list" \<comment> \<open>\<^verbatim>\<open>/proc/net/tcp\<close> and \<^verbatim>\<open>tcp6\<close>\<close>
  pf_entries :: "(string \<times> string option list option) list option" \<comment> \<open>names in \<^verbatim>\<open>/proc\<close> with the links of \<^verbatim>\<open>fd\<close>\<close>
  pf_own :: nat
  pf_comm :: "nat \<Rightarrow> string option"
  pf_stat :: "nat \<Rightarrow> string option"
  pf_cmdline :: "nat \<Rightarrow> string"

function ws_words :: "string \<Rightarrow> string list" where
  "ws_words [] = []"
| "ws_words (c # s) =
     (if ws_char c then ws_words s
      else (c # takeWhile (\<lambda>x. \<not> ws_char x) s) # ws_words (dropWhile (\<lambda>x. \<not> ws_char x) s))"
  by pat_completeness auto
termination by (relation "measure length") (auto simp: le_imp_less_Suc length_dropWhile_le)

definition parse_u32 :: "string \<Rightarrow> nat option" where
  "parse_u32 s = (case parse_nat s of Some n \<Rightarrow> if n < 2 ^ 32 then Some n else None | None \<Rightarrow> None)"

definition nth_opt :: "'a list \<Rightarrow> nat \<Rightarrow> 'a option" where
  "nth_opt xs i = (if i < length xs then Some (xs ! i) else None)"

definition parse_ppid :: "string \<Rightarrow> nat option" where
  "parse_ppid stat =
     (if CHR '')'' \<in> set stat
      then Option.bind (nth_opt (ws_words (rev (takeWhile (\<lambda>c. c \<noteq> CHR '')'') (rev stat)))) 1) parse_u32
      else None)"

definition hex_upper :: "nat \<Rightarrow> char" where
  "hex_upper n = (if n < 10 then char_of (48 + n) else char_of (55 + n))"

definition hex4 :: "nat \<Rightarrow> string" where
  "hex4 p = [hex_upper (p div 4096 mod 16), hex_upper (p div 256 mod 16), hex_upper (p div 16 mod 16), hex_upper (p mod 16)]"

definition inode_of_line :: "nat \<Rightarrow> string \<Rightarrow> u64 option" where
  "inode_of_line port line =
     (let cols = ws_words line
      in case nth_opt cols 1 of
           None \<Rightarrow> None
         | Some local \<Rightarrow>
             if \<not> ends_with local (CHR '':'' # hex4 port) then None
             else (case Option.bind (nth_opt cols 9) parse_u64 of
                     Some n \<Rightarrow> if n \<noteq> 0 then Some n else None
                   | None \<Rightarrow> None))"

fun find_first :: "('a \<Rightarrow> 'b option) \<Rightarrow> 'a list \<Rightarrow> 'b option" where
  "find_first f [] = None"
| "find_first f (x # xs) = (case f x of Some y \<Rightarrow> Some y | None \<Rightarrow> find_first f xs)"

definition socket_inode :: "string \<Rightarrow> nat \<Rightarrow> u64 option" where
  "socket_inode table port = find_first (inode_of_line port) (drop 1 (text_lines table))"

definition find_pid :: "proc_fs \<Rightarrow> nat \<Rightarrow> nat option" where
  "find_pid pf port =
     (case find_first (\<lambda>t. socket_inode t port) (List.map_filter (\<lambda>t. t) (pf_tables pf)) of
        None \<Rightarrow> None
      | Some inode \<Rightarrow>
          Option.bind (pf_entries pf) (find_first (\<lambda>(n, fds).
            case parse_u32 n of
              None \<Rightarrow> None
            | Some pid \<Rightarrow>
                if pid = pf_own pf then None
                else (case fds of
                        None \<Rightarrow> None
                      | Some links \<Rightarrow>
                          if Some (''socket:['' @ nat_digits (unat inode) @ '']'') \<in> set links then Some pid else None))))"

definition unknown_text :: "string option \<Rightarrow> string" where
  "unknown_text s = (case s of Some t \<Rightarrow> trim t | None \<Rightarrow> ''?'')"

definition parent_cmdline :: "(string \<Rightarrow> string list) \<Rightarrow> proc_fs \<Rightarrow> nat \<Rightarrow> string" where
  "parent_cmdline chars_of pf pid =
     (let ws = filter (\<lambda>w. w \<noteq> []) (split_char (CHR 0x00) (pf_cmdline pf pid));
          line = (case ws of [] \<Rightarrow> [] | w # ws \<Rightarrow> w @ concat (map (\<lambda>x. CHR '' '' # x) ws));
          line = (if line = [] then unknown_text (pf_comm pf pid) else line)
      in if length (chars_of line) > 80 then concat (take 80 (chars_of line)) @ ellipsis else line)"

definition unmapped :: "ip \<Rightarrow> ip" where
  "unmapped a =
     (case a of
        V6 gs \<Rightarrow>
          if length gs = 8 \<and> take 6 gs = [0, 0, 0, 0, 0, 65535]
          then V4 [ucast (drop_bit 8 (gs ! 6)), ucast (gs ! 6), ucast (drop_bit 8 (gs ! 7)), ucast (gs ! 7)] else a
      | V4 _ \<Rightarrow> a)"

definition describe_peer :: "(string \<Rightarrow> string list) \<Rightarrow> (ip \<Rightarrow> string) \<Rightarrow> proc_fs \<Rightarrow> ip \<Rightarrow> nat \<Rightarrow> string" where
  "describe_peer chars_of show_ip pf a port =
     (if \<not> is_loopback (unmapped a) then ''lan '' @ show_ip (unmapped a)
      else case find_pid pf port of
             Some pid \<Rightarrow>
               unknown_text (pf_comm pf pid) @ '' pid '' @ nat_digits pid @ '' parent: '' @
               (case Option.bind (pf_stat pf pid) parse_ppid of Some pp \<Rightarrow> parent_cmdline chars_of pf pp | None \<Rightarrow> ''?'')
           | None \<Rightarrow> ''?'')"

section \<open>The life of the book\<close>

text \<open>
  The sections in the order the tasks run them. A flush decides under the lock and writes outside of it, so writes
  that were begun can end in any order, or fail; \<open>Reopen\<close> is a restart that reads the file as it then is.
\<close>

datatype hit_step =
  Hit nat u64 string bool
| Caller string string
| FlushBegin nat bool
| FlushEnd nat bool
| Reopen u64

record hit_world =
  hw_book :: hit_book
  hw_file :: "saved option"
  hw_writes :: "saved list"

fun hit_exec :: "hit_step \<Rightarrow> hit_world \<Rightarrow> hit_world" where
  "hit_exec (Hit now wall k has_peer) w = w\<lparr>hw_book := snd (hit_count now wall k has_peer (hw_book w))\<rparr>"
| "hit_exec (Caller k who) w = w\<lparr>hw_book := hit_caller k who (hw_book w)\<rparr>"
| "hit_exec (FlushBegin now force) w =
     (case flush_begin now force (hw_book w) of
        (None, b) \<Rightarrow> w\<lparr>hw_book := b\<rparr>
      | (Some v, b) \<Rightarrow> w\<lparr>hw_book := b, hw_writes := hw_writes w @ [v]\<rparr>)"
| "hit_exec (FlushEnd i stored) w =
     (if i < length (hw_writes w)
      then let rest = take i (hw_writes w) @ drop (Suc i) (hw_writes w)
           in if stored then w\<lparr>hw_file := Some (hw_writes w ! i), hw_writes := rest\<rparr>
              else w\<lparr>hw_book := flush_failed (hw_book w), hw_writes := rest\<rparr>
      else w)"
| "hit_exec (Reopen wall) w = w\<lparr>hw_book := book_open wall (hw_file w), hw_writes := []\<rparr>"

definition hits_ok :: "(string \<times> hit) list \<Rightarrow> bool" where
  "hits_ok m \<longleftrightarrow> keys_sorted m \<and> card (fst ` set m - {''control:(other)''}) \<le> max_keys \<and>
     (\<forall>k h. (k, h) \<in> set m \<longrightarrow> length (ht_callers h) \<le> max_callers \<and> distinct (ht_callers h))"

abbreviation saved_ok :: "saved \<Rightarrow> bool" where "saved_ok v \<equiv> hits_ok (sv_hits v)"

definition world_ok :: "hit_world \<Rightarrow> bool" where
  "world_ok w \<longleftrightarrow> saved_ok (bo_saved (hw_book w)) \<and> (\<forall>v. hw_file w = Some v \<longrightarrow> saved_ok v) \<and>
     list_all saved_ok (hw_writes w)"

definition total_hits :: "(string \<times> hit) list \<Rightarrow> u64" where
  "total_hits m = sum_list (map (\<lambda>(k, h). ht_count h) m)"

definition hits_in :: "hit_step list \<Rightarrow> nat" where
  "hits_in ss = length (filter (\<lambda>s. case s of Hit _ _ _ _ \<Rightarrow> True | _ \<Rightarrow> False) ss)"

definition restarts_in :: "hit_step list \<Rightarrow> bool" where
  "restarts_in ss = list_ex (\<lambda>s. case s of Reopen _ \<Rightarrow> True | _ \<Rightarrow> False) ss"

lemma set_map_insert: "(a, b) \<in> set (map_insert k v m) \<Longrightarrow> a = k \<and> b = v \<or> (a, b) \<in> set m"
  by (induction k v m rule: map_insert.induct) (auto split: if_splits)

lemma total_hits_insert:
  "keys_sorted m \<Longrightarrow>
   total_hits (map_insert k v m) = total_hits m + ht_count v - (case map_of m k of Some e \<Rightarrow> ht_count e | None \<Rightarrow> 0)"
proof (induction k v m rule: map_insert.induct)
  case (2 k v a b m)
  have "map_of m k = None" if "k < a"
    using 2(2) that by (auto simp: map_of_eq_None_iff)
  then show ?case using 2 by (auto simp: total_hits_def split: option.splits)
qed (simp add: total_hits_def)

lemma hits_ok_insert:
  assumes ok: "hits_ok m" and k: "k = ''control:(other)'' \<or> map_of m k \<noteq> None \<or> length m < max_keys"
    and v: "length (ht_callers v) \<le> max_callers" "distinct (ht_callers v)"
  shows "hits_ok (map_insert k v m)"
proof -
  let ?o = "''control:(other)''"
  have "card (insert k (fst ` set m) - {?o}) \<le> max_keys"
  proof (cases "k = ?o \<or> map_of m k \<noteq> None")
    case True
    then have "insert k (fst ` set m) - {?o} = fst ` set m - {?o}"
      by (auto simp: map_of_eq_None_iff intro: rev_image_eqI dest: map_of_SomeD)
    then show ?thesis using ok by (simp add: hits_ok_def)
  next
    case False
    then have "card (insert k (fst ` set m)) \<le> max_keys"
      using k card_insert_le_m1 [of "length m + 1" "fst ` set m" k] card_image_le [of "set m" fst] card_length [of m] by simp
    then show ?thesis by (meson Diff_subset card_mono finite.insertI finite_imageI finite_set le_trans)
  qed
  then show ?thesis
    using ok v set_map_insert [of _ _ k v m] map_insert_sorted [of m k v]
    unfolding hits_ok_def keys_map_insert by blast
qed

lemma hits_ok_callers: "hits_ok m \<Longrightarrow> map_of m k = Some e \<Longrightarrow> length (ht_callers e) \<le> max_callers \<and> distinct (ht_callers e)"
  unfolding hits_ok_def by (meson map_of_SomeD)

lemma hit_count_ok:
  assumes "saved_ok (bo_saved b)"
  shows "saved_ok (bo_saved (snd (hit_count now wall k p b)))"
    and "total_hits (sv_hits (bo_saved (snd (hit_count now wall k p b)))) = total_hits (sv_hits (bo_saved b)) + 1"
proof -
  let ?m = "sv_hits (bo_saved b)" and ?k = "hit_key k b"
  define e where "e = (case map_of ?m ?k of Some e \<Rightarrow> e | None \<Rightarrow> no_hit)"
  define e' where "e' = (if ht_count e = 0 then e\<lparr>ht_first := wall\<rparr> else e)\<lparr>ht_count := ht_count e + 1, ht_last := wall\<rparr>"
  have r: "sv_hits (bo_saved (snd (hit_count now wall k p b))) = map_insert ?k e' ?m"
    by (simp add: hit_count_def Let_def e_def e'_def split: if_splits)
  have "length (ht_callers e') \<le> max_callers \<and> distinct (ht_callers e')"
    using hits_ok_callers [OF assms] by (auto simp: e_def e'_def no_hit_def split: option.splits)
  then show "saved_ok (bo_saved (snd (hit_count now wall k p b)))"
    unfolding r by (intro hits_ok_insert [OF assms]) (auto simp: hit_key_def)
  have "ht_count e' = ht_count e + 1" by (simp add: e'_def)
  then show "total_hits (sv_hits (bo_saved (snd (hit_count now wall k p b)))) = total_hits ?m + 1"
    unfolding r using total_hits_insert [of ?m ?k e'] assms by (auto simp: hits_ok_def e_def no_hit_def split: option.splits)
qed

lemma hit_caller_ok:
  assumes "saved_ok (bo_saved b)"
  shows "saved_ok (bo_saved (hit_caller k who b))"
    and "total_hits (sv_hits (bo_saved (hit_caller k who b))) = total_hits (sv_hits (bo_saved b))"
proof -
  show "saved_ok (bo_saved (hit_caller k who b))"
    using assms hits_ok_callers [OF assms, of k]
    by (auto simp: hit_caller_def max_callers_def split: option.splits intro!: hits_ok_insert distinct_take dest!: in_set_takeD)
  show "total_hits (sv_hits (bo_saved (hit_caller k who b))) = total_hits (sv_hits (bo_saved b))"
    using assms total_hits_insert [of "sv_hits (bo_saved b)" k] by (auto simp: hit_caller_def hits_ok_def split: option.splits)
qed

lemma flush_begin_frame: "flush_begin now force b = (r, b') \<Longrightarrow> bo_saved b' = bo_saved b \<and> (\<forall>v. r = Some v \<longrightarrow> v = bo_saved b)"
  by (auto simp: flush_begin_def split: if_splits)

lemma hit_exec_ok:
  assumes "world_ok w"
  shows "world_ok (hit_exec s w)"
    and "(case s of Reopen _ \<Rightarrow> True | _ \<Rightarrow>
      total_hits (sv_hits (bo_saved (hw_book (hit_exec s w)))) = total_hits (sv_hits (bo_saved (hw_book w))) + of_nat (hits_in [s]))"
proof -
  show "world_ok (hit_exec s w)"
  proof (cases s)
    case (Reopen wall)
    then show ?thesis using assms by (auto simp: world_ok_def book_open_def Let_def hits_ok_def split: option.splits)
  next
    case (FlushBegin now force)
    then show ?thesis
      using assms by (auto simp: world_ok_def split: prod.splits option.splits dest!: flush_begin_frame)
  next
    case (FlushEnd i stored)
    then show ?thesis
      using assms by (auto simp: world_ok_def flush_failed_def Let_def list_all_iff dest: in_set_takeD in_set_dropD)
  qed (use assms hit_count_ok hit_caller_ok in \<open>auto simp: world_ok_def\<close>)
  show "(case s of Reopen _ \<Rightarrow> True | _ \<Rightarrow>
      total_hits (sv_hits (bo_saved (hw_book (hit_exec s w)))) = total_hits (sv_hits (bo_saved (hw_book w))) + of_nat (hits_in [s]))"
    using assms hit_count_ok(2) hit_caller_ok(2)
    by (auto simp: world_ok_def hits_in_def flush_failed_def Let_def split: hit_step.splits prod.splits option.splits
        dest!: flush_begin_frame)
qed

text \<open>
  The count of the old interfaces is complete and small: whatever the order of the sections, the flushes and the
  restarts, the book and the file hold at most 257 keys with at most four different callers each, and while the process
  runs the total grows by one with every request.
\<close>

theorem hits_complete_and_bounded:
  assumes "world_ok w" "w' = fold hit_exec ss w"
  shows "world_ok w' \<and> length (sv_hits (bo_saved (hw_book w'))) \<le> 257 \<and>
    (restarts_in ss \<or>
      total_hits (sv_hits (bo_saved (hw_book w'))) = total_hits (sv_hits (bo_saved (hw_book w))) + of_nat (hits_in ss))"
proof -
  have run: "world_ok (fold hit_exec ss w) \<and> (restarts_in ss \<or> total_hits (sv_hits (bo_saved (hw_book (fold hit_exec ss w))))
      = total_hits (sv_hits (bo_saved (hw_book w))) + of_nat (hits_in ss))"
    using assms(1)
  proof (induction ss arbitrary: w)
    case (Cons s ss)
    show ?case
      using Cons.IH [OF hit_exec_ok(1) [OF Cons.prems, of s]] hit_exec_ok(2) [OF Cons.prems, of s]
      by (cases s) (auto simp: restarts_in_def hits_in_def add.commute)
  qed (simp add: hits_in_def)
  let ?m = "sv_hits (bo_saved (hw_book w'))"
  have ok: "hits_ok ?m" using run assms(2) by (simp add: world_ok_def)
  have "card (fst ` set ?m) \<le> card (fst ` set ?m - {''control:(other)''}) + 1"
    by (simp add: card_Diff_singleton_if) linarith
  moreover have "card (fst ` set ?m) = length ?m"
    using ok by (simp add: hits_ok_def strict_sorted_iff card_image distinct_map distinct_card flip: distinct_card [of "map fst ?m"])
  ultimately have "length ?m \<le> 257" using ok by (simp add: hits_ok_def max_keys_def)
  then show ?thesis using run assms(2) by blast
qed

end
