(* ===== verification/Screen.thy ===== *)
theory Screen
  imports Op_Words Cell_Window Qos
begin

text \<open>
  What the home page and the status bar show, \<^verbatim>\<open>rust/src/project/screen.rs\<close>: the state object is read the way the
  screen's C code read it (texts cut to the size of its buffers, numbers by their prefix), the carriers are listed, one
  verdict is chosen, and the write layer's line is laid over it. Everything is a pure function of the state, the packet
  window and the line of the write layer.

  Texts are UTF-8 byte strings. The operations on \<open>f64\<close> are a parameter (\<open>screen_floats\<close>), as is the text
  \<open>serde_json\<close> prints for a value (\<open>ser\<close>). The source takes a cut prefix through \<open>from_utf8_lossy\<close> before it looks
  for ASCII words in it; that changes only bytes outside ASCII, so the model looks at the bytes. An \<open>i64\<close> is an \<open>int\<close>.
\<close>

section \<open>Reading scalars\<close>

record 'f screen_floats =
  sf_parse :: "string \<Rightarrow> 'f option"
  sf_int :: "int \<Rightarrow> 'f"
  sf_add_half :: "'f \<Rightarrow> 'f" \<comment> \<open>\<open>x + 0.5\<close>\<close>
  sf_less :: "'f \<Rightarrow> 'f \<Rightarrow> bool"
  sf_le :: "'f \<Rightarrow> 'f \<Rightarrow> bool"
  sf_eq :: "'f \<Rightarrow> 'f \<Rightarrow> bool"
  sf_trunc :: "'f \<Rightarrow> int" \<comment> \<open>\<open>x.trunc() as i64\<close>\<close>
  sf_fmt0 :: "'f \<Rightarrow> string"
  sf_fmt1 :: "'f \<Rightarrow> string"

definition raw_text :: "(json \<Rightarrow> string) \<Rightarrow> json \<Rightarrow> string \<Rightarrow> string option" where
  "raw_text ser obj k = (case jget k obj of None \<Rightarrow> None | Some (JString s) \<Rightarrow> Some s | Some v \<Rightarrow> Some (ser v))"

definition cstr :: "string \<Rightarrow> nat \<Rightarrow> string" where
  "cstr s cap = (if length s > cap - 1 then take (floor_boundary s (cap - 1)) s else s)"

definition getstr :: "(json \<Rightarrow> string) \<Rightarrow> json \<Rightarrow> string \<Rightarrow> nat \<Rightarrow> string" where
  "getstr ser obj k cap = cstr (case raw_text ser obj k of Some s \<Rightarrow> s | None \<Rightarrow> []) cap"

definition max_i64 :: int where "max_i64 = 2 ^ 63 - 1"

definition push_decimal :: "int \<Rightarrow> char \<Rightarrow> int" where
  "push_decimal v c = min max_i64 (min max_i64 (v * 10) + (int (of_char c) - 48))"

definition strtol :: "string \<Rightarrow> int option" where
  "strtol s =
     (let s = dropWhile ws_char s;
          neg = (s \<noteq> [] \<and> hd s = CHR ''-'');
          s = (if s \<noteq> [] \<and> (hd s = CHR ''+'' \<or> hd s = CHR ''-'') then tl s else s);
          ds = takeWhile is_digit s;
          v = foldl push_decimal 0 ds
      in if ds = [] then None else Some (if neg then - v else v))"

definition atoi :: "string \<Rightarrow> int" where
  "atoi s = (case strtol s of Some v \<Rightarrow> v | None \<Rightarrow> 0)"

definition as_i32 :: "int \<Rightarrow> int" where
  "as_i32 v = (v + 2 ^ 31) mod 2 ^ 32 - 2 ^ 31"

definition atoi_after_first_byte :: "string \<Rightarrow> int" where
  "atoi_after_first_byte s = (if s = [] then 0 else as_i32 (atoi (tl s)))"

definition take_sign :: "string \<Rightarrow> string \<times> string" where
  "take_sign s = (if s \<noteq> [] \<and> (hd s = CHR ''+'' \<or> hd s = CHR ''-'') then ([hd s], tl s) else ([], s))"

definition take_digits :: "string \<Rightarrow> string \<times> string" where
  "take_digits s = (takeWhile is_digit s, dropWhile is_digit s)"

text \<open>\<open>strtod\<close>: the value of the longest number at the front and the bytes it takes, with the space before it.\<close>

definition strtod :: "'f screen_floats \<Rightarrow> string \<Rightarrow> 'f \<times> nat" where
  "strtod fl s =
     (let space = takeWhile ws_char s; s = dropWhile ws_char s;
          (sgn, s) = take_sign s;
          (whole, s) = take_digits s;
          (dot, part, s) = (if s \<noteq> [] \<and> hd s = CHR ''.'' then (''.'', take_digits (tl s)) else ([], [], s));
          (e, s) = (if s \<noteq> [] \<and> (hd s = CHR ''e'' \<or> hd s = CHR ''E'')
             then (let (es, t) = take_sign (tl s); (ed, t) = take_digits t
                   in if ed = [] then ([], s) else (hd s # es @ ed, t))
             else ([], s));
          number_text = sgn @ whole @ dot @ part @ e
      in if whole = [] \<and> part = [] then (sf_int fl 0, 0)
         else (case sf_parse fl number_text of Some v \<Rightarrow> v | None \<Rightarrow> sf_int fl 0, length space + length number_text))"

definition atof :: "'f screen_floats \<Rightarrow> string \<Rightarrow> 'f" where
  "atof fl s = fst (strtod fl s)"

definition get_int :: "(json \<Rightarrow> string) \<Rightarrow> json \<Rightarrow> string \<Rightarrow> int \<Rightarrow> int" where
  "get_int ser obj k def = (case Option.bind (raw_text ser obj k) strtol of Some v \<Rightarrow> v | None \<Rightarrow> def)"

fun scan_floats :: "'f screen_floats \<Rightarrow> string \<Rightarrow> nat \<Rightarrow> 'f list" where
  "scan_floats fl rest 0 = []"
| "scan_floats fl rest (Suc n) =
     (case strtod fl rest of
        (v, used) \<Rightarrow>
          if used = 0 then []
          else v # (if n = 0 then []
                    else case drop used rest of
                           c # r \<Rightarrow> if c = CHR '','' then scan_floats fl r n else []
                         | [] \<Rightarrow> []))"

definition upper_prefix :: "string \<Rightarrow> nat \<Rightarrow> string" where
  "upper_prefix s n = to_ascii_uppercase (take n s)"

section \<open>The part of the state that is read\<close>

record 'f screen_data =
  sd_net_type :: string
  sd_operator_name :: string
  sd_operator_name_en :: string
  sd_roaming :: string
  sd_band :: string
  sd_nr_band :: string
  sd_nr_snr :: string
  sd_wan_status :: string
  sd_lte_snr :: string
  sd_bandwidth :: string
  sd_operate_mode :: string
  sd_lte_pci :: int
  sd_channel :: int
  sd_nr_bw :: string
  sd_nrca :: string
  sd_lteca :: string
  sd_net_select :: string
  sd_bars :: int
  sd_nr_rsrp :: int
  sd_nr_rsrq :: int
  sd_lte_rsrp :: int
  sd_lte_rsrq :: int
  sd_mcc :: int
  sd_mnc :: int
  sd_nr_pci :: int
  sd_nr_channel :: int
  sd_sim_state :: string
  sd_sim_imsi :: string
  sd_sim_spn :: string
  sd_ambr_dl :: 'f
  sd_rx_speed :: int
  sd_cell_data :: int
  sd_cell_roam :: int
  sd_hot :: bool

definition china_mobile :: words where "china_mobile = ((utf8 [0x4E2D, 0x56FD, 0x79FB, 0x52A8]), ''China Mobile'')"
definition china_unicom :: words where "china_unicom = ((utf8 [0x4E2D, 0x56FD, 0x8054, 0x901A]), ''China Unicom'')"
definition china_telecom :: words where "china_telecom = ((utf8 [0x4E2D, 0x56FD, 0x7535, 0x4FE1]), ''China Telecom'')"
definition china_broadnet :: words where "china_broadnet = ((utf8 [0x4E2D, 0x56FD, 0x5E7F, 0x7535]), ''China Broadnet'')"

definition mainland_operator :: "int \<Rightarrow> int \<Rightarrow> string \<Rightarrow> words option" where
  "mainland_operator mcc mnc name =
     (if mcc = 460 \<and> mnc \<in> {0, 2, 4, 7, 8} then Some china_mobile
      else if mcc = 460 \<and> mnc \<in> {1, 6, 9} then Some china_unicom
      else if mcc = 460 \<and> mnc \<in> {3, 5, 11} then Some china_telecom
      else if mcc = 460 \<and> mnc = 15 then Some china_broadnet
      else if name = ''China Mobile'' \<or> name = ''CMCC'' then Some china_mobile
      else if name = ''China Unicom'' \<or> name = ''CUCC'' then Some china_unicom
      else if name = ''China Telecom'' \<or> name = ''CTCC'' then Some china_telecom
      else if name = ''China Broadnet'' \<or> name = ''China Broadcasting Network'' then Some china_broadnet
      else None)"

definition no_data :: "'f screen_floats \<Rightarrow> 'f screen_data" where
  "no_data fl = \<lparr>sd_net_type = [], sd_operator_name = [], sd_operator_name_en = [], sd_roaming = [], sd_band = [],
     sd_nr_band = [], sd_nr_snr = [], sd_wan_status = [], sd_lte_snr = [], sd_bandwidth = [], sd_operate_mode = [],
     sd_lte_pci = 0, sd_channel = 0, sd_nr_bw = [], sd_nrca = [], sd_lteca = [], sd_net_select = [], sd_bars = 0,
     sd_nr_rsrp = 0, sd_nr_rsrq = 0, sd_lte_rsrp = 0, sd_lte_rsrq = 0, sd_mcc = 0, sd_mnc = 0, sd_nr_pci = 0,
     sd_nr_channel = 0, sd_sim_state = [], sd_sim_imsi = [], sd_sim_spn = [], sd_ambr_dl = sf_int fl 0, sd_rx_speed = 0,
     sd_cell_data = - 1, sd_cell_roam = - 1, sd_hot = False\<rparr>"

definition parse_net :: "(json \<Rightarrow> string) \<Rightarrow> json \<Rightarrow> 'f screen_data \<Rightarrow> 'f screen_data" where
  "parse_net ser net d =
     (let name = getstr ser net ''operator'' 48; mcc = as_i32 (get_int ser net ''mcc'' 0); mnc = as_i32 (get_int ser net ''mnc'' 0);
          channel = get_int ser net ''channel'' 0;
          (op_name, op_en) = (case mainland_operator mcc mnc name of
             Some (cn, en) \<Rightarrow> (cstr cn 48, cstr en 48) | None \<Rightarrow> (name, name))
      in d\<lparr>sd_net_type := getstr ser net ''type'' 16, sd_operator_name := op_name, sd_operator_name_en := op_en,
           sd_roaming := getstr ser net ''roaming'' 16, sd_band := getstr ser net ''band'' 16,
           sd_nr_band := getstr ser net ''nr_band'' 16, sd_nr_snr := getstr ser net ''nr_snr'' 12,
           sd_wan_status := getstr ser net ''wan_status'' 32, sd_lte_snr := getstr ser net ''lte_snr'' 12,
           sd_bandwidth := getstr ser net ''bandwidth'' 12, sd_operate_mode := getstr ser net ''operate_mode'' 16,
           sd_lte_pci := as_i32 (get_int ser net ''lte_pci'' 0),
           sd_channel := (if channel = 0 then get_int ser net ''lte_channel'' 0 else channel),
           sd_nr_bw := getstr ser net ''nr_bw'' 12, sd_nrca := getstr ser net ''nrca'' 256,
           sd_lteca := getstr ser net ''lteca'' 256, sd_net_select := getstr ser net ''net_select'' 16,
           sd_bars := as_i32 (get_int ser net ''bars'' 0), sd_nr_rsrp := as_i32 (get_int ser net ''nr_rsrp'' 0),
           sd_nr_rsrq := as_i32 (get_int ser net ''nr_rsrq'' 0), sd_lte_rsrp := as_i32 (get_int ser net ''lte_rsrp'' 0),
           sd_lte_rsrq := as_i32 (get_int ser net ''lte_rsrq'' 0), sd_mcc := mcc, sd_mnc := mnc,
           sd_nr_pci := as_i32 (get_int ser net ''nr_pci'' 0), sd_nr_channel := get_int ser net ''nr_channel'' 0\<rparr>)"

definition switch_int :: "int \<Rightarrow> int" where
  "switch_int v = (if v = 0 \<or> v = 1 then v else - 1)"

definition parse_cellular :: "(json \<Rightarrow> string) \<Rightarrow> json \<Rightarrow> 'f screen_data \<Rightarrow> 'f screen_data" where
  "parse_cellular ser cell d = d\<lparr>sd_cell_data := switch_int (get_int ser cell ''enable'' (- 1)),
     sd_cell_roam := switch_int (get_int ser cell ''roam_enable'' (- 1))\<rparr>"

definition parse_qos :: "'f screen_floats \<Rightarrow> (json \<Rightarrow> string) \<Rightarrow> json \<Rightarrow> 'f screen_data \<Rightarrow> 'f screen_data" where
  "parse_qos fl ser q d = d\<lparr>sd_ambr_dl :=
     (if Option.bind (jget ''stale'' q) as_bool = Some True then sf_int fl 0
      else case raw_text ser q ''ambr_dl'' of Some s \<Rightarrow> atof fl (cstr s 32) | None \<Rightarrow> sf_int fl 0)\<rparr>"

definition parse_sim :: "(json \<Rightarrow> string) \<Rightarrow> json \<Rightarrow> 'f screen_data \<Rightarrow> 'f screen_data" where
  "parse_sim ser sm d = d\<lparr>sd_sim_state := getstr ser sm ''state'' 24, sd_sim_imsi := getstr ser sm ''imsi'' 20,
     sd_sim_spn := getstr ser sm ''spn'' 32\<rparr>"

definition with_part :: "json option \<Rightarrow> (json \<Rightarrow> 'd \<Rightarrow> 'd) \<Rightarrow> 'd \<Rightarrow> 'd" where
  "with_part part f d = (case part of Some v \<Rightarrow> f v d | None \<Rightarrow> d)"

definition parse_state :: "'f screen_floats \<Rightarrow> (json \<Rightarrow> string) \<Rightarrow> json \<Rightarrow> 'f screen_data" where
  "parse_state fl ser state =
     (let d = with_part (jget ''net'' state) (parse_net ser) (no_data fl);
          d = with_part (Option.bind (jget ''interfaces'' state) (jget ''cellular'')) (parse_cellular ser) d;
          d = with_part (jget ''traffic'' state) (\<lambda>t d. d\<lparr>sd_rx_speed := get_int ser t ''rx_speed'' 0\<rparr>) d;
          d = with_part (jget ''qos'' state) (parse_qos fl ser) d;
          d = d\<lparr>sd_hot := (Option.bind (Option.bind (jget ''thermal'' state) (jget ''hightemp_limit'')) as_i64 = Some 1)\<rparr>
      in with_part (jget ''sim'' state) (parse_sim ser) d)"

section \<open>Radio technologies and bands\<close>

datatype rat = RatNone | G2 | G3 | G4 | Nsa | Sa

abbreviation has_word :: "string \<Rightarrow> string \<Rightarrow> bool" where "has_word \<equiv> str_contains"

definition has_ci :: "string \<Rightarrow> string \<Rightarrow> bool" where
  "has_ci s w = has_word (upper_prefix s 47) w"

definition has_any :: "string \<Rightarrow> string list \<Rightarrow> bool" where
  "has_any s ws = list_ex (has_word s) ws"

definition has5a :: "string \<Rightarrow> bool" where
  "has5a s \<longleftrightarrow> has_ci s ''5G-A'' \<or> has_ci s ''5GA'' \<or> has_ci s ''5G_A'' \<or> has_ci s ''5G-ADV''"

definition rat_of :: "string \<Rightarrow> rat" where
  "rat_of s =
     (let u = upper_prefix s 31 in
      if s = [] then RatNone
      else if has_any u [''LIMIT'', ''EMERGENCY'', ''NO_SERVICE'', ''NOSERVICE''] then RatNone
      else if has_any u [''NSA'', ''ENDC'', ''EN-DC''] then Nsa
      else if u = ''SA'' \<or> u = ''NR'' \<or> has_any u [''5G'', ''NR5G''] \<or> starts_with u ''SA_'' \<or> starts_with u ''NR_''
           \<or> has_any u [''_SA'', '' SA''] then Sa
      else if has_any u [''LTE'', ''4G''] then G4
      else if has_any u [''WCDMA'', ''UMTS'', ''HSPA'', ''HSDPA'', ''HSUPA'', ''TD-SCDMA'', ''TDSCDMA'', ''CDMA2000'', ''EVDO'',
             ''EV-DO'', ''EHRPD'', ''HRPD'', ''3G''] then G3
      else if has_any u [''GSM'', ''GPRS'', ''EDGE'', ''2G'', ''CDMA'', ''1XRTT'', ''1X''] then G2
      else RatNone)"

definition data_core :: "string \<Rightarrow> bearer_core" where
  "data_core s = (case rat_of s of Sa \<Rightarrow> CoreNr | Nsa \<Rightarrow> CoreEps | G4 \<Rightarrow> CoreEps | _ \<Rightarrow> CoreUnknown)"

definition is_nr :: "rat \<Rightarrow> bool" where "is_nr r \<longleftrightarrow> r = Sa \<or> r = Nsa"

definition rat_family :: "string \<Rightarrow> string" where
  "rat_family s =
     (if s = [] then []
      else if has_ci s ''LTE'' \<or> has_ci s ''4G'' then ''LTE''
      else if is_nr (rat_of s) then ''NR''
      else if has_ci s ''TD-SCDMA'' \<or> has_ci s ''TDSCDMA'' then ''TD-SCDMA''
      else if has_ci s ''CDMA2000'' \<or> has_ci s ''EVDO'' \<or> has_ci s ''EV-DO'' \<or> has_ci s ''HRPD'' then ''CDMA2000''
      else if has_ci s ''HSPA+'' \<or> has_ci s ''DC-HSPA'' \<or> has_ci s ''HSPAP'' then ''HSPA+''
      else if has_ci s ''HSPA'' \<or> has_ci s ''HSDPA'' \<or> has_ci s ''HSUPA'' then ''HSPA''
      else if has_ci s ''WCDMA'' \<or> has_ci s ''UMTS'' then ''WCDMA''
      else if has_ci s ''EDGE'' then ''EDGE''
      else if has_ci s ''GPRS'' then ''GPRS''
      else if has_ci s ''GSM'' then ''GSM''
      else if has_ci s ''CDMA'' \<or> has_ci s ''1X'' then ''CDMA 1X''
      else [])"

definition rat_long :: "string \<Rightarrow> int \<Rightarrow> words" where
  "rat_long s lte_active =
     (let fam = rat_family s; sp = (if fam = [] then [] else '' '');
          both = (\<lambda>t. (cstr t 32, cstr t 32))
      in case rat_of s of
           Sa \<Rightarrow> both ''5G SA''
         | Nsa \<Rightarrow> (cstr (''5G NSA '' @ utf8 [0xB7] @ '' 4G '' @ utf8 [0x951A, 0x70B9]) 32, cstr (''5G NSA '' @ utf8 [0xB7] @ '' 4G anchor'') 32)
         | G4 \<Rightarrow> both (if lte_active \<ge> 2 then ''4G LTE-A'' else ''4G LTE'')
         | G3 \<Rightarrow> both (''3G'' @ sp @ fam)
         | G2 \<Rightarrow> both (''2G'' @ sp @ fam)
         | RatNone \<Rightarrow> both [])"

text \<open>The text from the last run of digits on, if there is one.\<close>

fun last_run :: "bool \<Rightarrow> string \<Rightarrow> string option \<Rightarrow> string option" where
  "last_run prev [] acc = acc"
| "last_run prev (c # s) acc = last_run (is_digit c) s (if is_digit c \<and> \<not> prev then Some (c # s) else acc)"

definition band_short :: "string \<Rightarrow> bool \<Rightarrow> string" where
  "band_short s nr =
     (if s = [] then ''-''
      else case last_run False s None of
             Some r \<Rightarrow> if atoi r < 450 then (if nr then ''n'' else ''B'') @ int_digits (atoi r) else cstr s 16
           | None \<Rightarrow> cstr s 16)"

definition bars_tier :: "int \<Rightarrow> int" where
  "bars_tier bars = (if bars \<le> 0 then - 1 else if bars \<ge> 4 then 2 else if bars = 3 then 1 else 0)"

definition mnc3 :: "int list" where
  "mnc3 = [302, 310, 311, 312, 313, 314, 315, 316, 334, 338, 342, 344, 346, 348, 354, 356, 358, 360, 365, 376, 405, 708, 722, 732]"

definition imsi_plmn :: "string \<Rightarrow> (int \<times> int) option" where
  "imsi_plmn s =
     (if length s < 6 \<or> \<not> list_all is_digit (take 6 s) then None
      else let dg = (\<lambda>i. int (of_char (s ! i)) - 48);
               c = dg 0 * 100 + dg 1 * 10 + dg 2;
               n = dg 3 * 10 + dg 4;
               n = (if c \<in> set mnc3 then n * 10 + dg 5 else n)
           in if c < 200 then None else Some (c, n))"

definition operator_logos :: "(int \<times> int \<times> string) list" where
  "operator_logos = [
     (460, 0, ''china-mobile''), (460, 2, ''china-mobile''), (460, 4, ''china-mobile''), (460, 7, ''china-mobile''),
     (460, 8, ''china-mobile''), (460, 1, ''china-unicom''), (460, 6, ''china-unicom''), (460, 9, ''china-unicom''),
     (460, 3, ''china-telecom''), (460, 5, ''china-telecom''), (460, 11, ''china-telecom''), (454, 0, ''csl''),
     (454, 2, ''csl''), (454, 10, ''csl''), (454, 18, ''csl''), (454, 3, ''three-hk''), (454, 4, ''three-hk''),
     (454, 6, ''smartone''), (454, 15, ''smartone''), (454, 12, ''cmhk''), (454, 13, ''cmhk''), (454, 7, ''china-unicom''),
     (454, 16, ''csl''), (454, 19, ''csl''), (454, 20, ''csl''), (454, 31, ''china-telecom''), (455, 5, ''three-hk''),
     (455, 7, ''china-telecom''), (455, 1, ''ctm''), (455, 4, ''ctm''), (466, 92, ''chunghwa''), (466, 1, ''fetnet''),
     (466, 97, ''taiwan-mobile''), (440, 10, ''docomo''), (440, 20, ''softbank''), (440, 11, ''rakuten''), (440, 50, ''au''),
     (440, 51, ''au''), (440, 52, ''au''), (440, 53, ''au''), (440, 54, ''au''), (450, 5, ''skt''), (450, 8, ''kt''),
     (450, 6, ''lguplus''), (525, 1, ''singtel''), (525, 3, ''m1''), (525, 5, ''starhub''), (310, 260, ''t-mobile-us''),
     (310, 410, ''att''), (311, 480, ''verizon'')]"

definition operator_logo :: "int \<Rightarrow> int \<Rightarrow> string option" where
  "operator_logo mcc mnc = map_option (snd \<circ> snd) (find (\<lambda>k. fst k = mcc \<and> fst (snd k) = mnc) operator_logos)"

definition sim_logo :: "int \<Rightarrow> int \<Rightarrow> string \<Rightarrow> string option" where
  "sim_logo mcc mnc spn =
     (if has_word (to_ascii_lowercase (take 31 spn)) ''cmlink'' then Some ''cmlink'' else operator_logo mcc mnc)"

definition pinned_mode :: "string \<Rightarrow> string option" where
  "pinned_mode sel =
     (if sel = [] \<or> \<not> has_ci sel ''ONLY'' then None
      else if sel = ''Only_GSM_WCDMA'' then Some (utf8 [0x53EA, 0x7528] @ '' 3G '' @ utf8 [0x548C] @ '' 2G'')
      else if has_ci sel ''GSM'' \<or> has_ci sel ''2G'' then Some (utf8 [0x53EA, 0x7528] @ '' 2G'')
      else if has_ci sel ''WCDMA'' \<or> has_ci sel ''3G'' \<or> has_ci sel ''TD'' then Some (utf8 [0x53EA, 0x7528] @ '' 3G'')
      else if has_ci sel ''LTE'' \<or> has_ci sel ''4G'' then Some (utf8 [0x53EA, 0x7528] @ '' 4G'')
      else if has_ci sel ''5G'' \<or> has_ci sel ''NR'' then Some (utf8 [0x53EA, 0x7528] @ '' 5G'')
      else Some (utf8 [0x9650, 0x5B9A, 0x4E86, 0x5236, 0x5F0F]))"

definition net_select_is_auto :: "string \<Rightarrow> bool" where
  "net_select_is_auto sel \<longleftrightarrow> sel = ''WL_AND_5G'' \<or> sel = ''TCHGWL_5G'' \<or> sel = ''NETWORK_auto''"

section \<open>Carriers\<close>

datatype tone = ToneOk | ToneWarn | ToneBad | ToneNeutral

definition ca_max :: nat where "ca_max = 5"

record 'f carrier =
  cr_kind :: string
  cr_band :: int
  cr_pci :: int
  cr_bw :: int
  cr_active :: bool
  cr_arfcn :: int
  cr_rsrp :: string
  cr_rsrq :: string
  cr_sinr :: string
  cr_label :: string
  cr_label_short :: string
  cr_sinr_tone :: tone
  cr_rsrp_v :: 'f
  cr_rsrq_v :: 'f
  cr_sinr_v :: 'f

definition plain_carrier :: "string \<Rightarrow> int \<Rightarrow> int \<Rightarrow> int \<Rightarrow> bool \<Rightarrow> int \<Rightarrow> 'f \<Rightarrow> 'f \<Rightarrow> 'f \<Rightarrow> 'f carrier" where
  "plain_carrier kind band pci bw act arfcn rsrp rsrq sinr =
     \<lparr>cr_kind = kind, cr_band = band, cr_pci = pci, cr_bw = bw, cr_active = act, cr_arfcn = arfcn, cr_rsrp = [], cr_rsrq = [],
      cr_sinr = [], cr_label = [], cr_label_short = [], cr_sinr_tone = ToneOk, cr_rsrp_v = rsrp, cr_rsrq_v = rsrq,
      cr_sinr_v = sinr\<rparr>"

definition ca_record :: "'f screen_floats \<Rightarrow> string \<Rightarrow> string \<Rightarrow> 'f carrier option" where
  "ca_record fl kind text =
     (let f = scan_floats fl text 11; i32 = (\<lambda>x. as_i32 (sf_trunc fl x)); zero = sf_int fl 0
      in if length f = 5 then Some (plain_carrier kind (i32 (f ! 1)) (i32 (f ! 0)) (i32 (f ! 4)) True (sf_trunc fl (f ! 3)) zero zero zero)
         else if length f \<noteq> 11 then None
         else Some (plain_carrier kind (i32 (f ! 3)) (i32 (f ! 1)) (i32 (f ! 5)) (sf_less fl (sf_int fl (- 140)) (f ! 7))
            (sf_trunc fl (f ! 4)) (f ! 7) (f ! 8) (f ! 9)))"

definition parse_ca :: "'f screen_floats \<Rightarrow> string \<Rightarrow> nat \<Rightarrow> bool \<Rightarrow> 'f carrier list" where
  "parse_ca fl s limit nr =
     fold (\<lambda>text out. if length out \<ge> limit then out
             else case ca_record fl (if nr then ''nr'' else ''lte'') text of Some c \<Rightarrow> out @ [c] | None \<Rightarrow> out)
       (filter (\<lambda>r. r \<noteq> []) (split_char (CHR '';'') (cstr s 256))) []"

definition snr_value :: "'f screen_floats \<Rightarrow> string \<Rightarrow> 'f" where
  "snr_value fl s = atof fl (if s = [] then ''0'' else s)"

definition serving_nr :: "'f screen_floats \<Rightarrow> 'f screen_data \<Rightarrow> 'f carrier list" where
  "serving_nr fl d =
     (if is_nr (rat_of (sd_net_type d)) \<and> sd_nr_rsrp d \<noteq> 0 \<and>
         (sd_nr_band d \<noteq> [] \<or> atoi (sd_nr_bw d) > 0 \<or> sd_nr_channel d > 0)
      then [plain_carrier ''nr'' 0 (sd_nr_pci d) (as_i32 (atoi (sd_nr_bw d))) True (sd_nr_channel d)
              (sf_int fl (sd_nr_rsrp d)) (sf_int fl (sd_nr_rsrq d)) (snr_value fl (sd_nr_snr d))]
      else [])"

definition lte_reading :: "'f screen_floats \<Rightarrow> 'f screen_data \<Rightarrow> 'f carrier \<Rightarrow> 'f carrier" where
  "lte_reading fl d c =
     (if sf_eq fl (cr_rsrp_v c) (sf_int fl 0) \<and> cr_pci c = sd_lte_pci d \<and> sd_lte_rsrp d \<noteq> 0
      then c\<lparr>cr_rsrp_v := sf_int fl (sd_lte_rsrp d), cr_rsrq_v := sf_int fl (sd_lte_rsrq d), cr_sinr_v := snr_value fl (sd_lte_snr d)\<rparr>
      else c)"

definition lte_carriers :: "'f screen_floats \<Rightarrow> 'f screen_data \<Rightarrow> nat \<Rightarrow> 'f carrier list" where
  "lte_carriers fl d room =
     (let lte = map (lte_reading fl d) (parse_ca fl (sd_lteca d) room False)
      in lte @ (if lte = [] \<and> sd_lte_rsrp d \<noteq> 0 \<and> (rat_of (sd_net_type d) = G4 \<or> rat_of (sd_net_type d) = Nsa)
                then [plain_carrier ''lte'' (atoi_after_first_byte (band_short (sd_band d) False)) (sd_lte_pci d)
                        (as_i32 (atoi (sd_bandwidth d))) True (sd_channel d) (sf_int fl (sd_lte_rsrp d))
                        (sf_int fl (sd_lte_rsrq d)) (snr_value fl (sd_lte_snr d))]
                else []))"

definition found_carriers :: "'f screen_floats \<Rightarrow> 'f screen_data \<Rightarrow> 'f carrier list" where
  "found_carriers fl d =
     (let r = rat_of (sd_net_type d);
          ca = serving_nr fl d;
          ca = (if is_nr r then ca @ parse_ca fl (sd_nrca d) (ca_max - length ca) True else ca)
      in if length ca < ca_max \<and> r \<noteq> G3 \<and> r \<noteq> G2 then ca @ lte_carriers fl d (ca_max - length ca) else ca)"

definition sinr_tone :: "'f screen_floats \<Rightarrow> 'f \<Rightarrow> tone" where
  "sinr_tone fl x = (if sf_le fl (sf_int fl 13) x then ToneOk else if sf_le fl (sf_int fl 0) x then ToneWarn else ToneBad)"

definition carrier_labels :: "'f screen_data \<Rightarrow> 'f carrier \<Rightarrow> string \<times> string" where
  "carrier_labels d c =
     (let nr = (cr_kind c = ''nr''); l = cstr ((if nr then ''n'' else ''B'') @ int_digits (cr_band c)) 16
      in if cr_band c \<noteq> 0 then (l, l)
         else if nr then (cstr (if sd_nr_band d = [] then ''-'' else sd_nr_band d) 16, band_short (sd_nr_band d) True)
         else (band_short (sd_band d) False, band_short (sd_band d) False))"

definition shown_carrier :: "'f screen_floats \<Rightarrow> 'f screen_data \<Rightarrow> 'f carrier \<Rightarrow> 'f carrier" where
  "shown_carrier fl d c =
     c\<lparr>cr_label := fst (carrier_labels d c), cr_label_short := snd (carrier_labels d c), cr_rsrp := sf_fmt0 fl (cr_rsrp_v c),
       cr_rsrq := sf_fmt0 fl (cr_rsrq_v c), cr_sinr := sf_fmt1 fl (cr_sinr_v c), cr_sinr_tone := sinr_tone fl (cr_sinr_v c)\<rparr>"

record 'f carrier_view =
  cv_carriers :: "'f carrier list"
  cv_act_n :: int
  cv_act_bw :: int
  cv_act_nr :: int
  cv_act_lte :: int
  cv_nr_band0 :: int
  cv_nr_mhz :: int

definition nr_band_of :: "'f screen_data \<Rightarrow> 'f carrier \<Rightarrow> int" where
  "nr_band_of d c = (if cr_band c \<noteq> 0 then cr_band c else atoi_after_first_byte (band_short (sd_nr_band d) True))"

definition carriers :: "'f screen_floats \<Rightarrow> 'f screen_data \<Rightarrow> 'f carrier_view" where
  "carriers fl d =
     (let ca = map (shown_carrier fl d) (found_carriers fl d);
          act = filter cr_active ca; nr = filter (\<lambda>c. cr_kind c = ''nr'') act
      in \<lparr>cv_carriers = ca, cv_act_n = int (length act), cv_act_bw = sum_list (map cr_bw act),
          cv_act_nr = int (length nr), cv_act_lte = int (length (filter (\<lambda>c. cr_kind c \<noteq> ''nr'') act)),
          cv_nr_band0 = fold (\<lambda>c b. if b = 0 then nr_band_of d c else b) nr 0,
          cv_nr_mhz = sum_list (map cr_bw nr)\<rparr>)"

section \<open>The verdict\<close>

datatype cause = CauseNone | CauseLimit | CauseWeak | CauseNoise | CauseCrowd | CauseNarrow

datatype home_state = StOk | StNosim | StAirplane | StSos | StNosvc | StNodata | StStall | StLimit | StWeak | StNoise
  | StCrowd | StOnly2g | StOnly3g | StNarrow | StHot | StChanging | StRevertFail

datatype sw = SwUnknown | SwOn | SwOff

record 'f net_in =
  ni_sim_state :: string
  ni_airplane :: bool
  ni_net_type :: string
  ni_bars :: int
  ni_data_up :: bool
  ni_connected :: bool
  ni_win :: "cell_window option"
  ni_roaming :: int
  ni_n_active :: int
  ni_nr_active :: int
  ni_lte_active :: int
  ni_mhz :: int
  ni_sinr_valid :: bool
  ni_sinr :: 'f
  ni_rsrp_valid :: bool
  ni_rsrp :: int
  ni_rsrq_valid :: bool
  ni_rsrq :: int
  ni_mcc :: int
  ni_mnc :: int
  ni_nr_band :: int
  ni_nr_mhz :: int
  ni_rx_bps :: int
  ni_ambr_dl :: 'f
  ni_net_select :: string
  ni_data_sw :: sw
  ni_roam_sw :: sw
  ni_hot :: bool

record story =
  so_tone :: tone
  so_cause :: cause
  so_sig_tone :: tone
  so_noise_tone :: tone
  so_headline :: string
  so_hint :: string
  so_rat :: string
  so_link :: string
  so_sig :: string
  so_noise :: string
  so_load :: string
  so_limit :: string
  so_state :: home_state
  so_headline_en :: string
  so_hint_en :: string
  so_rat_en :: string
  so_link_en :: string
  so_sig_en :: string
  so_noise_en :: string
  so_load_en :: string
  so_limit_en :: string

definition is_ascii :: "string \<Rightarrow> bool" where
  "is_ascii s = list_all (\<lambda>c. of_char c < (128 :: nat)) s"

definition en_for :: "string \<Rightarrow> string \<Rightarrow> nat \<Rightarrow> string" where
  "en_for zh en cap = (if is_ascii zh then [] else cstr en cap)"

definition finish_en :: "story \<Rightarrow> story" where
  "finish_en sto = sto\<lparr>so_headline_en := en_for (so_headline sto) (so_headline_en sto) 32,
     so_hint_en := en_for (so_hint sto) (so_hint_en sto) 128, so_rat_en := en_for (so_rat sto) (so_rat_en sto) 32,
     so_link_en := en_for (so_link sto) (so_link_en sto) 96, so_sig_en := en_for (so_sig sto) (so_sig_en sto) 8,
     so_noise_en := en_for (so_noise sto) (so_noise_en sto) 8, so_load_en := en_for (so_load sto) (so_load_en sto) 12,
     so_limit_en := en_for (so_limit sto) (so_limit_en sto) 8\<rparr>"

definition net_label :: "string \<Rightarrow> string" where
  "net_label s = (case rat_of s of
     Sa \<Rightarrow> if has5a s then ''5G-A'' else ''5G'' | Nsa \<Rightarrow> if has5a s then ''5G-A'' else ''5G''
   | G4 \<Rightarrow> ''4G'' | G3 \<Rightarrow> ''3G'' | G2 \<Rightarrow> ''2G'' | RatNone \<Rightarrow> [])"

definition is_limited :: "'f net_in \<Rightarrow> bool" where
  "is_limited i \<longleftrightarrow> has_ci (ni_net_type i) ''LIMIT'' \<or> has_ci (ni_net_type i) ''EMERGENCY''"

definition nr_badge :: "'f net_in \<Rightarrow> string" where
  "nr_badge i =
     (let out = net_label (ni_net_type i); mcc = ni_mcc i; mnc = ni_mnc i; band = ni_nr_band i
      in if mcc = 460 then
           (if ni_nr_active i \<ge> 3 \<or> mnc \<in> {1, 3, 5, 6, 9, 11} \<and> ni_nr_active i \<ge> 2 \<and> ni_nr_mhz i \<ge> 200 then ''5G-A'' else out)
         else if mcc = 440 \<and> mnc = 10 then (if band = 78 \<or> band = 79 then ''5G+'' else out)
         else if mcc = 310 \<and> mnc = 260 then (if band = 41 then ''5G UC'' else out)
         else if mcc = 311 \<and> mnc = 480 then (if band = 77 \<or> band = 48 then ''5G UW'' else out)
         else if mcc = 310 \<and> mnc = 410 \<and> (band = 77 \<or> ni_mhz i \<ge> 50) then ''5G+''
         else out)"

definition net_badge :: "'f net_in \<Rightarrow> string" where
  "net_badge i =
     (let r = rat_of (ni_net_type i); mcc = ni_mcc i
      in if is_limited i then ''SOS''
         else if is_nr r then nr_badge i
         else if r = G4 then
           (if mcc = 440 \<and> ni_mnc i = 10 then ''4G+''
            else if ni_lte_active i \<ge> 2 \<and> (mcc = 466 \<or> mcc = 440 \<or> mcc = 460) then ''4G+''
            else if 310 \<le> mcc \<and> mcc \<le> 316 then ''LTE''
            else net_label (ni_net_type i))
         else net_label (ni_net_type i))"

definition sim_usable :: "string \<Rightarrow> bool" where
  "sim_usable st \<longleftrightarrow> st = [] \<or> has_word st ''ready''"

subsection \<open>The rows of the card\<close>

definition width_words :: "int \<Rightarrow> words" where
  "width_words mhz =
     (if mhz \<ge> 200 then ((utf8 [0x5E26, 0x5BBD, 0x5F88, 0x5BBD]), ''Very wide'') else if mhz \<ge> 100 then ((utf8 [0x5E26, 0x5BBD, 0x5145, 0x8DB3]), ''Wide'')
      else if mhz \<ge> 40 then ((utf8 [0x5E26, 0x5BBD, 0x4E00, 0x822C]), ''Fair'') else if mhz > 0 then ((utf8 [0x5E26, 0x5BBD, 0x504F, 0x7A84]), ''Narrow'') else ([], []))"

definition count_words :: "rat \<Rightarrow> int \<Rightarrow> words" where
  "count_words r n =
     (if r = Nsa then ((''4G '' @ utf8 [0x951A, 0x70B9] @ '' + 5G'' @ utf8 [0xFF0C]) @ int_digits n @ (utf8 [0x20, 0x6761, 0x8F7D, 0x6CE2]), ''4G anchor + 5G, '' @ int_digits n @ '' carrier'' @ (if n = 1 then [] else ''s''))
      else if n > 1 then (int_digits n @ (utf8 [0x20, 0x6761, 0x8F7D, 0x6CE2, 0x805A, 0x5408]), int_digits n @ ''-carrier CA'')
      else ((utf8 [0x5355, 0x8F7D, 0x6CE2]), ''Single carrier''))"

definition link_words :: "'f net_in \<Rightarrow> words" where
  "link_words i =
     (let r = rat_of (ni_net_type i); (w, w_en) = width_words (ni_mhz i); (n, n_en) = count_words r (ni_n_active i);
          sep = (if w = [] then [] else (utf8 [0x20, 0xB7, 0x20]))
      in if r = G2 \<or> r = G3 then ((utf8 [0x8FD9, 0x4E2A, 0x5236, 0x5F0F, 0x6CA1, 0x6709, 0x8F7D, 0x6CE2, 0x805A, 0x5408]), ''No CA on this network'')
         else if ni_n_active i > 0 then (cstr (cstr n 64 @ sep @ w) 96, cstr (cstr n_en 64 @ sep @ w_en) 96)
         else ([], []))"

definition tier_tone :: "int \<Rightarrow> tone" where
  "tier_tone t = (if t = 2 then ToneOk else if t = 1 then ToneWarn else ToneBad)"

definition sig_words :: "int \<Rightarrow> words" where
  "sig_words st = (if st = 2 then ((utf8 [0x5F3A]), ''Strong'') else if st = 1 then ((utf8 [0x4E2D]), ''Fair'') else if st = 0 then ((utf8 [0x5F31]), ''Weak'') else ([], []))"

definition noise_tier :: "'f screen_floats \<Rightarrow> 'f net_in \<Rightarrow> int" where
  "noise_tier fl i =
     (if ni_sinr_valid i
      then (if sf_le fl (sf_int fl 13) (ni_sinr i) then 2 else if sf_le fl (sf_int fl 0) (ni_sinr i) then 1 else 0)
      else - 1)"

definition noise_words :: "int \<Rightarrow> words" where
  "noise_words nq = (if nq = 2 then ((utf8 [0x5C0F]), ''low'') else if nq = 1 then ((utf8 [0x4E2D]), ''mid'') else if nq = 0 then ((utf8 [0x5927]), ''high'') else ([], []))"

definition load_judged :: "'f net_in \<Rightarrow> bool" where
  "load_judged i \<longleftrightarrow> ni_rx_bps i \<ge> 125000 \<and> bars_tier (ni_bars i) \<ge> 1 \<and> ni_rsrq_valid i"

definition is_crowded :: "'f net_in \<Rightarrow> bool" where
  "is_crowded i \<longleftrightarrow> load_judged i \<and> ni_rsrq i < (if is_nr (rat_of (ni_net_type i)) then - 15 else - 12)"

definition is_capped :: "'f screen_floats \<Rightarrow> 'f net_in \<Rightarrow> bool" where
  "is_capped fl i \<longleftrightarrow> sf_less fl (sf_int fl 0) (ni_ambr_dl i) \<and> sf_less fl (ni_ambr_dl i) (sf_int fl 10)"

definition is_narrow :: "'f net_in \<Rightarrow> bool" where
  "is_narrow i \<longleftrightarrow> ni_n_active i = 1 \<and> ni_mhz i > 0 \<and> ni_mhz i \<le> 20 \<and>
     (rat_of (ni_net_type i) = G4 \<or> is_nr (rat_of (ni_net_type i)))"

definition is_stalled :: "'f net_in \<Rightarrow> bool" where
  "is_stalled i \<longleftrightarrow> ni_connected i \<and> is_some_and (ni_win i) (\<lambda>w. cw_tx_packets w \<ge> 20 \<and> cw_rx_packets w = 0)"

definition card_rows :: "'f screen_floats \<Rightarrow> 'f net_in \<Rightarrow> story" where
  "card_rows fl i =
     (let badge = cstr (net_badge i) 32; (lk, lk_en) = link_words i; st = bars_tier (ni_bars i); nq = noise_tier fl i;
          (sg, sg_en) = sig_words st; (ns, ns_en) = noise_words nq;
          (ld, ld_en) = (if load_judged i then (if is_crowded i then ((utf8 [0x9AD8]), ''high'') else ((utf8 [0x6B63, 0x5E38]), ''normal'')) else ([], []));
          (lm, lm_en) = (if sf_le fl (ni_ambr_dl i) (sf_int fl 0) then ((utf8 [0x2014]), (utf8 [0x2014]))
             else if is_capped fl i then ((utf8 [0x6709]), ''capped'') else ((utf8 [0x65E0]), ''none''))
      in \<lparr>so_tone = ToneOk, so_cause = CauseNone, so_sig_tone = (if st \<ge> 0 then tier_tone st else ToneOk),
          so_noise_tone = (if nq \<ge> 0 then tier_tone nq else ToneOk), so_headline = [], so_hint = [], so_rat = badge,
          so_link = lk, so_sig = sg, so_noise = ns, so_load = ld, so_limit = lm, so_state = StOk, so_headline_en = [],
          so_hint_en = [], so_rat_en = badge, so_link_en = lk_en, so_sig_en = sg_en, so_noise_en = ns_en, so_load_en = ld_en,
          so_limit_en = lm_en\<rparr>)"

subsection \<open>The headline\<close>

record verdict =
  vd_state :: home_state
  vd_cause :: cause
  vd_tone :: tone
  vd_head :: words
  vd_hint :: words

definition mk_verdict :: "home_state \<Rightarrow> cause \<Rightarrow> tone \<Rightarrow> words \<Rightarrow> words \<Rightarrow> verdict" where
  "mk_verdict s c t hd_words hint = \<lparr>vd_state = s, vd_cause = c, vd_tone = t, vd_head = hd_words, vd_hint = hint\<rparr>"

definition say_verdict :: "story \<Rightarrow> verdict \<Rightarrow> story" where
  "say_verdict sto v = finish_en (sto\<lparr>so_state := vd_state v, so_cause := vd_cause v, so_tone := vd_tone v,
     so_headline := cstr (fst (vd_head v)) 32, so_headline_en := snd (vd_head v), so_hint := cstr (fst (vd_hint v)) 128,
     so_hint_en := snd (vd_hint v)\<rparr>)"

definition nodata_hint :: "'f net_in \<Rightarrow> words" where
  "nodata_hint i =
     (if ni_data_sw i = SwOff then ((utf8 [0x79FB, 0x52A8, 0x6570, 0x636E, 0x5173, 0x7740, 0xFF1A, 0x53BB, 0x300C, 0x8702, 0x7A9D, 0x300D, 0x6253, 0x5F00]), ''Turn on mobile data in Cellular'')
      else if ni_roaming i = 1 \<and> ni_roam_sw i = SwOff then
        ((utf8 [0x6570, 0x636E, 0x6F2B, 0x6E38, 0x5173, 0x7740, 0xFF1A, 0x53BB, 0x300C, 0x8702, 0x7A9D, 0x300D, 0x6253, 0x5F00, 0xFF0C, 0x5361, 0x4E5F, 0x8981, 0x5F00, 0x901A]), ''Turn on data roaming in Cellular; your plan must allow it too'')
      else if ni_roaming i = 1 \<and> ni_roam_sw i = SwOn then
        ((utf8 [0x6B63, 0x5728, 0x62E8, 0x53F7, 0xFF0C, 0x6362, 0x7F51, 0x540E, 0x8981, 0x534A, 0x5206, 0x949F, 0x5DE6, 0x53F3, 0xFF1B, 0x4E00, 0x76F4, 0x4E0D, 0x901A, 0x591A, 0x534A, 0x662F, 0x5361, 0x5728, 0x8FD9, 0x5BB6, 0x7F51, 0x7EDC, 0x6CA1, 0x5F00, 0x6F2B, 0x6E38]),
         ''Connecting, ~30 s after a network change; if stuck, your plan may not roam here'')
      else if ni_roaming i = 1 then
        ((utf8 [0x6570, 0x636E, 0x6CA1, 0x62E8, 0x4E0A, 0xFF1A, 0x770B, 0x300C, 0x8702, 0x7A9D, 0x300D, 0x91CC, 0x6570, 0x636E, 0x6F2B, 0x6E38, 0x5F00, 0x6CA1, 0x5F00, 0xFF0C, 0x5361, 0x4E5F, 0x8981, 0x5F00, 0x901A]), ''Check data roaming in Cellular; your plan must allow it too'')
      else ((utf8 [0x6570, 0x636E, 0x6CA1, 0x62E8, 0x4E0A, 0xFF1A, 0x67E5, 0x6D41, 0x91CF, 0x5F00, 0x5173, 0x3001] @ ''APN '' @ utf8 [0x6216, 0x6B20, 0x8D39]), ''Check mobile data, APN, or your balance''))"

definition roam_words :: "'f net_in \<Rightarrow> words" where
  "roam_words i = (if ni_roaming i = 1 then ((utf8 [0xFF1B, 0x6F2B, 0x6E38, 0x4E2D]), ''; roaming'') else ([], []))"

definition service_verdict :: "'f net_in \<Rightarrow> verdict option" where
  "service_verdict i =
     (let pinned = pinned_mode (ni_net_select i) \<noteq> None in
      if \<not> sim_usable (ni_sim_state i) then
        Some (mk_verdict StNosim CauseNone ToneBad ((utf8 [0x65E0] @ '' SIM''), ''No SIM'')
          ((utf8 [0x63D2, 0x5361, 0xFF0C, 0x6216, 0x5728, 0x300C, 0x8702, 0x7A9D, 0x20, 0x2192] @ '' SIM '' @ utf8 [0x4E0E] @ '' eSIM'' @ utf8 [0x300D, 0x542F, 0x7528]), ''Insert a SIM, or enable an eSIM profile in SIM & eSIM''))
      else if ni_airplane i then
        Some (mk_verdict StAirplane CauseNone ToneNeutral ((utf8 [0x79FB, 0x52A8, 0x7F51, 0x7EDC, 0x5DF2, 0x5173]), ''Airplane'')
          ((utf8 [0x98DE, 0x884C, 0x6A21, 0x5F0F, 0x5F00, 0x7740, 0xFF0C, 0x53BB, 0x7BA1, 0x7406, 0x7F51, 0x9875, 0x5173, 0x6389]), ''Turn off airplane mode in the web admin''))
      else if is_limited i then
        Some (mk_verdict StSos CauseNone ToneBad ((utf8 [0x53EA, 0x80FD, 0x7D27, 0x6025, 0x547C, 0x53EB]), ''SOS only'')
          (if ni_roaming i = 1
           then ((utf8 [0x6CA1, 0x6CE8, 0x518C, 0x4E0A, 0xFF1A, 0x5361, 0x8981, 0x5F00, 0x6F2B, 0x6E38, 0xFF0C, 0x6216, 0x6362, 0x5F53, 0x5730, 0x5361]), ''Ask your carrier to enable roaming, or use a local SIM'')
           else ((utf8 [0x6CA1, 0x6CE8, 0x518C, 0x4E0A, 0xFF1A, 0x6B20, 0x8D39, 0x3001, 0x505C, 0x673A, 0xFF0C, 0x6216, 0x8FD9, 0x91CC, 0x6CA1, 0x8FD9, 0x5BB6, 0x7684, 0x7F51]), ''Check your balance or line status; this carrier may have no coverage here'')))
      else if ni_bars i \<le> 0 \<or> rat_of (ni_net_type i) = RatNone then
        Some (mk_verdict StNosvc CauseNone ToneBad ((utf8 [0x65E0, 0x670D, 0x52A1]), ''No service'')
          (if pinned then ((utf8 [0x6B63, 0x5728, 0x641C, 0x7F51, 0xFF1B, 0x5236, 0x5F0F, 0x88AB, 0x9650, 0x5B9A, 0xFF0C, 0x53BB, 0x300C, 0x8702, 0x7A9D, 0x300D, 0x6539, 0x56DE, 0x81EA, 0x52A8]), ''Searching; set network mode to Auto in Cellular'')
           else ((utf8 [0x6B63, 0x5728, 0x641C, 0x7F51, 0xFF0C, 0x6362, 0x4E2A, 0x4F4D, 0x7F6E, 0x8BD5, 0x8BD5]), ''Searching; try another spot'')))
      else if \<not> ni_data_up i then Some (mk_verdict StNodata CauseNone ToneBad ((utf8 [0x6CA1, 0x8FDE, 0x4E0A, 0x7F51]), ''Offline'') (nodata_hint i))
      else if is_stalled i then
        Some (mk_verdict StStall CauseNone ToneBad ((utf8 [0x8FDE, 0x4E0A, 0x4E86, 0x4F46, 0x4E0D, 0x901A]), ''No traffic'')
          ((utf8 [0x6709, 0x4FE1, 0x53F7, 0x3001, 0x5DF2, 0x62E8, 0x53F7, 0xFF0C, 0x4F46] @ '' 30 '' @ utf8 [0x79D2, 0x6CA1, 0x6536, 0x5230, 0x4EFB, 0x4F55, 0x6570, 0x636E]), ''Signal and data are up, but nothing came back for 30 s''))
      else None)"

definition speed_verdict :: "'f screen_floats \<Rightarrow> 'f net_in \<Rightarrow> verdict option" where
  "speed_verdict fl i =
     (let (rn, rn_en) = roam_words i;
          mbps = int_digits (as_i32 (sf_trunc fl (sf_add_half fl (ni_ambr_dl i))));
          rsrp = int_digits (ni_rsrp i); rsrq = int_digits (ni_rsrq i); sinr = sf_fmt1 fl (ni_sinr i)
      in if ni_hot i then
           Some (mk_verdict StHot CauseNone ToneWarn ((utf8 [0x6162, 0xFF1A, 0x8FC7, 0x70ED, 0x9650, 0x901F]), ''Slow'')
             ((utf8 [0x673A, 0x8EAB, 0x592A, 0x70ED, 0xFF0C, 0x56FA, 0x4EF6, 0x5728, 0x9650, 0x901F, 0xFF0C, 0x51C9, 0x4E0B, 0x6765, 0x81EA, 0x52A8, 0x6062, 0x590D]) @ rn, ''Too hot; speed limited until it cools'' @ rn_en))
         else if is_capped fl i then
           Some (mk_verdict StLimit CauseLimit ToneWarn ((utf8 [0x6162, 0xFF1A, 0x9650, 0x901F]), ''Slow'')
             ((utf8 [0x8FD0, 0x8425, 0x5546, 0x9650, 0x5230, 0x20]) @ mbps @ ('' Mbps'' @ utf8 [0xFF0C, 0x6362, 0x4F4D, 0x7F6E, 0x6CA1, 0x7528]), ''Carrier caps speed at '' @ mbps @ ('' Mbps; moving won'' @ utf8 [0x27] @ ''t help'')))
         else if bars_tier (ni_bars i) = 0 then
           Some (mk_verdict StWeak CauseWeak ToneWarn ((utf8 [0x6162, 0xFF1A, 0x4FE1, 0x53F7, 0x5F31]), ''Slow'')
             (if ni_rsrp_valid i
              then (''RSRP '' @ rsrp @ (utf8 [0xFF1A, 0x79BB, 0x57FA, 0x7AD9, 0x8FDC, 0xFF0C, 0x9760, 0x7A97, 0x901A, 0x5E38, 0x597D, 0x4E9B]) @ rn, ''Weak signal, RSRP '' @ rsrp @ '' dBm; try near a window'' @ rn_en)
              else ((utf8 [0x79BB, 0x57FA, 0x7AD9, 0x8FDC, 0xFF0C, 0x9760, 0x7A97, 0x901A, 0x5E38, 0x597D, 0x4E9B]) @ rn, ''Weak signal; try near a window'' @ rn_en)))
         else if noise_tier fl i = 0 then
           Some (mk_verdict StNoise CauseNoise ToneWarn ((utf8 [0x6162, 0xFF1A, 0x5E72, 0x6270, 0x5927]), ''Slow'')
             (''SINR '' @ sinr @ (utf8 [0xFF1A, 0x6742, 0x6CE2, 0x591A, 0xFF0C, 0x632A, 0x4E2A, 0x4F4D, 0x7F6E, 0x6216, 0x6362, 0x4E2A, 0x671D, 0x5411]) @ rn, ''Noisy signal, SINR '' @ sinr @ '' dB; move or rotate the device'' @ rn_en))
         else if is_crowded i then
           Some (mk_verdict StCrowd CauseCrowd ToneWarn ((utf8 [0x6162, 0xFF1A, 0x7591, 0x4F3C, 0x62E5, 0x6324]), ''Slow'')
             (''RSRQ '' @ rsrq @ (utf8 [0xFF1A, 0x4EBA, 0x591A, 0x62A2, 0x7F51, 0xFF0C, 0x6362, 0x4F4D, 0x7F6E, 0x5E2E, 0x52A9, 0x4E0D, 0x5927]), ''Cell busy, RSRQ '' @ rsrq @ ('' dB; moving won'' @ utf8 [0x27] @ ''t help much'')))
         else None)"

definition radio_verdict :: "'f net_in \<Rightarrow> verdict" where
  "radio_verdict i =
     (let r = rat_of (ni_net_type i); pinned = pinned_mode (ni_net_select i) \<noteq> None in
      if r = G2 then
        mk_verdict StOnly2g CauseNone ToneWarn ((utf8 [0x53EA, 0x6709] @ '' 2G''), ''2G only'')
          (if pinned then ((utf8 [0x5236, 0x5F0F, 0x88AB, 0x9650, 0x5B9A, 0x53EA, 0x7528] @ '' 2G'' @ utf8 [0xFF0C, 0x53BB, 0x300C, 0x8702, 0x7A9D, 0x300D, 0x6539, 0x56DE]), ''Network mode is 2G only; set it to Auto in Cellular'')
           else ((utf8 [0x4E0A, 0x7F51, 0x4F1A, 0x975E, 0x5E38, 0x6162, 0xFF0C, 0x9644, 0x8FD1, 0x53EF, 0x80FD, 0x6CA1, 0x6709] @ '' 4G/5G''), ''Very slow; probably no 4G/5G nearby''))
      else if r = G3 then
        mk_verdict StOnly3g CauseNone ToneWarn ((utf8 [0x53EA, 0x6709] @ '' 3G''), ''3G only'')
          (if pinned then ((utf8 [0x5236, 0x5F0F, 0x88AB, 0x9650, 0x5B9A, 0x53EA, 0x7528] @ '' 3G'' @ utf8 [0xFF0C, 0x53BB, 0x300C, 0x8702, 0x7A9D, 0x300D, 0x6539, 0x56DE]), ''Network mode is 3G only; set it to Auto in Cellular'')
           else ((utf8 [0x80FD, 0x4E0A, 0x7F51, 0x4F46, 0x8F83, 0x6162, 0xFF0C, 0x9644, 0x8FD1, 0x53EF, 0x80FD, 0x6CA1, 0x6709] @ '' 4G/5G''), ''Online but slow; probably no 4G/5G nearby''))
      else if is_narrow i then
        mk_verdict StNarrow CauseNarrow ToneWarn ((utf8 [0x6162, 0xFF1A, 0x8F7D, 0x6CE2, 0x7A84]), ''Slow'')
          ((utf8 [0x8FD9, 0x91CC, 0x53EA, 0x7ED9, 0x4E86] @ '' 1 '' @ utf8 [0x6761, 0x20]) @ int_digits (ni_mhz i) @ '' MHz'', ''Only one '' @ int_digits (ni_mhz i) @ '' MHz carrier here'')
      else mk_verdict StOk CauseNone ToneOk ((utf8 [0x987A, 0x7545]), ''All good'')
          (if pinned \<and> r = G4 then ((utf8 [0x5236, 0x5F0F, 0x9650, 0x5B9A, 0x53EA, 0x7528] @ '' 4G'' @ utf8 [0xFF0C, 0x53BB, 0x300C, 0x8702, 0x7A9D, 0x300D, 0x6539, 0x56DE]), ''Network mode is 4G only; set it to Auto in Cellular'')
           else ([], [])))"

definition verdict_of :: "'f screen_floats \<Rightarrow> 'f net_in \<Rightarrow> verdict" where
  "verdict_of fl i =
     (case service_verdict i of
        Some v \<Rightarrow> v
      | None \<Rightarrow> (case speed_verdict fl i of Some v \<Rightarrow> v | None \<Rightarrow> radio_verdict i))"

definition story_of :: "'f screen_floats \<Rightarrow> 'f net_in \<Rightarrow> story" where
  "story_of fl i =
     (let v = verdict_of fl i; sto = card_rows fl i;
          sto = (if vd_state v = StNosvc then sto\<lparr>so_rat := (utf8 [0x65E0, 0x670D, 0x52A1]), so_rat_en := ''No svc''\<rparr> else sto)
      in say_verdict sto v)"

definition with_op :: "story \<Rightarrow> screen_line option \<Rightarrow> story" where
  "with_op sto line =
     (case line of
        None \<Rightarrow> sto
      | Some l \<Rightarrow>
          if so_state sto = StNosim \<or> so_state sto = StAirplane then sto
          else case sl_kind l of
            SkSticky \<Rightarrow>
              (let en_base = (if so_hint_en sto = [] then so_hint sto else so_hint_en sto)
               in finish_en (sto\<lparr>
                    so_hint := (if so_hint sto = [] then cstr (fst (sl_hint l)) 128 else cstr (so_hint sto @ (utf8 [0xFF1B]) @ fst (sl_hint l)) 128),
                    so_hint_en := (if en_base = [] then snd (sl_hint l) else en_base @ ''; '' @ snd (sl_hint l))\<rparr>))
          | k \<Rightarrow>
              finish_en (sto\<lparr>so_state := (if k = SkLive then StChanging else StRevertFail),
                so_tone := (if k = SkLive then ToneNeutral else ToneBad), so_cause := CauseNone,
                so_headline := cstr (fst (sl_head l)) 32, so_headline_en := snd (sl_head l),
                so_hint := cstr (fst (sl_hint l)) 128, so_hint_en := snd (sl_hint l)\<rparr>))"

section \<open>The view\<close>

record 'f net_view =
  nv_carriers :: "'f carrier_view"
  nv_cfg :: int
  nv_roam_known :: bool
  nv_roam :: bool
  nv_story :: story
  nv_nosvc :: bool
  nv_sim_usable :: bool
  nv_have_home :: bool
  nv_home_mcc :: int
  nv_home_mnc :: int
  nv_other :: bool
  nv_logo :: string
  nv_fine :: string
  nv_name :: string
  nv_where :: string
  nv_ca_val :: string
  nv_ca_sub :: string
  nv_bars_tier :: int
  nv_mode_word :: string
  nv_mode_auto :: bool
  nv_fine_en :: string
  nv_name_en :: string
  nv_where_en :: string
  nv_ca_val_en :: string
  nv_ca_sub_en :: string
  nv_mode_word_en :: string
  nv_home :: "story option"

text \<open>\<open>summary\<close>: the configured carriers without repetitions, and the list of the active ones.\<close>

definition same_carrier :: "'f carrier \<Rightarrow> 'f carrier \<Rightarrow> bool" where
  "same_carrier a b \<longleftrightarrow> cr_kind a = cr_kind b \<and> cr_pci a = cr_pci b \<and> (cr_band a = cr_band b \<or> cr_band a = 0 \<or> cr_band b = 0)"

definition configured :: "'f carrier list \<Rightarrow> int" where
  "configured ca = int (length (filter (\<lambda>i. \<not> list_ex (\<lambda>j. same_carrier (ca ! j) (ca ! i)) [0..<i]) [0..<length ca]))"

fun carrier_list :: "'f carrier list \<Rightarrow> nat \<Rightarrow> string \<Rightarrow> string \<Rightarrow> string \<times> string" where
  "carrier_list [] lo txt_list primary = (txt_list, primary)"
| "carrier_list (c # cs) lo txt_list primary =
     (if lo + 16 \<ge> 120 then (txt_list, primary)
      else if \<not> cr_active c then carrier_list cs lo txt_list primary
      else let primary = (if primary = [] then cstr (cr_label_short c) 20 else primary);
               piece = (if lo > 0 then '' + '' else []) @ cr_label_short c @
                 (if cr_bw c \<noteq> 0 then '' '' @ int_digits (cr_bw c) @ ''M'' else [])
           in carrier_list cs (lo + length piece) (txt_list @ piece) primary)"

definition ca_words :: "'f screen_data \<Rightarrow> 'f carrier_view \<Rightarrow> bool \<Rightarrow> words \<times> string" where
  "ca_words d cv nosvc =
     (let r = rat_of (sd_net_type d); n = cv_act_n cv; cfg = configured (cv_carriers cv);
          (lst, primary) = carrier_list (cv_carriers cv) 0 [] []
      in if n = 0 \<and> (r = G3 \<or> r = G2) then
           (((utf8 [0x65E0, 0x805A, 0x5408]), ''No CA''), if sd_band d = [] then [] else band_short (sd_band d) False)
         else if n = 0 then (if nosvc then ((utf8 [0x6CA1, 0x8FDE, 0x4E0A, 0x57FA, 0x7AD9]), ''No cell'') else ((utf8 [0x2014]), (utf8 [0x2014])), [])
         else (if cfg > n then ((utf8 [0x6FC0, 0x6D3B, 0x20]) @ int_digits n @ ''/'' @ int_digits cfg, ''Active '' @ int_digits n @ ''/'' @ int_digits cfg)
               else if n > 1 then (int_digits n @ (utf8 [0x20, 0x8F7D, 0x6CE2, 0x805A, 0x5408]), int_digits n @ ''-carrier CA'')
               else ((utf8 [0x5355, 0x8F7D, 0x6CE2]), ''Single carrier''),
               cstr ((utf8 [0x2193, 0x20]) @ cstr lst 120 @ (''   '' @ utf8 [0x2191, 0x20]) @ primary) 160))"

definition wan_connected :: "string \<Rightarrow> bool" where
  "wan_connected ws \<longleftrightarrow> has_word ws ''connected'' \<and> \<not> has_word ws ''disconnect''"

definition to_switch :: "int \<Rightarrow> sw" where
  "to_switch v = (if v = 0 then SwOff else if v = 1 then SwOn else SwUnknown)"

definition is_roaming :: "string \<Rightarrow> bool" where
  "is_roaming r \<longleftrightarrow> r \<noteq> [] \<and> r \<noteq> ''Home'' \<and> r \<noteq> ''home'' \<and> r \<noteq> ''0''"

definition net_in_of :: "'f screen_floats \<Rightarrow> 'f screen_data \<Rightarrow> 'f carrier_view \<Rightarrow> cell_window option \<Rightarrow> 'f net_in" where
  "net_in_of fl d cv win =
     (let c0 = (case cv_carriers cv of [] \<Rightarrow> None | c # _ \<Rightarrow> Some c); i32 = (\<lambda>x. as_i32 (sf_trunc fl x))
      in \<lparr>ni_sim_state = sd_sim_state d,
          ni_airplane = (has_word (sd_operate_mode d) ''LPM'' \<or> has_word (sd_operate_mode d) ''OFFLINE''),
          ni_net_type = sd_net_type d, ni_bars = sd_bars d,
          ni_data_up = (sd_wan_status d = [] \<or> wan_connected (sd_wan_status d)), ni_connected = wan_connected (sd_wan_status d),
          ni_win = win, ni_roaming = (if sd_roaming d = [] then - 1 else if is_roaming (sd_roaming d) then 1 else 0),
          ni_n_active = cv_act_n cv, ni_nr_active = cv_act_nr cv, ni_lte_active = cv_act_lte cv, ni_mhz = cv_act_bw cv,
          ni_sinr_valid = (c0 \<noteq> None), ni_sinr = (case c0 of Some c \<Rightarrow> cr_sinr_v c | None \<Rightarrow> sf_int fl 0),
          ni_rsrp_valid = (c0 \<noteq> None), ni_rsrp = (case c0 of Some c \<Rightarrow> i32 (cr_rsrp_v c) | None \<Rightarrow> 0),
          ni_rsrq_valid = is_some_and c0 (\<lambda>c. \<not> sf_eq fl (cr_rsrq_v c) (sf_int fl 0)),
          ni_rsrq = (case c0 of Some c \<Rightarrow> i32 (cr_rsrq_v c) | None \<Rightarrow> 0),
          ni_mcc = sd_mcc d, ni_mnc = sd_mnc d, ni_nr_band = cv_nr_band0 cv, ni_nr_mhz = cv_nr_mhz cv, ni_rx_bps = sd_rx_speed d,
          ni_ambr_dl = sd_ambr_dl d, ni_net_select = sd_net_select d, ni_data_sw = to_switch (sd_cell_data d),
          ni_roam_sw = to_switch (sd_cell_roam d), ni_hot = sd_hot d\<rparr>)"

definition where_words :: "'f screen_data \<Rightarrow> bool \<Rightarrow> bool \<Rightarrow> words \<Rightarrow> words" where
  "where_words d nosvc other name =
     (if nosvc \<or> sd_roaming d = [] then ([], [])
      else if other then (cstr ((utf8 [0x6F2B, 0x6E38, 0x5230]) @ fst name) 64, cstr (''Roaming on '' @ snd name) 64)
      else if is_roaming (sd_roaming d) then ((utf8 [0x6F2B, 0x6E38]), ''Roaming'')
      else ((utf8 [0x672C, 0x5730]), ''Local''))"

definition net_view_op :: "'f screen_floats \<Rightarrow> (json \<Rightarrow> string) \<Rightarrow> json \<Rightarrow> cell_window option \<Rightarrow> screen_line option \<Rightarrow> 'f net_view" where
  "net_view_op fl ser state win line =
     (let d = parse_state fl ser state;
          cv = carriers fl d;
          sto = story_of fl (net_in_of fl d cv win);
          nosvc = (so_state sto = StNosvc \<or> so_state sto = StSos);
          home_plmn = imsi_plmn (sd_sim_imsi d);
          plmn = (case home_plmn of Some p \<Rightarrow> p | None \<Rightarrow> (sd_mcc d, sd_mnc d));
          roam = is_roaming (sd_roaming d);
          other = (home_plmn \<noteq> None \<and> roam \<and> sd_mcc d > 0 \<and> (fst plmn \<noteq> sd_mcc d \<or> snd plmn \<noteq> sd_mnc d));
          usable = sim_usable (sd_sim_state d);
          fine = rat_long (sd_net_type d) (cv_act_lte cv);
          name = (if sd_operator_name d = [] then ((utf8 [0x672A, 0x6CE8, 0x518C]), ''Not registered'') else (sd_operator_name d, sd_operator_name_en d));
          wh = where_words d nosvc other name;
          ca = ca_words d cv nosvc;
          mode = net_select_word (sd_net_select d)
      in \<lparr>nv_carriers = cv, nv_cfg = configured (cv_carriers cv), nv_roam_known = (sd_roaming d \<noteq> []), nv_roam = roam,
          nv_story = sto, nv_nosvc = nosvc, nv_sim_usable = usable, nv_have_home = (home_plmn \<noteq> None), nv_home_mcc = fst plmn,
          nv_home_mnc = snd plmn, nv_other = other,
          nv_logo = (if usable then case sim_logo (fst plmn) (snd plmn) (sd_sim_spn d) of Some l \<Rightarrow> l | None \<Rightarrow> [] else []),
          nv_fine = fst fine, nv_name = fst name, nv_where = fst wh, nv_ca_val = fst (fst ca), nv_ca_sub = snd ca,
          nv_bars_tier = bars_tier (sd_bars d), nv_mode_word = fst mode, nv_mode_auto = net_select_is_auto (sd_net_select d),
          nv_fine_en = en_for (fst fine) (snd fine) 32, nv_name_en = en_for (fst name) (snd name) 48,
          nv_where_en = en_for (fst wh) (snd wh) 64, nv_ca_val_en = en_for (fst (fst ca)) (snd (fst ca)) 48,
          nv_ca_sub_en = en_for (snd ca) (snd ca) 160, nv_mode_word_en = en_for (fst mode) (snd mode) 32,
          nv_home = map_option (\<lambda>l. with_op sto (Some l)) line\<rparr>)"


section \<open>What is shown\<close>

subsection \<open>Readings of a technology that was left are not used\<close>

lemma ca_record_kind: "ca_record fl k r = Some c \<Longrightarrow> cr_kind c = k"
  by (auto simp: ca_record_def Let_def plain_carrier_def split: if_splits)

lemma ca_fold_kind:
  assumes "length out \<le> n" "list_all (\<lambda>c. cr_kind c = k) out"
  shows "length (fold (\<lambda>text out. if length out \<ge> n then out
             else case ca_record fl k text of Some c \<Rightarrow> out @ [c] | None \<Rightarrow> out) rs out) \<le> n \<and>
     list_all (\<lambda>c. cr_kind c = k) (fold (\<lambda>text out. if length out \<ge> n then out
             else case ca_record fl k text of Some c \<Rightarrow> out @ [c] | None \<Rightarrow> out) rs out)"
  using assms
proof (induction rs arbitrary: out)
  case (Cons r rs)
  show ?case using Cons.IH [of out] Cons.IH [of "out @ [the (ca_record fl k r)]"] Cons.prems ca_record_kind [of fl k r]
    by (cases "ca_record fl k r") auto
qed simp

lemma parse_ca_kind:
  "length (parse_ca fl s n nr) \<le> n \<and> list_all (\<lambda>c. cr_kind c = (if nr then ''nr'' else ''lte'')) (parse_ca fl s n nr)"
  unfolding parse_ca_def by (rule ca_fold_kind) simp_all

lemma shown_carrier_kind [simp]: "cr_kind (shown_carrier fl d c) = cr_kind c" "cr_active (shown_carrier fl d c) = cr_active c"
  by (simp_all add: shown_carrier_def)

lemma lte_carriers_kind:
  "0 < room \<Longrightarrow> length (lte_carriers fl d room) \<le> room \<and> list_all (\<lambda>c. cr_kind c = ''lte'') (lte_carriers fl d room)"
  using parse_ca_kind [of fl "sd_lteca d" room False]
  by (auto simp: lte_carriers_def Let_def plain_carrier_def lte_reading_def list_all_iff)

lemma serving_nr_kind:
  "length (serving_nr fl d) \<le> 1 \<and> list_all (\<lambda>c. cr_kind c = ''nr'') (serving_nr fl d)
   \<and> (serving_nr fl d \<noteq> [] \<longrightarrow> is_nr (rat_of (sd_net_type d)))"
  by (simp add: serving_nr_def plain_carrier_def)

definition current_carrier :: "rat \<Rightarrow> 'f carrier \<Rightarrow> bool" where
  "current_carrier r c \<longleftrightarrow> (cr_kind c = ''nr'' \<and> is_nr r) \<or> (cr_kind c = ''lte'' \<and> r \<noteq> G2 \<and> r \<noteq> G3)"

lemma found_carriers_current:
  "length (found_carriers fl d) \<le> ca_max \<and> list_all (current_carrier (rat_of (sd_net_type d))) (found_carriers fl d)"
proof -
  let ?r = "rat_of (sd_net_type d)" and ?s = "serving_nr fl d"
  define ca where "ca = (if is_nr ?r then ?s @ parse_ca fl (sd_nrca d) (ca_max - length ?s) True else ?s)"
  have s: "length ?s \<le> 1" "list_all (current_carrier ?r) ?s"
    using serving_nr_kind [of fl d] by (auto simp: current_carrier_def list_all_iff)
  have ca: "length ca \<le> ca_max" "list_all (current_carrier ?r) ca"
    using s parse_ca_kind [of fl "sd_nrca d" "ca_max - length ?s" True]
    by (auto simp: ca_def ca_max_def current_carrier_def list_all_iff)
  show ?thesis
  proof (cases "length ca < ca_max \<and> ?r \<noteq> G3 \<and> ?r \<noteq> G2")
    case True
    then have f: "found_carriers fl d = ca @ lte_carriers fl d (ca_max - length ca)"
      by (simp add: found_carriers_def Let_def ca_def)
    show ?thesis
      unfolding f using True ca lte_carriers_kind [of "ca_max - length ca" fl d]
      by (auto simp: current_carrier_def list_all_iff)
  next
    case False
    then show ?thesis using ca by (auto simp: found_carriers_def Let_def ca_def)
  qed
qed

lemma carriers_current:
  "length (cv_carriers (carriers fl d)) \<le> ca_max \<and> list_all (current_carrier (rat_of (sd_net_type d))) (cv_carriers (carriers fl d))"
  using found_carriers_current [of fl d] by (simp add: carriers_def Let_def list_all_iff current_carrier_def)

subsection \<open>The verdict\<close>

lemma say_verdict_fields [simp]:
  "so_state (say_verdict sto v) = vd_state v" "so_tone (say_verdict sto v) = vd_tone v" "so_cause (say_verdict sto v) = vd_cause v"
  by (simp_all add: say_verdict_def finish_en_def)

lemma story_of_verdict [simp]:
  "so_state (story_of fl i) = vd_state (verdict_of fl i)" "so_tone (story_of fl i) = vd_tone (verdict_of fl i)"
  "so_cause (story_of fl i) = vd_cause (verdict_of fl i)"
  by (simp_all add: story_of_def Let_def)

lemma mk_verdict_fields [simp]:
  "vd_state (mk_verdict s c t h n) = s" "vd_cause (mk_verdict s c t h n) = c" "vd_tone (mk_verdict s c t h n) = t"
  by (simp_all add: mk_verdict_def)

text \<open>The device has no usable network: no SIM, emergency calls only, no service, no data call, or no packet comes back.\<close>

definition has_service :: "'f net_in \<Rightarrow> bool" where
  "has_service i \<longleftrightarrow> sim_usable (ni_sim_state i) \<and> \<not> ni_airplane i \<and> \<not> is_limited i \<and> ni_bars i > 0 \<and>
     rat_of (ni_net_type i) \<noteq> RatNone \<and> ni_data_up i \<and> \<not> is_stalled i"

definition is_slow :: "'f screen_floats \<Rightarrow> 'f net_in \<Rightarrow> bool" where
  "is_slow fl i \<longleftrightarrow> ni_hot i \<or> is_capped fl i \<or> bars_tier (ni_bars i) = 0 \<or> noise_tier fl i = 0 \<or> is_crowded i \<or>
     rat_of (ni_net_type i) = G2 \<or> rat_of (ni_net_type i) = G3 \<or> is_narrow i"

lemma service_verdict_tone:
  "service_verdict i = None \<longleftrightarrow> has_service i"
  "service_verdict i = Some v \<Longrightarrow> vd_state v \<noteq> StOk \<and> (vd_tone v = ToneBad \<or> vd_state v = StAirplane \<and> vd_tone v = ToneNeutral \<and> ni_airplane i)"
  by (auto simp: service_verdict_def has_service_def Let_def split: if_splits)

lemma speed_verdict_tone:
  "speed_verdict fl i = None \<longleftrightarrow> \<not> (ni_hot i \<or> is_capped fl i \<or> bars_tier (ni_bars i) = 0 \<or> noise_tier fl i = 0 \<or> is_crowded i)"
  "speed_verdict fl i = Some v \<Longrightarrow> vd_state v \<noteq> StOk \<and> vd_tone v = ToneWarn"
  by (auto simp: speed_verdict_def Let_def split: if_splits prod.splits)

lemma radio_verdict_tone:
  "vd_tone (radio_verdict i) = (if rat_of (ni_net_type i) = G2 \<or> rat_of (ni_net_type i) = G3 \<or> is_narrow i then ToneWarn else ToneOk)"
  "vd_state (radio_verdict i) = StOk \<longleftrightarrow> \<not> (rat_of (ni_net_type i) = G2 \<or> rat_of (ni_net_type i) = G3 \<or> is_narrow i)"
  by (simp_all add: radio_verdict_def Let_def)

lemma verdict_tones:
  "vd_tone (verdict_of fl i) = ToneOk \<longleftrightarrow> has_service i \<and> \<not> is_slow fl i"
  "vd_state (verdict_of fl i) = StOk \<longleftrightarrow> has_service i \<and> \<not> is_slow fl i"
  "vd_tone (verdict_of fl i) = ToneWarn \<longleftrightarrow> has_service i \<and> is_slow fl i"
proof -
  consider (bad) v where "service_verdict i = Some v" | (slow) v where "service_verdict i = None" "speed_verdict fl i = Some v"
    | (radio) "service_verdict i = None" "speed_verdict fl i = None" by (cases "service_verdict i"; cases "speed_verdict fl i") auto
  then have "(vd_tone (verdict_of fl i) = ToneOk \<longleftrightarrow> has_service i \<and> \<not> is_slow fl i) \<and>
    (vd_state (verdict_of fl i) = StOk \<longleftrightarrow> has_service i \<and> \<not> is_slow fl i) \<and>
    (vd_tone (verdict_of fl i) = ToneWarn \<longleftrightarrow> has_service i \<and> is_slow fl i)"
  proof cases
    case bad
    then have "\<not> has_service i" using service_verdict_tone(1) [of i] by auto
    then show ?thesis using bad service_verdict_tone(2) [OF bad] by (auto simp: verdict_of_def)
  next
    case slow
    then have "has_service i" "is_slow fl i"
      using service_verdict_tone(1) [of i] speed_verdict_tone(1) [of fl i] by (auto simp: is_slow_def)
    then show ?thesis using slow speed_verdict_tone(2) [OF slow(2)] by (simp add: verdict_of_def)
  next
    case radio
    then show ?thesis
      using service_verdict_tone(1) [of i] speed_verdict_tone(1) [of fl i] radio_verdict_tone [of i]
      by (auto simp: verdict_of_def is_slow_def)
  qed
  then show "vd_tone (verdict_of fl i) = ToneOk \<longleftrightarrow> has_service i \<and> \<not> is_slow fl i"
    "vd_state (verdict_of fl i) = StOk \<longleftrightarrow> has_service i \<and> \<not> is_slow fl i"
    "vd_tone (verdict_of fl i) = ToneWarn \<longleftrightarrow> has_service i \<and> is_slow fl i" by blast+
qed

lemma view_parts:
  "nv_story (net_view_op fl ser state win line)
     = story_of fl (net_in_of fl (parse_state fl ser state) (carriers fl (parse_state fl ser state)) win)"
  "nv_carriers (net_view_op fl ser state win line) = carriers fl (parse_state fl ser state)"
  "nv_home (net_view_op fl ser state win line) = map_option (\<lambda>l. with_op (nv_story (net_view_op fl ser state win line)) (Some l)) line"
  by (simp_all add: net_view_op_def Let_def)


lemma with_op_state:
  "so_state (with_op s (Some l)) =
     (if so_state s = StNosim \<or> so_state s = StAirplane then so_state s
      else case sl_kind l of SkLive \<Rightarrow> StChanging | SkAlert \<Rightarrow> StRevertFail | SkSticky \<Rightarrow> so_state s)"
  "sl_kind l = SkSticky \<Longrightarrow> so_headline (with_op s (Some l)) = so_headline s"
  by (simp_all add: with_op_def finish_en_def Let_def split: screen_kind.splits)

text \<open>
  What the write layer lays over it: a running change or a failed revert takes the headline, except when there is no SIM or
  the radio is off; a result that stays only adds to the hint; the network verdict itself is not changed by it.
\<close>

theorem write_line_over_verdict:
  assumes "nv_home (net_view_op fl ser state win (Some l)) = Some h"
  shows "nv_story (net_view_op fl ser state win (Some l)) = nv_story (net_view_op fl ser state win None)
    \<and> (so_state h = StChanging \<longleftrightarrow> sl_kind l = SkLive \<and>
         so_state (nv_story (net_view_op fl ser state win None)) \<notin> {StNosim, StAirplane})
    \<and> (sl_kind l = SkSticky \<longrightarrow> so_state h = so_state (nv_story (net_view_op fl ser state win None))
         \<and> so_headline h = so_headline (nv_story (net_view_op fl ser state win None)))"
proof -
  have "vd_state v \<noteq> StChanging" if "service_verdict i = Some v" for i :: "'a net_in" and v
    using that by (auto simp: service_verdict_def Let_def split: if_splits)
  moreover have "vd_state v \<noteq> StChanging" if "speed_verdict fl i = Some v" for i :: "'a net_in" and v
    using that by (auto simp: speed_verdict_def Let_def split: if_splits prod.splits)
  moreover have "vd_state (radio_verdict i) \<noteq> StChanging" for i :: "'a net_in"
    by (simp add: radio_verdict_def Let_def)
  ultimately have nc: "vd_state (verdict_of fl i) \<noteq> StChanging" for i :: "'a net_in"
    by (simp add: verdict_of_def split: option.splits)
  show ?thesis
    using assms nc by (cases "sl_kind l") (auto simp: view_parts with_op_state split: if_splits)
qed

subsection \<open>Every text fits the buffer of the screen\<close>

lemma length_cstr: "0 < cap \<Longrightarrow> length (cstr s cap) < cap"
  using floor_boundary_le [of s "cap - 1"] by (auto simp: cstr_def)

lemma length_en_for: "0 < cap \<Longrightarrow> length (en_for zh en cap) < cap"
  by (simp add: en_for_def length_cstr)

lemma length_utf8: "length (utf8 cs) \<le> 4 * length cs"
  by (induction cs) (auto simp: utf8_def utf8_char_def)

definition story_fits :: "story \<Rightarrow> bool" where
  "story_fits s \<longleftrightarrow> length (so_headline s) < 32 \<and> length (so_hint s) < 128 \<and> length (so_rat s) < 32 \<and> length (so_link s) < 96
   \<and> length (so_sig s) < 8 \<and> length (so_noise s) < 8 \<and> length (so_load s) < 12 \<and> length (so_limit s) < 8
   \<and> length (so_headline_en s) < 32 \<and> length (so_hint_en s) < 128 \<and> length (so_rat_en s) < 32 \<and> length (so_link_en s) < 96
   \<and> length (so_sig_en s) < 8 \<and> length (so_noise_en s) < 8 \<and> length (so_load_en s) < 12 \<and> length (so_limit_en s) < 8"

definition rows_fit :: "story \<Rightarrow> bool" where
  "rows_fit s \<longleftrightarrow> length (so_rat s) < 32 \<and> length (so_link s) < 96 \<and> length (so_sig s) < 8 \<and> length (so_noise s) < 8
   \<and> length (so_load s) < 12 \<and> length (so_limit s) < 8"

lemma short_utf8: "4 * length cs < n \<Longrightarrow> length (utf8 cs) < n"
  using length_utf8 [of cs] by linarith

lemma finish_en_fits: "rows_fit s \<Longrightarrow> length (so_headline s) < 32 \<Longrightarrow> length (so_hint s) < 128 \<Longrightarrow> story_fits (finish_en s)"
  by (simp add: story_fits_def rows_fit_def finish_en_def length_en_for)

lemma card_rows_fit: "rows_fit (card_rows fl i)"
proof -
  have "length (fst (link_words i)) < 96"
    by (auto simp: link_words_def Let_def length_cstr intro: short_utf8 split: prod.splits)
  moreover have "length (fst (sig_words (bars_tier (ni_bars i)))) < 8" "length (fst (noise_words (noise_tier fl i))) < 8"
    by (auto simp: sig_words_def noise_words_def intro: short_utf8)
  ultimately show ?thesis
    by (auto simp: rows_fit_def card_rows_def Let_def length_cstr split: prod.splits intro: short_utf8)
qed

lemma story_of_fits: "story_fits (story_of fl i)"
  using card_rows_fit [of fl i]
  by (auto simp: story_of_def say_verdict_def Let_def rows_fit_def length_cstr intro!: finish_en_fits short_utf8)

lemma with_op_fits:
  assumes "story_fits s"
  shows "story_fits (with_op s line)"
proof (cases line)
  case (Some l)
  have rows: "rows_fit s" "length (so_headline s) < 32" "length (so_hint s) < 128"
    using assms by (simp_all add: story_fits_def rows_fit_def)
  show ?thesis
    using assms rows Some
    by (cases "sl_kind l") (auto simp: with_op_def Let_def rows_fit_def length_cstr intro!: finish_en_fits)
qed (simp add: with_op_def assms)

lemma with_part_field: "g (with_part p f d) = (case p of Some v \<Rightarrow> g (f v d) | None \<Rightarrow> g d)"
  by (simp add: with_part_def split: option.splits)

lemma parse_state_texts:
  "length (sd_net_select (parse_state fl ser state)) < 16" "length (sd_operator_name (parse_state fl ser state)) < 48"
  "length (sd_band (parse_state fl ser state)) < 16"
  by (auto simp: parse_state_def Let_def with_part_field parse_net_def parse_cellular_def parse_qos_def parse_sim_def no_data_def
      getstr_def length_cstr split: option.splits prod.splits)

lemma foldl_push_decimal: "0 \<le> v \<Longrightarrow> list_all is_digit ds \<Longrightarrow> 0 \<le> foldl push_decimal v ds"
  by (induction ds arbitrary: v) (auto simp: push_decimal_def max_i64_def is_digit_def)

lemma atoi_digits:
  assumes "is_digit c"
  shows "0 \<le> atoi (c # s)"
proof -
  have "\<not> ws_char c" "c \<noteq> CHR ''+''" "c \<noteq> CHR ''-''" using assms by (auto simp: is_digit_def ws_char_def)
  moreover have "list_all is_digit (takeWhile is_digit (c # s))" by (metis list_all_iff set_takeWhileD)
  ultimately show ?thesis
    using assms foldl_push_decimal [of 0 "takeWhile is_digit (c # s)"] by (simp add: atoi_def strtol_def Let_def)
qed

lemma last_run_digit:
  "last_run prev s acc = Some r \<Longrightarrow> (\<And>a. acc = Some a \<Longrightarrow> a \<noteq> [] \<and> is_digit (hd a)) \<Longrightarrow> r \<noteq> [] \<and> is_digit (hd r)"
proof (induction prev s acc rule: last_run.induct)
  case (2 prev c s acc)
  show ?case by (rule 2(1)) (use 2(2,3) in \<open>auto split: if_splits\<close>)
qed simp

lemma length_small_digits: "0 \<le> v \<Longrightarrow> v < 1000 \<Longrightarrow> length (int_digits v) \<le> 3"
proof -
  assume v: "0 \<le> v" "v < 1000"
  have "length (nat_digits n) \<le> 3" if "n < 1000" for n
  proof -
    have "n div 10 < 100" "n div 10 div 10 < 10" using that by auto
    then show ?thesis
      by (subst nat_digits.simps, subst nat_digits.simps, subst nat_digits.simps) auto
  qed
  then show ?thesis using v by (simp add: int_digits_def)
qed

lemma length_band_short: "length (band_short s nr) < 16"
proof (cases "last_run False s None")
  case (Some r)
  then obtain c t where r: "r = c # t" "is_digit c" using last_run_digit [OF Some] by (cases r) auto
  then show ?thesis
    using Some atoi_digits [of c t] length_small_digits [of "atoi r"] by (auto simp: band_short_def length_cstr)
qed (auto simp: band_short_def length_cstr)

lemma length_mode_word:
  assumes "length sel < 16"
  shows "length (fst (net_select_word sel)) < 32"
proof -
  have "list_all (\<lambda>w. length (fst (snd w)) < 32) net_select_table"
    by (simp add: net_select_table_def utf8_def utf8_char_def)
  then show ?thesis
    using assms by (auto simp: net_select_word_def list_all_iff split: option.splits dest!: map_of_SomeD)
qed

lemma configured_le: "0 \<le> configured ca" "configured ca \<le> int (length ca)"
  unfolding configured_def by (auto intro: order_trans [OF length_filter_le])

lemma act_n_le: "0 \<le> cv_act_n (carriers fl d)" "cv_act_n (carriers fl d) \<le> 5"
proof -
  have "cv_act_n (carriers fl d) \<le> int (length (cv_carriers (carriers fl d)))"
    unfolding carriers_def Let_def by (auto intro: order_trans [OF length_filter_le])
  then show "cv_act_n (carriers fl d) \<le> 5" using carriers_current [of fl d] by (simp add: ca_max_def)
qed (simp add: carriers_def Let_def)

lemma length_ca_words:
  "length (fst (fst (ca_words d (carriers fl d) nosvc))) < 48" "length (snd (ca_words d (carriers fl d) nosvc)) < 160"
proof -
  let ?n = "cv_act_n (carriers fl d)" and ?c = "configured (cv_carriers (carriers fl d))"
  have dg: "length (int_digits ?n) \<le> 3" "length (int_digits ?c) \<le> 3"
    using act_n_le [of fl d] configured_le [of "cv_carriers (carriers fl d)"] carriers_current [of fl d]
    by (auto intro!: length_small_digits simp: ca_max_def)
  show "length (fst (fst (ca_words d (carriers fl d) nosvc))) < 48"
    using dg by (auto simp: ca_words_def Let_def utf8_def utf8_char_def split: prod.splits)
  show "length (snd (ca_words d (carriers fl d) nosvc)) < 160"
    using length_band_short [of "sd_band d" False] by (auto simp: ca_words_def Let_def length_cstr split: prod.splits)
qed

definition view_fits :: "'f net_view \<Rightarrow> bool" where
  "view_fits v \<longleftrightarrow> story_fits (nv_story v) \<and> (\<forall>h. nv_home v = Some h \<longrightarrow> story_fits h)
   \<and> length (nv_fine v) < 32 \<and> length (nv_name v) < 48 \<and> length (nv_where v) < 64 \<and> length (nv_ca_val v) < 48
   \<and> length (nv_ca_sub v) < 160 \<and> length (nv_mode_word v) < 32 \<and> length (nv_fine_en v) < 32 \<and> length (nv_name_en v) < 48
   \<and> length (nv_where_en v) < 64 \<and> length (nv_ca_val_en v) < 48 \<and> length (nv_ca_sub_en v) < 160 \<and> length (nv_mode_word_en v) < 32
   \<and> length (cv_carriers (nv_carriers v)) \<le> 5"

text \<open>
  Property C36. Every text of the view fits, with its terminating zero, the buffer the screen keeps for it, in both languages
  and with the line of the write layer laid over it, whatever the device reported; and there are never more than five
  carriers.
\<close>

theorem screen_texts_fit: "view_fits (net_view_op fl ser state win line)"
proof -
  let ?d = "parse_state fl ser state"
  let ?v = "net_view_op fl ser state win line"
  have "length (nv_fine ?v) < 32"
    by (auto simp: net_view_op_def Let_def rat_long_def length_cstr split: rat.splits)
  moreover have "length (nv_name ?v) < 48"
    using parse_state_texts(2) [of fl ser state] by (auto simp: net_view_op_def Let_def intro: short_utf8)
  moreover have "length (nv_where ?v) < 64"
    by (auto simp: net_view_op_def Let_def where_words_def length_cstr intro: short_utf8)
  moreover have "length (nv_ca_val ?v) < 48" "length (nv_ca_sub ?v) < 160"
    using length_ca_words [of ?d fl] by (auto simp: net_view_op_def Let_def)
  moreover have "length (nv_mode_word ?v) < 32"
    using length_mode_word [OF parse_state_texts(1)] by (auto simp: net_view_op_def Let_def)
  moreover have "length (nv_fine_en ?v) < 32" "length (nv_name_en ?v) < 48" "length (nv_where_en ?v) < 64"
    "length (nv_ca_val_en ?v) < 48" "length (nv_ca_sub_en ?v) < 160" "length (nv_mode_word_en ?v) < 32"
    by (simp_all add: net_view_op_def Let_def length_en_for)
  moreover have "length (cv_carriers (nv_carriers ?v)) \<le> 5"
    using carriers_current [of fl ?d] by (simp add: view_parts ca_max_def)
  moreover have "story_fits (nv_story ?v)" "\<forall>h. nv_home ?v = Some h \<longrightarrow> story_fits h"
    using story_of_fits with_op_fits [OF story_of_fits] by (auto simp: view_parts)
  ultimately show ?thesis by (simp add: view_fits_def)
qed

end
