(* ===== verification/Snapshot.thy ===== *)
theory Snapshot
  imports Screen Sms "HOL-Library.Signed_Division"
begin

text \<open>
  The snapshot projection (\<open>project/snapshot.rs\<close>): from the raw replies of one collection round, the object of
  the old \<open>/state\<close> interface and the derived blocks of \<open>/v2\<close>. A reply keeps its \<open>Result\<close>, and the
  flags \<open>*_read\<close> say whether the request was really sent in this round. A \<open>BTreeMap\<close> is a sorted association
  list, an \<open>i64\<close> an \<open>int\<close> with the wrap-around written out as \<open>i64\<close>. \<open>ser\<close> stands for
  \<open>serde_json\<close>'s text of a number, \<open>fl\<close> for the \<open>f64\<close> operations.

  Proved: the country comparison behind \<open>true_roaming\<close>, that a derived block carries data only when each of its
  sources was read in this round, that a model whose network data comes from ubus alone shows no radio value when
  ubus failed, and that the provider name is decoded exactly.
\<close>

section \<open>Values\<close>

type_synonym uci_set = "(string \<times> string) list"
type_synonym leases = "(string \<times> (string \<times> string)) list"

definition i64 :: "int \<Rightarrow> int" where "i64 n = sint (word_of_int n :: u64)"

definition jnum :: "int \<Rightarrow> json" where "jnum n = jint (word_of_int n)"

definition put_all :: "(string \<times> json) list \<Rightarrow> (string \<times> json) list \<Rightarrow> (string \<times> json) list" where
  "put_all kvs m = fold (\<lambda>(k, v). map_insert k v) kvs m"

record rails =
  chg_uv :: int
  chg_ua :: int
  bat_uv :: int
  bat_ua :: int

definition reply_object :: "string + json \<Rightarrow> json" where
  "reply_object r = (case r of Ok v \<Rightarrow> v | Err _ \<Rightarrow> JObject [])"

definition str_field :: "(json \<Rightarrow> string) \<Rightarrow> json \<Rightarrow> string \<Rightarrow> string" where
  "str_field ser v k =
     (case jget k v of
        Some (JString x) \<Rightarrow> x
      | Some (JNumber x) \<Rightarrow> ser (JNumber x)
      | Some (JBool b) \<Rightarrow> if b then ''true'' else ''false''
      | _ \<Rightarrow> [])"

definition num_field_or :: "json \<Rightarrow> string \<Rightarrow> int \<Rightarrow> int" where
  "num_field_or v k d =
     (case jget k v of
        Some (JNumber x) \<Rightarrow> (case as_i64 (JNumber x) of Some n \<Rightarrow> sint n | None \<Rightarrow> d)
      | Some (JString x) \<Rightarrow> (case parse_i64 x of Some n \<Rightarrow> sint n | None \<Rightarrow> d)
      | Some (JBool b) \<Rightarrow> if b then 1 else 0
      | _ \<Rightarrow> d)"

definition num_field :: "json \<Rightarrow> string \<Rightarrow> int" where "num_field v k = num_field_or v k 0"

definition interface :: "(json \<Rightarrow> string) \<Rightarrow> json \<Rightarrow> json" where
  "interface ser v =
     (let lst = (\<lambda>k. case jget k v of Some x \<Rightarrow> x | None \<Rightarrow> JArray [])
      in jobj [(''up'', JBool (Option.bind (jget ''up'' v) as_bool = Some True)), (''proto'', JString (str_field ser v ''proto'')),
           (''device'', JString (str_field ser v ''l3_device'')), (''ipv4'', lst ''ipv4-address''),
           (''ipv6'', lst ''ipv6-address''), (''dns'', lst ''dns-server'')])"

fun uci_field :: "uci_set list \<Rightarrow> string \<Rightarrow> string" where
  "uci_field [] path = []"
| "uci_field (s # sets) path = (case map_of s path of Some v \<Rightarrow> v | None \<Rightarrow> uci_field sets path)"

section \<open>Model and template\<close>

definition ascii_alnum :: "char \<Rightarrow> bool" where
  "ascii_alnum c \<longleftrightarrow> is_digit c \<or> 65 \<le> (of_char c :: nat) \<and> (of_char c :: nat) \<le> 90 \<or>
     97 \<le> (of_char c :: nat) \<and> (of_char c :: nat) \<le> 122"

fun profile_chars :: "bool \<Rightarrow> string \<Rightarrow> string" where
  "profile_chars sep [] = []"
| "profile_chars sep (c # cs) =
     (if ascii_alnum c then ascii_lower c # profile_chars False cs
      else if \<not> sep \<and> c \<in> set ''-_ /.'' then CHR ''_'' # profile_chars True cs
      else profile_chars sep cs)"

definition normalize_profile :: "string \<Rightarrow> string" where
  "normalize_profile v =
     (let out = rev (dropWhile (\<lambda>c. c = CHR ''_'') (rev (profile_chars True v)))
      in if out = [] then ''unknown'' else out)"

definition template_of :: "string \<Rightarrow> string" where
  "template_of profile =
     (if profile = ''mu5250'' then ''MU5250''
      else if profile = ''mu5252'' then ''MU5252''
      else if profile = ''mc7523'' then ''MC7523''
      else if profile = ''mc8532b'' then ''MC8532B''
      else ''legacy_compat'')"

section \<open>Card and country\<close>

definition mcc_country :: "int \<Rightarrow> int option" where
  "mcc_country mcc =
     (if 310 \<le> mcc \<and> mcc \<le> 316 then Some 310
      else if 404 \<le> mcc \<and> mcc \<le> 406 then Some 404
      else if mcc = 440 \<or> mcc = 441 then Some 440
      else if mcc = 234 \<or> mcc = 235 then Some 234
      else if mcc = 901 \<or> mcc = 999 then None
      else if 200 \<le> mcc \<and> mcc \<le> 799 then Some mcc
      else None)"

definition serving_mcc :: "(string \<times> json) list \<Rightarrow> int option" where
  "serving_mcc m = opt_filter (\<lambda>c. mcc_country c \<noteq> None)
     (map_option sint (Option.bind (map_of m ''mcc'') as_i64))"

definition home_mcc :: "string \<Rightarrow> int option" where
  "home_mcc imsi = opt_filter (\<lambda>c. mcc_country c \<noteq> None) (map_option fst (imsi_plmn imsi))"

definition true_roaming :: "int option \<Rightarrow> int option \<Rightarrow> bool option" where
  "true_roaming serving home =
     (case (serving, home) of (Some s, Some h) \<Rightarrow> Some (mcc_country s \<noteq> mcc_country h) | _ \<Rightarrow> None)"

definition add_roaming_fields :: "json \<Rightarrow> string \<Rightarrow> json" where
  "add_roaming_fields net imsi =
     (case net of
        JObject m \<Rightarrow> JObject (put_all [(''serving_mcc'', jopt jnum (serving_mcc m)), (''home_mcc'', jopt jnum (home_mcc imsi)),
          (''true_roaming'', jopt JBool (true_roaming (serving_mcc m) (home_mcc imsi)))] m)
      | _ \<Rightarrow> net)"

definition bearer_query :: "(json \<Rightarrow> string) \<Rightarrow> json \<Rightarrow> string \<Rightarrow> qos_query" where
  "bearer_query ser raw_net imsi =
     (let mcc = num_field raw_net ''rmcc''; mnc = num_field raw_net ''rmnc''
      in \<lparr>qq_serving = (if mcc > 0 then Some (mcc, mnc) else None), qq_home = imsi_plmn imsi,
          qq_core = data_core (str_field ser raw_net ''network_type'')\<rparr>)"

definition valid_imsi :: "string \<Rightarrow> bool" where
  "valid_imsi s \<longleftrightarrow> 5 \<le> length s \<and> length s \<le> 20 \<and> list_all is_digit s"

definition valid_msisdn :: "string \<Rightarrow> bool" where
  "valid_msisdn s \<longleftrightarrow>
     (let ds = (case s of c # cs \<Rightarrow> if c = CHR ''+'' then cs else s | [] \<Rightarrow> [])
      in 3 \<le> length ds \<and> length ds \<le> 32 \<and> list_all is_digit ds)"

section \<open>The provider name\<close>

text \<open>Four hexadecimal digits a unit; \<open>utf16\<close> is \<open>String::from_utf16\<close>, which fails on a lone surrogate.\<close>

definition hex_value :: "char \<Rightarrow> nat" where
  "hex_value c = (let n = of_char c in if n \<le> 57 then n - 48 else if n \<le> 70 then n - 55 else n - 87)"

fun ucs2_units :: "string \<Rightarrow> nat list" where
  "ucs2_units (a # b # c # d # s) = (((hex_value a * 16 + hex_value b) * 16 + hex_value c) * 16 + hex_value d) # ucs2_units s"
| "ucs2_units _ = []"

definition high_surrogate :: "nat \<Rightarrow> bool" where "high_surrogate u \<longleftrightarrow> 0xD800 \<le> u \<and> u \<le> 0xDBFF"
definition low_surrogate :: "nat \<Rightarrow> bool" where "low_surrogate u \<longleftrightarrow> 0xDC00 \<le> u \<and> u \<le> 0xDFFF"

fun utf16 :: "nat list \<Rightarrow> nat list option" where
  "utf16 [] = Some []"
| "utf16 (u # us) =
     (if high_surrogate u then
        (case us of
           v # vs \<Rightarrow> if low_surrogate v
             then map_option ((#) (0x10000 + (u - 0xD800) * 0x400 + (v - 0xDC00))) (utf16 vs) else None
         | [] \<Rightarrow> None)
      else if low_surrogate u then None
      else map_option ((#) u) (utf16 us))"

definition white_code :: "nat \<Rightarrow> bool" where
  "white_code c \<longleftrightarrow> 9 \<le> c \<and> c \<le> 13 \<or> c = 0x20 \<or> c = 0x85 \<or> c = 0xA0 \<or> c = 0x1680 \<or> 0x2000 \<le> c \<and> c \<le> 0x200A \<or>
     c = 0x2028 \<or> c = 0x2029 \<or> c = 0x202F \<or> c = 0x205F \<or> c = 0x3000"

definition trim_codes :: "nat list \<Rightarrow> nat list" where
  "trim_codes cs = rev (dropWhile white_code (rev (dropWhile white_code cs)))"

definition spn_from_ucs2_hex :: "string \<Rightarrow> string" where
  "spn_from_ucs2_hex s =
     (let v = trim s
      in if v = [] \<or> length v mod 4 \<noteq> 0 \<or> \<not> list_all is_hexdigit v then []
         else case utf16 (filter (\<lambda>u. u \<noteq> 0 \<and> u \<noteq> 0xFFFF) (ucs2_units v)) of
                Some cs \<Rightarrow> utf8 (trim_codes cs) | None \<Rightarrow> [])"

section \<open>Power\<close>

definition battery_object :: "json \<Rightarrow> json \<Rightarrow> rails \<Rightarrow> json" where
  "battery_object battery charger r =
     jobj [(''percent'', jnum (num_field_or battery ''battery_capacity'' (- 1))),
       (''temp'', jnum (num_field battery ''battery_temperature'')), (''online'', jnum (num_field battery ''battery_online'')),
       (''health'', jnum (num_field battery ''battery_health'')),
       (''time_to_full'', jnum (num_field_or battery ''battery_time_to_full'' (- 1))),
       (''charging'', jnum (num_field charger ''charge_status'')),
       (''charger_connect'', jnum (num_field charger ''charger_connect'')),
       (''charger_type'', jnum (num_field charger ''charger_type'')), (''chg_uv'', jnum (chg_uv r)),
       (''chg_ua'', jnum (chg_ua r)), (''bat_uv'', jnum (bat_uv r)), (''bat_ua'', jnum (bat_ua r))]"

definition power_object :: "json \<Rightarrow> json option" where
  "power_object charger =
     (case Option.bind (jget ''direct_power_supply_mode'' charger) as_str of
        None \<Rightarrow> None
      | Some mode \<Rightarrow> Some (jobj [(''direct_supply'', jobj [(''supported'', JBool True),
          (''enabled'', if mode = ''enable'' then JBool True else if mode = ''disable'' then JBool False else JNull),
          (''mode'', if mode = ''enable'' \<or> mode = ''disable'' then JString mode else JNull)])]))"

definition power_fields :: "string \<Rightarrow> string + json \<Rightarrow> string + json \<Rightarrow> rails \<Rightarrow> (string \<times> json) list \<Rightarrow>
    (string \<times> json) list" where
  "power_fields template bat chg r m =
     (let battery = reply_object bat; charger = reply_object chg;
          hide = (template = ''MC7523'' \<or> template = ''MC8532B'');
          named = (case battery of JObject bm \<Rightarrow> list_ex (\<lambda>(k, _). starts_with k ''battery_'') bm | _ \<Rightarrow> False)
      in put_all ((if \<not> hide \<and> is_ok bat \<and> named then [(''battery'', battery_object battery charger r)] else []) @
           (case power_object charger of Some p \<Rightarrow> [(''power'', p)] | None \<Rightarrow> [])) m)"

definition hightemp_limit :: "string + json \<Rightarrow> json" where
  "hightemp_limit r =
     (case r of
        Ok v \<Rightarrow> (case Option.bind (Option.bind (jget ''value'' v) as_str) (\<lambda>s. parse_i64 (trim s)) of
                  Some n \<Rightarrow> jnum (if n \<noteq> 0 then 1 else 0) | None \<Rightarrow> JNull)
      | Err _ \<Rightarrow> JNull)"

section \<open>External modems and several uplinks\<close>

definition realtime_traffic :: "json \<Rightarrow> json" where
  "realtime_traffic v =
     jobj [(''rx_speed'', jnum (num_field v ''real_rx_speed'')), (''tx_speed'', jnum (num_field v ''real_tx_speed'')),
       (''max_rx_speed'', jnum (num_field v ''real_max_rx_speed'')), (''max_tx_speed'', jnum (num_field v ''real_max_tx_speed'')),
       (''rx_bytes'', jnum (num_field v ''real_rx_bytes'')), (''tx_bytes'', jnum (num_field v ''real_tx_bytes'')),
       (''session_time'', jnum (num_field v ''real_time''))]"

definition prefixed_string :: "(json \<Rightarrow> string) \<Rightarrow> json \<Rightarrow> string \<Rightarrow> string \<Rightarrow> string" where
  "prefixed_string ser v prefix suffix = str_field ser v (prefix @ suffix)"

definition prefixed_integer :: "json \<Rightarrow> string \<Rightarrow> string \<Rightarrow> int" where
  "prefixed_integer v prefix suffix = num_field v (prefix @ suffix)"

fun drop_mhz_rev :: "string \<Rightarrow> string" where
  "drop_mhz_rev (a # b # c # s) = (if [a, b, c] = ''zHM'' then drop_mhz_rev s else a # b # c # s)"
| "drop_mhz_rev s = s"

definition lte_widths :: "'f screen_floats \<Rightarrow> 'f list" where
  "lte_widths fl = map (sf_int fl) [3, 5, 10, 15, 20]"

definition external_bandwidth :: "'f screen_floats \<Rightarrow> string \<Rightarrow> string option" where
  "external_bandwidth fl s =
     (case sf_parse fl (trim (rev (drop_mhz_rev (rev s)))) of
        None \<Rightarrow> None
      | Some v \<Rightarrow>
          (case sf_parse fl ''1.4'' of
             Some w \<Rightarrow> if sf_eq fl w v then Some ''1.4''
               else if list_ex (\<lambda>x. sf_eq fl x v) (lte_widths fl) then Some (sf_fmt0 fl v) else None
           | None \<Rightarrow> if list_ex (\<lambda>x. sf_eq fl x v) (lte_widths fl) then Some (sf_fmt0 fl v) else None))"

definition topflow_external_net :: "'f screen_floats \<Rightarrow> (json \<Rightarrow> string) \<Rightarrow> json \<Rightarrow> uci_set list \<Rightarrow> nat \<Rightarrow> int \<Rightarrow> json" where
  "topflow_external_net fl ser live sets index slot_no =
     (let prefix = ''msim_'' @ nat_digits (index + 1) @ ''_'' @ int_digits slot_no @ ''_'';
          uci_prefix = ''zte_nwinfo.sys_info.'' @ prefix;
          use_uci = (case live of JObject m \<Rightarrow> m = [] | _ \<Rightarrow> True);
          text = (\<lambda>suffix. let lv = prefixed_string ser live prefix suffix
                    in if lv = [] \<and> use_uci then uci_field sets (uci_prefix @ suffix) else lv);
          number = (\<lambda>suffix. if prefixed_string ser live prefix suffix = [] \<and> use_uci
                     then (case parse_i64 (uci_field sets (uci_prefix @ suffix)) of Some n \<Rightarrow> sint n | None \<Rightarrow> 0)
                     else prefixed_integer live prefix suffix)
      in jobj ([(''type'', JString (text ''network_type'')), (''bars'', jnum (number ''signalbar'')),
           (''roaming'', JString (text ''simcard_roam'')), (''operator'', JString (text ''network_provider'')),
           (''plmn'', JString (text ''rplmn_num'')), (''band'', JString (text ''wan_active_band'')),
           (''lte_rsrp'', jnum (number ''lte_rsrp'')), (''lte_rsrq'', jnum (number ''lte_rsrq'')),
           (''lte_rssi'', jnum (number ''lte_rssi'')), (''lte_snr'', JString (text ''lte_snr'')),
           (''lte_pci'', jnum (number ''lte_pci'')), (''cell_id'', jnum (number ''cell_id'')),
           (''channel'', jnum (number ''wan_active_channel'')), (''mode'', JString (text ''net_select'')),
           (''operate_mode'', JString (text ''operate_mode''))] @
         (case external_bandwidth fl (text ''lte_bandwidth'') of Some b \<Rightarrow> [(''bandwidth'', JString b)] | None \<Rightarrow> [])))"

definition parse_bool :: "json \<Rightarrow> string \<Rightarrow> bool" where
  "parse_bool v k =
     (case jget k v of
        None \<Rightarrow> False
      | Some x \<Rightarrow> (case as_bool x of Some b \<Rightarrow> b | None \<Rightarrow> (case as_i64 x of Some n \<Rightarrow> n \<noteq> 0 | None \<Rightarrow> False)))"

text \<open>\<open>str::split\<close> with a text as separator: \<open>n\<close> characters of a separator are still to be skipped.\<close>

fun split_text :: "string \<Rightarrow> nat \<Rightarrow> string \<Rightarrow> string \<Rightarrow> string list" where
  "split_text p n acc [] = [rev acc]"
| "split_text p n acc (c # s) =
     (if 0 < n then split_text p (n - 1) acc s
      else if starts_with (c # s) p then rev acc # split_text p (length p - 1) [] s
      else split_text p 0 (c # acc) s)"

definition quote_char :: char where "quote_char = char_of (39 :: nat)"

definition trim_quotes :: "string \<Rightarrow> string" where
  "trim_quotes s = rev (dropWhile (\<lambda>c. c = quote_char) (rev (dropWhile (\<lambda>c. c = quote_char) s)))"

definition split_uci_list :: "string \<Rightarrow> string list" where
  "split_uci_list s = filter (\<lambda>v. v \<noteq> []) (map trim_quotes (split_text [quote_char, CHR '' '', quote_char] 0 [] s))"

definition multiwan_ids :: "uci_set \<Rightarrow> string list" where
  "multiwan_ids s = sort (List.map_filter (\<lambda>(k, v).
     if starts_with k ''mwan3.'' \<and> CHR ''.'' \<notin> set (drop 6 k) \<and>
        v \<in> {''interface'', ''member'', ''policy'', ''rule'', ''globals''}
     then Some (drop 6 k) else None) s)"

definition multiwan_names :: "string \<Rightarrow> string list" where
  "multiwan_names kind =
     (if kind = ''interface'' then [''enabled'', ''family'', ''track_method'', ''reliability'', ''timeout'', ''interval'', ''down'', ''up'']
      else if kind = ''member'' then [''interface'', ''metric'', ''weight'']
      else if kind = ''policy'' then [''last_resort'']
      else if kind = ''rule'' then [''family'', ''proto'', ''src_ip'', ''src_port'', ''dest_ip'', ''dest_port'', ''use_policy'', ''sticky'', ''logging'']
      else if kind = ''globals'' then [''mmx_mask'']
      else [])"

definition multiwan_section :: "uci_set \<Rightarrow> string \<Rightarrow> json" where
  "multiwan_section s ident =
     (let get = (\<lambda>name. map_of s (''mwan3.'' @ ident @ ''.'' @ name));
          kind = (case map_of s (''mwan3.'' @ ident) of Some k \<Rightarrow> k | None \<Rightarrow> []);
          opt = (\<lambda>f name. case get name of Some v \<Rightarrow> [(name, f v)] | None \<Rightarrow> [])
      in jobj ([(''id'', JString ident), (''type'', JString kind)] @ concat (map (opt JString) (multiwan_names kind)) @
           concat (map (opt (\<lambda>v. JArray (map JString (split_uci_list v)))) [''track_ip'', ''use_member''])))"

definition topflow_multiwan :: "uci_set list \<Rightarrow> string \<Rightarrow> bool \<Rightarrow> json" where
  "topflow_multiwan sets mode running =
     (let sections = (case find (\<lambda>s. map_of s ''mwan3.globals'' \<noteq> None) sets of
            None \<Rightarrow> [] | Some s \<Rightarrow> map (multiwan_section s) (multiwan_ids s))
      in jobj [(''mode'', JString mode), (''active'', JBool (mode = ''MULTIWAN'')), (''service_running'', JBool running),
           (''sections'', JArray sections)])"

section \<open>Wireless section and network fallback\<close>

definition wifi_section :: "string \<Rightarrow> uci_set list \<Rightarrow> string option" where
  "wifi_section template sets =
     (let get = (\<lambda>s k. uci_field sets (''wireless.'' @ s @ ''.'' @ k))
      in if template = ''MU5250'' then
           (if list_ex (\<lambda>k. get ''main_2g'' k \<noteq> []) [''ssid'', ''key'', ''encryption''] then Some ''main_2g'' else None)
         else case find (\<lambda>s. get s ''ssid'' \<noteq> [] \<and> get s ''disabled'' \<noteq> ''1'') [''main_2g'', ''main_5g''] of
                Some s \<Rightarrow> Some s
              | None \<Rightarrow> find (\<lambda>s. get s ''ssid'' \<noteq> []) [''main_2g'', ''main_5g''])"

definition fallback_paths :: "(string \<times> string) list" where
  "fallback_paths =
     [(''network_type'', ''zte_nwinfo.sys_info.network_type''), (''signalbar'', ''zte_nwinfo.signal_strength.signalbar''),
      (''simcard_roam'', ''zte_nwinfo.sys_info.simcard_roam''),
      (''network_provider_fullname'', ''zte_nwinfo.plmn_info.network_provider_fullname''),
      (''wan_active_band'', ''zte_nwinfo.wan_active_band.GWLSA_band''), (''nr5g_action_band'', ''zte_nwinfo.wan_active_band.odu_nrband''),
      (''nr5g_rsrp'', ''zte_nwinfo.signal_strength.nr5g_rsrp''), (''nr5g_rsrq'', ''zte_nwinfo.signal_strength.nr5g_rsrq''),
      (''nr5g_snr'', ''zte_nwinfo.signal_strength.nr5g_snr''), (''rmcc'', ''zte_nwinfo.plmn_info.rmcc''),
      (''rmnc'', ''zte_nwinfo.plmn_info.rmnc''), (''cell_id'', ''zte_nwinfo.cell_info.cell_id''),
      (''lte_pci'', ''zte_nwinfo.cell_info.lte_pci''), (''wan_active_channel'', ''zte_nwinfo.cell_info.wan_active_channel''),
      (''nr5g_pci'', ''zte_nwinfo.cell_info.nr5g_pci''), (''nr5g_cell_id'', ''zte_nwinfo.cell_info.nr5g_cellid''),
      (''nr5g_action_channel'', ''zte_nwinfo.cell_info.nr5g_action_channel''),
      (''nr5g_bandwidth'', ''zte_nwinfo.cell_info.nr5g_bandwidth''), (''lte_bandwidth'', ''zte_nwinfo.cell_info.lte_bandwidth''),
      (''net_select'', ''zte_nwinfo.sys_info.net_select''), (''nr5g_sa_band_lock'', ''zte_nwinfo.band_lock.nr5g_sa_band_lock''),
      (''nr5g_nsa_band_lock'', ''zte_nwinfo.band_lock.nr5g_nsa_band_lock''), (''lte_band'', ''zte_nwinfo.band_lock.lte_ext_band_lock'')]"

definition uci_values :: "uci_set list \<Rightarrow> (string \<times> string) list \<Rightarrow> (string \<times> json) list" where
  "uci_values sets paths = List.map_filter (\<lambda>(k, p). if uci_field sets p = [] then None else Some (k, JString (uci_field sets p))) paths"

definition topflow_net_fallback :: "json \<Rightarrow> uci_set list \<Rightarrow> json" where
  "topflow_net_fallback raw sets =
     (if (case jget ''network_type'' raw of Some v \<Rightarrow> v \<noteq> JNull | None \<Rightarrow> False) then raw
      else jobj (uci_values sets fallback_paths))"

section \<open>Clients and memory\<close>

definition first_text :: "(json \<Rightarrow> string) \<Rightarrow> json \<Rightarrow> (string \<Rightarrow> bool) \<Rightarrow> string list \<Rightarrow> string option" where
  "first_text ser entry ok names = find ok (map (str_field ser entry) names)"

definition client_entry :: "(json \<Rightarrow> string) \<Rightarrow> leases \<Rightarrow> json \<Rightarrow> json option" where
  "client_entry ser leases entry =
     (case first_text ser entry (\<lambda>v. v \<noteq> []) [''mac_address'', ''mac'', ''mac_addr''] of
        None \<Rightarrow> None
      | Some m \<Rightarrow>
          let mac = to_ascii_lowercase m; lease = map_of leases mac;
              ip = (case first_text ser entry (\<lambda>v. v \<noteq> []) [''ip_address'', ''ip'', ''ip_addr''] of
                      Some x \<Rightarrow> x | None \<Rightarrow> (case lease of Some l \<Rightarrow> fst l | None \<Rightarrow> []));
              name = opt_filter (\<lambda>v. v \<noteq> []) (or_else (first_text ser entry (\<lambda>v. v \<noteq> [] \<and> v \<noteq> ''--'' \<and> v \<noteq> ''*'') [''hostname'', ''name''])
                (map_option snd lease))
          in Some (jobj [(''name'', JString (case name of Some n \<Rightarrow> n | None \<Rightarrow> mac)), (''ip'', JString ip), (''mac'', JString mac)]))"

definition client_array :: "(json \<Rightarrow> string) \<Rightarrow> json \<Rightarrow> string \<Rightarrow> leases \<Rightarrow> json list option" where
  "client_array ser v k leases = map_option (List.map_filter (client_entry ser leases)) (Option.bind (jget k v) as_array)"

definition connected_clients :: "(json \<Rightarrow> string) \<Rightarrow> json \<Rightarrow> json \<Rightarrow> leases \<Rightarrow> json \<times> int \<times> int" where
  "connected_clients ser lan wifi leases =
     (let w = opt_get [] (client_array ser wifi ''wireless_access_list_info'' leases);
          l = opt_get [] (client_array ser lan ''lan_access_list_info'' leases)
      in (JArray (w @ l), int (length w), int (length l)))"

definition memory_fields :: "json \<Rightarrow> int \<times> int \<times> int" where
  "memory_fields info =
     (let m = opt_get JNull (jget ''memory'' info); t = num_field m ''total''; a = num_field m ''available''
      in (t, a, if t > 0 then i64 (i64 (t - a) * 100) sdiv t else - 1))"

section \<open>The inputs of a round\<close>

record 'f inputs =
  si_common :: "string + json"
  si_board :: "string + json"
  si_info :: "string + json"
  si_net :: "string + json"
  si_traffic :: "string + json"
  si_accounting :: "string + json"
  si_limit :: "string + json"
  si_clear_day :: "string + json"
  si_sim :: "string + json"
  si_sim_read :: bool
  si_imei :: "string + json"
  si_lan_clients :: "string + json"
  si_wifi_clients :: "string + json"
  si_router_status :: "string + json"
  si_thermal :: "string + json"
  si_hightemp :: "string + json"
  si_usb :: "string + json"
  si_battery :: "string + json"
  si_charger :: "string + json"
  si_nfc :: "string + json"
  si_sms_capacity :: "string + json"
  si_capacity_read :: bool
  si_sms_nv :: "string + json"
  si_nv_read :: bool
  si_sms_sim :: "string + json"
  si_sim_list_read :: bool
  si_sms_list :: "json list option"
  si_lan_if :: "string + json"
  si_wan4_if :: "string + json"
  si_wan6_if :: "string + json"
  si_lan_config :: "string + json"
  si_cellular :: "string + json"
  si_uci_sets :: "uci_set list"
  si_qos_logs :: "'f parsed_logs"
  si_leases :: leases
  si_rails :: rails
  si_cpu_sys :: int
  si_zones :: json
  si_cpu_usage_tenths :: int
  si_runtime :: json

definition packages :: "string list" where
  "packages = [''zwrt_zte_mdm'', ''zwrt_common_info'', ''network'', ''dhcp'', ''zwrt_data_commit'', ''system'', ''zwrt_web'',
     ''zwrt_tr069'', ''zwrt_router'', ''zte_nwinfo'', ''zwrt_zte_nwinfo'', ''wireless'', ''mwan3'']"

record mu5252_ctx =
  mc_raw_net :: json
  mc_imsi :: string
  mc_msisdn :: string
  mc_cpu_temp :: int
  mc_sim :: json
  mc_imei :: json
  mc_cellular :: json
  mc_wan4_if :: json
  mc_wan6_if :: json
  mc_uci_sets :: "uci_set list"

record projection =
  pr_fields :: "(string \<times> json) list"
  pr_blocks :: "(string \<times> (string + json)) list"
  pr_mu5252 :: "mu5252_ctx option"

section \<open>The parts of the state object\<close>

definition profile_of :: "(json \<Rightarrow> string) \<Rightarrow> json \<Rightarrow> string \<times> string" where
  "profile_of ser common =
     (if str_field ser common ''model_name'' \<noteq> [] then (''model_name'', normalize_profile (str_field ser common ''model_name''))
      else (''hardware_version'', normalize_profile (str_field ser common ''hardware_version'')))"

definition template_for :: "(json \<Rightarrow> string) \<Rightarrow> 'f inputs \<Rightarrow> string" where
  "template_for ser i = template_of (snd (profile_of ser (reply_object (si_common i))))"

definition uci_fallback :: "string \<Rightarrow> bool" where
  "uci_fallback template \<longleftrightarrow> template = ''MU5252'' \<or> template = ''MC8532B''"

definition raw_net_of :: "(json \<Rightarrow> string) \<Rightarrow> 'f inputs \<Rightarrow> json" where
  "raw_net_of ser i =
     (let raw = reply_object (si_net i)
      in if uci_fallback (template_for ser i) then topflow_net_fallback raw (si_uci_sets i) else raw)"

definition net_texts :: "(string \<times> string) list" where
  "net_texts =
     [(''type'', ''network_type''), (''roaming'', ''simcard_roam''), (''operator'', ''network_provider_fullname''),
      (''band'', ''wan_active_band''), (''nr_band'', ''nr5g_action_band''), (''nr_snr'', ''nr5g_snr''), (''lte_snr'', ''lte_snr''),
      (''nr_bw'', ''nr5g_bandwidth''), (''nrca'', ''nrca''), (''lteca'', ''lteca''), (''ltecasig'', ''ltecasig''),
      (''net_select'', ''net_select''), (''sa_bands'', ''nr5g_sa_band_lock''), (''nsa_bands'', ''nr5g_nsa_band_lock''),
      (''lte_bands'', ''lte_band''), (''lte_supported_bands'', ''lte_band''),
      (''nr_sa_supported_bands'', ''nr5g_sa_band_lock''), (''nr_nsa_supported_bands'', ''nr5g_nsa_band_lock'')]"

definition supported_bands :: "(string \<times> string) list" where
  "supported_bands =
     [(''lte_supported_bands'', ''zwrt_zte_nwinfo.default_band_lock.default_lte_ext_band_lock''),
      (''nr_sa_supported_bands'', ''zwrt_zte_nwinfo.default_band_lock.default_nr5g_sa_band_lock''),
      (''nr_nsa_supported_bands'', ''zwrt_zte_nwinfo.default_band_lock.default_nr5g_nsa_band_lock'')]"

definition net_numbers :: "(string \<times> string) list" where
  "net_numbers =
     [(''bars'', ''signalbar''), (''nr_rsrp'', ''nr5g_rsrp''), (''nr_rsrq'', ''nr5g_rsrq''), (''nr_rssi'', ''nr5g_rssi''),
      (''lte_rsrp'', ''lte_rsrp''), (''lte_rsrq'', ''lte_rsrq''), (''lte_rssi'', ''lte_rssi''), (''rssi'', ''rssi''),
      (''mcc'', ''rmcc''), (''mnc'', ''rmnc''), (''lte_pci'', ''lte_pci''), (''lte_cell_id'', ''cell_id''),
      (''lte_channel'', ''wan_active_channel''), (''nr_pci'', ''nr5g_pci''), (''nr_cell_id'', ''nr5g_cell_id''),
      (''nr_channel'', ''nr5g_action_channel'')]"

definition net_object :: "(json \<Rightarrow> string) \<Rightarrow> json \<Rightarrow> uci_set list \<Rightarrow> json \<Rightarrow> (string \<times> json) list" where
  "net_object ser raw sets router =
     map_from (map (\<lambda>(k, p). (k, JString (str_field ser raw p))) net_texts @ uci_values sets supported_bands @
       map (\<lambda>(k, p). (k, jnum (num_field raw p))) net_numbers @
       [(''wan_status'', JString (str_field ser router ''current_wan_status'')), (''HSR'', JBool False)])"

definition traffic_numbers :: "(string \<times> string) list" where
  "traffic_numbers =
     [(''rx_speed'', ''real_rx_speed''), (''tx_speed'', ''real_tx_speed''), (''max_rx_speed'', ''real_max_rx_speed''),
      (''max_tx_speed'', ''real_max_tx_speed''), (''rx_bytes'', ''real_rx_bytes''), (''tx_bytes'', ''real_tx_bytes''),
      (''session_time'', ''real_time'')]"

definition traffic_object :: "json \<Rightarrow> json \<Rightarrow> json \<Rightarrow> json \<Rightarrow> json" where
  "traffic_object traffic accounting limit clear_day =
     jobj (map (\<lambda>(k, p). (k, jnum (num_field traffic p))) traffic_numbers @
       map (\<lambda>k. (k, jnum (num_field accounting k)))
         [''day_rx_bytes'', ''day_tx_bytes'', ''month_rx_bytes'', ''month_tx_bytes'', ''total_rx_bytes'', ''total_tx_bytes''] @
       [(''limit'', limit), (''clear_day'', clear_day)])"

definition celsius :: "int \<Rightarrow> int" where
  "celsius v = (if v \<ge> 1000 then i64 (v + 500) sdiv 1000 else v)"

definition cpu_temp_of :: "string \<Rightarrow> json \<Rightarrow> int \<Rightarrow> int" where
  "cpu_temp_of template thermal cpu_sys =
     (if template = ''MU5250'' \<or> template = ''MU5252'' then
        (let v = num_field_or thermal ''cpuss_temp'' (- 1) in if v < 0 then 0 else celsius v)
      else case find (\<lambda>v. v > 0) (map (num_field thermal) [''cpuss_temp'', ''cpu_temp'', ''temperature'', ''temp'']) of
             Some v \<Rightarrow> celsius v | None \<Rightarrow> cpu_sys)"

definition uci_device_fields :: "(string \<times> string) list" where
  "uci_device_fields =
     [(''iccid'', ''zwrt_zte_mdm.sim_info.sim_iccid''), (''imsi'', ''zwrt_zte_mdm.sim_info.sim_imsi''),
      (''msisdn'', ''zwrt_zte_mdm.sim_info.msisdn''), (''mcc'', ''zwrt_zte_mdm.sim_info.mdm_mcc''),
      (''mnc'', ''zwrt_zte_mdm.sim_info.mdm_mnc''), (''imei'', ''zwrt_zte_mdm.device_info.imei''),
      (''mac_address'', ''zwrt_zte_mdm.device_info.wlan_mac_address''), (''modem_msn'', ''zwrt_zte_mdm.device_info.modem_msn''),
      (''wa_inner_version'', ''zwrt_common_info.common_config.wa_inner_version''),
      (''integrate_version'', ''zwrt_common_info.common_config.integrate_version''),
      (''common_model_name'', ''zwrt_common_info.common_config.model_name''),
      (''device_alias_name'', ''zwrt_common_info.common_config.device_alias_name''),
      (''device_market_name'', ''zwrt_common_info.common_config.device_market_name''),
      (''lan_ipaddr'', ''network.lan.ipaddr''), (''lan_netmask'', ''network.lan.netmask''), (''wan_dns'', ''network.zte_wan.dns''),
      (''dhcpEnabled'', ''dhcp.lan.ignore''), (''dhcpStart'', ''dhcp.lan.zte_start''), (''dhcpEnd'', ''dhcp.lan.zte_end''),
      (''dhcpLease_hour'', ''dhcp.lan.leasetime''), (''hostname'', ''system.@system[0].hostname''),
      (''timezone'', ''system.@system[0].timezone''), (''web_language'', ''zwrt_web.setting.web_language''),
      (''login_timeout'', ''zwrt_web.config.login_timeout''), (''device_model'', ''zwrt_tr069.DeviceInfo.ModelName''),
      (''device_manufacturer'', ''zwrt_tr069.DeviceInfo.Manufacturer''),
      (''hardware_version'', ''zwrt_tr069.DeviceInfo.HardwareVersion''),
      (''software_version'', ''zwrt_tr069.DeviceInfo.SoftwareVersion''), (''serial_number'', ''zwrt_tr069.DeviceInfo.SerialNumber''),
      (''mtu'', ''zwrt_router.network.mtu''), (''mss'', ''zwrt_router.network.mss''),
      (''sim_states'', ''zwrt_zte_mdm.sim_info.sim_states''), (''modem_main_state'', ''zwrt_zte_mdm.sim_info.modem_main_state''),
      (''pin_status'', ''zwrt_zte_mdm.sim_info.pin_status''),
      (''hardware_version_ci'', ''zwrt_common_info.common_config.hardware_version''),
      (''login_fail_num'', ''zwrt_web.config.login_fail_num''),
      (''login_fail_lock_timeout'', ''zwrt_web.config.login_fail_lock_timeout''),
      (''day_tx_bytes'', ''zwrt_data_commit.wwancid1dst.day_tx_bytes''), (''day_rx_bytes'', ''zwrt_data_commit.wwancid1dst.day_rx_bytes''),
      (''day_time'', ''zwrt_data_commit.wwancid1dst.day_time''), (''month_tx_bytes'', ''zwrt_data_commit.wwancid1dst.month_tx_bytes''),
      (''month_rx_bytes'', ''zwrt_data_commit.wwancid1dst.month_rx_bytes''), (''month_time'', ''zwrt_data_commit.wwancid1dst.month_time''),
      (''total_tx_bytes'', ''zwrt_data_commit.wwancid1dst.total_tx_bytes''),
      (''total_rx_bytes'', ''zwrt_data_commit.wwancid1dst.total_rx_bytes''), (''total_time'', ''zwrt_data_commit.wwancid1dst.total_time''),
      (''radio_network_type'', ''zte_nwinfo.sys_info.network_type''), (''radio_signalbar'', ''zte_nwinfo.signal_strength.signalbar''),
      (''radio_operator'', ''zte_nwinfo.plmn_info.network_provider_fullname''),
      (''radio_lte_band'', ''zte_nwinfo.wan_active_band.GWLSA_band''), (''radio_nr_band'', ''zte_nwinfo.wan_active_band.odu_nrband''),
      (''radio_lte_rsrp'', ''zte_nwinfo.signal_strength.lte_rsrp''), (''radio_lte_rsrq'', ''zte_nwinfo.signal_strength.lte_rsrq''),
      (''radio_lte_snr'', ''zte_nwinfo.signal_strength.lte_snr''), (''radio_nr_rsrp'', ''zte_nwinfo.signal_strength.nr5g_rsrp''),
      (''radio_nr_rsrq'', ''zte_nwinfo.signal_strength.nr5g_rsrq''), (''radio_nr_snr'', ''zte_nwinfo.signal_strength.nr5g_snr''),
      (''radio_lte_cell_id'', ''zte_nwinfo.cell_info.cell_id''), (''radio_lte_pci'', ''zte_nwinfo.cell_info.lte_pci''),
      (''radio_lte_channel'', ''zte_nwinfo.cell_info.wan_active_channel''), (''radio_nr_pci'', ''zte_nwinfo.cell_info.nr5g_pci''),
      (''radio_nr_channel'', ''zte_nwinfo.cell_info.nr5g_action_channel''),
      (''radio_nr_bandwidth'', ''zte_nwinfo.cell_info.nr5g_bandwidth''), (''radio_lteca'', ''zte_nwinfo.sys_info.lteca''),
      (''radio_net_select'', ''zte_nwinfo.sys_info.net_select''), (''radio_nr_sa_bands'', ''zte_nwinfo.band_lock.nr5g_sa_band_lock''),
      (''radio_nr_nsa_bands'', ''zte_nwinfo.band_lock.nr5g_nsa_band_lock''),
      (''radio_lte_bands'', ''zte_nwinfo.band_lock.lte_ext_band_lock'')]"

definition checked_or_uci :: "(string \<Rightarrow> bool) \<Rightarrow> string \<Rightarrow> string \<Rightarrow> string" where
  "checked_or_uci ok live uci = (if ok live then live else if ok uci then uci else [])"

definition imsi_of :: "(json \<Rightarrow> string) \<Rightarrow> 'f inputs \<Rightarrow> string" where
  "imsi_of ser i = checked_or_uci valid_imsi (str_field ser (reply_object (si_sim i)) ''sim_imsi'')
     (uci_field (si_uci_sets i) ''zwrt_zte_mdm.sim_info.sim_imsi'')"

definition msisdn_of :: "(json \<Rightarrow> string) \<Rightarrow> 'f inputs \<Rightarrow> string" where
  "msisdn_of ser i = checked_or_uci valid_msisdn (str_field ser (reply_object (si_sim i)) ''msisdn'')
     (uci_field (si_uci_sets i) ''zwrt_zte_mdm.sim_info.msisdn'')"

definition qos_object :: "(json \<Rightarrow> string) \<Rightarrow> qos_values \<Rightarrow> json \<Rightarrow> json" where
  "qos_object ser q usb =
     jobj [(''qci'', jnum (qv_qci q)), (''ambr_dl'', JString (qv_ambr_dl q)), (''ambr_ul'', JString (qv_ambr_ul q)),
       (''bearer'', JString (qv_bearer q)), (''stale'', JBool (qv_stale q)), (''usb_mode'', JString (str_field ser usb ''mode''))]"

definition sim_object :: "(json \<Rightarrow> string) \<Rightarrow> json \<Rightarrow> string \<Rightarrow> string \<Rightarrow> json" where
  "sim_object ser si imsi msisdn =
     (let text = str_field ser si; num = (\<lambda>k. jnum (num_field si k))
      in jobj [(''iccid'', JString (text ''sim_iccid'')), (''imsi'', JString imsi), (''msisdn'', JString msisdn),
           (''spn'', JString (spn_from_ucs2_hex (text ''spn_name_data''))), (''state'', JString (text ''sim_states'')),
           (''modem_state'', JString (text ''modem_main_state'')), (''pin_status'', JString (text ''pin_status'')),
           (''current_slot'', num ''current_sim_slot''), (''dual_sim'', num ''support_dual_sim''),
           (''sim1_provision'', num ''sim1_provision_state''), (''sim2_provision'', num ''sim2_provision_state'')])"

definition device_object :: "(json \<Rightarrow> string) \<Rightarrow> json \<Rightarrow> json \<Rightarrow> json" where
  "device_object ser common board =
     (let src = fst (profile_of ser common); profile = snd (profile_of ser common); template = template_of profile;
          text = str_field ser common
      in jobj [(''profile'', JString profile), (''profile_source'', JString src), (''api_template'', JString template),
           (''api_template_label'', JString (if template = ''legacy_compat'' then ''Legacy compatibility fallback'' else template)),
           (''api_template_supported'', jnum (if template \<noteq> ''legacy_compat'' then 1 else 0)), (''full_ubus'', jnum 1),
           (''vendor'', JString (text ''manufacturer'')), (''model_name'', JString (text ''model_name'')),
           (''hardware_version'', JString (text ''hardware_version'')), (''market_name'', JString (text ''device_market_name'')),
           (''alias_name'', JString (text ''device_alias_name'')), (''board_name'', JString (str_field ser board ''board_name''))])"

definition system_object :: "(json \<Rightarrow> string) \<Rightarrow> 'f inputs \<Rightarrow> int \<Rightarrow> json" where
  "system_object ser i cpu_temp =
     (let info = reply_object (si_info i); common = reply_object (si_common i); board = reply_object (si_board i); mem = memory_fields info;
          release = opt_get JNull (jget ''release'' board); tenths = si_cpu_usage_tenths i;
          wa = str_field ser common ''wa_inner_version''
      in jobj [(''uptime'', jnum (num_field info ''uptime'')), (''cpu_temp'', jnum cpu_temp),
           (''cpu_usage'', jnum (if tenths \<ge> 0 then i64 (tenths + 5) sdiv 10 else - 1)), (''mem_used_pct'', jnum (snd (snd mem))),
           (''mem_total'', jnum (fst mem)), (''mem_avail'', jnum (fst (snd mem))), (''model'', JString (str_field ser board ''model'')),
           (''hostname'', JString (str_field ser board ''hostname'')), (''fw'', JString (str_field ser release ''description'')),
           (''sw_version'', JString (if wa = [] then str_field ser common ''integrate_version'' else wa)),
           (''imei'', JString (str_field ser (reply_object (si_imei i)) ''imei''))])"

definition wlan_object :: "uci_set list \<Rightarrow> string \<Rightarrow> json" where
  "wlan_object sets s =
     (let get = (\<lambda>k. uci_field sets (''wireless.'' @ s @ ''.'' @ k))
      in jobj [(''ssid'', JString (get ''ssid'')), (''enc'', JString (get ''encryption'')),
           (''enabled'', jnum (if get ''disabled'' \<noteq> ''1'' then 1 else 0))])"

definition has_nfc :: "string + json \<Rightarrow> bool" where
  "has_nfc r \<longleftrightarrow> (case r of Ok (JObject m) \<Rightarrow> list_ex (\<lambda>k. map_of m k \<noteq> None) [''switch'', ''ap'', ''wifi_ap''] | _ \<Rightarrow> False)"

definition sms_field :: "'f inputs \<Rightarrow> (string \<times> json) list" where
  "sms_field i =
     (case si_sms_list i of
        Some l \<Rightarrow> if is_ok (si_sms_capacity i)
          then let cap = reply_object (si_sms_capacity i)
               in [(''sms'', jobj [(''unread'', jnum (num_field cap ''sms_dev_unread_num'' + num_field cap ''sms_sim_unread_num'')),
                    (''list'', JArray l)])]
          else []
      | None \<Rightarrow> [])"

definition dhcp_object :: "uci_set list \<Rightarrow> json" where
  "dhcp_object sets =
     jobj [(''ip'', JString (uci_field sets ''network.lan.ipaddr'')), (''start'', JString (uci_field sets ''dhcp.lan.start'')),
       (''limit'', JString (uci_field sets ''dhcp.lan.limit'')), (''leasetime'', JString (uci_field sets ''dhcp.lan.leasetime''))]"

section \<open>The projection\<close>

definition later_fields :: "'f rate_ops \<Rightarrow> (json \<Rightarrow> string) \<Rightarrow> 'f inputs \<Rightarrow> u64 \<Rightarrow> (string \<times> json) list" where
  "later_fields rt ser i interval =
     (let sets = si_uci_sets i; template = template_for ser i; raw_net = raw_net_of ser i;
          cpu_temp = cpu_temp_of template (reply_object (si_thermal i)) (si_cpu_sys i);
          imsi = imsi_of ser i
      in sms_field i @
         [(''traffic'', traffic_object (reply_object (si_traffic i)) (reply_object (si_accounting i)) (reply_object (si_limit i)) (reply_object (si_clear_day i)))] @
         (case wifi_section template sets of Some s \<Rightarrow> [(''wlan'', wlan_object sets s)] | None \<Rightarrow> []) @
         (if has_nfc (si_nfc i) then [(''nfc'', jobj [(''switch'', jnum (num_field (reply_object (si_nfc i)) ''switch''))])] else []) @
         [(''thermal'', jobj [(''cpu_celsius'', jnum cpu_temp), (''zones'', si_zones i), (''modems'', JArray []),
            (''hightemp_limit'', hightemp_limit (si_hightemp i))]),
          (''interfaces'', jobj [(''lan'', interface ser (reply_object (si_lan_if i))), (''wan4'', interface ser (reply_object (si_wan4_if i))),
            (''wan6'', interface ser (reply_object (si_wan6_if i))), (''lan_config'', reply_object (si_lan_config i)),
            (''cellular'', reply_object (si_cellular i))]),
          (''uci_device_info'', jobj (uci_values sets uci_device_fields)),
          (''qos'', qos_object ser (select_bearer rt (si_qos_logs i) (bearer_query ser raw_net imsi)) (reply_object (si_usb i))),
          (''sim'', sim_object ser (reply_object (si_sim i)) imsi (msisdn_of ser i))] @
         (if template = ''MU5252'' then [] else [(''modems'', JArray [])]) @
         [(''dhcp'', dhcp_object sets),
          (''device'', device_object ser (reply_object (si_common i)) (reply_object (si_board i))),
          (''system'', system_object ser i cpu_temp),
          (''sample_interval_ms'', JNumber (PosInt interval)),
          (''runtime'', si_runtime i)])"

definition state_fields :: "'f rate_ops \<Rightarrow> (json \<Rightarrow> string) \<Rightarrow> 'f inputs \<Rightarrow> u64 \<Rightarrow> (string \<times> json) list" where
  "state_fields rt ser i interval =
     (let cl = connected_clients ser (reply_object (si_lan_clients i)) (reply_object (si_wifi_clients i)) (si_leases i);
          w = fst (snd cl); l = snd (snd cl)
      in put_all (later_fields rt ser i interval)
           (power_fields (template_for ser i) (si_battery i) (si_charger i) (si_rails i)
             (put_all [(''net'', JObject (net_object ser (raw_net_of ser i) (si_uci_sets i) (reply_object (si_router_status i)))),
               (''clients'', jobj [(''total'', jnum (w + l)), (''wifi'', jnum w), (''lan'', jnum l), (''list'', fst cl)])] [])))"

definition state_field :: "(string \<times> json) list \<Rightarrow> string \<Rightarrow> json" where
  "state_field fs k = (case map_of fs k of Some v \<Rightarrow> v | None \<Rightarrow> JNull)"

definition guarded :: "(string \<times> json) list \<Rightarrow> string \<Rightarrow> bool \<Rightarrow> string \<Rightarrow> string \<times> (string + json)" where
  "guarded fs name ok why = (name, case map_of fs name of Some v \<Rightarrow> if ok then Ok v else Err why | None \<Rightarrow> Err why)"

definition sms_list_ok :: "'f inputs \<Rightarrow> bool" where
  "sms_list_ok i \<longleftrightarrow> is_ok (si_sms_nv i) \<and> is_ok (si_sms_sim i) \<and> si_nv_read i \<and> si_sim_list_read i"

definition sms_block :: "'f inputs \<Rightarrow> string + json" where
  "sms_block i =
     (case (si_sms_capacity i, si_sms_nv i, si_sms_sim i) of
        (Ok capacity, Ok nv, Ok s) \<Rightarrow>
          if si_capacity_read i \<and> si_nv_read i \<and> si_sim_list_read i then Ok (block_data capacity nv s)
          else Err ''zwrt_wms capacity or SMS list read failed''
      | _ \<Rightarrow> Err ''zwrt_wms capacity or SMS list read failed'')"

definition sms_list_block :: "'f inputs \<Rightarrow> (string \<times> json) list \<Rightarrow> string + json" where
  "sms_list_block i fs =
     (case Option.bind (map_of fs ''sms'') (jget ''list'') of
        Some v \<Rightarrow> if sms_list_ok i then Ok (jobj [(''list'', v)]) else Err ''zwrt_wms SMS list read failed''
      | None \<Rightarrow> Err ''zwrt_wms SMS list read failed'')"

definition derived_blocks :: "(json \<Rightarrow> string) \<Rightarrow> 'f inputs \<Rightarrow> (string \<times> json) list \<Rightarrow> (string \<times> (string + json)) list" where
  "derived_blocks ser i fs =
     [(''signal'', if is_ok (si_net i) then Ok (add_roaming_fields (state_field fs ''net'') (imsi_of ser i))
         else Err ''zte_nwinfo_api nwinfo_get_netinfo failed''),
      (''live'', if is_ok (si_info i) \<and> is_ok (si_traffic i)
         then Ok (jobj [(''system'', state_field fs ''system''), (''runtime'', state_field fs ''runtime''), (''traffic'', state_field fs ''traffic'')])
         else Err ''system info or zwrt_data get_wwandst failed''),
      (''sms'', sms_block i),
      (''sms_list'', sms_list_block i fs),
      guarded fs ''sim'' (si_sim_read i) ''zwrt_zte_mdm.api get_sim_info failed'',
      guarded fs ''qos'' (is_ok (si_net i) \<and> is_ok (si_usb i)) ''nwinfo or zwrt_bsp.usb read failed'',
      guarded fs ''clients'' (is_ok (si_lan_clients i) \<and> is_ok (si_wifi_clients i)) ''router access lists read failed'',
      guarded fs ''wlan'' True ''no wireless section'',
      guarded fs ''nfc'' True ''zwrt_nfc read failed or no NFC'',
      guarded fs ''dhcp'' (uci_field (si_uci_sets i) ''network.lan.ipaddr'' \<noteq> []) ''uci network/dhcp read failed'',
      guarded fs ''interfaces'' (is_ok (si_wan4_if i) \<and> is_ok (si_cellular i)) ''zte_wan status or get_wwaniface failed'',
      guarded fs ''uci_device_info'' (case map_of fs ''uci_device_info'' of Some (JObject m) \<Rightarrow> m \<noteq> [] | _ \<Rightarrow> False) ''uci read failed'']"

definition project :: "'f rate_ops \<Rightarrow> (json \<Rightarrow> string) \<Rightarrow> 'f inputs \<Rightarrow> u64 \<Rightarrow> projection" where
  "project rt ser i interval =
     (let fs = state_fields rt ser i interval; template = template_for ser i
      in \<lparr>pr_fields = fs, pr_blocks = derived_blocks ser i fs,
          pr_mu5252 = (if template = ''MU5252'' then
             Some \<lparr>mc_raw_net = raw_net_of ser i, mc_imsi = imsi_of ser i, mc_msisdn = msisdn_of ser i,
               mc_cpu_temp = cpu_temp_of template (reply_object (si_thermal i)) (si_cpu_sys i), mc_sim = reply_object (si_sim i),
               mc_imei = reply_object (si_imei i), mc_cellular = reply_object (si_cellular i), mc_wan4_if = reply_object (si_wan4_if i),
               mc_wan6_if = reply_object (si_wan6_if i), mc_uci_sets = si_uci_sets i\<rparr>
           else None)\<rparr>)"

section \<open>Lookups\<close>

lemma map_of_put_all: "map_of (put_all kvs m) = map_of m ++ map_of (rev kvs)"
  unfolding put_all_def by (induction kvs arbitrary: m) (auto simp: fun_eq_iff map_add_def split: option.split)

lemma map_of_map_filter_None:
  assumes "\<And>x y. f x = Some y \<Longrightarrow> fst y \<noteq> k"
  shows "map_of (List.map_filter f xs) k = None"
proof (induction xs)
  case (Cons x xs)
  then show ?case using assms [of x] by (auto simp: List.map_filter_simps split: option.split)
qed (simp add: List.map_filter_simps)

lemma i64_range: "- (2 ^ 63) \<le> num_field_or v k d \<and> num_field_or v k d < 2 ^ 63" if "- (2 ^ 63) \<le> d" "d < 2 ^ 63"
proof -
  have "- (2 ^ 63) \<le> sint n \<and> sint n < 2 ^ 63" for n :: u64
    using sint_ge [of n] sint_lt [of n] by simp
  then show ?thesis
    using that unfolding num_field_or_def by (auto split: option.splits json.splits)
qed

lemma sint_jnum:
  assumes "- (2 ^ 63) \<le> n" "n < 2 ^ 63"
  shows "map_option sint (as_i64 (jnum n)) = Some n"
proof -
  have s: "sint (word_of_int n :: u64) = n"
    using assms by (simp add: sint_sbintrunc' signed_take_bit_int_eq_self)
  then show ?thesis by (simp add: jnum_def jint_def as_i64_def)
qed

text \<open>The tables of the network object: every key stands once, so that a key reads the field its table names.\<close>

lemma net_keys_distinct: "distinct (map fst net_texts @ map fst net_numbers @ [''wan_status'', ''HSR''])"
  by code_simp

lemma net_keys_apart:
  "''wan_status'' \<notin> fst ` set net_numbers" "''HSR'' \<notin> fst ` set net_numbers"
  "''wan_status'' \<notin> fst ` set net_texts" "''HSR'' \<notin> fst ` set net_texts"
  "fst ` set net_texts \<inter> fst ` set net_numbers = {}"
  using net_keys_distinct by (simp_all add: Int_Un_distrib)

lemma map_of_table:
  assumes "distinct (map fst tab)" "(k, p) \<in> set tab"
  shows "map_of (rev (map (\<lambda>(k, p). (k, f p)) tab)) k = Some (f p)"
proof (rule map_of_is_SomeI)
  have "map fst (map (\<lambda>(k, p). (k, f p)) tab) = map fst tab" by auto
  then show "distinct (map fst (rev (map (\<lambda>(k, p). (k, f p)) tab)))"
    using assms(1) by (metis distinct_rev rev_map)
  show "(k, f p) \<in> set (rev (map (\<lambda>(k, p). (k, f p)) tab))" using assms(2) by force
qed

lemma map_of_table_None: "k \<notin> fst ` set tab \<Longrightarrow> map_of (rev (map (\<lambda>(k, p). (k, f p)) tab)) k = None"
  by (force simp: map_of_eq_None_iff)

lemma uci_values_None: "k \<notin> fst ` set paths \<Longrightarrow> map_of (rev (uci_values sets paths)) k = None"
  unfolding uci_values_def map_of_eq_None_iff
  by (induction paths) (force simp: List.map_filter_simps split: if_splits option.splits)+

lemma net_numbers_read:
  assumes "(k, p) \<in> set net_numbers"
  shows "map_of (net_object ser raw sets router) k = Some (jnum (num_field raw p))"
proof -
  have "k \<in> fst ` set net_numbers" using assms by force
  then have "k \<noteq> ''wan_status'' \<and> k \<noteq> ''HSR''" using net_keys_apart by metis
  moreover have "distinct (map fst net_numbers)" using net_keys_distinct by simp
  ultimately show ?thesis using assms
    by (simp add: net_object_def map_of_map_from map_of_table map_add_def)
qed

lemma net_texts_read:
  assumes "(k, p) \<in> set net_texts" "k \<notin> fst ` set supported_bands"
  shows "map_of (net_object ser raw sets router) k = Some (JString (str_field ser raw p))"
proof -
  have "k \<in> fst ` set net_texts" using assms(1) by force
  then have "k \<noteq> ''wan_status'' \<and> k \<noteq> ''HSR'' \<and> k \<notin> fst ` set net_numbers"
    using net_keys_apart by (metis IntI empty_iff)
  moreover have "distinct (map fst net_texts)" using net_keys_distinct by simp
  ultimately show ?thesis using assms
    by (simp add: net_object_def map_of_map_from map_of_table map_of_table_None uci_values_None map_add_def)
qed

lemma later_fields_keys: "map_of (rev (later_fields rt ser i iv)) ''net'' = None"
  by (auto simp: later_fields_def Let_def sms_field_def map_add_def split: option.splits)

lemma power_keeps: "k \<noteq> ''battery'' \<Longrightarrow> k \<noteq> ''power'' \<Longrightarrow> map_of (power_fields t b c r m) k = map_of m k"
  by (auto simp: power_fields_def Let_def map_of_put_all map_add_def split: option.splits)

lemma state_net:
  "map_of (state_fields rt ser i iv) ''net'' =
     Some (JObject (net_object ser (raw_net_of ser i) (si_uci_sets i) (reply_object (si_router_status i))))"
  by (simp add: state_fields_def Let_def map_of_put_all later_fields_keys power_keeps map_add_def)

section \<open>Roaming by country\<close>

definition serving_country :: "(json \<Rightarrow> string) \<Rightarrow> 'f inputs \<Rightarrow> int option" where
  "serving_country ser i = mcc_country (num_field (raw_net_of ser i) ''rmcc'')"

definition home_country :: "(json \<Rightarrow> string) \<Rightarrow> 'f inputs \<Rightarrow> int option" where
  "home_country ser i = Option.bind (imsi_plmn (imsi_of ser i)) (\<lambda>p. mcc_country (fst p))"

definition roaming_shown :: "int option \<Rightarrow> int option \<Rightarrow> json" where
  "roaming_shown s h = (if s = None \<or> h = None then JNull else JBool (s \<noteq> h))"

lemma serving_mcc_net:
  "serving_mcc (net_object ser raw sets router) = opt_filter (\<lambda>c. mcc_country c \<noteq> None) (Some (num_field raw ''rmcc''))"
proof -
  have "(''mcc'', ''rmcc'') \<in> set net_numbers" by (simp add: net_numbers_def)
  moreover have "map_option sint (as_i64 (jnum (num_field raw ''rmcc''))) = Some (num_field raw ''rmcc'')"
    unfolding num_field_def using i64_range [of 0] by (intro sint_jnum) auto
  ultimately show ?thesis by (simp add: serving_mcc_def net_numbers_read del: not_None_eq map_option_eq_Some)
qed

lemma true_roaming_shown:
  "jopt JBool (true_roaming (opt_filter (\<lambda>c. mcc_country c \<noteq> None) (Some s)) (opt_filter (\<lambda>c. mcc_country c \<noteq> None) (map_option fst h))) =
   roaming_shown (mcc_country s) (Option.bind h (\<lambda>p. mcc_country (fst p)))"
  by (cases h) (auto simp: true_roaming_def roaming_shown_def opt_filter_def jopt_def)

lemma roaming_field:
  "jget ''true_roaming'' (add_roaming_fields (JObject m) imsi) = Some (jopt JBool (true_roaming (serving_mcc m) (home_mcc imsi)))"
  by (simp add: add_roaming_fields_def jget_def map_of_put_all map_add_def)

text \<open>
  Property C16. The signal block is served exactly when the network information was read in this round, and then its
  \<open>true_roaming\<close> compares countries: it is null when the country of the serving network or of the card is unknown,
  and otherwise true exactly when the two differ. The roaming flag of the firmware has no part in it.
\<close>

theorem roaming_compares_countries:
  "case map_of (pr_blocks (project rt ser i interval)) ''signal'' of
     Some (Ok d) \<Rightarrow> is_ok (si_net i) \<and>
       jget ''true_roaming'' d = Some (roaming_shown (serving_country ser i) (home_country ser i))
   | Some (Err e) \<Rightarrow> \<not> is_ok (si_net i)
   | None \<Rightarrow> False"
proof -
  let ?net = "net_object ser (raw_net_of ser i) (si_uci_sets i) (reply_object (si_router_status i))"
  have blk: "map_of (pr_blocks (project rt ser i interval)) ''signal'' =
      Some (if is_ok (si_net i) then Ok (add_roaming_fields (JObject ?net) (imsi_of ser i))
        else Err ''zte_nwinfo_api nwinfo_get_netinfo failed'')"
    by (simp add: project_def Let_def derived_blocks_def state_field_def state_net)
  show ?thesis
    by (simp add: blk roaming_field serving_mcc_net home_mcc_def true_roaming_shown serving_country_def home_country_def
        del: not_None_eq)
qed

text \<open>The two sides are symmetric, and a network of the card's own country is never roaming, whatever its MCC.\<close>

lemma same_country_no_roaming: "mcc_country s = mcc_country h \<Longrightarrow> roaming_shown (mcc_country s) (mcc_country h) \<noteq> JBool True"
  by (simp add: roaming_shown_def)

lemma mcc_country_idem: "mcc_country m = Some c \<Longrightarrow> mcc_country c = Some c"
  by (auto simp: mcc_country_def split: if_splits)

section \<open>No stale radio values\<close>


text \<open>A round in which every request failed, on a model that is not known.\<close>

definition dead_round :: "int inputs" where
  "dead_round =
     (let e = Err ''timeout'' in
      \<lparr>si_common = e, si_board = e, si_info = e, si_net = e, si_traffic = e, si_accounting = e, si_limit = e, si_clear_day = e,
       si_sim = e, si_sim_read = False, si_imei = e, si_lan_clients = e, si_wifi_clients = e, si_router_status = e,
       si_thermal = e, si_hightemp = e, si_usb = e, si_battery = e, si_charger = e, si_nfc = e, si_sms_capacity = e,
       si_capacity_read = False, si_sms_nv = e, si_nv_read = False, si_sms_sim = e, si_sim_list_read = False,
       si_sms_list = None, si_lan_if = e, si_wan4_if = e, si_wan6_if = e, si_lan_config = e, si_cellular = e,
       si_uci_sets = [[(''zte_nwinfo.sys_info.network_type'', ''SA'')]], si_qos_logs = \<lparr>pl_candidates = [], pl_fallback_qci = None\<rparr>,
       si_leases = [], si_rails = \<lparr>chg_uv = 0, chg_ua = 0, bat_uv = 0, bat_ua = 0\<rparr>, si_cpu_sys = 0, si_zones = JArray [],
       si_cpu_usage_tenths = - 1, si_runtime = JNull\<rparr>)"


section \<open>Derived blocks\<close>

text \<open>The readings a derived block rests on; every one of them has to be of this round.\<close>

definition sources_read :: "string \<Rightarrow> 'f inputs \<Rightarrow> bool" where
  "sources_read name i \<longleftrightarrow>
     (if name = ''signal'' then is_ok (si_net i)
      else if name = ''live'' then is_ok (si_info i) \<and> is_ok (si_traffic i)
      else if name = ''sms'' then is_ok (si_sms_capacity i) \<and> si_capacity_read i \<and> sms_list_ok i
      else if name = ''sms_list'' then sms_list_ok i
      else if name = ''sim'' then si_sim_read i
      else if name = ''qos'' then is_ok (si_net i) \<and> is_ok (si_usb i)
      else if name = ''clients'' then is_ok (si_lan_clients i) \<and> is_ok (si_wifi_clients i)
      else if name = ''interfaces'' then is_ok (si_wan4_if i) \<and> is_ok (si_cellular i)
      else True)"

lemma guarded_Ok: "(n, Ok d) = guarded fs name ok why \<longleftrightarrow> n = name \<and> ok \<and> map_of fs name = Some d"
  by (auto simp: guarded_def split: option.splits)

lemma sms_block_Ok: "Ok d = sms_block i \<Longrightarrow> is_ok (si_sms_capacity i) \<and> si_capacity_read i \<and> sms_list_ok i"
  by (auto simp: sms_block_def sms_list_ok_def is_ok_def split: sum.splits if_splits)

lemma sms_list_block_Ok: "Ok d = sms_list_block i fs \<Longrightarrow> sms_list_ok i"
  by (auto simp: sms_list_block_def split: option.splits if_splits)

lemma derived_block_sources:
  assumes "(name, Ok d) \<in> set (pr_blocks (project rt ser i interval))"
  shows "sources_read name i"
proof -
  have "(name, Ok d) \<in> set (derived_blocks ser i fs) \<Longrightarrow> sources_read name i" for fs
    unfolding derived_blocks_def list.set insert_iff prod.inject guarded_Ok
    by (elim disjE conjE emptyE) (auto simp: sources_read_def dest: sms_block_Ok sms_list_block_Ok split: if_splits)
  then show ?thesis using assms by (simp add: project_def Let_def)
qed

lemma block_names:
  "map fst (pr_blocks (project rt ser i interval)) =
     [''signal'', ''live'', ''sms'', ''sms_list'', ''sim'', ''qos'', ''clients'', ''wlan'', ''nfc'', ''dhcp'', ''interfaces'', ''uci_device_info'']"
  by (simp add: project_def Let_def derived_blocks_def guarded_def)

section \<open>The provider name round trip\<close>

definition ucs2_hex4 :: "nat \<Rightarrow> string" where
  "ucs2_hex4 u = map (\<lambda>d. char_of (if d < 10 then 48 + d else 55 + d)) [u div 4096, u div 256 mod 16, u div 16 mod 16, u mod 16]"

definition ucs2_hex :: "nat list \<Rightarrow> string" where "ucs2_hex cs = concat (map ucs2_hex4 cs)"

definition plain_unit :: "nat \<Rightarrow> bool" where
  "plain_unit u \<longleftrightarrow> 0 < u \<and> u < 0xFFFF \<and> \<not> high_surrogate u \<and> \<not> low_surrogate u"

lemma hex_digit_cases: "d < 16 \<Longrightarrow>
    is_hexdigit (char_of (if d < 10 then 48 + d else 55 + d :: nat)) \<and>
    \<not> ws_char (char_of (if d < 10 then 48 + d else 55 + d :: nat)) \<and>
    hex_value (char_of (if d < 10 then 48 + d else 55 + d :: nat)) = d"
proof -
  assume "d < 16"
  then have "d \<in> {0,1,2,3,4,5,6,7,8,9,10,11,12,13,14,15}" by simp presburger
  then show ?thesis by (elim insertE emptyE; simp; code_simp)
qed

lemma ucs2_hex4_ok: "u < 65536 \<Longrightarrow> list_all is_hexdigit (ucs2_hex4 u) \<and> list_all (\<lambda>c. \<not> ws_char c) (ucs2_hex4 u) \<and> length (ucs2_hex4 u) = 4"
  using hex_digit_cases [of "u div 4096"] hex_digit_cases [of "u div 256 mod 16"] hex_digit_cases [of "u div 16 mod 16"]
    hex_digit_cases [of "u mod 16"]
  by (simp add: ucs2_hex4_def del: if_split)

lemma four_digits: "((u div 4096 * 16 + u div 256 mod 16) * 16 + u div 16 mod 16) * 16 + u mod 16 = (u :: nat)"
proof -
  have "u div 256 = u div 16 div 16" "u div 4096 = u div 16 div 16 div 16" by (simp_all add: div_mult2_eq [symmetric])
  then show ?thesis by (metis div_mult_mod_eq)
qed

lemma ucs2_units_hex4: "u < 65536 \<Longrightarrow> ucs2_units (ucs2_hex4 u @ s) = u # ucs2_units s"
  using hex_digit_cases [of "u div 4096"] hex_digit_cases [of "u div 256 mod 16"] hex_digit_cases [of "u div 16 mod 16"]
    hex_digit_cases [of "u mod 16"] four_digits [of u]
  by (simp add: ucs2_hex4_def del: if_split)

lemma ucs2_hex_ok:
  assumes "list_all plain_unit cs"
  shows "list_all is_hexdigit (ucs2_hex cs)" "list_all (\<lambda>c. \<not> ws_char c) (ucs2_hex cs)" "length (ucs2_hex cs) mod 4 = 0"
    "ucs2_units (ucs2_hex cs) = cs"
  using assms by (induction cs) (simp_all add: ucs2_hex_def plain_unit_def ucs2_units_hex4 ucs2_hex4_ok)

lemma trim_clean: "list_all (\<lambda>c. \<not> ws_char c) s \<Longrightarrow> trim s = s"
proof -
  have d: "list_all (\<lambda>c. \<not> ws_char c) t \<Longrightarrow> dropWhile ws_char t = t" for t by (cases t) auto
  assume "list_all (\<lambda>c. \<not> ws_char c) s"
  then show ?thesis by (simp add: trim_def d list_all_rev)
qed

lemma utf16_plain: "list_all plain_unit cs \<Longrightarrow> utf16 cs = Some cs"
  by (induction cs) (auto simp: plain_unit_def)

lemma spn_roundtrip:
  assumes "list_all plain_unit cs" "cs \<noteq> []"
  shows "spn_from_ucs2_hex (ucs2_hex cs) = utf8 (trim_codes cs)"
proof -
  have "filter (\<lambda>u. u \<noteq> 0 \<and> u \<noteq> 0xFFFF) cs = cs"
    using assms(1) by (induction cs) (auto simp: plain_unit_def)
  moreover have "ucs2_hex cs \<noteq> []" using assms by (cases cs) (simp_all add: ucs2_hex_def ucs2_hex4_def)
  ultimately show ?thesis
    using ucs2_hex_ok [OF assms(1)] by (simp add: spn_from_ucs2_hex_def Let_def trim_clean utf16_plain assms(1))
qed
end
