(* ===== verification/State_Cache.thy ===== *)
theory State_Cache
  imports Uci Ubus_Device Qos
begin

text \<open>
  The caches of the collector (\<open>state.rs\<close>): every ubus reading and every configuration package has a time to
  live, a control action clears all of it and an SMS event the SMS part. A collector is the device, seen through its
  log, with the two caches and the parsed bearer logs; the clock is a function of the log, monotone where a theorem
  needs it. The lookups, insertions and invalidations are those of the code; \<open>Mutex\<close> poisoning, which needs a
  panic of a holder, does not occur, because a panic ends the process.

  Proved: after an invalidation, a value that a reading returns as read was answered by the device after the
  invalidation, for the same request, and within the time to live; a request that was not sent is never counted as
  read and never overwrites the cache; a failure is kept for at most five seconds.
\<close>

section \<open>Caches\<close>

record 'v cached =
  cc_at :: nat
  cc_ttl :: nat
  cc_value :: 'v

type_synonym 'v cache = "(string \<rightharpoonup> 'v cached) option"
type_synonym uci_map = "(string \<times> string) list"

definition cache_enabled :: "env \<Rightarrow> bool" where
  "cache_enabled E \<longleftrightarrow> e_var E ''ZWRT_DATAD_CACHE'' \<noteq> Some ''0''"

definition cache_get :: "nat \<Rightarrow> 'v cache \<Rightarrow> string \<Rightarrow> 'v option" where
  "cache_get now c k =
     (case c of
        None \<Rightarrow> None
      | Some m \<Rightarrow> (case m k of Some e \<Rightarrow> if now - cc_at e < cc_ttl e then Some (cc_value e) else None | None \<Rightarrow> None))"

definition cache_put :: "nat \<Rightarrow> string \<Rightarrow> nat \<Rightarrow> 'v \<Rightarrow> 'v cache \<Rightarrow> 'v cache" where
  "cache_put now k ttl v c =
     (let m = (case c of Some m \<Rightarrow> m | None \<Rightarrow> Map.empty)
      in Some (m(k \<mapsto> \<lparr>cc_at = now, cc_ttl = ttl, cc_value = v\<rparr>)))"

definition cache_last_ok :: "(string + json) cache \<Rightarrow> string \<Rightarrow> json option" where
  "cache_last_ok c k =
     (case c of
        None \<Rightarrow> None
      | Some m \<Rightarrow> (case m k of Some e \<Rightarrow> ok_opt (cc_value e) | None \<Rightarrow> None))"

definition cache_key :: "env \<Rightarrow> string \<Rightarrow> string \<Rightarrow> json \<Rightarrow> string" where
  "cache_key E service meth args = service @ [CHR 0x00] @ meth @ [CHR 0x00] @ e_json_text E args"

definition is_sms_key :: "string \<Rightarrow> bool" where
  "is_sms_key k \<longleftrightarrow> starts_with k (''zwrt_wms'' @ [CHR 0x00] @ ''zwrt_wms_get_wms_capacity'' @ [CHR 0x00]) \<or>
     starts_with k (''zwrt_wms'' @ [CHR 0x00] @ ''zte_libwms_get_sms_data'' @ [CHR 0x00])"

section \<open>The collector\<close>

record 'f collector =
  co_dev :: device
  co_ubus :: "(string + json) cache"
  co_uci :: "uci_map cache"
  co_logs :: "(nat \<times> 'f parsed_logs) option"

type_synonym ('f, 'a) cio = "('f collector, 'a) state"

definition on_dev :: "'a io \<Rightarrow> ('f, 'a) cio" where
  "on_dev m = State (\<lambda>s. case run_state m (co_dev s) of (x, w) \<Rightarrow> (x, s\<lparr>co_dev := w\<rparr>))"

definition now_at :: "(dev_event list \<Rightarrow> nat) \<Rightarrow> ('f, nat) cio" where
  "now_at clk = State (\<lambda>s. (clk (w_log (co_dev s)), s))"

definition invalidate_cache :: "'f collector \<Rightarrow> 'f collector" where
  "invalidate_cache s = s\<lparr>co_ubus := None, co_uci := None, co_logs := invalidate_logs (co_logs s)\<rparr>"

definition invalidate_sms_cache :: "'f collector \<Rightarrow> 'f collector" where
  "invalidate_sms_cache s =
     s\<lparr>co_ubus := map_option (\<lambda>m k. if is_sms_key k then None else m k) (co_ubus s)\<rparr>"

text \<open>
  \<open>preempt\<close> lets queued control jobs run first; its effect is that of those jobs, which run between two readings.
\<close>

definition ubus_ttl_read :: "env \<Rightarrow> (dev_event list \<Rightarrow> nat) \<Rightarrow> nat \<Rightarrow> string \<Rightarrow> string \<Rightarrow> json \<Rightarrow>
    ('f, (string + json) \<times> bool) cio" where
  "ubus_ttl_read E clk ttl_s service meth args = do {
     let cached = (ttl_s \<noteq> 0 \<and> cache_enabled E);
     let key = cache_key E service meth args;
     s \<leftarrow> State_Monad.get;
     t0 \<leftarrow> now_at clk;
     case (if cached then cache_get t0 (co_ubus s) key else None) of
       Some v \<Rightarrow> State_Monad.return (v, True)
     | None \<Rightarrow> do {
         r \<leftarrow> on_dev (executor_call E service meth args);
         if (case r of Err (USkipped _) \<Rightarrow> True | _ \<Rightarrow> False)
         then State_Monad.return
           (case (if cached then cache_last_ok (co_ubus s) key else None) of
              Some v \<Rightarrow> Ok v | None \<Rightarrow> map_sum (e_text E) id r, False)
         else do {
           let v = map_sum (e_text E) id r;
           t1 \<leftarrow> now_at clk;
           _ \<leftarrow> (if cached
             then State_Monad.update (\<lambda>s. s\<lparr>co_ubus := cache_put t1 key (of_secs (if is_ok v then ttl_s else min ttl_s 5)) v (co_ubus s)\<rparr>)
             else State_Monad.return ());
           State_Monad.return (v, is_ok v)
         }
       }
   }"

definition ubus_ttl :: "env \<Rightarrow> (dev_event list \<Rightarrow> nat) \<Rightarrow> nat \<Rightarrow> string \<Rightarrow> string \<Rightarrow> json \<Rightarrow> ('f, string + json) cio" where
  "ubus_ttl E clk ttl_s service meth args = do {
     r \<leftarrow> ubus_ttl_read E clk ttl_s service meth args;
     State_Monad.return (fst r)
   }"

section \<open>Configuration packages\<close>

definition lossy_text :: "string \<Rightarrow> string" where
  "lossy_text s = bytes_str (utf8_lossy (str_bytes s))"

definition uci_line :: "string \<Rightarrow> (string \<times> string) option" where
  "uci_line l =
     (if CHR ''='' \<notin> set l then None
      else let k = takeWhile (\<lambda>c. c \<noteq> CHR ''='') l; raw = drop (length k + 1) l; q = char_of (39 :: nat)
           in Some (k, if 2 \<le> length raw \<and> hd raw = q \<and> last raw = q then butlast (tl raw) else raw))"

definition uci_show_map :: "string \<Rightarrow> uci_map" where
  "uci_show_map raw = map_from (List.map_filter uci_line (text_lines (lossy_text raw)))"

definition host_path :: "env \<Rightarrow> string \<Rightarrow> string" where
  "host_path E path = (case e_var E ''ZWRT_DATAD_HOST_ROOT'' of Some root \<Rightarrow> (if root = [] then path else root @ path) | None \<Rightarrow> path)"

definition dir_var :: "env \<Rightarrow> string \<Rightarrow> string \<Rightarrow> string" where
  "dir_var E name dflt = (case e_var E name of Some v \<Rightarrow> (if v = [] then host_path E dflt else v) | None \<Rightarrow> host_path E dflt)"

definition uci_config_dir :: "env \<Rightarrow> string" where
  "uci_config_dir E = dir_var E ''ZWRT_DATAD_UCI_CONFIG_DIR'' ''/etc/config''"

definition uci_save_dir :: "env \<Rightarrow> string" where
  "uci_save_dir E = dir_var E ''ZWRT_DATAD_UCI_SAVEDIR'' ''/tmp/.uci''"

text \<open>\<open>files dir name\<close> is the contents of a file, absent when it cannot be read.\<close>

definition uci_parsed :: "env \<Rightarrow> (string \<Rightarrow> string \<Rightarrow> string option) \<Rightarrow> string \<Rightarrow> uci_package option" where
  "uci_parsed E files package =
     (if e_var E ''ZWRT_DATAD_UCI_PARSE'' = Some ''0'' then None
      else uci_load package (files (uci_config_dir E)) (files (uci_save_dir E)))"

definition uci_show :: "env \<Rightarrow> (string \<Rightarrow> string \<Rightarrow> string option) \<Rightarrow> string \<Rightarrow> uci_map io" where
  "uci_show E files package =
     (if \<not> validate_name package then ret []
      else case uci_parsed E files package of
        Some pkg \<Rightarrow> ret (uci_show_map (render_show package pkg))
      | None \<Rightarrow> do {
          r \<leftarrow> command_run E (uci_bin E) [''-q'', ''show'', package] (of_secs 5);
          ret (case r of Ok raw \<Rightarrow> uci_show_map raw | Err _ \<Rightarrow> [])
        })"

definition uci_show_ttl :: "env \<Rightarrow> (dev_event list \<Rightarrow> nat) \<Rightarrow> (string \<Rightarrow> string \<Rightarrow> string option) \<Rightarrow> nat \<Rightarrow> string \<Rightarrow>
    ('f, uci_map) cio" where
  "uci_show_ttl E clk files ttl_s package =
     (if ttl_s = 0 \<or> \<not> cache_enabled E then on_dev (uci_show E files package)
      else do {
        s \<leftarrow> State_Monad.get;
        t0 \<leftarrow> now_at clk;
        case cache_get t0 (co_uci s) package of
          Some v \<Rightarrow> State_Monad.return v
        | None \<Rightarrow> do {
            v \<leftarrow> on_dev (uci_show E files package);
            t1 \<leftarrow> now_at clk;
            _ \<leftarrow> State_Monad.update (\<lambda>s. s\<lparr>co_uci := cache_put t1 package (of_secs ttl_s) v (co_uci s)\<rparr>);
            State_Monad.return v
          }
      })"

text \<open>\<open>splitn(3, '.')\<close>: a third piece with a dot is refused, so that the path has exactly three pieces.\<close>

definition uci_path_value :: "env \<Rightarrow> (string \<Rightarrow> string \<Rightarrow> string option) \<Rightarrow> string \<Rightarrow> string io" where
  "uci_path_value E files path =
     (case split_char (CHR ''.'') path of
        [package, sec, opt] \<Rightarrow>
          if CHR ''@'' \<notin> set path \<and> validate_name package then
            (case uci_parsed E files package of
               Some pkg \<Rightarrow> ret (case uci_get pkg sec opt of Some v \<Rightarrow> trim (lossy_text v) | None \<Rightarrow> [])
             | None \<Rightarrow> uci_read E path)
          else uci_read E path
      | _ \<Rightarrow> uci_read E path)"

section \<open>What a cached value is\<close>

definition cache_find :: "'v cache \<Rightarrow> string \<Rightarrow> 'v cached option" where
  "cache_find c k = Option.bind c (\<lambda>m. m k)"

abbreviation co_log :: "'f collector \<Rightarrow> dev_event list" where "co_log s \<equiv> w_log (co_dev s)"

definition not_sent :: "ubus_error + json \<Rightarrow> bool" where
  "not_sent r \<longleftrightarrow> (case r of Err (USkipped _) \<Rightarrow> True | _ \<Rightarrow> False)"

lemma cache_get_find:
  "cache_get now c k = Some v \<longleftrightarrow> (\<exists>e. cache_find c k = Some e \<and> now - cc_at e < cc_ttl e \<and> cc_value e = v)"
  by (auto simp: cache_get_def cache_find_def split: option.splits if_splits)

lemma cache_find_put: "cache_find (cache_put now k ttl v c) = (cache_find c)(k \<mapsto> \<lparr>cc_at = now, cc_ttl = ttl, cc_value = v\<rparr>)"
  by (auto simp: cache_find_def cache_put_def Let_def fun_eq_iff split: option.splits)

lemma cache_find_sms: "cache_find (co_ubus (invalidate_sms_cache s)) k = (if is_sms_key k then None else cache_find (co_ubus s) k)"
  by (cases "co_ubus s") (simp_all add: cache_find_def invalidate_sms_cache_def)

text \<open>One reading, written out.\<close>

lemma ubus_ttl_read_run:
  "run_state (ubus_ttl_read E clk ttl sv m a) s =
     (let cached = (ttl \<noteq> 0 \<and> cache_enabled E); k = cache_key E sv m a;
          r = e_ubus E (co_log s) sv m a; v = map_sum (e_text E) id r;
          s1 = s\<lparr>co_dev := (co_dev s)\<lparr>w_log := co_log s @ [Ubus sv m a r]\<rparr>\<rparr>
      in case (if cached then cache_get (clk (co_log s)) (co_ubus s) k else None) of
           Some x \<Rightarrow> ((x, True), s)
         | None \<Rightarrow>
             if not_sent r then ((case (if cached then cache_last_ok (co_ubus s) k else None) of Some x \<Rightarrow> Ok x | None \<Rightarrow> v, False), s1)
             else ((v, is_ok v), if cached then s1\<lparr>co_ubus := cache_put (clk (co_log s1)) k
                     (of_secs (if is_ok v then ttl else min ttl 5)) v (co_ubus s)\<rparr> else s1))"
  by (simp add: ubus_ttl_read_def now_at_def on_dev_def executor_call_def log_event_def not_sent_def Let_def
      State_Monad.update_def State_Monad.set_def State_Monad.get_def
      split: option.split)

definition from_device :: "env \<Rightarrow> (dev_event list \<Rightarrow> nat) \<Rightarrow> nat \<Rightarrow> nat \<Rightarrow> dev_event list \<Rightarrow> string \<Rightarrow> (string + json) cached \<Rightarrow> bool" where
  "from_device E clk start bound lg k e \<longleftrightarrow>
     (\<exists>i sv m a r. start \<le> i \<and> i < length lg \<and> lg ! i = Ubus sv m a r \<and> validate_name sv \<and> validate_name m \<and>
        k = cache_key E sv m a \<and> \<not> not_sent r \<and> cc_value e = map_sum (e_text E) id r \<and> cc_at e = clk (take (Suc i) lg) \<and>
        cc_ttl e \<le> of_secs (if is_ok (cc_value e) then bound else 5))"

definition cache_fresh :: "env \<Rightarrow> (dev_event list \<Rightarrow> nat) \<Rightarrow> nat \<Rightarrow> nat \<Rightarrow> 'f collector \<Rightarrow> bool" where
  "cache_fresh E clk start bound s \<longleftrightarrow> start \<le> length (co_log s) \<and>
     (\<forall>k e. cache_find (co_ubus s) k = Some e \<longrightarrow> from_device E clk start bound (co_log s) k e)"

lemma from_device_append: "from_device E clk st b lg k e \<Longrightarrow> from_device E clk st b (lg @ es) k e"
proof -
  assume "from_device E clk st b lg k e"
  then obtain i sv m a r where "st \<le> i" "i < length lg" "lg ! i = Ubus sv m a r" "validate_name sv" "validate_name m"
    "k = cache_key E sv m a" "\<not> not_sent r" "cc_value e = map_sum (e_text E) id r" "cc_at e = clk (take (Suc i) lg)"
    "cc_ttl e \<le> of_secs (if is_ok (cc_value e) then b else 5)"
    unfolding from_device_def by blast
  then show ?thesis unfolding from_device_def
    by (intro exI [of _ i] exI [of _ sv] exI [of _ m] exI [of _ a] exI [of _ r]) (simp add: nth_append)
qed

lemma from_device_last:
  assumes "st \<le> length lg" "validate_name sv" "validate_name m" "\<not> not_sent r" "v = map_sum (e_text E) id r"
    "ttl \<le> of_secs (if is_ok v then b else 5)"
  shows "from_device E clk st b (lg @ [Ubus sv m a r]) (cache_key E sv m a) \<lparr>cc_at = clk (lg @ [Ubus sv m a r]), cc_ttl = ttl, cc_value = v\<rparr>"
  unfolding from_device_def using assms by (intro exI [of _ "length lg"] exI [of _ sv] exI [of _ m] exI [of _ a] exI [of _ r]) simp

lemma cache_fresh_invalidate: "cache_fresh E clk (length (co_log s)) b (invalidate_cache s)"
  by (simp add: cache_fresh_def invalidate_cache_def cache_find_def)

lemma cache_fresh_sms: "cache_fresh E clk st b s \<Longrightarrow> cache_fresh E clk st b (invalidate_sms_cache s)"
  by (auto simp: cache_fresh_def cache_find_sms) (simp_all add: invalidate_sms_cache_def)

lemma cache_fresh_log:
  "cache_fresh E clk st b s \<Longrightarrow> co_ubus s' = co_ubus s \<Longrightarrow> co_log s' = co_log s @ es \<Longrightarrow> cache_fresh E clk st b s'"
  by (auto simp: cache_fresh_def intro: from_device_append)

lemma cache_fresh_read:
  assumes "cache_fresh E clk st b s" "validate_name sv" "validate_name m" "ttl \<le> b"
  shows "cache_fresh E clk st b (snd (run_state (ubus_ttl_read E clk ttl sv m a) s))"
proof -
  let ?r = "e_ubus E (co_log s) sv m a"
  let ?ev = "Ubus sv m a ?r"
  let ?v = "map_sum (e_text E) id ?r"
  let ?ttl = "of_secs (if is_ok ?v then ttl else min ttl 5)"
  let ?s1 = "s\<lparr>co_dev := (co_dev s)\<lparr>w_log := co_log s @ [?ev]\<rparr>\<rparr>"
  have s1: "cache_fresh E clk st b ?s1" by (rule cache_fresh_log [OF assms(1), of _ "[?ev]"]) simp_all
  have put: "cache_fresh E clk st b (?s1\<lparr>co_ubus := cache_put (clk (co_log s @ [?ev])) (cache_key E sv m a) ?ttl ?v (co_ubus s)\<rparr>)"
    if "\<not> not_sent ?r"
  proof -
    have "from_device E clk st b (co_log s @ [?ev]) (cache_key E sv m a) \<lparr>cc_at = clk (co_log s @ [?ev]), cc_ttl = ?ttl, cc_value = ?v\<rparr>"
      using assms that by (intro from_device_last) (auto simp: cache_fresh_def of_secs_def)
    then show ?thesis using s1 by (auto simp: cache_fresh_def cache_find_put)
  qed
  show ?thesis using assms(1) s1 put
    by (cases "is_ok ?v") (simp_all add: ubus_ttl_read_run Let_def split: option.split)
qed

section \<open>A run of the collector\<close>

datatype coll_step =
  SRead nat string string json
| SShow nat string
| SSms

fun coll_exec :: "env \<Rightarrow> (dev_event list \<Rightarrow> nat) \<Rightarrow> (string \<Rightarrow> string \<Rightarrow> string option) \<Rightarrow> coll_step \<Rightarrow> 'f collector \<Rightarrow> 'f collector" where
  "coll_exec E clk files (SRead ttl sv m a) s = snd (run_state (ubus_ttl_read E clk ttl sv m a) s)"
| "coll_exec E clk files (SShow ttl p) s = snd (run_state (uci_show_ttl E clk files ttl p) s)"
| "coll_exec E clk files SSms s = invalidate_sms_cache s"

fun step_ok :: "nat \<Rightarrow> coll_step \<Rightarrow> bool" where
  "step_ok b (SRead ttl sv m a) = (validate_name sv \<and> validate_name m \<and> ttl \<le> b)"
| "step_ok b _ = True"

lemma uci_show_log: "\<exists>es. w_log (snd (run_state (uci_show E files p) w)) = w_log w @ es"
  by (auto simp: uci_show_def command_run_def log_event_def Let_def split: option.split)

lemma uci_show_ttl_keeps:
  "co_ubus (snd (run_state (uci_show_ttl E clk files ttl p) s)) = co_ubus s \<and>
   (\<exists>es. co_log (snd (run_state (uci_show_ttl E clk files ttl p) s)) = co_log s @ es)"
  using uci_show_log [of E files p "co_dev s"]
  by (auto simp: uci_show_ttl_def on_dev_def now_at_def State_Monad.update_def State_Monad.set_def State_Monad.get_def
      split: option.split prod.split)

lemma cache_fresh_step: "cache_fresh E clk st b s \<Longrightarrow> step_ok b x \<Longrightarrow> cache_fresh E clk st b (coll_exec E clk files x s)"
proof (cases x)
  case (SShow ttl p)
  assume "cache_fresh E clk st b s"
  then show ?thesis using uci_show_ttl_keeps [of E clk files ttl p s] SShow by (auto intro: cache_fresh_log)
qed (auto intro: cache_fresh_read cache_fresh_sms)

lemma cache_fresh_steps:
  "list_all (step_ok b) xs \<Longrightarrow> cache_fresh E clk st b s \<Longrightarrow> cache_fresh E clk st b (fold (coll_exec E clk files) xs s)"
  by (induction xs arbitrary: s) (auto intro: cache_fresh_step)

lemma name_no_nul: "validate_name n \<Longrightarrow> CHR 0x00 \<notin> set n"
proof -
  have "\<not> name_char (CHR 0x00)" by code_simp
  moreover have "\<not> name_char c \<Longrightarrow> validate_name n \<Longrightarrow> c \<notin> set n" for c by (auto simp: validate_name_def list_all_iff)
  ultimately show "validate_name n \<Longrightarrow> CHR 0x00 \<notin> set n" by blast
qed

lemma first_split: "n @ c # t = n' @ c # t' \<Longrightarrow> c \<notin> set n \<Longrightarrow> c \<notin> set n' \<Longrightarrow> n = n' \<and> t = t'"
proof (induction n arbitrary: n')
  case Nil
  then show ?case by (cases n') auto
next
  case (Cons x n)
  then show ?case by (cases n') auto
qed

lemma cache_key_inj:
  assumes "validate_name a" "validate_name b" "validate_name a'" "validate_name b'" "cache_key E a b x = cache_key E a' b' y"
  shows "a = a' \<and> b = b' \<and> e_json_text E x = e_json_text E y"
proof -
  have "a @ CHR 0x00 # (b @ CHR 0x00 # e_json_text E x) = a' @ CHR 0x00 # (b' @ CHR 0x00 # e_json_text E y)"
    using assms(5) by (simp add: cache_key_def)
  from first_split [OF this] have same: "a = a'" and rest: "b @ CHR 0x00 # e_json_text E x = b' @ CHR 0x00 # e_json_text E y"
    using assms(1,3) name_no_nul by blast+
  from first_split [OF rest] same show ?thesis using assms(2,4) name_no_nul by blast
qed

text \<open>A reading that counts as read came from the cache or was sent and answered.\<close>

lemma read_outcome:
  assumes "run_state (ubus_ttl_read E clk ttl sv m a) s = ((v, True), s')"
  obtains (hit) e where "cache_find (co_ubus s) (cache_key E sv m a) = Some e" "clk (co_log s) - cc_at e < cc_ttl e"
      "v = cc_value e" "s' = s"
  | (sent) "\<not> not_sent (e_ubus E (co_log s) sv m a)" "v = map_sum (e_text E) id (e_ubus E (co_log s) sv m a)"
      "co_log s' = co_log s @ [Ubus sv m a (e_ubus E (co_log s) sv m a)]"
proof (cases "if ttl \<noteq> 0 \<and> cache_enabled E then cache_get (clk (co_log s)) (co_ubus s) (cache_key E sv m a) else None")
  case (Some x)
  then have "cache_get (clk (co_log s)) (co_ubus s) (cache_key E sv m a) = Some x" by (simp split: if_splits)
  moreover have "v = x" "s' = s" using assms Some by (simp_all add: ubus_ttl_read_run Let_def)
  ultimately show ?thesis using hit by (auto simp: cache_get_find)
next
  case None
  then show ?thesis using assms sent
    by (cases "not_sent (e_ubus E (co_log s) sv m a)") (auto simp: ubus_ttl_read_run Let_def split: if_splits)
qed

text \<open>
  Property C17. After a control action cleared the caches, whatever readings and SMS events follow: what a reading
  returns as read is an answer the device gave to the same request (same object, same method, same arguments) after
  the control action, and it is no older than the largest time to live asked for, five seconds if it is a failure.
  What the device did not answer, because the request was not sent, is not counted as read and stays out of the cache.
\<close>

theorem read_after_control_is_fresh:
  assumes "\<And>l es. clk l \<le> clk (l @ es)" "list_all (step_ok bound) steps" "step_ok bound (SRead ttl sv m a)"
    and "s = fold (coll_exec E clk files) steps (invalidate_cache s0)"
    and "run_state (ubus_ttl_read E clk ttl sv m a) s = ((v, True), s')"
  shows "\<exists>i a' r. length (co_log s0) \<le> i \<and> i < length (co_log s') \<and> co_log s' ! i = Ubus sv m a' r \<and>
    e_json_text E a' = e_json_text E a \<and> \<not> not_sent r \<and> v = map_sum (e_text E) id r \<and>
    clk (co_log s) - clk (take (Suc i) (co_log s')) \<le> of_secs (if is_ok v then bound else 5)"
proof -
  let ?k = "cache_key E sv m a"
  let ?r = "e_ubus E (co_log s) sv m a"
  have fresh: "cache_fresh E clk (length (co_log s0)) bound s"
    unfolding assms(4) using assms(2) by (intro cache_fresh_steps cache_fresh_invalidate)
  have names: "validate_name sv" "validate_name m" using assms(3) by simp_all
  consider (hit) e where "cache_find (co_ubus s) ?k = Some e" "clk (co_log s) - cc_at e < cc_ttl e" "v = cc_value e" "s' = s"
    | (sent) "\<not> not_sent ?r" "v = map_sum (e_text E) id ?r" "co_log s' = co_log s @ [Ubus sv m a ?r]"
    by (rule read_outcome [OF assms(5)])
  then show ?thesis
  proof cases
    case hit
    then have "from_device E clk (length (co_log s0)) bound (co_log s) ?k e" using fresh by (simp add: cache_fresh_def)
    then obtain i sv' m' a' r where i: "length (co_log s0) \<le> i" "i < length (co_log s)" "co_log s ! i = Ubus sv' m' a' r"
      "validate_name sv'" "validate_name m'" "?k = cache_key E sv' m' a'" "\<not> not_sent r" "v = map_sum (e_text E) id r"
      "cc_at e = clk (take (Suc i) (co_log s))" "cc_ttl e \<le> of_secs (if is_ok v then bound else 5)"
      unfolding from_device_def hit(3) by blast
    then have "sv = sv' \<and> m = m' \<and> e_json_text E a = e_json_text E a'" using cache_key_inj names by blast
    then show ?thesis using i hit(2,4) by (intro exI [of _ i] exI [of _ a'] exI [of _ r]) simp
  next
    case sent
    have "length (co_log s0) \<le> length (co_log s)" using fresh by (simp add: cache_fresh_def)
    moreover have "clk (co_log s) - clk (co_log s') = 0" using assms(1) [of "co_log s"] sent(3) by simp
    ultimately show ?thesis using sent by (intro exI [of _ "length (co_log s)"] exI [of _ a] exI [of _ ?r]) simp
  qed
qed

text \<open>A device that answers, and a reading served from the cache one second after the first.\<close>

definition cache_env :: env where
  "cache_env = sample_env\<lparr>e_ubus := (\<lambda>_ _ _ _. Ok (JBool True)), e_var := (\<lambda>_. None), e_json_text := (\<lambda>_. ''{}'')\<rparr>"

definition cache_start :: "int collector" where
  "cache_start = \<lparr>co_dev = \<lparr>w_log = [], w_radio = Map.empty, w_key = None\<rparr>, co_ubus = None, co_uci = None, co_logs = None\<rparr>"

definition cache_clock :: "dev_event list \<Rightarrow> nat" where "cache_clock l = of_secs (length l)"

definition cache_steps :: "coll_step list" where "cache_steps = [SRead 30 ''system'' ''board'' JNull, SSms, SRead 0 ''system'' ''info'' JNull]"

theorem read_after_control_is_fresh_witness:
  "\<exists>v s'. run_state (ubus_ttl_read cache_env cache_clock 30 ''system'' ''board'' JNull)
     (fold (coll_exec cache_env cache_clock (\<lambda>_ _. None)) cache_steps (invalidate_cache cache_start)) = ((v, True), s') \<and>
   (\<exists>i a' r. i < length (co_log s') \<and> co_log s' ! i = Ubus ''system'' ''board'' a' r \<and> v = map_sum (e_text cache_env) id r)"
proof -
  let ?s = "fold (coll_exec cache_env cache_clock (\<lambda>_ _. None)) cache_steps (invalidate_cache cache_start)"
  have mono: "cache_clock l \<le> cache_clock (l @ es)" for l es by (simp add: cache_clock_def of_secs_def)
  have names: "validate_name ''system''" "validate_name ''board''" "validate_name ''info''" by code_simp+
  have ok: "list_all (step_ok 30) cache_steps" "step_ok 30 (SRead 30 ''system'' ''board'' JNull)"
    using names by (simp_all add: cache_steps_def)
  have "fst (run_state (ubus_ttl_read cache_env cache_clock 30 ''system'' ''board'' JNull) ?s) = (Ok (JBool True), True)"
    by (simp add: cache_steps_def ubus_ttl_read_run Let_def cache_env_def cache_start_def cache_clock_def invalidate_cache_def
        invalidate_sms_cache_def cache_enabled_def cache_get_def cache_put_def cache_key_def not_sent_def is_ok_def is_sms_key_def of_secs_def)
  then obtain v s' where run: "run_state (ubus_ttl_read cache_env cache_clock 30 ''system'' ''board'' JNull) ?s = ((v, True), s')"
    by (cases "run_state (ubus_ttl_read cache_env cache_clock 30 ''system'' ''board'' JNull) ?s") auto
  then show ?thesis using read_after_control_is_fresh [OF mono ok refl run] by blast
qed

section \<open>The contract of the caches\<close>

text \<open>
  What the readers rely on, for both caches: an entry is found under its own key until its time is over, and a
  value that is found was put under that key.
\<close>

locale ttl_store =
  fixes get :: "nat \<Rightarrow> 'c \<Rightarrow> string \<Rightarrow> 'v option" and put :: "nat \<Rightarrow> string \<Rightarrow> nat \<Rightarrow> 'v \<Rightarrow> 'c \<Rightarrow> 'c" and nothing :: 'c
  assumes get_nothing: "get t nothing k = None"
    and get_put: "get t (put t0 k ttl v c) k' = (if k' = k then if t - t0 < ttl then Some v else None else get t c k')"
begin

lemma get_history:
  assumes "get t (fold (\<lambda>(t0, k, ttl, v). put t0 k ttl v) ps nothing) k = Some v"
  shows "\<exists>t0 ttl. (t0, k, ttl, v) \<in> set ps \<and> t - t0 < ttl"
  using assms
proof (induction ps rule: rev_induct)
  case (snoc p ps)
  then show ?case by (cases p) (auto simp: get_put split: if_splits)
qed (simp add: get_nothing)

lemma put_twice: "get t (put t1 k ttl1 v1 (put t0 k ttl0 v0 c)) k' = get t (put t1 k ttl1 v1 c) k'"
  by (simp add: get_put)

end

interpretation caches: ttl_store cache_get cache_put None
  by unfold_locales (auto simp: cache_get_def cache_put_def Let_def split: option.split)

lemma uci_show_ttl_run:
  assumes "ttl \<noteq> 0" "cache_enabled E"
  shows "run_state (uci_show_ttl E clk files ttl p) s =
    (case cache_get (clk (co_log s)) (co_uci s) p of
       Some v \<Rightarrow> (v, s)
     | None \<Rightarrow> let (v, w) = run_state (uci_show E files p) (co_dev s)
               in (v, s\<lparr>co_dev := w, co_uci := cache_put (clk (w_log w)) p (of_secs ttl) v (co_uci s)\<rparr>))"
  using assms by (simp add: uci_show_ttl_def now_at_def on_dev_def State_Monad.update_def State_Monad.set_def State_Monad.get_def
      split: option.split prod.split)

text \<open>A package that was read is not read again before its time is over: the same values, and nothing asked of the device.\<close>

lemma package_read_once:
  assumes "ttl \<noteq> 0" "ttl' \<noteq> 0" "cache_enabled E" "cache_get (clk (co_log s)) (co_uci s) p = None"
    "run_state (uci_show_ttl E clk files ttl p) s = (v, s')"
    "co_uci s2 = co_uci s'" "clk (co_log s2) - clk (co_log s') < of_secs ttl"
  shows "run_state (uci_show_ttl E clk files ttl' p) s2 = (v, s2)"
proof -
  obtain w where "run_state (uci_show E files p) (co_dev s) = (v, w)"
    and s': "s' = s\<lparr>co_dev := w, co_uci := cache_put (clk (w_log w)) p (of_secs ttl) v (co_uci s)\<rparr>"
    using assms(4,5) uci_show_ttl_run [OF assms(1,3), of clk files p s] by (auto split: prod.splits)
  then have "cache_get (clk (co_log s2)) (co_uci s2) p = Some v" using assms(6,7) by (simp add: caches.get_put)
  then show ?thesis by (simp add: uci_show_ttl_run [OF assms(2,3)])
qed

end
