(* ===== verification/Host_Stats.thy ===== *)
theory Host_Stats
  imports Snapshot State_Cache
begin

text \<open>
  What the collector computes from files of the host (\<open>state.rs\<close>): CPU use, thermal zones, memory, storage,
  connections, DHCP leases, byte counters of the interfaces and the rates derived from them. A file is its contents,
  or nothing when it cannot be read; the counters kept between two rounds are explicit state. \<open>f64\<close> arithmetic
  on temperatures is a parameter.

  Proved: the CPU use of a core lies between 0 and 1000 or is the sentinel -1, also when counters go backwards or the
  core is new; the throughput ring keeps at most sixteen samples and its rates come from its oldest and newest
  sample; a link rate is given only for counters that did not go backwards over a positive time.
\<close>

section \<open>Texts and numbers\<close>

type_synonym files = "string \<Rightarrow> string option"

fun white_words :: "string \<Rightarrow> string \<Rightarrow> string list" where
  "white_words acc [] = (if acc = [] then [] else [rev acc])"
| "white_words acc (c # s) =
     (if ws_char c then (if acc = [] then white_words [] s else rev acc # white_words [] s)
      else white_words (c # acc) s)"

definition split_whitespace :: "string \<Rightarrow> string list" where "split_whitespace s = white_words [] s"

definition split_at_first :: "char \<Rightarrow> string \<Rightarrow> (string \<times> string) option" where
  "split_at_first c s =
     (if c \<in> set s then Some (takeWhile (\<lambda>x. x \<noteq> c) s, tl (dropWhile (\<lambda>x. x \<noteq> c) s)) else None)"

text \<open>\<open>from_str_radix(_, 16)\<close> for an unsigned type of the given width.\<close>

definition parse_hex :: "nat \<Rightarrow> string \<Rightarrow> nat option" where
  "parse_hex bits s =
     (let ds = (case s of c # cs \<Rightarrow> if c = CHR ''+'' then cs else s | [] \<Rightarrow> []);
          n = foldl (\<lambda>n c. n * 16 + hex_value c) 0 ds
      in if ds = [] \<or> \<not> list_all is_hexdigit ds \<or> 2 ^ bits \<le> n then None else Some n)"

definition sat_mul :: "u64 \<Rightarrow> u64 \<Rightarrow> u64" where
  "sat_mul a b = (if unat a * unat b < 2 ^ 64 then a * b else - 1)"

definition sat_add :: "u64 \<Rightarrow> u64 \<Rightarrow> u64" where
  "sat_add a b = (if unat a + unat b < 2 ^ 64 then a + b else - 1)"

definition ju64 :: "u64 \<Rightarrow> json" where "ju64 n = JNumber (PosInt n)"

definition read_i64 :: "files \<Rightarrow> string \<Rightarrow> int" where
  "read_i64 rd path = (case rd path of Some s \<Rightarrow> (case parse_i64 (trim s) of Some n \<Rightarrow> sint n | None \<Rightarrow> 0) | None \<Rightarrow> 0)"

definition read_text :: "files \<Rightarrow> string \<Rightarrow> string" where
  "read_text rd path = opt_get [] (rd path)"

section \<open>TCP tunnels of the aggregation service\<close>

record tcp_row =
  tr_local :: nat
  tr_address :: string
  tr_port :: nat

definition tcp_line :: "u64 list \<Rightarrow> string \<Rightarrow> nat list \<times> tcp_row list \<Rightarrow> nat list \<times> tcp_row list" where
  "tcp_line owned l acc =
     (let cols = split_whitespace l; port = (\<lambda>p. opt_get 0 (parse_hex 16 p))
      in if length cols < 10 \<or> \<not> is_some_and (parse_u64 (last cols)) (\<lambda>n. n \<in> set owned) then acc
         else if cols ! 3 = ''0A'' then
           (case split_at_first (CHR '':'') (cols ! 1) of Some (_, p) \<Rightarrow> (fst acc @ [port p], snd acc) | None \<Rightarrow> acc)
         else if cols ! 3 = ''01'' then
           (case (split_at_first (CHR '':'') (cols ! 1), split_at_first (CHR '':'') (cols ! 2)) of
              (Some (_, lp), Some (ad, rp)) \<Rightarrow> (fst acc, snd acc @ [\<lparr>tr_local = port lp, tr_address = ad, tr_port = port rp\<rparr>])
            | _ \<Rightarrow> acc)
         else acc)"

definition le_address :: "string \<Rightarrow> string" where
  "le_address ad =
     (let n = opt_get 0 (parse_hex 32 ad)
      in nat_digits (n mod 256) @ ''.'' @ nat_digits (n div 256 mod 256) @ ''.'' @ nat_digits (n div 65536 mod 256) @ ''.'' @
         nat_digits (n div 16777216))"

definition tcp_aggregation_summary :: "env \<Rightarrow> files \<Rightarrow> nat \<times> string \<times> nat \<times> bool" where
  "tcp_aggregation_summary E rd =
     (let path = env_or E ''ZWRT_DATAD_PROC_NET_TCP'' ''/proc/net/tcp'';
          owned = List.map_filter (\<lambda>v. parse_u64 (trim v)) (split_char (CHR '','') (env_or E ''ZWRT_DATAD_ICG_SOCKET_INODES'' []))
      in if owned = [] then (0, [], 0, False)
         else let rows = fold (tcp_line owned) (drop 1 (text_lines (read_text rd path))) ([], []);
                  outgoing = filter (\<lambda>r. tr_local r \<notin> set (fst rows)) (snd rows)
              in case outgoing of
                   r # _ \<Rightarrow> (length outgoing, le_address (tr_address r), tr_port r, True)
                 | [] \<Rightarrow> (0, [], 0, True))"

section \<open>Temperatures\<close>

record 'f temp_ops =
  to_of_milli :: "int \<Rightarrow> 'f" \<comment> \<open>\<open>raw as f64 / 1000.0\<close>\<close>
  to_json :: "'f \<Rightarrow> json"
  to_zero :: 'f
  to_max :: "'f \<Rightarrow> 'f \<Rightarrow> 'f"
  to_mean :: "'f list \<Rightarrow> 'f" \<comment> \<open>the sum divided by the count\<close>
  to_round :: "'f \<Rightarrow> int" \<comment> \<open>\<open>x.round() as i64\<close>\<close>

definition zone_of :: "files \<Rightarrow> string \<Rightarrow> string \<Rightarrow> (string \<times> int) option" where
  "zone_of rd root entry =
     (let name = trim (read_text rd (root @ ''/'' @ entry @ ''/type'')); raw = read_i64 rd (root @ ''/'' @ entry @ ''/temp'')
      in if \<not> starts_with entry ''thermal_zone'' \<or> name = [] \<or> raw \<le> - 40000 \<or> raw = 0 \<or> raw > 200000 then None
         else Some (name, raw))"

definition thermal_zones :: "'f temp_ops \<Rightarrow> env \<Rightarrow> files \<Rightarrow> (string \<Rightarrow> string list option) \<Rightarrow> int \<times> json \<times> json" where
  "thermal_zones tp E rd dir =
     (let root = env_or E ''ZWRT_DATAD_THERMAL_ROOT'' ''/sys/class/thermal''
      in case dir root of
           None \<Rightarrow> (0, JArray [], JArray [])
         | Some entries \<Rightarrow>
             let zs = List.map_filter (zone_of rd root) entries;
                 sorted_zs = sort_key fst zs;
                 cpuss = map (\<lambda>(_, raw). to_of_milli tp raw) (filter (\<lambda>(n, _). starts_with n ''cpuss'') zs);
                 cpu = (if cpuss = [] then foldl (to_max tp) (to_zero tp) (map (\<lambda>(_, raw). to_of_milli tp raw) sorted_zs)
                        else to_mean tp cpuss)
             in (to_round tp cpu,
                 JArray (map (\<lambda>(n, raw). jobj [(''name'', JString n), (''celsius'', to_json tp (to_of_milli tp raw))]) sorted_zs),
                 JArray (map (\<lambda>(n, raw). jobj [(''type'', JString n), (''temp_milli'', jnum raw)]) sorted_zs)))"

definition read_rails :: "env \<Rightarrow> files \<Rightarrow> rails" where
  "read_rails E rd =
     \<lparr>chg_uv = read_i64 rd (host_path E ''/sys/class/power_supply/usb/voltage_now''),
      chg_ua = read_i64 rd (host_path E ''/sys/class/power_supply/usb/current_now''),
      bat_uv = read_i64 rd (host_path E ''/sys/class/power_supply/battery/voltage_now''),
      bat_ua = read_i64 rd (host_path E ''/sys/class/power_supply/battery/current_now'')\<rparr>"

definition battery_v2 :: "env \<Rightarrow> files \<Rightarrow> json \<Rightarrow> (string \<Rightarrow> json option) \<Rightarrow> json" where
  "battery_v2 E rd raw other = battery_object raw (opt_get JNull (other ''charger'')) (read_rails E rd)"

definition charger_v2 :: "json \<Rightarrow> (string \<Rightarrow> json option) \<Rightarrow> json" where
  "charger_v2 raw other = opt_get (JObject []) (power_object raw)"

section \<open>Leases, connections, memory, storage\<close>

definition lease_line :: "string \<Rightarrow> (string \<times> (string \<times> string)) option" where
  "lease_line l =
     (let p = split_whitespace l
      in if 4 \<le> length p then Some (to_ascii_lowercase (p ! 1), p ! 2, if p ! 3 = ''*'' then [] else p ! 3) else None)"

definition lease_metadata :: "env \<Rightarrow> files \<Rightarrow> leases" where
  "lease_metadata E rd =
     map_from (List.map_filter lease_line (text_lines (read_text rd (env_or E ''ZWRT_DATAD_DHCP_LEASES_PATH'' ''/tmp/dhcp.leases''))))"

definition count_lines :: "files \<Rightarrow> string \<Rightarrow> bool \<Rightarrow> nat" where
  "count_lines rd path hd_line =
     (let n = length (text_lines (read_text rd path)) in n - (if hd_line \<and> 0 < n then 1 else 0))"

definition tcp_active :: "env \<Rightarrow> files \<Rightarrow> nat" where
  "tcp_active E rd =
     length (filter (\<lambda>l. let p = split_whitespace l in 3 < length p \<and> p ! 3 = ''01'')
       (drop 1 (text_lines (read_text rd (host_path E ''/proc/net/tcp'')))))"

definition meminfo_values :: "string \<Rightarrow> (string \<times> u64) list" where
  "meminfo_values s =
     map_from (List.map_filter (\<lambda>l. map_option (\<lambda>(k, rest). (k, case split_whitespace rest of
         v # _ \<Rightarrow> opt_get 0 (parse_u64 v) | [] \<Rightarrow> 0)) (split_at_first (CHR '':'') l)) (text_lines s))"

definition meminfo :: "env \<Rightarrow> files \<Rightarrow> json" where
  "meminfo E rd =
     (let vs = meminfo_values (read_text rd (host_path E ''/proc/meminfo'')); get = (\<lambda>k. ju64 (opt_get 0 (map_of vs k)))
      in jobj [(''total'', get ''MemTotal''), (''free'', get ''MemFree''), (''available'', get ''MemAvailable''),
           (''buffers'', get ''Buffers''), (''cached'', get ''Cached''), (''swap_total'', get ''SwapTotal''),
           (''swap_free'', get ''SwapFree'')])"

record statvfs =
  f_frsize :: u64
  f_bsize :: u64
  f_blocks :: u64
  f_bfree :: u64
  f_bavail :: u64

definition storage :: "statvfs option \<Rightarrow> json" where
  "storage st =
     (case st of
        None \<Rightarrow> jobj [(''total'', ju64 0), (''used'', ju64 0), (''available'', ju64 0)]
      | Some st \<Rightarrow>
          let blk = (if f_frsize st > 0 then f_frsize st else f_bsize st);
              total = sat_mul blk (f_blocks st); free = sat_mul blk (f_bfree st)
          in jobj [(''total'', ju64 total), (''used'', ju64 (sat_sub total free)), (''available'', ju64 (sat_mul blk (f_bavail st)))])"

section \<open>Rates\<close>

record speed_sample =
  sp_rx :: u64
  sp_tx :: u64
  sp_at :: u64

record host_mem =
  hm_cpu :: "(string \<times> (u64 \<times> u64)) list"
  hm_link :: "(string \<times> speed_sample) list"
  hm_ring :: "speed_sample list"

definition iface_bytes :: "env \<Rightarrow> files \<Rightarrow> string \<Rightarrow> (u64 \<times> u64) option" where
  "iface_bytes E rd name =
     (let path = env_or E ''ZWRT_DATAD_NET_CLASS_ROOT'' ''/sys/class/net'' @ ''/'' @ name @ ''/statistics'';
          get = (\<lambda>f. Option.bind (rd (path @ f)) (\<lambda>s. parse_u64 (trim s)))
      in case (get ''/rx_bytes'', get ''/tx_bytes'') of (Some rx, Some tx) \<Rightarrow> Some (rx, tx) | _ \<Rightarrow> None)"

definition link_interfaces :: "string list" where
  "link_interfaces = [''rmnet_data0'', ''V3E1net0'', ''V3E2net0'', ''eth0'']"

definition link_window :: "u64 \<Rightarrow> u64 \<times> u64 \<Rightarrow> speed_sample option \<Rightarrow> u64 option" where
  "link_window now c prev =
     (case prev of
        None \<Rightarrow> None
      | Some s \<Rightarrow>
          let w = sat_sub now (sp_at s)
          in if w > 0 \<and> fst c \<ge> sp_rx s \<and> snd c \<ge> sp_tx s then Some w else None)"

definition rate_over :: "u64 \<Rightarrow> u64 \<Rightarrow> u64 \<Rightarrow> u64" where
  "rate_over new_bytes old_bytes w = sat_mul (sat_sub new_bytes old_bytes) 1000 div w"

definition link_entry :: "string \<Rightarrow> u64 \<Rightarrow> u64 \<times> u64 \<Rightarrow> speed_sample option \<Rightarrow> json" where
  "link_entry name now c prev =
     (let rate = (\<lambda>get now_bytes. case (link_window now c prev, prev) of
            (Some w, Some s) \<Rightarrow> ju64 (rate_over now_bytes (get s) w) | _ \<Rightarrow> JNull)
      in jobj [(''interface'', JString name), (''source'', JString ''netdev''),
           (''window_ms'', ju64 (opt_get 0 (link_window now c prev))), (''rx_bytes'', ju64 (fst c)), (''tx_bytes'', ju64 (snd c)),
           (''rx_bps'', rate sp_rx (fst c)), (''tx_bps'', rate sp_tx (snd c))])"

definition link_step :: "env \<Rightarrow> files \<Rightarrow> u64 \<Rightarrow> string \<Rightarrow> json list \<times> (string \<times> speed_sample) list \<Rightarrow> json list \<times> (string \<times> speed_sample) list" where
  "link_step E rd now name acc =
     (case iface_bytes E rd name of
        None \<Rightarrow> (fst acc, map_remove name (snd acc))
      | Some c \<Rightarrow> (fst acc @ [link_entry name now c (map_of (snd acc) name)],
                   map_insert name \<lparr>sp_rx = fst c, sp_tx = snd c, sp_at = now\<rparr> (snd acc)))"

definition link_rates :: "env \<Rightarrow> files \<Rightarrow> u64 \<Rightarrow> (string \<times> speed_sample) list \<Rightarrow> json list \<times> (string \<times> speed_sample) list" where
  "link_rates E rd now prev = fold (link_step E rd now) link_interfaces ([], prev)"

definition swap_sum :: "(u64 \<times> u64) list \<Rightarrow> u64 \<times> u64" where
  "swap_sum cs = foldl (\<lambda>acc c. (sat_add (fst acc) (snd c), sat_add (snd acc) (fst c))) (0, 0) cs"

definition user_bytes :: "env \<Rightarrow> files \<Rightarrow> u64 \<times> u64" where
  "user_bytes E rd =
     (case iface_bytes E rd ''br-lan'' of
        Some (rx, tx) \<Rightarrow> (tx, rx)
      | None \<Rightarrow>
          let wifi = List.map_filter (iface_bytes E rd) [''wlan0'', ''wlan2'']
          in if wifi \<noteq> [] then swap_sum wifi
             else swap_sum (List.map_filter (iface_bytes E rd) [''rmnet_data0'', ''rmnet_ipa0'']))"

definition ring_max :: nat where "ring_max = 16"

definition speed_push :: "speed_sample \<Rightarrow> speed_sample list \<Rightarrow> speed_sample list" where
  "speed_push s r = (if length r = ring_max then tl r else r) @ [s]"

definition throughput_of :: "u64 \<Rightarrow> speed_sample list \<Rightarrow> u64 \<times> u64 \<times> u64" where
  "throughput_of now r =
     (let new_s = last r; first_s = hd r; w = sat_sub now (sp_at first_s)
      in if length r < 2 \<or> w = 0 then (0, 0, 0)
         else (rate_over (sp_rx new_s) (sp_rx first_s) w, rate_over (sp_tx new_s) (sp_tx first_s) w, w))"

definition throughput :: "env \<Rightarrow> files \<Rightarrow> u64 \<Rightarrow> speed_sample list \<Rightarrow> json \<times> speed_sample list" where
  "throughput E rd now r =
     (let c = user_bytes E rd; r' = speed_push \<lparr>sp_rx = fst c, sp_tx = snd c, sp_at = now\<rparr> r; t = throughput_of now r'
      in (jobj [(''rx_bps'', ju64 (fst t)), (''tx_bps'', ju64 (fst (snd t))), (''window_ms'', ju64 (snd (snd t)))], r'))"

section \<open>Runtime\<close>

definition cpu_label :: "string \<Rightarrow> bool" where
  "cpu_label l \<longleftrightarrow> l = ''cpu'' \<or> starts_with l ''cpu'' \<and> drop 3 l \<noteq> [] \<and> list_all is_digit (drop 3 l)"

definition cpu_line :: "string \<Rightarrow> (string \<times> (u64 \<times> u64)) option" where
  "cpu_line l =
     (case split_whitespace l of
        [] \<Rightarrow> None
      | label # parts \<Rightarrow>
          let nums = map (\<lambda>v. opt_get 0 (parse_u64 v)) (take 8 parts)
          in if \<not> cpu_label label \<or> length nums < 4 then None
             else Some (label, sum_list nums, nums ! 3 + (if 4 < length nums then nums ! 4 else 0)))"

definition cpu_counters :: "string \<Rightarrow> (string \<times> (u64 \<times> u64)) list" where
  "cpu_counters s = map_from (List.map_filter cpu_line (text_lines s))"

definition cpu_usage :: "u64 \<times> u64 \<Rightarrow> (u64 \<times> u64) option \<Rightarrow> int" where
  "cpu_usage c prev =
     (case prev of
        None \<Rightarrow> - 1
      | Some p \<Rightarrow>
          let dt = sat_sub (fst c) (fst p); di = sat_sub (snd c) (snd p)
          in if dt > 0 then sint (sat_sub dt di * 1000 div dt) else - 1)"

definition core_freq :: "env \<Rightarrow> files \<Rightarrow> string \<Rightarrow> json" where
  "core_freq E rd core_name =
     (let root = host_path E (''/sys/devices/system/cpu/'' @ core_name @ ''/cpufreq'');
          get = (\<lambda>a b. let v = read_i64 rd (root @ a) in if v = 0 then read_i64 rd (root @ b) else v)
      in jobj [(''cur'', jnum (get ''/scaling_cur_freq'' ''/cpuinfo_cur_freq'' sdiv 1000)),
           (''max'', jnum (get ''/scaling_max_freq'' ''/cpuinfo_max_freq'' sdiv 1000))])"

definition connections_json :: "env \<Rightarrow> files \<Rightarrow> json" where
  "connections_json E rd =
     (let act = tcp_active E rd; n = (\<lambda>p. count_lines rd (host_path E p) True); num = (\<lambda>k. ju64 (of_nat k)); tcp4 = n ''/proc/net/tcp''
      in jobj [(''tcp_active'', num act), (''tcp_other'', num (tcp4 - act)), (''tcp4'', num tcp4), (''tcp6'', num (n ''/proc/net/tcp6'')),
           (''udp4'', num (n ''/proc/net/udp'')), (''udp6'', num (n ''/proc/net/udp6'')), (''unix'', num (n ''/proc/net/unix''))])"

definition runtime :: "env \<Rightarrow> files \<Rightarrow> statvfs option \<Rightarrow> u64 \<Rightarrow> json \<Rightarrow> host_mem \<Rightarrow> (int \<times> json) \<times> host_mem" where
  "runtime E rd st now zones hm =
     (let cur = cpu_counters (read_text rd (host_path E ''/proc/stat''));
          total = (case map_of cur ''cpu'' of Some c \<Rightarrow> cpu_usage c (map_of (hm_cpu hm) ''cpu'') | None \<Rightarrow> - 1);
          cores = map (\<lambda>(l, c). (l, cpu_usage c (map_of (hm_cpu hm) l))) (filter (\<lambda>(l, _). l \<noteq> ''cpu'') cur);
          links = link_rates E rd now (hm_link hm);
          thr = throughput E rd now (hm_ring hm)
      in ((total, jobj [(''cpu_usage_tenths'', jnum total), (''cpu_cores'', jobj (map (\<lambda>(l, u). (l, jnum u)) cores)),
            (''cpu_freq_mhz'', jobj (map (\<lambda>(l, _). (l, core_freq E rd l)) cores)), (''thermal_zones'', zones),
            (''memory_kb'', meminfo E rd), (''storage'', storage st), (''connections'', connections_json E rd),
            (''link_rates'', JArray (fst links)), (''throughput'', fst thr)]),
          \<lparr>hm_cpu = cur, hm_link = snd links, hm_ring = snd thr\<rparr>))"

section \<open>Bounds\<close>

lemma small_sint:
  assumes "unat (y :: u64) \<le> 1000"
  shows "0 \<le> sint y \<and> sint y \<le> 1000"
proof -
  have "uint y = int (unat y)" by simp
  then have u: "uint y \<le> 1000" using assms by linarith
  have "sint y = uint y"
    unfolding sint_uint using u by (intro signed_take_bit_int_eq_self) (simp_all add: order.trans [of _ 0])
  then show ?thesis using u by simp
qed

lemma permille_bound:
  fixes x d :: u64
  assumes "x \<le> d" "0 < d" "unat d < 2 ^ 54"
  shows "0 \<le> sint (x * 1000 div d) \<and> sint (x * 1000 div d) \<le> 1000"
proof -
  have xd: "unat x \<le> unat d" using assms(1) by (simp add: word_le_nat_alt)
  then have lt: "unat x * 1000 < 2 ^ 64" using assms(3) by simp
  then have prod: "unat (x * 1000) = unat x * 1000" by (simp add: unat_word_ariths)
  have "unat (x * 1000 div d) = unat x * 1000 div unat d" by (simp add: unat_div prod)
  also have "\<dots> \<le> unat d * 1000 div unat d" using xd by (intro div_le_mono) simp
  also have "\<dots> = 1000" using assms(2) by (simp add: word_less_nat_alt)
  finally have "unat (x * 1000 div d) \<le> 1000" .
  then show ?thesis by (rule small_sint)
qed

text \<open>CPU use is a per mille value or the sentinel, whatever the counters did since the last round.\<close>

theorem cpu_usage_bounded:
  assumes "unat (fst c) < 2 ^ 54"
  shows "cpu_usage c prev = - 1 \<or> 0 \<le> cpu_usage c prev \<and> cpu_usage c prev \<le> 1000"
proof (cases prev)
  case (Some p)
  let ?dt = "sat_sub (fst c) (fst p)" and ?di = "sat_sub (snd c) (snd p)"
  have "sat_sub ?dt ?di \<le> ?dt" "unat ?dt \<le> unat (fst c)" by (simp_all add: word_le_nat_alt unat_sat_sub)
  then show ?thesis using Some assms permille_bound [of "sat_sub ?dt ?di" ?dt] by (auto simp: cpu_usage_def Let_def)
qed (simp add: cpu_usage_def)

theorem throughput_ring_bounded:
  "length r \<le> ring_max \<Longrightarrow> length (snd (throughput E rd now r)) \<le> ring_max \<and> last (snd (throughput E rd now r)) =
     \<lparr>sp_rx = fst (user_bytes E rd), sp_tx = snd (user_bytes E rd), sp_at = now\<rparr>"
  by (auto simp: throughput_def Let_def speed_push_def ring_max_def)

text \<open>A link rate is given exactly when both counters went on from the sample before, over a positive time.\<close>

theorem link_rate_given:
  "jget ''rx_bps'' (link_entry name now c prev) = Some JNull \<longleftrightarrow> link_window now c prev = None"
  "link_window now c prev = Some w \<longleftrightarrow> (\<exists>s. prev = Some s \<and> sp_rx s \<le> fst c \<and> sp_tx s \<le> snd c \<and> sp_at s < now \<and> w = now - sp_at s)"
proof -
  show "jget ''rx_bps'' (link_entry name now c prev) = Some JNull \<longleftrightarrow> link_window now c prev = None"
    by (cases prev) (auto simp: link_entry_def Let_def jget_jobj map_of_map_from link_window_def ju64_def split: option.splits if_splits)
  show "link_window now c prev = Some w \<longleftrightarrow> (\<exists>s. prev = Some s \<and> sp_rx s \<le> fst c \<and> sp_tx s \<le> snd c \<and> sp_at s < now \<and> w = now - sp_at s)"
    by (auto simp: link_window_def Let_def sat_sub_def word_gt_0 split: option.splits)
qed
end
