(* ===== verification/Compare.thy ===== *)
theory Compare
  imports Host_Stats
begin

text \<open>
  The two comparison tools: \<open>--ubus-compare\<close> (\<open>ubus/compare.rs\<close>), which makes a call through the socket, the command
  line program and the socket again, and \<open>--compare-state-shape\<close> (\<open>model.rs\<close>). Floating point equality and the
  distance of six decimals are parameters, as are the texts of the JSON parser's errors.

  Proved: on two equal socket readings the verdict is ``same'' exactly when the command line value agrees with them,
  field by field; a path in the output never carries a key that is not an identifier.
\<close>

section \<open>Outcomes\<close>

datatype call_outcome = OData json | ONoData | OStatus int | OOther string

definition from_socket :: "(ubus_error \<Rightarrow> string) \<Rightarrow> ubus_error + json \<Rightarrow> call_outcome" where
  "from_socket text r =
     (case r of
        Ok v \<Rightarrow> OData v
      | Err e \<Rightarrow>
          (case e of
             UStatus _ _ code \<Rightarrow> OStatus code
           | UNotFound _ \<Rightarrow> OStatus st_not_found
           | UNoData _ _ \<Rightarrow> ONoData
           | _ \<Rightarrow> OOther (text e)))"

definition cli_status :: "int \<Rightarrow> int" where
  "cli_status code = (if code > 128 then 256 - code else code)"

definition ascii_white :: "char \<Rightarrow> bool" where
  "ascii_white c \<longleftrightarrow> (of_char c :: nat) \<in> {9, 10, 12, 13, 32}"

definition from_cli :: "(string \<Rightarrow> string + json) \<Rightarrow> string + int \<times> string \<Rightarrow> call_outcome" where
  "from_cli parse_json r =
     (case r of
        Err e \<Rightarrow> OOther e
      | Ok (code, out) \<Rightarrow>
          if code = 0 then
            (if list_all ascii_white out then ONoData
             else case parse_json out of Ok v \<Rightarrow> OData v | Err e \<Rightarrow> OOther (''ubus call output is not JSON: '' @ e))
          else OStatus (cli_status code))"

section \<open>Differences\<close>

record diff =
  df_values :: nat
  df_changed :: nat
  df_precision :: nat
  df_shape :: "string list"
  df_mismatch :: "string list"

definition diff_new :: diff where
  "diff_new = \<lparr>df_values = 0, df_changed = 0, df_precision = 0, df_shape = [], df_mismatch = []\<rparr>"

definition diff_same :: "diff \<Rightarrow> bool" where
  "diff_same d \<longleftrightarrow> df_shape d = [] \<and> df_mismatch d = []"

fun kind :: "json \<Rightarrow> nat" where
  "kind JNull = 0"
| "kind (JBool _) = 1"
| "kind (JNumber _) = 2"
| "kind (JString _) = 3"
| "kind (JArray _) = 4"
| "kind (JObject _) = 5"

definition plain_key :: "string \<Rightarrow> bool" where
  "plain_key k \<longleftrightarrow> k \<noteq> [] \<and> (alnum (hd k) \<and> \<not> is_digit (hd k) \<or> hd k = CHR ''_'') \<and>
     list_all (\<lambda>c. alnum c \<or> c = CHR ''_'' \<or> c = CHR ''-'') k"

definition join_path :: "string \<Rightarrow> string \<Rightarrow> string" where
  "join_path path k = (let seg = (if plain_key k then k else ''<key>'') in if path = [] then seg else path @ ''.'' @ seg)"

definition label :: "string \<Rightarrow> string" where
  "label path = (if path = [] then ''(top)'' else path)"

text \<open>What \<open>f64\<close> is used for: equality of the bits of finite numbers, and a distance of at most \<open>1e-6\<close> between the values of two numbers.\<close>

record float_cmp =
  fc_eq :: "u64 \<Rightarrow> u64 \<Rightarrow> bool"
  fc_close :: "number \<Rightarrow> number \<Rightarrow> bool"

definition leaf_eq :: "float_cmp \<Rightarrow> json \<Rightarrow> json \<Rightarrow> bool" where
  "leaf_eq fc a b = (case (a, b) of (JNumber (Float x), JNumber (Float y)) \<Rightarrow> fc_eq fc x y | _ \<Rightarrow> a = b)"

definition is_f64 :: "json \<Rightarrow> bool" where
  "is_f64 v = (case v of JNumber (Float _) \<Rightarrow> True | _ \<Rightarrow> False)"

definition within_cli_decimals :: "float_cmp \<Rightarrow> json \<Rightarrow> json \<Rightarrow> bool" where
  "within_cli_decimals fc a b =
     (case (a, b) of (JNumber x, JNumber y) \<Rightarrow> (is_f64 a \<or> is_f64 b) \<and> fc_close fc x y | _ \<Rightarrow> False)"

definition shape_at :: "string \<Rightarrow> diff \<Rightarrow> diff" where
  "shape_at path d = d\<lparr>df_shape := df_shape d @ [label path]\<rparr>"

definition changed_once :: "diff \<Rightarrow> diff" where
  "changed_once d = d\<lparr>df_changed := df_changed d + 1\<rparr>"

definition walk_leaf :: "float_cmp \<Rightarrow> string \<Rightarrow> json \<Rightarrow> json \<Rightarrow> json \<Rightarrow> diff \<Rightarrow> diff" where
  "walk_leaf fc path s1 c s2 d =
     (let d = d\<lparr>df_values := df_values d + 1\<rparr>
      in if \<not> leaf_eq fc s1 s2 then changed_once d
         else if \<not> leaf_eq fc c s1 then
           (if within_cli_decimals fc s1 c then d\<lparr>df_precision := df_precision d + 1\<rparr>
            else d\<lparr>df_mismatch := df_mismatch d @ [label path]\<rparr>)
         else d)"

definition all_keys :: "(string \<times> json) list \<Rightarrow> (string \<times> json) list \<Rightarrow> (string \<times> json) list \<Rightarrow> string list" where
  "all_keys a c b = sort (remdups (map fst a @ map fst c @ map fst b))"

lemma size_entry: "Some v = map_of m k \<Longrightarrow> size v < Suc (size_list (size_prod (\<lambda>x. 0) size) m)"
  by (induction m) (auto split: if_splits)

lemma size_item: "i < length xs \<Longrightarrow> size (xs ! i) < Suc (size_list size xs)"
  using size_list_estimation' [OF nth_mem, of i xs "size (xs ! i)" size] by simp

function walk :: "float_cmp \<Rightarrow> string \<Rightarrow> json \<Rightarrow> json \<Rightarrow> json \<Rightarrow> diff \<Rightarrow> diff" where
  "walk fc path s1 c s2 d =
     (if kind s1 \<noteq> kind s2 then changed_once d
      else if kind c \<noteq> kind s1 then shape_at path d
      else case (s1, c, s2) of
        (JObject a, JObject cm, JObject b) \<Rightarrow>
          fold (\<lambda>k d. case (map_of a k, map_of cm k, map_of b k) of
                 (Some x, Some y, Some z) \<Rightarrow> walk fc (join_path path k) x y z d
               | (Some _, None, Some _) \<Rightarrow> shape_at (join_path path k) d
               | (None, Some _, None) \<Rightarrow> shape_at (join_path path k) d
               | _ \<Rightarrow> changed_once d) (all_keys a cm b) d
      | (JArray a, JArray ca, JArray b) \<Rightarrow>
          if length a \<noteq> length b then changed_once d
          else if length ca \<noteq> length a then shape_at path d
          else fold (\<lambda>i d. if i < length a then walk fc (path @ ''['' @ nat_digits i @ '']'') (a ! i) (ca ! i) (b ! i) d else d) [0..<length a] d
      | _ \<Rightarrow> walk_leaf fc path s1 c s2 d)"
  by pat_completeness auto

termination by (relation "measure (\<lambda>(fc, path, s1, c, s2, d). size s1)") (auto intro: size_entry simp: size_item)

declare walk.simps [simp del]

definition diff_of :: "float_cmp \<Rightarrow> json \<Rightarrow> json \<Rightarrow> json \<Rightarrow> diff" where
  "diff_of fc s1 c s2 = walk fc [] s1 c s2 diff_new"

section \<open>Verdict\<close>

definition max_paths :: nat where "max_paths = 8"

fun join_texts :: "string \<Rightarrow> string list \<Rightarrow> string" where
  "join_texts sep [] = []"
| "join_texts sep [x] = x"
| "join_texts sep (x # xs) = x @ sep @ join_texts sep xs"

definition list_paths :: "string list \<Rightarrow> string" where
  "list_paths ps = join_texts '', '' (take max_paths ps) @
     (if length ps > max_paths then '' and '' @ nat_digits (length ps - max_paths) @ '' more'' else [])"

definition describe :: "call_outcome \<Rightarrow> string" where
  "describe r = (case r of OData _ \<Rightarrow> ''data'' | ONoData \<Rightarrow> ''no data''
     | OStatus c \<Rightarrow> status_name c @ '' ('' @ int_digits c @ '')'' | OOther e \<Rightarrow> e)"

definition diff_text :: "diff \<Rightarrow> string" where
  "diff_text d =
     nat_digits (df_values d) @ '' values, '' @ nat_digits (df_changed d) @ '' changed between the two socket reads'' @
     (if df_precision d > 0 then '', '' @ nat_digits (df_precision d) @ '' equal within 6 decimals'' else []) @
     (if df_shape d \<noteq> [] then ''; structure differs at '' @ list_paths (df_shape d) else []) @
     (if df_mismatch d \<noteq> [] then ''; stable values differ at '' @ list_paths (df_mismatch d) else [])"

definition compare_verdict :: "float_cmp \<Rightarrow> call_outcome \<Rightarrow> call_outcome \<Rightarrow> call_outcome \<Rightarrow> bool \<times> string" where
  "compare_verdict fc s1 c s2 =
     (let other = (False, ''socket: '' @ describe s1 @ ''; ubus call: '' @ describe c @ ''; socket again: '' @ describe s2)
      in case (s1, c, s2) of
           (OData a, OData b, OData z) \<Rightarrow> let d = diff_of fc a b z in (diff_same d, diff_text d)
         | (ONoData, ONoData, ONoData) \<Rightarrow> (True, ''no data from either'')
         | (OStatus x, OStatus y, OStatus z) \<Rightarrow> if x = y \<and> y = z then (True, ''same error: '' @ describe s1) else other
         | _ \<Rightarrow> other)"

definition listed_id :: "string \<Rightarrow> nat option" where
  "listed_id out =
     (case text_lines (lossy_text out) of
        [] \<Rightarrow> None
      | l # _ \<Rightarrow> Option.bind (after_tag l '' @'') (\<lambda>rest. parse_hex 32 (trim rest)))"

definition compare_args :: "string list \<Rightarrow> (string \<times> string) list option" where
  "compare_args args =
     (let ps = map (split_at_first (CHR '':'')) args
      in if args \<noteq> [] \<and> list_all (\<lambda>p. is_some_and p (\<lambda>(obj, m). validate_name obj \<and> validate_name m)) ps
         then Some (List.map_filter id ps) else None)"

record compare_stats =
  cs_connects :: nat
  cs_dropped :: nat
  cs_timeouts :: nat

text \<open>
  The exit code of \<open>run\<close>: the outcomes of each call (socket, command line, socket), the object ids the client
  learnt with what \<open>ubus -v list\<close> printed for them, and the counters of the client.
\<close>

definition compare_exit :: "float_cmp \<Rightarrow> string list \<Rightarrow> (string \<times> string \<Rightarrow> call_outcome \<times> call_outcome \<times> call_outcome) \<Rightarrow>
    (nat \<times> (string + int \<times> string)) list \<Rightarrow> compare_stats \<Rightarrow> nat" where
  "compare_exit fc args outcomes ids st =
     (case compare_args args of
        None \<Rightarrow> 2
      | Some calls \<Rightarrow>
          let same = (\<lambda>call. case outcomes call of (s1, c, s2) \<Rightarrow> fst (compare_verdict fc s1 c s2));
              id_ok = (\<lambda>(n, r). (case r of Ok (code, out) \<Rightarrow> if code = 0 then listed_id out else None | Err _ \<Rightarrow> None) = Some n);
              clean = (cs_dropped st = 0 \<and> cs_connects st \<le> 1 + cs_timeouts st)
          in if list_all same calls \<and> list_all id_ok ids \<and> clean then 0 else 1)"

definition compare_socket_call :: "(ubus_error + json) \<Rightarrow> (ubus_error + json) \<Rightarrow> (ubus_error \<Rightarrow> string) \<Rightarrow> call_outcome \<times> bool" where
  "compare_socket_call first second text =
     (case first of
        Err e \<Rightarrow> if is_timeout e then (from_socket text second, True) else (from_socket text first, False)
      | Ok _ \<Rightarrow> (from_socket text first, False))"

section \<open>The verdict is exact\<close>

text \<open>Agreement of a value with what the command line printed of it.\<close>

inductive agrees :: "float_cmp \<Rightarrow> json \<Rightarrow> json \<Rightarrow> bool" for fc where
  leaf: "kind v = kind c \<Longrightarrow> kind v < 4 \<Longrightarrow> leaf_eq fc c v \<or> within_cli_decimals fc v c \<Longrightarrow> agrees fc v c"
| arr: "length a = length b \<Longrightarrow> (\<And>i. i < length a \<Longrightarrow> agrees fc (a ! i) (b ! i)) \<Longrightarrow> agrees fc (JArray a) (JArray b)"
| obj: "fst ` set a = fst ` set b \<Longrightarrow> (\<And>k x y. map_of a k = Some x \<Longrightarrow> map_of b k = Some y \<Longrightarrow> agrees fc x y) \<Longrightarrow>
    agrees fc (JObject a) (JObject b)"

inductive_simps agrees_array: "agrees fc (JArray a) c"
inductive_simps agrees_object: "agrees fc (JObject a) c"

text \<open>Floating point equality is reflexive on the values of a reading, which are never NaN.\<close>

definition float_refl :: "float_cmp \<Rightarrow> bool" where "float_refl fc \<longleftrightarrow> (\<forall>x. fc_eq fc x x)"

lemma leaf_eq_refl: "float_refl fc \<Longrightarrow> leaf_eq fc v v"
  by (auto simp: leaf_eq_def float_refl_def split: json.split number.split)

lemma same_parts [simp]:
  "diff_same (changed_once d) = diff_same d" "\<not> diff_same (shape_at p d)"
  by (simp_all add: diff_same_def changed_once_def shape_at_def)

lemma walk_leaf_same:
  "float_refl fc \<Longrightarrow> diff_same (walk_leaf fc p v c v d) \<longleftrightarrow> diff_same d \<and> (leaf_eq fc c v \<or> within_cli_decimals fc v c)"
  by (auto simp: walk_leaf_def Let_def leaf_eq_refl diff_same_def)

lemma fold_same:
  assumes "\<And>x d. x \<in> set xs \<Longrightarrow> diff_same (f x d) \<longleftrightarrow> diff_same d \<and> ok x"
  shows "diff_same (fold f xs d) \<longleftrightarrow> diff_same d \<and> (\<forall>x \<in> set xs. ok x)"
  using assms by (induction xs arbitrary: d) auto

lemma agrees_kind: "agrees fc v c \<Longrightarrow> kind v = kind c"
  by (erule agrees.cases) auto

lemma agrees_leaf: "kind v < 4 \<Longrightarrow> kind c = kind v \<Longrightarrow> agrees fc v c \<longleftrightarrow> leaf_eq fc c v \<or> within_cli_decimals fc v c"
  by (auto elim: agrees.cases intro: agrees.leaf)

lemma all_keys_set: "set (all_keys a c b) = fst ` set a \<union> fst ` set c \<union> fst ` set b"
  by (auto simp: all_keys_def)

lemma map_of_None_keys: "map_of m k = None \<longleftrightarrow> k \<notin> fst ` set m"
  by (simp add: map_of_eq_None_iff)

lemma agrees_objects:
  "agrees fc (JObject a) (JObject b) \<longleftrightarrow>
   (\<forall>k \<in> set (all_keys a b a). case (map_of a k, map_of b k) of (Some x, Some y) \<Rightarrow> agrees fc x y | _ \<Rightarrow> False)"
  (is "?l \<longleftrightarrow> ?r")
proof
  assume l: ?l
  show ?r
  proof
    fix k assume "k \<in> set (all_keys a b a)"
    then have "k \<in> fst ` set a" "k \<in> fst ` set b" using l by (auto simp: agrees_object all_keys_set)
    then obtain x y where "map_of a k = Some x" "map_of b k = Some y" by (metis map_of_None_keys not_None_eq)
    then show "case (map_of a k, map_of b k) of (Some x, Some y) \<Rightarrow> agrees fc x y | _ \<Rightarrow> False"
      using l by (auto simp: agrees_object)
  qed
next
  assume r: ?r
  have both: "map_of a k \<noteq> None \<longleftrightarrow> map_of b k \<noteq> None" for k
  proof (cases "k \<in> set (all_keys a b a)")
    case True
    then show ?thesis using r by (fastforce split: option.splits)
  next
    case False
    then show ?thesis by (simp add: all_keys_set map_of_None_keys)
  qed
  show ?l unfolding agrees_object
  proof (intro exI conjI allI impI)
    show "JObject b = JObject b" by simp
    show "fst ` set a = fst ` set b" using both by (auto simp: map_of_None_keys)
  next
    fix k x y assume xy: "map_of a k = Some x" "map_of b k = Some y"
    then have "k \<in> set (all_keys a b a)" by (metis UnI1 all_keys_set map_of_None_keys option.distinct(1))
    then show "agrees fc x y" using r xy by fastforce
  qed
qed

lemma walk_same:
  assumes "float_refl fc"
  shows "diff_same (walk fc path v c v d) \<longleftrightarrow> diff_same d \<and> agrees fc v c"
proof (induction "size v" arbitrary: path v c d rule: less_induct)
  case less
  show ?case
  proof (cases "kind c = kind v")
    case False
    then show ?thesis using agrees_kind [of fc v c] by (auto simp: walk.simps)
  next
    case k: True
    consider (obj) a b where "v = JObject a" "c = JObject b" | (arr) a b where "v = JArray a" "c = JArray b" | (leaf) "kind v < 4"
      using k by (cases v; cases c) auto
    then show ?thesis
    proof cases
      case obj
      define f where "f = (\<lambda>k d. case (map_of a k, map_of b k, map_of a k) of
                 (Some x, Some y, Some z) \<Rightarrow> walk fc (join_path path k) x y z d
               | (Some _, None, Some _) \<Rightarrow> shape_at (join_path path k) d
               | (None, Some _, None) \<Rightarrow> shape_at (join_path path k) d
               | _ \<Rightarrow> changed_once d)"
      have step: "diff_same (f k d) \<longleftrightarrow> diff_same d \<and>
          (case (map_of a k, map_of b k) of (Some x, Some y) \<Rightarrow> agrees fc x y | _ \<Rightarrow> False)" if "k \<in> set (all_keys a b a)" for k d
      proof -
        have "map_of a k \<noteq> None \<or> map_of b k \<noteq> None" using that unfolding all_keys_set map_of_None_keys by blast
        then show ?thesis using less [of _ "join_path path k"] size_entry [of _ a k] obj by (auto simp: f_def split: option.split)
      qed
      have "walk fc path v c v d = fold f (all_keys a b a) d" by (subst walk.simps) (simp add: obj f_def)
      then show ?thesis using fold_same [of "all_keys a b a" f, OF step] obj agrees_objects [of fc a b] by simp
    next
      case arr
      define f where "f = (\<lambda>i d. if i < length a then walk fc (path @ ''['' @ nat_digits i @ '']'') (a ! i) (b ! i) (a ! i) d else d)"
      have step: "diff_same (f i d) \<longleftrightarrow> diff_same d \<and> agrees fc (a ! i) (b ! i)" if "i \<in> set [0..<length a]" for i d
        using that less [of "a ! i"] size_item [of i a] arr by (simp add: f_def)
      have "walk fc path v c v d = (if length b = length a then fold f [0..<length a] d else shape_at path d)"
        by (subst walk.simps) (simp add: arr f_def)
      then show ?thesis using fold_same [of "[0..<length a]" f, OF step] arr by (auto simp: agrees_array)
    next
      case leaf
      then have "walk fc path v c v d = walk_leaf fc path v c v d" using k
        by (cases v; cases c; subst walk.simps) simp_all
      then show ?thesis using walk_leaf_same [OF assms] agrees_leaf [OF leaf k] by simp
    qed
  qed
qed

text \<open>
  When the two socket readings are equal, the comparison says ``same'' exactly when the value of the command
  line program agrees with them at every place: same fields, same lengths, equal values up to six decimals.
\<close>

theorem compare_verdict_exact:
  assumes "float_refl fc"
  shows "fst (compare_verdict fc (OData v) (OData c) (OData v)) \<longleftrightarrow> agrees fc v c"
  using walk_same [OF assms, of "[]" v c diff_new] by (simp add: compare_verdict_def Let_def diff_of_def) (simp add: diff_same_def diff_new_def)

definition exact_floats :: float_cmp where "exact_floats = \<lparr>fc_eq = (=), fc_close = (=)\<rparr>"

theorem compare_verdict_exact_witness:
  "fst (compare_verdict exact_floats (OData (JArray [JNull, JBool True])) (OData (JArray [JNull, JBool True])) (OData (JArray [JNull, JBool True]))) \<and>
   \<not> fst (compare_verdict exact_floats (OData (JArray [JNull])) (OData (JArray [JBool True])) (OData (JArray [JNull])))"
proof -
  have f: "float_refl exact_floats" by (simp add: float_refl_def exact_floats_def)
  have leaf: "agrees exact_floats v v" if "kind v < 4" for v
    using that by (intro agrees.leaf) (simp_all add: leaf_eq_refl f)
  have "agrees exact_floats (JArray [JNull, JBool True]) (JArray [JNull, JBool True])"
    by (rule agrees.arr) (simp_all add: leaf nth_Cons split: nat.split)
  moreover have "\<not> agrees exact_floats (JArray [JNull]) (JArray [JBool True])"
    using agrees_kind [of exact_floats JNull "JBool True"] by (auto simp: agrees_array)
  ultimately show ?thesis using compare_verdict_exact [OF f] by blast
qed

section \<open>Paths carry no values\<close>

definition path_char :: "char \<Rightarrow> bool" where
  "path_char c \<longleftrightarrow> alnum c \<or> c \<in> set ''_-.[]<>()''"

lemma path_chars: "path_char (CHR ''.'')" "path_char (CHR ''_'')" "path_char (CHR ''-'')" "list_all path_char ''(top)''"
  "path_char (CHR ''['')" "path_char (CHR '']'')" "path_char (CHR ''<'')" "path_char (CHR ''>'')"
  "path_char (CHR ''k'')" "path_char (CHR ''e'')" "path_char (CHR ''y'')"
  by code_simp+

lemma plain_key_ok: "plain_key k \<Longrightarrow> list_all path_char k"
proof -
  have "alnum c \<or> c = CHR ''_'' \<or> c = CHR ''-'' \<Longrightarrow> path_char c" for c using path_chars(2,3) by (metis path_char_def)
  then show "plain_key k \<Longrightarrow> list_all path_char k" unfolding plain_key_def list_all_iff by blast
qed

lemma join_path_ok: "list_all path_char path \<Longrightarrow> list_all path_char (join_path path k)"
  by (simp add: join_path_def Let_def plain_key_ok path_chars)

lemma digit_path_char: "is_digit c \<Longrightarrow> path_char c"
  by (simp add: path_char_def alnum_def)

lemma nat_digits_ok: "list_all path_char (nat_digits n)"
proof (induction n rule: nat_digits.induct)
  case (1 n)
  have "is_digit (char_of (48 + m))" if "m < 10" for m :: nat using that by (simp add: is_digit_def)
  then show ?case using 1 by (subst nat_digits.simps) (auto intro: digit_path_char)
qed

lemma label_ok: "list_all path_char path \<Longrightarrow> list_all path_char (label path)"
  using path_chars(4) unfolding label_def by metis

definition paths_ok :: "diff \<Rightarrow> bool" where
  "paths_ok d \<longleftrightarrow> list_all (list_all path_char) (df_shape d @ df_mismatch d)"

lemma paths_ok_parts:
  "paths_ok d \<Longrightarrow> paths_ok (changed_once d)"
  "paths_ok d \<Longrightarrow> list_all path_char p \<Longrightarrow> paths_ok (shape_at p d)"
  "paths_ok d \<Longrightarrow> list_all path_char p \<Longrightarrow> paths_ok (walk_leaf fc p a b c d)"
  by (auto simp: paths_ok_def changed_once_def shape_at_def walk_leaf_def Let_def label_ok)

lemma fold_paths_ok: "(\<And>x d. x \<in> set xs \<Longrightarrow> paths_ok d \<Longrightarrow> paths_ok (f x d)) \<Longrightarrow> paths_ok d \<Longrightarrow> paths_ok (fold f xs d)"
  by (induction xs arbitrary: d) auto

lemma walk_paths_ok: "list_all path_char path \<Longrightarrow> paths_ok d \<Longrightarrow> paths_ok (walk fc path v c w d)"
proof (induction "size v" arbitrary: path v c w d rule: less_induct)
  case less
  have rest: "walk fc path v c w d \<in> {changed_once d, shape_at path d, walk_leaf fc path v c w d}"
    if "\<nexists>a b z. v = JObject a \<and> c = JObject b \<and> w = JObject z" "\<nexists>a b z. v = JArray a \<and> c = JArray b \<and> w = JArray z"
    using that by (subst walk.simps) (cases v; cases c; cases w; simp)
  consider (obj) a b z where "v = JObject a" "c = JObject b" "w = JObject z" | (arr) a b z where "v = JArray a" "c = JArray b" "w = JArray z"
    | (other) "walk fc path v c w d \<in> {changed_once d, shape_at path d, walk_leaf fc path v c w d}"
    using rest by blast
  then show ?case
  proof cases
    case obj
    define f where "f = (\<lambda>k d. case (map_of a k, map_of b k, map_of z k) of
                 (Some x, Some y, Some z) \<Rightarrow> walk fc (join_path path k) x y z d
               | (Some _, None, Some _) \<Rightarrow> shape_at (join_path path k) d
               | (None, Some _, None) \<Rightarrow> shape_at (join_path path k) d
               | _ \<Rightarrow> changed_once d)"
    have step: "paths_ok (f k d)" if "paths_ok d" for k d
      using that less.hyps [of _ "join_path path k"] size_entry [of _ a k] obj less.prems(1)
      by (auto simp: f_def join_path_ok paths_ok_parts split: option.split)
    have "walk fc path v c w d = fold f (all_keys a b z) d" by (subst walk.simps) (simp add: obj f_def)
    then show ?thesis using fold_paths_ok [of "all_keys a b z" f, OF step less.prems(2)] by simp
  next
    case arr
    define f where "f = (\<lambda>i d. if i < length a then walk fc (path @ ''['' @ nat_digits i @ '']'') (a ! i) (b ! i) (z ! i) d else d)"
    have step: "paths_ok (f i d)" if "paths_ok d" for i d
      using that less.hyps [of "a ! i" "path @ ''['' @ nat_digits i @ '']''"] size_item [of i a] arr less.prems(1)
      by (simp add: f_def path_chars nat_digits_ok)
    have "walk fc path v c w d \<in> {changed_once d, shape_at path d, fold f [0..<length a] d}"
      by (subst walk.simps) (simp add: arr f_def)
    then show ?thesis using fold_paths_ok [of "[0..<length a]" f, OF step less.prems(2)] less.prems paths_ok_parts by auto
  next
    case other
    then show ?thesis using less.prems paths_ok_parts by auto
  qed
qed

text \<open>Every path the tool prints is made of identifier keys, indices and \<open><key>\<close>: no address, number or name of a client.\<close>

theorem compare_paths_redacted: "paths_ok (diff_of fc s1 c s2)"
  unfolding diff_of_def by (rule walk_paths_ok) (simp_all add: paths_ok_def diff_new_def)

section \<open>Comparing the shape of two state files\<close>

definition child_path :: "string \<Rightarrow> string \<Rightarrow> string" where
  "child_path path k = (if path = [] then k else path @ ''.'' @ k)"

lemma size_pair: "e \<in> set m \<Longrightarrow> size (snd e) < Suc (size_list (size_prod (\<lambda>x. 0) size) m)"
  by (induction m) auto

function shape :: "json \<Rightarrow> string \<Rightarrow> (string \<times> string) list \<Rightarrow> (string \<times> string) list" where
  "shape v path out =
     (case v of
        JObject m \<Rightarrow> fold (\<lambda>e out. shape (snd e) (child_path path (fst e)) out) m out
      | JArray _ \<Rightarrow> map_insert path ''array'' out
      | JNull \<Rightarrow> map_insert path ''null'' out
      | JBool _ \<Rightarrow> map_insert path ''boolean'' out
      | JNumber _ \<Rightarrow> map_insert path ''number'' out
      | JString _ \<Rightarrow> map_insert path ''string'' out)"
  by pat_completeness auto

termination by (relation "measure (\<lambda>(v, path, out). size v)") (auto dest: size_pair)

declare shape.simps [simp del]

text \<open>\<open>veq\<close> is the equality of \<open>serde_json\<close> values.\<close>

function compare_values :: "(json \<Rightarrow> json \<Rightarrow> bool) \<Rightarrow> json \<Rightarrow> json \<Rightarrow> string \<Rightarrow> string list \<Rightarrow> string list" where
  "compare_values veq a b path out =
     (case (a, b) of
        (JObject l, JObject r) \<Rightarrow>
          fold (\<lambda>e out. case map_of r (fst e) of Some y \<Rightarrow> compare_values veq (snd e) y (child_path path (fst e)) out | None \<Rightarrow> out) l out
      | _ \<Rightarrow> if \<not> veq a b then out @ [path] else out)"
  by pat_completeness auto

termination by (relation "measure (\<lambda>(veq, a, b, path, out). size a)") (auto dest: size_pair)

declare compare_values.simps [simp del]

definition load_state :: "(string \<Rightarrow> string + nat) \<Rightarrow> (string \<Rightarrow> string + string) \<Rightarrow> (string \<Rightarrow> string + json) \<Rightarrow> string \<Rightarrow> string + json" where
  "load_state file_len rd parse_json path =
     (let fail = (\<lambda>e. Err (path @ '': '' @ e))
      in case file_len path of
           Err e \<Rightarrow> fail e
         | Ok n \<Rightarrow>
             if n > 32 * 1024 * 1024 then fail ''input exceeds 32 MiB''
             else case rd path of
               Err e \<Rightarrow> fail e
             | Ok data \<Rightarrow> (case parse_json data of Err e \<Rightarrow> fail e | Ok v \<Rightarrow> Ok v))"

definition shape_report :: "(json \<Rightarrow> json \<Rightarrow> bool) \<Rightarrow> json \<Rightarrow> json \<Rightarrow> json" where
  "shape_report veq base cand =
     (let b = shape base [] []; c = shape cand [] []; texts = (\<lambda>ks. JArray (map JString ks));
          only = (\<lambda>m m'. filter (\<lambda>k. map_of m' k = None) (map fst m))
      in jobj [(''baseline_paths'', jnum (int (length b))), (''candidate_paths'', jnum (int (length c))),
           (''missing'', texts (only b c)), (''extra'', texts (only c b)),
           (''type_mismatches'', JArray (List.map_filter (\<lambda>(k, t). case map_of c k of
              Some t' \<Rightarrow> if t' \<noteq> t then Some (jobj [(''path'', JString k), (''baseline'', JString t), (''candidate'', JString t')]) else None
            | None \<Rightarrow> None) b)),
           (''different_values'', texts (compare_values veq base cand [] []))])"

definition compare_state_shape :: "(string \<Rightarrow> string + nat) \<Rightarrow> (string \<Rightarrow> string + string) \<Rightarrow> (string \<Rightarrow> string + json) \<Rightarrow>
    (json \<Rightarrow> json \<Rightarrow> bool) \<Rightarrow> string list \<Rightarrow> string + json" where
  "compare_state_shape file_len rd parse_json veq paths =
     (case paths of
        [p, q] \<Rightarrow>
          (case load_state file_len rd parse_json p of
             Err e \<Rightarrow> Err e
           | Ok base \<Rightarrow>
               (case load_state file_len rd parse_json q of Err e \<Rightarrow> Err e | Ok cand \<Rightarrow> Ok (shape_report veq base cand)))
      | _ \<Rightarrow> Err ''usage: --compare-state-shape BASELINE CANDIDATE'')"

text \<open>A shape holds type names only, whatever the values are.\<close>

definition types_only :: "(string \<times> string) list \<Rightarrow> bool" where
  "types_only out \<longleftrightarrow> snd ` set out \<subseteq> {''array'', ''null'', ''boolean'', ''number'', ''string''}"

lemma types_insert: "t \<in> {''array'', ''null'', ''boolean'', ''number'', ''string''} \<Longrightarrow> types_only out \<Longrightarrow> types_only (map_insert k t out)"
  unfolding types_only_def
proof (induction out)
  case (Cons e out)
  then show ?case by (cases e) auto
qed auto

lemma fold_types: "(\<And>x d. x \<in> set xs \<Longrightarrow> types_only d \<Longrightarrow> types_only (f x d)) \<Longrightarrow> types_only d \<Longrightarrow> types_only (fold f xs d)"
  by (induction xs arbitrary: d) auto

theorem shape_holds_types_only: "types_only out \<Longrightarrow> types_only (shape v path out)"
proof (induction "size v" arbitrary: v path out rule: less_induct)
  case less
  then show ?case
  proof (cases v)
    case (JObject m)
    have "types_only (shape (snd e) (child_path path (fst e)) d)" if "e \<in> set m" "types_only d" for e d
      using that less.hyps JObject by (auto dest: size_pair)
    then show ?thesis using fold_types [of m] less.prems JObject by (subst shape.simps) simp
  qed (subst shape.simps; simp add: types_insert)+
qed
end
