(* ===== verification/Driver.thy ===== *)
theory Driver
  imports Engine_Run
begin

text \<open>
  The driver of one transaction, \<open>drive\<close> and \<open>send_rollback\<close> of \<^verbatim>\<open>rust/src/ops/engine.rs\<close>, as a state
  machine that runs beside everything else the engine does. Its position in the code is a \<open>pc\<close>; between
  two of its sections any sections of other tasks may run (\<open>DEnv\<close>), and the process may be restarted.
  The rollback values it hands to the device are recorded.
\<close>

section \<open>Positions and steps\<close>

text \<open>
  \<open>PTop\<close>: at the top of the loop. \<open>PSave\<close>: \<open>send_rollback\<close> was called with the value. \<open>PRead\<close>: the
  intent is saved and the device is being read. \<open>PSent\<close>: the write was issued (or there is no spec), and
  \<open>rollback_sent\<close> comes next. \<open>PWait\<close>: sleeping, then reading and probing, with the generation seen at
  the top. \<open>PEnd\<close>: the loop was left.
\<close>

datatype pc = PTop | PSave u64 "spec option" string | PRead u64 spec string | PSent | PWait u64 | PEnd

record 'b world =
  w_eng :: "'b engine"
  w_pc :: pc
  w_writes :: "string list"

text \<open>What other tasks do: any section that is not one of this driver's or this transaction's submission.\<close>

definition env_ok :: "string \<Rightarrow> engine_event \<Rightarrow> bool" where
  "env_ok opid ev = (case ev of
     XSubmit _ _ _ i _ _ \<Rightarrow> i \<noteq> opid
   | XApplied i _ _ \<Rightarrow> i \<noteq> opid
   | XFeed i _ _ _ \<Rightarrow> i \<noteq> opid
   | XRollbackSave i _ \<Rightarrow> i \<noteq> opid
   | XRollbackCheck i _ _ \<Rightarrow> i \<noteq> opid
   | XRollbackSent i _ \<Rightarrow> i \<noteq> opid
   | _ \<Rightarrow> True)"

inductive drive :: "(json \<Rightarrow> string) \<Rightarrow> string \<Rightarrow> 'b world \<Rightarrow> 'b world \<Rightarrow> bool" for ser opid where
  DEnv: "env_ok opid ev \<Longrightarrow>
    drive ser opid \<lparr>w_eng = e, w_pc = p, w_writes = ws\<rparr> \<lparr>w_eng = e_exec ser ev e, w_pc = p, w_writes = ws\<rparr>"
| DTopEnd: "e_drive_top opid e = None \<Longrightarrow>
    drive ser opid \<lparr>w_eng = e, w_pc = PTop, w_writes = ws\<rparr> \<lparr>w_eng = e, w_pc = PEnd, w_writes = ws\<rparr>"
| DTopRollback: "e_drive_top opid e = Some (g, sp, Some v) \<Longrightarrow>
    drive ser opid \<lparr>w_eng = e, w_pc = PTop, w_writes = ws\<rparr> \<lparr>w_eng = e, w_pc = PSave g sp v, w_writes = ws\<rparr>"
| DTopWait: "e_drive_top opid e = Some (g, sp, None) \<Longrightarrow>
    drive ser opid \<lparr>w_eng = e, w_pc = PTop, w_writes = ws\<rparr> \<lparr>w_eng = e, w_pc = PWait g, w_writes = ws\<rparr>"
| DSaveGone: "e_rollback_save opid now e = (False, e') \<Longrightarrow>
    drive ser opid \<lparr>w_eng = e, w_pc = PSave g sp v, w_writes = ws\<rparr> \<lparr>w_eng = e', w_pc = PTop, w_writes = ws\<rparr>"
| DSaveNoSpec: "e_rollback_save opid now e = (True, e') \<Longrightarrow>
    drive ser opid \<lparr>w_eng = e, w_pc = PSave g None v, w_writes = ws\<rparr> \<lparr>w_eng = e', w_pc = PSent, w_writes = ws\<rparr>"
| DSave: "e_rollback_save opid now e = (True, e') \<Longrightarrow>
    drive ser opid \<lparr>w_eng = e, w_pc = PSave g (Some s) v, w_writes = ws\<rparr> \<lparr>w_eng = e', w_pc = PRead g s v, w_writes = ws\<rparr>"
| DCheckGone: "e_rollback_check opid r now e = (RbGone, e') \<Longrightarrow>
    drive ser opid \<lparr>w_eng = e, w_pc = PRead g s v, w_writes = ws\<rparr> \<lparr>w_eng = e', w_pc = PTop, w_writes = ws\<rparr>"
| DCheckRetry: "e_rollback_check opid r now e = (RbRetry, e') \<Longrightarrow>
    drive ser opid \<lparr>w_eng = e, w_pc = PRead g s v, w_writes = ws\<rparr> \<lparr>w_eng = e', w_pc = PWait g, w_writes = ws\<rparr>"
| DCheckWrite: "e_rollback_check opid r now e = (RbWrite, e') \<Longrightarrow>
    drive ser opid \<lparr>w_eng = e, w_pc = PRead g s v, w_writes = ws\<rparr> \<lparr>w_eng = e', w_pc = PSent, w_writes = ws @ [v]\<rparr>"
| DSent:
    "drive ser opid \<lparr>w_eng = e, w_pc = PSent, w_writes = ws\<rparr>
       \<lparr>w_eng = e_rollback_sent opid now e, w_pc = PTop, w_writes = ws\<rparr>"
| DWake:
    "drive ser opid \<lparr>w_eng = e, w_pc = PWait g, w_writes = ws\<rparr> \<lparr>w_eng = e, w_pc = PTop, w_writes = ws\<rparr>"
| DProbeGone: "e_drive_probe opid rd now e = None \<Longrightarrow>
    drive ser opid \<lparr>w_eng = e, w_pc = PWait g, w_writes = ws\<rparr> \<lparr>w_eng = e, w_pc = PEnd, w_writes = ws\<rparr>"
| DFeed: "e_drive_feed opid g r now e = (True, e') \<Longrightarrow>
    drive ser opid \<lparr>w_eng = e, w_pc = PWait g, w_writes = ws\<rparr> \<lparr>w_eng = e', w_pc = PTop, w_writes = ws\<rparr>"
| DFeedGone: "e_drive_feed opid g r now e = (False, e') \<Longrightarrow>
    drive ser opid \<lparr>w_eng = e, w_pc = PWait g, w_writes = ws\<rparr> \<lparr>w_eng = e', w_pc = PEnd, w_writes = ws\<rparr>"
| DRestart: "same_files (e_store e) s \<Longrightarrow>
    drive ser opid \<lparr>w_eng = e, w_pc = p, w_writes = ws\<rparr>
      \<lparr>w_eng = snd (e_start bid now (e_new rb ttl s)), w_pc = PTop, w_writes = ws\<rparr>"

inductive_cases driveE: "drive ser opid w w'"

section \<open>The transaction under other tasks\<close>

text \<open>What a section may do to the transaction \<open>opid\<close> when it is not the driver's own.\<close>

definition kept :: "string \<Rightarrow> 'b engine \<Rightarrow> 'b engine \<Rightarrow> bool" where
  "kept opid e e' \<longleftrightarrow> (\<forall>t'. e_live opid e' = Some t' \<longrightarrow>
     (\<exists>t. e_live opid e = Some t \<and> txn_ident t' = txn_ident t
        \<and> (phase t = RollingBack \<longrightarrow> phase t' = RollingBack \<and> intent t' = intent t)))"

lemma keptI_same: "e_active e' = e_active e \<Longrightarrow> kept opid e e'"
  by (simp add: kept_def e_live_def)

lemma keptI_None: "e_active e' = None \<Longrightarrow> kept opid e e'"
  by (simp add: kept_def e_live_def)

lemma keptI_other: "e_active e' = Some t \<Longrightarrow> op_id t \<noteq> opid \<Longrightarrow> kept opid e e'"
  by (simp add: kept_def e_live_def)

lemma persist_active [simp]: "e_active (e_persist now f e) = e_active e"
  by (simp add: e_persist_def Let_def split: option.split)

lemma finish_active: "e_active (e_finish now e) = (if is_some_and (e_active e) (\<lambda>t. is_final (phase t)) then None else e_active e)"
  by (auto simp: e_finish_def Let_def e_retire_def is_some_and_conv split: option.split)

lemma cancel_final [simp]: "is_final (phase (txn_cancel why t))"
  by (simp add: txn_cancel_def)

lemma cancel_active [simp]: "e_active (e_cancel now why e) = None"
  by (cases "e_active e") (simp_all add: e_cancel_def finish_active)

lemma reap_active [simp]: "e_active (e_reap_session now e) = e_active e"
  by (simp add: e_reap_session_def split: option.split)

lemma kept_finish_other:
  assumes "e_active e' = Some u" "op_id u \<noteq> opid"
  shows "kept opid e (e_finish now e')"
  using assms by (auto simp: kept_def e_live_def finish_active split: if_splits)

lemma kept_submit:
  assumes "opid' \<noteq> opid"
  shows "kept opid e (snd (e_submit_begin env bid req opid' c now e))"
proof (cases "e_submit_check req opid' now e")
  case SubmitGo
  then have "\<exists>t. e_active (snd (e_submit_begin env bid req opid' c now e)) = Some t \<and> op_id t = opid'"
    by (simp add: e_submit_begin_def Let_def)
  with assms show ?thesis using keptI_other by metis
qed (simp_all add: e_submit_begin_def keptI_same)

lemma kept_revert: "kept opid e (snd (e_revert i now e))"
proof (cases "\<exists>t n u. e_live i e = Some t \<and> txn_revert t = Ok (n, u)")
  case True
  then obtain t n u where t: "e_live i e = Some t" "txn_revert t = Ok (n, u)" by blast
  then have a: "e_active e = Some t" by (simp add: e_live_SomeD)
  have "phase t = Verifying" using t(2) by (auto simp: txn_revert_def split: if_splits)
  moreover have id: "txn_ident u = txn_ident t" by (rule section_idents(3) [OF t(2)])
  moreover have "op_id u = op_id t" by (rule op_id_ident [OF id])
  ultimately show ?thesis using t a
    by (auto simp: e_revert_def kept_def e_live_def split: if_splits)
qed (auto simp: e_revert_def keptI_same split: option.split sum.split)

lemma kept_keep: "kept opid e (snd (e_keep i now e))"
proof (cases "\<exists>t u. e_live i e = Some t \<and> txn_keep t = Ok u")
  case True
  then obtain t u where t: "e_live i e = Some t" "txn_keep t = Ok u" by blast
  then have "is_final (phase u)" by (auto simp: txn_keep_def split: if_splits)
  with t show ?thesis by (auto simp: e_keep_def Let_def finish_active intro!: keptI_None)
qed (auto simp: e_keep_def keptI_same split: option.split sum.split)

lemma other_live: "e_live i e = Some t \<Longrightarrow> i \<noteq> opid \<Longrightarrow> op_id t \<noteq> opid"
  by (simp add: e_live_SomeD)

lemma kept_update:
  assumes "e_live i e = Some t" "i \<noteq> opid" "txn_ident u = txn_ident t"
  shows "kept opid e (e_persist now f (e\<lparr>e_active := Some u\<rparr>))"
    "kept opid e (e_finish now (e_persist now f (e\<lparr>e_active := Some u\<rparr>)))"
proof -
  have "op_id u \<noteq> opid" using assms by (auto simp: e_live_SomeD dest: op_id_ident)
  then show "kept opid e (e_persist now f (e\<lparr>e_active := Some u\<rparr>))"
    "kept opid e (e_finish now (e_persist now f (e\<lparr>e_active := Some u\<rparr>)))"
    by (auto intro!: keptI_other kept_finish_other)
qed

lemma env_kept:
  assumes "env_ok opid ev"
  shows "kept opid e (e_exec ser ev e)"
proof (cases ev)
  case (XApplied i w now)
  with assms kept_update(1) [OF _ _ section_idents(1)] show ?thesis
    by (cases "e_live i e") (simp_all add: e_exec_def env_ok_def e_submit_applied_def keptI_same)
next
  case (XFeed i g r now)
  show ?thesis
  proof (cases "e_live i e")
    case (Some a)
    with XFeed assms kept_update(2) [OF Some _ feed_ident, of opid now _ r now] show ?thesis
      by (simp add: e_exec_def env_ok_def e_drive_feed_def feed_def Let_def keptI_same)
  qed (simp add: XFeed e_exec_def e_drive_feed_def keptI_same)
next
  case (XRollbackSent i now)
  with assms kept_update(1) [OF _ _ section_idents(2)] show ?thesis
    by (cases "e_live i e") (simp_all add: e_exec_def env_ok_def e_rollback_sent_def keptI_same)
next
  case (XSubmit env bid req i c now)
  with assms show ?thesis by (simp add: e_exec_def env_ok_def kept_submit)
qed (auto simp: e_exec_def kept_revert kept_keep e_note_owner_def e_rollback_save_def e_rollback_check_def
       e_preempt_def e_drop_legacy_def e_legacy_gate_def e_enqueue_legacy_def e_take_legacy_def e_put_back_def
       e_ack_def e_notice_ack_def e_other_write_def e_interrupt_def e_session_open_def e_session_renew_def
       e_session_close_def e_session_gate_def set_observer_def Let_def
     intro: keptI_same keptI_None split: option.split sim_verdict.split list.split)

section \<open>At most one rollback write\<close>

text \<open>
  The invariant of a driver's world for the transaction with identity \<open>t0\<close>. Once the write was issued the
  transaction is rolling back, and after \<open>rollback_sent\<close> without an intent.
\<close>

definition rolling :: "string \<Rightarrow> 'b engine \<Rightarrow> bool" where
  "rolling opid e \<longleftrightarrow> (\<forall>t. e_live opid e = Some t \<longrightarrow> phase t = RollingBack)"

definition sent :: "string \<Rightarrow> 'b engine \<Rightarrow> bool" where
  "sent opid e \<longleftrightarrow> (\<forall>t. e_live opid e = Some t \<longrightarrow> phase t = RollingBack \<and> intent t = None)"

definition same_txn :: "string \<Rightarrow> txn \<Rightarrow> 'b engine \<Rightarrow> bool" where
  "same_txn opid t0 e \<longleftrightarrow> (\<forall>t. e_live opid e = Some t \<longrightarrow> txn_ident t = txn_ident t0)"

definition drive_inv :: "string \<Rightarrow> txn \<Rightarrow> 'b world \<Rightarrow> bool" where
  "drive_inv opid t0 w \<longleftrightarrow>
     engine_inv (w_eng w) \<and> same_txn opid t0 (w_eng w)
   \<and> (w_writes w = [] \<or> w_writes w = [rollback_to t0])
   \<and> (case w_pc w of
        PSave g sp v \<Rightarrow> w_writes w = [] \<and> v = rollback_to t0 \<and> rolling opid (w_eng w)
      | PRead g s v \<Rightarrow> w_writes w = [] \<and> v = rollback_to t0 \<and> rolling opid (w_eng w)
      | PSent \<Rightarrow> rolling opid (w_eng w)
      | _ \<Rightarrow> w_writes w = [] \<or> sent opid (w_eng w))"

lemma kept_same_txn: "kept opid e e' \<Longrightarrow> same_txn opid t0 e \<Longrightarrow> same_txn opid t0 e'"
  by (fastforce simp: kept_def same_txn_def)

lemma kept_rolling: "kept opid e e' \<Longrightarrow> rolling opid e \<Longrightarrow> rolling opid e'"
  by (fastforce simp: kept_def rolling_def)

lemma kept_sent: "kept opid e e' \<Longrightarrow> sent opid e \<Longrightarrow> sent opid e'"
  by (fastforce simp: kept_def sent_def)

lemma drive_inv_kept:
  assumes "drive_inv opid t0 \<lparr>w_eng = e, w_pc = p, w_writes = ws\<rparr>" "kept opid e e'" "engine_inv e'"
  shows "drive_inv opid t0 \<lparr>w_eng = e', w_pc = p, w_writes = ws\<rparr>"
  using assms kept_same_txn [OF assms(2), of t0] kept_rolling [OF assms(2)] kept_sent [OF assms(2)]
  by (cases p) (auto simp: drive_inv_def)

lemma rollback_save_kept:
  assumes "engine_inv e" "e_rollback_save opid now e = (b, e')"
  shows "kept opid e e'" "engine_inv e'"
  using assms persist_inv [OF assms(1), of now]
  by (auto simp: e_rollback_save_def intro: keptI_same split: if_splits)

lemma rollback_check_kept:
  assumes "engine_inv e" "e_rollback_check opid r now e = (x, e')"
  shows "kept opid e e'" "engine_inv e'" "x = RbGone \<Longrightarrow> e_live opid e' = None"
proof -
  show "engine_inv e'" using rollback_check_inv [OF assms(1), of opid r now] assms(2) by simp
  from assms(2) show "kept opid e e'" "x = RbGone \<Longrightarrow> e_live opid e' = None"
    by (auto simp: e_rollback_check_def e_live_def [of opid "e_cancel n w d" for n w d]
        intro: keptI_same keptI_None split: option.splits sim_verdict.splits)
qed

lemma rollback_sent_sent:
  assumes "rolling opid e"
  shows "sent opid (e_rollback_sent opid now e)"
  using assms
  by (auto simp: sent_def rolling_def e_rollback_sent_def e_live_def txn_rollback_sent_def reset_probe_def Let_def
      split: option.splits if_splits)

lemma feed_sent:
  assumes "phase t = RollingBack" "intent t = None" "\<not> is_final (phase (feed r now t))"
  shows "phase (feed r now t) = RollingBack \<and> intent (feed r now t) = None"
proof -
  have c: "counting t" using assms by (simp add: counting_def waiting_def)
  have ticked: "phase (snd (on_tick now u)) = RollingBack \<and> intent (snd (on_tick now u)) = None"
    if "txn_same u t" "\<not> is_final (phase (snd (on_tick now u)))" for u
    using that assms by (auto simp: txn_same_def on_tick_def Let_def split: if_splits)
  show ?thesis
  proof (cases r)
    case None
    with ticked [of t] assms(3) show ?thesis by (simp add: feed_def)
  next
    case (Some rd)
    from c show ?thesis
    proof (cases rule: on_reading_cases [of t rd now])
      case (finish p why u)
      with assms(3) Some show ?thesis by (simp add: feed_def)
    next
      case (tick u)
      with assms(3) Some ticked [of u] show ?thesis by (simp add: feed_def)
    qed
  qed
qed

lemma drive_feed_keeps:
  assumes "engine_inv e" "e_drive_feed opid g r now e = (b, e')"
  shows "engine_inv e'" "same_txn opid t0 e \<Longrightarrow> same_txn opid t0 e'" "sent opid e \<Longrightarrow> sent opid e'"
proof -
  show "engine_inv e'" using drive_feed_inv [OF assms(1), of opid g r now] assms(2) by simp
  have cases: "e' = e \<or> (\<exists>t f. e_live opid e = Some t \<and>
      e' = e_finish now (e_persist now f (e\<lparr>e_active := Some (feed r now t)\<rparr>)))"
    using assms(2) by (auto simp: e_drive_feed_def feed_def Let_def split: option.splits if_splits)
  have live: "\<exists>u. e_live opid e = Some u \<and> (t = u \<or> t = feed r now u \<and> \<not> is_final (phase t))"
    if "e_live opid e' = Some t" for t
    using cases
  proof
    assume "\<exists>t f. e_live opid e = Some t \<and> e' = e_finish now (e_persist now f (e\<lparr>e_active := Some (feed r now t)\<rparr>))"
    then obtain u f where u: "e_live opid e = Some u"
      "e' = e_finish now (e_persist now f (e\<lparr>e_active := Some (feed r now u)\<rparr>))" by blast
    from e_live_SomeD [OF that] have "e_active e' = Some t" by simp
    with u show ?thesis by (auto simp: finish_active split: if_splits)
  qed (use that in simp)
  show "same_txn opid t0 e \<Longrightarrow> same_txn opid t0 e'"
    using live by (fastforce simp: same_txn_def)
  show "sent opid e \<Longrightarrow> sent opid e'"
    unfolding sent_def using live feed_sent by metis
qed

lemma rollback_sent_same: "same_txn opid t0 e \<Longrightarrow> same_txn opid t0 (e_rollback_sent opid now e)"
  by (auto simp: same_txn_def e_rollback_sent_def e_live_def split: option.splits if_splits)

lemma resume_rolling:
  assumes "phase t = RollingBack" "\<not> is_final (phase (if tk then txn_cancel Takeover t else snd (txn_resume bid now t)))"
  shows "phase (snd (txn_resume bid now t)) = RollingBack \<and> intent (snd (txn_resume bid now t)) = None \<and> \<not> tk"
  using assms by (auto simp: txn_resume_def resume_wait_def note_reboot_def reset_probe_def Let_def split: if_splits)

lemma restart_keeps:
  assumes inv: "engine_inv e" and files: "same_files (e_store e) s"
    and e'_def: "e' = snd (e_start bid now (e_new rb ttl s))"
  shows "engine_inv e'" "same_txn opid t0 e \<Longrightarrow> same_txn opid t0 e'" "rolling opid e \<Longrightarrow> sent opid e'"
proof -
  have pend: "pending_txn s = pending_txn (e_store e)" using files by (simp add: same_files_def pending_txn_def)
  have st: "startable s" using engine_inv_startable [OF inv] files pend by (simp add: same_files_def)
  show "engine_inv e'" unfolding e'_def by (rule start_inv [OF st])
  have res: "\<exists>t u. e_active e = Some t \<and> txn_same u t \<and> txn_ident t' = txn_ident t \<and>
      (phase t = RollingBack \<longrightarrow> phase t' = RollingBack \<and> intent t' = None)"
    if t': "e_active e' = Some t'" for t'
  proof (cases "e_active e")
    case None
    with inv have "get_file pending_name s = None" using files by (simp add: engine_inv_def synced_def same_files_def)
    moreover have "store_good s" using files by (simp add: same_files_def)
    ultimately have "get_file pending_name (snd (take_takeover s)) = None"
      using takeover_files(1) by metis
    then have "e_active e' = None"
      by (cases "take_takeover s") (simp add: e'_def e_start_def Let_def load_def e_new_def)
    with t' show ?thesis by simp
  next
    case (Some t)
    obtain u where u: "pending_txn s = Some u" "txn_same u t"
      using inv Some by (auto simp: engine_inv_def synced_def pend)
    from start_result [OF st u(1), of bid now rb ttl] obtain t1 where t1: "txn_ident t1 = txn_ident u"
      "cur (disk s) takeover_name \<noteq> None \<Longrightarrow> t1 = txn_cancel Takeover u"
      "cur (disk s) takeover_name = None \<Longrightarrow> t1 = snd (txn_resume bid now u)"
      "if is_final (phase t1) then e_active e' = None \<and> e_last e' = Some \<lparr>l_txn = t1, l_acked = False\<rparr>
       else e_active e' = Some t1" unfolding e'_def by metis
    with t' have t1': "t1 = t'" "\<not> is_final (phase t1)" by (auto split: if_splits)
    have "phase t1 = RollingBack \<and> intent t1 = None" if "phase t = RollingBack"
    proof (cases "cur (disk s) takeover_name = None")
      case True
      with t1 t1' that u(2) resume_rolling [of u False bid now] show ?thesis by (simp add: txn_same_def)
    next
      case False
      with t1 t1' show ?thesis by simp
    qed
    with t1 t1' u Some show ?thesis by (auto simp: txn_same_def)
  qed
  have live: "\<exists>t. e_live opid e = Some t \<and> txn_ident t' = txn_ident t \<and>
      (phase t = RollingBack \<longrightarrow> phase t' = RollingBack \<and> intent t' = None)"
    if t': "e_live opid e' = Some t'" for t'
  proof -
    from e_live_SomeD [OF t'] have a': "e_active e' = Some t'" "op_id t' = opid" by simp_all
    from res [OF a'(1)] obtain t where t: "e_active e = Some t" "txn_ident t' = txn_ident t"
      "phase t = RollingBack \<longrightarrow> phase t' = RollingBack \<and> intent t' = None" by blast
    have "e_live opid e = Some t" using t(1) a'(2) ident_fields(8) [OF t(2)] by (simp add: e_live_def)
    with t show ?thesis by blast
  qed
  show "same_txn opid t0 e \<Longrightarrow> same_txn opid t0 e'"
    unfolding same_txn_def using live by metis
  show "rolling opid e \<Longrightarrow> sent opid e'"
    unfolding rolling_def sent_def using live by metis
qed

lemma saving_facts:
  assumes "drive_inv opid t0 \<lparr>w_eng = e, w_pc = p, w_writes = ws\<rparr>" "p = PSave g sp v \<or> p = PRead g s v"
  shows "ws = []" "v = rollback_to t0" "engine_inv e"
    "kept opid e e' \<Longrightarrow> same_txn opid t0 e'" "kept opid e e' \<Longrightarrow> rolling opid e'"
  using assms kept_same_txn [of opid e e' t0] kept_rolling [of opid e e'] by (auto simp: drive_inv_def)

lemma drive_step_inv:
  assumes "drive ser opid w w'" "drive_inv opid t0 w"
  shows "drive_inv opid t0 w'"
  using assms
proof (cases rule: drive.cases)
  case (DEnv ev e p ws)
  with assms(2) have "engine_inv (e_exec ser ev e)" by (auto simp: drive_inv_def intro: e_exec_inv)
  with DEnv assms(2) drive_inv_kept [OF _ env_kept [OF DEnv(3)]] show ?thesis by simp
next
  case (DTopEnd e ws)
  with assms(2) show ?thesis by (simp add: drive_inv_def)
next
  case (DTopRollback e g sp v ws)
  then obtain t where t: "e_live opid e = Some t" "phase t = RollingBack" "intent t = Some IRollback" "v = rollback_to t"
    by (auto simp: e_drive_top_def split: option.splits if_splits)
  with DTopRollback assms(2) have "w_writes w = []" by (auto simp: drive_inv_def sent_def)
  moreover have "rollback_to t = rollback_to t0"
  proof -
    have "txn_ident t = txn_ident t0"
      using assms(2) t(1) DTopRollback(1) by (simp add: drive_inv_def same_txn_def)
    then show ?thesis by (simp add: txn_ident_def)
  qed
  ultimately show ?thesis using DTopRollback t assms(2) by (simp add: drive_inv_def rolling_def)
next
  case (DTopWait e g sp ws)
  with assms(2) show ?thesis by (simp add: drive_inv_def)
next
  case (DSaveGone now e e' g sp v ws)
  have inv: "drive_inv opid t0 \<lparr>w_eng = e, w_pc = PSave g sp v, w_writes = ws\<rparr>" using assms(2) DSaveGone(1) by simp
  note F = saving_facts [OF inv disjI1 [OF refl]]
  note K = rollback_save_kept(1,2) [OF F(3) DSaveGone(3)]
  show ?thesis using DSaveGone(2) K(2) F(1,2) F(4,5) [OF K(1)] by (simp add: drive_inv_def)
next
  case (DSaveNoSpec now e e' g v ws)
  have inv: "drive_inv opid t0 \<lparr>w_eng = e, w_pc = PSave g None v, w_writes = ws\<rparr>" using assms(2) DSaveNoSpec(1) by simp
  note F = saving_facts [OF inv disjI1 [OF refl]]
  note K = rollback_save_kept(1,2) [OF F(3) DSaveNoSpec(3)]
  show ?thesis using DSaveNoSpec(2) K(2) F(1,2) F(4,5) [OF K(1)] by (simp add: drive_inv_def)
next
  case (DSave now e e' g s v ws)
  have inv: "drive_inv opid t0 \<lparr>w_eng = e, w_pc = PSave g (Some s) v, w_writes = ws\<rparr>" using assms(2) DSave(1) by simp
  note F = saving_facts [OF inv disjI1 [OF refl]]
  note K = rollback_save_kept(1,2) [OF F(3) DSave(3)]
  show ?thesis using DSave(2) K(2) F(1,2) F(4,5) [OF K(1)] by (simp add: drive_inv_def)
next
  case (DCheckGone r now e e' g s v ws)
  have inv: "drive_inv opid t0 \<lparr>w_eng = e, w_pc = PRead g s v, w_writes = ws\<rparr>" using assms(2) DCheckGone(1) by simp
  note F = saving_facts [OF inv disjI2 [OF refl]]
  note K = rollback_check_kept(1,2) [OF F(3) DCheckGone(3)]
  show ?thesis using DCheckGone(2) K(2) F(1,2) F(4,5) [OF K(1)] by (simp add: drive_inv_def)
next
  case (DCheckRetry r now e e' g s v ws)
  have inv: "drive_inv opid t0 \<lparr>w_eng = e, w_pc = PRead g s v, w_writes = ws\<rparr>" using assms(2) DCheckRetry(1) by simp
  note F = saving_facts [OF inv disjI2 [OF refl]]
  note K = rollback_check_kept(1,2) [OF F(3) DCheckRetry(3)]
  show ?thesis using DCheckRetry(2) K(2) F(1,2) F(4,5) [OF K(1)] by (simp add: drive_inv_def)
next
  case (DCheckWrite r now e e' g s v ws)
  have inv: "drive_inv opid t0 \<lparr>w_eng = e, w_pc = PRead g s v, w_writes = ws\<rparr>" using assms(2) DCheckWrite(1) by simp
  note F = saving_facts [OF inv disjI2 [OF refl]]
  note K = rollback_check_kept(1,2) [OF F(3) DCheckWrite(3)]
  show ?thesis using DCheckWrite(2) K(2) F(1,2) F(4,5) [OF K(1)] by (simp add: drive_inv_def)
next
  case (DSent e ws now)
  with assms(2) show ?thesis
    by (simp add: drive_inv_def rollback_sent_inv rollback_sent_same rollback_sent_sent)
next
  case (DWake e g ws)
  with assms(2) show ?thesis by (simp add: drive_inv_def)
next
  case (DProbeGone rd now e g ws)
  with assms(2) show ?thesis by (simp add: drive_inv_def)
next
  case (DFeed g r now e e' ws)
  with assms(2) drive_feed_keeps [OF _ DFeed(3)] show ?thesis by (auto simp: drive_inv_def)
next
  case (DFeedGone g r now e e' ws)
  with assms(2) drive_feed_keeps [OF _ DFeedGone(3)] show ?thesis by (auto simp: drive_inv_def)
next
  case (DRestart e s p ws bid now rb ttl)
  have "ws = [] \<or> rolling opid e"
    using assms(2) DRestart by (cases p) (auto simp: drive_inv_def sent_def rolling_def)
  with assms(2) DRestart restart_keeps [OF _ DRestart(3) refl] show ?thesis
    by (auto simp: drive_inv_def)
qed

inductive drive_run :: "(json \<Rightarrow> string) \<Rightarrow> string \<Rightarrow> 'b world \<Rightarrow> 'b world \<Rightarrow> bool" for ser opid w where
  run_refl: "drive_run ser opid w w"
| run_step: "drive_run ser opid w w' \<Longrightarrow> drive ser opid w' w'' \<Longrightarrow> drive_run ser opid w w''"

lemma drive_run_inv: "drive_run ser opid w w' \<Longrightarrow> drive_inv opid t0 w \<Longrightarrow> drive_inv opid t0 w'"
  by (induction rule: drive_run.induct) (auto intro: drive_step_inv)

text \<open>
  Property C2. The driver of a transaction hands at most one rollback to the device, and it is the
  transaction's rollback target, whatever other requests, readings and failed SIM checks come in between
  and however often the process is restarted; in particular a rollback that was issued before a crash is
  not issued again.
\<close>

theorem one_rollback_write:
  assumes "engine_reach ser e" "e_active e = Some t"
    and "drive_run ser (op_id t) \<lparr>w_eng = e, w_pc = PTop, w_writes = []\<rparr> w"
  shows "w_writes w = [] \<or> w_writes w = [rollback_to t]"
proof -
  have "drive_inv (op_id t) t \<lparr>w_eng = e, w_pc = PTop, w_writes = []\<rparr>"
    using engine_reach_inv [OF assms(1)] assms(2) by (simp add: drive_inv_def same_txn_def e_live_def)
  from drive_run_inv [OF assms(3) this] show ?thesis by (simp add: drive_inv_def)
qed

theorem one_rollback_write_witness:
  "w_writes \<lparr>w_eng = ex_busy, w_pc = PWait (generation ex_active), w_writes = []\<rparr> = []
   \<or> w_writes \<lparr>w_eng = ex_busy, w_pc = PWait (generation ex_active), w_writes = []\<rparr> = [rollback_to ex_active]"
proof (rule one_rollback_write [OF ex_busy_reach ex_busy_active])
  have "e_drive_top (op_id ex_active) ex_busy = Some (generation ex_active, spec_find (action ex_active), None)"
    by (simp add: e_drive_top_def e_live_def ex_busy_active) (simp add: ex_active_def)
  from DTopWait [OF this] show "drive_run (\<lambda>_. []) (op_id ex_active) \<lparr>w_eng = ex_busy, w_pc = PTop, w_writes = []\<rparr>
     \<lparr>w_eng = ex_busy, w_pc = PWait (generation ex_active), w_writes = []\<rparr>"
    by (intro run_step [OF run_refl])
qed

end
