(* ===== verification/Legacy_Drain.thy ===== *)
theory Legacy_Drain
  imports Driver "HOL-Library.Multiset"
begin

text \<open>
  The tasks around the queue of old requests (\<open>kick_legacy\<close> and its callers in \<^verbatim>\<open>rust/src/ops/engine.rs\<close>): who
  empties the queue, how the flag \<open>draining\<close> keeps that to one task at a time, and why no wake-up is lost. The
  engine's sections are those of \<open>Engine_Run\<close>; here the tasks that run them, with the calls of \<open>kick_legacy\<close> that
  follow a section, form a multiset, and one step is one atomic action of one task: a section under the lock, a store
  or a swap of the flag.
\<close>

section \<open>Tasks\<close>

text \<open>
  The positions of the task that empties the queue: before a look at the queue, running a request, before putting it
  back, sleeping a second, before lowering the flag, before looking again, before taking the flag again.
\<close>

datatype drain_pc = AtTake | AtRun legacy_req | AtPutBack legacy_req | AtSleep | AtLower | AtCheck | AtSwap

text \<open>
  \<open>TKick\<close> is a task about to call \<open>kick_legacy\<close>; \<open>TSubmit\<close> and \<open>TOwned\<close> a submission during its write and after the
  entry of the owner; \<open>TDriver\<close> a driver; \<open>TWatch\<close> the task that watches over a session.
\<close>

datatype ltask = TKick | TSubmit string | TOwned string | TDriver string | TWatch string | TDrain drain_pc

record 'b lworld =
  lw_eng :: "'b engine"
  lw_draining :: bool
  lw_tasks :: "ltask multiset"

text \<open>Sections of requests; the others belong to the tasks below.\<close>

definition from_request :: "engine_event \<Rightarrow> bool" where
  "from_request ev = (case ev of
     XOwner _ _ _ \<Rightarrow> False | XApplied _ _ _ \<Rightarrow> False | XFeed _ _ _ _ \<Rightarrow> False | XRollbackSave _ _ \<Rightarrow> False
   | XRollbackCheck _ _ _ \<Rightarrow> False | XRollbackSent _ _ \<Rightarrow> False | XTakeLegacy _ \<Rightarrow> False | XPutBack _ \<Rightarrow> False
   | XReap _ \<Rightarrow> False | _ \<Rightarrow> True)"

definition of_driver :: "string \<Rightarrow> engine_event \<Rightarrow> bool" where
  "of_driver i ev = (case ev of
     XFeed j _ _ _ \<Rightarrow> j = i | XRollbackSave j _ \<Rightarrow> j = i | XRollbackCheck j _ _ \<Rightarrow> j = i | XRollbackSent j _ \<Rightarrow> j = i
   | _ \<Rightarrow> False)"

text \<open>What goes on after a request's section: a submission, a session's watcher, or a call of \<open>kick_legacy\<close>.\<close>

definition follows :: "engine_event \<Rightarrow> 'b engine \<Rightarrow> ltask multiset" where
  "follows ev e = (case ev of
     XSubmit env bid req opid c now \<Rightarrow>
       if fst (e_submit_begin env bid req opid c now e) = SubmitGo then {#TSubmit opid#} else {#}
   | XKeep opid now \<Rightarrow> (case fst (e_keep opid now e) of Ok _ \<Rightarrow> {#TKick#} | Err _ \<Rightarrow> {#})
   | XEnqueue _ _ _ _ \<Rightarrow> {#TKick#}
   | XOtherWrite src now \<Rightarrow>
       if e_active e \<noteq> None \<and> fst (e_other_write src now e) = None then {#TKick#} else {#}
   | XInterrupt src what now \<Rightarrow> if fst (e_interrupt src what now e) \<noteq> None then {#TKick#} else {#}
   | XSessionOpen sid src now \<Rightarrow>
       (case fst (e_session_open sid src now e) of Ok s \<Rightarrow> {#TWatch (ss_id s)#} | Err _ \<Rightarrow> {#})
   | XSessionClose sid res now \<Rightarrow> if fst (e_session_close sid res now e) then {#TKick#} else {#}
   | _ \<Rightarrow> {#})"

definition idle :: "'b engine \<Rightarrow> bool" where
  "idle e \<longleftrightarrow> e_active e = None \<and> e_session e = None"

section \<open>Steps\<close>

datatype drain_label = LRequest | LTask | LTook "legacy_req option"

inductive drain_step :: "(json \<Rightarrow> string) \<Rightarrow> 'b lworld \<Rightarrow> drain_label \<Rightarrow> 'b lworld \<Rightarrow> bool" for ser where
  Request: "from_request ev \<Longrightarrow>
    drain_step ser \<lparr>lw_eng = e, lw_draining = d, lw_tasks = T\<rparr> LRequest
      \<lparr>lw_eng = e_exec ser ev e, lw_draining = d, lw_tasks = T + follows ev e\<rparr>"
| Owner:
    "drain_step ser \<lparr>lw_eng = e, lw_draining = d, lw_tasks = add_mset (TSubmit i) T\<rparr> LTask
      \<lparr>lw_eng = e_note_owner req i w e, lw_draining = d, lw_tasks = add_mset (TOwned i) T\<rparr>"
| Applied: "e_submit_applied i w now e = (live, e') \<Longrightarrow>
    drain_step ser \<lparr>lw_eng = e, lw_draining = d, lw_tasks = add_mset (TOwned i) T\<rparr> LTask
      \<lparr>lw_eng = e', lw_draining = d, lw_tasks = add_mset (if live then TDriver i else TKick) T\<rparr>"
| DriverBeat: "of_driver i ev \<Longrightarrow> e_live i e \<noteq> None \<Longrightarrow>
    drain_step ser \<lparr>lw_eng = e, lw_draining = d, lw_tasks = add_mset (TDriver i) T\<rparr> LTask
      \<lparr>lw_eng = e_exec ser ev e, lw_draining = d, lw_tasks = add_mset (TDriver i) T\<rparr>"
| DriverEnd: "e_live i e = None \<Longrightarrow>
    drain_step ser \<lparr>lw_eng = e, lw_draining = d, lw_tasks = add_mset (TDriver i) T\<rparr> LTask
      \<lparr>lw_eng = e, lw_draining = d, lw_tasks = add_mset TKick T\<rparr>"
| Watch: "e' = e_reap_session now e \<Longrightarrow>
    drain_step ser \<lparr>lw_eng = e, lw_draining = d, lw_tasks = add_mset (TWatch i) T\<rparr> LTask
      \<lparr>lw_eng = e', lw_draining = d,
       lw_tasks = add_mset (if map_option ss_id (e_session e') = Some i then TWatch i else TKick) T\<rparr>"
| KickLost:
    "drain_step ser \<lparr>lw_eng = e, lw_draining = True, lw_tasks = add_mset TKick T\<rparr> LTask
      \<lparr>lw_eng = e, lw_draining = True, lw_tasks = T\<rparr>"
| KickSpawn:
    "drain_step ser \<lparr>lw_eng = e, lw_draining = False, lw_tasks = add_mset TKick T\<rparr> LTask
      \<lparr>lw_eng = e, lw_draining = True, lw_tasks = add_mset (TDrain AtTake) T\<rparr>"
| Take: "e_take_legacy ser now e = (r, e') \<Longrightarrow>
    drain_step ser \<lparr>lw_eng = e, lw_draining = d, lw_tasks = add_mset (TDrain AtTake) T\<rparr> (LTook r)
      \<lparr>lw_eng = e', lw_draining = d,
       lw_tasks = add_mset (TDrain (case r of Some q \<Rightarrow> AtRun q | None \<Rightarrow> AtLower)) T\<rparr>"
| RunDone:
    "drain_step ser \<lparr>lw_eng = e, lw_draining = d, lw_tasks = add_mset (TDrain (AtRun q)) T\<rparr> LTask
      \<lparr>lw_eng = e, lw_draining = d, lw_tasks = add_mset (TDrain AtTake) T\<rparr>"
| RunFull:
    "drain_step ser \<lparr>lw_eng = e, lw_draining = d, lw_tasks = add_mset (TDrain (AtRun q)) T\<rparr> LTask
      \<lparr>lw_eng = e, lw_draining = d, lw_tasks = add_mset (TDrain (AtPutBack q)) T\<rparr>"
| PutBack:
    "drain_step ser \<lparr>lw_eng = e, lw_draining = d, lw_tasks = add_mset (TDrain (AtPutBack q)) T\<rparr> LTask
      \<lparr>lw_eng = e_put_back q e, lw_draining = d, lw_tasks = add_mset (TDrain AtSleep) T\<rparr>"
| Awake:
    "drain_step ser \<lparr>lw_eng = e, lw_draining = d, lw_tasks = add_mset (TDrain AtSleep) T\<rparr> LTask
      \<lparr>lw_eng = e, lw_draining = d, lw_tasks = add_mset (TDrain AtTake) T\<rparr>"
| Lower:
    "drain_step ser \<lparr>lw_eng = e, lw_draining = d, lw_tasks = add_mset (TDrain AtLower) T\<rparr> LTask
      \<lparr>lw_eng = e, lw_draining = False, lw_tasks = add_mset (TDrain AtCheck) T\<rparr>"
| Check:
    "drain_step ser \<lparr>lw_eng = e, lw_draining = d, lw_tasks = add_mset (TDrain AtCheck) T\<rparr> LTask
      \<lparr>lw_eng = e, lw_draining = d, lw_tasks = (if idle e \<and> e_legacy e \<noteq> [] then add_mset (TDrain AtSwap) T else T)\<rparr>"
| SwapLost:
    "drain_step ser \<lparr>lw_eng = e, lw_draining = True, lw_tasks = add_mset (TDrain AtSwap) T\<rparr> LTask
      \<lparr>lw_eng = e, lw_draining = True, lw_tasks = T\<rparr>"
| SwapTaken:
    "drain_step ser \<lparr>lw_eng = e, lw_draining = False, lw_tasks = add_mset (TDrain AtSwap) T\<rparr> LTask
      \<lparr>lw_eng = e, lw_draining = True, lw_tasks = add_mset (TDrain AtTake) T\<rparr>"

inductive drain_reach :: "(json \<Rightarrow> string) \<Rightarrow> 'b lworld \<Rightarrow> bool" for ser where
  boot: "e_start bid now (e_new rb ttl s) = (i, e) \<Longrightarrow>
    drain_reach ser \<lparr>lw_eng = e, lw_draining = False, lw_tasks = (case i of Some j \<Rightarrow> {#TDriver j#} | None \<Rightarrow> {#})\<rparr>"
| step: "drain_reach ser w \<Longrightarrow> drain_step ser w l w' \<Longrightarrow> drain_reach ser w'"

section \<open>One drainer\<close>

definition holds_flag :: "ltask \<Rightarrow> bool" where
  "holds_flag t = (case t of TDrain p \<Rightarrow> (case p of AtCheck \<Rightarrow> False | AtSwap \<Rightarrow> False | _ \<Rightarrow> True) | _ \<Rightarrow> False)"

definition flag_ok :: "'b lworld \<Rightarrow> bool" where
  "flag_ok w \<longleftrightarrow> size (filter_mset holds_flag (lw_tasks w)) = of_bool (lw_draining w)"

lemma holds_flag_simps [simp]:
  "holds_flag (TDrain AtTake)" "holds_flag (TDrain (AtRun q))" "holds_flag (TDrain (AtPutBack q))" "holds_flag (TDrain AtSleep)"
  "holds_flag (TDrain AtLower)" "\<not> holds_flag (TDrain AtCheck)" "\<not> holds_flag (TDrain AtSwap)" "\<not> holds_flag TKick"
  "\<not> holds_flag (TSubmit i)" "\<not> holds_flag (TOwned i)" "\<not> holds_flag (TDriver i)" "\<not> holds_flag (TWatch i)"
  by (simp_all add: holds_flag_def)

lemma follows_flag [simp]: "filter_mset holds_flag (follows ev e) = {#}"
  by (cases ev) (simp_all add: follows_def split: sum.split)

lemma flag_step: "drain_step ser w l w' \<Longrightarrow> flag_ok w \<Longrightarrow> flag_ok w'"
  by (induction rule: drain_step.induct) (auto simp: flag_ok_def of_bool_def split: option.splits if_splits)

lemma flag_reach: "drain_reach ser w \<Longrightarrow> flag_ok w"
proof (induction rule: drain_reach.induct)
  case (boot bid now rb ttl s i e)
  show ?case by (cases i) (simp_all add: flag_ok_def)
qed (rule flag_step)

section \<open>No lost wake-up\<close>

text \<open>What sections leave of the queue, of the active transaction and of the session.\<close>

lemma legacy_out [simp]: "e_legacy (e_out x e) = e_legacy e" "e_session (e_out x e) = e_session e"
  by (simp_all add: e_out_def)

lemma legacy_publish [simp]: "e_legacy (e_publish now e) = e_legacy e" "e_session (e_publish now e) = e_session e"
  by (simp_all add: e_publish_def)

lemma legacy_retire [simp]: "e_legacy (e_retire e) = e_legacy e" "e_session (e_retire e) = e_session e"
  by (simp_all add: e_retire_def Let_def split: option.split)

lemma legacy_persist [simp]: "e_legacy (e_persist now f e) = e_legacy e" "e_session (e_persist now f e) = e_session e"
  by (simp_all add: e_persist_def Let_def split: option.split)

lemma legacy_finish [simp]: "e_legacy (e_finish now e) = e_legacy e" "e_session (e_finish now e) = e_session e"
  by (simp_all add: e_finish_def Let_def)

lemma legacy_cancel [simp]: "e_legacy (e_cancel now why e) = e_legacy e" "e_session (e_cancel now why e) = e_session e"
  by (simp_all add: e_cancel_def)

lemma legacy_reap [simp]: "e_legacy (e_reap_session now e) = e_legacy e"
  by (simp add: e_reap_session_def split: option.split)

lemma legacy_submit [simp]:
  "e_legacy (snd (e_submit_begin env bid req opid c now e)) = e_legacy e"
  "e_session (snd (e_submit_begin env bid req opid c now e)) = e_session e"
  by (simp_all add: e_submit_begin_def Let_def split: submit_check.split)

lemma reap_keeps: "e_session (e_reap_session now e) = Some s \<Longrightarrow> e_session e = Some s"
  by (auto simp: e_reap_session_def split: option.splits)

lemmas section_defs = e_exec_def e_note_owner_def e_submit_applied_def e_drive_feed_def e_rollback_save_def e_rollback_check_def
  e_rollback_sent_def e_revert_def e_keep_def e_preempt_def e_drop_legacy_def e_legacy_gate_def e_ack_def e_notice_ack_def
  e_other_write_def e_interrupt_def e_session_open_def e_session_renew_def e_session_close_def e_session_gate_def set_observer_def

text \<open>Only an enqueued or returned request makes an empty queue longer.\<close>

lemma section_legacy:
  assumes "e_legacy (e_exec ser ev e) \<noteq> []" "\<And>i a p now. ev \<noteq> XEnqueue i a p now" "\<And>q. ev \<noteq> XPutBack q"
  shows "e_legacy e \<noteq> []"
proof (cases ev)
  case (XTakeLegacy now)
  with assms show ?thesis by (auto simp: e_exec_def e_take_legacy_def Let_def split: if_splits list.splits)
qed (use assms in \<open>auto simp: section_defs Let_def split: option.splits sum.splits sim_verdict.splits if_splits prod.splits\<close>)

text \<open>A session that is there after a section was there before or was opened by it; the same for transactions.\<close>

lemma section_session:
  assumes "e_session (e_exec ser ev e) = Some s"
  shows "(\<exists>s0. e_session e = Some s0 \<and> ss_id s0 = ss_id s) \<or> TWatch (ss_id s) \<in># follows ev e"
proof (cases ev)
  case (XTakeLegacy now)
  with assms show ?thesis by (auto simp: e_exec_def e_take_legacy_def Let_def split: if_splits list.splits)
next
  case (XPutBack q)
  with assms show ?thesis by (auto simp: e_exec_def e_put_back_def split: if_splits)
next
  case (XEnqueue i a p now)
  with assms show ?thesis by (auto simp: e_exec_def e_enqueue_legacy_def Let_def)
qed (use assms in \<open>auto simp: section_defs Let_def follows_def dest!: reap_keeps
      split: option.splits sum.splits sim_verdict.splits if_splits prod.splits\<close>)

lemma section_active:
  assumes "e_active (e_exec ser ev e) = Some t" "env_ok (op_id t) ev"
  shows "\<exists>t0. e_active e = Some t0 \<and> op_id t0 = op_id t"
proof -
  have "e_live (op_id t) (e_exec ser ev e) = Some t" using assms(1) by (simp add: e_live_def)
  then obtain t0 where "e_live (op_id t) e = Some t0" using env_kept [OF assms(2), of e ser] by (auto simp: kept_def)
  then show ?thesis using e_live_SomeD by blast
qed

lemma submit_active:
  assumes "e_active (snd (e_submit_begin env bid req opid c now e)) = Some t"
  shows "e_active e = Some t \<or> (op_id t = opid \<and> fst (e_submit_begin env bid req opid c now e) = SubmitGo)"
  using assms by (cases "e_submit_check req opid now e") (auto simp: e_submit_begin_def Let_def)

lemma request_active:
  assumes "e_active (e_exec ser ev e) = Some t" "from_request ev"
  shows "(\<exists>t0. e_active e = Some t0 \<and> op_id t0 = op_id t) \<or> TSubmit (op_id t) \<in># follows ev e"
proof (cases "\<exists>env bid req opid c now. ev = XSubmit env bid req opid c now")
  case True
  then show ?thesis using assms by (auto simp: e_exec_def follows_def dest!: submit_active)
next
  case False
  then have "env_ok (op_id t) ev" using assms(2) by (cases ev) (auto simp: env_ok_def from_request_def)
  then show ?thesis using section_active [OF assms(1)] by blast
qed

text \<open>
  Somebody looks after everything: the active transaction has a submission or a driver, the session has a watcher, and
  a queue that could be emptied has at least one task, each of which leads to a look at the queue.
\<close>

definition watched :: "'b lworld \<Rightarrow> bool" where
  "watched w \<longleftrightarrow>
     (\<forall>t. e_active (lw_eng w) = Some t \<longrightarrow>
        TSubmit (op_id t) \<in># lw_tasks w \<or> TOwned (op_id t) \<in># lw_tasks w \<or> TDriver (op_id t) \<in># lw_tasks w) \<and>
     (\<forall>s. e_session (lw_eng w) = Some s \<longrightarrow> TWatch (ss_id s) \<in># lw_tasks w) \<and>
     (e_legacy (lw_eng w) \<noteq> [] \<longrightarrow> lw_tasks w \<noteq> {#})"

lemma watchedI:
  assumes "\<And>t. e_active e = Some t \<Longrightarrow> TSubmit (op_id t) \<in># T \<or> TOwned (op_id t) \<in># T \<or> TDriver (op_id t) \<in># T"
    "\<And>s. e_session e = Some s \<Longrightarrow> TWatch (ss_id s) \<in># T" "e_legacy e \<noteq> [] \<Longrightarrow> T \<noteq> {#}"
  shows "watched \<lparr>lw_eng = e, lw_draining = d, lw_tasks = T\<rparr>"
  using assms by (simp add: watched_def)

lemma watched_request:
  assumes "watched \<lparr>lw_eng = e, lw_draining = d, lw_tasks = T\<rparr>" "from_request ev"
  shows "watched \<lparr>lw_eng = e_exec ser ev e, lw_draining = d, lw_tasks = T + follows ev e\<rparr>"
proof (rule watchedI)
  fix t assume "e_active (e_exec ser ev e) = Some t"
  from request_active [OF this assms(2)] show "TSubmit (op_id t) \<in># T + follows ev e \<or> TOwned (op_id t) \<in># T + follows ev e \<or>
      TDriver (op_id t) \<in># T + follows ev e"
    using assms(1) by (auto simp: watched_def)
next
  fix s assume "e_session (e_exec ser ev e) = Some s"
  from section_session [OF this] show "TWatch (ss_id s) \<in># T + follows ev e"
    using assms(1) by (auto simp: watched_def)
next
  assume l: "e_legacy (e_exec ser ev e) \<noteq> []"
  show "T + follows ev e \<noteq> {#}"
  proof (cases "\<exists>i a p now. ev = XEnqueue i a p now")
    case True
    then show ?thesis by (auto simp: follows_def)
  next
    case False
    moreover have "ev \<noteq> XPutBack q" for q using assms(2) by (auto simp: from_request_def)
    ultimately have "e_legacy e \<noteq> []" using section_legacy [OF l] by blast
    then show ?thesis using assms(1) by (simp add: watched_def)
  qed
qed

lemma flag_holder: "flag_ok \<lparr>lw_eng = e, lw_draining = True, lw_tasks = add_mset t T\<rparr> \<Longrightarrow> \<not> holds_flag t \<Longrightarrow> T \<noteq> {#}"
  by (auto simp: flag_ok_def)

lemma watched_driver:
  assumes "watched \<lparr>lw_eng = e, lw_draining = d, lw_tasks = add_mset (TDriver i) T\<rparr>" "of_driver i ev"
  shows "watched \<lparr>lw_eng = e_exec ser ev e, lw_draining = d, lw_tasks = add_mset (TDriver i) T\<rparr>"
proof (rule watchedI)
  fix t assume a: "e_active (e_exec ser ev e) = Some t"
  show "TSubmit (op_id t) \<in># add_mset (TDriver i) T \<or> TOwned (op_id t) \<in># add_mset (TDriver i) T \<or>
      TDriver (op_id t) \<in># add_mset (TDriver i) T"
  proof (cases "op_id t = i")
    case False
    then have "env_ok (op_id t) ev" using assms(2) by (cases ev) (auto simp: of_driver_def env_ok_def)
    from section_active [OF a this] assms(1) show ?thesis by (auto simp: watched_def)
  qed simp
next
  fix s assume "e_session (e_exec ser ev e) = Some s"
  from section_session [OF this] show "TWatch (ss_id s) \<in># add_mset (TDriver i) T"
    using assms by (cases ev) (auto simp: watched_def of_driver_def follows_def)
qed simp

lemma applied_section:
  assumes "e_submit_applied i w now e = (live, e')"
  shows "e_legacy e' = e_legacy e" "e_session e' = e_session e" "map_option op_id (e_active e') = map_option op_id (e_active e)"
    "live \<longleftrightarrow> map_option op_id (e_active e) = Some i"
proof -
  have ident: "op_id (txn_applied a now t) = op_id t" for a t by (rule op_id_ident [OF section_idents(1)])
  show "e_legacy e' = e_legacy e" "e_session e' = e_session e"
    using assms by (auto simp: e_submit_applied_def split: option.splits)
  show "map_option op_id (e_active e') = map_option op_id (e_active e)" "live \<longleftrightarrow> map_option op_id (e_active e) = Some i"
    using assms by (auto simp: e_submit_applied_def e_live_def ident split: option.splits if_splits)
qed

lemma watched_applied:
  assumes "e_submit_applied i w now e = (live, e')" "watched \<lparr>lw_eng = e, lw_draining = d, lw_tasks = add_mset (TOwned i) T\<rparr>"
  shows "watched \<lparr>lw_eng = e', lw_draining = d, lw_tasks = add_mset (if live then TDriver i else TKick) T\<rparr>"
proof (rule watchedI)
  note sec = applied_section [OF assms(1)]
  fix t assume "e_active e' = Some t"
  then obtain t0 where t0: "e_active e = Some t0" "op_id t0 = op_id t" using sec(3) by (cases "e_active e") simp_all
  then show "TSubmit (op_id t) \<in># add_mset (if live then TDriver i else TKick) T \<or>
      TOwned (op_id t) \<in># add_mset (if live then TDriver i else TKick) T \<or>
      TDriver (op_id t) \<in># add_mset (if live then TDriver i else TKick) T"
    using assms(2) sec(4) by (cases "op_id t = i") (simp_all add: watched_def)
qed (use assms(2) applied_section(2) [OF assms(1)] in \<open>simp_all add: watched_def\<close>)

lemma watched_watch:
  assumes "watched \<lparr>lw_eng = e, lw_draining = d, lw_tasks = add_mset (TWatch i) T\<rparr>" "e' = e_reap_session now e"
  shows "watched \<lparr>lw_eng = e', lw_draining = d,
    lw_tasks = add_mset (if map_option ss_id (e_session e') = Some i then TWatch i else TKick) T\<rparr>"
proof (rule watchedI)
  fix s assume s: "e_session e' = Some s"
  then have "e_session e = Some s" using assms(2) reap_keeps by simp
  then show "TWatch (ss_id s) \<in># add_mset (if map_option ss_id (e_session e') = Some i then TWatch i else TKick) T"
    using assms(1) s by (cases "ss_id s = i") (simp_all add: watched_def)
qed (use assms in \<open>simp_all add: watched_def\<close>)

lemma watched_end:
  assumes "watched \<lparr>lw_eng = e, lw_draining = d, lw_tasks = add_mset (TDriver i) T\<rparr>" "e_live i e = None"
  shows "watched \<lparr>lw_eng = e, lw_draining = d, lw_tasks = add_mset TKick T\<rparr>"
proof (rule watchedI)
  fix t assume t: "e_active e = Some t"
  then have "op_id t \<noteq> i" using assms(2) by (auto simp: e_live_def)
  then show "TSubmit (op_id t) \<in># add_mset TKick T \<or> TOwned (op_id t) \<in># add_mset TKick T \<or> TDriver (op_id t) \<in># add_mset TKick T"
    using assms(1) t by (simp add: watched_def)
qed (use assms(1) in \<open>simp_all add: watched_def\<close>)

lemma watched_step:
  assumes "drain_step ser w l w'" "flag_ok w" "watched w"
  shows "watched w'"
  using assms
proof (cases rule: drain_step.cases)
  case (Request ev e d T)
  then show ?thesis using assms(3) watched_request by simp
next
  case (Applied i wr now e live e' d T)
  then show ?thesis using assms(3) watched_applied by (simp split del: if_split)
next
  case (DriverBeat i ev e d T)
  then show ?thesis using assms(3) watched_driver by simp
next
  case (DriverEnd i e d T)
  then show ?thesis using assms(3) watched_end by simp
next
  case (Watch e' now e d i T)
  then show ?thesis using assms(3) watched_watch [of e d i T e' now] by (simp del: map_option_eq_Some split del: if_split)
next
  case (Take now e r e' d T)
  then show ?thesis using assms(3)
    by (auto simp: watched_def e_take_legacy_def Let_def split: option.splits if_splits list.splits)
next
  case (PutBack e d q T)
  then show ?thesis using assms(3) by (auto simp: watched_def e_put_back_def)
next
  case (Check e d T)
  then show ?thesis using assms(3) by (auto simp: watched_def idle_def)
next
  case (KickLost e T)
  then show ?thesis using assms flag_holder [of e TKick T] by (auto simp: watched_def)
next
  case (SwapLost e T)
  then show ?thesis using assms flag_holder [of e "TDrain AtSwap" T] by (auto simp: watched_def)
qed (auto simp: watched_def e_note_owner_def e_out_def)

lemma start_active: "e_start bid now (e_new rb ttl s) = (i, e) \<Longrightarrow>
    (\<forall>t. e_active e = Some t \<longrightarrow> i = Some (op_id t)) \<and> e_session e = None \<and> e_legacy e = []"
  by (auto simp: e_start_def e_new_def Let_def finish_active split: option.splits prod.splits if_splits)

lemma watched_reach: "drain_reach ser w \<Longrightarrow> watched w"
proof (induction rule: drain_reach.induct)
  case (boot bid now rb ttl s i e)
  then show ?case using start_active [OF boot] by (auto simp: watched_def)
next
  case (step w l w')
  then show ?case using watched_step flag_reach by blast
qed

section \<open>The queue is served\<close>

definition queue_waits :: "'b lworld \<Rightarrow> bool" where
  "queue_waits w \<longleftrightarrow> idle (lw_eng w) \<and> e_legacy (lw_eng w) \<noteq> []"

text \<open>How many steps a task needs at most until it looks at the queue or ends.\<close>

definition weight :: "ltask \<Rightarrow> nat" where
  "weight t = (case t of TSubmit _ \<Rightarrow> 7 | TOwned _ \<Rightarrow> 6 | TDriver _ \<Rightarrow> 6 | TWatch _ \<Rightarrow> 6 | TKick \<Rightarrow> 5
     | TDrain p \<Rightarrow> (case p of AtLower \<Rightarrow> 4 | AtRun _ \<Rightarrow> 4 | AtCheck \<Rightarrow> 3 | AtPutBack _ \<Rightarrow> 3 | AtSwap \<Rightarrow> 2 | AtSleep \<Rightarrow> 2 | AtTake \<Rightarrow> 1))"

definition weights :: "'b lworld \<Rightarrow> nat" where "weights w = (\<Sum>t\<in>#lw_tasks w. weight t)"

text \<open>
  The shape of the argument: while somebody waits, every move of a task leaves him waiting and uses up work, so that
  only so many moves are possible before something else must happen.
\<close>

locale bounded_work =
  fixes move :: "'w \<Rightarrow> 'w \<Rightarrow> bool" and waits :: "'w \<Rightarrow> bool" and work :: "'w \<Rightarrow> nat"
  assumes move_works: "waits w \<Longrightarrow> move w w' \<Longrightarrow> waits w' \<and> work w' < work w"
begin

lemma moves_bounded: "(move ^^ n) w w' \<Longrightarrow> waits w \<Longrightarrow> n + work w' \<le> work w \<and> waits w'"
proof (induction n arbitrary: w')
  case (Suc n)
  then show ?case using move_works by fastforce
qed simp

end

abbreviation task_move :: "(json \<Rightarrow> string) \<Rightarrow> 'b lworld \<Rightarrow> 'b lworld \<Rightarrow> bool" where
  "task_move ser w w' \<equiv> drain_step ser w LTask w'"

lemma queue_waits_step:
  assumes "drain_step ser w LTask w'" "queue_waits w"
  shows "queue_waits w' \<and> weights w' < weights w"
  using assms
proof (cases rule: drain_step.cases)
  case (Applied i wr now e live e' d T)
  have "\<not> live" "e_active e' = None" "e_session e' = None" "e_legacy e' = e_legacy e"
    using applied_section [OF Applied(3)] assms(2) Applied(1) by (simp_all add: queue_waits_def idle_def)
  then show ?thesis using Applied(1,2) assms(2) by (simp add: queue_waits_def idle_def weights_def weight_def)
next
  case (PutBack e d q T)
  then show ?thesis using assms(2) by (simp add: queue_waits_def idle_def weights_def weight_def e_put_back_def)
next
  case (Watch e' now e d i T)
  then show ?thesis using assms(2) by (simp add: queue_waits_def idle_def weights_def weight_def e_reap_session_def)
qed (auto simp: queue_waits_def idle_def weights_def weight_def e_note_owner_def e_out_def e_live_def)

interpretation tasks: bounded_work "task_move ser" queue_waits weights for ser
  by unfold_locales (rule queue_waits_step)

lemma weight_le: "weight t \<le> 7"
  by (simp add: weight_def split: ltask.split drain_pc.split)

lemma weights_le: "weights w \<le> 7 * size (lw_tasks w)"
proof -
  have "(\<Sum>t\<in>#M. weight t) \<le> 7 * size M" for M
    by (induction M) (use weight_le in \<open>simp_all add: add_le_mono\<close>)
  then show ?thesis by (simp add: weights_def)
qed

lemma can_step:
  assumes "watched w" "queue_waits w"
  shows "\<exists>l w'. drain_step ser w l w' \<and> l \<noteq> LRequest"
proof -
  obtain e d T where w: "w = \<lparr>lw_eng = e, lw_draining = d, lw_tasks = T\<rparr>" by (cases w)
  have "T \<noteq> {#}" using assms by (simp add: watched_def queue_waits_def w)
  then obtain t S where T: "T = add_mset t S" using multiset_cases by blast
  have live: "e_live i e = None" for i using assms(2) by (simp add: queue_waits_def idle_def e_live_def w)
  show ?thesis
  proof (cases t)
    case TKick
    show ?thesis unfolding w T TKick using KickLost [of ser e S] KickSpawn [of ser e S] by (cases d; simp; blast)
  next
    case (TOwned i)
    obtain b e' where "e_submit_applied i WriteOk 0 e = (b, e')" by fastforce
    from Applied [OF this] show ?thesis unfolding w T TOwned by blast
  next
    case (TDrain p)
    show ?thesis
    proof (cases p)
      case AtTake
      obtain r e' where "e_take_legacy ser 0 e = (r, e')" by fastforce
      from Take [OF this] show ?thesis unfolding w T TDrain AtTake by blast
    next
      case AtSwap
      show ?thesis unfolding w T TDrain AtSwap using SwapLost [of ser e S] SwapTaken [of ser e S] by (cases d; simp; blast)
    next
      case (AtRun q)
      show ?thesis unfolding w T TDrain AtRun using RunDone by blast
    next
      case (AtPutBack q)
      show ?thesis unfolding w T TDrain AtPutBack using PutBack by blast
    next
      case AtSleep
      show ?thesis unfolding w T TDrain AtSleep using Awake by blast
    next
      case AtLower
      show ?thesis unfolding w T TDrain AtLower using Lower by blast
    next
      case AtCheck
      show ?thesis unfolding w T TDrain AtCheck using Check by blast
    qed
  next
    case (TSubmit i)
    show ?thesis unfolding w T TSubmit using Owner by blast
  next
    case (TDriver i)
    show ?thesis unfolding w T TDriver using DriverEnd [OF live] by blast
  next
    case (TWatch i)
    show ?thesis unfolding w T TWatch using Watch [OF refl] by blast
  qed
qed

lemma find_filter: "List.find P xs = (case filter P xs of [] \<Rightarrow> None | x # _ \<Rightarrow> Some x)"
  by (induction xs) (auto split: list.split)

lemma took_first:
  assumes "drain_step ser w (LTook r) w'" "queue_waits w"
  shows "\<exists>now. r = List.find (\<lambda>q. sat_sub now (lr_at_ms q) < cfg_legacy_ttl_ms (lw_eng w)) (e_legacy (lw_eng w))"
  using assms(1)
proof (cases rule: drain_step.cases)
  case (Take now e e' d T)
  then show ?thesis using assms(2)
    by (auto simp: e_take_legacy_def queue_waits_def idle_def Let_def find_filter split: list.splits intro!: exI [of _ now])
qed

lemma task_moves_reach: "(task_move ser ^^ n) w w' \<Longrightarrow> drain_reach ser w \<Longrightarrow> drain_reach ser w'"
  by (induction n arbitrary: w') (auto intro: drain_reach.step)

text \<open>
  Property C37. No queued request is forgotten, and at most one task at a time empties the queue. With any
  interleaving of requests, submissions, drivers, session watchers and calls of \<open>kick_legacy\<close>: whenever the engine is
  idle and the queue is not empty, the tasks that are there can go on, and after at most seven steps for each of them,
  in whatever order they run, one of them looks at the queue; it then takes the first request that has not expired.
\<close>

theorem queued_request_is_served:
  assumes "drain_reach ser w"
  shows "size (filter_mset holds_flag (lw_tasks w)) \<le> 1 \<and>
    (queue_waits w \<longrightarrow>
      (\<forall>n w'. (task_move ser ^^ n) w w' \<longrightarrow> n \<le> 7 * size (lw_tasks w) \<and> (\<exists>l w''. drain_step ser w' l w'' \<and> l \<noteq> LRequest)) \<and>
      (\<forall>r w'. drain_step ser w (LTook r) w' \<longrightarrow>
        (\<exists>now. r = List.find (\<lambda>q. sat_sub now (lr_at_ms q) < cfg_legacy_ttl_ms (lw_eng w)) (e_legacy (lw_eng w)))))"
proof -
  have "n \<le> 7 * size (lw_tasks w) \<and> (\<exists>l w''. drain_step ser w' l w'' \<and> l \<noteq> LRequest)"
    if "queue_waits w" "(task_move ser ^^ n) w w'" for n w'
  proof -
    note run = tasks.moves_bounded [OF that(2,1)]
    moreover have "watched w'" using task_moves_reach [OF that(2) assms] watched_reach by blast
    ultimately show ?thesis using weights_le [of w] can_step by auto
  qed
  moreover have "size (filter_mset holds_flag (lw_tasks w)) \<le> 1" using flag_reach [OF assms] by (simp add: flag_ok_def)
  ultimately show ?thesis using took_first by blast
qed

definition ex_queue :: "plain lworld" where
  "ex_queue = \<lparr>lw_eng = e_exec (\<lambda>_. []) (XEnqueue ''wifi'' ''wifi.set'' JNull 0) ex_engine, lw_draining = False, lw_tasks = {#TKick#}\<rparr>"

theorem queued_request_is_served_witness:
  "drain_reach (\<lambda>_. []) ex_queue \<and> queue_waits ex_queue \<and>
   (\<exists>l w'. drain_step (\<lambda>_. []) ex_queue l w' \<and> l \<noteq> LRequest) \<and> size (filter_mset holds_flag (lw_tasks ex_queue)) \<le> 1"
proof -
  let ?ev = "XEnqueue ''wifi'' ''wifi.set'' JNull 0"
  have "e_start ''boot-1'' 0 (e_new True 120000 ex_store) = (None, ex_engine)"
    by (simp add: e_start_def take_takeover_def ex_store_empty load_def e_new_def ex_engine_eq)
  from drain_reach.boot [OF this] have "drain_reach (\<lambda>_. []) \<lparr>lw_eng = ex_engine, lw_draining = False, lw_tasks = {#}\<rparr>" by simp
  moreover have "drain_step (\<lambda>_. []) \<lparr>lw_eng = ex_engine, lw_draining = False, lw_tasks = {#}\<rparr> LRequest ex_queue"
    using Request [of ?ev "\<lambda>_. []" ex_engine False "{#}"] by (simp add: ex_queue_def from_request_def follows_def)
  ultimately have r: "drain_reach (\<lambda>_. []) ex_queue" by (rule drain_reach.step)
  have w: "queue_waits ex_queue"
    by (simp add: queue_waits_def idle_def ex_queue_def e_exec_def e_enqueue_legacy_def Let_def ex_engine_eq e_new_def)
  show ?thesis using r w queued_request_is_served [OF r] relpowp_0_I [of "task_move (\<lambda>_. [])" ex_queue] by blast
qed

end
