(* ===== verification/State_Collect.thy ===== *)
theory State_Collect
  imports Host_Stats Sms_List Block_Hub
begin

text \<open>
  One round of the collector (\<open>state.rs\<close>): \<open>read_inputs\<close> reads, \<open>Snapshot.project\<close> computes,
  \<open>mu5252_extras\<close> adds the external modems of one model, and the derived blocks are recorded in the hub. The
  requests, their order and their times to live are those of the code.
\<close>

section \<open>The surroundings of a round\<close>

record ('f, 'g) site =
  st_env :: env
  st_crypto :: crypto
  st_clk :: "dev_event list \<Rightarrow> nat" \<comment> \<open>\<open>Instant::now\<close>\<close>
  st_ms :: "dev_event list \<Rightarrow> u64" \<comment> \<open>\<open>now_ms\<close>\<close>
  st_secs :: "dev_event list \<Rightarrow> int" \<comment> \<open>seconds of the wall clock\<close>
  st_files :: files
  st_ufiles :: "string \<Rightarrow> string \<Rightarrow> string option"
  st_dir :: "string \<Rightarrow> string list option"
  st_vfs :: "statvfs option"
  st_rate :: "'f rate_ops"
  st_temp :: "'g temp_ops"
  st_rotated :: "string option"
  st_current :: "string option"

definition get_ttl :: "('f, 'g) site \<Rightarrow> nat \<Rightarrow> string \<Rightarrow> string \<Rightarrow> (string \<times> json) list \<Rightarrow> ('f, string + json) cio" where
  "get_ttl S ttl sv m args = ubus_ttl (st_env S) (st_clk S) ttl sv m (jobj args)"

definition get_ttl_read :: "('f, 'g) site \<Rightarrow> nat \<Rightarrow> string \<Rightarrow> string \<Rightarrow> (string \<times> json) list \<Rightarrow> ('f, (string + json) \<times> bool) cio" where
  "get_ttl_read S ttl sv m args = ubus_ttl_read (st_env S) (st_clk S) ttl sv m (jobj args)"

definition web_args :: "string \<Rightarrow> (string \<times> json) list \<Rightarrow> (string \<times> json) list" where
  "web_args src rest = [(''source_module'', JString src), (''cid'', jnum 1)] @ rest"

definition sms_page_args :: "int \<Rightarrow> (string \<times> json) list" where
  "sms_page_args store =
     [(''page'', jnum 0), (''data_per_page'', jnum 8), (''mem_store'', jnum store), (''tags'', jnum 10),
      (''order_by'', JString ''order by id desc'')]"

definition legacy_text :: "legacy_error \<Rightarrow> string" where
  "legacy_text e = (case e of NoData \<Rightarrow> ''no data'' | BlockStale n \<Rightarrow> ''block '' @ n @ '' is stale'' | NoBlock n \<Rightarrow> ''no block '' @ n)"

definition hub_reading :: "string \<Rightarrow> hub \<Rightarrow> string + json" where
  "hub_reading n h = map_sum legacy_text id (legacy n h)"

fun read_packages :: "('f, 'g) site \<Rightarrow> string list \<Rightarrow> ('f, uci_map list) cio" where
  "read_packages S [] = State_Monad.return []"
| "read_packages S (p # ps) = do {
     v \<leftarrow> uci_show_ttl (st_env S) (st_clk S) (st_ufiles S) 30 p;
     vs \<leftarrow> read_packages S ps;
     State_Monad.return (v # vs)
   }"

definition read_log_at :: "(dev_event list \<Rightarrow> 'a) \<Rightarrow> ('f, 'a) cio" where
  "read_log_at f = State (\<lambda>s. (f (w_log (co_dev s)), s))"

definition bearer_logs :: "('f, 'g) site \<Rightarrow> ('f, 'f parsed_logs) cio" where
  "bearer_logs S = do {
     t \<leftarrow> read_log_at (st_clk S);
     s \<leftarrow> State_Monad.get;
     let r = logs_at (st_rate S) lossy_text (cache_enabled (st_env S)) t (st_rotated S) (st_current S) (co_logs s);
     _ \<leftarrow> State_Monad.update (\<lambda>s. s\<lparr>co_logs := snd r\<rparr>);
     State_Monad.return (fst r)
   }"

section \<open>Reading\<close>

definition read_inputs :: "('f, 'g) site \<Rightarrow> hub \<Rightarrow> ring \<Rightarrow> host_mem \<Rightarrow> ('f, 'f inputs \<times> ring \<times> host_mem) cio" where
  "read_inputs S h rg hm = do {
     common \<leftarrow> get_ttl S 60 ''zwrt_zte_mdm.api'' ''get_zwrt_common_info'' [];
     board \<leftarrow> get_ttl S 300 ''system'' ''board'' [];
     info \<leftarrow> get_ttl S 0 ''system'' ''info'' [];
     net \<leftarrow> get_ttl S 0 ''zte_nwinfo_api'' ''nwinfo_get_netinfo'' [];
     traffic \<leftarrow> get_ttl S 0 ''zwrt_data'' ''get_wwandst'' (web_args ''deviceui'' [(''type'', jnum 1)]);
     accounting \<leftarrow> get_ttl S 10 ''zwrt_data'' ''get_wwandst'' (web_args ''web'' [(''type'', jnum 4)]);
     limit \<leftarrow> get_ttl S 60 ''zwrt_data'' ''get_wwandst_monthlimit'' (web_args ''web'' []);
     clear_day \<leftarrow> get_ttl S 60 ''zwrt_data'' ''get_wwandst_clearday'' (web_args ''web'' []);
     sm \<leftarrow> get_ttl_read S 30 ''zwrt_zte_mdm.api'' ''get_sim_info'' [];
     imei \<leftarrow> get_ttl S 300 ''zwrt_zte_mdm.api'' ''get_imei'' [];
     lan_clients \<leftarrow> get_ttl S 10 ''zwrt_router.api'' ''router_lan_access_list'' [(''start_id'', jnum 1), (''end_id'', jnum 64)];
     wifi_clients \<leftarrow> get_ttl S 10 ''zwrt_router.api'' ''router_wireless_access_list'' [(''start_id'', jnum 1), (''end_id'', jnum 64)];
     router_status \<leftarrow> get_ttl S 5 ''zwrt_router.api'' ''router_get_status_no_auth'' [];
     thermal \<leftarrow> get_ttl S 5 ''zwrt_bsp.thermal'' ''get_cpu_temp'' [];
     hightemp \<leftarrow> get_ttl S 30 ''uci'' ''get'' [(''config'', JString ''zwrt_zte_mc_tmp''), (''section'', JString ''cpe''),
       (''option'', JString ''hightemp_datalimit_status'')];
     usb \<leftarrow> get_ttl S 30 ''zwrt_bsp.usb'' ''list'' [];
     nfc \<leftarrow> get_ttl S 60 ''zwrt_nfc'' ''zwrt_nfc_wifi_get'' [];
     _ \<leftarrow> on_dev (prepare (st_env S) (st_crypto S));
     cap \<leftarrow> get_ttl_read S 30 ''zwrt_wms'' ''zwrt_wms_get_wms_capacity'' [];
     nv \<leftarrow> get_ttl_read S 10 ''zwrt_wms'' ''zte_libwms_get_sms_data'' (sms_page_args 1);
     ssim \<leftarrow> get_ttl_read S 10 ''zwrt_wms'' ''zte_libwms_get_sms_data'' (sms_page_args 0);
     lan_if \<leftarrow> get_ttl S 5 ''network.interface.lan'' ''status'' [];
     wan4_if \<leftarrow> get_ttl S 5 ''network.interface.zte_wan'' ''status'' [];
     wan6_if \<leftarrow> get_ttl S 5 ''network.interface.zte_wan6'' ''status'' [];
     lan_config \<leftarrow> get_ttl S 60 ''zwrt_router.api'' ''router_get_lan_info'' [];
     cellular \<leftarrow> get_ttl S 5 ''zwrt_data'' ''get_wwaniface'' (web_args ''web'' [(''connect_status'', JString [])]);
     ms \<leftarrow> read_log_at (st_ms S);
     let rg' = ring_sample ms (Option.bind (ok_opt traffic) counts) rg;
     uci_sets \<leftarrow> read_packages S packages;
     sms_list \<leftarrow> (if is_ok (fst cap)
       then do { l \<leftarrow> on_dev (normalize_lists (st_crypto S) [reply_object (fst nv), reply_object (fst ssim)]); State_Monad.return (Some l) }
       else State_Monad.return None);
     let tz = thermal_zones (st_temp S) (st_env S) (st_files S) (st_dir S);
     ms' \<leftarrow> read_log_at (st_ms S);
     let rt = runtime (st_env S) (st_files S) (st_vfs S) ms' (snd (snd tz)) hm;
     logs \<leftarrow> bearer_logs S;
     State_Monad.return
       (\<lparr>si_common = common, si_board = board, si_info = info, si_net = net, si_traffic = traffic, si_accounting = accounting,
         si_limit = limit, si_clear_day = clear_day, si_sim = fst sm, si_sim_read = snd sm, si_imei = imei,
         si_lan_clients = lan_clients, si_wifi_clients = wifi_clients, si_router_status = router_status, si_thermal = thermal,
         si_hightemp = hightemp, si_usb = usb, si_battery = hub_reading ''battery'' h, si_charger = hub_reading ''charger'' h,
         si_nfc = nfc, si_sms_capacity = fst cap, si_capacity_read = snd cap, si_sms_nv = fst nv, si_nv_read = snd nv,
         si_sms_sim = fst ssim, si_sim_list_read = snd ssim, si_sms_list = sms_list, si_lan_if = lan_if, si_wan4_if = wan4_if,
         si_wan6_if = wan6_if, si_lan_config = lan_config, si_cellular = cellular, si_uci_sets = uci_sets, si_qos_logs = logs,
         si_leases = lease_metadata (st_env S) (st_files S), si_rails = read_rails (st_env S) (st_files S),
         si_cpu_sys = fst tz, si_zones = fst (snd tz), si_cpu_usage_tenths = fst (fst rt), si_runtime = snd (fst rt)\<rparr>,
        rg', snd rt)
   }"

section \<open>The external modems of MU5252\<close>

definition ask_device :: "('f, 'g) site \<Rightarrow> string \<Rightarrow> string \<Rightarrow> (string \<times> json) list \<Rightarrow> ('f, json) cio" where
  "ask_device S sv m args = do { r \<leftarrow> on_dev (ubus (st_env S) sv m (jobj args)); State_Monad.return (reply_object r) }"

definition clamp :: "int \<Rightarrow> int \<Rightarrow> int \<Rightarrow> int" where "clamp lo hi n = max lo (min hi n)"

definition wwan_json :: "(json \<Rightarrow> string) \<Rightarrow> json \<Rightarrow> json" where
  "wwan_json ser w =
     jobj [(''status'', JString (str_field ser w ''connect_status'')), (''ipv4_ifname'', JString (str_field ser w ''ipv4_dev_name'')),
       (''ipv6_ifname'', JString (str_field ser w ''ipv6_dev_name''))]"

definition modem_qos :: "qos_values \<Rightarrow> int \<Rightarrow> json" where
  "modem_qos q at =
     jobj [(''qci'', jnum (qv_qci q)), (''ambr_dl'', JString (qv_ambr_dl q)), (''ambr_ul'', JString (qv_ambr_ul q)), (''sampled_at'', jnum at)]"

definition x75_net :: "(json \<Rightarrow> string) \<Rightarrow> json \<Rightarrow> json" where
  "x75_net ser raw =
     (let text = (\<lambda>k. JString (str_field ser raw k)); num = (\<lambda>k. jnum (num_field raw k)); t = str_field ser raw ''network_type''
      in jobj [(''type'', JString t), (''bars'', num ''signalbar''), (''roaming'', text ''simcard_roam''),
           (''operator'', text ''network_provider_fullname''), (''band'', text ''wan_active_band''),
           (''bandwidth'', if t = ''SA'' \<or> t = ''NSA'' then text ''nr5g_bandwidth'' else text ''lte_bandwidth''),
           (''nr_rsrp'', num ''nr5g_rsrp''), (''nr_rsrq'', num ''nr5g_rsrq''), (''nr_snr'', text ''nr5g_snr''), (''nr_pci'', num ''nr5g_pci''),
           (''nr_cell_id'', num ''nr5g_cell_id''), (''nr_channel'', num ''nr5g_action_channel''), (''lte_rsrp'', num ''lte_rsrp''),
           (''lte_rsrq'', num ''lte_rsrq''), (''lte_pci'', num ''lte_pci''), (''cell_id'', num ''cell_id'')])"

definition x75_modem :: "(json \<Rightarrow> string) \<Rightarrow> mu5252_ctx \<Rightarrow> int \<Rightarrow> json \<Rightarrow> qos_values \<Rightarrow> json" where
  "x75_modem ser c subid traffic q =
     (let si = mc_sim c
      in jobj [(''id'', JString ''x75''), (''role'', JString ''integrated_5g''), (''transport'', JString ''rmnet''), (''subid'', jnum subid),
           (''ifname'', JString ''rmnet_data0''), (''wan_interface'', JString ''zte_mwan2''), (''net'', x75_net ser (mc_raw_net c)),
           (''sim'', jobj [(''state'', JString (str_field ser si ''sim_states'')), (''slot'', jnum (num_field si ''current_sim_slot'')),
             (''iccid'', JString (str_field ser si ''sim_iccid'')), (''imsi'', JString (mc_imsi c)), (''msisdn'', JString (mc_msisdn c)),
             (''imei'', JString (str_field ser (mc_imei c) ''imei''))]),
           (''wwan'', wwan_json ser (mc_cellular c)),
           (''interfaces'', jobj [(''ipv4'', interface ser (mc_wan4_if c)), (''ipv6'', interface ser (mc_wan6_if c))]),
           (''traffic'', realtime_traffic traffic), (''qos'', modem_qos q 0)])"

text \<open>The two external modems: id, serial number, interface, uplink, USB path and USB id.\<close>

definition external_modems :: "(nat \<times> string \<times> string \<times> string \<times> string \<times> string \<times> string) list" where
  "external_modems =
     [(0, ''v3e1'', ''V3E1T12345'', ''V3E1net0'', ''zte_mwan3'', ''1-1'', ''19d2:0581''),
      (1, ''v3e2'', ''V3E2T12345'', ''V3E2net0'', ''zte_mwan4'', ''1-2'', ''19d2:1716'')]"

definition adb_shell :: "('f, 'g) site \<Rightarrow> string \<Rightarrow> string \<Rightarrow> string list \<Rightarrow> ('f, string + string) cio" where
  "adb_shell S adb serial cmd = on_dev (command_run (st_env S) adb ([''-s'', serial, ''shell''] @ cmd) (of_secs 5))"

definition external_readings :: "('f, 'g) site \<Rightarrow> string option \<Rightarrow> string \<Rightarrow> ('f, qos_values \<times> int \<times> int option) cio" where
  "external_readings S adb serial =
     (case adb of
        None \<Rightarrow> State_Monad.return (no_values, 0, None)
      | Some prog \<Rightarrow> do {
          r \<leftarrow> adb_shell S prog serial [''grep QCI= /logfs/key.log | tail -n 64''];
          at \<leftarrow> read_log_at (st_secs S);
          let q = Option.bind (ok_opt r) (\<lambda>raw. parse_external (st_rate S) (lossy_text raw));
          t \<leftarrow> adb_shell S prog serial [''cat'', ''/sys/devices/virtual/power/zte_power/adc2_temp''];
          let temp = opt_filter (\<lambda>n. - 40 \<le> n \<and> n \<le> 125) (map_option sint (Option.bind (ok_opt t) (\<lambda>raw. parse_i64 (trim (lossy_text raw)))));
          State_Monad.return (opt_get no_values q, if q = None then 0 else at, temp)
        })"

definition external_modem :: "('f, 'g) site \<Rightarrow> 'x screen_floats \<Rightarrow> uci_set list \<Rightarrow> string option \<Rightarrow> json \<Rightarrow> json \<Rightarrow>
    nat \<times> string \<times> string \<times> string \<times> string \<times> string \<times> string \<Rightarrow> ('f, json \<times> json) cio" where
  "external_modem S fl sets adb v3t msim m =
     (case m of (index, ident, serial, ifname, wan, usb_path, usb_id) \<Rightarrow> do {
        let ser = e_json_text (st_env S);
        let pre = ''v3t_'' @ nat_digits (index + 1) @ ''_'';
        let sl = clamp 0 1 (num_field v3t (pre @ ''st_slot''));
        let subid = (if index = 0 then 3 + sl else 5 + sl);
        wwan \<leftarrow> ask_device S ''zwrt_data'' ''get_wwaniface'' (web_args ''deviceui'' [(''subid'', jnum subid)]);
        traffic \<leftarrow> ask_device S ''zwrt_data'' ''get_wwandst'' (web_args ''deviceui'' [(''type'', jnum 1), (''subid'', jnum subid)]);
        ipv4 \<leftarrow> ask_device S (''network.interface.'' @ wan) ''status'' [];
        ipv6 \<leftarrow> ask_device S (''network.interface.'' @ wan @ ''_6'') ''status'' [];
        r \<leftarrow> external_readings S adb serial;
        let temp = snd (snd r);
        let text = (\<lambda>k. JString (prefixed_string ser v3t pre k));
        State_Monad.return
          (jobj [(''id'', JString ident), (''available'', JBool (temp \<noteq> None)), (''celsius'', jopt jnum temp),
             (''sampled_at'', jnum (if temp \<noteq> None then fst (snd r) else 0))],
           jobj [(''id'', JString ident), (''role'', JString ''external_4g''), (''transport'', JString ''cdc-ecm''), (''subid'', jnum subid),
             (''ifname'', JString ifname), (''wan_interface'', JString wan),
             (''usb'', jobj [(''path'', JString usb_path), (''id'', JString usb_id), (''present'', JBool False), (''carrier'', jnum 0)]),
             (''debug'', jobj [(''transport'', JString ''adb''), (''serial'', JString serial), (''available'', JBool (adb \<noteq> None))]),
             (''net'', topflow_external_net fl ser msim sets index sl),
             (''sim'', jobj [(''state'', text ''modem_main_state''), (''slot'', jnum sl), (''iccid'', text ''sim_iccid''),
               (''imsi'', text ''sim_imsi''), (''msisdn'', text ''msisdn''), (''imei'', text ''imei'')]),
             (''wwan'', wwan_json ser wwan),
             (''interfaces'', jobj [(''ipv4'', interface ser ipv4), (''ipv6'', interface ser ipv6)]),
             (''traffic'', realtime_traffic traffic), (''qos'', modem_qos (fst r) (fst (snd r)))])
      })"

section \<open>Aggregation\<close>

definition target_json :: "(json \<Rightarrow> string) \<Rightarrow> json \<Rightarrow> json" where
  "target_json ser t =
     (let status = str_field ser t ''status''; low = to_ascii_lowercase status
      in jobj [(''ip'', JString (str_field ser t ''ip'')), (''status'', JString status), (''online'', JBool (low = ''online'' \<or> low = ''up'')),
           (''latency_ms'', opt_get JNull (jget ''latency'' t)), (''packet_loss_percent'', opt_get JNull (jget ''packetloss'' t))])"

definition preferred_target :: "json list \<Rightarrow> json option" where
  "preferred_target ts =
     or_else (find (\<lambda>t. jget ''online'' t = Some (JBool True)) ts) (find (\<lambda>t. jget ''status'' t \<noteq> Some (JString ''skipped'')) ts)"

definition path_json :: "(json \<Rightarrow> string) \<Rightarrow> bool \<Rightarrow> string \<times> string \<times> string \<Rightarrow> json \<Rightarrow> json \<Rightarrow> json option" where
  "path_json ser mwan_running nm path iface =
     (let enabled = parse_bool path ''enabled''; running = parse_bool path ''running''; mwan_up = parse_bool path ''up'';
          interface_up = parse_bool iface ''up''; up = (mwan_up \<or> interface_up); status = str_field ser path ''status'';
          online = (to_ascii_lowercase status = ''online'' \<or> running \<and> mwan_up \<or> \<not> mwan_running \<and> interface_up);
          targets = map (target_json ser) (opt_get [] (Option.bind (jget ''track_ip'' path) as_array));
          shown = (\<lambda>k. case Option.bind (preferred_target targets) (jget k) of
             Some v \<Rightarrow> if v = JNull then [] else [(k, v)] | None \<Rightarrow> [])
      in if \<not> enabled \<and> \<not> running \<and> \<not> up then None
         else Some (jobj ([(''id'', JString (fst nm)), (''label'', JString (fst (snd nm))), (''interface'', JString (snd (snd nm))),
           (''enabled'', JBool enabled), (''running'', JBool running), (''up'', JBool up), (''online'', JBool online),
           (''interface_up'', JBool interface_up), (''interface_available'', JBool (parse_bool iface ''available'')),
           (''interface_pending'', JBool (parse_bool iface ''pending'')), (''status'', JString status),
           (''tracking'', JString (str_field ser path ''tracking'')), (''uptime_seconds'', jnum (num_field path ''uptime'')),
           (''targets'', JArray targets)] @ shown ''latency_ms'' @ shown ''packet_loss_percent'')))"

definition mwan_paths :: "(string \<times> string \<times> string) list" where
  "mwan_paths = [(''x75'', ''X75'', ''zte_mwan2''), (''v3e1'', ''V3E1'', ''zte_mwan3''), (''v3e2'', ''V3E2'', ''zte_mwan4''),
     (''ethernet'', ''Ethernet'', ''waneth'')]"

fun aggregation_paths :: "('f, 'g) site \<Rightarrow> bool \<Rightarrow> json \<Rightarrow> (string \<times> string \<times> string) list \<Rightarrow> ('f, json list) cio" where
  "aggregation_paths S mwan_running ifs [] = State_Monad.return []"
| "aggregation_paths S mwan_running ifs (nm # nms) =
     (case jget (snd (snd nm)) ifs of
        None \<Rightarrow> aggregation_paths S mwan_running ifs nms
      | Some path \<Rightarrow> do {
          iface \<leftarrow> ask_device S (''network.interface.'' @ snd (snd nm)) ''status'' [];
          rest \<leftarrow> aggregation_paths S mwan_running ifs nms;
          State_Monad.return ((case path_json (e_json_text (st_env S)) mwan_running nm path iface of Some p \<Rightarrow> [p] | None \<Rightarrow> []) @ rest)
        })"

definition icg_config :: "string \<Rightarrow> (string \<times> string) list" where
  "icg_config s = map_from (List.map_filter (\<lambda>l. map_option (\<lambda>(k, v). (trim k, trim v)) (split_at_first (CHR ''='') l)) (text_lines s))"

definition parse_u16 :: "string \<Rightarrow> nat option" where
  "parse_u16 s = opt_filter (\<lambda>n. n < 2 ^ 16) (parse_nat s)"

definition aggregation_json :: "string \<Rightarrow> bool \<Rightarrow> bool \<Rightarrow> nat \<times> string \<times> nat \<times> bool \<Rightarrow> (string \<times> string) list \<Rightarrow> string \<Rightarrow> string \<Rightarrow>
    json list \<Rightarrow> json" where
  "aggregation_json mode mwan_running provisioned tcp cfg remaining today_used paths =
     (let enabled = (mode = ''SMULTIWAN''); tunnels = fst tcp; runtime_ip = fst (snd tcp); runtime_port = fst (snd (snd tcp));
          num = (\<lambda>n. jnum (int n)); bytes = (\<lambda>s. jopt ju64 (parse_u64 s));
          ip = (if runtime_ip = [] then opt_get [] (map_of cfg ''AggregationServerIP'') else runtime_ip);
          port = (if runtime_port = 0 then opt_get 0 (Option.bind (map_of cfg ''AggregationServerTcpPort'') parse_u16) else runtime_port);
          udp = opt_get 0 (Option.bind (map_of cfg ''AggregationServerUdpStartPort'') parse_u16)
      in jobj [(''enabled'', JBool enabled), (''mode'', JString mode),
           (''state'', JString (if \<not> enabled then ''disabled'' else if \<not> provisioned then ''unprovisioned''
              else if tunnels > 0 then ''online'' else ''waiting'')),
           (''provisioned'', JBool provisioned), (''online'', JBool (tunnels > 0)),
           (''controller'', jobj [(''icg_process_running'', JBool (snd (snd (snd tcp)))), (''mwan3_running'', JBool mwan_running)]),
           (''tcp_tunnel_count'', num tunnels),
           (''server'', jobj [(''ip'', JString ip), (''tcp_port'', num port), (''udp_start_port'', num udp),
              (''source'', JString (if runtime_port > 0 then ''runtime'' else ''config''))]),
           (''paths'', JArray paths), (''path_count'', num (length paths)),
           (''online_path_count'', num (length (filter (\<lambda>p. jget ''online'' p = Some (JBool True)) paths))),
           (''traffic'', jobj [(''remaining_bytes'', bytes remaining), (''remaining_raw'', JString remaining),
              (''today_used_bytes'', bytes today_used), (''today_used_raw'', JString today_used)])])"

definition with_modems :: "json list \<Rightarrow> (string \<times> json) list \<Rightarrow> (string \<times> json) list" where
  "with_modems ms fs =
     (case map_of fs ''thermal'' of
        Some (JObject t) \<Rightarrow> map_insert ''thermal'' (JObject (map_insert ''modems'' (JArray ms) t)) fs
      | _ \<Rightarrow> fs)"

definition mu5252_extras :: "('f, 'g) site \<Rightarrow> 'x screen_floats \<Rightarrow> mu5252_ctx \<Rightarrow> (string \<times> json) list \<Rightarrow> ('f, (string \<times> json) list) cio" where
  "mu5252_extras S fl c fs = do {
     let ser = e_json_text (st_env S);
     let val = (\<lambda>p. on_dev (uci_path_value (st_env S) (st_ufiles S) p));
     let subid = clamp 1 6 (num_field (mc_sim c) ''current_sim_slot'');
     x75_traffic \<leftarrow> ask_device S ''zwrt_data'' ''get_wwandst'' (web_args ''deviceui'' [(''type'', jnum 1), (''subid'', jnum subid)]);
     v3t \<leftarrow> ask_device S ''zwrt_zte_mdm.api'' ''get_v3t_sim_info'' [];
     msim \<leftarrow> ask_device S ''zte_nwinfo_api'' ''nwinfo_get_msim_netinfo'' [];
     logs \<leftarrow> bearer_logs S;
     let q = select_bearer (st_rate S) logs (bearer_query ser (mc_raw_net c) (mc_imsi c));
     let temp = mc_cpu_temp c;
     let adb = e_var (st_env S) ''ZWRT_DATAD_ADB_BIN'';
     m1 \<leftarrow> external_modem S fl (mc_uci_sets c) adb v3t msim (external_modems ! 0);
     m2 \<leftarrow> external_modem S fl (mc_uci_sets c) adb v3t msim (external_modems ! 1);
     let therm = [jobj [(''id'', JString ''x75''), (''available'', JBool (temp > 0)), (''celsius'', if temp > 0 then jnum temp else JNull)], fst m1, fst m2];
     mode \<leftarrow> val ''zwrt_router.network.opms_wan_mode'';
     let running = is_some_and (Option.bind (e_var (st_env S) ''ZWRT_DATAD_MWAN3_RUNNING'') parse_i64) (\<lambda>n. n \<noteq> 0);
     status \<leftarrow> ask_device S ''mwan3'' ''status'' [];
     paths \<leftarrow> aggregation_paths S running (opt_get (JObject []) (opt_filter is_object (jget ''interfaces'' status))) mwan_paths;
     dev_id \<leftarrow> val ''zwrt_router.icgmwan.IcgDevId'';
     remaining \<leftarrow> val ''zwrt_router.icgmwan.residual_flow'';
     today \<leftarrow> val ''zwrt_router.icgmwan.count_flow_today'';
     let cfg = icg_config (read_text (st_files S) (env_or (st_env S) ''ZWRT_DATAD_ICG_CONFIG'' ''/etc/config/icg.conf''));
     State_Monad.return (put_all
       [(''modems'', JArray [x75_modem ser c subid x75_traffic q, snd m1, snd m2]),
        (''aggregation'', aggregation_json mode running (dev_id \<noteq> []) (tcp_aggregation_summary (st_env S) (st_files S)) cfg remaining today paths),
        (''multiwan'', topflow_multiwan (mc_uci_sets c) mode running)] (with_modems therm fs))
   }"

section \<open>A round\<close>

record snapshot_data =
  sd_ts :: int
  sd_fields :: "(string \<times> json) list"

definition record_blocks :: "nat \<Rightarrow> u64 \<Rightarrow> (string \<times> (string + json)) list \<Rightarrow> hub \<Rightarrow> hub" where
  "record_blocks now wall bs h = fold (\<lambda>(n, r). hub_record n r now wall) bs h"

definition collect_round :: "('f, 'g) site \<Rightarrow> 'x screen_floats \<Rightarrow> u64 \<Rightarrow> (dev_event list \<Rightarrow> u64) \<Rightarrow> hub \<Rightarrow> ring \<Rightarrow> host_mem \<Rightarrow>
    ('f, snapshot_data \<times> hub \<times> ring \<times> host_mem) cio" where
  "collect_round S fl interval wall h rg hm = do {
     r \<leftarrow> read_inputs S h rg hm;
     let p = project (st_rate S) (e_json_text (st_env S)) (fst r) interval;
     fs \<leftarrow> (case pr_mu5252 p of Some c \<Rightarrow> mu5252_extras S fl c (pr_fields p) | None \<Rightarrow> State_Monad.return (pr_fields p));
     now \<leftarrow> read_log_at (st_clk S);
     w \<leftarrow> read_log_at wall;
     ts \<leftarrow> read_log_at (st_secs S);
     State_Monad.return (\<lparr>sd_ts = ts, sd_fields = fs\<rparr>, record_blocks now w (pr_blocks p) h, snd r)
   }"

section \<open>A round only asks\<close>

definition cemits :: "(dev_event \<Rightarrow> bool) \<Rightarrow> ('f, 'a) cio \<Rightarrow> bool" where
  "cemits P m \<longleftrightarrow> (\<forall>s. device_ok (co_dev s) \<longrightarrow> device_ok (co_dev (snd (run_state m s))) \<and>
     (\<exists>es. co_log (snd (run_state m s)) = co_log s @ es \<and> list_all P es))"

lemma cemits_return: "cemits P (State_Monad.return x)"
  by (simp add: cemits_def)

lemma cemits_bind:
  assumes "cemits P m" "\<And>x. cemits P (f x)"
  shows "cemits P (m \<bind> f)"
  unfolding cemits_def
proof (intro allI impI)
  fix s :: "'a collector" assume "device_ok (co_dev s)"
  then obtain x s1 es where 1: "run_state m s = (x, s1)" "device_ok (co_dev s1)" "co_log s1 = co_log s @ es" "list_all P es"
    using assms(1) unfolding cemits_def by (metis prod.collapse)
  then obtain y s2 es' where 2: "run_state (f x) s1 = (y, s2)" "device_ok (co_dev s2)" "co_log s2 = co_log s1 @ es'" "list_all P es'"
    using assms(2) [of x] unfolding cemits_def by (metis prod.collapse)
  show "device_ok (co_dev (snd (run_state (m \<bind> f) s))) \<and>
      (\<exists>es. co_log (snd (run_state (m \<bind> f) s)) = co_log s @ es \<and> list_all P es)"
    using 1 2 by (intro conjI exI [of _ "es @ es'"]) simp_all
qed

lemma cemits_get: "cemits P State_Monad.get"
  by (simp add: cemits_def State_Monad.get_def)

lemma cemits_log_at: "cemits P (read_log_at f)"
  by (simp add: cemits_def read_log_at_def)

lemma cemits_now: "cemits P (now_at clk)"
  by (simp add: cemits_def now_at_def)

lemma cemits_update: "(\<And>s. co_dev (f s) = co_dev s) \<Longrightarrow> cemits P (State_Monad.update f)"
  by (simp add: cemits_def State_Monad.update_def State_Monad.set_def State_Monad.get_def)

lemma cemits_on_dev: "emits P m \<Longrightarrow> cemits P (on_dev m)"
  by (auto simp: cemits_def emits_def wp_def on_dev_def split: prod.split)

lemmas cemits_rules = cemits_bind cemits_return cemits_get cemits_log_at cemits_now cemits_update

lemma emits_log_event: "(\<And>r. P (ev r)) \<Longrightarrow> emits P (log_event answer ev)"
  unfolding emits_def by (rule wp_log_event) simp

lemma emits_get: "emits P State_Monad.get"
  by (simp add: emits_def wp_def State_Monad.get_def)

lemma emits_set_key: "emits P (State_Monad.update (\<lambda>w. w\<lparr>w_key := k\<rparr>))"
  unfolding emits_def by (rule wp_set_key) simp

lemma emits_calls:
  "(\<And>r. P (Ubus sv m a r)) \<Longrightarrow> emits P (executor_call E sv m a)"
  "(\<And>r. P (Ubus sv m a r)) \<Longrightarrow> emits P (ubus E sv m a)"
  "(\<And>r. P (Run prog args d r)) \<Longrightarrow> emits P (command_run E prog args d)"
  unfolding executor_call_def ubus_def command_run_def by (auto intro!: emits_log_event emits_bind)

lemma cemits_read: "(\<And>r. P (Ubus sv m a r)) \<Longrightarrow> cemits P (ubus_ttl_read E clk ttl sv m a)"
  unfolding ubus_ttl_read_def Let_def
  by (auto intro!: cemits_rules cemits_on_dev emits_calls split: option.split)

lemma cemits_ttl: "(\<And>r. P (Ubus sv m a r)) \<Longrightarrow> cemits P (ubus_ttl E clk ttl sv m a)"
  unfolding ubus_ttl_def by (intro cemits_rules cemits_read)

text \<open>The calls of a round. The only one that sets anything registers the session key for reading short messages.\<close>

definition round_calls :: "(string \<times> string) list" where
  "round_calls =
     [(''zwrt_zte_mdm.api'', ''get_zwrt_common_info''), (''system'', ''board''), (''system'', ''info''),
      (''zte_nwinfo_api'', ''nwinfo_get_netinfo''), (''zwrt_data'', ''get_wwandst''), (''zwrt_data'', ''get_wwandst_monthlimit''),
      (''zwrt_data'', ''get_wwandst_clearday''), (''zwrt_zte_mdm.api'', ''get_sim_info''), (''zwrt_zte_mdm.api'', ''get_imei''),
      (''zwrt_router.api'', ''router_lan_access_list''), (''zwrt_router.api'', ''router_wireless_access_list''),
      (''zwrt_router.api'', ''router_get_status_no_auth''), (''zwrt_bsp.thermal'', ''get_cpu_temp''), (''uci'', ''get''),
      (''zwrt_bsp.usb'', ''list''), (''zwrt_nfc'', ''zwrt_nfc_wifi_get''), (''zwrt_web'', ''web_crt_get''),
      (''zwrt_web'', ''web_http_enstr_set''), (''zwrt_wms'', ''zwrt_wms_get_wms_capacity''), (''zwrt_wms'', ''zte_libwms_get_sms_data''),
      (''network.interface.lan'', ''status''), (''network.interface.zte_wan'', ''status''), (''network.interface.zte_wan6'', ''status''),
      (''zwrt_router.api'', ''router_get_lan_info''), (''zwrt_data'', ''get_wwaniface''),
      (''zwrt_zte_mdm.api'', ''get_v3t_sim_info''), (''zte_nwinfo_api'', ''nwinfo_get_msim_netinfo''), (''mwan3'', ''status''),
      (''network.interface.zte_mwan2'', ''status''), (''network.interface.zte_mwan3'', ''status''), (''network.interface.zte_mwan4'', ''status''),
      (''network.interface.zte_mwan3_6'', ''status''), (''network.interface.zte_mwan4_6'', ''status''), (''network.interface.waneth'', ''status'')]"

definition round_commands :: "env \<Rightarrow> string \<Rightarrow> string list \<Rightarrow> bool" where
  "round_commands E prog args \<longleftrightarrow>
     prog = uci_bin E \<and> (\<exists>p. args = [''-q'', ''show'', p] \<and> p \<in> set packages \<or> args = [''-q'', ''get'', p] \<and> uci_path_ok p) \<or>
     e_var E ''ZWRT_DATAD_ADB_BIN'' = Some prog \<and>
       (\<exists>serial \<in> {''V3E1T12345'', ''V3E2T12345''}.
          args = [''-s'', serial, ''shell'', ''grep QCI= /logfs/key.log | tail -n 64''] \<or>
          args = [''-s'', serial, ''shell'', ''cat'', ''/sys/devices/virtual/power/zte_power/adc2_temp''])"

definition round_event :: "env \<Rightarrow> dev_event \<Rightarrow> bool" where
  "round_event E ev =
     (case ev of
        Ubus sv m _ _ \<Rightarrow> (sv, m) \<in> set round_calls
      | Run prog args _ _ \<Rightarrow> round_commands E prog args
      | Rand _ _ \<Rightarrow> True
      | _ \<Rightarrow> False)"

lemma round_call: "(sv, m) \<in> set round_calls \<Longrightarrow> round_event E (Ubus sv m a r)"
  by (simp add: round_event_def)

lemma emits_prepare: "emits (round_event E) (prepare E C)"
  unfolding prepare_def ensure_crypto_session_def fill_bytes_def
  by (auto intro!: emits_bind emits_calls emits_log_event emits_get emits_set_key
      simp: round_event_def round_calls_def split: sum.split option.split)

lemma emits_normalize: "emits P (normalize_lists C replies)"
  unfolding normalize_lists_def by (intro emits_bind emits_get emits_return)

lemma cemits_show:
  assumes "p \<in> set packages"
  shows "cemits (round_event E) (uci_show_ttl E clk files ttl p)"
proof -
  have "emits (round_event E) (uci_show E files p)"
    unfolding uci_show_def using assms
    by (auto intro!: emits_bind emits_calls simp: round_event_def round_commands_def split: option.split)
  then show ?thesis unfolding uci_show_ttl_def
    by (auto intro!: cemits_rules cemits_on_dev split: option.split)
qed

lemma cemits_packages: "set ps \<subseteq> set packages \<Longrightarrow> cemits (round_event (st_env S)) (read_packages S ps)"
  by (induction ps) (auto intro!: cemits_rules cemits_show)

lemma cemits_logs: "cemits P (bearer_logs S)"
  unfolding bearer_logs_def Let_def by (intro cemits_rules) simp

lemma cemits_get_ttl: "(sv, m) \<in> set round_calls \<Longrightarrow> cemits (round_event (st_env S)) (get_ttl S ttl sv m args)"
  unfolding get_ttl_def by (intro cemits_ttl round_call)

lemma cemits_get_ttl_read: "(sv, m) \<in> set round_calls \<Longrightarrow> cemits (round_event (st_env S)) (get_ttl_read S ttl sv m args)"
  unfolding get_ttl_read_def by (intro cemits_read round_call)

lemma cemits_ask: "(sv, m) \<in> set round_calls \<Longrightarrow> cemits (round_event (st_env S)) (ask_device S sv m args)"
  unfolding ask_device_def by (intro cemits_rules cemits_on_dev emits_calls round_call)

lemma cemits_read_inputs: "cemits (round_event (st_env S)) (read_inputs S h rg hm)"
  unfolding read_inputs_def Let_def
  by (intro cemits_rules cemits_get_ttl cemits_get_ttl_read cemits_packages cemits_logs cemits_on_dev emits_prepare)
    (auto simp: round_calls_def intro!: cemits_rules cemits_on_dev emits_normalize)

section \<open>The external modems\<close>

lemma emits_uci_value: "emits (round_event E) (uci_path_value E files p)"
proof -
  have "emits (round_event E) (uci_read E p)" for p
    unfolding uci_read_def by (auto intro!: emits_bind emits_calls simp: round_event_def round_commands_def)
  then show ?thesis unfolding uci_path_value_def by (auto split: list.split option.split)
qed

lemma cemits_external:
  assumes "m \<in> set external_modems"
  shows "cemits (round_event (st_env S)) (external_modem S fl sets (e_var (st_env S) ''ZWRT_DATAD_ADB_BIN'') v3t msim m)"
proof -
  have shell: "cemits (round_event (st_env S)) (external_readings S (e_var (st_env S) ''ZWRT_DATAD_ADB_BIN'') serial)"
    if "serial \<in> {''V3E1T12345'', ''V3E2T12345''}" for serial
    unfolding external_readings_def adb_shell_def Let_def using that
    by (auto intro!: cemits_rules cemits_on_dev emits_calls simp: round_event_def round_commands_def split: option.split)
  show ?thesis using assms unfolding external_modems_def external_modem_def Let_def
    by (auto intro!: cemits_rules cemits_ask shell simp: round_calls_def)
qed

lemma cemits_paths: "set nms \<subseteq> set mwan_paths \<Longrightarrow> cemits (round_event (st_env S)) (aggregation_paths S running ifs nms)"
proof (induction nms)
  case (Cons nm nms)
  then have "(''network.interface.'' @ snd (snd nm), ''status'') \<in> set round_calls"
    by (auto simp: mwan_paths_def round_calls_def)
  then show ?case using Cons by (auto intro!: cemits_rules cemits_ask split: option.split)
qed (simp add: cemits_return)

lemma cemits_extras: "cemits (round_event (st_env S)) (mu5252_extras S fl c fs)"
proof -
  have "external_modems ! 0 \<in> set external_modems" "external_modems ! 1 \<in> set external_modems" by (simp_all add: external_modems_def)
  then show ?thesis unfolding mu5252_extras_def Let_def
    by (intro cemits_rules cemits_ask cemits_logs cemits_external cemits_on_dev emits_uci_value cemits_paths)
      (auto simp: round_calls_def)
qed

text \<open>
  Property C19. Whatever the device answers, a round of the collector, with the external modems of MU5252, only asks: every
  ubus call is one of a fixed list of readings, every child process is \<open>uci show\<close> of a known package, \<open>uci get\<close>
  or one of two read commands on the external modems, and no AT command, file operation, HTTP request or wait
  occurs. The only call that sets anything registers the session key for reading short messages.
\<close>

theorem round_only_asks:
  assumes "device_ok (co_dev s)"
  shows "\<exists>es. co_log (snd (run_state (collect_round S fl interval wall h rg hm) s)) = co_log s @ es \<and>
    list_all (round_event (st_env S)) es"
proof -
  have "cemits (round_event (st_env S)) (collect_round S fl interval wall h rg hm)"
    unfolding collect_round_def Let_def
    by (intro cemits_rules cemits_read_inputs) (auto intro!: cemits_rules cemits_extras split: option.split)
  then show ?thesis using assms unfolding cemits_def by blast
qed

definition plain_site :: "(int, int) site" where
  "plain_site =
     \<lparr>st_env = cache_env, st_crypto = sample_crypto, st_clk = cache_clock, st_ms = (\<lambda>l. of_nat (length l)), st_secs = (\<lambda>l. int (length l)),
      st_files = (\<lambda>_. None), st_ufiles = (\<lambda>_ _. None), st_dir = (\<lambda>_. None), st_vfs = None, st_rate = plain_rates,
      st_temp = \<lparr>to_of_milli = (\<lambda>n. n div 1000), to_json = jnum, to_zero = 0, to_max = max, to_mean = hd, to_round = id\<rparr>,
      st_rotated = None, st_current = None\<rparr>"

definition plain_floats :: "int screen_floats" where
  "plain_floats = \<lparr>sf_parse = (\<lambda>_. None), sf_int = id, sf_add_half = id, sf_less = (<), sf_le = (\<le>), sf_eq = (=), sf_trunc = id,
     sf_fmt0 = int_digits, sf_fmt1 = int_digits\<rparr>"

theorem round_only_asks_witness:
  "device_ok (co_dev cache_start) \<and>
   (\<exists>es. co_log (snd (run_state (collect_round plain_site plain_floats 1000 (\<lambda>_. 0) (hub_new []) [] \<lparr>hm_cpu = [], hm_link = [], hm_ring = []\<rparr>)
       cache_start)) = co_log cache_start @ es \<and> list_all (round_event (st_env plain_site)) es)"
proof -
  have "device_ok (co_dev cache_start)" by (simp add: device_ok_def cache_start_def)
  then show ?thesis using round_only_asks by blast
qed

section \<open>A failed reading of the card\<close>

text \<open>
  A failure that is still in the cache counts as read. For the card, whose block looks at that flag alone, this means
  that the round after a failed reading serves a card without ICCID as good data: the flag says that the reading was
  made, while the comment at \<open>sim_ok\<close> wants only values read in this round. The blocks of the short messages ask for a
  successful reply as well and are not affected.
\<close>

lemma cached_failure_counts_as_read:
  assumes "ttl \<noteq> 0" "cache_enabled E" "cache_find (co_ubus s) (cache_key E sv m a) = Some e"
    "clk (co_log s) - cc_at e < cc_ttl e" "cc_value e = Err x"
  shows "run_state (ubus_ttl_read E clk ttl sv m a) s = ((Err x, True), s)"
proof -
  have "cache_get (clk (co_log s)) (co_ubus s) (cache_key E sv m a) = Some (Err x)" using assms by (auto simp: cache_get_find)
  then show ?thesis using assms(1,2) by (simp add: ubus_ttl_read_run Let_def)
qed

lemma state_sim: "map_of (state_fields rt ser i iv) ''sim'' = Some (sim_object ser (reply_object (si_sim i)) (imsi_of ser i) (msisdn_of ser i))"
  by (simp add: state_fields_def Let_def map_of_put_all later_fields_def map_add_def)

theorem failed_sim_reading_is_served:
  assumes "si_sim i = Err x" "si_sim_read i"
  shows "\<exists>d. map_of (pr_blocks (project rt ser i interval)) ''sim'' = Some (Ok d) \<and> jget ''iccid'' d = Some (JString [])"
proof -
  have "str_field ser (JObject []) k = []" for k by (simp add: str_field_def jget_def)
  then have "jget ''iccid'' (sim_object ser (JObject []) a b) = Some (JString [])" for a b
    by (simp add: sim_object_def Let_def jget_jobj map_of_map_from)
  then show ?thesis using assms
    by (simp add: project_def Let_def derived_blocks_def guarded_def state_sim reply_object_def)
qed
end
