(* ===== verification/Executor.thy ===== *)
theory Executor
  imports Block_Hub Ubus_Client "HOL-Library.Sublist"
begin

text \<open>
  The single executor, \<^verbatim>\<open>rust/src/executor.rs\<close>: every ubus request of the program goes through it,
  one at a time. State: the queue of jobs, the budget and the skips of the current round, the gate that holds writes
  back after a timeout, the cooldown of slow objects, the hub, and the liveness marks of the watchdog.

  The backend is a parameter: \<open>x_env n\<close> is what the \<open>n\<close>-th call gives and how long it takes; a timeout error always
  names the object that was called, as both backends build it. A job or the
  legacy collection is code of other modules; here it is the sequence of things it does to the executor
  (a call, a request that arrives in the queue meanwhile, time that passes, \<dots>), and every theorem is about all
  such sequences. The mutexes are never held across an await, so each access is atomic. \<open>x_trace\<close> records
  what is done; no definition reads it. Times are nanoseconds.
\<close>

section \<open>Configuration and state\<close>

definition round_budget :: nat where "round_budget = of_secs 3"
definition control_queue_cap :: nat where "control_queue_cap = 8"
definition call_limit :: nat where "call_limit = of_secs 10"
definition gate_probes :: nat where "gate_probes = 4"
definition legacy_timeout_limit :: nat where "legacy_timeout_limit = 6"

record config =
  cf_budget :: nat
  cf_cache :: bool
  cf_control_queue :: nat
  cf_cooldown :: nat

definition cooldown_from :: "string option \<Rightarrow> nat" where
  "cooldown_from v =
     (case Option.bind v (\<lambda>s. parse_u64 (trim s)) of Some ms \<Rightarrow> unat ms * 1000000 | None \<Rightarrow> 0)"

definition config_default :: config where
  "config_default = \<lparr>cf_budget = round_budget, cf_cache = True, cf_control_queue = control_queue_cap, cf_cooldown = 0\<rparr>"

text \<open>Jobs, with what happens while they run.\<close>

datatype job = Job (j_control: bool) (j_id: nat) (j_acts: "act list")
and act = ACall string string json | APush job | AWriting bool | AMark "string list option" | AProgress | AWait nat

datatype leg = LCall string string json | LPreempt | LRecord string "string + json" u64 | LWait nat

datatype trace = TCall bool bool string string json "ubus_error + json" | TQueued nat | TJob nat

record liveness =
  lv_epoch :: nat
  lv_last_ms :: u64
  lv_busy :: bool
  lv_call_until_ms :: u64

record exec =
  x_now :: nat
  x_jobs :: "job list"
  x_controls :: nat
  x_skips :: round_skips
  x_used :: nat
  x_cut_logged :: bool
  x_hub :: hub
  x_cfg :: config
  x_interval_ms :: u64
  x_cursor :: nat
  x_kick :: bool
  x_rounds :: u64
  x_calls :: u64
  x_live :: liveness
  x_gate :: "string option"
  x_writing :: bool
  x_in_round :: bool
  x_cooldown :: "(string \<times> nat) list"
  x_env :: "nat \<Rightarrow> nat \<times> (ubus_error + json)"
  x_n :: nat
  x_trace :: "trace list"

section \<open>Liveness\<close>

definition lv_new :: "nat \<Rightarrow> liveness" where
  "lv_new now = \<lparr>lv_epoch = now, lv_last_ms = 1, lv_busy = True, lv_call_until_ms = 0\<rparr>"

definition lv_at :: "nat \<Rightarrow> liveness \<Rightarrow> u64" where
  "lv_at t l = of_nat ((t - lv_epoch l) div 1000000) + 1"

definition lv_progress :: "nat \<Rightarrow> liveness \<Rightarrow> liveness" where
  "lv_progress now l = l\<lparr>lv_last_ms := lv_at now l\<rparr>"

definition lv_set_busy :: "bool \<Rightarrow> nat \<Rightarrow> liveness \<Rightarrow> liveness" where
  "lv_set_busy busy now l = (if busy then lv_progress now l else l)\<lparr>lv_busy := busy\<rparr>"

definition lv_call_started :: "nat \<Rightarrow> liveness \<Rightarrow> liveness" where
  "lv_call_started now l = l\<lparr>lv_call_until_ms := lv_at (now + call_limit) l\<rparr>"

definition lv_call_done :: "nat \<Rightarrow> liveness \<Rightarrow> liveness" where
  "lv_call_done now l = lv_progress now (l\<lparr>lv_call_until_ms := 0\<rparr>)"

definition age_ms :: "nat \<Rightarrow> liveness \<Rightarrow> u64" where
  "age_ms now l = (if \<not> lv_busy l then 0 else sat_sub (lv_at now l) (lv_last_ms l))"

definition stalled :: "nat \<Rightarrow> nat \<Rightarrow> liveness \<Rightarrow> bool" where
  "stalled now limit l \<longleftrightarrow> age_ms now l > of_nat (limit div 1000000)
     \<and> \<not> (lv_call_until_ms l \<noteq> 0 \<and> lv_at now l < lv_call_until_ms l)"

section \<open>Calls\<close>

definition legacy_cut :: "exec \<Rightarrow> bool \<times> exec" where
  "legacy_cut x =
     (if length (x_skips x) < legacy_timeout_limit then (False, x) else (True, x\<lparr>x_cut_logged := True\<rparr>))"

definition cooling :: "string \<Rightarrow> exec \<Rightarrow> bool \<times> exec" where
  "cooling obj x =
     (case map_of (x_cooldown x) obj of
        Some t \<Rightarrow> if x_now x < t then (True, x) else (False, x\<lparr>x_cooldown := map_remove obj (x_cooldown x)\<rparr>)
      | None \<Rightarrow> (False, x))"

text \<open>The conditions under which a call is not sent, in the order of the source.\<close>

definition skipped :: "bool \<Rightarrow> bool \<Rightarrow> bool \<Rightarrow> string \<Rightarrow> exec \<Rightarrow> bool \<times> exec" where
  "skipped round old_style cool obj x =
     (if round \<and> is_skipped obj (x_skips x) then (True, x)
      else
        let (c, x) = (if cool then cooling obj x else (False, x))
        in if c then (True, x) else if old_style then legacy_cut x else (False, x))"

definition is_timeout_error :: "ubus_error + json \<Rightarrow> bool" where
  "is_timeout_error r = (case r of Err (UTimeout _ _) \<Rightarrow> True | _ \<Rightarrow> False)"

text \<open>The call itself: the backend takes its time and answers.\<close>

definition answer_for :: "string \<Rightarrow> ubus_error + json \<Rightarrow> ubus_error + json" where
  "answer_for obj r = (case r of Err (UTimeout _ d) \<Rightarrow> Err (UTimeout obj d) | _ \<Rightarrow> r)"

definition backend_answers :: "bool \<Rightarrow> bool \<Rightarrow> string \<Rightarrow> string \<Rightarrow> json \<Rightarrow> exec \<Rightarrow> nat \<times> (ubus_error + json) \<times> exec" where
  "backend_answers round old_style obj meth args x =
     (let d = fst (x_env x (x_n x)); r = answer_for obj (snd (x_env x (x_n x)));
          x = x\<lparr>x_calls := x_calls x + 1, x_live := lv_call_started (x_now x) (x_live x), x_n := x_n x + 1,
                x_now := x_now x + d, x_trace := x_trace x @ [TCall round old_style obj meth args r]\<rparr>
      in (d, r, x\<lparr>x_live := lv_call_done (x_now x) (x_live x)\<rparr>))"

definition raw_call :: "bool \<Rightarrow> bool \<Rightarrow> string \<Rightarrow> string \<Rightarrow> json \<Rightarrow> exec \<Rightarrow> (ubus_error + json) \<times> exec" where
  "raw_call round cool obj meth args x =
     (let old_style = (round \<and> cool); cool = (old_style \<and> cf_cooldown (x_cfg x) \<noteq> 0);
          (skip, x) = skipped round old_style cool obj x
      in if skip then (Err (USkipped obj), x)
         else
           let (d, r, x) = backend_answers round old_style obj meth args x;
               x = (if round then
                      x\<lparr>x_used := x_used x + d,
                        x_skips := (case r of Err e \<Rightarrow> skips_record e (x_skips x) | Ok _ \<Rightarrow> x_skips x)\<rparr>
                    else x);
               x = (if cool \<and> is_timeout_error r
                    then x\<lparr>x_cooldown := map_insert obj (x_now x + cf_cooldown (x_cfg x)) (x_cooldown x)\<rparr> else x)
           in (r, x))"

definition probes :: "(string \<times> string) list" where
  "probes = [(''zte_nwinfo_api'', ''nwinfo_get_netinfo''), (''zwrt_data'', ''get_wwaniface''),
     (''zwrt_zte_mdm.api'', ''get_sim_info''), (''zwrt_apn_object'', ''get_apn_mode''),
     (''zwrt_router.api'', ''router_get_status_no_auth''), (''zwrt_bsp.usb'', ''list''),
     (''zwrt_wms'', ''zwrt_wms_get_wms_capacity''), (''zwrt_nfc'', ''zwrt_nfc_wifi_get'')]"

definition probe_for :: "string \<Rightarrow> exec \<Rightarrow> string \<times> string \<times> json" where
  "probe_for obj x =
     (case map_of probes obj of
        Some m \<Rightarrow>
          (obj, m,
           if obj = ''zwrt_data''
           then jobj [(''source_module'', JString ''web''), (''cid'', JNumber (PosInt 1)), (''connect_status'', JString [])]
           else JObject [])
      | None \<Rightarrow>
          (case List.find (\<lambda>b. bs_object (bk_spec b) = obj) (h_blocks (x_hub x)) of
             Some b \<Rightarrow> (bs_object (bk_spec b), bs_method (bk_spec b), bs_args (bk_spec b))
           | None \<Rightarrow> (''system'', ''board'', JObject [])))"

fun probe_gate :: "nat \<Rightarrow> string \<times> string \<times> json \<Rightarrow> exec \<Rightarrow> exec" where
  "probe_gate 0 req x = x"
| "probe_gate (Suc n) req x =
     (let (r, x) = raw_call False False (fst req) (fst (snd req)) (snd (snd req)) x
      in if is_timeout_error r then probe_gate n req x else x)"

definition reopen_gate :: "exec \<Rightarrow> exec" where
  "reopen_gate x =
     (case x_gate x of
        None \<Rightarrow> x
      | Some obj \<Rightarrow> (probe_gate gate_probes (probe_for obj x) x)\<lparr>x_gate := None\<rparr>)"

definition call_here :: "bool \<Rightarrow> bool \<Rightarrow> string \<Rightarrow> string \<Rightarrow> json \<Rightarrow> exec \<Rightarrow> (ubus_error + json) \<times> exec" where
  "call_here round cool obj meth args x =
     (let writing = (\<not> round \<and> x_writing x);
          x = (if writing then reopen_gate x else x);
          (r, x) = raw_call round cool obj meth args x
      in (r, if writing \<and> is_timeout_error r then x\<lparr>x_gate := Some obj\<rparr> else x))"

section \<open>The queue\<close>

definition push :: "job \<Rightarrow> exec \<Rightarrow> bool \<times> exec" where
  "push j x =
     (if j_control j \<and> x_controls x \<ge> cf_control_queue (x_cfg x) then (False, x)
      else (True, x\<lparr>x_controls := (if j_control j then x_controls x + 1 else x_controls x), x_jobs := x_jobs x @ [j],
                     x_trace := x_trace x @ [TQueued (j_id j)]\<rparr>))"

fun run_act :: "act \<Rightarrow> exec \<Rightarrow> exec" where
  "run_act (ACall obj meth args) x = snd (call_here False False obj meth args x)"
| "run_act (APush j) x = snd (push j x)"
| "run_act (AWriting w) x = x\<lparr>x_writing := w\<rparr>"
| "run_act (AMark names) x = x\<lparr>x_hub := mark_immediate names (x_hub x)\<rparr>"
| "run_act AProgress x = x\<lparr>x_live := lv_progress (x_now x) (x_live x)\<rparr>"
| "run_act (AWait d) x = x\<lparr>x_now := x_now x + d\<rparr>"

definition run_job :: "job \<Rightarrow> exec \<Rightarrow> exec" where
  "run_job j x =
     (let x = fold run_act (j_acts j) (x\<lparr>x_trace := x_trace x @ [TJob (j_id j)]\<rparr>)
      in x\<lparr>x_live := lv_progress (x_now x) (x_live x)\<rparr>)"

fun drain_n :: "nat \<Rightarrow> exec \<Rightarrow> exec" where
  "drain_n 0 x = x"
| "drain_n (Suc n) x =
     (case x_jobs x of
        [] \<Rightarrow> x
      | j # js \<Rightarrow>
          drain_n n (run_job j (x\<lparr>x_jobs := js, x_controls := (if j_control j then x_controls x - 1 else x_controls x)\<rparr>)))"

definition drain :: "exec \<Rightarrow> exec" where
  "drain x = drain_n (length (x_jobs x)) x"

section \<open>Rounds\<close>

definition x_sample_interval :: "exec \<Rightarrow> nat" where
  "x_sample_interval x = unat (x_interval_ms x) * 1000000"

definition x_schedule :: "exec \<Rightarrow> schedule" where
  "x_schedule x = \<lparr>cache = cf_cache (x_cfg x), sample_interval = x_sample_interval x\<rparr>"

text \<open>The texts of the errors, \<open>to_string\<close>, are a parameter.\<close>

definition read_block :: "(ubus_error \<Rightarrow> string) \<Rightarrow> u64 \<Rightarrow> nat \<Rightarrow> exec \<Rightarrow> exec" where
  "read_block txt wall i x =
     (let (obj, meth, args) = hub_request i (x_hub x);
          (r, x) = call_here True False obj meth args x
      in x\<lparr>x_hub := record_read i (case r of Err e \<Rightarrow> Err (txt e) | Ok v \<Rightarrow> Ok v) (x_now x) wall (x_hub x)\<rparr>)"

fun read_from :: "(ubus_error \<Rightarrow> string) \<Rightarrow> u64 \<Rightarrow> nat list \<Rightarrow> exec \<Rightarrow> exec" where
  "read_from txt wall [] x = x"
| "read_from txt wall (i # is) x =
     (let x = drain x
      in if \<not> hub_due i (x_now x) (x_schedule x) (x_hub x) then read_from txt wall is x
         else if x_used x \<ge> cf_budget (x_cfg x) then x\<lparr>x_cursor := i\<rparr>
         else read_from txt wall is (read_block txt wall i x))"

definition read_blocks :: "(ubus_error \<Rightarrow> string) \<Rightarrow> u64 \<Rightarrow> exec \<Rightarrow> exec" where
  "read_blocks txt wall x =
     (let n = length (h_blocks (x_hub x))
      in if n = 0 then x
         else read_from txt wall (map (\<lambda>k. (x_cursor x mod n + k) mod n) [0..<n]) x)"

fun run_leg :: "leg \<Rightarrow> exec \<Rightarrow> exec" where
  "run_leg (LCall obj meth args) x = snd (call_here True True obj meth args x)"
| "run_leg LPreempt x = drain x"
| "run_leg (LRecord n r wall) x = x\<lparr>x_hub := hub_record n r (x_now x) wall (x_hub x)\<rparr>"
| "run_leg (LWait d) x = x\<lparr>x_now := x_now x + d\<rparr>"

definition exec_round :: "(ubus_error \<Rightarrow> string) \<Rightarrow> u64 \<Rightarrow> leg list option \<Rightarrow> exec \<Rightarrow> exec" where
  "exec_round txt wall driver x =
     (let x = x\<lparr>x_skips := [], x_used := 0, x_cut_logged := False, x_in_round := True\<rparr>;
          x = read_blocks txt wall x;
          x = (case driver of Some ls \<Rightarrow> fold run_leg ls (drain x) | None \<Rightarrow> x);
          x = drain x;
          x = x\<lparr>x_live := lv_progress (x_now x) (x_live x), x_in_round := False\<rparr>
      in x\<lparr>x_hub := snd (round_end (x_now x) (x_sample_interval x) (x_hub x)), x_rounds := x_rounds x + 1\<rparr>)"

section \<open>The timer and the public operations\<close>

definition heartbeat_tick :: "nat \<Rightarrow> exec \<Rightarrow> exec" where
  "heartbeat_tick every x =
     (let h = (if x_in_round x then hub_expire (x_now x) (x_sample_interval x) (x_hub x) else x_hub x)
      in x\<lparr>x_hub := snd (heartbeat_if_quiet (x_now x) (age_ms (x_now x) (x_live x)) every h)\<rparr>)"

definition set_interval_ms :: "u64 \<Rightarrow> exec \<Rightarrow> exec" where
  "set_interval_ms ms x = x\<lparr>x_interval_ms := ms\<rparr>"

definition kick :: "string list \<Rightarrow> exec \<Rightarrow> exec" where
  "kick names x = x\<lparr>x_hub := mark_immediate (Some names) (x_hub x), x_kick := True\<rparr>"

definition exec_new :: "hub \<Rightarrow> config \<Rightarrow> u64 \<Rightarrow> (nat \<Rightarrow> nat \<times> (ubus_error + json)) \<Rightarrow> nat \<Rightarrow> exec" where
  "exec_new h cfg ms env now = \<lparr>x_now = now, x_jobs = [], x_controls = 0, x_skips = [], x_used = 0, x_cut_logged = False,
     x_hub = h, x_cfg = cfg, x_interval_ms = ms, x_cursor = 0, x_kick = False, x_rounds = 0, x_calls = 0,
     x_live = lv_new now, x_gate = None, x_writing = False, x_in_round = False, x_cooldown = [],
     x_env = env, x_n = 0, x_trace = []\<rparr>"

text \<open>
  One turn of the main loop. \<open>driver\<close> says whether rounds were started; a turn either runs a round, or waits
  for the wake-up or the deadline (\<open>wake\<close> is when it comes, \<open>arrivals\<close> what was pushed meanwhile) and then does
  the queued jobs. The result includes the end of the last round.
\<close>

definition idle_wait :: "nat option \<Rightarrow> nat \<Rightarrow> job list \<Rightarrow> exec \<Rightarrow> exec" where
  "idle_wait deadline wake arrivals x =
     (let x = x\<lparr>x_live := lv_set_busy False (x_now x) (x_live x)\<rparr>;
          x = x\<lparr>x_now := max (x_now x) (case deadline of Some d \<Rightarrow> min d wake | None \<Rightarrow> wake)\<rparr>;
          x = fold (\<lambda>j x. snd (push j x)) arrivals x
      in x\<lparr>x_live := lv_set_busy True (x_now x) (x_live x)\<rparr>)"

definition run_turn :: "(ubus_error \<Rightarrow> string) \<Rightarrow> u64 \<Rightarrow> leg list option \<Rightarrow> bool \<Rightarrow> nat \<Rightarrow> job list \<Rightarrow> nat \<Rightarrow> exec
    \<Rightarrow> nat \<times> exec" where
  "run_turn txt wall driver started_after wake arrivals last_end x =
     (let deadline = (if driver = None then None else Some (last_end + x_sample_interval x));
          kicked = (deadline \<noteq> None \<and> x_kick x);
          x = (if deadline \<noteq> None then x\<lparr>x_kick := False\<rparr> else x)
      in if is_some_and deadline (\<lambda>d. kicked \<or> x_now x \<ge> d) then
           let x = exec_round txt wall driver x in (x_now x, x)
         else
           let x = drain (if x_jobs x \<noteq> [] then x else idle_wait deadline wake arrivals x)
           in (if deadline = None \<and> started_after then x_now x else last_end, x))"

section \<open>What calls leave alone\<close>

definition queue_of :: "exec \<Rightarrow> job list \<times> nat \<times> config \<times> nat list \<times> nat list" where
  "queue_of x = (x_jobs x, x_controls x, x_cfg x,
     List.map_filter (\<lambda>t. case t of TQueued i \<Rightarrow> Some i | _ \<Rightarrow> None) (x_trace x),
     List.map_filter (\<lambda>t. case t of TJob i \<Rightarrow> Some i | _ \<Rightarrow> None) (x_trace x))"

abbreviation accepted :: "exec \<Rightarrow> nat list" where "accepted x \<equiv> fst (snd (snd (snd (queue_of x))))"
abbreviation started :: "exec \<Rightarrow> nat list" where "started x \<equiv> snd (snd (snd (snd (queue_of x))))"

lemma queue_of_updates [simp]:
  "queue_of (x\<lparr>x_now := a1\<rparr>) = queue_of x" "queue_of (x\<lparr>x_skips := a2\<rparr>) = queue_of x" "queue_of (x\<lparr>x_used := a3\<rparr>) = queue_of x"
  "queue_of (x\<lparr>x_cut_logged := a4\<rparr>) = queue_of x" "queue_of (x\<lparr>x_hub := a5\<rparr>) = queue_of x"
  "queue_of (x\<lparr>x_interval_ms := a6\<rparr>) = queue_of x" "queue_of (x\<lparr>x_cursor := a7\<rparr>) = queue_of x" "queue_of (x\<lparr>x_kick := a8\<rparr>) = queue_of x"
  "queue_of (x\<lparr>x_rounds := a9\<rparr>) = queue_of x" "queue_of (x\<lparr>x_calls := b1\<rparr>) = queue_of x" "queue_of (x\<lparr>x_live := b2\<rparr>) = queue_of x"
  "queue_of (x\<lparr>x_gate := b3\<rparr>) = queue_of x" "queue_of (x\<lparr>x_writing := b4\<rparr>) = queue_of x" "queue_of (x\<lparr>x_in_round := b5\<rparr>) = queue_of x"
  "queue_of (x\<lparr>x_cooldown := b6\<rparr>) = queue_of x" "queue_of (x\<lparr>x_n := b7\<rparr>) = queue_of x"
  "queue_of (x\<lparr>x_trace := x_trace x @ [TCall r o' obj meth args res]\<rparr>) = queue_of x"
  by (simp_all add: queue_of_def List.map_filter_def)

lemma queue_of_skipped [simp]: "queue_of (snd (skipped r l c obj x)) = queue_of x"
  by (simp add: skipped_def cooling_def legacy_cut_def Let_def split: option.split prod.split)

lemma queue_of_backend_answers [simp]: "queue_of (snd (snd (backend_answers r l obj meth args x))) = queue_of x"
  by (simp add: backend_answers_def Let_def queue_of_def List.map_filter_def)

lemma queue_of_raw_call [simp]: "queue_of (snd (raw_call r c obj meth args x)) = queue_of x"
proof -
  obtain sk x1 where sk: "skipped r (r \<and> c) ((r \<and> c) \<and> cf_cooldown (x_cfg x) \<noteq> 0) obj x = (sk, x1)" by fastforce
  obtain d a x2 where ba: "backend_answers r (r \<and> c) obj meth args x1 = (d, a, x2)" by (metis prod.exhaust)
  have "queue_of x1 = queue_of x" by (metis queue_of_skipped sk snd_conv)
  moreover have "queue_of x2 = queue_of x1" by (metis queue_of_backend_answers ba snd_conv)
  ultimately show ?thesis unfolding raw_call_def Let_def sk prod.case ba by simp
qed

lemma queue_of_probe_gate [simp]: "queue_of (probe_gate n req x) = queue_of x"
proof (induction n arbitrary: x)
  case (Suc n)
  obtain r y where y: "raw_call False False (fst req) (fst (snd req)) (snd (snd req)) x = (r, y)" by fastforce
  have "queue_of y = queue_of x" by (metis queue_of_raw_call y snd_conv)
  then show ?case by (simp add: Suc.IH y)
qed simp

lemma queue_of_call_here [simp]: "queue_of (snd (call_here r c obj meth args x)) = queue_of x"
proof -
  have g: "queue_of (reopen_gate x) = queue_of x" by (simp add: reopen_gate_def split: option.split)
  obtain a y where y: "raw_call r c obj meth args (if \<not> r \<and> x_writing x then reopen_gate x else x) = (a, y)" by fastforce
  have "queue_of y = queue_of x" using g by (metis queue_of_raw_call y snd_conv)
  then show ?thesis by (simp only: call_here_def Let_def y) simp
qed

section \<open>The queue is first in, first out\<close>

text \<open>
  The abstract queue: everything accepted so far is what was started followed by what waits. Control jobs are
  counted and bounded.
\<close>

definition queue_ok :: "exec \<Rightarrow> bool" where
  "queue_ok x \<longleftrightarrow> accepted x = started x @ map j_id (x_jobs x)
     \<and> x_controls x = length (filter j_control (x_jobs x)) \<and> x_controls x \<le> cf_control_queue (x_cfg x)"

lemma queue_ok_cong: "queue_of x = queue_of y \<Longrightarrow> queue_ok x = queue_ok y"
  by (auto simp: queue_ok_def queue_of_def)

lemma queue_ok_push: "queue_ok x \<Longrightarrow> queue_ok (snd (push j x))"
  by (auto simp: queue_ok_def push_def queue_of_def List.map_filter_def)

lemma queue_ok_act: "queue_ok x \<Longrightarrow> queue_ok (run_act a x)"
  by (cases a) (auto simp: queue_ok_push queue_ok_cong [OF queue_of_call_here] queue_ok_cong [OF queue_of_updates(13)]
      queue_ok_cong [OF queue_of_updates(5)] queue_ok_cong [OF queue_of_updates(11)] queue_ok_cong [OF queue_of_updates(1)])

lemma queue_ok_fold_act: "queue_ok x \<Longrightarrow> queue_ok (fold run_act as x)"
  by (induction as arbitrary: x) (simp_all add: queue_ok_act)

lemma queue_ok_start:
  assumes "queue_ok x" "x_jobs x = j # js"
  shows "queue_ok (run_job j (x\<lparr>x_jobs := js, x_controls := (if j_control j then x_controls x - 1 else x_controls x)\<rparr>))"
proof -
  let ?y = "x\<lparr>x_jobs := js, x_controls := (if j_control j then x_controls x - 1 else x_controls x)\<rparr>"
  have "queue_ok (?y\<lparr>x_trace := x_trace ?y @ [TJob (j_id j)]\<rparr>)"
    using assms by (cases "j_control j") (auto simp: queue_ok_def queue_of_def List.map_filter_def)
  from queue_ok_fold_act [OF this] show ?thesis
    by (simp add: run_job_def Let_def queue_ok_cong [OF queue_of_updates(11)])
qed

lemma queue_ok_drain_n: "queue_ok x \<Longrightarrow> queue_ok (drain_n n x)"
proof (induction n arbitrary: x)
  case (Suc n)
  show ?case
  proof (cases "x_jobs x")
    case (Cons j js)
    from Suc.IH [OF queue_ok_start [OF Suc.prems Cons]] show ?thesis by (simp add: Cons split del: if_split)
  qed (simp add: Suc.prems)
qed simp

lemma queue_ok_drain: "queue_ok x \<Longrightarrow> queue_ok (drain x)"
  by (simp add: drain_def queue_ok_drain_n)

lemma queue_ok_read_block: "queue_ok x \<Longrightarrow> queue_ok (read_block txt wall i x)"
proof -
  assume x: "queue_ok x"
  obtain obj meth args where r: "hub_request i (x_hub x) = (obj, meth, args)" by (metis prod.exhaust)
  obtain a y where c: "call_here True False obj meth args x = (a, y)" by fastforce
  have "queue_of y = queue_of x" by (metis queue_of_call_here c snd_conv)
  then have "queue_ok (y\<lparr>x_hub := h\<rparr>)" for h using x queue_ok_cong [of "y\<lparr>x_hub := h\<rparr>" x] by simp
  then show ?thesis by (simp add: read_block_def r c)
qed

lemma queue_ok_read_from: "queue_ok x \<Longrightarrow> queue_ok (read_from txt wall is x)"
proof (induction "is" arbitrary: x)
  case (Cons i "is")
  have d: "queue_ok (drain x)" by (rule queue_ok_drain [OF Cons.prems])
  show ?case
    using Cons.IH [OF d] Cons.IH [OF queue_ok_read_block [OF d]] d
    by (simp add: Let_def queue_ok_cong [OF queue_of_updates(7)])
qed simp

lemma queue_ok_leg: "queue_ok x \<Longrightarrow> queue_ok (run_leg l x)"
  by (cases l) (auto simp: queue_ok_drain queue_ok_cong [OF queue_of_call_here] queue_ok_cong [OF queue_of_updates(5)]
      queue_ok_cong [OF queue_of_updates(1)])

lemma queue_ok_legs: "queue_ok x \<Longrightarrow> queue_ok (fold run_leg ls x)"
  by (induction ls arbitrary: x) (simp_all add: queue_ok_leg)

lemma queue_ok_updates [simp]:
  "queue_ok (x\<lparr>x_skips := a2\<rparr>) = queue_ok x" "queue_ok (x\<lparr>x_used := a3\<rparr>) = queue_ok x" "queue_ok (x\<lparr>x_cut_logged := a4\<rparr>) = queue_ok x"
  "queue_ok (x\<lparr>x_in_round := b5\<rparr>) = queue_ok x" "queue_ok (x\<lparr>x_live := b2\<rparr>) = queue_ok x" "queue_ok (x\<lparr>x_hub := a5\<rparr>) = queue_ok x"
  "queue_ok (x\<lparr>x_rounds := a9\<rparr>) = queue_ok x" "queue_ok (x\<lparr>x_kick := a8\<rparr>) = queue_ok x" "queue_ok (x\<lparr>x_interval_ms := a6\<rparr>) = queue_ok x"
  "queue_ok (x\<lparr>x_now := a1\<rparr>) = queue_ok x"
  by (rule queue_ok_cong, simp)+

lemma queue_ok_round: "queue_ok x \<Longrightarrow> queue_ok (exec_round txt wall driver x)"
proof -
  assume x: "queue_ok x"
  let ?x = "x\<lparr>x_skips := [], x_used := 0, x_cut_logged := False, x_in_round := True\<rparr>"
  have "queue_ok (read_blocks txt wall ?x)" using x by (simp add: read_blocks_def Let_def queue_ok_read_from)
  then show ?thesis
    by (auto simp: exec_round_def Let_def split: option.split intro!: queue_ok_drain queue_ok_legs)
qed

subsection \<open>Histories only grow\<close>

definition grows :: "exec \<Rightarrow> exec \<Rightarrow> bool" where
  "grows x y \<longleftrightarrow> prefix (accepted x) (accepted y) \<and> prefix (started x) (started y)"

lemma grows_refl [simp]: "grows x x" by (simp add: grows_def)

lemma grows_trans: "grows x y \<Longrightarrow> grows y z \<Longrightarrow> grows x z"
  by (auto simp: grows_def intro: prefix_order.trans)

lemma grows_same: "queue_of y = queue_of x \<Longrightarrow> grows x y" by (simp add: grows_def)

lemma grows_fold:
  assumes "\<And>a x. grows x (f a x)"
  shows "grows x (fold f as x)"
  by (induction as arbitrary: x) (auto intro: grows_trans [OF assms])

lemma grows_push: "grows x (snd (push j x))"
  by (auto simp: grows_def push_def queue_of_def List.map_filter_def)

lemma grows_act: "grows x (run_act a x)"
  by (cases a) (simp_all add: grows_push grows_same)

lemma grows_job: "grows x (run_job j x)"
proof -
  let ?y = "x\<lparr>x_trace := x_trace x @ [TJob (j_id j)]\<rparr>"
  have "grows x ?y" by (auto simp: grows_def queue_of_def List.map_filter_def)
  also have "grows ?y (fold run_act (j_acts j) ?y)" by (rule grows_fold) (rule grows_act)
  finally (grows_trans) show ?thesis by (simp add: run_job_def Let_def grows_def)
qed

lemma grows_drain_n: "grows x (drain_n n x)"
proof (induction n arbitrary: x)
  case (Suc n)
  show ?case
  proof (cases "x_jobs x")
    case (Cons j js)
    let ?y = "x\<lparr>x_jobs := js, x_controls := (if j_control j then x_controls x - 1 else x_controls x)\<rparr>"
    have "grows x ?y" by (simp add: grows_def queue_of_def)
    from grows_trans [OF grows_trans [OF this grows_job] Suc.IH] show ?thesis
      by (simp add: Cons split del: if_split)
  qed simp
qed simp

lemma grows_drain: "grows x (drain x)" by (simp add: drain_def grows_drain_n)

lemma grows_read_block: "grows x (read_block txt wall i x)"
proof -
  obtain obj meth args where r: "hub_request i (x_hub x) = (obj, meth, args)" by (metis prod.exhaust)
  obtain a y where c: "call_here True False obj meth args x = (a, y)" by fastforce
  have "queue_of y = queue_of x" by (metis queue_of_call_here c snd_conv)
  then show ?thesis by (simp add: read_block_def r c grows_same)
qed

lemma grows_read_from: "grows x (read_from txt wall is x)"
proof (induction "is" arbitrary: x)
  case (Cons i "is")
  have d: "grows x (drain x)" by (rule grows_drain)
  have "grows (drain x) (read_from txt wall is (read_block txt wall i (drain x)))"
    by (rule grows_trans [OF grows_read_block Cons.IH])
  then show ?case
    using grows_trans [OF d] Cons.IH [of "drain x"] d
    by (auto simp: Let_def grows_def)
qed simp

lemma grows_leg: "grows x (run_leg l x)"
  by (cases l) (simp_all add: grows_drain grows_same)

lemma grows_updates [simp]:
  "grows x (y\<lparr>x_skips := a2\<rparr>) = grows x y" "grows x (y\<lparr>x_used := a3\<rparr>) = grows x y" "grows x (y\<lparr>x_cut_logged := a4\<rparr>) = grows x y"
  "grows x (y\<lparr>x_in_round := b5\<rparr>) = grows x y" "grows x (y\<lparr>x_live := b2\<rparr>) = grows x y" "grows x (y\<lparr>x_hub := a5\<rparr>) = grows x y"
  "grows x (y\<lparr>x_rounds := a9\<rparr>) = grows x y" "grows x (y\<lparr>x_kick := a8\<rparr>) = grows x y" "grows x (y\<lparr>x_now := a1\<rparr>) = grows x y"
  "grows x (y\<lparr>x_interval_ms := a6\<rparr>) = grows x y"
  by (simp_all add: grows_def)

lemma grows_round: "grows x (exec_round txt wall driver x)"
proof -
  let ?x = "x\<lparr>x_skips := [], x_used := 0, x_cut_logged := False, x_in_round := True\<rparr>"
  let ?y = "read_blocks txt wall ?x"
  have y: "grows x ?y"
    by (rule grows_trans [of x ?x]) (simp_all add: read_blocks_def Let_def grows_read_from)
  have "grows ?y (case driver of Some ls \<Rightarrow> fold run_leg ls (drain ?y) | None \<Rightarrow> ?y)"
    by (cases driver) (auto intro: grows_trans [OF grows_drain] grows_fold grows_leg)
  from grows_trans [OF grows_trans [OF y this] grows_drain] show ?thesis
    by (simp add: exec_round_def Let_def)
qed

subsection \<open>The commands\<close>

datatype exec_cmd =
  XPush job
| XRound "leg list option" u64
| XTurn "leg list option" u64 bool nat "job list" nat
| XTick nat
| XKick "string list"
| XMark "string list option"
| XInterval u64

fun x_exec :: "(ubus_error \<Rightarrow> string) \<Rightarrow> exec_cmd \<Rightarrow> exec \<Rightarrow> exec" where
  "x_exec txt (XPush j) x = snd (push j x)"
| "x_exec txt (XRound ls wall) x = exec_round txt wall ls x"
| "x_exec txt (XTurn ls wall st wake arr le) x = snd (run_turn txt wall ls st wake arr le x)"
| "x_exec txt (XTick every) x = heartbeat_tick every x"
| "x_exec txt (XKick names) x = kick names x"
| "x_exec txt (XMark names) x = x\<lparr>x_hub := mark_immediate names (x_hub x)\<rparr>"
| "x_exec txt (XInterval ms) x = set_interval_ms ms x"

lemma idle_wait_ok: "queue_ok x \<Longrightarrow> queue_ok (idle_wait dl wake arr x)" "grows x (idle_wait dl wake arr x)"
proof -
  have "queue_ok (fold (\<lambda>j x. snd (push j x)) arr z)" if "queue_ok z" for z
    using that by (induction arr arbitrary: z) (auto simp: queue_ok_push)
  then show "queue_ok x \<Longrightarrow> queue_ok (idle_wait dl wake arr x)" by (simp add: idle_wait_def Let_def)
  have g: "grows z (fold (\<lambda>j x. snd (push j x)) arr z)" for z
    by (rule grows_fold) (rule grows_push)
  show "grows x (idle_wait dl wake arr x)"
    unfolding idle_wait_def Let_def grows_updates by (rule grows_trans [OF _ g]) simp
qed

lemma run_turn_ok:
  assumes "queue_ok x"
  shows "queue_ok (snd (run_turn txt wall ls st wake arr le x)) \<and> grows x (snd (run_turn txt wall ls st wake arr le x))"
proof -
  define y where "y = (if ls \<noteq> None then x\<lparr>x_kick := False\<rparr> else x)"
  have y: "queue_ok y" "grows x y" using assms by (simp_all add: y_def)
  define w where "w = (if x_jobs y \<noteq> [] then y
      else idle_wait (if ls = None then None else Some (le + x_sample_interval x)) wake arr y)"
  have w: "queue_ok w" "grows y w" using y(1) idle_wait_ok by (simp_all add: w_def)
  have "snd (run_turn txt wall ls st wake arr le x) = exec_round txt wall ls y
      \<or> snd (run_turn txt wall ls st wake arr le x) = drain w"
    by (simp add: run_turn_def Let_def y_def w_def)
  then show ?thesis
    using queue_ok_round [OF y(1)] grows_trans [OF y(2) grows_round] queue_ok_drain [OF w(1)]
      grows_trans [OF grows_trans [OF y(2) w(2)] grows_drain] by metis
qed

lemma x_exec_ok: "queue_ok x \<Longrightarrow> queue_ok (x_exec txt c x) \<and> grows x (x_exec txt c x)"
  using run_turn_ok by (cases c) (simp_all add: queue_ok_push grows_push queue_ok_round grows_round heartbeat_tick_def Let_def
      kick_def set_interval_ms_def)


subsection \<open>The contract of the queue\<close>

text \<open>
  What the callers of \<open>control\<close> and \<open>task\<close> rely on: what was accepted is started, in that order, each job once.
\<close>

locale fifo =
  fixes step :: "'c \<Rightarrow> 's \<Rightarrow> 's"
    and accepts :: "'s \<Rightarrow> 'a list"
    and starts :: "'s \<Rightarrow> 'a list"
    and waits :: "'s \<Rightarrow> 'a list"
    and ok :: "'s \<Rightarrow> bool"
  assumes split: "ok s \<Longrightarrow> accepts s = starts s @ waits s"
    and ok_step: "ok s \<Longrightarrow> ok (step c s)"
    and accepts_step: "ok s \<Longrightarrow> prefix (accepts s) (accepts (step c s))"
begin

lemma run: "ok s \<Longrightarrow> ok (fold step cs s) \<and> prefix (accepts s) (accepts (fold step cs s))"
  by (induction cs arbitrary: s) (auto intro: ok_step prefix_order.trans accepts_step)

text \<open>The \<open>i\<close>-th accepted job is the \<open>i\<close>-th to start, whatever comes later; until then it waits in its place.\<close>

lemma in_order:
  assumes "ok s" "i < length (accepts s)"
  shows "(starts (fold step cs s) @ waits (fold step cs s)) ! i = accepts s ! i"
proof -
  have r: "ok (fold step cs s)" "prefix (accepts s) (accepts (fold step cs s))" using run [OF assms(1)] by auto
  from r(2) obtain rest where "accepts (fold step cs s) = accepts s @ rest" by (auto simp: prefix_def)
  with split [OF r(1)] assms(2) show ?thesis by (metis nth_append)
qed

end

lemma queue_split: "queue_ok x \<Longrightarrow> accepted x = started x @ map j_id (x_jobs x)"
  by (simp add: queue_ok_def)

lemma x_exec_accepts: "queue_ok x \<Longrightarrow> prefix (accepted x) (accepted (x_exec show_err c x))"
  using x_exec_ok by (auto simp: grows_def)

interpretation queue: fifo "x_exec show_err" accepted started "\<lambda>x. map j_id (x_jobs x)" queue_ok for show_err
  by unfold_locales (blast intro: queue_split x_exec_ok [THEN conjunct1] x_exec_accepts)+

lemma exec_new_ok: "queue_ok (exec_new h cfg ms env now)"
  by (simp add: queue_ok_def exec_new_def queue_of_def List.map_filter_def)

text \<open>
  Property C35. In every state that a run of the executor reaches (jobs pushed from outside and from running jobs, rounds,
  timers, turns of the main loop): the jobs start in the order in which they were accepted, each exactly once, and the
  others wait in that order; the counter of waiting control jobs is right and never above the limit. And this stays so:
  whatever happens after (\<open>rest\<close>), the \<open>i\<close>-th accepted job keeps its place.
\<close>

theorem jobs_in_order:
  shows "let x = fold (x_exec txt) cs (exec_new h cfg ms env now); y = fold (x_exec txt) rest x in
     accepted x = started x @ map j_id (x_jobs x)
   \<and> x_controls x = length (filter j_control (x_jobs x)) \<and> x_controls x \<le> cf_control_queue (x_cfg x)
   \<and> (i < length (accepted x) \<longrightarrow> (started y @ map j_id (x_jobs y)) ! i = accepted x ! i)"
proof -
  have "queue_ok (fold (x_exec txt) cs (exec_new h cfg ms env now))"
    using queue.run [OF exec_new_ok] by blast
  with queue.in_order [OF this, of i "txt" rest] show ?thesis by (auto simp: Let_def queue_ok_def)
qed

text \<open>A safe point does the jobs that wait when it is reached, and only those.\<close>

lemma started_run_job: "started (run_job j x) = started x @ [j_id j]"
proof -
  have act: "started (run_act a x) = started x" for a x
  proof (cases a)
    case (APush j)
    then show ?thesis by (simp add: push_def queue_of_def List.map_filter_def)
  qed simp_all
  have "started (fold run_act as x) = started x" for as x
    by (induction as arbitrary: x) (simp_all add: act)
  then show ?thesis by (simp add: run_job_def Let_def) (simp add: queue_of_def List.map_filter_def)
qed

lemma jobs_run_job: "\<exists>rest. x_jobs (run_job j x) = x_jobs x @ rest"
proof -
  have act: "\<exists>rest. x_jobs (run_act a x) = x_jobs x @ rest" for a x
    using queue_of_call_here by (cases a) (auto simp: push_def queue_of_def)
  have "\<exists>rest. x_jobs (fold run_act as x) = x_jobs x @ rest" for as x
  proof (induction as arbitrary: x)
    case (Cons a as)
    obtain m1 where "x_jobs (run_act a x) = x_jobs x @ m1" using act by blast
    moreover obtain m2 where "x_jobs (fold run_act as (run_act a x)) = x_jobs (run_act a x) @ m2" using Cons.IH by blast
    ultimately show ?case by simp
  qed simp
  from this [of "j_acts j" "x\<lparr>x_trace := x_trace x @ [TJob (j_id j)]\<rparr>"] show ?thesis by (simp add: run_job_def Let_def)
qed

lemma drain_n_started:
  "n \<le> length (x_jobs x) \<Longrightarrow> started (drain_n n x) = started x @ map j_id (take n (x_jobs x))
     \<and> (\<exists>rest. x_jobs (drain_n n x) = drop n (x_jobs x) @ rest)"
proof (induction n arbitrary: x)
  case (Suc n)
  then obtain j js where js: "x_jobs x = j # js" by (cases "x_jobs x") auto
  define y where "y = x\<lparr>x_jobs := js, x_controls := (if j_control j then x_controls x - 1 else x_controls x)\<rparr>"
  have y: "x_jobs y = js" "started y = started x" by (simp_all add: y_def queue_of_def)
  obtain rest where rest: "x_jobs (run_job j y) = js @ rest" using jobs_run_job [of j y] y by auto
  have "n \<le> length (x_jobs (run_job j y))" using Suc.prems js rest by simp
  from Suc.IH [OF this] show ?case
    using Suc.prems js rest y by (auto simp: y_def [symmetric] started_run_job)
qed simp

text \<open>
  A safe point runs exactly the jobs that were waiting when it was reached, in their order. A job that
  arrives while it runs, also one that a running job causes, waits for the next safe point, so no stream of
  jobs can hold up a round or its heartbeat.
\<close>

theorem drain_runs_the_waiting:
  "started (drain x) = started x @ map j_id (x_jobs x)"
  using drain_n_started [of "length (x_jobs x)" x] by (simp add: drain_def)

section \<open>The gate for writes\<close>

lemma raw_call_plain:
  "raw_call False cool obj meth args x =
     (answer_for obj (snd (x_env x (x_n x))), snd (snd (backend_answers False False obj meth args x)))"
  by (simp add: raw_call_def skipped_def backend_answers_def Let_def)

lemma backend_answers_frame [simp]:
  "x_n (snd (snd (backend_answers r l obj meth args x))) = x_n x + 1"
  "x_env (snd (snd (backend_answers r l obj meth args x))) = x_env x"
  "x_gate (snd (snd (backend_answers r l obj meth args x))) = x_gate x"
  "x_writing (snd (snd (backend_answers r l obj meth args x))) = x_writing x"
  "x_trace (snd (snd (backend_answers r l obj meth args x)))
     = x_trace x @ [TCall r l obj meth args (answer_for obj (snd (x_env x (x_n x))))]"
  "x_hub (snd (snd (backend_answers r l obj meth args x))) = x_hub x"
  "x_used (snd (snd (backend_answers r l obj meth args x))) = x_used x"
  "x_skips (snd (snd (backend_answers r l obj meth args x))) = x_skips x"
  "x_cfg (snd (snd (backend_answers r l obj meth args x))) = x_cfg x"
  by (simp_all add: backend_answers_def Let_def)

text \<open>The probes: the read-only request of the object, until it answers, at most \<open>n\<close> times.\<close>

definition probe_events :: "string \<times> string \<times> json \<Rightarrow> (ubus_error + json) list \<Rightarrow> trace list" where
  "probe_events req rs = map (TCall False False (fst req) (fst (snd req)) (snd (snd req))) rs"

lemma probe_gate_trace:
  "\<exists>rs. x_trace (probe_gate n req x) = x_trace x @ probe_events req rs \<and> length rs \<le> n
     \<and> (rs = [] \<or> list_all is_timeout_error (butlast rs)) \<and> (length rs < n \<longrightarrow> \<not> is_timeout_error (last rs) \<and> rs \<noteq> [])
     \<and> x_gate (probe_gate n req x) = x_gate x \<and> x_writing (probe_gate n req x) = x_writing x"
proof (induction n arbitrary: x)
  case 0
  show ?case by (rule exI [of _ "[]"]) (simp add: probe_events_def)
next
  case (Suc n)
  obtain obj meth args where req: "req = (obj, meth, args)" by (metis prod.exhaust)
  define a where "a = answer_for obj (snd (x_env x (x_n x)))"
  define y where "y = snd (snd (backend_answers False False obj meth args x))"
  have rc: "raw_call False False obj meth args x = (a, y)" by (simp add: raw_call_plain a_def y_def)
  have y: "x_trace y = x_trace x @ [TCall False False obj meth args a]" "x_gate y = x_gate x" "x_writing y = x_writing x"
    by (simp_all add: y_def a_def)
  show ?case
  proof (cases "is_timeout_error a")
    case True
    from Suc.IH [of y] obtain rs where rs: "x_trace (probe_gate n req y) = x_trace y @ probe_events req rs" "length rs \<le> n"
      "rs = [] \<or> list_all is_timeout_error (butlast rs)" "length rs < n \<longrightarrow> \<not> is_timeout_error (last rs) \<and> rs \<noteq> []"
      "x_gate (probe_gate n req y) = x_gate y" "x_writing (probe_gate n req y) = x_writing y" by blast
    show ?thesis
      using rs y True by (intro exI [of _ "a # rs"]) (auto simp: req rc probe_events_def)
  next
    case False
    then show ?thesis
      using y by (intro exI [of _ "[a]"]) (simp add: req rc probe_events_def)
  qed
qed

lemma reopen_gate_trace:
  assumes "x_gate x = Some obj"
  shows "\<exists>rs. x_trace (reopen_gate x) = x_trace x @ probe_events (probe_for obj x) rs \<and> length rs \<le> gate_probes
     \<and> list_all is_timeout_error (butlast rs) \<and> (length rs < gate_probes \<longrightarrow> \<not> is_timeout_error (last rs) \<and> rs \<noteq> [])
     \<and> x_gate (reopen_gate x) = None"
  using probe_gate_trace [of gate_probes "probe_for obj x" x] assms by (fastforce simp: reopen_gate_def)

text \<open>
  A write call whose predecessor timed out: the write scope is open and the gate is closed on object \<open>g\<close>.
  Before the call goes out, the executor sends the read-only probe of \<open>g\<close>, at most four times, and stops only when \<open>g\<close> has
  answered or all four timed out; then comes the call itself, once. Afterwards the gate is closed again exactly if this
  call timed out, and then on its own object.
\<close>

theorem write_waits_for_gate:
  assumes "x_writing x" "x_gate x = Some g"
  shows "\<exists>rs r. x_trace (snd (call_here False cool obj meth args x))
       = x_trace x @ probe_events (probe_for g x) rs @ [TCall False False obj meth args r]
     \<and> fst (call_here False cool obj meth args x) = r
     \<and> length rs \<le> 4 \<and> list_all is_timeout_error (butlast rs) \<and> (length rs = 4 \<or> rs \<noteq> [] \<and> \<not> is_timeout_error (last rs))
     \<and> x_gate (snd (call_here False cool obj meth args x)) = (if is_timeout_error r then Some obj else None)"
proof -
  obtain rs where rs: "x_trace (reopen_gate x) = x_trace x @ probe_events (probe_for g x) rs" "length rs \<le> gate_probes"
    "list_all is_timeout_error (butlast rs)" "length rs < gate_probes \<longrightarrow> \<not> is_timeout_error (last rs) \<and> rs \<noteq> []"
    "x_gate (reopen_gate x) = None"
    using reopen_gate_trace [OF assms(2)] by blast
  show ?thesis
    using rs assms(1)
    by (intro exI [of _ rs] exI [of _ "fst (call_here False cool obj meth args x)"])
       (auto simp: call_here_def raw_call_plain gate_probes_def Let_def)
qed

section \<open>Timeouts within a round\<close>

text \<open>
  The rule of a round as an automaton over its events: a call of the round is never sent to an object that timed
  out in this round, and a legacy call is not sent once six objects have timed out.
\<close>

definition watch_step :: "round_skips \<Rightarrow> trace \<Rightarrow> round_skips option" where
  "watch_step sk e =
     (case e of
        TCall True old_style obj meth args r \<Rightarrow>
          if obj \<in> set sk \<or> (old_style \<and> \<not> length sk < legacy_timeout_limit) then None
          else Some (if is_timeout_error r then obj # sk else sk)
      | _ \<Rightarrow> Some sk)"

fun watch :: "round_skips \<Rightarrow> trace list \<Rightarrow> round_skips option" where
  "watch sk [] = Some sk"
| "watch sk (e # l) = (case watch_step sk e of None \<Rightarrow> None | Some sk' \<Rightarrow> watch sk' l)"

lemma watch_append: "watch sk (k @ l) = (case watch sk k of None \<Rightarrow> None | Some sk' \<Rightarrow> watch sk' l)"
  by (induction k arbitrary: sk) (auto split: option.split)

definition in_round :: "exec \<Rightarrow> exec \<Rightarrow> bool" where
  "in_round x y \<longleftrightarrow> x_cfg y = x_cfg x \<and> (\<exists>l. x_trace y = x_trace x @ l \<and> watch (x_skips x) l = Some (x_skips y))"

lemma in_round_refl [simp]: "in_round x x" by (simp add: in_round_def)

lemma in_round_trans: "in_round x y \<Longrightarrow> in_round y z \<Longrightarrow> in_round x z"
  unfolding in_round_def by (elim exE conjE, rule conjI, simp, rule_tac x = "l @ la" in exI) (simp add: watch_append)

lemma in_round_fold:
  assumes "\<And>a x. in_round x (f a x)"
  shows "in_round x (fold f as x)"
  by (induction as arbitrary: x) (auto intro: in_round_trans [OF assms])

lemma in_round_updates [simp]:
  "in_round x (y\<lparr>x_live := b2\<rparr>) = in_round x y" "in_round x (y\<lparr>x_hub := a5\<rparr>) = in_round x y" "in_round x (y\<lparr>x_now := a1\<rparr>) = in_round x y"
  "in_round x (y\<lparr>x_cursor := a7\<rparr>) = in_round x y" "in_round x (y\<lparr>x_writing := b4\<rparr>) = in_round x y" "in_round x (y\<lparr>x_gate := b3\<rparr>) = in_round x y"
  "in_round x (y\<lparr>x_cooldown := b6\<rparr>) = in_round x y" "in_round x (y\<lparr>x_cut_logged := a4\<rparr>) = in_round x y"
  "in_round x (y\<lparr>x_in_round := b5\<rparr>) = in_round x y" "in_round x (y\<lparr>x_rounds := a9\<rparr>) = in_round x y"
  "in_round x (y\<lparr>x_used := a3\<rparr>) = in_round x y" "in_round x (y\<lparr>x_jobs := b8, x_controls := b9\<rparr>) = in_round x y"
  by (simp_all add: in_round_def)

text \<open>Calls outside a round do not touch the round.\<close>

definition outside_round :: "exec \<Rightarrow> exec \<Rightarrow> bool" where
  "outside_round x y \<longleftrightarrow> x_cfg y = x_cfg x \<and> x_skips y = x_skips x \<and> x_used y = x_used x
     \<and> (\<exists>l. x_trace y = x_trace x @ l \<and> watch (x_skips x) l = Some (x_skips x))"

lemma raw_call_in_round: "in_round x (snd (raw_call True c obj meth args x))"
proof -
  obtain sk y where sk: "skipped True c (c \<and> cf_cooldown (x_cfg x) \<noteq> 0) obj x = (sk, y)" by fastforce
  have y: "x_trace y = x_trace x" "x_skips y = x_skips x" "x_cfg y = x_cfg x" "x_env y = x_env x" "x_n y = x_n x"
    using sk by (auto simp: skipped_def cooling_def legacy_cut_def Let_def split: option.splits if_splits)
  have go: "obj \<notin> set (x_skips x)" "c \<longrightarrow> length (x_skips x) < legacy_timeout_limit" if "\<not> sk"
    using sk that by (auto simp: skipped_def cooling_def legacy_cut_def is_skipped_def Let_def split: option.splits if_splits)
  define a where "a = answer_for obj (snd (x_env y (x_n y)))"
  define d where "d = fst (backend_answers True c obj meth args y)"
  define z where "z = snd (snd (backend_answers True c obj meth args y))"
  have ba: "backend_answers True c obj meth args y = (d, a, z)"
    by (simp add: d_def z_def a_def backend_answers_def Let_def)
  have z: "x_trace z = x_trace x @ [TCall True c obj meth args a]" "x_skips z = x_skips x" "x_cfg z = x_cfg x"
    by (simp_all add: z_def y a_def)
  have rec: "(case a of Err e \<Rightarrow> skips_record e (x_skips x) | Ok _ \<Rightarrow> x_skips x)
      = (if is_timeout_error a then List.insert obj (x_skips x) else x_skips x)"
    by (simp add: a_def answer_for_def is_timeout_error_def skips_record_def split: sum.split ubus_error.split)
  show ?thesis
  proof (cases sk)
    case True
    then show ?thesis using sk y by (simp add: raw_call_def in_round_def)
  next
    case False
    have "in_round x (z\<lparr>x_used := u, x_skips := (case a of Err e \<Rightarrow> skips_record e (x_skips z) | Ok _ \<Rightarrow> x_skips z)\<rparr>)" for u
      unfolding z(2) rec using z go [OF False] by (simp add: in_round_def watch_step_def)
    then show ?thesis using sk False by (simp add: raw_call_def ba Let_def)
  qed
qed

lemma outside_refl [simp]: "outside_round x x"
  by (simp add: outside_round_def)

lemma outside_trans: "outside_round x y \<Longrightarrow> outside_round y z \<Longrightarrow> outside_round x z"
  unfolding outside_round_def by (clarsimp simp: watch_append)

lemma outside_in_round: "outside_round x y \<Longrightarrow> in_round x y"
  by (auto simp: outside_round_def in_round_def)


lemma outside_updates [simp]:
  "outside_round x (y\<lparr>x_live := b2\<rparr>) = outside_round x y" "outside_round x (y\<lparr>x_hub := a5\<rparr>) = outside_round x y"
  "outside_round x (y\<lparr>x_now := a1\<rparr>) = outside_round x y" "outside_round x (y\<lparr>x_writing := b4\<rparr>) = outside_round x y"
  "outside_round x (y\<lparr>x_gate := b3\<rparr>) = outside_round x y" "outside_round x (y\<lparr>x_jobs := b8, x_controls := b9\<rparr>) = outside_round x y"
  by (simp_all add: outside_round_def)

lemma outside_raw_call: "outside_round x (snd (raw_call False c obj meth args x))"
  by (simp add: raw_call_plain outside_round_def watch_step_def)

lemma outside_probe_gate: "outside_round x (probe_gate n req x)"
proof (induction n arbitrary: x)
  case (Suc n)
  obtain r y where y: "raw_call False False (fst req) (fst (snd req)) (snd (snd req)) x = (r, y)" by fastforce
  have "outside_round x y" by (metis outside_raw_call y snd_conv)
  then show ?case using Suc.IH [of y] by (auto simp: y intro: outside_trans)
qed simp

lemma outside_call_here: "outside_round x (snd (call_here False c obj meth args x))"
proof -
  have g: "outside_round x (reopen_gate x)" by (simp add: reopen_gate_def outside_probe_gate split: option.split)
  obtain a y where y: "raw_call False c obj meth args (if x_writing x then reopen_gate x else x) = (a, y)" by fastforce
  have "outside_round (if x_writing x then reopen_gate x else x) y" by (metis outside_raw_call y snd_conv)
  then have "outside_round x y" using g by (auto intro: outside_trans split: if_splits)
  then show ?thesis by (simp add: call_here_def y)
qed

lemma outside_push: "outside_round x (snd (push j x))"
  by (simp add: push_def outside_round_def watch_step_def)

lemma outside_act: "outside_round x (run_act a x)"
  by (cases a) (simp_all add: outside_call_here outside_push)

lemma outside_fold:
  assumes "\<And>a x. outside_round x (f a x)"
  shows "outside_round x (fold f as x)"
  by (induction as arbitrary: x) (auto intro: outside_trans [OF assms])

lemma outside_job: "outside_round x (run_job j x)"
proof -
  let ?y = "x\<lparr>x_trace := x_trace x @ [TJob (j_id j)]\<rparr>"
  have "outside_round x ?y" by (simp add: outside_round_def watch_step_def)
  moreover have "outside_round ?y (fold run_act (j_acts j) ?y)"
    by (rule outside_fold) (rule outside_act)
  ultimately show ?thesis by (simp add: run_job_def Let_def) (rule outside_trans)
qed

lemma outside_drain_n: "outside_round x (drain_n n x)"
proof (induction n arbitrary: x)
  case (Suc n)
  show ?case
  proof (cases "x_jobs x")
    case (Cons j js)
    let ?y = "x\<lparr>x_jobs := js, x_controls := (if j_control j then x_controls x - 1 else x_controls x)\<rparr>"
    have "outside_round x ?y" by simp
    from outside_trans [OF outside_trans [OF this outside_job] Suc.IH] show ?thesis
      by (simp add: Cons split del: if_split)
  qed simp
qed simp

lemma outside_drain: "outside_round x (drain x)" by (simp add: drain_def outside_drain_n)

text \<open>The parts of a round.\<close>

lemma call_here_in_round: "in_round x (snd (call_here True c obj meth args x))"
proof -
  obtain a y where y: "raw_call True c obj meth args x = (a, y)" by fastforce
  have "in_round x y" by (metis raw_call_in_round y snd_conv)
  then show ?thesis by (simp add: call_here_def y)
qed

lemma read_block_in_round: "in_round x (read_block txt wall i x)"
proof -
  obtain obj meth args where r: "hub_request i (x_hub x) = (obj, meth, args)" by (metis prod.exhaust)
  obtain a y where c: "call_here True False obj meth args x = (a, y)" by fastforce
  have "in_round x y" by (metis call_here_in_round c snd_conv)
  then show ?thesis by (simp add: read_block_def r c)
qed

lemma read_from_in_round: "in_round x (read_from txt wall is x)"
proof (induction "is" arbitrary: x)
  case (Cons i "is")
  have d: "in_round x (drain x)" by (rule outside_in_round [OF outside_drain])
  have "in_round (drain x) (read_from txt wall is (read_block txt wall i (drain x)))"
    by (rule in_round_trans [OF read_block_in_round Cons.IH])
  then show ?case
    using d in_round_trans [OF d] Cons.IH [of "drain x"] by (simp add: Let_def)
qed simp

lemma leg_in_round: "in_round x (run_leg l x)"
  by (cases l) (simp_all add: call_here_in_round outside_in_round [OF outside_drain])

lemma exec_round_rest:
  "in_round (read_blocks txt wall (x\<lparr>x_skips := [], x_used := 0, x_cut_logged := False, x_in_round := True\<rparr>))
     (exec_round txt wall driver x)"
proof -
  let ?y = "read_blocks txt wall (x\<lparr>x_skips := [], x_used := 0, x_cut_logged := False, x_in_round := True\<rparr>)"
  have "in_round ?y (case driver of Some ls \<Rightarrow> fold run_leg ls (drain ?y) | None \<Rightarrow> ?y)"
    by (cases driver)
       (auto intro: in_round_trans [OF outside_in_round [OF outside_drain]] in_round_fold leg_in_round)
  from in_round_trans [OF this outside_in_round [OF outside_drain]] show ?thesis
    by (simp add: exec_round_def Let_def)
qed

lemma exec_round_in_round:
  "in_round (x\<lparr>x_skips := [], x_used := 0, x_cut_logged := False, x_in_round := True\<rparr>) (exec_round txt wall driver x)"
  by (rule in_round_trans [OF _ exec_round_rest]) (simp add: read_blocks_def Let_def read_from_in_round)

subsection \<open>What the rule gives\<close>

fun round_call :: "trace \<Rightarrow> string option" where
  "round_call (TCall True old_style obj meth args r) = Some obj"
| "round_call e = None"

fun round_timeout :: "trace \<Rightarrow> string option" where
  "round_timeout (TCall True old_style obj meth args r) = (if is_timeout_error r then Some obj else None)"
| "round_timeout e = None"

fun legacy_timeout :: "trace \<Rightarrow> bool" where
  "legacy_timeout (TCall True True obj meth args r) = is_timeout_error r"
| "legacy_timeout e = False"

text \<open>No call of the round goes to an object after it timed out.\<close>

fun not_again :: "trace list \<Rightarrow> bool" where
  "not_again [] = True"
| "not_again (e # l) = ((case round_timeout e of Some obj \<Rightarrow> list_all (\<lambda>f. round_call f \<noteq> Some obj) l | None \<Rightarrow> True) \<and> not_again l)"

lemma watch_step_cases:
  assumes "watch_step sk e = Some sk'"
  shows "sk' = (case round_timeout e of Some obj \<Rightarrow> obj # sk | None \<Rightarrow> sk)" "round_call e = Some obj \<Longrightarrow> obj \<notin> set sk"
    "legacy_timeout e \<Longrightarrow> length sk < legacy_timeout_limit \<and> length sk' = length sk + 1"
proof -
  have "sk' = (case round_timeout e of Some obj \<Rightarrow> obj # sk | None \<Rightarrow> sk) \<and> (round_call e = Some obj \<longrightarrow> obj \<notin> set sk)
      \<and> (legacy_timeout e \<longrightarrow> length sk < legacy_timeout_limit \<and> length sk' = length sk + 1)"
  proof (cases e)
    case (TCall r o' ob m a res)
    with assms show ?thesis by (cases r; cases o') (auto simp: watch_step_def split: if_splits)
  qed (use assms in \<open>auto simp: watch_step_def\<close>)
  then show "sk' = (case round_timeout e of Some obj \<Rightarrow> obj # sk | None \<Rightarrow> sk)" "round_call e = Some obj \<Longrightarrow> obj \<notin> set sk"
    "legacy_timeout e \<Longrightarrow> length sk < legacy_timeout_limit \<and> length sk' = length sk + 1" by auto
qed

lemma watch_mono: "watch sk l = Some sk' \<Longrightarrow> set sk \<subseteq> set sk' \<and> list_all (\<lambda>e. \<forall>obj \<in> set sk. round_call e \<noteq> Some obj) l"
proof (induction l arbitrary: sk)
  case (Cons e l)
  then obtain sk1 where s: "watch_step sk e = Some sk1" "watch sk1 l = Some sk'" by (auto split: option.splits)
  have "set sk \<subseteq> set sk1" using watch_step_cases(1) [OF s(1)] by (auto split: option.splits)
  with Cons.IH [OF s(2)] watch_step_cases(2) [OF s(1)] show ?case
    by (auto simp: list_all_iff)
qed simp

lemma watch_not_again: "watch sk l = Some sk' \<Longrightarrow> not_again l"
proof (induction l arbitrary: sk)
  case (Cons e l)
  then obtain sk1 where s: "watch_step sk e = Some sk1" "watch sk1 l = Some sk'" by (auto split: option.splits)
  have "list_all (\<lambda>f. round_call f \<noteq> Some obj) l" if "round_timeout e = Some obj" for obj
    using watch_mono [OF s(2)] watch_step_cases(1) [OF s(1)] that by (auto simp: list_all_iff)
  with Cons.IH [OF s(2)] show ?case by (simp split: option.split)
qed simp

lemma watch_legacy:
  "watch sk l = Some sk' \<Longrightarrow> length (filter legacy_timeout l) \<le> legacy_timeout_limit - length sk"
proof (induction l arbitrary: sk)
  case (Cons e l)
  then obtain sk1 where s: "watch_step sk e = Some sk1" "watch sk1 l = Some sk'" by (auto split: option.splits)
  have "length sk \<le> length sk1" using watch_step_cases(1) [OF s(1)] by (auto split: option.splits)
  with Cons.IH [OF s(2)] watch_step_cases(3) [OF s(1)] show ?case by auto
qed simp

text \<open>
  One round, from any state, with any jobs running in between and any legacy collection: once an object
  has timed out, no call of the round goes to it again; so no object can cost the round more than one
  timeout. And the legacy collection sees at most six timeouts, however many objects it reads.
\<close>

theorem round_timeouts_bounded:
  "\<exists>l. x_trace (exec_round txt wall driver x) = x_trace x @ l \<and> not_again l \<and> length (filter legacy_timeout l) \<le> 6"
proof -
  obtain l sk where l: "x_trace (exec_round txt wall driver x) = x_trace x @ l" "watch [] l = Some sk"
    using exec_round_in_round [of x "txt" wall driver] by (auto simp: in_round_def)
  then show ?thesis
    using watch_not_again [OF l(2)] watch_legacy [OF l(2)] by (auto simp: legacy_timeout_limit_def)
qed

section \<open>No block starves\<close>

lemma read_block_sends:
  assumes "x_skips x = []" "hub_request i (x_hub x) = (obj, meth, args)"
  shows "\<exists>r. x_trace (read_block txt wall i x) = x_trace x @ [TCall True False obj meth args r]"
  using assms by (simp add: read_block_def call_here_def raw_call_def skipped_def is_skipped_def Let_def split: prod.split)
    (simp add: backend_answers_def Let_def)

text \<open>
  A round starts with the block under the cursor, which is where the budget cut the round before: if that
  block is due once the waiting jobs are done, its request is the first thing the round sends, whatever the other
  blocks cost. So a block that a round did not get to is not passed over again.
\<close>

theorem cursor_block_read_first:
  assumes "0 < cf_budget (x_cfg x)" "h_blocks (x_hub x) \<noteq> []"
    and "i = x_cursor x mod length (h_blocks (x_hub x))"
    and "y = drain (x\<lparr>x_skips := [], x_used := 0, x_cut_logged := False, x_in_round := True\<rparr>)"
    and "hub_due i (x_now y) (x_schedule y) (x_hub y)"
    and "hub_request i (x_hub y) = (obj, meth, args)"
  shows "\<exists>r l. x_trace (exec_round txt wall driver x) = x_trace y @ TCall True False obj meth args r # l"
proof -
  let ?x = "x\<lparr>x_skips := [], x_used := 0, x_cut_logged := False, x_in_round := True\<rparr>"
  have y: "x_skips y = []" "x_used y = 0" "x_cfg y = x_cfg x"
    using outside_drain [of ?x] by (auto simp: assms(4) outside_round_def)
  obtain "is" where "is": "map (\<lambda>k. (x_cursor x mod length (h_blocks (x_hub x)) + k) mod length (h_blocks (x_hub x)))
      [0..<length (h_blocks (x_hub x))] = i # is"
    using assms(2,3) by (cases "length (h_blocks (x_hub x))") (auto simp: upt_rec)
  define z where "z = read_block txt wall i y"
  have rb: "read_blocks txt wall ?x = read_from txt wall is z"
    using assms(1,2,5) y "is" by (simp add: read_blocks_def Let_def assms(4) [symmetric] z_def)
  obtain r where r: "x_trace z = x_trace y @ [TCall True False obj meth args r]"
    using read_block_sends [OF y(1) assms(6), of "txt" wall] by (auto simp: z_def)
  have "in_round z (exec_round txt wall driver x)"
    using in_round_trans [OF read_from_in_round exec_round_rest [of "txt" wall x driver, unfolded rb]] .
  then show ?thesis using r by (auto simp: in_round_def)
qed


section \<open>A concrete executor\<close>

definition ex_env :: "nat \<Rightarrow> nat \<times> (ubus_error + json)" where
  "ex_env n = (1, if n = 0 then Err (UTimeout [] ''late'') else Ok (JObject []))"

definition ex_exec :: exec where
  "ex_exec = exec_new (hub_new ex_specs) config_default 1000 ex_env 100"

definition ex_pushes :: "exec_cmd list" where
  "ex_pushes = [XPush (Job True 5 [APush (Job False 7 [])]), XPush (Job False 6 [])]"

theorem jobs_in_order_witness:
  "let x = fold (x_exec (\<lambda>_. [])) ex_pushes ex_exec; y = fold (x_exec (\<lambda>_. [])) [XTurn None 0 False 200 [] 0] x in
     accepted x = [5, 6] \<and> x_controls x = 1 \<and> (started y @ map j_id (x_jobs y)) ! 0 = 5"
proof -
  have acc: "accepted (fold (x_exec (\<lambda>_. [])) ex_pushes ex_exec) = [5, 6]"
    "x_controls (fold (x_exec (\<lambda>_. [])) ex_pushes ex_exec) = 1"
    by (simp_all add: ex_pushes_def ex_exec_def exec_new_def push_def queue_of_def List.map_filter_def config_default_def control_queue_cap_def)
  show ?thesis
    using jobs_in_order [of "\<lambda>_. []" ex_pushes "hub_new ex_specs" config_default 1000 ex_env 100
        "[XTurn None 0 False 200 [] 0]" 0, folded ex_exec_def] acc
    by (simp add: Let_def)
qed

theorem write_waits_for_gate_witness:
  "let x = ex_exec\<lparr>x_writing := True, x_gate := Some ''zwrt_wms''\<rparr> in
   \<exists>rs r. x_trace (snd (call_here False False ''zwrt_data'' ''set'' (JObject []) x))
       = x_trace x @ probe_events (''zwrt_wms'', ''zwrt_wms_get_wms_capacity'', JObject []) rs
         @ [TCall False False ''zwrt_data'' ''set'' (JObject []) r]
     \<and> length rs \<le> 4 \<and> (length rs = 4 \<or> rs \<noteq> [] \<and> \<not> is_timeout_error (last rs))"
proof -
  let ?x = "ex_exec\<lparr>x_writing := True, x_gate := Some ''zwrt_wms''\<rparr>"
  have "probe_for ''zwrt_wms'' ?x = (''zwrt_wms'', ''zwrt_wms_get_wms_capacity'', JObject [])"
    by (simp add: probe_for_def probes_def)
  with write_waits_for_gate [of ?x "''zwrt_wms''" False "''zwrt_data''" "''set''" "JObject []"] show ?thesis by auto
qed

theorem cursor_block_read_first_witness:
  "\<exists>r l. x_trace (exec_round (\<lambda>_. []) 0 None ex_exec)
     = x_trace (drain (ex_exec\<lparr>x_skips := [], x_used := 0, x_cut_logged := False, x_in_round := True\<rparr>))
       @ TCall True False ''zwrt_bsp.battery'' ''list'' (JObject []) r # l"
proof (rule cursor_block_read_first [where i = 0])
  let ?x = "ex_exec\<lparr>x_skips := [], x_used := 0, x_cut_logged := False, x_in_round := True\<rparr>"
  have d: "drain ?x = ?x" by (simp add: drain_def ex_exec_def exec_new_def)
  show "0 < cf_budget (x_cfg ex_exec)"
    by (simp add: ex_exec_def exec_new_def config_default_def round_budget_def of_secs_def)
  show "h_blocks (x_hub ex_exec) \<noteq> []" "0 = x_cursor ex_exec mod length (h_blocks (x_hub ex_exec))"
    by (simp_all add: ex_exec_def exec_new_def ex_specs_def hub_new_def)
  show "hub_due 0 (x_now (drain ?x)) (x_schedule (drain ?x)) (x_hub (drain ?x))"
    "hub_request 0 (x_hub (drain ?x)) = (''zwrt_bsp.battery'', ''list'', JObject [])"
    unfolding d by (simp_all add: ex_exec_def exec_new_def hub_due_def hub_request_def ex_specs_def hub_new_def block_new_def spec_new_def Let_def)
qed (rule refl)

end
