(* ===== verification/Listen.thy ===== *)
theory Listen
  imports Executor Qos Op_Words
begin

text \<open>
  The listener for events of the vendor firmware (\<open>ubus/listen.rs\<close>), the runner of child processes
  (\<open>command.rs\<close>) and the watchdog's limit (\<open>watchdog.rs\<close>). Instants are nanoseconds. The operating system appears as
  what it answers: the lines and the end of the child's output, the times at which events arrive, the exit status.

  Proved: every event is answered by a call of its handler after it, within the larger of the two waiting times,
  and two calls are at least the minimum interval apart; the pause before the listener is started again stays
  between one and thirty seconds and grows by doubling until a run lasted a minute; a child's output is only
  returned whole, bounded and with a successful exit within the deadline.
\<close>

section \<open>Events\<close>

definition debounce_window :: nat where "debounce_window = 300 * 1000000"
definition kick_min_interval :: nat where "kick_min_interval = of_secs 2"
definition usb_kick_min_interval :: nat where "usb_kick_min_interval = of_secs 1"
definition backoff_min :: nat where "backoff_min = of_secs 1"
definition backoff_max :: nat where "backoff_max = of_secs 30"
definition healthy_run :: nat where "healthy_run = of_secs 60"

definition enabled_from :: "string option \<Rightarrow> bool" where
  "enabled_from v \<longleftrightarrow> map_option trim v \<noteq> Some ''0''"

definition event_of :: "(string \<Rightarrow> json option) \<Rightarrow> string \<Rightarrow> string list \<Rightarrow> nat option" where
  "event_of parse_json l events =
     (case parse_json l of
        Some (JObject (e # _)) \<Rightarrow> position (\<lambda>n. n = fst e) events
      | _ \<Rightarrow> None)"

text \<open>
  The debouncer on the arrival times of its events, in order, with the time of the last call: it waits for the window
  and for the minimum interval, takes everything that has arrived by then, and calls the handler once.
\<close>

function debounce :: "nat \<Rightarrow> nat \<Rightarrow> nat option \<Rightarrow> nat list \<Rightarrow> nat list" where
  "debounce window interval prev [] = []"
| "debounce window interval prev (t # ts) =
     (let started = (case prev of Some p \<Rightarrow> max t p | None \<Rightarrow> t);
          fire = (case prev of Some p \<Rightarrow> max (started + window) (p + interval) | None \<Rightarrow> started + window)
      in fire # debounce window interval (Some fire) (dropWhile (\<lambda>x. x \<le> fire) ts))"
  by pat_completeness auto

termination by (relation "measure (\<lambda>(window, interval, prev, ts). length ts)") (auto simp: less_Suc_eq_le length_dropWhile_le)

lemma dropWhile_later: "sorted ts \<Longrightarrow> \<forall>x \<in> set (dropWhile (\<lambda>x. x \<le> f) ts). f < (x :: nat)"
proof (induction ts)
  case (Cons t ts)
  then show ?case by (cases "t \<le> f") auto
qed simp

lemma dropWhile_cases: "x \<in> set ts \<Longrightarrow> x \<in> set (dropWhile (\<lambda>y. y \<le> f) ts) \<or> x \<le> (f :: nat)"
  by (induction ts) (auto split: if_splits)

lemma sorted_dropWhile_le: "sorted ts \<Longrightarrow> sorted (dropWhile P ts)"
  by (metis sorted_wrt_drop dropWhile_eq_drop)

lemma debounce_serves:
  assumes "sorted ts" "\<forall>p. prev = Some p \<longrightarrow> (\<forall>t \<in> set ts. p < t)" "t \<in> set ts"
  shows "\<exists>f \<in> set (debounce window interval prev ts). t \<le> f \<and> f \<le> t + max window interval"
  using assms
proof (induction "length ts" arbitrary: prev ts rule: less_induct)
  case less
  then obtain t0 us where ts: "ts = t0 # us" by (cases ts) auto
  define fire where "fire = (case prev of Some p \<Rightarrow> max (max t0 p + window) (p + interval) | None \<Rightarrow> t0 + window)"
  let ?rest = "dropWhile (\<lambda>x. x \<le> fire) us"
  have fires: "debounce window interval prev ts = fire # debounce window interval (Some fire) ?rest"
    by (simp add: ts fire_def Let_def split: option.split)
  have bound: "t0 \<le> fire \<and> fire \<le> t0 + max window interval"
    using less.prems(2) ts by (auto simp: fire_def split: option.split)
  have t0: "t0 \<le> t" using less.prems(1,3) ts by auto
  show ?case
  proof (cases "t \<le> fire")
    case True
    then have "t \<le> fire \<and> fire \<le> t + max window interval" using bound t0 by linarith
    then show ?thesis using fires by auto
  next
    case False
    then have mem: "t \<in> set ?rest" using dropWhile_cases [of t us fire] less.prems(3) ts bound by auto
    have shorter: "length ?rest < length ts" using ts by (simp add: less_Suc_eq_le length_dropWhile_le)
    have "sorted us" using less.prems(1) ts by simp
    then have "sorted ?rest" "\<forall>p. Some fire = Some p \<longrightarrow> (\<forall>x \<in> set ?rest. p < x)"
      using dropWhile_later [of us fire] by (simp_all add: sorted_dropWhile_le)
    from less.hyps [OF shorter this mem] show ?thesis using fires by auto
  qed
qed

lemma debounce_after:
  "\<forall>f \<in> set (debounce window interval (Some p) ts). p + interval \<le> f"
proof (induction window interval "Some p" ts arbitrary: p rule: debounce.induct)
  case (2 window interval t ts)
  then show ?case by (fastforce simp: Let_def)
qed simp

lemma debounce_apart: "sorted_wrt (\<lambda>a b. a + interval \<le> b) (debounce window interval prev ts)"
proof (induction window interval prev ts rule: debounce.induct)
  case (2 window interval prev t ts)
  then show ?case using debounce_after by (auto simp: Let_def)
qed simp

text \<open>
  Every event of the firmware leads to a call of its handler, no earlier than the event and no later than
  the larger of window and minimum interval after it, so that no event is lost and the last burst is served too; and
  two calls are at least the minimum interval apart, however dense the events are.
\<close>

theorem every_event_is_served:
  assumes "sorted ts"
  shows "list_all (\<lambda>t. \<exists>f \<in> set (debounce window interval None ts). t \<le> f \<and> f \<le> t + max window interval) ts \<and>
    sorted_wrt (\<lambda>a b. a + interval \<le> b) (debounce window interval None ts)"
  using debounce_serves [OF assms, of None] debounce_apart by (simp add: list_all_iff)

theorem every_event_is_served_witness:
  "sorted [0, 100 * 1000000, of_secs 1] \<and>
   debounce debounce_window kick_min_interval None [0, 100 * 1000000, of_secs 1] = [300 * 1000000, 2300 * 1000000] \<and>
   (\<exists>f \<in> set (debounce debounce_window kick_min_interval None [0, 100 * 1000000, of_secs 1]). of_secs 1 \<le> f \<and> f \<le> of_secs 3)"
proof -
  have s: "sorted [0, 100 * 1000000, of_secs 1]" by (simp add: of_secs_def)
  have "debounce debounce_window kick_min_interval None [0, 100 * 1000000, of_secs 1] = [300 * 1000000, 2300 * 1000000]"
    by (simp add: debounce_window_def kick_min_interval_def of_secs_def Let_def)
  then show ?thesis using s every_event_is_served [OF s, of debounce_window kick_min_interval]
    by (simp add: debounce_window_def kick_min_interval_def of_secs_def)
qed

section \<open>The listener's process\<close>

datatype listen_input = Line string | Eof | ReadError string | Stopped

datatype child_end = Killed | Waited | Dropped

definition stopped_text :: string where "stopped_text = ''datad '' @ utf8 [0x9000, 0x51FA]"

text \<open>
  Reading the child's output until it ends: the events sent to the handlers, whether a handler is gone, what became of
  the child (killed and waited for, waited for after the end of its output, or dropped, which kills it), and the text.
  \<open>wait_text\<close> is the text of the exit status.
\<close>

fun read_lines :: "(string \<Rightarrow> json option) \<Rightarrow> string list \<Rightarrow> (nat \<Rightarrow> bool) \<Rightarrow> string \<Rightarrow> listen_input list \<Rightarrow> nat list \<Rightarrow>
    nat list \<times> child_end \<times> string" where
  "read_lines parse_json events gone wait_text [] sent = (sent, Dropped, [])"
| "read_lines parse_json events gone wait_text (x # xs) sent =
     (case x of
        Line l \<Rightarrow>
          (case event_of parse_json l events of
             Some i \<Rightarrow> if gone i then (sent, Dropped, stopped_text) else read_lines parse_json events gone wait_text xs (sent @ [i])
           | None \<Rightarrow> read_lines parse_json events gone wait_text xs sent)
      | Stopped \<Rightarrow> (sent, Killed, stopped_text)
      | Eof \<Rightarrow> (sent, Waited, wait_text)
      | ReadError e \<Rightarrow> (sent, Killed, utf8 [0x8BFB, 0x53D6, 0x51FA, 0x9519, 0xFF1A] @ e))"

definition run_once :: "(string \<Rightarrow> json option) \<Rightarrow> string list \<Rightarrow> (nat \<Rightarrow> bool) \<Rightarrow> string \<Rightarrow> bool \<Rightarrow> string + listen_input list \<Rightarrow>
    nat list \<times> string" where
  "run_once parse_json events gone wait_text stop spawned =
     (if stop then ([], stopped_text)
      else case spawned of
        Err e \<Rightarrow> ([], utf8 [0x8D77, 0x4E0D, 0x6765, 0xFF1A] @ e)
      | Ok inputs \<Rightarrow> (case read_lines parse_json events gone wait_text inputs [] of (sent, _, text) \<Rightarrow> (sent, text)))"

record supervisor =
  su_backoff :: nat
  su_failing :: bool

definition supervisor_new :: supervisor where
  "supervisor_new = \<lparr>su_backoff = backoff_min, su_failing = False\<rparr>"

text \<open>One turn after a run of the given length: the lines logged, the pause, and the next state.\<close>

definition supervise_turn :: "nat \<Rightarrow> supervisor \<Rightarrow> nat \<times> nat \<times> supervisor" where
  "supervise_turn elapsed s =
     (let s = (if elapsed \<ge> healthy_run then supervisor_new else s);
          first = (if su_failing s then 0 else 1);
          pause = su_backoff s;
          nxt = min (pause * 2) backoff_max;
          second = (if nxt = backoff_max \<and> pause \<noteq> backoff_max then 1 else 0)
      in (first + second, pause, \<lparr>su_backoff = nxt, su_failing = True\<rparr>))"

fun supervise :: "nat list \<Rightarrow> supervisor \<Rightarrow> (nat \<times> nat) list" where
  "supervise [] s = []"
| "supervise (e # es) s = (case supervise_turn e s of (logged, pause, s') \<Rightarrow> (logged, pause) # supervise es s')"

definition sup_ok :: "supervisor \<Rightarrow> bool" where
  "sup_ok s \<longleftrightarrow> backoff_min \<le> su_backoff s \<and> su_backoff s \<le> backoff_max"

lemma supervise_turn_ok: "sup_ok s \<Longrightarrow> supervise_turn e s = (n, p, s') \<Longrightarrow> sup_ok s' \<and> backoff_min \<le> p \<and> p \<le> backoff_max"
  by (auto simp: sup_ok_def supervise_turn_def Let_def supervisor_new_def backoff_min_def backoff_max_def of_secs_def)

theorem pause_bounded: "sup_ok s \<Longrightarrow> list_all (\<lambda>(_, p). backoff_min \<le> p \<and> p \<le> backoff_max) (supervise es s)"
proof (induction es arbitrary: s)
  case (Cons e es)
  then show ?case using supervise_turn_ok [OF Cons.prems, of e] by (cases "supervise_turn e s") auto
qed simp

text \<open>A child that fails at once again and again: the pause doubles up to the limit.\<close>

lemma min_double: "min (min (b * 2) m * 2 ^ j) m = min (b * 2 ^ Suc j) (m :: nat)"
proof (cases "b * 2 \<le> m")
  case False
  have "b * 2 \<le> b * 2 * 2 ^ j" by simp
  then have "m \<le> b * 2 * 2 ^ j" using False by linarith
  then have r: "min (b * 2 ^ Suc j) m = m" by (intro min_absorb2) (simp add: mult.assoc)
  have l: "min (m * 2 ^ j) m = m" by (rule min_absorb2) simp
  have "min (b * 2) m = m" using False by simp
  then show ?thesis by (simp only: l r)
qed (simp add: min_def mult.assoc)

lemma failing_pauses:
  assumes "list_all (\<lambda>e. e < healthy_run) es" "su_backoff s \<le> backoff_max" "i < length es"
  shows "snd (supervise es s ! i) = min (su_backoff s * 2 ^ i) backoff_max"
  using assms
proof (induction es arbitrary: s i)
  case (Cons e es)
  let ?s' = "\<lparr>su_backoff = min (su_backoff s * 2) backoff_max, su_failing = True\<rparr>"
  have turn: "supervise (e # es) s = (fst (supervise_turn e s), su_backoff s) # supervise es ?s'"
    using Cons.prems(1) by (simp add: supervise_turn_def Let_def)
  show ?case
  proof (cases i)
    case 0
    then show ?thesis using Cons.prems(2) by (simp only: turn) simp
  next
    case (Suc j)
    have "snd (supervise es ?s' ! j) = min (min (su_backoff s * 2) backoff_max * 2 ^ j) backoff_max"
      using Cons.IH [of ?s' j] Cons.prems Suc by simp
    also have "\<dots> = min (su_backoff s * 2 ^ i) backoff_max" using Suc min_double by simp
    finally show ?thesis using Suc by (simp only: turn) simp
  qed
qed simp

section \<open>Child processes\<close>

definition max_output :: nat where "max_output = 1024 * 1024"

text \<open>
  A child as the runner sees it: the bytes it writes and when they are read to the end or to the limit, an error of
  reading, when it exits and with what status (success and text).
\<close>

record child =
  ch_out :: string
  ch_read_at :: nat
  ch_read_error :: "string option"
  ch_exit_at :: nat
  ch_status :: "string + bool \<times> string"

definition collect_output :: "child \<Rightarrow> nat \<times> (string + (bool \<times> string) option \<times> string)" where
  "collect_output ch =
     (let buf = take (max_output + 1) (ch_out ch)
      in case ch_read_error ch of
           Some e \<Rightarrow> (ch_read_at ch, Err e)
         | None \<Rightarrow>
             if length buf > max_output then (ch_read_at ch, Ok (None, buf))
             else (max (ch_read_at ch) (ch_exit_at ch),
                   case ch_status ch of Err e \<Rightarrow> Err e | Ok st \<Rightarrow> Ok (Some st, buf)))"

definition command_output :: "string \<Rightarrow> string + child \<Rightarrow> nat \<Rightarrow> string + string" where
  "command_output program spawned deadline =
     (case spawned of
        Err _ \<Rightarrow> Err (''spawn '' @ program)
      | Ok ch \<Rightarrow>
          (case collect_output ch of (t, r) \<Rightarrow>
             if t > deadline then Err (program @ '' timed out'')
             else case r of
               Err e \<Rightarrow> Err e
             | Ok (None, _) \<Rightarrow> Err (program @ '' output exceeds limit'')
             | Ok (Some (success, text), out) \<Rightarrow>
                 if success then Ok out else Err (program @ '' exited with '' @ text)))"

theorem run_output_sound:
  assumes "command_output program spawned deadline = Ok out"
  shows "\<exists>ch text. spawned = Ok ch \<and> out = ch_out ch \<and> length out \<le> max_output \<and> ch_status ch = Ok (True, text) \<and>
    ch_exit_at ch \<le> deadline"
  using assms by (auto simp: command_output_def collect_output_def Let_def max_output_def split: sum.splits option.splits if_splits prod.splits)

section \<open>The watchdog's limit\<close>

definition default_limit :: nat where "default_limit = of_secs 30"

definition limit_from_env :: "string option \<Rightarrow> nat option" where
  "limit_from_env v =
     (let floor_at = (\<lambda>n. max n (call_limit + of_secs 1))
      in case v of
           None \<Rightarrow> Some (floor_at default_limit)
         | Some s \<Rightarrow>
             (case parse_u64 (trim s) of
                Some n \<Rightarrow> if n = 0 then None else Some (floor_at (of_secs (unat n)))
              | None \<Rightarrow> Some (floor_at default_limit)))"

text \<open>Whatever is configured, a call within its own limit is never taken for a stall.\<close>

theorem watchdog_limit_above_call: "limit_from_env v = Some l \<Longrightarrow> call_limit + of_secs 1 \<le> l"
  by (auto simp: limit_from_env_def Let_def split: option.splits if_splits)

definition exit_stalled :: nat where "exit_stalled = 70"

fun watch_loop :: "nat \<Rightarrow> (nat \<times> liveness) list \<Rightarrow> nat option" where
  "watch_loop limit [] = None"
| "watch_loop limit ((now, l) # rest) = (if stalled now limit l then Some exit_stalled else watch_loop limit rest)"
end
