(* ===== verification/Service.thy ===== *)
theory Service
  imports State_Collect Listen Server Op_Words Engine_Run
begin

text \<open>
  The application object of \<^verbatim>\<open>rust/src/server.rs\<close>: its start in stages, the snapshot the rounds replace, and the
  endpoints that serve it. The service listens before the first round, so requests, rounds and the start run beside
  each other; a step here is one atomic part of one of them. The channel \<open>tx\<close>, on which snapshots are sent too, has no
  receiver any more (the old event stream was removed) and is left out.
\<close>

section \<open>Snapshots\<close>

lemma size_snd_less: "p \<in> set xs \<Longrightarrow> size (snd p) < Suc (size_list (size_prod (\<lambda>x. 0) size) xs)"
  by (induction xs) auto

text \<open>
  Equality of \<open>serde_json\<close> values; \<open>feq\<close> is \<open>==\<close> on the bits of two finite \<open>f64\<close>, the only ones a value holds, so that it is
  reflexive there.
\<close>

function value_eq :: "(u64 \<Rightarrow> u64 \<Rightarrow> bool) \<Rightarrow> json \<Rightarrow> json \<Rightarrow> bool" where
  "value_eq feq a b =
     (case (a, b) of
        (JNumber (Float x), JNumber (Float y)) \<Rightarrow> feq x y
      | (JArray xs, JArray ys) \<Rightarrow> length xs = length ys \<and> (\<forall>(x, y) \<in> set (zip xs ys). value_eq feq x y)
      | (JObject xs, JObject ys) \<Rightarrow> length xs = length ys \<and>
          (\<forall>(x, y) \<in> set (zip xs ys). fst x = fst y \<and> value_eq feq (snd x) (snd y))
      | _ \<Rightarrow> a = b)"
  by auto

termination
  by (relation "measure (\<lambda>(f, a, b). size a)")
    (auto dest!: set_zip_leftD simp: less_Suc_eq_le size_list_estimation' intro: size_snd_less [THEN less_Suc_eq_le [THEN iffD1]] order_trans)

declare value_eq.simps [simp del]

definition float_refl_eq :: "(u64 \<Rightarrow> u64 \<Rightarrow> bool) \<Rightarrow> bool" where "float_refl_eq feq \<longleftrightarrow> (\<forall>x. feq x x)"

lemma value_eq_refl: "float_refl_eq feq \<Longrightarrow> value_eq feq v v"
proof (induction "size v" arbitrary: v rule: less_induct)
  case less
  show ?case
  proof (cases v)
    case (JArray xs)
    have "value_eq feq x x" if "x \<in> set xs" for x
      using less that by (simp add: JArray less_Suc_eq_le size_list_estimation')
    then show ?thesis by (subst value_eq.simps) (auto simp: JArray zip_same_conv_map)
  next
    case (JObject xs)
    have "value_eq feq (snd x) (snd x)" if "x \<in> set xs" for x
      using less(1) [of "snd x"] less(2) size_snd_less [OF that] by (simp add: JObject)
    then show ?thesis by (subst value_eq.simps) (auto simp: JObject zip_same_conv_map)
  qed (use less(2) in \<open>auto simp: value_eq.simps float_refl_eq_def split: number.split\<close>)
qed

definition same_content :: "(u64 \<Rightarrow> u64 \<Rightarrow> bool) \<Rightarrow> snapshot_data \<Rightarrow> snapshot_data \<Rightarrow> bool" where
  "same_content feq a b \<longleftrightarrow> value_eq feq (JObject (sd_fields a)) (JObject (sd_fields b))"

text \<open>The snapshot as JSON: the fields are flattened into the object of \<open>ts\<close> and \<open>datad\<close>.\<close>

definition datad_version :: "string \<Rightarrow> json" where
  "datad_version ver = jobj [(''name'', JString ''zwrt-datad''), (''version'', JString ver)]"

definition snapshot_value :: "string \<Rightarrow> snapshot_data \<Rightarrow> json" where
  "snapshot_value ver sn = JObject (put_all (sd_fields sn) (map_from [(''ts'', jnum (sd_ts sn)), (''datad'', datad_version ver)]))"

section \<open>The engine's part of the screen\<close>

definition engine_screen :: "u64 \<Rightarrow> 'b engine \<Rightarrow> screen_line option \<times> json" where
  "engine_screen now e =
     (screen_line_of (e_active e) (map_option (\<lambda>l. (l_txn l, l_acked l)) (e_last e)) now, block_json now e)"

text \<open>What the environment configures of the engine.\<close>

definition env_ms :: "(string \<Rightarrow> string option) \<Rightarrow> string \<Rightarrow> u64 \<Rightarrow> u64" where
  "env_ms env name dflt =
     (case Option.bind (env name) parse_u64 of Some v \<Rightarrow> if v > 0 then v else dflt | None \<Rightarrow> dflt)"

record op_config =
  oc_rollback :: bool
  oc_poll_ms :: u64
  oc_legacy_ttl_ms :: u64

definition config_from_env :: "(string \<Rightarrow> string option) \<Rightarrow> op_config" where
  "config_from_env env =
     \<lparr>oc_rollback = (env ''ZWRT_DATAD_ROLLBACK'' = Some ''1''), oc_poll_ms = env_ms env ''ZWRT_DATAD_OP_POLL_MS'' 2000,
      oc_legacy_ttl_ms = env_ms env ''ZWRT_DATAD_LEGACY_TTL_MS'' 120000\<rparr>"

lemma config_positive: "oc_poll_ms (config_from_env env) > 0" "oc_legacy_ttl_ms (config_from_env env) > 0"
  by (simp_all add: config_from_env_def env_ms_def split: option.split)

section \<open>The application\<close>

text \<open>
  \<open>start\<close> runs through positions: \<open>AtFirst\<close> before the first round, \<open>AtStage\<close> before the stage is raised, \<open>AtResume\<close>
  before the saved transaction is resumed, \<open>AtObserve\<close> before the block of the engine is connected, \<open>AtReady\<close> before
  the last stage, \<open>AtEnd\<close>.
\<close>

datatype start_pc = AtFirst | AtStage | AtResume | AtObserve | AtReady | AtEnd

record ('f, 'b) app =
  ap_pc :: start_pc
  ap_stage :: stage
  ap_snap :: snapshot_data
  ap_eng :: "'b engine"
  ap_hub :: hub
  ap_ring :: ring
  ap_host :: host_mem
  ap_coll :: "'f collector"

definition placeholder :: snapshot_data where "placeholder = \<lparr>sd_ts = 0, sd_fields = []\<rparr>"

text \<open>\<open>bs\<close> are the block specifications of \<open>phase1_blocks\<close>.\<close>

definition app_new :: "(string \<Rightarrow> string option) \<Rightarrow> block_spec list \<Rightarrow> 'b store \<Rightarrow> 'f collector \<Rightarrow> ('f, 'b) app" where
  "app_new env bs s c =
     \<lparr>ap_pc = AtFirst, ap_stage = Starting, ap_snap = placeholder,
      ap_eng = e_new (oc_rollback (config_from_env env)) (oc_legacy_ttl_ms (config_from_env env)) s,
      ap_hub = hub_new bs, ap_ring = [], ap_host = \<lparr>hm_cpu = [], hm_link = [], hm_ring = []\<rparr>, ap_coll = c\<rparr>"

text \<open>One collection: the snapshot it gives, and the application with its hub, ring, counters and caches.\<close>

definition app_collect :: "('f, 'g) site \<Rightarrow> 'x screen_floats \<Rightarrow> u64 \<Rightarrow> (dev_event list \<Rightarrow> u64) \<Rightarrow> ('f, 'b) app \<Rightarrow>
    snapshot_data \<times> ('f, 'b) app" where
  "app_collect S fl interval wall a =
     (let ((sn, h, rg, hm), c) = run_state (collect_round S fl interval wall (ap_hub a) (ap_ring a) (ap_host a)) (ap_coll a)
      in (sn, a\<lparr>ap_hub := h, ap_ring := rg, ap_host := hm, ap_coll := c\<rparr>))"

definition refresh_snapshot :: "(u64 \<Rightarrow> u64 \<Rightarrow> bool) \<Rightarrow> ('f, 'g) site \<Rightarrow> 'x screen_floats \<Rightarrow> u64 \<Rightarrow> (dev_event list \<Rightarrow> u64) \<Rightarrow> u64 \<Rightarrow>
    ('f, 'b) app \<Rightarrow> snapshot_data \<times> ('f, 'b) app" where
  "refresh_snapshot feq S fl interval wall now a =
     (let (nxt, a) = app_collect S fl interval wall a;
          a = a\<lparr>ap_eng := e_publish now (ap_eng a)\<rparr>
      in (nxt, a\<lparr>ap_snap := if \<not> same_content feq nxt (ap_snap a) then nxt else (ap_snap a)\<lparr>sd_ts := sd_ts nxt\<rparr>\<rparr>))"

section \<open>Endpoints\<close>

definition screen_json :: "int \<Rightarrow> json \<Rightarrow> json \<Rightarrow> nat \<Rightarrow> json" where
  "screen_json ts net op age =
     jobj [(''v'', jnum 1), (''ts'', jnum ts), (''net'', net), (''op'', op), (''exec_age_ms'', jnat age)]"

text \<open>\<open>net_json\<close> is the derived serialisation of the view.\<close>

definition v2_screen :: "('x net_view \<Rightarrow> json) \<Rightarrow> string \<Rightarrow> 'x screen_floats \<Rightarrow> (json \<Rightarrow> string) \<Rightarrow> u64 \<Rightarrow> nat \<Rightarrow> ('f, 'b) app \<Rightarrow> json" where
  "v2_screen net_json ver fl ser now age a =
     (let (line, op) = engine_screen now (ap_eng a)
      in screen_json (sd_ts (ap_snap a))
           (net_json (net_view_op fl ser (snapshot_value ver (ap_snap a)) (ring_window (ap_ring a)) line)) op age)"

definition gone :: response where
  "gone = Reply 410 (jobj [(''ok'', JBool False), (''error'', jobj [(''code'', JString ''gone''),
     (''message'', JString ''removed; use /v2/state and /v2/events'')])])"

definition sse_limit :: response where
  "sse_limit = Reply 503 (jobj [(''ok'', JBool False), (''error'', jobj [(''code'', JString ''sse_client_limit''),
     (''message'', JString ''too many SSE clients'')])])"


section \<open>Events of the firmware\<close>

record handler =
  hd_event :: string
  hd_min_interval :: nat
  hd_drops_sms :: bool
  hd_blocks :: "string list"

definition event_handlers :: "handler list" where
  "event_handlers =
     (let usb = [''typec'', ''powerbank'', ''charger'']
      in [\<lparr>hd_event = ''zwrt_wms_status_event'', hd_min_interval = kick_min_interval, hd_drops_sms = True, hd_blocks = [''sms'']\<rparr>,
          \<lparr>hd_event = ''BSP_TYPEC_EVENT'', hd_min_interval = usb_kick_min_interval, hd_drops_sms = False, hd_blocks = usb\<rparr>,
          \<lparr>hd_event = ''BSP_POWERBANK_EVENT'', hd_min_interval = usb_kick_min_interval, hd_drops_sms = False, hd_blocks = usb\<rparr>])"

definition fire :: "handler \<Rightarrow> 'f collector \<times> exec \<Rightarrow> 'f collector \<times> exec" where
  "fire h cx = (let (c, x) = cx in (if hd_drops_sms h then invalidate_sms_cache c else c, kick (hd_blocks h) x))"

text \<open>After an SMS event the next round reads capacity and lists from the device, and starts at once.\<close>

lemma sms_event_rereads:
  assumes "is_sms_key k" "fire (hd event_handlers) (c, x) = (c', x')"
  shows "cache_find (co_ubus c') k = None" "x_kick x'"
  using assms by (auto simp: fire_def event_handlers_def Let_def kick_def cache_find_sms)

lemma usb_event_marks:
  assumes "i < length (h_blocks (x_hub x))" "bk_name (h_blocks (x_hub x) ! i) \<in> {''typec'', ''powerbank'', ''charger''}"
    "h \<in> set (tl event_handlers)"
  shows "bk_immediate (h_blocks (x_hub (snd (fire h (c, x)))) ! i)"
  using assms by (auto simp: fire_def event_handlers_def Let_def kick_def mark_immediate_def)

section \<open>Steps\<close>

text \<open>
  \<open>SvOther\<close> stands for requests, control jobs, block readings, listeners and timers: they may change the engine, the
  hub, the ring and the device in any way, but not the snapshot and the stage. A step that collects is labelled with the
  snapshot it read.
\<close>

inductive app_step :: "(u64 \<Rightarrow> u64 \<Rightarrow> bool) \<Rightarrow> ('f, 'g) site \<Rightarrow> 'x screen_floats \<Rightarrow> ('f, 'b) app \<Rightarrow> snapshot_data option \<Rightarrow> ('f, 'b) app \<Rightarrow> bool"
  for feq S fl where
  SvOther: "app_step feq S fl a None (a\<lparr>ap_eng := e, ap_hub := h, ap_ring := rg, ap_host := hm, ap_coll := c\<rparr>)"
| SvFirst: "ap_pc a = AtFirst \<Longrightarrow> app_collect S fl interval wall a = (sn, a') \<Longrightarrow>
    app_step feq S fl a (Some sn) (a'\<lparr>ap_snap := sn, ap_pc := AtStage\<rparr>)"
| SvStage: "ap_pc a = AtStage \<Longrightarrow> app_step feq S fl a None (a\<lparr>ap_stage := SnapshotReady, ap_pc := AtResume\<rparr>)"
| SvResume: "ap_pc a = AtResume \<Longrightarrow>
    app_step feq S fl a None (a\<lparr>ap_eng := snd (e_start bid now (ap_eng a)), ap_pc := AtObserve\<rparr>)"
| SvObserve: "ap_pc a = AtObserve \<Longrightarrow> app_step feq S fl a None (a\<lparr>ap_eng := set_observer now (ap_eng a), ap_pc := AtReady\<rparr>)"
| SvReady: "ap_pc a = AtReady \<Longrightarrow> app_step feq S fl a None (a\<lparr>ap_stage := Ready, ap_pc := AtEnd\<rparr>)"
| SvRound: "ap_pc a \<notin> {AtFirst, AtStage} \<Longrightarrow> refresh_snapshot feq S fl interval wall now a = (sn, a') \<Longrightarrow>
    app_step feq S fl a (Some sn) a'"

text \<open>A run, with the snapshot of the latest round.\<close>

inductive app_run :: "(u64 \<Rightarrow> u64 \<Rightarrow> bool) \<Rightarrow> ('f, 'g) site \<Rightarrow> 'x screen_floats \<Rightarrow> snapshot_data option \<Rightarrow> ('f, 'b) app \<Rightarrow> bool"
  for feq S fl where
  new: "app_run feq S fl None (app_new env bs s c)"
| step: "app_run feq S fl l a \<Longrightarrow> app_step feq S fl a r a' \<Longrightarrow> app_run feq S fl (case r of Some sn \<Rightarrow> Some sn | None \<Rightarrow> l) a'"

definition pc_stage :: "start_pc \<Rightarrow> stage" where
  "pc_stage p = (case p of AtFirst \<Rightarrow> Starting | AtStage \<Rightarrow> Starting | AtEnd \<Rightarrow> Ready | _ \<Rightarrow> SnapshotReady)"

definition app_ok :: "(u64 \<Rightarrow> u64 \<Rightarrow> bool) \<Rightarrow> snapshot_data option \<Rightarrow> ('f, 'b) app \<Rightarrow> bool" where
  "app_ok feq l a \<longleftrightarrow> ap_stage a = pc_stage (ap_pc a) \<and>
     (case l of None \<Rightarrow> ap_pc a = AtFirst
      | Some sn \<Rightarrow> ap_pc a \<noteq> AtFirst \<and> sd_ts (ap_snap a) = sd_ts sn \<and> same_content feq sn (ap_snap a))"

lemma collect_keeps:
  assumes "app_collect S fl interval wall a = (sn, a')"
  shows "ap_pc a' = ap_pc a" "ap_stage a' = ap_stage a" "ap_snap a' = ap_snap a" "ap_eng a' = ap_eng a"
  using assms by (auto simp: app_collect_def split: prod.splits)

lemma same_content_ts [simp]: "same_content feq a (b\<lparr>sd_ts := t\<rparr>) = same_content feq a b"
  by (simp add: same_content_def)

lemma same_content_refl: "float_refl_eq feq \<Longrightarrow> same_content feq a a"
  by (simp add: same_content_def value_eq_refl)

lemma refresh_keeps:
  assumes "refresh_snapshot feq S fl interval wall now a = (sn, a')" "float_refl_eq feq"
  shows "ap_pc a' = ap_pc a" "ap_stage a' = ap_stage a" "sd_ts (ap_snap a') = sd_ts sn" "same_content feq sn (ap_snap a')"
  using assms collect_keeps [of S fl interval wall a] by (auto simp: refresh_snapshot_def Let_def same_content_refl split: prod.splits)

lemma app_step_ok: "app_step feq S fl a r a' \<Longrightarrow> app_ok feq l a \<Longrightarrow> float_refl_eq feq \<Longrightarrow>
    app_ok feq (case r of Some sn \<Rightarrow> Some sn | None \<Rightarrow> l) a'"
proof (induction rule: app_step.induct)
  case (SvFirst a interval wall sn a')
  then show ?case using collect_keeps [OF SvFirst(2)] by (auto simp: app_ok_def pc_stage_def same_content_refl)
next
  case (SvRound a interval wall now sn a')
  then show ?case using refresh_keeps [OF SvRound(2)] by (auto simp: app_ok_def split: option.splits)
qed (auto simp: app_ok_def pc_stage_def split: option.splits)

lemma app_run_ok: "app_run feq S fl l a \<Longrightarrow> float_refl_eq feq \<Longrightarrow> app_ok feq l a"
proof (induction rule: app_run.induct)
  case (step l a r a')
  then show ?case using app_step_ok by blast
qed (simp add: app_ok_def app_new_def pc_stage_def)

text \<open>
  Property C40. The placeholder of the start is never served: whenever a request is let through to an endpoint with
  device data (screen, state or event stream), at any moment of the start and beside any other activity, a round has
  been collected; the snapshot held then has the content and the time of the latest round, and the reply for the screen
  carries that time together with the state of the engine of this moment.
\<close>

theorem screen_serves_latest_round:
  assumes "app_run feq S fl l a" "float_refl_eq feq" "fst (admit lis token now (ap_stage a) rq ss) = Reaches ep"
    "ep \<in> {EpScreen, EpState, EpEvents}"
  shows "\<exists>sn. l = Some sn \<and> sd_ts (ap_snap a) = sd_ts sn \<and> same_content feq sn (ap_snap a) \<and>
    jget ''ts'' (v2_screen net_json ver fl ser t age a) = Some (jnum (sd_ts sn)) \<and>
    jget ''op'' (v2_screen net_json ver fl ser t age a) = Some (block_json t (ap_eng a))"
proof -
  have ok: "app_ok feq l a" using app_run_ok assms(1,2) by blast
  have "map_of (routes (li_open lis)) (rq_path rq) \<noteq> None \<and> starting_gate (ap_stage a) rq \<and> dispatch (li_open lis) rq = ep"
    using assms(3,4) by (auto simp: admit_def Let_def dispatch_def split: prod.splits if_splits option.splits)
  moreover from this have "rq_path rq \<in> {''/v2/screen'', ''/v2/state'', ''/v2/events''}"
    using assms(4) by (auto simp: dispatch_def routes_def split: if_splits)
  ultimately have "stage_rank SnapshotReady \<le> stage_rank (ap_stage a)"
    by (auto simp: starting_gate_def open_while_starting_def)
  then have "ap_pc a \<noteq> AtFirst" using ok by (auto simp: app_ok_def pc_stage_def stage_rank_def)
  then show ?thesis using ok
    by (auto simp: app_ok_def v2_screen_def screen_json_def engine_screen_def jget_jobj map_of_map_from split: option.splits)
qed

definition screen_request :: http_request where
  "screen_request = \<lparr>rq_method = Get, rq_path = ''/v2/screen'', rq_query = None, rq_headers = []\<rparr>"

definition local_listener :: listener where
  "local_listener = \<lparr>li_addr = V4 [127, 0, 0, 1], li_auth = False, li_open = False\<rparr>"

theorem screen_serves_latest_round_witness:
  "\<exists>(l :: snapshot_data option) (a :: (int, plain) app).
     app_run (=) plain_site plain_floats l a \<and> fst (admit local_listener None 0 (ap_stage a) screen_request []) = Reaches EpScreen \<and>
     (\<exists>sn. l = Some sn \<and> jget ''ts'' (v2_screen (\<lambda>_. JNull) ''1.0'' plain_floats (\<lambda>_. []) 5 0 a) = Some (jnum (sd_ts sn)))"
proof -
  define a0 :: "(int, plain) app" where "a0 = app_new (\<lambda>_. None) [] ex_store cache_start"
  obtain sn a1 where c: "app_collect plain_site plain_floats 1000 (\<lambda>_. 0) a0 = (sn, a1)" by fastforce
  define a2 where "a2 = a1\<lparr>ap_snap := sn, ap_pc := AtStage\<rparr>"
  define a3 where "a3 = a2\<lparr>ap_stage := SnapshotReady, ap_pc := AtResume\<rparr>"
  have "app_run (=) plain_site plain_floats None a0" unfolding a0_def by (rule app_run.new)
  from app_run.step [OF this SvFirst [OF _ c]] have "app_run (=) plain_site plain_floats (Some sn) a2"
    by (simp add: a0_def app_new_def a2_def)
  from app_run.step [OF this SvStage] have run: "app_run (=) plain_site plain_floats (Some sn) a3"
    by (simp add: a2_def a3_def)
  have adm: "fst (admit local_listener None 0 (ap_stage a3) screen_request []) = Reaches EpScreen"
    by (simp add: a3_def admit_def local_listener_def screen_request_def starting_gate_def stage_rank_def dispatch_def routes_def)
  have "jget ''ts'' (v2_screen (\<lambda>_. JNull) ''1.0'' plain_floats (\<lambda>_. []) 5 0 a3) = Some (jnum (sd_ts sn))"
    using screen_serves_latest_round [OF run _ adm] by (simp add: float_refl_eq_def)
  then show ?thesis using run adm by blast
qed

end
